(* ===== verification/Prelude.thy ===== *)
theory Prelude
  imports "HOL-Library.Word"
begin

text \<open>
  Shared vocabulary of the development: byte strings, the error monad that stands
  for Rust's \<open>Result\<close> with its question-mark operator, unsigned big-endian numbers, and
  the two codec interfaces every wire and storage format of the program is an
  instance of.  A Rust \<open>Result<T, E>\<close> is a value of \<open>'e + 't\<close>: \<open>Inl\<close> is \<open>Err\<close>, \<open>Inr\<close>
  is \<open>Ok\<close>.  A slice cursor is the list of the bytes not yet consumed.
\<close>

unbundle bit_operations_syntax

type_synonym byte = "8 word"
type_synonym bytes = "8 word list"
type_synonym u16 = "16 word"
type_synonym u32 = "32 word"
type_synonym u64 = "64 word"
type_synonym id16 = "128 word"
type_synonym key32 = "256 word"

named_theorems codec_simps \<open>round trips of the primitive decoders, as rewrite rules\<close>
named_theorems codec_dest \<open>what a successful primitive decoder says about its input\<close>
named_theorems wf_intros \<open>introduction rules for the well-formedness predicates\<close>

section \<open>Results\<close>

definition ok_then :: "'e + 'a \<Rightarrow> ('a \<Rightarrow> 'e + 'b) \<Rightarrow> 'e + 'b" where
  "ok_then m f = (case m of Inl e \<Rightarrow> Inl e | Inr x \<Rightarrow> f x)"

definition ensure :: "'e \<Rightarrow> bool \<Rightarrow> 'e + unit" where
  "ensure e b = (if b then Inr () else Inl e)"

definition ok_or :: "'e \<Rightarrow> 'a option \<Rightarrow> 'e + 'a" where
  "ok_or e m = (case m of None \<Rightarrow> Inl e | Some x \<Rightarrow> Inr x)"

definition map_err :: "('e \<Rightarrow> 'f) \<Rightarrow> 'e + 'a \<Rightarrow> 'f + 'a" where
  "map_err g m = (case m of Inl e \<Rightarrow> Inl (g e) | Inr x \<Rightarrow> Inr x)"

definition is_ok :: "'e + 'a \<Rightarrow> bool" where
  "is_ok m = (case m of Inl _ \<Rightarrow> False | Inr _ \<Rightarrow> True)"

lemma ok_then_simps [simp]:
  "ok_then (Inl e) f = Inl e" "ok_then (Inr x) f = f x"
  by (simp_all add: ok_then_def)

lemma ok_then_Inr_iff: "ok_then m f = Inr y \<longleftrightarrow> (\<exists>x. m = Inr x \<and> f x = Inr y)"
  by (cases m) simp_all

lemma ok_then_Inl_iff:
  "ok_then m f = Inl e \<longleftrightarrow> m = Inl e \<or> (\<exists>x. m = Inr x \<and> f x = Inl e)"
  by (cases m) simp_all

lemma ok_then_cong [fundef_cong]:
  "m = m' \<Longrightarrow> (\<And>x. m' = Inr x \<Longrightarrow> f x = f' x) \<Longrightarrow> ok_then m f = ok_then m' f'"
  by (cases m') simp_all

lemma ok_then_assoc: "ok_then (ok_then m f) g = ok_then m (\<lambda>x. ok_then (f x) g)"
  by (cases m) simp_all

lemma ensure_simps [simp]: "ensure e True = Inr ()" "ensure e False = Inl e"
  by (simp_all add: ensure_def)

lemma ensure_Inr_iff [simp]: "ensure e b = Inr u \<longleftrightarrow> b"
  by (simp add: ensure_def)

lemma ensure_Inl_iff [simp]: "ensure e b = Inl e' \<longleftrightarrow> \<not> b \<and> e' = e"
  by (auto simp add: ensure_def)

lemma ok_or_simps [simp]: "ok_or e None = Inl e" "ok_or e (Some x) = Inr x"
  by (simp_all add: ok_or_def)

lemma ok_or_Inr_iff [simp]: "ok_or e m = Inr x \<longleftrightarrow> m = Some x"
  by (cases m) simp_all

lemma map_err_simps [simp]:
  "map_err g (Inl e) = Inl (g e)" "map_err g (Inr x) = Inr x"
  by (simp_all add: map_err_def)

lemma map_err_Inr_iff [simp]: "map_err g m = Inr x \<longleftrightarrow> m = Inr x"
  by (cases m) simp_all

lemma is_ok_simps [simp]: "\<not> is_ok (Inl e)" "is_ok (Inr x)"
  by (simp_all add: is_ok_def)

lemma is_ok_iff: "is_ok m \<longleftrightarrow> (\<exists>x. m = Inr x)"
  by (cases m) simp_all

section \<open>Big-endian numbers\<close>

fun be_of_int :: "nat \<Rightarrow> int \<Rightarrow> bytes" where
  "be_of_int 0 k = []"
| "be_of_int (Suc n) k = be_of_int n (k div 256) @ [word_of_int k]"

definition int_of_be :: "bytes \<Rightarrow> int" where
  "int_of_be bs = foldl (\<lambda>acc b. acc * 256 + uint b) 0 bs"

text \<open>\<open>to_be_bytes\<close> and \<open>from_be_bytes\<close>; the width is fixed by the word type.\<close>

definition be_encode :: "'a::len word \<Rightarrow> bytes" where
  "be_encode w = be_of_int (LENGTH('a) div 8) (uint w)"

definition be_decode :: "bytes \<Rightarrow> 'a::len word" where
  "be_decode bs = word_of_int (int_of_be bs)"

lemma length_be_of_int [simp]: "length (be_of_int n k) = n"
  by (induction n arbitrary: k) simp_all

lemma int_of_be_snoc: "int_of_be (bs @ [b]) = int_of_be bs * 256 + uint b"
  by (simp add: int_of_be_def)

lemma int_of_be_Nil [simp]: "int_of_be [] = 0"
  by (simp add: int_of_be_def)

lemma int_of_be_range: "0 \<le> int_of_be bs \<and> int_of_be bs < 256 ^ length bs"
proof (induction bs rule: rev_induct)
  case Nil
  then show ?case by simp
next
  case (snoc b bs)
  have "uint b < 2 ^ 8" "0 \<le> uint b"
    using uint_lt2p [of b] by simp_all
  with snoc show ?case by (auto simp add: int_of_be_snoc)
qed

lemma int_of_be_of_int: "int_of_be (be_of_int n k) = k mod 256 ^ n"
proof (induction n arbitrary: k)
  case 0
  then show ?case by simp
next
  case (Suc n)
  have "k mod (256 * 256 ^ n) = 256 * (k div 256 mod 256 ^ n) + k mod 256"
    by (rule zmod_zmult2_eq) simp
  with Suc show ?case
    by (simp add: int_of_be_snoc uint_word_of_int)
qed

lemma be_of_int_of_be: "be_of_int (length bs) (int_of_be bs) = bs"
proof (induction bs rule: rev_induct)
  case Nil
  then show ?case by simp
next
  case (snoc b bs)
  have b: "0 \<le> uint b" "uint b < 256"
    using uint_lt2p [of b] by simp_all
  have q: "(int_of_be bs * 256 + uint b) div 256 = int_of_be bs"
    using b by simp
  have "(word_of_int (int_of_be bs * 256 + uint b) :: byte) = b"
    by (simp only: word_uint_eq_iff uint_word_of_int) (simp add: b)
  with q snoc show ?case by (simp add: int_of_be_snoc)
qed


lemma length_be_encode [simp]: "length (be_encode (w :: 'a::len word)) = LENGTH('a) div 8"
  by (simp add: be_encode_def)

lemma be_decode_encode:
  assumes "8 dvd LENGTH('a)"
  shows "be_decode (be_encode (w :: 'a::len word)) = w"
proof -
  have "(256 :: int) ^ (LENGTH('a) div 8) = 2 ^ (8 * (LENGTH('a) div 8))"
    by (simp add: power_mult)
  also have "8 * (LENGTH('a) div 8) = LENGTH('a)"
    using assms by simp
  finally have "uint w mod 256 ^ (LENGTH('a) div 8) = uint w"
    using uint_lt2p [of w] by simp
  then show ?thesis
    by (simp add: be_encode_def be_decode_def int_of_be_of_int)
qed

lemma be_encode_decode:
  assumes "8 dvd LENGTH('a)" and "length bs = LENGTH('a) div 8"
  shows "be_encode (be_decode bs :: 'a::len word) = bs"
proof -
  have "(256 :: int) ^ length bs = 2 ^ (8 * (LENGTH('a) div 8))"
    using assms(2) by (simp add: power_mult)
  also have "8 * (LENGTH('a) div 8) = LENGTH('a)"
    using assms(1) by simp
  finally have "int_of_be bs mod 2 ^ LENGTH('a) = int_of_be bs"
    using int_of_be_range [of bs] by simp
  then have "uint (be_decode bs :: 'a word) = int_of_be bs"
    by (simp add: be_decode_def uint_word_of_int)
  then show ?thesis
    using be_of_int_of_be [of bs] assms(2) by (simp add: be_encode_def)
qed

section \<open>Cursor primitives\<close>

text \<open>
  \<open>dec_take\<close> is the common shape of \<open>Decoder::take\<close>: fail when fewer bytes remain than
  were asked for, else return them and advance.
\<close>

definition dec_take :: "'e \<Rightarrow> nat \<Rightarrow> bytes \<Rightarrow> 'e + bytes \<times> bytes" where
  "dec_take e n bs = (if length bs < n then Inl e else Inr (take n bs, drop n bs))"

definition dec_word :: "'e \<Rightarrow> bytes \<Rightarrow> 'e + ('a::len) word \<times> bytes" where
  "dec_word e bs =
    ok_then (dec_take e (LENGTH('a) div 8) bs) (\<lambda>(x, r). Inr (be_decode x, r))"

definition dec_finish :: "'e \<Rightarrow> bytes \<Rightarrow> 'e + unit" where
  "dec_finish e bs = ensure e (bs = [])"

fun dec_many :: "(bytes \<Rightarrow> 'e + 'a \<times> bytes) \<Rightarrow> nat \<Rightarrow> bytes \<Rightarrow> 'e + 'a list \<times> bytes" where
  "dec_many d 0 bs = Inr ([], bs)"
| "dec_many d (Suc n) bs =
    ok_then (d bs) (\<lambda>(x, r). ok_then (dec_many d n r) (\<lambda>(xs, r'). Inr (x # xs, r')))"

lemma dec_take_append [codec_simps]: "length xs = n \<Longrightarrow> dec_take e n (xs @ r) = Inr (xs, r)"
  by (auto simp add: dec_take_def)

lemma dec_take_Inr_iff: "dec_take e n bs = Inr (xs, r) \<longleftrightarrow> length xs = n \<and> bs = xs @ r"
  by (auto simp add: dec_take_def)

lemma dec_take_Inl_iff: "dec_take e n bs = Inl e' \<longleftrightarrow> length bs < n \<and> e' = e"
  by (auto simp add: dec_take_def)

lemma dec_word_Inr_iff:
  assumes "8 dvd LENGTH('a)"
  shows "dec_word e bs = Inr (w :: 'a::len word, r) \<longleftrightarrow> bs = be_encode w @ r"
  using be_decode_encode [OF assms, of w] be_encode_decode [OF assms]
  by (auto simp add: dec_word_def ok_then_Inr_iff dec_take_Inr_iff)

lemma dec_finish_Inr_iff [simp]: "dec_finish e bs = Inr u \<longleftrightarrow> bs = []"
  by (simp add: dec_finish_def)

lemma dec_finish_Nil [simp]: "dec_finish e [] = Inr ()"
  by (simp add: dec_finish_def)

text \<open>\<open>slice.get(a..b)\<close>: absent when the bounds are reversed or past the end.\<close>

definition slice_get :: "bytes \<Rightarrow> nat \<Rightarrow> nat \<Rightarrow> bytes option" where
  "slice_get bs a b = (if a \<le> b \<and> b \<le> length bs then Some (take (b - a) (drop a bs)) else None)"

lemma slice_get_Some_iff:
  "slice_get bs a b = Some xs \<longleftrightarrow>
    b = a + length xs \<and> (\<exists>p q. bs = p @ xs @ q \<and> length p = a)"
proof
  assume "slice_get bs a b = Some xs"
  then have ab: "a \<le> b" "b \<le> length bs" "xs = take (b - a) (drop a bs)"
    by (auto simp add: slice_get_def split: if_splits)
  then have "bs = take a bs @ xs @ drop b bs"
    by (metis append_take_drop_id drop_drop le_add_diff_inverse2)
  with ab show "b = a + length xs \<and> (\<exists>p q. bs = p @ xs @ q \<and> length p = a)"
    by (intro conjI exI [of _ "take a bs"] exI [of _ "drop b bs"]) simp_all
qed (auto simp add: slice_get_def)

lemma slice_get_append:
  "length p = a \<Longrightarrow> b = a + length xs \<Longrightarrow> slice_get (p @ xs @ q) a b = Some xs"
  by (auto simp add: slice_get_Some_iff)

lemma slice_get_None_iff: "slice_get bs a b = None \<longleftrightarrow> b < a \<or> length bs < b"
  by (auto simp add: slice_get_def)

section \<open>Codec interfaces\<close>

text \<open>
  A field codec writes a value at the end of a buffer and reads it back from the
  front of one.  Its two laws (what was written is read back whatever follows it; what
  was read is what the writer would have written) are what every composite format needs.
\<close>

locale field_codec =
  fixes enc :: "'a \<Rightarrow> bytes"
    and dec :: "bytes \<Rightarrow> 'e + 'a \<times> bytes"
    and ok :: "'a \<Rightarrow> bool"
  assumes dec_enc: "ok a \<Longrightarrow> dec (enc a @ r) = Inr (a, r)"
    and dec_sound: "dec bs = Inr (a, r) \<Longrightarrow> ok a \<and> bs = enc a @ r"
begin

lemma dec_iff: "dec bs = Inr (a, r) \<longleftrightarrow> ok a \<and> bs = enc a @ r"
  using dec_enc dec_sound by blast

lemma dec_enc_all: "ok a \<Longrightarrow> dec (enc a) = Inr (a, [])"
  using dec_enc [of a "[]"] by simp

lemma enc_prefix_free: "ok a \<Longrightarrow> ok b \<Longrightarrow> enc a @ r = enc b @ s \<Longrightarrow> a = b \<and> r = s"
  by (metis dec_enc prod.inject sum.inject(2))

lemma dec_many_iff:
  "dec_many dec n bs = Inr (xs, r) \<longleftrightarrow>
    length xs = n \<and> list_all ok xs \<and> bs = concat (map enc xs) @ r"
proof (induction n arbitrary: bs xs)
  case 0
  then show ?case by auto
next
  case (Suc n)
  show ?case
    by (cases xs) (auto simp add: ok_then_Inr_iff dec_iff Suc.IH)
qed

lemma dec_many_enc:
  "list_all ok xs \<Longrightarrow> dec_many dec (length xs) (concat (map enc xs) @ r) = Inr (xs, r)"
  by (simp add: dec_many_iff)

lemma concat_enc_inj:
  assumes "list_all ok xs" "list_all ok ys" "length xs = length ys"
    and "concat (map enc xs) @ r = concat (map enc ys) @ s"
  shows "xs = ys \<and> r = s"
  using dec_many_enc [OF assms(1), of r] dec_many_enc [OF assms(2), of s] assms(3,4)
  by (metis Pair_inject sum.inject(2))

end

text \<open>
  A message codec is a whole payload: its encoder may refuse a value, its decoder
  consumes all bytes, and the accepted byte strings are exactly the encoder's outputs.
\<close>

locale message_codec =
  fixes enc :: "'a \<Rightarrow> 'f + bytes"
    and dec :: "bytes \<Rightarrow> 'e + 'a"
    and ok :: "'a \<Rightarrow> bool"
  assumes dec_enc: "ok a \<Longrightarrow> enc a = Inr bs \<Longrightarrow> dec bs = Inr a"
    and dec_sound: "dec bs = Inr a \<Longrightarrow> ok a \<and> enc a = Inr bs"
begin

lemma dec_iff: "dec bs = Inr a \<longleftrightarrow> ok a \<and> enc a = Inr bs"
  using dec_enc dec_sound by blast

lemma dec_canonical: "dec bs = Inr a \<Longrightarrow> dec cs = Inr a \<Longrightarrow> bs = cs"
  using dec_sound [of bs a] dec_sound [of cs a] by simp

lemma enc_inj: "ok a \<Longrightarrow> ok b \<Longrightarrow> enc a = Inr bs \<Longrightarrow> enc b = Inr bs \<Longrightarrow> a = b"
  by (metis dec_enc sum.inject(2))

end

text \<open>A field codec followed by the end of the payload is a message codec.\<close>

definition dec_exact :: "'e \<Rightarrow> (bytes \<Rightarrow> 'e + 'a \<times> bytes) \<Rightarrow> bytes \<Rightarrow> 'e + 'a" where
  "dec_exact e d bs = ok_then (d bs) (\<lambda>(x, r). ok_then (dec_finish e r) (\<lambda>_. Inr x))"

locale closed_codec = field_codec enc dec ok
  for enc :: "'a \<Rightarrow> bytes" and dec :: "bytes \<Rightarrow> 'e + 'a \<times> bytes" and ok +
  fixes trailing :: 'e

sublocale closed_codec \<subseteq> whole: message_codec "\<lambda>a. Inr (enc a)" "dec_exact trailing dec" ok
  by unfold_locales (auto simp add: dec_exact_def ok_then_Inr_iff dec_iff)

text \<open>A one-byte code table: stable numbers for the constructors of an enumeration.\<close>

locale code_table =
  fixes code :: "'c \<Rightarrow> byte"
    and from_code :: "byte \<Rightarrow> 'c option"
  assumes from_code_code: "from_code (code c) = Some c"
    and code_from_code: "from_code b = Some c \<Longrightarrow> code c = b"
begin

lemma from_code_iff: "from_code b = Some c \<longleftrightarrow> b = code c"
  using from_code_code code_from_code by auto

lemma code_inj: "code c = code d \<Longrightarrow> c = d"
  by (metis from_code_code option.inject)

end

text \<open>A payload of exactly one code byte.\<close>

definition decode_one_byte :: "'e \<Rightarrow> 'e \<Rightarrow> (byte \<Rightarrow> 'c option) \<Rightarrow> bytes \<Rightarrow> 'e + 'c" where
  "decode_one_byte unknown trailing from_code payload =
    (case payload of [b] \<Rightarrow> ok_or unknown (from_code b) | _ \<Rightarrow> Inl trailing)"

locale code_payload = code_table code from_code
  for code :: "'c \<Rightarrow> byte" and from_code :: "byte \<Rightarrow> 'c option" +
  fixes unknown trailing :: 'e

sublocale code_payload \<subseteq> payload: message_codec "\<lambda>c. Inr [code c]"
    "decode_one_byte unknown trailing from_code" "\<lambda>_. True"
  by unfold_locales (auto simp add: decode_one_byte_def from_code_iff split: list.splits)

interpretation u16c: field_codec "be_encode :: u16 \<Rightarrow> bytes" "dec_word e" "\<lambda>_. True"
  by unfold_locales (simp_all add: dec_word_Inr_iff)

interpretation u32c: field_codec "be_encode :: u32 \<Rightarrow> bytes" "dec_word e" "\<lambda>_. True"
  by unfold_locales (simp_all add: dec_word_Inr_iff)

interpretation u64c: field_codec "be_encode :: u64 \<Rightarrow> bytes" "dec_word e" "\<lambda>_. True"
  by unfold_locales (simp_all add: dec_word_Inr_iff)

interpretation id16c: field_codec "be_encode :: id16 \<Rightarrow> bytes" "dec_word e" "\<lambda>_. True"
  by unfold_locales (simp_all add: dec_word_Inr_iff)

interpretation key32c: field_codec "be_encode :: key32 \<Rightarrow> bytes" "dec_word e" "\<lambda>_. True"
  by unfold_locales (simp_all add: dec_word_Inr_iff)

lemmas word_dec_iff [codec_dest] =
  u16c.dec_iff u32c.dec_iff u64c.dec_iff id16c.dec_iff key32c.dec_iff

lemmas word_dec_enc [codec_simps] =
  u16c.dec_enc [simplified] u32c.dec_enc [simplified] u64c.dec_enc [simplified]
  id16c.dec_enc [simplified] key32c.dec_enc [simplified]
  u16c.dec_enc_all [simplified] u32c.dec_enc_all [simplified] u64c.dec_enc_all [simplified]
  id16c.dec_enc_all [simplified] key32c.dec_enc_all [simplified]

section \<open>Numbers as text\<close>

text \<open>\<open>to_string\<close> of a number, in decimal.\<close>

fun decimal :: "nat \<Rightarrow> string" where
  "decimal n = (if n < 10 then [char_of (48 + n)] else decimal (n div 10) @ [char_of (48 + n mod 10)])"

declare decimal.simps [simp del]

end
