(* ===== verification/Types.thy ===== *)
theory Types
  imports Prelude
begin

text \<open>
  The semantic vocabulary of \<open>src/crates/renee-types/src/lib.rs\<close>: identifiers, the
  document-scoped acceptance sequence, public Loro ranges and versions with their validating
  constructors, immutable updates, and the bit-set of capability operations.  A 16-byte
  identifier is a 128-bit word and a 32-byte secret a 256-bit word, both in big-endian order,
  so every value of the Isabelle type is a value of the Rust type and conversely.  The
  Rust types \<open>LoroRange\<close>, \<open>PublicLoroRanges\<close>, \<open>LoroOplogVersionEntry\<close> and \<open>LoroOplogVersion\<close>
  can only be built by their \<open>new\<close>; the predicates \<open>loro_range_ok\<close>, \<open>public_ranges_ok\<close>,
  \<open>version_entry_ok\<close> and \<open>oplog_version_ok\<close> say what \<open>new\<close> lets through.
\<close>

section \<open>Constants and identifiers\<close>

definition IDENTIFIER_LENGTH :: nat where "IDENTIFIER_LENGTH = 16"
definition SECRET_LENGTH :: nat where "SECRET_LENGTH = 32"
definition MAX_LORO_PEERS :: nat where "MAX_LORO_PEERS = 256"
definition MAX_LORO_COUNTER :: u32 where "MAX_LORO_COUNTER = 0x7fffffff"
definition MAX_UPDATE_OPERATIONS :: u32 where "MAX_UPDATE_OPERATIONS = 0x00100000"

type_synonym document_id = id16
type_synonym capability_id = id16
type_synonym create_authority_id = id16
type_synonym request_id = id16
type_synonym update_id = id16
type_synonym checkpoint_id = id16
type_synonym authenticator = key32
type_synonym blob_key = key32

section \<open>Acceptance sequences\<close>

definition checked_add :: "'a::len word \<Rightarrow> 'a word \<Rightarrow> 'a word option" where
  "checked_add a b = (if uint a + uint b < 2 ^ LENGTH('a) then Some (a + b) else None)"

type_synonym acceptance_sequence = u64

definition ORIGIN :: acceptance_sequence where "ORIGIN = 0"
definition FIRST :: acceptance_sequence where "FIRST = 1"

definition seq_from_be_bytes :: "bytes \<Rightarrow> acceptance_sequence" where
  "seq_from_be_bytes bs = be_decode bs"

definition seq_to_be_bytes :: "acceptance_sequence \<Rightarrow> bytes" where
  "seq_to_be_bytes s = be_encode s"

definition checked_next :: "acceptance_sequence \<Rightarrow> acceptance_sequence option" where
  "checked_next s = checked_add s 1"

lemma checked_add_Some_iff:
  "checked_add a b = Some c \<longleftrightarrow> uint a + uint b < 2 ^ LENGTH('a) \<and> c = a + (b :: 'a::len word)"
  by (auto simp add: checked_add_def)

lemma checked_add_uint: "checked_add a b = Some c \<Longrightarrow> uint c = uint a + uint b"
  by (auto simp add: checked_add_Some_iff uint_word_ariths)

lemma checked_next_uint: "checked_next s = Some t \<Longrightarrow> uint t = uint s + 1"
  by (auto simp add: checked_next_def dest: checked_add_uint)

lemma uint_add_less_iff:
  "uint a + uint b < 2 ^ LENGTH('a) \<longleftrightarrow> unat a + unat b < 2 ^ LENGTH('a)"
  for a b :: "'a::len word"
proof -
  have "uint a + uint b = int (unat a + unat b)" by simp
  moreover have "(2 :: int) ^ LENGTH('a) = int (2 ^ LENGTH('a))" by simp
  ultimately show ?thesis by (simp only: of_nat_less_iff)
qed

lemma checked_add_Some_unat:
  "checked_add a b = Some c \<longleftrightarrow> unat a + unat b < 2 ^ LENGTH('a) \<and> c = a + (b :: 'a::len word)"
  by (simp only: checked_add_Some_iff uint_add_less_iff)

lemma checked_add_unat: "checked_add a b = Some c \<Longrightarrow> unat c = unat a + unat b"
  by (simp add: checked_add_Some_unat unat_add_lem)

lemma checked_next_unat: "checked_next s = Some t \<Longrightarrow> unat t = Suc (unat s)"
  by (auto simp add: checked_next_def dest: checked_add_unat)

lemma checked_next_less: "checked_next s = Some t \<Longrightarrow> s < t"
  by (auto dest!: checked_next_uint simp add: word_less_def)

lemma checked_next_None_iff: "checked_next s = None \<longleftrightarrow> s = - 1"
proof -
  have "checked_next s = None \<longleftrightarrow> 2 ^ 64 \<le> uint s + 1"
    by (auto simp add: checked_next_def checked_add_def)
  also have "\<dots> \<longleftrightarrow> uint s = 2 ^ 64 - 1"
    using uint_lt2p [of s] by auto
  also have "\<dots> \<longleftrightarrow> s = - 1"
  proof -
    have "uint (- 1 :: u64) = 2 ^ 64 - 1"
      by (simp add: unsigned_minus_1_eq_mask mask_eq_exp_minus_1)
    then show ?thesis by (simp only: word_uint_eq_iff)
  qed
  finally show ?thesis .
qed

section \<open>Public Loro metadata\<close>

datatype loro_metadata_error =
    Empty | TooManyPeers | CounterOutOfRange | EmptyOrReversedRange
  | TooManyOperations | NonCanonicalPeerOrder | ZeroVersionCounter

record loro_range =
  lr_end_counter :: u32
  lr_peer_id :: u64
  lr_start_counter :: u32

definition loro_range_new :: "u64 \<Rightarrow> u32 \<Rightarrow> u32 \<Rightarrow> loro_metadata_error + loro_range" where
  "loro_range_new peer_id start_counter end_counter =
    (if start_counter > MAX_LORO_COUNTER \<or> end_counter > MAX_LORO_COUNTER
     then Inl CounterOutOfRange
     else if start_counter \<ge> end_counter then Inl EmptyOrReversedRange
     else if end_counter - start_counter > MAX_UPDATE_OPERATIONS then Inl TooManyOperations
     else Inr \<lparr> lr_end_counter = end_counter, lr_peer_id = peer_id,
                lr_start_counter = start_counter \<rparr>)"

definition operation_count :: "loro_range \<Rightarrow> u32" where
  "operation_count r = lr_end_counter r - lr_start_counter r"

type_synonym public_loro_ranges = "loro_range list"

fun ranges_loop ::
  "u64 option \<Rightarrow> u32 \<Rightarrow> loro_range list \<Rightarrow> loro_metadata_error + unit" where
  "ranges_loop previous_peer count [] = Inr ()"
| "ranges_loop previous_peer count (rng # rest) =
    (if (case previous_peer of None \<Rightarrow> False | Some peer \<Rightarrow> peer \<ge> lr_peer_id rng)
     then Inl NonCanonicalPeerOrder
     else ok_then (ok_or TooManyOperations (checked_add count (operation_count rng)))
      (\<lambda>count'. if count' > MAX_UPDATE_OPERATIONS then Inl TooManyOperations
        else ranges_loop (Some (lr_peer_id rng)) count' rest))"

definition public_ranges_new ::
  "loro_range list \<Rightarrow> loro_metadata_error + public_loro_ranges" where
  "public_ranges_new ranges =
    (if ranges = [] then Inl Empty
     else if length ranges > MAX_LORO_PEERS then Inl TooManyPeers
     else ok_then (ranges_loop None 0 ranges) (\<lambda>_. Inr ranges))"

record version_entry =
  ve_end_counter :: u32
  ve_peer_id :: u64

definition version_entry_new :: "u64 \<Rightarrow> u32 \<Rightarrow> loro_metadata_error + version_entry" where
  "version_entry_new peer_id end_counter =
    (if end_counter = 0 then Inl ZeroVersionCounter
     else if end_counter > MAX_LORO_COUNTER then Inl CounterOutOfRange
     else Inr \<lparr> ve_end_counter = end_counter, ve_peer_id = peer_id \<rparr>)"

type_synonym oplog_version = "version_entry list"

fun version_loop :: "u64 option \<Rightarrow> version_entry list \<Rightarrow> loro_metadata_error + unit" where
  "version_loop previous_peer [] = Inr ()"
| "version_loop previous_peer (entry # rest) =
    (if (case previous_peer of None \<Rightarrow> False | Some peer \<Rightarrow> peer \<ge> ve_peer_id entry)
     then Inl NonCanonicalPeerOrder
     else version_loop (Some (ve_peer_id entry)) rest)"

definition oplog_version_new :: "version_entry list \<Rightarrow> loro_metadata_error + oplog_version" where
  "oplog_version_new entries =
    (if length entries > MAX_LORO_PEERS then Inl TooManyPeers
     else ok_then (version_loop None entries) (\<lambda>_. Inr entries))"

text \<open>
  \<open>binary_search_by_key\<close> of the standard library: halve the candidate window, keep
  the upper half unless its first key is greater, and compare once at the end.
\<close>

function bsearch_base :: "u64 \<Rightarrow> u64 list \<Rightarrow> nat \<Rightarrow> nat \<Rightarrow> nat" where
  "bsearch_base key keys base window =
    (if window \<le> 1 then base
     else let half = window div 2; mid = base + half in
       bsearch_base key keys (if keys ! mid > key then base else mid) (window - half))"
  by pat_completeness auto
termination
  by (relation "measure (\<lambda>(_, _, _, window). window)") auto

declare bsearch_base.simps [simp del]

definition binary_search :: "u64 \<Rightarrow> u64 list \<Rightarrow> nat option" where
  "binary_search key keys =
    (if keys = [] then None
     else let base = bsearch_base key keys 0 (length keys) in
       if keys ! base = key then Some base else None)"

definition end_counter_for :: "oplog_version \<Rightarrow> u64 \<Rightarrow> u32" where
  "end_counter_for version peer_id =
    (case binary_search peer_id (map ve_peer_id version) of
      None \<Rightarrow> 0
    | Some index \<Rightarrow> ve_end_counter (version ! index))"

subsection \<open>What the validating constructors let through\<close>

definition loro_range_ok :: "loro_range \<Rightarrow> bool" where
  "loro_range_ok r \<longleftrightarrow> lr_start_counter r < lr_end_counter r
    \<and> lr_end_counter r \<le> MAX_LORO_COUNTER \<and> operation_count r \<le> MAX_UPDATE_OPERATIONS"

definition total_operations :: "loro_range list \<Rightarrow> nat" where
  "total_operations rs = sum_list (map (unat \<circ> operation_count) rs)"

definition public_ranges_ok :: "public_loro_ranges \<Rightarrow> bool" where
  "public_ranges_ok rs \<longleftrightarrow> rs \<noteq> [] \<and> length rs \<le> MAX_LORO_PEERS \<and> list_all loro_range_ok rs
    \<and> sorted_wrt (<) (map lr_peer_id rs) \<and> total_operations rs \<le> unat MAX_UPDATE_OPERATIONS"

definition version_entry_ok :: "version_entry \<Rightarrow> bool" where
  "version_entry_ok e \<longleftrightarrow> 0 < ve_end_counter e \<and> ve_end_counter e \<le> MAX_LORO_COUNTER"

definition oplog_version_ok :: "oplog_version \<Rightarrow> bool" where
  "oplog_version_ok v \<longleftrightarrow> length v \<le> MAX_LORO_PEERS \<and> list_all version_entry_ok v
    \<and> sorted_wrt (<) (map ve_peer_id v)"

lemma loro_range_new_iff:
  "loro_range_new p s e = Inr r \<longleftrightarrow>
    loro_range_ok r \<and> p = lr_peer_id r \<and> s = lr_start_counter r \<and> e = lr_end_counter r"
  by (cases r) (auto simp add: loro_range_new_def loro_range_ok_def operation_count_def not_less
      not_le intro: order.trans order.strict_implies_order)

lemma version_entry_new_iff:
  "version_entry_new p e = Inr v \<longleftrightarrow>
    version_entry_ok v \<and> p = ve_peer_id v \<and> e = ve_end_counter v"
  by (cases v) (auto simp add: version_entry_new_def version_entry_ok_def not_less word_gt_0)


lemma ranges_loop_iff:
  assumes "count \<le> MAX_UPDATE_OPERATIONS"
  shows "ranges_loop prev count rs = Inr () \<longleftrightarrow>
    (case prev of None \<Rightarrow> True | Some p \<Rightarrow> list_all (\<lambda>r. p < lr_peer_id r) rs)
    \<and> sorted_wrt (<) (map lr_peer_id rs)
    \<and> unat count + total_operations rs \<le> unat MAX_UPDATE_OPERATIONS"
  using assms
proof (induction rs arbitrary: prev count)
  case Nil
  then show ?case
    by (simp add: total_operations_def word_le_nat_alt split: option.split)
next
  case (Cons r rs)
  let ?n = "operation_count r"
  let ?ahead = "unat count + total_operations (r # rs) \<le> unat MAX_UPDATE_OPERATIONS"
  show ?case
  proof (cases "unat count + unat ?n \<le> unat MAX_UPDATE_OPERATIONS")
    case True
    then have u: "unat (count + ?n) = unat count + unat ?n"
      by (subst unat_add_lem [THEN iffD1]) (simp_all add: MAX_UPDATE_OPERATIONS_def)
    have s: "checked_add count ?n = Some (count + ?n)"
      using True by (simp add: checked_add_Some_unat MAX_UPDATE_OPERATIONS_def)
    have le: "count + ?n \<le> MAX_UPDATE_OPERATIONS"
      using True u by (simp add: word_le_nat_alt)
    show ?thesis
      using Cons.IH [OF le, of "Some (lr_peer_id r)"] u s le
      by (auto simp add: total_operations_def list_all_iff not_le not_less
          intro: order.strict_trans split: option.splits)
  next
    case False
    then have "\<not> ?ahead"
      by (simp add: total_operations_def)
    moreover have "ranges_loop prev count (r # rs) \<noteq> Inr ()"
    proof (cases "checked_add count ?n")
      case (Some c)
      then have "unat c = unat count + unat ?n"
        by (rule checked_add_unat)
      with False Some show ?thesis
        by (simp add: word_less_nat_alt)
    qed simp
    ultimately show ?thesis by blast
  qed
qed

lemma version_loop_iff:
  "version_loop prev es = Inr () \<longleftrightarrow>
    (case prev of None \<Rightarrow> True | Some p \<Rightarrow> list_all (\<lambda>e. p < ve_peer_id e) es)
    \<and> sorted_wrt (<) (map ve_peer_id es)"
  by (induction es arbitrary: prev)
    (auto simp add: list_all_iff not_le not_less intro: order.strict_trans split: option.splits)

lemma public_ranges_new_iff:
  assumes "list_all loro_range_ok rs"
  shows "public_ranges_new rs = Inr rs' \<longleftrightarrow> rs' = rs \<and> public_ranges_ok rs"
  using ranges_loop_iff [of 0 None rs] assms
  by (auto simp add: public_ranges_new_def public_ranges_ok_def ok_then_Inr_iff not_less)

lemma oplog_version_new_iff:
  assumes "list_all version_entry_ok es"
  shows "oplog_version_new es = Inr v \<longleftrightarrow> v = es \<and> oplog_version_ok es"
  using version_loop_iff [of None es] assms
  by (auto simp add: oplog_version_new_def oplog_version_ok_def ok_then_Inr_iff not_less)

subsection \<open>Binary search\<close>

lemma bsearch_base_bounds:
  assumes "0 < window" "base + window \<le> length keys"
  shows "bsearch_base key keys base window < length keys"
  using assms
proof (induction key keys base window rule: bsearch_base.induct)
  case (1 key keys base window)
  show ?case
    using 1 by (subst bsearch_base.simps) (auto simp add: Let_def)
qed

lemma bsearch_base_finds:
  assumes "sorted_wrt (<) keys" "base \<le> i" "i < base + window" "base + window \<le> length keys"
    and "keys ! i = key"
  shows "bsearch_base key keys base window = i"
  using assms
proof (induction key keys base window rule: bsearch_base.induct)
  case (1 key keys base window)
  show ?case
  proof (cases "window \<le> 1")
    case True
    with 1(3,4) show ?thesis
      by (subst bsearch_base.simps) simp
  next
    case False
    define mid where "mid = base + window div 2"
    have mid: "mid < length keys"
      using False 1(5) by (simp add: mid_def)
    have "keys ! mid > key \<longleftrightarrow> i < mid"
      using sorted_wrt_nth_less [OF 1(2), of i mid] sorted_wrt_nth_less [OF 1(2), of mid i] mid 1(4-6)
      by (metis linorder_neqE_nat order_less_asym order_less_le_trans)
    then show ?thesis
      using 1(1) [OF False refl mid_def] 1(2-6) False
      by (subst bsearch_base.simps) (auto simp add: Let_def mid_def)
  qed
qed

lemma binary_search_Some:
  assumes "sorted_wrt (<) keys" "i < length keys"
  shows "binary_search (keys ! i) keys = Some i"
proof -
  have "bsearch_base (keys ! i) keys 0 (length keys) = i"
    using bsearch_base_finds [OF assms(1), of 0 i "length keys"] assms(2) by simp
  with assms show ?thesis by (auto simp add: binary_search_def Let_def)
qed

lemma binary_search_None: "key \<notin> set keys \<Longrightarrow> binary_search key keys = None"
  using bsearch_base_bounds [of "length keys" 0 keys key]
  by (force simp add: binary_search_def Let_def dest: nth_mem)

lemma end_counter_for_lookup:
  assumes "sorted_wrt (<) (map ve_peer_id v)"
  shows "end_counter_for v p =
    (case map_of (map (\<lambda>e. (ve_peer_id e, ve_end_counter e)) v) p of None \<Rightarrow> 0 | Some c \<Rightarrow> c)"
proof (cases "p \<in> set (map ve_peer_id v)")
  case True
  then obtain i where i: "i < length v" "ve_peer_id (v ! i) = p"
    by (auto simp add: in_set_conv_nth)
  have "distinct (map fst (map (\<lambda>e. (ve_peer_id e, ve_end_counter e)) v))"
    using assms strict_sorted_iff by (fastforce simp add: comp_def)
  then have "map_of (map (\<lambda>e. (ve_peer_id e, ve_end_counter e)) v) p = Some (ve_end_counter (v ! i))"
    using i by (force intro!: map_of_is_SomeI)
  moreover have "binary_search p (map ve_peer_id v) = Some i"
    using binary_search_Some [OF assms, of i] i by simp
  ultimately show ?thesis by (simp add: end_counter_for_def)
next
  case False
  then have "map_of (map (\<lambda>e. (ve_peer_id e, ve_end_counter e)) v) p = None"
    by (force simp add: map_of_eq_None_iff)
  with binary_search_None [OF False] show ?thesis by (simp add: end_counter_for_def)
qed


section \<open>Updates\<close>

record immutable_update =
  iu_document_id :: document_id
  iu_encrypted_payload :: bytes
  iu_public_loro_ranges :: public_loro_ranges
  iu_update_id :: update_id

definition immutable_update_new ::
  "document_id \<Rightarrow> update_id \<Rightarrow> public_loro_ranges \<Rightarrow> bytes \<Rightarrow> immutable_update" where
  "immutable_update_new document_id update_id ranges payload =
    \<lparr> iu_document_id = document_id, iu_encrypted_payload = payload,
      iu_public_loro_ranges = ranges, iu_update_id = update_id \<rparr>"

record update_metadata =
  um_encrypted_payload_length :: u32
  um_public_loro_ranges :: public_loro_ranges
  um_update_id :: update_id

section \<open>Operations and operation sets\<close>

datatype operation =
    Read | Update | Checkpoint | BlobRead | BlobPut | SignalSend | SignalReceive
  | Grant | Revoke | Retire

text \<open>The derived \<open>Ord\<close> of the enumeration is the declaration order.\<close>

fun op_index :: "operation \<Rightarrow> nat" where
  "op_index Read = 0"
| "op_index Update = 1"
| "op_index Checkpoint = 2"
| "op_index BlobRead = 3"
| "op_index BlobPut = 4"
| "op_index SignalSend = 5"
| "op_index SignalReceive = 6"
| "op_index Grant = 7"
| "op_index Revoke = 8"
| "op_index Retire = 9"

lemma op_index_inj: "op_index a = op_index b \<longleftrightarrow> a = b"
  by (cases a; cases b) simp_all

instantiation operation :: linorder
begin

definition less_eq_operation :: "operation \<Rightarrow> operation \<Rightarrow> bool" where
  "less_eq_operation a b \<longleftrightarrow> op_index a \<le> op_index b"

definition less_operation :: "operation \<Rightarrow> operation \<Rightarrow> bool" where
  "less_operation a b \<longleftrightarrow> op_index a < op_index b"

instance
  by standard (auto simp add: less_eq_operation_def less_operation_def op_index_inj)

end

type_synonym operation_set = u16

definition EMPTY_OPS :: operation_set where "EMPTY_OPS = 0"
definition FULL_OPS :: operation_set where "FULL_OPS = 0x03ff"

fun operation_mask :: "operation \<Rightarrow> u16" where
  "operation_mask Read = 0x0001"
| "operation_mask Update = 0x0002"
| "operation_mask Checkpoint = 0x0004"
| "operation_mask BlobRead = 0x0008"
| "operation_mask BlobPut = 0x0010"
| "operation_mask SignalSend = 0x0020"
| "operation_mask SignalReceive = 0x0040"
| "operation_mask Grant = 0x0080"
| "operation_mask Revoke = 0x0100"
| "operation_mask Retire = 0x0200"

definition from_bits :: "u16 \<Rightarrow> operation_set option" where
  "from_bits bits = (if bits AND NOT FULL_OPS = 0 then Some bits else None)"

definition ops_bits :: "operation_set \<Rightarrow> u16" where
  "ops_bits s = s"

definition one :: "operation \<Rightarrow> operation_set" where
  "one operation = operation_mask operation"

definition contains :: "operation_set \<Rightarrow> operation \<Rightarrow> bool" where
  "contains s operation \<longleftrightarrow> s AND operation_mask operation \<noteq> 0"

definition ops_union :: "operation_set \<Rightarrow> operation_set \<Rightarrow> operation_set" where
  "ops_union s other = s OR other"

definition allows :: "operation_set \<Rightarrow> operation_set \<Rightarrow> bool" where
  "allows s candidate \<longleftrightarrow> candidate \<noteq> 0 \<and> candidate AND NOT s = 0"

definition ops_is_empty :: "operation_set \<Rightarrow> bool" where
  "ops_is_empty s \<longleftrightarrow> s = 0"

subsection \<open>The set a bit pattern stands for\<close>

definition ops_of :: "operation_set \<Rightarrow> operation set" where
  "ops_of s = {op. contains s op}"

definition canonical_ops :: "operation_set \<Rightarrow> bool" where
  "canonical_ops s \<longleftrightarrow> from_bits s = Some s"

lemma operation_mask_exp: "operation_mask op = 2 ^ op_index op"
  by (cases op) simp_all

lemma op_index_less: "op_index op < 10"
  by (cases op) simp_all

lemma op_index_surj: "n < 10 \<Longrightarrow> \<exists>op. op_index op = n"
proof -
  assume "n < 10"
  then have "n \<in> op_index ` {Read, Update, Checkpoint, BlobRead, BlobPut, SignalSend,
      SignalReceive, Grant, Revoke, Retire}" by auto
  then show ?thesis by blast
qed

lemma and_not_zero_iff: "c AND NOT p = 0 \<longleftrightarrow> (\<forall>n. bit c n \<longrightarrow> bit p n)"
  for c p :: "'a::len word"
  by (auto simp add: bit_eq_iff bit_simps dest: bit_imp_le_length)

lemma and_exp_zero_iff: "n < LENGTH('a) \<Longrightarrow> s AND 2 ^ n \<noteq> 0 \<longleftrightarrow> bit s n"
  for s :: "'a::len word"
  by (auto simp add: and_exp_eq_0_iff_not_bit)

lemma contains_bit: "contains s op \<longleftrightarrow> bit s (op_index op)"
  using op_index_less [of op]
  by (simp add: contains_def operation_mask_exp and_exp_zero_iff)

lemma canonical_ops_iff: "canonical_ops s \<longleftrightarrow> (\<forall>n. bit s n \<longrightarrow> n < 10)"
proof -
  have f: "FULL_OPS = mask 10" by (simp add: FULL_OPS_def mask_eq_exp_minus_1)
  have "s AND NOT (mask 10) = 0 \<longleftrightarrow> (\<forall>n. bit s n \<longrightarrow> n < 10)"
    unfolding and_not_zero_iff by (auto simp add: bit_mask_iff dest: bit_imp_le_length)
  then show ?thesis by (simp add: canonical_ops_def from_bits_def f)
qed

lemma canonical_bit_eq:
  assumes "canonical_ops s"
  shows "(\<forall>n. bit s n \<longrightarrow> bit t n) \<longleftrightarrow> ops_of s \<subseteq> ops_of t"
proof -
  have "(\<forall>n. bit s n \<longrightarrow> bit t n) \<longleftrightarrow> (\<forall>op. bit s (op_index op) \<longrightarrow> bit t (op_index op))"
    using assms op_index_surj unfolding canonical_ops_iff by metis
  then show ?thesis by (simp add: ops_of_def contains_bit subset_iff)
qed

lemma ops_of_inj: "canonical_ops s \<Longrightarrow> canonical_ops t \<Longrightarrow> ops_of s = ops_of t \<Longrightarrow> s = t"
  using canonical_bit_eq [of s t] canonical_bit_eq [of t s] by (auto intro: bit_word_eqI)

lemma ops_of_zero: "ops_of 0 = {}"
  by (simp add: ops_of_def contains_def)

lemma ops_of_empty_iff: "canonical_ops s \<Longrightarrow> ops_of s = {} \<longleftrightarrow> s = 0"
  using ops_of_inj [of s 0] ops_of_zero by (auto simp add: canonical_ops_iff)

lemma ops_of_one: "ops_of (one op) = {op}"
  by (auto simp add: ops_of_def one_def contains_bit operation_mask_exp bit_simps op_index_inj
      intro: order.strict_trans [OF op_index_less])

lemma ops_of_union: "ops_of (ops_union s t) = ops_of s \<union> ops_of t"
  by (auto simp add: ops_of_def ops_union_def contains_bit bit_simps)

lemma ops_of_full: "ops_of FULL_OPS = UNIV"
proof -
  have "contains FULL_OPS op" for op
    by (cases op) (simp_all add: contains_def FULL_OPS_def)
  then show ?thesis by (simp add: ops_of_def)
qed

lemma canonical_full: "canonical_ops FULL_OPS"
  by (simp add: canonical_ops_def from_bits_def FULL_OPS_def)

lemma canonical_one: "canonical_ops (one op)"
  by (cases op) (simp_all add: canonical_ops_def from_bits_def FULL_OPS_def one_def)

lemma allows_iff:
  assumes "canonical_ops c"
  shows "allows p c \<longleftrightarrow> ops_of c \<noteq> {} \<and> ops_of c \<subseteq> ops_of p"
  using assms by (simp add: allows_def and_not_zero_iff canonical_bit_eq ops_of_empty_iff)

lemma allows_trans: "allows a b \<Longrightarrow> allows b c \<Longrightarrow> allows a c"
  by (simp add: allows_def and_not_zero_iff)

lemma allows_contains: "allows p c \<Longrightarrow> contains c op \<Longrightarrow> contains p op"
  by (simp add: allows_def contains_bit and_not_zero_iff)

lemma allows_canonical: "allows p c \<Longrightarrow> canonical_ops p \<Longrightarrow> canonical_ops c"
  by (auto simp add: allows_def canonical_ops_iff and_not_zero_iff)

section \<open>Error classes\<close>

datatype error_class =
    AuthorizationDenied | IdentifierConflict | RequestConflict | MalformedMessage
  | UnsupportedVersion | InvalidLoroMetadata | InvalidCheckpointVersion | RecordNotFound
  | BlobConflict | BlobNotFound | InvalidOrExpiredContinuation | ConsumerSlotUnavailable
  | StreamStateError | StoragePressure | JournalCursorMismatch | RecoveryPreconditionFailed
  | RetiredDocument | LimitExceeded | Backpressure | TemporarilyUnavailable | Quarantined
  | Cancelled | Internal | CounterExhausted | JournalGap


section \<open>Properties\<close>

text \<open>
  The single pass of \<open>PublicLoroRanges::new\<close>, with its checked 32-bit operation counter,
  accepts a list of valid ranges exactly when it is nonempty, names at most 256 peers in
  strictly ascending order, and selects at most 0x100000 operations in total; it then returns
  the list unchanged.
\<close>

theorem public_ranges_new_accepts_canonical:
  assumes "list_all loro_range_ok rs"
  shows "public_ranges_new rs = Inr rs' \<longleftrightarrow>
    rs' = rs \<and> rs \<noteq> [] \<and> length rs \<le> 256 \<and> sorted_wrt (<) (map lr_peer_id rs)
    \<and> (\<Sum>r\<leftarrow>rs. unat (lr_end_counter r - lr_start_counter r)) \<le> 2 ^ 20"
proof -
  have "unat MAX_UPDATE_OPERATIONS = 2 ^ 20"
    by (simp add: MAX_UPDATE_OPERATIONS_def)
  then show ?thesis
    using assms by (auto simp add: public_ranges_new_iff public_ranges_ok_def MAX_LORO_PEERS_def
        total_operations_def operation_count_def comp_def)
qed

theorem public_ranges_new_accepts_canonical_witness:
  "public_ranges_new
      [\<lparr> lr_end_counter = 5, lr_peer_id = 7, lr_start_counter = 0 \<rparr>,
       \<lparr> lr_end_counter = 12, lr_peer_id = 9, lr_start_counter = 3 \<rparr>] =
    Inr [\<lparr> lr_end_counter = 5, lr_peer_id = 7, lr_start_counter = 0 \<rparr>,
       \<lparr> lr_end_counter = 12, lr_peer_id = 9, lr_start_counter = 3 \<rparr>]"
  by (subst public_ranges_new_accepts_canonical)
    (simp_all add: loro_range_ok_def MAX_LORO_COUNTER_def operation_count_def
      MAX_UPDATE_OPERATIONS_def)

text \<open>
  On a canonical oplog version the binary search of \<open>end_counter_for\<close> is the lookup of
  the peer in the version, with zero for an absent peer.
\<close>

theorem end_counter_for_is_lookup:
  assumes "oplog_version_ok v"
  shows "end_counter_for v p =
    (case map_of (map (\<lambda>e. (ve_peer_id e, ve_end_counter e)) v) p of None \<Rightarrow> 0 | Some c \<Rightarrow> c)"
  using assms by (intro end_counter_for_lookup) (simp add: oplog_version_ok_def)

theorem end_counter_for_is_lookup_witness:
  "end_counter_for [\<lparr> ve_end_counter = 4, ve_peer_id = 1 \<rparr>, \<lparr> ve_end_counter = 6, ve_peer_id = 3 \<rparr>,
     \<lparr> ve_end_counter = 8, ve_peer_id = 5 \<rparr>] 3 = 6"
  by (subst end_counter_for_is_lookup)
    (simp_all add: oplog_version_ok_def version_entry_ok_def MAX_LORO_PEERS_def MAX_LORO_COUNTER_def)

text \<open>
  The bit test of \<open>OperationSet::allows\<close> is attenuation of sets: a canonical candidate is
  allowed exactly when it stands for a nonempty subset of the parent's operations.
\<close>

theorem allows_is_nonempty_subset:
  assumes "from_bits c = Some c"
  shows "allows p c \<longleftrightarrow> ops_of c \<noteq> {} \<and> ops_of c \<subseteq> ops_of p"
  using assms by (intro allows_iff) (simp add: canonical_ops_def)

theorem allows_is_nonempty_subset_witness:
  "allows FULL_OPS (ops_union (one Read) (one Grant)) \<longleftrightarrow>
    ops_of (ops_union (one Read) (one Grant)) \<noteq> {}
    \<and> ops_of (ops_union (one Read) (one Grant)) \<subseteq> ops_of FULL_OPS"
  by (rule allows_is_nonempty_subset) (simp add: from_bits_def ops_union_def one_def FULL_OPS_def)

end
