(* ===== verification/Wire_Frame.thy ===== *)
theory Wire_Frame
  imports Types
begin

text \<open>
  The envelope and greeting formats of \<open>src/crates/renee-wire/src/lib.rs\<close>: a frame is a
  four-byte length and a body of at most 4096 bytes; a body is magic, version, message type,
  correlation bytes and payload.  An \<open>AsyncRead\<close> is the list of the bytes it will still
  deliver before end of file, an \<open>AsyncWrite\<close> the list of the bytes written.  A Rust \<open>str\<close>
  is a byte string that satisfies \<open>utf8_valid\<close>.
\<close>

section \<open>Profile constants\<close>

definition VERSION :: u16 where "VERSION = 0"
definition CLIENT_HELLO :: u16 where "CLIENT_HELLO = 1"
definition SERVER_HELLO :: u16 where "SERVER_HELLO = 2"
definition PROTOCOL_ERROR :: u16 where "PROTOCOL_ERROR = 3"
definition CERTIFICATE_MANIFEST :: u16 where "CERTIFICATE_MANIFEST = 4"
definition CERTIFICATE_MANIFEST_RESPONSE :: u16 where "CERTIFICATE_MANIFEST_RESPONSE = 5"

definition MAX_BODY_LENGTH :: nat where "MAX_BODY_LENGTH = 4096"
definition ENVELOPE_HEADER_LENGTH :: nat where "ENVELOPE_HEADER_LENGTH = 24"
definition MAX_APPLICATION_PAYLOAD_LENGTH :: nat where
  "MAX_APPLICATION_PAYLOAD_LENGTH = MAX_BODY_LENGTH - ENVELOPE_HEADER_LENGTH"
definition CAPABILITY_AUTHORITY_LENGTH :: nat where "CAPABILITY_AUTHORITY_LENGTH = 16 + 32"
definition MAX_UPDATE_RECORD_LENGTH :: nat where
  "MAX_UPDATE_RECORD_LENGTH = MAX_APPLICATION_PAYLOAD_LENGTH - CAPABILITY_AUTHORITY_LENGTH"
definition MAX_GREETING_FIELD_LENGTH :: nat where "MAX_GREETING_FIELD_LENGTH = 256"

text \<open>\<open>RNE0\<close> and \<open>renee-experimental-v0\<close>.\<close>

definition MAGIC :: bytes where "MAGIC = [0x52, 0x4E, 0x45, 0x30]"

definition PROFILE_ID :: bytes where
  "PROFILE_ID = [0x72, 0x65, 0x6E, 0x65, 0x65, 0x2D, 0x65, 0x78, 0x70, 0x65, 0x72, 0x69,
     0x6D, 0x65, 0x6E, 0x74, 0x61, 0x6C, 0x2D, 0x76, 0x30]"

section \<open>Envelopes\<close>

record envelope =
  ev_correlation_id :: id16
  ev_message_type :: u16
  ev_payload :: bytes
  ev_version :: u16

datatype io_error = InvalidInput | InvalidData | UnexpectedEof

datatype decode_error = TooLong | BodyTruncated | InvalidMagic

definition encode_body :: "envelope \<Rightarrow> io_error + bytes" where
  "encode_body e =
    (if ENVELOPE_HEADER_LENGTH + length (ev_payload e) > MAX_BODY_LENGTH then Inl InvalidInput
     else Inr (MAGIC @ be_encode (ev_version e) @ be_encode (ev_message_type e)
       @ be_encode (ev_correlation_id e) @ ev_payload e))"

definition encode_frame :: "envelope \<Rightarrow> io_error + bytes" where
  "encode_frame e =
    ok_then (encode_body e) (\<lambda>body.
      if length body \<ge> 2 ^ 32 then Inl InvalidInput
      else Inr (be_encode (of_nat (length body) :: u32) @ body))"

definition copy_array :: "bytes \<Rightarrow> nat \<Rightarrow> nat \<Rightarrow> decode_error + bytes" where
  "copy_array body offset len = ok_or BodyTruncated (slice_get body offset (offset + len))"

definition decode_body :: "bytes \<Rightarrow> decode_error + envelope" where
  "decode_body body =
    (if length body > MAX_BODY_LENGTH then Inl TooLong
     else if length body < ENVELOPE_HEADER_LENGTH then Inl BodyTruncated
     else if slice_get body 0 4 \<noteq> Some MAGIC then Inl InvalidMagic
     else ok_then (copy_array body 4 2) (\<lambda>version.
       ok_then (copy_array body 6 2) (\<lambda>message_type.
       ok_then (copy_array body 8 16) (\<lambda>correlation_id.
       ok_then (ok_or BodyTruncated (slice_get body ENVELOPE_HEADER_LENGTH (length body)))
         (\<lambda>payload. Inr \<lparr> ev_correlation_id = be_decode correlation_id,
            ev_message_type = be_decode message_type, ev_payload = payload,
            ev_version = be_decode version \<rparr>)))))"

section \<open>Frames on a byte stream\<close>

definition read_exact :: "nat \<Rightarrow> bytes \<Rightarrow> io_error + bytes \<times> bytes" where
  "read_exact n input = dec_take UnexpectedEof n input"

text \<open>The result pairs the body, or \<open>None\<close> at a clean end, with the unread rest.\<close>

definition read_body :: "bytes \<Rightarrow> io_error + bytes option \<times> bytes" where
  "read_body input =
    (case input of
      [] \<Rightarrow> Inr (None, [])
    | first # rest \<Rightarrow>
        ok_then (read_exact 3 rest) (\<lambda>(remaining, rest').
          let len = unat (be_decode (first # remaining) :: u32) in
          if len > MAX_BODY_LENGTH then Inl InvalidData
          else ok_then (read_exact len rest') (\<lambda>(body, rest''). Inr (Some body, rest''))))"

definition write_body :: "bytes \<Rightarrow> bytes \<Rightarrow> io_error + bytes" where
  "write_body written body =
    (if length body > MAX_BODY_LENGTH then Inl InvalidInput
     else if length body \<ge> 2 ^ 32 then Inl InvalidInput
     else Inr (written @ be_encode (of_nat (length body) :: u32) @ body))"

section \<open>UTF-8 and greetings\<close>

text \<open>The well-formed byte sequences of the Unicode standard, as \<open>str::from_utf8\<close> accepts them.\<close>

definition utf8_tail :: "byte \<Rightarrow> bool" where
  "utf8_tail b \<longleftrightarrow> 0x80 \<le> b \<and> b \<le> 0xBF"

fun utf8_valid :: "bytes \<Rightarrow> bool" where
  "utf8_valid [] = True"
| "utf8_valid (a # bs) =
    (if a \<le> 0x7F then utf8_valid bs
     else if 0xC2 \<le> a \<and> a \<le> 0xDF then
       (case bs of b # r \<Rightarrow> utf8_tail b \<and> utf8_valid r | _ \<Rightarrow> False)
     else if 0xE0 \<le> a \<and> a \<le> 0xEF then
       (case bs of b # c # r \<Rightarrow>
          utf8_tail b \<and> (a = 0xE0 \<longrightarrow> 0xA0 \<le> b) \<and> (a = 0xED \<longrightarrow> b \<le> 0x9F)
          \<and> utf8_tail c \<and> utf8_valid r
        | _ \<Rightarrow> False)
     else if 0xF0 \<le> a \<and> a \<le> 0xF4 then
       (case bs of b # c # d # r \<Rightarrow>
          utf8_tail b \<and> (a = 0xF0 \<longrightarrow> 0x90 \<le> b) \<and> (a = 0xF4 \<longrightarrow> b \<le> 0x8F)
          \<and> utf8_tail c \<and> utf8_tail d \<and> utf8_valid r
        | _ \<Rightarrow> False)
     else False)"

record greeting =
  gr_banner :: bytes
  gr_profile :: bytes

datatype greeting_decode_error =
  GreetingTruncated | FieldTooLong | GreetingTrailingBytes | InvalidUtf8

definition append_greeting_field :: "bytes \<Rightarrow> bytes \<Rightarrow> io_error + bytes" where
  "append_greeting_field payload field =
    (if length field > MAX_GREETING_FIELD_LENGTH then Inl InvalidInput
     else if length field \<ge> 2 ^ 16 then Inl InvalidInput
     else Inr (payload @ be_encode (of_nat (length field) :: u16) @ field))"

definition encode_greeting :: "bytes \<Rightarrow> bytes \<Rightarrow> io_error + bytes" where
  "encode_greeting profile banner =
    ok_then (append_greeting_field [] profile) (\<lambda>payload. append_greeting_field payload banner)"

definition decode_greeting_field ::
  "bytes \<Rightarrow> nat \<Rightarrow> greeting_decode_error + bytes \<times> nat" where
  "decode_greeting_field payload offset =
    (let length_end = offset + 2 in
     ok_then (ok_or GreetingTruncated (slice_get payload offset length_end)) (\<lambda>length_bytes.
     let len = unat (be_decode length_bytes :: u16) in
     if len > MAX_GREETING_FIELD_LENGTH then Inl FieldTooLong
     else let field_end = length_end + len in
       ok_then (ok_or GreetingTruncated (slice_get payload length_end field_end)) (\<lambda>field.
       if utf8_valid field then Inr (field, field_end) else Inl InvalidUtf8)))"

definition decode_greeting :: "bytes \<Rightarrow> greeting_decode_error + greeting" where
  "decode_greeting payload =
    ok_then (decode_greeting_field payload 0) (\<lambda>(profile, after_profile).
    ok_then (decode_greeting_field payload after_profile) (\<lambda>(banner, after_banner).
    if after_banner \<noteq> length payload then Inl GreetingTrailingBytes
    else Inr \<lparr> gr_banner = banner, gr_profile = profile \<rparr>))"


section \<open>Bodies\<close>

lemmas length_defs =
  MAX_BODY_LENGTH_def ENVELOPE_HEADER_LENGTH_def MAX_APPLICATION_PAYLOAD_LENGTH_def
  CAPABILITY_AUTHORITY_LENGTH_def MAX_UPDATE_RECORD_LENGTH_def MAX_GREETING_FIELD_LENGTH_def

lemma length_MAGIC [simp]: "length MAGIC = 4"
  by (simp add: MAGIC_def)

lemma encode_body_Inr_iff:
  "encode_body e = Inr body \<longleftrightarrow>
    length (ev_payload e) \<le> MAX_APPLICATION_PAYLOAD_LENGTH \<and>
    body = MAGIC @ be_encode (ev_version e) @ be_encode (ev_message_type e)
      @ be_encode (ev_correlation_id e) @ ev_payload e"
  by (auto simp add: encode_body_def length_defs)

lemma encode_body_length:
  "encode_body e = Inr body \<Longrightarrow>
    length body = ENVELOPE_HEADER_LENGTH + length (ev_payload e) \<and> length body \<le> MAX_BODY_LENGTH"
  by (auto simp add: encode_body_Inr_iff length_defs)

lemma slice_get_at:
  "slice_get (p @ xs @ q) (length p) (length p + length xs) = Some xs"
  by (auto simp add: slice_get_Some_iff)

lemma decode_body_concat:
  assumes "length body \<le> MAX_BODY_LENGTH" "body = MAGIC @ v @ m @ c @ p"
    and "length v = 2" "length m = 2" "length c = 16"
  shows "decode_body body = Inr \<lparr> ev_correlation_id = be_decode c,
    ev_message_type = be_decode m, ev_payload = p, ev_version = be_decode v \<rparr>"
proof -
  have g: "slice_get body 0 4 = Some MAGIC" "slice_get body 4 6 = Some v"
    "slice_get body 6 8 = Some m" "slice_get body 8 24 = Some c"
    "slice_get body 24 (length body) = Some p"
    using slice_get_at [of "[]" MAGIC "v @ m @ c @ p"] slice_get_at [of MAGIC v "m @ c @ p"]
      slice_get_at [of "MAGIC @ v" m "c @ p"] slice_get_at [of "MAGIC @ v @ m" c p]
      slice_get_at [of "MAGIC @ v @ m @ c" p "[]"] assms by simp_all
  show ?thesis
    using assms g by (simp add: decode_body_def copy_array_def ENVELOPE_HEADER_LENGTH_def)
qed

lemma decode_body_parts:
  assumes "decode_body body = Inr e"
  shows "length body \<le> MAX_BODY_LENGTH \<and> (\<exists>v m c. body = MAGIC @ v @ m @ c @ ev_payload e
    \<and> length v = 2 \<and> length m = 2 \<and> length c = 16)"
proof -
  have len: "length body \<le> MAX_BODY_LENGTH" "24 \<le> length body"
    and magic: "slice_get body 0 4 = Some MAGIC"
    using assms by (auto simp add: decode_body_def ENVELOPE_HEADER_LENGTH_def split: if_splits)
  from magic obtain q where q: "body = MAGIC @ q" by (auto simp add: slice_get_Some_iff)
  define v m c p where "v = take 2 q" and "m = take 2 (drop 2 q)" and "c = take 16 (drop 4 q)"
    and "p = drop 20 q"
  have "q = v @ m @ c @ p"
    using append_take_drop_id [of 2 q] append_take_drop_id [of 2 "drop 2 q"]
      append_take_drop_id [of 16 "drop 4 q"]
    by (simp add: v_def m_def c_def p_def)
  moreover have "length v = 2" "length m = 2" "length c = 16"
    using len(2) q by (simp_all add: v_def m_def c_def)
  ultimately have b: "body = MAGIC @ v @ m @ c @ p" "length v = 2" "length m = 2" "length c = 16"
    using q by simp_all
  with decode_body_concat [OF len(1) b] assms have "ev_payload e = p" by auto
  with b len(1) show ?thesis by blast
qed

lemma decode_body_iff: "decode_body body = Inr e \<longleftrightarrow> encode_body e = Inr body"
proof
  assume d: "decode_body body = Inr e"
  then obtain v m c where b: "length body \<le> MAX_BODY_LENGTH" "body = MAGIC @ v @ m @ c @ ev_payload e"
    "length v = 2" "length m = 2" "length c = 16"
    using decode_body_parts by blast
  have "e = \<lparr> ev_correlation_id = be_decode c, ev_message_type = be_decode m,
      ev_payload = ev_payload e, ev_version = be_decode v \<rparr>"
    using decode_body_concat [OF b] d by simp
  then have "ev_correlation_id e = be_decode c" "ev_message_type e = be_decode m"
    "ev_version e = be_decode v"
    by (auto intro: arg_cong [where f = ev_version] elim: ssubst)
  with b show "encode_body e = Inr body"
    by (simp add: encode_body_Inr_iff be_encode_decode length_defs)
next
  assume "encode_body e = Inr body"
  then have "length body \<le> MAX_BODY_LENGTH"
    "body = MAGIC @ be_encode (ev_version e) @ be_encode (ev_message_type e)
      @ be_encode (ev_correlation_id e) @ ev_payload e"
    using encode_body_length by (auto simp add: encode_body_Inr_iff)
  from decode_body_concat [OF this] show "decode_body body = Inr e"
    by (simp add: be_decode_encode)
qed

interpretation body_codec: message_codec encode_body decode_body "\<lambda>_. True"
  by unfold_locales (simp_all add: decode_body_iff)

section \<open>Frames\<close>

lemma encode_frame_iff:
  "encode_frame e = Inr frame \<longleftrightarrow>
    (\<exists>body. encode_body e = Inr body \<and> frame = be_encode (of_nat (length body) :: u32) @ body)"
proof (cases "encode_body e")
  case (Inr body)
  have "length body < 2 ^ 32"
    using encode_body_length [OF Inr] by (simp add: length_defs)
  with Inr show ?thesis
    by (auto simp add: encode_frame_def)
qed (simp add: encode_frame_def)

lemma read_body_append:
  assumes "length body \<le> MAX_BODY_LENGTH"
  shows "read_body (be_encode (of_nat (length body) :: u32) @ body @ rest) = Inr (Some body, rest)"
proof -
  obtain b0 bs where b: "be_encode (of_nat (length body) :: u32) = b0 # bs" "length bs = 3"
    using length_be_encode [of "of_nat (length body) :: u32"]
    by (cases "be_encode (of_nat (length body) :: u32)") simp_all
  have "unat (of_nat (length body) :: u32) = length body"
    using assms by (simp add: unat_of_nat length_defs)
  moreover have "(be_decode (b0 # bs) :: u32) = of_nat (length body)"
    by (simp add: be_decode_encode flip: b(1))
  ultimately show ?thesis
    using assms b by (simp add: read_body_def read_exact_def dec_take_append)
qed

lemma write_then_read_body:
  assumes "write_body [] body = Inr written"
  shows "read_body (written @ rest) = Inr (Some body, rest)"
  using assms read_body_append [of body rest] by (auto simp add: write_body_def split: if_splits)


text \<open>Reading a stream to its clean end: the loop every service runs around \<open>read_body\<close>.\<close>

function read_frames :: "bytes \<Rightarrow> io_error + bytes list" where
  "read_frames input =
    (case read_body input of
      Inl e \<Rightarrow> Inl e
    | Inr (None, _) \<Rightarrow> Inr []
    | Inr (Some body, rest) \<Rightarrow>
        (if length rest < length input
         then ok_then (read_frames rest) (\<lambda>bodies. Inr (body # bodies)) else Inl InvalidData))"
  by pat_completeness auto
termination
  by (relation "measure length") auto

declare read_frames.simps [simp del]

lemma read_body_shorter:
  "read_body input = Inr (Some body, rest) \<Longrightarrow> length rest < length input"
  by (auto simp add: read_body_def read_exact_def ok_then_Inr_iff dec_take_Inr_iff Let_def
      split: list.splits if_splits)

lemma read_frames_encoded:
  "list_all2 (\<lambda>e frame. encode_frame e = Inr frame) es frames \<Longrightarrow>
    \<exists>bodies. read_frames (concat frames) = Inr bodies \<and>
      list_all2 (\<lambda>e body. decode_body body = Inr e) es bodies"
proof (induction rule: list_all2_induct)
  case Nil
  show ?case by (simp add: read_frames.simps read_body_def)
next
  case (Cons e es frame frames)
  from Cons(1) obtain body where body: "encode_body e = Inr body"
    "frame = be_encode (of_nat (length body) :: u32) @ body"
    by (auto simp add: encode_frame_iff)
  from Cons obtain bodies where bodies: "read_frames (concat frames) = Inr bodies"
    "list_all2 (\<lambda>e body. decode_body body = Inr e) es bodies" by blast
  have "read_body (concat (frame # frames)) = Inr (Some body, concat frames)"
    using read_body_append [of body "concat frames"] encode_body_length [OF body(1)] body(2) by simp
  then have "read_frames (concat (frame # frames)) = Inr (body # bodies)"
    using bodies(1) body(2) by (subst read_frames.simps) simp
  then show ?case
    using bodies(2) body(1) by (auto simp add: decode_body_iff)
qed

section \<open>Greetings\<close>

lemma append_greeting_field_iff:
  "append_greeting_field payload field = Inr out \<longleftrightarrow>
    length field \<le> MAX_GREETING_FIELD_LENGTH \<and>
    out = payload @ be_encode (of_nat (length field) :: u16) @ field"
  by (auto simp add: append_greeting_field_def length_defs)

lemma decode_greeting_field_append:
  assumes "length field \<le> MAX_GREETING_FIELD_LENGTH" "utf8_valid field"
  shows "decode_greeting_field (p @ be_encode (of_nat (length field) :: u16) @ field @ q) (length p)
    = Inr (field, length p + 2 + length field)"
proof -
  let ?l = "be_encode (of_nat (length field) :: u16)"
  have "slice_get (p @ ?l @ field @ q) (length p) (length p + 2) = Some ?l"
    using slice_get_at [of p ?l "field @ q"] by simp
  moreover have "slice_get (p @ ?l @ field @ q) (length p + 2) (length p + 2 + length field) = Some field"
    using slice_get_at [of "p @ ?l" field q] by simp
  moreover have "unat (be_decode ?l :: u16) = length field"
    using assms(1) by (simp add: be_decode_encode unat_of_nat length_defs)
  ultimately show ?thesis
    using assms by (simp add: decode_greeting_field_def Let_def)
qed

lemma decode_greeting_field_sound:
  assumes "decode_greeting_field payload offset = Inr (field, after)"
  shows "length field \<le> MAX_GREETING_FIELD_LENGTH \<and> utf8_valid field \<and>
    (\<exists>p q. length p = offset \<and> payload = p @ be_encode (of_nat (length field) :: u16) @ field @ q \<and>
      after = offset + 2 + length field)"
proof -
  from assms obtain lb where lb: "slice_get payload offset (offset + 2) = Some lb"
    "unat (be_decode lb :: u16) \<le> MAX_GREETING_FIELD_LENGTH"
    "slice_get payload (offset + 2) (offset + 2 + unat (be_decode lb :: u16)) = Some field"
    "utf8_valid field" "after = offset + 2 + unat (be_decode lb :: u16)"
    by (auto simp add: decode_greeting_field_def Let_def ok_then_Inr_iff split: if_splits)
  from lb(1) obtain p q0 where p: "payload = p @ lb @ q0" "length p = offset" "length lb = 2"
    by (auto simp add: slice_get_Some_iff)
  from lb(3) obtain p' q where p': "payload = p' @ field @ q" "length p' = offset + 2"
    and len: "unat (be_decode lb :: u16) = length field"
    by (auto simp add: slice_get_Some_iff)
  have "p' = p @ lb"
    using p p' by (metis append_assoc append_eq_append_conv length_append)
  moreover have "lb = be_encode (of_nat (length field) :: u16)"
    using p(3) by (simp add: be_encode_decode flip: len)
  ultimately show ?thesis
    using p p' lb len by auto
qed

lemma decode_greeting_iff:
  "decode_greeting payload = Inr g \<longleftrightarrow>
    utf8_valid (gr_profile g) \<and> utf8_valid (gr_banner g) \<and>
    encode_greeting (gr_profile g) (gr_banner g) = Inr payload"
proof
  assume "decode_greeting payload = Inr g"
  then obtain a where a: "decode_greeting_field payload 0 = Inr (gr_profile g, a)"
    and b: "decode_greeting_field payload a = Inr (gr_banner g, length payload)"
    by (auto simp add: decode_greeting_def ok_then_Inr_iff split: if_splits)
  let ?p = "be_encode (of_nat (length (gr_profile g)) :: u16) @ gr_profile g"
  let ?b = "be_encode (of_nat (length (gr_banner g)) :: u16) @ gr_banner g"
  from decode_greeting_field_sound [OF a] obtain q where
    "payload = ?p @ q" "a = length ?p" by auto
  moreover from decode_greeting_field_sound [OF b] obtain p where
    "payload = p @ ?b" "a = length p" by auto
  ultimately have "payload = ?p @ ?b"
    by (metis append_eq_append_conv)
  with decode_greeting_field_sound [OF a] decode_greeting_field_sound [OF b]
  show "utf8_valid (gr_profile g) \<and> utf8_valid (gr_banner g) \<and>
      encode_greeting (gr_profile g) (gr_banner g) = Inr payload"
    by (simp add: encode_greeting_def append_greeting_field_iff ok_then_Inr_iff)
next
  assume r: "utf8_valid (gr_profile g) \<and> utf8_valid (gr_banner g) \<and>
      encode_greeting (gr_profile g) (gr_banner g) = Inr payload"
  let ?p = "be_encode (of_nat (length (gr_profile g)) :: u16) @ gr_profile g"
  let ?b = "be_encode (of_nat (length (gr_banner g)) :: u16) @ gr_banner g"
  from r have l: "length (gr_profile g) \<le> MAX_GREETING_FIELD_LENGTH"
    "length (gr_banner g) \<le> MAX_GREETING_FIELD_LENGTH" and pl: "payload = ?p @ ?b"
    by (auto simp add: encode_greeting_def append_greeting_field_iff ok_then_Inr_iff)
  have "decode_greeting_field payload 0 = Inr (gr_profile g, length ?p)"
    using decode_greeting_field_append [OF l(1), of "[]" ?b] r pl by simp
  moreover have "decode_greeting_field payload (length ?p) = Inr (gr_banner g, length payload)"
    using decode_greeting_field_append [OF l(2), of ?p "[]"] r pl by simp
  ultimately show "decode_greeting payload = Inr g"
    by (simp add: decode_greeting_def)
qed

interpretation greeting_codec:
  message_codec "\<lambda>g. encode_greeting (gr_profile g) (gr_banner g)" decode_greeting
    "\<lambda>g. utf8_valid (gr_profile g) \<and> utf8_valid (gr_banner g)"
  by unfold_locales (simp_all add: decode_greeting_iff)


section \<open>Properties\<close>

text \<open>
  A body decodes to an envelope exactly when it is the encoding of that envelope: every
  encodable envelope round-trips, and no second byte string is accepted for it.
\<close>

theorem decode_body_accepts_encodings: "decode_body body = Inr e \<longleftrightarrow> encode_body e = Inr body"
  by (rule decode_body_iff)

text \<open>
  A stream that is the concatenation of encoded frames is read to a clean end as exactly
  those frames in order, whatever their payloads contain.
\<close>

theorem frame_stream_round_trip:
  assumes "list_all2 (\<lambda>e frame. encode_frame e = Inr frame) es frames"
  shows "\<exists>bodies. read_frames (concat frames) = Inr bodies \<and>
    list_all2 (\<lambda>e body. decode_body body = Inr e) es bodies"
  using assms by (rule read_frames_encoded)

theorem frame_stream_round_trip_witness:
  "let e = \<lparr> ev_correlation_id = 1, ev_message_type = CLIENT_HELLO, ev_payload = [7],
        ev_version = 0 \<rparr>;
       body = MAGIC @ be_encode (0 :: u16) @ be_encode CLIENT_HELLO @ be_encode (1 :: id16) @ [7];
       frame = be_encode (25 :: u32) @ body in
   \<exists>bodies. read_frames (concat [frame, frame]) = Inr bodies \<and>
     list_all2 (\<lambda>e body. decode_body body = Inr e) [e, e] bodies"
  unfolding Let_def
  by (rule frame_stream_round_trip) (simp add: encode_frame_def encode_body_def length_defs)

text \<open>
  A hello payload decodes exactly when it is the encoding of a profile and a banner that
  are both valid UTF-8; decoding returns that pair.
\<close>

theorem decode_greeting_accepts_encodings:
  "decode_greeting payload = Inr g \<longleftrightarrow>
    utf8_valid (gr_profile g) \<and> utf8_valid (gr_banner g) \<and>
    encode_greeting (gr_profile g) (gr_banner g) = Inr payload"
  by (rule decode_greeting_iff)

end
