(* ===== verification/Wire_Capability.thy ===== *)
theory Wire_Capability
  imports Wire_Frame
begin

text \<open>
  The capability payloads of \<open>src/crates/renee-wire/src/capability.rs\<close>: document creation,
  authorized update, grant and revoke requests and their one-byte answers.  The decoder
  there is a slice of the remaining bytes, here the remaining list; \<open>encode_authority\<close> is
  the bytes its Rust namesake appends.
\<close>

definition CREATE_DOCUMENT :: u16 where "CREATE_DOCUMENT = 20"
definition CREATE_DOCUMENT_RESPONSE :: u16 where "CREATE_DOCUMENT_RESPONSE = 21"
definition CAPABILITY_ERROR :: u16 where "CAPABILITY_ERROR = 22"
definition GRANT_CAPABILITY :: u16 where "GRANT_CAPABILITY = 23"
definition GRANT_CAPABILITY_RESPONSE :: u16 where "GRANT_CAPABILITY_RESPONSE = 24"
definition REVOKE_CAPABILITY :: u16 where "REVOKE_CAPABILITY = 25"
definition REVOKE_CAPABILITY_RESPONSE :: u16 where "REVOKE_CAPABILITY_RESPONSE = 26"

section \<open>Requests\<close>

record capability_authority =
  ca_capability_id :: capability_id
  ca_authenticator :: authenticator

record create_authority =
  cr_create_authority_id :: create_authority_id
  cr_authenticator :: authenticator

record create_document_request =
  cd_create_authority :: create_authority
  cd_request_id :: request_id
  cd_document_id :: document_id
  cd_root :: capability_authority

record authorized_update_request =
  au_authority :: capability_authority
  au_encoded_record :: bytes

record grant_capability_request =
  gc_document_id :: document_id
  gc_issuer :: capability_authority
  gc_request_id :: request_id
  gc_descendant :: capability_authority
  gc_operations :: operation_set

record revoke_capability_request =
  rc_document_id :: document_id
  rc_issuer :: capability_authority
  rc_request_id :: request_id
  rc_target_capability_id :: capability_id

datatype create_document_outcome = CreateInserted | CreateAlreadyPresent
datatype control_mutation_outcome = ControlInserted | ControlAlreadyPresent

datatype capability_error_code =
    CapMalformed | CapAuthorizationDenied | CapIdentifierConflict | CapRequestConflict
  | CapCounterExhausted | CapLimitExceeded

datatype capability_codec_error =
  CapTruncated | CapTrailingBytes | CapInvalidDiscriminant | CapPayloadTooLong

section \<open>Authorities\<close>

definition encode_authority :: "capability_authority \<Rightarrow> bytes" where
  "encode_authority a = be_encode (ca_capability_id a) @ be_encode (ca_authenticator a)"

definition encode_create_authority :: "create_authority \<Rightarrow> bytes" where
  "encode_create_authority a =
    be_encode (cr_create_authority_id a) @ be_encode (cr_authenticator a)"

definition take_authority :: "'e \<Rightarrow> bytes \<Rightarrow> 'e + capability_authority \<times> bytes" where
  "take_authority truncated bs =
    ok_then (dec_word truncated bs) (\<lambda>(capability_id, bs).
    ok_then (dec_word truncated bs) (\<lambda>(authenticator, bs).
    Inr (\<lparr> ca_capability_id = capability_id, ca_authenticator = authenticator \<rparr>, bs)))"

definition take_create_authority :: "'e \<Rightarrow> bytes \<Rightarrow> 'e + create_authority \<times> bytes" where
  "take_create_authority truncated bs =
    ok_then (dec_word truncated bs) (\<lambda>(create_authority_id, bs).
    ok_then (dec_word truncated bs) (\<lambda>(authenticator, bs).
    Inr (\<lparr> cr_create_authority_id = create_authority_id,
           cr_authenticator = authenticator \<rparr>, bs)))"

interpretation authorityc: field_codec encode_authority "take_authority e" "\<lambda>_. True"
proof unfold_locales
  show "take_authority e (encode_authority a @ r) = Inr (a, r)" for a r
    by (simp add: encode_authority_def take_authority_def word_dec_enc)
qed (auto simp add: encode_authority_def take_authority_def ok_then_Inr_iff word_dec_iff)

interpretation create_authorityc:
  field_codec encode_create_authority "take_create_authority e" "\<lambda>_. True"
proof unfold_locales
  show "take_create_authority e (encode_create_authority a @ r) = Inr (a, r)" for a r
    by (simp add: encode_create_authority_def take_create_authority_def word_dec_enc)
qed (auto simp add: encode_create_authority_def take_create_authority_def ok_then_Inr_iff
    word_dec_iff)

lemmas authority_dec_iff [codec_dest] = authorityc.dec_iff create_authorityc.dec_iff

lemmas authority_dec_enc [codec_simps] =
  authorityc.dec_enc [simplified] create_authorityc.dec_enc [simplified]
  authorityc.dec_enc_all [simplified] create_authorityc.dec_enc_all [simplified]

section \<open>Request codecs\<close>

definition encode_create_document_request :: "create_document_request \<Rightarrow> bytes" where
  "encode_create_document_request r =
    encode_create_authority (cd_create_authority r) @ be_encode (cd_request_id r)
    @ be_encode (cd_document_id r) @ encode_authority (cd_root r)"

definition decode_create_document_request ::
  "bytes \<Rightarrow> capability_codec_error + create_document_request" where
  "decode_create_document_request bs =
    ok_then (take_create_authority CapTruncated bs) (\<lambda>(create_authority, bs).
    ok_then (dec_word CapTruncated bs) (\<lambda>(request_id, bs).
    ok_then (dec_word CapTruncated bs) (\<lambda>(document_id, bs).
    ok_then (take_authority CapTruncated bs) (\<lambda>(root, bs).
    ok_then (dec_finish CapTrailingBytes bs) (\<lambda>_.
    Inr \<lparr> cd_create_authority = create_authority, cd_request_id = request_id,
          cd_document_id = document_id, cd_root = root \<rparr>)))))"

definition encode_authorized_update_request ::
  "authorized_update_request \<Rightarrow> capability_codec_error + bytes" where
  "encode_authorized_update_request r =
    (if length (au_encoded_record r) > MAX_UPDATE_RECORD_LENGTH then Inl CapPayloadTooLong
     else if CAPABILITY_AUTHORITY_LENGTH + length (au_encoded_record r)
        > MAX_APPLICATION_PAYLOAD_LENGTH then Inl CapPayloadTooLong
     else Inr (encode_authority (au_authority r) @ au_encoded_record r))"

definition decode_authorized_update_request ::
  "bytes \<Rightarrow> capability_codec_error + authorized_update_request" where
  "decode_authorized_update_request bs =
    ok_then (take_authority CapTruncated bs) (\<lambda>(authority, bs).
    if bs = [] then Inl CapTruncated
    else if length bs > MAX_UPDATE_RECORD_LENGTH then Inl CapPayloadTooLong
    else Inr \<lparr> au_authority = authority, au_encoded_record = bs \<rparr>)"

definition encode_grant_capability_request :: "grant_capability_request \<Rightarrow> bytes" where
  "encode_grant_capability_request r =
    be_encode (gc_document_id r) @ encode_authority (gc_issuer r) @ be_encode (gc_request_id r)
    @ encode_authority (gc_descendant r) @ be_encode (ops_bits (gc_operations r))"

definition decode_grant_capability_request ::
  "bytes \<Rightarrow> capability_codec_error + grant_capability_request" where
  "decode_grant_capability_request bs =
    ok_then (dec_word CapTruncated bs) (\<lambda>(document_id, bs).
    ok_then (take_authority CapTruncated bs) (\<lambda>(issuer, bs).
    ok_then (dec_word CapTruncated bs) (\<lambda>(request_id, bs).
    ok_then (take_authority CapTruncated bs) (\<lambda>(descendant, bs).
    ok_then (dec_word CapTruncated bs) (\<lambda>(bits, bs).
    ok_then (ok_or CapInvalidDiscriminant
        (Option.bind (from_bits bits) (\<lambda>ops. if ops_is_empty ops then None else Some ops)))
      (\<lambda>operations.
    ok_then (dec_finish CapTrailingBytes bs) (\<lambda>_.
    Inr \<lparr> gc_document_id = document_id, gc_issuer = issuer, gc_request_id = request_id,
          gc_descendant = descendant, gc_operations = operations \<rparr>)))))))"

definition encode_revoke_capability_request :: "revoke_capability_request \<Rightarrow> bytes" where
  "encode_revoke_capability_request r =
    be_encode (rc_document_id r) @ encode_authority (rc_issuer r) @ be_encode (rc_request_id r)
    @ be_encode (rc_target_capability_id r)"

definition decode_revoke_capability_request ::
  "bytes \<Rightarrow> capability_codec_error + revoke_capability_request" where
  "decode_revoke_capability_request bs =
    ok_then (dec_word CapTruncated bs) (\<lambda>(document_id, bs).
    ok_then (take_authority CapTruncated bs) (\<lambda>(issuer, bs).
    ok_then (dec_word CapTruncated bs) (\<lambda>(request_id, bs).
    ok_then (dec_word CapTruncated bs) (\<lambda>(target, bs).
    ok_then (dec_finish CapTrailingBytes bs) (\<lambda>_.
    Inr \<lparr> rc_document_id = document_id, rc_issuer = issuer, rc_request_id = request_id,
          rc_target_capability_id = target \<rparr>)))))"

section \<open>One-byte responses\<close>

fun create_outcome_code :: "create_document_outcome \<Rightarrow> byte" where
  "create_outcome_code CreateInserted = 0"
| "create_outcome_code CreateAlreadyPresent = 1"

definition create_outcome_from :: "byte \<Rightarrow> create_document_outcome option" where
  "create_outcome_from b =
    (if b = 0 then Some CreateInserted else if b = 1 then Some CreateAlreadyPresent else None)"

definition encode_create_document_response :: "create_document_outcome \<Rightarrow> bytes" where
  "encode_create_document_response outcome = [create_outcome_code outcome]"

definition decode_create_document_response ::
  "bytes \<Rightarrow> capability_codec_error + create_document_outcome" where
  "decode_create_document_response =
    decode_one_byte CapInvalidDiscriminant CapTrailingBytes create_outcome_from"

fun control_outcome_code :: "control_mutation_outcome \<Rightarrow> byte" where
  "control_outcome_code ControlInserted = 0"
| "control_outcome_code ControlAlreadyPresent = 1"

definition control_outcome_from :: "byte \<Rightarrow> control_mutation_outcome option" where
  "control_outcome_from b =
    (if b = 0 then Some ControlInserted else if b = 1 then Some ControlAlreadyPresent else None)"

definition encode_control_mutation_response :: "control_mutation_outcome \<Rightarrow> bytes" where
  "encode_control_mutation_response outcome = [control_outcome_code outcome]"

definition decode_control_mutation_response ::
  "bytes \<Rightarrow> capability_codec_error + control_mutation_outcome" where
  "decode_control_mutation_response =
    decode_one_byte CapInvalidDiscriminant CapTrailingBytes control_outcome_from"

fun capability_error_byte :: "capability_error_code \<Rightarrow> byte" where
  "capability_error_byte CapMalformed = 0"
| "capability_error_byte CapAuthorizationDenied = 1"
| "capability_error_byte CapIdentifierConflict = 2"
| "capability_error_byte CapRequestConflict = 3"
| "capability_error_byte CapCounterExhausted = 4"
| "capability_error_byte CapLimitExceeded = 5"

definition capability_error_from :: "byte \<Rightarrow> capability_error_code option" where
  "capability_error_from b =
    (if b = 0 then Some CapMalformed
     else if b = 1 then Some CapAuthorizationDenied
     else if b = 2 then Some CapIdentifierConflict
     else if b = 3 then Some CapRequestConflict
     else if b = 4 then Some CapCounterExhausted
     else if b = 5 then Some CapLimitExceeded
     else None)"

definition encode_capability_error :: "capability_error_code \<Rightarrow> bytes" where
  "encode_capability_error error = [capability_error_byte error]"

definition decode_capability_error ::
  "bytes \<Rightarrow> capability_codec_error + capability_error_code" where
  "decode_capability_error =
    decode_one_byte CapInvalidDiscriminant CapTrailingBytes capability_error_from"

section \<open>The codecs are inverse to each other\<close>

interpretation create_codec: message_codec "\<lambda>r. Inr (encode_create_document_request r)"
    decode_create_document_request "\<lambda>_. True"
proof unfold_locales
  show "Inr (encode_create_document_request r) = Inr bs \<Longrightarrow>
      decode_create_document_request bs = Inr r" for r bs
    by (auto simp add: encode_create_document_request_def decode_create_document_request_def
        codec_simps)
qed (auto simp add: encode_create_document_request_def decode_create_document_request_def
    ok_then_Inr_iff codec_dest)

interpretation authorized_update_codec: message_codec encode_authorized_update_request
    decode_authorized_update_request "\<lambda>r. au_encoded_record r \<noteq> []"
proof unfold_locales
  show "au_encoded_record r \<noteq> [] \<Longrightarrow> encode_authorized_update_request r = Inr bs \<Longrightarrow>
      decode_authorized_update_request bs = Inr r" for r bs
    by (auto simp add: encode_authorized_update_request_def decode_authorized_update_request_def
        codec_simps split: if_splits)
qed (auto simp add: encode_authorized_update_request_def decode_authorized_update_request_def
    ok_then_Inr_iff codec_dest length_defs split: if_splits)

interpretation grant_codec: message_codec "\<lambda>r. Inr (encode_grant_capability_request r)"
    decode_grant_capability_request
    "\<lambda>r. canonical_ops (gc_operations r) \<and> \<not> ops_is_empty (gc_operations r)"
proof unfold_locales
  show "canonical_ops (gc_operations r) \<and> \<not> ops_is_empty (gc_operations r) \<Longrightarrow>
      Inr (encode_grant_capability_request r) = Inr bs \<Longrightarrow>
      decode_grant_capability_request bs = Inr r" for r bs
    by (auto simp add: encode_grant_capability_request_def decode_grant_capability_request_def
        codec_simps canonical_ops_def ops_bits_def)
qed (auto simp add: encode_grant_capability_request_def decode_grant_capability_request_def
    ok_then_Inr_iff codec_dest canonical_ops_def ops_bits_def from_bits_def split: if_splits)

interpretation revoke_codec: message_codec "\<lambda>r. Inr (encode_revoke_capability_request r)"
    decode_revoke_capability_request "\<lambda>_. True"
proof unfold_locales
  show "Inr (encode_revoke_capability_request r) = Inr bs \<Longrightarrow>
      decode_revoke_capability_request bs = Inr r" for r bs
    by (auto simp add: encode_revoke_capability_request_def decode_revoke_capability_request_def
        codec_simps)
qed (auto simp add: encode_revoke_capability_request_def decode_revoke_capability_request_def
    ok_then_Inr_iff codec_dest)

interpretation create_outcome: code_payload create_outcome_code create_outcome_from
    CapInvalidDiscriminant CapTrailingBytes
proof unfold_locales
  show "create_outcome_from (create_outcome_code c) = Some c" for c
    by (cases c) (simp_all add: create_outcome_from_def)
qed (auto simp add: create_outcome_from_def split: if_splits)

interpretation control_outcome: code_payload control_outcome_code control_outcome_from
    CapInvalidDiscriminant CapTrailingBytes
proof unfold_locales
  show "control_outcome_from (control_outcome_code c) = Some c" for c
    by (cases c) (simp_all add: control_outcome_from_def)
qed (auto simp add: control_outcome_from_def split: if_splits)

interpretation capability_error: code_payload capability_error_byte capability_error_from
    CapInvalidDiscriminant CapTrailingBytes
proof unfold_locales
  show "capability_error_from (capability_error_byte c) = Some c" for c
    by (cases c) (simp_all add: capability_error_from_def)
qed (auto simp add: capability_error_from_def split: if_splits)

end
