(* ===== verification/Wire_Update.thy ===== *)
theory Wire_Update
  imports Wire_Capability
begin

text \<open>
  The update payloads of \<open>src/crates/renee-wire/src/update.rs\<close>: Carbon's canonical update
  record and oplog version, the accept, enumerate, vector-backfill, fetch and subscription
  messages, and the error code.  Every decoder runs over the list of remaining bytes, as the
  Rust \<open>Decoder\<close> does.
\<close>

section \<open>Message types and formats\<close>

definition ACCEPT_UPDATE :: u16 where "ACCEPT_UPDATE = 10"
definition ACCEPT_UPDATE_RESPONSE :: u16 where "ACCEPT_UPDATE_RESPONSE = 11"
definition ENUMERATE_UPDATES :: u16 where "ENUMERATE_UPDATES = 12"
definition ENUMERATE_UPDATES_RESPONSE :: u16 where "ENUMERATE_UPDATES_RESPONSE = 13"
definition FETCH_UPDATE :: u16 where "FETCH_UPDATE = 14"
definition FETCH_UPDATE_RESPONSE :: u16 where "FETCH_UPDATE_RESPONSE = 15"
definition UPDATE_ERROR :: u16 where "UPDATE_ERROR = 16"
definition SUBSCRIBE_UPDATES :: u16 where "SUBSCRIBE_UPDATES = 17"
definition SUBSCRIBE_UPDATES_ACK :: u16 where "SUBSCRIBE_UPDATES_ACK = 18"
definition UPDATE_NOTIFICATION :: u16 where "UPDATE_NOTIFICATION = 19"
definition UPDATE_SUBSCRIPTION_OVERFLOW :: u16 where "UPDATE_SUBSCRIPTION_OVERFLOW = 20"
definition CANCEL_UPDATE_SUBSCRIPTION :: u16 where "CANCEL_UPDATE_SUBSCRIPTION = 21"
definition CANCEL_UPDATE_SUBSCRIPTION_RESPONSE :: u16 where
  "CANCEL_UPDATE_SUBSCRIPTION_RESPONSE = 22"
definition UPDATE_SUBSCRIPTION_INVALIDATED :: u16 where "UPDATE_SUBSCRIPTION_INVALIDATED = 23"
definition VECTOR_BACKFILL :: u16 where "VECTOR_BACKFILL = 27"
definition VECTOR_BACKFILL_RESPONSE :: u16 where "VECTOR_BACKFILL_RESPONSE = 28"

text \<open>\<open>CARBREC\<close> and \<open>CARBVV\<close>, padded with zero bytes.\<close>

definition RECORD_MAGIC :: bytes where
  "RECORD_MAGIC = [0x43, 0x41, 0x52, 0x42, 0x52, 0x45, 0x43, 0]"
definition RECORD_VERSION :: u16 where "RECORD_VERSION = 1"
definition LORO_PROFILE_CODE :: u16 where "LORO_PROFILE_CODE = 1"
definition RANGE_LENGTH :: nat where "RANGE_LENGTH = 16"
definition RECORD_FIXED_LENGTH :: nat where "RECORD_FIXED_LENGTH = 50"
definition ENUMERATION_CONTINUATION_LENGTH :: nat where "ENUMERATION_CONTINUATION_LENGTH = 32"
definition ENUMERATE_RESPONSE_WITH_CURSOR_LENGTH :: nat where
  "ENUMERATE_RESPONSE_WITH_CURSOR_LENGTH = 1 + 2 + ENUMERATION_CONTINUATION_LENGTH + 2"
definition MAX_ENUMERABLE_METADATA_LENGTH :: nat where
  "MAX_ENUMERABLE_METADATA_LENGTH =
    MAX_APPLICATION_PAYLOAD_LENGTH - ENUMERATE_RESPONSE_WITH_CURSOR_LENGTH"
definition SUBSCRIPTION_PAYLOAD_VERSION :: u16 where "SUBSCRIPTION_PAYLOAD_VERSION = 1"
definition VECTOR_BACKFILL_PAYLOAD_VERSION :: u16 where "VECTOR_BACKFILL_PAYLOAD_VERSION = 1"
definition VECTOR_CURSOR_LENGTH :: nat where "VECTOR_CURSOR_LENGTH = 32"
definition OPLOG_VERSION_MAGIC :: bytes where
  "OPLOG_VERSION_MAGIC = [0x43, 0x41, 0x52, 0x42, 0x56, 0x56, 0, 0]"
definition OPLOG_VERSION_FORMAT_VERSION :: u16 where "OPLOG_VERSION_FORMAT_VERSION = 1"
definition OPLOG_VERSION_HEADER_LENGTH :: nat where "OPLOG_VERSION_HEADER_LENGTH = 12"
definition OPLOG_VERSION_ENTRY_LENGTH :: nat where "OPLOG_VERSION_ENTRY_LENGTH = 12"

lemmas update_length_defs = length_defs IDENTIFIER_LENGTH_def RANGE_LENGTH_def RECORD_FIXED_LENGTH_def
  ENUMERATION_CONTINUATION_LENGTH_def ENUMERATE_RESPONSE_WITH_CURSOR_LENGTH_def
  MAX_ENUMERABLE_METADATA_LENGTH_def VECTOR_CURSOR_LENGTH_def OPLOG_VERSION_HEADER_LENGTH_def
  OPLOG_VERSION_ENTRY_LENGTH_def MAX_LORO_PEERS_def

section \<open>Messages\<close>

datatype accept_update_outcome = AcceptInserted | AcceptAlreadyPresent

datatype update_error_code =
    UpMalformed | UpIdentifierConflict | UpNotFound | UpNotNegotiated | UpInvalidCursor
  | UpCounterExhausted | UpAuthorizationDenied | UpBackpressure | UpInvalidLoroMetadata
  | UpInvalidOrExpiredContinuation | UpLimitExceeded | UpRetiredDocument

type_synonym update_subscription_id = id16

record subscribe_updates_request =
  su_authority :: capability_authority
  su_document_id :: document_id

record update_notification =
  un_subscription_id :: update_subscription_id
  un_update_id :: update_id

datatype enumerate_start = EnumOrigin | EnumContinue bytes | EnumAfterTail bytes

record enumerate_request =
  er_authority :: capability_authority
  er_document_id :: document_id
  er_start :: enumerate_start

record fetch_request =
  fr_authority :: capability_authority
  fr_document_id :: document_id
  fr_update_id :: update_id

record enumerate_response =
  pr_has_more :: bool
  pr_next_cursor :: "bytes option"
  pr_updates :: "update_metadata list"

text \<open>\<open>VectorBackfillResponse\<close> has the same three fields.\<close>

type_synonym vector_backfill_response = enumerate_response

datatype vector_backfill_start = VecOrigin | VecContinue bytes

record vector_backfill_request =
  vr_authority :: capability_authority
  vr_document_id :: document_id
  vr_oplog_version :: oplog_version
  vr_start :: vector_backfill_start

datatype update_codec_error =
    UcTruncated | UcTrailingBytes | UcInvalidRecordMagic | UcUnsupportedRecordVersion
  | UcUnsupportedLoroProfile | UcInvalidLoroMetadata | UcRecordTooLong | UcMetadataTooLong
  | UcEmptyEncryptedPayload | UcInvalidDiscriminant | UcInvalidCursor | UcIntegerOutOfRange
  | UcUnsupportedSubscriptionVersion

text \<open>\<open>u16::try_from\<close> and \<open>u32::try_from\<close> on a length.\<close>

definition u16_of_nat :: "'e \<Rightarrow> nat \<Rightarrow> 'e + u16" where
  "u16_of_nat e n = (if n < 2 ^ 16 then Inr (of_nat n) else Inl e)"

definition u32_of_nat :: "'e \<Rightarrow> nat \<Rightarrow> 'e + u32" where
  "u32_of_nat e n = (if n < 2 ^ 32 then Inr (of_nat n) else Inl e)"

definition take_byte :: "bytes \<Rightarrow> update_codec_error + byte \<times> bytes" where
  "take_byte bs = (case bs of [] \<Rightarrow> Inl UcTruncated | b # r \<Rightarrow> Inr (b, r))"

section \<open>Ranges\<close>

definition range_bytes :: "loro_range \<Rightarrow> bytes" where
  "range_bytes r =
    be_encode (lr_peer_id r) @ be_encode (lr_start_counter r) @ be_encode (lr_end_counter r)"

definition append_ranges :: "public_loro_ranges \<Rightarrow> bytes" where
  "append_ranges rs = concat (map range_bytes rs)"

definition take_range :: "bytes \<Rightarrow> update_codec_error + loro_range \<times> bytes" where
  "take_range bs =
    ok_then (dec_word UcTruncated bs) (\<lambda>(peer_id, bs).
    ok_then (dec_word UcTruncated bs) (\<lambda>(start_counter, bs).
    ok_then (dec_word UcTruncated bs) (\<lambda>(end_counter, bs).
    ok_then (map_err (\<lambda>_. UcInvalidLoroMetadata)
        (loro_range_new peer_id start_counter end_counter)) (\<lambda>rng.
    Inr (rng, bs)))))"

text \<open>
  The loop both the record decoder and the page decoders run: a 16-bit count between 1 and
  256, that many ranges, and the canonical-order check.
\<close>

definition take_ranges :: "bytes \<Rightarrow> update_codec_error + public_loro_ranges \<times> bytes" where
  "take_ranges bs =
    ok_then (dec_word UcTruncated bs) (\<lambda>(count, bs).
    let range_count = unat (count :: u16) in
    if range_count = 0 \<or> range_count > MAX_LORO_PEERS then Inl UcInvalidLoroMetadata
    else ok_then (dec_many take_range range_count bs) (\<lambda>(ranges, bs).
      ok_then (map_err (\<lambda>_. UcInvalidLoroMetadata) (public_ranges_new ranges)) (\<lambda>ranges.
      Inr (ranges, bs))))"

section \<open>Update records\<close>

definition metadata_encoded_length :: "update_metadata \<Rightarrow> nat" where
  "metadata_encoded_length m =
    IDENTIFIER_LENGTH + 2 + length (um_public_loro_ranges m) * RANGE_LENGTH + 4"

definition ensure_metadata_is_enumerable :: "immutable_update \<Rightarrow> update_codec_error + unit" where
  "ensure_metadata_is_enumerable u =
    ok_then (u32_of_nat UcIntegerOutOfRange (length (iu_encrypted_payload u))) (\<lambda>len.
    let metadata = \<lparr> um_encrypted_payload_length = len,
      um_public_loro_ranges = iu_public_loro_ranges u, um_update_id = iu_update_id u \<rparr> in
    if metadata_encoded_length metadata > MAX_ENUMERABLE_METADATA_LENGTH
    then Inl UcMetadataTooLong else Inr ())"

definition decode_update_record :: "bytes \<Rightarrow> update_codec_error + immutable_update" where
  "decode_update_record encoded =
    (if length encoded > MAX_UPDATE_RECORD_LENGTH then Inl UcRecordTooLong
     else
       ok_then (dec_take UcTruncated 8 encoded) (\<lambda>(magic, bs).
       if magic \<noteq> RECORD_MAGIC then Inl UcInvalidRecordMagic else
       ok_then (dec_word UcTruncated bs) (\<lambda>(version, bs).
       if version \<noteq> RECORD_VERSION then Inl UcUnsupportedRecordVersion else
       ok_then (dec_word UcTruncated bs) (\<lambda>(profile, bs).
       if profile \<noteq> LORO_PROFILE_CODE then Inl UcUnsupportedLoroProfile else
       ok_then (dec_word UcTruncated bs) (\<lambda>(document_id, bs).
       ok_then (dec_word UcTruncated bs) (\<lambda>(update_id, bs).
       ok_then (take_ranges bs) (\<lambda>(ranges, bs).
       ok_then (dec_word UcTruncated bs) (\<lambda>(payload_length, bs).
       if unat (payload_length :: u32) = 0 then Inl UcEmptyEncryptedPayload else
       ok_then (dec_take UcTruncated (unat payload_length) bs) (\<lambda>(payload, bs).
       ok_then (dec_finish UcTrailingBytes bs) (\<lambda>_.
       let update = immutable_update_new document_id update_id ranges payload in
       ok_then (ensure_metadata_is_enumerable update) (\<lambda>_. Inr update)))))))))))"

definition encode_update_record :: "immutable_update \<Rightarrow> update_codec_error + bytes" where
  "encode_update_record u =
    ok_then (ensure_metadata_is_enumerable u) (\<lambda>_.
    ok_then (u16_of_nat UcIntegerOutOfRange (length (iu_public_loro_ranges u))) (\<lambda>range_count.
    ok_then (u32_of_nat UcIntegerOutOfRange (length (iu_encrypted_payload u))) (\<lambda>payload_length.
    if payload_length = 0 then Inl UcEmptyEncryptedPayload
    else if RECORD_FIXED_LENGTH + unat range_count * RANGE_LENGTH
        + length (iu_encrypted_payload u) > MAX_UPDATE_RECORD_LENGTH then Inl UcRecordTooLong
    else Inr (RECORD_MAGIC @ be_encode RECORD_VERSION @ be_encode LORO_PROFILE_CODE
      @ be_encode (iu_document_id u) @ be_encode (iu_update_id u) @ be_encode range_count
      @ append_ranges (iu_public_loro_ranges u) @ be_encode payload_length
      @ iu_encrypted_payload u))))"

section \<open>Accept\<close>

fun accept_outcome_code :: "accept_update_outcome \<Rightarrow> byte" where
  "accept_outcome_code AcceptInserted = 0"
| "accept_outcome_code AcceptAlreadyPresent = 1"

definition accept_outcome_from :: "byte \<Rightarrow> accept_update_outcome option" where
  "accept_outcome_from b =
    (if b = 0 then Some AcceptInserted else if b = 1 then Some AcceptAlreadyPresent else None)"

definition encode_accept_response :: "accept_update_outcome \<Rightarrow> bytes" where
  "encode_accept_response outcome = [accept_outcome_code outcome]"

definition decode_accept_response :: "bytes \<Rightarrow> update_codec_error + accept_update_outcome" where
  "decode_accept_response =
    decode_one_byte UcInvalidDiscriminant UcTrailingBytes accept_outcome_from"

section \<open>Enumeration requests\<close>

definition cursor_length :: "bytes option \<Rightarrow> update_codec_error + nat" where
  "cursor_length cursor =
    (case cursor of
      Some c \<Rightarrow> if length c = ENUMERATION_CONTINUATION_LENGTH
        then Inr ENUMERATION_CONTINUATION_LENGTH else Inl UcInvalidCursor
    | None \<Rightarrow> Inr 0)"

definition cursor_bytes :: "bytes option \<Rightarrow> bytes" where
  "cursor_bytes cursor = (case cursor of Some c \<Rightarrow> c | None \<Rightarrow> [])"

definition encode_enumerate_request :: "enumerate_request \<Rightarrow> update_codec_error + bytes" where
  "encode_enumerate_request r =
    (let (mode, cursor) = (case er_start r of
        EnumOrigin \<Rightarrow> (0 :: byte, None)
      | EnumContinue c \<Rightarrow> (1, Some c)
      | EnumAfterTail c \<Rightarrow> (2, Some c)) in
     ok_then (cursor_length cursor) (\<lambda>len.
     ok_then (u16_of_nat UcIntegerOutOfRange len) (\<lambda>len16.
     Inr (encode_authority (er_authority r) @ be_encode (er_document_id r) @ [mode]
       @ be_encode len16 @ cursor_bytes cursor))))"

definition decode_enumerate_request :: "bytes \<Rightarrow> update_codec_error + enumerate_request" where
  "decode_enumerate_request bs =
    ok_then (take_authority UcTruncated bs) (\<lambda>(authority, bs).
    ok_then (dec_word UcTruncated bs) (\<lambda>(document_id, bs).
    ok_then (take_byte bs) (\<lambda>(mode, bs).
    ok_then (dec_word UcTruncated bs) (\<lambda>(len, bs).
    let cursor_length = unat (len :: u16) in
    ok_then
      (if mode = 0 \<and> cursor_length = 0 then Inr (EnumOrigin, bs)
       else if mode = 0 then Inl UcInvalidCursor
       else if mode = 1 then
         ok_then (dec_take UcTruncated cursor_length bs) (\<lambda>(c, bs). Inr (EnumContinue c, bs))
       else if mode = 2 then
         ok_then (dec_take UcTruncated cursor_length bs) (\<lambda>(c, bs). Inr (EnumAfterTail c, bs))
       else Inl UcInvalidDiscriminant) (\<lambda>(start, bs).
    ok_then (dec_finish UcTrailingBytes bs) (\<lambda>_.
    Inr \<lparr> er_authority = authority, er_document_id = document_id, er_start = start \<rparr>))))))"


section \<open>Oplog versions\<close>

definition version_entry_bytes :: "version_entry \<Rightarrow> bytes" where
  "version_entry_bytes e = be_encode (ve_peer_id e) @ be_encode (ve_end_counter e)"

definition encode_loro_oplog_version :: "oplog_version \<Rightarrow> bytes" where
  "encode_loro_oplog_version version =
    (let entry_count = (if length version < 2 ^ 16 then of_nat (length version) else - 1 :: u16) in
     OPLOG_VERSION_MAGIC @ be_encode OPLOG_VERSION_FORMAT_VERSION @ be_encode entry_count
     @ concat (map version_entry_bytes version))"

text \<open>\<open>chunks_exact\<close>: consecutive chunks of the given length, a shorter rest dropped.\<close>

fun chunks_exact_fuel :: "nat \<Rightarrow> nat \<Rightarrow> bytes \<Rightarrow> bytes list" where
  "chunks_exact_fuel 0 n bs = []"
| "chunks_exact_fuel (Suc k) n bs =
    (if length bs < n then [] else take n bs # chunks_exact_fuel k n (drop n bs))"

definition chunks_exact :: "nat \<Rightarrow> bytes \<Rightarrow> bytes list" where
  "chunks_exact n bs = chunks_exact_fuel (length bs) n bs"

definition version_entry_of_chunk :: "bytes \<Rightarrow> update_codec_error + version_entry" where
  "version_entry_of_chunk entry =
    map_err (\<lambda>_. UcInvalidLoroMetadata)
      (version_entry_new (be_decode (take 8 entry)) (be_decode (drop 8 entry)))"

fun version_entries_of_chunks :: "bytes list \<Rightarrow> update_codec_error + version_entry list" where
  "version_entries_of_chunks [] = Inr []"
| "version_entries_of_chunks (entry # rest) =
    ok_then (version_entry_of_chunk entry) (\<lambda>e.
    ok_then (version_entries_of_chunks rest) (\<lambda>es. Inr (e # es)))"

definition decode_loro_oplog_version :: "bytes \<Rightarrow> update_codec_error + oplog_version" where
  "decode_loro_oplog_version encoded =
    (if length encoded < OPLOG_VERSION_HEADER_LENGTH
        \<or> take (length OPLOG_VERSION_MAGIC) encoded \<noteq> OPLOG_VERSION_MAGIC
     then Inl UcInvalidLoroMetadata
     else
       ok_then (ok_or UcInvalidLoroMetadata (slice_get encoded 8 10)) (\<lambda>format_bytes.
       ok_then (ok_or UcInvalidLoroMetadata (slice_get encoded 10 12)) (\<lambda>count_bytes.
       let format_version = be_decode format_bytes :: u16;
           entry_count = unat (be_decode count_bytes :: u16) in
       if format_version \<noteq> OPLOG_VERSION_FORMAT_VERSION \<or> entry_count > MAX_LORO_PEERS
          \<or> length encoded \<noteq> OPLOG_VERSION_HEADER_LENGTH + entry_count * OPLOG_VERSION_ENTRY_LENGTH
       then Inl UcInvalidLoroMetadata
       else ok_then (version_entries_of_chunks (chunks_exact OPLOG_VERSION_ENTRY_LENGTH
             (drop OPLOG_VERSION_HEADER_LENGTH encoded))) (\<lambda>entries.
         map_err (\<lambda>_. UcInvalidLoroMetadata) (oplog_version_new entries)))))"

section \<open>Vector-backfill requests\<close>

definition vector_cursor_length :: "bytes option \<Rightarrow> update_codec_error + nat" where
  "vector_cursor_length cursor =
    (case cursor of
      None \<Rightarrow> Inr 0
    | Some c \<Rightarrow> if length c = VECTOR_CURSOR_LENGTH then Inr VECTOR_CURSOR_LENGTH
        else Inl UcInvalidCursor)"

definition encode_vector_backfill_request ::
  "vector_backfill_request \<Rightarrow> update_codec_error + bytes" where
  "encode_vector_backfill_request r =
    (let (mode, cursor) = (case vr_start r of
        VecOrigin \<Rightarrow> (0 :: byte, None)
      | VecContinue c \<Rightarrow> (1, Some c)) in
     ok_then (vector_cursor_length cursor) (\<lambda>cursor_len.
     let encoded_version = encode_loro_oplog_version (vr_oplog_version r) in
     ok_then (u16_of_nat UcIntegerOutOfRange (length encoded_version)) (\<lambda>vector_len.
     ok_then (u16_of_nat UcIntegerOutOfRange cursor_len) (\<lambda>cursor_len16.
     let payload = be_encode VECTOR_BACKFILL_PAYLOAD_VERSION @ encode_authority (vr_authority r)
       @ be_encode (vr_document_id r) @ [mode] @ be_encode cursor_len16 @ cursor_bytes cursor
       @ be_encode vector_len @ encoded_version in
     if length payload > MAX_APPLICATION_PAYLOAD_LENGTH then Inl UcRecordTooLong
     else Inr payload))))"

definition decode_vector_backfill_request ::
  "bytes \<Rightarrow> update_codec_error + vector_backfill_request" where
  "decode_vector_backfill_request payload =
    (if length payload > MAX_APPLICATION_PAYLOAD_LENGTH then Inl UcRecordTooLong
     else
       ok_then (dec_word UcTruncated payload) (\<lambda>(payload_version, bs).
       if payload_version \<noteq> VECTOR_BACKFILL_PAYLOAD_VERSION then Inl UcUnsupportedLoroProfile else
       ok_then (take_authority UcTruncated bs) (\<lambda>(authority, bs).
       ok_then (dec_word UcTruncated bs) (\<lambda>(document_id, bs).
       ok_then (take_byte bs) (\<lambda>(mode, bs).
       ok_then (dec_word UcTruncated bs) (\<lambda>(len, bs).
       let cursor_length = unat (len :: u16) in
       ok_then
         (if mode = 0 \<and> cursor_length = 0 then Inr (VecOrigin, bs)
          else if mode = 1 then
            ok_then (dec_take UcTruncated cursor_length bs) (\<lambda>(c, bs). Inr (VecContinue c, bs))
          else Inl UcInvalidCursor) (\<lambda>(start, bs).
       ok_then (dec_word UcTruncated bs) (\<lambda>(vlen, bs).
       let vector_length = unat (vlen :: u16) in
       if vector_length > OPLOG_VERSION_HEADER_LENGTH + MAX_LORO_PEERS * OPLOG_VERSION_ENTRY_LENGTH
       then Inl UcInvalidLoroMetadata else
       ok_then (dec_take UcTruncated vector_length bs) (\<lambda>(vector, bs).
       ok_then (decode_loro_oplog_version vector) (\<lambda>oplog_version.
       ok_then (dec_finish UcTrailingBytes bs) (\<lambda>_.
       Inr \<lparr> vr_authority = authority, vr_document_id = document_id,
             vr_oplog_version = oplog_version, vr_start = start \<rparr>)))))))))))"

section \<open>Metadata pages\<close>

definition encode_metadata_entry :: "update_metadata \<Rightarrow> update_codec_error + bytes" where
  "encode_metadata_entry m =
    ok_then (u16_of_nat UcIntegerOutOfRange (length (um_public_loro_ranges m))) (\<lambda>range_count.
    Inr (be_encode (um_update_id m) @ be_encode range_count
      @ append_ranges (um_public_loro_ranges m) @ be_encode (um_encrypted_payload_length m)))"

fun encode_metadata_entries :: "update_metadata list \<Rightarrow> update_codec_error + bytes" where
  "encode_metadata_entries [] = Inr []"
| "encode_metadata_entries (m # rest) =
    ok_then (encode_metadata_entry m) (\<lambda>e.
    ok_then (encode_metadata_entries rest) (\<lambda>es. Inr (e @ es)))"

definition take_metadata_entry :: "bytes \<Rightarrow> update_codec_error + update_metadata \<times> bytes" where
  "take_metadata_entry bs =
    ok_then (dec_word UcTruncated bs) (\<lambda>(update_id, bs).
    ok_then (take_ranges bs) (\<lambda>(ranges, bs).
    ok_then (dec_word UcTruncated bs) (\<lambda>(len, bs).
    Inr (\<lparr> um_encrypted_payload_length = len, um_public_loro_ranges = ranges,
           um_update_id = update_id \<rparr>, bs))))"

definition bool_byte :: "bool \<Rightarrow> byte" where
  "bool_byte b = (if b then 1 else 0)"

definition take_bool :: "bytes \<Rightarrow> update_codec_error + bool \<times> bytes" where
  "take_bool bs =
    ok_then (take_byte bs) (\<lambda>(b, bs).
    if b = 0 then Inr (False, bs) else if b = 1 then Inr (True, bs)
    else Inl UcInvalidDiscriminant)"

definition enumerate_response_base_length :: "bytes option \<Rightarrow> update_codec_error + nat" where
  "enumerate_response_base_length cursor =
    ok_then (cursor_length cursor) (\<lambda>len. Inr (1 + 2 + len + 2))"

definition vector_backfill_response_base_length :: "bytes option \<Rightarrow> update_codec_error + nat" where
  "vector_backfill_response_base_length cursor =
    ok_then (vector_cursor_length cursor) (\<lambda>len. Inr (1 + 2 + len + 2))"

definition encode_enumerate_response :: "enumerate_response \<Rightarrow> update_codec_error + bytes" where
  "encode_enumerate_response r =
    (let has_updates = pr_updates r \<noteq> [] in
     if (pr_has_more r \<and> \<not> has_updates) \<or> (pr_next_cursor r \<noteq> None) \<noteq> has_updates
     then Inl UcInvalidCursor
     else
       ok_then (u16_of_nat UcIntegerOutOfRange (length (pr_updates r))) (\<lambda>count.
       ok_then (cursor_length (pr_next_cursor r)) (\<lambda>len.
       ok_then (u16_of_nat UcIntegerOutOfRange len) (\<lambda>len16.
       ok_then (enumerate_response_base_length (pr_next_cursor r)) (\<lambda>_.
       ok_then (encode_metadata_entries (pr_updates r)) (\<lambda>entries.
       let payload = [bool_byte (pr_has_more r)] @ be_encode len16
         @ cursor_bytes (pr_next_cursor r) @ be_encode count @ entries in
       if length payload > MAX_APPLICATION_PAYLOAD_LENGTH then Inl UcRecordTooLong
       else Inr payload))))))"

definition decode_enumerate_response :: "bytes \<Rightarrow> update_codec_error + enumerate_response" where
  "decode_enumerate_response payload =
    (if length payload > MAX_APPLICATION_PAYLOAD_LENGTH then Inl UcRecordTooLong
     else
       ok_then (take_bool payload) (\<lambda>(has_more, bs).
       ok_then (dec_word UcTruncated bs) (\<lambda>(len, bs).
       let cursor_length = unat (len :: u16) in
       ok_then
         (if cursor_length = 0 then Inr (None, bs)
          else if cursor_length = ENUMERATION_CONTINUATION_LENGTH then
            ok_then (dec_take UcTruncated cursor_length bs) (\<lambda>(c, bs). Inr (Some c, bs))
          else Inl UcInvalidCursor) (\<lambda>(next_cursor, bs).
       ok_then (dec_word UcTruncated bs) (\<lambda>(count, bs).
       let has_updates = unat (count :: u16) \<noteq> 0 in
       if (has_more \<and> \<not> has_updates) \<or> (next_cursor \<noteq> None) \<noteq> has_updates
       then Inl UcInvalidCursor else
       ok_then (dec_many take_metadata_entry (unat count) bs) (\<lambda>(updates, bs).
       ok_then (dec_finish UcTrailingBytes bs) (\<lambda>_.
       Inr \<lparr> pr_has_more = has_more, pr_next_cursor = next_cursor,
             pr_updates = updates \<rparr>)))))))"

definition encode_vector_backfill_response ::
  "vector_backfill_response \<Rightarrow> update_codec_error + bytes" where
  "encode_vector_backfill_response r =
    (if pr_has_more r \<noteq> (pr_next_cursor r \<noteq> None) then Inl UcInvalidCursor
     else
       ok_then (u16_of_nat UcIntegerOutOfRange (length (pr_updates r))) (\<lambda>count.
       ok_then (vector_cursor_length (pr_next_cursor r)) (\<lambda>len.
       ok_then (vector_backfill_response_base_length (pr_next_cursor r)) (\<lambda>_.
       ok_then (u16_of_nat UcIntegerOutOfRange len) (\<lambda>len16.
       ok_then (encode_metadata_entries (pr_updates r)) (\<lambda>entries.
       let payload = [bool_byte (pr_has_more r)] @ be_encode len16
         @ cursor_bytes (pr_next_cursor r) @ be_encode count @ entries in
       if length payload > MAX_APPLICATION_PAYLOAD_LENGTH then Inl UcRecordTooLong
       else Inr payload))))))"

definition decode_vector_backfill_response ::
  "bytes \<Rightarrow> update_codec_error + vector_backfill_response" where
  "decode_vector_backfill_response payload =
    (if length payload > MAX_APPLICATION_PAYLOAD_LENGTH then Inl UcRecordTooLong
     else
       ok_then (take_bool payload) (\<lambda>(has_more, bs).
       ok_then (dec_word UcTruncated bs) (\<lambda>(len, bs).
       let cursor_length = unat (len :: u16) in
       ok_then
         (if cursor_length = 0 then Inr (None, bs)
          else if cursor_length = VECTOR_CURSOR_LENGTH then
            ok_then (dec_take UcTruncated cursor_length bs) (\<lambda>(c, bs). Inr (Some c, bs))
          else Inl UcInvalidCursor) (\<lambda>(next_cursor, bs).
       if has_more \<noteq> (next_cursor \<noteq> None) then Inl UcInvalidCursor else
       ok_then (dec_word UcTruncated bs) (\<lambda>(count, bs).
       ok_then (dec_many take_metadata_entry (unat (count :: u16)) bs) (\<lambda>(updates, bs).
       ok_then (dec_finish UcTrailingBytes bs) (\<lambda>_.
       Inr \<lparr> pr_has_more = has_more, pr_next_cursor = next_cursor,
             pr_updates = updates \<rparr>)))))))"

section \<open>Fetch\<close>

definition encode_fetch_request :: "fetch_request \<Rightarrow> bytes" where
  "encode_fetch_request r =
    encode_authority (fr_authority r) @ be_encode (fr_document_id r) @ be_encode (fr_update_id r)"

definition decode_fetch_request :: "bytes \<Rightarrow> update_codec_error + fetch_request" where
  "decode_fetch_request bs =
    ok_then (take_authority UcTruncated bs) (\<lambda>(authority, bs).
    ok_then (dec_word UcTruncated bs) (\<lambda>(document_id, bs).
    ok_then (dec_word UcTruncated bs) (\<lambda>(update_id, bs).
    ok_then (dec_finish UcTrailingBytes bs) (\<lambda>_.
    Inr \<lparr> fr_authority = authority, fr_document_id = document_id, fr_update_id = update_id \<rparr>))))"

definition encode_fetch_response :: "bytes \<Rightarrow> update_codec_error + bytes" where
  "encode_fetch_response p =
    (if p = [] then Inl UcEmptyEncryptedPayload
     else if length p > MAX_APPLICATION_PAYLOAD_LENGTH then Inl UcRecordTooLong
     else Inr p)"

definition decode_fetch_response :: "bytes \<Rightarrow> update_codec_error + bytes" where
  "decode_fetch_response payload =
    (if payload = [] then Inl UcEmptyEncryptedPayload else Inr payload)"

section \<open>Subscriptions\<close>

definition take_subscription_version :: "bytes \<Rightarrow> update_codec_error + unit \<times> bytes" where
  "take_subscription_version bs =
    ok_then (dec_word UcTruncated bs) (\<lambda>(v, bs).
    if v = SUBSCRIPTION_PAYLOAD_VERSION then Inr ((), bs)
    else Inl UcUnsupportedSubscriptionVersion)"

definition encode_subscribe_updates_request :: "subscribe_updates_request \<Rightarrow> bytes" where
  "encode_subscribe_updates_request r =
    be_encode SUBSCRIPTION_PAYLOAD_VERSION @ encode_authority (su_authority r)
    @ be_encode (su_document_id r)"

definition decode_subscribe_updates_request ::
  "bytes \<Rightarrow> update_codec_error + subscribe_updates_request" where
  "decode_subscribe_updates_request bs =
    ok_then (take_subscription_version bs) (\<lambda>(_, bs).
    ok_then (take_authority UcTruncated bs) (\<lambda>(authority, bs).
    ok_then (dec_word UcTruncated bs) (\<lambda>(document_id, bs).
    ok_then (dec_finish UcTrailingBytes bs) (\<lambda>_.
    Inr \<lparr> su_authority = authority, su_document_id = document_id \<rparr>))))"

definition encode_update_notification :: "update_notification \<Rightarrow> bytes" where
  "encode_update_notification n =
    be_encode SUBSCRIPTION_PAYLOAD_VERSION @ be_encode (un_subscription_id n)
    @ be_encode (un_update_id n)"

definition decode_update_notification :: "bytes \<Rightarrow> update_codec_error + update_notification" where
  "decode_update_notification bs =
    ok_then (take_subscription_version bs) (\<lambda>(_, bs).
    ok_then (dec_word UcTruncated bs) (\<lambda>(subscription_id, bs).
    ok_then (dec_word UcTruncated bs) (\<lambda>(update_id, bs).
    ok_then (dec_finish UcTrailingBytes bs) (\<lambda>_.
    Inr \<lparr> un_subscription_id = subscription_id, un_update_id = update_id \<rparr>))))"

definition encode_subscription_identity :: "update_subscription_id \<Rightarrow> bytes" where
  "encode_subscription_identity i = be_encode SUBSCRIPTION_PAYLOAD_VERSION @ be_encode i"

definition decode_subscription_identity ::
  "bytes \<Rightarrow> update_codec_error + update_subscription_id" where
  "decode_subscription_identity bs =
    ok_then (take_subscription_version bs) (\<lambda>(_, bs).
    ok_then (dec_word UcTruncated bs) (\<lambda>(subscription_id, bs).
    ok_then (dec_finish UcTrailingBytes bs) (\<lambda>_. Inr subscription_id)))"

definition encode_subscribe_updates_ack :: "update_subscription_id \<Rightarrow> bytes" where
  "encode_subscribe_updates_ack = encode_subscription_identity"
definition decode_subscribe_updates_ack :: "bytes \<Rightarrow> update_codec_error + update_subscription_id" where
  "decode_subscribe_updates_ack = decode_subscription_identity"
definition encode_update_subscription_overflow :: "update_subscription_id \<Rightarrow> bytes" where
  "encode_update_subscription_overflow = encode_subscription_identity"
definition decode_update_subscription_overflow ::
  "bytes \<Rightarrow> update_codec_error + update_subscription_id" where
  "decode_update_subscription_overflow = decode_subscription_identity"
definition encode_update_subscription_invalidated :: "update_subscription_id \<Rightarrow> bytes" where
  "encode_update_subscription_invalidated = encode_subscription_identity"
definition decode_update_subscription_invalidated ::
  "bytes \<Rightarrow> update_codec_error + update_subscription_id" where
  "decode_update_subscription_invalidated = decode_subscription_identity"
definition encode_cancel_update_subscription :: "update_subscription_id \<Rightarrow> bytes" where
  "encode_cancel_update_subscription = encode_subscription_identity"
definition decode_cancel_update_subscription ::
  "bytes \<Rightarrow> update_codec_error + update_subscription_id" where
  "decode_cancel_update_subscription = decode_subscription_identity"

definition is_update_subscription_event :: "u16 \<Rightarrow> bool" where
  "is_update_subscription_event message_type \<longleftrightarrow>
    message_type = UPDATE_NOTIFICATION \<or> message_type = UPDATE_SUBSCRIPTION_OVERFLOW
    \<or> message_type = UPDATE_SUBSCRIPTION_INVALIDATED"

section \<open>Errors\<close>

fun update_error_byte :: "update_error_code \<Rightarrow> byte" where
  "update_error_byte UpMalformed = 0"
| "update_error_byte UpIdentifierConflict = 1"
| "update_error_byte UpNotFound = 2"
| "update_error_byte UpNotNegotiated = 3"
| "update_error_byte UpInvalidCursor = 4"
| "update_error_byte UpCounterExhausted = 5"
| "update_error_byte UpAuthorizationDenied = 6"
| "update_error_byte UpBackpressure = 7"
| "update_error_byte UpInvalidLoroMetadata = 8"
| "update_error_byte UpInvalidOrExpiredContinuation = 9"
| "update_error_byte UpLimitExceeded = 10"
| "update_error_byte UpRetiredDocument = 11"

definition update_error_from :: "byte \<Rightarrow> update_error_code option" where
  "update_error_from b =
    (if b = 0 then Some UpMalformed
     else if b = 1 then Some UpIdentifierConflict
     else if b = 2 then Some UpNotFound
     else if b = 3 then Some UpNotNegotiated
     else if b = 4 then Some UpInvalidCursor
     else if b = 5 then Some UpCounterExhausted
     else if b = 6 then Some UpAuthorizationDenied
     else if b = 7 then Some UpBackpressure
     else if b = 8 then Some UpInvalidLoroMetadata
     else if b = 9 then Some UpInvalidOrExpiredContinuation
     else if b = 10 then Some UpLimitExceeded
     else if b = 11 then Some UpRetiredDocument
     else None)"

definition encode_update_error :: "update_error_code \<Rightarrow> bytes" where
  "encode_update_error error = [update_error_byte error]"

definition decode_update_error :: "bytes \<Rightarrow> update_codec_error + update_error_code" where
  "decode_update_error =
    decode_one_byte UcInvalidDiscriminant UcTrailingBytes update_error_from"

end
