(* ===== verification/Wire_Codecs.thy ===== *)
theory Wire_Codecs
  imports Wire_Update
begin

text \<open>
  The laws of the update codecs: each decoder accepts exactly the encoder's output on
  well-formed values.  The composite formats are instances of the field codec interface,
  and the page formats read their entries through its repetition lemma.
\<close>

section \<open>Helpers\<close>

lemma u16_of_nat_Inr_iff [simp]: "u16_of_nat e n = Inr w \<longleftrightarrow> n < 2 ^ 16 \<and> w = of_nat n"
  by (auto simp add: u16_of_nat_def)

lemma u32_of_nat_Inr_iff [simp]: "u32_of_nat e n = Inr w \<longleftrightarrow> n < 2 ^ 32 \<and> w = of_nat n"
  by (auto simp add: u32_of_nat_def)

lemma unat_u16 [simp]: "n < 65536 \<Longrightarrow> unat (of_nat n :: u16) = n"
  by (simp add: unat_of_nat)

lemma unat_u32 [simp]: "n < 4294967296 \<Longrightarrow> unat (of_nat n :: u32) = n"
  by (simp add: unat_of_nat)

lemma unat_u16_less [simp]: "unat (w :: u16) < 65536"
  using unsigned_less [of w, where 'a = nat] by simp

lemma unat_u16_eq: "unat (w :: u16) = n \<longleftrightarrow> n < 65536 \<and> w = of_nat n"
  using unsigned_less [of w, where 'a = nat] by auto

lemma unat_u32_eq: "unat (w :: u32) = n \<longleftrightarrow> n < 4294967296 \<and> w = of_nat n"
  using unsigned_less [of w, where 'a = nat] by auto

lemma of_nat_u32_0_iff: "n < 4294967296 \<Longrightarrow> (of_nat n :: u32) = 0 \<longleftrightarrow> n = 0"
proof
  assume "n < 4294967296" and "(of_nat n :: u32) = 0"
  with unat_u32 [of n] show "n = 0" by (simp del: unat_u32)
qed simp

lemma take_byte_Inr_iff [codec_dest]: "take_byte bs = Inr (b, r) \<longleftrightarrow> bs = b # r"
  by (auto simp add: take_byte_def split: list.splits)

lemma take_byte_Cons [codec_simps]: "take_byte (b # r) = Inr (b, r)"
  by (simp add: take_byte_def)

interpretation boolc: field_codec "\<lambda>b. [bool_byte b]" take_bool "\<lambda>_. True"
proof unfold_locales
  show "take_bool ([bool_byte b] @ r) = Inr (b, r)" for b r
    by (simp add: take_bool_def bool_byte_def codec_simps)
qed (auto simp add: take_bool_def ok_then_Inr_iff bool_byte_def codec_dest split: if_splits)

section \<open>Ranges\<close>

lemma length_range_bytes [simp]: "length (range_bytes r) = RANGE_LENGTH"
  by (simp add: range_bytes_def RANGE_LENGTH_def)

lemma length_append_ranges [simp]: "length (append_ranges rs) = length rs * RANGE_LENGTH"
  by (induction rs) (simp_all add: append_ranges_def)

interpretation rangec: field_codec range_bytes take_range loro_range_ok
proof unfold_locales
  show "loro_range_ok a \<Longrightarrow> take_range (range_bytes a @ r) = Inr (a, r)" for a r
    using loro_range_new_iff [of "lr_peer_id a" "lr_start_counter a" "lr_end_counter a" a]
    by (simp add: range_bytes_def take_range_def codec_simps)
qed (auto simp add: range_bytes_def take_range_def ok_then_Inr_iff codec_dest loro_range_new_iff)

text \<open>The counted form: what \<open>take_ranges\<close> reads.\<close>

definition ranges_field :: "public_loro_ranges \<Rightarrow> bytes" where
  "ranges_field rs = be_encode (of_nat (length rs) :: u16) @ append_ranges rs"

lemma length_ranges_field [simp]: "length (ranges_field rs) = 2 + length rs * RANGE_LENGTH"
  by (simp add: ranges_field_def)

lemma take_ranges_sound:
  assumes "take_ranges bs = Inr (rs, r)"
  shows "public_ranges_ok rs \<and> bs = ranges_field rs @ r"
  using assms unfolding take_ranges_def
  by (clarsimp simp add: ok_then_Inr_iff word_dec_iff Let_def split: if_splits)
    (clarsimp simp add: rangec.dec_many_iff public_ranges_new_iff ranges_field_def append_ranges_def)

lemma take_ranges_field:
  assumes "public_ranges_ok rs"
  shows "take_ranges (ranges_field rs @ r) = Inr (rs, r)"
proof -
  have ok: "length rs < 65536" "rs \<noteq> []" "list_all loro_range_ok rs" "length rs \<le> MAX_LORO_PEERS"
    using assms by (auto simp add: public_ranges_ok_def MAX_LORO_PEERS_def)
  have "dec_many take_range (length rs) (append_ranges rs @ r) = Inr (rs, r)"
    using ok(3) by (simp add: append_ranges_def rangec.dec_many_enc)
  moreover have "public_ranges_new rs = Inr rs"
    using assms ok(3) by (simp add: public_ranges_new_iff)
  ultimately show ?thesis
    using ok(1,2,4) by (simp add: take_ranges_def ranges_field_def codec_simps)
qed

interpretation rangesc: field_codec ranges_field take_ranges public_ranges_ok
  by unfold_locales (simp_all add: take_ranges_field take_ranges_sound)

lemmas ranges_dec_iff [codec_dest] = rangesc.dec_iff

section \<open>Update records\<close>

definition update_ok :: "immutable_update \<Rightarrow> bool" where
  "update_ok u \<longleftrightarrow> public_ranges_ok (iu_public_loro_ranges u)"

lemma immutable_update_new_self: "immutable_update_new (iu_document_id u) (iu_update_id u)
    (iu_public_loro_ranges u) (iu_encrypted_payload u) = u"
  by (simp add: immutable_update_new_def)

definition record_bytes :: "immutable_update \<Rightarrow> bytes" where
  "record_bytes u = RECORD_MAGIC @ be_encode RECORD_VERSION @ be_encode LORO_PROFILE_CODE
    @ be_encode (iu_document_id u) @ be_encode (iu_update_id u)
    @ ranges_field (iu_public_loro_ranges u)
    @ be_encode (of_nat (length (iu_encrypted_payload u)) :: u32) @ iu_encrypted_payload u"

definition record_length :: "immutable_update \<Rightarrow> nat" where
  "record_length u = RECORD_FIXED_LENGTH + length (iu_public_loro_ranges u) * RANGE_LENGTH
    + length (iu_encrypted_payload u)"

lemma length_RECORD_MAGIC [simp]: "length RECORD_MAGIC = 8"
  by (simp add: RECORD_MAGIC_def)

lemma length_record_bytes: "length (record_bytes u) = record_length u"
  by (simp add: record_bytes_def record_length_def RECORD_FIXED_LENGTH_def)

lemma metadata_fits_record:
  assumes "record_length u \<le> MAX_UPDATE_RECORD_LENGTH"
  shows "ensure_metadata_is_enumerable u = Inr ()"
proof -
  have "length (iu_encrypted_payload u) < 2 ^ 32"
    using assms by (simp add: record_length_def update_length_defs)
  then show ?thesis
    using assms by (simp add: ensure_metadata_is_enumerable_def u32_of_nat_def
        metadata_encoded_length_def record_length_def update_length_defs)
qed

lemma encode_update_record_iff:
  "encode_update_record u = Inr bs \<longleftrightarrow>
    iu_encrypted_payload u \<noteq> [] \<and> record_length u \<le> MAX_UPDATE_RECORD_LENGTH \<and> bs = record_bytes u"
proof
  assume e: "encode_update_record u = Inr bs"
  then have l: "length (iu_public_loro_ranges u) < 2 ^ 16" "length (iu_encrypted_payload u) < 2 ^ 32"
    by (auto simp add: encode_update_record_def ok_then_Inr_iff)
  have "(of_nat (length (iu_encrypted_payload u)) :: u32) \<noteq> 0 \<longleftrightarrow> iu_encrypted_payload u \<noteq> []"
    using of_nat_u32_0_iff [of "length (iu_encrypted_payload u)"] l(2) by simp
  with e l show "iu_encrypted_payload u \<noteq> [] \<and> record_length u \<le> MAX_UPDATE_RECORD_LENGTH
      \<and> bs = record_bytes u"
    by (auto simp add: encode_update_record_def ok_then_Inr_iff record_bytes_def record_length_def
        ranges_field_def split: if_splits)
next
  assume a: "iu_encrypted_payload u \<noteq> [] \<and> record_length u \<le> MAX_UPDATE_RECORD_LENGTH
    \<and> bs = record_bytes u"
  then have l: "length (iu_public_loro_ranges u) < 65536" "length (iu_encrypted_payload u) < 4294967296"
    by (auto simp add: record_length_def update_length_defs)
  have "(of_nat (length (iu_encrypted_payload u)) :: u32) \<noteq> 0"
    using of_nat_u32_0_iff [OF l(2)] a by simp
  then show "encode_update_record u = Inr bs"
    using a l metadata_fits_record [of u]
    by (simp add: encode_update_record_def u16_of_nat_def u32_of_nat_def record_length_def
        record_bytes_def ranges_field_def)
qed

lemma decode_update_record_iff:
  "decode_update_record bs = Inr u \<longleftrightarrow> update_ok u \<and> encode_update_record u = Inr bs"
proof
  assume d: "decode_update_record bs = Inr u"
  then obtain len :: u32 where len: "length bs \<le> MAX_UPDATE_RECORD_LENGTH"
    "length (iu_encrypted_payload u) = unat len" "unat len \<noteq> 0"
    and bs: "bs = RECORD_MAGIC @ be_encode RECORD_VERSION @ be_encode LORO_PROFILE_CODE
      @ be_encode (iu_document_id u) @ be_encode (iu_update_id u)
      @ ranges_field (iu_public_loro_ranges u) @ be_encode len @ iu_encrypted_payload u"
    and ok: "public_ranges_ok (iu_public_loro_ranges u)"
    by (auto simp add: decode_update_record_def ok_then_Inr_iff codec_dest dec_take_Inr_iff Let_def
        immutable_update_new_def split: if_splits)
  have "len = of_nat (length (iu_encrypted_payload u))" using len(2) by simp
  then have b: "bs = record_bytes u"
    using bs by (simp add: record_bytes_def)
  moreover have "iu_encrypted_payload u \<noteq> []"
    using len(2,3) by auto
  ultimately show "update_ok u \<and> encode_update_record u = Inr bs"
    using ok len(1) length_record_bytes [of u] by (simp add: update_ok_def encode_update_record_iff)
next
  assume "update_ok u \<and> encode_update_record u = Inr bs"
  then have ok: "public_ranges_ok (iu_public_loro_ranges u)" and p: "iu_encrypted_payload u \<noteq> []"
    and l: "record_length u \<le> MAX_UPDATE_RECORD_LENGTH" and bs: "bs = record_bytes u"
    by (auto simp add: update_ok_def encode_update_record_iff)
  have pl: "length (iu_encrypted_payload u) < 4294967296"
    using l by (simp add: record_length_def update_length_defs)
  have "length bs \<le> MAX_UPDATE_RECORD_LENGTH"
    using l bs by (simp add: length_record_bytes)
  then show "decode_update_record bs = Inr u"
    using p l pl metadata_fits_record [OF l] rangesc.dec_enc [OF ok]
    by (simp add: decode_update_record_def bs record_bytes_def codec_simps
        immutable_update_new_self dec_take_def Let_def)
qed

interpretation record_codec: message_codec encode_update_record decode_update_record update_ok
  by unfold_locales (simp_all add: decode_update_record_iff)


section \<open>Oplog versions\<close>

lemma length_version_entry_bytes [simp]: "length (version_entry_bytes e) = OPLOG_VERSION_ENTRY_LENGTH"
  by (simp add: version_entry_bytes_def OPLOG_VERSION_ENTRY_LENGTH_def)

lemma length_concat_version_entries [simp]:
  "length (concat (map version_entry_bytes v)) = length v * OPLOG_VERSION_ENTRY_LENGTH"
  by (induction v) simp_all

lemma chunks_exact_fuel_cover:
  assumes "0 < n" "length bs = m * n" "m \<le> k"
  shows "concat (chunks_exact_fuel k n bs) = bs \<and> length (chunks_exact_fuel k n bs) = m
    \<and> list_all (\<lambda>c. length c = n) (chunks_exact_fuel k n bs)"
  using assms
proof (induction k arbitrary: bs m)
  case 0
  then show ?case by simp
next
  case (Suc k)
  show ?case
  proof (cases m)
    case 0
    with Suc.prems show ?thesis by simp
  next
    case (Suc m')
    then have "length (drop n bs) = m' * n" "m' \<le> k" "n \<le> length bs"
      using Suc.prems by simp_all
    with Suc.IH [OF Suc.prems(1) this(1,2)] Suc show ?thesis by simp
  qed
qed

lemma chunks_exact_cover:
  assumes "0 < n" "length bs = m * n"
  shows "concat (chunks_exact n bs) = bs \<and> length (chunks_exact n bs) = m
    \<and> list_all (\<lambda>c. length c = n) (chunks_exact n bs)"
  unfolding chunks_exact_def using assms by (intro chunks_exact_fuel_cover) simp_all

lemma version_entry_of_chunk_iff:
  assumes "length c = OPLOG_VERSION_ENTRY_LENGTH"
  shows "version_entry_of_chunk c = Inr e \<longleftrightarrow> version_entry_ok e \<and> c = version_entry_bytes e"
proof -
  have s: "be_encode (be_decode (take 8 c) :: u64) = take 8 c"
    "be_encode (be_decode (drop 8 c) :: u32) = drop 8 c"
    using assms by (simp_all add: be_encode_decode OPLOG_VERSION_ENTRY_LENGTH_def)
  have "version_entry_bytes e = c \<longleftrightarrow>
      be_decode (take 8 c) = ve_peer_id e \<and> be_decode (drop 8 c) = ve_end_counter e"
  proof
    assume c: "version_entry_bytes e = c"
    have "take 8 c = be_encode (ve_peer_id e)" "drop 8 c = be_encode (ve_end_counter e)"
      by (simp_all add: version_entry_bytes_def flip: c)
    then show "be_decode (take 8 c) = ve_peer_id e \<and> be_decode (drop 8 c) = ve_end_counter e"
      by (simp add: be_decode_encode)
  next
    assume "be_decode (take 8 c) = ve_peer_id e \<and> be_decode (drop 8 c) = ve_end_counter e"
    then show "version_entry_bytes e = c"
      using s by (simp add: version_entry_bytes_def)
  qed
  then show ?thesis
    by (auto simp add: version_entry_of_chunk_def version_entry_new_iff)
qed

lemma version_entries_of_chunks_iff:
  assumes "list_all (\<lambda>c. length c = OPLOG_VERSION_ENTRY_LENGTH) cs"
  shows "version_entries_of_chunks cs = Inr es \<longleftrightarrow>
    list_all version_entry_ok es \<and> cs = map version_entry_bytes es"
  using assms
proof (induction cs arbitrary: es)
  case Nil
  then show ?case by auto
next
  case (Cons c cs)
  then show ?case
    by (cases es) (auto simp add: ok_then_Inr_iff version_entry_of_chunk_iff)
qed

lemma map_version_entry_bytes_inj:
  assumes "list_all version_entry_ok v" "concat cs = concat (map version_entry_bytes v)"
    and "list_all (\<lambda>c. length c = OPLOG_VERSION_ENTRY_LENGTH) cs" "length cs = length v"
  shows "cs = map version_entry_bytes v"
proof (rule concat_injective)
  show "\<forall>(x, y)\<in>set (zip cs (map version_entry_bytes v)). length x = length y"
    using assms(3) by (auto simp add: list_all_iff set_zip)
qed (use assms in simp_all)

lemma length_OPLOG_VERSION_MAGIC [simp]: "length OPLOG_VERSION_MAGIC = 8"
  by (simp add: OPLOG_VERSION_MAGIC_def)

definition version_header :: "u16 \<Rightarrow> u16 \<Rightarrow> bytes" where
  "version_header f c = OPLOG_VERSION_MAGIC @ be_encode f @ be_encode c"

lemma length_version_header [simp]: "length (version_header f c) = 12"
  by (simp add: version_header_def)

lemma encode_version_header:
  "length v \<le> MAX_LORO_PEERS \<Longrightarrow> encode_loro_oplog_version v =
    version_header OPLOG_VERSION_FORMAT_VERSION (of_nat (length v)) @ concat (map version_entry_bytes v)"
  by (simp add: encode_loro_oplog_version_def version_header_def MAX_LORO_PEERS_def)

lemma length_encode_version:
  "length v \<le> MAX_LORO_PEERS \<Longrightarrow> length (encode_loro_oplog_version v) =
    OPLOG_VERSION_HEADER_LENGTH + length v * OPLOG_VERSION_ENTRY_LENGTH"
  by (simp add: encode_version_header OPLOG_VERSION_HEADER_LENGTH_def)

lemma decode_version_header:
  "decode_loro_oplog_version (version_header f c @ r) =
    (if f \<noteq> OPLOG_VERSION_FORMAT_VERSION \<or> unat c > MAX_LORO_PEERS
        \<or> length r \<noteq> unat c * OPLOG_VERSION_ENTRY_LENGTH
     then Inl UcInvalidLoroMetadata
     else ok_then (version_entries_of_chunks (chunks_exact OPLOG_VERSION_ENTRY_LENGTH r))
       (\<lambda>entries. map_err (\<lambda>_. UcInvalidLoroMetadata) (oplog_version_new entries)))"
proof -
  have "slice_get (version_header f c @ r) 8 10 = Some (be_encode f)"
    "slice_get (version_header f c @ r) 10 12 = Some (be_encode c)"
    using slice_get_at [of OPLOG_VERSION_MAGIC "be_encode f" "be_encode c @ r"]
      slice_get_at [of "OPLOG_VERSION_MAGIC @ be_encode f" "be_encode c" r]
    by (simp_all add: version_header_def)
  moreover have "take 8 (version_header f c @ r) = OPLOG_VERSION_MAGIC"
    by (simp add: version_header_def)
  ultimately show ?thesis
    by (simp add: decode_loro_oplog_version_def OPLOG_VERSION_HEADER_LENGTH_def be_decode_encode)
qed

lemma version_header_exists:
  assumes "12 \<le> length bs" "take 8 bs = OPLOG_VERSION_MAGIC"
  shows "\<exists>f c r. bs = version_header f c @ r"
proof -
  let ?f = "be_decode (take 2 (drop 8 bs)) :: u16" and ?c = "be_decode (take 2 (drop 10 bs)) :: u16"
  have "be_encode ?f = take 2 (drop 8 bs)" "be_encode ?c = take 2 (drop 10 bs)"
    using assms(1) by (simp_all add: be_encode_decode)
  then have "bs = version_header ?f ?c @ drop 12 bs"
    using append_take_drop_id [of 8 bs] append_take_drop_id [of 2 "drop 8 bs"]
      append_take_drop_id [of 2 "drop 10 bs"] assms(2)
    by (simp add: version_header_def)
  then show ?thesis by blast
qed

lemma decode_loro_oplog_version_iff:
  "decode_loro_oplog_version bs = Inr v \<longleftrightarrow>
    oplog_version_ok v \<and> bs = encode_loro_oplog_version v"
proof
  assume d: "decode_loro_oplog_version bs = Inr v"
  then have "12 \<le> length bs" "take 8 bs = OPLOG_VERSION_MAGIC"
    by (auto simp add: decode_loro_oplog_version_def OPLOG_VERSION_HEADER_LENGTH_def split: if_splits)
  then obtain f c r where bs: "bs = version_header f c @ r"
    using version_header_exists by blast
  let ?cs = "chunks_exact OPLOG_VERSION_ENTRY_LENGTH r"
  have h: "f = OPLOG_VERSION_FORMAT_VERSION" "unat c \<le> MAX_LORO_PEERS"
    "length r = unat c * OPLOG_VERSION_ENTRY_LENGTH"
    using d unfolding bs decode_version_header by (auto split: if_splits)
  have cs: "concat ?cs = r" "length ?cs = unat c"
    "list_all (\<lambda>c. length c = OPLOG_VERSION_ENTRY_LENGTH) ?cs"
    using chunks_exact_cover [OF _ h(3)] by (simp_all add: OPLOG_VERSION_ENTRY_LENGTH_def)
  obtain es where es: "version_entries_of_chunks ?cs = Inr es" "oplog_version_new es = Inr v"
    using d unfolding bs decode_version_header by (auto simp add: ok_then_Inr_iff split: if_splits)
  then have "list_all version_entry_ok es" "?cs = map version_entry_bytes es"
    using version_entries_of_chunks_iff [OF cs(3)] by auto
  moreover from this es(2) have "v = es" "oplog_version_ok v"
    by (simp_all add: oplog_version_new_iff)
  moreover have "c = of_nat (length es)"
  proof -
    have "length es = unat c" using cs(2) calculation(2) by simp
    then show ?thesis by simp
  qed
  ultimately show "oplog_version_ok v \<and> bs = encode_loro_oplog_version v"
    using h(1) cs(1) bs encode_version_header [of v] by (simp add: oplog_version_ok_def)
next
  assume a: "oplog_version_ok v \<and> bs = encode_loro_oplog_version v"
  let ?r = "concat (map version_entry_bytes v)"
  let ?cs = "chunks_exact OPLOG_VERSION_ENTRY_LENGTH ?r"
  have l: "length v \<le> MAX_LORO_PEERS" "list_all version_entry_ok v" "length v < 65536"
    using a by (simp_all add: oplog_version_ok_def MAX_LORO_PEERS_def)
  have "concat ?cs = ?r" "length ?cs = length v"
    "list_all (\<lambda>c. length c = OPLOG_VERSION_ENTRY_LENGTH) ?cs"
    using chunks_exact_cover [of OPLOG_VERSION_ENTRY_LENGTH ?r "length v"]
    by (simp_all add: OPLOG_VERSION_ENTRY_LENGTH_def)
  then have "version_entries_of_chunks ?cs = Inr v"
    using l(2) map_version_entry_bytes_inj [of v ?cs] version_entries_of_chunks_iff [of ?cs v]
    by simp
  moreover have "oplog_version_new v = Inr v"
    using a l(2) by (simp add: oplog_version_new_iff)
  ultimately show "decode_loro_oplog_version bs = Inr v"
    using a l by (simp add: encode_version_header decode_version_header)
qed

interpretation version_codec: message_codec "\<lambda>v. Inr (encode_loro_oplog_version v)"
    decode_loro_oplog_version oplog_version_ok
  by unfold_locales (simp_all add: decode_loro_oplog_version_iff)


section \<open>Metadata pages\<close>

definition metadata_bytes :: "update_metadata \<Rightarrow> bytes" where
  "metadata_bytes m = be_encode (um_update_id m) @ ranges_field (um_public_loro_ranges m)
    @ be_encode (um_encrypted_payload_length m)"

definition metadata_ok :: "update_metadata \<Rightarrow> bool" where
  "metadata_ok m \<longleftrightarrow> public_ranges_ok (um_public_loro_ranges m)"

lemma length_metadata_bytes: "length (metadata_bytes m) = metadata_encoded_length m"
  by (simp add: metadata_bytes_def metadata_encoded_length_def IDENTIFIER_LENGTH_def)

lemma metadata_ok_few: "metadata_ok m \<Longrightarrow> length (um_public_loro_ranges m) < 65536"
  by (simp add: metadata_ok_def public_ranges_ok_def MAX_LORO_PEERS_def)

interpretation metadatac: field_codec metadata_bytes take_metadata_entry metadata_ok
proof unfold_locales
  show "metadata_ok a \<Longrightarrow> take_metadata_entry (metadata_bytes a @ r) = Inr (a, r)" for a r
    by (simp add: metadata_bytes_def take_metadata_entry_def metadata_ok_def codec_simps
        take_ranges_field)
qed (auto simp add: metadata_bytes_def take_metadata_entry_def metadata_ok_def ok_then_Inr_iff
    word_dec_iff ranges_dec_iff)

lemma encode_metadata_entry_iff:
  "encode_metadata_entry m = Inr e \<longleftrightarrow>
    length (um_public_loro_ranges m) < 65536 \<and> e = metadata_bytes m"
  by (auto simp add: encode_metadata_entry_def metadata_bytes_def ranges_field_def u16_of_nat_def)

lemma encode_metadata_entries_iff:
  "encode_metadata_entries ms = Inr es \<longleftrightarrow>
    list_all (\<lambda>m. length (um_public_loro_ranges m) < 65536) ms \<and> es = concat (map metadata_bytes ms)"
  by (induction ms arbitrary: es) (auto simp add: ok_then_Inr_iff encode_metadata_entry_iff)

definition page_bytes :: "enumerate_response \<Rightarrow> bytes" where
  "page_bytes r = [bool_byte (pr_has_more r)]
    @ be_encode (of_nat (length (cursor_bytes (pr_next_cursor r))) :: u16)
    @ cursor_bytes (pr_next_cursor r) @ be_encode (of_nat (length (pr_updates r)) :: u16)
    @ concat (map metadata_bytes (pr_updates r))"

definition page_ok :: "enumerate_response \<Rightarrow> bool" where
  "page_ok r \<longleftrightarrow> list_all metadata_ok (pr_updates r)"

definition page_cursor_ok :: "enumerate_response \<Rightarrow> bool" where
  "page_cursor_ok r \<longleftrightarrow> (case pr_next_cursor r of None \<Rightarrow> True | Some c \<Rightarrow> length c = 32)"

definition page_fits :: "enumerate_response \<Rightarrow> bool" where
  "page_fits r \<longleftrightarrow> length (pr_updates r) < 65536
    \<and> list_all (\<lambda>m. length (um_public_loro_ranges m) < 65536) (pr_updates r)
    \<and> length (page_bytes r) \<le> MAX_APPLICATION_PAYLOAD_LENGTH"

definition enumerate_shape :: "enumerate_response \<Rightarrow> bool" where
  "enumerate_shape r \<longleftrightarrow> (pr_has_more r \<longrightarrow> pr_updates r \<noteq> [])
    \<and> (pr_next_cursor r \<noteq> None \<longleftrightarrow> pr_updates r \<noteq> [])"

definition vector_shape :: "enumerate_response \<Rightarrow> bool" where
  "vector_shape r \<longleftrightarrow> (pr_has_more r \<longleftrightarrow> pr_next_cursor r \<noteq> None)"

lemma encode_enumerate_response_iff:
  "encode_enumerate_response r = Inr bs \<longleftrightarrow>
    enumerate_shape r \<and> page_cursor_ok r \<and> page_fits r \<and> bs = page_bytes r"
  by (cases "pr_next_cursor r")
    (auto simp add: encode_enumerate_response_def enumerate_response_base_length_def Let_def
      enumerate_shape_def page_cursor_ok_def page_fits_def page_bytes_def cursor_length_def
      cursor_bytes_def ok_then_Inr_iff encode_metadata_entries_iff update_length_defs split: if_splits)

lemma encode_vector_backfill_response_iff:
  "encode_vector_backfill_response r = Inr bs \<longleftrightarrow>
    vector_shape r \<and> page_cursor_ok r \<and> page_fits r \<and> bs = page_bytes r"
  by (cases "pr_next_cursor r")
    (auto simp add: encode_vector_backfill_response_def vector_backfill_response_base_length_def
      Let_def vector_shape_def page_cursor_ok_def page_fits_def page_bytes_def
      vector_cursor_length_def cursor_bytes_def ok_then_Inr_iff encode_metadata_entries_iff
      update_length_defs split: if_splits)

lemma page_many:
  assumes "page_ok r"
  shows "dec_many take_metadata_entry (length (pr_updates r))
    (concat (map metadata_bytes (pr_updates r))) = Inr (pr_updates r, [])"
  using metadatac.dec_many_enc [of "pr_updates r" "[]"] assms by (simp add: page_ok_def)

lemma dec_many_metadata_iff:
  "dec_many take_metadata_entry (unat (count :: u16)) bs = Inr (ms, r) \<longleftrightarrow>
    count = of_nat (length ms) \<and> length ms < 65536 \<and> list_all metadata_ok ms
    \<and> bs = concat (map metadata_bytes ms) @ r"
proof -
  have "length ms = unat count \<longleftrightarrow> count = of_nat (length ms) \<and> length ms < 65536"
    using unat_u16_eq [of count "length ms"] by auto
  then show ?thesis by (auto simp add: metadatac.dec_many_iff)
qed

lemma page_ok_few: "page_ok r \<Longrightarrow> list_all (\<lambda>m. length (um_public_loro_ranges m) < 65536) (pr_updates r)"
  by (auto simp add: page_ok_def list_all_iff metadata_ok_few)

lemma take_bool_iff [codec_dest]: "take_bool bs = Inr (b, r) \<longleftrightarrow> bs = bool_byte b # r"
  by (simp add: boolc.dec_iff)

lemma take_bool_Cons [codec_simps]: "take_bool (bool_byte b # r) = Inr (b, r)"
  by (simp add: take_bool_iff)

definition take_page_cursor :: "bytes \<Rightarrow> update_codec_error + bytes option \<times> bytes" where
  "take_page_cursor bs =
    ok_then (dec_word UcTruncated bs) (\<lambda>(len, bs).
       let cursor_length = unat (len :: u16) in
         (if cursor_length = 0 then Inr (None, bs)
          else if cursor_length = 32 then
            ok_then (dec_take UcTruncated cursor_length bs) (\<lambda>(c, bs). Inr (Some c, bs))
          else Inl UcInvalidCursor))"

definition page_cursor_field :: "bytes option \<Rightarrow> bytes" where
  "page_cursor_field c = be_encode (of_nat (length (cursor_bytes c)) :: u16) @ cursor_bytes c"

interpretation page_cursorc: field_codec page_cursor_field take_page_cursor
    "\<lambda>c. case c of None \<Rightarrow> True | Some c \<Rightarrow> length c = 32"
proof unfold_locales
  show "(case a of None \<Rightarrow> True | Some c \<Rightarrow> length c = 32) \<Longrightarrow>
      take_page_cursor (page_cursor_field a @ r) = Inr (a, r)" for a r
    by (cases a) (simp_all add: take_page_cursor_def page_cursor_field_def cursor_bytes_def
        codec_simps Let_def)
next
  fix bs a r
  assume "take_page_cursor bs = Inr (a, r)"
  then obtain len :: u16 and bs' where l: "bs = be_encode len @ bs'" and
    c: "(unat len = 0 \<and> a = None \<and> r = bs')
      \<or> (unat len = 32 \<and> (\<exists>c. a = Some c \<and> length c = 32 \<and> bs' = c @ r))"
    by (clarsimp simp add: take_page_cursor_def ok_then_Inr_iff word_dec_iff Let_def
        dec_take_Inr_iff split: if_splits)
  from c have "len = of_nat (length (cursor_bytes a))"
    by (auto simp add: unat_u16_eq cursor_bytes_def)
  with l c show "(case a of None \<Rightarrow> True | Some c \<Rightarrow> length c = 32) \<and> bs = page_cursor_field a @ r"
    by (auto simp add: page_cursor_field_def cursor_bytes_def)
qed

lemma decode_enumerate_response_cursor:
  "decode_enumerate_response payload =
    (if length payload > MAX_APPLICATION_PAYLOAD_LENGTH then Inl UcRecordTooLong
     else
       ok_then (take_bool payload) (\<lambda>(has_more, bs).
       ok_then (take_page_cursor bs) (\<lambda>(next_cursor, bs).
       ok_then (dec_word UcTruncated bs) (\<lambda>(count, bs).
       let has_updates = unat (count :: u16) \<noteq> 0 in
       if (has_more \<and> \<not> has_updates) \<or> (next_cursor \<noteq> None) \<noteq> has_updates
       then Inl UcInvalidCursor else
       ok_then (dec_many take_metadata_entry (unat count) bs) (\<lambda>(updates, bs).
       ok_then (dec_finish UcTrailingBytes bs) (\<lambda>_.
       Inr \<lparr> pr_has_more = has_more, pr_next_cursor = next_cursor,
             pr_updates = updates \<rparr>))))))"
  by (simp add: decode_enumerate_response_def take_page_cursor_def ok_then_assoc
      ENUMERATION_CONTINUATION_LENGTH_def Let_def split_def cong: if_cong)

lemma decode_vector_backfill_response_cursor:
  "decode_vector_backfill_response payload =
    (if length payload > MAX_APPLICATION_PAYLOAD_LENGTH then Inl UcRecordTooLong
     else
       ok_then (take_bool payload) (\<lambda>(has_more, bs).
       ok_then (take_page_cursor bs) (\<lambda>(next_cursor, bs).
       if has_more \<noteq> (next_cursor \<noteq> None) then Inl UcInvalidCursor else
       ok_then (dec_word UcTruncated bs) (\<lambda>(count, bs).
       ok_then (dec_many take_metadata_entry (unat (count :: u16)) bs) (\<lambda>(updates, bs).
       ok_then (dec_finish UcTrailingBytes bs) (\<lambda>_.
       Inr \<lparr> pr_has_more = has_more, pr_next_cursor = next_cursor,
             pr_updates = updates \<rparr>))))))"
  by (simp add: decode_vector_backfill_response_def take_page_cursor_def ok_then_assoc
      VECTOR_CURSOR_LENGTH_def Let_def split_def cong: if_cong)

lemma page_bytes_cursor:
  "page_bytes r = bool_byte (pr_has_more r) # page_cursor_field (pr_next_cursor r)
    @ be_encode (of_nat (length (pr_updates r)) :: u16) @ concat (map metadata_bytes (pr_updates r))"
  by (simp add: page_bytes_def page_cursor_field_def)

lemma decode_enumerate_response_iff:
  "decode_enumerate_response bs = Inr r \<longleftrightarrow> page_ok r \<and> encode_enumerate_response r = Inr bs"
proof
  assume d: "decode_enumerate_response bs = Inr r"
  show "page_ok r \<and> encode_enumerate_response r = Inr bs"
    using d unfolding decode_enumerate_response_cursor
    by (clarsimp simp add: ok_then_Inr_iff codec_dest page_cursorc.dec_iff Let_def
        dec_many_metadata_iff split: if_splits)
      (auto simp add: encode_enumerate_response_iff page_bytes_cursor page_ok_def page_fits_def
        enumerate_shape_def page_cursor_ok_def list_all_iff metadata_ok_few)
next
  assume "page_ok r \<and> encode_enumerate_response r = Inr bs"
  then show "decode_enumerate_response bs = Inr r"
    using page_many [of r]
    by (auto simp add: encode_enumerate_response_iff page_bytes_cursor decode_enumerate_response_cursor
        page_fits_def enumerate_shape_def page_cursor_ok_def page_cursorc.dec_enc codec_simps
        split: option.splits)
qed


lemma decode_vector_backfill_response_iff:
  "decode_vector_backfill_response bs = Inr r \<longleftrightarrow>
    page_ok r \<and> encode_vector_backfill_response r = Inr bs"
proof
  assume d: "decode_vector_backfill_response bs = Inr r"
  show "page_ok r \<and> encode_vector_backfill_response r = Inr bs"
    using d unfolding decode_vector_backfill_response_cursor
    by (clarsimp simp add: ok_then_Inr_iff codec_dest page_cursorc.dec_iff Let_def
        dec_many_metadata_iff split: if_splits)
      (auto simp add: encode_vector_backfill_response_iff page_bytes_cursor page_ok_def page_fits_def
        vector_shape_def page_cursor_ok_def list_all_iff metadata_ok_few)
next
  assume "page_ok r \<and> encode_vector_backfill_response r = Inr bs"
  then show "decode_vector_backfill_response bs = Inr r"
    using page_many [of r]
    by (auto simp add: encode_vector_backfill_response_iff page_bytes_cursor
        decode_vector_backfill_response_cursor page_fits_def vector_shape_def page_cursor_ok_def
        page_cursorc.dec_enc codec_simps split: option.splits)
qed

interpretation enumerate_response_codec: message_codec encode_enumerate_response
    decode_enumerate_response page_ok
  by unfold_locales (simp_all add: decode_enumerate_response_iff)

interpretation vector_response_codec: message_codec encode_vector_backfill_response
    decode_vector_backfill_response page_ok
  by unfold_locales (simp_all add: decode_vector_backfill_response_iff)

text \<open>A page's length is its base length plus the lengths of its entries.\<close>

lemma length_page_bytes:
  "length (page_bytes r) = 1 + 2 + length (cursor_bytes (pr_next_cursor r)) + 2
    + sum_list (map metadata_encoded_length (pr_updates r))"
proof -
  have "length (concat (map metadata_bytes ms)) = sum_list (map metadata_encoded_length ms)" for ms
    by (induction ms) (simp_all add: length_metadata_bytes)
  then show ?thesis by (simp add: page_bytes_def)
qed

section \<open>Requests\<close>

text \<open>
  The request decoders accept a continuation of any length (the store rejects the wrong
  ones later), while the encoders insist on 32 bytes: the layouts below are what the decoders
  accept.
\<close>

definition enum_mode :: "enumerate_start \<Rightarrow> byte \<times> bytes option" where
  "enum_mode start = (case start of EnumOrigin \<Rightarrow> (0, None) | EnumContinue c \<Rightarrow> (1, Some c)
    | EnumAfterTail c \<Rightarrow> (2, Some c))"

definition enumerate_request_bytes :: "enumerate_request \<Rightarrow> bytes" where
  "enumerate_request_bytes r = encode_authority (er_authority r) @ be_encode (er_document_id r)
    @ [fst (enum_mode (er_start r))] @ page_cursor_field (snd (enum_mode (er_start r)))"

definition enumerate_request_ok :: "enumerate_request \<Rightarrow> bool" where
  "enumerate_request_ok r \<longleftrightarrow> length (cursor_bytes (snd (enum_mode (er_start r)))) < 65536"

lemma decode_enumerate_request_iff:
  "decode_enumerate_request bs = Inr r \<longleftrightarrow>
    enumerate_request_ok r \<and> bs = enumerate_request_bytes r"
proof
  assume "decode_enumerate_request bs = Inr r"
  then show "enumerate_request_ok r \<and> bs = enumerate_request_bytes r"
    unfolding decode_enumerate_request_def
    by (clarsimp simp add: ok_then_Inr_iff codec_dest Let_def dec_take_Inr_iff split: if_splits)
      (auto simp add: enumerate_request_bytes_def enumerate_request_ok_def enum_mode_def
        page_cursor_field_def cursor_bytes_def ok_then_Inr_iff dec_take_Inr_iff unat_u16_eq
        split: if_splits)
next
  assume "enumerate_request_ok r \<and> bs = enumerate_request_bytes r"
  then show "decode_enumerate_request bs = Inr r"
    by (cases r; cases "er_start r")
      (auto simp add: enumerate_request_bytes_def enumerate_request_ok_def enum_mode_def
        page_cursor_field_def cursor_bytes_def decode_enumerate_request_def codec_simps
        dec_take_def)
qed

lemma encode_enumerate_request_iff:
  "encode_enumerate_request r = Inr bs \<longleftrightarrow>
    (case snd (enum_mode (er_start r)) of None \<Rightarrow> True | Some c \<Rightarrow> length c = 32)
    \<and> bs = enumerate_request_bytes r"
  by (cases "er_start r")
    (auto simp add: encode_enumerate_request_def enum_mode_def cursor_length_def cursor_bytes_def
      enumerate_request_bytes_def page_cursor_field_def ENUMERATION_CONTINUATION_LENGTH_def
      ok_then_Inr_iff split: if_splits)

interpretation enumerate_request_codec: message_codec "\<lambda>r. Inr (enumerate_request_bytes r)"
    decode_enumerate_request enumerate_request_ok
  by unfold_locales (auto simp add: decode_enumerate_request_iff)


definition vec_mode :: "vector_backfill_start \<Rightarrow> byte \<times> bytes option" where
  "vec_mode start = (case start of VecOrigin \<Rightarrow> (0, None) | VecContinue c \<Rightarrow> (1, Some c))"

definition vector_request_bytes :: "vector_backfill_request \<Rightarrow> bytes" where
  "vector_request_bytes r = be_encode VECTOR_BACKFILL_PAYLOAD_VERSION
    @ encode_authority (vr_authority r) @ be_encode (vr_document_id r)
    @ [fst (vec_mode (vr_start r))] @ page_cursor_field (snd (vec_mode (vr_start r)))
    @ be_encode (of_nat (length (encode_loro_oplog_version (vr_oplog_version r))) :: u16)
    @ encode_loro_oplog_version (vr_oplog_version r)"

definition vector_request_ok :: "vector_backfill_request \<Rightarrow> bool" where
  "vector_request_ok r \<longleftrightarrow> oplog_version_ok (vr_oplog_version r)
    \<and> length (cursor_bytes (snd (vec_mode (vr_start r)))) < 65536
    \<and> length (vector_request_bytes r) \<le> MAX_APPLICATION_PAYLOAD_LENGTH"

lemma version_length_bound:
  "oplog_version_ok v \<Longrightarrow> length (encode_loro_oplog_version v) \<le> 3084"
  by (simp add: length_encode_version oplog_version_ok_def update_length_defs)

lemma decode_vector_backfill_request_iff:
  "decode_vector_backfill_request bs = Inr r \<longleftrightarrow>
    vector_request_ok r \<and> bs = vector_request_bytes r"
proof
  assume "decode_vector_backfill_request bs = Inr r"
  then show "vector_request_ok r \<and> bs = vector_request_bytes r"
    unfolding decode_vector_backfill_request_def
    by (clarsimp simp add: ok_then_Inr_iff codec_dest Let_def dec_take_Inr_iff
        decode_loro_oplog_version_iff split: if_splits)
      (auto simp add: vector_request_bytes_def vector_request_ok_def vec_mode_def
        page_cursor_field_def cursor_bytes_def ok_then_Inr_iff dec_take_Inr_iff unat_u16_eq
        split: if_splits)
next
  assume a: "vector_request_ok r \<and> bs = vector_request_bytes r"
  let ?v = "encode_loro_oplog_version (vr_oplog_version r)"
  have v: "decode_loro_oplog_version ?v = Inr (vr_oplog_version r)"
    using a by (simp add: decode_loro_oplog_version_iff vector_request_ok_def)
  have l: "length ?v \<le> 3084"
    using a version_length_bound by (simp add: vector_request_ok_def)
  show "decode_vector_backfill_request bs = Inr r"
    using a v l
    by (cases r; cases "vr_start r")
      (auto simp add: vector_request_bytes_def vector_request_ok_def vec_mode_def
        page_cursor_field_def cursor_bytes_def decode_vector_backfill_request_def codec_simps
        dec_take_def OPLOG_VERSION_HEADER_LENGTH_def MAX_LORO_PEERS_def
        OPLOG_VERSION_ENTRY_LENGTH_def)
qed

lemma encode_vector_backfill_request_iff:
  assumes "oplog_version_ok (vr_oplog_version r)"
  shows "encode_vector_backfill_request r = Inr bs \<longleftrightarrow>
    (case snd (vec_mode (vr_start r)) of None \<Rightarrow> True | Some c \<Rightarrow> length c = 32)
    \<and> bs = vector_request_bytes r"
proof -
  have l: "length (encode_loro_oplog_version (vr_oplog_version r)) \<le> 3084"
    using version_length_bound [OF assms] .
  have a: "length (encode_authority x) = 48" for x
    by (simp add: encode_authority_def)
  show ?thesis
    using l
    by (cases "vr_start r")
      (auto simp add: encode_vector_backfill_request_def vec_mode_def vector_cursor_length_def
        cursor_bytes_def vector_request_bytes_def page_cursor_field_def VECTOR_CURSOR_LENGTH_def
        ok_then_Inr_iff Let_def a length_defs split: if_splits)
qed

interpretation vector_request_codec: message_codec "\<lambda>r. Inr (vector_request_bytes r)"
    decode_vector_backfill_request vector_request_ok
  by unfold_locales (auto simp add: decode_vector_backfill_request_iff)

interpretation fetch_request_codec: message_codec "\<lambda>r. Inr (encode_fetch_request r)"
    decode_fetch_request "\<lambda>_. True"
proof unfold_locales
  show "Inr (encode_fetch_request r) = Inr bs \<Longrightarrow> decode_fetch_request bs = Inr r" for r bs
    by (auto simp add: encode_fetch_request_def decode_fetch_request_def codec_simps)
qed (auto simp add: encode_fetch_request_def decode_fetch_request_def ok_then_Inr_iff codec_dest)

lemma subscription_version_iff [codec_dest]:
  "take_subscription_version bs = Inr (u, r) \<longleftrightarrow> bs = be_encode SUBSCRIPTION_PAYLOAD_VERSION @ r"
  by (auto simp add: take_subscription_version_def ok_then_Inr_iff word_dec_iff split: if_splits)

lemma subscription_version_enc [codec_simps]:
  "take_subscription_version (be_encode SUBSCRIPTION_PAYLOAD_VERSION @ r) = Inr ((), r)"
  by (simp add: subscription_version_iff)

interpretation subscribe_codec: message_codec "\<lambda>r. Inr (encode_subscribe_updates_request r)"
    decode_subscribe_updates_request "\<lambda>_. True"
proof unfold_locales
  show "Inr (encode_subscribe_updates_request r) = Inr bs \<Longrightarrow>
      decode_subscribe_updates_request bs = Inr r" for r bs
    by (auto simp add: encode_subscribe_updates_request_def decode_subscribe_updates_request_def
        codec_simps)
qed (auto simp add: encode_subscribe_updates_request_def decode_subscribe_updates_request_def
    ok_then_Inr_iff codec_dest)

interpretation notification_codec: message_codec "\<lambda>n. Inr (encode_update_notification n)"
    decode_update_notification "\<lambda>_. True"
proof unfold_locales
  show "Inr (encode_update_notification r) = Inr bs \<Longrightarrow> decode_update_notification bs = Inr r" for r bs
    by (auto simp add: encode_update_notification_def decode_update_notification_def codec_simps)
qed (auto simp add: encode_update_notification_def decode_update_notification_def
    ok_then_Inr_iff codec_dest)

interpretation subscription_identity_codec: message_codec "\<lambda>i. Inr (encode_subscription_identity i)"
    decode_subscription_identity "\<lambda>_. True"
proof unfold_locales
  show "Inr (encode_subscription_identity r) = Inr bs \<Longrightarrow> decode_subscription_identity bs = Inr r" for r bs
    by (auto simp add: encode_subscription_identity_def decode_subscription_identity_def codec_simps)
qed (auto simp add: encode_subscription_identity_def decode_subscription_identity_def
    ok_then_Inr_iff codec_dest)

interpretation accept_outcome: code_payload accept_outcome_code accept_outcome_from
    UcInvalidDiscriminant UcTrailingBytes
proof unfold_locales
  show "accept_outcome_from (accept_outcome_code c) = Some c" for c
    by (cases c) (simp_all add: accept_outcome_from_def)
qed (auto simp add: accept_outcome_from_def split: if_splits)

interpretation update_error: code_payload update_error_byte update_error_from
    UcInvalidDiscriminant UcTrailingBytes
proof unfold_locales
  show "update_error_from (update_error_byte c) = Some c" for c
    by (cases c) (simp_all add: update_error_from_def)
qed (auto simp add: update_error_from_def split: if_splits)


section \<open>Properties\<close>

text \<open>
  A byte string decodes to an immutable update exactly when the update's public ranges are
  canonical and the byte string is the update's encoding.  So accepted records are canonical:
  equal updates have equal bytes, which is what lets the store compare bytes.
\<close>

theorem decode_update_record_accepts_encodings:
  "decode_update_record bs = Inr u \<longleftrightarrow>
    public_ranges_ok (iu_public_loro_ranges u) \<and> encode_update_record u = Inr bs"
  by (simp add: decode_update_record_iff update_ok_def)

text \<open>
  C39: the one-frame record limit implies the enumeration limit: a decodable record names at most
  248 peers, and its metadata entry always fits an enumeration page that carries a
  continuation.
\<close>

theorem decodable_record_is_enumerable:
  assumes "decode_update_record bs = Inr u"
  shows "length (iu_public_loro_ranges u) \<le> 248 \<and> ensure_metadata_is_enumerable u = Inr ()"
proof -
  have e: "iu_encrypted_payload u \<noteq> []" "record_length u \<le> MAX_UPDATE_RECORD_LENGTH"
    using assms by (simp_all add: decode_update_record_iff encode_update_record_iff)
  then have "0 < length (iu_encrypted_payload u)" by simp
  with e(2) have "length (iu_public_loro_ranges u) \<le> 248"
    unfolding record_length_def update_length_defs by linarith
  with e(2) metadata_fits_record show ?thesis by blast
qed

definition example_update :: immutable_update where
  "example_update = \<lparr> iu_document_id = 1, iu_encrypted_payload = [42],
    iu_public_loro_ranges = [\<lparr> lr_end_counter = 5, lr_peer_id = 7, lr_start_counter = 0 \<rparr>],
    iu_update_id = 2 \<rparr>"

lemma example_update_encodes: "encode_update_record example_update = Inr (record_bytes example_update)"
  by (simp add: encode_update_record_iff record_length_def example_update_def update_length_defs)

lemma example_update_decodes: "decode_update_record (record_bytes example_update) = Inr example_update"
  by (simp add: decode_update_record_iff example_update_encodes)
    (simp add: update_ok_def example_update_def public_ranges_ok_def loro_range_ok_def
      MAX_LORO_PEERS_def MAX_LORO_COUNTER_def operation_count_def MAX_UPDATE_OPERATIONS_def
      total_operations_def)

theorem decodable_record_is_enumerable_witness:
  "ensure_metadata_is_enumerable example_update = Inr ()"
  using decodable_record_is_enumerable [OF example_update_decodes] by simp

text \<open>
  An oplog version decodes exactly when it is canonical (at most 256 ascending nonzero
  peer prefixes) and the bytes are its encoding.
\<close>

theorem decode_oplog_version_accepts_encodings:
  "decode_loro_oplog_version bs = Inr v \<longleftrightarrow>
    oplog_version_ok v \<and> bs = encode_loro_oplog_version v"
  by (rule decode_loro_oplog_version_iff)

text \<open>
  Enumeration and vector-backfill pages decode exactly from the encodings of pages whose
  metadata is canonical; the encoders' own conditions on continuation and flags are then met.
\<close>

theorem decode_pages_accept_encodings:
  "(decode_enumerate_response bs = Inr r \<longleftrightarrow>
      list_all (\<lambda>m. public_ranges_ok (um_public_loro_ranges m)) (pr_updates r)
      \<and> encode_enumerate_response r = Inr bs)
   \<and> (decode_vector_backfill_response bs = Inr r \<longleftrightarrow>
      list_all (\<lambda>m. public_ranges_ok (um_public_loro_ranges m)) (pr_updates r)
      \<and> encode_vector_backfill_response r = Inr bs)"
  by (simp add: decode_enumerate_response_iff decode_vector_backfill_response_iff page_ok_def
      metadata_ok_def [abs_def])

text \<open>
  Every vector-backfill request with a canonical version and a continuation of 32 bytes, or
  none, can be encoded within one application payload, and decodes to itself.
\<close>

theorem vector_request_fits_and_round_trips:
  assumes "oplog_version_ok (vr_oplog_version r)"
    and "case vr_start r of VecOrigin \<Rightarrow> True | VecContinue c \<Rightarrow> length c = 32"
  shows "\<exists>bs. encode_vector_backfill_request r = Inr bs
    \<and> length bs \<le> MAX_APPLICATION_PAYLOAD_LENGTH \<and> decode_vector_backfill_request bs = Inr r"
proof -
  have c: "length (cursor_bytes (snd (vec_mode (vr_start r)))) \<le> 32"
    "case snd (vec_mode (vr_start r)) of None \<Rightarrow> True | Some c \<Rightarrow> length c = 32"
    using assms(2) by (cases "vr_start r"; simp add: vec_mode_def cursor_bytes_def)+
  have "length (vector_request_bytes r) \<le> MAX_APPLICATION_PAYLOAD_LENGTH"
    using c(1) version_length_bound [OF assms(1)]
    by (simp add: vector_request_bytes_def page_cursor_field_def encode_authority_def length_defs)
  with c assms(1) show ?thesis
    by (auto simp add: encode_vector_backfill_request_iff decode_vector_backfill_request_iff
        vector_request_ok_def)
qed

theorem vector_request_fits_and_round_trips_witness:
  "\<exists>bs. encode_vector_backfill_request
      \<lparr> vr_authority = \<lparr> ca_capability_id = 1, ca_authenticator = 2 \<rparr>, vr_document_id = 3,
        vr_oplog_version = [\<lparr> ve_end_counter = 4, ve_peer_id = 5 \<rparr>],
        vr_start = VecContinue (replicate 32 6) \<rparr> = Inr bs
    \<and> length bs \<le> MAX_APPLICATION_PAYLOAD_LENGTH \<and> decode_vector_backfill_request bs = Inr
      \<lparr> vr_authority = \<lparr> ca_capability_id = 1, ca_authenticator = 2 \<rparr>, vr_document_id = 3,
        vr_oplog_version = [\<lparr> ve_end_counter = 4, ve_peer_id = 5 \<rparr>],
        vr_start = VecContinue (replicate 32 6) \<rparr>"
  by (rule vector_request_fits_and_round_trips)
    (simp_all add: oplog_version_ok_def version_entry_ok_def MAX_LORO_PEERS_def MAX_LORO_COUNTER_def)

text \<open>
  A grant request decodes exactly from the encoding of a request whose operation set is
  canonical and nonempty; create, revoke, fetch, subscribe and notification messages decode
  exactly from their encodings.
\<close>

theorem decode_requests_accept_encodings:
  "(decode_grant_capability_request bs = Inr g \<longleftrightarrow>
      from_bits (gc_operations g) = Some (gc_operations g) \<and> gc_operations g \<noteq> 0
      \<and> bs = encode_grant_capability_request g)
   \<and> (decode_create_document_request bs = Inr c \<longleftrightarrow> bs = encode_create_document_request c)
   \<and> (decode_revoke_capability_request bs = Inr r \<longleftrightarrow> bs = encode_revoke_capability_request r)
   \<and> (decode_fetch_request bs = Inr f \<longleftrightarrow> bs = encode_fetch_request f)
   \<and> (decode_subscribe_updates_request bs = Inr s \<longleftrightarrow> bs = encode_subscribe_updates_request s)
   \<and> (decode_update_notification bs = Inr n \<longleftrightarrow> bs = encode_update_notification n)"
  using grant_codec.dec_iff [of bs g] create_codec.dec_iff [of bs c] revoke_codec.dec_iff [of bs r]
    fetch_request_codec.dec_iff [of bs f] subscribe_codec.dec_iff [of bs s]
    notification_codec.dec_iff [of bs n]
  by (auto simp only: canonical_ops_def ops_is_empty_def sum.inject)

end
