(* ===== verification/Ordered_Map.thy ===== *)
theory Ordered_Map
  imports Prelude "HOL-Library.Product_Lexorder"
begin

text \<open>
  Key-ordered maps: the \<open>BTreeMap\<close>s of the reference model and the primary-key tables of the
  store.  A map is the list of its entries in key order, so that iteration, ranges and
  \<open>next_back\<close> are the list's own; tuples are ordered lexicographically, as in Rust.  The
  interface \<open>ordered_map\<close> is what the clients rely on.
\<close>

type_synonym ('k, 'v) omap = "('k \<times> 'v) list"

definition om_empty :: "('k, 'v) omap" where
  "om_empty = []"

definition om_get :: "('k, 'v) omap \<Rightarrow> 'k \<Rightarrow> 'v option" where
  "om_get m = map_of m"

fun om_insert :: "'k::linorder \<Rightarrow> 'v \<Rightarrow> ('k, 'v) omap \<Rightarrow> ('k, 'v) omap" where
  "om_insert k v [] = [(k, v)]"
| "om_insert k v ((k', v') # m) =
    (if k < k' then (k, v) # (k', v') # m
     else if k = k' then (k, v) # m
     else (k', v') # om_insert k v m)"

definition om_delete :: "'k \<Rightarrow> ('k, 'v) omap \<Rightarrow> ('k, 'v) omap" where
  "om_delete k m = filter (\<lambda>(k', _). k' \<noteq> k) m"

definition om_keys :: "('k, 'v) omap \<Rightarrow> 'k list" where
  "om_keys m = map fst m"

definition om_contains :: "('k, 'v) omap \<Rightarrow> 'k \<Rightarrow> bool" where
  "om_contains m k \<longleftrightarrow> om_get m k \<noteq> None"

text \<open>\<open>range\<close>: the entries whose key satisfies the bounds, in key order.\<close>

definition om_range :: "('k \<Rightarrow> bool) \<Rightarrow> ('k, 'v) omap \<Rightarrow> ('k, 'v) omap" where
  "om_range bounds m = filter (\<lambda>(k, _). bounds k) m"

definition om_next_back :: "('k, 'v) omap \<Rightarrow> ('k \<times> 'v) option" where
  "om_next_back m = (if m = [] then None else Some (last m))"

definition om_invar :: "('k::linorder, 'v) omap \<Rightarrow> bool" where
  "om_invar m \<longleftrightarrow> sorted_wrt (<) (map fst m)"

locale ordered_map =
  fixes empty :: 'm
    and get :: "'m \<Rightarrow> 'k::linorder \<Rightarrow> 'v option"
    and insert :: "'k \<Rightarrow> 'v \<Rightarrow> 'm \<Rightarrow> 'm"
    and entries :: "'m \<Rightarrow> ('k \<times> 'v) list"
    and invar :: "'m \<Rightarrow> bool"
  assumes invar_empty: "invar empty"
    and invar_insert: "invar m \<Longrightarrow> invar (insert k v m)"
    and get_empty: "get empty k = None"
    and get_insert: "get (insert k v m) k' = (if k' = k then Some v else get m k')"
    and entries_get: "invar m \<Longrightarrow> (k, v) \<in> set (entries m) \<longleftrightarrow> get m k = Some v"
    and entries_sorted: "invar m \<Longrightarrow> sorted_wrt (<) (map fst (entries m))"
begin

lemma get_insert_same: "get (insert k v m) k = Some v"
  by (simp add: get_insert)

lemma get_insert_other: "k' \<noteq> k \<Longrightarrow> get (insert k v m) k' = get m k'"
  by (simp add: get_insert)

lemma insert_keeps: "get m k \<noteq> None \<Longrightarrow> get (insert k' v m) k \<noteq> None"
  by (simp add: get_insert)

lemma entries_distinct: "invar m \<Longrightarrow> distinct (map fst (entries m))"
  using entries_sorted [of m] by (simp add: strict_sorted_iff)

lemma entries_ext:
  assumes "invar m" "invar m'" "\<And>k. get m k = get m' k"
  shows "entries m = entries m'"
proof (rule map_sorted_distinct_set_unique [where f = fst])
  show "set (entries m) = set (entries m')"
    using entries_get [OF assms(1)] entries_get [OF assms(2)] assms(3) by auto
  then have "inj_on fst (set (entries m))"
    using entries_distinct [OF assms(1)] by (simp add: distinct_map)
  then show "inj_on fst (set (entries m) \<union> set (entries m'))"
    using \<open>set (entries m) = set (entries m')\<close> by simp
qed (use entries_sorted [OF assms(1)] entries_sorted [OF assms(2)] entries_distinct assms
  in \<open>auto simp add: strict_sorted_iff\<close>)

end

lemma set_fst_om_insert: "fst ` set (om_insert k v m) = insert k (fst ` set m)"
  by (induction k v m rule: om_insert.induct) (simp_all add: insert_commute)

lemma om_invar_insert [simp]: "om_invar m \<Longrightarrow> om_invar (om_insert k v m)"
proof (induction m)
  case (Cons e m)
  obtain k' v' where e: "e = (k', v')" by force
  have s: "set (map fst (om_insert k v m)) = insert k (set (map fst m))"
    using set_fst_om_insert [of k v m] by simp
  show ?case
    using Cons s by (auto simp add: e om_invar_def simp del: set_map list.set_map intro: order.strict_trans)
qed (simp add: om_invar_def)

lemma om_get_insert: "om_get (om_insert k v m) k' = (if k' = k then Some v else om_get m k')"
  by (induction m) (auto simp add: om_get_def)

interpretation om: ordered_map "om_empty :: ('k::linorder, 'v) omap" om_get om_insert "\<lambda>m. m" om_invar
proof unfold_locales
  fix m :: "('k::linorder, 'v) omap" and k v
  assume "om_invar m"
  then have "distinct (map fst m)" by (simp add: om_invar_def strict_sorted_iff)
  then show "(k, v) \<in> set m \<longleftrightarrow> om_get m k = Some v"
    by (simp add: om_get_def)
qed (simp_all add: om_empty_def om_get_insert, simp_all add: om_get_def om_invar_def)

lemmas om_simps [simp] = om.get_insert om.get_empty om.invar_empty

lemma om_get_in: "om_get m k = Some v \<Longrightarrow> (k, v) \<in> set m"
  by (auto simp add: om_get_def dest: map_of_SomeD)

lemma om_contains_iff: "om_contains m k \<longleftrightarrow> k \<in> fst ` set m"
  by (auto simp add: om_contains_def om_get_def map_of_eq_None_iff)

lemma om_range_in [simp]: "(k, v) \<in> set (om_range b m) \<longleftrightarrow> (k, v) \<in> set m \<and> b k"
  by (auto simp add: om_range_def)

lemma om_invar_range [simp]: "om_invar m \<Longrightarrow> om_invar (om_range b m)"
  by (induction m) (auto simp add: om_invar_def om_range_def)

lemma om_range_get:
  "om_invar m \<Longrightarrow> om_get (om_range b m) k = (if b k then om_get m k else None)"
  using om.entries_get [of m k] om.entries_get [of "om_range b m" k]
  by (cases "om_get m k"; cases "om_get (om_range b m) k") auto

lemma om_get_filter_values:
  "om_invar m \<Longrightarrow> om_invar (filter P m)"
  by (induction m) (auto simp add: om_invar_def)

lemma om_get_map: "om_get (map (\<lambda>(k, v). (k, f k v)) m) k = map_option (f k) (om_get m k)"
  by (induction m) (auto simp add: om_get_def)

lemma om_invar_map [simp]: "om_invar m \<Longrightarrow> om_invar (map (\<lambda>(k, v). (k, f k v)) m)"
  by (simp add: om_invar_def comp_def split_def)

end
