(* ===== verification/Model.thy ===== *)
theory Model
  imports Types Ordered_Map
begin

text \<open>
  The deterministic reference model of \<open>src/crates/renee-model/src/lib.rs\<close>: negotiation,
  the capability state machine and the immutable-update oracle.  SHA-256 is a parameter
  \<open>sha\<close> of the definitions that use it.  \<open>&mut self\<close> methods return the new state beside
  their result; a \<open>String\<close> is its list of UTF-8 bytes.
\<close>

definition ascii :: "string \<Rightarrow> bytes" where
  "ascii s = map (\<lambda>c. word_of_nat (of_char c)) s"

section \<open>Negotiation\<close>

definition EXPERIMENTAL_PROFILE :: bytes where
  "EXPERIMENTAL_PROFILE = ascii ''renee-experimental-v0''"

definition RENEE_BANNER :: bytes where
  "RENEE_BANNER = ascii ''I'' @ [0x27] @ ascii ''ve been expecting you''"

datatype negotiation_state = AwaitingHello | Ready

record client_hello =
  ch_banner :: bytes
  ch_profile :: bytes
  ch_version :: u16

datatype negotiation_outcome =
  Selected bytes | NegUnsupportedVersion | NegUnsupportedProfile | AlreadyNegotiated

definition hello ::
  "negotiation_state \<Rightarrow> client_hello \<Rightarrow> negotiation_outcome \<times> negotiation_state" where
  "hello state h =
    (if state = Ready then (AlreadyNegotiated, state)
     else if ch_version h \<noteq> 0 then (NegUnsupportedVersion, state)
     else if ch_profile h \<noteq> EXPERIMENTAL_PROFILE then (NegUnsupportedProfile, state)
     else (Selected RENEE_BANNER, Ready))"

section \<open>The capability model\<close>

datatype model_create_outcome = MCreateInserted | MCreateAlreadyPresent | MCreateIdentifierConflict

datatype model_control_outcome =
    MInserted | MAlreadyPresent | MAuthorizationDenied | MIdentifierConflict
  | MRequestConflict | MCounterExhausted

record verifier_pair =
  vp_live :: key32
  vp_receipt :: key32

record model_capability =
  mc_operations :: operation_set
  mc_parent :: "capability_id option"
  mc_revoked :: bool
  mc_verifiers :: verifier_pair

datatype receipt_input =
    GrantInput capability_id verifier_pair operation_set
  | RevokeInput capability_id

record capability_document =
  cdoc_capabilities :: "(capability_id, model_capability) omap"
  cdoc_receipts :: "(capability_id \<times> request_id, receipt_input) omap"
  cdoc_revision :: u64
  cdoc_root_id :: capability_id

type_synonym capability_model = "(document_id, capability_document) omap"

definition model_verifier ::
  "(bytes \<Rightarrow> key32) \<Rightarrow> bytes \<Rightarrow> document_id \<Rightarrow> capability_id \<Rightarrow> authenticator \<Rightarrow> key32" where
  "model_verifier sha domain document_id capability_id authenticator =
    sha (domain @ be_encode document_id @ be_encode capability_id @ be_encode authenticator)"

definition LIVE_DOMAIN :: bytes where
  "LIVE_DOMAIN = ascii ''renee/capability/live-verifier/v1'' @ [0]"

definition RECEIPT_DOMAIN :: bytes where
  "RECEIPT_DOMAIN = ascii ''renee/capability/receipt-verifier/v1'' @ [0]"

definition model_verifiers ::
  "(bytes \<Rightarrow> key32) \<Rightarrow> document_id \<Rightarrow> capability_id \<Rightarrow> authenticator \<Rightarrow> verifier_pair" where
  "model_verifiers sha document_id capability_id authenticator =
    \<lparr> vp_live = model_verifier sha LIVE_DOMAIN document_id capability_id authenticator,
      vp_receipt = model_verifier sha RECEIPT_DOMAIN document_id capability_id authenticator \<rparr>"

definition create_document ::
  "(bytes \<Rightarrow> key32) \<Rightarrow> capability_model \<Rightarrow> document_id \<Rightarrow> capability_id \<Rightarrow> authenticator
    \<Rightarrow> model_create_outcome \<times> capability_model" where
  "create_document sha model document_id root_id authenticator =
    (let verifiers = model_verifiers sha document_id root_id authenticator in
     case om_get model document_id of
       Some document \<Rightarrow>
         (if cdoc_root_id document = root_id
             \<and> (case om_get (cdoc_capabilities document) root_id of
                  None \<Rightarrow> False | Some root \<Rightarrow> mc_verifiers root = verifiers)
          then (MCreateAlreadyPresent, model) else (MCreateIdentifierConflict, model))
     | None \<Rightarrow>
         (MCreateInserted, om_insert document_id
           \<lparr> cdoc_capabilities = om_insert root_id
               \<lparr> mc_operations = FULL_OPS, mc_parent = None, mc_revoked = False,
                 mc_verifiers = verifiers \<rparr> om_empty,
             cdoc_receipts = om_empty, cdoc_revision = 1, cdoc_root_id = root_id \<rparr> model))"

text \<open>The 64-step ancestry loops, with the number of steps left as first argument.\<close>

fun authorizes_loop ::
  "nat \<Rightarrow> (capability_id, model_capability) omap \<Rightarrow> capability_id option \<Rightarrow> bool" where
  "authorizes_loop 0 caps current = False"
| "authorizes_loop (Suc n) caps current =
    (case current of
       None \<Rightarrow> True
     | Some current_id \<Rightarrow>
         (case om_get caps current_id of
            None \<Rightarrow> False
          | Some capability \<Rightarrow>
              if mc_revoked capability then False
              else authorizes_loop n caps (mc_parent capability)))"

definition authorizes ::
  "(bytes \<Rightarrow> key32) \<Rightarrow> capability_model \<Rightarrow> document_id \<Rightarrow> capability_id \<Rightarrow> authenticator
    \<Rightarrow> operation \<Rightarrow> bool" where
  "authorizes sha model document_id capability_id authenticator operation =
    (case om_get model document_id of
       None \<Rightarrow> False
     | Some document \<Rightarrow>
         (case om_get (cdoc_capabilities document) capability_id of
            None \<Rightarrow> False
          | Some presented \<Rightarrow>
              if vp_live (mc_verifiers presented)
                   \<noteq> vp_live (model_verifiers sha document_id capability_id authenticator)
                 \<or> \<not> contains (mc_operations presented) operation
              then False
              else authorizes_loop 64 (cdoc_capabilities document) (Some capability_id)))"

fun is_descendant_loop ::
  "nat \<Rightarrow> (capability_id, model_capability) omap \<Rightarrow> capability_id \<Rightarrow> capability_id option \<Rightarrow> bool"
where
  "is_descendant_loop 0 caps ancestor current = False"
| "is_descendant_loop (Suc n) caps ancestor current =
    (case current of
       None \<Rightarrow> False
     | Some current_id \<Rightarrow>
         if current_id = ancestor then True
         else is_descendant_loop n caps ancestor
           (Option.bind (om_get caps current_id) mc_parent))"

definition is_descendant :: "capability_document \<Rightarrow> capability_id \<Rightarrow> capability_id \<Rightarrow> bool" where
  "is_descendant document ancestor_id descendant_id =
    is_descendant_loop 64 (cdoc_capabilities document) ancestor_id (Some descendant_id)"

fun capacity_loop ::
  "nat \<Rightarrow> nat \<Rightarrow> (capability_id, model_capability) omap \<Rightarrow> capability_id \<Rightarrow> bool" where
  "capacity_loop 0 node_count caps current = False"
| "capacity_loop (Suc n) node_count caps current =
    (case om_get caps current of
       None \<Rightarrow> False
     | Some capability \<Rightarrow>
         (case mc_parent capability of
            None \<Rightarrow> node_count < 64
          | Some parent \<Rightarrow> capacity_loop n (node_count + 1) caps parent))"

definition issuer_has_descendant_capacity :: "capability_document \<Rightarrow> capability_id \<Rightarrow> bool" where
  "issuer_has_descendant_capacity document issuer_id =
    capacity_loop 64 1 (cdoc_capabilities document) issuer_id"

definition receipt_outcome ::
  "(bytes \<Rightarrow> key32) \<Rightarrow> capability_model \<Rightarrow> document_id \<Rightarrow> capability_id \<Rightarrow> authenticator
    \<Rightarrow> request_id \<Rightarrow> receipt_input \<Rightarrow> model_control_outcome option" where
  "receipt_outcome sha model document_id issuer_id authenticator request_id input =
    Option.bind (om_get model document_id) (\<lambda>document.
    Option.bind (om_get (cdoc_receipts document) (issuer_id, request_id)) (\<lambda>stored.
    Option.bind (om_get (cdoc_capabilities document) issuer_id) (\<lambda>issuer.
    if vp_receipt (mc_verifiers issuer)
        \<noteq> vp_receipt (model_verifiers sha document_id issuer_id authenticator)
    then Some MAuthorizationDenied
    else Some (if stored = input then MAlreadyPresent else MRequestConflict))))"

definition is_active_descendant ::
  "capability_model \<Rightarrow> document_id \<Rightarrow> capability_id \<Rightarrow> capability_id \<Rightarrow> bool" where
  "is_active_descendant model document_id issuer_id target_id =
    (case om_get model document_id of
       None \<Rightarrow> False
     | Some document \<Rightarrow>
         (case om_get (cdoc_capabilities document) target_id of
            None \<Rightarrow> False
          | Some target \<Rightarrow> \<not> mc_revoked target \<and> is_descendant document issuer_id target_id))"

definition grant ::
  "(bytes \<Rightarrow> key32) \<Rightarrow> capability_model \<Rightarrow> document_id \<Rightarrow> capability_id \<Rightarrow> authenticator
    \<Rightarrow> request_id \<Rightarrow> capability_id \<Rightarrow> authenticator \<Rightarrow> operation_set
    \<Rightarrow> model_control_outcome \<times> capability_model" where
  "grant sha model document_id issuer_id issuer_authenticator request_id descendant_id
      descendant_authenticator operations =
    (let descendant_verifiers = model_verifiers sha document_id descendant_id descendant_authenticator;
         input = GrantInput descendant_id descendant_verifiers operations in
     case receipt_outcome sha model document_id issuer_id issuer_authenticator request_id input of
       Some outcome \<Rightarrow> (outcome, model)
     | None \<Rightarrow>
       if \<not> authorizes sha model document_id issuer_id issuer_authenticator Grant
       then (MAuthorizationDenied, model)
       else case om_get model document_id of
         None \<Rightarrow> (MAuthorizationDenied, model)
       | Some document \<Rightarrow>
         if \<not> issuer_has_descendant_capacity document issuer_id then (MAuthorizationDenied, model)
         else case om_get (cdoc_capabilities document) issuer_id of
           None \<Rightarrow> (MAuthorizationDenied, model)
         | Some issuer \<Rightarrow>
           if \<not> allows (mc_operations issuer) operations then (MAuthorizationDenied, model)
           else case checked_add (cdoc_revision document) 1 of
             None \<Rightarrow> (MCounterExhausted, model)
           | Some next_revision \<Rightarrow>
             if om_contains (cdoc_capabilities document) descendant_id
             then (MIdentifierConflict, model)
             else (MInserted, om_insert document_id
               (document\<lparr> cdoc_capabilities := om_insert descendant_id
                   \<lparr> mc_operations = operations, mc_parent = Some issuer_id, mc_revoked = False,
                     mc_verifiers = descendant_verifiers \<rparr> (cdoc_capabilities document),
                 cdoc_receipts := om_insert (issuer_id, request_id) input (cdoc_receipts document),
                 cdoc_revision := next_revision \<rparr>) model))"

definition revoke_one ::
  "capability_id \<Rightarrow> capability_document \<Rightarrow> capability_id \<Rightarrow> capability_document" where
  "revoke_one target_id document capability_id =
    (if is_descendant document target_id capability_id
     then (case om_get (cdoc_capabilities document) capability_id of
         Some capability \<Rightarrow> document\<lparr> cdoc_capabilities :=
           om_insert capability_id (capability\<lparr> mc_revoked := True \<rparr>) (cdoc_capabilities document) \<rparr>
       | None \<Rightarrow> document)
     else document)"

definition revoke ::
  "(bytes \<Rightarrow> key32) \<Rightarrow> capability_model \<Rightarrow> document_id \<Rightarrow> capability_id \<Rightarrow> authenticator
    \<Rightarrow> request_id \<Rightarrow> capability_id \<Rightarrow> model_control_outcome \<times> capability_model" where
  "revoke sha model document_id issuer_id issuer_authenticator request_id target_id =
    (let input = RevokeInput target_id in
     case receipt_outcome sha model document_id issuer_id issuer_authenticator request_id input of
       Some outcome \<Rightarrow> (outcome, model)
     | None \<Rightarrow>
       if \<not> authorizes sha model document_id issuer_id issuer_authenticator Revoke
          \<or> \<not> is_active_descendant model document_id issuer_id target_id
       then (MAuthorizationDenied, model)
       else case om_get model document_id of
         None \<Rightarrow> (MAuthorizationDenied, model)
       | Some document \<Rightarrow>
         (case checked_add (cdoc_revision document) 1 of
            None \<Rightarrow> (MCounterExhausted, model)
          | Some next_revision \<Rightarrow>
              let document' = foldl (revoke_one target_id) document
                (om_keys (cdoc_capabilities document)) in
              (MInserted, om_insert document_id
                (document'\<lparr> cdoc_receipts := om_insert (issuer_id, request_id) input
                    (cdoc_receipts document'),
                  cdoc_revision := next_revision \<rparr>) model)))"

section \<open>The update model\<close>

datatype accept_outcome =
  Inserted | AlreadyPresent | AcceptIdentifierConflict | AcceptCounterExhausted | AcceptLimitExceeded

record accepted_update =
  acc_sequence :: acceptance_sequence
  acc_update :: immutable_update

text \<open>A \<open>BTreeSet\<close> of peers is its ascending list of elements.\<close>

record update_model =
  acceptance_order :: "(document_id \<times> acceptance_sequence, update_id) omap"
  document_peers :: "(document_id, u64 list) omap"
  next_sequences :: "(document_id, acceptance_sequence) omap"
  model_updates :: "(document_id \<times> update_id, accepted_update) omap"

definition empty_update_model :: update_model where
  "empty_update_model = \<lparr> acceptance_order = om_empty, document_peers = om_empty,
     next_sequences = om_empty, model_updates = om_empty \<rparr>"

definition peers_extend :: "u64 list \<Rightarrow> u64 list \<Rightarrow> u64 list" where
  "peers_extend existing new = fold insort_insert new existing"

definition model_accept :: "update_model \<Rightarrow> immutable_update \<Rightarrow> accept_outcome \<times> update_model" where
  "model_accept m update =
    (let document_id = iu_document_id update; key = (document_id, iu_update_id update) in
     case om_get (model_updates m) key of
       Some existing \<Rightarrow>
         (if acc_update existing = update then (AlreadyPresent, m) else (AcceptIdentifierConflict, m))
     | None \<Rightarrow>
       let sequence = (case om_get (next_sequences m) document_id of None \<Rightarrow> FIRST | Some s \<Rightarrow> s) in
       case checked_next sequence of
         None \<Rightarrow> (AcceptCounterExhausted, m)
       | Some next_sequence \<Rightarrow>
         let existing_peers = om_get (document_peers m) document_id;
             additional_peer_count = length (filter (\<lambda>rng.
               case existing_peers of None \<Rightarrow> True | Some peers \<Rightarrow> lr_peer_id rng \<notin> set peers)
               (iu_public_loro_ranges update)) in
         if (case existing_peers of None \<Rightarrow> 0 | Some peers \<Rightarrow> length peers) + additional_peer_count
            > MAX_LORO_PEERS
         then (AcceptLimitExceeded, m)
         else (Inserted, m\<lparr>
             next_sequences := om_insert document_id next_sequence (next_sequences m),
             acceptance_order := om_insert (document_id, sequence) (iu_update_id update)
               (acceptance_order m),
             document_peers := om_insert document_id
               (peers_extend (case existing_peers of None \<Rightarrow> [] | Some peers \<Rightarrow> peers)
                 (map lr_peer_id (iu_public_loro_ranges update))) (document_peers m),
             model_updates := om_insert key \<lparr> acc_sequence = sequence, acc_update = update \<rparr>
               (model_updates m) \<rparr>))"

definition model_high_water :: "update_model \<Rightarrow> document_id \<Rightarrow> acceptance_sequence option" where
  "model_high_water m document_id =
    map_option (\<lambda>((_, sequence), _). sequence)
      (om_next_back (om_range
        (\<lambda>k. (document_id, FIRST) \<le> k \<and> k \<le> (document_id, seq_from_be_bytes (replicate 8 0xff)))
        (acceptance_order m)))"

text \<open>\<open>u32::try_from\<close> with the maximum as default.\<close>

definition payload_length_u32 :: "bytes \<Rightarrow> u32" where
  "payload_length_u32 payload = (if length payload < 2 ^ 32 then of_nat (length payload) else - 1)"

definition model_metadata :: "immutable_update \<Rightarrow> update_metadata" where
  "model_metadata update =
    \<lparr> um_encrypted_payload_length = payload_length_u32 (iu_encrypted_payload update),
      um_public_loro_ranges = iu_public_loro_ranges update, um_update_id = iu_update_id update \<rparr>"

definition acceptance_window ::
  "update_model \<Rightarrow> document_id \<Rightarrow> acceptance_sequence option \<Rightarrow> acceptance_sequence
    \<Rightarrow> (acceptance_sequence \<times> update_metadata) list" where
  "acceptance_window m document_id after terminal_sequence =
    (let after = (case after of None \<Rightarrow> ORIGIN | Some s \<Rightarrow> s) in
     List.map_filter (\<lambda>((_, sequence), update_id).
        case om_get (model_updates m) (document_id, update_id) of
          None \<Rightarrow> None
        | Some accepted \<Rightarrow> Some (sequence, model_metadata (acc_update accepted)))
      (om_range (\<lambda>k. (document_id, after) < k \<and> k \<le> (document_id, terminal_sequence))
        (acceptance_order m)))"

definition model_enumerate ::
  "update_model \<Rightarrow> document_id \<Rightarrow> acceptance_sequence option \<Rightarrow> acceptance_sequence
    \<Rightarrow> (acceptance_sequence \<times> update_metadata) list" where
  "model_enumerate = acceptance_window"

definition beyond_version :: "oplog_version \<Rightarrow> public_loro_ranges \<Rightarrow> bool" where
  "beyond_version version ranges =
    list_ex (\<lambda>rng. lr_end_counter rng > end_counter_for version (lr_peer_id rng)) ranges"

definition model_vector_backfill ::
  "update_model \<Rightarrow> document_id \<Rightarrow> oplog_version \<Rightarrow> acceptance_sequence option
    \<Rightarrow> acceptance_sequence \<Rightarrow> (acceptance_sequence \<times> update_metadata) list" where
  "model_vector_backfill m document_id version after terminal_sequence =
    filter (\<lambda>(_, metadata). beyond_version version (um_public_loro_ranges metadata))
      (acceptance_window m document_id after terminal_sequence)"

definition model_fetch :: "update_model \<Rightarrow> document_id \<Rightarrow> update_id \<Rightarrow> bytes option" where
  "model_fetch m document_id update_id =
    map_option (\<lambda>accepted. iu_encrypted_payload (acc_update accepted))
      (om_get (model_updates m) (document_id, update_id))"

definition model_acceptance_sequence ::
  "update_model \<Rightarrow> document_id \<Rightarrow> update_id \<Rightarrow> acceptance_sequence option" where
  "model_acceptance_sequence m document_id update_id =
    map_option acc_sequence (om_get (model_updates m) (document_id, update_id))"

end
