(* ===== verification/Verifier.thy ===== *)
theory Verifier
  imports Model
begin

text \<open>
  \<open>src/crates/renee-stored/src/verifier.rs\<close>: the domain-separated one-way verifiers the
  store keeps instead of authenticators.  SHA-256 is the parameter \<open>sha\<close>; \<open>ct_eq\<close> on two
  32-byte strings is equality.  The interface \<open>verifier\<close> is what the store relies on.
\<close>

definition CREATE_LIVE_DOMAIN :: bytes where
  "CREATE_LIVE_DOMAIN = ascii ''renee/create-authority/live-verifier/v1'' @ [0]"

definition CREATE_RECEIPT_DOMAIN :: bytes where
  "CREATE_RECEIPT_DOMAIN = ascii ''renee/create-authority/receipt-verifier/v1'' @ [0]"

definition VERIFIER_LENGTH :: nat where "VERIFIER_LENGTH = 32"

definition derive_domain ::
  "(bytes \<Rightarrow> key32) \<Rightarrow> bytes \<Rightarrow> document_id \<Rightarrow> capability_id \<Rightarrow> authenticator \<Rightarrow> key32" where
  "derive_domain sha domain document_id capability_id authenticator =
    sha (domain @ be_encode document_id @ be_encode capability_id @ be_encode authenticator)"

definition derive ::
  "(bytes \<Rightarrow> key32) \<Rightarrow> document_id \<Rightarrow> capability_id \<Rightarrow> authenticator \<Rightarrow> verifier_pair" where
  "derive sha document_id capability_id authenticator =
    \<lparr> vp_live = derive_domain sha LIVE_DOMAIN document_id capability_id authenticator,
      vp_receipt = derive_domain sha RECEIPT_DOMAIN document_id capability_id authenticator \<rparr>"

definition verify_live ::
  "(bytes \<Rightarrow> key32) \<Rightarrow> key32 \<Rightarrow> document_id \<Rightarrow> capability_id \<Rightarrow> authenticator \<Rightarrow> bool" where
  "verify_live sha expected document_id capability_id authenticator \<longleftrightarrow>
    expected = derive_domain sha LIVE_DOMAIN document_id capability_id authenticator"

definition verify_receipt ::
  "(bytes \<Rightarrow> key32) \<Rightarrow> key32 \<Rightarrow> document_id \<Rightarrow> capability_id \<Rightarrow> authenticator \<Rightarrow> bool" where
  "verify_receipt sha expected document_id capability_id authenticator \<longleftrightarrow>
    expected = derive_domain sha RECEIPT_DOMAIN document_id capability_id authenticator"

definition derive_create_domain ::
  "(bytes \<Rightarrow> key32) \<Rightarrow> bytes \<Rightarrow> create_authority_id \<Rightarrow> authenticator \<Rightarrow> key32" where
  "derive_create_domain sha domain create_authority_id authenticator =
    sha (domain @ be_encode create_authority_id @ be_encode authenticator)"

definition verify_create_live ::
  "(bytes \<Rightarrow> key32) \<Rightarrow> key32 \<Rightarrow> create_authority_id \<Rightarrow> authenticator \<Rightarrow> bool" where
  "verify_create_live sha expected create_authority_id authenticator \<longleftrightarrow>
    expected = derive_create_domain sha CREATE_LIVE_DOMAIN create_authority_id authenticator"

definition verify_create_receipt ::
  "(bytes \<Rightarrow> key32) \<Rightarrow> key32 \<Rightarrow> create_authority_id \<Rightarrow> authenticator \<Rightarrow> bool" where
  "verify_create_receipt sha expected create_authority_id authenticator \<longleftrightarrow>
    expected = derive_create_domain sha CREATE_RECEIPT_DOMAIN create_authority_id authenticator"

locale verifier =
  fixes derive_pair :: "document_id \<Rightarrow> capability_id \<Rightarrow> authenticator \<Rightarrow> verifier_pair"
    and live_ok :: "key32 \<Rightarrow> document_id \<Rightarrow> capability_id \<Rightarrow> authenticator \<Rightarrow> bool"
    and receipt_ok :: "key32 \<Rightarrow> document_id \<Rightarrow> capability_id \<Rightarrow> authenticator \<Rightarrow> bool"
  assumes live_ok_iff: "live_ok v d c a \<longleftrightarrow> v = vp_live (derive_pair d c a)"
    and receipt_ok_iff: "receipt_ok v d c a \<longleftrightarrow> v = vp_receipt (derive_pair d c a)"
begin

lemma holder_live: "live_ok (vp_live (derive_pair d c a)) d c a"
  by (simp add: live_ok_iff)

lemma holder_receipt: "receipt_ok (vp_receipt (derive_pair d c a)) d c a"
  by (simp add: receipt_ok_iff)

end

interpretation sha_verifier: verifier "derive sha" "verify_live sha" "verify_receipt sha"
  by unfold_locales (simp_all add: derive_def verify_live_def verify_receipt_def)

lemma model_verifiers_derive: "model_verifiers sha = derive sha"
  by (intro ext) (simp add: model_verifiers_def derive_def model_verifier_def derive_domain_def)

end
