(* ===== verification/Store_Tables.thy ===== *)
theory Store_Tables
  imports Verifier Wire_Codecs
begin

text \<open>
  The durable state of \<open>src/crates/renee-stored/src/store.rs\<close> as typed tables.  A table is a
  key-ordered map from its primary key to the rest of the row; a BLOB column whose CHECK
  constraint fixes its length is a word of that length, big-endian, which also gives the
  order SQLite sorts it in.  \<open>sql_insert\<close> is an INSERT under the primary-key and
  foreign-key constraints.  A transaction is a function of the tables it began with; one that is
  dropped without \<open>commit\<close> leaves them as they were.
\<close>

section \<open>Limits\<close>

definition MAX_CAPABILITY_DEPTH :: nat where "MAX_CAPABILITY_DEPTH = 64"
definition MAX_DIRECT_CAPABILITY_CHILDREN :: nat where "MAX_DIRECT_CAPABILITY_CHILDREN = 64"
definition MAX_CAPABILITIES_PER_DOCUMENT :: nat where "MAX_CAPABILITIES_PER_DOCUMENT = 1024"
definition MAX_CONTROL_RECEIPTS_PER_DOCUMENT :: nat where
  "MAX_CONTROL_RECEIPTS_PER_DOCUMENT = 4096"
definition MAX_GLOBAL_CAPABILITIES :: nat where "MAX_GLOBAL_CAPABILITIES = 0x4000"
definition MAX_GLOBAL_CONTROL_RECEIPTS :: nat where "MAX_GLOBAL_CONTROL_RECEIPTS = 0x00010000"
definition MAX_DOCUMENT_CONTROL_BYTES :: nat where "MAX_DOCUMENT_CONTROL_BYTES = 0x00100000"
definition MAX_GLOBAL_CONTROL_BYTES :: nat where "MAX_GLOBAL_CONTROL_BYTES = 0x01000000"
definition MAX_DOCUMENTS_PER_CREATE_AUTHORITY :: nat where
  "MAX_DOCUMENTS_PER_CREATE_AUTHORITY = 4096"
definition MAX_GLOBAL_DOCUMENTS :: nat where "MAX_GLOBAL_DOCUMENTS = 0x4000"
definition MAX_GLOBAL_CREATE_RECEIPTS :: nat where "MAX_GLOBAL_CREATE_RECEIPTS = 0x00010000"

lemmas store_limit_defs = MAX_CAPABILITY_DEPTH_def MAX_DIRECT_CAPABILITY_CHILDREN_def
  MAX_CAPABILITIES_PER_DOCUMENT_def MAX_CONTROL_RECEIPTS_PER_DOCUMENT_def
  MAX_GLOBAL_CAPABILITIES_def MAX_GLOBAL_CONTROL_RECEIPTS_def MAX_DOCUMENT_CONTROL_BYTES_def
  MAX_GLOBAL_CONTROL_BYTES_def MAX_DOCUMENTS_PER_CREATE_AUTHORITY_def MAX_GLOBAL_DOCUMENTS_def
  MAX_GLOBAL_CREATE_RECEIPTS_def

section \<open>Tables\<close>

record create_authority_row =
  car_live_verifier :: key32
  car_receipt_verifier :: key32
  car_state :: byte

record document_row =
  dr_state :: byte
  dr_control_revision :: u64
  dr_root_capability_id :: capability_id

record capability_row =
  cr_parent :: "capability_id option"
  cr_root :: bool
  cr_live_verifier :: key32
  cr_receipt_verifier :: key32
  cr_state :: byte
  cr_created_revision :: u64

record control_receipt_row =
  rr_operation :: byte
  rr_normalized_input :: bytes

record create_receipt_row =
  cc_document_id :: document_id
  cc_root_capability_id :: capability_id
  cc_normalized_input :: bytes

record update_row =
  ur_acceptance_sequence :: acceptance_sequence
  ur_encoded_record :: bytes

record tables =
  create_authorities :: "(create_authority_id, create_authority_row) omap"
  documents :: "(document_id, document_row) omap"
  capabilities :: "(document_id \<times> capability_id, capability_row) omap"
  capability_operations :: "(document_id \<times> capability_id \<times> byte, unit) omap"
  control_receipts :: "(document_id \<times> capability_id \<times> request_id, control_receipt_row) omap"
  create_receipts :: "(create_authority_id \<times> request_id, create_receipt_row) omap"
  document_acceptance_sequences :: "(document_id, acceptance_sequence) omap"
  updates :: "(document_id \<times> update_id, update_row) omap"
  update_loro_ranges :: "(document_id \<times> update_id \<times> u64, u32 \<times> u32) omap"
  document_loro_peers :: "(document_id \<times> u64, unit) omap"

definition empty_tables :: tables where
  "empty_tables = \<lparr> create_authorities = om_empty, documents = om_empty, capabilities = om_empty,
     capability_operations = om_empty, control_receipts = om_empty, create_receipts = om_empty,
     document_acceptance_sequences = om_empty, updates = om_empty, update_loro_ranges = om_empty,
     document_loro_peers = om_empty \<rparr>"

section \<open>Errors and outcomes\<close>

text \<open>
  \<open>SqliteConstraint\<close> stands for the \<open>Sqlite\<close> errors of a violated constraint and
  \<open>SqliteNoRows\<close> for those of a query that must return a row and does not; I/O errors do
  not occur in the model.
\<close>

datatype store_error =
    SqliteConstraint
  | SqliteNoRows
  | InvalidDatabasePath
  | InvalidCursor
  | EntropyUnavailable
  | Corrupt string
  | UnsupportedSchema u32

datatype store_accept_outcome =
    StAcceptInserted | StAcceptAlreadyPresent | StAcceptIdentifierConflict
  | StAcceptCounterExhausted | StAcceptLimitExceeded | StAcceptAuthorizationDenied

datatype store_create_outcome =
    StCreateInserted | StCreateAlreadyPresent | StCreateAuthorizationDenied
  | StCreateIdentifierConflict | StCreateRequestConflict | StCreateLimitExceeded

datatype store_control_outcome =
    StInserted | StAlreadyPresent | StAuthorizationDenied | StIdentifierConflict
  | StRequestConflict | StCounterExhausted | StLimitExceeded

datatype store_revoke_preflight = Resolved store_control_outcome | RequiresMutation

record create_authority_provision =
  cp_create_authority_id :: create_authority_id
  cp_live_verifier :: key32
  cp_receipt_verifier :: key32

section \<open>Statements\<close>

text \<open>
  \<open>INSERT\<close>: refused when a foreign key is missing or the primary key is taken.
  \<open>INSERT OR IGNORE\<close>: counts the inserted rows.  \<open>count_where\<close> is \<open>SELECT COUNT\<close>.
\<close>

definition sql_insert ::
  "bool \<Rightarrow> 'k::linorder \<Rightarrow> 'v \<Rightarrow> ('k, 'v) omap \<Rightarrow> store_error + ('k, 'v) omap" where
  "sql_insert foreign_keys k v t =
    (if \<not> foreign_keys \<or> om_contains t k then Inl SqliteConstraint else Inr (om_insert k v t))"

definition sql_insert_or_ignore ::
  "bool \<Rightarrow> 'k::linorder \<Rightarrow> 'v \<Rightarrow> ('k, 'v) omap \<Rightarrow> store_error + nat \<times> ('k, 'v) omap" where
  "sql_insert_or_ignore foreign_keys k v t =
    (if om_contains t k then Inr (0, t)
     else if \<not> foreign_keys then Inl SqliteConstraint
     else Inr (1, om_insert k v t))"

definition count_where :: "('k \<Rightarrow> 'v \<Rightarrow> bool) \<Rightarrow> ('k, 'v) omap \<Rightarrow> nat" where
  "count_where P t = length (filter (\<lambda>(k, v). P k v) t)"

definition sum_where :: "('k \<Rightarrow> 'v \<Rightarrow> bool) \<Rightarrow> ('k \<Rightarrow> 'v \<Rightarrow> nat) \<Rightarrow> ('k, 'v) omap \<Rightarrow> nat" where
  "sum_where P f t = sum_list (map (\<lambda>(k, v). f k v) (filter (\<lambda>(k, v). P k v) t))"

lemma sql_insert_Inr_iff:
  "sql_insert fk k v t = Inr t' \<longleftrightarrow> fk \<and> om_get t k = None \<and> t' = om_insert k v t"
  by (auto simp add: sql_insert_def om_contains_def)

lemma count_where_insert:
  "om_get t k = None \<Longrightarrow> count_where P (om_insert k v t) = count_where P t + (if P k v then 1 else 0)"
  by (induction k v t rule: om_insert.induct) (auto simp add: count_where_def om_get_def split: if_splits)

lemma sum_where_insert:
  "om_get t k = None \<Longrightarrow> sum_where P f (om_insert k v t) = sum_where P f t + (if P k v then f k v else 0)"
  by (induction k v t rule: om_insert.induct) (auto simp add: sum_where_def om_get_def split: if_splits)

lemma count_where_mono: "(\<And>k v. P k v \<Longrightarrow> Q k v) \<Longrightarrow> count_where P t \<le> count_where Q t"
  by (induction t) (auto simp add: count_where_def)

lemma sum_where_bound: "(\<And>k v. (k, v) \<in> set t \<Longrightarrow> P k v \<Longrightarrow> f k v \<le> b) \<Longrightarrow>
    sum_where P f t \<le> b * count_where P t"
  by (induction t) (auto simp add: sum_where_def count_where_def add_mono)

lemma count_where_map_values:
  "(\<And>k v. P k (f k v) = P k v) \<Longrightarrow> count_where P (map (\<lambda>(k, v). (k, f k v)) t) = count_where P t"
  by (induction t) (auto simp add: count_where_def)

lemma sum_where_map_values:
  "(\<And>k v. P k (g k v) = P k v) \<Longrightarrow> (\<And>k v. f k (g k v) = f k v) \<Longrightarrow>
    sum_where P f (map (\<lambda>(k, v). (k, g k v)) t) = sum_where P f t"
  by (induction t) (auto simp add: sum_where_def)

end
