(* ===== verification/Store_Control.thy ===== *)
theory Store_Control
  imports Store_Tables
begin

text \<open>
  The control transactions of \<open>src/crates/renee-stored/src/store.rs\<close>: authorization along the
  capability chain, document creation, grant, revoke with its preflight, receipts, control
  revisions and limits.  Each transaction maps the tables to an error, or to an outcome with
  the tables it leaves; the conformance-only barriers are not part of the shipped code and are
  left out.
\<close>

section \<open>Operation codes\<close>

definition all_operations :: "operation list" where
  "all_operations = [Read, Update, Checkpoint, BlobRead, BlobPut, SignalSend, SignalReceive,
     Grant, Revoke, Retire]"

fun operation_code :: "operation \<Rightarrow> byte" where
  "operation_code Read = 0"
| "operation_code Update = 1"
| "operation_code Checkpoint = 2"
| "operation_code BlobRead = 3"
| "operation_code BlobPut = 4"
| "operation_code SignalSend = 5"
| "operation_code SignalReceive = 6"
| "operation_code Grant = 7"
| "operation_code Revoke = 8"
| "operation_code Retire = 9"

definition operation_from_code :: "byte \<Rightarrow> operation option" where
  "operation_from_code code =
    (if code = 0 then Some Read
     else if code = 1 then Some Update
     else if code = 2 then Some Checkpoint
     else if code = 3 then Some BlobRead
     else if code = 4 then Some BlobPut
     else if code = 5 then Some SignalSend
     else if code = 6 then Some SignalReceive
     else if code = 7 then Some Grant
     else if code = 8 then Some Revoke
     else if code = 9 then Some Retire
     else None)"

fun fold_operation_codes :: "byte list \<Rightarrow> operation_set \<Rightarrow> store_error + operation_set" where
  "fold_operation_codes [] ops = Inr ops"
| "fold_operation_codes (code # rest) ops =
    ok_then (ok_or (Corrupt ''capability operation code is invalid'') (operation_from_code code))
      (\<lambda>operation. fold_operation_codes rest (ops_union ops (one operation)))"

definition load_operation_set ::
  "tables \<Rightarrow> document_id \<Rightarrow> capability_id \<Rightarrow> store_error + operation_set" where
  "load_operation_set t document_id capability_id =
    fold_operation_codes
      (map (\<lambda>((_, _, code), _). code)
        (om_range (\<lambda>(d, c, _). d = document_id \<and> c = capability_id) (capability_operations t)))
      EMPTY_OPS"

fun insert_operation_list ::
  "document_id \<Rightarrow> capability_id \<Rightarrow> operation_set \<Rightarrow> operation list \<Rightarrow> tables \<Rightarrow> store_error + tables"
where
  "insert_operation_list document_id capability_id operations [] t = Inr t"
| "insert_operation_list document_id capability_id operations (operation # rest) t =
    (if \<not> contains operations operation
     then insert_operation_list document_id capability_id operations rest t
     else ok_then (sql_insert (om_contains (capabilities t) (document_id, capability_id))
         (document_id, capability_id, operation_code operation) () (capability_operations t))
       (\<lambda>co. insert_operation_list document_id capability_id operations rest
         (t\<lparr> capability_operations := co \<rparr>)))"

definition insert_operations ::
  "document_id \<Rightarrow> capability_id \<Rightarrow> operation_set \<Rightarrow> tables \<Rightarrow> store_error + tables" where
  "insert_operations document_id capability_id operations t =
    insert_operation_list document_id capability_id operations all_operations t"

section \<open>Authorization\<close>

datatype document_authorization = Authorized | Denied | Retired

fun authorize_loop ::
  "(bytes \<Rightarrow> key32) \<Rightarrow> tables \<Rightarrow> document_id \<Rightarrow> capability_id \<Rightarrow> authenticator \<Rightarrow> operation
    \<Rightarrow> nat \<Rightarrow> nat \<Rightarrow> capability_id \<Rightarrow> document_authorization" where
  "authorize_loop sha t document_id capability_id authenticator operation 0 depth current = Denied"
| "authorize_loop sha t document_id capability_id authenticator operation (Suc n) depth current =
    (case om_get (capabilities t) (document_id, current) of
       None \<Rightarrow> Denied
     | Some row \<Rightarrow>
         if cr_state row \<noteq> 0 then Denied
         else if depth = 0 \<and> \<not> verify_live sha (cr_live_verifier row) document_id capability_id
             authenticator then Denied
         else if depth = 0 \<and> \<not> om_contains (capability_operations t)
             (document_id, capability_id, operation_code operation) then Denied
         else (case cr_parent row of
             None \<Rightarrow>
               (case om_get (documents t) document_id of
                  None \<Rightarrow> Denied
                | Some document \<Rightarrow>
                    if dr_state document = 0 then Authorized
                    else if dr_state document = 1 then Retired else Denied)
           | Some parent \<Rightarrow>
               authorize_loop sha t document_id capability_id authenticator operation n (depth + 1)
                 parent))"

definition authorize_document ::
  "(bytes \<Rightarrow> key32) \<Rightarrow> tables \<Rightarrow> document_id \<Rightarrow> capability_id \<Rightarrow> authenticator \<Rightarrow> operation
    \<Rightarrow> document_authorization" where
  "authorize_document sha t document_id capability_id authenticator operation =
    authorize_loop sha t document_id capability_id authenticator operation MAX_CAPABILITY_DEPTH 0
      capability_id"

definition authorize ::
  "(bytes \<Rightarrow> key32) \<Rightarrow> tables \<Rightarrow> document_id \<Rightarrow> capability_id \<Rightarrow> authenticator \<Rightarrow> operation
    \<Rightarrow> bool" where
  "authorize sha t document_id capability_id authenticator operation \<longleftrightarrow>
    authorize_document sha t document_id capability_id authenticator operation = Authorized"

section \<open>Ancestry\<close>

fun active_descendant_loop ::
  "tables \<Rightarrow> document_id \<Rightarrow> capability_id \<Rightarrow> nat \<Rightarrow> capability_id \<Rightarrow> bool" where
  "active_descendant_loop t document_id issuer 0 current = False"
| "active_descendant_loop t document_id issuer (Suc n) current =
    (case om_get (capabilities t) (document_id, current) of
       None \<Rightarrow> False
     | Some row \<Rightarrow>
         if cr_state row \<noteq> 0 then False
         else if current = issuer then True
         else (case cr_parent row of
             None \<Rightarrow> False
           | Some parent \<Rightarrow> active_descendant_loop t document_id issuer n parent))"

definition store_is_active_descendant ::
  "tables \<Rightarrow> document_id \<Rightarrow> capability_id \<Rightarrow> capability_id \<Rightarrow> bool" where
  "store_is_active_descendant t document_id issuer target =
    active_descendant_loop t document_id issuer MAX_CAPABILITY_DEPTH target"

fun descendant_or_self_loop ::
  "tables \<Rightarrow> document_id \<Rightarrow> capability_id \<Rightarrow> nat \<Rightarrow> capability_id \<Rightarrow> bool" where
  "descendant_or_self_loop t document_id ancestor 0 current = False"
| "descendant_or_self_loop t document_id ancestor (Suc n) current =
    (if current = ancestor then True
     else (case om_get (capabilities t) (document_id, current) of
         None \<Rightarrow> False
       | Some row \<Rightarrow>
           (case cr_parent row of
              None \<Rightarrow> False
            | Some parent \<Rightarrow> descendant_or_self_loop t document_id ancestor n parent)))"

definition is_descendant_or_self ::
  "tables \<Rightarrow> document_id \<Rightarrow> capability_id \<Rightarrow> capability_id \<Rightarrow> bool" where
  "is_descendant_or_self t document_id ancestor candidate =
    descendant_or_self_loop t document_id ancestor MAX_CAPABILITY_DEPTH candidate"

fun store_capacity_loop ::
  "tables \<Rightarrow> document_id \<Rightarrow> nat \<Rightarrow> nat \<Rightarrow> capability_id \<Rightarrow> bool" where
  "store_capacity_loop t document_id 0 node_count current = False"
| "store_capacity_loop t document_id (Suc n) node_count current =
    (case om_get (capabilities t) (document_id, current) of
       None \<Rightarrow> False
     | Some row \<Rightarrow>
         (case cr_parent row of
            None \<Rightarrow> node_count < MAX_CAPABILITY_DEPTH
          | Some parent \<Rightarrow> store_capacity_loop t document_id n (node_count + 1) parent))"

definition store_issuer_has_descendant_capacity ::
  "tables \<Rightarrow> document_id \<Rightarrow> capability_id \<Rightarrow> bool" where
  "store_issuer_has_descendant_capacity t document_id issuer =
    store_capacity_loop t document_id MAX_CAPABILITY_DEPTH 1 issuer"

section \<open>Receipts, revisions and limits\<close>

definition resolve_control_receipt ::
  "(bytes \<Rightarrow> key32) \<Rightarrow> tables \<Rightarrow> document_id \<Rightarrow> capability_id \<Rightarrow> authenticator \<Rightarrow> request_id
    \<Rightarrow> byte \<Rightarrow> bytes \<Rightarrow> store_control_outcome option" where
  "resolve_control_receipt sha t document_id issuer authenticator request_id operation input =
    (case om_get (control_receipts t) (document_id, issuer, request_id) of
       None \<Rightarrow> None
     | Some receipt \<Rightarrow>
         (case om_get (capabilities t) (document_id, issuer) of
            None \<Rightarrow> Some StAuthorizationDenied
          | Some row \<Rightarrow>
              if \<not> verify_receipt sha (cr_receipt_verifier row) document_id issuer authenticator
              then Some StAuthorizationDenied
              else Some (if rr_operation receipt = operation \<and> rr_normalized_input receipt = input
                then StAlreadyPresent else StRequestConflict)))"

definition insert_control_receipt ::
  "document_id \<Rightarrow> capability_id \<Rightarrow> request_id \<Rightarrow> byte \<Rightarrow> bytes \<Rightarrow> tables \<Rightarrow> store_error + tables" where
  "insert_control_receipt document_id issuer request_id operation input t =
    ok_then (sql_insert (om_contains (capabilities t) (document_id, issuer))
        (document_id, issuer, request_id)
        \<lparr> rr_operation = operation, rr_normalized_input = input \<rparr> (control_receipts t))
      (\<lambda>cr. Inr (t\<lparr> control_receipts := cr \<rparr>))"

definition next_control_revision :: "tables \<Rightarrow> document_id \<Rightarrow> u64 option" where
  "next_control_revision t document_id =
    (case om_get (documents t) document_id of
       None \<Rightarrow> None
     | Some document \<Rightarrow>
         if dr_state document = 0 then checked_add (dr_control_revision document) 1 else None)"

definition set_control_revision :: "document_id \<Rightarrow> u64 \<Rightarrow> tables \<Rightarrow> store_error + tables" where
  "set_control_revision document_id revision t =
    (case om_get (documents t) document_id of
       None \<Rightarrow> Inl (Corrupt ''active document revision update affected wrong row count'')
     | Some document \<Rightarrow>
         if dr_state document = 0
         then Inr (t\<lparr> documents := om_insert document_id
           (document\<lparr> dr_control_revision := revision \<rparr>) (documents t) \<rparr>)
         else Inl (Corrupt ''active document revision update affected wrong row count''))"

text \<open>The logical bytes of a capability row, an operation row and a receipt row.\<close>

definition capability_row_bytes :: "capability_row \<Rightarrow> nat" where
  "capability_row_bytes row =
    16 + (case cr_parent row of None \<Rightarrow> 0 | Some _ \<Rightarrow> 16) + 32 + 32 + 8 + 2"

definition control_logical_bytes :: "tables \<Rightarrow> (document_id \<Rightarrow> bool) \<Rightarrow> nat" where
  "control_logical_bytes t D =
    sum_where (\<lambda>(d, _) _. D d) (\<lambda>_ row. capability_row_bytes row) (capabilities t)
    + sum_where (\<lambda>(d, _, _) _. D d) (\<lambda>_ _. 16 + 16 + 1) (capability_operations t)
    + sum_where (\<lambda>(d, _, _) _. D d) (\<lambda>_ row. 16 + 16 + length (rr_normalized_input row) + 1)
        (control_receipts t)"

definition direct_children :: "tables \<Rightarrow> document_id \<Rightarrow> capability_id \<Rightarrow> nat" where
  "direct_children t document_id parent =
    count_where (\<lambda>(d, _) row. d = document_id \<and> cr_parent row = Some parent) (capabilities t)"

definition control_counts_exceeded ::
  "tables \<Rightarrow> document_id \<Rightarrow> capability_id option \<Rightarrow> bool \<Rightarrow> bool" where
  "control_counts_exceeded t document_id parent adds_capability \<longleftrightarrow>
    (case parent of None \<Rightarrow> False
       | Some p \<Rightarrow> direct_children t document_id p \<ge> MAX_DIRECT_CAPABILITY_CHILDREN)
    \<or> (adds_capability
        \<and> (count_where (\<lambda>(d, _) _. d = document_id) (capabilities t) \<ge> MAX_CAPABILITIES_PER_DOCUMENT
          \<or> count_where (\<lambda>_ _. True) (capabilities t) \<ge> MAX_GLOBAL_CAPABILITIES))
    \<or> count_where (\<lambda>(d, _, _) _. d = document_id) (control_receipts t)
        \<ge> MAX_CONTROL_RECEIPTS_PER_DOCUMENT
    \<or> count_where (\<lambda>_ _. True) (control_receipts t) \<ge> MAX_GLOBAL_CONTROL_RECEIPTS"

definition additional_control_bytes :: "bool \<Rightarrow> nat \<Rightarrow> nat \<Rightarrow> nat" where
  "additional_control_bytes adds_capability op_count input_length =
    (if adds_capability
     then IDENTIFIER_LENGTH * 2 + VERIFIER_LENGTH * 2 + 8 + 2
       + op_count * (IDENTIFIER_LENGTH * 2 + 1)
     else 0)
    + (IDENTIFIER_LENGTH * 2 + 1) + input_length"

definition control_limits_exceeded ::
  "tables \<Rightarrow> document_id \<Rightarrow> capability_id option \<Rightarrow> bool \<Rightarrow> nat \<Rightarrow> nat \<Rightarrow> bool" where
  "control_limits_exceeded t document_id parent adds_capability op_count input_length \<longleftrightarrow>
    (if control_counts_exceeded t document_id parent adds_capability then True
     else
       let additional = additional_control_bytes adds_capability op_count input_length in
       control_logical_bytes t (\<lambda>d. d = document_id) + additional > MAX_DOCUMENT_CONTROL_BYTES
       \<or> control_logical_bytes t (\<lambda>_. True) + additional > MAX_GLOBAL_CONTROL_BYTES)"

definition count_ones :: "u16 \<Rightarrow> nat" where
  "count_ones w = length (filter (bit w) [0..<16])"

definition create_limits_exceeded :: "tables \<Rightarrow> create_authority_id \<Rightarrow> bool" where
  "create_limits_exceeded t create_authority_id \<longleftrightarrow>
    count_where (\<lambda>(a, _) _. a = create_authority_id) (create_receipts t)
      \<ge> MAX_DOCUMENTS_PER_CREATE_AUTHORITY
    \<or> count_where (\<lambda>_ _. True) (documents t) \<ge> MAX_GLOBAL_DOCUMENTS
    \<or> count_where (\<lambda>_ _. True) (create_receipts t) \<ge> MAX_GLOBAL_CREATE_RECEIPTS
    \<or> count_where (\<lambda>_ _. True) (capabilities t) \<ge> MAX_GLOBAL_CAPABILITIES"

definition provision_create_authority ::
  "create_authority_provision \<Rightarrow> tables \<Rightarrow> store_error + tables" where
  "provision_create_authority p t =
    (case om_get (create_authorities t) (cp_create_authority_id p) of
       Some row \<Rightarrow>
         if car_live_verifier row \<noteq> cp_live_verifier p
            \<or> car_receipt_verifier row \<noteq> cp_receipt_verifier p
         then Inl (Corrupt ''configured create authority disagrees with durable provisioning'')
         else Inr t
     | None \<Rightarrow>
         ok_then (sql_insert True (cp_create_authority_id p)
             \<lparr> car_live_verifier = cp_live_verifier p,
               car_receipt_verifier = cp_receipt_verifier p, car_state = 0 \<rparr> (create_authorities t))
           (\<lambda>ca. Inr (t\<lparr> create_authorities := ca \<rparr>)))"


section \<open>Document creation\<close>

definition create_normalized_input :: "document_id \<Rightarrow> capability_id \<Rightarrow> verifier_pair \<Rightarrow> bytes" where
  "create_normalized_input document_id root verifiers =
    be_encode document_id @ be_encode root @ be_encode (vp_live verifiers)
    @ be_encode (vp_receipt verifiers)"

text \<open>The receipt proof of the root capability a row names.\<close>

definition root_receipt_authorized ::
  "(bytes \<Rightarrow> key32) \<Rightarrow> tables \<Rightarrow> document_id \<Rightarrow> capability_id \<Rightarrow> authenticator \<Rightarrow> bool" where
  "root_receipt_authorized sha t document_id root authenticator \<longleftrightarrow>
    (case om_get (capabilities t) (document_id, root) of
       None \<Rightarrow> False
     | Some row \<Rightarrow> cr_root row
         \<and> verify_receipt sha (cr_receipt_verifier row) document_id root authenticator)"

definition insert_root ::
  "create_authority_id \<Rightarrow> request_id \<Rightarrow> document_id \<Rightarrow> capability_id \<Rightarrow> verifier_pair
    \<Rightarrow> tables \<Rightarrow> store_error + tables" where
  "insert_root create_authority_id request_id document_id root verifiers t =
    ok_then (sql_insert True document_id
        \<lparr> dr_state = 0, dr_control_revision = 1, dr_root_capability_id = root \<rparr> (documents t))
      (\<lambda>docs. let t = t\<lparr> documents := docs \<rparr> in
    ok_then (sql_insert (om_contains (documents t) document_id) (document_id, root)
        \<lparr> cr_parent = None, cr_root = True, cr_live_verifier = vp_live verifiers,
          cr_receipt_verifier = vp_receipt verifiers, cr_state = 0, cr_created_revision = 1 \<rparr>
        (capabilities t))
      (\<lambda>caps. let t = t\<lparr> capabilities := caps \<rparr> in
    ok_then (insert_operations document_id root FULL_OPS t) (\<lambda>t.
    ok_then (sql_insert
        (om_contains (create_authorities t) create_authority_id
          \<and> om_contains (documents t) document_id)
        (create_authority_id, request_id)
        \<lparr> cc_document_id = document_id, cc_root_capability_id = root,
          cc_normalized_input = create_normalized_input document_id root verifiers \<rparr>
        (create_receipts t))
      (\<lambda>rs. Inr (t\<lparr> create_receipts := rs \<rparr>)))))"

definition store_create_document ::
  "(bytes \<Rightarrow> key32) \<Rightarrow> tables \<Rightarrow> create_authority_id \<Rightarrow> authenticator \<Rightarrow> request_id
    \<Rightarrow> document_id \<Rightarrow> capability_id \<Rightarrow> authenticator
    \<Rightarrow> store_error + store_create_outcome \<times> tables" where
  "store_create_document sha t create_authority_id create_authenticator request_id document_id root
      root_authenticator =
    (let verifiers = derive sha document_id root root_authenticator;
         input = create_normalized_input document_id root verifiers in
     case om_get (create_authorities t) create_authority_id of
       None \<Rightarrow> Inr (StCreateAuthorizationDenied, t)
     | Some authority \<Rightarrow>
       let live = car_state authority = 0 \<and> verify_create_live sha (car_live_verifier authority)
             create_authority_id create_authenticator;
           receipt = verify_create_receipt sha (car_receipt_verifier authority)
             create_authority_id create_authenticator in
       if \<not> live \<and> \<not> receipt then Inr (StCreateAuthorizationDenied, t)
       else case om_get (create_receipts t) (create_authority_id, request_id) of
         Some stored \<Rightarrow>
           if \<not> receipt then Inr (StCreateAuthorizationDenied, t)
           else if \<not> root_receipt_authorized sha t (cc_document_id stored)
               (cc_root_capability_id stored) root_authenticator
             then Inr (StCreateAuthorizationDenied, t)
           else if cc_normalized_input stored = input then Inr (StCreateAlreadyPresent, t)
           else Inr (StCreateRequestConflict, t)
       | None \<Rightarrow>
         if \<not> live then Inr (StCreateAuthorizationDenied, t)
         else case om_get (documents t) document_id of
           Some existing \<Rightarrow>
             if root_receipt_authorized sha t document_id (dr_root_capability_id existing)
                 root_authenticator
             then Inr (StCreateIdentifierConflict, t)
             else Inr (StCreateAuthorizationDenied, t)
         | None \<Rightarrow>
           if create_limits_exceeded t create_authority_id then Inr (StCreateLimitExceeded, t)
           else ok_then (insert_root create_authority_id request_id document_id root verifiers t)
             (\<lambda>t'. Inr (StCreateInserted, t')))"

section \<open>Grant\<close>

definition grant_normalized_input ::
  "capability_id \<Rightarrow> verifier_pair \<Rightarrow> operation_set \<Rightarrow> bytes" where
  "grant_normalized_input descendant verifiers operations =
    be_encode descendant @ be_encode (vp_live verifiers) @ be_encode (vp_receipt verifiers)
    @ be_encode (ops_bits operations)"

definition insert_grant ::
  "document_id \<Rightarrow> capability_id \<Rightarrow> request_id \<Rightarrow> capability_id \<Rightarrow> verifier_pair \<Rightarrow> operation_set
    \<Rightarrow> u64 \<Rightarrow> tables \<Rightarrow> store_error + tables" where
  "insert_grant document_id issuer request_id descendant verifiers operations revision t =
    ok_then (sql_insert
        (om_contains (documents t) document_id \<and> om_contains (capabilities t) (document_id, issuer))
        (document_id, descendant)
        \<lparr> cr_parent = Some issuer, cr_root = False, cr_live_verifier = vp_live verifiers,
          cr_receipt_verifier = vp_receipt verifiers, cr_state = 0,
          cr_created_revision = revision \<rparr> (capabilities t))
      (\<lambda>caps. let t = t\<lparr> capabilities := caps \<rparr> in
    ok_then (insert_operations document_id descendant operations t) (\<lambda>t.
    ok_then (insert_control_receipt document_id issuer request_id 0
        (grant_normalized_input descendant verifiers operations) t) (\<lambda>t.
    set_control_revision document_id revision t)))"

definition store_grant_capability ::
  "(bytes \<Rightarrow> key32) \<Rightarrow> tables \<Rightarrow> document_id \<Rightarrow> capability_id \<Rightarrow> authenticator \<Rightarrow> request_id
    \<Rightarrow> capability_id \<Rightarrow> authenticator \<Rightarrow> operation_set
    \<Rightarrow> store_error + store_control_outcome \<times> tables" where
  "store_grant_capability sha t document_id issuer issuer_authenticator request_id descendant
      descendant_authenticator operations =
    (if ops_is_empty operations then Inr (StAuthorizationDenied, t)
     else
       let verifiers = derive sha document_id descendant descendant_authenticator;
           input = grant_normalized_input descendant verifiers operations in
       case resolve_control_receipt sha t document_id issuer issuer_authenticator request_id 0 input of
         Some outcome \<Rightarrow> Inr (outcome, t)
       | None \<Rightarrow>
         if \<not> authorize sha t document_id issuer issuer_authenticator Grant
         then Inr (StAuthorizationDenied, t)
         else case next_control_revision t document_id of
           None \<Rightarrow> Inr (StCounterExhausted, t)
         | Some revision \<Rightarrow>
           ok_then (load_operation_set t document_id issuer) (\<lambda>issuer_operations.
           if \<not> allows issuer_operations operations then Inr (StAuthorizationDenied, t)
           else if om_contains (capabilities t) (document_id, descendant)
             then Inr (StIdentifierConflict, t)
           else if \<not> store_issuer_has_descendant_capacity t document_id issuer
               \<or> control_limits_exceeded t document_id (Some issuer) True (count_ones (ops_bits operations))
                   (length input)
             then Inr (StLimitExceeded, t)
           else ok_then (insert_grant document_id issuer request_id descendant verifiers operations
               revision t) (\<lambda>t'. Inr (StInserted, t'))))"

section \<open>Revoke\<close>

definition preflight_revoke_capability ::
  "(bytes \<Rightarrow> key32) \<Rightarrow> tables \<Rightarrow> document_id \<Rightarrow> capability_id \<Rightarrow> authenticator \<Rightarrow> request_id
    \<Rightarrow> capability_id \<Rightarrow> store_revoke_preflight" where
  "preflight_revoke_capability sha t document_id issuer authenticator request_id target =
    (let input = be_encode target in
     case resolve_control_receipt sha t document_id issuer authenticator request_id 1 input of
       Some outcome \<Rightarrow> Resolved outcome
     | None \<Rightarrow>
       if \<not> authorize sha t document_id issuer authenticator Revoke
       then Resolved StAuthorizationDenied
       else if next_control_revision t document_id = None then Resolved StCounterExhausted
       else if \<not> store_is_active_descendant t document_id issuer target
         then Resolved StAuthorizationDenied
       else if control_limits_exceeded t document_id None False 0 (length input)
         then Resolved StLimitExceeded
       else RequiresMutation)"

text \<open>
  The recursive common table expression: the queue starts with the target and every
  dequeued capability appends its children.  The fuel bounds the number of generations; a
  document's ancestry is at most 64 deep, which \<open>subtree_complete\<close> below turns into the
  claim that the fuel is enough.
\<close>

definition children :: "tables \<Rightarrow> document_id \<Rightarrow> capability_id \<Rightarrow> capability_id list" where
  "children t document_id parent =
    map (\<lambda>((_, c), _). c)
      (filter (\<lambda>((d, _), row). d = document_id \<and> cr_parent row = Some parent) (capabilities t))"

fun subtree :: "nat \<Rightarrow> tables \<Rightarrow> document_id \<Rightarrow> capability_id list \<Rightarrow> capability_id list" where
  "subtree 0 t document_id frontier = []"
| "subtree (Suc n) t document_id frontier =
    frontier @ subtree n t document_id (concat (map (children t document_id) frontier))"

definition revoke_subtree :: "tables \<Rightarrow> document_id \<Rightarrow> capability_id \<Rightarrow> tables" where
  "revoke_subtree t document_id target =
    (let ids = subtree MAX_CAPABILITY_DEPTH t document_id [target] in
     t\<lparr> capabilities := map (\<lambda>((d, c), row).
         ((d, c), if d = document_id \<and> c \<in> set ids then row\<lparr> cr_state := 1 \<rparr> else row))
       (capabilities t) \<rparr>)"

definition store_revoke_capability ::
  "(bytes \<Rightarrow> key32) \<Rightarrow> tables \<Rightarrow> document_id \<Rightarrow> capability_id \<Rightarrow> authenticator \<Rightarrow> request_id
    \<Rightarrow> capability_id \<Rightarrow> store_error + store_control_outcome \<times> tables" where
  "store_revoke_capability sha t document_id issuer authenticator request_id target =
    (let input = be_encode target in
     case resolve_control_receipt sha t document_id issuer authenticator request_id 1 input of
       Some outcome \<Rightarrow> Inr (outcome, t)
     | None \<Rightarrow>
       if \<not> authorize sha t document_id issuer authenticator Revoke
       then Inr (StAuthorizationDenied, t)
       else case next_control_revision t document_id of
         None \<Rightarrow> Inr (StCounterExhausted, t)
       | Some revision \<Rightarrow>
         if \<not> store_is_active_descendant t document_id issuer target
         then Inr (StAuthorizationDenied, t)
         else if control_limits_exceeded t document_id None False 0 (length input)
         then Inr (StLimitExceeded, t)
         else
           ok_then (insert_control_receipt document_id issuer request_id 1 input
               (revoke_subtree t document_id target)) (\<lambda>t.
           ok_then (set_control_revision document_id revision t) (\<lambda>t.
           Inr (StInserted, t))))"

end
