(* ===== verification/Ancestry.thy ===== *)
theory Ancestry
  imports Prelude
begin

text \<open>
  Parent chains, the specification behind every bounded ancestry loop of the reference model and
  of the store.  A parent function answers \<open>None\<close> for an unknown node, \<open>Some None\<close> for a
  root and \<open>Some (Some p)\<close> for a node with parent \<open>p\<close>; \<open>chain par c cs\<close> says that \<open>cs\<close> is
  the path from \<open>c\<close> up to a root.
\<close>

inductive chain :: "('k \<Rightarrow> 'k option option) \<Rightarrow> 'k \<Rightarrow> 'k list \<Rightarrow> bool" for par where
  chain_root: "par c = Some None \<Longrightarrow> chain par c [c]"
| chain_step: "par c = Some (Some p) \<Longrightarrow> chain par p cs \<Longrightarrow> chain par c (c # cs)"

inductive_simps chain_Nil [simp]: "chain par c []"
inductive_simps chain_Cons: "chain par c (d # cs)"
inductive_cases chainE: "chain par c cs"

definition descends :: "('k \<Rightarrow> 'k option option) \<Rightarrow> 'k \<Rightarrow> 'k \<Rightarrow> bool" where
  "descends par a c \<longleftrightarrow> (\<exists>cs. chain par c cs \<and> a \<in> set cs)"

lemma chain_known: "chain par c cs \<Longrightarrow> par c \<noteq> None"
  by (auto elim: chainE)

lemma chain_self: "chain par c cs \<Longrightarrow> c \<in> set cs"
  by (auto elim: chainE)

lemma chain_unique: "chain par c cs \<Longrightarrow> chain par c ds \<Longrightarrow> cs = ds"
proof (induction arbitrary: ds rule: chain.induct)
  case (chain_root c)
  then show ?case by (auto elim: chainE)
next
  case (chain_step c p cs)
  from chain_step.prems chain_step.hyps(1) obtain es where "ds = c # es" "chain par p es"
    by (auto elim: chainE)
  with chain_step.IH show ?case by simp
qed

lemma chain_suffix: "chain par c cs \<Longrightarrow> a \<in> set cs \<Longrightarrow> \<exists>pre as. cs = pre @ as \<and> chain par a as"
proof (induction rule: chain.induct)
  case (chain_root c)
  then have "[c] = [] @ [c] \<and> chain par a [c]" by (auto intro: chain.intros)
  then show ?case by blast
next
  case (chain_step c p cs)
  show ?case
  proof (cases "a = c")
    case True
    have "c # cs = [] @ (c # cs) \<and> chain par a (c # cs)"
      using chain_step.hyps True by (auto intro: chain.intros)
    then show ?thesis by blast
  next
    case False
    with chain_step obtain pre as where "cs = pre @ as" "chain par a as" by auto
    then have "c # cs = (c # pre) @ as \<and> chain par a as" by simp
    then show ?thesis by blast
  qed
qed

lemma chain_distinct: "chain par c cs \<Longrightarrow> distinct cs"
proof (induction rule: chain.induct)
  case (chain_step c p cs)
  have "c \<notin> set cs"
  proof
    assume "c \<in> set cs"
    then obtain pre as where as: "cs = pre @ as" "chain par c as"
      using chain_suffix [OF chain_step.hyps(2)] by blast
    have "chain par c (c # cs)"
      using chain_step.hyps by (rule chain.chain_step)
    from chain_unique [OF this as(2)] as(1) show False
      by (metis append_Cons append_eq_append_conv length_Cons length_append less_add_Suc2 nat_neq_iff
          not_add_less2 self_append_conv2 append_Nil add_Suc_right less_irrefl_nat)
  qed
  with chain_step.IH show ?case by simp
qed simp

lemma chain_known_all: "chain par c cs \<Longrightarrow> a \<in> set cs \<Longrightarrow> par a \<noteq> None"
  using chain_suffix chain_known by metis

lemma descends_refl: "chain par c cs \<Longrightarrow> descends par c c"
  by (auto simp add: descends_def dest: chain_self)

lemma descends_iff: "chain par c cs \<Longrightarrow> descends par a c \<longleftrightarrow> a \<in> set cs"
  by (auto simp add: descends_def dest: chain_unique)

lemma descends_trans: "descends par a b \<Longrightarrow> descends par b c \<Longrightarrow> descends par a c"
proof -
  assume ab: "descends par a b" and bc: "descends par b c"
  then obtain cs where cs: "chain par c cs" "b \<in> set cs" by (auto simp add: descends_def)
  then obtain pre bs where bs: "cs = pre @ bs" "chain par b bs" using chain_suffix by metis
  with ab have "a \<in> set bs" by (simp add: descends_iff)
  with cs(1) bs(1) show ?thesis by (auto simp add: descends_def)
qed

lemma descends_antisym:
  assumes "descends par a b" "descends par b a"
  shows "a = b"
proof -
  obtain bs where bs: "chain par b bs" "a \<in> set bs" using assms(1) by (auto simp add: descends_def)
  then obtain pre as where as: "bs = pre @ as" "chain par a as" using chain_suffix by metis
  with assms(2) have "b \<in> set as" by (simp add: descends_iff)
  with as(2) obtain pre' bs' where "as = pre' @ bs'" "chain par b bs'" using chain_suffix by metis
  with bs(1) as have "length bs = length bs'" by (auto dest: chain_unique)
  with as \<open>as = pre' @ bs'\<close> have "pre = []" by auto
  with as bs(1) have "chain par b bs" "chain par a bs" by simp_all
  then show ?thesis by (metis chain.cases list.inject)
qed

lemma chain_step_iff:
  assumes "par c = Some (Some p)"
  shows "chain par c cs \<longleftrightarrow> (\<exists>ds. cs = c # ds \<and> chain par p ds)"
proof
  assume "chain par c cs"
  then show "\<exists>ds. cs = c # ds \<and> chain par p ds"
    by (rule chainE) (use assms in simp_all)
next
  assume "\<exists>ds. cs = c # ds \<and> chain par p ds"
  then show "chain par c cs" using chain_step [of par c p] assms by blast
qed

lemma chain_root_iff: "par c = Some None \<Longrightarrow> chain par c cs \<longleftrightarrow> cs = [c]"
  by (metis chain.cases chain_root option.distinct(1) option.inject)

lemma descends_step_iff:
  assumes "par c = Some (Some p)"
  shows "descends par a c \<longleftrightarrow> (a = c \<and> descends par c c) \<or> descends par a p"
  unfolding descends_def chain_step_iff [of par c p, OF assms] by auto

lemma descends_parent: "par c = Some (Some p) \<Longrightarrow> descends par a p \<Longrightarrow> descends par a c"
  using descends_step_iff by metis

text \<open>Chains survive any change outside them: a fresh leaf, or a change of other fields.\<close>

lemma chain_transfer:
  "chain par c cs \<Longrightarrow> (\<And>x. x \<in> set cs \<Longrightarrow> par' x = par x) \<Longrightarrow> chain par' c cs"
proof (induction rule: chain.induct)
  case (chain_root c)
  then have "par' c = Some None" by simp
  then show ?case by (rule chain.chain_root)
next
  case (chain_step c p cs)
  then have "par' c = Some (Some p)" "chain par' p cs" by simp_all
  then show ?case by (rule chain.chain_step)
qed

lemma chain_extend:
  "chain par c cs \<Longrightarrow> (\<And>x. par x \<noteq> None \<Longrightarrow> par' x = par x) \<Longrightarrow> chain par' c cs"
proof (rule chain_transfer)
  fix x
  assume "chain par c cs" "\<And>x. par x \<noteq> None \<Longrightarrow> par' x = par x" "x \<in> set cs"
  then show "par' x = par x" using chain_known_all [of par c cs x] by blast
qed

text \<open>
  The interface of a store of capabilities: in every good state each known node has a chain to
  a root no longer than the bound.
\<close>

locale rooted_forest =
  fixes par :: "'s \<Rightarrow> 'k \<Rightarrow> 'k option option"
    and good :: "'s \<Rightarrow> bool"
    and bound :: nat
  assumes rooted: "good s \<Longrightarrow> par s c \<noteq> None \<Longrightarrow> \<exists>cs. chain (par s) c cs \<and> length cs \<le> bound"
begin

lemma obtain_chain:
  assumes "good s" "par s c \<noteq> None"
  obtains cs where "chain (par s) c cs" "length cs \<le> bound" "distinct cs"
proof -
  obtain cs where "chain (par s) c cs" "length cs \<le> bound"
    using rooted [of s c, OF assms] by blast
  then show thesis using that chain_distinct [of "par s" c cs] by blast
qed

lemma descends_self_iff: "good s \<Longrightarrow> descends (par s) c c \<longleftrightarrow> par s c \<noteq> None"
proof
  assume "descends (par s) c c"
  then obtain cs where "chain (par s) c cs" unfolding descends_def by blast
  then show "par s c \<noteq> None" by (rule chain_known)
next
  assume "good s" and "par s c \<noteq> None"
  then obtain cs where "chain (par s) c cs" using rooted [of s c] by blast
  then show "descends (par s) c c" by (rule descends_refl)
qed

lemma no_self_parent: "good s \<Longrightarrow> par s c \<noteq> Some (Some c)"
proof
  assume g: "good s" and p: "par s c = Some (Some c)"
  then have "par s c \<noteq> None" by simp
  with g obtain cs where cs: "chain (par s) c cs" using rooted [of s c] by blast
  with chain_step_iff [of "par s" c c, OF p] obtain ds where "cs = c # ds" "chain (par s) c ds" by blast
  with cs show False using chain_unique [of "par s" c cs ds] by simp
qed

lemma step_iff:
  "good s \<Longrightarrow> par s c = Some (Some p) \<Longrightarrow> descends (par s) a c \<longleftrightarrow> a = c \<or> descends (par s) a p"
  using descends_step_iff [of "par s" c p a] descends_self_iff [of s c] by auto

end

end
