(* ===== verification/Store_Invariant.thy ===== *)
theory Store_Invariant
  imports Store_Control Ancestry
begin

text \<open>
  The invariant of the control tables and what the bounded loops of the store mean under
  it: authorization, descent, descendant capacity and the recursive revoke query.
\<close>

section \<open>Views of the tables\<close>

definition par_of :: "tables \<Rightarrow> document_id \<Rightarrow> capability_id \<Rightarrow> capability_id option option" where
  "par_of t d c = map_option cr_parent (om_get (capabilities t) (d, c))"

definition ops_in :: "tables \<Rightarrow> document_id \<Rightarrow> capability_id \<Rightarrow> operation set" where
  "ops_in t d c = {op. om_contains (capability_operations t) (d, c, operation_code op)}"

definition active :: "tables \<Rightarrow> document_id \<Rightarrow> capability_id \<Rightarrow> bool" where
  "active t d c \<longleftrightarrow> (\<exists>row. om_get (capabilities t) (d, c) = Some row \<and> cr_state row = 0)"

definition caps_in :: "tables \<Rightarrow> document_id \<Rightarrow> nat" where
  "caps_in t d = count_where (\<lambda>(d', _) _. d' = d) (capabilities t)"

definition receipts_in :: "tables \<Rightarrow> document_id \<Rightarrow> nat" where
  "receipts_in t d = count_where (\<lambda>(d', _, _) _. d' = d) (control_receipts t)"

section \<open>The invariant\<close>

definition sorted_ok :: "tables \<Rightarrow> bool" where
  "sorted_ok t \<longleftrightarrow> om_invar (create_authorities t) \<and> om_invar (documents t)
    \<and> om_invar (capabilities t) \<and> om_invar (capability_operations t)
    \<and> om_invar (control_receipts t) \<and> om_invar (create_receipts t)"

definition row_doc_ok :: "document_row \<Rightarrow> capability_id \<Rightarrow> operation set \<Rightarrow> capability_row \<Rightarrow> bool" where
  "row_doc_ok doc c ops row \<longleftrightarrow> (cr_root row \<longleftrightarrow> c = dr_root_capability_id doc)
    \<and> (cr_parent row = None \<longleftrightarrow> cr_root row)
    \<and> 1 \<le> cr_created_revision row \<and> cr_created_revision row \<le> dr_control_revision doc
    \<and> (cr_root row \<longrightarrow> cr_created_revision row = 1 \<and> ops = UNIV)
    \<and> (cr_state row = 0 \<or> cr_state row = 1) \<and> ops \<noteq> {}"

definition cap_row_ok :: "tables \<Rightarrow> document_id \<Rightarrow> capability_id \<Rightarrow> capability_row \<Rightarrow> bool" where
  "cap_row_ok t d c row \<longleftrightarrow>
    (\<exists>doc. om_get (documents t) d = Some doc \<and> row_doc_ok doc c (ops_in t d c) row)
    \<and> (\<forall>p. cr_parent row = Some p \<longrightarrow> (\<exists>prow. om_get (capabilities t) (d, p) = Some prow
        \<and> cr_created_revision prow < cr_created_revision row
        \<and> ops_in t d c \<subseteq> ops_in t d p
        \<and> (cr_state row = 0 \<longrightarrow> cr_state prow = 0)))"

definition caps_ok :: "tables \<Rightarrow> bool" where
  "caps_ok t \<longleftrightarrow> (\<forall>d c row. om_get (capabilities t) (d, c) = Some row \<longrightarrow> cap_row_ok t d c row)"

definition depth_ok :: "tables \<Rightarrow> bool" where
  "depth_ok t \<longleftrightarrow> (\<forall>d c. par_of t d c \<noteq> None \<longrightarrow>
    (\<exists>cs. chain (par_of t d) c cs \<and> length cs \<le> MAX_CAPABILITY_DEPTH))"

definition docs_ok :: "tables \<Rightarrow> bool" where
  "docs_ok t \<longleftrightarrow> (\<forall>d doc. om_get (documents t) d = Some doc \<longrightarrow>
    (dr_state doc = 0 \<or> dr_state doc = 1)
    \<and> om_contains (capabilities t) (d, dr_root_capability_id doc)
    \<and> unat (dr_control_revision doc) = 1 + receipts_in t d)"

definition op_rows_ok :: "tables \<Rightarrow> bool" where
  "op_rows_ok t \<longleftrightarrow> (\<forall>d c code. om_contains (capability_operations t) (d, c, code) \<longrightarrow>
    om_contains (capabilities t) (d, c) \<and> operation_from_code code \<noteq> None)"

definition grant_receipt_ok ::
  "tables \<Rightarrow> document_id \<Rightarrow> capability_id \<Rightarrow> control_receipt_row \<Rightarrow> bool" where
  "grant_receipt_ok t d issuer row \<longleftrightarrow> rr_operation row = 0 \<and>
    (\<exists>c crow ops. om_get (capabilities t) (d, c) = Some crow \<and> cr_parent crow = Some issuer
      \<and> canonical_ops ops \<and> ops_of ops = ops_in t d c
      \<and> rr_normalized_input row = grant_normalized_input c
          \<lparr> vp_live = cr_live_verifier crow, vp_receipt = cr_receipt_verifier crow \<rparr> ops)"

definition revoke_receipt_ok :: "tables \<Rightarrow> document_id \<Rightarrow> control_receipt_row \<Rightarrow> bool" where
  "revoke_receipt_ok t d row \<longleftrightarrow> rr_operation row = 1 \<and>
    (\<exists>c crow. om_get (capabilities t) (d, c) = Some crow \<and> cr_state crow = 1
      \<and> rr_normalized_input row = be_encode c)"

definition receipts_ok :: "tables \<Rightarrow> bool" where
  "receipts_ok t \<longleftrightarrow> (\<forall>d i r row. om_get (control_receipts t) (d, i, r) = Some row \<longrightarrow>
    om_contains (documents t) d \<and> om_contains (capabilities t) (d, i)
    \<and> (grant_receipt_ok t d i row \<or> revoke_receipt_ok t d row))"

definition counts_ok :: "tables \<Rightarrow> bool" where
  "counts_ok t \<longleftrightarrow>
    (\<forall>d. caps_in t d \<le> MAX_CAPABILITIES_PER_DOCUMENT
      \<and> receipts_in t d \<le> MAX_CONTROL_RECEIPTS_PER_DOCUMENT)
    \<and> (\<forall>d p. direct_children t d p \<le> MAX_DIRECT_CAPABILITY_CHILDREN)
    \<and> count_where (\<lambda>_ _. True) (capabilities t) \<le> MAX_GLOBAL_CAPABILITIES
    \<and> count_where (\<lambda>_ _. True) (control_receipts t) \<le> MAX_GLOBAL_CONTROL_RECEIPTS"

definition create_rows_ok :: "tables \<Rightarrow> bool" where
  "create_rows_ok t \<longleftrightarrow>
    (\<forall>a r row. om_get (create_receipts t) (a, r) = Some row \<longrightarrow>
      om_contains (create_authorities t) a
      \<and> (\<exists>crow. om_get (capabilities t) (cc_document_id row, cc_root_capability_id row) = Some crow
          \<and> cr_root crow
          \<and> cc_normalized_input row = create_normalized_input (cc_document_id row)
              (cc_root_capability_id row)
              \<lparr> vp_live = cr_live_verifier crow, vp_receipt = cr_receipt_verifier crow \<rparr>))
    \<and> (\<forall>a. count_where (\<lambda>(a', _) _. a' = a) (create_receipts t) \<le> MAX_DOCUMENTS_PER_CREATE_AUTHORITY)
    \<and> count_where (\<lambda>_ _. True) (documents t) = count_where (\<lambda>_ _. True) (create_receipts t)
    \<and> count_where (\<lambda>_ _. True) (documents t) \<le> MAX_GLOBAL_DOCUMENTS"

definition control_ok :: "tables \<Rightarrow> bool" where
  "control_ok t \<longleftrightarrow> sorted_ok t \<and> caps_ok t \<and> depth_ok t \<and> docs_ok t \<and> op_rows_ok t
    \<and> receipts_ok t \<and> counts_ok t \<and> create_rows_ok t"

lemma control_okD:
  assumes "control_ok t"
  shows "sorted_ok t" "caps_ok t" "depth_ok t" "docs_ok t" "op_rows_ok t" "receipts_ok t"
    "counts_ok t" "create_rows_ok t"
  using assms by (simp_all add: control_ok_def)

interpretation capability_forest: rooted_forest "\<lambda>(t, d). par_of t d" "\<lambda>(t, d). control_ok t"
    MAX_CAPABILITY_DEPTH
  by unfold_locales (auto dest!: control_okD(3) simp add: depth_ok_def)

lemma par_of_Some_iff: "par_of t d c = Some q \<longleftrightarrow>
    (\<exists>row. om_get (capabilities t) (d, c) = Some row \<and> cr_parent row = q)"
  by (auto simp add: par_of_def)

lemma par_of_None_iff: "par_of t d c = None \<longleftrightarrow> om_get (capabilities t) (d, c) = None"
  by (simp add: par_of_def)

lemma obtain_cap_chain:
  assumes "control_ok t" "om_get (capabilities t) (d, c) = Some row"
  obtains cs where "chain (par_of t d) c cs" "length cs \<le> MAX_CAPABILITY_DEPTH"
proof -
  have "par_of t d c \<noteq> None" using assms(2) by (simp add: par_of_def)
  then show thesis using control_okD(3) [OF assms(1)] that unfolding depth_ok_def by blast
qed

section \<open>Operation codes\<close>

interpretation operation_codes: code_table operation_code operation_from_code
proof unfold_locales
  show "operation_from_code (operation_code op) = Some op" for op
    by (cases op) (simp_all add: operation_from_code_def)
qed (auto simp add: operation_from_code_def split: if_splits)

lemma all_operations_complete: "op \<in> set all_operations" "distinct all_operations"
  by (cases op) (simp_all add: all_operations_def)

lemma fold_operation_codes_ok:
  assumes "\<forall>code \<in> set codes. operation_from_code code \<noteq> None" "canonical_ops ops"
  shows "\<exists>s. fold_operation_codes codes ops = Inr s \<and> canonical_ops s
    \<and> ops_of s = ops_of ops \<union> {op. operation_code op \<in> set codes}"
  using assms
proof (induction codes arbitrary: ops)
  case Nil
  then show ?case by simp
next
  case (Cons code codes)
  then obtain op where op: "operation_from_code code = Some op" by auto
  have can: "canonical_ops (ops_union ops (one op))"
    using Cons.prems(2) canonical_one [of op]
    by (auto simp add: canonical_ops_iff ops_union_def bit_simps)
  obtain s where s: "fold_operation_codes codes (ops_union ops (one op)) = Inr s" "canonical_ops s"
    "ops_of s = ops_of (ops_union ops (one op)) \<union> {op. operation_code op \<in> set codes}"
    using Cons.IH [OF _ can] Cons.prems(1) by auto
  have "operation_code x = code \<longleftrightarrow> x = op" for x
    using op operation_codes.from_code_iff operation_codes.code_inj by metis
  then have "ops_of s = ops_of ops \<union> {op. operation_code op \<in> set (code # codes)}"
    using s(3) by (auto simp add: ops_of_union ops_of_one)
  with s(1,2) op show ?case by simp
qed

lemma load_operation_set_ok:
  assumes "op_rows_ok t"
  shows "\<exists>s. load_operation_set t d c = Inr s \<and> canonical_ops s \<and> ops_of s = ops_in t d c"
proof -
  define codes where "codes = map (\<lambda>((_, _, code), _). code)
    (om_range (\<lambda>(d', c', _). d' = d \<and> c' = c) (capability_operations t))"
  have codes: "code \<in> set codes \<longleftrightarrow> om_contains (capability_operations t) (d, c, code)" for code
    unfolding om_contains_iff codes_def by (force simp add: om_range_def)
  then have ok: "\<forall>code \<in> set codes. operation_from_code code \<noteq> None"
    using assms by (auto simp add: op_rows_ok_def)
  have e: "canonical_ops EMPTY_OPS" "ops_of EMPTY_OPS = {}"
    by (simp_all add: EMPTY_OPS_def canonical_ops_iff ops_of_zero)
  from fold_operation_codes_ok [OF ok e(1)] obtain s where
    s: "fold_operation_codes codes EMPTY_OPS = Inr s" "canonical_ops s"
    "ops_of s = {op. operation_code op \<in> set codes}"
    unfolding e(2) by auto
  moreover have "{op. operation_code op \<in> set codes} = ops_in t d c"
    unfolding ops_in_def codes ..
  ultimately show ?thesis by (auto simp add: load_operation_set_def codes_def)
qed


section \<open>Authorization\<close>

lemma caps_okD:
  "control_ok t \<Longrightarrow> om_get (capabilities t) (d, c) = Some row \<Longrightarrow> cap_row_ok t d c row"
  using control_okD(2) by (auto simp add: caps_ok_def)

lemma active_known: "active t d c \<Longrightarrow> par_of t d c \<noteq> None"
  by (auto simp add: active_def par_of_def)

lemma active_parent:
  assumes "control_ok t" "active t d c" "par_of t d c = Some (Some p)"
  shows "active t d p"
proof -
  obtain row where row: "om_get (capabilities t) (d, c) = Some row" "cr_parent row = Some p"
    using assms(3) by (auto simp add: par_of_def)
  with assms(2) have "cr_state row = 0" by (simp add: active_def)
  with caps_okD [OF assms(1) row(1)] row(2) show ?thesis
    by (auto simp add: cap_row_ok_def active_def)
qed

lemma active_chain:
  assumes "control_ok t" "chain (par_of t d) c cs" "active t d c"
  shows "\<forall>x \<in> set cs. active t d x"
  using assms(2,3)
proof (induction rule: chain.induct)
  case (chain_step c p cs)
  with active_parent [OF assms(1) chain_step.prems chain_step.hyps(1)] show ?case by simp
qed simp

definition doc_authorization :: "tables \<Rightarrow> document_id \<Rightarrow> document_authorization" where
  "doc_authorization t d =
    (case om_get (documents t) d of
       None \<Rightarrow> Denied
     | Some document \<Rightarrow>
         if dr_state document = 0 then Authorized
         else if dr_state document = 1 then Retired else Denied)"

lemma authorize_loop_chain:
  assumes "chain (par_of t d) c cs" "length cs \<le> n" "\<forall>x \<in> set cs. active t d x" "0 < depth"
  shows "authorize_loop sha t d presented a op n depth c = doc_authorization t d"
  using assms
proof (induction arbitrary: n depth rule: chain.induct)
  case (chain_root c)
  then obtain row m where "om_get (capabilities t) (d, c) = Some row" "cr_parent row = None"
    "cr_state row = 0" "n = Suc m"
    by (cases n) (auto simp add: par_of_def active_def)
  with chain_root.prems show ?case by (simp add: doc_authorization_def)
next
  case (chain_step c p cs)
  then obtain row m where "om_get (capabilities t) (d, c) = Some row" "cr_parent row = Some p"
    "cr_state row = 0" "n = Suc m"
    by (cases n) (auto simp add: par_of_def active_def)
  with chain_step show ?case by simp
qed

definition holds :: "(bytes \<Rightarrow> key32) \<Rightarrow> tables \<Rightarrow> document_id \<Rightarrow> capability_id \<Rightarrow> authenticator
    \<Rightarrow> operation \<Rightarrow> bool" where
  "holds sha t d c a op \<longleftrightarrow> (\<exists>row. om_get (capabilities t) (d, c) = Some row \<and> cr_state row = 0
    \<and> cr_live_verifier row = vp_live (derive sha d c a) \<and> op \<in> ops_in t d c)"

lemma depth_Suc: "MAX_CAPABILITY_DEPTH = Suc 63"
  by (simp add: MAX_CAPABILITY_DEPTH_def)

lemma authorize_document_spec:
  assumes "control_ok t"
  shows "authorize_document sha t d c a op =
    (if holds sha t d c a op then doc_authorization t d else Denied)"
proof (cases "om_get (capabilities t) (d, c)")
  case None
  then show ?thesis
    unfolding authorize_document_def depth_Suc authorize_loop.simps by (simp add: holds_def)
next
  case (Some row)
  obtain cs where cs: "chain (par_of t d) c cs" "length cs \<le> MAX_CAPABILITY_DEPTH"
    using obtain_cap_chain [OF assms Some] .
  have h: "holds sha t d c a op \<longleftrightarrow> cr_state row = 0
      \<and> verify_live sha (cr_live_verifier row) d c a
      \<and> om_contains (capability_operations t) (d, c, operation_code op)"
    using Some sha_verifier.live_ok_iff [of sha "cr_live_verifier row" d c a]
    by (simp add: holds_def ops_in_def)
  have step: "authorize_document sha t d c a op =
    (if \<not> holds sha t d c a op then Denied else
      (case cr_parent row of None \<Rightarrow> doc_authorization t d
       | Some p \<Rightarrow> authorize_loop sha t d c a op 63 1 p))"
    using Some unfolding authorize_document_def h depth_Suc authorize_loop.simps
    by (auto simp add: doc_authorization_def split: option.split)
  show ?thesis
  proof (cases "holds sha t d c a op \<and> cr_parent row \<noteq> None")
    case False
    then show ?thesis using step by auto
  next
    case True
    then obtain p where p: "cr_parent row = Some p" by blast
    then have par: "par_of t d c = Some (Some p)" using Some by (simp add: par_of_def)
    then obtain ds where ds: "cs = c # ds" "chain (par_of t d) p ds"
      using chain_step_iff [of "par_of t d" c p] cs(1) by blast
    have "active t d c" using True Some by (auto simp add: holds_def active_def)
    then have "\<forall>x \<in> set ds. active t d x"
      using active_chain [OF assms cs(1)] ds(1) by simp
    moreover have "length ds \<le> 63" using cs(2) ds(1) by (simp add: MAX_CAPABILITY_DEPTH_def)
    ultimately have "authorize_loop sha t d c a op 63 1 p = doc_authorization t d"
      using authorize_loop_chain [OF ds(2)] by simp
    with True step p show ?thesis by simp
  qed
qed

lemma authorize_spec:
  "control_ok t \<Longrightarrow> authorize sha t d c a op \<longleftrightarrow>
    holds sha t d c a op \<and> doc_authorization t d = Authorized"
  by (auto simp add: authorize_def authorize_document_spec)

lemma next_control_revision_authorized:
  assumes "doc_authorization t d = Authorized"
  shows "\<exists>doc. om_get (documents t) d = Some doc \<and> dr_state doc = 0"
  using assms by (auto simp add: doc_authorization_def split: option.splits if_splits)

section \<open>Descent\<close>

lemma active_descendant_loop_chain:
  assumes "chain (par_of t d) c cs" "length cs \<le> n" "\<forall>x \<in> set cs. active t d x"
  shows "active_descendant_loop t d i n c \<longleftrightarrow> i \<in> set cs"
  using assms
proof (induction arbitrary: n rule: chain.induct)
  case (chain_root c)
  then obtain row m where "om_get (capabilities t) (d, c) = Some row" "cr_parent row = None"
    "cr_state row = 0" "n = Suc m"
    by (cases n) (auto simp add: par_of_def active_def)
  then show ?case by auto
next
  case (chain_step c p cs)
  then obtain row m where "om_get (capabilities t) (d, c) = Some row" "cr_parent row = Some p"
    "cr_state row = 0" "n = Suc m"
    by (cases n) (auto simp add: par_of_def active_def)
  with chain_step show ?case by auto
qed

lemma store_is_active_descendant_spec:
  assumes "control_ok t"
  shows "store_is_active_descendant t d i c \<longleftrightarrow> active t d c \<and> descends (par_of t d) i c"
proof (cases "active t d c")
  case True
  then obtain row where row: "om_get (capabilities t) (d, c) = Some row"
    by (auto simp add: active_def)
  obtain cs where cs: "chain (par_of t d) c cs" "length cs \<le> MAX_CAPABILITY_DEPTH"
    using obtain_cap_chain [OF assms row] .
  show ?thesis
    using active_descendant_loop_chain [OF cs active_chain [OF assms cs(1) True]] True
      descends_iff [OF cs(1)] by (simp add: store_is_active_descendant_def)
next
  case False
  then show ?thesis
    unfolding store_is_active_descendant_def depth_Suc active_descendant_loop.simps
    by (auto simp add: active_def split: option.split)
qed

lemma descendant_or_self_loop_chain:
  assumes "chain (par_of t d) c cs" "length cs \<le> n"
  shows "descendant_or_self_loop t d a n c \<longleftrightarrow> a \<in> set cs"
  using assms
proof (induction arbitrary: n rule: chain.induct)
  case (chain_root c)
  then obtain row m where "om_get (capabilities t) (d, c) = Some row" "cr_parent row = None"
    "n = Suc m"
    by (cases n) (auto simp add: par_of_def)
  then show ?case by auto
next
  case (chain_step c p cs)
  then obtain row m where "om_get (capabilities t) (d, c) = Some row" "cr_parent row = Some p"
    "n = Suc m"
    by (cases n) (auto simp add: par_of_def)
  with chain_step show ?case by auto
qed

lemma is_descendant_or_self_spec:
  assumes "control_ok t" "par_of t d c \<noteq> None"
  shows "is_descendant_or_self t d a c \<longleftrightarrow> descends (par_of t d) a c"
proof -
  obtain row where "om_get (capabilities t) (d, c) = Some row"
    using assms(2) by (auto simp add: par_of_def)
  then obtain cs where cs: "chain (par_of t d) c cs" "length cs \<le> MAX_CAPABILITY_DEPTH"
    using obtain_cap_chain [OF assms(1)] by blast
  then show ?thesis
    using descendant_or_self_loop_chain [OF cs] descends_iff [OF cs(1)]
    by (simp add: is_descendant_or_self_def)
qed

lemma store_capacity_loop_chain:
  assumes "chain (par_of t d) c cs" "length cs \<le> n"
  shows "store_capacity_loop t d n k c \<longleftrightarrow> k + length cs < Suc MAX_CAPABILITY_DEPTH"
  using assms
proof (induction arbitrary: n k rule: chain.induct)
  case (chain_root c)
  then obtain row m where "om_get (capabilities t) (d, c) = Some row" "cr_parent row = None"
    "n = Suc m"
    by (cases n) (auto simp add: par_of_def)
  then show ?case by simp
next
  case (chain_step c p cs)
  then obtain row m where "om_get (capabilities t) (d, c) = Some row" "cr_parent row = Some p"
    "n = Suc m"
    by (cases n) (auto simp add: par_of_def)
  with chain_step show ?case by simp
qed

lemma capacity_spec:
  assumes "chain (par_of t d) c cs" "length cs \<le> MAX_CAPABILITY_DEPTH"
  shows "store_issuer_has_descendant_capacity t d c \<longleftrightarrow> length cs < MAX_CAPABILITY_DEPTH"
  using store_capacity_loop_chain [OF assms, of 1]
  by (auto simp add: store_issuer_has_descendant_capacity_def)

section \<open>The recursive revoke query\<close>

definition parent_rel :: "tables \<Rightarrow> document_id \<Rightarrow> (capability_id \<times> capability_id) set" where
  "parent_rel t d = {(c, p). par_of t d c = Some (Some p)}"

lemma children_iff:
  assumes "om_invar (capabilities t)"
  shows "c \<in> set (children t d p) \<longleftrightarrow> (c, p) \<in> parent_rel t d"
proof -
  have "c \<in> set (children t d p) \<longleftrightarrow>
      (\<exists>row. ((d, c), row) \<in> set (capabilities t) \<and> cr_parent row = Some p)"
    by (force simp add: children_def)
  also have "\<dots> \<longleftrightarrow> (c, p) \<in> parent_rel t d"
    by (simp add: om.entries_get [OF assms] parent_rel_def par_of_Some_iff)
  finally show ?thesis .
qed

lemma subtree_iff:
  assumes "om_invar (capabilities t)"
  shows "c \<in> set (subtree n t d F) \<longleftrightarrow> (\<exists>k<n. \<exists>f \<in> set F. (c, f) \<in> parent_rel t d ^^ k)"
proof (induction n arbitrary: F)
  case 0
  then show ?case by simp
next
  case (Suc n)
  let ?G = "concat (map (children t d) F)"
  have G: "g \<in> set ?G \<longleftrightarrow> (\<exists>f \<in> set F. (g, f) \<in> parent_rel t d)" for g
    using children_iff [OF assms] by auto
  have "(\<exists>k<n. \<exists>g \<in> set ?G. (c, g) \<in> parent_rel t d ^^ k) \<longleftrightarrow>
      (\<exists>k<n. \<exists>f \<in> set F. (c, f) \<in> parent_rel t d ^^ Suc k)"
    (is "?lhs \<longleftrightarrow> ?rhs")
  proof -
    have "?lhs \<longleftrightarrow> (\<exists>k<n. \<exists>g. g \<in> set ?G \<and> (c, g) \<in> parent_rel t d ^^ k)" by blast
    also have "\<dots> \<longleftrightarrow> (\<exists>k<n. \<exists>g. (\<exists>f \<in> set F. (g, f) \<in> parent_rel t d) \<and> (c, g) \<in> parent_rel t d ^^ k)"
      unfolding G ..
    also have "\<dots> \<longleftrightarrow> ?rhs" by (simp add: relcomp_unfold) blast
    finally show ?thesis .
  qed
  then have "c \<in> set (subtree (Suc n) t d F) \<longleftrightarrow>
      c \<in> set F \<or> (\<exists>k<n. \<exists>f \<in> set F. (c, f) \<in> parent_rel t d ^^ Suc k)"
    using Suc.IH [of ?G] by simp
  also have "\<dots> \<longleftrightarrow> (\<exists>k<Suc n. \<exists>f \<in> set F. (c, f) \<in> parent_rel t d ^^ k)"
    by (auto simp add: less_Suc_eq_0_disj simp del: relpow.simps(2))
  finally show ?case .
qed

lemma chain_nth_rel:
  "chain (par_of t d) c cs \<Longrightarrow> k < length cs \<Longrightarrow> (c, cs ! k) \<in> parent_rel t d ^^ k"
proof (induction arbitrary: k rule: chain.induct)
  case (chain_step c p cs)
  then show ?case
    by (cases k) (auto simp add: parent_rel_def intro: relpow_Suc_I2 simp del: relpow.simps(2))
qed simp

lemma rel_descends:
  "(c, a) \<in> parent_rel t d ^^ k \<Longrightarrow> descends (par_of t d) a a \<Longrightarrow> descends (par_of t d) a c"
proof (induction k arbitrary: c)
  case (Suc k)
  then obtain p where "(c, p) \<in> parent_rel t d" "(p, a) \<in> parent_rel t d ^^ k"
    by (meson relpow_Suc_D2)
  with Suc show ?case
    using descends_parent [of "par_of t d" c p a] by (simp add: parent_rel_def)
qed simp

text \<open>The fuel of the revoke query is enough: it reaches exactly the target's descendants.\<close>

lemma subtree_complete:
  assumes "control_ok t" "par_of t d target \<noteq> None"
  shows "c \<in> set (subtree MAX_CAPABILITY_DEPTH t d [target]) \<longleftrightarrow> descends (par_of t d) target c"
proof -
  have inv: "om_invar (capabilities t)"
    using control_okD(1) [OF assms(1)] by (simp add: sorted_ok_def)
  obtain ts where ts: "chain (par_of t d) target ts"
    using control_okD(3) [OF assms(1)] assms(2) by (auto simp add: depth_ok_def)
  show ?thesis
  proof
    assume "c \<in> set (subtree MAX_CAPABILITY_DEPTH t d [target])"
    then show "descends (par_of t d) target c"
      using subtree_iff [OF inv] rel_descends descends_refl [OF ts] by fastforce
  next
    assume "descends (par_of t d) target c"
    then obtain cs where cs: "chain (par_of t d) c cs" "target \<in> set cs"
      by (auto simp add: descends_def)
    have "par_of t d c \<noteq> None" using cs(1) by (rule chain_known)
    then obtain cs' where "chain (par_of t d) c cs'" "length cs' \<le> MAX_CAPABILITY_DEPTH"
      using control_okD(3) [OF assms(1)] unfolding depth_ok_def by blast
    then have len: "length cs \<le> MAX_CAPABILITY_DEPTH" using cs(1) chain_unique by metis
    from cs(2) obtain k where "k < length cs" "cs ! k = target" by (auto simp add: in_set_conv_nth)
    with chain_nth_rel [OF cs(1)] len show "c \<in> set (subtree MAX_CAPABILITY_DEPTH t d [target])"
      by (auto simp add: subtree_iff [OF inv] intro!: exI [of _ k])
  qed
qed

end
