(* ===== verification/Store_Safety.thy ===== *)
theory Store_Safety
  imports Store_Invariant
begin

text \<open>
  The control transactions keep \<open>control_ok\<close>, never raise a storage error from a good
  state, and change authority exactly as intended: a grant adds one attenuated capability,
  a revoke deactivates one subtree, every other outcome changes nothing.
\<close>

section \<open>Table updates\<close>

lemma om_contains_insert [simp]: "om_contains (om_insert k v m) k' \<longleftrightarrow> k' = k \<or> om_contains m k'"
  by (simp add: om_contains_def)

lemma om_contains_Some: "om_get m k = Some v \<Longrightarrow> om_contains m k"
  by (simp add: om_contains_def)

lemma om_insert_existing:
  assumes "om_invar m" "om_get m k = Some v"
  shows "om_insert k w m = map (\<lambda>(k', v'). (k', if k' = k then w else v')) m"
  using assms
proof (induction m)
  case (Cons e m)
  obtain k' v' where e: "e = (k', v')" by force
  have inv: "om_invar m" and lt: "\<And>x y. (x, y) \<in> set m \<Longrightarrow> k' < x"
    using Cons.prems(1) by (auto simp add: om_invar_def e)
  show ?case
  proof (cases "k = k'")
    case True
    have "x \<noteq> k" if "(x, y) \<in> set m" for x y
      using lt [OF that] True by simp
    then have "map (\<lambda>(x, v'). (x, if x = k then w else v')) m = m"
      by (auto intro!: map_idI)
    with True show ?thesis by (simp add: e)
  next
    case False
    then have g: "om_get m k = Some v" using Cons.prems(2) by (simp add: e om_get_def)
    then have "k' < k" using lt om_get_in by fastforce
    with False Cons.IH [OF inv g] show ?thesis by (auto simp add: e)
  qed
qed (simp add: om_get_def)

lemma count_where_update:
  assumes "om_invar m" "om_get m k = Some v" "P k w = P k v"
  shows "count_where P (om_insert k w m) = count_where P m"
proof -
  have "om_get m k' = Some v' \<Longrightarrow> P k' (if k' = k then w else v') = P k' v'" for k' v'
    using assms(2,3) by auto
  then have "(k', v') \<in> set m \<Longrightarrow> P k' (if k' = k then w else v') = P k' v'" for k' v'
    using om.entries_get [OF assms(1)] by blast
  then show ?thesis
    unfolding om_insert_existing [OF assms(1,2)]
    by (simp add: count_where_def filter_map comp_def split_def cong: filter_cong)
qed

lemma cap_row_ok_parent:
  "cap_row_ok t d c row \<Longrightarrow> cr_parent row = Some p \<Longrightarrow>
    \<exists>prow. om_get (capabilities t) (d, p) = Some prow
      \<and> cr_created_revision prow < cr_created_revision row \<and> ops_in t d c \<subseteq> ops_in t d p
      \<and> (cr_state row = 0 \<longrightarrow> cr_state prow = 0)"
  unfolding cap_row_ok_def by blast

section \<open>Adding a capability\<close>

lemma insert_operation_list_ok:
  assumes "om_contains (capabilities t) (d, c)" "distinct ops"
    and "\<And>op. \<not> om_contains (capability_operations t) (d, c, operation_code op) \<or> op \<notin> set ops"
  shows "\<exists>co. insert_operation_list d c s ops t = Inr (t\<lparr> capability_operations := co \<rparr>)
    \<and> (om_invar (capability_operations t) \<longrightarrow> om_invar co)
    \<and> (\<forall>k. om_contains co k \<longleftrightarrow> om_contains (capability_operations t) k
        \<or> (\<exists>op \<in> set ops. contains s op \<and> k = (d, c, operation_code op)))"
  using assms
proof (induction ops arbitrary: t)
  case Nil
  have "t = t\<lparr> capability_operations := capability_operations t \<rparr>" by simp
  then show ?case by (intro exI [of _ "capability_operations t"]) simp
next
  case (Cons op ops)
  show ?case
  proof (cases "contains s op")
    case False
    with Cons.IH [of t] Cons.prems show ?thesis by fastforce
  next
    case True
    let ?k = "(d, c, operation_code op)"
    let ?t = "t\<lparr> capability_operations := om_insert ?k () (capability_operations t) \<rparr>"
    have fresh: "om_get (capability_operations t) ?k = None"
      by (metis Cons.prems(3) om_contains_def list.set_intros(1))
    have "\<not> om_contains (capability_operations ?t) (d, c, operation_code op') \<or> op' \<notin> set ops" for op'
      using Cons.prems(2) Cons.prems(3) [of op'] by (auto dest: operation_codes.code_inj)
    then obtain co where co: "insert_operation_list d c s ops ?t = Inr (?t\<lparr> capability_operations := co \<rparr>)"
      "om_invar (capability_operations ?t) \<longrightarrow> om_invar co"
      "\<forall>k. om_contains co k \<longleftrightarrow> om_contains (capability_operations ?t) k
        \<or> (\<exists>op \<in> set ops. contains s op \<and> k = (d, c, operation_code op))"
      using Cons.IH [of ?t] Cons.prems(1,2) by auto
    have "insert_operation_list d c s (op # ops) t = Inr (t\<lparr> capability_operations := co \<rparr>)"
      using True fresh co(1) Cons.prems(1) by (simp add: sql_insert_def om_contains_def)
    with co(2,3) True show ?thesis by (intro exI [of _ co]) auto
  qed
qed

lemma insert_operations_ok:
  assumes "om_contains (capabilities t) (d, c)"
    and "\<And>op. \<not> om_contains (capability_operations t) (d, c, operation_code op)"
  shows "\<exists>co. insert_operations d c s t = Inr (t\<lparr> capability_operations := co \<rparr>)
    \<and> (om_invar (capability_operations t) \<longrightarrow> om_invar co)
    \<and> (\<forall>k. om_contains co k \<longleftrightarrow> om_contains (capability_operations t) k
        \<or> (\<exists>op. contains s op \<and> k = (d, c, operation_code op)))"
proof -
  have "set all_operations = UNIV" using all_operations_complete(1) by blast
  then show ?thesis
    using insert_operation_list_ok [OF assms(1) all_operations_complete(2), of s] assms(2)
    unfolding insert_operations_def by simp
qed

text \<open>
  \<open>adds_capability t t' d c row s\<close>: the capability tables of \<open>t'\<close> are those of \<open>t\<close> with one
  fresh capability and its operation rows.
\<close>

definition adds_capability ::
  "tables \<Rightarrow> tables \<Rightarrow> document_id \<Rightarrow> capability_id \<Rightarrow> capability_row \<Rightarrow> operation_set \<Rightarrow> bool" where
  "adds_capability t t' d c row s \<longleftrightarrow> om_get (capabilities t) (d, c) = None
    \<and> capabilities t' = om_insert (d, c) row (capabilities t)
    \<and> om_invar (capability_operations t')
    \<and> (\<forall>k. om_contains (capability_operations t') k \<longleftrightarrow> om_contains (capability_operations t) k
        \<or> (\<exists>op. contains s op \<and> k = (d, c, operation_code op)))"

lemma no_ops_unknown:
  assumes "control_ok t" "om_get (capabilities t) (d, c) = None"
  shows "\<not> om_contains (capability_operations t) (d, c, code)"
proof
  assume "om_contains (capability_operations t) (d, c, code)"
  then have "om_contains (capabilities t) (d, c)"
    using control_okD(5) [OF assms(1)] by (simp add: op_rows_ok_def)
  with assms(2) show False by (simp add: om_contains_def)
qed

lemma adds_capability_get:
  "adds_capability t t' d c row s \<Longrightarrow>
    om_get (capabilities t') (x, y) = (if (x, y) = (d, c) then Some row else om_get (capabilities t) (x, y))"
  by (simp add: adds_capability_def)

lemma adds_capability_ops_in:
  assumes "control_ok t" "adds_capability t t' d c row s"
  shows "ops_in t' x y = (if (x, y) = (d, c) then ops_of s else ops_in t x y)"
  using assms(2) no_ops_unknown [OF assms(1), of d c]
  by (auto simp add: adds_capability_def ops_in_def ops_of_def dest: operation_codes.code_inj)

lemma adds_capability_par_of:
  "adds_capability t t' d c row s \<Longrightarrow>
    par_of t' x y = (if (x, y) = (d, c) then Some (cr_parent row) else par_of t x y)"
  by (auto simp add: par_of_def adds_capability_get)

lemma adds_capability_counts:
  assumes "adds_capability t t' d c row s"
  shows "caps_in t' x = caps_in t x + (if x = d then 1 else 0)"
    and "count_where (\<lambda>_ _. True) (capabilities t') = count_where (\<lambda>_ _. True) (capabilities t) + 1"
    and "direct_children t' x p
      = direct_children t x p + (if x = d \<and> cr_parent row = Some p then 1 else 0)"
  using assms by (auto simp add: adds_capability_def caps_in_def direct_children_def count_where_insert)

lemma adds_capability_chain:
  assumes "adds_capability t t' d c row s" "chain (par_of t x) y cs"
  shows "chain (par_of t' x) y cs"
proof (rule chain_extend [OF assms(2)])
  fix z
  assume "par_of t x z \<noteq> None"
  then show "par_of t' x z = par_of t x z"
    using assms(1) adds_capability_par_of [OF assms(1)]
    by (auto simp add: adds_capability_def par_of_None_iff)
qed

lemma adds_capability_depth:
  assumes "control_ok t" "adds_capability t t' d c row s"
    and "\<exists>cs. chain (par_of t' d) c cs \<and> length cs \<le> MAX_CAPABILITY_DEPTH"
  shows "depth_ok t'"
  unfolding depth_ok_def
proof (intro allI impI)
  fix x y
  assume k: "par_of t' x y \<noteq> None"
  show "\<exists>cs. chain (par_of t' x) y cs \<and> length cs \<le> MAX_CAPABILITY_DEPTH"
  proof (cases "(x, y) = (d, c)")
    case True
    with assms(3) show ?thesis by simp
  next
    case False
    with k have "par_of t x y \<noteq> None" using adds_capability_par_of [OF assms(2), of x y] by auto
    then obtain cs where "chain (par_of t x) y cs" "length cs \<le> MAX_CAPABILITY_DEPTH"
      using control_okD(3) [OF assms(1)] unfolding depth_ok_def by blast
    then show ?thesis using adds_capability_chain [OF assms(2)] by blast
  qed
qed

lemma adds_capability_op_rows:
  assumes "control_ok t" "adds_capability t t' d c row s"
  shows "op_rows_ok t'"
  using control_okD(5) [OF assms(1)] assms(2)
  by (auto simp add: op_rows_ok_def adds_capability_def om_contains_def
      operation_codes.from_code_code)

text \<open>A row that was good stays good when documents keep their roots and revisions grow.\<close>

lemma row_doc_ok_mono:
  "row_doc_ok doc c ops row \<Longrightarrow> dr_root_capability_id doc' = dr_root_capability_id doc \<Longrightarrow>
    dr_control_revision doc \<le> dr_control_revision doc' \<Longrightarrow> row_doc_ok doc' c ops row"
  by (auto simp add: row_doc_ok_def)

lemma adds_capability_old_row:
  assumes "control_ok t" "adds_capability t t' d c row s"
    and "om_get (capabilities t) (x, y) = Some r"
    and "\<And>doc. om_get (documents t) x = Some doc \<Longrightarrow> \<exists>doc'. om_get (documents t') x = Some doc'
      \<and> dr_root_capability_id doc' = dr_root_capability_id doc
      \<and> dr_control_revision doc \<le> dr_control_revision doc'"
  shows "cap_row_ok t' x y r"
proof -
  have ne: "(x, y) \<noteq> (d, c)" using assms(2,3) by (auto simp add: adds_capability_def)
  have ops: "ops_in t' x y = ops_in t x y"
    using adds_capability_ops_in [OF assms(1,2), of x y] ne by auto
  have par: "\<exists>prow. om_get (capabilities t') (x, p) = Some prow
      \<and> cr_created_revision prow < cr_created_revision r \<and> ops_in t' x y \<subseteq> ops_in t' x p
      \<and> (cr_state r = 0 \<longrightarrow> cr_state prow = 0)" if pp: "cr_parent r = Some p" for p
  proof -
    obtain prow where p: "om_get (capabilities t) (x, p) = Some prow"
      "cr_created_revision prow < cr_created_revision r" "ops_in t x y \<subseteq> ops_in t x p"
      "cr_state r = 0 \<longrightarrow> cr_state prow = 0"
      using cap_row_ok_parent [OF caps_okD [OF assms(1,3)] pp] by blast
    then have "(x, p) \<noteq> (d, c)" using assms(2) by (auto simp add: adds_capability_def)
    then have "om_get (capabilities t') (x, p) = om_get (capabilities t) (x, p)"
      "ops_in t' x p = ops_in t x p"
      using adds_capability_get [OF assms(2), of x p] adds_capability_ops_in [OF assms(1,2), of x p]
      by auto
    with p ops show ?thesis by simp
  qed
  obtain doc where doc: "om_get (documents t) x = Some doc" "row_doc_ok doc y (ops_in t x y) r"
    using caps_okD [OF assms(1,3)] unfolding cap_row_ok_def by blast
  obtain doc' where doc': "om_get (documents t') x = Some doc'"
    "dr_root_capability_id doc' = dr_root_capability_id doc"
    "dr_control_revision doc \<le> dr_control_revision doc'"
    using assms(4) [OF doc(1)] by blast
  have "row_doc_ok doc' y (ops_in t' x y) r"
    using row_doc_ok_mono [OF doc(2) doc'(2,3)] ops by simp
  then show ?thesis unfolding cap_row_ok_def using doc'(1) par by blast
qed

lemma adds_capability_grant_receipt:
  assumes "control_ok t" "adds_capability t t' d c row s" "grant_receipt_ok t x i r"
  shows "grant_receipt_ok t' x i r"
proof -
  obtain y crow ops where g: "om_get (capabilities t) (x, y) = Some crow" "cr_parent crow = Some i"
    "canonical_ops ops" "ops_of ops = ops_in t x y" "rr_operation r = 0"
    "rr_normalized_input r = grant_normalized_input y
      \<lparr> vp_live = cr_live_verifier crow, vp_receipt = cr_receipt_verifier crow \<rparr> ops"
    using assms(3) unfolding grant_receipt_ok_def by blast
  then have "(x, y) \<noteq> (d, c)" using assms(2) by (auto simp add: adds_capability_def)
  then have "om_get (capabilities t') (x, y) = Some crow" "ops_of ops = ops_in t' x y"
    using g adds_capability_get [OF assms(2), of x y] adds_capability_ops_in [OF assms(1,2), of x y]
    by auto
  with g show ?thesis unfolding grant_receipt_ok_def by blast
qed

lemma adds_capability_receipts:
  assumes "control_ok t" "adds_capability t t' d c row s"
    and "\<And>x. om_contains (documents t) x \<Longrightarrow> om_contains (documents t') x"
    and "om_get (control_receipts t) (x, i, r) = Some rrow"
  shows "om_contains (documents t') x \<and> om_contains (capabilities t') (x, i)
    \<and> (grant_receipt_ok t' x i rrow \<or> revoke_receipt_ok t' x rrow)"
proof -
  have ok: "om_contains (documents t) x" "om_contains (capabilities t) (x, i)"
    "grant_receipt_ok t x i rrow \<or> revoke_receipt_ok t x rrow"
    using control_okD(6) [OF assms(1)] assms(4) unfolding receipts_ok_def by blast+
  have "revoke_receipt_ok t' x rrow" if rv: "revoke_receipt_ok t x rrow"
  proof -
    obtain y crow where y: "rr_operation rrow = 1" "om_get (capabilities t) (x, y) = Some crow"
      "cr_state crow = 1" "rr_normalized_input rrow = be_encode y"
      using rv unfolding revoke_receipt_ok_def by blast
    then have "om_get (capabilities t') (x, y) = Some crow"
      using assms(2) by (auto simp add: adds_capability_def)
    with y show ?thesis unfolding revoke_receipt_ok_def by blast
  qed
  moreover have "om_contains (capabilities t') (x, i)"
    using ok(2) assms(2) by (simp add: adds_capability_def)
  ultimately show ?thesis
    using ok assms(3) adds_capability_grant_receipt [OF assms(1,2)] by blast
qed

lemma adds_capability_create_rows:
  assumes "control_ok t" "adds_capability t t' d c row s"
    and "om_get (create_receipts t) (a, r) = Some rrow"
  shows "\<exists>crow. om_get (capabilities t') (cc_document_id rrow, cc_root_capability_id rrow) = Some crow
    \<and> cr_root crow \<and> cc_normalized_input rrow = create_normalized_input (cc_document_id rrow)
        (cc_root_capability_id rrow)
        \<lparr> vp_live = cr_live_verifier crow, vp_receipt = cr_receipt_verifier crow \<rparr>"
proof -
  obtain crow where g: "om_get (capabilities t) (cc_document_id rrow, cc_root_capability_id rrow)
      = Some crow" "cr_root crow"
    "cc_normalized_input rrow = create_normalized_input (cc_document_id rrow)
        (cc_root_capability_id rrow)
        \<lparr> vp_live = cr_live_verifier crow, vp_receipt = cr_receipt_verifier crow \<rparr>"
    using control_okD(8) [OF assms(1)] assms(3) unfolding create_rows_ok_def by blast
  then have "(cc_document_id rrow, cc_root_capability_id rrow) \<noteq> (d, c)"
    using assms(2) by (auto simp add: adds_capability_def)
  with g show ?thesis using adds_capability_get [OF assms(2)] by auto
qed

section \<open>Grant\<close>

definition grant_row :: "capability_id \<Rightarrow> verifier_pair \<Rightarrow> u64 \<Rightarrow> capability_row" where
  "grant_row issuer v revision =
    \<lparr> cr_parent = Some issuer, cr_root = False, cr_live_verifier = vp_live v,
      cr_receipt_verifier = vp_receipt v, cr_state = 0, cr_created_revision = revision \<rparr>"

definition grant_effect ::
  "tables \<Rightarrow> tables \<Rightarrow> document_id \<Rightarrow> document_row \<Rightarrow> capability_id \<Rightarrow> request_id \<Rightarrow> capability_id
    \<Rightarrow> verifier_pair \<Rightarrow> operation_set \<Rightarrow> u64 \<Rightarrow> bool" where
  "grant_effect t t' d doc issuer req c v s revision \<longleftrightarrow>
    adds_capability t t' d c (grant_row issuer v revision) s
    \<and> documents t' = om_insert d (doc\<lparr> dr_control_revision := revision \<rparr>) (documents t)
    \<and> control_receipts t' = om_insert (d, issuer, req)
        \<lparr> rr_operation = 0, rr_normalized_input = grant_normalized_input c v s \<rparr> (control_receipts t)
    \<and> create_authorities t' = create_authorities t \<and> create_receipts t' = create_receipts t
    \<and> document_acceptance_sequences t' = document_acceptance_sequences t
    \<and> updates t' = updates t \<and> update_loro_ranges t' = update_loro_ranges t
    \<and> document_loro_peers t' = document_loro_peers t"

lemma insert_grant_effect:
  assumes "control_ok t" "om_get (documents t) d = Some doc" "dr_state doc = 0"
    and "om_contains (capabilities t) (d, issuer)" "\<not> om_contains (capabilities t) (d, c)"
    and "om_get (control_receipts t) (d, issuer, req) = None"
  shows "\<exists>t'. insert_grant d issuer req c v s revision t = Inr t'
    \<and> grant_effect t t' d doc issuer req c v s revision"
proof -
  let ?row = "grant_row issuer v revision"
  let ?t1 = "t\<lparr> capabilities := om_insert (d, c) ?row (capabilities t) \<rparr>"
  have fresh: "om_get (capabilities t) (d, c) = None"
    using assms(5) by (simp add: om_contains_def)
  have inv: "om_invar (capability_operations t)"
    using control_okD(1) [OF assms(1)] by (simp add: sorted_ok_def)
  have "om_contains (capabilities ?t1) (d, c)" by simp
  moreover have "\<not> om_contains (capability_operations ?t1) (d, c, operation_code op)" for op
    using no_ops_unknown [OF assms(1) fresh] by simp
  ultimately obtain co where co: "insert_operations d c s ?t1 = Inr (?t1\<lparr> capability_operations := co \<rparr>)"
    "om_invar co" "\<forall>k. om_contains co k \<longleftrightarrow> om_contains (capability_operations t) k
      \<or> (\<exists>op. contains s op \<and> k = (d, c, operation_code op))"
    using insert_operations_ok [of ?t1 d c s] inv by auto
  let ?t' = "t\<lparr> capabilities := om_insert (d, c) ?row (capabilities t), capability_operations := co,
      control_receipts := om_insert (d, issuer, req)
        \<lparr> rr_operation = 0, rr_normalized_input = grant_normalized_input c v s \<rparr> (control_receipts t),
      documents := om_insert d (doc\<lparr> dr_control_revision := revision \<rparr>) (documents t) \<rparr>"
  have "insert_grant d issuer req c v s revision t = Inr ?t'"
    using assms fresh co(1)
    by (simp add: insert_grant_def sql_insert_def insert_control_receipt_def set_control_revision_def
        om_contains_Some [OF assms(2)] grant_row_def om_contains_def)
  moreover have "grant_effect t ?t' d doc issuer req c v s revision"
    using fresh co(2,3) by (simp add: grant_effect_def adds_capability_def)
  ultimately show ?thesis by blast
qed


definition grant_ready ::
  "tables \<Rightarrow> document_id \<Rightarrow> document_row \<Rightarrow> capability_id \<Rightarrow> request_id \<Rightarrow> capability_id
    \<Rightarrow> operation_set \<Rightarrow> u64 \<Rightarrow> bool" where
  "grant_ready t d doc issuer req c s revision \<longleftrightarrow> control_ok t
    \<and> om_get (documents t) d = Some doc \<and> dr_state doc = 0
    \<and> checked_add (dr_control_revision doc) 1 = Some revision
    \<and> active t d issuer \<and> canonical_ops s \<and> ops_of s \<noteq> {} \<and> ops_of s \<subseteq> ops_in t d issuer
    \<and> om_get (control_receipts t) (d, issuer, req) = None
    \<and> om_get (capabilities t) (d, c) = None
    \<and> store_issuer_has_descendant_capacity t d issuer
    \<and> \<not> control_counts_exceeded t d (Some issuer) True"

lemma grant_readyD:
  assumes "grant_ready t d doc issuer req c s revision"
  shows "control_ok t" "om_get (documents t) d = Some doc" "dr_state doc = 0"
    "checked_add (dr_control_revision doc) 1 = Some revision" "active t d issuer"
    "canonical_ops s" "ops_of s \<noteq> {}" "ops_of s \<subseteq> ops_in t d issuer"
    "om_get (control_receipts t) (d, issuer, req) = None" "om_get (capabilities t) (d, c) = None"
    "store_issuer_has_descendant_capacity t d issuer"
    "\<not> control_counts_exceeded t d (Some issuer) True"
  using assms by (simp_all add: grant_ready_def)

lemma grant_effectD:
  assumes "grant_effect t t' d doc issuer req c v s revision"
  shows "adds_capability t t' d c (grant_row issuer v revision) s"
    "documents t' = om_insert d (doc\<lparr> dr_control_revision := revision \<rparr>) (documents t)"
    "control_receipts t' = om_insert (d, issuer, req)
        \<lparr> rr_operation = 0, rr_normalized_input = grant_normalized_input c v s \<rparr> (control_receipts t)"
    "create_authorities t' = create_authorities t" "create_receipts t' = create_receipts t"
  using assms by (simp_all add: grant_effect_def)

lemma revision_step:
  assumes "checked_add (r :: u64) 1 = Some r'"
  shows "r < r'" "unat r' = Suc (unat r)"
  using checked_add_unat [OF assms] by (simp_all add: word_less_nat_alt)

lemma grant_docs:
  assumes "grant_ready t d doc issuer req c s revision"
    and "grant_effect t t' d doc issuer req c v s revision"
    and "om_get (documents t) x = Some xdoc"
  shows "\<exists>xdoc'. om_get (documents t') x = Some xdoc'
    \<and> dr_root_capability_id xdoc' = dr_root_capability_id xdoc
    \<and> dr_control_revision xdoc \<le> dr_control_revision xdoc'"
proof (cases "x = d")
  case True
  with assms(3) grant_readyD(2) [OF assms(1)] have "xdoc = doc" by simp
  with True show ?thesis
    using revision_step(1) [OF grant_readyD(4) [OF assms(1)]]
    by (simp add: grant_effectD(2) [OF assms(2)])
next
  case False
  with assms(3) show ?thesis by (simp add: grant_effectD(2) [OF assms(2)])
qed

lemma grant_new_row:
  assumes "grant_ready t d doc issuer req c s revision"
    and "grant_effect t t' d doc issuer req c v s revision"
  shows "cap_row_ok t' d c (grant_row issuer v revision)"
proof -
  note ready = grant_readyD [OF assms(1)] and eff = grant_effectD [OF assms(2)]
  obtain irow where irow: "om_get (capabilities t) (d, issuer) = Some irow" "cr_state irow = 0"
    using ready(5) by (auto simp add: active_def)
  obtain idoc where idoc: "om_get (documents t) d = Some idoc"
    "row_doc_ok idoc issuer (ops_in t d issuer) irow"
    using caps_okD [OF ready(1) irow(1)] unfolding cap_row_ok_def by blast
  have lt: "cr_created_revision irow < revision"
    using idoc ready(2) revision_step(1) [OF ready(4)] by (auto simp add: row_doc_ok_def)
  have ne: "issuer \<noteq> c" using irow(1) ready(10) by auto
  obtain root where root: "om_get (capabilities t) (d, dr_root_capability_id doc) = Some root"
    using control_okD(4) [OF ready(1)] ready(2) by (auto simp add: docs_ok_def om_contains_def)
  then have "c \<noteq> dr_root_capability_id doc" using ready(10) by auto
  moreover have "1 \<le> revision" using lt by (simp add: word_le_nat_alt word_less_nat_alt)
  ultimately have "row_doc_ok (doc\<lparr> dr_control_revision := revision \<rparr>) c (ops_of s)
      (grant_row issuer v revision)"
    using ready(7) by (simp add: row_doc_ok_def grant_row_def)
  moreover have "ops_in t' d c = ops_of s" "ops_in t' d issuer = ops_in t d issuer"
    "om_get (capabilities t') (d, issuer) = Some irow"
    using ne irow(1) adds_capability_get [OF eff(1)] adds_capability_ops_in [OF ready(1) eff(1)]
    by simp_all
  ultimately show ?thesis
    using lt irow(2) ready(8) eff(2) by (simp add: cap_row_ok_def grant_row_def)
qed

lemma grant_caps_ok:
  assumes "grant_ready t d doc issuer req c s revision"
    and "grant_effect t t' d doc issuer req c v s revision"
  shows "caps_ok t'"
  unfolding caps_ok_def
proof (intro allI impI)
  fix x y r
  assume r: "om_get (capabilities t') (x, y) = Some r"
  note ready = grant_readyD [OF assms(1)] and eff = grant_effectD [OF assms(2)]
  show "cap_row_ok t' x y r"
  proof (cases "(x, y) = (d, c)")
    case True
    with r show ?thesis
      using grant_new_row [OF assms] adds_capability_get [OF eff(1), of d c] by simp
  next
    case False
    with r have "om_get (capabilities t) (x, y) = Some r"
      using adds_capability_get [OF eff(1), of x y] by auto
    then show ?thesis
      using adds_capability_old_row [OF ready(1) eff(1)] grant_docs [OF assms] by blast
  qed
qed

lemma grant_depth_ok:
  assumes "grant_ready t d doc issuer req c s revision"
    and "grant_effect t t' d doc issuer req c v s revision"
  shows "depth_ok t'"
proof -
  note ready = grant_readyD [OF assms(1)] and eff = grant_effectD [OF assms(2)]
  have "par_of t d issuer \<noteq> None" using ready(5) by (rule active_known)
  then obtain cs where cs: "chain (par_of t d) issuer cs" "length cs \<le> MAX_CAPABILITY_DEPTH"
    using control_okD(3) [OF ready(1)] unfolding depth_ok_def by blast
  have "length cs < MAX_CAPABILITY_DEPTH" using capacity_spec [OF cs] ready(11) by simp
  moreover have "par_of t' d c = Some (Some issuer)"
    by (simp add: adds_capability_par_of [OF eff(1)] grant_row_def)
  then have "chain (par_of t' d) c (c # cs)"
    using adds_capability_chain [OF eff(1) cs(1)] by (rule chain_step)
  ultimately have "\<exists>cs. chain (par_of t' d) c cs \<and> length cs \<le> MAX_CAPABILITY_DEPTH"
    by (intro exI [of _ "c # cs"]) simp
  then show ?thesis by (rule adds_capability_depth [OF ready(1) eff(1)])
qed

lemma grant_receipts_in:
  assumes "grant_ready t d doc issuer req c s revision"
    and "grant_effect t t' d doc issuer req c v s revision"
  shows "receipts_in t' x = receipts_in t x + (if x = d then 1 else 0)"
    and "count_where (\<lambda>_ _. True) (control_receipts t') = count_where (\<lambda>_ _. True) (control_receipts t) + 1"
  using grant_readyD(9) [OF assms(1)]
  by (auto simp add: receipts_in_def grant_effectD(3) [OF assms(2)] count_where_insert)

lemma grant_docs_ok:
  assumes "grant_ready t d doc issuer req c s revision"
    and "grant_effect t t' d doc issuer req c v s revision"
  shows "docs_ok t'"
  unfolding docs_ok_def
proof (intro allI impI)
  fix x xdoc'
  assume x: "om_get (documents t') x = Some xdoc'"
  note ready = grant_readyD [OF assms(1)] and eff = grant_effectD [OF assms(2)]
  let ?old = "if x = d then doc else xdoc'"
  have old: "om_get (documents t) x = Some ?old"
    using x ready(2) by (auto simp add: eff(2) split: if_splits)
  then have ok: "dr_state ?old = 0 \<or> dr_state ?old = 1"
    "om_contains (capabilities t) (x, dr_root_capability_id ?old)"
    "unat (dr_control_revision ?old) = 1 + receipts_in t x"
    using control_okD(4) [OF ready(1)] unfolding docs_ok_def by blast+
  have fields: "dr_state xdoc' = dr_state ?old"
    "dr_root_capability_id xdoc' = dr_root_capability_id ?old"
    "unat (dr_control_revision xdoc') = unat (dr_control_revision ?old) + (if x = d then 1 else 0)"
    using x revision_step(2) [OF ready(4)] by (auto simp add: eff(2) split: if_splits)
  have "om_contains (capabilities t') (x, dr_root_capability_id ?old)"
    using ok(2) eff(1) by (simp add: adds_capability_def)
  then show "(dr_state xdoc' = 0 \<or> dr_state xdoc' = 1)
      \<and> om_contains (capabilities t') (x, dr_root_capability_id xdoc')
      \<and> unat (dr_control_revision xdoc') = 1 + receipts_in t' x"
    using ok(1,3) fields grant_receipts_in(1) [OF assms] by simp
qed


lemma grant_receipts_ok:
  assumes "grant_ready t d doc issuer req c s revision"
    and "grant_effect t t' d doc issuer req c v s revision"
  shows "receipts_ok t'"
  unfolding receipts_ok_def
proof (intro allI impI)
  fix x i r rrow
  assume r: "om_get (control_receipts t') (x, i, r) = Some rrow"
  note ready = grant_readyD [OF assms(1)] and eff = grant_effectD [OF assms(2)]
  let ?good = "om_contains (documents t') x \<and> om_contains (capabilities t') (x, i)
    \<and> (grant_receipt_ok t' x i rrow \<or> revoke_receipt_ok t' x rrow)"
  show ?good
  proof (cases "(x, i, r) = (d, issuer, req)")
    case False
    with r have "om_get (control_receipts t) (x, i, r) = Some rrow" by (auto simp add: eff(3))
    moreover have "om_contains (documents t) y \<Longrightarrow> om_contains (documents t') y" for y
      by (simp add: eff(2))
    ultimately show ?thesis using adds_capability_receipts [OF ready(1) eff(1)] by blast
  next
    case True
    with r have rrow: "rr_operation rrow = 0" "rr_normalized_input rrow = grant_normalized_input c v s"
      by (auto simp add: eff(3))
    have new: "om_get (capabilities t') (d, c) = Some (grant_row issuer v revision)"
      "ops_in t' d c = ops_of s"
      using adds_capability_get [OF eff(1)] adds_capability_ops_in [OF ready(1) eff(1)] by simp_all
    have input: "grant_normalized_input c \<lparr> vp_live = vp_live v, vp_receipt = vp_receipt v \<rparr> s
        = grant_normalized_input c v s" by (cases v) simp
    have "grant_receipt_ok t' d issuer rrow"
      unfolding grant_receipt_ok_def
      using rrow new ready(6)
      by (intro conjI exI [of _ c] exI [of _ "grant_row issuer v revision"] exI [of _ s])
        (simp_all add: grant_row_def input)
    moreover have "om_contains (capabilities t) (d, issuer)"
      using ready(5) by (auto simp add: active_def om_contains_def)
    then have "om_contains (capabilities t') (d, issuer)"
      using eff(1) by (simp add: adds_capability_def)
    ultimately show ?thesis using True by (simp add: eff(2))
  qed
qed

lemma counts_not_exceeded:
  assumes "\<not> control_counts_exceeded t d p a"
  shows "receipts_in t d < MAX_CONTROL_RECEIPTS_PER_DOCUMENT"
    and "count_where (\<lambda>_ _. True) (control_receipts t) < MAX_GLOBAL_CONTROL_RECEIPTS"
    and "a \<Longrightarrow> caps_in t d < MAX_CAPABILITIES_PER_DOCUMENT"
    and "a \<Longrightarrow> count_where (\<lambda>_ _. True) (capabilities t) < MAX_GLOBAL_CAPABILITIES"
    and "p = Some q \<Longrightarrow> direct_children t d q < MAX_DIRECT_CAPABILITY_CHILDREN"
  using assms by (auto simp add: control_counts_exceeded_def receipts_in_def caps_in_def not_le)

lemma counts_okD:
  assumes "control_ok t"
  shows "caps_in t x \<le> MAX_CAPABILITIES_PER_DOCUMENT"
    "receipts_in t x \<le> MAX_CONTROL_RECEIPTS_PER_DOCUMENT"
    "direct_children t x p \<le> MAX_DIRECT_CAPABILITY_CHILDREN"
    "count_where (\<lambda>_ _. True) (capabilities t) \<le> MAX_GLOBAL_CAPABILITIES"
    "count_where (\<lambda>_ _. True) (control_receipts t) \<le> MAX_GLOBAL_CONTROL_RECEIPTS"
  using control_okD(7) [OF assms] by (auto simp add: counts_ok_def)

lemma grant_counts_ok:
  assumes "grant_ready t d doc issuer req c s revision"
    and "grant_effect t t' d doc issuer req c v s revision"
  shows "counts_ok t'"
proof -
  note ready = grant_readyD [OF assms(1)] and eff = grant_effectD [OF assms(2)]
  note counts = counts_okD [OF ready(1)] and room = counts_not_exceeded [OF ready(12)]
  have children: "direct_children t' x p \<le> MAX_DIRECT_CAPABILITY_CHILDREN" for x p
    using counts(3) [of x p] room(5) [of issuer] adds_capability_counts(3) [OF eff(1), of x p]
    by (cases "x = d \<and> p = issuer") (auto simp add: grant_row_def)
  have per_doc: "caps_in t' x \<le> MAX_CAPABILITIES_PER_DOCUMENT"
    "receipts_in t' x \<le> MAX_CONTROL_RECEIPTS_PER_DOCUMENT" for x
    using counts(1,2) [of x] room(1,3) adds_capability_counts(1) [OF eff(1), of x]
      grant_receipts_in(1) [OF assms, of x] by (cases "x = d"; simp)+
  have global: "count_where (\<lambda>_ _. True) (capabilities t') \<le> MAX_GLOBAL_CAPABILITIES"
    "count_where (\<lambda>_ _. True) (control_receipts t') \<le> MAX_GLOBAL_CONTROL_RECEIPTS"
    using room(2,4) adds_capability_counts(2) [OF eff(1)] grant_receipts_in(2) [OF assms] by simp_all
  show ?thesis unfolding counts_ok_def using per_doc children global by blast
qed

lemma grant_create_rows_ok:
  assumes "grant_ready t d doc issuer req c s revision"
    and "grant_effect t t' d doc issuer req c v s revision"
  shows "create_rows_ok t'"
proof -
  note ready = grant_readyD [OF assms(1)] and eff = grant_effectD [OF assms(2)]
  have "om_invar (documents t)"
    using control_okD(1) [OF ready(1)] by (simp add: sorted_ok_def)
  then have docs: "count_where (\<lambda>_ _. True) (documents t') = count_where (\<lambda>_ _. True) (documents t)"
    unfolding eff(2) by (rule count_where_update [OF _ ready(2)]) simp
  have old: "create_rows_ok t" by (rule control_okD(8) [OF ready(1)])
  then have auths: "om_get (create_receipts t) (a, r) = Some row \<Longrightarrow>
      om_contains (create_authorities t) a" for a r row
    unfolding create_rows_ok_def by blast
  show ?thesis
    using old adds_capability_create_rows [OF ready(1) eff(1)] auths
    unfolding create_rows_ok_def eff(4,5) docs by blast
qed

text \<open>A grant that passes every check keeps the invariant.\<close>

lemma grant_keeps_ok:
  assumes "grant_ready t d doc issuer req c s revision"
    and "grant_effect t t' d doc issuer req c v s revision"
  shows "control_ok t'"
proof -
  note ready = grant_readyD [OF assms(1)] and eff = grant_effectD [OF assms(2)]
  have "sorted_ok t'"
    using control_okD(1) [OF ready(1)] eff by (simp add: sorted_ok_def adds_capability_def)
  then show ?thesis
    unfolding control_ok_def
    using grant_caps_ok [OF assms] grant_depth_ok [OF assms] grant_docs_ok [OF assms]
      adds_capability_op_rows [OF ready(1) eff(1)] grant_receipts_ok [OF assms]
      grant_counts_ok [OF assms] grant_create_rows_ok [OF assms] by blast
qed


section \<open>Revoke\<close>

definition revoke_effect ::
  "tables \<Rightarrow> tables \<Rightarrow> document_id \<Rightarrow> document_row \<Rightarrow> capability_id \<Rightarrow> request_id \<Rightarrow> capability_id
    \<Rightarrow> u64 \<Rightarrow> bool" where
  "revoke_effect t t' d doc issuer req target revision \<longleftrightarrow>
    (\<forall>x y. om_get (capabilities t') (x, y) = map_option
        (\<lambda>row. if x = d \<and> descends (par_of t d) target y then row\<lparr> cr_state := 1 \<rparr> else row)
        (om_get (capabilities t) (x, y)))
    \<and> documents t' = om_insert d (doc\<lparr> dr_control_revision := revision \<rparr>) (documents t)
    \<and> control_receipts t' = om_insert (d, issuer, req)
        \<lparr> rr_operation = 1, rr_normalized_input = be_encode target \<rparr> (control_receipts t)
    \<and> (om_invar (capabilities t) \<longrightarrow> om_invar (capabilities t'))
    \<and> (\<forall>x. caps_in t' x = caps_in t x) \<and> (\<forall>x p. direct_children t' x p = direct_children t x p)
    \<and> count_where (\<lambda>_ _. True) (capabilities t') = count_where (\<lambda>_ _. True) (capabilities t)
    \<and> capability_operations t' = capability_operations t
    \<and> create_authorities t' = create_authorities t \<and> create_receipts t' = create_receipts t
    \<and> document_acceptance_sequences t' = document_acceptance_sequences t
    \<and> updates t' = updates t \<and> update_loro_ranges t' = update_loro_ranges t
    \<and> document_loro_peers t' = document_loro_peers t"

lemma revoke_subtree_get:
  assumes "control_ok t" "par_of t d target \<noteq> None"
  shows "om_get (capabilities (revoke_subtree t d target)) (x, y) = map_option
      (\<lambda>row. if x = d \<and> descends (par_of t d) target y then row\<lparr> cr_state := 1 \<rparr> else row)
      (om_get (capabilities t) (x, y))"
proof -
  let ?f = "\<lambda>(x, y) row. if x = d \<and> y \<in> set (subtree MAX_CAPABILITY_DEPTH t d [target])
      then row\<lparr> cr_state := 1 \<rparr> else row"
  have "capabilities (revoke_subtree t d target) = map (\<lambda>(k, row). (k, ?f k row)) (capabilities t)"
    by (auto simp add: revoke_subtree_def Let_def split_def)
  then have "om_get (capabilities (revoke_subtree t d target)) (x, y) =
      map_option (?f (x, y)) (om_get (capabilities t) (x, y))"
    by (simp only: om_get_map)
  then show ?thesis by (simp add: subtree_complete [OF assms])
qed

lemma revoke_subtree_counts:
  assumes "\<And>k row. P k (row\<lparr> cr_state := 1 \<rparr>) = P k row"
  shows "count_where P (capabilities (revoke_subtree t d target)) = count_where P (capabilities t)"
    and "om_invar (capabilities t) \<Longrightarrow> om_invar (capabilities (revoke_subtree t d target))"
proof -
  let ?f = "\<lambda>(x, y) row. if x = d \<and> y \<in> set (subtree MAX_CAPABILITY_DEPTH t d [target])
      then row\<lparr> cr_state := 1 \<rparr> else row"
  have m: "capabilities (revoke_subtree t d target) = map (\<lambda>(k, row). (k, ?f k row)) (capabilities t)"
    by (auto simp add: revoke_subtree_def Let_def split_def)
  show "count_where P (capabilities (revoke_subtree t d target)) = count_where P (capabilities t)"
    unfolding m by (rule count_where_map_values) (use assms in \<open>auto split: prod.split\<close>)
  show "om_invar (capabilities t) \<Longrightarrow> om_invar (capabilities (revoke_subtree t d target))"
    unfolding m by (rule om_invar_map)
qed

lemma revoke_rows_effect:
  assumes "control_ok t" "om_get (documents t) d = Some doc" "dr_state doc = 0"
    and "par_of t d issuer \<noteq> None" "par_of t d target \<noteq> None"
    and "om_get (control_receipts t) (d, issuer, req) = None"
  shows "\<exists>t1 t'. insert_control_receipt d issuer req 1 (be_encode target) (revoke_subtree t d target)
      = Inr t1 \<and> set_control_revision d revision t1 = Inr t'
    \<and> revoke_effect t t' d doc issuer req target revision"
proof -
  let ?s = "revoke_subtree t d target"
  note get = revoke_subtree_get [OF assms(1,5)]
  have other: "documents ?s = documents t" "control_receipts ?s = control_receipts t"
    "capability_operations ?s = capability_operations t" "create_authorities ?s = create_authorities t"
    "create_receipts ?s = create_receipts t"
    "document_acceptance_sequences ?s = document_acceptance_sequences t" "updates ?s = updates t"
    "update_loro_ranges ?s = update_loro_ranges t" "document_loro_peers ?s = document_loro_peers t"
    by (simp_all add: revoke_subtree_def Let_def)
  have fk: "om_contains (capabilities ?s) (d, issuer)"
    using assms(4) get [of d issuer] by (auto simp add: om_contains_def par_of_def)
  let ?t1 = "?s\<lparr> control_receipts := om_insert (d, issuer, req)
      \<lparr> rr_operation = 1, rr_normalized_input = be_encode target \<rparr> (control_receipts t) \<rparr>"
  let ?t' = "?t1\<lparr> documents := om_insert d (doc\<lparr> dr_control_revision := revision \<rparr>) (documents t) \<rparr>"
  have "insert_control_receipt d issuer req 1 (be_encode target) ?s = Inr ?t1"
    using fk assms(6) by (simp add: insert_control_receipt_def sql_insert_def other om_contains_def)
  moreover have "set_control_revision d revision ?t1 = Inr ?t'"
    using assms(2,3) by (simp add: set_control_revision_def other)
  moreover have "revoke_effect t ?t' d doc issuer req target revision"
    using get revoke_subtree_counts [of _ t d target]
    by (simp add: revoke_effect_def other caps_in_def direct_children_def split_def)
  ultimately show ?thesis by blast
qed


lemma revoke_effectD:
  assumes "revoke_effect t t' d doc issuer req target revision"
  shows "om_get (capabilities t') (x, y) = map_option
        (\<lambda>row. if x = d \<and> descends (par_of t d) target y then row\<lparr> cr_state := 1 \<rparr> else row)
        (om_get (capabilities t) (x, y))"
    "documents t' = om_insert d (doc\<lparr> dr_control_revision := revision \<rparr>) (documents t)"
    "control_receipts t' = om_insert (d, issuer, req)
        \<lparr> rr_operation = 1, rr_normalized_input = be_encode target \<rparr> (control_receipts t)"
    "om_invar (capabilities t) \<Longrightarrow> om_invar (capabilities t')"
    "caps_in t' x = caps_in t x" "direct_children t' x p = direct_children t x p"
    "count_where (\<lambda>_ _. True) (capabilities t') = count_where (\<lambda>_ _. True) (capabilities t)"
    "capability_operations t' = capability_operations t"
    "create_authorities t' = create_authorities t" "create_receipts t' = create_receipts t"
  using assms unfolding revoke_effect_def by blast+

definition revoke_ready ::
  "tables \<Rightarrow> document_id \<Rightarrow> document_row \<Rightarrow> capability_id \<Rightarrow> request_id \<Rightarrow> capability_id
    \<Rightarrow> u64 \<Rightarrow> bool" where
  "revoke_ready t d doc issuer req target revision \<longleftrightarrow> control_ok t
    \<and> om_get (documents t) d = Some doc \<and> dr_state doc = 0
    \<and> checked_add (dr_control_revision doc) 1 = Some revision
    \<and> par_of t d issuer \<noteq> None \<and> par_of t d target \<noteq> None
    \<and> om_get (control_receipts t) (d, issuer, req) = None
    \<and> \<not> control_counts_exceeded t d None False"

lemma revoke_readyD:
  assumes "revoke_ready t d doc issuer req target revision"
  shows "control_ok t" "om_get (documents t) d = Some doc" "dr_state doc = 0"
    "checked_add (dr_control_revision doc) 1 = Some revision" "par_of t d issuer \<noteq> None"
    "par_of t d target \<noteq> None" "om_get (control_receipts t) (d, issuer, req) = None"
    "\<not> control_counts_exceeded t d None False"
  using assms by (simp_all add: revoke_ready_def)

text \<open>Everything but the state column survives a revoke.\<close>

lemma revoke_old_row:
  assumes "revoke_effect t t' d doc issuer req target revision"
    and "om_get (capabilities t') (x, y) = Some r"
  shows "\<exists>r0. om_get (capabilities t) (x, y) = Some r0
    \<and> r = (if x = d \<and> descends (par_of t d) target y then r0\<lparr> cr_state := 1 \<rparr> else r0)"
  using assms(2) unfolding revoke_effectD(1) [OF assms(1)] by auto

lemma revoke_row_kept:
  assumes "revoke_effect t t' d doc issuer req target revision"
    and "om_get (capabilities t) (x, y) = Some r0"
  shows "\<exists>r. om_get (capabilities t') (x, y) = Some r \<and> cr_parent r = cr_parent r0
    \<and> cr_root r = cr_root r0 \<and> cr_live_verifier r = cr_live_verifier r0
    \<and> cr_receipt_verifier r = cr_receipt_verifier r0
    \<and> cr_created_revision r = cr_created_revision r0
    \<and> cr_state r = (if x = d \<and> descends (par_of t d) target y then 1 else cr_state r0)"
  using assms(2) unfolding revoke_effectD(1) [OF assms(1)] by auto

lemma revoke_par_of:
  "revoke_effect t t' d doc issuer req target revision \<Longrightarrow> par_of t' = par_of t"
  by (intro ext) (auto simp add: par_of_def revoke_effectD(1) option.map_comp comp_def
      intro!: map_option_cong)

lemma revoke_ops_in:
  "revoke_effect t t' d doc issuer req target revision \<Longrightarrow> ops_in t' = ops_in t"
  by (intro ext) (simp add: ops_in_def revoke_effectD(8))

lemma revoke_contains:
  "revoke_effect t t' d doc issuer req target revision \<Longrightarrow>
    om_contains (capabilities t') (x, y) \<longleftrightarrow> om_contains (capabilities t) (x, y)"
  by (simp add: om_contains_def revoke_effectD(1))

lemma revoke_docs:
  assumes "revoke_ready t d doc issuer req target revision"
    and "revoke_effect t t' d doc issuer req target revision"
    and "om_get (documents t) x = Some xdoc"
  shows "\<exists>xdoc'. om_get (documents t') x = Some xdoc'
    \<and> dr_root_capability_id xdoc' = dr_root_capability_id xdoc
    \<and> dr_control_revision xdoc \<le> dr_control_revision xdoc'"
proof (cases "x = d")
  case True
  with assms(3) revoke_readyD(2) [OF assms(1)] have "xdoc = doc" by simp
  with True show ?thesis
    using revision_step(1) [OF revoke_readyD(4) [OF assms(1)]]
    by (simp add: revoke_effectD(2) [OF assms(2)])
next
  case False
  with assms(3) show ?thesis by (simp add: revoke_effectD(2) [OF assms(2)])
qed

lemma revoke_caps_ok:
  assumes "revoke_ready t d doc issuer req target revision"
    and "revoke_effect t t' d doc issuer req target revision"
  shows "caps_ok t'"
  unfolding caps_ok_def
proof (intro allI impI)
  fix x y r
  assume r: "om_get (capabilities t') (x, y) = Some r"
  note ready = revoke_readyD [OF assms(1)]
  let ?gone = "\<lambda>z. x = d \<and> descends (par_of t d) target z"
  obtain r0 where r0: "om_get (capabilities t) (x, y) = Some r0"
    "r = (if ?gone y then r0\<lparr> cr_state := 1 \<rparr> else r0)"
    using revoke_old_row [OF assms(2) r] by blast
  note old = caps_okD [OF ready(1) r0(1)]
  obtain xdoc where xdoc: "om_get (documents t) x = Some xdoc" "row_doc_ok xdoc y (ops_in t x y) r0"
    using old unfolding cap_row_ok_def by blast
  obtain xdoc' where xdoc': "om_get (documents t') x = Some xdoc'"
    "dr_root_capability_id xdoc' = dr_root_capability_id xdoc"
    "dr_control_revision xdoc \<le> dr_control_revision xdoc'"
    using revoke_docs [OF assms xdoc(1)] by blast
  have "row_doc_ok xdoc' y (ops_in t' x y) r"
    using row_doc_ok_mono [OF xdoc(2) xdoc'(2,3)] r0(2)
    by (auto simp add: revoke_ops_in [OF assms(2)] row_doc_ok_def)
  moreover have "\<exists>prow. om_get (capabilities t') (x, p) = Some prow
      \<and> cr_created_revision prow < cr_created_revision r \<and> ops_in t' x y \<subseteq> ops_in t' x p
      \<and> (cr_state r = 0 \<longrightarrow> cr_state prow = 0)" if p: "cr_parent r = Some p" for p
  proof -
    have p0: "cr_parent r0 = Some p" using p r0(2) by (auto split: if_splits)
    obtain prow0 where prow0: "om_get (capabilities t) (x, p) = Some prow0"
      "cr_created_revision prow0 < cr_created_revision r0" "ops_in t x y \<subseteq> ops_in t x p"
      "cr_state r0 = 0 \<longrightarrow> cr_state prow0 = 0"
      using cap_row_ok_parent [OF old p0] by blast
    obtain prow where prow: "om_get (capabilities t') (x, p) = Some prow"
      "cr_created_revision prow = cr_created_revision prow0"
      "cr_state prow = (if ?gone p then 1 else cr_state prow0)"
      using revoke_row_kept [OF assms(2) prow0(1)] by blast
    have "par_of t x y = Some (Some p)" using r0(1) p0 by (simp add: par_of_def)
    then have gone: "?gone p \<Longrightarrow> ?gone y" using descends_parent [of "par_of t d" y p target] by blast
    have created: "cr_created_revision r = cr_created_revision r0" using r0(2) by simp
    have "cr_state r = 0 \<longrightarrow> cr_state prow = 0"
      using gone prow(3) prow0(4) r0(2) by (cases "?gone y") auto
    then show ?thesis
      using prow(1,2) prow0(2,3) created by (simp add: revoke_ops_in [OF assms(2)])
  qed
  ultimately show "cap_row_ok t' x y r" unfolding cap_row_ok_def using xdoc'(1) by blast
qed


lemma revoke_receipts_in:
  assumes "revoke_ready t d doc issuer req target revision"
    and "revoke_effect t t' d doc issuer req target revision"
  shows "receipts_in t' x = receipts_in t x + (if x = d then 1 else 0)"
    and "count_where (\<lambda>_ _. True) (control_receipts t') = count_where (\<lambda>_ _. True) (control_receipts t) + 1"
  using revoke_readyD(7) [OF assms(1)]
  by (auto simp add: receipts_in_def revoke_effectD(3) [OF assms(2)] count_where_insert)

lemma revoke_docs_ok:
  assumes "revoke_ready t d doc issuer req target revision"
    and "revoke_effect t t' d doc issuer req target revision"
  shows "docs_ok t'"
  unfolding docs_ok_def
proof (intro allI impI)
  fix x xdoc'
  assume x: "om_get (documents t') x = Some xdoc'"
  note ready = revoke_readyD [OF assms(1)] and eff = revoke_effectD [OF assms(2)]
  let ?old = "if x = d then doc else xdoc'"
  have "om_get (documents t) x = Some ?old"
    using x ready(2) by (auto simp add: eff(2) split: if_splits)
  then have ok: "dr_state ?old = 0 \<or> dr_state ?old = 1"
    "om_contains (capabilities t) (x, dr_root_capability_id ?old)"
    "unat (dr_control_revision ?old) = 1 + receipts_in t x"
    using control_okD(4) [OF ready(1)] unfolding docs_ok_def by blast+
  have fields: "dr_state xdoc' = dr_state ?old"
    "dr_root_capability_id xdoc' = dr_root_capability_id ?old"
    "unat (dr_control_revision xdoc') = unat (dr_control_revision ?old) + (if x = d then 1 else 0)"
    using x revision_step(2) [OF ready(4)] by (auto simp add: eff(2) split: if_splits)
  show "(dr_state xdoc' = 0 \<or> dr_state xdoc' = 1)
      \<and> om_contains (capabilities t') (x, dr_root_capability_id xdoc')
      \<and> unat (dr_control_revision xdoc') = 1 + receipts_in t' x"
    using ok fields revoke_receipts_in(1) [OF assms] revoke_contains [OF assms(2)] by simp
qed

lemma revoke_grant_receipt:
  assumes "revoke_effect t t' d doc issuer req target revision" "grant_receipt_ok t x i r"
  shows "grant_receipt_ok t' x i r"
proof -
  obtain y crow ops where g: "om_get (capabilities t) (x, y) = Some crow" "cr_parent crow = Some i"
    "canonical_ops ops" "ops_of ops = ops_in t x y" "rr_operation r = 0"
    "rr_normalized_input r = grant_normalized_input y
      \<lparr> vp_live = cr_live_verifier crow, vp_receipt = cr_receipt_verifier crow \<rparr> ops"
    using assms(2) unfolding grant_receipt_ok_def by blast
  obtain crow' where crow': "om_get (capabilities t') (x, y) = Some crow'"
    "cr_parent crow' = cr_parent crow" "cr_live_verifier crow' = cr_live_verifier crow"
    "cr_receipt_verifier crow' = cr_receipt_verifier crow"
    using revoke_row_kept [OF assms(1) g(1)] by blast
  have "rr_normalized_input r = grant_normalized_input y
      \<lparr> vp_live = cr_live_verifier crow', vp_receipt = cr_receipt_verifier crow' \<rparr> ops"
    using g(6) crow'(3,4) by simp
  moreover have "cr_parent crow' = Some i" using g(2) crow'(2) by simp
  moreover have "ops_of ops = ops_in t' x y" using g(4) by (simp add: revoke_ops_in [OF assms(1)])
  ultimately show ?thesis unfolding grant_receipt_ok_def using g(3,5) crow'(1) by blast
qed

lemma revoke_old_revoke_receipt:
  assumes "revoke_effect t t' d doc issuer req target revision" "revoke_receipt_ok t x r"
  shows "revoke_receipt_ok t' x r"
proof -
  obtain y crow where y: "rr_operation r = 1" "om_get (capabilities t) (x, y) = Some crow"
    "cr_state crow = 1" "rr_normalized_input r = be_encode y"
    using assms(2) unfolding revoke_receipt_ok_def by blast
  obtain crow' where "om_get (capabilities t') (x, y) = Some crow'" "cr_state crow' = 1"
    using revoke_row_kept [OF assms(1) y(2)] y(3) by auto
  with y show ?thesis unfolding revoke_receipt_ok_def by blast
qed

lemma revoke_receipts_ok:
  assumes "revoke_ready t d doc issuer req target revision"
    and "revoke_effect t t' d doc issuer req target revision"
  shows "receipts_ok t'"
  unfolding receipts_ok_def
proof (intro allI impI)
  fix x i r rrow
  assume r: "om_get (control_receipts t') (x, i, r) = Some rrow"
  note ready = revoke_readyD [OF assms(1)] and eff = revoke_effectD [OF assms(2)]
  show "om_contains (documents t') x \<and> om_contains (capabilities t') (x, i)
    \<and> (grant_receipt_ok t' x i rrow \<or> revoke_receipt_ok t' x rrow)"
  proof (cases "(x, i, r) = (d, issuer, req)")
    case False
    with r have "om_get (control_receipts t) (x, i, r) = Some rrow" by (auto simp add: eff(3))
    then have "om_contains (documents t) x" "om_contains (capabilities t) (x, i)"
      "grant_receipt_ok t x i rrow \<or> revoke_receipt_ok t x rrow"
      using control_okD(6) [OF ready(1)] unfolding receipts_ok_def by blast+
    then show ?thesis
      using revoke_grant_receipt [OF assms(2)] revoke_old_revoke_receipt [OF assms(2)]
      by (auto simp add: revoke_contains [OF assms(2)] eff(2))
  next
    case True
    with r have rrow: "rr_operation rrow = 1" "rr_normalized_input rrow = be_encode target"
      by (auto simp add: eff(3))
    obtain trow where trow: "om_get (capabilities t) (d, target) = Some trow"
      using ready(6) by (auto simp add: par_of_def)
    obtain cs where "chain (par_of t d) target cs"
      using obtain_cap_chain [OF ready(1) trow] by blast
    then have "descends (par_of t d) target target" by (rule descends_refl)
    then obtain trow' where "om_get (capabilities t') (d, target) = Some trow'" "cr_state trow' = 1"
      using revoke_row_kept [OF assms(2) trow] by auto
    then have "revoke_receipt_ok t' d rrow" unfolding revoke_receipt_ok_def using rrow by blast
    moreover have "om_contains (capabilities t) (d, issuer)"
      using ready(5) by (auto simp add: om_contains_def par_of_def)
    ultimately show ?thesis using True by (simp add: eff(2) revoke_contains [OF assms(2)])
  qed
qed

lemma revoke_counts_ok:
  assumes "revoke_ready t d doc issuer req target revision"
    and "revoke_effect t t' d doc issuer req target revision"
  shows "counts_ok t'"
proof -
  note ready = revoke_readyD [OF assms(1)] and eff = revoke_effectD [OF assms(2)]
  note counts = counts_okD [OF ready(1)] and room = counts_not_exceeded [OF ready(8)]
  have "receipts_in t' x \<le> MAX_CONTROL_RECEIPTS_PER_DOCUMENT" for x
    using counts(2) [of x] room(1) revoke_receipts_in(1) [OF assms, of x] by (cases "x = d"; simp)
  moreover have "count_where (\<lambda>_ _. True) (control_receipts t') \<le> MAX_GLOBAL_CONTROL_RECEIPTS"
    using room(2) revoke_receipts_in(2) [OF assms] by simp
  ultimately show ?thesis
    unfolding counts_ok_def using counts(1,3,4) eff(5,6,7) by simp
qed

lemma revoke_create_rows_ok:
  assumes "revoke_ready t d doc issuer req target revision"
    and "revoke_effect t t' d doc issuer req target revision"
  shows "create_rows_ok t'"
proof -
  note ready = revoke_readyD [OF assms(1)] and eff = revoke_effectD [OF assms(2)]
  have "om_invar (documents t)"
    using control_okD(1) [OF ready(1)] by (simp add: sorted_ok_def)
  then have docs: "count_where (\<lambda>_ _. True) (documents t') = count_where (\<lambda>_ _. True) (documents t)"
    unfolding eff(2) by (rule count_where_update [OF _ ready(2)]) simp
  have old: "create_rows_ok t" by (rule control_okD(8) [OF ready(1)])
  have rows: "\<exists>crow. om_get (capabilities t') (cc_document_id row, cc_root_capability_id row) = Some crow
      \<and> cr_root crow \<and> cc_normalized_input row = create_normalized_input (cc_document_id row)
          (cc_root_capability_id row)
          \<lparr> vp_live = cr_live_verifier crow, vp_receipt = cr_receipt_verifier crow \<rparr>"
    if receipt: "om_get (create_receipts t) (a, r) = Some row" for a r row
  proof -
    obtain crow where c: "om_get (capabilities t) (cc_document_id row, cc_root_capability_id row) = Some crow"
      "cr_root crow" "cc_normalized_input row = create_normalized_input (cc_document_id row)
          (cc_root_capability_id row)
          \<lparr> vp_live = cr_live_verifier crow, vp_receipt = cr_receipt_verifier crow \<rparr>"
      using old receipt unfolding create_rows_ok_def by blast
    show ?thesis using revoke_row_kept [OF assms(2) c(1)] c(2,3) by auto
  qed
  have auths: "om_get (create_receipts t) (a, r) = Some row \<Longrightarrow>
      om_contains (create_authorities t) a" for a r row
    using old unfolding create_rows_ok_def by blast
  show ?thesis using old rows auths unfolding create_rows_ok_def eff(9,10) docs by blast
qed

text \<open>A revoke that passes every check keeps the invariant.\<close>

lemma revoke_keeps_ok:
  assumes "revoke_ready t d doc issuer req target revision"
    and "revoke_effect t t' d doc issuer req target revision"
  shows "control_ok t'"
proof -
  note ready = revoke_readyD [OF assms(1)] and eff = revoke_effectD [OF assms(2)]
  have "sorted_ok t'"
    using control_okD(1) [OF ready(1)] by (simp add: sorted_ok_def eff)
  moreover have "depth_ok t'"
    using control_okD(3) [OF ready(1)] by (simp add: depth_ok_def revoke_par_of [OF assms(2)])
  moreover have "op_rows_ok t'"
    using control_okD(5) [OF ready(1)]
    by (simp add: op_rows_ok_def eff(8) revoke_contains [OF assms(2)])
  ultimately show ?thesis
    unfolding control_ok_def
    using revoke_caps_ok [OF assms] revoke_docs_ok [OF assms] revoke_receipts_ok [OF assms]
      revoke_counts_ok [OF assms] revoke_create_rows_ok [OF assms] by blast
qed


section \<open>Document creation\<close>

definition root_row :: "verifier_pair \<Rightarrow> capability_row" where
  "root_row v =
    \<lparr> cr_parent = None, cr_root = True, cr_live_verifier = vp_live v,
      cr_receipt_verifier = vp_receipt v, cr_state = 0, cr_created_revision = 1 \<rparr>"

definition create_effect ::
  "tables \<Rightarrow> tables \<Rightarrow> create_authority_id \<Rightarrow> request_id \<Rightarrow> document_id \<Rightarrow> capability_id
    \<Rightarrow> verifier_pair \<Rightarrow> bool" where
  "create_effect t t' a req d root v \<longleftrightarrow>
    adds_capability t t' d root (root_row v) FULL_OPS
    \<and> documents t' = om_insert d
        \<lparr> dr_state = 0, dr_control_revision = 1, dr_root_capability_id = root \<rparr> (documents t)
    \<and> create_receipts t' = om_insert (a, req)
        \<lparr> cc_document_id = d, cc_root_capability_id = root,
          cc_normalized_input = create_normalized_input d root v \<rparr> (create_receipts t)
    \<and> create_authorities t' = create_authorities t \<and> control_receipts t' = control_receipts t
    \<and> document_acceptance_sequences t' = document_acceptance_sequences t
    \<and> updates t' = updates t \<and> update_loro_ranges t' = update_loro_ranges t
    \<and> document_loro_peers t' = document_loro_peers t"

definition create_ready ::
  "tables \<Rightarrow> create_authority_id \<Rightarrow> request_id \<Rightarrow> document_id \<Rightarrow> bool" where
  "create_ready t a req d \<longleftrightarrow> control_ok t \<and> om_get (documents t) d = None
    \<and> om_contains (create_authorities t) a \<and> om_get (create_receipts t) (a, req) = None
    \<and> \<not> create_limits_exceeded t a"

lemma create_readyD:
  assumes "create_ready t a req d"
  shows "control_ok t" "om_get (documents t) d = None" "om_contains (create_authorities t) a"
    "om_get (create_receipts t) (a, req) = None" "\<not> create_limits_exceeded t a"
  using assms by (simp_all add: create_ready_def)

lemma create_effectD:
  assumes "create_effect t t' a req d root v"
  shows "adds_capability t t' d root (root_row v) FULL_OPS"
    "documents t' = om_insert d
        \<lparr> dr_state = 0, dr_control_revision = 1, dr_root_capability_id = root \<rparr> (documents t)"
    "create_receipts t' = om_insert (a, req)
        \<lparr> cc_document_id = d, cc_root_capability_id = root,
          cc_normalized_input = create_normalized_input d root v \<rparr> (create_receipts t)"
    "create_authorities t' = create_authorities t" "control_receipts t' = control_receipts t"
  using assms by (simp_all add: create_effect_def)

lemma count_where_0: "(\<And>k v. (k, v) \<in> set t \<Longrightarrow> \<not> P k v) \<Longrightarrow> count_where P t = 0"
  by (auto simp add: count_where_def filter_empty_conv)

text \<open>A document the store does not know has no rows in any control table.\<close>

lemma unknown_document:
  assumes "control_ok t" "om_get (documents t) d = None"
  shows "om_get (capabilities t) (d, c) = None" "om_get (control_receipts t) (d, i, r) = None"
    "caps_in t d = 0" "direct_children t d p = 0" "receipts_in t d = 0"
proof -
  have inv: "om_invar (capabilities t)" "om_invar (control_receipts t)"
    using control_okD(1) [OF assms(1)] by (simp_all add: sorted_ok_def)
  have caps: "om_get (capabilities t) (d, c) = None" for c
    using caps_okD [OF assms(1), of d c] assms(2) by (cases "om_get (capabilities t) (d, c)")
      (auto simp add: cap_row_ok_def)
  have recs: "om_get (control_receipts t) (d, i, r) = None" for i r
  proof (rule ccontr)
    assume "om_get (control_receipts t) (d, i, r) \<noteq> None"
    then obtain row where "om_get (control_receipts t) (d, i, r) = Some row" by blast
    then have "om_contains (documents t) d"
      using control_okD(6) [OF assms(1)] unfolding receipts_ok_def by blast
    with assms(2) show False by (simp add: om_contains_def)
  qed
  show "om_get (capabilities t) (d, c) = None" "om_get (control_receipts t) (d, i, r) = None"
    by (rule caps recs)+
  show "caps_in t d = 0" unfolding caps_in_def
    by (rule count_where_0) (use caps om.entries_get [OF inv(1)] in \<open>auto split: prod.splits\<close>)
  show "direct_children t d p = 0" unfolding direct_children_def
    by (rule count_where_0) (use caps om.entries_get [OF inv(1)] in \<open>auto split: prod.splits\<close>)
  show "receipts_in t d = 0" unfolding receipts_in_def
    by (rule count_where_0) (use recs om.entries_get [OF inv(2)] in \<open>auto split: prod.splits\<close>)
qed

lemma insert_root_effect:
  assumes "create_ready t a req d"
  shows "\<exists>t'. insert_root a req d root v t = Inr t' \<and> create_effect t t' a req d root v"
proof -
  note ready = create_readyD [OF assms]
  note unknown = unknown_document [OF ready(1,2)]
  let ?doc = "\<lparr> dr_state = 0, dr_control_revision = 1, dr_root_capability_id = root \<rparr>"
  let ?t1 = "t\<lparr> documents := om_insert d ?doc (documents t),
      capabilities := om_insert (d, root) (root_row v) (capabilities t) \<rparr>"
  have inv: "om_invar (capability_operations t)"
    using control_okD(1) [OF ready(1)] by (simp add: sorted_ok_def)
  have "om_contains (capabilities ?t1) (d, root)" by simp
  moreover have "\<not> om_contains (capability_operations ?t1) (d, root, operation_code op)" for op
    using no_ops_unknown [OF ready(1) unknown(1)] by simp
  ultimately obtain co where co:
    "insert_operations d root FULL_OPS ?t1 = Inr (?t1\<lparr> capability_operations := co \<rparr>)"
    "om_invar co" "\<forall>k. om_contains co k \<longleftrightarrow> om_contains (capability_operations t) k
      \<or> (\<exists>op. contains FULL_OPS op \<and> k = (d, root, operation_code op))"
    using insert_operations_ok [of ?t1 d root FULL_OPS] inv by auto
  let ?t' = "?t1\<lparr> capability_operations := co, create_receipts := om_insert (a, req)
      \<lparr> cc_document_id = d, cc_root_capability_id = root,
        cc_normalized_input = create_normalized_input d root v \<rparr> (create_receipts t) \<rparr>"
  have "insert_root a req d root v t = Inr ?t'"
    using ready(2,3,4) unknown(1) co(1)
    by (auto simp add: insert_root_def sql_insert_def om_contains_def root_row_def Let_def)
  moreover have "create_effect t ?t' a req d root v"
    using unknown(1) co(2,3) by (simp add: create_effect_def adds_capability_def)
  ultimately show ?thesis by blast
qed

lemma create_docs:
  assumes "create_ready t a req d" "create_effect t t' a req d root v"
    and "om_get (documents t) x = Some xdoc"
  shows "\<exists>xdoc'. om_get (documents t') x = Some xdoc'
    \<and> dr_root_capability_id xdoc' = dr_root_capability_id xdoc
    \<and> dr_control_revision xdoc \<le> dr_control_revision xdoc'"
  using assms(3) create_readyD(2) [OF assms(1)] create_effectD(2) [OF assms(2)] by auto

lemma create_caps_ok:
  assumes "create_ready t a req d" "create_effect t t' a req d root v"
  shows "caps_ok t'"
  unfolding caps_ok_def
proof (intro allI impI)
  fix x y r
  assume r: "om_get (capabilities t') (x, y) = Some r"
  note ready = create_readyD [OF assms(1)] and eff = create_effectD [OF assms(2)]
  show "cap_row_ok t' x y r"
  proof (cases "(x, y) = (d, root)")
    case True
    with r have "r = root_row v" using adds_capability_get [OF eff(1), of d root] by simp
    moreover have "ops_in t' d root = UNIV"
      using adds_capability_ops_in [OF ready(1) eff(1), of d root] by (simp add: ops_of_full)
    ultimately show ?thesis
      using True eff(2) by (simp add: cap_row_ok_def row_doc_ok_def root_row_def)
  next
    case False
    with r have "om_get (capabilities t) (x, y) = Some r"
      using adds_capability_get [OF eff(1), of x y] by auto
    then show ?thesis
      using adds_capability_old_row [OF ready(1) eff(1)] create_docs [OF assms] by blast
  qed
qed


lemma create_depth_ok:
  assumes "create_ready t a req d" "create_effect t t' a req d root v"
  shows "depth_ok t'"
proof -
  note ready = create_readyD [OF assms(1)] and eff = create_effectD [OF assms(2)]
  have "par_of t' d root = Some None"
    by (simp add: adds_capability_par_of [OF eff(1)] root_row_def)
  then have "chain (par_of t' d) root [root]" by (rule chain_root)
  then have "\<exists>cs. chain (par_of t' d) root cs \<and> length cs \<le> MAX_CAPABILITY_DEPTH"
    by (intro exI [of _ "[root]"]) (simp add: MAX_CAPABILITY_DEPTH_def)
  then show ?thesis by (rule adds_capability_depth [OF ready(1) eff(1)])
qed

lemma create_docs_ok:
  assumes "create_ready t a req d" "create_effect t t' a req d root v"
  shows "docs_ok t'"
  unfolding docs_ok_def
proof (intro allI impI)
  fix x doc
  assume x: "om_get (documents t') x = Some doc"
  note ready = create_readyD [OF assms(1)] and eff = create_effectD [OF assms(2)]
  have receipts: "receipts_in t' x = receipts_in t x" by (simp add: receipts_in_def eff(5))
  have keep: "om_contains (capabilities t) (x, c) \<Longrightarrow> om_contains (capabilities t') (x, c)" for c
    using eff(1) by (simp add: adds_capability_def)
  show "(dr_state doc = 0 \<or> dr_state doc = 1)
      \<and> om_contains (capabilities t') (x, dr_root_capability_id doc)
      \<and> unat (dr_control_revision doc) = 1 + receipts_in t' x"
  proof (cases "x = d")
    case True
    with x have "doc = \<lparr> dr_state = 0, dr_control_revision = 1, dr_root_capability_id = root \<rparr>"
      by (simp add: eff(2))
    moreover have "om_contains (capabilities t') (d, root)"
      using eff(1) by (simp add: adds_capability_def)
    ultimately show ?thesis
      using True receipts unknown_document(5) [OF ready(1,2)] by simp
  next
    case False
    with x have "om_get (documents t) x = Some doc" by (simp add: eff(2))
    then show ?thesis
      using control_okD(4) [OF ready(1)] keep receipts unfolding docs_ok_def by simp
  qed
qed

lemma create_receipts_ok:
  assumes "create_ready t a req d" "create_effect t t' a req d root v"
  shows "receipts_ok t'"
  unfolding receipts_ok_def
proof (intro allI impI)
  fix x i r rrow
  note ready = create_readyD [OF assms(1)] and eff = create_effectD [OF assms(2)]
  assume "om_get (control_receipts t') (x, i, r) = Some rrow"
  then have "om_get (control_receipts t) (x, i, r) = Some rrow" by (simp add: eff(5))
  moreover have "om_contains (documents t) y \<Longrightarrow> om_contains (documents t') y" for y
    by (simp add: eff(2))
  ultimately show "om_contains (documents t') x \<and> om_contains (capabilities t') (x, i)
      \<and> (grant_receipt_ok t' x i rrow \<or> revoke_receipt_ok t' x rrow)"
    using adds_capability_receipts [OF ready(1) eff(1)] by blast
qed

lemma create_limits_not_exceeded:
  assumes "\<not> create_limits_exceeded t a"
  shows "count_where (\<lambda>(a', _) _. a' = a) (create_receipts t) < MAX_DOCUMENTS_PER_CREATE_AUTHORITY"
    and "count_where (\<lambda>_ _. True) (documents t) < MAX_GLOBAL_DOCUMENTS"
    and "count_where (\<lambda>_ _. True) (capabilities t) < MAX_GLOBAL_CAPABILITIES"
  using assms by (simp_all add: create_limits_exceeded_def)

lemma create_counts_ok:
  assumes "create_ready t a req d" "create_effect t t' a req d root v"
  shows "counts_ok t'"
proof -
  note ready = create_readyD [OF assms(1)] and eff = create_effectD [OF assms(2)]
  note counts = counts_okD [OF ready(1)] and unknown = unknown_document [OF ready(1,2)]
  have "caps_in t' x \<le> MAX_CAPABILITIES_PER_DOCUMENT" for x
    using counts(1) [of x] unknown(3) adds_capability_counts(1) [OF eff(1), of x]
    by (cases "x = d") (simp_all add: MAX_CAPABILITIES_PER_DOCUMENT_def)
  moreover have "direct_children t' x p = direct_children t x p" for x p
    using adds_capability_counts(3) [OF eff(1), of x p] by (simp add: root_row_def)
  moreover have "receipts_in t' x = receipts_in t x" for x by (simp add: receipts_in_def eff(5))
  moreover have "count_where (\<lambda>_ _. True) (capabilities t') \<le> MAX_GLOBAL_CAPABILITIES"
    using create_limits_not_exceeded(3) [OF ready(5)] adds_capability_counts(2) [OF eff(1)] by simp
  ultimately show ?thesis
    unfolding counts_ok_def using counts(2,3,5) by (simp add: eff(5))
qed

lemma create_create_rows_ok:
  assumes "create_ready t a req d" "create_effect t t' a req d root v"
  shows "create_rows_ok t'"
proof -
  note ready = create_readyD [OF assms(1)] and eff = create_effectD [OF assms(2)]
  note old = control_okD(8) [OF ready(1)] and room = create_limits_not_exceeded [OF ready(5)]
  have authority: "om_contains (create_authorities t) a'"
    if "om_get (create_receipts t') (a', r) = Some row" for a' r row
    using that old ready(3) by (auto simp add: eff(3) create_rows_ok_def split: if_splits)
  have rows: "\<exists>crow. om_get (capabilities t') (cc_document_id row, cc_root_capability_id row) = Some crow
      \<and> cr_root crow \<and> cc_normalized_input row = create_normalized_input (cc_document_id row)
          (cc_root_capability_id row)
          \<lparr> vp_live = cr_live_verifier crow, vp_receipt = cr_receipt_verifier crow \<rparr>"
    if receipt: "om_get (create_receipts t') (a', r) = Some row" for a' r row
  proof (cases "(a', r) = (a, req)")
    case True
    with receipt have "row = \<lparr> cc_document_id = d, cc_root_capability_id = root,
        cc_normalized_input = create_normalized_input d root v \<rparr>" by (simp add: eff(3))
    then show ?thesis
      using adds_capability_get [OF eff(1), of d root] by (cases v) (simp add: root_row_def)
  next
    case False
    with receipt have "om_get (create_receipts t) (a', r) = Some row" by (auto simp add: eff(3))
    then show ?thesis by (rule adds_capability_create_rows [OF ready(1) eff(1)])
  qed
  have counts: "count_where (\<lambda>_ _. True) (documents t') = count_where (\<lambda>_ _. True) (documents t) + 1"
    "count_where (\<lambda>_ _. True) (create_receipts t') = count_where (\<lambda>_ _. True) (create_receipts t) + 1"
    "count_where (\<lambda>(x, _) _. x = a') (create_receipts t')
      = count_where (\<lambda>(x, _) _. x = a') (create_receipts t) + (if a' = a then 1 else 0)" for a'
    using ready(2,4) by (auto simp add: eff(2,3) count_where_insert)
  have same: "count_where (\<lambda>_ _. True) (documents t) = count_where (\<lambda>_ _. True) (create_receipts t)"
    "count_where (\<lambda>(x, _) _. x = a') (create_receipts t) \<le> MAX_DOCUMENTS_PER_CREATE_AUTHORITY" for a'
    using old unfolding create_rows_ok_def by blast+
  have per: "count_where (\<lambda>(x, _) _. x = a') (create_receipts t') \<le> MAX_DOCUMENTS_PER_CREATE_AUTHORITY"
    for a'
    using same(2) [of a'] room(1) counts(3) [of a'] by (cases "a' = a") simp_all
  have total: "count_where (\<lambda>_ _. True) (documents t') = count_where (\<lambda>_ _. True) (create_receipts t')"
    "count_where (\<lambda>_ _. True) (documents t') \<le> MAX_GLOBAL_DOCUMENTS"
    using same(1) room(2) counts(1,2) by simp_all
  show ?thesis unfolding create_rows_ok_def eff(4) using authority rows per total by blast
qed

text \<open>A creation that passes every check keeps the invariant.\<close>

lemma create_keeps_ok:
  assumes "create_ready t a req d" "create_effect t t' a req d root v"
  shows "control_ok t'"
proof -
  note ready = create_readyD [OF assms(1)] and eff = create_effectD [OF assms(2)]
  have "sorted_ok t'"
    using control_okD(1) [OF ready(1)] eff by (simp add: sorted_ok_def adds_capability_def)
  then show ?thesis
    unfolding control_ok_def
    using create_caps_ok [OF assms] create_depth_ok [OF assms] create_docs_ok [OF assms]
      adds_capability_op_rows [OF ready(1) eff(1)] create_receipts_ok [OF assms]
      create_counts_ok [OF assms] create_create_rows_ok [OF assms] by blast
qed

end
