(* ===== verification/Store_Steps.thy ===== *)
theory Store_Steps
  imports Store_Safety
begin

text \<open>
  What every control transaction can do from a good state, as a step relation and its reachable
  states: no storage error, an insertion with its exact effect, or no change at all.
\<close>

section \<open>Outcomes of the transactions\<close>

lemma authorize_active:
  assumes "control_ok t" "authorize sha t d c a op"
  shows "active t d c" "op \<in> ops_in t d c"
    "\<exists>doc. om_get (documents t) d = Some doc \<and> dr_state doc = 0"
  using assms next_control_revision_authorized [of t d]
  by (auto simp add: authorize_spec holds_def active_def)

lemma next_control_revision_iff:
  "next_control_revision t d = Some revision \<longleftrightarrow>
    (\<exists>doc. om_get (documents t) d = Some doc \<and> dr_state doc = 0
      \<and> checked_add (dr_control_revision doc) 1 = Some revision)"
  by (auto simp add: next_control_revision_def split: option.split)

lemma resolve_None_iff:
  "resolve_control_receipt sha t d i a req op input = None \<longleftrightarrow>
    om_get (control_receipts t) (d, i, req) = None"
  by (auto simp add: resolve_control_receipt_def split: option.split)

lemma resolve_not_inserted:
  "resolve_control_receipt sha t d i a req op input = Some outcome \<Longrightarrow> outcome \<noteq> StInserted"
  by (auto simp add: resolve_control_receipt_def split: option.splits if_splits)

lemma limits_imply_counts:
  "\<not> control_limits_exceeded t d p a n l \<Longrightarrow> \<not> control_counts_exceeded t d p a"
  by (auto simp add: control_limits_exceeded_def)

text \<open>
  The checks of a grant, as the conjunction that a fresh request has to pass, in any state.
\<close>

definition grant_checks ::
  "(bytes \<Rightarrow> key32) \<Rightarrow> tables \<Rightarrow> document_id \<Rightarrow> capability_id \<Rightarrow> authenticator \<Rightarrow> request_id
    \<Rightarrow> capability_id \<Rightarrow> authenticator \<Rightarrow> operation_set \<Rightarrow> u64 \<Rightarrow> bool" where
  "grant_checks sha t d issuer ia req c ca s revision \<longleftrightarrow>
    om_get (control_receipts t) (d, issuer, req) = None
    \<and> authorize sha t d issuer ia Grant
    \<and> next_control_revision t d = Some revision
    \<and> ops_of s \<noteq> {} \<and> ops_of s \<subseteq> ops_in t d issuer
    \<and> om_get (capabilities t) (d, c) = None
    \<and> store_issuer_has_descendant_capacity t d issuer
    \<and> \<not> control_limits_exceeded t d (Some issuer) True (count_ones (ops_bits s))
        (length (grant_normalized_input c (derive sha d c ca) s))"

lemma grant_checks_ready:
  assumes "control_ok t" "canonical_ops s" "grant_checks sha t d issuer ia req c ca s revision"
  obtains doc where "grant_ready t d doc issuer req c s revision"
proof -
  obtain doc where "om_get (documents t) d = Some doc" "dr_state doc = 0"
    "checked_add (dr_control_revision doc) 1 = Some revision"
    using assms(3) by (auto simp add: grant_checks_def next_control_revision_iff)
  then have "grant_ready t d doc issuer req c s revision"
    using assms limits_imply_counts authorize_active(1) [OF assms(1)]
    unfolding grant_checks_def grant_ready_def by blast
  then show thesis by (rule that)
qed

lemma grant_passes:
  assumes "control_ok t" "canonical_ops s" "grant_checks sha t d issuer ia req c ca s revision"
  shows "\<exists>doc t'. store_grant_capability sha t d issuer ia req c ca s = Inr (StInserted, t')
    \<and> grant_ready t d doc issuer req c s revision
    \<and> grant_effect t t' d doc issuer req c (derive sha d c ca) s revision"
proof -
  note checks = assms(3) [unfolded grant_checks_def]
  obtain doc where ready: "grant_ready t d doc issuer req c s revision"
    using grant_checks_ready [OF assms] .
  note r = grant_readyD [OF ready]
  have cont: "om_contains (capabilities t) (d, issuer)" "\<not> om_contains (capabilities t) (d, c)"
    using r(5,10) by (auto simp add: active_def om_contains_def)
  obtain t' where t': "insert_grant d issuer req c (derive sha d c ca) s revision t = Inr t'"
    "grant_effect t t' d doc issuer req c (derive sha d c ca) s revision"
    using insert_grant_effect [OF r(1,2,3) cont r(9)] by blast
  obtain held where held: "load_operation_set t d issuer = Inr held" "ops_of held = ops_in t d issuer"
    using load_operation_set_ok [OF control_okD(5) [OF assms(1)]] by blast
  have "allows held s" using r(7,8) held(2) by (simp add: allows_iff [OF assms(2)])
  moreover have "\<not> ops_is_empty s"
    using r(7) ops_of_empty_iff [OF assms(2)] by (simp add: ops_is_empty_def)
  ultimately have "store_grant_capability sha t d issuer ia req c ca s = Inr (StInserted, t')"
    using checks cont t'(1) held(1)
    by (simp add: store_grant_capability_def resolve_None_iff [THEN iffD2])
  with ready t'(2) show ?thesis by blast
qed

lemma grant_fails:
  assumes "control_ok t" "canonical_ops s"
    and "\<nexists>revision. grant_checks sha t d issuer ia req c ca s revision"
  shows "\<exists>outcome. store_grant_capability sha t d issuer ia req c ca s = Inr (outcome, t)
    \<and> outcome \<noteq> StInserted"
proof -
  obtain held where held: "load_operation_set t d issuer = Inr held" "ops_of held = ops_in t d issuer"
    using load_operation_set_ok [OF control_okD(5) [OF assms(1)]] by blast
  have al: "allows held s \<longleftrightarrow> ops_of s \<noteq> {} \<and> ops_of s \<subseteq> ops_in t d issuer"
    using held(2) by (simp add: allows_iff [OF assms(2)])
  show ?thesis
    using assms(3) held(1) al resolve_not_inserted
    unfolding store_grant_capability_def Let_def grant_checks_def
    by (auto split: option.split simp add: om_contains_def resolve_None_iff)
qed


text \<open>A revoke, likewise.\<close>

definition revoke_checks ::
  "(bytes \<Rightarrow> key32) \<Rightarrow> tables \<Rightarrow> document_id \<Rightarrow> capability_id \<Rightarrow> authenticator \<Rightarrow> request_id
    \<Rightarrow> capability_id \<Rightarrow> u64 \<Rightarrow> bool" where
  "revoke_checks sha t d issuer a req target revision \<longleftrightarrow>
    om_get (control_receipts t) (d, issuer, req) = None
    \<and> authorize sha t d issuer a Revoke
    \<and> next_control_revision t d = Some revision
    \<and> active t d target \<and> descends (par_of t d) issuer target
    \<and> \<not> control_limits_exceeded t d None False 0 (length (be_encode target))"

lemma revoke_checks_ready:
  assumes "control_ok t" "revoke_checks sha t d issuer a req target revision"
  obtains doc where "revoke_ready t d doc issuer req target revision"
proof -
  obtain doc where "om_get (documents t) d = Some doc" "dr_state doc = 0"
    "checked_add (dr_control_revision doc) 1 = Some revision"
    using assms(2) by (auto simp add: revoke_checks_def next_control_revision_iff)
  then have "revoke_ready t d doc issuer req target revision"
    using assms limits_imply_counts authorize_active(1) [OF assms(1)] active_known
    unfolding revoke_checks_def revoke_ready_def by blast
  then show thesis by (rule that)
qed

lemma revoke_passes:
  assumes "control_ok t" "revoke_checks sha t d issuer a req target revision"
  shows "\<exists>doc t'. store_revoke_capability sha t d issuer a req target = Inr (StInserted, t')
    \<and> revoke_ready t d doc issuer req target revision
    \<and> revoke_effect t t' d doc issuer req target revision"
proof -
  obtain doc where ready: "revoke_ready t d doc issuer req target revision"
    using revoke_checks_ready [OF assms] .
  note r = revoke_readyD [OF ready] and checks = assms(2) [unfolded revoke_checks_def]
  obtain t1 t' where t': "insert_control_receipt d issuer req 1 (be_encode target)
      (revoke_subtree t d target) = Inr t1" "set_control_revision d revision t1 = Inr t'"
    "revoke_effect t t' d doc issuer req target revision"
    using revoke_rows_effect [OF r(1,2,3,5,6,7)] by blast
  have "store_revoke_capability sha t d issuer a req target = Inr (StInserted, t')"
    using checks t'(1,2) store_is_active_descendant_spec [OF assms(1)]
    by (simp add: store_revoke_capability_def resolve_None_iff [THEN iffD2])
  with ready t'(3) show ?thesis by blast
qed

lemma revoke_fails:
  assumes "control_ok t" "\<nexists>revision. revoke_checks sha t d issuer a req target revision"
  shows "\<exists>outcome. store_revoke_capability sha t d issuer a req target = Inr (outcome, t)
    \<and> outcome \<noteq> StInserted"
  using assms(2) store_is_active_descendant_spec [OF assms(1)] resolve_not_inserted
  unfolding store_revoke_capability_def Let_def revoke_checks_def
  by (auto split: option.split simp add: resolve_None_iff)

text \<open>A creation, likewise.\<close>

definition create_live ::
  "(bytes \<Rightarrow> key32) \<Rightarrow> tables \<Rightarrow> create_authority_id \<Rightarrow> authenticator \<Rightarrow> bool" where
  "create_live sha t a auth \<longleftrightarrow> (\<exists>row. om_get (create_authorities t) a = Some row
    \<and> car_state row = 0 \<and> verify_create_live sha (car_live_verifier row) a auth)"

definition create_checks ::
  "(bytes \<Rightarrow> key32) \<Rightarrow> tables \<Rightarrow> create_authority_id \<Rightarrow> authenticator \<Rightarrow> request_id
    \<Rightarrow> document_id \<Rightarrow> bool" where
  "create_checks sha t a auth req d \<longleftrightarrow> create_live sha t a auth
    \<and> om_get (create_receipts t) (a, req) = None \<and> om_get (documents t) d = None
    \<and> \<not> create_limits_exceeded t a"

lemma create_passes:
  assumes "control_ok t" "create_checks sha t a auth req d"
  shows "\<exists>t'. store_create_document sha t a auth req d root ra = Inr (StCreateInserted, t')
    \<and> create_ready t a req d \<and> create_effect t t' a req d root (derive sha d root ra)"
proof -
  have ready: "create_ready t a req d"
    using assms by (auto simp add: create_checks_def create_ready_def create_live_def om_contains_def)
  obtain t' where "insert_root a req d root (derive sha d root ra) t = Inr t'"
    "create_effect t t' a req d root (derive sha d root ra)"
    using insert_root_effect [OF ready] by blast
  with ready assms(2) show ?thesis
    by (auto simp add: create_checks_def create_live_def store_create_document_def)
qed

lemma create_fails:
  assumes "\<not> create_checks sha t a auth req d"
  shows "\<exists>outcome. store_create_document sha t a auth req d root ra = Inr (outcome, t)
    \<and> outcome \<noteq> StCreateInserted"
  using assms unfolding create_checks_def create_live_def store_create_document_def Let_def
  by (auto split: option.split)


section \<open>Histories\<close>

text \<open>
  A step is one committed transaction; a history starts with the empty tables.  Operation sets
  come from \<open>OperationSet::from_bits\<close>, so they are canonical.
\<close>

inductive control_step :: "(bytes \<Rightarrow> key32) \<Rightarrow> tables \<Rightarrow> tables \<Rightarrow> bool" for sha where
  step_provision: "provision_create_authority p t = Inr t' \<Longrightarrow> control_step sha t t'"
| step_create: "store_create_document sha t a auth req d root ra = Inr (create_outcome, t') \<Longrightarrow>
    control_step sha t t'"
| step_grant: "canonical_ops s \<Longrightarrow>
    store_grant_capability sha t d issuer ia req c ca s = Inr (outcome, t') \<Longrightarrow> control_step sha t t'"
| step_revoke: "store_revoke_capability sha t d issuer ia req target = Inr (outcome, t') \<Longrightarrow>
    control_step sha t t'"

inductive_cases control_stepE: "control_step sha t t'"

inductive control_history :: "(bytes \<Rightarrow> key32) \<Rightarrow> tables \<Rightarrow> tables \<Rightarrow> bool" for sha where
  history_start: "control_history sha t t"
| history_step: "control_history sha t t' \<Longrightarrow> control_step sha t' t'' \<Longrightarrow> control_history sha t t''"

datatype control_effect =
    NoEffect
  | Provisioned create_authority_provision
  | Created create_authority_id request_id document_id capability_id verifier_pair
  | Granted document_id document_row capability_id request_id capability_id verifier_pair
      operation_set u64
  | Revoked document_id document_row capability_id request_id capability_id u64

fun has_effect :: "tables \<Rightarrow> control_effect \<Rightarrow> tables \<Rightarrow> bool" where
  "has_effect t NoEffect t' \<longleftrightarrow> t' = t"
| "has_effect t (Provisioned p) t' \<longleftrightarrow>
    om_get (create_authorities t) (cp_create_authority_id p) = None
    \<and> t' = t\<lparr> create_authorities := om_insert (cp_create_authority_id p)
        \<lparr> car_live_verifier = cp_live_verifier p, car_receipt_verifier = cp_receipt_verifier p,
          car_state = 0 \<rparr> (create_authorities t) \<rparr>"
| "has_effect t (Created a req d root v) t' \<longleftrightarrow>
    create_ready t a req d \<and> create_effect t t' a req d root v"
| "has_effect t (Granted d doc issuer req c v s revision) t' \<longleftrightarrow>
    grant_ready t d doc issuer req c s revision \<and> grant_effect t t' d doc issuer req c v s revision"
| "has_effect t (Revoked d doc issuer req target revision) t' \<longleftrightarrow>
    revoke_ready t d doc issuer req target revision
    \<and> revoke_effect t t' d doc issuer req target revision"

lemma provision_effect:
  "provision_create_authority p t = Inr t' \<Longrightarrow>
    has_effect t NoEffect t' \<or> has_effect t (Provisioned p) t'"
  by (auto simp add: provision_create_authority_def sql_insert_def om_contains_def
      split: option.splits if_splits)

lemma control_step_effect:
  assumes "control_ok t" "control_step sha t t'"
  shows "\<exists>e. has_effect t e t'"
  using assms(2)
proof (cases rule: control_step.cases)
  case (step_provision p)
  then show ?thesis using provision_effect by blast
next
  case (step_create a auth req d root ra create_outcome)
  show ?thesis
  proof (cases "create_checks sha t a auth req d")
    case True
    then have "has_effect t (Created a req d root (derive sha d root ra)) t'"
      using create_passes [OF assms(1) True, of root ra] step_create by auto
    then show ?thesis by blast
  next
    case False
    then have "has_effect t NoEffect t'" using create_fails [OF False, of root ra] step_create by auto
    then show ?thesis by blast
  qed
next
  case (step_grant s d issuer ia req c ca outcome)
  show ?thesis
  proof (cases "\<exists>revision. grant_checks sha t d issuer ia req c ca s revision")
    case True
    then obtain revision doc where
      "has_effect t (Granted d doc issuer req c (derive sha d c ca) s revision) t'"
      using grant_passes [OF assms(1) step_grant(1)] step_grant(2) by fastforce
    then show ?thesis by blast
  next
    case False
    then have "has_effect t NoEffect t'"
      using grant_fails [OF assms(1) step_grant(1) False] step_grant(2) by auto
    then show ?thesis by blast
  qed
next
  case (step_revoke d issuer ia req target outcome)
  show ?thesis
  proof (cases "\<exists>revision. revoke_checks sha t d issuer ia req target revision")
    case True
    then obtain revision doc where "has_effect t (Revoked d doc issuer req target revision) t'"
      using revoke_passes [OF assms(1)] step_revoke by fastforce
    then show ?thesis by blast
  next
    case False
    then have "has_effect t NoEffect t'" using revoke_fails [OF assms(1) False] step_revoke by auto
    then show ?thesis by blast
  qed
qed

lemma provision_keeps_ok:
  assumes "control_ok t" "has_effect t (Provisioned p) t'"
  shows "control_ok t'"
proof -
  have "create_rows_ok t'"
    using control_okD(8) [OF assms(1)] assms(2) unfolding create_rows_ok_def by simp
  moreover have "par_of t' = par_of t" using assms(2) by (intro ext) (auto simp add: par_of_def)
  then have "depth_ok t'" using control_okD(3) [OF assms(1)] by (simp add: depth_ok_def)
  moreover have "sorted_ok t'" "caps_ok t'" "docs_ok t'" "op_rows_ok t'" "receipts_ok t'" "counts_ok t'"
    using assms(2) control_okD [OF assms(1)]
    by (simp_all add: sorted_ok_def caps_ok_def docs_ok_def op_rows_ok_def receipts_ok_def counts_ok_def
        cap_row_ok_def ops_in_def receipts_in_def caps_in_def direct_children_def grant_receipt_ok_def
        revoke_receipt_ok_def)
  ultimately show ?thesis by (simp add: control_ok_def)
qed

lemma effect_keeps_ok:
  assumes "control_ok t" "has_effect t e t'"
  shows "control_ok t'"
proof (cases e)
  case NoEffect
  with assms show ?thesis by simp
next
  case (Provisioned p)
  with assms show ?thesis using provision_keeps_ok by blast
next
  case (Created a req d root v)
  with assms(2) show ?thesis using create_keeps_ok by auto
next
  case (Granted d doc issuer req c v s revision)
  with assms(2) show ?thesis using grant_keeps_ok by auto
next
  case (Revoked d doc issuer req target revision)
  with assms(2) show ?thesis using revoke_keeps_ok by auto
qed

lemma control_step_keeps_ok: "control_ok t \<Longrightarrow> control_step sha t t' \<Longrightarrow> control_ok t'"
  using control_step_effect effect_keeps_ok by blast

lemma control_history_keeps_ok: "control_history sha t t' \<Longrightarrow> control_ok t \<Longrightarrow> control_ok t'"
  by (induction rule: control_history.induct) (auto dest: control_step_keeps_ok)

lemma empty_control_ok: "control_ok empty_tables"
proof -
  have "om_invar ([] :: ('a::linorder, 'b) omap)" by (simp add: om_invar_def)
  then show ?thesis
    by (simp add: control_ok_def om_invar_def sorted_ok_def caps_ok_def depth_ok_def docs_ok_def op_rows_ok_def
        receipts_ok_def counts_ok_def create_rows_ok_def empty_tables_def par_of_def caps_in_def
        receipts_in_def direct_children_def om_empty_def om_get_def om_contains_def count_where_def)
qed


section \<open>What a history keeps\<close>

text \<open>
  Nothing is ever deleted: capabilities keep their parent, verifiers and operations, a revoked
  capability stays revoked, receipts and provisioned authorities stay as they are.
\<close>

definition row_kept :: "capability_row \<Rightarrow> capability_row \<Rightarrow> bool" where
  "row_kept r r' \<longleftrightarrow> cr_parent r' = cr_parent r \<and> cr_root r' = cr_root r
    \<and> cr_live_verifier r' = cr_live_verifier r \<and> cr_receipt_verifier r' = cr_receipt_verifier r
    \<and> cr_created_revision r' = cr_created_revision r \<and> (cr_state r \<noteq> 0 \<longrightarrow> cr_state r' \<noteq> 0)"

definition control_extends :: "tables \<Rightarrow> tables \<Rightarrow> bool" where
  "control_extends t t' \<longleftrightarrow>
    (\<forall>d c r. om_get (capabilities t) (d, c) = Some r \<longrightarrow>
      (\<exists>r'. om_get (capabilities t') (d, c) = Some r' \<and> row_kept r r') \<and> ops_in t' d c = ops_in t d c)
    \<and> (\<forall>k r. om_get (control_receipts t) k = Some r \<longrightarrow> om_get (control_receipts t') k = Some r)
    \<and> (\<forall>k r. om_get (create_receipts t) k = Some r \<longrightarrow> om_get (create_receipts t') k = Some r)
    \<and> (\<forall>k r. om_get (create_authorities t) k = Some r \<longrightarrow> om_get (create_authorities t') k = Some r)"

lemma row_kept_refl [simp]: "row_kept r r"
  by (simp add: row_kept_def)

lemma row_kept_trans: "row_kept a b \<Longrightarrow> row_kept b c \<Longrightarrow> row_kept a c"
  by (simp add: row_kept_def)

lemma control_extends_refl: "control_extends t t"
  by (simp add: control_extends_def)

lemma control_extendsD:
  assumes "control_extends t t'"
  shows "om_get (capabilities t) (d, c) = Some r \<Longrightarrow>
      \<exists>r'. om_get (capabilities t') (d, c) = Some r' \<and> row_kept r r'"
    "om_get (capabilities t) (d, c) = Some r \<Longrightarrow> ops_in t' d c = ops_in t d c"
    "om_get (control_receipts t) k = Some q \<Longrightarrow> om_get (control_receipts t') k = Some q"
    "om_get (create_receipts t) m = Some w \<Longrightarrow> om_get (create_receipts t') m = Some w"
    "om_get (create_authorities t) a = Some u \<Longrightarrow> om_get (create_authorities t') a = Some u"
  using assms unfolding control_extends_def by blast+

lemma control_extends_trans:
  assumes "control_extends t t'" "control_extends t' t''"
  shows "control_extends t t''"
proof -
  note ext = control_extendsD [OF assms(1)] and ext' = control_extendsD [OF assms(2)]
  have caps: "(\<exists>r''. om_get (capabilities t'') (d, c) = Some r'' \<and> row_kept r r'')
      \<and> ops_in t'' d c = ops_in t d c" if row: "om_get (capabilities t) (d, c) = Some r" for d c r
  proof -
    obtain r' where r': "om_get (capabilities t') (d, c) = Some r'" "row_kept r r'"
      "ops_in t' d c = ops_in t d c"
      using ext(1,2) [OF row] by blast
    obtain r'' where "om_get (capabilities t'') (d, c) = Some r''" "row_kept r' r''"
      "ops_in t'' d c = ops_in t' d c"
      using ext'(1,2) [OF r'(1)] by blast
    with r' show ?thesis using row_kept_trans by auto
  qed
  show ?thesis
    unfolding control_extends_def using caps ext(3-5) ext'(3-5) by blast
qed

lemma adds_capability_extends:
  assumes "control_ok t" "adds_capability t t' d c row s"
    and "om_get (capabilities t) (x, y) = Some r"
  shows "(\<exists>r'. om_get (capabilities t') (x, y) = Some r' \<and> row_kept r r')
    \<and> ops_in t' x y = ops_in t x y"
proof -
  have "(x, y) \<noteq> (d, c)" using assms(2,3) by (auto simp add: adds_capability_def)
  then show ?thesis
    using assms(3) adds_capability_get [OF assms(2), of x y]
      adds_capability_ops_in [OF assms(1,2), of x y] by auto
qed

lemma created_extends:
  assumes "create_ready t a req d" "create_effect t t' a req d root v"
  shows "control_extends t t'"
  using adds_capability_extends [OF create_readyD(1) [OF assms(1)] create_effectD(1) [OF assms(2)]]
    create_readyD(4) [OF assms(1)] create_effectD(3-5) [OF assms(2)]
  unfolding control_extends_def by auto

lemma granted_extends:
  assumes "grant_ready t d doc issuer req c s revision"
    and "grant_effect t t' d doc issuer req c v s revision"
  shows "control_extends t t'"
  using adds_capability_extends [OF grant_readyD(1) [OF assms(1)] grant_effectD(1) [OF assms(2)]]
    grant_readyD(9) [OF assms(1)] grant_effectD(3-5) [OF assms(2)]
  unfolding control_extends_def by auto

lemma revoked_extends:
  assumes "revoke_ready t d doc issuer req target revision"
    and "revoke_effect t t' d doc issuer req target revision"
  shows "control_extends t t'"
proof -
  have "\<exists>r'. om_get (capabilities t') (x, y) = Some r' \<and> row_kept r r'"
    if "om_get (capabilities t) (x, y) = Some r" for x y r
    using revoke_row_kept [OF assms(2) that] unfolding row_kept_def by auto
  then show ?thesis
    using revoke_ops_in [OF assms(2)] revoke_readyD(7) [OF assms(1)]
      revoke_effectD(3,9,10) [OF assms(2)]
    unfolding control_extends_def by auto
qed

lemma effect_extends:
  assumes "control_ok t" "has_effect t e t'"
  shows "control_extends t t'"
proof (cases e)
  case NoEffect
  with assms show ?thesis by (simp add: control_extends_refl)
next
  case (Provisioned p)
  with assms show ?thesis by (auto simp add: control_extends_def ops_in_def)
next
  case (Created a req d root v)
  with assms(2) show ?thesis using created_extends by auto
next
  case (Granted d doc issuer req c v s revision)
  with assms(2) show ?thesis using granted_extends by auto
next
  case (Revoked d doc issuer req target revision)
  with assms(2) show ?thesis using revoked_extends by auto
qed

lemma control_history_extends:
  "control_history sha t t' \<Longrightarrow> control_ok t \<Longrightarrow> control_extends t t'"
proof (induction rule: control_history.induct)
  case (history_start t)
  show ?case by (rule control_extends_refl)
next
  case (history_step t t' t'')
  then have "control_ok t'" by (blast intro: control_history_keeps_ok)
  with history_step show ?case
    using control_step_effect effect_extends control_extends_trans by blast
qed

end
