(* ===== verification/Store_Limits.thy ===== *)
theory Store_Limits
  imports Store_Safety
begin

text \<open>
  The byte limits of \<open>control_limits_exceeded\<close> measured against its count limits: in a good state
  a capability row takes at most 106 bytes, its at most ten operation rows 33 each and a receipt
  at most 115, so the counts are always reached first.
\<close>

lemma count_where_card:
  assumes "om_invar t"
  shows "count_where (\<lambda>k _. P k) t = card {k. om_contains t k \<and> P k}"
proof -
  have d: "distinct (map fst t)" using om.entries_distinct [OF assms] .
  have "count_where (\<lambda>k _. P k) t = length (filter P (map fst t))"
    by (simp add: count_where_def filter_map comp_def split_def)
  also have "\<dots> = card (set (filter P (map fst t)))"
    using distinct_card [of "filter P (map fst t)"] d by simp
  also have "set (filter P (map fst t)) = {k. om_contains t k \<and> P k}"
    by (auto simp add: om_contains_iff)
  finally show ?thesis .
qed

lemma finite_om_keys: "finite {k. om_contains t k \<and> P k}"
  by (rule finite_subset [of _ "fst ` set t"]) (auto simp add: om_contains_iff)

lemma card_operations: "finite (UNIV :: operation set)" "card (UNIV :: operation set) = 10"
proof -
  have u: "(UNIV :: operation set) = set all_operations"
    using all_operations_complete(1) by blast
  show "finite (UNIV :: operation set)" unfolding u by simp
  show "card (UNIV :: operation set) = 10"
    unfolding u distinct_card [OF all_operations_complete(2)] by (simp add: all_operations_def)
qed

lemma operation_rows_count:
  assumes "control_ok t"
  shows "count_where (\<lambda>(d, _, _) _. D d) (capability_operations t)
    \<le> 10 * count_where (\<lambda>(d, _) _. D d) (capabilities t)"
proof -
  let ?rows = "{k. om_contains (capability_operations t) k \<and> (case k of (d, _, _) \<Rightarrow> D d)}"
  let ?caps = "{k. om_contains (capabilities t) k \<and> (case k of (d, _) \<Rightarrow> D d)}"
  let ?f = "\<lambda>((d, c), op). (d, c, operation_code op)"
  have inv: "om_invar (capabilities t)" "om_invar (capability_operations t)"
    using control_okD(1) [OF assms] by (simp_all add: sorted_ok_def)
  have fin: "finite (?caps \<times> (UNIV :: operation set))"
    using finite_om_keys [of "capabilities t"] card_operations(1) by simp
  have "?rows \<subseteq> ?f ` (?caps \<times> UNIV)"
  proof
    fix k
    assume k: "k \<in> ?rows"
    obtain d c code where k3: "k = (d, c, code)" by (cases k)
    with k have row: "om_contains (capability_operations t) (d, c, code)" "D d" by auto
    then have "om_contains (capabilities t) (d, c)" "operation_from_code code \<noteq> None"
      using control_okD(5) [OF assms] unfolding op_rows_ok_def by blast+
    moreover then obtain op where "code = operation_code op"
      using operation_codes.from_code_iff by auto
    ultimately show "k \<in> ?f ` (?caps \<times> UNIV)"
      using row(2) unfolding k3 by (intro image_eqI [of _ _ "((d, c), op)"]) auto
  qed
  then have "card ?rows \<le> card (?caps \<times> (UNIV :: operation set))"
    by (rule surj_card_le [OF fin])
  then have "card ?rows \<le> 10 * card ?caps"
    using card_operations(2) by (simp add: card_cartesian_product)
  then show ?thesis
    using count_where_card [OF inv(2), of "\<lambda>(d, _, _). D d"]
      count_where_card [OF inv(1), of "\<lambda>(d, _). D d"] by (simp add: split_def)
qed

lemma input_lengths: "length (grant_normalized_input c v s) = 82" "length (be_encode (w :: 128 word)) = 16"
  by (simp_all add: grant_normalized_input_def)

lemma receipt_ok_length:
  "grant_receipt_ok t d i row \<Longrightarrow> length (rr_normalized_input row) \<le> 82"
  "revoke_receipt_ok t d row \<Longrightarrow> length (rr_normalized_input row) \<le> 82"
  unfolding grant_receipt_ok_def revoke_receipt_ok_def
  by (elim conjE exE, simp only: input_lengths order_refl) (elim conjE exE, simp)

lemma receipt_input_length:
  assumes "control_ok t" "(k, row) \<in> set (control_receipts t)"
  shows "length (rr_normalized_input row) \<le> 82"
proof -
  obtain d i r where k: "k = (d, i, r)" by (cases k)
  have inv: "om_invar (control_receipts t)"
    using control_okD(1) [OF assms(1)] by (simp add: sorted_ok_def)
  have "om_get (control_receipts t) (d, i, r) = Some row"
    using assms(2) om.entries_get [OF inv, of "(d, i, r)" row] k by simp
  then have "grant_receipt_ok t d i row \<or> revoke_receipt_ok t d row"
    using control_okD(6) [OF assms(1)] unfolding receipts_ok_def by blast
  then show ?thesis using receipt_ok_length by blast
qed

lemma control_logical_bytes_bound:
  assumes "control_ok t"
  shows "control_logical_bytes t D \<le> 436 * count_where (\<lambda>(d, _) _. D d) (capabilities t)
    + 115 * count_where (\<lambda>(d, _, _) _. D d) (control_receipts t)"
proof -
  have "sum_where (\<lambda>(d, _) _. D d) (\<lambda>_ row. capability_row_bytes row) (capabilities t)
      \<le> 106 * count_where (\<lambda>(d, _) _. D d) (capabilities t)"
    by (rule sum_where_bound) (auto simp add: capability_row_bytes_def split: option.split)
  moreover have "sum_where (\<lambda>(d, _, _) _. D d) (\<lambda>_ _. 16 + 16 + 1) (capability_operations t)
      \<le> 33 * count_where (\<lambda>(d, _, _) _. D d) (capability_operations t)"
    by (rule sum_where_bound) simp
  moreover have "sum_where (\<lambda>(d, _, _) _. D d) (\<lambda>_ row. 16 + 16 + length (rr_normalized_input row) + 1)
      (control_receipts t) \<le> 115 * count_where (\<lambda>(d, _, _) _. D d) (control_receipts t)"
    by (rule sum_where_bound) (use receipt_input_length [OF assms] in fastforce)
  ultimately show ?thesis
    using operation_rows_count [OF assms, of D] unfolding control_logical_bytes_def by linarith
qed

lemma count_ones_canonical:
  assumes "canonical_ops s"
  shows "count_ones (ops_bits s) \<le> 10"
proof -
  have "set (filter (bit s) [0..<16]) \<subseteq> {..<10}"
    using assms by (auto simp add: canonical_ops_iff)
  then have "card (set (filter (bit s) [0..<16])) \<le> card {..<10 :: nat}"
    by (intro card_mono) auto
  then show ?thesis
    using distinct_card [of "filter (bit s) [0..<16]"] by (simp add: count_ones_def ops_bits_def)
qed

lemma byte_limits_unreachable:
  assumes "control_ok t" "n \<le> 10" "l \<le> 82"
  shows "control_limits_exceeded t d p a n l \<longleftrightarrow> control_counts_exceeded t d p a"
proof (cases "control_counts_exceeded t d p a")
  case True
  then show ?thesis by (simp add: control_limits_exceeded_def)
next
  case False
  note room = counts_not_exceeded [OF False] and counts = counts_okD [OF assms(1)]
  have caps: "caps_in t d + (if a then 1 else 0) \<le> 1024"
    "count_where (\<lambda>_ _. True) (capabilities t) + (if a then 1 else 0) \<le> 0x4000"
    using room(3,4) counts(1) [of d] counts(4)
    by (auto simp add: MAX_CAPABILITIES_PER_DOCUMENT_def MAX_GLOBAL_CAPABILITIES_def)
  have recs: "receipts_in t d + 1 \<le> 4096"
    "count_where (\<lambda>_ _. True) (control_receipts t) + 1 \<le> 0x10000"
    using room(1,2)
    by (auto simp add: MAX_CONTROL_RECEIPTS_PER_DOCUMENT_def MAX_GLOBAL_CONTROL_RECEIPTS_def)
  have add: "additional_control_bytes a n l \<le> 436 * (if a then 1 else 0) + 115"
    using assms(2,3) by (simp add: additional_control_bytes_def IDENTIFIER_LENGTH_def VERIFIER_LENGTH_def)
  have "control_logical_bytes t (\<lambda>x. x = d) \<le> 436 * caps_in t d + 115 * receipts_in t d"
    using control_logical_bytes_bound [OF assms(1), of "\<lambda>x. x = d"]
    by (simp add: caps_in_def receipts_in_def)
  then have "control_logical_bytes t (\<lambda>x. x = d) + additional_control_bytes a n l
      \<le> MAX_DOCUMENT_CONTROL_BYTES"
    using add caps(1) recs(1) unfolding MAX_DOCUMENT_CONTROL_BYTES_def by linarith
  moreover have "control_logical_bytes t (\<lambda>_. True)
      \<le> 436 * count_where (\<lambda>_ _. True) (capabilities t)
        + 115 * count_where (\<lambda>_ _. True) (control_receipts t)"
    using control_logical_bytes_bound [OF assms(1), of "\<lambda>_. True"] by (simp add: split_def)
  then have "control_logical_bytes t (\<lambda>_. True) + additional_control_bytes a n l
      \<le> MAX_GLOBAL_CONTROL_BYTES"
    using add caps(2) recs(2) unfolding MAX_GLOBAL_CONTROL_BYTES_def by linarith
  ultimately show ?thesis using False by (simp add: control_limits_exceeded_def Let_def)
qed

end
