(* ===== verification/Store_Demo.thy ===== *)
theory Store_Demo
  imports Store_Steps Store_Limits
begin

text \<open>
  Concrete states for the witnesses: SHA-256 is the constant 0; create authority 1, document 4
  with root capability 5, created by request 3; capability 8 granted by request 7.
\<close>

definition demo_sha :: "bytes \<Rightarrow> key32" where "demo_sha = (\<lambda>_. 0)"

definition demo_verifiers :: verifier_pair where
  "demo_verifiers = \<lparr> vp_live = 0, vp_receipt = 0 \<rparr>"

definition demo_authority :: tables where
  "demo_authority = empty_tables\<lparr> create_authorities :=
    [(1, \<lparr> car_live_verifier = 0, car_receipt_verifier = 0, car_state = 0 \<rparr>)] \<rparr>"

definition demo_document :: tables where
  "demo_document = demo_authority\<lparr>
    documents := [(4, \<lparr> dr_state = 0, dr_control_revision = 1, dr_root_capability_id = 5 \<rparr>)],
    capabilities := [((4, 5), root_row demo_verifiers)],
    capability_operations := map (\<lambda>op. ((4, 5, operation_code op), ())) all_operations,
    create_receipts := [((1, 3), \<lparr> cc_document_id = 4, cc_root_capability_id = 5,
      cc_normalized_input = create_normalized_input 4 5 demo_verifiers \<rparr>)] \<rparr>"

definition demo_granted :: tables where
  "demo_granted = demo_document\<lparr>
    documents := [(4, \<lparr> dr_state = 0, dr_control_revision = 2, dr_root_capability_id = 5 \<rparr>)],
    capabilities := [((4, 5), root_row demo_verifiers), ((4, 8), grant_row 5 demo_verifiers 2)],
    capability_operations := map (\<lambda>op. ((4, 5, operation_code op), ())) all_operations
      @ [((4, 8, 0), ())],
    control_receipts := [((4, 5, 7), \<lparr> rr_operation = 0,
      rr_normalized_input = grant_normalized_input 8 demo_verifiers (one Read) \<rparr>)] \<rparr>"

lemma contains_full: "contains FULL_OPS op"
  using ops_of_full by (simp add: ops_of_def set_eq_iff)

lemma demo_derive: "derive demo_sha d c a = demo_verifiers"
  by (simp add: derive_def derive_domain_def demo_sha_def demo_verifiers_def)

lemmas demo_simps = om_empty_def om_get_def sql_insert_def om_contains_def demo_authority_def
  empty_tables_def demo_document_def demo_granted_def demo_derive all_operations_def
  contains_full count_where_def

lemma demo_provision: "provision_create_authority \<lparr> cp_create_authority_id = 1,
    cp_live_verifier = 0, cp_receipt_verifier = 0 \<rparr> empty_tables = Inr demo_authority"
  by (simp add: provision_create_authority_def demo_simps)

lemma demo_create:
  "store_create_document demo_sha demo_authority 1 2 3 4 5 6 = Inr (StCreateInserted, demo_document)"
  by (simp add: store_create_document_def verify_create_live_def derive_create_domain_def demo_sha_def
    create_limits_exceeded_def insert_root_def root_row_def insert_operations_def demo_simps
    demo_verifiers_def derive_def derive_domain_def store_limit_defs Let_def)

lemma demo_document_ok: "control_history demo_sha empty_tables demo_document" "control_ok demo_document"
proof -
  have "control_history demo_sha empty_tables demo_authority"
    using control_step.step_provision [OF demo_provision]
    by (rule control_history.history_step [OF control_history.history_start])
  then show h: "control_history demo_sha empty_tables demo_document"
    using control_step.step_create [OF demo_create] by (rule control_history.history_step)
  show "control_ok demo_document" by (rule control_history_keeps_ok [OF h empty_control_ok])
qed

lemma demo_root:
  "om_get (capabilities demo_document) (4, 5) = Some (root_row demo_verifiers)"
  "om_get (capabilities demo_granted) (4, 5) = Some (root_row demo_verifiers)"
  "om_get (capabilities demo_granted) (4, 8) = Some (grant_row 5 demo_verifiers 2)"
  by (simp_all add: demo_simps)

lemma demo_root_holds: "holds demo_sha demo_document 4 5 a op" "holds demo_sha demo_granted 4 5 a op"
proof -
  have "op \<in> ops_in demo_document 4 5" "op \<in> ops_in demo_granted 4 5"
    by (cases op; simp add: ops_in_def demo_simps)+
  then show "holds demo_sha demo_document 4 5 a op" "holds demo_sha demo_granted 4 5 a op"
    by (simp_all add: holds_def demo_root root_row_def demo_derive)
qed

lemma demo_active: "doc_authorization demo_document 4 = Authorized"
  "doc_authorization demo_granted 4 = Authorized"
  by (simp_all add: doc_authorization_def demo_simps)

lemma demo_root_chain: "chain (par_of demo_document 4) 5 [5]"
  by (rule chain_root) (simp add: par_of_def demo_root root_row_def)

lemma demo_grant_checks:
  "grant_checks demo_sha demo_document 4 5 6 7 8 9 (one Read) 2"
proof -
  have "authorize demo_sha demo_document 4 5 6 Grant"
    using authorize_spec [OF demo_document_ok(2)] demo_root_holds(1) demo_active(1) by blast
  moreover have "store_issuer_has_descendant_capacity demo_document 4 5"
    using capacity_spec [OF demo_root_chain] by (simp add: MAX_CAPABILITY_DEPTH_def)
  moreover have "ops_of (one Read) \<subseteq> ops_in demo_document 4 5"
    using demo_root_holds(1) by (auto simp add: holds_def)
  moreover have "next_control_revision demo_document 4 = Some 2"
    by (simp add: next_control_revision_def checked_add_def demo_simps)
  moreover have "\<not> control_counts_exceeded demo_document 4 (Some 5) True"
    by (simp add: control_counts_exceeded_def direct_children_def store_limit_defs demo_simps root_row_def)
  then have "\<not> control_limits_exceeded demo_document 4 (Some 5) True (count_ones (ops_bits (one Read)))
      (length (grant_normalized_input 8 (derive demo_sha 4 8 9) (one Read)))"
    using byte_limits_unreachable [OF demo_document_ok(2) count_ones_canonical [OF canonical_one]]
    by (simp add: input_lengths)
  moreover have "om_get (control_receipts demo_document) (4, 5, 7) = None"
    "om_get (capabilities demo_document) (4, 8) = None"
    by (simp_all add: demo_simps)
  ultimately show ?thesis by (simp add: grant_checks_def ops_of_one)
qed

lemma demo_insert_grant:
  "insert_grant 4 5 7 8 (derive demo_sha 4 8 9) (one Read) 2 demo_document = Inr demo_granted"
proof -
  have "contains (one Read) op \<longleftrightarrow> op = Read" for op
    using ops_of_one [of Read] by (auto simp add: ops_of_def)
  then show ?thesis
    by (simp add: insert_grant_def insert_operations_def insert_control_receipt_def
      set_control_revision_def root_row_def grant_row_def demo_verifiers_def demo_simps Let_def)
qed

lemma demo_grant:
  "store_grant_capability demo_sha demo_document 4 5 6 7 8 9 (one Read) = Inr (StInserted, demo_granted)"
proof -
  note checks = demo_grant_checks [unfolded grant_checks_def]
  obtain held where held: "load_operation_set demo_document 4 5 = Inr held"
    "ops_of held = ops_in demo_document 4 5"
    using load_operation_set_ok [OF control_okD(5) [OF demo_document_ok(2)]] by blast
  then have "allows held (one Read)"
    using checks by (simp add: allows_iff [OF canonical_one])
  moreover have "\<not> ops_is_empty (one Read)"
    using checks ops_of_empty_iff [OF canonical_one, of Read] by (simp add: ops_is_empty_def)
  ultimately show ?thesis
    using checks held(1) demo_insert_grant
    by (simp add: store_grant_capability_def resolve_None_iff [THEN iffD2] om_contains_def)
qed

lemma demo_granted_ok: "control_history demo_sha empty_tables demo_granted"
  "control_history demo_sha demo_document demo_granted" "control_ok demo_granted"
proof -
  have step: "control_step demo_sha demo_document demo_granted"
    by (rule control_step.step_grant [OF canonical_one demo_grant])
  show h: "control_history demo_sha empty_tables demo_granted"
    by (rule control_history.history_step [OF demo_document_ok(1) step])
  show "control_history demo_sha demo_document demo_granted"
    by (rule control_history.history_step [OF control_history.history_start step])
  show "control_ok demo_granted" by (rule control_history_keeps_ok [OF h empty_control_ok])
qed

lemma demo_granted_chain: "chain (par_of demo_granted 4) 8 [8, 5]"
proof -
  have "par_of demo_granted 4 5 = Some None" "par_of demo_granted 4 8 = Some (Some 5)"
    by (simp_all add: par_of_def demo_root root_row_def grant_row_def)
  then show ?thesis by (blast intro: chain.intros)
qed

lemma demo_revoke_checks: "revoke_checks demo_sha demo_granted 4 5 6 9 8 3"
proof -
  have "authorize demo_sha demo_granted 4 5 6 Revoke"
    using authorize_spec [OF demo_granted_ok(3)] demo_root_holds(2) demo_active(2) by blast
  moreover have "descends (par_of demo_granted 4) 5 8"
    by (simp add: descends_iff [OF demo_granted_chain])
  moreover have "active demo_granted 4 8" by (simp add: active_def demo_root grant_row_def)
  moreover have "next_control_revision demo_granted 4 = Some 3"
    by (simp add: next_control_revision_def checked_add_def demo_simps)
  moreover have "\<not> control_counts_exceeded demo_granted 4 None False"
    by (simp add: control_counts_exceeded_def store_limit_defs demo_simps)
  then have "\<not> control_limits_exceeded demo_granted 4 None False 0 (length (be_encode (8 :: capability_id)))"
    using byte_limits_unreachable [OF demo_granted_ok(3), of 0] by simp
  moreover have "om_get (control_receipts demo_granted) (4, 5, 9) = None"
    by (simp add: demo_simps)
  ultimately show ?thesis by (simp add: revoke_checks_def)
qed

end
