(* ===== verification/Store_Properties.thy ===== *)
theory Store_Properties
  imports Store_Demo
begin

text \<open>
  The properties of the store's control transactions over every history that starts with the
  empty tables.
\<close>

lemma history_ok: "control_history sha empty_tables t \<Longrightarrow> control_ok t"
  by (rule control_history_keeps_ok [OF _ empty_control_ok])

lemma grant_inserted:
  assumes "control_ok t" "canonical_ops s"
    and "store_grant_capability sha t d issuer ia req c ca s = Inr (StInserted, t')"
  obtains doc revision where "grant_checks sha t d issuer ia req c ca s revision"
    "grant_ready t d doc issuer req c s revision"
    "grant_effect t t' d doc issuer req c (derive sha d c ca) s revision"
proof -
  obtain revision where checks: "grant_checks sha t d issuer ia req c ca s revision"
    using grant_fails [OF assms(1,2)] assms(3) by fastforce
  show thesis using grant_passes [OF assms(1,2) checks] assms(3) that [OF checks] by auto
qed

lemma revoke_inserted:
  assumes "control_ok t"
    and "store_revoke_capability sha t d issuer ia req target = Inr (StInserted, t')"
  obtains doc revision where "revoke_checks sha t d issuer ia req target revision"
    "revoke_ready t d doc issuer req target revision"
    "revoke_effect t t' d doc issuer req target revision"
proof -
  obtain revision where checks: "revoke_checks sha t d issuer ia req target revision"
    using revoke_fails [OF assms(1)] assms(2) by fastforce
  show thesis using revoke_passes [OF assms(1) checks] assms(2) that [OF checks] by auto
qed

lemma create_inserted:
  assumes "control_ok t" "store_create_document sha t a auth req d root ra = Inr (StCreateInserted, t')"
  shows "create_checks sha t a auth req d" "create_ready t a req d"
    "create_effect t t' a req d root (derive sha d root ra)"
proof -
  show checks: "create_checks sha t a auth req d"
    using create_fails [of sha t a auth req d root ra] assms(2) by fastforce
  show "create_ready t a req d" "create_effect t t' a req d root (derive sha d root ra)"
    using create_passes [OF assms(1) checks, of root ra] assms(2) by auto
qed

section \<open>Every transaction keeps the invariant and never raises\<close>

text \<open>
  C1: in every state a history reaches, the control tables satisfy \<open>control_ok\<close>; creating,
  granting and revoking return an outcome and never a storage error (no constraint violation,
  no corruption), the tables they leave satisfy \<open>control_ok\<close> again, and an outcome other than
  the inserted one leaves them as they were.
\<close>

theorem control_transactions_are_safe:
  assumes "control_history sha empty_tables t" "canonical_ops s"
  shows "control_ok t
    \<and> (\<exists>outcome t'. store_create_document sha t ca auth req d c a = Inr (outcome, t')
        \<and> control_ok t' \<and> (outcome \<noteq> StCreateInserted \<longrightarrow> t' = t))
    \<and> (\<exists>outcome t'. store_grant_capability sha t d issuer ia req c a s = Inr (outcome, t')
        \<and> control_ok t' \<and> (outcome \<noteq> StInserted \<longrightarrow> t' = t))
    \<and> (\<exists>outcome t'. store_revoke_capability sha t d issuer ia req c = Inr (outcome, t')
        \<and> control_ok t' \<and> (outcome \<noteq> StInserted \<longrightarrow> t' = t))"
proof (intro conjI)
  show ok: "control_ok t" by (rule history_ok [OF assms(1)])
  show "\<exists>outcome t'. store_create_document sha t ca auth req d c a = Inr (outcome, t')
      \<and> control_ok t' \<and> (outcome \<noteq> StCreateInserted \<longrightarrow> t' = t)"
    using create_passes [OF ok, of sha ca auth req d c a] create_fails [of sha t ca auth req d c a]
      create_keeps_ok ok by metis
  show "\<exists>outcome t'. store_grant_capability sha t d issuer ia req c a s = Inr (outcome, t')
      \<and> control_ok t' \<and> (outcome \<noteq> StInserted \<longrightarrow> t' = t)"
    using grant_passes [OF ok assms(2), of sha d issuer ia req c a]
      grant_fails [OF ok assms(2), of sha d issuer ia req c a] grant_keeps_ok ok by metis
  show "\<exists>outcome t'. store_revoke_capability sha t d issuer ia req c = Inr (outcome, t')
      \<and> control_ok t' \<and> (outcome \<noteq> StInserted \<longrightarrow> t' = t)"
    using revoke_passes [OF ok, of sha d issuer ia req c]
      revoke_fails [OF ok, of sha d issuer ia req c] revoke_keeps_ok ok by metis
qed

theorem control_transactions_are_safe_witness:
  "control_ok demo_granted
    \<and> (\<exists>outcome t'. store_grant_capability demo_sha demo_granted 4 5 6 10 11 12 (one Update)
        = Inr (outcome, t') \<and> control_ok t' \<and> (outcome \<noteq> StInserted \<longrightarrow> t' = demo_granted))"
  using control_transactions_are_safe [OF demo_granted_ok(1) canonical_one] by blast

section \<open>Grant and revoke change authority exactly as intended\<close>

text \<open>
  C4: an inserted grant was presented by an issuer that is authorized to grant; it adds one
  active capability below the issuer with exactly the requested operations, a subset of the
  issuer's, with verifiers derived from the descendant's authenticator, and leaves every other
  capability and its operations as they were.
\<close>

theorem grant_adds_one_attenuated_capability:
  assumes "control_history sha empty_tables t" "from_bits s = Some s"
    and "store_grant_capability sha t d issuer ia req c ca s = Inr (StInserted, t')"
  shows "authorize sha t d issuer ia Grant
    \<and> om_get (capabilities t) (d, c) = None
    \<and> (\<exists>row. om_get (capabilities t') (d, c) = Some row \<and> cr_parent row = Some issuer
        \<and> \<not> cr_root row \<and> cr_state row = 0 \<and> cr_live_verifier row = vp_live (derive sha d c ca)
        \<and> cr_receipt_verifier row = vp_receipt (derive sha d c ca))
    \<and> ops_in t' d c = ops_of s \<and> ops_of s \<subseteq> ops_in t d issuer
    \<and> (\<forall>x y. (x, y) \<noteq> (d, c) \<longrightarrow> om_get (capabilities t') (x, y) = om_get (capabilities t) (x, y)
        \<and> ops_in t' x y = ops_in t x y)"
proof -
  have ok: "control_ok t" and can: "canonical_ops s"
    using history_ok [OF assms(1)] assms(2) by (simp_all add: canonical_ops_def)
  obtain doc revision where g: "grant_checks sha t d issuer ia req c ca s revision"
    "grant_ready t d doc issuer req c s revision"
    "grant_effect t t' d doc issuer req c (derive sha d c ca) s revision"
    using grant_inserted [OF ok can assms(3)] .
  note add = grant_effectD(1) [OF g(3)] and ready = grant_readyD [OF g(2)]
  have "om_get (capabilities t') (d, c) = Some (grant_row issuer (derive sha d c ca) revision)"
    using adds_capability_get [OF add, of d c] by simp
  then show ?thesis
    using g(1) ready(8,10) adds_capability_get [OF add] adds_capability_ops_in [OF ok add]
    by (auto simp add: grant_checks_def grant_row_def)
qed

theorem grant_adds_one_attenuated_capability_witness:
  "\<exists>row. om_get (capabilities demo_granted) (4, 8) = Some row \<and> cr_parent row = Some 5
    \<and> ops_in demo_granted 4 8 = ops_of (one Read)"
  using grant_adds_one_attenuated_capability [OF demo_document_ok(1) _ demo_grant]
    canonical_one [of Read] by (auto simp add: canonical_ops_def)

text \<open>
  C5: an inserted revoke was presented by an authorized issuer above its target; it
  deactivates the target and all its descendants and nothing else, in any document, and changes
  neither parents nor operations.
\<close>

theorem revoke_deactivates_exactly_the_subtree:
  assumes "control_history sha empty_tables t"
    and "store_revoke_capability sha t d issuer ia req target = Inr (StInserted, t')"
  shows "authorize sha t d issuer ia Revoke \<and> descends (par_of t d) issuer target
    \<and> (\<forall>x y. active t' x y \<longleftrightarrow> active t x y \<and> \<not> (x = d \<and> descends (par_of t d) target y))
    \<and> par_of t' = par_of t \<and> ops_in t' = ops_in t"
proof -
  have ok: "control_ok t" by (rule history_ok [OF assms(1)])
  obtain doc revision where r: "revoke_checks sha t d issuer ia req target revision"
    "revoke_ready t d doc issuer req target revision"
    "revoke_effect t t' d doc issuer req target revision"
    using revoke_inserted [OF ok assms(2)] .
  have "active t' x y \<longleftrightarrow> active t x y \<and> \<not> (x = d \<and> descends (par_of t d) target y)" for x y
  proof (cases "om_get (capabilities t) (x, y)")
    case None
    then show ?thesis by (simp add: active_def revoke_effectD(1) [OF r(3)])
  next
    case (Some row)
    show ?thesis using revoke_row_kept [OF r(3) Some] Some by (auto simp add: active_def split: if_splits)
  qed
  then show ?thesis
    using r(1) revoke_par_of [OF r(3)] revoke_ops_in [OF r(3)] by (simp add: revoke_checks_def)
qed

theorem revoke_deactivates_exactly_the_subtree_witness:
  "\<exists>t'. store_revoke_capability demo_sha demo_granted 4 5 6 9 8 = Inr (StInserted, t')
    \<and> \<not> active t' 4 8 \<and> active t' 4 5"
proof -
  obtain t' where t': "store_revoke_capability demo_sha demo_granted 4 5 6 9 8 = Inr (StInserted, t')"
    using revoke_passes [OF demo_granted_ok(3) demo_revoke_checks] by blast
  have "par_of demo_granted 4 5 = Some None" by (simp add: par_of_def demo_root root_row_def)
  then have "chain (par_of demo_granted 4) 5 [5]" by (rule chain_root)
  then have "\<not> descends (par_of demo_granted 4) 8 5" by (simp add: descends_iff)
  moreover have "descends (par_of demo_granted 4) 8 8" by (simp add: descends_iff [OF demo_granted_chain])
  moreover have "active demo_granted 4 5" by (simp add: active_def demo_root root_row_def)
  ultimately show ?thesis
    using revoke_deactivates_exactly_the_subtree [OF demo_granted_ok(1) t'] t' by blast
qed


section \<open>Authorization\<close>

text \<open>
  In a reachable state the bounded walk up the ancestry never changes the answer that the
  presented row alone gives: a capability authorizes an operation iff it is active, its live
  verifier matches the presented authenticator and it has the operation's row; the document's
  state then decides between authorized and retired.
\<close>

theorem authorize_document_decided_by_own_row:
  assumes "control_history sha empty_tables t"
  shows "authorize_document sha t d c a operation =
    (case om_get (capabilities t) (d, c) of
       None \<Rightarrow> Denied
     | Some row \<Rightarrow>
         if cr_state row = 0 \<and> cr_live_verifier row = vp_live (derive sha d c a)
           \<and> om_contains (capability_operations t) (d, c, operation_code operation)
         then doc_authorization t d else Denied)"
  using authorize_document_spec [OF history_ok [OF assms]]
  by (auto simp add: holds_def ops_in_def split: option.split)

theorem authorize_document_decided_by_own_row_witness:
  "authorize_document demo_sha demo_granted 4 8 9 Read = Authorized
    \<and> authorize_document demo_sha demo_granted 4 8 9 Update = Denied"
proof -
  have "operation_code Read = 0" "operation_code Update = 1" by simp_all
  moreover have "om_contains (capability_operations demo_granted) (4, 8, 0)"
    "\<not> om_contains (capability_operations demo_granted) (4, 8, 1)" by (simp_all add: demo_simps)
  ultimately show ?thesis
    using demo_active(2) authorize_document_decided_by_own_row [OF demo_granted_ok(1), of 4 8 9]
    by (simp add: demo_root grant_row_def demo_derive)
qed

lemma ops_along_chain:
  assumes "control_ok t" "chain (par_of t d) c cs" "op \<in> ops_in t d c"
  shows "\<forall>x \<in> set cs. op \<in> ops_in t d x"
  using assms(2,3)
proof (induction rule: chain.induct)
  case (chain_step c p cs)
  then obtain row where row: "om_get (capabilities t) (d, c) = Some row" "cr_parent row = Some p"
    by (auto simp add: par_of_def)
  then have "ops_in t d c \<subseteq> ops_in t d p"
    using cap_row_ok_parent [OF caps_okD [OF assms(1) row(1)] row(2)] by blast
  with chain_step show ?case by auto
qed simp

lemma chain_ends_at_root:
  assumes "control_ok t" "chain (par_of t d) c cs" "om_get (documents t) d = Some doc"
  shows "last cs = dr_root_capability_id doc"
  using assms(2)
proof (induction rule: chain.induct)
  case (chain_root c)
  then obtain row where row: "om_get (capabilities t) (d, c) = Some row" "cr_parent row = None"
    by (auto simp add: par_of_def)
  then show ?case
    using caps_okD [OF assms(1) row(1)] assms(3) by (auto simp add: cap_row_ok_def row_doc_ok_def)
next
  case (chain_step c p cs)
  then have "cs \<noteq> []" by auto
  with chain_step show ?case by simp
qed

text \<open>
  C2: authority never exceeds the ancestry.  If a capability authorizes an operation then its
  chain of at most 64 capabilities ends at the document's root, and every capability on it is
  active and has the operation itself.
\<close>

theorem authority_bounded_by_ancestors:
  assumes "control_history sha empty_tables t" "authorize sha t d c a operation"
  shows "\<exists>cs doc. chain (par_of t d) c cs \<and> length cs \<le> MAX_CAPABILITY_DEPTH
    \<and> om_get (documents t) d = Some doc \<and> dr_state doc = 0 \<and> last cs = dr_root_capability_id doc
    \<and> (\<forall>x \<in> set cs. active t d x \<and> operation \<in> ops_in t d x)"
proof -
  have ok: "control_ok t" by (rule history_ok [OF assms(1)])
  note auth = authorize_active [OF ok assms(2)]
  obtain doc where doc: "om_get (documents t) d = Some doc" "dr_state doc = 0" using auth(3) by blast
  obtain row where "om_get (capabilities t) (d, c) = Some row" using auth(1) by (auto simp add: active_def)
  then obtain cs where cs: "chain (par_of t d) c cs" "length cs \<le> MAX_CAPABILITY_DEPTH"
    using obtain_cap_chain [OF ok] by blast
  then show ?thesis
    using doc chain_ends_at_root [OF ok cs(1) doc(1)] active_chain [OF ok cs(1) auth(1)]
      ops_along_chain [OF ok cs(1) auth(2)] by blast
qed

theorem authority_bounded_by_ancestors_witness:
  "\<exists>cs. chain (par_of demo_granted 4) 5 cs \<and> (\<forall>x \<in> set cs. Retire \<in> ops_in demo_granted 4 x)"
proof -
  have "authorize demo_sha demo_granted 4 5 6 Retire"
    using authorize_spec [OF demo_granted_ok(3)] demo_root_holds(2) demo_active(2) by blast
  from authority_bounded_by_ancestors [OF demo_granted_ok(1) this] show ?thesis by blast
qed

text \<open>
  C3: revocation is permanent.  Once a capability is inactive, no later history makes it or
  any capability below it, then or later granted, authorize any operation for anyone.
\<close>

theorem revocation_is_permanent:
  assumes "control_history sha empty_tables t" "control_history sha t t'"
    and "om_get (capabilities t) (d, c) = Some row" "cr_state row \<noteq> 0"
    and "descends (par_of t' d) c x"
  shows "authorize_document sha t' d x a operation = Denied"
proof -
  have ok: "control_ok t" by (rule history_ok [OF assms(1)])
  have ok': "control_ok t'" by (rule control_history_keeps_ok [OF assms(2) ok])
  have "\<not> active t' d c"
    using control_extendsD(1) [OF control_history_extends [OF assms(2) ok] assms(3)] assms(4)
    by (auto simp add: active_def row_kept_def)
  moreover obtain cs where "chain (par_of t' d) x cs" "c \<in> set cs"
    using assms(5) by (auto simp add: descends_def)
  ultimately have "\<not> active t' d x" using active_chain [OF ok'] by blast
  then have "\<not> holds sha t' d x a operation" by (auto simp add: active_def holds_def)
  then show ?thesis by (simp add: authorize_document_spec [OF ok'])
qed

theorem revocation_is_permanent_witness:
  "\<exists>t'. store_revoke_capability demo_sha demo_granted 4 5 6 9 8 = Inr (StInserted, t')
    \<and> authorize_document demo_sha t' 4 8 9 Read = Denied"
proof -
  obtain doc t' where t': "store_revoke_capability demo_sha demo_granted 4 5 6 9 8 = Inr (StInserted, t')"
    "revoke_effect demo_granted t' 4 doc 5 9 8 3"
    using revoke_passes [OF demo_granted_ok(3) demo_revoke_checks] by blast
  have h: "control_history demo_sha empty_tables t'"
    using demo_granted_ok(1) control_step.step_revoke [OF t'(1)] by (rule control_history.history_step)
  have "descends (par_of demo_granted 4) 8 8" by (simp add: descends_iff [OF demo_granted_chain])
  then obtain row where row: "om_get (capabilities t') (4, 8) = Some row" "cr_state row = 1"
    using revoke_row_kept [OF t'(2) demo_root(3)] by auto
  have "descends (par_of t' 4) 8 8"
    by (simp add: revoke_par_of [OF t'(2)] descends_iff [OF demo_granted_chain])
  then show ?thesis
    using revocation_is_permanent [OF h control_history.history_start row(1)] row(2) t'(1) by simp
qed


section \<open>Preflight, retries and limits\<close>

lemma preflight_resolved:
  "preflight_revoke_capability sha t d issuer a req target = Resolved outcome \<Longrightarrow>
    store_revoke_capability sha t d issuer a req target = Inr (outcome, t)"
  unfolding preflight_revoke_capability_def store_revoke_capability_def Let_def
  by (cases "next_control_revision t d") (auto split: option.splits if_splits)

lemma preflight_requires_mutation:
  assumes "control_ok t" "preflight_revoke_capability sha t d issuer a req target = RequiresMutation"
  shows "\<exists>revision. revoke_checks sha t d issuer a req target revision"
  using assms(2) store_is_active_descendant_spec [OF assms(1)]
  unfolding preflight_revoke_capability_def revoke_checks_def Let_def
  by (cases "next_control_revision t d") (auto simp add: resolve_None_iff split: option.splits if_splits)

text \<open>
  The read-only preflight of a revoke predicts the transaction: it asks for the mutation
  exactly when the revoke would insert, and otherwise gives the outcome the revoke would give.
\<close>

theorem preflight_predicts_revoke:
  assumes "control_history sha empty_tables t"
  shows "store_revoke_capability sha t d issuer a req target =
    (case preflight_revoke_capability sha t d issuer a req target of
       Resolved outcome \<Rightarrow> Inr (outcome, t)
     | RequiresMutation \<Rightarrow> store_revoke_capability sha t d issuer a req target)
    \<and> (preflight_revoke_capability sha t d issuer a req target = RequiresMutation \<longleftrightarrow>
        (\<exists>t'. store_revoke_capability sha t d issuer a req target = Inr (StInserted, t')))"
proof (cases "\<exists>revision. revoke_checks sha t d issuer a req target revision")
  case True
  then obtain revision where checks: "revoke_checks sha t d issuer a req target revision" by blast
  note ok = history_ok [OF assms]
  have "preflight_revoke_capability sha t d issuer a req target = RequiresMutation"
    using checks store_is_active_descendant_spec [OF ok]
    by (simp add: revoke_checks_def preflight_revoke_capability_def resolve_None_iff [THEN iffD2])
  then show ?thesis using revoke_passes [OF ok checks] by auto
next
  case False
  note ok = history_ok [OF assms]
  obtain outcome where fails: "store_revoke_capability sha t d issuer a req target = Inr (outcome, t)"
    "outcome \<noteq> StInserted"
    using revoke_fails [OF ok False] by blast
  obtain o' where o': "preflight_revoke_capability sha t d issuer a req target = Resolved o'"
    using preflight_requires_mutation [OF ok] False
    by (cases "preflight_revoke_capability sha t d issuer a req target") blast+
  with fails show ?thesis using preflight_resolved [OF o'] by auto
qed

theorem preflight_predicts_revoke_witness:
  "preflight_revoke_capability demo_sha demo_granted 4 5 6 9 8 = RequiresMutation"
  using preflight_predicts_revoke [OF demo_granted_ok(1), of 4 5 6 9 8]
    revoke_passes [OF demo_granted_ok(3) demo_revoke_checks] by blast

text \<open>
  A retried control request is answered from its receipt.  After an inserted grant or
  revoke, in every later state of the history, the same request returns AlreadyPresent and
  changes nothing, even when the issuer has been revoked in between.
\<close>

theorem retried_requests_are_answered_from_receipts:
  assumes "control_history sha empty_tables t" "control_history sha t' t''"
    and "om_get (capabilities t) (d, issuer) = Some irow"
    and "cr_receipt_verifier irow = vp_receipt (derive sha d issuer ia)"
    and "from_bits s = Some s"
  shows "(store_grant_capability sha t d issuer ia req c ca s = Inr (StInserted, t') \<longrightarrow>
      store_grant_capability sha t'' d issuer ia req c ca s = Inr (StAlreadyPresent, t''))
    \<and> (store_revoke_capability sha t d issuer ia req c = Inr (StInserted, t') \<longrightarrow>
      store_revoke_capability sha t'' d issuer ia req c = Inr (StAlreadyPresent, t''))"
proof (intro conjI impI)
  have ok: "control_ok t" by (rule history_ok [OF assms(1)])
  have can: "canonical_ops s" using assms(5) by (simp add: canonical_ops_def)
  have verified: "\<exists>row. om_get (capabilities t'') (d, issuer) = Some row
      \<and> verify_receipt sha (cr_receipt_verifier row) d issuer ia"
    if step: "control_step sha t t'"
  proof -
    have "control_history sha t t'"
      using control_history.history_step [OF control_history.history_start step] .
    then have "control_extends t t'" "control_ok t'"
      using control_history_extends control_history_keeps_ok ok by blast+
    then have "control_extends t t''"
      using control_history_extends [OF assms(2)] control_extends_trans by blast
    from control_extendsD(1) [OF this assms(3)] assms(4) show ?thesis
      by (auto simp add: row_kept_def sha_verifier.receipt_ok_iff)
  qed
  show "store_grant_capability sha t'' d issuer ia req c ca s = Inr (StAlreadyPresent, t'')"
    if g: "store_grant_capability sha t d issuer ia req c ca s = Inr (StInserted, t')"
  proof -
    obtain doc revision where eff: "grant_ready t d doc issuer req c s revision"
      "grant_effect t t' d doc issuer req c (derive sha d c ca) s revision"
      using grant_inserted [OF ok can g] .
    have "control_ok t'" by (rule grant_keeps_ok [OF eff])
    then have "om_get (control_receipts t'') (d, issuer, req) = Some \<lparr> rr_operation = 0,
        rr_normalized_input = grant_normalized_input c (derive sha d c ca) s \<rparr>"
      using control_extendsD(3) [OF control_history_extends [OF assms(2)]] grant_effectD(3) [OF eff(2)]
      by simp
    moreover have "\<not> ops_is_empty s"
      using grant_readyD(7) [OF eff(1)] ops_of_empty_iff [OF can] by (simp add: ops_is_empty_def)
    ultimately show ?thesis
      using verified [OF control_step.step_grant [OF can g]]
      by (auto simp add: store_grant_capability_def resolve_control_receipt_def)
  qed
  show "store_revoke_capability sha t'' d issuer ia req c = Inr (StAlreadyPresent, t'')"
    if r: "store_revoke_capability sha t d issuer ia req c = Inr (StInserted, t')"
  proof -
    obtain doc revision where eff: "revoke_ready t d doc issuer req c revision"
      "revoke_effect t t' d doc issuer req c revision"
      using revoke_inserted [OF ok r] .
    have "control_ok t'" by (rule revoke_keeps_ok [OF eff])
    then have "om_get (control_receipts t'') (d, issuer, req) = Some \<lparr> rr_operation = 1,
        rr_normalized_input = be_encode c \<rparr>"
      using control_extendsD(3) [OF control_history_extends [OF assms(2)]] revoke_effectD(3) [OF eff(2)]
      by simp
    then show ?thesis
      using verified [OF control_step.step_revoke [OF r]]
      by (auto simp add: store_revoke_capability_def resolve_control_receipt_def)
  qed
qed

theorem retried_requests_are_answered_from_receipts_witness:
  "store_grant_capability demo_sha demo_granted 4 5 6 7 8 9 (one Read)
    = Inr (StAlreadyPresent, demo_granted)"
proof -
  have "cr_receipt_verifier (root_row demo_verifiers) = vp_receipt (derive demo_sha 4 5 6)"
    by (simp add: root_row_def demo_derive)
  moreover have "from_bits (one Read) = Some (one Read)"
    using canonical_one by (simp add: canonical_ops_def)
  ultimately show ?thesis
    using retried_requests_are_answered_from_receipts
      [OF demo_document_ok(1) control_history.history_start demo_root(1)] demo_grant by blast
qed

text \<open>
  The byte limits of \<open>control_limits_exceeded\<close> never decide.  In every reachable state, for
  a grant of any operation set and for a revoke, the function returns exactly what its count
  limits return; the 1 MiB and 16 MiB totals cannot be reached first.
\<close>

theorem control_byte_limits_never_bind:
  assumes "control_history sha empty_tables t" "from_bits s = Some s"
  shows "control_limits_exceeded t d (Some issuer) True (count_ones (ops_bits s))
      (length (grant_normalized_input c v s)) = control_counts_exceeded t d (Some issuer) True
    \<and> control_limits_exceeded t d None False 0 (length (be_encode (target :: capability_id)))
      = control_counts_exceeded t d None False"
proof -
  note ok = history_ok [OF assms(1)]
  have "canonical_ops s" using assms(2) by (simp add: canonical_ops_def)
  then show ?thesis
    using byte_limits_unreachable [OF ok count_ones_canonical] byte_limits_unreachable [OF ok, of 0]
    by (simp add: input_lengths)
qed

theorem control_byte_limits_never_bind_witness:
  "control_limits_exceeded demo_granted 4 (Some 5) True (count_ones (ops_bits (one Read)))
      (length (grant_normalized_input 9 demo_verifiers (one Read)))
    = control_counts_exceeded demo_granted 4 (Some 5) True"
  using control_byte_limits_never_bind [OF demo_granted_ok(1), of "one Read"] canonical_one
  by (simp add: canonical_ops_def)

text \<open>
  An inserted creation was presented by a live create authority for an unknown document;
  it adds the document at control revision 1 with one active root capability that holds every
  operation, and leaves every other document, capability and control receipt as it was.
\<close>

theorem create_adds_one_rooted_document:
  assumes "control_history sha empty_tables t"
    and "store_create_document sha t a auth req d root ra = Inr (StCreateInserted, t')"
  shows "create_live sha t a auth \<and> om_get (documents t) d = None
    \<and> (\<exists>doc row. om_get (documents t') d = Some doc \<and> dr_state doc = 0
        \<and> dr_control_revision doc = 1 \<and> dr_root_capability_id doc = root
        \<and> om_get (capabilities t') (d, root) = Some row \<and> cr_root row \<and> cr_parent row = None
        \<and> cr_state row = 0 \<and> ops_in t' d root = UNIV)
    \<and> (\<forall>op. authorize sha t' d root ra op)
    \<and> (\<forall>x. x \<noteq> d \<longrightarrow> om_get (documents t') x = om_get (documents t) x)
    \<and> (\<forall>x y. (x, y) \<noteq> (d, root) \<longrightarrow> om_get (capabilities t') (x, y) = om_get (capabilities t) (x, y))
    \<and> control_receipts t' = control_receipts t"
proof -
  have ok: "control_ok t" by (rule history_ok [OF assms(1)])
  note new = create_inserted [OF ok assms(2)] and eff = create_effectD [OF new(3)]
  have row: "om_get (capabilities t') (d, root) = Some (root_row (derive sha d root ra))"
    using adds_capability_get [OF eff(1)] by simp
  have ops: "ops_in t' d root = UNIV"
    using adds_capability_ops_in [OF ok eff(1), of d root] by (simp add: ops_of_full)
  have "control_ok t'" by (rule create_keeps_ok [OF new(2,3)])
  then have auth: "authorize sha t' d root ra op" for op
    using row ops by (simp add: authorize_spec holds_def doc_authorization_def eff(2) root_row_def)
  have "om_get (documents t') d =
      Some \<lparr> dr_state = 0, dr_control_revision = 1, dr_root_capability_id = root \<rparr>"
    by (simp add: eff(2))
  then show ?thesis
    using new(1) row ops auth adds_capability_get [OF eff(1)] eff(2,5)
    by (auto simp add: create_checks_def root_row_def)
qed

theorem create_adds_one_rooted_document_witness:
  "\<forall>op. authorize demo_sha demo_document 4 5 6 op"
proof -
  have "control_history demo_sha empty_tables demo_authority"
    using control_step.step_provision [OF demo_provision]
    by (rule control_history.history_step [OF control_history.history_start])
  from create_adds_one_rooted_document [OF this demo_create] show ?thesis by blast
qed

end
