(* ===== verification/Store_Refinement.thy ===== *)
theory Store_Refinement
  imports Store_Properties
begin

text \<open>
  The capability model of \<open>renee-model\<close> as the specification of the store: the meaning of its
  ancestry loops, the relation between tables and model states, and the simulation of create,
  grant and revoke.
\<close>

section \<open>The ancestry loops of the model\<close>

definition mpar ::
  "(capability_id, model_capability) omap \<Rightarrow> capability_id \<Rightarrow> capability_id option option" where
  "mpar caps c = map_option mc_parent (om_get caps c)"

definition unrevoked :: "(capability_id, model_capability) omap \<Rightarrow> capability_id \<Rightarrow> bool" where
  "unrevoked caps c \<longleftrightarrow> (\<exists>cap. om_get caps c = Some cap \<and> \<not> mc_revoked cap)"

lemma mpar_root: "mpar caps c = Some None \<Longrightarrow> \<exists>cap. om_get caps c = Some cap \<and> mc_parent cap = None"
  by (auto simp add: mpar_def)

lemma mpar_step:
  "mpar caps c = Some (Some p) \<Longrightarrow> \<exists>cap. om_get caps c = Some cap \<and> mc_parent cap = Some p"
  by (auto simp add: mpar_def)

lemma authorizes_loop_None: "authorizes_loop n caps None \<longleftrightarrow> 0 < n"
  by (cases n) simp_all

lemma authorizes_loop_chain:
  "chain (mpar caps) c cs \<Longrightarrow>
    authorizes_loop n caps (Some c) \<longleftrightarrow> length cs < n \<and> (\<forall>x \<in> set cs. unrevoked caps x)"
proof (induction arbitrary: n rule: chain.induct)
  case (chain_root c)
  then obtain cap where "om_get caps c = Some cap" "mc_parent cap = None" using mpar_root by blast
  then show ?case by (cases n) (simp_all add: authorizes_loop_None unrevoked_def)
next
  case (chain_step c p cs)
  then obtain cap where "om_get caps c = Some cap" "mc_parent cap = Some p" using mpar_step by blast
  with chain_step.IH show ?case by (cases n) (auto simp add: unrevoked_def)
qed

lemma is_descendant_loop_None: "\<not> is_descendant_loop n caps a None"
  by (cases n) simp_all

lemma is_descendant_loop_chain:
  assumes "chain (mpar caps) c cs" "length cs \<le> n"
  shows "is_descendant_loop n caps a (Some c) \<longleftrightarrow> a \<in> set cs"
  using assms
proof (induction arbitrary: n rule: chain.induct)
  case (chain_root c)
  then obtain cap m where "om_get caps c = Some cap" "mc_parent cap = None" "n = Suc m"
    using mpar_root by (cases n) fastforce+
  then show ?case by (auto simp add: is_descendant_loop_None)
next
  case (chain_step c p cs)
  then obtain cap m where "om_get caps c = Some cap" "mc_parent cap = Some p" "n = Suc m"
    using mpar_step by (cases n) fastforce+
  with chain_step show ?case by auto
qed

lemma capacity_loop_chain:
  assumes "chain (mpar caps) c cs" "length cs \<le> n"
  shows "capacity_loop n k caps c \<longleftrightarrow> k + length cs < 65"
  using assms
proof (induction arbitrary: n k rule: chain.induct)
  case (chain_root c)
  then obtain cap m where "om_get caps c = Some cap" "mc_parent cap = None" "n = Suc m"
    using mpar_root by (cases n) fastforce+
  then show ?case by simp
next
  case (chain_step c p cs)
  then obtain cap m where "om_get caps c = Some cap" "mc_parent cap = Some p" "n = Suc m"
    using mpar_step by (cases n) fastforce+
  with chain_step show ?case by simp
qed

text \<open>Revoking one capability after the other changes only the revoked flags.\<close>

lemma is_descendant_loop_cong:
  assumes "\<And>x. Option.bind (om_get caps x) mc_parent = Option.bind (om_get caps' x) mc_parent"
  shows "is_descendant_loop n caps a c = is_descendant_loop n caps' a c"
  using assms by (induction n arbitrary: c) (auto split: option.split)

lemma revoke_one_get:
  "om_get (cdoc_capabilities (revoke_one target doc c)) y = map_option
      (\<lambda>cap. if y = c \<and> is_descendant doc target y then cap\<lparr> mc_revoked := True \<rparr> else cap)
      (om_get (cdoc_capabilities doc) y)"
  by (cases "om_get (cdoc_capabilities doc) c"; cases "om_get (cdoc_capabilities doc) y")
    (auto simp add: revoke_one_def)

lemma revoke_one_descendant:
  "is_descendant (revoke_one target doc c) a y = is_descendant doc a y"
  unfolding is_descendant_def
  by (rule is_descendant_loop_cong)
    (simp add: revoke_one_get bind_map_option comp_def if_distrib cong: if_cong)

lemma revoke_one_fields:
  "cdoc_receipts (revoke_one target doc c) = cdoc_receipts doc"
  "cdoc_revision (revoke_one target doc c) = cdoc_revision doc"
  "cdoc_root_id (revoke_one target doc c) = cdoc_root_id doc"
  by (auto simp add: revoke_one_def split: option.split)

lemma revoke_all_get:
  "om_get (cdoc_capabilities (foldl (revoke_one target) doc ks)) y = map_option
      (\<lambda>cap. if y \<in> set ks \<and> is_descendant doc target y then cap\<lparr> mc_revoked := True \<rparr> else cap)
      (om_get (cdoc_capabilities doc) y)"
proof (induction ks arbitrary: doc)
  case Nil
  show ?case by (simp add: option.map_ident)
next
  case (Cons k ks)
  show ?case
    by (auto simp add: Cons.IH revoke_one_get revoke_one_descendant option.map_comp comp_def
        intro!: map_option_cong)
qed

lemma revoke_all_fields:
  "cdoc_receipts (foldl (revoke_one target) doc ks) = cdoc_receipts doc"
  "cdoc_revision (foldl (revoke_one target) doc ks) = cdoc_revision doc"
  "cdoc_root_id (foldl (revoke_one target) doc ks) = cdoc_root_id doc"
  by (induction ks arbitrary: doc) (simp_all add: revoke_one_fields)


section \<open>The relation\<close>

fun encode_receipt :: "receipt_input \<Rightarrow> control_receipt_row" where
  "encode_receipt (GrantInput c v s) =
    \<lparr> rr_operation = 0, rr_normalized_input = grant_normalized_input c v s \<rparr>"
| "encode_receipt (RevokeInput c) = \<lparr> rr_operation = 1, rr_normalized_input = be_encode c \<rparr>"

lemma be_encode_eq_iff:
  "8 dvd LENGTH('a) \<Longrightarrow> be_encode v = be_encode w \<longleftrightarrow> v = (w :: 'a::len word)"
  by (metis be_decode_encode)

lemma be_encode_inj [simp]:
  "be_encode (v :: 128 word) = be_encode w \<longleftrightarrow> v = w"
  "be_encode (a :: 256 word) = be_encode b \<longleftrightarrow> a = b"
  "be_encode (x :: u16) = be_encode y \<longleftrightarrow> x = y"
  by (rule be_encode_eq_iff, simp)+

lemma grant_normalized_input_inj:
  "grant_normalized_input c v s = grant_normalized_input c' v' s' \<longleftrightarrow> c = c' \<and> v = v' \<and> s = s'"
  by (cases v; cases v') (auto simp add: grant_normalized_input_def ops_bits_def append_eq_append_conv)

lemma encode_receipt_inj: "encode_receipt x = encode_receipt y \<longleftrightarrow> x = y"
  by (cases x; cases y) (auto simp add: grant_normalized_input_inj)

definition cap_rel :: "tables \<Rightarrow> document_id \<Rightarrow> capability_id \<Rightarrow> capability_row \<Rightarrow> model_capability \<Rightarrow> bool" where
  "cap_rel t d c row cap \<longleftrightarrow> canonical_ops (mc_operations cap)
    \<and> ops_of (mc_operations cap) = ops_in t d c \<and> mc_parent cap = cr_parent row
    \<and> (mc_revoked cap \<longleftrightarrow> cr_state row \<noteq> 0) \<and> vp_live (mc_verifiers cap) = cr_live_verifier row
    \<and> vp_receipt (mc_verifiers cap) = cr_receipt_verifier row"

definition doc_rel :: "tables \<Rightarrow> document_id \<Rightarrow> document_row \<Rightarrow> capability_document \<Rightarrow> bool" where
  "doc_rel t d doc mdoc \<longleftrightarrow> dr_state doc = 0 \<and> cdoc_revision mdoc = dr_control_revision doc
    \<and> cdoc_root_id mdoc = dr_root_capability_id doc
    \<and> (\<forall>c. rel_option (cap_rel t d c) (om_get (capabilities t) (d, c))
        (om_get (cdoc_capabilities mdoc) c))
    \<and> (\<forall>i r. om_get (control_receipts t) (d, i, r)
        = map_option encode_receipt (om_get (cdoc_receipts mdoc) (i, r)))"

definition refines :: "tables \<Rightarrow> capability_model \<Rightarrow> bool" where
  "refines t m \<longleftrightarrow> (\<forall>d. rel_option (doc_rel t d) (om_get (documents t) d) (om_get m d))"

lemma refines_doc:
  assumes "refines t m" "om_get (documents t) d = Some doc"
  obtains mdoc where "om_get m d = Some mdoc" "doc_rel t d doc mdoc"
proof -
  have "rel_option (doc_rel t d) (Some doc) (om_get m d)"
    using assms unfolding refines_def by metis
  then show thesis using that by (auto simp add: option_rel_Some1)
qed

lemma refines_unknown: "refines t m \<Longrightarrow> om_get (documents t) d = None \<longleftrightarrow> om_get m d = None"
  unfolding refines_def by (metis option.rel_distinct option.exhaust option.rel_sel)

lemma doc_rel_cap:
  assumes "doc_rel t d doc mdoc" "om_get (capabilities t) (d, c) = Some row"
  obtains cap where "om_get (cdoc_capabilities mdoc) c = Some cap" "cap_rel t d c row cap"
proof -
  have "rel_option (cap_rel t d c) (Some row) (om_get (cdoc_capabilities mdoc) c)"
    using assms unfolding doc_rel_def by metis
  then show thesis using that by (auto simp add: option_rel_Some1)
qed

lemma doc_rel_no_cap:
  "doc_rel t d doc mdoc \<Longrightarrow>
    om_get (capabilities t) (d, c) = None \<longleftrightarrow> om_get (cdoc_capabilities mdoc) c = None"
  unfolding doc_rel_def by (metis option.rel_distinct option.exhaust option.rel_sel)

lemma doc_rel_mpar: "doc_rel t d doc mdoc \<Longrightarrow> mpar (cdoc_capabilities mdoc) = par_of t d"
proof (rule ext)
  fix c
  assume rel: "doc_rel t d doc mdoc"
  show "mpar (cdoc_capabilities mdoc) c = par_of t d c"
  proof (cases "om_get (capabilities t) (d, c)")
    case None
    with doc_rel_no_cap [OF rel, of c] show ?thesis by (simp add: mpar_def par_of_def)
  next
    case (Some row)
    then obtain cap where "om_get (cdoc_capabilities mdoc) c = Some cap" "cap_rel t d c row cap"
      using doc_rel_cap [OF rel] by blast
    with Some show ?thesis by (simp add: mpar_def par_of_def cap_rel_def)
  qed
qed

lemma doc_rel_unrevoked:
  assumes "doc_rel t d doc mdoc"
  shows "unrevoked (cdoc_capabilities mdoc) c \<longleftrightarrow> active t d c"
proof (cases "om_get (capabilities t) (d, c)")
  case None
  with doc_rel_no_cap [OF assms, of c] show ?thesis by (simp add: unrevoked_def active_def)
next
  case (Some row)
  then obtain cap where "om_get (cdoc_capabilities mdoc) c = Some cap" "cap_rel t d c row cap"
    using doc_rel_cap [OF assms] by blast
  with Some show ?thesis by (simp add: unrevoked_def active_def cap_rel_def)
qed

lemma verifier_pair_eq: "v = w \<longleftrightarrow> vp_live v = vp_live w \<and> vp_receipt v = vp_receipt w"
  for v w :: verifier_pair
  by (cases v; cases w) simp

text \<open>
  The model's authorization differs from the store's in exactly one case: a capability whose
  chain has the full 64 nodes runs out of steps.
\<close>

lemma model_authorizes_iff:
  assumes "control_ok t" "refines t m" "chain (par_of t d) c cs"
  shows "authorizes sha m d c a op \<longleftrightarrow> authorize sha t d c a op \<and> length cs < 64"
proof -
  obtain row where row: "om_get (capabilities t) (d, c) = Some row"
    using chain_known [OF assms(3)] by (auto simp add: par_of_def)
  then obtain doc where doc: "om_get (documents t) d = Some doc"
    using caps_okD [OF assms(1) row] by (auto simp add: cap_row_ok_def)
  then obtain mdoc where mdoc: "om_get m d = Some mdoc" "doc_rel t d doc mdoc"
    using refines_doc [OF assms(2)] by blast
  obtain cap where cap: "om_get (cdoc_capabilities mdoc) c = Some cap" "cap_rel t d c row cap"
    using doc_rel_cap [OF mdoc(2) row] by blast
  have chain: "chain (mpar (cdoc_capabilities mdoc)) c cs"
    using assms(3) by (simp add: doc_rel_mpar [OF mdoc(2)])
  have act: "(\<forall>x \<in> set cs. active t d x) \<longleftrightarrow> active t d c"
    using active_chain [OF assms(1,3)] chain_self [OF assms(3)] by blast
  have "contains (mc_operations cap) op \<longleftrightarrow> op \<in> ops_in t d c"
    using cap(2) by (auto simp add: cap_rel_def ops_of_def)
  moreover have "doc_authorization t d = Authorized"
    using doc mdoc(2) by (simp add: doc_authorization_def doc_rel_def)
  ultimately have "authorizes sha m d c a op \<longleftrightarrow> cr_live_verifier row = vp_live (derive sha d c a)
      \<and> op \<in> ops_in t d c \<and> length cs < 64 \<and> active t d c"
    using mdoc(1) cap authorizes_loop_chain [OF chain, of 64] act
    by (simp add: authorizes_def model_verifiers_derive doc_rel_unrevoked [OF mdoc(2)])
      (auto simp add: cap_rel_def)
  then show ?thesis
    using row \<open>doc_authorization t d = Authorized\<close>
    by (auto simp add: authorize_spec [OF assms(1)] holds_def active_def)
qed


section \<open>Simulation\<close>

lemma doc_rel_cong:
  assumes "\<And>c. om_get (capabilities t') (x, c) = om_get (capabilities t) (x, c)"
    and "\<And>c. ops_in t' x c = ops_in t x c"
    and "\<And>i r. om_get (control_receipts t') (x, i, r) = om_get (control_receipts t) (x, i, r)"
  shows "doc_rel t' x = doc_rel t x"
proof -
  have "cap_rel t' x = cap_rel t x" by (intro ext) (simp add: cap_rel_def assms(2))
  then show ?thesis by (intro ext) (simp add: doc_rel_def assms(1,3))
qed

text \<open>A change of one document: the other documents stay related.\<close>

lemma refines_update:
  assumes "refines t m"
    and "documents t' = om_insert d doc' (documents t)" "doc_rel t' d doc' mdoc'"
    and "\<And>x c. x \<noteq> d \<Longrightarrow> om_get (capabilities t') (x, c) = om_get (capabilities t) (x, c)"
    and "\<And>x c. x \<noteq> d \<Longrightarrow> ops_in t' x c = ops_in t x c"
    and "\<And>x i r. x \<noteq> d \<Longrightarrow> om_get (control_receipts t') (x, i, r) = om_get (control_receipts t) (x, i, r)"
  shows "refines t' (om_insert d mdoc' m)"
  unfolding refines_def
proof
  fix x
  show "rel_option (doc_rel t' x) (om_get (documents t') x) (om_get (om_insert d mdoc' m) x)"
  proof (cases "x = d")
    case True
    with assms(2,3) show ?thesis by simp
  next
    case False
    then have "doc_rel t' x = doc_rel t x" using assms(4-6) by (intro doc_rel_cong) blast+
    with False assms(1,2) show ?thesis by (simp add: refines_def)
  qed
qed

fun store_outcome :: "model_control_outcome \<Rightarrow> store_control_outcome" where
  "store_outcome MInserted = StInserted"
| "store_outcome MAlreadyPresent = StAlreadyPresent"
| "store_outcome MAuthorizationDenied = StAuthorizationDenied"
| "store_outcome MIdentifierConflict = StIdentifierConflict"
| "store_outcome MRequestConflict = StRequestConflict"
| "store_outcome MCounterExhausted = StCounterExhausted"

lemma resolve_refines:
  assumes "control_ok t" "refines t m"
  shows "resolve_control_receipt sha t d i a req (rr_operation (encode_receipt x))
      (rr_normalized_input (encode_receipt x))
    = map_option store_outcome (receipt_outcome sha m d i a req x)"
proof (cases "om_get (documents t) d")
  case None
  then show ?thesis
    using unknown_document(2) [OF assms(1) None] refines_unknown [OF assms(2), of d]
    by (simp add: resolve_control_receipt_def receipt_outcome_def)
next
  case (Some doc)
  obtain mdoc where mdoc: "om_get m d = Some mdoc" "doc_rel t d doc mdoc"
    using refines_doc [OF assms(2) Some] .
  have rec: "om_get (control_receipts t) (d, i, req)
      = map_option encode_receipt (om_get (cdoc_receipts mdoc) (i, req))"
    using mdoc(2) by (simp add: doc_rel_def)
  show ?thesis
  proof (cases "om_get (cdoc_receipts mdoc) (i, req)")
    case None
    then show ?thesis
      using mdoc(1) rec by (simp add: resolve_control_receipt_def receipt_outcome_def)
  next
    case (Some stored)
    with rec have "om_contains (capabilities t) (d, i)"
      using control_okD(6) [OF assms(1)] unfolding receipts_ok_def by simp
    then obtain row where row: "om_get (capabilities t) (d, i) = Some row"
      by (auto simp add: om_contains_def)
    obtain cap where cap: "om_get (cdoc_capabilities mdoc) i = Some cap" "cap_rel t d i row cap"
      using doc_rel_cap [OF mdoc(2) row] .
    have eq: "rr_operation (encode_receipt stored) = rr_operation (encode_receipt x)
        \<and> rr_normalized_input (encode_receipt stored) = rr_normalized_input (encode_receipt x)
        \<longleftrightarrow> stored = x"
      using encode_receipt_inj [of stored x] by (cases "encode_receipt stored"; cases "encode_receipt x") simp
    show ?thesis
      using Some rec row cap mdoc(1) eq
      by (auto simp add: resolve_control_receipt_def receipt_outcome_def model_verifiers_derive
          cap_rel_def sha_verifier.receipt_ok_iff)
  qed
qed

lemma capacity_refines:
  assumes "doc_rel t d doc mdoc" "chain (par_of t d) c cs" "length cs \<le> MAX_CAPABILITY_DEPTH"
  shows "issuer_has_descendant_capacity mdoc c \<longleftrightarrow> store_issuer_has_descendant_capacity t d c"
  using capacity_loop_chain [of "cdoc_capabilities mdoc" c cs 64 1] assms(2,3)
    capacity_spec [OF assms(2,3)]
  by (simp add: doc_rel_mpar [OF assms(1)] issuer_has_descendant_capacity_def MAX_CAPABILITY_DEPTH_def)

definition granted_document ::
  "capability_document \<Rightarrow> capability_id \<Rightarrow> request_id \<Rightarrow> capability_id \<Rightarrow> verifier_pair
    \<Rightarrow> operation_set \<Rightarrow> u64 \<Rightarrow> capability_document" where
  "granted_document mdoc issuer req c v s revision =
    mdoc\<lparr> cdoc_capabilities := om_insert c
        \<lparr> mc_operations = s, mc_parent = Some issuer, mc_revoked = False, mc_verifiers = v \<rparr>
        (cdoc_capabilities mdoc),
      cdoc_receipts := om_insert (issuer, req) (GrantInput c v s) (cdoc_receipts mdoc),
      cdoc_revision := revision \<rparr>"

lemma grant_doc_rel:
  assumes "grant_ready t d doc issuer req c s revision"
    and "grant_effect t t' d doc issuer req c v s revision"
    and "doc_rel t d doc mdoc"
  shows "doc_rel t' d (doc\<lparr> dr_control_revision := revision \<rparr>)
    (granted_document mdoc issuer req c v s revision)"
proof -
  note ready = grant_readyD [OF assms(1)] and eff = grant_effectD [OF assms(2)]
  have caps: "rel_option (cap_rel t' d y) (om_get (capabilities t') (d, y))
      (om_get (cdoc_capabilities (granted_document mdoc issuer req c v s revision)) y)" for y
  proof (cases "y = c")
    case True
    then show ?thesis
      using ready(6) adds_capability_get [OF eff(1)] adds_capability_ops_in [OF ready(1) eff(1)]
      by (simp add: granted_document_def cap_rel_def grant_row_def)
  next
    case False
    then have "cap_rel t' d y = cap_rel t d y"
      using adds_capability_ops_in [OF ready(1) eff(1), of d y]
      by (intro ext) (simp add: cap_rel_def)
    then show ?thesis
      using False assms(3) adds_capability_get [OF eff(1), of d y]
      by (simp add: granted_document_def doc_rel_def)
  qed
  have "om_get (control_receipts t') (d, i, r) = map_option encode_receipt
      (om_get (cdoc_receipts (granted_document mdoc issuer req c v s revision)) (i, r))" for i r
    using assms(3) by (auto simp add: eff(3) granted_document_def doc_rel_def)
  with caps assms(3) show ?thesis
    by (simp add: doc_rel_def granted_document_def)
qed

lemma grant_refines:
  assumes "grant_ready t d doc issuer req c s revision"
    and "grant_effect t t' d doc issuer req c v s revision"
    and "refines t m" "om_get m d = Some mdoc" "doc_rel t d doc mdoc"
  shows "refines t' (om_insert d (granted_document mdoc issuer req c v s revision) m)"
proof -
  note ready = grant_readyD [OF assms(1)] and eff = grant_effectD [OF assms(2)]
  show ?thesis
    by (rule refines_update [OF assms(3) eff(2) grant_doc_rel [OF assms(1,2,5)]])
      (use adds_capability_get [OF eff(1)] adds_capability_ops_in [OF ready(1) eff(1)] eff(3) in auto)
qed


lemma grant_simulated:
  assumes "control_ok t" "canonical_ops s" "refines t m"
    and "store_grant_capability sha t d issuer ia req c ca s = Inr (StInserted, t')"
  shows "\<exists>m'. grant sha m d issuer ia req c ca s = (MInserted, m') \<and> refines t' m'"
proof -
  obtain doc revision where g: "grant_checks sha t d issuer ia req c ca s revision"
    "grant_ready t d doc issuer req c s revision"
    "grant_effect t t' d doc issuer req c (derive sha d c ca) s revision"
    using grant_inserted [OF assms(1,2,4)] .
  note ready = grant_readyD [OF g(2)]
  obtain mdoc where mdoc: "om_get m d = Some mdoc" "doc_rel t d doc mdoc"
    using refines_doc [OF assms(3) ready(2)] .
  obtain irow where irow: "om_get (capabilities t) (d, issuer) = Some irow"
    using ready(5) by (auto simp add: active_def)
  obtain icap where icap: "om_get (cdoc_capabilities mdoc) issuer = Some icap" "cap_rel t d issuer irow icap"
    using doc_rel_cap [OF mdoc(2) irow] .
  obtain cs where cs: "chain (par_of t d) issuer cs" "length cs \<le> MAX_CAPABILITY_DEPTH"
    using obtain_cap_chain [OF assms(1) irow] .
  have room: "length cs < MAX_CAPABILITY_DEPTH" using capacity_spec [OF cs] ready(11) by simp
  have auth: "authorizes sha m d issuer ia Grant"
    using model_authorizes_iff [OF assms(1,3) cs(1)] g(1) room
    by (simp add: grant_checks_def MAX_CAPABILITY_DEPTH_def)
  have "resolve_control_receipt sha t d issuer ia req 0 (grant_normalized_input c (derive sha d c ca) s) = None"
    using ready(9) by (simp add: resolve_None_iff)
  then have fresh: "receipt_outcome sha m d issuer ia req (GrantInput c (derive sha d c ca) s) = None"
    using resolve_refines [OF assms(1,3), of sha d issuer ia req "GrantInput c (derive sha d c ca) s"]
    by simp
  have capacity: "issuer_has_descendant_capacity mdoc issuer"
    using capacity_refines [OF mdoc(2) cs] ready(11) by simp
  have "allows (mc_operations icap) s"
    using ready(7,8) icap(2) by (simp add: allows_iff [OF assms(2)] cap_rel_def)
  moreover have "checked_add (cdoc_revision mdoc) 1 = Some revision"
    using ready(4) mdoc(2) by (simp add: doc_rel_def)
  moreover have "\<not> om_contains (cdoc_capabilities mdoc) c"
    using doc_rel_no_cap [OF mdoc(2), of c] ready(10) by (simp add: om_contains_def)
  ultimately have "grant sha m d issuer ia req c ca s = (MInserted,
      om_insert d (granted_document mdoc issuer req c (derive sha d c ca) s revision) m)"
    using fresh auth capacity mdoc(1) icap(1)
    by (simp add: grant_def Let_def model_verifiers_derive granted_document_def)
  with grant_refines [OF g(2,3) assms(3) mdoc] show ?thesis by blast
qed

text \<open>
  Conversely a model grant is one the store makes too, unless a count limit the model does not
  have stops it.
\<close>

lemma grant_reflected:
  assumes "control_ok t" "canonical_ops s" "refines t m"
    and "grant sha m d issuer ia req c ca s = (MInserted, m')"
    and "\<not> control_counts_exceeded t d (Some issuer) True"
  shows "\<exists>t'. store_grant_capability sha t d issuer ia req c ca s = Inr (StInserted, t')"
proof -
  let ?x = "GrantInput c (derive sha d c ca) s"
  have fresh: "receipt_outcome sha m d issuer ia req ?x = None"
    using assms(4) resolve_refines [OF assms(1,3), of sha d issuer ia req ?x]
      resolve_not_inserted [of sha t d issuer ia req "rr_operation (encode_receipt ?x)"]
    by (cases "receipt_outcome sha m d issuer ia req ?x")
      (fastforce simp add: grant_def Let_def model_verifiers_derive)+
  have auth: "authorizes sha m d issuer ia Grant"
    using assms(4) fresh by (auto simp add: grant_def Let_def model_verifiers_derive split: if_splits)
  then obtain mdoc icap where m: "om_get m d = Some mdoc" "om_get (cdoc_capabilities mdoc) issuer = Some icap"
    by (auto simp add: authorizes_def split: option.splits)
  obtain revision where model: "issuer_has_descendant_capacity mdoc issuer"
    "allows (mc_operations icap) s" "checked_add (cdoc_revision mdoc) 1 = Some revision"
    "\<not> om_contains (cdoc_capabilities mdoc) c"
    using assms(4) fresh auth m
    by (auto simp add: grant_def Let_def model_verifiers_derive split: if_splits option.splits)
  obtain doc where doc: "om_get (documents t) d = Some doc"
    using refines_unknown [OF assms(3), of d] m(1) by fastforce
  have rel: "doc_rel t d doc mdoc"
    using refines_doc [OF assms(3) doc] m(1) by fastforce
  have "om_get (capabilities t) (d, issuer) \<noteq> None" using doc_rel_no_cap [OF rel, of issuer] m(2) by simp
  then obtain irow where irow: "om_get (capabilities t) (d, issuer) = Some irow" by blast
  have irel: "cap_rel t d issuer irow icap" using doc_rel_cap [OF rel irow] m(2) by fastforce
  obtain cs where cs: "chain (par_of t d) issuer cs" "length cs \<le> MAX_CAPABILITY_DEPTH"
    using obtain_cap_chain [OF assms(1) irow] .
  have "om_get (control_receipts t) (d, issuer, req) = None"
    using resolve_refines [OF assms(1,3), of sha d issuer ia req ?x] fresh resolve_None_iff by simp
  moreover have "authorize sha t d issuer ia Grant"
    using auth model_authorizes_iff [OF assms(1,3) cs(1)] by simp
  moreover have "next_control_revision t d = Some revision"
    using doc rel model(3) by (simp add: next_control_revision_def doc_rel_def)
  moreover have "ops_of s \<noteq> {} \<and> ops_of s \<subseteq> ops_in t d issuer"
    using model(2) irel by (simp add: allows_iff [OF assms(2)] cap_rel_def)
  moreover have "om_get (capabilities t) (d, c) = None"
    using doc_rel_no_cap [OF rel, of c] model(4) by (simp add: om_contains_def)
  moreover have "store_issuer_has_descendant_capacity t d issuer"
    using capacity_refines [OF rel cs] model(1) by simp
  moreover have "\<not> control_limits_exceeded t d (Some issuer) True (count_ones (ops_bits s))
      (length (grant_normalized_input c (derive sha d c ca) s))"
    using byte_limits_unreachable [OF assms(1) count_ones_canonical [OF assms(2)]] assms(5)
    by (simp add: input_lengths)
  ultimately have "grant_checks sha t d issuer ia req c ca s revision" by (simp add: grant_checks_def)
  from grant_passes [OF assms(1,2) this] show ?thesis by blast
qed


definition revoked_document ::
  "capability_document \<Rightarrow> capability_id \<Rightarrow> request_id \<Rightarrow> capability_id \<Rightarrow> u64
    \<Rightarrow> capability_document" where
  "revoked_document mdoc issuer req target revision =
    (let doc = foldl (revoke_one target) mdoc (om_keys (cdoc_capabilities mdoc)) in
     doc\<lparr> cdoc_receipts := om_insert (issuer, req) (RevokeInput target) (cdoc_receipts doc),
       cdoc_revision := revision \<rparr>)"

lemma is_descendant_refines:
  assumes "control_ok t" "doc_rel t d doc mdoc" "par_of t d c \<noteq> None"
  shows "is_descendant mdoc a c \<longleftrightarrow> descends (par_of t d) a c"
proof -
  obtain row where "om_get (capabilities t) (d, c) = Some row"
    using assms(3) by (auto simp add: par_of_def)
  then obtain cs where cs: "chain (par_of t d) c cs" "length cs \<le> MAX_CAPABILITY_DEPTH"
    using obtain_cap_chain [OF assms(1)] by blast
  have "chain (mpar (cdoc_capabilities mdoc)) c cs"
    using cs(1) by (simp add: doc_rel_mpar [OF assms(2)])
  then show ?thesis
    using is_descendant_loop_chain [of "cdoc_capabilities mdoc" c cs 64 a] cs
    by (simp add: is_descendant_def descends_iff [OF cs(1)] MAX_CAPABILITY_DEPTH_def)
qed

lemma revoke_cap_rel:
  assumes "revoke_ready t d doc issuer req target revision"
    and "revoke_effect t t' d doc issuer req target revision"
    and "doc_rel t d doc mdoc"
  shows "rel_option (cap_rel t' d y) (om_get (capabilities t') (d, y))
    (om_get (cdoc_capabilities (revoked_document mdoc issuer req target revision)) y)"
proof -
  note ready = revoke_readyD [OF assms(1)] and eff = revoke_effectD [OF assms(2)]
  have get: "om_get (cdoc_capabilities (revoked_document mdoc issuer req target revision)) y = map_option
      (\<lambda>cap. if y \<in> set (om_keys (cdoc_capabilities mdoc)) \<and> is_descendant mdoc target y
        then cap\<lparr> mc_revoked := True \<rparr> else cap) (om_get (cdoc_capabilities mdoc) y)"
    by (simp add: revoked_document_def Let_def revoke_all_get)
  show ?thesis
  proof (cases "om_get (capabilities t) (d, y)")
    case None
    then show ?thesis using doc_rel_no_cap [OF assms(3), of y] by (simp add: get eff(1))
  next
    case (Some row)
    obtain cap where cap: "om_get (cdoc_capabilities mdoc) y = Some cap" "cap_rel t d y row cap"
      using doc_rel_cap [OF assms(3) Some] .
    have "y \<in> set (om_keys (cdoc_capabilities mdoc))"
      using om_get_in [OF cap(1)] by (force simp add: om_keys_def)
    moreover have "is_descendant mdoc target y \<longleftrightarrow> descends (par_of t d) target y"
      using is_descendant_refines [OF ready(1) assms(3)] Some by (simp add: par_of_def)
    ultimately show ?thesis
      using Some cap revoke_ops_in [OF assms(2)] by (simp add: get eff(1) cap_rel_def)
  qed
qed

lemma revoke_refines:
  assumes "revoke_ready t d doc issuer req target revision"
    and "revoke_effect t t' d doc issuer req target revision"
    and "refines t m" "om_get m d = Some mdoc" "doc_rel t d doc mdoc"
  shows "refines t' (om_insert d (revoked_document mdoc issuer req target revision) m)"
proof -
  note eff = revoke_effectD [OF assms(2)]
  have receipts: "om_get (control_receipts t') (d, i, r) = map_option encode_receipt
      (om_get (cdoc_receipts (revoked_document mdoc issuer req target revision)) (i, r))" for i r
    using assms(5) by (auto simp add: eff(3) revoked_document_def Let_def doc_rel_def revoke_all_fields)
  have "doc_rel t' d (doc\<lparr> dr_control_revision := revision \<rparr>)
      (revoked_document mdoc issuer req target revision)"
    using assms(5) revoke_cap_rel [OF assms(1,2,5)] receipts unfolding doc_rel_def
    by (simp add: revoked_document_def Let_def revoke_all_fields)
  moreover have "om_get (capabilities t') (x, c) = om_get (capabilities t) (x, c)" if "x \<noteq> d" for x c
    using that by (simp add: eff(1) option.map_ident)
  ultimately show ?thesis
    by (intro refines_update [OF assms(3) eff(2)])
      (use revoke_ops_in [OF assms(2)] eff(3) in auto)
qed

lemma revoke_simulated:
  assumes "control_ok t" "refines t m"
    and "store_revoke_capability sha t d issuer ia req target = Inr (StInserted, t')"
    and "chain (par_of t d) issuer cs" "length cs < 64"
  shows "\<exists>m'. revoke sha m d issuer ia req target = (MInserted, m') \<and> refines t' m'"
proof -
  obtain doc revision where r: "revoke_checks sha t d issuer ia req target revision"
    "revoke_ready t d doc issuer req target revision"
    "revoke_effect t t' d doc issuer req target revision"
    using revoke_inserted [OF assms(1,3)] .
  note ready = revoke_readyD [OF r(2)]
  obtain mdoc where mdoc: "om_get m d = Some mdoc" "doc_rel t d doc mdoc"
    using refines_doc [OF assms(2) ready(2)] .
  have auth: "authorizes sha m d issuer ia Revoke"
    using model_authorizes_iff [OF assms(1,2,4)] r(1) assms(5) by (simp add: revoke_checks_def)
  have "resolve_control_receipt sha t d issuer ia req 1 (be_encode target) = None"
    using ready(7) by (simp add: resolve_None_iff)
  then have fresh: "receipt_outcome sha m d issuer ia req (RevokeInput target) = None"
    using resolve_refines [OF assms(1,2), of sha d issuer ia req "RevokeInput target"] by simp
  obtain trow where trow: "om_get (capabilities t) (d, target) = Some trow"
    using ready(6) by (auto simp add: par_of_def)
  obtain tcap where tcap: "om_get (cdoc_capabilities mdoc) target = Some tcap" "cap_rel t d target trow tcap"
    using doc_rel_cap [OF mdoc(2) trow] .
  have "active t d target" "descends (par_of t d) issuer target"
    using r(1) by (simp_all add: revoke_checks_def)
  then have "is_active_descendant m d issuer target"
    using mdoc tcap trow is_descendant_refines [OF assms(1) mdoc(2) ready(6)]
    by (simp add: is_active_descendant_def cap_rel_def active_def)
  moreover have "checked_add (cdoc_revision mdoc) 1 = Some revision"
    using ready(4) mdoc(2) by (simp add: doc_rel_def)
  ultimately have "revoke sha m d issuer ia req target = (MInserted,
      om_insert d (revoked_document mdoc issuer req target revision) m)"
    using fresh auth mdoc(1) by (simp add: revoke_def revoked_document_def Let_def)
  with revoke_refines [OF r(2,3) assms(2) mdoc] show ?thesis by blast
qed

definition created_document :: "capability_id \<Rightarrow> verifier_pair \<Rightarrow> capability_document" where
  "created_document root v =
    \<lparr> cdoc_capabilities = om_insert root
        \<lparr> mc_operations = FULL_OPS, mc_parent = None, mc_revoked = False, mc_verifiers = v \<rparr> om_empty,
      cdoc_receipts = om_empty, cdoc_revision = 1, cdoc_root_id = root \<rparr>"

lemma create_refines:
  assumes "create_ready t a req d" "create_effect t t' a req d root v" "refines t m"
  shows "refines t' (om_insert d (created_document root v) m)"
proof -
  note ready = create_readyD [OF assms(1)] and eff = create_effectD [OF assms(2)]
  note unknown = unknown_document [OF ready(1,2)]
  have caps: "rel_option (cap_rel t' d y) (om_get (capabilities t') (d, y))
      (om_get (cdoc_capabilities (created_document root v)) y)" for y
  proof (cases "y = root")
    case True
    then show ?thesis
      using adds_capability_get [OF eff(1), of d y] adds_capability_ops_in [OF ready(1) eff(1), of d y]
        canonical_full by (simp add: cap_rel_def root_row_def created_document_def)
  next
    case False
    then show ?thesis
      using adds_capability_get [OF eff(1), of d y] unknown(1) by (simp add: created_document_def)
  qed
  then have "doc_rel t' d \<lparr> dr_state = 0, dr_control_revision = 1, dr_root_capability_id = root \<rparr>
      (created_document root v)"
    using unknown(2) by (simp add: doc_rel_def eff(5)) (simp add: created_document_def)
  then show ?thesis
    by (intro refines_update [OF assms(3) eff(2)])
      (use adds_capability_get [OF eff(1)] adds_capability_ops_in [OF ready(1) eff(1)] eff(5) in auto)
qed

lemma create_simulated:
  assumes "control_ok t" "refines t m"
    and "store_create_document sha t a auth req d root ra = Inr (StCreateInserted, t')"
  shows "\<exists>m'. create_document sha m d root ra = (MCreateInserted, m') \<and> refines t' m'"
proof -
  note new = create_inserted [OF assms(1,3)]
  have "om_get m d = None"
    using refines_unknown [OF assms(2), of d] create_readyD(2) [OF new(2)] by simp
  then have "create_document sha m d root ra
      = (MCreateInserted, om_insert d (created_document root (derive sha d root ra)) m)"
    by (simp add: create_document_def model_verifiers_derive Let_def created_document_def)
  with create_refines [OF new(2,3) assms(2)] show ?thesis by blast
qed

lemma refines_empty: "refines empty_tables om_empty"
  by (simp add: refines_def empty_tables_def)

lemma provision_refines:
  "refines t m \<Longrightarrow> has_effect t (Provisioned p) t' \<Longrightarrow> refines t' m"
  by (simp add: refines_def doc_rel_def [abs_def] cap_rel_def [abs_def] ops_in_def)


lemma history_refines:
  "control_history sha t0 t \<Longrightarrow> control_ok t0 \<Longrightarrow> refines t0 m0 \<Longrightarrow> \<exists>m. refines t m"
proof (induction rule: control_history.induct)
  case (history_step t0 t t')
  then obtain m where m: "refines t m" by blast
  have "control_ok t" using history_step.hyps(1) history_step.prems(1) by (rule control_history_keeps_ok)
  then obtain e where e: "has_effect t e t'" using control_step_effect history_step.hyps(2) by blast
  show ?case
  proof (cases e)
    case NoEffect
    with e m show ?thesis by auto
  next
    case (Provisioned p)
    with e m show ?thesis using provision_refines by blast
  next
    case (Created a req d root v)
    with e have c: "create_ready t a req d" "create_effect t t' a req d root v" by auto
    from create_refines [OF c m] show ?thesis by blast
  next
    case (Granted d doc issuer req c v s revision)
    with e have g: "grant_ready t d doc issuer req c s revision"
      "grant_effect t t' d doc issuer req c v s revision" by auto
    from refines_doc [OF m grant_readyD(2) [OF g(1)]] show ?thesis
      using grant_refines [OF g m] by metis
  next
    case (Revoked d doc issuer req target revision)
    with e have r: "revoke_ready t d doc issuer req target revision"
      "revoke_effect t t' d doc issuer req target revision" by auto
    from refines_doc [OF m revoke_readyD(2) [OF r(1)]] show ?thesis
      using revoke_refines [OF r m] by metis
  qed
qed blast

end
