(* ===== verification/Store_Oracle.thy ===== *)
theory Store_Oracle
  imports Store_Refinement
begin

text \<open>
  The reference model as the oracle of the store: the simulation as properties, and the one
  point where the two disagree, a capability at the full depth of 64.
\<close>

section \<open>A chain of 64 capabilities\<close>

definition deep_id :: "nat \<Rightarrow> capability_id" where
  "deep_id k = word_of_nat (5 + k)"

lemma deep_id_inj: "i < 64 \<Longrightarrow> j < 64 \<Longrightarrow> deep_id i = deep_id j \<longleftrightarrow> i = j"
proof -
  have "unat (deep_id k) = 5 + k" if "k < 64" for k
    using that unat_of_nat [of "5 + k", where 'a = 128] unfolding deep_id_def by simp
  then show "i < 64 \<Longrightarrow> j < 64 \<Longrightarrow> deep_id i = deep_id j \<longleftrightarrow> i = j"
    by (metis add_left_cancel)
qed

definition deep_state :: "nat \<Rightarrow> tables \<Rightarrow> bool" where
  "deep_state k t \<longleftrightarrow> control_history demo_sha empty_tables t
    \<and> (\<exists>cs. chain (par_of t 4) (deep_id k) cs \<and> length cs = Suc k)
    \<and> (\<forall>op. holds demo_sha t 4 (deep_id k) 6 op) \<and> doc_authorization t 4 = Authorized
    \<and> caps_in t 4 = Suc k \<and> count_where (\<lambda>_ _. True) (capabilities t) = Suc k
    \<and> receipts_in t 4 = k \<and> count_where (\<lambda>_ _. True) (control_receipts t) = k
    \<and> (\<forall>j r. k \<le> j \<longrightarrow> j < 64 \<longrightarrow> om_get (control_receipts t) (4, deep_id j, r) = None)
    \<and> (\<forall>j. k < j \<longrightarrow> j < 64 \<longrightarrow> om_get (capabilities t) (4, deep_id j) = None)
    \<and> (\<forall>j. k \<le> j \<longrightarrow> j < 64 \<longrightarrow> direct_children t 4 (deep_id j) = 0)"

lemma deep_start: "deep_state 0 demo_document"
proof -
  have five: "deep_id j = 5 \<longleftrightarrow> j = 0" if "j < 64" for j
    using deep_id_inj [OF that, of 0] by (simp add: deep_id_def)
  have "chain (par_of demo_document 4) (deep_id 0) [5]"
    using demo_root_chain by (simp add: deep_id_def)
  moreover have "direct_children demo_document 4 p = 0" for p
    by (simp add: direct_children_def demo_simps root_row_def)
  moreover have "om_get (capabilities demo_document) (4, c) = None" if "c \<noteq> 5" for c
    using that by (simp add: demo_simps)
  ultimately show ?thesis
    using demo_document_ok(1) demo_root_holds(1) demo_active(1) five
    by (simp add: deep_state_def caps_in_def receipts_in_def)
      (auto simp add: demo_simps deep_id_def)
qed

lemma deep_step:
  assumes "deep_state k t" "Suc k < 64"
  shows "\<exists>t'. deep_state (Suc k) t'
    \<and> store_grant_capability demo_sha t 4 (deep_id k) 6 7 (deep_id (Suc k)) 6 FULL_OPS = Inr (StInserted, t')"
proof -
  note d = assms(1) [unfolded deep_state_def]
  let ?i = "deep_id k" and ?c = "deep_id (Suc k)"
  have ok: "control_ok t" using d history_ok by blast
  obtain cs where cs: "chain (par_of t 4) ?i cs" "length cs = Suc k" using d by blast
  have le: "length cs \<le> MAX_CAPABILITY_DEPTH" using cs(2) assms(2) by (simp add: MAX_CAPABILITY_DEPTH_def)
  obtain doc where doc: "om_get (documents t) 4 = Some doc" "dr_state doc = 0"
    using d next_control_revision_authorized by blast
  have "unat (dr_control_revision doc) = Suc k"
    using control_okD(4) [OF ok] doc(1) d unfolding docs_ok_def by simp
  then have "checked_add (dr_control_revision doc) 1 = Some (dr_control_revision doc + 1)"
    using assms(2) by (simp add: checked_add_Some_unat)
  then have next_revision: "next_control_revision t 4 = Some (dr_control_revision doc + 1)"
    using doc by (simp add: next_control_revision_def)
  have room: "\<not> control_counts_exceeded t 4 (Some ?i) True"
    using d assms(2) by (simp add: control_counts_exceeded_def caps_in_def [symmetric]
        receipts_in_def [symmetric] store_limit_defs)
  have "grant_checks demo_sha t 4 ?i 6 7 ?c 6 FULL_OPS (dr_control_revision doc + 1)"
    unfolding grant_checks_def
  proof (intro conjI)
    show "authorize demo_sha t 4 ?i 6 Grant" using d authorize_spec [OF ok] by blast
    show "ops_of FULL_OPS \<subseteq> ops_in t 4 ?i" using d by (auto simp add: holds_def)
    show "store_issuer_has_descendant_capacity t 4 ?i"
      using capacity_spec [OF cs(1) le] cs(2) assms(2) by (simp add: MAX_CAPABILITY_DEPTH_def)
    show "\<not> control_limits_exceeded t 4 (Some ?i) True (count_ones (ops_bits FULL_OPS))
        (length (grant_normalized_input ?c (derive demo_sha 4 ?c 6) FULL_OPS))"
      using byte_limits_unreachable [OF ok count_ones_canonical [OF canonical_full]] room
      by (simp add: input_lengths)
  qed (use d assms(2) next_revision in \<open>simp_all add: ops_of_full\<close>)
  from grant_passes [OF ok canonical_full this] obtain doc' t' where
    t': "store_grant_capability demo_sha t 4 ?i 6 7 ?c 6 FULL_OPS = Inr (StInserted, t')"
    and g: "grant_ready t 4 doc' ?i 7 ?c FULL_OPS (dr_control_revision doc + 1)"
    "grant_effect t t' 4 doc' ?i 7 ?c (derive demo_sha 4 ?c 6) FULL_OPS (dr_control_revision doc + 1)"
    by blast
  note eff = grant_effectD [OF g(2)]
  have ids: "deep_id j = ?i \<longleftrightarrow> j = k" "deep_id j = ?c \<longleftrightarrow> j = Suc k" if "j < 64" for j
    using deep_id_inj [OF that] assms(2) by simp_all
  have "control_history demo_sha empty_tables t'"
    using d control_step.step_grant [OF canonical_full t'] control_history.history_step by blast
  moreover have "par_of t' 4 ?c = Some (Some ?i)"
    by (simp add: adds_capability_par_of [OF eff(1)] grant_row_def)
  then have "chain (par_of t' 4) ?c (?c # cs)"
    using adds_capability_chain [OF eff(1) cs(1)] by (rule chain_step)
  then have "\<exists>cs. chain (par_of t' 4) ?c cs \<and> length cs = Suc (Suc k)" using cs(2) by fastforce
  moreover have "holds demo_sha t' 4 ?c 6 op" for op
    using adds_capability_get [OF eff(1), of 4 ?c] adds_capability_ops_in [OF ok eff(1), of 4 ?c]
    by (simp add: holds_def grant_row_def ops_of_full)
  moreover have "doc_authorization t' 4 = Authorized"
    using grant_readyD(3) [OF g(1)] by (simp add: doc_authorization_def eff(2))
  moreover have "om_get (control_receipts t') (4, deep_id j, r) = None" if "Suc k \<le> j" "j < 64" for j r
    using d that ids(1) [of j] by (simp add: eff(3))
  moreover have "om_get (capabilities t') (4, deep_id j) = None" if "Suc k < j" "j < 64" for j
    using d that ids(2) [of j] adds_capability_get [OF eff(1), of 4 "deep_id j"] by simp
  moreover have "direct_children t' 4 (deep_id j) = 0" if "Suc k \<le> j" "j < 64" for j
    using d that ids(1) [of j] adds_capability_counts(3) [OF eff(1), of 4 "deep_id j"]
    by (auto simp add: grant_row_def)
  moreover have "caps_in t' 4 = Suc (Suc k)"
    "count_where (\<lambda>_ _. True) (capabilities t') = Suc (Suc k)" "receipts_in t' 4 = Suc k"
    "count_where (\<lambda>_ _. True) (control_receipts t') = Suc k"
    using d adds_capability_counts(1,2) [OF eff(1)] grant_receipts_in [OF g] by simp_all
  ultimately have "deep_state (Suc k) t'" unfolding deep_state_def by blast
  with t' show ?thesis by blast
qed

lemma deep_exists: "k < 64 \<Longrightarrow> \<exists>t. deep_state k t"
proof (induction k)
  case 0
  show ?case using deep_start by blast
next
  case (Suc k)
  then show ?case using deep_step by fastforce
qed

text \<open>
  C28: the store and its oracle disagree at the full depth.  From some reachable state of the
  store and a model state related to it both insert the same grant; in the related states that
  follow the store authorizes the new capability, whose chain has 64 nodes, and the model that
  just admitted it denies it: the model's loop runs out of steps before it sees the end of the
  chain.
\<close>

theorem oracle_denies_full_depth:
  "\<exists>t m i c cs t' m'. control_history demo_sha empty_tables t \<and> refines t m
    \<and> store_grant_capability demo_sha t 4 i 6 7 c 6 FULL_OPS = Inr (StInserted, t')
    \<and> grant demo_sha m 4 i 6 7 c 6 FULL_OPS = (MInserted, m')
    \<and> control_history demo_sha empty_tables t' \<and> refines t' m'
    \<and> chain (par_of t' 4) c cs \<and> length cs = MAX_CAPABILITY_DEPTH
    \<and> authorize demo_sha t' 4 c 6 Read \<and> \<not> authorizes demo_sha m' 4 c 6 Read"
proof -
  obtain t where t: "deep_state 62 t" using deep_exists [of 62] by auto
  obtain t' where t': "deep_state (Suc 62) t'"
    "store_grant_capability demo_sha t 4 (deep_id 62) 6 7 (deep_id (Suc 62)) 6 FULL_OPS = Inr (StInserted, t')"
    using deep_step [OF t] by auto
  let ?c = "deep_id (Suc 62)"
  note d = t'(1) [unfolded deep_state_def]
  have history: "control_history demo_sha empty_tables t" using t unfolding deep_state_def by blast
  obtain m where m: "refines t m"
    using history_refines [OF history empty_control_ok refines_empty] by blast
  obtain m' where m': "grant demo_sha m 4 (deep_id 62) 6 7 ?c 6 FULL_OPS = (MInserted, m')" "refines t' m'"
    using grant_simulated [OF history_ok [OF history] canonical_full m t'(2)] by blast
  obtain cs where cs: "chain (par_of t' 4) ?c cs" "length cs = MAX_CAPABILITY_DEPTH"
    using d by (auto simp add: MAX_CAPABILITY_DEPTH_def)
  have ok: "control_ok t'" using d history_ok by blast
  have "authorize demo_sha t' 4 ?c 6 Read" using d authorize_spec [OF ok] by blast
  moreover have "\<not> authorizes demo_sha m' 4 ?c 6 Read"
    using model_authorizes_iff [OF ok m'(2) cs(1)] cs(2) by (simp add: MAX_CAPABILITY_DEPTH_def)
  ultimately show ?thesis using history d m m' t'(2) cs by blast
qed

section \<open>Store and oracle on the same requests\<close>

text \<open>
  A request to the control tables, as the store and the model answer it: whether it is
  inserted, and the state it leaves.  The model has no create authorities.
\<close>

datatype control_request =
    ProvisionRequest create_authority_provision
  | CreateRequest create_authority_id authenticator request_id document_id capability_id authenticator
  | GrantRequest document_id capability_id authenticator request_id capability_id authenticator operation_set
  | RevokeRequest document_id capability_id authenticator request_id capability_id

fun store_control :: "(bytes \<Rightarrow> key32) \<Rightarrow> control_request \<Rightarrow> tables \<Rightarrow> bool \<times> tables" where
  "store_control sha (ProvisionRequest p) t = (case provision_create_authority p t of
      Inl _ \<Rightarrow> (False, t) | Inr t' \<Rightarrow> (False, t'))"
| "store_control sha (CreateRequest a auth req d root ra) t = (case store_create_document sha t a auth req d root ra of
      Inl _ \<Rightarrow> (False, t) | Inr (outcome, t') \<Rightarrow> (outcome = StCreateInserted, t'))"
| "store_control sha (GrantRequest d i ia req c ca s) t = (case store_grant_capability sha t d i ia req c ca s of
      Inl _ \<Rightarrow> (False, t) | Inr (outcome, t') \<Rightarrow> (outcome = StInserted, t'))"
| "store_control sha (RevokeRequest d i ia req c) t = (case store_revoke_capability sha t d i ia req c of
      Inl _ \<Rightarrow> (False, t) | Inr (outcome, t') \<Rightarrow> (outcome = StInserted, t'))"

fun oracle_control :: "(bytes \<Rightarrow> key32) \<Rightarrow> control_request \<Rightarrow> capability_model \<Rightarrow> bool \<times> capability_model" where
  "oracle_control sha (ProvisionRequest p) m = (False, m)"
| "oracle_control sha (CreateRequest a auth req d root ra) m =
    (let (outcome, m') = create_document sha m d root ra in (outcome = MCreateInserted, m'))"
| "oracle_control sha (GrantRequest d i ia req c ca s) m =
    (let (outcome, m') = grant sha m d i ia req c ca s in (outcome = MInserted, m'))"
| "oracle_control sha (RevokeRequest d i ia req c) m =
    (let (outcome, m') = revoke sha m d i ia req c in (outcome = MInserted, m'))"

text \<open>
  The store answers every request, the model every one that the store inserted.  The flag tells
  whether the model inserted them all.
\<close>

fun conformance_run :: "(bytes \<Rightarrow> key32) \<Rightarrow> control_request list \<Rightarrow> tables \<Rightarrow> capability_model
    \<Rightarrow> bool \<times> tables \<times> capability_model" where
  "conformance_run sha [] t m = (True, t, m)"
| "conformance_run sha (r # rs) t m =
    (let (inserted, t') = store_control sha r t in
     if inserted
     then let (agreed, m') = oracle_control sha r m; (rest, final) = conformance_run sha rs t' m' in (agreed \<and> rest, final)
     else conformance_run sha rs t' m)"

definition full_depth :: "tables \<Rightarrow> document_id \<Rightarrow> capability_id \<Rightarrow> bool" where
  "full_depth t d c \<longleftrightarrow> (\<exists>cs. chain (par_of t d) c cs \<and> length cs = MAX_CAPABILITY_DEPTH)"

text \<open>What requests of the run are: operation sets are decoded, and no capability at the full depth revokes.\<close>

fun admissible :: "tables \<Rightarrow> control_request \<Rightarrow> bool" where
  "admissible t (GrantRequest d i ia req c ca s) \<longleftrightarrow> from_bits s = Some s"
| "admissible t (RevokeRequest d i ia req c) \<longleftrightarrow> \<not> full_depth t d i"
| "admissible t _ \<longleftrightarrow> True"

fun admissible_run :: "(bytes \<Rightarrow> key32) \<Rightarrow> control_request list \<Rightarrow> tables \<Rightarrow> bool" where
  "admissible_run sha [] t \<longleftrightarrow> True"
| "admissible_run sha (r # rs) t \<longleftrightarrow> admissible t r \<and> admissible_run sha rs (snd (store_control sha r t))"

lemma below_full_depth:
  assumes "control_ok t" "chain (par_of t d) c cs"
  shows "\<not> full_depth t d c \<longleftrightarrow> length cs < 64"
proof -
  have "par_of t d c \<noteq> None" using assms(2) by (rule chain_known)
  then have "length cs \<le> MAX_CAPABILITY_DEPTH"
    using control_okD(3) [OF assms(1)] chain_unique [OF assms(2)] unfolding depth_ok_def by blast
  moreover have "full_depth t d c \<longleftrightarrow> length cs = MAX_CAPABILITY_DEPTH"
    using assms(2) chain_unique [OF assms(2)] unfolding full_depth_def by blast
  ultimately show ?thesis by (auto simp add: MAX_CAPABILITY_DEPTH_def)
qed

lemma oracle_authorizes:
  assumes "control_ok t" "refines t m"
  shows "authorizes sha m d c a op \<longleftrightarrow> authorize sha t d c a op \<and> \<not> full_depth t d c"
proof (cases "par_of t d c")
  case None
  then have row: "om_get (capabilities t) (d, c) = None" by (simp add: par_of_def)
  then have "\<not> authorize sha t d c a op"
    by (simp add: authorize_spec [OF assms(1)] holds_def)
  moreover have "\<not> authorizes sha m d c a op"
  proof (cases "om_get (documents t) d")
    case None
    then show ?thesis using refines_unknown [OF assms(2), of d] by (simp add: authorizes_def)
  next
    case (Some doc)
    then obtain mdoc where "om_get m d = Some mdoc" "doc_rel t d doc mdoc" by (rule refines_doc [OF assms(2)])
    then show ?thesis using row doc_rel_no_cap [of t d doc mdoc c] by (simp add: authorizes_def)
  qed
  ultimately show ?thesis by simp
next
  case (Some parent)
  then obtain cs where cs: "chain (par_of t d) c cs"
    using control_okD(3) [OF assms(1)] unfolding depth_ok_def by force
  then show ?thesis using model_authorizes_iff [OF assms cs] below_full_depth [OF assms(1)] by simp
qed

text \<open>A refused request changes no table; an inserted one the model inserts too.\<close>

lemma store_control_step:
  assumes "control_ok t" "refines t m" "admissible t r" "store_control sha r t = (inserted, t')"
  shows "control_ok t' \<and> (if inserted then \<exists>m'. oracle_control sha r m = (True, m') \<and> refines t' m' else refines t' m)"
proof -
  have step: "control_step sha t t' \<Longrightarrow> control_ok t'" using control_step_keeps_ok assms(1) by blast
  show ?thesis
  proof (cases r)
    case (ProvisionRequest p)
    show ?thesis
    proof (cases "provision_create_authority p t")
      case (Inr u)
      then have u: "t' = u" "\<not> inserted" using assms(4) ProvisionRequest by simp_all
      have "control_ok t'" using step control_step.step_provision [OF Inr] u by simp
      moreover obtain e where "has_effect t e t'" "e = NoEffect \<or> e = Provisioned p"
        using provision_effect [OF Inr] u by metis
      then have "refines t' m" using provision_refines assms(2) by auto
      ultimately show ?thesis using u by simp
    qed (use assms ProvisionRequest in simp)
  next
    case (CreateRequest a auth req d root ra)
    show ?thesis
    proof (cases "create_checks sha t a auth req d")
      case True
      then obtain u where u: "store_create_document sha t a auth req d root ra = Inr (StCreateInserted, u)"
        using create_passes [OF assms(1)] by blast
      then have "control_ok t'" "inserted" "t' = u"
        using step control_step.step_create [OF u] assms(4) CreateRequest by simp_all
      then show ?thesis using create_simulated [OF assms(1,2) u] CreateRequest by auto
    next
      case False
      then show ?thesis using create_fails [OF False, of root ra] assms CreateRequest by auto
    qed
  next
    case (GrantRequest d i ia req c ca s)
    have can: "canonical_ops s" using assms(3) GrantRequest by (simp add: canonical_ops_def)
    show ?thesis
    proof (cases "\<exists>revision. grant_checks sha t d i ia req c ca s revision")
      case True
      then obtain u where u: "store_grant_capability sha t d i ia req c ca s = Inr (StInserted, u)"
        using grant_passes [OF assms(1) can] by blast
      then have "control_ok t'" "inserted" "t' = u"
        using step control_step.step_grant [OF can u] assms(4) GrantRequest by simp_all
      then show ?thesis using grant_simulated [OF assms(1) can assms(2) u] GrantRequest by auto
    next
      case False
      then show ?thesis using grant_fails [OF assms(1) can False] assms GrantRequest by auto
    qed
  next
    case (RevokeRequest d i ia req c)
    show ?thesis
    proof (cases "\<exists>revision. revoke_checks sha t d i ia req c revision")
      case True
      then obtain revision where checks: "revoke_checks sha t d i ia req c revision" by blast
      then obtain u where u: "store_revoke_capability sha t d i ia req c = Inr (StInserted, u)"
        using revoke_passes [OF assms(1)] by blast
      then have t': "control_ok t'" "inserted" "t' = u"
        using step control_step.step_revoke [OF u] assms(4) RevokeRequest by simp_all
      have "authorize sha t d i ia Revoke" using checks by (simp add: revoke_checks_def)
      then obtain row where "om_get (capabilities t) (d, i) = Some row"
        by (auto simp add: authorize_spec [OF assms(1)] holds_def split: option.splits)
      then obtain cs where cs: "chain (par_of t d) i cs" by (rule obtain_cap_chain [OF assms(1)])
      then have "length cs < 64" using below_full_depth [OF assms(1)] assms(3) RevokeRequest by simp
      then show ?thesis using revoke_simulated [OF assms(1,2) u cs] t' RevokeRequest by auto
    next
      case False
      then show ?thesis using revoke_fails [OF assms(1) False] assms RevokeRequest by auto
    qed
  qed
qed

lemma conformance_run_agrees:
  "control_ok t \<Longrightarrow> refines t m \<Longrightarrow> admissible_run sha rs t \<Longrightarrow> conformance_run sha rs t m = (agreed, t', m') \<Longrightarrow>
    agreed \<and> control_ok t' \<and> refines t' m'"
proof (induction rs arbitrary: t m agreed)
  case (Cons r rs)
  obtain inserted u where u: "store_control sha r t = (inserted, u)" by fastforce
  then have run: "admissible t r" "admissible_run sha rs u" using Cons.prems(3) by simp_all
  note step = store_control_step [OF Cons.prems(1,2) run(1) u]
  show ?case
  proof (cases inserted)
    case True
    then obtain m1 where m1: "oracle_control sha r m = (True, m1)" "refines u m1" using step by auto
    then have "conformance_run sha rs u m1 = (agreed, t', m')"
      using Cons.prems(4) u True by (simp add: split_beta)
    then show ?thesis using Cons.IH [OF _ m1(2) run(2)] step by blast
  next
    case False
    then have "conformance_run sha rs u m = (agreed, t', m')" using Cons.prems(4) u by simp
    then show ?thesis using Cons.IH [OF _ _ run(2)] step False by auto
  qed
qed simp

text \<open>
  C29: the model is an oracle for the store.  Whatever requests reach an empty store, the model,
  given those that the store inserts, inserts them all; and then the model authorizes a request
  exactly if the store does and the capability is not at the full depth of 64.  The operation
  sets of grants are decoded ones, and no capability at the full depth issues a revoke, which
  the model would deny.
\<close>

theorem store_refines_oracle:
  assumes "admissible_run sha rs empty_tables" "conformance_run sha rs empty_tables om_empty = (agreed, t, m)"
  shows "agreed \<and> (authorizes sha m d c a op \<longleftrightarrow>
    authorize_document sha t d c a op = Authorized \<and> \<not> full_depth t d c)"
  using conformance_run_agrees [OF empty_control_ok refines_empty assms] oracle_authorizes [of t m sha d c a op]
  by (simp add: authorize_def)

definition demo_requests :: "control_request list" where
  "demo_requests = [ProvisionRequest \<lparr> cp_create_authority_id = 1, cp_live_verifier = 0, cp_receipt_verifier = 0 \<rparr>,
    CreateRequest 1 2 3 4 5 6, GrantRequest 4 5 6 7 8 9 (one Read)]"

text \<open>The demo requests, then a revoke of what they granted.\<close>

theorem store_refines_oracle_witness:
  "\<exists>m t m'. conformance_run demo_sha demo_requests empty_tables om_empty = (True, demo_granted, m)
    \<and> authorizes demo_sha m 4 8 9 Read
    \<and> conformance_run demo_sha (demo_requests @ [RevokeRequest 4 5 6 9 8]) empty_tables om_empty = (True, t, m')
    \<and> store_revoke_capability demo_sha demo_granted 4 5 6 9 8 = Inr (StInserted, t)
    \<and> \<not> authorizes demo_sha m' 4 8 9 Read"
proof -
  let ?more = "demo_requests @ [RevokeRequest 4 5 6 9 8]"
  obtain doc t where t: "store_revoke_capability demo_sha demo_granted 4 5 6 9 8 = Inr (StInserted, t)"
    "revoke_effect demo_granted t 4 doc 5 9 8 3"
    using revoke_passes [OF demo_granted_ok(3) demo_revoke_checks] by blast
  have can: "from_bits (one Read) = Some (one Read)" using canonical_one by (simp add: canonical_ops_def)
  have shallow: "\<not> full_depth demo_granted 4 c" if "chain (par_of demo_granted 4) c cs" "length cs < 64" for c cs
    using below_full_depth [OF demo_granted_ok(3) that(1)] that(2) by simp
  have root: "chain (par_of demo_granted 4) 5 [5]"
    by (rule chain_root) (simp add: par_of_def demo_root root_row_def)
  have admissible: "admissible_run demo_sha demo_requests empty_tables" "admissible_run demo_sha ?more empty_tables"
    using shallow [OF root] by (simp_all add: demo_requests_def demo_provision demo_create demo_grant can)
  obtain a m where m: "conformance_run demo_sha demo_requests empty_tables om_empty = (a, demo_granted, m)"
    by (simp add: demo_requests_def demo_provision demo_create demo_grant split_beta)
  obtain b m' where m': "conformance_run demo_sha ?more empty_tables om_empty = (b, t, m')"
    by (simp add: demo_requests_def demo_provision demo_create demo_grant t split_beta)
  have "Read \<in> ops_in demo_granted 4 8" by (simp add: ops_in_def demo_simps)
  then have "authorize demo_sha demo_granted 4 8 9 Read"
    by (simp add: authorize_spec [OF demo_granted_ok(3)] holds_def demo_root grant_row_def demo_derive demo_active)
  then have granted: "authorize_document demo_sha demo_granted 4 8 9 Read = Authorized" by (simp add: authorize_def)
  have "control_ok t"
    using control_step.step_revoke [OF t(1)] demo_granted_ok(3) control_step_keeps_ok by blast
  moreover have "descends (par_of demo_granted 4) 8 8" by (simp add: descends_iff [OF demo_granted_chain])
  then have "om_get (capabilities t) (4, 8) = Some ((grant_row 5 demo_verifiers 2)\<lparr> cr_state := 1 \<rparr>)"
    using t(2) demo_root(3) by (simp add: revoke_effect_def)
  ultimately have revoked: "authorize_document demo_sha t 4 8 9 Read \<noteq> Authorized"
    by (simp add: authorize_document_spec holds_def)
  show ?thesis
    using store_refines_oracle [OF admissible(1) m] store_refines_oracle [OF admissible(2) m']
      shallow [OF demo_granted_chain] granted revoked m m' t(1) by auto
qed

end
