(* ===== verification/Store_Updates.thy ===== *)
theory Store_Updates
  imports Store_Control
begin

text \<open>
  The immutable-update transactions of \<open>src/crates/renee-stored/src/store.rs\<close>: acceptance with
  its peer and range indexes, the page selections of enumeration and vector backfill, and
  fetch.  \<open>usize\<close> byte counts are naturals: a page is at most one frame, far from the
  64-bit limit the \<open>checked_add\<close>s of the source guard.
\<close>

definition MAX_VECTOR_SCAN_RECORDS :: nat where "MAX_VECTOR_SCAN_RECORDS = 64"
definition MAX_ENUMERATION_SCAN_RECORDS :: u64 where "MAX_ENUMERATION_SCAN_RECORDS = 64"

record stored_update_page =
  sp_has_more :: bool
  sp_next_ordinal :: u64
  sp_updates :: "update_metadata list"

record stored_vector_backfill_page =
  sv_has_more :: bool
  sv_last_examined_sequence :: "acceptance_sequence option"
  sv_updates :: "update_metadata list"

section \<open>Acceptance\<close>

fun insert_peers_loop ::
  "document_id \<Rightarrow> nat \<Rightarrow> loro_range list \<Rightarrow> tables \<Rightarrow> store_error + bool \<times> tables" where
  "insert_peers_loop document_id peer_count [] t = Inr (True, t)"
| "insert_peers_loop document_id peer_count (rng # rest) t =
    ok_then (sql_insert_or_ignore (om_contains (documents t) document_id)
        (document_id, lr_peer_id rng) () (document_loro_peers t))
      (\<lambda>(inserted, peers). let t = t\<lparr> document_loro_peers := peers \<rparr> in
       if peer_count + inserted > MAX_LORO_PEERS then Inr (False, t)
       else insert_peers_loop document_id (peer_count + inserted) rest t)"

definition insert_document_loro_peers ::
  "immutable_update \<Rightarrow> tables \<Rightarrow> store_error + bool \<times> tables" where
  "insert_document_loro_peers update t =
    (let peer_count = count_where (\<lambda>(d, _) _. d = iu_document_id update) (document_loro_peers t) in
     if peer_count > MAX_LORO_PEERS then Inr (False, t)
     else insert_peers_loop (iu_document_id update) peer_count (iu_public_loro_ranges update) t)"

fun insert_ranges_loop ::
  "document_id \<Rightarrow> update_id \<Rightarrow> loro_range list \<Rightarrow> tables \<Rightarrow> store_error + tables" where
  "insert_ranges_loop document_id update_id [] t = Inr t"
| "insert_ranges_loop document_id update_id (rng # rest) t =
    ok_then (sql_insert (om_contains (updates t) (document_id, update_id))
        (document_id, update_id, lr_peer_id rng) (lr_start_counter rng, lr_end_counter rng)
        (update_loro_ranges t))
      (\<lambda>ranges. insert_ranges_loop document_id update_id rest
        (t\<lparr> update_loro_ranges := ranges \<rparr>))"

definition insert_update_ranges :: "immutable_update \<Rightarrow> tables \<Rightarrow> store_error + tables" where
  "insert_update_ranges update t =
    insert_ranges_loop (iu_document_id update) (iu_update_id update) (iu_public_loro_ranges update) t"

text \<open>The CHECK and UNIQUE constraints of the \<open>updates\<close> table beside its foreign key.\<close>

definition update_row_allowed :: "tables \<Rightarrow> document_id \<Rightarrow> update_row \<Rightarrow> bool" where
  "update_row_allowed t document_id row \<longleftrightarrow>
    om_contains (document_acceptance_sequences t) document_id
    \<and> ur_acceptance_sequence row \<noteq> 0
    \<and> 0 < length (ur_encoded_record row) \<and> length (ur_encoded_record row) \<le> 4024
    \<and> list_all (\<lambda>((d, _), r). \<not> (d = document_id
        \<and> ur_acceptance_sequence r = ur_acceptance_sequence row)) (updates t)"

definition insert_update ::
  "immutable_update \<Rightarrow> bytes \<Rightarrow> acceptance_sequence \<Rightarrow> acceptance_sequence \<Rightarrow> tables
    \<Rightarrow> store_error + tables" where
  "insert_update update encoded_record next_sequence following_sequence t =
    (let document_id = iu_document_id update;
         row = \<lparr> ur_acceptance_sequence = next_sequence, ur_encoded_record = encoded_record \<rparr> in
     if \<not> om_contains (documents t) document_id then Inl SqliteConstraint
     else let t = t\<lparr> document_acceptance_sequences :=
         om_insert document_id following_sequence (document_acceptance_sequences t) \<rparr> in
     ok_then (sql_insert (update_row_allowed t document_id row) (document_id, iu_update_id update)
         row (updates t))
       (\<lambda>us. insert_update_ranges update (t\<lparr> updates := us \<rparr>)))"

definition store_accept ::
  "(bytes \<Rightarrow> key32) \<Rightarrow> tables \<Rightarrow> capability_id \<Rightarrow> authenticator \<Rightarrow> immutable_update \<Rightarrow> bytes
    \<Rightarrow> store_error + store_accept_outcome \<times> tables" where
  "store_accept sha t capability_id authenticator update encoded_record =
    (let document_id = iu_document_id update in
     if \<not> authorize sha t document_id capability_id authenticator Update
     then Inr (StAcceptAuthorizationDenied, t)
     else case om_get (updates t) (document_id, iu_update_id update) of
       Some existing \<Rightarrow>
         if ur_encoded_record existing = encoded_record then Inr (StAcceptAlreadyPresent, t)
         else Inr (StAcceptIdentifierConflict, t)
     | None \<Rightarrow>
       let next_sequence = (case om_get (document_acceptance_sequences t) document_id of
           None \<Rightarrow> FIRST | Some s \<Rightarrow> s) in
       case checked_next next_sequence of
         None \<Rightarrow> Inr (StAcceptCounterExhausted, t)
       | Some following_sequence \<Rightarrow>
           ok_then (insert_document_loro_peers update t) (\<lambda>(within_limit, t').
           if \<not> within_limit then Inr (StAcceptLimitExceeded, t)
           else ok_then (insert_update update encoded_record next_sequence following_sequence t')
             (\<lambda>t''. Inr (StAcceptInserted, t''))))"

section \<open>Selection\<close>

definition document_updates :: "tables \<Rightarrow> document_id \<Rightarrow> (acceptance_sequence \<times> update_id \<times> bytes) list" where
  "document_updates t document_id =
    map (\<lambda>((_, update_id), row). (ur_acceptance_sequence row, update_id, ur_encoded_record row))
      (om_range (\<lambda>(d, _). d = document_id) (updates t))"

text \<open>\<open>ORDER BY acceptance_sequence DESC LIMIT 1\<close>.\<close>

definition high_water_sequence_in :: "tables \<Rightarrow> document_id \<Rightarrow> acceptance_sequence option" where
  "high_water_sequence_in t document_id =
    (case map fst (document_updates t document_id) of
       [] \<Rightarrow> None
     | s # ss \<Rightarrow> Some (fold max ss s))"

definition select_update_at ::
  "tables \<Rightarrow> document_id \<Rightarrow> acceptance_sequence \<Rightarrow> (update_id \<times> bytes) option" where
  "select_update_at t document_id sequence =
    map_option snd (List.find (\<lambda>(s, _). s = sequence) (document_updates t document_id))"

definition store_metadata :: "immutable_update \<Rightarrow> store_error + update_metadata" where
  "store_metadata update =
    (if length (iu_encrypted_payload update) < 2 ^ 32
     then Inr \<lparr> um_encrypted_payload_length = of_nat (length (iu_encrypted_payload update)),
       um_public_loro_ranges = iu_public_loro_ranges update, um_update_id = iu_update_id update \<rparr>
     else Inl (Corrupt ''stored payload length cannot be represented''))"

definition decode_stored_record :: "bytes \<Rightarrow> store_error + immutable_update" where
  "decode_stored_record record =
    map_err (\<lambda>_. Corrupt ''stored update record is invalid'') (decode_update_record record)"

text \<open>
  The enumeration loop; its first argument is the number of ordinals left before \<open>scan_end\<close>.
\<close>

fun enumerate_loop ::
  "nat \<Rightarrow> tables \<Rightarrow> document_id \<Rightarrow> u64 \<Rightarrow> nat \<Rightarrow> u64 \<Rightarrow> nat \<Rightarrow> update_metadata list
    \<Rightarrow> store_error + u64 \<times> update_metadata list" where
  "enumerate_loop 0 t document_id lower_sequence byte_limit ordinal used acc =
    Inr (ordinal, acc)"
| "enumerate_loop (Suc n) t document_id lower_sequence byte_limit ordinal used acc =
    (case Option.bind (checked_add lower_sequence ordinal) (\<lambda>s. checked_add s 1) of
       None \<Rightarrow> Inl (Corrupt ''enumeration sequence overflowed its finite window'')
     | Some sequence \<Rightarrow>
       ok_then (ok_or (Corrupt ''enumeration snapshot contains a missing acceptance position'')
           (select_update_at t document_id sequence)) (\<lambda>(indexed_update_id, record).
       ok_then (decode_stored_record record) (\<lambda>update.
       if iu_document_id update \<noteq> document_id
       then Inl (Corrupt ''stored update document disagrees with index'')
       else if iu_update_id update \<noteq> indexed_update_id
       then Inl (Corrupt ''stored update identifier disagrees with index'')
       else ok_then (store_metadata update) (\<lambda>metadata.
       let next_used = used + metadata_encoded_length metadata in
       if next_used > byte_limit then Inr (ordinal, acc)
       else ok_then (ok_or (Corrupt ''enumeration ordinal overflowed'') (checked_add ordinal 1))
         (\<lambda>ordinal. enumerate_loop n t document_id lower_sequence byte_limit ordinal next_used
           (acc @ [metadata]))))))"

definition saturating_add :: "u64 \<Rightarrow> u64 \<Rightarrow> u64" where
  "saturating_add a b = (case checked_add a b of None \<Rightarrow> - 1 | Some c \<Rightarrow> c)"

definition enumerate_in ::
  "tables \<Rightarrow> document_id \<Rightarrow> acceptance_sequence \<Rightarrow> acceptance_sequence \<Rightarrow> u64 \<Rightarrow> nat
    \<Rightarrow> store_error + stored_update_page" where
  "enumerate_in t document_id lower_sequence_exclusive terminal_sequence next_ordinal
      metadata_byte_limit =
    (if terminal_sequence \<le> lower_sequence_exclusive then Inl InvalidCursor
     else
       let window_length = terminal_sequence - lower_sequence_exclusive in
       if next_ordinal \<ge> window_length then Inl InvalidCursor
       else
         let scan_end = min (saturating_add next_ordinal MAX_ENUMERATION_SCAN_RECORDS) window_length in
         ok_then (enumerate_loop (unat scan_end - unat next_ordinal) t document_id
             lower_sequence_exclusive metadata_byte_limit next_ordinal 0 [])
           (\<lambda>(ordinal, acc). Inr \<lparr> sp_has_more = (ordinal < window_length),
             sp_next_ordinal = ordinal, sp_updates = acc \<rparr>))"

definition empty_stored_update_page :: stored_update_page where
  "empty_stored_update_page = \<lparr> sp_has_more = False, sp_next_ordinal = 0, sp_updates = [] \<rparr>"

fun vector_loop ::
  "document_id \<Rightarrow> oplog_version \<Rightarrow> nat \<Rightarrow> (acceptance_sequence \<times> update_id \<times> bytes) list \<Rightarrow> nat
    \<Rightarrow> update_metadata list \<Rightarrow> acceptance_sequence option \<Rightarrow> nat
    \<Rightarrow> store_error + stored_vector_backfill_page" where
  "vector_loop document_id version byte_limit [] used acc last_examined scanned =
    Inr \<lparr> sv_has_more = False, sv_last_examined_sequence = last_examined, sv_updates = acc \<rparr>"
| "vector_loop document_id version byte_limit ((sequence, _, record) # rows) used acc
      last_examined scanned =
    (if scanned = MAX_VECTOR_SCAN_RECORDS
     then Inr \<lparr> sv_has_more = True, sv_last_examined_sequence = last_examined, sv_updates = acc \<rparr>
     else ok_then (decode_stored_record record) (\<lambda>update.
       if iu_document_id update \<noteq> document_id
       then Inl (Corrupt ''stored update document disagrees with index'')
       else if beyond_version version (iu_public_loro_ranges update)
       then ok_then (store_metadata update) (\<lambda>metadata.
         let next_used = used + metadata_encoded_length metadata in
         if next_used > byte_limit
         then Inr \<lparr> sv_has_more = True, sv_last_examined_sequence = last_examined,
           sv_updates = acc \<rparr>
         else vector_loop document_id version byte_limit rows next_used (acc @ [metadata])
           (Some sequence) (scanned + 1))
       else vector_loop document_id version byte_limit rows used acc (Some sequence)
         (scanned + 1)))"

definition vector_rows ::
  "tables \<Rightarrow> document_id \<Rightarrow> acceptance_sequence \<Rightarrow> acceptance_sequence
    \<Rightarrow> (acceptance_sequence \<times> update_id \<times> bytes) list" where
  "vector_rows t document_id position terminal_sequence =
    sort_key fst (filter (\<lambda>(s, _). position < s \<and> s \<le> terminal_sequence)
      (document_updates t document_id))"

definition vector_backfill_in ::
  "tables \<Rightarrow> document_id \<Rightarrow> acceptance_sequence \<Rightarrow> acceptance_sequence \<Rightarrow> oplog_version \<Rightarrow> nat
    \<Rightarrow> store_error + stored_vector_backfill_page" where
  "vector_backfill_in t document_id position terminal_sequence version metadata_byte_limit =
    (if terminal_sequence = ORIGIN \<or> position > terminal_sequence then Inl InvalidCursor
     else if list_ex (\<lambda>s. s \<noteq> ORIGIN \<and> select_update_at t document_id s = None)
         [position, terminal_sequence]
     then Inl InvalidCursor
     else vector_loop document_id version metadata_byte_limit
       (take (MAX_VECTOR_SCAN_RECORDS + 1) (vector_rows t document_id position terminal_sequence))
       0 [] None 0)"

definition fetch_in :: "tables \<Rightarrow> document_id \<Rightarrow> update_id \<Rightarrow> store_error + bytes option" where
  "fetch_in t document_id update_id =
    (case om_get (updates t) (document_id, update_id) of
       None \<Rightarrow> Inr None
     | Some row \<Rightarrow>
         ok_then (decode_stored_record (ur_encoded_record row)) (\<lambda>update.
         if iu_document_id update \<noteq> document_id \<or> iu_update_id update \<noteq> update_id
         then Inl (Corrupt ''stored update identity disagrees with index'')
         else Inr (Some (iu_encrypted_payload update))))"

datatype 'a store_read_outcome = RdAuthorized 'a | RdAuthorizationDenied

definition fetch_authorized ::
  "(bytes \<Rightarrow> key32) \<Rightarrow> tables \<Rightarrow> document_id \<Rightarrow> update_id \<Rightarrow> capability_id \<Rightarrow> authenticator
    \<Rightarrow> store_error + bytes option store_read_outcome" where
  "fetch_authorized sha t document_id update_id capability_id authenticator =
    (if \<not> authorize sha t document_id capability_id authenticator Read
     then Inr RdAuthorizationDenied
     else ok_then (fetch_in t document_id update_id) (\<lambda>payload. Inr (RdAuthorized payload)))"

end
