(* ===== verification/Subscriptions.thy ===== *)
theory Subscriptions
  imports Types
begin

text \<open>
  The broker-local subscription registry, \<open>src/crates/renee-stored/src/subscription.rs\<close>.  What
  Rust shares behind an \<open>Arc\<close> is a cell of a heap here: a subscription cell (the atomic state
  byte with the bounded queue, shared by the registry entry, the receiver and its emissions)
  under its subscription identifier, and a gate (semaphore and lock of one document) under its
  address.  A \<open>Weak\<close> lease upgrades as long as the lease is in \<open>rg_leases\<close>.
\<close>

definition UPDATE_NOTIFICATION_QUEUE_CAPACITY :: nat where "UPDATE_NOTIFICATION_QUEUE_CAPACITY = 8"
definition MAX_UPDATE_SUBSCRIPTIONS :: nat where "MAX_UPDATE_SUBSCRIPTIONS = 1024"
definition MAX_UPDATE_SUBSCRIPTIONS_PER_CHANNEL :: nat where
  "MAX_UPDATE_SUBSCRIPTIONS_PER_CHANNEL = 32"
definition MAX_UPDATE_SUBSCRIPTIONS_PER_DOCUMENT :: nat where
  "MAX_UPDATE_SUBSCRIPTIONS_PER_DOCUMENT = 128"
definition MAX_CONTROL_WAITERS_PER_DOCUMENT :: nat where "MAX_CONTROL_WAITERS_PER_DOCUMENT = 8"

lemmas subscription_limit_defs = UPDATE_NOTIFICATION_QUEUE_CAPACITY_def MAX_UPDATE_SUBSCRIPTIONS_def
  MAX_UPDATE_SUBSCRIPTIONS_PER_CHANNEL_def MAX_UPDATE_SUBSCRIPTIONS_PER_DOCUMENT_def
  MAX_CONTROL_WAITERS_PER_DOCUMENT_def

definition ACTIVE :: byte where "ACTIVE = 0"
definition OVERFLOWED :: byte where "OVERFLOWED = 1"
definition CANCELLED :: byte where "CANCELLED = 2"
definition REVOKED :: byte where "REVOKED = 3"
definition RETIRED :: byte where "RETIRED = 4"
definition CHANNEL_LOST :: byte where "CHANNEL_LOST = 5"
definition BROKER_SHUTDOWN :: byte where "BROKER_SHUTDOWN = 6"

lemmas state_byte_defs = ACTIVE_def OVERFLOWED_def CANCELLED_def REVOKED_def RETIRED_def
  CHANNEL_LOST_def BROKER_SHUTDOWN_def

datatype update_subscription_end =
  Overflowed | Cancelled | Revoked | Retired | ChannelLost | BrokerShutdown

datatype update_subscription_poll =
  PollNotification update_id | PollPending | PollInvalidated update_subscription_end

fun encode_end :: "update_subscription_end \<Rightarrow> byte" where
  "encode_end Overflowed = OVERFLOWED"
| "encode_end Cancelled = CANCELLED"
| "encode_end Revoked = REVOKED"
| "encode_end Retired = RETIRED"
| "encode_end ChannelLost = CHANNEL_LOST"
| "encode_end BrokerShutdown = BROKER_SHUTDOWN"

definition decode_end :: "byte \<Rightarrow> update_subscription_end option" where
  "decode_end state =
    (if state = ACTIVE then None
     else if state = OVERFLOWED then Some Overflowed
     else if state = CANCELLED then Some Cancelled
     else if state = REVOKED then Some Revoked
     else if state = RETIRED then Some Retired
     else if state = CHANNEL_LOST then Some ChannelLost
     else Some BrokerShutdown)"

record broker_channel =
  bc_broker :: nat
  bc_lease :: u64

record subscription_cell =
  sc_channel :: u64
  sc_gate :: nat
  sc_queue :: "update_id list"
  sc_receiver_closed :: bool
  sc_sender_dropped :: bool
  sc_state :: byte

record subscription_entry =
  se_capability_id :: capability_id
  se_channel :: u64
  se_document_id :: document_id
  se_subscription_id :: u64

record emission_gate =
  eg_strong_count :: nat
  eg_permits :: nat
  eg_readers :: nat
  eg_writer :: bool

record update_subscription_registry =
  rg_broker :: nat
  rg_emission_gates :: "document_id \<rightharpoonup> nat"
  rg_next_channel_id :: u64
  rg_next_subscription_id :: u64
  rg_subscriptions :: "subscription_entry list"
  rg_leases :: "u64 list"
  rg_cells :: "u64 \<Rightarrow> subscription_cell"
  rg_gates :: "nat \<Rightarrow> emission_gate"
  rg_next_gate :: nat

type_synonym registry = update_subscription_registry

datatype register_error = InvalidChannel | RegisterBackpressure

section \<open>Cells\<close>

text \<open>\<open>compare_exchange\<close> from \<open>ACTIVE\<close>; any other state stays.\<close>

definition invalidate :: "u64 \<Rightarrow> update_subscription_end \<Rightarrow> registry \<Rightarrow> registry" where
  "invalidate i reason w =
    (let cell = rg_cells w i in
     if sc_state cell = ACTIVE
     then w\<lparr> rg_cells := (rg_cells w)(i := cell\<lparr> sc_state := encode_end reason \<rparr>) \<rparr>
     else w)"

text \<open>Dropping the registry entry drops the sender of its queue.\<close>

definition drop_sender :: "u64 \<Rightarrow> registry \<Rightarrow> registry" where
  "drop_sender i w = w\<lparr> rg_cells :=
    (rg_cells w)(i := (rg_cells w i)\<lparr> sc_sender_dropped := True \<rparr>) \<rparr>"

definition channel_upgrades :: "registry \<Rightarrow> u64 \<Rightarrow> bool" where
  "channel_upgrades w lease \<longleftrightarrow> lease \<in> set (rg_leases w)"

datatype try_send = SendOk | SendFull | SendClosed

definition cell_try_send :: "update_id \<Rightarrow> u64 \<Rightarrow> registry \<Rightarrow> try_send \<times> registry" where
  "cell_try_send update_id i w =
    (let cell = rg_cells w i in
     if sc_receiver_closed cell then (SendClosed, w)
     else if length (sc_queue cell) \<ge> UPDATE_NOTIFICATION_QUEUE_CAPACITY then (SendFull, w)
     else (SendOk, w\<lparr> rg_cells :=
       (rg_cells w)(i := cell\<lparr> sc_queue := sc_queue cell @ [update_id] \<rparr>) \<rparr>))"

text \<open>
  \<open>Vec::retain\<close> with a closure that may change the shared cells; an entry that is not kept is
  dropped.
\<close>

fun retain_entries ::
  "(subscription_entry \<Rightarrow> registry \<Rightarrow> bool \<times> registry) \<Rightarrow> subscription_entry list \<Rightarrow> registry
    \<Rightarrow> subscription_entry list \<times> registry" where
  "retain_entries keep [] w = ([], w)"
| "retain_entries keep (entry # rest) w =
    (let (kept, w) = keep entry w in
     if kept then let (rest, w) = retain_entries keep rest w in (entry # rest, w)
     else retain_entries keep rest (drop_sender (se_subscription_id entry) w))"

definition retain ::
  "(subscription_entry \<Rightarrow> registry \<Rightarrow> bool \<times> registry) \<Rightarrow> registry \<Rightarrow> registry" where
  "retain keep w =
    (let (entries, w) = retain_entries keep (rg_subscriptions w) w in w\<lparr> rg_subscriptions := entries \<rparr>)"

section \<open>Emission gates\<close>

definition fresh_gate :: emission_gate where
  "fresh_gate = \<lparr> eg_strong_count = 1, eg_permits = MAX_CONTROL_WAITERS_PER_DOCUMENT,
    eg_readers = 0, eg_writer = False \<rparr>"

definition emission_gate_of :: "document_id \<Rightarrow> registry \<Rightarrow> nat \<times> registry" where
  "emission_gate_of document_id w =
    (let gates = (\<lambda>d. Option.bind (rg_emission_gates w d)
           (\<lambda>g. if eg_strong_count (rg_gates w g) \<noteq> 0 then Some g else None));
         w = w\<lparr> rg_emission_gates := gates \<rparr> in
     case gates document_id of
       Some g \<Rightarrow> (g, w\<lparr> rg_gates := (rg_gates w)(g :=
           (rg_gates w g)\<lparr> eg_strong_count := eg_strong_count (rg_gates w g) + 1 \<rparr>) \<rparr>)
     | None \<Rightarrow> let g = rg_next_gate w in
         (g, w\<lparr> rg_gates := (rg_gates w)(g := fresh_gate), rg_next_gate := g + 1,
           rg_emission_gates := gates(document_id \<mapsto> g) \<rparr>))"

section \<open>The registry\<close>

definition registry_new :: "nat \<Rightarrow> registry" where
  "registry_new broker = \<lparr> rg_broker = broker, rg_emission_gates = Map.empty,
    rg_next_channel_id = 1, rg_next_subscription_id = 1, rg_subscriptions = [], rg_leases = [],
    rg_cells = (\<lambda>_. \<lparr> sc_channel = 0, sc_gate = 0, sc_queue = [], sc_receiver_closed = True,
      sc_sender_dropped = True, sc_state = BROKER_SHUTDOWN \<rparr>),
    rg_gates = (\<lambda>_. fresh_gate\<lparr> eg_strong_count := 0 \<rparr>), rg_next_gate = 0 \<rparr>"

definition open_channel :: "registry \<Rightarrow> broker_channel option \<times> registry" where
  "open_channel w =
    (let channel_id = rg_next_channel_id w in
     case checked_add channel_id 1 of
       None \<Rightarrow> (None, w)
     | Some following \<Rightarrow> (Some \<lparr> bc_broker = rg_broker w, bc_lease = channel_id \<rparr>,
         w\<lparr> rg_next_channel_id := following, rg_leases := channel_id # rg_leases w \<rparr>))"

definition recognizes :: "registry \<Rightarrow> broker_channel \<Rightarrow> bool" where
  "recognizes w channel \<longleftrightarrow> rg_broker w = bc_broker channel"

definition prune :: "registry \<Rightarrow> registry" where
  "prune = retain (\<lambda>entry w. let i = se_subscription_id entry in
     if sc_state (rg_cells w i) \<noteq> ACTIVE then (False, w)
     else if \<not> channel_upgrades w (se_channel entry) then (False, invalidate i ChannelLost w)
     else (\<not> sc_receiver_closed (rg_cells w i), w))"

definition register ::
  "broker_channel \<Rightarrow> document_id \<Rightarrow> capability_id \<Rightarrow> registry
    \<Rightarrow> (register_error + u64) \<times> registry" where
  "register channel document_id capability_id w =
    (if \<not> recognizes w channel then (Inl InvalidChannel, w)
     else
       let w = prune w;
           channel_count = length (filter (\<lambda>entry. channel_upgrades w (se_channel entry)
             \<and> se_channel entry = bc_lease channel) (rg_subscriptions w));
           document_count = length (filter (\<lambda>entry. se_document_id entry = document_id)
             (rg_subscriptions w)) in
       if length (rg_subscriptions w) \<ge> MAX_UPDATE_SUBSCRIPTIONS
          \<or> channel_count \<ge> MAX_UPDATE_SUBSCRIPTIONS_PER_CHANNEL
          \<or> document_count \<ge> MAX_UPDATE_SUBSCRIPTIONS_PER_DOCUMENT
       then (Inl RegisterBackpressure, w)
       else
         let subscription_id = rg_next_subscription_id w in
         case checked_add subscription_id 1 of
           None \<Rightarrow> (Inl RegisterBackpressure, w)
         | Some following \<Rightarrow>
           let w = w\<lparr> rg_next_subscription_id := following \<rparr>;
               (gate, w) = emission_gate_of document_id w in
           (Inr subscription_id, w\<lparr>
             rg_cells := (rg_cells w)(subscription_id := \<lparr> sc_channel = bc_lease channel,
               sc_gate = gate, sc_queue = [], sc_receiver_closed = False,
               sc_sender_dropped = False, sc_state = ACTIVE \<rparr>),
             rg_subscriptions := rg_subscriptions w @ [\<lparr> se_capability_id = capability_id,
               se_channel = bc_lease channel, se_document_id = document_id,
               se_subscription_id = subscription_id \<rparr>] \<rparr>))"

definition contexts :: "document_id \<Rightarrow> registry \<Rightarrow> (capability_id \<times> u64) list" where
  "contexts document_id w =
    map (\<lambda>entry. (se_capability_id entry, se_subscription_id entry))
      (filter (\<lambda>entry. se_document_id entry = document_id
          \<and> sc_state (rg_cells w (se_subscription_id entry)) = ACTIVE
          \<and> channel_upgrades w (se_channel entry))
        (rg_subscriptions w))"

definition notify :: "document_id \<Rightarrow> update_id \<Rightarrow> registry \<Rightarrow> registry" where
  "notify document_id update_id = retain (\<lambda>entry w. let i = se_subscription_id entry in
     if sc_state (rg_cells w i) \<noteq> ACTIVE then (False, w)
     else if \<not> channel_upgrades w (se_channel entry) then (False, invalidate i ChannelLost w)
     else if se_document_id entry \<noteq> document_id then (True, w)
     else case cell_try_send update_id i w of
         (SendOk, w) \<Rightarrow> (True, w)
       | (SendFull, w) \<Rightarrow> (False, invalidate i Overflowed w)
       | (SendClosed, w) \<Rightarrow> (False, invalidate i Cancelled w))"

definition invalidate_subscriptions ::
  "u64 list \<Rightarrow> update_subscription_end \<Rightarrow> registry \<Rightarrow> registry" where
  "invalidate_subscriptions subscription_ids reason = retain (\<lambda>entry w.
     if se_subscription_id entry \<in> set subscription_ids
     then (False, invalidate (se_subscription_id entry) reason w) else (True, w))"

definition invalidate_document ::
  "document_id \<Rightarrow> update_subscription_end \<Rightarrow> registry \<Rightarrow> registry" where
  "invalidate_document document_id reason = retain (\<lambda>entry w.
     if se_document_id entry = document_id
     then (False, invalidate (se_subscription_id entry) reason w) else (True, w))"

text \<open>Dropping a \<open>BrokerChannel\<close> drops the only strong reference to its lease.\<close>

definition drop_channel :: "broker_channel \<Rightarrow> registry \<Rightarrow> registry" where
  "drop_channel channel w =
    (if recognizes w channel then w\<lparr> rg_leases := removeAll (bc_lease channel) (rg_leases w) \<rparr> else w)"

definition close_channel :: "broker_channel \<Rightarrow> registry \<Rightarrow> registry" where
  "close_channel channel w =
    (if \<not> recognizes w channel then drop_channel channel w
     else drop_channel channel (retain (\<lambda>entry w.
       if channel_upgrades w (se_channel entry) \<and> se_channel entry = bc_lease channel
       then (False, invalidate (se_subscription_id entry) ChannelLost w) else (True, w)) w))"

definition shutdown :: "registry \<Rightarrow> registry" where
  "shutdown = retain (\<lambda>entry w. (False, invalidate (se_subscription_id entry) BrokerShutdown w))"

section \<open>The receiver\<close>

definition subscription_ended ::
  "u64 \<Rightarrow> registry \<Rightarrow> update_subscription_end option \<times> registry" where
  "subscription_ended i w =
    (let w = (if \<not> channel_upgrades w (sc_channel (rg_cells w i)) then invalidate i ChannelLost w else w) in
     (decode_end (sc_state (rg_cells w i)), w))"

text \<open>\<open>recv\<close> on a nonempty queue: the oldest message leaves the queue.\<close>

definition cell_pop :: "u64 \<Rightarrow> registry \<Rightarrow> registry" where
  "cell_pop i w = w\<lparr> rg_cells :=
    (rg_cells w)(i := (rg_cells w i)\<lparr> sc_queue := tl (sc_queue (rg_cells w i)) \<rparr>) \<rparr>"

definition poll_received ::
  "update_id \<Rightarrow> u64 \<Rightarrow> registry \<Rightarrow> update_subscription_poll \<times> registry" where
  "poll_received update_id i w =
    (case subscription_ended i w of
       (None, w) \<Rightarrow> (PollNotification update_id, w)
     | (Some ended, w) \<Rightarrow> (PollInvalidated ended, w))"

definition poll_disconnected :: "u64 \<Rightarrow> registry \<Rightarrow> update_subscription_poll \<times> registry" where
  "poll_disconnected i w =
    (case subscription_ended i w of
       (None, w) \<Rightarrow> (PollInvalidated BrokerShutdown, w)
     | (Some ended, w) \<Rightarrow> (PollInvalidated ended, w))"

definition queue_poll :: "u64 \<Rightarrow> registry \<Rightarrow> update_subscription_poll \<times> registry" where
  "queue_poll i w =
    (case sc_queue (rg_cells w i) of
       update_id # _ \<Rightarrow> poll_received update_id i (cell_pop i w)
     | [] \<Rightarrow>
       if sc_sender_dropped (rg_cells w i) \<or> sc_receiver_closed (rg_cells w i)
       then poll_disconnected i w else (PollPending, w))"

definition try_next :: "u64 \<Rightarrow> registry \<Rightarrow> update_subscription_poll \<times> registry" where
  "try_next i w =
    (case subscription_ended i w of
       (Some ended, w) \<Rightarrow> (PollInvalidated ended, w)
     | (None, w) \<Rightarrow> queue_poll i w)"

text \<open>
  \<open>next\<close> looks at the state once and then waits in a biased \<open>select!\<close>: \<open>next_select\<close> is one poll of
  that wait, with \<open>PollPending\<close> when neither branch is ready.
\<close>

definition next_select :: "u64 \<Rightarrow> registry \<Rightarrow> update_subscription_poll \<times> registry" where
  "next_select i w =
    (if \<not> channel_upgrades w (sc_channel (rg_cells w i))
     then case subscription_ended i (invalidate i ChannelLost w) of
         (None, w) \<Rightarrow> (PollInvalidated ChannelLost, w)
       | (Some ended, w) \<Rightarrow> (PollInvalidated ended, w)
     else queue_poll i w)"

definition subscription_next :: "u64 \<Rightarrow> registry \<Rightarrow> update_subscription_poll \<times> registry" where
  "subscription_next i w =
    (case subscription_ended i w of
       (Some ended, w) \<Rightarrow> (PollInvalidated ended, w)
     | (None, w) \<Rightarrow> next_select i w)"

definition subscription_cancel :: "u64 \<Rightarrow> registry \<Rightarrow> registry" where
  "subscription_cancel i w =
    (let w = invalidate i Cancelled w in
     w\<lparr> rg_cells := (rg_cells w)(i := (rg_cells w i)\<lparr> sc_receiver_closed := True \<rparr>) \<rparr>)"

definition drop_gate :: "nat \<Rightarrow> registry \<Rightarrow> registry" where
  "drop_gate g w = w\<lparr> rg_gates := (rg_gates w)(g :=
    (rg_gates w g)\<lparr> eg_strong_count := eg_strong_count (rg_gates w g) - 1 \<rparr>) \<rparr>"

text \<open>\<open>Drop\<close> of a subscription: \<open>cancel\<close>, then its fields go, the gate handle among them.\<close>

definition drop_subscription :: "u64 \<Rightarrow> registry \<Rightarrow> registry" where
  "drop_subscription i w = (let w = subscription_cancel i w in drop_gate (sc_gate (rg_cells w i)) w)"

end
