(* ===== verification/Store_Passes.thy ===== *)
theory Store_Passes
  imports Store_Updates Subscriptions
begin

text \<open>
  Stable passes of \<open>src/crates/renee-stored/src/store.rs\<close>: an enumeration or a vector backfill that
  needs several pages leaves a pass with the store, and the client continues it with an opaque
  token.  The clock is given as \<open>now\<close> (the instant read at the start of a request) and \<open>later\<close>
  (the one read when it advances a pass), in nanoseconds; \<open>rnd\<close> gives the 32 random bytes of
  each attempt to mint a token, None when the source of randomness fails.
\<close>

definition MAX_VECTOR_PASSES :: nat where "MAX_VECTOR_PASSES = 1024"
definition MAX_VECTOR_PASSES_PER_AUTHORITY :: nat where "MAX_VECTOR_PASSES_PER_AUTHORITY = 8"
definition MAX_VECTOR_PASSES_PER_CHANNEL :: nat where "MAX_VECTOR_PASSES_PER_CHANNEL = 32"
definition MAX_VECTOR_PASSES_PER_DOCUMENT :: nat where "MAX_VECTOR_PASSES_PER_DOCUMENT = 32"
definition VECTOR_CONTINUATION_LENGTH :: nat where "VECTOR_CONTINUATION_LENGTH = 32"
definition VECTOR_PASS_IDLE_TTL :: nat where "VECTOR_PASS_IDLE_TTL = 300 * 10 ^ 9"
definition MAX_ENUMERATION_PASSES :: nat where "MAX_ENUMERATION_PASSES = 1024"
definition MAX_ENUMERATION_PASSES_PER_AUTHORITY :: nat where "MAX_ENUMERATION_PASSES_PER_AUTHORITY = 8"
definition MAX_ENUMERATION_PASSES_PER_CHANNEL :: nat where "MAX_ENUMERATION_PASSES_PER_CHANNEL = 32"
definition MAX_ENUMERATION_PASSES_PER_DOCUMENT :: nat where "MAX_ENUMERATION_PASSES_PER_DOCUMENT = 32"
definition ENUMERATION_CONTINUATION_LENGTH :: nat where "ENUMERATION_CONTINUATION_LENGTH = 32"
definition ENUMERATION_PASS_IDLE_TTL :: nat where "ENUMERATION_PASS_IDLE_TTL = 300 * 10 ^ 9"

lemmas pass_limit_defs = MAX_VECTOR_PASSES_def MAX_VECTOR_PASSES_PER_AUTHORITY_def
  MAX_VECTOR_PASSES_PER_CHANNEL_def MAX_VECTOR_PASSES_PER_DOCUMENT_def MAX_ENUMERATION_PASSES_def
  MAX_ENUMERATION_PASSES_PER_AUTHORITY_def MAX_ENUMERATION_PASSES_PER_CHANNEL_def
  MAX_ENUMERATION_PASSES_PER_DOCUMENT_def

type_synonym instant = nat
type_synonym continuation_token = key32

datatype store_enumerate_start = EnumOrigin | EnumContinue bytes | EnumAfterTail bytes
datatype store_vector_backfill_start = VectorOrigin | VectorContinue bytes

datatype 'a store_enumerate_outcome = EnAuthorized 'a | EnAuthorizationDenied | EnRetiredDocument
  | EnInvalidContinuation | EnBackpressure

datatype 'a store_vector_backfill_outcome = VbAuthorized 'a | VbAuthorizationDenied
  | VbRetiredDocument | VbInvalidContinuation | VbBackpressure

record authorized_stored_update_page =
  ap_page :: stored_update_page
  ap_next_cursor :: "bytes option"

record authorized_vector_backfill_page =
  av_page :: stored_vector_backfill_page
  av_next_cursor :: "bytes option"

record vector_pass_position =
  vpp_position :: acceptance_sequence
  vpp_token :: continuation_token

record vector_pass_retry =
  vpr_response :: authorized_vector_backfill_page
  vpr_token :: continuation_token

record vector_backfill_pass =
  vp_capability_id :: capability_id
  vp_channel_id :: u64
  vp_current :: "vector_pass_position option"
  vp_document_id :: document_id
  vp_expires_at :: instant
  vp_oplog_version :: oplog_version
  vp_retry :: "vector_pass_retry option"
  vp_terminal_sequence :: acceptance_sequence

datatype enumeration_token_mode = TokenContinue | TokenAfterTail

record enumeration_pass_position =
  epp_mode :: enumeration_token_mode
  epp_next_ordinal :: u64
  epp_token :: continuation_token

record enumeration_pass_retry =
  epr_mode :: enumeration_token_mode
  epr_response :: authorized_stored_update_page
  epr_token :: continuation_token

record enumeration_pass =
  ep_capability_id :: capability_id
  ep_channel_id :: u64
  ep_current :: enumeration_pass_position
  ep_document_id :: document_id
  ep_expires_at :: instant
  ep_generation :: id16
  ep_lower_sequence_exclusive :: acceptance_sequence
  ep_retry :: "enumeration_pass_retry option"
  ep_terminal_sequence :: acceptance_sequence

record durable_update_store =
  ds_tables :: tables
  ds_enumeration_passes :: "enumeration_pass list"
  ds_generation :: id16
  ds_subscriptions :: update_subscription_registry
  ds_vector_passes :: "vector_backfill_pass list"

type_synonym 'a store_result = "(store_error + 'a) \<times> durable_update_store"

text \<open>\<open>[u8; 32]::try_from\<close> on a client's bytes, and \<open>Vec::swap_remove\<close>.\<close>

definition token_from :: "bytes \<Rightarrow> continuation_token option" where
  "token_from encoded = (if length encoded = 32 then Some (be_decode encoded) else None)"

definition swap_remove :: "nat \<Rightarrow> 'a list \<Rightarrow> 'a list" where
  "swap_remove i xs = butlast (xs[i := last xs])"

fun find_position :: "('a \<Rightarrow> bool) \<Rightarrow> 'a list \<Rightarrow> nat option" where
  "find_position P [] = None"
| "find_position P (x # xs) = (if P x then Some 0 else map_option Suc (find_position P xs))"

section \<open>Admission and tokens\<close>

definition can_admit_enumeration_pass ::
  "enumeration_pass list \<Rightarrow> u64 \<Rightarrow> document_id \<Rightarrow> capability_id \<Rightarrow> bool" where
  "can_admit_enumeration_pass passes channel_id document_id capability_id \<longleftrightarrow>
    length passes < MAX_ENUMERATION_PASSES
    \<and> length (filter (\<lambda>p. ep_channel_id p = channel_id) passes) < MAX_ENUMERATION_PASSES_PER_CHANNEL
    \<and> length (filter (\<lambda>p. ep_document_id p = document_id) passes) < MAX_ENUMERATION_PASSES_PER_DOCUMENT
    \<and> length (filter (\<lambda>p. ep_document_id p = document_id \<and> ep_capability_id p = capability_id) passes)
      < MAX_ENUMERATION_PASSES_PER_AUTHORITY"

definition enumeration_pass_contains_token ::
  "enumeration_pass \<Rightarrow> continuation_token \<Rightarrow> enumeration_token_mode \<Rightarrow> bool" where
  "enumeration_pass_contains_token pass token mode \<longleftrightarrow>
    (epp_token (ep_current pass) = token \<and> epp_mode (ep_current pass) = mode)
    \<or> (case ep_retry pass of None \<Rightarrow> False
       | Some retry \<Rightarrow> epr_token retry = token \<and> epr_mode retry = mode)"

definition enumeration_pass_uses_token :: "enumeration_pass \<Rightarrow> continuation_token \<Rightarrow> bool" where
  "enumeration_pass_uses_token pass token \<longleftrightarrow>
    epp_token (ep_current pass) = token
    \<or> (case ep_retry pass of None \<Rightarrow> False | Some retry \<Rightarrow> epr_token retry = token)"

text \<open>Four attempts; the first argument of the loop is the number left.\<close>

fun mint_loop ::
  "nat \<Rightarrow> nat \<Rightarrow> (nat \<Rightarrow> continuation_token option) \<Rightarrow> (continuation_token \<Rightarrow> bool)
    \<Rightarrow> store_error + continuation_token option" where
  "mint_loop 0 attempt rnd used = Inr None"
| "mint_loop (Suc n) attempt rnd used = (case rnd attempt of
      None \<Rightarrow> Inl EntropyUnavailable
    | Some token \<Rightarrow> if used token then mint_loop n (attempt + 1) rnd used else Inr (Some token))"

definition mint_enumeration_token ::
  "(nat \<Rightarrow> continuation_token option) \<Rightarrow> enumeration_pass list
    \<Rightarrow> store_error + continuation_token option" where
  "mint_enumeration_token rnd passes =
    mint_loop 4 0 rnd (\<lambda>token. list_ex (\<lambda>p. enumeration_pass_uses_token p token) passes)"

definition can_admit_vector_pass ::
  "vector_backfill_pass list \<Rightarrow> u64 \<Rightarrow> document_id \<Rightarrow> capability_id \<Rightarrow> bool" where
  "can_admit_vector_pass passes channel_id document_id capability_id \<longleftrightarrow>
    length passes < MAX_VECTOR_PASSES
    \<and> length (filter (\<lambda>p. vp_channel_id p = channel_id) passes) < MAX_VECTOR_PASSES_PER_CHANNEL
    \<and> length (filter (\<lambda>p. vp_document_id p = document_id) passes) < MAX_VECTOR_PASSES_PER_DOCUMENT
    \<and> length (filter (\<lambda>p. vp_document_id p = document_id \<and> vp_capability_id p = capability_id) passes)
      < MAX_VECTOR_PASSES_PER_AUTHORITY"

definition vector_pass_contains_token :: "vector_backfill_pass \<Rightarrow> continuation_token \<Rightarrow> bool" where
  "vector_pass_contains_token pass token \<longleftrightarrow>
    (case vp_current pass of None \<Rightarrow> False | Some current \<Rightarrow> vpp_token current = token)
    \<or> (case vp_retry pass of None \<Rightarrow> False | Some retry \<Rightarrow> vpr_token retry = token)"

definition mint_vector_token ::
  "(nat \<Rightarrow> continuation_token option) \<Rightarrow> vector_backfill_pass list
    \<Rightarrow> store_error + continuation_token option" where
  "mint_vector_token rnd passes =
    mint_loop 4 0 rnd (\<lambda>token. list_ex (\<lambda>p. vector_pass_contains_token p token) passes)"

section \<open>Enumeration\<close>

definition mode_after :: "stored_update_page \<Rightarrow> enumeration_token_mode" where
  "mode_after page = (if sp_has_more page then TokenContinue else TokenAfterTail)"

definition enumerate_origin ::
  "durable_update_store \<Rightarrow> u64 \<Rightarrow> document_id \<Rightarrow> capability_id \<Rightarrow> nat \<Rightarrow> instant
    \<Rightarrow> (nat \<Rightarrow> continuation_token option)
    \<Rightarrow> authorized_stored_update_page store_enumerate_outcome store_result" where
  "enumerate_origin s channel_id document_id capability_id byte_limit now rnd =
    (let s = s\<lparr> ds_enumeration_passes := filter (\<lambda>p. ep_channel_id p \<noteq> channel_id
         \<or> ep_document_id p \<noteq> document_id \<or> ep_capability_id p \<noteq> capability_id)
         (ds_enumeration_passes s) \<rparr> in
     case high_water_sequence_in (ds_tables s) document_id of
       None \<Rightarrow> (Inr (EnAuthorized \<lparr> ap_page = empty_stored_update_page, ap_next_cursor = None \<rparr>), s)
     | Some terminal_sequence \<Rightarrow>
       (case enumerate_in (ds_tables s) document_id ORIGIN terminal_sequence 0 byte_limit of
          Inl err \<Rightarrow> (Inl err, s)
        | Inr page \<Rightarrow>
          if sp_updates page = []
          then (Inl (Corrupt ''nonempty enumeration snapshot produced no first record''), s)
          else if \<not> can_admit_enumeration_pass (ds_enumeration_passes s) channel_id document_id capability_id
          then (Inr EnBackpressure, s)
          else (case mint_enumeration_token rnd (ds_enumeration_passes s) of
             Inl err \<Rightarrow> (Inl err, s)
           | Inr None \<Rightarrow> (Inr EnBackpressure, s)
           | Inr (Some token) \<Rightarrow>
             (Inr (EnAuthorized \<lparr> ap_page = page, ap_next_cursor = Some (be_encode token) \<rparr>),
              s\<lparr> ds_enumeration_passes := ds_enumeration_passes s @ [\<lparr>
                ep_capability_id = capability_id, ep_channel_id = channel_id,
                ep_current = \<lparr> epp_mode = mode_after page, epp_next_ordinal = sp_next_ordinal page,
                  epp_token = token \<rparr>,
                ep_document_id = document_id, ep_expires_at = now + ENUMERATION_PASS_IDLE_TTL,
                ep_generation = ds_generation s, ep_lower_sequence_exclusive = ORIGIN,
                ep_retry = None, ep_terminal_sequence = terminal_sequence \<rparr>] \<rparr>))))"

text \<open>
  The window a continuation reads: the rest of the pass's own window, or after its tail the one
  up to the new high water.  Inr None is the empty page of an unchanged tail.
\<close>

definition continuation_window ::
  "tables \<Rightarrow> enumeration_pass \<Rightarrow> enumeration_token_mode
    \<Rightarrow> unit + (acceptance_sequence \<times> acceptance_sequence \<times> u64) option" where
  "continuation_window t pass mode = (case mode of
      TokenContinue \<Rightarrow> Inr (Some (ep_lower_sequence_exclusive pass, ep_terminal_sequence pass,
        epp_next_ordinal (ep_current pass)))
    | TokenAfterTail \<Rightarrow> (case high_water_sequence_in t (ep_document_id pass) of
        None \<Rightarrow> Inl ()
      | Some high_water \<Rightarrow>
        if high_water < ep_terminal_sequence pass then Inl ()
        else if high_water = ep_terminal_sequence pass then Inr None
        else Inr (Some (ep_terminal_sequence pass, high_water, 0))))"

definition enumerate_advance ::
  "durable_update_store \<Rightarrow> nat \<Rightarrow> continuation_token \<Rightarrow> enumeration_token_mode
    \<Rightarrow> acceptance_sequence \<times> acceptance_sequence \<times> u64 \<Rightarrow> nat \<Rightarrow> instant
    \<Rightarrow> (nat \<Rightarrow> continuation_token option)
    \<Rightarrow> authorized_stored_update_page store_enumerate_outcome store_result" where
  "enumerate_advance s pass_index token mode window byte_limit later rnd =
    (let pass = ds_enumeration_passes s ! pass_index;
         (lower, terminal, next_ordinal) = window in
     case enumerate_in (ds_tables s) (ep_document_id pass) lower terminal next_ordinal byte_limit of
       Inl InvalidCursor \<Rightarrow> (Inr EnInvalidContinuation,
         s\<lparr> ds_enumeration_passes := swap_remove pass_index (ds_enumeration_passes s) \<rparr>)
     | Inl err \<Rightarrow> (Inl err, s)
     | Inr page \<Rightarrow>
       if sp_updates page = []
       then (Inl (Corrupt ''advancing enumeration pass produced no record''), s)
       else (case mint_enumeration_token rnd (ds_enumeration_passes s) of
          Inl err \<Rightarrow> (Inl err, s)
        | Inr None \<Rightarrow> (Inr EnBackpressure, s)
        | Inr (Some next_token) \<Rightarrow>
          let response = \<lparr> ap_page = page, ap_next_cursor = Some (be_encode next_token) \<rparr> in
          (Inr (EnAuthorized response), s\<lparr> ds_enumeration_passes := (ds_enumeration_passes s)[pass_index :=
            pass\<lparr> ep_current := \<lparr> epp_mode = mode_after page, epp_next_ordinal = sp_next_ordinal page,
                epp_token = next_token \<rparr>,
              ep_expires_at := later + ENUMERATION_PASS_IDLE_TTL,
              ep_lower_sequence_exclusive := lower,
              ep_retry := Some \<lparr> epr_mode = mode, epr_response = response, epr_token = token \<rparr>,
              ep_terminal_sequence := terminal \<rparr>] \<rparr>)))"

definition enumerate_continuation ::
  "durable_update_store \<Rightarrow> u64 \<Rightarrow> document_id \<Rightarrow> capability_id \<Rightarrow> bytes \<Rightarrow> enumeration_token_mode \<Rightarrow> nat
    \<Rightarrow> instant \<Rightarrow> instant \<Rightarrow> (nat \<Rightarrow> continuation_token option)
    \<Rightarrow> authorized_stored_update_page store_enumerate_outcome store_result" where
  "enumerate_continuation s channel_id document_id capability_id encoded mode byte_limit now later rnd =
    (case token_from encoded of None \<Rightarrow> (Inr EnInvalidContinuation, s)
     | Some token \<Rightarrow>
     (case find_position (\<lambda>p. enumeration_pass_contains_token p token mode) (ds_enumeration_passes s) of
        None \<Rightarrow> (Inr EnInvalidContinuation, s)
      | Some pass_index \<Rightarrow>
        let pass = ds_enumeration_passes s ! pass_index in
        if ep_document_id pass \<noteq> document_id \<or> ep_capability_id pass \<noteq> capability_id
          \<or> ep_channel_id pass \<noteq> channel_id \<or> ep_generation pass \<noteq> ds_generation s
          \<or> ep_expires_at pass \<le> now
        then (Inr EnInvalidContinuation, s)
        else case (case ep_retry pass of
            Some retry \<Rightarrow> if epr_token retry = token \<and> epr_mode retry = mode
              then Some (epr_response retry) else None
          | None \<Rightarrow> None) of
            Some response \<Rightarrow> (Inr (EnAuthorized response), s)
          | None \<Rightarrow>
            if epp_token (ep_current pass) \<noteq> token \<or> epp_mode (ep_current pass) \<noteq> mode
            then (Inr EnInvalidContinuation, s)
            else (case continuation_window (ds_tables s) pass mode of
                Inl () \<Rightarrow> (Inr EnInvalidContinuation, s)
              | Inr None \<Rightarrow> (Inr (EnAuthorized \<lparr> ap_page = empty_stored_update_page,
                  ap_next_cursor = None \<rparr>), s)
              | Inr (Some window) \<Rightarrow>
                  enumerate_advance s pass_index token mode window byte_limit later rnd)))"

definition enumerate_authorized ::
  "(bytes \<Rightarrow> key32) \<Rightarrow> durable_update_store \<Rightarrow> broker_channel \<Rightarrow> document_id \<Rightarrow> capability_id
    \<Rightarrow> authenticator \<Rightarrow> store_enumerate_start \<Rightarrow> nat \<Rightarrow> instant \<Rightarrow> instant
    \<Rightarrow> (nat \<Rightarrow> continuation_token option)
    \<Rightarrow> authorized_stored_update_page store_enumerate_outcome store_result" where
  "enumerate_authorized sha s channel document_id capability_id authenticator start byte_limit now later rnd =
    (if \<not> recognizes (ds_subscriptions s) channel then (Inr EnAuthorizationDenied, s)
     else case authorize_document sha (ds_tables s) document_id capability_id authenticator Read of
       document_authorization.Denied \<Rightarrow> (Inr EnAuthorizationDenied, s)
     | document_authorization.Retired \<Rightarrow> (Inr EnRetiredDocument, s)
     | document_authorization.Authorized \<Rightarrow>
       let s = s\<lparr> ds_enumeration_passes :=
             filter (\<lambda>p. ep_expires_at p > now) (ds_enumeration_passes s) \<rparr>;
           channel_id = bc_lease channel in
       (case start of
          EnumOrigin \<Rightarrow> enumerate_origin s channel_id document_id capability_id byte_limit now rnd
        | EnumContinue encoded \<Rightarrow> enumerate_continuation s channel_id document_id capability_id
            encoded TokenContinue byte_limit now later rnd
        | EnumAfterTail encoded \<Rightarrow> enumerate_continuation s channel_id document_id capability_id
            encoded TokenAfterTail byte_limit now later rnd))"

section \<open>Vector backfill\<close>

definition vector_origin ::
  "durable_update_store \<Rightarrow> u64 \<Rightarrow> document_id \<Rightarrow> capability_id \<Rightarrow> oplog_version \<Rightarrow> nat \<Rightarrow> instant
    \<Rightarrow> (nat \<Rightarrow> continuation_token option)
    \<Rightarrow> authorized_vector_backfill_page store_vector_backfill_outcome store_result" where
  "vector_origin s channel_id document_id capability_id version byte_limit now rnd =
    (case high_water_sequence_in (ds_tables s) document_id of
       None \<Rightarrow> (Inr (VbAuthorized \<lparr> av_page = \<lparr> sv_has_more = False,
           sv_last_examined_sequence = None, sv_updates = [] \<rparr>, av_next_cursor = None \<rparr>), s)
     | Some terminal_sequence \<Rightarrow>
       (case vector_backfill_in (ds_tables s) document_id ORIGIN terminal_sequence version byte_limit of
          Inl err \<Rightarrow> (Inl err, s)
        | Inr page \<Rightarrow>
          if \<not> sv_has_more page
          then (Inr (VbAuthorized \<lparr> av_page = page, av_next_cursor = None \<rparr>), s)
          else (case sv_last_examined_sequence page of
            None \<Rightarrow> (Inl (Corrupt ''continuable vector scan omitted its last examined position''), s)
          | Some position \<Rightarrow>
            let s = s\<lparr> ds_vector_passes := filter (\<lambda>p. vp_channel_id p \<noteq> channel_id
                  \<or> vp_document_id p \<noteq> document_id \<or> vp_capability_id p \<noteq> capability_id
                  \<or> vp_oplog_version p \<noteq> version) (ds_vector_passes s) \<rparr> in
            if \<not> can_admit_vector_pass (ds_vector_passes s) channel_id document_id capability_id
            then (Inr VbBackpressure, s)
            else (case mint_vector_token rnd (ds_vector_passes s) of
               Inl err \<Rightarrow> (Inl err, s)
             | Inr None \<Rightarrow> (Inr VbBackpressure, s)
             | Inr (Some token) \<Rightarrow>
               (Inr (VbAuthorized \<lparr> av_page = page, av_next_cursor = Some (be_encode token) \<rparr>),
                s\<lparr> ds_vector_passes := ds_vector_passes s @ [\<lparr>
                  vp_capability_id = capability_id, vp_channel_id = channel_id,
                  vp_current = Some \<lparr> vpp_position = position, vpp_token = token \<rparr>,
                  vp_document_id = document_id, vp_expires_at = now + VECTOR_PASS_IDLE_TTL,
                  vp_oplog_version = version, vp_retry = None,
                  vp_terminal_sequence = terminal_sequence \<rparr>] \<rparr>)))))"

definition vector_advance ::
  "durable_update_store \<Rightarrow> nat \<Rightarrow> continuation_token \<Rightarrow> vector_pass_position \<Rightarrow> nat \<Rightarrow> instant
    \<Rightarrow> (nat \<Rightarrow> continuation_token option)
    \<Rightarrow> authorized_vector_backfill_page store_vector_backfill_outcome store_result" where
  "vector_advance s pass_index token current byte_limit later rnd =
    (let pass = ds_vector_passes s ! pass_index;
         advanced = (\<lambda>page next.
           let response = \<lparr> av_page = page, av_next_cursor = map_option (\<lambda>p. be_encode (vpp_token p)) next \<rparr> in
           (Inr (VbAuthorized response), s\<lparr> ds_vector_passes := (ds_vector_passes s)[pass_index :=
             pass\<lparr> vp_current := next, vp_retry := Some \<lparr> vpr_response = response, vpr_token = token \<rparr>,
               vp_expires_at := later + VECTOR_PASS_IDLE_TTL \<rparr>] \<rparr>)) in
     case vector_backfill_in (ds_tables s) (vp_document_id pass) (vpp_position current)
         (vp_terminal_sequence pass) (vp_oplog_version pass) byte_limit of
       Inl InvalidCursor \<Rightarrow> (Inr VbInvalidContinuation,
         s\<lparr> ds_vector_passes := swap_remove pass_index (ds_vector_passes s) \<rparr>)
     | Inl err \<Rightarrow> (Inl err, s)
     | Inr page \<Rightarrow>
       if \<not> sv_has_more page then advanced page None
       else (case sv_last_examined_sequence page of
         None \<Rightarrow> (Inl (Corrupt ''continuable vector scan omitted its last examined position''), s)
       | Some position \<Rightarrow>
         (case mint_vector_token rnd (ds_vector_passes s) of
            Inl err \<Rightarrow> (Inl err, s)
          | Inr None \<Rightarrow> (Inr VbBackpressure, s)
          | Inr (Some next_token) \<Rightarrow>
            advanced page (Some \<lparr> vpp_position = position, vpp_token = next_token \<rparr>))))"

definition vector_continuation ::
  "durable_update_store \<Rightarrow> u64 \<Rightarrow> document_id \<Rightarrow> capability_id \<Rightarrow> oplog_version \<Rightarrow> bytes \<Rightarrow> nat
    \<Rightarrow> instant \<Rightarrow> instant \<Rightarrow> (nat \<Rightarrow> continuation_token option)
    \<Rightarrow> authorized_vector_backfill_page store_vector_backfill_outcome store_result" where
  "vector_continuation s channel_id document_id capability_id version encoded byte_limit now later rnd =
    (case token_from encoded of None \<Rightarrow> (Inr VbInvalidContinuation, s)
     | Some token \<Rightarrow>
     (case find_position (\<lambda>p. vector_pass_contains_token p token) (ds_vector_passes s) of
        None \<Rightarrow> (Inr VbInvalidContinuation, s)
      | Some pass_index \<Rightarrow>
        let pass = ds_vector_passes s ! pass_index in
        if vp_document_id pass \<noteq> document_id \<or> vp_capability_id pass \<noteq> capability_id
          \<or> vp_channel_id pass \<noteq> channel_id \<or> vp_oplog_version pass \<noteq> version
          \<or> vp_expires_at pass \<le> now
        then (Inr VbInvalidContinuation, s)
        else case (case vp_retry pass of
            Some retry \<Rightarrow> if vpr_token retry = token then Some (vpr_response retry) else None
          | None \<Rightarrow> None) of
            Some response \<Rightarrow> (Inr (VbAuthorized response), s)
          | None \<Rightarrow> (case vp_current pass of
              None \<Rightarrow> (Inr VbInvalidContinuation, s)
            | Some current \<Rightarrow>
              if vpp_token current \<noteq> token then (Inr VbInvalidContinuation, s)
              else vector_advance s pass_index token current byte_limit later rnd)))"

definition vector_backfill_authorized ::
  "(bytes \<Rightarrow> key32) \<Rightarrow> durable_update_store \<Rightarrow> broker_channel \<Rightarrow> document_id \<Rightarrow> capability_id
    \<Rightarrow> authenticator \<Rightarrow> oplog_version \<Rightarrow> store_vector_backfill_start \<Rightarrow> nat \<Rightarrow> instant \<Rightarrow> instant
    \<Rightarrow> (nat \<Rightarrow> continuation_token option)
    \<Rightarrow> authorized_vector_backfill_page store_vector_backfill_outcome store_result" where
  "vector_backfill_authorized sha s channel document_id capability_id authenticator version start
      byte_limit now later rnd =
    (if \<not> recognizes (ds_subscriptions s) channel then (Inr VbAuthorizationDenied, s)
     else case authorize_document sha (ds_tables s) document_id capability_id authenticator Read of
       document_authorization.Denied \<Rightarrow> (Inr VbAuthorizationDenied, s)
     | document_authorization.Retired \<Rightarrow> (Inr VbRetiredDocument, s)
     | document_authorization.Authorized \<Rightarrow>
       let s = s\<lparr> ds_vector_passes := filter (\<lambda>p. vp_expires_at p > now) (ds_vector_passes s) \<rparr>;
           channel_id = bc_lease channel in
       (case start of
          VectorOrigin \<Rightarrow> vector_origin s channel_id document_id capability_id version byte_limit now rnd
        | VectorContinue encoded \<Rightarrow> vector_continuation s channel_id document_id capability_id version
            encoded byte_limit now later rnd))"

end
