(* ===== verification/Store_Broker.thy ===== *)
theory Store_Broker
  imports Store_Passes Store_Control
begin

text \<open>
  The operations of \<open>DurableUpdateStore\<close> that join the tables with the passes and the
  subscriptions: subscribing, closing a channel, the commits that notify or invalidate, and
  \<open>open\<close> on an already initialised database.
\<close>

datatype store_subscribe_outcome = SubAcknowledged u64 | SubAuthorizationDenied | SubBackpressure

definition open_broker_channel ::
  "durable_update_store \<Rightarrow> broker_channel option \<times> durable_update_store" where
  "open_broker_channel s = (let (channel, subscriptions) = open_channel (ds_subscriptions s) in
    (channel, s\<lparr> ds_subscriptions := subscriptions \<rparr>))"

definition document_emission_gate ::
  "document_id \<Rightarrow> durable_update_store \<Rightarrow> nat \<times> durable_update_store" where
  "document_emission_gate document_id s =
    (let (gate, subscriptions) = emission_gate_of document_id (ds_subscriptions s) in
    (gate, s\<lparr> ds_subscriptions := subscriptions \<rparr>))"

definition subscribe_updates ::
  "(bytes \<Rightarrow> key32) \<Rightarrow> durable_update_store \<Rightarrow> broker_channel \<Rightarrow> document_id \<Rightarrow> capability_id
    \<Rightarrow> authenticator \<Rightarrow> store_subscribe_outcome \<times> durable_update_store" where
  "subscribe_updates sha s channel document_id capability_id authenticator =
    (if \<not> recognizes (ds_subscriptions s) channel then (SubAuthorizationDenied, s)
     else if \<not> authorize sha (ds_tables s) document_id capability_id authenticator Read
     then (SubAuthorizationDenied, s)
     else
       let (registered, subscriptions) = register channel document_id capability_id (ds_subscriptions s);
           s = s\<lparr> ds_subscriptions := subscriptions \<rparr> in
       case registered of
         Inr subscription \<Rightarrow> (SubAcknowledged subscription, s)
       | Inl InvalidChannel \<Rightarrow> (SubAuthorizationDenied, s)
       | Inl RegisterBackpressure \<Rightarrow> (SubBackpressure, s))"

definition close_broker_channel :: "broker_channel \<Rightarrow> durable_update_store \<Rightarrow> durable_update_store" where
  "close_broker_channel channel s =
    (if \<not> recognizes (ds_subscriptions s) channel then s
     else s\<lparr>
       ds_enumeration_passes := filter (\<lambda>p. ep_channel_id p \<noteq> bc_lease channel) (ds_enumeration_passes s),
       ds_vector_passes := filter (\<lambda>p. vp_channel_id p \<noteq> bc_lease channel) (ds_vector_passes s),
       ds_subscriptions := close_channel channel (ds_subscriptions s) \<rparr>)"

definition publish_committed_retirement :: "document_id \<Rightarrow> durable_update_store \<Rightarrow> durable_update_store" where
  "publish_committed_retirement document_id s =
    (if map_option dr_state (om_get (documents (ds_tables s)) document_id) = Some 1
     then s\<lparr>
       ds_enumeration_passes := filter (\<lambda>p. ep_document_id p \<noteq> document_id) (ds_enumeration_passes s),
       ds_vector_passes := filter (\<lambda>p. vp_document_id p \<noteq> document_id) (ds_vector_passes s),
       ds_subscriptions := invalidate_document document_id update_subscription_end.Retired
         (ds_subscriptions s) \<rparr>
     else s)"

section \<open>Commits\<close>

definition durable_accept :: "(bytes \<Rightarrow> key32) \<Rightarrow> durable_update_store \<Rightarrow> capability_id \<Rightarrow> authenticator
    \<Rightarrow> immutable_update \<Rightarrow> bytes \<Rightarrow> store_accept_outcome store_result" where
  "durable_accept sha s capability_id authenticator update encoded_record =
    (case store_accept sha (ds_tables s) capability_id authenticator update encoded_record of
       Inl err \<Rightarrow> (Inl err, s)
     | Inr (StAcceptInserted, t) \<Rightarrow> (Inr StAcceptInserted, s\<lparr> ds_tables := t,
         ds_subscriptions := notify (iu_document_id update) (iu_update_id update) (ds_subscriptions s) \<rparr>)
     | Inr (outcome, t) \<Rightarrow> (Inr outcome, s))"

definition durable_create_document :: "(bytes \<Rightarrow> key32) \<Rightarrow> durable_update_store \<Rightarrow> create_authority_id
    \<Rightarrow> authenticator \<Rightarrow> request_id \<Rightarrow> document_id \<Rightarrow> capability_id \<Rightarrow> authenticator
    \<Rightarrow> store_create_outcome store_result" where
  "durable_create_document sha s authority authenticator request_id document_id root root_authenticator =
    (case store_create_document sha (ds_tables s) authority authenticator request_id document_id root
         root_authenticator of
       Inl err \<Rightarrow> (Inl err, s)
     | Inr (outcome, t) \<Rightarrow> (Inr outcome, s\<lparr> ds_tables := t \<rparr>))"

definition durable_grant_capability :: "(bytes \<Rightarrow> key32) \<Rightarrow> durable_update_store \<Rightarrow> document_id
    \<Rightarrow> capability_id \<Rightarrow> authenticator \<Rightarrow> request_id \<Rightarrow> capability_id \<Rightarrow> authenticator \<Rightarrow> operation_set
    \<Rightarrow> store_control_outcome store_result" where
  "durable_grant_capability sha s document_id issuer authenticator request_id child child_authenticator operations =
    (case store_grant_capability sha (ds_tables s) document_id issuer authenticator request_id child
         child_authenticator operations of
       Inl err \<Rightarrow> (Inl err, s)
     | Inr (outcome, t) \<Rightarrow> (Inr outcome, s\<lparr> ds_tables := t \<rparr>))"

text \<open>
  The subscriptions and the passes of the document whose capability is the target or below it,
  looked up before the rows change.
\<close>

definition revoked_subscription_ids ::
  "durable_update_store \<Rightarrow> document_id \<Rightarrow> capability_id \<Rightarrow> u64 list" where
  "revoked_subscription_ids s document_id target =
    map snd (filter (\<lambda>(capability_id, _). is_descendant_or_self (ds_tables s) document_id target capability_id)
      (contexts document_id (ds_subscriptions s)))"

definition revoked_pass_capabilities ::
  "durable_update_store \<Rightarrow> document_id \<Rightarrow> capability_id \<Rightarrow> capability_id list" where
  "revoked_pass_capabilities s document_id target =
    filter (is_descendant_or_self (ds_tables s) document_id target)
      (map ep_capability_id (filter (\<lambda>p. ep_document_id p = document_id) (ds_enumeration_passes s))
       @ map vp_capability_id (filter (\<lambda>p. vp_document_id p = document_id) (ds_vector_passes s)))"

definition durable_revoke_capability :: "(bytes \<Rightarrow> key32) \<Rightarrow> durable_update_store \<Rightarrow> document_id
    \<Rightarrow> capability_id \<Rightarrow> authenticator \<Rightarrow> request_id \<Rightarrow> capability_id
    \<Rightarrow> store_control_outcome store_result" where
  "durable_revoke_capability sha s document_id issuer authenticator request_id target =
    (case store_revoke_capability sha (ds_tables s) document_id issuer authenticator request_id target of
       Inl err \<Rightarrow> (Inl err, s)
     | Inr (StInserted, t) \<Rightarrow>
       let ids = revoked_subscription_ids s document_id target;
           capabilities = revoked_pass_capabilities s document_id target in
       (Inr StInserted, s\<lparr> ds_tables := t,
         ds_enumeration_passes := filter (\<lambda>p. ep_document_id p \<noteq> document_id
           \<or> ep_capability_id p \<notin> set capabilities) (ds_enumeration_passes s),
         ds_vector_passes := filter (\<lambda>p. vp_document_id p \<noteq> document_id
           \<or> vp_capability_id p \<notin> set capabilities) (ds_vector_passes s),
         ds_subscriptions := invalidate_subscriptions ids Revoked (ds_subscriptions s) \<rparr>)
     | Inr (outcome, t) \<Rightarrow> (Inr outcome, s))"

end
