(* ===== verification/Model_Updates.thy ===== *)
theory Model_Updates
  imports Model
begin

text \<open>
  The immutable-update oracle of \<open>renee-model\<close>: the invariant of its four maps, kept by
  \<open>accept\<close>, and what enumeration and vector backfill return in a good state.
\<close>

section \<open>The invariant\<close>

definition next_sequence :: "update_model \<Rightarrow> document_id \<Rightarrow> acceptance_sequence" where
  "next_sequence m d = (case om_get (next_sequences m) d of None \<Rightarrow> FIRST | Some s \<Rightarrow> s)"

definition peers_of :: "update_model \<Rightarrow> document_id \<Rightarrow> u64 list" where
  "peers_of m d = (case om_get (document_peers m) d of None \<Rightarrow> [] | Some ps \<Rightarrow> ps)"

definition maps_sorted :: "update_model \<Rightarrow> bool" where
  "maps_sorted m \<longleftrightarrow> om_invar (acceptance_order m) \<and> om_invar (model_updates m)"

definition updates_indexed :: "update_model \<Rightarrow> bool" where
  "updates_indexed m \<longleftrightarrow> (\<forall>d u acc. om_get (model_updates m) (d, u) = Some acc \<longrightarrow>
    iu_document_id (acc_update acc) = d \<and> iu_update_id (acc_update acc) = u
    \<and> om_get (acceptance_order m) (d, acc_sequence acc) = Some u)"

definition order_indexed :: "update_model \<Rightarrow> bool" where
  "order_indexed m \<longleftrightarrow> (\<forall>d q u. om_get (acceptance_order m) (d, q) = Some u \<longrightarrow>
    (\<exists>acc. om_get (model_updates m) (d, u) = Some acc \<and> acc_sequence acc = q))"

definition positions_contiguous :: "update_model \<Rightarrow> bool" where
  "positions_contiguous m \<longleftrightarrow>
    (\<forall>d q. om_get (acceptance_order m) (d, q) \<noteq> None \<longleftrightarrow> 1 \<le> q \<and> q < next_sequence m d)
    \<and> (\<forall>d. 1 \<le> next_sequence m d)"

definition peers_exact :: "update_model \<Rightarrow> bool" where
  "peers_exact m \<longleftrightarrow> (\<forall>d. distinct (peers_of m d) \<and> length (peers_of m d) \<le> MAX_LORO_PEERS
    \<and> set (peers_of m d) = {p. \<exists>u acc. om_get (model_updates m) (d, u) = Some acc
        \<and> p \<in> lr_peer_id ` set (iu_public_loro_ranges (acc_update acc))})"

definition model_ok :: "update_model \<Rightarrow> bool" where
  "model_ok m \<longleftrightarrow> maps_sorted m \<and> updates_indexed m \<and> order_indexed m \<and> positions_contiguous m
    \<and> peers_exact m"

lemma model_okD:
  assumes "model_ok m"
  shows "maps_sorted m" "updates_indexed m" "order_indexed m" "positions_contiguous m" "peers_exact m"
  using assms by (simp_all add: model_ok_def)

lemma model_ok_empty: "model_ok empty_update_model"
  by (auto simp add: model_ok_def maps_sorted_def updates_indexed_def order_indexed_def
      positions_contiguous_def peers_exact_def empty_update_model_def next_sequence_def peers_of_def
      FIRST_def MAX_LORO_PEERS_def)

section \<open>Acceptance\<close>

definition additional_peers :: "update_model \<Rightarrow> immutable_update \<Rightarrow> nat" where
  "additional_peers m update = length (filter (\<lambda>r. lr_peer_id r \<notin> set (peers_of m (iu_document_id update)))
    (iu_public_loro_ranges update))"

definition accepted_model :: "update_model \<Rightarrow> immutable_update \<Rightarrow> acceptance_sequence \<Rightarrow> update_model" where
  "accepted_model m update following =
    m\<lparr> next_sequences := om_insert (iu_document_id update) following (next_sequences m),
       acceptance_order := om_insert (iu_document_id update, next_sequence m (iu_document_id update))
         (iu_update_id update) (acceptance_order m),
       document_peers := om_insert (iu_document_id update)
         (peers_extend (peers_of m (iu_document_id update))
           (map lr_peer_id (iu_public_loro_ranges update))) (document_peers m),
       model_updates := om_insert (iu_document_id update, iu_update_id update)
         \<lparr> acc_sequence = next_sequence m (iu_document_id update), acc_update = update \<rparr>
         (model_updates m) \<rparr>"

lemma model_accept_cases:
  "model_accept m update =
    (case om_get (model_updates m) (iu_document_id update, iu_update_id update) of
       Some existing \<Rightarrow>
         (if acc_update existing = update then (AlreadyPresent, m) else (AcceptIdentifierConflict, m))
     | None \<Rightarrow>
       (case checked_next (next_sequence m (iu_document_id update)) of
          None \<Rightarrow> (AcceptCounterExhausted, m)
        | Some following \<Rightarrow>
            if length (peers_of m (iu_document_id update)) + additional_peers m update > MAX_LORO_PEERS
            then (AcceptLimitExceeded, m) else (Inserted, accepted_model m update following)))"
  unfolding model_accept_def next_sequence_def peers_of_def additional_peers_def accepted_model_def Let_def
  by (cases "om_get (document_peers m) (iu_document_id update)") (auto split: option.split)

lemma peers_extend_set: "set (peers_extend ps qs) = set ps \<union> set qs"
proof -
  have "set (fold insort_insert qs ps) = set ps \<union> set qs"
    by (induction qs arbitrary: ps) (auto simp add: set_insort_insert)
  then show ?thesis by (simp add: peers_extend_def)
qed

lemma peers_extend_distinct: "distinct ps \<Longrightarrow> distinct (peers_extend ps qs)"
proof -
  have "distinct ps \<Longrightarrow> distinct (fold insort_insert qs ps)"
    by (induction qs arbitrary: ps) (auto simp add: distinct_insort_insert)
  then show "distinct ps \<Longrightarrow> distinct (peers_extend ps qs)" by (simp add: peers_extend_def)
qed

lemma accepted_model_get:
  "om_get (model_updates (accepted_model m update f)) k =
    (if k = (iu_document_id update, iu_update_id update)
     then Some \<lparr> acc_sequence = next_sequence m (iu_document_id update), acc_update = update \<rparr>
     else om_get (model_updates m) k)"
  "om_get (acceptance_order (accepted_model m update f)) j =
    (if j = (iu_document_id update, next_sequence m (iu_document_id update))
     then Some (iu_update_id update) else om_get (acceptance_order m) j)"
  "next_sequence (accepted_model m update f) d =
    (if d = iu_document_id update then f else next_sequence m d)"
  "peers_of (accepted_model m update f) d =
    (if d = iu_document_id update
     then peers_extend (peers_of m d) (map lr_peer_id (iu_public_loro_ranges update))
     else peers_of m d)"
  by (simp_all add: accepted_model_def next_sequence_def peers_of_def)

lemma word_less_next_iff: "checked_next s = Some f \<Longrightarrow> q < f \<longleftrightarrow> q < s \<or> q = s"
  for q s f :: u64
proof -
  assume "checked_next s = Some f"
  then have "unat f = Suc (unat s)" by (rule checked_next_unat)
  then have "q < f \<longleftrightarrow> unat q < unat s \<or> unat q = unat s"
    by (auto simp add: word_less_nat_alt)
  then show "q < f \<longleftrightarrow> q < s \<or> q = s" by (simp add: word_less_nat_alt word_unat_eq_iff)
qed

lemma accepted_positions:
  assumes "positions_contiguous m" "checked_next (next_sequence m (iu_document_id update)) = Some f"
  shows "positions_contiguous (accepted_model m update f)"
proof -
  let ?d = "iu_document_id update"
  have one: "1 \<le> next_sequence m ?d" and less: "next_sequence m ?d < f"
    using assms(1) checked_next_less [OF assms(2)] by (simp_all add: positions_contiguous_def)
  have "om_get (acceptance_order (accepted_model m update f)) (d, q) \<noteq> None \<longleftrightarrow>
      1 \<le> q \<and> q < next_sequence (accepted_model m update f) d" for d q
    using assms(1) one word_less_next_iff [OF assms(2), of q]
    by (cases "d = ?d") (auto simp add: accepted_model_get positions_contiguous_def)
  moreover have "1 \<le> next_sequence (accepted_model m update f) d" for d
    using assms(1) order.trans [OF one less_imp_le [OF less]]
    by (simp add: accepted_model_get positions_contiguous_def)
  ultimately show ?thesis unfolding positions_contiguous_def by blast
qed

lemma accepted_indexed:
  assumes "model_ok m" "om_get (model_updates m) (iu_document_id update, iu_update_id update) = None"
  shows "updates_indexed (accepted_model m update f)" "order_indexed (accepted_model m update f)"
proof -
  let ?d = "iu_document_id update" and ?m = "accepted_model m update f"
  have fresh: "om_get (acceptance_order m) (?d, next_sequence m ?d) = None"
    using model_okD(4) [OF assms(1)] unfolding positions_contiguous_def
    by (metis order_less_irrefl)
  have old: "om_get (model_updates m) (x, u) = Some acc \<Longrightarrow>
      iu_document_id (acc_update acc) = x \<and> iu_update_id (acc_update acc) = u
      \<and> om_get (acceptance_order m) (x, acc_sequence acc) = Some u" for x u acc
    using model_okD(2) [OF assms(1)] by (simp add: updates_indexed_def)
  show "updates_indexed ?m"
    unfolding updates_indexed_def
  proof (intro allI impI)
    fix x u acc
    assume g: "om_get (model_updates ?m) (x, u) = Some acc"
    show "iu_document_id (acc_update acc) = x \<and> iu_update_id (acc_update acc) = u
      \<and> om_get (acceptance_order ?m) (x, acc_sequence acc) = Some u"
    proof (cases "(x, u) = (?d, iu_update_id update)")
      case True
      with g have "acc = \<lparr> acc_sequence = next_sequence m ?d, acc_update = update \<rparr>"
        by (simp add: accepted_model_get)
      with True show ?thesis by (simp add: accepted_model_get)
    next
      case False
      with g have "om_get (model_updates m) (x, u) = Some acc"
        by (auto simp add: accepted_model_get split: if_splits)
      note o = old [OF this]
      with fresh have "(x, acc_sequence acc) \<noteq> (?d, next_sequence m ?d)" by auto
      with o show ?thesis by (auto simp add: accepted_model_get)
    qed
  qed
  have oldq: "om_get (acceptance_order m) (x, q) = Some u \<Longrightarrow>
      \<exists>acc. om_get (model_updates m) (x, u) = Some acc \<and> acc_sequence acc = q" for x q u
    using model_okD(3) [OF assms(1)] by (simp add: order_indexed_def)
  show "order_indexed ?m"
    unfolding order_indexed_def
  proof (intro allI impI)
    fix x q u
    assume g: "om_get (acceptance_order ?m) (x, q) = Some u"
    show "\<exists>acc. om_get (model_updates ?m) (x, u) = Some acc \<and> acc_sequence acc = q"
    proof (cases "(x, q) = (?d, next_sequence m ?d)")
      case True
      with g show ?thesis by (auto simp add: accepted_model_get)
    next
      case False
      with g have "om_get (acceptance_order m) (x, q) = Some u"
        by (auto simp add: accepted_model_get split: if_splits)
      with oldq obtain acc where "om_get (model_updates m) (x, u) = Some acc" "acc_sequence acc = q"
        by blast
      with assms(2) show ?thesis by (auto simp add: accepted_model_get)
    qed
  qed
qed

lemma peers_extend_length:
  assumes "distinct ps" "distinct qs"
  shows "length (peers_extend ps qs) = length ps + length (filter (\<lambda>q. q \<notin> set ps) qs)"
proof -
  have "length (peers_extend ps qs) = card (set ps \<union> set (filter (\<lambda>q. q \<notin> set ps) qs))"
  proof -
    have "set (peers_extend ps qs) = set ps \<union> set (filter (\<lambda>q. q \<notin> set ps) qs)"
      unfolding peers_extend_set by auto
    then show ?thesis using distinct_card [OF peers_extend_distinct [OF assms(1), of qs]] by simp
  qed
  also have "\<dots> = card (set ps) + card (set (filter (\<lambda>q. q \<notin> set ps) qs))"
    by (rule card_Un_disjoint) auto
  finally show ?thesis
    using assms distinct_card [of "filter (\<lambda>q. q \<notin> set ps) qs"] by (simp add: distinct_card)
qed


text \<open>Canonical ranges name each peer once.\<close>

lemma accepted_peers:
  assumes "model_ok m" "distinct (map lr_peer_id (iu_public_loro_ranges update))"
    and "om_get (model_updates m) (iu_document_id update, iu_update_id update) = None"
    and "length (peers_of m (iu_document_id update)) + additional_peers m update \<le> MAX_LORO_PEERS"
  shows "peers_exact (accepted_model m update f)"
  unfolding peers_exact_def
proof
  fix d
  let ?d = "iu_document_id update" and ?m = "accepted_model m update f"
  let ?qs = "map lr_peer_id (iu_public_loro_ranges update)"
  let ?peers = "\<lambda>m d. {p. \<exists>u acc. om_get (model_updates m) (d, u) = Some acc
    \<and> p \<in> lr_peer_id ` set (iu_public_loro_ranges (acc_update acc))}"
  have old: "distinct (peers_of m d)" "length (peers_of m d) \<le> MAX_LORO_PEERS"
    "set (peers_of m d) = ?peers m d"
    using model_okD(5) [OF assms(1)] unfolding peers_exact_def by blast+
  show "distinct (peers_of ?m d) \<and> length (peers_of ?m d) \<le> MAX_LORO_PEERS
    \<and> set (peers_of ?m d) = ?peers ?m d"
  proof (cases "d = ?d")
    case False
    then have "?peers ?m d = ?peers m d" by (simp add: accepted_model_get)
    with False old show ?thesis by (simp add: accepted_model_get)
  next
    case True
    have "?peers ?m d = ?peers m d \<union> set ?qs"
    proof (intro subset_antisym subsetI)
      fix p
      assume "p \<in> ?peers ?m d"
      then obtain u acc where u: "om_get (model_updates ?m) (d, u) = Some acc"
        "p \<in> lr_peer_id ` set (iu_public_loro_ranges (acc_update acc))" by blast
      then show "p \<in> ?peers m d \<union> set ?qs"
        using True by (cases "u = iu_update_id update") (auto simp add: accepted_model_get)
    next
      fix p
      assume p: "p \<in> ?peers m d \<union> set ?qs"
      show "p \<in> ?peers ?m d"
      proof (cases "p \<in> set ?qs")
        case True': True
        then show ?thesis
          using True by (intro CollectI exI [of _ "iu_update_id update"]) (auto simp add: accepted_model_get)
      next
        case False
        with p obtain u acc where u: "om_get (model_updates m) (d, u) = Some acc"
          "p \<in> lr_peer_id ` set (iu_public_loro_ranges (acc_update acc))" by blast
        with True assms(3) have "u \<noteq> iu_update_id update" by auto
        with u have "om_get (model_updates ?m) (d, u) = Some acc" by (simp add: accepted_model_get)
        with u(2) show ?thesis by blast
      qed
    qed
    moreover have "length (peers_extend (peers_of m d) ?qs) \<le> MAX_LORO_PEERS"
      using True assms(4) peers_extend_length [OF old(1) assms(2)]
      by (simp add: additional_peers_def filter_map comp_def)
    ultimately show ?thesis
      using True old peers_extend_distinct [OF old(1)] peers_extend_set by (simp add: accepted_model_get)
  qed
qed

lemma accepted_ok:
  assumes "model_ok m" "distinct (map lr_peer_id (iu_public_loro_ranges update))"
    and "om_get (model_updates m) (iu_document_id update, iu_update_id update) = None"
    and "checked_next (next_sequence m (iu_document_id update)) = Some f"
    and "length (peers_of m (iu_document_id update)) + additional_peers m update \<le> MAX_LORO_PEERS"
  shows "model_ok (accepted_model m update f)"
proof -
  have "maps_sorted (accepted_model m update f)"
    using model_okD(1) [OF assms(1)] by (simp add: maps_sorted_def accepted_model_def)
  then show ?thesis
    unfolding model_ok_def
    using accepted_indexed [OF assms(1,3)] accepted_positions [OF model_okD(4) [OF assms(1)] assms(4)]
      accepted_peers [OF assms(1,2,3,5)] by blast
qed

lemma model_accept_ok:
  assumes "model_ok m" "distinct (map lr_peer_id (iu_public_loro_ranges update))"
  shows "model_ok (snd (model_accept m update))"
  using assms accepted_ok [OF assms]
  by (auto simp add: model_accept_cases not_less split: option.splits)


section \<open>Acceptance windows\<close>

text \<open>\<open>positions a b\<close>: the acceptance sequences after \<open>a\<close> up to \<open>b\<close>.\<close>

definition positions :: "acceptance_sequence \<Rightarrow> acceptance_sequence \<Rightarrow> acceptance_sequence list" where
  "positions a b = map word_of_nat [Suc (unat a)..<Suc (unat b)]"

lemma unat_of_nat_u64: "n \<le> unat (b :: u64) \<Longrightarrow> unat (word_of_nat n :: u64) = n"
  using unsigned_less [of b, where 'a = nat] by (simp add: unat_of_nat)

lemma length_positions: "length (positions a b) = unat b - unat a"
  by (simp add: positions_def del: upt_Suc)

lemma nth_positions: "i < unat b - unat a \<Longrightarrow> positions a b ! i = a + 1 + word_of_nat i"
  by (simp add: positions_def add.commute add.left_commute del: upt_Suc)

lemma unat_nth_positions: "i < unat b - unat a \<Longrightarrow> unat (positions a b ! i) = unat a + 1 + i"
  using unat_of_nat_u64 [of "unat a + 1 + i" b] by (simp add: positions_def del: of_nat_add of_nat_Suc upt_Suc)

lemma set_positions: "set (positions a b) = {q. a < q \<and> q \<le> b}"
proof (intro subset_antisym subsetI)
  fix q
  assume "q \<in> set (positions a b)"
  then obtain n where "q = word_of_nat n" "unat a < n" "n \<le> unat b"
    by (auto simp add: positions_def simp del: upt_Suc)
  then show "q \<in> {q. a < q \<and> q \<le> b}"
    by (simp add: word_less_nat_alt word_le_nat_alt unat_of_nat_u64)
next
  fix q
  assume "q \<in> {q. a < q \<and> q \<le> b}"
  then have "unat a < unat q" "unat q \<le> unat b" by (simp_all add: word_less_nat_alt word_le_nat_alt)
  moreover have "q = word_of_nat (unat q)" by simp
  ultimately show "q \<in> set (positions a b)"
    unfolding positions_def set_map set_upt by (intro image_eqI [of _ _ "unat q"]) auto
qed

lemma sorted_positions: "sorted_wrt (<) (positions a b)"
  unfolding positions_def sorted_wrt_map
  by (rule sorted_wrt_mono_rel [OF _ sorted_wrt_upt])
    (simp add: word_less_nat_alt unat_of_nat_u64 [of _ b] del: upt_Suc)

definition accepted_at :: "update_model \<Rightarrow> document_id \<Rightarrow> acceptance_sequence \<Rightarrow> immutable_update option" where
  "accepted_at m d q = Option.bind (om_get (acceptance_order m) (d, q))
    (\<lambda>u. map_option acc_update (om_get (model_updates m) (d, u)))"

lemma accepted_at_known:
  assumes "model_ok m" "1 \<le> q" "q < next_sequence m d"
  obtains update where "accepted_at m d q = Some update"
    "om_get (model_updates m) (d, iu_update_id update) = Some \<lparr> acc_sequence = q, acc_update = update \<rparr>"
proof -
  obtain u where u: "om_get (acceptance_order m) (d, q) = Some u"
    using model_okD(4) [OF assms(1)] assms(2,3) unfolding positions_contiguous_def by blast
  then obtain acc where acc: "om_get (model_updates m) (d, u) = Some acc" "acc_sequence acc = q"
    using model_okD(3) [OF assms(1)] unfolding order_indexed_def by blast
  moreover have "iu_update_id (acc_update acc) = u"
    using model_okD(2) [OF assms(1)] acc(1) by (simp add: updates_indexed_def)
  ultimately show thesis using that [of "acc_update acc"] u
    by (cases acc) (simp add: accepted_at_def)
qed

definition window_entries ::
  "update_model \<Rightarrow> document_id \<Rightarrow> acceptance_sequence \<Rightarrow> acceptance_sequence
    \<Rightarrow> (document_id \<times> acceptance_sequence, update_id) omap" where
  "window_entries m d a b = om_range (\<lambda>k. (d, a) < k \<and> k \<le> (d, b)) (acceptance_order m)"

lemma window_entries_iff:
  assumes "model_ok m"
  shows "((x, q), u) \<in> set (window_entries m d a b) \<longleftrightarrow>
    x = d \<and> a < q \<and> q \<le> b \<and> om_get (acceptance_order m) (d, q) = Some u"
proof -
  have "om_invar (acceptance_order m)" using model_okD(1) [OF assms] by (simp add: maps_sorted_def)
  then show ?thesis
    by (auto simp add: window_entries_def om.entries_get)
qed

lemma window_entries_sequences:
  assumes "model_ok m" "b < next_sequence m d"
  shows "map (\<lambda>((_, q), _). q) (window_entries m d a b) = positions a b"
proof (rule strict_sorted_equal)
  let ?es = "window_entries m d a b"
  have inv: "om_invar ?es"
    using model_okD(1) [OF assms(1)] by (simp add: maps_sorted_def window_entries_def)
  then have "sorted_wrt (\<lambda>e f. fst e < fst f) ?es" by (simp add: om_invar_def sorted_wrt_map)
  then show "sorted_wrt (<) (map (\<lambda>((_, q), _). q) ?es)"
    unfolding sorted_wrt_map
    by (rule sorted_wrt_mono_rel [rotated]) (use window_entries_iff [OF assms(1)] in auto)
  show "set (map (\<lambda>((_, q), _). q) ?es) = set (positions a b)"
  proof (intro subset_antisym subsetI)
    fix q
    assume "q \<in> set (map (\<lambda>((_, q), _). q) ?es)"
    then show "q \<in> set (positions a b)"
      using window_entries_iff [OF assms(1)] by (auto simp add: set_positions)
  next
    fix q
    assume "q \<in> set (positions a b)"
    then have q: "a < q" "q \<le> b" by (simp_all add: set_positions)
    then have "1 \<le> q" by (simp add: word_le_nat_alt word_less_nat_alt)
    moreover have "q < next_sequence m d" using q(2) assms(2) by simp
    ultimately obtain u where "om_get (acceptance_order m) (d, q) = Some u"
      using model_okD(4) [OF assms(1)] unfolding positions_contiguous_def by blast
    then have "((d, q), u) \<in> set ?es" using q window_entries_iff [OF assms(1)] by blast
    then show "q \<in> set (map (\<lambda>((_, q), _). q) ?es)" by force
  qed
qed (rule sorted_positions)

lemma acceptance_window_positions:
  assumes "model_ok m" "b < next_sequence m d"
  shows "acceptance_window m d (Some a) b =
    map (\<lambda>q. (q, model_metadata (the (accepted_at m d q)))) (positions a b)"
proof -
  let ?es = "window_entries m d a b"
  let ?g = "\<lambda>((_, q), u). case om_get (model_updates m) (d, u) of None \<Rightarrow> None
    | Some accepted \<Rightarrow> Some (q, model_metadata (acc_update accepted))"
  let ?f = "\<lambda>q. (q, model_metadata (the (accepted_at m d q)))"
  have g: "?g e = Some (?f (snd (fst e)))" if "e \<in> set ?es" for e
  proof -
    obtain x q u where e: "e = ((x, q), u)" by (metis prod.collapse)
    with that have "om_get (acceptance_order m) (d, q) = Some u"
      using window_entries_iff [OF assms(1)] by blast
    moreover from this obtain acc where "om_get (model_updates m) (d, u) = Some acc"
      using model_okD(3) [OF assms(1)] unfolding order_indexed_def by blast
    ultimately show ?thesis by (simp add: e accepted_at_def)
  qed
  have "List.map_filter ?g es = map (\<lambda>e. ?f (snd (fst e))) es"
    if "set es \<subseteq> set ?es" for es
    using that g by (induction es) (simp_all add: map_filter_simps del: split_paired_All)
  then have "List.map_filter ?g ?es = map ?f (map (\<lambda>((_, q), _). q) ?es)"
    by (simp add: split_def)
  then show ?thesis
    unfolding window_entries_sequences [OF assms]
    by (simp add: acceptance_window_def window_entries_def)
qed

end
