(* ===== verification/Store_Acceptance.thy ===== *)
theory Store_Acceptance
  imports Store_Updates Model_Updates Store_Limits Store_Steps
begin

text \<open>
  Acceptance of immutable updates: the store refines the update model of \<open>renee-model\<close>.  The
  four update tables are related to the four maps of the model, and every acceptance preserves
  the relation and gives the model's outcome.
\<close>

section \<open>The index loops\<close>

lemma distinct_peers_Cons:
  "distinct (map lr_peer_id (r # rs)) \<Longrightarrow> s \<in> set rs \<Longrightarrow> lr_peer_id s \<noteq> lr_peer_id r"
  by (auto simp add: image_iff)

lemma insert_peers_loop_ok:
  assumes "om_contains (documents t) d" "distinct (map lr_peer_id rs)" "c \<le> MAX_LORO_PEERS"
  shows "\<exists>ps. insert_peers_loop d c rs t = Inr
      (c + length (filter (\<lambda>r. \<not> om_contains (document_loro_peers t) (d, lr_peer_id r)) rs)
        \<le> MAX_LORO_PEERS, t\<lparr> document_loro_peers := ps \<rparr>)
    \<and> (c + length (filter (\<lambda>r. \<not> om_contains (document_loro_peers t) (d, lr_peer_id r)) rs)
        \<le> MAX_LORO_PEERS \<longrightarrow>
      (om_invar (document_loro_peers t) \<longrightarrow> om_invar ps)
      \<and> (\<forall>k. om_contains ps k \<longleftrightarrow>
        om_contains (document_loro_peers t) k \<or> (\<exists>r \<in> set rs. k = (d, lr_peer_id r))))"
  using assms
proof (induction rs arbitrary: c t)
  case Nil
  have "t = t\<lparr> document_loro_peers := document_loro_peers t \<rparr>" by simp
  with Nil.prems(3) show ?case by (intro exI [of _ "document_loro_peers t"]) simp
next
  case (Cons r rs)
  let ?k = "(d, lr_peer_id r)"
  show ?case
  proof (cases "om_contains (document_loro_peers t) ?k")
    case True
    obtain ps where ps: "insert_peers_loop d c rs t = Inr
        (c + length (filter (\<lambda>r. \<not> om_contains (document_loro_peers t) (d, lr_peer_id r)) rs)
          \<le> MAX_LORO_PEERS, t\<lparr> document_loro_peers := ps \<rparr>)"
      "c + length (filter (\<lambda>r. \<not> om_contains (document_loro_peers t) (d, lr_peer_id r)) rs)
        \<le> MAX_LORO_PEERS \<longrightarrow> (om_invar (document_loro_peers t) \<longrightarrow> om_invar ps)
        \<and> (\<forall>k. om_contains ps k \<longleftrightarrow>
          om_contains (document_loro_peers t) k \<or> (\<exists>r \<in> set rs. k = (d, lr_peer_id r)))"
      using Cons.IH [of t c] Cons.prems by auto
    moreover have "t\<lparr> document_loro_peers := document_loro_peers t \<rparr> = t" by simp
    ultimately show ?thesis
      using True Cons.prems(3) by (intro exI [of _ ps]) (auto simp add: sql_insert_or_ignore_def)
  next
    case False
    let ?t = "t\<lparr> document_loro_peers := om_insert ?k () (document_loro_peers t) \<rparr>"
    have ne: "lr_peer_id s \<noteq> lr_peer_id r" if "s \<in> set rs" for s
      using distinct_peers_Cons [OF Cons.prems(2) that] .
    have same: "filter (\<lambda>r. \<not> om_contains (document_loro_peers ?t) (d, lr_peer_id r)) rs
        = filter (\<lambda>r. \<not> om_contains (document_loro_peers t) (d, lr_peer_id r)) rs"
      using ne by (intro filter_cong) auto
    show ?thesis
    proof (cases "c + 1 \<le> MAX_LORO_PEERS")
      case full: False
      then show ?thesis
        using False Cons.prems(1) by (auto simp add: sql_insert_or_ignore_def Let_def)
    next
      case room: True
      obtain ps where ps: "insert_peers_loop d (c + 1) rs ?t = Inr
          (c + 1 + length (filter (\<lambda>r. \<not> om_contains (document_loro_peers t) (d, lr_peer_id r)) rs)
            \<le> MAX_LORO_PEERS, ?t\<lparr> document_loro_peers := ps \<rparr>)"
        "c + 1 + length (filter (\<lambda>r. \<not> om_contains (document_loro_peers t) (d, lr_peer_id r)) rs)
          \<le> MAX_LORO_PEERS \<longrightarrow> (om_invar (document_loro_peers ?t) \<longrightarrow> om_invar ps)
          \<and> (\<forall>k. om_contains ps k \<longleftrightarrow>
            om_contains (document_loro_peers ?t) k \<or> (\<exists>r \<in> set rs. k = (d, lr_peer_id r)))"
        using Cons.IH [of ?t "c + 1"] Cons.prems room unfolding same by auto
      then show ?thesis
        using False Cons.prems(1) room
        by (intro exI [of _ ps]) (auto simp add: sql_insert_or_ignore_def Let_def)
    qed
  qed
qed

definition range_of :: "immutable_update \<Rightarrow> u64 \<Rightarrow> (u32 \<times> u32) option" where
  "range_of update p = map_option (\<lambda>r. (lr_start_counter r, lr_end_counter r))
    (List.find (\<lambda>r. lr_peer_id r = p) (iu_public_loro_ranges update))"

lemma insert_ranges_loop_ok:
  assumes "om_contains (updates t) (d, u)" "distinct (map lr_peer_id rs)"
    and "\<And>r. r \<in> set rs \<Longrightarrow> om_get (update_loro_ranges t) (d, u, lr_peer_id r) = None"
  shows "\<exists>rt. insert_ranges_loop d u rs t = Inr (t\<lparr> update_loro_ranges := rt \<rparr>)
    \<and> (om_invar (update_loro_ranges t) \<longrightarrow> om_invar rt)
    \<and> (\<forall>x y p. om_get rt (x, y, p) = (case (if (x, y) = (d, u) then List.find (\<lambda>r. lr_peer_id r = p) rs
        else None) of Some r \<Rightarrow> Some (lr_start_counter r, lr_end_counter r)
        | None \<Rightarrow> om_get (update_loro_ranges t) (x, y, p)))"
  using assms
proof (induction rs arbitrary: t)
  case Nil
  have "t = t\<lparr> update_loro_ranges := update_loro_ranges t \<rparr>" by simp
  then show ?case by (intro exI [of _ "update_loro_ranges t"]) simp
next
  case (Cons r rs)
  let ?t = "t\<lparr> update_loro_ranges := om_insert (d, u, lr_peer_id r)
    (lr_start_counter r, lr_end_counter r) (update_loro_ranges t) \<rparr>"
  have other: "lr_peer_id s \<noteq> lr_peer_id r" if "s \<in> set rs" for s
    using distinct_peers_Cons [OF Cons.prems(2) that] .
  then have "om_get (update_loro_ranges ?t) (d, u, lr_peer_id s) = None" if "s \<in> set rs" for s
    using that Cons.prems(3) [of s] by simp
  then obtain rt where rt: "insert_ranges_loop d u rs ?t = Inr (?t\<lparr> update_loro_ranges := rt \<rparr>)"
    "om_invar (update_loro_ranges ?t) \<longrightarrow> om_invar rt"
    "\<forall>x y p. om_get rt (x, y, p) = (case (if (x, y) = (d, u) then List.find (\<lambda>r. lr_peer_id r = p) rs
        else None) of Some r \<Rightarrow> Some (lr_start_counter r, lr_end_counter r)
        | None \<Rightarrow> om_get (update_loro_ranges ?t) (x, y, p))"
    using Cons.IH [of ?t] Cons.prems(1,2) by auto
  have none: "List.find (\<lambda>s. lr_peer_id s = lr_peer_id r) rs = None"
    using other by (auto simp add: find_None_iff)
  have "insert_ranges_loop d u (r # rs) t = Inr (t\<lparr> update_loro_ranges := rt \<rparr>)"
    using rt(1) Cons.prems(1) Cons.prems(3) [of r] by (simp add: sql_insert_def om_contains_def)
  moreover have "om_get rt (x, y, p) = (case (if (x, y) = (d, u)
      then List.find (\<lambda>r. lr_peer_id r = p) (r # rs) else None) of
        Some r \<Rightarrow> Some (lr_start_counter r, lr_end_counter r)
      | None \<Rightarrow> om_get (update_loro_ranges t) (x, y, p))" for x y p
    using rt(3) none by (cases "(x, y, p) = (d, u, lr_peer_id r)") (auto split: option.split)
  ultimately show ?case using rt(2) by auto
qed

section \<open>The relation\<close>

definition row_rel :: "update_row \<Rightarrow> accepted_update \<Rightarrow> bool" where
  "row_rel row acc \<longleftrightarrow> ur_acceptance_sequence row = acc_sequence acc
    \<and> decode_update_record (ur_encoded_record row) = Inr (acc_update acc)"

definition update_refines :: "tables \<Rightarrow> update_model \<Rightarrow> bool" where
  "update_refines t m \<longleftrightarrow>
    om_invar (updates t) \<and> om_invar (document_loro_peers t) \<and> om_invar (update_loro_ranges t)
    \<and> (\<forall>d u. rel_option row_rel (om_get (updates t) (d, u)) (om_get (model_updates m) (d, u)))
    \<and> (\<forall>d. om_get (document_acceptance_sequences t) d = om_get (next_sequences m) d)
    \<and> (\<forall>d p. om_contains (document_loro_peers t) (d, p) \<longleftrightarrow> p \<in> set (peers_of m d))
    \<and> (\<forall>d u p. om_get (update_loro_ranges t) (d, u, p) =
        Option.bind (om_get (model_updates m) (d, u)) (\<lambda>acc. range_of (acc_update acc) p))"

lemma update_refinesD:
  assumes "update_refines t m"
  shows "om_invar (updates t)" "om_invar (document_loro_peers t)" "om_invar (update_loro_ranges t)"
    "rel_option row_rel (om_get (updates t) (d, u)) (om_get (model_updates m) (d, u))"
    "om_get (document_acceptance_sequences t) d = om_get (next_sequences m) d"
    "om_contains (document_loro_peers t) (d, p) \<longleftrightarrow> p \<in> set (peers_of m d)"
    "om_get (update_loro_ranges t) (d, u, p) =
      Option.bind (om_get (model_updates m) (d, u)) (\<lambda>acc. range_of (acc_update acc) p)"
  using assms unfolding update_refines_def by blast+

lemma update_refines_row:
  assumes "update_refines t m" "om_get (updates t) (d, u) = Some row"
  obtains acc where "om_get (model_updates m) (d, u) = Some acc" "row_rel row acc"
  using update_refinesD(4) [OF assms(1), of d u] assms(2) by (auto simp add: option_rel_Some1)

lemma update_refines_None:
  "update_refines t m \<Longrightarrow>
    om_get (updates t) (d, u) = None \<longleftrightarrow> om_get (model_updates m) (d, u) = None"
  using update_refinesD(4) [of t m d u] by (metis option.rel_distinct option.exhaust option.rel_sel)

lemma update_refines_empty: "update_refines empty_tables empty_update_model"
  by (simp add: update_refines_def empty_tables_def empty_update_model_def peers_of_def
      om_contains_def)


section \<open>Simulation of acceptance\<close>

fun store_accept_of :: "accept_outcome \<Rightarrow> store_accept_outcome" where
  "store_accept_of Inserted = StAcceptInserted"
| "store_accept_of AlreadyPresent = StAcceptAlreadyPresent"
| "store_accept_of AcceptIdentifierConflict = StAcceptIdentifierConflict"
| "store_accept_of AcceptCounterExhausted = StAcceptCounterExhausted"
| "store_accept_of AcceptLimitExceeded = StAcceptLimitExceeded"

definition same_control :: "tables \<Rightarrow> tables \<Rightarrow> bool" where
  "same_control t t' \<longleftrightarrow> create_authorities t' = create_authorities t \<and> documents t' = documents t
    \<and> capabilities t' = capabilities t \<and> capability_operations t' = capability_operations t
    \<and> control_receipts t' = control_receipts t \<and> create_receipts t' = create_receipts t"

lemma same_control_ok:
  assumes "control_ok t" "same_control t t'"
  shows "control_ok t'"
proof -
  have "par_of t' = par_of t" "ops_in t' = ops_in t"
    using assms(2) by (intro ext; simp add: par_of_def ops_in_def same_control_def)+
  then show ?thesis
    using assms unfolding control_ok_def sorted_ok_def caps_ok_def depth_ok_def docs_ok_def
      op_rows_ok_def receipts_ok_def counts_ok_def create_rows_ok_def cap_row_ok_def
      grant_receipt_ok_def revoke_receipt_ok_def receipts_in_def caps_in_def direct_children_def
      same_control_def
    by simp
qed

lemma decoded_distinct:
  assumes "decode_update_record record = Inr update"
  shows "distinct (map lr_peer_id (iu_public_loro_ranges update))"
    "0 < length record" "length record \<le> 4024"
proof -
  have ok: "public_ranges_ok (iu_public_loro_ranges update)"
    "record_length update \<le> MAX_UPDATE_RECORD_LENGTH" "record = record_bytes update"
    using assms by (simp_all add: decode_update_record_iff update_ok_def encode_update_record_iff)
  show "distinct (map lr_peer_id (iu_public_loro_ranges update))"
    using ok(1) strict_sorted_iff by (auto simp add: public_ranges_ok_def)
  have "record_length update = length record" using ok(3) by (simp add: length_record_bytes)
  then show "length record \<le> 4024" using ok(2) by (simp add: update_length_defs)
  show "0 < length record" using ok(3) by (simp add: length_record_bytes record_length_def RECORD_FIXED_LENGTH_def)
qed

lemma decoded_same:
  "decode_update_record r = Inr u \<Longrightarrow> decode_update_record r' = Inr u' \<Longrightarrow> r = r' \<longleftrightarrow> u = u'"
  by (metis decode_update_record_iff sum.inject(2))

lemma peer_count:
  assumes "update_refines t m" "model_ok m"
  shows "count_where (\<lambda>(x, _) _. x = d) (document_loro_peers t) = length (peers_of m d)"
proof -
  have "{k. om_contains (document_loro_peers t) k \<and> (case k of (x, _) \<Rightarrow> x = d)}
      = Pair d ` set (peers_of m d)"
    using update_refinesD(6) [OF assms(1)] by auto
  moreover have "distinct (peers_of m d)"
    using model_okD(5) [OF assms(2)] by (simp add: peers_exact_def)
  ultimately show ?thesis
    using count_where_card [OF update_refinesD(2) [OF assms(1)], of "\<lambda>(x, _). x = d"]
    by (simp add: split_def card_image inj_on_def distinct_card)
qed

lemma insert_document_peers_ok:
  assumes "update_refines t m" "model_ok m"
    and "om_contains (documents t) (iu_document_id update)"
    and "distinct (map lr_peer_id (iu_public_loro_ranges update))"
  shows "\<exists>ps. insert_document_loro_peers update t = Inr
      (length (peers_of m (iu_document_id update)) + additional_peers m update \<le> MAX_LORO_PEERS,
        t\<lparr> document_loro_peers := ps \<rparr>)
    \<and> (length (peers_of m (iu_document_id update)) + additional_peers m update \<le> MAX_LORO_PEERS \<longrightarrow>
      om_invar ps \<and> (\<forall>k. om_contains ps k \<longleftrightarrow> om_contains (document_loro_peers t) k
        \<or> (\<exists>r \<in> set (iu_public_loro_ranges update). k = (iu_document_id update, lr_peer_id r))))"
proof -
  have le: "length (peers_of m (iu_document_id update)) \<le> MAX_LORO_PEERS"
    using model_okD(5) [OF assms(2)] by (simp add: peers_exact_def)
  have "filter (\<lambda>r. \<not> om_contains (document_loro_peers t) (iu_document_id update, lr_peer_id r))
      (iu_public_loro_ranges update)
    = filter (\<lambda>r. lr_peer_id r \<notin> set (peers_of m (iu_document_id update))) (iu_public_loro_ranges update)"
    using update_refinesD(6) [OF assms(1)] by simp
  then show ?thesis
    using insert_peers_loop_ok [OF assms(3,4) le] le update_refinesD(2) [OF assms(1)]
    unfolding insert_document_loro_peers_def Let_def peer_count [OF assms(1,2)] additional_peers_def
    by auto
qed

lemma insert_update_ok:
  assumes "update_refines t m" "model_ok m" "decode_update_record record = Inr update"
    and "om_contains (documents t) (iu_document_id update)"
    and "om_get (model_updates m) (iu_document_id update, iu_update_id update) = None"
  shows "\<exists>rt. insert_update update record (next_sequence m (iu_document_id update)) f
        (t\<lparr> document_loro_peers := ps \<rparr>)
      = Inr (t\<lparr> document_loro_peers := ps,
          document_acceptance_sequences :=
            om_insert (iu_document_id update) f (document_acceptance_sequences t),
          updates := om_insert (iu_document_id update, iu_update_id update)
            \<lparr> ur_acceptance_sequence = next_sequence m (iu_document_id update),
              ur_encoded_record = record \<rparr> (updates t),
          update_loro_ranges := rt \<rparr>)
    \<and> om_invar rt
    \<and> (\<forall>x y p. om_get rt (x, y, p) = (if (x, y) = (iu_document_id update, iu_update_id update)
        then range_of update p else om_get (update_loro_ranges t) (x, y, p)))"
proof -
  let ?d = "iu_document_id update" and ?u = "iu_update_id update"
  let ?q = "next_sequence m ?d"
  let ?row = "\<lparr> ur_acceptance_sequence = ?q, ur_encoded_record = record \<rparr>"
  let ?t1 = "t\<lparr> document_loro_peers := ps, document_acceptance_sequences :=
    om_insert ?d f (document_acceptance_sequences t) \<rparr>"
  let ?t2 = "?t1\<lparr> updates := om_insert (?d, ?u) ?row (updates t) \<rparr>"
  have fresh: "om_get (updates t) (?d, ?u) = None"
    using update_refines_None [OF assms(1)] assms(5) by blast
  have pos: "1 \<le> ?q" using model_okD(4) [OF assms(2)] by (simp add: positions_contiguous_def)
  have used: "ur_acceptance_sequence r \<noteq> ?q" if e: "((?d, v), r) \<in> set (updates t)" for v r
  proof -
    have "om_get (updates t) (?d, v) = Some r"
      using e om.entries_get [OF update_refinesD(1) [OF assms(1)]] by blast
    then obtain acc where acc: "om_get (model_updates m) (?d, v) = Some acc" "row_rel r acc"
      using update_refines_row [OF assms(1)] by blast
    then have "om_get (acceptance_order m) (?d, acc_sequence acc) \<noteq> None"
      using model_okD(2) [OF assms(2)] unfolding updates_indexed_def by blast
    then have "acc_sequence acc < ?q"
      using model_okD(4) [OF assms(2)] unfolding positions_contiguous_def by blast
    with acc(2) show ?thesis by (auto simp add: row_rel_def)
  qed
  have "?q \<noteq> 0" using pos by (auto simp add: word_le_nat_alt)
  then have allowed: "update_row_allowed ?t1 ?d ?row"
    using used decoded_distinct(2,3) [OF assms(3)]
    by (auto simp add: update_row_allowed_def list_all_iff)
  have no_ranges: "om_get (update_loro_ranges ?t2) (?d, ?u, lr_peer_id r) = None"
    if "r \<in> set (iu_public_loro_ranges update)" for r
    using update_refinesD(7) [OF assms(1)] assms(5) by simp
  have "om_contains (updates ?t2) (?d, ?u)" by simp
  from insert_ranges_loop_ok [OF this decoded_distinct(1) [OF assms(3)] no_ranges] obtain rt where
    rt: "insert_ranges_loop ?d ?u (iu_public_loro_ranges update) ?t2 = Inr (?t2\<lparr> update_loro_ranges := rt \<rparr>)"
    "om_invar (update_loro_ranges ?t2) \<longrightarrow> om_invar rt"
    "\<forall>x y p. om_get rt (x, y, p) = (case (if (x, y) = (?d, ?u)
        then List.find (\<lambda>r. lr_peer_id r = p) (iu_public_loro_ranges update) else None) of
          Some r \<Rightarrow> Some (lr_start_counter r, lr_end_counter r)
        | None \<Rightarrow> om_get (update_loro_ranges ?t2) (x, y, p))" by blast
  have "insert_update update record ?q f (t\<lparr> document_loro_peers := ps \<rparr>)
      = Inr (?t2\<lparr> update_loro_ranges := rt \<rparr>)"
    using assms(4) allowed fresh rt(1)
    by (simp add: insert_update_def insert_update_ranges_def sql_insert_def om_contains_def Let_def)
  moreover have "om_get rt (x, y, p) = (if (x, y) = (?d, ?u) then range_of update p
      else om_get (update_loro_ranges t) (x, y, p))" for x y p
    using rt(3) update_refinesD(7) [OF assms(1), of ?d ?u p] assms(5)
    by (auto simp add: range_of_def split: option.split)
  moreover have "om_invar rt" using rt(2) update_refinesD(3) [OF assms(1)] by simp
  ultimately show ?thesis by auto
qed


lemma accepted_refines:
  assumes "update_refines t m" "model_ok m" "decode_update_record record = Inr update"
    and "om_get (model_updates m) (iu_document_id update, iu_update_id update) = None"
    and "om_invar ps" "\<forall>k. om_contains ps k \<longleftrightarrow> om_contains (document_loro_peers t) k
        \<or> (\<exists>r \<in> set (iu_public_loro_ranges update). k = (iu_document_id update, lr_peer_id r))"
    and "om_invar rt" "\<forall>x y p. om_get rt (x, y, p) =
        (if (x, y) = (iu_document_id update, iu_update_id update) then range_of update p
         else om_get (update_loro_ranges t) (x, y, p))"
  shows "update_refines (t\<lparr> document_loro_peers := ps,
      document_acceptance_sequences :=
        om_insert (iu_document_id update) f (document_acceptance_sequences t),
      updates := om_insert (iu_document_id update, iu_update_id update)
        \<lparr> ur_acceptance_sequence = next_sequence m (iu_document_id update),
          ur_encoded_record = record \<rparr> (updates t),
      update_loro_ranges := rt \<rparr>) (accepted_model m update f)"
proof -
  let ?d = "iu_document_id update" and ?u = "iu_update_id update"
  note old = update_refinesD [OF assms(1)]
  have rows: "rel_option row_rel
      (om_get (om_insert (?d, ?u) \<lparr> ur_acceptance_sequence = next_sequence m ?d,
          ur_encoded_record = record \<rparr> (updates t)) (x, y))
      (om_get (model_updates (accepted_model m update f)) (x, y))" for x y
    using old(4) [of x y] assms(3) by (simp add: accepted_model_get row_rel_def)
  have peers: "om_contains ps (x, p) \<longleftrightarrow> p \<in> set (peers_of (accepted_model m update f) x)" for x p
    using assms(6) old(6) [of x p] by (auto simp add: accepted_model_get peers_extend_set)
  have ranges: "om_get rt (x, y, p) = Option.bind (om_get (model_updates (accepted_model m update f)) (x, y))
      (\<lambda>acc. range_of (acc_update acc) p)" for x y p
    using assms(8) old(7) [of x y p] by (simp add: accepted_model_get)
  have seqs: "om_get (om_insert ?d f (document_acceptance_sequences t)) x
      = om_get (next_sequences (accepted_model m update f)) x" for x
    using old(5) [of x] by (simp add: accepted_model_def)
  show ?thesis
    unfolding update_refines_def using rows peers ranges seqs assms(5,7) old(1) by simp
qed

lemma next_sequence_refines:
  "update_refines t m \<Longrightarrow>
    (case om_get (document_acceptance_sequences t) d of None \<Rightarrow> FIRST | Some s \<Rightarrow> s) = next_sequence m d"
  by (simp add: update_refinesD(5) next_sequence_def)

lemma store_accept_simulated:
  assumes "control_ok t" "update_refines t m" "model_ok m"
    and "decode_update_record record = Inr update"
    and "authorize sha t (iu_document_id update) c a Update"
  shows "\<exists>t'. store_accept sha t c a update record
      = Inr (store_accept_of (fst (model_accept m update)), t')
    \<and> update_refines t' (snd (model_accept m update)) \<and> same_control t t'
    \<and> (fst (model_accept m update) \<noteq> Inserted \<longrightarrow> t' = t)"
proof -
  let ?d = "iu_document_id update" and ?u = "iu_update_id update"
  have doc: "om_contains (documents t) ?d"
    using authorize_active(3) [OF assms(1,5)] by (auto simp add: om_contains_def)
  have refl: "same_control t t" by (simp add: same_control_def)
  show ?thesis
  proof (cases "om_get (updates t) (?d, ?u)")
    case (Some row)
    obtain acc where acc: "om_get (model_updates m) (?d, ?u) = Some acc" "row_rel row acc"
      using update_refines_row [OF assms(2) Some] .
    have "ur_encoded_record row = record \<longleftrightarrow> acc_update acc = update"
      using acc(2) decoded_same [OF _ assms(4)] by (simp add: row_rel_def)
    then show ?thesis
      using Some acc(1) assms(2,5) refl by (simp add: store_accept_def model_accept_cases Let_def)
  next
    case None
    then have fresh: "om_get (model_updates m) (?d, ?u) = None"
      using update_refines_None [OF assms(2)] by blast
    note next_seq = next_sequence_refines [OF assms(2), of ?d]
    show ?thesis
    proof (cases "checked_next (next_sequence m ?d)")
      case exhausted: None
      then show ?thesis
        using None fresh assms(2,5) next_seq refl
        by (simp add: store_accept_def model_accept_cases Let_def)
    next
      case (Some f)
      let ?fits = "length (peers_of m ?d) + additional_peers m update \<le> MAX_LORO_PEERS"
      obtain ps where ps: "insert_document_loro_peers update t
          = Inr (?fits, t\<lparr> document_loro_peers := ps \<rparr>)"
        "?fits \<longrightarrow> om_invar ps \<and> (\<forall>k. om_contains ps k \<longleftrightarrow> om_contains (document_loro_peers t) k
          \<or> (\<exists>r \<in> set (iu_public_loro_ranges update). k = (?d, lr_peer_id r)))"
        using insert_document_peers_ok [OF assms(2,3) doc decoded_distinct(1) [OF assms(4)]] by blast
      show ?thesis
      proof (cases ?fits)
        case False
        then show ?thesis
          using None fresh Some assms(2,5) next_seq refl ps(1)
          by (simp add: store_accept_def model_accept_cases Let_def)
      next
        case True
        obtain rt where rt: "insert_update update record (next_sequence m ?d) f
            (t\<lparr> document_loro_peers := ps \<rparr>) = Inr (t\<lparr> document_loro_peers := ps,
              document_acceptance_sequences := om_insert ?d f (document_acceptance_sequences t),
              updates := om_insert (?d, ?u) \<lparr> ur_acceptance_sequence = next_sequence m ?d,
                ur_encoded_record = record \<rparr> (updates t), update_loro_ranges := rt \<rparr>)"
          "om_invar rt" "\<forall>x y p. om_get rt (x, y, p) = (if (x, y) = (?d, ?u) then range_of update p
            else om_get (update_loro_ranges t) (x, y, p))"
          using insert_update_ok [OF assms(2,3,4) doc fresh] by blast
        have "model_accept m update = (Inserted, accepted_model m update f)"
          using fresh Some True by (simp add: model_accept_cases not_less)
        moreover have "update_refines (t\<lparr> document_loro_peers := ps,
              document_acceptance_sequences := om_insert ?d f (document_acceptance_sequences t),
              updates := om_insert (?d, ?u) \<lparr> ur_acceptance_sequence = next_sequence m ?d,
                ur_encoded_record = record \<rparr> (updates t), update_loro_ranges := rt \<rparr>)
            (accepted_model m update f)"
          using True ps(2) by (intro accepted_refines [OF assms(2,3,4) fresh _ _ rt(2,3)]) auto
        ultimately show ?thesis
          using None Some True assms(5) next_seq ps(1) rt(1)
          by (auto simp add: store_accept_def Let_def same_control_def)
      qed
    qed
  qed
qed

end
