(* ===== verification/Store_Selection.thy ===== *)
theory Store_Selection
  imports Store_Acceptance
begin

text \<open>
  Page selection: enumeration and vector-backfill pages are the consecutive pieces of the
  acceptance window of the model, no error occurs in a good state, and every page makes progress
  when the byte limit admits one record.
\<close>

section \<open>Rows by acceptance sequence\<close>

lemma document_updates_iff:
  assumes "update_refines t m" "model_ok m"
  shows "(q, u, rec) \<in> set (document_updates t d) \<longleftrightarrow>
    (\<exists>update. om_get (model_updates m) (d, u) = Some \<lparr> acc_sequence = q, acc_update = update \<rparr>
      \<and> decode_update_record rec = Inr update)"
proof -
  have "(q, u, rec) \<in> set (document_updates t d) \<longleftrightarrow>
      ((d, u), \<lparr> ur_acceptance_sequence = q, ur_encoded_record = rec \<rparr>) \<in> set (updates t)"
    (is "?a \<longleftrightarrow> ?b")
  proof
    assume ?a
    then obtain x row where "((x, u), row) \<in> set (om_range (\<lambda>(y, _). y = d) (updates t))"
      "q = ur_acceptance_sequence row" "rec = ur_encoded_record row"
      by (auto simp add: document_updates_def)
    then show ?b by (cases row) auto
  next
    assume ?b
    then have "((d, u), \<lparr> ur_acceptance_sequence = q, ur_encoded_record = rec \<rparr>)
        \<in> set (om_range (\<lambda>(y, _). y = d) (updates t))" by simp
    from imageI [OF this, of "\<lambda>((_, update_id), row). (ur_acceptance_sequence row, update_id,
        ur_encoded_record row)"] show ?a
      by (simp add: document_updates_def)
  qed
  also have "\<dots> \<longleftrightarrow> om_get (updates t) (d, u) = Some \<lparr> ur_acceptance_sequence = q, ur_encoded_record = rec \<rparr>"
    by (rule om.entries_get [OF update_refinesD(1) [OF assms(1)]])
  also have "\<dots> \<longleftrightarrow> (\<exists>update. om_get (model_updates m) (d, u) = Some \<lparr> acc_sequence = q, acc_update = update \<rparr>
      \<and> decode_update_record rec = Inr update)"
    (is "?l \<longleftrightarrow> ?r")
  proof
    assume ?l
    then obtain acc where "om_get (model_updates m) (d, u) = Some acc"
      "row_rel \<lparr> ur_acceptance_sequence = q, ur_encoded_record = rec \<rparr> acc"
      using update_refines_row [OF assms(1)] by blast
    then show ?r by (cases acc) (auto simp add: row_rel_def)
  next
    assume ?r
    then obtain update where u: "om_get (model_updates m) (d, u) = Some \<lparr> acc_sequence = q, acc_update = update \<rparr>"
      "decode_update_record rec = Inr update" by blast
    then have "om_get (updates t) (d, u) \<noteq> None" using update_refines_None [OF assms(1), of d u] by simp
    then obtain row where row: "om_get (updates t) (d, u) = Some row" by blast
    then have "row_rel row \<lparr> acc_sequence = q, acc_update = update \<rparr>"
      using update_refines_row [OF assms(1) row] u(1) by fastforce
    then have "ur_acceptance_sequence row = q" "ur_encoded_record row = rec"
      using decoded_same [OF _ u(2)] by (auto simp add: row_rel_def)
    with row show ?l by (cases row) simp
  qed
  finally show ?thesis .
qed

lemma update_position:
  assumes "model_ok m" "om_get (model_updates m) (d, u) = Some acc"
  shows "1 \<le> acc_sequence acc" "acc_sequence acc < next_sequence m d"
    "accepted_at m d (acc_sequence acc) = Some (acc_update acc)"
proof -
  have o: "om_get (acceptance_order m) (d, acc_sequence acc) = Some u"
    using model_okD(2) [OF assms(1)] assms(2) by (simp add: updates_indexed_def)
  then show "1 \<le> acc_sequence acc" "acc_sequence acc < next_sequence m d"
    using model_okD(4) [OF assms(1)] unfolding positions_contiguous_def by (metis option.distinct(1))+
  show "accepted_at m d (acc_sequence acc) = Some (acc_update acc)"
    using o assms(2) by (simp add: accepted_at_def)
qed

text \<open>The row at a position: exactly the positions below the next sequence have one.\<close>

lemma row_at:
  assumes "update_refines t m" "model_ok m" "(q, u, rec) \<in> set (document_updates t d)"
  shows "1 \<le> q" "q < next_sequence m d"
    "\<exists>update. accepted_at m d q = Some update \<and> iu_update_id update = u
      \<and> iu_document_id update = d \<and> decode_update_record rec = Inr update"
proof -
  obtain update where u: "om_get (model_updates m) (d, u) = Some \<lparr> acc_sequence = q, acc_update = update \<rparr>"
    "decode_update_record rec = Inr update"
    using document_updates_iff [OF assms(1,2)] assms(3) by blast
  note pos = update_position [OF assms(2) u(1)]
  show "1 \<le> q" "q < next_sequence m d" using pos(1,2) by simp_all
  have "iu_document_id update = d \<and> iu_update_id update = u"
    using model_okD(2) [OF assms(2)] u(1) unfolding updates_indexed_def by fastforce
  with pos(3) u(2) show "\<exists>update. accepted_at m d q = Some update \<and> iu_update_id update = u
      \<and> iu_document_id update = d \<and> decode_update_record rec = Inr update" by auto
qed

lemma row_exists:
  assumes "update_refines t m" "model_ok m" "1 \<le> q" "q < next_sequence m d"
  shows "\<exists>u rec. (q, u, rec) \<in> set (document_updates t d)"
proof -
  obtain update where u: "om_get (model_updates m) (d, iu_update_id update)
      = Some \<lparr> acc_sequence = q, acc_update = update \<rparr>"
    using accepted_at_known [OF assms(2-4)] by blast
  then have "om_get (updates t) (d, iu_update_id update) \<noteq> None"
    using update_refines_None [OF assms(1), of d "iu_update_id update"] by simp
  then obtain row where row: "om_get (updates t) (d, iu_update_id update) = Some row" by blast
  then have "row_rel row \<lparr> acc_sequence = q, acc_update = update \<rparr>"
    using update_refines_row [OF assms(1) row] u by fastforce
  then have "(q, iu_update_id update, ur_encoded_record row) \<in> set (document_updates t d)"
    using u document_updates_iff [OF assms(1,2)] by (auto simp add: row_rel_def)
  then show ?thesis by blast
qed

lemma find_Some_in: "List.find P xs = Some x \<Longrightarrow> P x \<and> x \<in> set xs"
  by (induction xs) (auto split: if_splits)

lemma select_update_at_ok:
  assumes "update_refines t m" "model_ok m" "1 \<le> q" "q < next_sequence m d"
  obtains update rec where "select_update_at t d q = Some (iu_update_id update, rec)"
    "accepted_at m d q = Some update" "iu_document_id update = d"
    "decode_update_record rec = Inr update"
proof -
  obtain u rec where "(q, u, rec) \<in> set (document_updates t d)"
    using row_exists [OF assms] by blast
  then have "List.find (\<lambda>(s, _). s = q) (document_updates t d) \<noteq> None"
    by (auto simp add: find_None_iff)
  then obtain s v r where f: "List.find (\<lambda>(s, _). s = q) (document_updates t d) = Some (s, v, r)"
    by auto
  then have "s = q" "(s, v, r) \<in> set (document_updates t d)"
    using find_Some_in by fastforce+
  then show thesis
    using row_at(3) [OF assms(1,2), of q v r d] f that by (auto simp add: select_update_at_def)
qed

lemma select_update_at_None:
  assumes "update_refines t m" "model_ok m" "select_update_at t d q \<noteq> None"
  shows "1 \<le> q \<and> q < next_sequence m d"
proof -
  obtain s v r where "List.find (\<lambda>(s, _). s = q) (document_updates t d) = Some (s, v, r)"
    using assms(3) by (auto simp add: select_update_at_def)
  then have "(q, v, r) \<in> set (document_updates t d)" using find_Some_in by fastforce
  then show ?thesis using row_at(1,2) [OF assms(1,2)] by blast
qed

lemma high_water_ok:
  assumes "update_refines t m" "model_ok m"
  shows "high_water_sequence_in t d =
    (if next_sequence m d = 1 then None else Some (next_sequence m d - 1))"
proof -
  let ?qs = "map fst (document_updates t d)" and ?n = "next_sequence m d"
  have set_qs: "set ?qs = {q. 1 \<le> q \<and> q < ?n}"
  proof (intro subset_antisym subsetI)
    fix q
    assume "q \<in> set ?qs"
    then obtain u r where "(q, u, r) \<in> set (document_updates t d)" by auto
    then show "q \<in> {q. 1 \<le> q \<and> q < ?n}" using row_at(1,2) [OF assms] by blast
  next
    fix q
    assume "q \<in> {q. 1 \<le> q \<and> q < ?n}"
    then obtain u r where "(q, u, r) \<in> set (document_updates t d)"
      using row_exists [OF assms, of q d] by blast
    then show "q \<in> set ?qs" by force
  qed
  have pos: "1 \<le> ?n" using model_okD(4) [OF assms(2)] by (simp add: positions_contiguous_def)
  show ?thesis
  proof (cases ?qs)
    case Nil
    have "?n = 1"
    proof (rule ccontr)
      assume "?n \<noteq> 1"
      with pos have "(1 :: u64) \<in> {q. 1 \<le> q \<and> q < ?n}" by simp
      with set_qs Nil show False by (metis empty_iff list.set(1))
    qed
    with Nil show ?thesis by (simp add: high_water_sequence_in_def)
  next
    case (Cons s ss)
    then have "s \<in> {q. 1 \<le> q \<and> q < ?n}" using set_qs by (metis list.set_intros(1))
    then have gt: "1 < ?n" by auto
    have un: "unat (?n - 1) = unat ?n - 1" using pos by (simp add: unat_sub)
    have "Max (set ?qs) = ?n - 1"
    proof (rule Max_eqI)
      show "finite (set ?qs)" by simp
      show "q \<le> ?n - 1" if "q \<in> set ?qs" for q
        using that un unfolding set_qs by (auto simp add: word_le_nat_alt word_less_nat_alt)
      show "?n - 1 \<in> set ?qs"
        using gt un unfolding set_qs by (simp add: word_le_nat_alt word_less_nat_alt)
    qed
    then show ?thesis
      using Cons gt Max.set_eq_fold [of s ss] by (simp add: high_water_sequence_in_def)
  qed
qed


section \<open>Enumeration pages\<close>

definition window_metadata ::
  "update_model \<Rightarrow> document_id \<Rightarrow> acceptance_sequence \<Rightarrow> acceptance_sequence
    \<Rightarrow> update_metadata list" where
  "window_metadata m d a b = map (\<lambda>q. model_metadata (the (accepted_at m d q))) (positions a b)"

definition page_bytes :: "update_metadata list \<Rightarrow> nat" where
  "page_bytes ms = sum_list (map metadata_encoded_length ms)"

lemma window_metadata_enumerate:
  "model_ok m \<Longrightarrow> b < next_sequence m d \<Longrightarrow>
    map snd (model_enumerate m d (Some a) b) = window_metadata m d a b"
  by (simp add: model_enumerate_def acceptance_window_positions window_metadata_def comp_def)

lemma length_window_metadata: "length (window_metadata m d a b) = unat b - unat a"
  by (simp add: window_metadata_def length_positions)

lemma decoded_metadata:
  assumes "decode_update_record rec = Inr update"
  shows "store_metadata update = Inr (model_metadata update)"
    "metadata_encoded_length (model_metadata update) \<le> MAX_ENUMERABLE_METADATA_LENGTH"
proof -
  have "record_length update \<le> MAX_UPDATE_RECORD_LENGTH"
    using assms by (simp add: decode_update_record_iff encode_update_record_iff)
  then show "store_metadata update = Inr (model_metadata update)"
    "metadata_encoded_length (model_metadata update) \<le> MAX_ENUMERABLE_METADATA_LENGTH"
    by (simp_all add: store_metadata_def model_metadata_def payload_length_u32_def record_length_def
        metadata_encoded_length_def update_length_defs)
qed

text \<open>The row at ordinal \<open>p\<close> of the window \<open>a..b\<close>.\<close>

lemma enumerate_row:
  assumes "update_refines t m" "model_ok m" "b < next_sequence m d"
    and "unat ordinal < unat b - unat a"
  obtains update rec where
    "Option.bind (checked_add a ordinal) (\<lambda>s. checked_add s 1) = Some (a + ordinal + 1)"
    "select_update_at t d (a + ordinal + 1) = Some (iu_update_id update, rec)"
    "iu_document_id update = d" "decode_update_record rec = Inr update"
    "window_metadata m d a b ! unat ordinal = model_metadata update"
proof -
  have small: "unat a + unat ordinal + 1 \<le> unat b" using assms(4) by simp
  moreover have lt: "unat b < 2 ^ 64" using unsigned_less [of b, where 'a = nat] by simp
  ultimately have add: "checked_add a ordinal = Some (a + ordinal)"
    by (simp add: checked_add_Some_unat)
  then have un: "unat (a + ordinal) = unat a + unat ordinal" by (rule checked_add_unat)
  then have add1: "checked_add (a + ordinal) 1 = Some (a + ordinal + 1)"
    using small lt by (simp add: checked_add_Some_unat)
  then have un1: "unat (a + ordinal + 1) = unat a + unat ordinal + 1"
    using un checked_add_unat [OF add1] by simp
  have "a + ordinal + 1 \<le> b" using small un1 by (simp add: word_le_nat_alt)
  then have "a + ordinal + 1 < next_sequence m d" using assms(3) by (rule le_less_trans)
  moreover have "1 \<le> a + ordinal + 1" using un1 by (simp add: word_le_nat_alt)
  ultimately obtain update rec where u:
    "select_update_at t d (a + ordinal + 1) = Some (iu_update_id update, rec)"
    "accepted_at m d (a + ordinal + 1) = Some update" "iu_document_id update = d"
    "decode_update_record rec = Inr update"
    using select_update_at_ok [OF assms(1,2)] by metis
  have "positions a b ! unat ordinal = a + ordinal + 1"
    using unat_nth_positions [OF assms(4)] un1 by (simp add: word_unat_eq_iff)
  then have "window_metadata m d a b ! unat ordinal = model_metadata update"
    using assms(4) u(2) by (simp add: window_metadata_def length_positions)
  with add add1 u that show thesis by simp
qed

lemma enumerate_loop_ok:
  assumes "update_refines t m" "model_ok m" "b < next_sequence m d"
    and "unat ordinal + n \<le> unat b - unat a" "used \<le> limit"
  shows "\<exists>k ordinal'. enumerate_loop n t d a limit ordinal used acc =
      Inr (ordinal', acc @ take k (drop (unat ordinal) (window_metadata m d a b)))
    \<and> k \<le> n \<and> unat ordinal' = unat ordinal + k
    \<and> used + page_bytes (take k (drop (unat ordinal) (window_metadata m d a b))) \<le> limit
    \<and> (k < n \<longrightarrow> limit < used
        + page_bytes (take (Suc k) (drop (unat ordinal) (window_metadata m d a b))))"
  using assms(4,5)
proof (induction n arbitrary: ordinal used acc)
  case 0
  then show ?case by (intro exI [of _ 0] exI [of _ ordinal]) (simp add: page_bytes_def)
next
  case (Suc n)
  let ?w = "window_metadata m d a b"
  have lt: "unat ordinal < unat b - unat a" using Suc.prems(1) by simp
  obtain update rec where r:
    "Option.bind (checked_add a ordinal) (\<lambda>s. checked_add s 1) = Some (a + ordinal + 1)"
    "select_update_at t d (a + ordinal + 1) = Some (iu_update_id update, rec)"
    "iu_document_id update = d" "decode_update_record rec = Inr update"
    "?w ! unat ordinal = model_metadata update"
    using enumerate_row [OF assms(1-3) lt] .
  have w: "drop (unat ordinal) ?w = model_metadata update # drop (Suc (unat ordinal)) ?w"
    using Cons_nth_drop_Suc [of "unat ordinal" ?w] lt r(5) by (simp add: length_window_metadata)
  let ?len = "metadata_encoded_length (model_metadata update)"
  show ?case
  proof (cases "used + ?len \<le> limit")
    case False
    then have "enumerate_loop (Suc n) t d a limit ordinal used acc = Inr (ordinal, acc)"
      using r decoded_metadata(1) [OF r(4)] by (simp add: decode_stored_record_def)
    then show ?thesis
      using False Suc.prems(2) w by (intro exI [of _ 0] exI [of _ ordinal]) (simp add: page_bytes_def)
  next
    case True
    have "unat b < 2 ^ 64" using unsigned_less [of b, where 'a = nat] by simp
    then have next_ordinal: "checked_add ordinal 1 = Some (ordinal + 1)"
      using lt by (simp add: checked_add_Some_unat)
    then have un: "unat (ordinal + 1) = Suc (unat ordinal)" using checked_add_unat by fastforce
    have step: "enumerate_loop (Suc n) t d a limit ordinal used acc
        = enumerate_loop n t d a limit (ordinal + 1) (used + ?len) (acc @ [model_metadata update])"
      using r True decoded_metadata(1) [OF r(4)] next_ordinal by (simp add: decode_stored_record_def)
    have "unat (ordinal + 1) + n \<le> unat b - unat a" using Suc.prems(1) un by simp
    from Suc.IH [OF this True, of "acc @ [model_metadata update]"] obtain k ordinal' where k:
      "enumerate_loop n t d a limit (ordinal + 1) (used + ?len) (acc @ [model_metadata update])
        = Inr (ordinal', acc @ [model_metadata update] @ take k (drop (Suc (unat ordinal)) ?w))"
      "k \<le> n" "unat ordinal' = Suc (unat ordinal) + k"
      "used + ?len + page_bytes (take k (drop (Suc (unat ordinal)) ?w)) \<le> limit"
      "k < n \<longrightarrow> limit < used + ?len + page_bytes (take (Suc k) (drop (Suc (unat ordinal)) ?w))"
      unfolding un by auto
    show ?thesis
      using k w step
      by (intro exI [of _ "Suc k"] exI [of _ ordinal'])
        (simp add: page_bytes_def add.assoc del: enumerate_loop.simps)
  qed
qed

text \<open>One page: the next at most 64 records of the window, at least one when one fits.\<close>

lemma enumerate_in_ok:
  assumes "update_refines t m" "model_ok m" "b < next_sequence m d" "a < b" "ordinal < b - a"
  shows "\<exists>k page. enumerate_in t d a b ordinal limit = Inr page
    \<and> sp_updates page = take k (drop (unat ordinal) (window_metadata m d a b))
    \<and> unat (sp_next_ordinal page) = unat ordinal + k
    \<and> (sp_has_more page \<longleftrightarrow> unat ordinal + k < unat b - unat a)
    \<and> k \<le> 64 \<and> unat ordinal + k \<le> unat b - unat a
    \<and> page_bytes (sp_updates page) \<le> limit
    \<and> (MAX_ENUMERABLE_METADATA_LENGTH \<le> limit \<longrightarrow> 0 < k)"
proof -
  let ?w = "window_metadata m d a b"
  have len: "unat (b - a) = unat b - unat a" using assms(4) by (simp add: unat_sub)
  have lt: "unat ordinal < unat b - unat a" using assms(5) len by (simp add: word_less_nat_alt)
  have lt64: "unat b < 2 ^ 64" using unsigned_less [of b, where 'a = nat] by simp
  define scan_end where "scan_end = min (saturating_add ordinal MAX_ENUMERATION_SCAN_RECORDS) (b - a)"
  have scan: "unat scan_end \<le> unat b - unat a" "unat scan_end - unat ordinal \<le> 64"
    "unat ordinal < unat scan_end"
  proof -
    have sat: "unat (saturating_add ordinal 64) \<le> unat ordinal + 64"
      "unat ordinal < unat (saturating_add ordinal 64)"
    proof -
      have "unat (saturating_add ordinal 64) \<le> unat ordinal + 64
          \<and> unat ordinal < unat (saturating_add ordinal 64)"
      proof (cases "checked_add ordinal 64")
        case None
        then have "2 ^ 64 \<le> unat ordinal + 64"
          using checked_add_Some_unat [of ordinal 64] by (auto simp add: not_less [symmetric])
        moreover have "unat (- 1 :: u64) = 2 ^ 64 - 1" by (simp add: unsigned_minus_1_eq_mask mask_eq_exp_minus_1)
        ultimately show ?thesis using None lt lt64 by (simp add: saturating_add_def)
      next
        case (Some c)
        then show ?thesis using checked_add_unat [OF Some] by (simp add: saturating_add_def)
      qed
      then show "unat (saturating_add ordinal 64) \<le> unat ordinal + 64"
        "unat ordinal < unat (saturating_add ordinal 64)" by blast+
    qed
    then show "unat scan_end \<le> unat b - unat a" "unat scan_end - unat ordinal \<le> 64"
      "unat ordinal < unat scan_end"
      using len lt by (auto simp add: scan_end_def min_def word_le_nat_alt MAX_ENUMERATION_SCAN_RECORDS_def)
  qed
  let ?n = "unat scan_end - unat ordinal"
  have "unat ordinal + ?n \<le> unat b - unat a" using scan by simp
  from enumerate_loop_ok [OF assms(1-3) this, of 0 limit "[]"] obtain k ordinal' where k:
    "enumerate_loop ?n t d a limit ordinal 0 [] = Inr (ordinal', take k (drop (unat ordinal) ?w))"
    "k \<le> ?n" "unat ordinal' = unat ordinal + k"
    "page_bytes (take k (drop (unat ordinal) ?w)) \<le> limit"
    "k < ?n \<longrightarrow> limit < page_bytes (take (Suc k) (drop (unat ordinal) ?w))" by auto
  have page: "enumerate_in t d a b ordinal limit = Inr \<lparr> sp_has_more = (ordinal' < b - a),
      sp_next_ordinal = ordinal', sp_updates = take k (drop (unat ordinal) ?w) \<rparr>"
    using k(1) assms(4,5) by (simp add: enumerate_in_def Let_def scan_end_def [symmetric] not_le)
  have "0 < k" if "MAX_ENUMERABLE_METADATA_LENGTH \<le> limit"
  proof (rule ccontr)
    assume "\<not> 0 < k"
    then have "limit < page_bytes (take 1 (drop (unat ordinal) ?w))" using k(5) scan(3) by simp
    moreover obtain update rec where "decode_update_record rec = Inr update"
      "?w ! unat ordinal = model_metadata update"
      using enumerate_row [OF assms(1-3) lt] .
    then have "page_bytes (take 1 (drop (unat ordinal) ?w)) \<le> MAX_ENUMERABLE_METADATA_LENGTH"
      using decoded_metadata(2) lt
      by (simp add: page_bytes_def take_Suc hd_drop_conv_nth length_window_metadata)
    ultimately show False using that by simp
  qed
  then show ?thesis
    using page k(2-4) scan len by (auto simp add: word_less_nat_alt)
qed


section \<open>Vector-backfill pages\<close>

lemma rows_distinct:
  assumes "update_refines t m" "model_ok m"
  shows "distinct (map fst (document_updates t d))"
proof -
  let ?f = "\<lambda>((_, update_id), row). (ur_acceptance_sequence row, update_id, ur_encoded_record row)"
  let ?es = "om_range (\<lambda>(x, _). x = d) (updates t)"
  have inv: "om_invar (updates t)" by (rule update_refinesD(1) [OF assms(1)])
  then have "om_invar ?es" by simp
  then have "distinct (map fst ?es)" by (rule om.entries_distinct)
  then have "distinct ?es" by (simp add: distinct_map)
  moreover have "inj_on ?f (set ?es)"
    by (intro inj_onI) (auto split: prod.splits intro: update_row.equality)
  ultimately have dist: "distinct (document_updates t d)"
    unfolding document_updates_def by (simp add: distinct_map)
  have "inj_on fst (set (document_updates t d))"
  proof (rule inj_onI)
    fix x y
    assume xy: "x \<in> set (document_updates t d)" "y \<in> set (document_updates t d)" "fst x = fst y"
    obtain q u r u' r' where e: "x = (q, u, r)" "y = (q, u', r')"
      using xy(3) by (cases x, cases y) auto
    then have in_rows: "(q, u, r) \<in> set (document_updates t d)" "(q, u', r') \<in> set (document_updates t d)"
      using xy(1,2) by simp_all
    obtain update update' where "accepted_at m d q = Some update" "iu_update_id update = u"
      "decode_update_record r = Inr update" "accepted_at m d q = Some update'"
      "iu_update_id update' = u'" "decode_update_record r' = Inr update'"
      using row_at(3) [OF assms in_rows(1)] row_at(3) [OF assms in_rows(2)] by blast
    then show "x = y" using decoded_same [of r update r' update'] by (simp add: e)
  qed
  with dist show ?thesis by (simp add: distinct_map)
qed

lemma vector_rows_sequences:
  assumes "update_refines t m" "model_ok m" "b < next_sequence m d"
  shows "map fst (vector_rows t d a b) = positions a b"
proof (rule strict_sorted_equal)
  let ?rows = "filter (\<lambda>(s, _). a < s \<and> s \<le> b) (document_updates t d)"
  have "distinct (map fst ?rows)"
    using rows_distinct [OF assms(1,2)] by (simp add: distinct_map_filter)
  then have "distinct (map fst (vector_rows t d a b))"
    using distinct_map [of fst ?rows] distinct_map [of fst "sort_key fst ?rows"]
    by (simp add: vector_rows_def)
  moreover have "sorted (map fst (vector_rows t d a b))" by (simp add: vector_rows_def)
  ultimately show "sorted_wrt (<) (map fst (vector_rows t d a b))" by (simp add: strict_sorted_iff)
  show "set (map fst (vector_rows t d a b)) = set (positions a b)"
  proof (intro subset_antisym subsetI)
    fix q
    assume "q \<in> set (map fst (vector_rows t d a b))"
    then show "q \<in> set (positions a b)" by (auto simp add: vector_rows_def set_positions)
  next
    fix q
    assume "q \<in> set (positions a b)"
    then have q: "a < q" "q \<le> b" by (simp_all add: set_positions)
    then have "1 \<le> q" "q < next_sequence m d"
      using assms(3) by (auto simp add: word_le_nat_alt word_less_nat_alt)
    then obtain u r where "(q, u, r) \<in> set (document_updates t d)"
      using row_exists [OF assms(1,2)] by blast
    with q have "(q, u, r) \<in> set (vector_rows t d a b)" by (simp add: vector_rows_def)
    then show "q \<in> set (map fst (vector_rows t d a b))" by force
  qed
qed (rule sorted_positions)

definition good_row ::
  "update_model \<Rightarrow> document_id \<Rightarrow> acceptance_sequence \<times> update_id \<times> bytes \<Rightarrow> bool" where
  "good_row m d = (\<lambda>(q, _, rec). \<exists>update. accepted_at m d q = Some update
    \<and> iu_document_id update = d \<and> decode_update_record rec = Inr update)"

definition at_metadata :: "update_model \<Rightarrow> document_id \<Rightarrow> acceptance_sequence \<Rightarrow> update_metadata" where
  "at_metadata m d q = model_metadata (the (accepted_at m d q))"

definition beyond_at :: "update_model \<Rightarrow> document_id \<Rightarrow> oplog_version \<Rightarrow> acceptance_sequence \<Rightarrow> bool" where
  "beyond_at m d version q \<longleftrightarrow> beyond_version version (um_public_loro_ranges (at_metadata m d q))"

lemma vector_loop_ok:
  assumes "list_all (good_row m d) rows" "scanned \<le> 64" "used \<le> limit"
  shows "\<exists>k. vector_loop d version limit rows used acc last_seen scanned = Inr
      \<lparr> sv_has_more = (k < length rows),
        sv_last_examined_sequence = (if k = 0 then last_seen else Some (fst (rows ! (k - 1)))),
        sv_updates = acc @ map (at_metadata m d) (filter (beyond_at m d version) (map fst (take k rows))) \<rparr>
    \<and> k \<le> length rows \<and> scanned + k \<le> 64
    \<and> (k < length rows \<longrightarrow> scanned + k = 64 \<or> limit < used
        + page_bytes (map (at_metadata m d) (filter (beyond_at m d version) (map fst (take (Suc k) rows)))))"
  using assms
proof (induction rows arbitrary: used acc last_seen scanned)
  case Nil
  then show ?case by (intro exI [of _ 0]) simp
next
  case (Cons row rows)
  obtain q u rec where row: "row = (q, u, rec)" by (cases row)
  obtain update where up: "accepted_at m d q = Some update" "iu_document_id update = d"
    "decode_update_record rec = Inr update"
    using Cons.prems(1) row by (auto simp add: good_row_def)
  have ranges: "um_public_loro_ranges (at_metadata m d q) = iu_public_loro_ranges update"
    using up(1) by (simp add: at_metadata_def model_metadata_def)
  have good: "list_all (good_row m d) rows" using Cons.prems(1) by simp
  show ?case
  proof (cases "scanned = 64")
    case True
    then show ?thesis
      by (intro exI [of _ 0]) (simp add: row MAX_VECTOR_SCAN_RECORDS_def)
  next
    case False
    then have room: "Suc scanned \<le> 64" using Cons.prems(2) by simp
    show ?thesis
    proof (cases "beyond_at m d version q")
      case skip: False
      obtain k where k: "vector_loop d version limit rows used acc (Some q) (Suc scanned) = Inr
          \<lparr> sv_has_more = (k < length rows),
            sv_last_examined_sequence = (if k = 0 then Some q else Some (fst (rows ! (k - 1)))),
            sv_updates = acc @ map (at_metadata m d) (filter (beyond_at m d version) (map fst (take k rows))) \<rparr>"
        "k \<le> length rows" "Suc scanned + k \<le> 64"
        "k < length rows \<longrightarrow> Suc scanned + k = 64 \<or> limit < used
          + page_bytes (map (at_metadata m d) (filter (beyond_at m d version) (map fst (take (Suc k) rows))))"
        using Cons.IH [OF good room Cons.prems(3), of acc "Some q"] by blast
      have step: "vector_loop d version limit (row # rows) used acc last_seen scanned
          = vector_loop d version limit rows used acc (Some q) (Suc scanned)"
        using False skip up ranges
        by (simp add: row MAX_VECTOR_SCAN_RECORDS_def decode_stored_record_def beyond_at_def)
      show ?thesis unfolding step
        using k skip by (intro exI [of _ "Suc k"]) (auto simp add: row nth_Cons')
    next
      case sel: True
      let ?len = "metadata_encoded_length (at_metadata m d q)"
      have md: "store_metadata update = Inr (at_metadata m d q)"
        using up(1) decoded_metadata(1) [OF up(3)] by (simp add: at_metadata_def)
      show ?thesis
      proof (cases "used + ?len \<le> limit")
        case full: False
        have "vector_loop d version limit (row # rows) used acc last_seen scanned = Inr
            \<lparr> sv_has_more = True, sv_last_examined_sequence = last_seen, sv_updates = acc \<rparr>"
          using False sel full up ranges md
          by (simp add: row MAX_VECTOR_SCAN_RECORDS_def decode_stored_record_def beyond_at_def)
        then show ?thesis
          using full sel Cons.prems(2) by (intro exI [of _ 0]) (simp add: row page_bytes_def)
      next
        case fits: True
        obtain k where k: "vector_loop d version limit rows (used + ?len) (acc @ [at_metadata m d q])
            (Some q) (Suc scanned) = Inr
            \<lparr> sv_has_more = (k < length rows),
              sv_last_examined_sequence = (if k = 0 then Some q else Some (fst (rows ! (k - 1)))),
              sv_updates = (acc @ [at_metadata m d q])
                @ map (at_metadata m d) (filter (beyond_at m d version) (map fst (take k rows))) \<rparr>"
          "k \<le> length rows" "Suc scanned + k \<le> 64"
          "k < length rows \<longrightarrow> Suc scanned + k = 64 \<or> limit < used + ?len
            + page_bytes (map (at_metadata m d) (filter (beyond_at m d version) (map fst (take (Suc k) rows))))"
          using Cons.IH [OF good room fits, of "acc @ [at_metadata m d q]" "Some q"] by blast
        have step: "vector_loop d version limit (row # rows) used acc last_seen scanned
            = vector_loop d version limit rows (used + ?len) (acc @ [at_metadata m d q]) (Some q) (Suc scanned)"
          using False sel fits up ranges md
          by (simp add: row MAX_VECTOR_SCAN_RECORDS_def decode_stored_record_def beyond_at_def)
        show ?thesis unfolding step
          using k sel by (intro exI [of _ "Suc k"]) (auto simp add: row nth_Cons' page_bytes_def add.assoc)
      qed
    qed
  qed
qed


lemma vector_loop_start:
  assumes "list_all (good_row m d) rows"
  obtains k where "vector_loop d version limit rows 0 [] None 0 = Inr
      \<lparr> sv_has_more = (k < length rows),
        sv_last_examined_sequence = (if k = 0 then None else Some (fst (rows ! (k - 1)))),
        sv_updates = map (at_metadata m d) (filter (beyond_at m d version) (map fst (take k rows))) \<rparr>"
    "k \<le> length rows" "k \<le> 64"
    "k < length rows \<longrightarrow> k = 64 \<or> limit
      < page_bytes (map (at_metadata m d) (filter (beyond_at m d version) (map fst (take (Suc k) rows))))"
  using vector_loop_ok [OF assms, of 0 0 limit version "[]" None] that by auto

lemma vector_rows_good:
  assumes "update_refines t m" "model_ok m"
  shows "list_all (good_row m d) (vector_rows t d a b)"
  unfolding list_all_iff
proof
  fix row
  assume "row \<in> set (vector_rows t d a b)"
  then have row: "row \<in> set (document_updates t d)" by (auto simp add: vector_rows_def)
  obtain q u rec where e: "row = (q, u, rec)" by (cases row)
  with row show "good_row m d row"
    using row_at(3) [OF assms, of q u rec d] by (auto simp add: good_row_def)
qed

definition vector_selection ::
  "update_model \<Rightarrow> document_id \<Rightarrow> oplog_version \<Rightarrow> acceptance_sequence list \<Rightarrow> update_metadata list" where
  "vector_selection m d version qs = map (at_metadata m d) (filter (beyond_at m d version) qs)"

lemma vector_selection_model:
  assumes "model_ok m" "b < next_sequence m d"
  shows "map snd (model_vector_backfill m d version (Some a) b) = vector_selection m d version (positions a b)"
  unfolding model_vector_backfill_def acceptance_window_positions [OF assms] vector_selection_def
    beyond_at_def [abs_def] at_metadata_def [abs_def]
  by (simp add: filter_map comp_def)

text \<open>
  One page examines the next at most 64 positions, returns exactly those that go beyond the
  version, and advances when the byte limit admits one record.
\<close>

lemma vector_backfill_in_ok:
  assumes "update_refines t m" "model_ok m" "b < next_sequence m d" "a \<le> b" "b \<noteq> 0"
  shows "\<exists>k page. vector_backfill_in t d a b version limit = Inr page
    \<and> sv_updates page = vector_selection m d version (take k (positions a b))
    \<and> sv_last_examined_sequence page = (if k = 0 then None else Some (a + word_of_nat k))
    \<and> (sv_has_more page \<longleftrightarrow> k < unat b - unat a) \<and> k \<le> 64 \<and> k \<le> unat b - unat a
    \<and> (MAX_ENUMERABLE_METADATA_LENGTH \<le> limit \<longrightarrow> a < b \<longrightarrow> 0 < k)"
proof -
  let ?rows = "vector_rows t d a b" and ?qs = "positions a b"
  let ?page = "take (MAX_VECTOR_SCAN_RECORDS + 1) ?rows"
  have seqs: "map fst ?rows = ?qs" by (rule vector_rows_sequences [OF assms(1-3)])
  have len: "length ?rows = unat b - unat a"
    using arg_cong [OF seqs, of length] by (simp add: length_positions)
  have exists: "select_update_at t d q \<noteq> None" if "q \<noteq> 0" "q \<le> b" for q
  proof -
    have "1 \<le> q" using that(1) by (simp add: word_le_nat_alt unat_gt_0 Suc_le_eq)
    moreover have "q < next_sequence m d" using that(2) assms(3) by (rule le_less_trans)
    ultimately show ?thesis using select_update_at_ok [OF assms(1,2)] by (metis option.distinct(1))
  qed
  have "list_all (good_row m d) ?page"
    using vector_rows_good [OF assms(1,2)] by (auto simp add: list_all_iff dest: in_set_takeD)
  then obtain k where k:
    "vector_loop d version limit ?page 0 [] None 0 = Inr
      \<lparr> sv_has_more = (k < length ?page),
        sv_last_examined_sequence = (if k = 0 then None else Some (fst (?page ! (k - 1)))),
        sv_updates = map (at_metadata m d) (filter (beyond_at m d version) (map fst (take k ?page))) \<rparr>"
    "k \<le> length ?page" "k \<le> 64"
    "k < length ?page \<longrightarrow> k = 64 \<or> limit
      < page_bytes (map (at_metadata m d) (filter (beyond_at m d version) (map fst (take (Suc k) ?page))))"
    by (rule vector_loop_start)
  have page: "vector_backfill_in t d a b version limit = vector_loop d version limit ?page 0 [] None 0"
    using assms(4,5) exists [of a] exists [of b]
    by (cases "a = 0") (auto simp add: vector_backfill_in_def ORIGIN_def not_less)
  have more: "k < length ?page \<longleftrightarrow> k < unat b - unat a"
    using k(3) len by (auto simp add: MAX_VECTOR_SCAN_RECORDS_def)
  have upd: "map fst (take k ?page) = take k ?qs"
    using k(3) seqs by (simp add: take_map [symmetric] MAX_VECTOR_SCAN_RECORDS_def min_def)
  have last: "fst (?page ! (k - 1)) = a + word_of_nat k" if "k \<noteq> 0"
  proof -
    have lt: "k - 1 < length ?page" "k - 1 < unat b - unat a" using k(2) that len by auto
    then have "fst (?page ! (k - 1)) = ?qs ! (k - 1)"
      using seqs [symmetric] k(3) that by (simp add: MAX_VECTOR_SCAN_RECORDS_def)
    also have "\<dots> = a + 1 + word_of_nat (k - 1)" by (rule nth_positions [OF lt(2)])
    also have "\<dots> = a + word_of_nat (Suc (k - 1))" by simp
    finally show ?thesis using that by simp
  qed
  have "0 < k" if limit: "MAX_ENUMERABLE_METADATA_LENGTH \<le> limit" and ab: "a < b"
  proof (rule ccontr)
    assume zero: "\<not> 0 < k"
    have "0 < unat b - unat a" using ab by (simp add: word_less_nat_alt)
    then have "?page \<noteq> []" using more zero by auto
    then obtain q u rec rest where r: "?page = (q, u, rec) # rest" by (metis list.exhaust prod_cases3)
    have "good_row m d (q, u, rec)"
      using \<open>list_all (good_row m d) ?page\<close> unfolding r by simp
    then obtain update where "accepted_at m d q = Some update" "decode_update_record rec = Inr update"
      by (auto simp add: good_row_def)
    then have "metadata_encoded_length (at_metadata m d q) \<le> limit"
      using decoded_metadata(2) limit by (fastforce simp add: at_metadata_def)
    then have "page_bytes (map (at_metadata m d) (filter (beyond_at m d version)
        (map fst [(q, u, rec)]))) \<le> limit" by (simp add: page_bytes_def)
    moreover have "take (Suc k) ?page = [(q, u, rec)]" using zero unfolding r by simp
    moreover have "k < length ?page" using zero unfolding r by simp
    ultimately have "k = 64" using k(4) by (metis not_less)
    with zero show False by simp
  qed
  then show ?thesis
    using k page more upd last len by (auto simp add: vector_selection_def)
qed

end
