(* ===== verification/Store_History.thy ===== *)
theory Store_History
  imports Store_Selection Store_Properties
begin

text \<open>
  Histories of the whole store, control transactions and acceptances interleaved, and the
  properties of immutable updates over them.
\<close>

section \<open>Histories\<close>

inductive store_step :: "(bytes \<Rightarrow> key32) \<Rightarrow> tables \<Rightarrow> tables \<Rightarrow> bool" for sha where
  step_control: "control_step sha t t' \<Longrightarrow> store_step sha t t'"
| step_accept: "decode_update_record rec = Inr update \<Longrightarrow>
    store_accept sha t c a update rec = Inr (outcome, t') \<Longrightarrow> store_step sha t t'"

inductive store_history :: "(bytes \<Rightarrow> key32) \<Rightarrow> tables \<Rightarrow> tables \<Rightarrow> bool" for sha where
  store_history_start: "store_history sha t t"
| store_history_step: "store_history sha t t' \<Longrightarrow> store_step sha t' t'' \<Longrightarrow> store_history sha t t''"

text \<open>The model after a list of updates, each accepted or refused in turn.\<close>

definition model_after :: "immutable_update list \<Rightarrow> update_model" where
  "model_after us = fold (\<lambda>update m. snd (model_accept m update)) us empty_update_model"

definition canonical_update :: "immutable_update \<Rightarrow> bool" where
  "canonical_update update \<longleftrightarrow> public_ranges_ok (iu_public_loro_ranges update)"

lemma canonical_distinct:
  "canonical_update update \<Longrightarrow> distinct (map lr_peer_id (iu_public_loro_ranges update))"
  using strict_sorted_iff by (auto simp add: canonical_update_def public_ranges_ok_def)

lemma decoded_canonical: "decode_update_record rec = Inr update \<Longrightarrow> canonical_update update"
  by (simp add: decode_update_record_iff update_ok_def canonical_update_def)

lemma model_after_snoc: "model_after (us @ [u]) = snd (model_accept (model_after us) u)"
  by (simp add: model_after_def)

lemma model_after_ok: "list_all canonical_update us \<Longrightarrow> model_ok (model_after us)"
proof (induction us rule: rev_induct)
  case Nil
  show ?case by (simp add: model_after_def model_ok_empty)
next
  case (snoc u us)
  then have "model_ok (model_after us)" "canonical_update u" by simp_all
  then show ?case
    unfolding model_after_snoc by (intro model_accept_ok canonical_distinct)
qed

definition same_updates :: "tables \<Rightarrow> tables \<Rightarrow> bool" where
  "same_updates t t' \<longleftrightarrow> document_acceptance_sequences t' = document_acceptance_sequences t
    \<and> updates t' = updates t \<and> update_loro_ranges t' = update_loro_ranges t
    \<and> document_loro_peers t' = document_loro_peers t"

lemma effect_same_updates: "has_effect t e t' \<Longrightarrow> same_updates t t'"
  by (cases e)
    (auto simp add: same_updates_def create_effect_def grant_effect_def revoke_effect_def)

lemma same_updates_refines: "same_updates t t' \<Longrightarrow> update_refines t m \<Longrightarrow> update_refines t' m"
  by (simp add: same_updates_def update_refines_def)

text \<open>Every state of a history is good, and its update tables are the model after some updates.\<close>

lemma store_accept_denied:
  "\<not> authorize sha t (iu_document_id update) c a Update \<Longrightarrow>
    store_accept sha t c a update rec = Inr (StAcceptAuthorizationDenied, t)"
  by (simp add: store_accept_def)

lemma store_step_good:
  assumes "store_step sha t t'" "control_ok t" "update_refines t (model_after us)"
    and "list_all canonical_update us"
  shows "control_ok t' \<and> (\<exists>us'. list_all canonical_update us' \<and> update_refines t' (model_after us'))"
  using assms(1)
proof (cases rule: store_step.cases)
  case step_control
  then obtain e where e: "has_effect t e t'" using control_step_effect [OF assms(2)] by blast
  then have "update_refines t' (model_after us)"
    using effect_same_updates same_updates_refines assms(3) by blast
  with e assms(2,4) show ?thesis using effect_keeps_ok by blast
next
  case (step_accept rec update c a outcome)
  show ?thesis
  proof (cases "authorize sha t (iu_document_id update) c a Update")
    case False
    with step_accept(2) have "t' = t" by (simp add: store_accept_denied)
    with assms show ?thesis by blast
  next
    case True
    obtain t'' where t'': "store_accept sha t c a update rec
        = Inr (store_accept_of (fst (model_accept (model_after us) update)), t'')"
      "update_refines t'' (snd (model_accept (model_after us) update))" "same_control t t''"
      using store_accept_simulated [OF assms(2,3) model_after_ok [OF assms(4)] step_accept(1) True] by blast
    then have "t'' = t'" using step_accept(2) by simp
    with t'' have "update_refines t' (model_after (us @ [update]))" "control_ok t'"
      using same_control_ok [OF assms(2)] by (simp_all add: model_after_snoc)
    moreover have "list_all canonical_update (us @ [update])"
      using assms(4) decoded_canonical [OF step_accept(1)] by simp
    ultimately show ?thesis by blast
  qed
qed

lemma store_history_good:
  assumes "store_history sha empty_tables t"
  shows "control_ok t" "\<exists>us. list_all canonical_update us \<and> update_refines t (model_after us)"
proof -
  have "store_history sha t0 t \<Longrightarrow> t0 = empty_tables \<Longrightarrow>
      control_ok t \<and> (\<exists>us. list_all canonical_update us \<and> update_refines t (model_after us))" for t0
  proof (induction rule: store_history.induct)
    case (store_history_start t)
    have "update_refines empty_tables (model_after [])"
      by (simp add: model_after_def update_refines_empty)
    moreover have "list_all canonical_update []" by simp
    ultimately show ?case using store_history_start empty_control_ok by blast
  next
    case (store_history_step t t' t'')
    then obtain us where "control_ok t'" "list_all canonical_update us" "update_refines t' (model_after us)"
      by blast
    with store_history_step.hyps(2) show ?case by (intro store_step_good)
  qed
  with assms show "control_ok t" "\<exists>us. list_all canonical_update us \<and> update_refines t (model_after us)"
    by blast+
qed

section \<open>Accepted updates are permanent\<close>

lemma store_step_rows:
  assumes "store_step sha t t'" "control_ok t" "update_refines t (model_after us)"
    and "list_all canonical_update us" "om_get (updates t) k = Some row"
  shows "om_get (updates t') k = Some row"
  using assms(1)
proof (cases rule: store_step.cases)
  case step_control
  then obtain e where "has_effect t e t'" using control_step_effect [OF assms(2)] by blast
  then show ?thesis using effect_same_updates assms(5) by (auto simp add: same_updates_def)
next
  case (step_accept rec update c a outcome)
  show ?thesis
  proof (cases "authorize sha t (iu_document_id update) c a Update")
    case False
    with step_accept(2) assms(5) show ?thesis by (simp add: store_accept_denied)
  next
    case True
    note m_ok = model_after_ok [OF assms(4)]
    obtain d u where k: "k = (d, u)" by (cases k)
    obtain acc where acc: "om_get (model_updates (model_after us)) (d, u) = Some acc" "row_rel row acc"
      using update_refines_row [OF assms(3)] assms(5) k by blast
    obtain t'' where t'': "store_accept sha t c a update rec
        = Inr (store_accept_of (fst (model_accept (model_after us) update)), t'')"
      "update_refines t'' (snd (model_accept (model_after us) update))"
      using store_accept_simulated [OF assms(2,3) m_ok step_accept(1) True] by blast
    then have same: "t'' = t'" using step_accept(2) by simp
    have "om_get (model_updates (snd (model_accept (model_after us) update))) (d, u) = Some acc"
      using acc(1) by (auto simp add: model_accept_cases accepted_model_get split: option.split)
    then have "om_get (updates t') (d, u) \<noteq> None"
      using update_refines_None [OF t''(2), of d u] same by simp
    then obtain row' where row': "om_get (updates t') (d, u) = Some row'" by blast
    then have "row_rel row' acc"
      using update_refines_row [OF t''(2)] same
        \<open>om_get (model_updates (snd (model_accept (model_after us) update))) (d, u) = Some acc\<close>
      by (metis option.inject)
    with acc(2) have "row' = row"
      using decoded_same by (cases row; cases row') (auto simp add: row_rel_def)
    with row' k show ?thesis by simp
  qed
qed

lemma store_history_rows:
  "store_history sha t t' \<Longrightarrow> store_history sha empty_tables t \<Longrightarrow> om_get (updates t) k = Some row \<Longrightarrow>
    store_history sha empty_tables t' \<and> om_get (updates t') k = Some row"
proof (induction rule: store_history.induct)
  case (store_history_step t t' t'')
  then have h: "store_history sha empty_tables t'" and row: "om_get (updates t') k = Some row" by blast+
  obtain us where us: "list_all canonical_update us" "update_refines t' (model_after us)"
    using store_history_good(2) [OF h] by blast
  show ?case
    using store_step_rows [OF store_history_step.hyps(2) store_history_good(1) [OF h] us(2,1) row]
      store_history.store_history_step [OF h store_history_step.hyps(2)] by blast
qed blast

end
