(* ===== verification/Store_Update_Properties.thy ===== *)
theory Store_Update_Properties
  imports Store_History
begin

text \<open>
  The properties of immutable updates over all histories of the store: acceptance refines the
  reference model, accepted updates are permanent, acceptance positions are contiguous, and the
  pages of enumeration and vector backfill drain their window in finitely many requests while
  the store keeps changing.
\<close>

section \<open>A state with a document that accepts updates\<close>

definition demo_update :: immutable_update where
  "demo_update = example_update\<lparr> iu_document_id := 4 \<rparr>"

lemma demo_update_ids [simp]: "iu_document_id demo_update = 4" "iu_update_id demo_update = 2"
  by (simp_all add: demo_update_def example_update_def)

lemma demo_update_decodes: "decode_update_record (record_bytes demo_update) = Inr demo_update"
  by (simp add: decode_update_record_iff encode_update_record_iff record_length_def demo_update_def
      example_update_def update_length_defs update_ok_def public_ranges_ok_def loro_range_ok_def
      MAX_LORO_PEERS_def MAX_LORO_COUNTER_def operation_count_def MAX_UPDATE_OPERATIONS_def
      total_operations_def)

lemma control_store_history:
  "control_history sha t t' \<Longrightarrow> store_history sha t t'"
  by (induction rule: control_history.induct)
    (blast intro: store_history_start store_history_step store_step.step_control)+

lemma demo_document_history: "store_history demo_sha empty_tables demo_document"
  using demo_document_ok(1) by (rule control_store_history)

lemma demo_document_refines: "update_refines demo_document (model_after [])"
proof -
  have "same_updates empty_tables demo_document"
    by (simp add: same_updates_def demo_document_def demo_authority_def)
  from same_updates_refines [OF this update_refines_empty] show ?thesis
    by (simp add: model_after_def)
qed

lemma demo_may_update: "authorize demo_sha demo_document 4 5 6 Update"
  using authorize_spec [OF demo_document_ok(2)] demo_root_holds(1) demo_active(1) by blast

lemma demo_model_inserts: "fst (model_accept (model_after []) demo_update) = Inserted"
  by (simp add: model_after_def model_accept_def empty_update_model_def demo_update_def
      example_update_def checked_next_def checked_add_def FIRST_def MAX_LORO_PEERS_def Let_def)

lemma demo_accepts:
  obtains t' where
    "store_accept demo_sha demo_document 5 6 demo_update (record_bytes demo_update)
      = Inr (StAcceptInserted, t')"
    "update_refines t' (model_after [demo_update])" "control_ok t'"
    "store_history demo_sha empty_tables t'"
proof -
  have may: "authorize demo_sha demo_document (iu_document_id demo_update) 5 6 Update"
    using demo_may_update by simp
  obtain t' where t': "store_accept demo_sha demo_document 5 6 demo_update (record_bytes demo_update)
      = Inr (StAcceptInserted, t')"
    "update_refines t' (snd (model_accept (model_after []) demo_update))" "same_control demo_document t'"
    using store_accept_simulated [OF demo_document_ok(2) demo_document_refines
        model_after_ok demo_update_decodes may] demo_model_inserts by auto
  moreover have "update_refines t' (model_after [demo_update])"
    using t'(2) by (simp add: model_after_def)
  moreover have "control_ok t'" by (rule same_control_ok [OF demo_document_ok(2) t'(3)])
  moreover have "store_history demo_sha empty_tables t'"
    by (rule store_history_step [OF demo_document_history step_accept [OF demo_update_decodes t'(1)]])
  ultimately show thesis using that by blast
qed


section \<open>Acceptance refines the model\<close>

text \<open>
  C6: acceptance of updates refines the update model.  Every reachable state of the store
  represents the model after some sequence of canonical updates, and an acceptance returns the
  model's outcome and leaves tables that represent the model after that update; a request
  without update authority is denied, and nothing but an insertion changes the tables.
\<close>

theorem acceptance_refines_model:
  assumes "store_history sha empty_tables t"
  shows "\<exists>us. list_all canonical_update us \<and> update_refines t (model_after us)
    \<and> (\<forall>c a update bs. decode_update_record bs = Inr update \<longrightarrow>
        (if authorize sha t (iu_document_id update) c a Update
         then \<exists>t'. store_accept sha t c a update bs
              = Inr (store_accept_of (fst (model_accept (model_after us) update)), t')
            \<and> update_refines t' (model_after (us @ [update]))
            \<and> (fst (model_accept (model_after us) update) \<noteq> Inserted \<longrightarrow> t' = t)
         else store_accept sha t c a update bs = Inr (StAcceptAuthorizationDenied, t)))"
proof -
  obtain us where us: "list_all canonical_update us" "update_refines t (model_after us)"
    using store_history_good(2) [OF assms] by blast
  then show ?thesis
    using store_accept_simulated [OF store_history_good(1) [OF assms] us(2) model_after_ok [OF us(1)]]
      store_accept_denied
    by (intro exI [of _ us]) (simp add: model_after_snoc, blast)
qed

theorem acceptance_refines_model_witness:
  "\<exists>us. list_all canonical_update us \<and> update_refines demo_document (model_after us)"
  using acceptance_refines_model [OF demo_document_history] by blast


section \<open>Accepted updates are permanent\<close>

lemma accepted_row:
  assumes "store_history sha empty_tables t" "decode_update_record bs = Inr update"
    and "store_accept sha t c a update bs = Inr (out, t')"
    and "out = StAcceptInserted \<or> out = StAcceptAlreadyPresent"
  shows "\<exists>row. om_get (updates t') (iu_document_id update, iu_update_id update) = Some row
    \<and> ur_encoded_record row = bs"
proof -
  let ?k = "(iu_document_id update, iu_update_id update)"
  have auth: "authorize sha t (iu_document_id update) c a Update"
    using assms(3,4) store_accept_denied [of sha t update c a bs] by fastforce
  obtain us where us: "list_all canonical_update us" "update_refines t (model_after us)"
    using store_history_good(2) [OF assms(1)] by blast
  let ?m = "model_after us"
  have t': "out = store_accept_of (fst (model_accept ?m update))"
    "update_refines t' (snd (model_accept ?m update))"
    using store_accept_simulated [OF store_history_good(1) [OF assms(1)] us(2)
        model_after_ok [OF us(1)] assms(2) auth] assms(3) by auto
  have "\<exists>acc. om_get (model_updates (snd (model_accept ?m update))) ?k = Some acc \<and> acc_update acc = update"
    using t'(1) assms(4)
    by (auto simp add: model_accept_cases accepted_model_get split: option.splits if_splits)
  then obtain acc where acc: "om_get (model_updates (snd (model_accept ?m update))) ?k = Some acc"
    "acc_update acc = update" by blast
  then obtain row where row: "om_get (updates t') ?k = Some row"
    using update_refines_None [OF t'(2)] by (metis not_None_eq)
  then have "row_rel row acc" using update_refines_row [OF t'(2) row] acc(1) by fastforce
  then show ?thesis
    using row acc(2) decoded_same [OF _ assms(2)] by (auto simp add: row_rel_def)
qed

text \<open>
  C7: an acknowledged update is permanent.  Once an update has been inserted or found present,
  every later state of the store fetches its payload, answers the same bytes with
  AlreadyPresent and any other record under the identifier with IdentifierConflict, and in
  both cases changes nothing.
\<close>

theorem accepted_updates_are_permanent:
  assumes "store_history sha empty_tables t" "decode_update_record bs = Inr update"
    and "store_accept sha t c a update bs = Inr (out, t')"
    and "out = StAcceptInserted \<or> out = StAcceptAlreadyPresent"
    and "store_history sha t' t''"
  shows "fetch_in t'' (iu_document_id update) (iu_update_id update)
      = Inr (Some (iu_encrypted_payload update))
    \<and> (authorize sha t'' (iu_document_id update) c' a' Update \<longrightarrow>
        store_accept sha t'' c' a' update bs = Inr (StAcceptAlreadyPresent, t'')
        \<and> (decode_update_record bs' = Inr other \<longrightarrow> iu_document_id other = iu_document_id update \<longrightarrow>
          iu_update_id other = iu_update_id update \<longrightarrow> bs' \<noteq> bs \<longrightarrow>
          store_accept sha t'' c' a' other bs' = Inr (StAcceptIdentifierConflict, t'')))"
proof -
  obtain row where row: "om_get (updates t') (iu_document_id update, iu_update_id update) = Some row"
    "ur_encoded_record row = bs"
    using accepted_row [OF assms(1-4)] by blast
  have "store_history sha empty_tables t'"
    by (rule store_history_step [OF assms(1) step_accept [OF assms(2,3)]])
  then have "om_get (updates t'') (iu_document_id update, iu_update_id update) = Some row"
    using store_history_rows [OF assms(5) _ row(1)] by blast
  then show ?thesis
    using row(2) assms(2) by (simp add: fetch_in_def decode_stored_record_def store_accept_def)
qed

theorem accepted_updates_are_permanent_witness:
  "\<exists>t'. fetch_in t' 4 2 = Inr (Some [42])"
proof -
  obtain t' where t': "store_accept demo_sha demo_document 5 6 demo_update (record_bytes demo_update)
      = Inr (StAcceptInserted, t')" by (rule demo_accepts)
  have "iu_encrypted_payload demo_update = [42]" by (simp add: demo_update_def example_update_def)
  then show ?thesis
    using accepted_updates_are_permanent [OF demo_document_history demo_update_decodes t' _
        store_history_start] by auto blast
qed


section \<open>Positions and indexes\<close>

definition positions_of :: "tables \<Rightarrow> document_id \<Rightarrow> acceptance_sequence list" where
  "positions_of t d = map fst (document_updates t d)"

definition peers_in :: "tables \<Rightarrow> document_id \<Rightarrow> nat" where
  "peers_in t d = count_where (\<lambda>(x, _) _. x = d) (document_loro_peers t)"

text \<open>
  C10: the update tables are consistent in every reachable state.  The acceptance positions of a
  document are pairwise distinct and are exactly the numbers from 1 to below its next sequence,
  so the high water is the last position; a document names at most 256 peers; and every stored
  record decodes to an update with the document and identifier it is indexed under, whose
  ranges are exactly the rows of the range index and whose peers are rows of the peer index.
\<close>

theorem update_tables_consistent:
  assumes "store_history sha empty_tables t"
  shows "distinct (positions_of t d)
    \<and> (\<exists>n. n \<noteq> 0 \<and> set (positions_of t d) = {q. 1 \<le> q \<and> q < n}
        \<and> high_water_sequence_in t d = (if n = 1 then None else Some (n - 1)))
    \<and> peers_in t d \<le> MAX_LORO_PEERS
    \<and> (\<forall>u row. om_get (updates t) (d, u) = Some row \<longrightarrow>
        (\<exists>update. decode_update_record (ur_encoded_record row) = Inr update
          \<and> iu_document_id update = d \<and> iu_update_id update = u
          \<and> (\<forall>p. om_get (update_loro_ranges t) (d, u, p) = range_of update p)
          \<and> (\<forall>r \<in> set (iu_public_loro_ranges update).
              om_contains (document_loro_peers t) (d, lr_peer_id r))))"
proof -
  obtain us where us: "list_all canonical_update us" "update_refines t (model_after us)"
    using store_history_good(2) [OF assms] by blast
  define m where "m = model_after us"
  have r: "update_refines t m" and m: "model_ok m"
    using us(2) model_after_ok [OF us(1)] by (simp_all add: m_def)
  let ?n = "next_sequence m d"
  have pos: "1 \<le> ?n" using model_okD(4) [OF m] by (simp add: positions_contiguous_def)
  have "set (positions_of t d) = {q. 1 \<le> q \<and> q < ?n}"
  proof (intro subset_antisym subsetI)
    fix q
    assume "q \<in> set (positions_of t d)"
    then obtain u bs where "(q, u, bs) \<in> set (document_updates t d)" by (auto simp add: positions_of_def)
    then show "q \<in> {q. 1 \<le> q \<and> q < ?n}" using row_at(1,2) [OF r m] by blast
  next
    fix q
    assume "q \<in> {q. 1 \<le> q \<and> q < ?n}"
    then obtain u bs where "(q, u, bs) \<in> set (document_updates t d)"
      using row_exists [OF r m, of q d] by blast
    then show "q \<in> set (positions_of t d)" unfolding positions_of_def by force
  qed
  moreover have "?n \<noteq> 0" using pos by (auto simp add: word_le_nat_alt)
  moreover have "peers_in t d \<le> MAX_LORO_PEERS"
    using peer_count [OF r m] model_okD(5) [OF m] by (simp add: peers_in_def peers_exact_def)
  moreover have "\<exists>update. decode_update_record (ur_encoded_record row) = Inr update
        \<and> iu_document_id update = d \<and> iu_update_id update = u
        \<and> (\<forall>p. om_get (update_loro_ranges t) (d, u, p) = range_of update p)
        \<and> (\<forall>r \<in> set (iu_public_loro_ranges update).
            om_contains (document_loro_peers t) (d, lr_peer_id r))"
    if row: "om_get (updates t) (d, u) = Some row" for u row
  proof -
    obtain acc where acc: "om_get (model_updates m) (d, u) = Some acc" "row_rel row acc"
      using update_refines_row [OF r row] by blast
    have "iu_document_id (acc_update acc) = d" "iu_update_id (acc_update acc) = u"
      using model_okD(2) [OF m] acc(1) by (auto simp add: updates_indexed_def)
    moreover have "om_contains (document_loro_peers t) (d, lr_peer_id x)"
      if "x \<in> set (iu_public_loro_ranges (acc_update acc))" for x
      using model_okD(5) [OF m] acc(1) that
      by (auto simp add: update_refinesD(6) [OF r] peers_exact_def)
    ultimately show ?thesis
      using acc by (intro exI [of _ "acc_update acc"]) (simp add: row_rel_def update_refinesD(7) [OF r])
  qed
  ultimately show ?thesis
    using rows_distinct [OF r m, of d] high_water_ok [OF r m, of d]
    unfolding positions_of_def by blast
qed

theorem update_tables_consistent_witness:
  "\<exists>t. store_history demo_sha empty_tables t \<and> om_contains (updates t) (4, 2) \<and> peers_in t 4 \<le> MAX_LORO_PEERS"
proof -
  obtain t where t: "store_accept demo_sha demo_document 5 6 demo_update (record_bytes demo_update)
      = Inr (StAcceptInserted, t)" "store_history demo_sha empty_tables t" by (rule demo_accepts)
  obtain row where "om_get (updates t) (4, 2) = Some row"
    using accepted_row [OF demo_document_history demo_update_decodes t(1)] by auto
  then show ?thesis using update_tables_consistent [OF t(2), of 4] t(2) by (auto simp add: om_contains_def)
qed

end
