(* ===== verification/Store_Drain.thy ===== *)
theory Store_Drain
  imports Store_Update_Properties
begin

text \<open>
  Draining a window page by page.  A client that asks for page after page of a captured window,
  each page answered from whatever state the store has reached by then, receives every update
  of the window exactly once and in order, after finitely many pages.
\<close>

section \<open>A captured window does not change\<close>

definition stored_metadata_at ::
  "tables \<Rightarrow> document_id \<Rightarrow> acceptance_sequence \<Rightarrow> update_metadata option" where
  "stored_metadata_at t d q = (case select_update_at t d q of
      None \<Rightarrow> None
    | Some (_, bs) \<Rightarrow> (case decode_update_record bs of
        Inl _ \<Rightarrow> None | Inr update \<Rightarrow> Some (model_metadata update)))"

text \<open>\<open>pinned t d b f\<close>: the positions up to \<open>b\<close> are filled and \<open>f\<close> gives their metadata.\<close>

definition pinned ::
  "tables \<Rightarrow> document_id \<Rightarrow> acceptance_sequence \<Rightarrow> (acceptance_sequence \<Rightarrow> update_metadata) \<Rightarrow> bool" where
  "pinned t d b f \<longleftrightarrow> (\<exists>m. update_refines t m \<and> model_ok m \<and> b < next_sequence m d
    \<and> (\<forall>q. 1 \<le> q \<longrightarrow> q \<le> b \<longrightarrow> at_metadata m d q = f q))"

lemma accepted_at_stable:
  assumes "store_history sha empty_tables t" "store_history sha t t'"
    and "update_refines t m" "model_ok m" "update_refines t' m'" "model_ok m'"
    and "1 \<le> q" "q < next_sequence m d"
  shows "accepted_at m' d q = accepted_at m d q" "q < next_sequence m' d"
proof -
  obtain update where u: "accepted_at m d q = Some update"
    "om_get (model_updates m) (d, iu_update_id update) = Some \<lparr> acc_sequence = q, acc_update = update \<rparr>"
    using accepted_at_known [OF assms(4,7,8)] .
  let ?k = "(d, iu_update_id update)"
  obtain row where row: "om_get (updates t) ?k = Some row"
    using update_refines_None [OF assms(3), of d "iu_update_id update"] u(2) by auto
  then have rel: "row_rel row \<lparr> acc_sequence = q, acc_update = update \<rparr>"
    using update_refines_row [OF assms(3) row] u(2) by fastforce
  have "om_get (updates t') ?k = Some row"
    using store_history_rows [OF assms(2,1) row] by blast
  then obtain acc where acc: "om_get (model_updates m') ?k = Some acc" "row_rel row acc"
    using update_refines_row [OF assms(5)] by blast
  then have "acc_sequence acc = q" "acc_update acc = update"
    using rel by (auto simp add: row_rel_def)
  then show "accepted_at m' d q = accepted_at m d q" "q < next_sequence m' d"
    using update_position [OF assms(6) acc(1)] u(1) by simp_all
qed

lemma pinned_start:
  assumes "store_history sha empty_tables t" "high_water_sequence_in t d = Some b"
  shows "pinned t d b (\<lambda>q. the (stored_metadata_at t d q))" "b \<noteq> 0"
    "1 \<le> q \<Longrightarrow> q \<le> b \<Longrightarrow> stored_metadata_at t d q \<noteq> None"
proof -
  obtain us where us: "list_all canonical_update us" "update_refines t (model_after us)"
    using store_history_good(2) [OF assms(1)] by blast
  define m where "m = model_after us"
  have r: "update_refines t m" and m: "model_ok m"
    using us(2) model_after_ok [OF us(1)] by (simp_all add: m_def)
  have n: "1 \<le> next_sequence m d" using model_okD(4) [OF m] by (simp add: positions_contiguous_def)
  have b: "b = next_sequence m d - 1" "next_sequence m d \<noteq> 1"
    using high_water_ok [OF r m, of d] assms(2) by (auto split: if_splits)
  then have lt: "b < next_sequence m d"
    using n by (auto simp add: word_less_nat_alt word_le_nat_alt unat_sub)
  have at: "stored_metadata_at t d q = Some (at_metadata m d q)" if first: "1 \<le> q" and "q \<le> b" for q
  proof -
    have "q < next_sequence m d" using \<open>q \<le> b\<close> lt by simp
    then obtain update bs where "select_update_at t d q = Some (iu_update_id update, bs)"
      "accepted_at m d q = Some update" "decode_update_record bs = Inr update"
      using select_update_at_ok [OF r m first] by blast
    then show ?thesis by (simp add: stored_metadata_at_def at_metadata_def)
  qed
  then show "pinned t d b (\<lambda>q. the (stored_metadata_at t d q))"
    using r m lt unfolding pinned_def by fastforce
  show "b \<noteq> 0" using b by auto
  show "1 \<le> q \<Longrightarrow> q \<le> b \<Longrightarrow> stored_metadata_at t d q \<noteq> None" using at by simp
qed

lemma pinned_later:
  assumes "store_history sha empty_tables t" "store_history sha t t'" "pinned t d b f"
  shows "store_history sha empty_tables t'" "pinned t' d b f"
proof -
  show h: "store_history sha empty_tables t'"
    using assms(2,1) by (induction rule: store_history.induct) (blast intro: store_history_step)+
  obtain m where m: "update_refines t m" "model_ok m" "b < next_sequence m d"
    "\<And>q. 1 \<le> q \<Longrightarrow> q \<le> b \<Longrightarrow> at_metadata m d q = f q"
    using assms(3) unfolding pinned_def by blast
  obtain us where us: "list_all canonical_update us" "update_refines t' (model_after us)"
    using store_history_good(2) [OF h] by blast
  define m' where "m' = model_after us"
  have m': "update_refines t' m'" "model_ok m'"
    using us(2) model_after_ok [OF us(1)] by (simp_all add: m'_def)
  note same = accepted_at_stable [OF assms(1,2) m(1,2) m']
  have "b < next_sequence m' d"
  proof (cases "1 \<le> b")
    case True
    then show ?thesis using same(2) m(3) by blast
  next
    case False
    then have "unat b = 0" by (simp add: word_le_nat_alt)
    then have "b = 0" by (simp add: word_unat_eq_iff)
    then show ?thesis
      using model_okD(4) [OF m'(2)]
      by (auto simp add: positions_contiguous_def word_le_nat_alt word_less_nat_alt Suc_le_eq)
  qed
  moreover have "at_metadata m' d q = f q" if "1 \<le> q" "q \<le> b" for q
    using same(1) [OF that(1)] m(3,4) that by (simp add: at_metadata_def)
  ultimately show "pinned t' d b f" using m' unfolding pinned_def by blast
qed

lemma pinned_always:
  assumes "store_history sha empty_tables (ts 0)" "\<forall>i. store_history sha (ts i) (ts (Suc i))"
    and "pinned (ts 0) d b f"
  shows "pinned (ts i) d b f"
proof -
  have "store_history sha empty_tables (ts i) \<and> pinned (ts i) d b f"
  proof (induction i)
    case (Suc i)
    then show ?case using pinned_later [of sha "ts i" "ts (Suc i)"] assms(2) by blast
  qed (use assms in blast)
  then show ?thesis ..
qed

lemma positions_bounds: "q \<in> set (positions a b) \<Longrightarrow> 1 \<le> q \<and> q \<le> b"
  by (auto simp add: set_positions word_le_nat_alt word_less_nat_alt)

lemma positions_drop:
  assumes "k \<le> unat b - unat a" "a \<le> b"
  shows "drop k (positions a b) = positions (a + word_of_nat k) b" "a + word_of_nat k \<le> b"
    "unat (a + word_of_nat k) = unat a + k"
proof -
  have small: "unat a + k \<le> unat b" using assms by (simp add: word_le_nat_alt)
  have "word_of_nat (unat a + k) = a + word_of_nat k" by simp
  then show un: "unat (a + word_of_nat k) = unat a + k"
    using unat_of_nat_u64 [OF small] by metis
  then show "drop k (positions a b) = positions (a + word_of_nat k) b"
    by (simp add: positions_def drop_map drop_upt del: upt_Suc)
  show "a + word_of_nat k \<le> b" using un small by (simp add: word_le_nat_alt)
qed


section \<open>Draining an enumeration\<close>

text \<open>Page after page of one window, the i-th page read from state \<open>ts i\<close>.\<close>

fun drain ::
  "nat \<Rightarrow> (nat \<Rightarrow> tables) \<Rightarrow> document_id \<Rightarrow> acceptance_sequence \<Rightarrow> acceptance_sequence \<Rightarrow> u64 \<Rightarrow> nat
    \<Rightarrow> stored_update_page list option" where
  "drain 0 ts d a b ordinal limit = None"
| "drain (Suc n) ts d a b ordinal limit = (case enumerate_in (ts 0) d a b ordinal limit of
      Inl _ \<Rightarrow> None
    | Inr page \<Rightarrow> if sp_has_more page
        then map_option (Cons page) (drain n (\<lambda>i. ts (Suc i)) d a b (sp_next_ordinal page) limit)
        else Some [page])"

definition page_bounded :: "nat \<Rightarrow> stored_update_page \<Rightarrow> bool" where
  "page_bounded limit page \<longleftrightarrow> sp_updates page \<noteq> [] \<and> length (sp_updates page) \<le> 64
    \<and> page_bytes (sp_updates page) \<le> limit"

lemma pinned_page:
  assumes "pinned t d b f" "a < b" "ordinal < b - a" "MAX_ENUMERABLE_METADATA_LENGTH \<le> limit"
  obtains k page where "enumerate_in t d a b ordinal limit = Inr page" "page_bounded limit page"
    "sp_updates page = take k (drop (unat ordinal) (map f (positions a b)))"
    "unat (sp_next_ordinal page) = unat ordinal + k" "0 < k"
    "sp_has_more page \<longleftrightarrow> unat ordinal + k < unat b - unat a" "unat ordinal + k \<le> unat b - unat a"
proof -
  obtain m where m: "update_refines t m" "model_ok m" "b < next_sequence m d"
    "\<And>q. 1 \<le> q \<Longrightarrow> q \<le> b \<Longrightarrow> at_metadata m d q = f q"
    using assms(1) unfolding pinned_def by blast
  have w: "window_metadata m d a b = map f (positions a b)"
    using m(4) positions_bounds by (auto simp add: window_metadata_def at_metadata_def)
  obtain k page where p: "enumerate_in t d a b ordinal limit = Inr page"
    "sp_updates page = take k (drop (unat ordinal) (map f (positions a b)))"
    "unat (sp_next_ordinal page) = unat ordinal + k"
    "sp_has_more page \<longleftrightarrow> unat ordinal + k < unat b - unat a" "k \<le> 64"
    "unat ordinal + k \<le> unat b - unat a" "page_bytes (sp_updates page) \<le> limit" "0 < k"
    using enumerate_in_ok [OF m(1-3) assms(2,3), of limit] assms(4) w by auto
  have "length (sp_updates page) = k" using p(2,6) by (simp add: length_positions)
  then have "page_bounded limit page" using p(5,7,8) by (auto simp add: page_bounded_def)
  with p that show thesis by blast
qed

lemma drain_ok:
  assumes "a < b" "MAX_ENUMERABLE_METADATA_LENGTH \<le> limit"
    and "\<And>i. pinned (ts i) d b f" "unat ordinal < unat b - unat a" "unat b - unat a \<le> unat ordinal + n"
  shows "\<exists>pages. drain n ts d a b ordinal limit = Some pages
    \<and> concat (map sp_updates pages) = drop (unat ordinal) (map f (positions a b))
    \<and> list_all (page_bounded limit) pages"
  using assms(3-5)
proof (induction n arbitrary: ts ordinal)
  case 0
  then show ?case by simp
next
  case (Suc n)
  let ?w = "map f (positions a b)"
  have "unat (b - a) = unat b - unat a" using assms(1) by (simp add: unat_sub)
  then have "ordinal < b - a" using Suc.prems(2) by (simp add: word_less_nat_alt)
  from pinned_page [OF Suc.prems(1) assms(1) this assms(2)] obtain k page where p:
    "enumerate_in (ts 0) d a b ordinal limit = Inr page" "page_bounded limit page"
    "sp_updates page = take k (drop (unat ordinal) ?w)"
    "unat (sp_next_ordinal page) = unat ordinal + k" "0 < k"
    "sp_has_more page \<longleftrightarrow> unat ordinal + k < unat b - unat a" "unat ordinal + k \<le> unat b - unat a" .
  have split: "drop (unat ordinal) ?w = sp_updates page @ drop (unat ordinal + k) ?w"
    using p(3) by (metis append_take_drop_id drop_drop add.commute)
  show ?case
  proof (cases "sp_has_more page")
    case False
    then have "drop (unat ordinal + k) ?w = []" using p(6) by (simp add: length_positions)
    with False p(1,2) split show ?thesis by simp
  next
    case True
    then obtain pages where "drain n (\<lambda>i. ts (Suc i)) d a b (sp_next_ordinal page) limit = Some pages"
      "concat (map sp_updates pages) = drop (unat ordinal + k) ?w" "list_all (page_bounded limit) pages"
      using Suc.IH [of "\<lambda>i. ts (Suc i)" "sp_next_ordinal page"] Suc.prems p(4-6) by auto
    with True p(1,2) split show ?thesis by simp
  qed
qed

text \<open>
  C8: enumeration terminates and is complete.  Take the window above \<open>a\<close> up to the high water
  \<open>b\<close> of a reachable state, and read it page by page while other requests change the store
  between the pages, with room for one record per page.  After at most \<open>b - a\<close> pages, none
  empty, none above 64 records or the byte limit, the pages hold exactly the updates accepted at
  positions \<open>a + 1\<close> to \<open>b\<close>, each once and in order.
\<close>

theorem enumeration_drains_the_window:
  assumes "store_history sha empty_tables (ts 0)" "\<forall>i. store_history sha (ts i) (ts (Suc i))"
    and "high_water_sequence_in (ts 0) d = Some b" "a < b"
    and "MAX_ENUMERABLE_METADATA_LENGTH \<le> limit" "unat (b - a) \<le> n"
  shows "\<exists>pages. drain n ts d a b 0 limit = Some pages
    \<and> map Some (concat (map sp_updates pages)) = map (stored_metadata_at (ts 0) d) (positions a b)
    \<and> list_all (page_bounded limit) pages"
proof -
  let ?f = "\<lambda>q. the (stored_metadata_at (ts 0) d q)"
  note start = pinned_start [OF assms(1,3)]
  have pin: "pinned (ts i) d b ?f" for i
    by (rule pinned_always [OF assms(1,2) start(1)])
  have "unat (b - a) = unat b - unat a" using assms(4) by (simp add: unat_sub)
  then have "unat (0 :: u64) < unat b - unat a" "unat b - unat a \<le> unat (0 :: u64) + n"
    using assms(4,6) by (simp_all add: word_less_nat_alt)
  from drain_ok [where ts = ts, OF assms(4,5) pin this] obtain pages where pages:
    "drain n ts d a b 0 limit = Some pages" "list_all (page_bounded limit) pages"
    "concat (map sp_updates pages) = map ?f (positions a b)" by auto
  moreover have "map Some (map ?f (positions a b)) = map (stored_metadata_at (ts 0) d) (positions a b)"
    using start(3) positions_bounds by fastforce
  ultimately show ?thesis by auto
qed

lemma demo_high_water:
  assumes "update_refines t' (model_after [demo_update])"
  shows "high_water_sequence_in t' 4 = Some 1"
proof -
  have "model_ok (model_after [demo_update])"
    using model_after_ok [of "[demo_update]"] decoded_canonical [OF demo_update_decodes] by simp
  moreover have "next_sequence (model_after []) 4 = 1"
    by (simp add: model_after_def next_sequence_def empty_update_model_def FIRST_def)
  then have "next_sequence (model_after [demo_update]) 4 = 2"
    using demo_model_inserts model_after_snoc [of "[]" demo_update]
    by (simp add: model_accept_cases accepted_model_get checked_next_def checked_add_def
        split: option.splits if_splits)
  ultimately show ?thesis using high_water_ok [OF assms, of 4] by simp
qed

theorem enumeration_drains_the_window_witness:
  "\<exists>t pages. drain 1 (\<lambda>_. t) 4 0 1 0 4035 = Some pages \<and> length (concat (map sp_updates pages)) = 1"
proof -
  obtain t where t: "update_refines t (model_after [demo_update])"
    "store_history demo_sha empty_tables t" by (rule demo_accepts)
  have "\<forall>i :: nat. store_history demo_sha t t" using store_history_start by blast
  from enumeration_drains_the_window [of demo_sha "\<lambda>_. t", OF t(2) this demo_high_water [OF t(1)]]
  have "\<exists>pages. drain 1 (\<lambda>_. t) 4 0 1 0 4035 = Some pages
      \<and> map Some (concat (map sp_updates pages)) = map (stored_metadata_at t 4) (positions 0 1)
      \<and> list_all (page_bounded 4035) pages"
    by (simp add: update_length_defs del: drain.simps One_nat_def)
  then show ?thesis using length_positions [of 0 1] by (metis length_map diff_zero unat_0 unat_1)
qed


section \<open>Draining a vector backfill\<close>

fun vector_drain ::
  "nat \<Rightarrow> (nat \<Rightarrow> tables) \<Rightarrow> document_id \<Rightarrow> acceptance_sequence \<Rightarrow> acceptance_sequence
    \<Rightarrow> oplog_version \<Rightarrow> nat \<Rightarrow> stored_vector_backfill_page list option" where
  "vector_drain 0 ts d position b version limit = None"
| "vector_drain (Suc n) ts d position b version limit =
    (case vector_backfill_in (ts 0) d position b version limit of
      Inl _ \<Rightarrow> None
    | Inr page \<Rightarrow> if sv_has_more page
        then (case sv_last_examined_sequence page of
            None \<Rightarrow> None
          | Some last_examined \<Rightarrow> map_option (Cons page)
              (vector_drain n (\<lambda>i. ts (Suc i)) d last_examined b version limit))
        else Some [page])"

definition beyond :: "oplog_version \<Rightarrow> update_metadata \<Rightarrow> bool" where
  "beyond version metadata \<longleftrightarrow> beyond_version version (um_public_loro_ranges metadata)"

lemma pinned_vector_page:
  assumes "pinned t d b f" "a < b" "MAX_ENUMERABLE_METADATA_LENGTH \<le> limit"
  obtains k page where "vector_backfill_in t d a b version limit = Inr page"
    "sv_updates page = filter (beyond version) (map f (take k (positions a b)))"
    "sv_last_examined_sequence page = Some (a + word_of_nat k)" "0 < k"
    "sv_has_more page \<longleftrightarrow> k < unat b - unat a" "k \<le> unat b - unat a"
proof -
  obtain m where m: "update_refines t m" "model_ok m" "b < next_sequence m d"
    "\<And>q. 1 \<le> q \<Longrightarrow> q \<le> b \<Longrightarrow> at_metadata m d q = f q"
    using assms(1) unfolding pinned_def by blast
  have "a \<le> b" "b \<noteq> 0" using assms(2) by (auto simp add: word_less_nat_alt word_le_nat_alt)
  from vector_backfill_in_ok [OF m(1-3) this, of version limit] assms(2,3) obtain k page where p:
    "vector_backfill_in t d a b version limit = Inr page"
    "sv_updates page = vector_selection m d version (take k (positions a b))"
    "sv_last_examined_sequence page = (if k = 0 then None else Some (a + word_of_nat k))" "0 < k"
    "sv_has_more page \<longleftrightarrow> k < unat b - unat a" "k \<le> unat b - unat a" by auto
  have sel: "vector_selection m d version qs = filter (beyond version) (map f qs)"
    if "set qs \<subseteq> set (positions a b)" for qs
    using that m(4) positions_bounds
    by (induction qs) (auto simp add: vector_selection_def beyond_at_def beyond_def)
  show thesis
    using p sel [of "take k (positions a b)"] set_take_subset [of k "positions a b"]
    by (intro that [of page k]) simp_all
qed

lemma vector_drain_ok:
  assumes "MAX_ENUMERABLE_METADATA_LENGTH \<le> limit"
    and "\<And>i. pinned (ts i) d b f" "a < b" "unat b - unat a \<le> n"
  shows "\<exists>pages. vector_drain n ts d a b version limit = Some pages
    \<and> concat (map sv_updates pages) = filter (beyond version) (map f (positions a b))"
  using assms(2-4)
proof (induction n arbitrary: ts a)
  case 0
  then show ?case by (simp add: word_less_nat_alt)
next
  case (Suc n)
  let ?qs = "positions a b"
  obtain k page where p: "vector_backfill_in (ts 0) d a b version limit = Inr page"
    "sv_updates page = filter (beyond version) (map f (take k ?qs))"
    "sv_last_examined_sequence page = Some (a + word_of_nat k)" "0 < k"
    "sv_has_more page \<longleftrightarrow> k < unat b - unat a" "k \<le> unat b - unat a"
    using pinned_vector_page [OF Suc.prems(1,2) assms(1)] .
  have le: "a \<le> b" using Suc.prems(2) by simp
  note next_pos = positions_drop [OF p(6) le]
  have split: "filter (beyond version) (map f ?qs)
      = sv_updates page @ filter (beyond version) (map f (drop k ?qs))"
    unfolding p(2) by (metis append_take_drop_id filter_append map_append)
  show ?case
  proof (cases "sv_has_more page")
    case False
    then have "drop k ?qs = []" using p(5) by (simp add: length_positions)
    with False p(1) split show ?thesis by simp
  next
    case True
    then have "a + word_of_nat k < b" "unat b - unat (a + word_of_nat k) \<le> n"
      using p(4,5) next_pos(3) Suc.prems(3) by (simp_all add: word_less_nat_alt)
    then obtain pages where
      "vector_drain n (\<lambda>i. ts (Suc i)) d (a + word_of_nat k) b version limit = Some pages"
      "concat (map sv_updates pages) = filter (beyond version) (map f (drop k ?qs))"
      using Suc.IH [of "\<lambda>i. ts (Suc i)" "a + word_of_nat k"] Suc.prems(1) next_pos(1) by auto
    with True p(1,3) split show ?thesis by simp
  qed
qed

text \<open>
  C9: a vector backfill terminates and selects exactly the missing updates.  Read from the
  origin to the high water \<open>b\<close> of a reachable state, while other requests change the store
  between the pages, it ends after at most \<open>b\<close> pages, and together the pages hold exactly those
  updates up to \<open>b\<close> that go beyond the client's version, each once and in acceptance order.
\<close>

theorem vector_backfill_selects_missing_updates:
  assumes "store_history sha empty_tables (ts 0)" "\<forall>i. store_history sha (ts i) (ts (Suc i))"
    and "high_water_sequence_in (ts 0) d = Some b"
    and "MAX_ENUMERABLE_METADATA_LENGTH \<le> limit" "unat b \<le> n"
  shows "\<exists>pages. vector_drain n ts d ORIGIN b version limit = Some pages
    \<and> concat (map sv_updates pages) = filter (beyond version)
        (map (\<lambda>q. the (stored_metadata_at (ts 0) d q)) (positions 0 b))
    \<and> (\<forall>q. 1 \<le> q \<and> q \<le> b \<longrightarrow> stored_metadata_at (ts 0) d q \<noteq> None)"
proof -
  note start = pinned_start [OF assms(1,3)]
  have pin: "pinned (ts i) d b (\<lambda>q. the (stored_metadata_at (ts 0) d q))" for i
    by (rule pinned_always [OF assms(1,2) start(1)])
  have "0 < b" "unat b - unat (0 :: u64) \<le> n"
    using start(2) assms(5) by (simp_all add: word_gt_0)
  from vector_drain_ok [where ts = ts and version = version, OF assms(4) pin this] start(3) show ?thesis
    unfolding ORIGIN_def by blast
qed

theorem vector_backfill_selects_missing_updates_witness:
  "\<exists>t. \<forall>v. \<exists>pages. vector_drain 1 (\<lambda>_. t) 4 0 1 v 4035 = Some pages"
proof -
  obtain t where t: "update_refines t (model_after [demo_update])"
    "store_history demo_sha empty_tables t" by (rule demo_accepts)
  have "\<forall>i :: nat. store_history demo_sha t t" using store_history_start by blast
  from vector_backfill_selects_missing_updates
    [of demo_sha "\<lambda>_. t", OF t(2) this demo_high_water [OF t(1)], of 4035 1]
  have "\<exists>pages. vector_drain 1 (\<lambda>_. t) 4 0 1 v 4035 = Some pages" for v
    by (auto simp add: update_length_defs ORIGIN_def simp del: vector_drain.simps One_nat_def)
  then show ?thesis by blast
qed

end
