(* ===== verification/Subscription_Safety.thy ===== *)
theory Subscription_Safety
  imports Subscriptions
begin

text \<open>
  The invariant of the subscription registry and what its operations mean under it.  Every
  operation that walks the registry is local: it decides about an entry, and changes its cell,
  from that entry and that cell alone.
\<close>

section \<open>Local walks\<close>

abbreviation sid :: "subscription_entry \<Rightarrow> u64" where "sid \<equiv> se_subscription_id"
abbreviation cell_active :: "subscription_cell \<Rightarrow> bool" where "cell_active c \<equiv> sc_state c = ACTIVE"

definition end_cell :: "update_subscription_end \<Rightarrow> subscription_cell \<Rightarrow> subscription_cell" where
  "end_cell reason c = (if cell_active c then c\<lparr> sc_state := encode_end reason \<rparr> else c)"

lemma end_cell_simps [simp]:
  "sc_queue (end_cell r c) = sc_queue c" "sc_channel (end_cell r c) = sc_channel c"
  "sc_receiver_closed (end_cell r c) = sc_receiver_closed c"
  "sc_sender_dropped (end_cell r c) = sc_sender_dropped c" "sc_gate (end_cell r c) = sc_gate c"
  by (simp_all add: end_cell_def)

lemma end_cell_inactive [simp]: "sc_state (end_cell r c) \<noteq> ACTIVE"
  by (cases r) (simp_all add: end_cell_def state_byte_defs)

lemma end_cell_ended [simp]: "sc_state c \<noteq> ACTIVE \<Longrightarrow> end_cell r c = c"
  by (simp add: end_cell_def)

lemma set_same_cell [simp]: "w\<lparr> rg_cells := (rg_cells w)(i := rg_cells w i) \<rparr> = w"
  by simp

lemma invalidate_cell: "invalidate i r w = w\<lparr> rg_cells := (rg_cells w)(i := end_cell r (rg_cells w i)) \<rparr>"
  by (simp add: invalidate_def end_cell_def Let_def)

text \<open>The cell of the entry that \<open>retain\<close> meets under an identifier.\<close>

type_synonym keeping = "subscription_entry \<Rightarrow> subscription_cell \<Rightarrow> bool"
type_synonym changing = "subscription_entry \<Rightarrow> subscription_cell \<Rightarrow> subscription_cell"

definition settle_cell ::
  "keeping \<Rightarrow> changing \<Rightarrow> subscription_entry \<Rightarrow> subscription_cell \<Rightarrow> subscription_cell" where
  "settle_cell k g e c = (if k e c then g e c else (g e c)\<lparr> sc_sender_dropped := True \<rparr>)"

definition settle ::
  "keeping \<Rightarrow> changing \<Rightarrow> subscription_entry list \<Rightarrow> (u64 \<Rightarrow> subscription_cell) \<Rightarrow> u64 \<Rightarrow> subscription_cell" where
  "settle k g es cells i = (case List.find (\<lambda>e. sid e = i) es of
      None \<Rightarrow> cells i | Some e \<Rightarrow> settle_cell k g e (cells i))"

definition walks_locally ::
  "u64 list \<Rightarrow> (subscription_entry \<Rightarrow> registry \<Rightarrow> bool \<times> registry) \<Rightarrow> keeping \<Rightarrow> changing \<Rightarrow> bool" where
  "walks_locally leases f k g \<longleftrightarrow> (\<forall>e w. rg_leases w = leases \<longrightarrow>
    f e w = (k e (rg_cells w (sid e)),
      w\<lparr> rg_cells := (rg_cells w)(sid e := g e (rg_cells w (sid e))) \<rparr>))"

lemma find_fresh: "i \<notin> sid ` set es \<Longrightarrow> List.find (\<lambda>e. sid e = i) es = None"
  by (auto simp add: find_None_iff)

lemma settle_Cons:
  assumes "distinct (map sid (e # es))"
  shows "settle k g (e # es) cells
    = settle k g es (cells(sid e := settle_cell k g e (cells (sid e))))"
proof
  fix i
  show "settle k g (e # es) cells i
      = settle k g es (cells(sid e := settle_cell k g e (cells (sid e)))) i"
  proof (cases "sid e = i")
    case True
    then have "List.find (\<lambda>x. sid x = i) es = None"
      using assms by (intro find_fresh) auto
    with True show ?thesis by (simp add: settle_def)
  next
    case False
    then show ?thesis by (simp add: settle_def split: option.split)
  qed
qed

lemma filter_cells_cong:
  assumes "i \<notin> sid ` set es"
  shows "filter (\<lambda>e. k e ((cells(i := c)) (sid e))) es = filter (\<lambda>e. k e (cells (sid e))) es"
  using assms by (intro filter_cong) auto

lemma retain_entries_local:
  assumes "distinct (map sid es)" "walks_locally (rg_leases w) f k g"
  shows "retain_entries f es w = (filter (\<lambda>e. k e (rg_cells w (sid e))) es,
    w\<lparr> rg_cells := settle k g es (rg_cells w) \<rparr>)"
  using assms
proof (induction es arbitrary: w)
  case Nil
  show ?case by (simp add: settle_def)
next
  case (Cons e es)
  let ?c = "rg_cells w (sid e)"
  let ?w = "w\<lparr> rg_cells := (rg_cells w)(sid e := settle_cell k g e ?c) \<rparr>"
  have f: "f e w = (k e ?c, w\<lparr> rg_cells := (rg_cells w)(sid e := g e ?c) \<rparr>)"
    using Cons.prems(2) by (simp add: walks_locally_def)
  have fresh: "sid e \<notin> sid ` set es" using Cons.prems(1) by simp
  have "retain_entries f es ?w = (filter (\<lambda>e. k e (rg_cells ?w (sid e))) es,
      ?w\<lparr> rg_cells := settle k g es (rg_cells ?w) \<rparr>)"
    by (rule Cons.IH) (use Cons.prems in simp_all)
  moreover have "settle k g es (rg_cells ?w) = settle k g (e # es) (rg_cells w)"
    unfolding settle_Cons [OF Cons.prems(1)] by simp
  moreover have "filter (\<lambda>e. k e (rg_cells ?w (sid e))) es = filter (\<lambda>e. k e (rg_cells w (sid e))) es"
    using filter_cells_cong [OF fresh, of k "rg_cells w"] by simp
  ultimately have "retain_entries f es ?w = (filter (\<lambda>e. k e (rg_cells w (sid e))) es,
      w\<lparr> rg_cells := settle k g (e # es) (rg_cells w) \<rparr>)" by simp
  then show ?case
    using f by (simp add: settle_cell_def drop_sender_def Let_def split: if_splits)
qed

lemma retain_local:
  assumes "distinct (map sid (rg_subscriptions w))" "walks_locally (rg_leases w) f k g"
  shows "retain f w = w\<lparr> rg_subscriptions := filter (\<lambda>e. k e (rg_cells w (sid e))) (rg_subscriptions w),
    rg_cells := settle k g (rg_subscriptions w) (rg_cells w) \<rparr>"
  using retain_entries_local [OF assms] by (simp add: retain_def)


section \<open>The walks of the registry\<close>

definition prune_keeps :: "u64 list \<Rightarrow> keeping" where
  "prune_keeps leases e c \<longleftrightarrow> cell_active c \<and> se_channel e \<in> set leases \<and> \<not> sc_receiver_closed c"

definition lose_channel :: "u64 list \<Rightarrow> changing" where
  "lose_channel leases e c = (if se_channel e \<in> set leases then c else end_cell ChannelLost c)"

lemma prune_local: "walks_locally (rg_leases w)
    (\<lambda>entry w. let i = sid entry in
     if sc_state (rg_cells w i) \<noteq> ACTIVE then (False, w)
     else if \<not> channel_upgrades w (se_channel entry) then (False, invalidate i ChannelLost w)
     else (\<not> sc_receiver_closed (rg_cells w i), w))
    (prune_keeps (rg_leases w)) (lose_channel (rg_leases w))"
  by (simp add: walks_locally_def prune_keeps_def lose_channel_def channel_upgrades_def invalidate_cell Let_def)

definition notify_keeps :: "u64 list \<Rightarrow> document_id \<Rightarrow> keeping" where
  "notify_keeps leases d e c \<longleftrightarrow> cell_active c \<and> se_channel e \<in> set leases
    \<and> (se_document_id e = d \<longrightarrow> \<not> sc_receiver_closed c
        \<and> length (sc_queue c) < UPDATE_NOTIFICATION_QUEUE_CAPACITY)"

definition notify_changes :: "u64 list \<Rightarrow> document_id \<Rightarrow> update_id \<Rightarrow> changing" where
  "notify_changes leases d u e c =
    (if \<not> cell_active c then c
     else if se_channel e \<notin> set leases then end_cell ChannelLost c
     else if se_document_id e \<noteq> d then c
     else if sc_receiver_closed c then end_cell Cancelled c
     else if length (sc_queue c) \<ge> UPDATE_NOTIFICATION_QUEUE_CAPACITY then end_cell Overflowed c
     else c\<lparr> sc_queue := sc_queue c @ [u] \<rparr>)"

lemma notify_local: "walks_locally (rg_leases w)
    (\<lambda>entry w. let i = sid entry in
     if sc_state (rg_cells w i) \<noteq> ACTIVE then (False, w)
     else if \<not> channel_upgrades w (se_channel entry) then (False, invalidate i ChannelLost w)
     else if se_document_id entry \<noteq> d then (True, w)
     else case cell_try_send u i w of
         (SendOk, w) \<Rightarrow> (True, w)
       | (SendFull, w) \<Rightarrow> (False, invalidate i Overflowed w)
       | (SendClosed, w) \<Rightarrow> (False, invalidate i Cancelled w))
    (notify_keeps (rg_leases w) d) (notify_changes (rg_leases w) d u)"
  by (simp add: walks_locally_def notify_keeps_def notify_changes_def channel_upgrades_def invalidate_cell
      cell_try_send_def Let_def)

definition end_where :: "(subscription_entry \<Rightarrow> bool) \<Rightarrow> update_subscription_end \<Rightarrow> changing" where
  "end_where P r e c = (if P e then end_cell r c else c)"

lemma end_where_local: "walks_locally leases
    (\<lambda>entry w. if P entry then (False, invalidate (sid entry) r w) else (True, w))
    (\<lambda>e c. \<not> P e) (end_where P r)"
  by (simp add: walks_locally_def end_where_def invalidate_cell)

lemma end_where_leases_local: "walks_locally (rg_leases w)
    (\<lambda>entry w. if channel_upgrades w (se_channel entry) \<and> se_channel entry = l
      then (False, invalidate (sid entry) r w) else (True, w))
    (\<lambda>e c. \<not> (se_channel e \<in> set (rg_leases w) \<and> se_channel e = l))
    (end_where (\<lambda>e. se_channel e \<in> set (rg_leases w) \<and> se_channel e = l) r)"
  by (auto simp add: walks_locally_def end_where_def channel_upgrades_def invalidate_cell)

lemma end_all_local: "walks_locally leases
    (\<lambda>entry w. (False, invalidate (sid entry) r w)) (\<lambda>e c. False) (end_where (\<lambda>e. True) r)"
  by (simp add: walks_locally_def end_where_def invalidate_cell)


section \<open>The invariant\<close>

definition counts_bounded :: "subscription_entry list \<Rightarrow> bool" where
  "counts_bounded es \<longleftrightarrow> length es \<le> MAX_UPDATE_SUBSCRIPTIONS
    \<and> (\<forall>d. length (filter (\<lambda>e. se_document_id e = d) es) \<le> MAX_UPDATE_SUBSCRIPTIONS_PER_DOCUMENT)
    \<and> (\<forall>l. length (filter (\<lambda>e. se_channel e = l) es) \<le> MAX_UPDATE_SUBSCRIPTIONS_PER_CHANNEL)"

definition cell_ok :: "subscription_cell \<Rightarrow> bool" where
  "cell_ok c \<longleftrightarrow> length (sc_queue c) \<le> UPDATE_NOTIFICATION_QUEUE_CAPACITY
    \<and> (cell_active c \<longrightarrow> \<not> sc_receiver_closed c \<and> \<not> sc_sender_dropped c)"

text \<open>An ended subscription is woken: something its receiver waits on is ready.\<close>

definition wakes :: "u64 list \<Rightarrow> subscription_cell \<Rightarrow> bool" where
  "wakes leases c \<longleftrightarrow> cell_active c \<or> sc_sender_dropped c \<or> sc_receiver_closed c
    \<or> sc_channel c \<notin> set leases"

definition channels_known :: "registry \<Rightarrow> bool" where
  "channels_known w \<longleftrightarrow> (\<forall>i. sc_channel (rg_cells w i) < rg_next_channel_id w)
    \<and> (\<forall>l \<in> set (rg_leases w). l < rg_next_channel_id w)"

definition registry_ok :: "registry \<Rightarrow> bool" where
  "registry_ok w \<longleftrightarrow> counts_bounded (rg_subscriptions w) \<and> distinct (map sid (rg_subscriptions w))
    \<and> (\<forall>i. cell_ok (rg_cells w i))
    \<and> (\<forall>i. cell_active (rg_cells w i) \<longrightarrow> i \<in> sid ` set (rg_subscriptions w))
    \<and> (\<forall>e \<in> set (rg_subscriptions w). sid e < rg_next_subscription_id w
        \<and> sc_channel (rg_cells w (sid e)) = se_channel e)
    \<and> (\<forall>i. wakes (rg_leases w) (rg_cells w i)) \<and> channels_known w"

lemma registry_okD:
  assumes "registry_ok w"
  shows "counts_bounded (rg_subscriptions w)" "distinct (map sid (rg_subscriptions w))"
    "cell_ok (rg_cells w i)"
    "cell_active (rg_cells w i) \<Longrightarrow> i \<in> sid ` set (rg_subscriptions w)"
    "e \<in> set (rg_subscriptions w) \<Longrightarrow> sid e < rg_next_subscription_id w"
    "e \<in> set (rg_subscriptions w) \<Longrightarrow> sc_channel (rg_cells w (sid e)) = se_channel e"
    "wakes (rg_leases w) (rg_cells w i)" "channels_known w"
  using assms unfolding registry_ok_def by blast+

text \<open>What a walk may do to a cell.\<close>

definition walk_ok :: "keeping \<Rightarrow> changing \<Rightarrow> bool" where
  "walk_ok k g \<longleftrightarrow> (\<forall>e c. cell_ok c \<longrightarrow>
    cell_ok (g e c) \<and> sc_channel (g e c) = sc_channel c
    \<and> (cell_active (g e c) \<longrightarrow> cell_active c \<and> k e c)
    \<and> (\<not> cell_active c \<longrightarrow> g e c = c) \<and> (k e c \<longrightarrow> cell_active c \<longrightarrow> cell_active (g e c)))"

lemma walk_okD:
  assumes "walk_ok k g" "cell_ok c"
  shows "cell_ok (g e c)" "sc_channel (g e c) = sc_channel c"
    "cell_active (g e c) \<Longrightarrow> cell_active c" "cell_active (g e c) \<Longrightarrow> k e c"
    "\<not> cell_active c \<Longrightarrow> g e c = c" "k e c \<Longrightarrow> cell_active c \<Longrightarrow> cell_active (g e c)"
  using assms unfolding walk_ok_def by blast+

lemma cell_ok_end [simp]: "cell_ok c \<Longrightarrow> cell_ok (end_cell r c)"
  by (simp add: cell_ok_def)

lemma prune_walk_ok: "walk_ok (prune_keeps leases) (lose_channel leases)"
  by (simp add: walk_ok_def prune_keeps_def lose_channel_def cell_ok_def)

lemma notify_walk_ok: "walk_ok (notify_keeps leases d) (notify_changes leases d u)"
  by (simp add: walk_ok_def notify_keeps_def notify_changes_def) (simp add: cell_ok_def)

lemma end_where_walk_ok: "walk_ok (\<lambda>e c. \<not> P e) (end_where P r)"
  by (simp add: walk_ok_def end_where_def)

lemma end_all_walk_ok: "walk_ok (\<lambda>e c. False) (end_where (\<lambda>e. True) r)"
  by (simp add: walk_ok_def end_where_def)

lemma counts_bounded_filter: "counts_bounded es \<Longrightarrow> counts_bounded (filter P es)"
proof -
  have "length (filter Q (filter P es)) \<le> length (filter Q es)" for Q
    by (induction es) auto
  then show "counts_bounded es \<Longrightarrow> counts_bounded (filter P es)"
    unfolding counts_bounded_def by (meson le_trans length_filter_le)
qed

lemma settle_cell_simps:
  "sc_queue (settle_cell k g e c) = sc_queue (g e c)"
  "sc_channel (settle_cell k g e c) = sc_channel (g e c)"
  "sc_state (settle_cell k g e c) = sc_state (g e c)"
  "sc_receiver_closed (settle_cell k g e c) = sc_receiver_closed (g e c)"
  by (simp_all add: settle_cell_def)

lemma settle_cases:
  obtains (unmet) "i \<notin> sid ` set es" "settle k g es cells i = cells i"
  | (met) e where "e \<in> set es" "sid e = i" "settle k g es cells i = settle_cell k g e (cells i)"
proof (cases "List.find (\<lambda>e. sid e = i) es")
  case None
  then have "i \<notin> sid ` set es" by (auto simp add: find_None_iff)
  with None unmet show thesis by (simp add: settle_def)
next
  case (Some e)
  then have "e \<in> set es" "sid e = i" by (auto simp add: find_Some_iff in_set_conv_nth)
  with Some met show thesis by (simp add: settle_def)
qed

lemma distinct_map_eq: "distinct (map f xs) \<Longrightarrow> x \<in> set xs \<Longrightarrow> y \<in> set xs \<Longrightarrow> f x = f y \<Longrightarrow> x = y"
  by (metis distinct_map inj_onD)

lemma settle_walk:
  assumes "registry_ok w" "walk_ok k g"
  shows "cell_ok (settle k g (rg_subscriptions w) (rg_cells w) i)"
    "sc_channel (settle k g (rg_subscriptions w) (rg_cells w) i) = sc_channel (rg_cells w i)"
    "cell_active (settle k g (rg_subscriptions w) (rg_cells w) i) \<Longrightarrow> cell_active (rg_cells w i)
      \<and> (\<exists>e \<in> set (rg_subscriptions w). sid e = i \<and> k e (rg_cells w i)
        \<and> settle k g (rg_subscriptions w) (rg_cells w) i = g e (rg_cells w i))"
    "\<not> cell_active (rg_cells w i) \<Longrightarrow>
      sc_state (settle k g (rg_subscriptions w) (rg_cells w) i) = sc_state (rg_cells w i)"
    "wakes (rg_leases w) (settle k g (rg_subscriptions w) (rg_cells w) i)"
proof -
  let ?c = "settle k g (rg_subscriptions w) (rg_cells w) i"
  note c = registry_okD(3) [OF assms(1), of i]
  let ?goal = "cell_ok ?c \<and> sc_channel ?c = sc_channel (rg_cells w i)
    \<and> (cell_active ?c \<longrightarrow> cell_active (rg_cells w i) \<and> (\<exists>e \<in> set (rg_subscriptions w). sid e = i
        \<and> k e (rg_cells w i) \<and> ?c = g e (rg_cells w i)))
    \<and> (\<not> cell_active (rg_cells w i) \<longrightarrow> sc_state ?c = sc_state (rg_cells w i))
    \<and> wakes (rg_leases w) ?c"
  note wake = registry_okD(7) [OF assms(1), of i]
  have ?goal
  proof (cases rule: settle_cases [of i "rg_subscriptions w" k g "rg_cells w"])
    case unmet
    then have "\<not> cell_active (rg_cells w i)" using registry_okD(4) [OF assms(1), of i] by blast
    with unmet(2) c wake show ?goal by simp
  next
    case (met e)
    note step = walk_okD [OF assms(2) c, of e]
    have chan: "sc_channel ?c = sc_channel (rg_cells w i)" and state: "sc_state ?c = sc_state (g e (rg_cells w i))"
      unfolding met(3) by (simp_all add: settle_cell_simps step(2))
    show ?goal
    proof (cases "cell_active (g e (rg_cells w i))")
      case True
      then have "?c = g e (rg_cells w i)" using step(4) unfolding met(3) by (simp add: settle_cell_def)
      with step True met(1,2) show ?goal by (auto simp add: wakes_def)
    next
      case False
      moreover have "cell_ok ?c"
        using step(1) False unfolding met(3) by (simp add: settle_cell_def cell_ok_def)
      moreover have "\<not> cell_active (rg_cells w i) \<longrightarrow> sc_state ?c = sc_state (rg_cells w i)"
        using step(5) state by simp
      moreover have "wakes (rg_leases w) ?c"
      proof (cases "cell_active (rg_cells w i)")
        case True
        with step(6) False have "\<not> k e (rg_cells w i)" by blast
        then show ?thesis unfolding met(3) by (simp add: settle_cell_def wakes_def)
      next
        case inactive: False
        then have "?c = rg_cells w i \<or> sc_sender_dropped ?c"
          using step(5) unfolding met(3) by (simp add: settle_cell_def)
        with wake show ?thesis by (auto simp add: wakes_def)
      qed
      ultimately show ?goal using chan state by simp
    qed
  qed
  then show "cell_ok ?c" "sc_channel ?c = sc_channel (rg_cells w i)"
    "cell_active ?c \<Longrightarrow> cell_active (rg_cells w i) \<and> (\<exists>e \<in> set (rg_subscriptions w). sid e = i
        \<and> k e (rg_cells w i) \<and> ?c = g e (rg_cells w i))"
    "\<not> cell_active (rg_cells w i) \<Longrightarrow> sc_state ?c = sc_state (rg_cells w i)"
    "wakes (rg_leases w) ?c" by blast+
qed

lemma retain_ok:
  assumes "registry_ok w" "walks_locally (rg_leases w) f k g" "walk_ok k g"
  shows "registry_ok (retain f w)"
proof -
  note keep = settle_walk [OF assms(1,3)]
  have eq: "retain f w = w\<lparr> rg_subscriptions := filter (\<lambda>e. k e (rg_cells w (sid e))) (rg_subscriptions w),
      rg_cells := settle k g (rg_subscriptions w) (rg_cells w) \<rparr>"
    by (rule retain_local [OF registry_okD(2) [OF assms(1)] assms(2)])
  let ?w = "retain f w"
  note ok = registry_okD [OF assms(1)]
  have fields: "rg_subscriptions ?w = filter (\<lambda>e. k e (rg_cells w (sid e))) (rg_subscriptions w)"
    "rg_cells ?w = settle k g (rg_subscriptions w) (rg_cells w)"
    "rg_next_subscription_id ?w = rg_next_subscription_id w" "rg_leases ?w = rg_leases w"
    "rg_next_channel_id ?w = rg_next_channel_id w"
    by (simp_all add: eq)
  have "counts_bounded (rg_subscriptions ?w)" "distinct (map sid (rg_subscriptions ?w))"
    using ok(1,2) by (simp_all add: fields counts_bounded_filter distinct_map_filter)
  moreover have "cell_ok (rg_cells ?w i)" for i by (simp add: fields keep(1))
  moreover have "i \<in> sid ` set (rg_subscriptions ?w)" if "cell_active (rg_cells ?w i)" for i
    using keep(3) [of i] that unfolding fields by auto
  moreover have "sid e < rg_next_subscription_id ?w \<and> sc_channel (rg_cells ?w (sid e)) = se_channel e"
    if "e \<in> set (rg_subscriptions ?w)" for e
    using ok(5,6) [of e] that unfolding fields keep(2) by simp
  moreover have "wakes (rg_leases ?w) (rg_cells ?w i)" for i unfolding fields by (rule keep(5))
  moreover have "channels_known ?w" using ok(8) unfolding channels_known_def fields keep(2) .
  ultimately show ?thesis unfolding registry_ok_def by blast
qed

text \<open>A walk that leaves an entry's subscription active has kept the entry.\<close>

lemma retain_active:
  assumes "registry_ok w" "walks_locally (rg_leases w) f k g" "walk_ok k g"
    and "e \<in> set (rg_subscriptions w)" "cell_active (rg_cells (retain f w) (sid e))"
  shows "e \<in> set (rg_subscriptions (retain f w))" "cell_active (rg_cells w (sid e))"
    "k e (rg_cells w (sid e))" "rg_cells (retain f w) (sid e) = g e (rg_cells w (sid e))"
proof -
  have eq: "retain f w = w\<lparr> rg_subscriptions := filter (\<lambda>e. k e (rg_cells w (sid e))) (rg_subscriptions w),
      rg_cells := settle k g (rg_subscriptions w) (rg_cells w) \<rparr>"
    by (rule retain_local [OF registry_okD(2) [OF assms(1)] assms(2)])
  then have "cell_active (settle k g (rg_subscriptions w) (rg_cells w) (sid e))" using assms(5) by simp
  from settle_walk(3) [OF assms(1,3) this] obtain e' where e':
    "cell_active (rg_cells w (sid e))" "e' \<in> set (rg_subscriptions w)" "sid e' = sid e"
    "k e' (rg_cells w (sid e))"
    "settle k g (rg_subscriptions w) (rg_cells w) (sid e) = g e' (rg_cells w (sid e))" by blast
  then have "e' = e" using distinct_map_eq [OF registry_okD(2) [OF assms(1)]] assms(4) by blast
  with e' show "e \<in> set (rg_subscriptions (retain f w))" "cell_active (rg_cells w (sid e))"
    "k e (rg_cells w (sid e))" "rg_cells (retain f w) (sid e) = g e (rg_cells w (sid e))"
    by (simp_all add: eq assms(4))
qed

lemma retain_terminal:
  assumes "registry_ok w" "walks_locally (rg_leases w) f k g" "walk_ok k g"
    and "\<not> cell_active (rg_cells w i)"
  shows "sc_state (rg_cells (retain f w) i) = sc_state (rg_cells w i)"
  using settle_walk(4) [OF assms(1,3,4)] retain_local [OF registry_okD(2) [OF assms(1)] assms(2)]
  by simp

lemma retain_frame:
  assumes "registry_ok w" "walks_locally (rg_leases w) f k g"
  shows "rg_leases (retain f w) = rg_leases w" "rg_broker (retain f w) = rg_broker w"
    "rg_next_subscription_id (retain f w) = rg_next_subscription_id w"
    "rg_next_channel_id (retain f w) = rg_next_channel_id w"
    "set (rg_subscriptions (retain f w)) \<subseteq> set (rg_subscriptions w)"
  using retain_local [OF registry_okD(2) [OF assms(1)] assms(2)] by auto

end
