(* ===== verification/Subscription_Runs.thy ===== *)
theory Subscription_Runs
  imports Subscription_Safety
begin

text \<open>
  Runs of the registry: every operation of the broker and of the receivers, in any order, keeps
  the invariant.  Over runs, an active subscription misses no update of its document, and an
  ended one reports the same reason forever.
\<close>

section \<open>Every operation keeps the invariant\<close>

lemma registry_new_ok: "registry_ok (registry_new broker)"
  by (simp add: registry_ok_def registry_new_def counts_bounded_def cell_ok_def wakes_def
      channels_known_def state_byte_defs)

lemma word_less_Suc: "checked_add n 1 = Some m \<Longrightarrow> (k :: u64) < m \<longleftrightarrow> k < n \<or> k = n"
  using checked_add_unat [of n 1 m] by (auto simp add: word_less_nat_alt word_unat_eq_iff)

lemma open_channel_ok: "registry_ok w \<Longrightarrow> registry_ok (snd (open_channel w))"
proof (cases "checked_add (rg_next_channel_id w) 1")
  case (Some following)
  assume ok: "registry_ok w"
  note known = registry_okD(8) [OF ok, unfolded channels_known_def]
  have "sc_channel (rg_cells w i) \<noteq> rg_next_channel_id w" for i
    using known by (metis less_irrefl)
  then have "wakes (rg_next_channel_id w # rg_leases w) (rg_cells w i)" for i
    using registry_okD(7) [OF ok, of i] by (auto simp add: wakes_def)
  with ok known show ?thesis
    by (auto simp add: registry_ok_def open_channel_def Some channels_known_def
        word_less_Suc [OF Some] Let_def)
qed (simp add: open_channel_def)

lemma drop_channel_ok: "registry_ok w \<Longrightarrow> registry_ok (drop_channel channel w)"
  by (auto simp add: registry_ok_def drop_channel_def wakes_def channels_known_def)

lemmas prune_retain = prune_local prune_walk_ok
lemmas notify_retain = notify_local notify_walk_ok

lemma prune_ok: "registry_ok w \<Longrightarrow> registry_ok (prune w)"
  unfolding prune_def by (rule retain_ok [OF _ prune_retain])

lemma notify_ok: "registry_ok w \<Longrightarrow> registry_ok (notify d u w)"
  unfolding notify_def by (rule retain_ok [OF _ notify_retain])

lemma invalidate_subscriptions_ok: "registry_ok w \<Longrightarrow> registry_ok (invalidate_subscriptions ids r w)"
  unfolding invalidate_subscriptions_def by (rule retain_ok [OF _ end_where_local end_where_walk_ok])

lemma invalidate_document_ok: "registry_ok w \<Longrightarrow> registry_ok (invalidate_document d r w)"
  unfolding invalidate_document_def by (rule retain_ok [OF _ end_where_local end_where_walk_ok])

lemma close_channel_ok: "registry_ok w \<Longrightarrow> registry_ok (close_channel channel w)"
  unfolding close_channel_def
  by (simp add: drop_channel_ok retain_ok [OF _ end_where_leases_local end_where_walk_ok])

lemma shutdown_ok: "registry_ok w \<Longrightarrow> registry_ok (shutdown w)"
  unfolding shutdown_def by (rule retain_ok [OF _ end_all_local end_all_walk_ok])

lemma set_cell_ok:
  assumes "registry_ok w" "cell_ok c" "sc_channel c = sc_channel (rg_cells w i)"
    and "cell_active c \<Longrightarrow> cell_active (rg_cells w i)" "wakes (rg_leases w) c"
  shows "registry_ok (w\<lparr> rg_cells := (rg_cells w)(i := c) \<rparr>)"
  using assms unfolding registry_ok_def channels_known_def by auto

lemma gates_ok [simp]:
  "registry_ok (w\<lparr> rg_gates := gs \<rparr>) = registry_ok w"
  "registry_ok (w\<lparr> rg_emission_gates := es \<rparr>) = registry_ok w"
  "registry_ok (w\<lparr> rg_next_gate := n \<rparr>) = registry_ok w"
  by (simp_all add: registry_ok_def channels_known_def)

definition gates_only :: "registry \<Rightarrow> registry \<Rightarrow> bool" where
  "gates_only w w' \<longleftrightarrow> w' = w\<lparr> rg_gates := rg_gates w', rg_emission_gates := rg_emission_gates w',
    rg_next_gate := rg_next_gate w' \<rparr>"

lemma emission_gate_frame: "gates_only w (snd (emission_gate_of d w))"
  by (simp add: gates_only_def emission_gate_of_def Let_def split: option.split)

text \<open>Ended cells that still get no wake-up are the ones whose channel is gone.\<close>

lemma subscription_ended_eq:
  "subscription_ended i w =
    (if sc_channel (rg_cells w i) \<in> set (rg_leases w) then (decode_end (sc_state (rg_cells w i)), w)
     else (decode_end (sc_state (end_cell ChannelLost (rg_cells w i))),
       w\<lparr> rg_cells := (rg_cells w)(i := end_cell ChannelLost (rg_cells w i)) \<rparr>))"
  by (simp add: subscription_ended_def channel_upgrades_def invalidate_cell Let_def)

lemma lose_cell_ok:
  assumes "registry_ok w" "sc_channel (rg_cells w i) \<notin> set (rg_leases w)"
  shows "registry_ok (w\<lparr> rg_cells := (rg_cells w)(i := end_cell ChannelLost (rg_cells w i)) \<rparr>)"
  using assms registry_okD(3) [OF assms(1), of i]
  by (intro set_cell_ok) (simp_all add: wakes_def)

lemma subscription_ended_ok: "registry_ok w \<Longrightarrow> registry_ok (snd (subscription_ended i w))"
  using lose_cell_ok [of w i] by (simp add: subscription_ended_eq)

lemma cell_pop_ok: "registry_ok w \<Longrightarrow> registry_ok (cell_pop i w)"
  using registry_okD(3,7) [of w i] unfolding cell_pop_def
  by (intro set_cell_ok) (auto simp add: cell_ok_def wakes_def)

lemma queue_poll_ok: "registry_ok w \<Longrightarrow> registry_ok (snd (queue_poll i w))"
  using subscription_ended_ok [of w i] subscription_ended_ok [OF cell_pop_ok, of w i i]
  by (auto simp add: queue_poll_def poll_received_def poll_disconnected_def split: list.split
      prod.splits option.splits)

lemma next_select_ok: "registry_ok w \<Longrightarrow> registry_ok (snd (next_select i w))"
  using queue_poll_ok [of w i] lose_cell_ok [of w i]
    subscription_ended_ok [of "w\<lparr> rg_cells := (rg_cells w)(i := end_cell ChannelLost (rg_cells w i)) \<rparr>" i]
  by (auto simp add: next_select_def channel_upgrades_def invalidate_cell split: prod.splits option.splits)

lemma subscription_next_ok: "registry_ok w \<Longrightarrow> registry_ok (snd (subscription_next i w))"
  using subscription_ended_ok [of w i] next_select_ok [of "snd (subscription_ended i w)" i]
  by (auto simp add: subscription_next_def split: prod.splits option.splits)

lemma try_next_ok: "registry_ok w \<Longrightarrow> registry_ok (snd (try_next i w))"
  using subscription_ended_ok [of w i] queue_poll_ok [of "snd (subscription_ended i w)" i]
  by (auto simp add: try_next_def split: prod.splits option.splits)

lemma subscription_cancel_eq:
  "subscription_cancel i w = w\<lparr> rg_cells := (rg_cells w)(i :=
    (end_cell Cancelled (rg_cells w i))\<lparr> sc_receiver_closed := True \<rparr>) \<rparr>"
  by (simp add: subscription_cancel_def invalidate_cell Let_def)

lemma subscription_cancel_ok: "registry_ok w \<Longrightarrow> registry_ok (subscription_cancel i w)"
  using registry_okD(3) [of w i] unfolding subscription_cancel_eq
  by (intro set_cell_ok) (simp_all add: cell_ok_def wakes_def)

lemma drop_subscription_ok: "registry_ok w \<Longrightarrow> registry_ok (drop_subscription i w)"
  by (simp add: drop_subscription_def drop_gate_def Let_def subscription_cancel_ok)


section \<open>Registration\<close>

lemma prune_live:
  assumes "registry_ok w" "e \<in> set (rg_subscriptions (prune w))"
  shows "se_channel e \<in> set (rg_leases w)"
proof -
  have "prune w = w\<lparr> rg_subscriptions := filter (\<lambda>e. prune_keeps (rg_leases w) e (rg_cells w (sid e)))
      (rg_subscriptions w), rg_cells := settle (prune_keeps (rg_leases w)) (lose_channel (rg_leases w))
      (rg_subscriptions w) (rg_cells w) \<rparr>"
    unfolding prune_def by (rule retain_local [OF registry_okD(2) [OF assms(1)] prune_local])
  with assms(2) show ?thesis by (simp add: prune_keeps_def)
qed

definition registered_entry :: "broker_channel \<Rightarrow> document_id \<Rightarrow> capability_id \<Rightarrow> u64 \<Rightarrow> subscription_entry" where
  "registered_entry channel d c i = \<lparr> se_capability_id = c, se_channel = bc_lease channel,
    se_document_id = d, se_subscription_id = i \<rparr>"

definition registered_cell :: "broker_channel \<Rightarrow> nat \<Rightarrow> subscription_cell" where
  "registered_cell channel gate = \<lparr> sc_channel = bc_lease channel, sc_gate = gate, sc_queue = [],
    sc_receiver_closed = False, sc_sender_dropped = False, sc_state = ACTIVE \<rparr>"

text \<open>A registration either changes nothing beyond the pruning or appends one fresh entry.\<close>

lemma register_cases:
  obtains (refused) err where "register channel d c w = (Inl err, w) \<or> register channel d c w = (Inl err, prune w)"
  | (added) following gate gs es n where
    "recognizes w channel"
    "register channel d c w = (Inr (rg_next_subscription_id (prune w)), (prune w)\<lparr>
      rg_next_subscription_id := following, rg_gates := gs, rg_emission_gates := es, rg_next_gate := n,
      rg_cells := (rg_cells (prune w))(rg_next_subscription_id (prune w) := registered_cell channel gate),
      rg_subscriptions := rg_subscriptions (prune w)
        @ [registered_entry channel d c (rg_next_subscription_id (prune w))] \<rparr>)"
    "checked_add (rg_next_subscription_id (prune w)) 1 = Some following"
    "length (rg_subscriptions (prune w)) < MAX_UPDATE_SUBSCRIPTIONS"
    "length (filter (\<lambda>e. channel_upgrades (prune w) (se_channel e) \<and> se_channel e = bc_lease channel)
      (rg_subscriptions (prune w))) < MAX_UPDATE_SUBSCRIPTIONS_PER_CHANNEL"
    "length (filter (\<lambda>e. se_document_id e = d) (rg_subscriptions (prune w)))
      < MAX_UPDATE_SUBSCRIPTIONS_PER_DOCUMENT"
proof -
  let ?p = "prune w"
  let ?full = "length (rg_subscriptions ?p) \<ge> MAX_UPDATE_SUBSCRIPTIONS
      \<or> length (filter (\<lambda>e. channel_upgrades ?p (se_channel e) \<and> se_channel e = bc_lease channel)
        (rg_subscriptions ?p)) \<ge> MAX_UPDATE_SUBSCRIPTIONS_PER_CHANNEL
      \<or> length (filter (\<lambda>e. se_document_id e = d) (rg_subscriptions ?p)) \<ge> MAX_UPDATE_SUBSCRIPTIONS_PER_DOCUMENT"
  consider (unknown) "\<not> recognizes w channel" | (full) "recognizes w channel" ?full
    | (room) "recognizes w channel" "\<not> ?full" by blast
  then show thesis
  proof cases
    case unknown
    then have "register channel d c w = (Inl InvalidChannel, w)" by (simp add: register_def)
    with refused show thesis by blast
  next
    case full
    then have "register channel d c w = (Inl RegisterBackpressure, ?p)" by (simp add: register_def Let_def)
    with refused show thesis by blast
  next
    case room
    show thesis
    proof (cases "checked_add (rg_next_subscription_id ?p) 1")
      case None
      with room have "register channel d c w = (Inl RegisterBackpressure, ?p)"
        by (simp add: register_def Let_def)
      with refused show thesis by blast
    next
      case (Some following)
      let ?w = "?p\<lparr> rg_next_subscription_id := following \<rparr>"
      obtain gate w' where g: "emission_gate_of d ?w = (gate, w')" by (metis prod.collapse)
      then have w': "w' = ?w\<lparr> rg_gates := rg_gates w', rg_emission_gates := rg_emission_gates w',
          rg_next_gate := rg_next_gate w' \<rparr>"
        using emission_gate_frame [of ?w d] by (simp add: gates_only_def)
      have "register channel d c w = (Inr (rg_next_subscription_id ?p), w'\<lparr>
          rg_cells := (rg_cells w')(rg_next_subscription_id ?p := registered_cell channel gate),
          rg_subscriptions := rg_subscriptions w'
            @ [registered_entry channel d c (rg_next_subscription_id ?p)] \<rparr>)"
        using room Some g by (simp add: register_def Let_def registered_entry_def registered_cell_def)
      also have "\<dots> = (Inr (rg_next_subscription_id ?p), ?p\<lparr>
          rg_next_subscription_id := following, rg_gates := rg_gates w',
          rg_emission_gates := rg_emission_gates w', rg_next_gate := rg_next_gate w',
          rg_cells := (rg_cells ?p)(rg_next_subscription_id ?p := registered_cell channel gate),
          rg_subscriptions := rg_subscriptions ?p
            @ [registered_entry channel d c (rg_next_subscription_id ?p)] \<rparr>)"
        by (subst (1 2 3) w') simp
      finally show thesis using added [OF room(1) _ Some] room(2) by (simp add: not_le)
    qed
  qed
qed

lemma register_ok:
  assumes "registry_ok w" "recognizes w channel \<longrightarrow> bc_lease channel \<in> set (rg_leases w)"
  shows "registry_ok (snd (register channel d c w))"
proof (cases rule: register_cases [of channel d c w])
  case (refused err)
  then show ?thesis using assms(1) prune_ok [OF assms(1)] by auto
next
  case (added following gate gs es n)
  let ?p = "prune w" and ?new = "rg_next_subscription_id (prune w)"
  let ?e = "registered_entry channel d c ?new"
  have ok: "registry_ok ?p" by (rule prune_ok [OF assms(1)])
  note frame = retain_frame [OF assms(1) prune_local, folded prune_def]
  have leases: "rg_leases ?p = rg_leases w" and chans: "rg_next_channel_id ?p = rg_next_channel_id w"
    using frame by simp_all
  have live: "bc_lease channel \<in> set (rg_leases w)" using assms(2) added(1) by blast
  have fresh: "?new \<notin> sid ` set (rg_subscriptions ?p)" "\<not> cell_active (rg_cells ?p ?new)"
    using registry_okD(4,5) [OF ok] by (metis image_iff less_irrefl)+
  have apart: "sid e \<noteq> ?new" if "e \<in> set (rg_subscriptions ?p)" for e
    using fresh(1) that by force
  have "filter (\<lambda>e. channel_upgrades ?p (se_channel e) \<and> se_channel e = bc_lease channel) (rg_subscriptions ?p)
      = filter (\<lambda>e. se_channel e = bc_lease channel) (rg_subscriptions ?p)"
    using prune_live [OF assms(1)] by (intro filter_cong) (auto simp add: channel_upgrades_def leases)
  with added(4-6) have "counts_bounded (rg_subscriptions ?p @ [?e])"
    using registry_okD(1) [OF ok] unfolding counts_bounded_def registered_entry_def by auto
  moreover have "distinct (map sid (rg_subscriptions ?p @ [?e]))"
    using registry_okD(2) [OF ok] fresh(1) by (simp add: registered_entry_def)
  moreover have "bc_lease channel < rg_next_channel_id w"
    using registry_okD(8) [OF assms(1)] live by (simp add: channels_known_def)
  ultimately show ?thesis
    unfolding added(2) registry_ok_def
    using registry_okD [OF ok] word_less_Suc [OF added(3)] fresh apart
    by (auto simp add: registered_entry_def registered_cell_def cell_ok_def wakes_def channels_known_def chans)
qed


section \<open>Events and runs\<close>

text \<open>
  The operations of the broker and of the receivers.  \<open>Next\<close> is a call of \<open>next\<close>, \<open>Select\<close> a later
  poll of its wait.
\<close>

datatype registry_event =
    OpenChannel
  | DropChannel broker_channel
  | CloseChannel broker_channel
  | Register broker_channel document_id capability_id
  | Notify document_id update_id
  | InvalidateSubscriptions "u64 list" update_subscription_end
  | InvalidateDocument document_id update_subscription_end
  | Shutdown
  | Next u64
  | Select u64
  | TryNext u64
  | Cancel u64
  | DropSubscription u64

fun registry_step :: "registry_event \<Rightarrow> registry \<Rightarrow> registry" where
  "registry_step OpenChannel w = snd (open_channel w)"
| "registry_step (DropChannel channel) w = drop_channel channel w"
| "registry_step (CloseChannel channel) w = close_channel channel w"
| "registry_step (Register channel d c) w = snd (register channel d c w)"
| "registry_step (Notify d u) w = notify d u w"
| "registry_step (InvalidateSubscriptions ids r) w = invalidate_subscriptions ids r w"
| "registry_step (InvalidateDocument d r) w = invalidate_document d r w"
| "registry_step Shutdown w = shutdown w"
| "registry_step (Next i) w = snd (subscription_next i w)"
| "registry_step (Select i) w = snd (next_select i w)"
| "registry_step (TryNext i) w = snd (try_next i w)"
| "registry_step (Cancel i) w = subscription_cancel i w"
| "registry_step (DropSubscription i) w = drop_subscription i w"

text \<open>A caller of \<open>register\<close> holds the channel, so a recognized one is alive.\<close>

fun possible :: "registry_event \<Rightarrow> registry \<Rightarrow> bool" where
  "possible (Register channel d c) w = (recognizes w channel \<longrightarrow> bc_lease channel \<in> set (rg_leases w))"
| "possible _ w = True"

fun registry_run :: "registry_event list \<Rightarrow> registry \<Rightarrow> registry" where
  "registry_run [] w = w"
| "registry_run (e # es) w = registry_run es (registry_step e w)"

fun possible_run :: "registry_event list \<Rightarrow> registry \<Rightarrow> bool" where
  "possible_run [] w = True"
| "possible_run (e # es) w = (possible e w \<and> possible_run es (registry_step e w))"

text \<open>What the receiver of subscription \<open>i\<close> sees of an event.\<close>

fun observed :: "u64 \<Rightarrow> registry_event \<Rightarrow> registry \<Rightarrow> update_subscription_poll option" where
  "observed i (Next j) w = (if i = j then Some (fst (subscription_next i w)) else None)"
| "observed i (Select j) w = (if i = j then Some (fst (next_select i w)) else None)"
| "observed i (TryNext j) w = (if i = j then Some (fst (try_next i w)) else None)"
| "observed i _ w = None"

lemma registry_step_ok: "registry_ok w \<Longrightarrow> possible e w \<Longrightarrow> registry_ok (registry_step e w)"
  by (cases e) (simp_all add: open_channel_ok drop_channel_ok close_channel_ok register_ok notify_ok
      invalidate_subscriptions_ok invalidate_document_ok shutdown_ok subscription_next_ok
      next_select_ok try_next_ok subscription_cancel_ok drop_subscription_ok)

lemma registry_run_ok: "registry_ok w \<Longrightarrow> possible_run es w \<Longrightarrow> registry_ok (registry_run es w)"
  by (induction es arbitrary: w) (auto intro: registry_step_ok)

end
