(* ===== verification/Subscription_Properties.thy ===== *)
theory Subscription_Properties
  imports Subscription_Runs
begin

text \<open>The properties of the subscription registry over all runs.\<close>

section \<open>Receivers touch their own cell\<close>

definition touches :: "u64 \<Rightarrow> registry \<Rightarrow> registry \<Rightarrow> bool" where
  "touches i w w' \<longleftrightarrow> (\<exists>c. w' = w\<lparr> rg_cells := (rg_cells w)(i := c) \<rparr>
    \<and> (\<not> cell_active (rg_cells w i) \<longrightarrow> sc_state c = sc_state (rg_cells w i)))"

lemma touches_refl [simp]: "touches i w w"
  unfolding touches_def by (intro exI [of _ "rg_cells w i"]) simp

lemma touchesI:
  "(\<not> cell_active (rg_cells w i) \<Longrightarrow> sc_state c = sc_state (rg_cells w i)) \<Longrightarrow>
    touches i w (w\<lparr> rg_cells := (rg_cells w)(i := c) \<rparr>)"
  unfolding touches_def by blast

lemma touches_trans: "touches i w w' \<Longrightarrow> touches i w' w'' \<Longrightarrow> touches i w w''"
  by (auto simp add: touches_def)

lemma touchesD:
  assumes "touches i w w'"
  shows "rg_subscriptions w' = rg_subscriptions w" "rg_leases w' = rg_leases w"
    "rg_next_subscription_id w' = rg_next_subscription_id w"
    "j \<noteq> i \<Longrightarrow> rg_cells w' j = rg_cells w j"
    "\<not> cell_active (rg_cells w j) \<Longrightarrow> sc_state (rg_cells w' j) = sc_state (rg_cells w j)"
  using assms by (auto simp add: touches_def) (cases "j = i"; auto)

lemma touches_ended: "touches i w (snd (subscription_ended i w))"
  by (simp add: subscription_ended_eq touchesI)

lemma touches_pop: "touches i w (cell_pop i w)"
  by (simp add: cell_pop_def touchesI)

lemma touches_queue_poll: "touches i w (snd (queue_poll i w))"
  using touches_ended [of i w] touches_trans [OF touches_pop touches_ended, of i w]
  by (auto simp add: queue_poll_def poll_received_def poll_disconnected_def
      split: list.split prod.splits option.splits)

lemma touches_select: "touches i w (snd (next_select i w))"
  using touches_queue_poll [of i w] touches_trans [OF touchesI touches_ended, of w i
      "end_cell ChannelLost (rg_cells w i)"]
  by (auto simp add: next_select_def invalidate_cell split: prod.splits option.splits)

lemma touches_next: "touches i w (snd (subscription_next i w))"
  using touches_ended [of i w] touches_trans [OF touches_ended touches_select, of i w]
  by (auto simp add: subscription_next_def split: prod.splits option.splits)

lemma touches_try_next: "touches i w (snd (try_next i w))"
  using touches_ended [of i w] touches_trans [OF touches_ended touches_queue_poll, of i w]
  by (auto simp add: try_next_def split: prod.splits option.splits)

lemma touches_cancel: "touches i w (subscription_cancel i w)"
  by (simp add: subscription_cancel_eq touchesI)

lemma decode_end_None [simp]: "decode_end s = None \<longleftrightarrow> s = ACTIVE"
  by (simp add: decode_end_def)

lemma decode_end_active [simp]: "decode_end ACTIVE = None"
  by (simp add: decode_end_def)

lemma decode_encode_end: "decode_end (encode_end r) = Some r"
  by (cases r) (simp_all add: decode_end_def state_byte_defs)


section \<open>Bounds\<close>

text \<open>
  The registry stays within its limits in every run: at most 1024 subscriptions, 128 for a
  document and 32 for a channel, at most 8 queued wakeups for each, subscription identifiers are
  never reused, and an active subscription is always registered with both ends of its queue
  open.
\<close>

theorem registry_stays_bounded:
  assumes "possible_run es (registry_new broker)" "w = registry_run es (registry_new broker)"
  shows "length (rg_subscriptions w) \<le> 1024
    \<and> length (filter (\<lambda>e. se_document_id e = d) (rg_subscriptions w)) \<le> 128
    \<and> length (filter (\<lambda>e. se_channel e = l) (rg_subscriptions w)) \<le> 32
    \<and> length (sc_queue (rg_cells w i)) \<le> 8
    \<and> distinct (map se_subscription_id (rg_subscriptions w))
    \<and> (sc_state (rg_cells w i) = ACTIVE \<longrightarrow> i \<in> se_subscription_id ` set (rg_subscriptions w)
        \<and> \<not> sc_receiver_closed (rg_cells w i) \<and> \<not> sc_sender_dropped (rg_cells w i))"
proof -
  have ok: "registry_ok w" using registry_run_ok [OF registry_new_ok assms(1)] assms(2) by simp
  show ?thesis
    using registry_okD(1-4) [OF ok]
    by (auto simp add: counts_bounded_def cell_ok_def subscription_limit_defs)
qed

definition demo_channel :: broker_channel where
  "demo_channel = \<lparr> bc_broker = 0, bc_lease = 1 \<rparr>"

definition demo_events :: "registry_event list" where
  "demo_events = [OpenChannel, Register demo_channel 4 5]"

lemma demo_open: "open_channel (registry_new 0) = (Some demo_channel,
    (registry_new 0)\<lparr> rg_next_channel_id := 2, rg_leases := [1] \<rparr>)"
  by (simp add: open_channel_def registry_new_def checked_add_def demo_channel_def)

lemma demo_possible: "possible_run demo_events (registry_new 0)"
  using arg_cong [OF demo_open, of snd] by (simp add: demo_events_def demo_channel_def)

lemma demo_registered:
  "rg_subscriptions (registry_run demo_events (registry_new 0))
    = [\<lparr> se_capability_id = 5, se_channel = 1, se_document_id = 4, se_subscription_id = 1 \<rparr>]"
  "sc_state (rg_cells (registry_run demo_events (registry_new 0)) 1) = ACTIVE"
  "sc_queue (rg_cells (registry_run demo_events (registry_new 0)) 1) = []"
  "rg_leases (registry_run demo_events (registry_new 0)) = [1]"
  "sc_channel (rg_cells (registry_run demo_events (registry_new 0)) 1) = 1"
  using arg_cong [OF demo_open, of snd]
  by (simp_all add: demo_events_def register_def recognizes_def demo_channel_def registry_new_def
      prune_def retain_def subscription_limit_defs checked_add_def emission_gate_of_def Let_def)

theorem registry_stays_bounded_witness:
  "length (rg_subscriptions (registry_run demo_events (registry_new 0))) \<le> 1024"
  using registry_stays_bounded [OF demo_possible refl] by blast


section \<open>Ended subscriptions\<close>

lemma registry_step_next:
  assumes "registry_ok w" "i < rg_next_subscription_id w"
  shows "i < rg_next_subscription_id (registry_step e w)"
proof -
  note walk = retain_frame(3) [OF assms(1)]
  show ?thesis
  proof (cases e)
    case OpenChannel
    then show ?thesis using assms(2) by (simp add: open_channel_def Let_def split: option.split)
  next
    case (Register channel d c)
    have "rg_next_subscription_id (prune w) = rg_next_subscription_id w"
      unfolding prune_def by (rule walk [OF prune_local])
    then show ?thesis
      using assms(2) word_less_Suc
      by (cases rule: register_cases [of channel d c w]) (auto simp add: Register)
  qed (use assms(2) walk [OF notify_local] walk [OF end_where_local] walk [OF end_where_leases_local]
      walk [OF end_all_local] touchesD(3) [OF touches_next] touchesD(3) [OF touches_select]
      touchesD(3) [OF touches_try_next] touchesD(3) [OF touches_cancel]
    in \<open>simp_all add: close_channel_def drop_channel_def notify_def invalidate_subscriptions_def
      invalidate_document_def shutdown_def drop_subscription_def drop_gate_def Let_def\<close>)
qed

lemma registry_step_terminal:
  assumes "registry_ok w" "\<not> cell_active (rg_cells w i)" "i < rg_next_subscription_id w"
  shows "sc_state (rg_cells (registry_step e w) i) = sc_state (rg_cells w i)"
proof -
  note walk = retain_terminal [OF assms(1) _ _ assms(2)]
  show ?thesis
  proof (cases e)
    case OpenChannel
    then show ?thesis by (simp add: open_channel_def Let_def split: option.split)
  next
    case (CloseChannel channel)
    then show ?thesis
      using walk [OF end_where_leases_local end_where_walk_ok]
      by (simp add: close_channel_def drop_channel_def)
  next
    case (Register channel d c)
    have "sc_state (rg_cells (prune w) i) = sc_state (rg_cells w i)"
      unfolding prune_def by (rule walk [OF prune_retain])
    moreover have "rg_next_subscription_id (prune w) = rg_next_subscription_id w"
      unfolding prune_def by (rule retain_frame(3) [OF assms(1) prune_local])
    ultimately show ?thesis
      using assms(3) by (cases rule: register_cases [of channel d c w]) (auto simp add: Register)
  qed (use walk [OF notify_retain] walk [OF end_where_local end_where_walk_ok]
      walk [OF end_all_local end_all_walk_ok] touchesD(5) [OF touches_next assms(2)]
      touchesD(5) [OF touches_select assms(2)] touchesD(5) [OF touches_try_next assms(2)]
      touchesD(5) [OF touches_cancel assms(2)]
    in \<open>simp_all add: drop_channel_def notify_def invalidate_subscriptions_def
      invalidate_document_def shutdown_def drop_subscription_def drop_gate_def Let_def\<close>)
qed

lemma ended_poll:
  assumes "registry_ok w" "decode_end (sc_state (rg_cells w i)) = Some r"
  shows "fst (subscription_ended i w) = Some r" "fst (queue_poll i w) = PollInvalidated r
      \<or> sc_channel (rg_cells w i) \<notin> set (rg_leases w)"
    "fst (next_select i w) = PollInvalidated r" "fst (subscription_next i w) = PollInvalidated r"
    "fst (try_next i w) = PollInvalidated r"
proof -
  have inactive: "\<not> cell_active (rg_cells w i)" using assms(2) by (auto simp add: decode_end_def)
  have ended: "subscription_ended i v = (Some r, v)" if "rg_cells v i = rg_cells w i \<or> v = cell_pop i w" for v
  proof -
    have "decode_end (sc_state (rg_cells v i)) = Some r" "\<not> cell_active (rg_cells v i)"
      using that assms(2) inactive by (auto simp add: cell_pop_def)
    then show ?thesis by (simp add: subscription_ended_eq)
  qed
  show "fst (subscription_ended i w) = Some r" using ended by simp
  have queue: "fst (queue_poll i w) = PollInvalidated r" if "sc_channel (rg_cells w i) \<in> set (rg_leases w)"
    using that registry_okD(7) [OF assms(1), of i] inactive ended [of w] ended [of "cell_pop i w"]
    by (auto simp add: queue_poll_def poll_received_def poll_disconnected_def wakes_def split: list.split)
  then show "fst (queue_poll i w) = PollInvalidated r \<or> sc_channel (rg_cells w i) \<notin> set (rg_leases w)" by blast
  show "fst (next_select i w) = PollInvalidated r"
    using queue ended [of w] inactive
    by (auto simp add: next_select_def channel_upgrades_def invalidate_cell)
  show "fst (subscription_next i w) = PollInvalidated r" "fst (try_next i w) = PollInvalidated r"
    using ended [of w] by (simp_all add: subscription_next_def try_next_def)
qed

lemma registry_run_terminal:
  assumes "registry_ok w" "possible_run es w" "\<not> cell_active (rg_cells w i)"
    and "i < rg_next_subscription_id w"
  shows "sc_state (rg_cells (registry_run es w) i) = sc_state (rg_cells w i)"
  using assms
proof (induction es arbitrary: w)
  case (Cons e es)
  then have "possible e w" "possible_run es (registry_step e w)" by simp_all
  with Cons show ?case
    using registry_step_terminal [OF Cons.prems(1,3,4)] registry_step_next [OF Cons.prems(1,4)]
      registry_step_ok [OF Cons.prems(1)] by simp
qed simp

text \<open>
  An ended subscription stays ended, for the reason it ended with.  Once the state of a
  registered subscription is not active, no run changes it, and after any run every poll of the
  receiver - a call of \<open>next\<close> or \<open>try_next\<close>, or a poll of a wait already begun - returns at once,
  with exactly this reason: it neither waits nor delivers a wakeup that is still queued.
\<close>

theorem ended_subscription_reports_one_reason:
  assumes "possible_run es (registry_new broker)" "w = registry_run es (registry_new broker)"
    and "i < rg_next_subscription_id w" "decode_end (sc_state (rg_cells w i)) = Some reason"
    and "possible_run es' w" "observed i e (registry_run es' w) = Some poll"
  shows "sc_state (rg_cells (registry_run es' w) i) = sc_state (rg_cells w i)
    \<and> poll = PollInvalidated reason"
proof -
  have ok: "registry_ok w" using registry_run_ok [OF registry_new_ok assms(1)] assms(2) by simp
  have inactive: "\<not> cell_active (rg_cells w i)" using assms(4) by (auto simp add: decode_end_def)
  have state: "sc_state (rg_cells (registry_run es' w) i) = sc_state (rg_cells w i)"
    by (rule registry_run_terminal [OF ok assms(5) inactive assms(3)])
  have ok': "registry_ok (registry_run es' w)" by (rule registry_run_ok [OF ok assms(5)])
  have "decode_end (sc_state (rg_cells (registry_run es' w) i)) = Some reason"
    using state assms(4) by simp
  note polls = ended_poll [OF ok' this]
  have "poll = PollInvalidated reason"
    using assms(6) polls by (cases e) (auto split: if_splits)
  then show ?thesis using state by simp
qed

lemma demo_ended:
  "possible_run (demo_events @ [Cancel 1]) (registry_new 0)"
  "decode_end (sc_state (rg_cells (registry_run (demo_events @ [Cancel 1]) (registry_new 0)) 1)) = Some Cancelled"
  "rg_next_subscription_id (registry_run (demo_events @ [Cancel 1]) (registry_new 0)) = 2"
  using arg_cong [OF demo_open, of snd]
  by (simp_all add: demo_events_def register_def recognizes_def demo_channel_def registry_new_def
      prune_def retain_def subscription_limit_defs checked_add_def emission_gate_of_def Let_def
      subscription_cancel_eq end_cell_def decode_end_def state_byte_defs)

theorem ended_subscription_reports_one_reason_witness:
  "fst (subscription_next 1 (registry_run (demo_events @ [Cancel 1]) (registry_new 0)))
    = PollInvalidated Cancelled"
  using ended_subscription_reports_one_reason [OF demo_ended(1) refl _ demo_ended(2), of "[]" "Next 1"]
  by (simp add: demo_ended(3))


section \<open>Active subscriptions miss nothing\<close>

text \<open>The wakeups the receiver of \<open>i\<close> got, and those published for a document, in order.\<close>

fun wakeup :: "update_subscription_poll option \<Rightarrow> update_id list" where
  "wakeup (Some (PollNotification u)) = [u]"
| "wakeup _ = []"

fun received :: "u64 \<Rightarrow> registry_event list \<Rightarrow> registry \<Rightarrow> update_id list" where
  "received i [] w = []"
| "received i (e # es) w = wakeup (observed i e w) @ received i es (registry_step e w)"

fun publication :: "document_id \<Rightarrow> registry_event \<Rightarrow> update_id list" where
  "publication d (Notify d' u) = (if d' = d then [u] else [])"
| "publication d _ = []"

definition published :: "document_id \<Rightarrow> registry_event list \<Rightarrow> update_id list" where
  "published d es = concat (map (publication d) es)"

text \<open>A poll that leaves the subscription active has taken the wakeup it delivers, if any.\<close>

definition delivers :: "u64 \<Rightarrow> registry \<Rightarrow> update_subscription_poll \<times> registry \<Rightarrow> bool" where
  "delivers i w = (\<lambda>(poll, w'). cell_active (rg_cells w' i) \<longrightarrow> cell_active (rg_cells w i)
    \<and> wakeup (Some poll) @ sc_queue (rg_cells w' i) = sc_queue (rg_cells w i))"

lemma active_after_ended:
  assumes "cell_active (rg_cells (snd (subscription_ended i w)) i)"
  shows "subscription_ended i w = (None, w)" "cell_active (rg_cells w i)"
  using assms by (auto simp add: subscription_ended_eq split: if_splits)

lemma queue_poll_delivers: "delivers i w (queue_poll i w)"
proof (cases "sc_queue (rg_cells w i)")
  case Nil
  then show ?thesis
    using active_after_ended [of i w]
    by (auto simp add: delivers_def queue_poll_def poll_disconnected_def split: prod.splits option.splits)
next
  case (Cons u us)
  have "rg_cells (cell_pop i w) i = (rg_cells w i)\<lparr> sc_queue := us \<rparr>"
    using Cons by (simp add: cell_pop_def)
  then show ?thesis
    using Cons active_after_ended [of i "cell_pop i w"]
    by (auto simp add: delivers_def queue_poll_def poll_received_def split: prod.splits option.splits)
qed

lemma next_select_delivers: "delivers i w (next_select i w)"
  using queue_poll_delivers [of i w]
    active_after_ended(2) [of i "invalidate i ChannelLost w"]
  by (auto simp add: next_select_def delivers_def invalidate_cell split: prod.splits option.splits)

lemma ended_then_delivers:
  assumes "delivers i w (f w)"
  shows "delivers i w (case subscription_ended i w of
    (None, w) \<Rightarrow> f w | (Some ended, w) \<Rightarrow> (PollInvalidated ended, w))"
proof -
  obtain e w' where e: "subscription_ended i w = (e, w')" by (metis prod.collapse)
  show ?thesis
  proof (cases "cell_active (rg_cells w' i)")
    case True
    with active_after_ended [of i w] e have "e = None" "w' = w" by simp_all
    with e assms show ?thesis by simp
  next
    case False
    have "e = decode_end (sc_state (rg_cells w' i))"
      using e by (auto simp add: subscription_ended_eq split: if_splits)
    with False have "e \<noteq> None" by (simp only: decode_end_None) simp
    with e False show ?thesis by (auto simp add: delivers_def)
  qed
qed

lemma subscription_next_delivers: "delivers i w (subscription_next i w)"
  using ended_then_delivers [where f = "next_select i", OF next_select_delivers]
  unfolding subscription_next_def by (simp add: case_prod_beta split: option.split)

lemma try_next_delivers: "delivers i w (try_next i w)"
  using ended_then_delivers [where f = "queue_poll i", OF queue_poll_delivers]
  unfolding try_next_def by (simp add: case_prod_beta split: option.split)

lemma drop_subscription_inactive: "\<not> cell_active (rg_cells (drop_subscription i w) i)"
  by (simp add: drop_subscription_def drop_gate_def subscription_cancel_eq Let_def)

text \<open>One event: an entry whose subscription stays active stays registered and loses nothing.\<close>

definition stays :: "subscription_entry \<Rightarrow> update_id list \<Rightarrow> update_id list \<Rightarrow> registry \<Rightarrow> registry \<Rightarrow> bool" where
  "stays e got new w w' \<longleftrightarrow> e \<in> set (rg_subscriptions w') \<and> cell_active (rg_cells w (sid e))
    \<and> got @ sc_queue (rg_cells w' (sid e)) = sc_queue (rg_cells w (sid e)) @ new"

lemma touches_stays:
  assumes "touches i w w'" "e \<in> set (rg_subscriptions w)" "cell_active (rg_cells w' (sid e))"
    and "delivers i w (poll, w')"
  shows "stays e (wakeup (if sid e = i then Some poll else None)) [] w w'"
  using assms(2-4) touchesD(1,4) [OF assms(1)] by (auto simp add: stays_def delivers_def)

lemma cancel_delivers: "delivers i w (PollPending, subscription_cancel i w)"
  by (simp add: delivers_def subscription_cancel_eq)

lemma retain_stays:
  assumes "registry_ok w" "walks_locally (rg_leases w) f k g" "walk_ok k g"
    and "e \<in> set (rg_subscriptions w)" "cell_active (rg_cells (retain f w) (sid e))"
    and "\<And>c. k e c \<Longrightarrow> cell_active c \<Longrightarrow> sc_queue (g e c) = sc_queue c @ new"
  shows "stays e [] new w (retain f w)"
  using retain_active [OF assms(1-5)] assms(6) by (simp add: stays_def)

lemma registry_step_stays:
  assumes "registry_ok w" "possible ev w" "e \<in> set (rg_subscriptions w)"
    and "cell_active (rg_cells (registry_step ev w) (sid e))"
  shows "stays e (wakeup (observed (sid e) ev w)) (publication (se_document_id e) ev) w (registry_step ev w)"
proof -
  note walk = retain_stays [OF assms(1) _ _ assms(3)]
  note polled = touches_stays [OF _ assms(3)]
  show ?thesis
  proof (cases ev)
    case OpenChannel
    then show ?thesis
      using assms(3,4) by (simp add: stays_def open_channel_def Let_def split: option.splits)
  next
    case (DropChannel channel)
    then show ?thesis using assms(3,4) by (simp add: stays_def drop_channel_def split: if_splits)
  next
    case (CloseChannel channel)
    have "stays e [] [] w w" if "cell_active (rg_cells w (sid e))"
      using that assms(3) by (simp add: stays_def)
    with assms(4) walk [OF end_where_leases_local end_where_walk_ok, where new = "[]"] show ?thesis
      by (auto simp add: CloseChannel close_channel_def drop_channel_def end_where_def stays_def split: if_splits)
  next
    case (Register channel d c)
    have pruned: "stays e [] [] w (prune w)" if "cell_active (rg_cells (prune w) (sid e))"
      using walk [OF prune_retain, folded prune_def, OF that, of "[]"]
      by (simp add: lose_channel_def prune_keeps_def)
    show ?thesis
    proof (cases rule: register_cases [of channel d c w])
      case (refused err)
      with assms(3,4) pruned show ?thesis by (auto simp add: Register stays_def)
    next
      case (added following gate gs es n)
      have "rg_next_subscription_id (prune w) = rg_next_subscription_id w"
        using retain_frame(3) [OF assms(1) prune_local] by (simp add: prune_def)
      then have "sid e \<noteq> rg_next_subscription_id (prune w)"
        using registry_okD(5) [OF assms(1,3)] by auto
      with assms(4) pruned added(2) show ?thesis by (auto simp add: Register stays_def)
    qed
  next
    case (Notify d u)
    have "sc_queue (notify_changes (rg_leases w) d u e c) = sc_queue c @ publication (se_document_id e) ev"
      if "notify_keeps (rg_leases w) d e c" "cell_active c" for c
      using that by (auto simp add: notify_keeps_def notify_changes_def Notify)
    from walk [OF notify_retain _ this] assms(4) show ?thesis
      by (simp add: Notify notify_def)
  next
    case (InvalidateSubscriptions ids r)
    with assms(4) walk [OF end_where_local end_where_walk_ok, where new = "[]"] show ?thesis
      by (simp add: invalidate_subscriptions_def end_where_def)
  next
    case (InvalidateDocument d r)
    with assms(4) walk [OF end_where_local end_where_walk_ok, where new = "[]"] show ?thesis
      by (simp add: invalidate_document_def end_where_def)
  next
    case Shutdown
    with assms(4) walk [OF end_all_local end_all_walk_ok, where new = "[]"] show ?thesis
      by (simp add: shutdown_def)
  next
    case (Next i)
    with assms(4) polled [OF touches_next, of i "fst (subscription_next i w)"] subscription_next_delivers [of i w]
    show ?thesis by (simp split: if_splits)
  next
    case (Select i)
    with assms(4) polled [OF touches_select, of i "fst (next_select i w)"] next_select_delivers [of i w]
    show ?thesis by (simp split: if_splits)
  next
    case (TryNext i)
    with assms(4) polled [OF touches_try_next, of i "fst (try_next i w)"] try_next_delivers [of i w]
    show ?thesis by (simp split: if_splits)
  next
    case (Cancel i)
    with assms(4) polled [OF touches_cancel _ cancel_delivers, of i] show ?thesis
      by (simp split: if_splits)
  next
    case (DropSubscription i)
    then have "cell_active (rg_cells (subscription_cancel i w) (sid e))"
      using assms(4) by (simp add: drop_subscription_def drop_gate_def Let_def)
    with polled [OF touches_cancel this cancel_delivers] show ?thesis
      by (simp add: DropSubscription stays_def drop_subscription_def drop_gate_def Let_def split: if_splits)
  qed
qed

lemma registry_run_lossless:
  assumes "registry_ok w" "possible_run es w" "e \<in> set (rg_subscriptions w)"
    and "cell_active (rg_cells (registry_run es w) (sid e))"
  shows "cell_active (rg_cells w (sid e)) \<and> received (sid e) es w @ sc_queue (rg_cells (registry_run es w) (sid e))
    = sc_queue (rg_cells w (sid e)) @ published (se_document_id e) es"
  using assms
proof (induction es arbitrary: w)
  case Nil
  then show ?case by (simp add: published_def)
next
  case (Cons ev es)
  let ?w = "registry_step ev w"
  have ok: "registry_ok ?w" using registry_step_ok Cons.prems(1,2) by simp
  have next_id: "sid e < rg_next_subscription_id ?w \<and> \<not> cell_active (rg_cells ?w (sid e)) \<Longrightarrow> False"
    using registry_run_terminal [OF ok] Cons.prems(2,4) by simp
  have "sid e < rg_next_subscription_id ?w"
    using registry_step_next Cons.prems(1-3) by (simp add: registry_okD(5))
  then have "cell_active (rg_cells ?w (sid e))" using next_id by blast
  then have stays: "stays e (wakeup (observed (sid e) ev w)) (publication (se_document_id e) ev) w ?w"
    using registry_step_stays [OF Cons.prems(1) _ Cons.prems(3)] Cons.prems(2) by simp
  then have "received (sid e) es ?w @ sc_queue (rg_cells (registry_run es ?w) (sid e))
      = sc_queue (rg_cells ?w (sid e)) @ published (se_document_id e) es"
    using Cons.IH [OF ok] Cons.prems(2,4) by (simp add: stays_def)
  with stays show ?case by (simp add: stays_def published_def)
qed

lemma live_poll:
  assumes "registry_ok w" "cell_active (rg_cells w i)" "sc_channel (rg_cells w i) \<in> set (rg_leases w)"
  shows "fst (subscription_next i w) = (case sc_queue (rg_cells w i) of
      [] \<Rightarrow> PollPending | u # _ \<Rightarrow> PollNotification u)"
  using assms(2,3) registry_okD(3) [OF assms(1), of i]
  by (simp add: subscription_next_def subscription_ended_eq next_select_def channel_upgrades_def
      queue_poll_def poll_received_def cell_pop_def cell_ok_def split: list.split)

text \<open>
  C26: an active subscription misses nothing.  Let a subscription be registered in a reachable
  state and still be active after a run.  Then the wakeups its receiver got during the run,
  followed by those still queued, are those queued before followed by every update published for
  its document during the run, in order; and while its channel lives, calling \<open>next\<close> delivers the
  oldest queued wakeup, and waits only when none is queued.
\<close>

theorem active_subscription_misses_nothing:
  assumes "possible_run es (registry_new broker)" "w = registry_run es (registry_new broker)"
    and "e \<in> set (rg_subscriptions w)" "i = se_subscription_id e"
    and "possible_run es' w" "w' = registry_run es' w" "sc_state (rg_cells w' i) = ACTIVE"
  shows "received i es' w @ sc_queue (rg_cells w' i)
      = sc_queue (rg_cells w i) @ published (se_document_id e) es'
    \<and> (channel_upgrades w' (sc_channel (rg_cells w' i)) \<longrightarrow>
        fst (subscription_next i w') = (case sc_queue (rg_cells w' i) of
          [] \<Rightarrow> PollPending | u # _ \<Rightarrow> PollNotification u))"
proof -
  have ok: "registry_ok w" using registry_run_ok [OF registry_new_ok assms(1)] assms(2) by simp
  have "registry_ok w'" unfolding assms(6) by (rule registry_run_ok [OF ok assms(5)])
  then show ?thesis
    using registry_run_lossless [OF ok assms(5,3)] live_poll [of w' i] assms(4,6,7)
    by (simp add: channel_upgrades_def)
qed

theorem active_subscription_misses_nothing_witness:
  "sc_queue (rg_cells (registry_run (demo_events @ [Notify 4 9]) (registry_new 0)) 1) = [9]"
proof -
  let ?w = "registry_run demo_events (registry_new 0)"
  have run: "registry_run (demo_events @ [Notify 4 9]) (registry_new 0) = registry_run [Notify 4 9] ?w"
    by (simp add: demo_events_def)
  have "sc_receiver_closed (rg_cells ?w 1) = False"
    using registry_okD(3) [OF registry_run_ok [OF registry_new_ok demo_possible], of 1] demo_registered(2)
    by (simp add: cell_ok_def)
  then have "sc_state (rg_cells (registry_run [Notify 4 9] ?w) 1) = ACTIVE"
    by (simp add: notify_def retain_def demo_registered channel_upgrades_def cell_try_send_def
        subscription_limit_defs)
  then show ?thesis
    using active_subscription_misses_nothing [OF demo_possible refl _ _ _ refl, of _ 1 "[Notify 4 9]"]
    by (simp add: demo_registered published_def run del: registry_run.simps(2))
qed

end
