(* ===== verification/Emission.thy ===== *)
theory Emission
  imports Subscription_Properties
begin

text \<open>
  The emission gate of one document: the exclusion between the final write of a notification
  (\<open>write_connection_event_after_dequeue\<close> of \<open>renee-stored/src/main.rs\<close>) and a control mutation
  (\<open>with_document_emission_exclusion\<close>), on the semaphore and the read-write lock of
  \<open>renee-stored/src/subscription.rs\<close>.  The tasks interleave at every await point.
\<close>

section \<open>The gate\<close>

definition set_gate :: "nat \<Rightarrow> emission_gate \<Rightarrow> registry \<Rightarrow> registry" where
  "set_gate g gate w = w\<lparr> rg_gates := (rg_gates w)(g := gate) \<rparr>"

text \<open>\<open>read\<close>: None while a writer holds the lock, else one more reader.\<close>

definition gate_read :: "nat \<Rightarrow> registry \<Rightarrow> registry option" where
  "gate_read g w = (let gate = rg_gates w g in
     if eg_writer gate then None else Some (set_gate g (gate\<lparr> eg_readers := eg_readers gate + 1 \<rparr>) w))"

definition drop_read_guard :: "nat \<Rightarrow> registry \<Rightarrow> registry" where
  "drop_read_guard g w = (let gate = rg_gates w g in
     set_gate g (gate\<lparr> eg_readers := eg_readers gate - 1 \<rparr>) w)"

text \<open>\<open>exclude\<close>: an admission permit or an error at once, then the lock in write mode.\<close>

definition exclude_admission :: "nat \<Rightarrow> registry \<Rightarrow> unit + registry" where
  "exclude_admission g w = (let gate = rg_gates w g in
     if eg_permits gate = 0 then Inl ()
     else Inr (set_gate g (gate\<lparr> eg_permits := eg_permits gate - 1 \<rparr>) w))"

definition exclude_write :: "nat \<Rightarrow> registry \<Rightarrow> registry option" where
  "exclude_write g w = (let gate = rg_gates w g in
     if eg_writer gate \<or> eg_readers gate \<noteq> 0 then None
     else Some (set_gate g (gate\<lparr> eg_writer := True \<rparr>) w))"

definition drop_exclusion :: "nat \<Rightarrow> registry \<Rightarrow> registry" where
  "drop_exclusion g w = (let gate = rg_gates w g in
     set_gate g (gate\<lparr> eg_writer := False, eg_permits := eg_permits gate + 1 \<rparr>) w)"

definition is_authorized :: "u64 \<Rightarrow> registry \<Rightarrow> bool" where
  "is_authorized i w \<longleftrightarrow> channel_upgrades w (sc_channel (rg_cells w i)) \<and> sc_state (rg_cells w i) = ACTIVE"

text \<open>
  All handles of a document's gate share one gate: as long as one is held, asking again gives
  the same.
\<close>

lemma gate_shared:
  assumes "rg_emission_gates w d = Some g" "eg_strong_count (rg_gates w g) \<noteq> 0"
  shows "fst (emission_gate_of d w) = g"
    "rg_emission_gates (snd (emission_gate_of d w)) d = Some g"
    "eg_strong_count (rg_gates (snd (emission_gate_of d w)) g) = eg_strong_count (rg_gates w g) + 1"
  using assms by (simp_all add: emission_gate_of_def Let_def)


section \<open>The tasks\<close>

text \<open>
  A writer has dequeued a notification event, waits at the gate, has entered it, or is writing.
  A control task waits for the lock with its permit, holds the lock, or has applied its
  mutation.
\<close>

datatype writer_task = WriterIdle | WriterDequeued u64 update_id | WriterEntered u64 update_id
  | WriterWriting u64 update_id

datatype control_task = ControlIdle | ControlWaiting "u64 list" | ControlExcluding "u64 list"
  | ControlApplied

datatype emission_event = Written u64 update_id | Invalidated "u64 list"

record emission_state =
  es_registry :: registry
  es_writers :: "writer_task list"
  es_controls :: "control_task list"
  es_log :: "emission_event list"

text \<open>
  \<open>write_connection_event_after_dequeue\<close>, one await at a time: wait at the gate, check, write, and
  leave the gate however it ends.
\<close>

inductive writer_step :: "nat \<Rightarrow> emission_state \<Rightarrow> emission_state \<Rightarrow> bool" for g where
  w_dequeue: "k < length (es_writers s) \<Longrightarrow> es_writers s ! k = WriterIdle \<Longrightarrow>
    sc_gate (rg_cells (es_registry s) i) = g \<Longrightarrow>
    writer_step g s (s\<lparr> es_writers := (es_writers s)[k := WriterDequeued i u] \<rparr>)"
| w_enter: "k < length (es_writers s) \<Longrightarrow> es_writers s ! k = WriterDequeued i u \<Longrightarrow>
    gate_read g (es_registry s) = Some w \<Longrightarrow>
    writer_step g s (s\<lparr> es_registry := w, es_writers := (es_writers s)[k := WriterEntered i u] \<rparr>)"
| w_check: "k < length (es_writers s) \<Longrightarrow> es_writers s ! k = WriterEntered i u \<Longrightarrow>
    is_authorized i (es_registry s) \<Longrightarrow>
    writer_step g s (s\<lparr> es_writers := (es_writers s)[k := WriterWriting i u] \<rparr>)"
| w_suppress: "k < length (es_writers s) \<Longrightarrow> es_writers s ! k = WriterEntered i u \<Longrightarrow>
    \<not> is_authorized i (es_registry s) \<Longrightarrow>
    writer_step g s (s\<lparr> es_registry := drop_read_guard g (es_registry s),
      es_writers := (es_writers s)[k := WriterIdle] \<rparr>)"
| w_write: "k < length (es_writers s) \<Longrightarrow> es_writers s ! k = WriterWriting i u \<Longrightarrow>
    writer_step g s (s\<lparr> es_registry := drop_read_guard g (es_registry s),
      es_writers := (es_writers s)[k := WriterIdle], es_log := es_log s @ [Written i u] \<rparr>)"
| w_stall: "k < length (es_writers s) \<Longrightarrow> es_writers s ! k = WriterWriting i u \<Longrightarrow>
    writer_step g s (s\<lparr> es_registry := drop_read_guard g (es_registry s),
      es_writers := (es_writers s)[k := WriterIdle] \<rparr>)"

text \<open>
  \<open>with_document_emission_exclusion\<close> around a revocation that ends the subscriptions \<open>ids\<close>, some of
  the document's contexts at that moment; a saturated gate is an error and changes nothing.
\<close>

inductive exclusion_step :: "nat \<Rightarrow> emission_state \<Rightarrow> emission_state \<Rightarrow> bool" for g where
  c_admit: "c < length (es_controls s) \<Longrightarrow> es_controls s ! c = ControlIdle \<Longrightarrow>
    exclude_admission g (es_registry s) = Inr w \<Longrightarrow>
    exclusion_step g s (s\<lparr> es_registry := w, es_controls := (es_controls s)[c := ControlWaiting ids] \<rparr>)"
| c_saturated: "c < length (es_controls s) \<Longrightarrow> es_controls s ! c = ControlIdle \<Longrightarrow>
    exclude_admission g (es_registry s) = Inl () \<Longrightarrow> exclusion_step g s s"
| c_exclude: "c < length (es_controls s) \<Longrightarrow> es_controls s ! c = ControlWaiting ids \<Longrightarrow>
    exclude_write g (es_registry s) = Some w \<Longrightarrow>
    exclusion_step g s (s\<lparr> es_registry := w, es_controls := (es_controls s)[c := ControlExcluding ids] \<rparr>)"
| c_apply: "c < length (es_controls s) \<Longrightarrow> es_controls s ! c = ControlExcluding ids \<Longrightarrow>
    set ids \<subseteq> snd ` set (contexts d (es_registry s)) \<Longrightarrow>
    exclusion_step g s (s\<lparr> es_registry := invalidate_subscriptions ids Revoked (es_registry s),
      es_controls := (es_controls s)[c := ControlApplied], es_log := es_log s @ [Invalidated ids] \<rparr>)"
| c_leave: "c < length (es_controls s) \<Longrightarrow> es_controls s ! c = ControlApplied \<Longrightarrow>
    exclusion_step g s (s\<lparr> es_registry := drop_exclusion g (es_registry s),
      es_controls := (es_controls s)[c := ControlIdle] \<rparr>)"

text \<open>Anything else the broker does with the registry happens between those steps.\<close>

inductive emission_step :: "nat \<Rightarrow> emission_state \<Rightarrow> emission_state \<Rightarrow> bool" for g where
  by_writer: "writer_step g s s' \<Longrightarrow> emission_step g s s'"
| by_control: "exclusion_step g s s' \<Longrightarrow> emission_step g s s'"
| by_registry: "possible ev (es_registry s) \<Longrightarrow>
    emission_step g s (s\<lparr> es_registry := registry_step ev (es_registry s) \<rparr>)"

inductive emission_run :: "nat \<Rightarrow> emission_state \<Rightarrow> emission_state \<Rightarrow> bool" for g where
  emission_start: "emission_run g s s"
| emission_next: "emission_run g s s' \<Longrightarrow> emission_step g s' s'' \<Longrightarrow> emission_run g s s''"


section \<open>The invariant\<close>

definition count_tasks :: "('a \<Rightarrow> bool) \<Rightarrow> 'a list \<Rightarrow> nat" where
  "count_tasks P xs = length (filter P xs)"

lemma count_tasks_update:
  "k < length xs \<Longrightarrow>
    count_tasks P (xs[k := x]) + of_bool (P (xs ! k)) = count_tasks P xs + of_bool (P x)"
proof (induction xs arbitrary: k)
  case (Cons y ys)
  then show ?case by (cases k) (auto simp add: count_tasks_def)
qed simp

fun inside :: "writer_task \<Rightarrow> bool" where
  "inside (WriterEntered i u) = True"
| "inside (WriterWriting i u) = True"
| "inside _ = False"

fun holding :: "control_task \<Rightarrow> bool" where
  "holding (ControlExcluding ids) = True"
| "holding ControlApplied = True"
| "holding _ = False"

definition admitted :: "control_task \<Rightarrow> bool" where
  "admitted t \<longleftrightarrow> t \<noteq> ControlIdle"

definition gate_ok :: "emission_gate \<Rightarrow> emission_state \<Rightarrow> bool" where
  "gate_ok gate s \<longleftrightarrow> eg_readers gate = count_tasks inside (es_writers s)
    \<and> of_bool (eg_writer gate) = count_tasks holding (es_controls s)
    \<and> eg_permits gate + count_tasks admitted (es_controls s) = MAX_CONTROL_WAITERS_PER_DOCUMENT
    \<and> (eg_writer gate \<longrightarrow> count_tasks inside (es_writers s) = 0)"

definition ended_ids :: "emission_state \<Rightarrow> u64 set" where
  "ended_ids s = \<Union> {set ids | ids. Invalidated ids \<in> set (es_log s)}"

definition emission_ok :: "nat \<Rightarrow> emission_state \<Rightarrow> bool" where
  "emission_ok g s \<longleftrightarrow> registry_ok (es_registry s) \<and> g < rg_next_gate (es_registry s)
    \<and> gate_ok (rg_gates (es_registry s) g) s
    \<and> (\<forall>i \<in> ended_ids s. i < rg_next_subscription_id (es_registry s)
        \<and> \<not> cell_active (rg_cells (es_registry s) i))
    \<and> (\<forall>i u. WriterWriting i u \<in> set (es_writers s) \<longrightarrow> i \<notin> ended_ids s)
    \<and> (\<forall>l ids l' i u. es_log s = l @ Invalidated ids # l' \<longrightarrow> i \<in> set ids \<longrightarrow> Written i u \<notin> set l')"

lemma emission_okD:
  assumes "emission_ok g s"
  shows "registry_ok (es_registry s)" "g < rg_next_gate (es_registry s)"
    "gate_ok (rg_gates (es_registry s) g) s"
    "i \<in> ended_ids s \<Longrightarrow> i < rg_next_subscription_id (es_registry s)"
    "i \<in> ended_ids s \<Longrightarrow> \<not> cell_active (rg_cells (es_registry s) i)"
    "WriterWriting i u \<in> set (es_writers s) \<Longrightarrow> i \<notin> ended_ids s"
    "es_log s = l @ Invalidated ids # l' \<Longrightarrow> i \<in> set ids \<Longrightarrow> Written i u \<notin> set l'"
  using assms unfolding emission_ok_def by blast+

text \<open>The registry operations leave the lock and the semaphore of an existing gate alone.\<close>

definition gate_kept :: "nat \<Rightarrow> registry \<Rightarrow> registry \<Rightarrow> bool" where
  "gate_kept g w w' \<longleftrightarrow> (g < rg_next_gate w \<longrightarrow> g < rg_next_gate w')
    \<and> (g < rg_next_gate w \<longrightarrow> (\<exists>n. rg_gates w' g = (rg_gates w g)\<lparr> eg_strong_count := n \<rparr>))"

lemma gate_kept_same: "rg_gates w' = rg_gates w \<Longrightarrow> rg_next_gate w' = rg_next_gate w \<Longrightarrow> gate_kept g w w'"
  unfolding gate_kept_def by (auto intro: exI [of _ "eg_strong_count (rg_gates w g)"])

lemma touches_gates: "touches i w w' \<Longrightarrow> gate_kept g w w'"
  by (intro gate_kept_same) (auto simp add: touches_def)

lemma retain_gates:
  assumes "registry_ok w" "walks_locally (rg_leases w) f k h"
  shows "rg_gates (retain f w) = rg_gates w" "rg_next_gate (retain f w) = rg_next_gate w"
  using retain_local [OF registry_okD(2) [OF assms(1)] assms(2)] by simp_all

lemma emission_gate_kept: "gate_kept g w (snd (emission_gate_of d w))"
  by (auto simp add: gate_kept_def emission_gate_of_def Let_def split: option.split
      intro: exI [of _ "eg_strong_count (rg_gates w g)"])

lemma register_gates:
  assumes "registry_ok w"
  shows "gate_kept g w (snd (register channel d c w))"
proof -
  have pruned: "rg_gates (prune w) = rg_gates w" "rg_next_gate (prune w) = rg_next_gate w"
    unfolding prune_def by (rule retain_gates [OF assms prune_local])+
  have kept: "gate_kept g w (snd (emission_gate_of d (prune w\<lparr> rg_next_subscription_id := n \<rparr>)))" for n
    using emission_gate_kept [of g "prune w\<lparr> rg_next_subscription_id := n \<rparr>" d]
    by (simp add: gate_kept_def pruned)
  have same: "gate_kept g w w" "gate_kept g w (prune w)" using pruned by (simp_all add: gate_kept_same)
  have add: "gate_kept g w w' \<Longrightarrow> gate_kept g w (w'\<lparr> rg_cells := cs, rg_subscriptions := es \<rparr>)" for w' cs es
    by (simp add: gate_kept_def)
  show ?thesis
    using same kept add
    by (auto simp add: register_def Let_def case_prod_beta split: option.split)
qed

lemma registry_step_gates:
  assumes "registry_ok w"
  shows "gate_kept g w (registry_step ev w)"
proof (cases ev)
  case (Register channel d c)
  then show ?thesis by (simp add: register_gates [OF assms])
next
  case (DropSubscription i)
  have "gate_kept g w (subscription_cancel i w)" by (rule touches_gates [OF touches_cancel])
  then show ?thesis
    by (auto simp add: DropSubscription drop_subscription_def drop_gate_def gate_kept_def Let_def)
next
  case (CloseChannel channel)
  then show ?thesis
    using retain_gates [OF assms end_where_leases_local]
    by (intro gate_kept_same) (simp_all add: close_channel_def drop_channel_def)
qed (use retain_gates [OF assms notify_local] retain_gates [OF assms end_where_local]
    retain_gates [OF assms end_all_local] touches_gates [OF touches_next] touches_gates [OF touches_select]
    touches_gates [OF touches_try_next] touches_gates [OF touches_cancel]
  in \<open>auto simp add: open_channel_def drop_channel_def notify_def invalidate_subscriptions_def
    invalidate_document_def shutdown_def Let_def split: option.split intro!: gate_kept_same\<close>)

section \<open>Every step keeps the invariant\<close>

lemmas gate_op_defs = gate_read_def drop_read_guard_def exclude_admission_def exclude_write_def
  drop_exclusion_def set_gate_def Let_def

lemma set_gate_ok [simp]: "registry_ok (set_gate g gate w) = registry_ok w"
  by (simp add: set_gate_def)

lemma set_gate_simps [simp]:
  "rg_cells (set_gate g gate w) = rg_cells w" "rg_next_gate (set_gate g gate w) = rg_next_gate w"
  "rg_next_subscription_id (set_gate g gate w) = rg_next_subscription_id w"
  "rg_gates (set_gate g gate w) g = gate"
  by (simp_all add: set_gate_def)

lemma set_update_other: "x \<in> set (xs[k := y]) \<Longrightarrow> x \<noteq> y \<Longrightarrow> x \<in> set xs"
  using set_update_subset_insert by fastforce

lemma ended_ids_append:
  "ended_ids (s\<lparr> es_log := es_log s @ [Written i u] \<rparr>) = ended_ids s"
  "ended_ids (s\<lparr> es_log := es_log s @ [Invalidated ids] \<rparr>) = ended_ids s \<union> set ids"
  by (auto simp add: ended_ids_def)

lemma ended_ids_frame [simp]:
  "ended_ids (s\<lparr> es_registry := w \<rparr>) = ended_ids s" "ended_ids (s\<lparr> es_writers := ws \<rparr>) = ended_ids s"
  "ended_ids (s\<lparr> es_controls := cs \<rparr>) = ended_ids s"
  by (simp_all add: ended_ids_def)

text \<open>A step that touches only the gate and the tasks, and starts no write of an ended subscription.\<close>

lemma emission_ok_gate_step:
  assumes "emission_ok g s" "w = set_gate g gate (es_registry s)"
    and "gate_ok gate (s\<lparr> es_writers := ws, es_controls := cs \<rparr>)"
    and "\<And>i u. WriterWriting i u \<in> set ws \<Longrightarrow> i \<notin> ended_ids s"
  shows "emission_ok g (s\<lparr> es_registry := w, es_writers := ws, es_controls := cs \<rparr>)"
  using assms emission_okD [OF assms(1)]
  by (simp add: emission_ok_def gate_ok_def)

lemma leave_ok:
  assumes "emission_ok g s" "k < length (es_writers s)" "inside (es_writers s ! k)"
  shows "emission_ok g (s\<lparr> es_registry := drop_read_guard g (es_registry s),
    es_writers := (es_writers s)[k := WriterIdle] \<rparr>)"
proof -
  let ?gate = "rg_gates (es_registry s) g"
  have "drop_read_guard g (es_registry s)
      = set_gate g (?gate\<lparr> eg_readers := eg_readers ?gate - 1 \<rparr>) (es_registry s)"
    by (simp add: drop_read_guard_def Let_def)
  moreover have "count_tasks inside ((es_writers s)[k := WriterIdle]) = count_tasks inside (es_writers s) - 1"
    "0 < count_tasks inside (es_writers s)"
    using count_tasks_update [OF assms(2), of inside WriterIdle] assms(3) by simp_all
  then have "gate_ok (?gate\<lparr> eg_readers := eg_readers ?gate - 1 \<rparr>)
      (s\<lparr> es_writers := (es_writers s)[k := WriterIdle], es_controls := es_controls s \<rparr>)"
    using emission_okD(3) [OF assms(1)] by (cases "eg_writer ?gate") (simp_all add: gate_ok_def)
  moreover have "j \<notin> ended_ids s" if "WriterWriting j v \<in> set ((es_writers s)[k := WriterIdle])" for j v
    using emission_okD(6) [OF assms(1)] set_update_other [OF that] by blast
  ultimately have "emission_ok g (s\<lparr> es_registry := drop_read_guard g (es_registry s),
      es_writers := (es_writers s)[k := WriterIdle], es_controls := es_controls s \<rparr>)"
    by (rule emission_ok_gate_step [OF assms(1)])
  then show ?thesis by simp
qed

lemma writer_step_ok:
  assumes "writer_step g s s'" "emission_ok g s"
  shows "emission_ok g s'"
  using assms(1)
proof (cases rule: writer_step.cases)
  note ok = emission_okD [OF assms(2)]
  note writing = ok(6)
  have same: "es_registry s = set_gate g (rg_gates (es_registry s) g) (es_registry s)"
    by (simp add: set_gate_def)
  {
    case (w_dequeue k i u)
    have "emission_ok g (s\<lparr> es_registry := es_registry s,
        es_writers := (es_writers s)[k := WriterDequeued i u], es_controls := es_controls s \<rparr>)"
      by (rule emission_ok_gate_step [OF assms(2) same])
        (use ok(3) w_dequeue(2,3) writing count_tasks_update [of k "es_writers s" inside "WriterDequeued i u"]
          in \<open>auto simp add: gate_ok_def dest!: set_update_other\<close>)
    then show ?thesis by (simp add: w_dequeue(1))
  next
    case (w_enter k i u w)
    let ?gate = "rg_gates (es_registry s) g"
    have w: "w = set_gate g (?gate\<lparr> eg_readers := eg_readers ?gate + 1 \<rparr>) (es_registry s)"
      and free: "\<not> eg_writer ?gate"
      using w_enter(4) by (auto simp add: gate_read_def Let_def split: if_splits)
    have "emission_ok g (s\<lparr> es_registry := w, es_writers := (es_writers s)[k := WriterEntered i u],
        es_controls := es_controls s \<rparr>)"
      by (rule emission_ok_gate_step [OF assms(2) w])
        (use ok(3) free w_enter(2,3) writing count_tasks_update [of k "es_writers s" inside "WriterEntered i u"]
          in \<open>auto simp add: gate_ok_def dest!: set_update_other\<close>)
    then show ?thesis by (simp add: w_enter(1))
  next
    case (w_check k i u)
    then have live: "i \<notin> ended_ids s" using ok(5) by (auto simp add: is_authorized_def)
    have "j \<notin> ended_ids s" if "WriterWriting j v \<in> set ((es_writers s)[k := WriterWriting i u])" for j v
      using that live writing set_update_other by fastforce
    then have "emission_ok g (s\<lparr> es_registry := es_registry s,
        es_writers := (es_writers s)[k := WriterWriting i u], es_controls := es_controls s \<rparr>)"
      by (intro emission_ok_gate_step [OF assms(2) same])
        (use ok(3) w_check(2,3) count_tasks_update [of k "es_writers s" inside "WriterWriting i u"]
          in \<open>auto simp add: gate_ok_def\<close>)
    then show ?thesis by (simp add: w_check(1))
  next
    case (w_suppress k i u)
    show ?thesis using leave_ok [OF assms(2) w_suppress(2)] w_suppress(1,3) by simp
  next
    case (w_stall k i u)
    show ?thesis using leave_ok [OF assms(2) w_stall(2)] w_stall(1,3) by simp
  next
    case (w_write k i u)
    have left: "emission_ok g (s\<lparr> es_registry := drop_read_guard g (es_registry s),
        es_writers := (es_writers s)[k := WriterIdle] \<rparr>)" (is "emission_ok g ?s")
      using leave_ok [OF assms(2) w_write(2)] w_write(3) by simp
    have live: "i \<notin> ended_ids s" using writing [of i u] w_write(2,3) nth_mem by metis
    have "Written j v \<notin> set l'" if "es_log s @ [Written i u] = l @ Invalidated ids # l'" "j \<in> set ids" for l ids l' j v
    proof (cases l' rule: rev_cases)
      case Nil
      then show ?thesis by simp
    next
      case (snoc l'' x)
      with that(1) have "es_log s = l @ Invalidated ids # l''" "x = Written i u" by auto
      moreover from this that(2) live have "j \<noteq> i" by (auto simp add: ended_ids_def)
      ultimately show ?thesis using ok(7) that(2) snoc by auto
    qed
    moreover have "s' = ?s\<lparr> es_log := es_log ?s @ [Written i u] \<rparr>" by (simp add: w_write(1))
    ultimately show ?thesis
      using left ended_ids_append(1) [of ?s i u] by (simp add: emission_ok_def gate_ok_def)
  }
qed

lemma control_gate_step:
  assumes "emission_ok g s" "c < length (es_controls s)"
    and "w = set_gate g gate (es_registry s)" "eg_readers gate = eg_readers (rg_gates (es_registry s) g)"
    and "of_bool (eg_writer gate) = count_tasks holding ((es_controls s)[c := t])"
    and "eg_permits gate + count_tasks admitted ((es_controls s)[c := t]) = MAX_CONTROL_WAITERS_PER_DOCUMENT"
    and "eg_writer gate \<longrightarrow> eg_readers gate = 0"
  shows "emission_ok g (s\<lparr> es_registry := w, es_controls := (es_controls s)[c := t] \<rparr>)"
proof -
  have "emission_ok g (s\<lparr> es_registry := w, es_writers := es_writers s, es_controls := (es_controls s)[c := t] \<rparr>)"
    by (rule emission_ok_gate_step [OF assms(1,3)])
      (use assms(4-7) emission_okD(3,6) [OF assms(1)] in \<open>auto simp add: gate_ok_def\<close>)
  then show ?thesis by simp
qed

lemma contexts_known:
  assumes "registry_ok w" "i \<in> snd ` set (contexts d w)"
  shows "i < rg_next_subscription_id w"
  using registry_okD(5) [OF assms(1)] assms(2) by (auto simp add: contexts_def)

lemma revoked_inactive:
  assumes "registry_ok w" "i \<in> set ids"
  shows "\<not> cell_active (rg_cells (invalidate_subscriptions ids r w) i)"
proof
  let ?f = "\<lambda>e. sid e \<in> set ids"
  have eq: "invalidate_subscriptions ids r w = retain (\<lambda>entry w. if ?f entry
      then (False, invalidate (sid entry) r w) else (True, w)) w"
    by (simp add: invalidate_subscriptions_def)
  assume active: "cell_active (rg_cells (invalidate_subscriptions ids r w) i)"
  have "registry_ok (invalidate_subscriptions ids r w)" by (rule invalidate_subscriptions_ok [OF assms(1)])
  then obtain e where e: "e \<in> set (rg_subscriptions (invalidate_subscriptions ids r w))" "sid e = i"
    using registry_okD(4) active by blast
  then have "e \<in> set (rg_subscriptions w)"
    unfolding eq using retain_frame(5) [OF assms(1) end_where_local [where P = ?f and r = r]] by blast
  from retain_active(3) [OF assms(1) end_where_local end_where_walk_ok this, of ?f r] active e(2) assms(2) show False
    by (simp add: invalidate_subscriptions_def)
qed

lemma exclusion_step_ok:
  assumes "exclusion_step g s s'" "emission_ok g s"
  shows "emission_ok g s'"
  using assms(1)
proof (cases rule: exclusion_step.cases)
  note ok = emission_okD [OF assms(2)]
  note gate = ok(3) [unfolded gate_ok_def]
  let ?gate = "rg_gates (es_registry s) g"
  {
    case (c_admit c w ids)
    have w: "w = set_gate g (?gate\<lparr> eg_permits := eg_permits ?gate - 1 \<rparr>) (es_registry s)"
      and some: "eg_permits ?gate \<noteq> 0"
      using c_admit(4) by (auto simp add: exclude_admission_def Let_def split: if_splits)
    show ?thesis unfolding c_admit(1)
      by (rule control_gate_step [OF assms(2) c_admit(2) w])
        (use gate some c_admit(3) count_tasks_update [OF c_admit(2), of holding "ControlWaiting ids"]
          count_tasks_update [OF c_admit(2), of admitted "ControlWaiting ids"]
          in \<open>simp_all add: admitted_def\<close>)
  next
    case (c_saturated c)
    with assms(2) show ?thesis by simp
  next
    case (c_exclude c ids w)
    have w: "w = set_gate g (?gate\<lparr> eg_writer := True \<rparr>) (es_registry s)"
      and free: "\<not> eg_writer ?gate" "eg_readers ?gate = 0"
      using c_exclude(4) by (auto simp add: exclude_write_def Let_def split: if_splits)
    show ?thesis unfolding c_exclude(1)
      by (rule control_gate_step [OF assms(2) c_exclude(2) w])
        (use gate free c_exclude(3) count_tasks_update [OF c_exclude(2), of holding "ControlExcluding ids"]
          count_tasks_update [OF c_exclude(2), of admitted "ControlExcluding ids"]
          in \<open>simp_all add: admitted_def\<close>)
  next
    case (c_leave c)
    have w: "drop_exclusion g (es_registry s)
        = set_gate g (?gate\<lparr> eg_writer := False, eg_permits := eg_permits ?gate + 1 \<rparr>) (es_registry s)"
      by (simp add: drop_exclusion_def Let_def)
    have "count_tasks holding ((es_controls s)[c := ControlIdle]) + 1 = count_tasks holding (es_controls s)"
      using c_leave(3) count_tasks_update [OF c_leave(2), of holding ControlIdle] by simp
    with gate have "count_tasks holding ((es_controls s)[c := ControlIdle]) = 0"
      by (cases "eg_writer ?gate") simp_all
    then show ?thesis unfolding c_leave(1)
      by (intro control_gate_step [OF assms(2) c_leave(2) w])
        (use gate c_leave(3) count_tasks_update [OF c_leave(2), of admitted ControlIdle]
          in \<open>simp_all add: admitted_def\<close>)
  next
    case (c_apply c ids d)
    let ?w = "invalidate_subscriptions ids Revoked (es_registry s)"
    have reg: "registry_ok ?w" by (rule invalidate_subscriptions_ok [OF ok(1)])
    have same: "rg_gates ?w = rg_gates (es_registry s)" "rg_next_gate ?w = rg_next_gate (es_registry s)"
      "rg_next_subscription_id ?w = rg_next_subscription_id (es_registry s)"
      unfolding invalidate_subscriptions_def
      by (simp_all add: retain_gates [OF ok(1) end_where_local] retain_frame(3) [OF ok(1) end_where_local])
    have held: "0 < count_tasks holding (es_controls s)"
      using count_tasks_update [OF c_apply(2), of holding ControlIdle] c_apply(3) by simp
    then have "eg_writer ?gate" using gate by (cases "eg_writer ?gate") simp_all
    with gate have none: "count_tasks inside (es_writers s) = 0" by simp
    then have idle: "WriterWriting i u \<notin> set (es_writers s)" for i u
      by (auto simp add: count_tasks_def filter_empty_conv)
    have "gate_ok (rg_gates ?w g) s'"
      unfolding same c_apply(1) gate_ok_def
      using gate c_apply(3) count_tasks_update [OF c_apply(2), of holding ControlApplied]
        count_tasks_update [OF c_apply(2), of admitted ControlApplied]
      by (simp add: admitted_def)
    moreover have "i < rg_next_subscription_id ?w \<and> \<not> cell_active (rg_cells ?w i)"
      if "i \<in> ended_ids s \<union> set ids" for i
    proof (cases "i \<in> set ids")
      case True
      then have "i \<in> snd ` set (contexts d (es_registry s))" using c_apply(4) by blast
      then show ?thesis
        using True revoked_inactive [OF ok(1)] contexts_known [OF ok(1)] by (simp add: same)
    next
      case False
      then have i: "i \<in> ended_ids s" using that by blast
      then show ?thesis
        using registry_step_terminal [OF ok(1) ok(5) [OF i] ok(4) [OF i], of "InvalidateSubscriptions ids Revoked"]
          ok(4,5) [OF i] by (simp add: same)
    qed
    moreover have "Written j v \<notin> set l'"
      if "es_log s @ [Invalidated ids] = l @ Invalidated ids' # l'" "j \<in> set ids'" for l ids' l' j v
    proof (cases l' rule: rev_cases)
      case Nil
      then show ?thesis by simp
    next
      case (snoc l'' x)
      with that(1) have "es_log s = l @ Invalidated ids' # l''" "x = Invalidated ids" by auto
      with ok(7) that(2) snoc show ?thesis by auto
    qed
    moreover have "ended_ids s' = ended_ids s \<union> set ids"
      by (auto simp add: c_apply(1) ended_ids_def)
    ultimately show ?thesis
      using reg ok(2) idle unfolding emission_ok_def by (simp add: c_apply(1) same)
  }
qed

lemma emission_step_ok:
  assumes "emission_step g s s'" "emission_ok g s"
  shows "emission_ok g s'"
  using assms(1)
proof (cases rule: emission_step.cases)
  case by_writer
  then show ?thesis using assms(2) by (rule writer_step_ok)
next
  case by_control
  then show ?thesis using assms(2) by (rule exclusion_step_ok)
next
  case (by_registry ev)
  note ok = emission_okD [OF assms(2)]
  have reg: "registry_ok (registry_step ev (es_registry s))" by (rule registry_step_ok [OF ok(1) by_registry(2)])
  have "gate_kept g (es_registry s) (registry_step ev (es_registry s))" by (rule registry_step_gates [OF ok(1)])
  then obtain n where "g < rg_next_gate (registry_step ev (es_registry s))"
    "rg_gates (registry_step ev (es_registry s)) g = (rg_gates (es_registry s) g)\<lparr> eg_strong_count := n \<rparr>"
    using ok(2) by (auto simp add: gate_kept_def)
  moreover have "i < rg_next_subscription_id (registry_step ev (es_registry s))
      \<and> \<not> cell_active (rg_cells (registry_step ev (es_registry s)) i)" if "i \<in> ended_ids s" for i
    using registry_step_terminal [OF ok(1) ok(5) [OF that] ok(4) [OF that]] ok(5) [OF that]
      registry_step_next [OF ok(1) ok(4) [OF that]] by simp
  ultimately show ?thesis
    using assms(2) reg by (simp add: by_registry(1) emission_ok_def gate_ok_def)
qed

lemma emission_run_ok: "emission_run g s s' \<Longrightarrow> emission_ok g s \<Longrightarrow> emission_ok g s'"
  by (induction rule: emission_run.induct) (auto intro: emission_step_ok)


section \<open>No notification after a revocation\<close>

text \<open>A state in which no task is at the gate and nothing has been written.\<close>

definition quiet :: "nat \<Rightarrow> emission_state \<Rightarrow> bool" where
  "quiet g s \<longleftrightarrow> list_all (\<lambda>t. t = WriterIdle) (es_writers s)
    \<and> list_all (\<lambda>t. t = ControlIdle) (es_controls s) \<and> es_log s = []
    \<and> g < rg_next_gate (es_registry s) \<and> eg_readers (rg_gates (es_registry s) g) = 0
    \<and> \<not> eg_writer (rg_gates (es_registry s) g)
    \<and> eg_permits (rg_gates (es_registry s) g) = MAX_CONTROL_WAITERS_PER_DOCUMENT"

lemma quiet_ok:
  assumes "registry_ok (es_registry s)" "quiet g s"
  shows "emission_ok g s"
proof -
  have "count_tasks inside (es_writers s) = 0" "count_tasks holding (es_controls s) = 0"
    "count_tasks admitted (es_controls s) = 0"
    using assms(2) by (auto simp add: quiet_def count_tasks_def filter_empty_conv list_all_iff admitted_def)
  moreover have "WriterWriting i u \<notin> set (es_writers s)" for i u
    using assms(2) by (auto simp add: quiet_def list_all_iff)
  ultimately show ?thesis
    using assms by (auto simp add: quiet_def emission_ok_def gate_ok_def ended_ids_def)
qed

text \<open>
  C27: no notification is written after a revocation.  However the writers of a document's
  connections, the control tasks at its gate and the other operations of the broker interleave,
  once a control mutation has ended the subscriptions \<open>ids\<close>, no notification of any of them is
  written any more, not even one dequeued or admitted to the gate before; while a control task
  holds the gate no writer is inside; and at most one control task holds it, at most eight wait
  for it or hold it.
\<close>

theorem no_notification_after_revocation:
  assumes "possible_run es (registry_new broker)" "es_registry s = registry_run es (registry_new broker)"
    and "quiet g s" "emission_run g s s'"
  shows "(es_log s' = l @ Invalidated ids # l' \<longrightarrow> i \<in> set ids \<longrightarrow> Written i u \<notin> set l')
    \<and> (count_tasks holding (es_controls s') \<noteq> 0 \<longrightarrow> count_tasks inside (es_writers s') = 0)
    \<and> count_tasks holding (es_controls s') \<le> 1
    \<and> count_tasks admitted (es_controls s') \<le> MAX_CONTROL_WAITERS_PER_DOCUMENT"
proof -
  have "registry_ok (es_registry s)"
    unfolding assms(2) by (rule registry_run_ok [OF registry_new_ok assms(1)])
  then have "emission_ok g s'" using emission_run_ok [OF assms(4)] quiet_ok assms(3) by blast
  note ok = emission_okD(3,7) [OF this]
  note gate = ok(1) [unfolded gate_ok_def]
  have "count_tasks holding (es_controls s') \<le> 1" using gate by (metis of_bool_less_eq_one)
  moreover have "count_tasks holding (es_controls s') \<noteq> 0 \<longrightarrow> count_tasks inside (es_writers s') = 0"
    using gate by (metis of_bool_eq_0_iff)
  ultimately show ?thesis using ok(2) gate by (metis le_add2)
qed

definition demo_emission :: emission_state where
  "demo_emission = \<lparr> es_registry = registry_run demo_events (registry_new 0), es_writers = [WriterIdle],
    es_controls = [ControlIdle], es_log = [] \<rparr>"

lemma demo_gate:
  "rg_next_gate (registry_run demo_events (registry_new 0)) = 1"
  "rg_gates (registry_run demo_events (registry_new 0)) 0 = fresh_gate"
  "sc_gate (rg_cells (registry_run demo_events (registry_new 0)) 1) = 0"
  using arg_cong [OF demo_open, of snd]
  by (simp_all add: demo_events_def register_def recognizes_def demo_channel_def registry_new_def
      prune_def retain_def subscription_limit_defs checked_add_def emission_gate_of_def Let_def)

theorem no_notification_after_revocation_witness:
  "\<exists>s'. emission_run 0 demo_emission s' \<and> es_writers s' = [WriterDequeued 1 9]
    \<and> count_tasks holding (es_controls s') \<le> 1"
proof -
  let ?s = "demo_emission\<lparr> es_writers := (es_writers demo_emission)[0 := WriterDequeued 1 9] \<rparr>"
  have quiet: "quiet 0 demo_emission"
    by (simp add: quiet_def demo_emission_def demo_gate fresh_gate_def)
  have "writer_step 0 demo_emission ?s"
    by (rule w_dequeue) (simp_all add: demo_emission_def demo_gate)
  then have run: "emission_run 0 demo_emission ?s"
    by (intro emission_next [OF emission_start] by_writer)
  have "es_registry demo_emission = registry_run demo_events (registry_new 0)"
    by (simp add: demo_emission_def)
  from no_notification_after_revocation [OF demo_possible this quiet run] run show ?thesis
    by (intro exI [of _ ?s]) (auto simp add: demo_emission_def)
qed

end
