(* ===== verification/Pass_Safety.thy ===== *)
theory Pass_Safety
  imports Store_Broker Store_Drain Emission
begin

text \<open>
  The invariant of stable passes: they are bounded, their tokens are pairwise distinct, each
  reads a captured window of its document, and what advances a pass gives the next piece of
  that window.
\<close>

section \<open>Invariants of the passes\<close>

definition enumeration_tokens :: "enumeration_pass \<Rightarrow> continuation_token list" where
  "enumeration_tokens p = epp_token (ep_current p)
    # (case ep_retry p of None \<Rightarrow> [] | Some retry \<Rightarrow> [epr_token retry])"

definition vector_tokens :: "vector_backfill_pass \<Rightarrow> continuation_token list" where
  "vector_tokens p = (case vp_current p of None \<Rightarrow> [] | Some current \<Rightarrow> [vpp_token current])
    @ (case vp_retry p of None \<Rightarrow> [] | Some retry \<Rightarrow> [vpr_token retry])"

definition tokens_distinct :: "('p \<Rightarrow> continuation_token list) \<Rightarrow> 'p list \<Rightarrow> bool" where
  "tokens_distinct tokens ps \<longleftrightarrow> distinct (concat (map tokens ps))"

definition passes_bounded ::
  "('p \<Rightarrow> u64) \<Rightarrow> ('p \<Rightarrow> document_id) \<Rightarrow> ('p \<Rightarrow> capability_id) \<Rightarrow> 'p list \<Rightarrow> bool" where
  "passes_bounded channel document capability ps \<longleftrightarrow> length ps \<le> 1024
    \<and> (\<forall>l. length (filter (\<lambda>p. channel p = l) ps) \<le> 32)
    \<and> (\<forall>d. length (filter (\<lambda>p. document p = d) ps) \<le> 32)
    \<and> (\<forall>d c. length (filter (\<lambda>p. document p = d \<and> capability p = c) ps) \<le> 8)"

abbreviation enumeration_bounded :: "enumeration_pass list \<Rightarrow> bool" where
  "enumeration_bounded \<equiv> passes_bounded ep_channel_id ep_document_id ep_capability_id"

abbreviation vector_bounded :: "vector_backfill_pass list \<Rightarrow> bool" where
  "vector_bounded \<equiv> passes_bounded vp_channel_id vp_document_id vp_capability_id"

definition captured :: "tables \<Rightarrow> document_id \<Rightarrow> acceptance_sequence \<Rightarrow> bool" where
  "captured t d b \<longleftrightarrow> (\<exists>f. pinned t d b f)"

definition enumeration_window_ok :: "tables \<Rightarrow> enumeration_pass \<Rightarrow> bool" where
  "enumeration_window_ok t p \<longleftrightarrow> captured t (ep_document_id p) (ep_terminal_sequence p)
    \<and> ep_lower_sequence_exclusive p < ep_terminal_sequence p
    \<and> epp_next_ordinal (ep_current p) \<le> ep_terminal_sequence p - ep_lower_sequence_exclusive p
    \<and> (epp_mode (ep_current p) = TokenContinue \<longleftrightarrow>
        epp_next_ordinal (ep_current p) < ep_terminal_sequence p - ep_lower_sequence_exclusive p)"

definition vector_window_ok :: "tables \<Rightarrow> vector_backfill_pass \<Rightarrow> bool" where
  "vector_window_ok t p \<longleftrightarrow> captured t (vp_document_id p) (vp_terminal_sequence p)
    \<and> (\<forall>current. vp_current p = Some current \<longrightarrow> vpp_position current < vp_terminal_sequence p)"

lemma length_filter_filter: "length (filter Q (filter P ps)) \<le> length (filter Q ps)"
  by (induction ps) auto

lemma bounded_filter:
  assumes "passes_bounded channel document capability ps"
  shows "passes_bounded channel document capability (filter P ps)"
  using assms length_filter_filter [where P = P and ps = ps] length_filter_le [of P ps]
  unfolding passes_bounded_def by (meson le_trans)

lemma length_filter_update:
  "i < length ps \<Longrightarrow> P q = P (ps ! i) \<Longrightarrow> length (filter P (ps[i := q])) = length (filter P ps)"
proof (induction ps arbitrary: i)
  case (Cons p ps)
  then show ?case by (cases i) auto
qed simp

lemma bounded_update:
  assumes "passes_bounded channel document capability ps" "i < length ps"
    and "channel q = channel (ps ! i)" "document q = document (ps ! i)" "capability q = capability (ps ! i)"
  shows "passes_bounded channel document capability (ps[i := q])"
  using assms by (simp add: passes_bounded_def length_filter_update)

lemma bounded_append:
  assumes "passes_bounded channel document capability ps" "length ps < 1024"
    and "length (filter (\<lambda>p. channel p = channel q) ps) < 32"
    and "length (filter (\<lambda>p. document p = document q) ps) < 32"
    and "length (filter (\<lambda>p. document p = document q \<and> capability p = capability q) ps) < 8"
  shows "passes_bounded channel document capability (ps @ [q])"
  using assms by (auto simp add: passes_bounded_def)

lemma distinct_concat_filter: "distinct (concat xss) \<Longrightarrow> distinct (concat (filter P xss))"
  by (induction xss) auto

lemma tokens_filter: "tokens_distinct tokens ps \<Longrightarrow> tokens_distinct tokens (filter P ps)"
proof (induction ps)
  case (Cons p ps)
  then show ?case by (auto simp add: tokens_distinct_def)
qed simp

lemma tokens_append:
  "tokens_distinct tokens (ps @ [q]) \<longleftrightarrow> tokens_distinct tokens ps \<and> distinct (tokens q)
    \<and> (\<forall>p \<in> set ps. set (tokens p) \<inter> set (tokens q) = {})"
  by (auto simp add: tokens_distinct_def)

lemma tokens_distinctD:
  assumes "tokens_distinct tokens ps" "i < length ps" "j < length ps" "x \<in> set (tokens (ps ! i))"
    and "x \<in> set (tokens (ps ! j))"
  shows "i = j"
  using assms
proof (induction ps arbitrary: i j)
  case (Cons p ps)
  have apart: "y \<notin> set (tokens (ps ! k))" if "y \<in> set (tokens p)" "k < length ps" for y k
    using Cons.prems(1) that by (fastforce simp add: tokens_distinct_def)
  have "tokens_distinct tokens ps" using Cons.prems(1) by (simp add: tokens_distinct_def)
  with Cons apart show ?case by (cases i; cases j) auto
qed simp

lemma tokens_update:
  assumes "tokens_distinct tokens ps" "i < length ps" "distinct (tokens q)"
    and "\<And>x. x \<in> set (tokens q) \<Longrightarrow>
      x \<in> set (tokens (ps ! i)) \<or> (\<forall>p \<in> set ps. x \<notin> set (tokens p))"
  shows "tokens_distinct tokens (ps[i := q])"
  using assms
proof (induction ps arbitrary: i)
  case (Cons p ps)
  note split = Cons.prems(1) [unfolded tokens_distinct_def, simplified]
  show ?case
  proof (cases i)
    case 0
    with Cons.prems split show ?thesis by (fastforce simp add: tokens_distinct_def)
  next
    case (Suc j)
    have j: "j < length ps" using Cons.prems(2) Suc by simp
    have "tokens_distinct tokens (ps[j := q])"
      using split j Cons.prems(3,4) Suc by (intro Cons.IH) (auto simp add: tokens_distinct_def)
    moreover have "set (tokens p) \<inter> set (tokens q) = {}"
      using split j Cons.prems(4) Suc by (fastforce simp add: set_concat)
    moreover have "set (tokens p) \<inter> \<Union> (set (map (set \<circ> tokens) ps)) = {}" using split by auto
    then have "set (tokens p) \<inter> \<Union> (set (map (set \<circ> tokens) (ps[j := q]))) \<subseteq> set (tokens p) \<inter> set (tokens q)"
      using set_update_subset_insert [of ps j q] by fastforce
    ultimately show ?thesis
      using split Suc by (auto simp add: tokens_distinct_def)
  qed
qed simp

lemma mint_loop_fresh: "mint_loop n a rnd used = Inr (Some token) \<Longrightarrow> \<not> used token"
  by (induction n arbitrary: a) (auto split: option.splits if_splits)

lemma mint_loop_error: "mint_loop n a rnd used = Inl err \<Longrightarrow> err = EntropyUnavailable"
  by (induction n arbitrary: a) (auto split: option.splits if_splits)

lemma uses_enumeration_tokens:
  "enumeration_pass_uses_token p x \<longleftrightarrow> x \<in> set (enumeration_tokens p)"
  by (auto simp add: enumeration_pass_uses_token_def enumeration_tokens_def split: option.split)

lemma contains_vector_tokens: "vector_pass_contains_token p x \<longleftrightarrow> x \<in> set (vector_tokens p)"
  by (auto simp add: vector_pass_contains_token_def vector_tokens_def split: option.split)

lemma minted_enumeration_token:
  assumes "mint_enumeration_token rnd ps = r"
  shows "r = Inr (Some x) \<Longrightarrow> p \<in> set ps \<Longrightarrow> x \<notin> set (enumeration_tokens p)"
    "r = Inl err \<Longrightarrow> err = EntropyUnavailable"
proof -
  note m = assms [unfolded mint_enumeration_token_def]
  show "x \<notin> set (enumeration_tokens p)" if "r = Inr (Some x)" "p \<in> set ps"
    using mint_loop_fresh [OF m [unfolded that(1)]] that(2)
    by (simp add: list_ex_iff uses_enumeration_tokens)
  show "err = EntropyUnavailable" if "r = Inl err"
    by (rule mint_loop_error [OF m [unfolded that]])
qed

lemma minted_vector_token:
  assumes "mint_vector_token rnd ps = r"
  shows "r = Inr (Some x) \<Longrightarrow> p \<in> set ps \<Longrightarrow> x \<notin> set (vector_tokens p)"
    "r = Inl err \<Longrightarrow> err = EntropyUnavailable"
proof -
  note m = assms [unfolded mint_vector_token_def]
  show "x \<notin> set (vector_tokens p)" if "r = Inr (Some x)" "p \<in> set ps"
    using mint_loop_fresh [OF m [unfolded that(1)]] that(2)
    by (simp add: list_ex_iff contains_vector_tokens)
  show "err = EntropyUnavailable" if "r = Inl err"
    by (rule mint_loop_error [OF m [unfolded that]])
qed

lemma find_position_Some:
  assumes "find_position P xs = Some i"
  shows "i < length xs \<and> P (xs ! i)"
  using assms
proof (induction xs arbitrary: i)
  case (Cons x xs)
  show ?case
  proof (cases "P x")
    case False
    with Cons.prems obtain k where "find_position P xs = Some k" "i = Suc k" by auto
    with Cons.IH show ?thesis by simp
  qed (use Cons.prems in simp)
qed simp

lemma find_position_unique:
  assumes "i < length xs" "P (xs ! i)" "\<And>j. j < length xs \<Longrightarrow> P (xs ! j) \<Longrightarrow> j = i"
  shows "find_position P xs = Some i"
proof -
  have "find_position P xs \<noteq> None" if "i < length xs" "P (xs ! i)" for i
    using that by (induction xs arbitrary: i) (auto simp add: nth_Cons split: nat.splits)
  then obtain k where k: "find_position P xs = Some k" using assms(1,2) by blast
  then show ?thesis using assms(3) find_position_Some [OF k] by blast
qed


section \<open>Requests keep the passes good\<close>

definition enumeration_passes_ok :: "tables \<Rightarrow> enumeration_pass list \<Rightarrow> bool" where
  "enumeration_passes_ok t ps \<longleftrightarrow> enumeration_bounded ps \<and> tokens_distinct enumeration_tokens ps
    \<and> list_all (enumeration_window_ok t) ps"

definition vector_passes_ok :: "tables \<Rightarrow> vector_backfill_pass list \<Rightarrow> bool" where
  "vector_passes_ok t ps \<longleftrightarrow> vector_bounded ps \<and> tokens_distinct vector_tokens ps
    \<and> list_all (vector_window_ok t) ps"

lemma enumeration_passes_filter:
  "enumeration_passes_ok t ps \<Longrightarrow> enumeration_passes_ok t (filter P ps)"
  by (simp add: enumeration_passes_ok_def bounded_filter tokens_filter list_all_iff)

lemma vector_passes_filter: "vector_passes_ok t ps \<Longrightarrow> vector_passes_ok t (filter P ps)"
  by (simp add: vector_passes_ok_def bounded_filter tokens_filter list_all_iff)

text \<open>One page of a captured window, and the ordinal after it.\<close>

lemma captured_page:
  assumes "captured t d b" "a < b" "ordinal < b - a" "MAX_ENUMERABLE_METADATA_LENGTH \<le> limit"
  obtains page where "enumerate_in t d a b ordinal limit = Inr page" "sp_updates page \<noteq> []"
    "sp_next_ordinal page \<le> b - a" "mode_after page = TokenContinue \<longleftrightarrow> sp_next_ordinal page < b - a"
proof -
  obtain f where f: "pinned t d b f" using assms(1) by (auto simp add: captured_def)
  obtain k page where p: "enumerate_in t d a b ordinal limit = Inr page" "page_bounded limit page"
    "unat (sp_next_ordinal page) = unat ordinal + k"
    "sp_has_more page \<longleftrightarrow> unat ordinal + k < unat b - unat a" "unat ordinal + k \<le> unat b - unat a"
    using pinned_page [OF f assms(2-4)] .
  have "unat (b - a) = unat b - unat a" using assms(2) by (simp add: unat_sub)
  then show thesis
    using p by (intro that [of page]) (simp_all add: page_bounded_def word_le_nat_alt word_less_nat_alt mode_after_def)
qed

lemma history_captured:
  assumes "store_history sha empty_tables t" "high_water_sequence_in t d = Some b"
  shows "captured t d b" "0 < b"
  using pinned_start(1,2) [OF assms] by (auto simp add: captured_def word_gt_0)

text \<open>
  What a continuation reads is a window of the document with something left in it; only the
  tail of an unchanged document is empty.
\<close>

lemma continuation_window_ok:
  assumes "store_history sha empty_tables t" "enumeration_window_ok t p"
    and "epp_mode (ep_current p) = mode" "continuation_window t p mode = Inr (Some (a, b, ordinal))"
  shows "captured t (ep_document_id p) b" "a < b" "ordinal < b - a"
proof -
  note w = assms(2) [unfolded enumeration_window_ok_def]
  have "captured t (ep_document_id p) b \<and> a < b \<and> ordinal < b - a"
  proof (cases mode)
    case TokenContinue
    with assms(3,4) w show ?thesis by (auto simp add: continuation_window_def)
  next
    case TokenAfterTail
    then obtain high where high: "high_water_sequence_in t (ep_document_id p) = Some high"
      "a = ep_terminal_sequence p" "b = high" "ordinal = 0" "\<not> high < ep_terminal_sequence p"
      "high \<noteq> ep_terminal_sequence p"
      using assms(4) by (auto simp add: continuation_window_def split: option.splits if_splits)
    then have "a < b" by auto
    moreover have "b - a \<noteq> 0" using high by simp
    ultimately show ?thesis
      using history_captured(1) [OF assms(1)] high by (simp add: word_gt_0)
  qed
  then show "captured t (ep_document_id p) b" "a < b" "ordinal < b - a" by blast+
qed

lemma enumerate_advance_ok:
  assumes "store_history sha empty_tables (ds_tables s)" "enumeration_passes_ok (ds_tables s) (ds_enumeration_passes s)"
    and "i < length (ds_enumeration_passes s)" "epp_mode (ep_current (ds_enumeration_passes s ! i)) = mode"
    and "epp_token (ep_current (ds_enumeration_passes s ! i)) = token"
    and "continuation_window (ds_tables s) (ds_enumeration_passes s ! i) mode = Inr (Some window)"
    and "MAX_ENUMERABLE_METADATA_LENGTH \<le> limit"
    and "enumerate_advance s i token mode window limit later rnd = (res, s')"
  shows "\<exists>ps. s' = s\<lparr> ds_enumeration_passes := ps \<rparr> \<and> enumeration_passes_ok (ds_tables s) ps
    \<and> map ep_capability_id ps = map ep_capability_id (ds_enumeration_passes s)
    \<and> map ep_document_id ps = map ep_document_id (ds_enumeration_passes s)
    \<and> (\<forall>err. res = Inl err \<longrightarrow> err = EntropyUnavailable)"
proof -
  let ?ps = "ds_enumeration_passes s" and ?t = "ds_tables s"
  let ?p = "?ps ! i"
  note ok = assms(2) [unfolded enumeration_passes_ok_def]
  have win: "enumeration_window_ok ?t ?p" using ok assms(3) by (simp add: list_all_length)
  obtain a b ordinal where w: "window = (a, b, ordinal)" by (cases window)
  note cw = continuation_window_ok [OF assms(1) win assms(4) assms(6) [unfolded w]]
  obtain page where page: "enumerate_in ?t (ep_document_id ?p) a b ordinal limit = Inr page"
    "sp_updates page \<noteq> []" "sp_next_ordinal page \<le> b - a"
    "mode_after page = TokenContinue \<longleftrightarrow> sp_next_ordinal page < b - a"
    using captured_page [OF cw assms(7)] .
  show ?thesis
  proof (cases "mint_enumeration_token rnd ?ps")
    case (Inl err)
    then show ?thesis
      using assms(2,8) page minted_enumeration_token(2) [OF Inl refl]
      by (intro exI [of _ ?ps]) (auto simp add: enumerate_advance_def w)
  next
    case (Inr minted)
    show ?thesis
    proof (cases minted)
      case None
      then show ?thesis
        using assms(2,8) page Inr by (intro exI [of _ ?ps]) (auto simp add: enumerate_advance_def w)
    next
      case (Some next_token)
      define response where "response = \<lparr> ap_page = page, ap_next_cursor = Some (be_encode next_token) \<rparr>"
      define q where "q = ?p\<lparr> ep_current := \<lparr> epp_mode = mode_after page,
          epp_next_ordinal = sp_next_ordinal page, epp_token = next_token \<rparr>,
        ep_expires_at := later + ENUMERATION_PASS_IDLE_TTL, ep_lower_sequence_exclusive := a,
        ep_retry := Some \<lparr> epr_mode = mode, epr_response = response, epr_token = token \<rparr>,
        ep_terminal_sequence := b \<rparr>"
      have s': "s' = s\<lparr> ds_enumeration_passes := ?ps[i := q] \<rparr>" "res = Inr (EnAuthorized response)"
        using assms(8) page Inr Some
        by (auto simp add: enumerate_advance_def w Let_def q_def response_def)
      have fresh: "\<forall>p \<in> set ?ps. next_token \<notin> set (enumeration_tokens p)"
        using minted_enumeration_token(1) [OF Inr] Some by blast
      have old: "token \<in> set (enumeration_tokens ?p)" using assms(5) by (simp add: enumeration_tokens_def)
      then have "next_token \<noteq> token" using fresh assms(3) nth_mem by blast
      then have "tokens_distinct enumeration_tokens (?ps[i := q])"
        using ok assms(3) fresh old
        by (intro tokens_update) (auto simp add: enumeration_tokens_def q_def)
      moreover have "enumeration_bounded (?ps[i := q])"
        using ok assms(3) by (intro bounded_update) (simp_all add: q_def)
      moreover have "enumeration_window_ok ?t q"
        using cw(1,2) page(3,4) by (simp add: enumeration_window_ok_def q_def)
      then have "list_all (enumeration_window_ok ?t) (?ps[i := q])"
        using ok by (auto simp add: list_all_iff dest!: set_update_other)
      moreover have "map ep_capability_id (?ps[i := q]) = map ep_capability_id ?ps"
        "map ep_document_id (?ps[i := q]) = map ep_document_id ?ps"
        by (simp_all add: map_update q_def list_update_same_conv assms(3))
      ultimately show ?thesis
        using s' by (intro exI [of _ "?ps[i := q]"]) (simp add: enumeration_passes_ok_def)
    qed
  qed
qed

end
