(* ===== verification/Pass_Requests.thy ===== *)
theory Pass_Requests
  imports Pass_Safety
begin

text \<open>
  What one enumeration or vector request does to a broker whose passes are good: it keeps them
  good, touches nothing else, leaves passes only for the authority it was asked under, and fails
  only when the source of randomness does.
\<close>

section \<open>Enumeration\<close>

definition enumeration_effect ::
  "durable_update_store \<Rightarrow> document_id \<Rightarrow> capability_id \<Rightarrow> store_error + 'a \<Rightarrow> durable_update_store \<Rightarrow> bool" where
  "enumeration_effect s d c res s' \<longleftrightarrow> (\<exists>ps. s' = s\<lparr> ds_enumeration_passes := ps \<rparr>
    \<and> enumeration_passes_ok (ds_tables s) ps
    \<and> (\<forall>p \<in> set ps. ep_document_id p = d \<and> ep_capability_id p = c
        \<or> (\<exists>q \<in> set (ds_enumeration_passes s). ep_document_id p = ep_document_id q
            \<and> ep_capability_id p = ep_capability_id q))
    \<and> (\<forall>err. res = Inl err \<longrightarrow> err = EntropyUnavailable))"

lemma enumeration_effectI:
  assumes "enumeration_passes_ok (ds_tables s) ps" "\<And>err. res = Inl err \<Longrightarrow> err = EntropyUnavailable"
    and "\<And>p. p \<in> set ps \<Longrightarrow> p \<notin> set (ds_enumeration_passes s) \<Longrightarrow>
      ep_document_id p = d \<and> ep_capability_id p = c"
  shows "enumeration_effect s d c res (s\<lparr> ds_enumeration_passes := ps \<rparr>)"
  using assms unfolding enumeration_effect_def by blast

lemma enumeration_effect_unchanged:
  assumes "enumeration_passes_ok (ds_tables s) (ds_enumeration_passes s)" "s' = s" "res = Inr outcome"
  shows "enumeration_effect s d c res s'"
  using enumeration_effectI [OF assms(1), of res d c] assms(2,3) by simp

text \<open>A request that first drops some passes.\<close>

lemma enumeration_effect_filtered:
  assumes "enumeration_effect (s\<lparr> ds_enumeration_passes := filter P (ds_enumeration_passes s) \<rparr>) d c res s'"
  shows "enumeration_effect s d c res s'"
  using assms unfolding enumeration_effect_def by fastforce

lemma enumerate_advance_effect:
  assumes "store_history sha empty_tables (ds_tables s)" "enumeration_passes_ok (ds_tables s) (ds_enumeration_passes s)"
    and "i < length (ds_enumeration_passes s)" "epp_mode (ep_current (ds_enumeration_passes s ! i)) = mode"
    and "epp_token (ep_current (ds_enumeration_passes s ! i)) = token"
    and "continuation_window (ds_tables s) (ds_enumeration_passes s ! i) mode = Inr (Some window)"
    and "MAX_ENUMERABLE_METADATA_LENGTH \<le> limit"
    and "enumerate_advance s i token mode window limit later rnd = (res, s')"
  shows "enumeration_effect s d c res s'"
proof -
  obtain ps where ps: "s' = s\<lparr> ds_enumeration_passes := ps \<rparr>" "enumeration_passes_ok (ds_tables s) ps"
    "map ep_capability_id ps = map ep_capability_id (ds_enumeration_passes s)"
    "map ep_document_id ps = map ep_document_id (ds_enumeration_passes s)"
    "\<forall>err. res = Inl err \<longrightarrow> err = EntropyUnavailable"
    using enumerate_advance_ok [OF assms] by blast
  have "\<exists>q \<in> set (ds_enumeration_passes s). ep_document_id p = ep_document_id q
      \<and> ep_capability_id p = ep_capability_id q" if p: "p \<in> set ps" for p
  proof -
    have len: "length ps = length (ds_enumeration_passes s)" using arg_cong [OF ps(3), of length] by simp
    obtain j where j: "j < length ps" "p = ps ! j" using p by (auto simp add: in_set_conv_nth)
    then have "ep_capability_id p = ep_capability_id (ds_enumeration_passes s ! j)"
      "ep_document_id p = ep_document_id (ds_enumeration_passes s ! j)"
      using ps(3,4) len by (metis nth_map)+
    with j(1) len show ?thesis by (intro bexI [of _ "ds_enumeration_passes s ! j"]) simp_all
  qed
  then show ?thesis using ps unfolding enumeration_effect_def by blast
qed

lemma enumerate_continuation_effect:
  assumes "store_history sha empty_tables (ds_tables s)" "enumeration_passes_ok (ds_tables s) (ds_enumeration_passes s)"
    and "MAX_ENUMERABLE_METADATA_LENGTH \<le> limit"
    and "enumerate_continuation s ch d c encoded mode limit now later rnd = (res, s')"
  shows "enumeration_effect s d c res s'"
proof (cases "token_from encoded")
  case None
  then have "s' = s" "res = Inr EnInvalidContinuation"
    using assms(4) by (simp_all add: enumerate_continuation_def)
  then show ?thesis by (rule enumeration_effect_unchanged [OF assms(2)])
next
  case (Some token)
  note token = this
  let ?ps = "ds_enumeration_passes s"
  let ?find = "find_position (\<lambda>p. enumeration_pass_contains_token p token mode) ?ps"
  show ?thesis
  proof (cases ?find)
    case None
    then have "s' = s" "res = Inr EnInvalidContinuation"
      using assms(4) token by (simp_all add: enumerate_continuation_def)
    then show ?thesis by (rule enumeration_effect_unchanged [OF assms(2)])
  next
    case (Some i)
    let ?p = "?ps ! i"
    have i: "i < length ?ps" using find_position_Some [OF Some] by simp
    have advance: "enumeration_effect s d c res s'"
      if "epp_token (ep_current ?p) = token" "epp_mode (ep_current ?p) = mode"
        "continuation_window (ds_tables s) ?p mode = Inr (Some window)"
        "enumerate_advance s i token mode window limit later rnd = (res, s')" for window
      using enumerate_advance_effect [OF assms(1,2) i that(2,1,3) assms(3) that(4)] .
    have step: "enumerate_continuation s ch d c encoded mode limit now later rnd
        = (if ep_document_id ?p \<noteq> d \<or> ep_capability_id ?p \<noteq> c \<or> ep_channel_id ?p \<noteq> ch
            \<or> ep_generation ?p \<noteq> ds_generation s \<or> ep_expires_at ?p \<le> now
           then (Inr EnInvalidContinuation, s)
           else case (case ep_retry ?p of
               Some retry \<Rightarrow> if epr_token retry = token \<and> epr_mode retry = mode
                 then Some (epr_response retry) else None
             | None \<Rightarrow> None) of
               Some response \<Rightarrow> (Inr (EnAuthorized response), s)
             | None \<Rightarrow>
               if epp_token (ep_current ?p) \<noteq> token \<or> epp_mode (ep_current ?p) \<noteq> mode
               then (Inr EnInvalidContinuation, s)
               else (case continuation_window (ds_tables s) ?p mode of
                   Inl () \<Rightarrow> (Inr EnInvalidContinuation, s)
                 | Inr None \<Rightarrow> (Inr (EnAuthorized \<lparr> ap_page = empty_stored_update_page,
                     ap_next_cursor = None \<rparr>), s)
                 | Inr (Some window) \<Rightarrow> enumerate_advance s i token mode window limit later rnd))"
      by (simp add: enumerate_continuation_def token Some Let_def)
    define now_ok where "now_ok \<longleftrightarrow> epp_token (ep_current ?p) = token \<and> epp_mode (ep_current ?p) = mode"
    have "s' = s \<and> (\<exists>outcome. res = Inr outcome) \<or> now_ok
      \<and> (\<exists>window. continuation_window (ds_tables s) ?p mode = Inr (Some window)
        \<and> enumerate_advance s i token mode window limit later rnd = (res, s'))"
    proof (cases "continuation_window (ds_tables s) ?p mode")
      case (Inl u)
      then show ?thesis using assms(4) [symmetric] unfolding step by (simp split: if_splits option.splits unit.splits)
    next
      case (Inr w)
      then show ?thesis
        using assms(4) [symmetric] unfolding step
        by (cases w) (auto simp add: now_ok_def split: if_splits option.splits simp del: split_paired_Ex)
    qed
    then consider outcome where "s' = s" "res = Inr outcome"
      | window where now_ok "continuation_window (ds_tables s) ?p mode = Inr (Some window)"
        "enumerate_advance s i token mode window limit later rnd = (res, s')" by blast
    then show ?thesis
    proof cases
      case 1
      then show ?thesis by (rule enumeration_effect_unchanged [OF assms(2)])
    next
      case 2
      then show ?thesis by (intro advance) (simp_all add: now_ok_def)
    qed
  qed
qed

lemma enumerate_origin_effect:
  assumes "store_history sha empty_tables (ds_tables s)" "enumeration_passes_ok (ds_tables s) (ds_enumeration_passes s)"
    and "MAX_ENUMERABLE_METADATA_LENGTH \<le> limit"
    and "enumerate_origin s ch d c limit now rnd = (res, s')"
  shows "enumeration_effect s d c res s'"
proof -
  define ps where "ps = filter (\<lambda>p. ep_channel_id p \<noteq> ch \<or> ep_document_id p \<noteq> d \<or> ep_capability_id p \<noteq> c)
    (ds_enumeration_passes s)"
  let ?s = "s\<lparr> ds_enumeration_passes := ps \<rparr>" and ?t = "ds_tables s"
  have ps: "enumeration_passes_ok ?t ps" unfolding ps_def by (rule enumeration_passes_filter [OF assms(2)])
  have sub: "set ps \<subseteq> set (ds_enumeration_passes s)" by (auto simp add: ps_def)
  have same: "enumeration_effect s d c r ?s" if "\<And>err. r = Inl err \<Longrightarrow> err = EntropyUnavailable"
    for r :: "store_error + authorized_stored_update_page store_enumerate_outcome"
    using ps sub that by (intro enumeration_effectI) auto
  show ?thesis
  proof (cases "high_water_sequence_in ?t d")
    case None
    then have "s' = ?s" "\<exists>outcome. res = Inr outcome"
      using assms(4) by (auto simp add: enumerate_origin_def Let_def ps_def)
    then show ?thesis using same by auto
  next
    case (Some b)
    note b = history_captured [OF assms(1) Some]
    have "ORIGIN < b" "0 < b - ORIGIN" using b(2) by (simp_all add: ORIGIN_def)
    from captured_page [OF b(1) this assms(3)] obtain page where page:
      "enumerate_in ?t d ORIGIN b 0 limit = Inr page" "sp_updates page \<noteq> []"
      "sp_next_ordinal page \<le> b - ORIGIN"
      "mode_after page = TokenContinue \<longleftrightarrow> sp_next_ordinal page < b - ORIGIN" .
    note start = enumerate_origin_def [of s ch d c limit now rnd, folded ps_def, unfolded Let_def]
    show ?thesis
    proof (cases "can_admit_enumeration_pass ps ch d c")
      case False
      then have "s' = ?s" "res = Inr EnBackpressure"
        using assms(4) Some page by (simp_all add: start)
      then show ?thesis using same by auto
    next
      case True
      show ?thesis
      proof (cases "mint_enumeration_token rnd ps")
        case (Inl err)
        then have "s' = ?s" "res = Inl err" using assms(4) Some page True by (simp_all add: start)
        then show ?thesis using same [of res] minted_enumeration_token(2) [OF Inl refl] by simp
      next
        case (Inr minted)
        show ?thesis
        proof (cases minted)
          case None
          then have "s' = ?s" "res = Inr EnBackpressure"
            using assms(4) Some page True Inr by (simp_all add: start)
          then show ?thesis using same by auto
        next
          case minted: (Some token)
          define q where "q = \<lparr> ep_capability_id = c, ep_channel_id = ch,
            ep_current = \<lparr> epp_mode = mode_after page, epp_next_ordinal = sp_next_ordinal page,
              epp_token = token \<rparr>,
            ep_document_id = d, ep_expires_at = now + ENUMERATION_PASS_IDLE_TTL,
            ep_generation = ds_generation s, ep_lower_sequence_exclusive = ORIGIN,
            ep_retry = None, ep_terminal_sequence = b \<rparr>"
          have s': "s' = s\<lparr> ds_enumeration_passes := ps @ [q] \<rparr>" "\<exists>outcome. res = Inr outcome"
            using assms(4) Some page True Inr minted by (auto simp add: start q_def)
          have "enumeration_window_ok ?t q"
            using b \<open>ORIGIN < b\<close> page(3,4) by (simp add: enumeration_window_ok_def q_def)
          moreover have "enumeration_bounded (ps @ [q])"
            using ps True
            by (intro bounded_append)
              (simp_all add: enumeration_passes_ok_def can_admit_enumeration_pass_def pass_limit_defs q_def)
          moreover have "tokens_distinct enumeration_tokens (ps @ [q])"
            using ps minted_enumeration_token(1) [OF Inr] minted
            by (auto simp add: tokens_append enumeration_passes_ok_def q_def enumeration_tokens_def)
          ultimately have "enumeration_passes_ok ?t (ps @ [q])"
            using ps by (simp add: enumeration_passes_ok_def)
          then show ?thesis
            using s' sub unfolding s'(1) by (intro enumeration_effectI) (auto simp add: q_def)
        qed
      qed
    qed
  qed
qed

lemma enumerate_authorized_effect:
  assumes "store_history sha empty_tables (ds_tables s)" "enumeration_passes_ok (ds_tables s) (ds_enumeration_passes s)"
    and "MAX_ENUMERABLE_METADATA_LENGTH \<le> limit"
    and "enumerate_authorized sha s channel d c a start limit now later rnd = (res, s')"
  shows "s' = s \<and> (\<exists>outcome. res = Inr outcome)
    \<or> authorize_document sha (ds_tables s) d c a Read = document_authorization.Authorized
      \<and> enumeration_effect s d c res s'"
proof (cases "recognizes (ds_subscriptions s) channel
    \<and> authorize_document sha (ds_tables s) d c a Read = document_authorization.Authorized")
  case False
  then show ?thesis
    using assms(4) by (auto simp add: enumerate_authorized_def split: document_authorization.splits if_splits)
next
  case True
  let ?s = "s\<lparr> ds_enumeration_passes := filter (\<lambda>p. now < ep_expires_at p) (ds_enumeration_passes s) \<rparr>"
  have ok: "store_history sha empty_tables (ds_tables ?s)"
    "enumeration_passes_ok (ds_tables ?s) (ds_enumeration_passes ?s)"
    using assms(1) enumeration_passes_filter [OF assms(2)] by simp_all
  have "enumeration_effect ?s d c res s'"
    using assms(4) True enumerate_origin_effect [OF ok assms(3)] enumerate_continuation_effect [OF ok assms(3)]
    by (cases start) (simp_all add: enumerate_authorized_def Let_def)
  then show ?thesis using True enumeration_effect_filtered by blast
qed

section \<open>Vector backfill\<close>

definition vector_effect ::
  "durable_update_store \<Rightarrow> document_id \<Rightarrow> capability_id \<Rightarrow> store_error + 'a \<Rightarrow> durable_update_store \<Rightarrow> bool" where
  "vector_effect s d c res s' \<longleftrightarrow> (\<exists>ps. s' = s\<lparr> ds_vector_passes := ps \<rparr>
    \<and> vector_passes_ok (ds_tables s) ps
    \<and> (\<forall>p \<in> set ps. vp_document_id p = d \<and> vp_capability_id p = c
        \<or> (\<exists>q \<in> set (ds_vector_passes s). vp_document_id p = vp_document_id q
            \<and> vp_capability_id p = vp_capability_id q))
    \<and> (\<forall>err. res = Inl err \<longrightarrow> err = EntropyUnavailable))"

lemma vector_effectI:
  assumes "vector_passes_ok (ds_tables s) ps" "\<And>err. res = Inl err \<Longrightarrow> err = EntropyUnavailable"
    and "\<And>p. p \<in> set ps \<Longrightarrow> p \<notin> set (ds_vector_passes s) \<Longrightarrow> vp_document_id p = d \<and> vp_capability_id p = c"
  shows "vector_effect s d c res (s\<lparr> ds_vector_passes := ps \<rparr>)"
  using assms unfolding vector_effect_def by blast

lemma vector_effect_unchanged:
  assumes "vector_passes_ok (ds_tables s) (ds_vector_passes s)" "s' = s"
    and "\<And>err. res = Inl err \<Longrightarrow> err = EntropyUnavailable"
  shows "vector_effect s d c res s'"
  using vector_effectI [OF assms(1,3), where d = d and c = c] assms(2) by simp

lemma vector_effect_filtered:
  assumes "vector_effect (s\<lparr> ds_vector_passes := filter P (ds_vector_passes s) \<rparr>) d c res s'"
  shows "vector_effect s d c res s'"
  using assms unfolding vector_effect_def by fastforce

text \<open>One page of a captured window, and the position a continuation starts from.\<close>

lemma captured_vector_page:
  assumes "captured t d b" "a < b" "MAX_ENUMERABLE_METADATA_LENGTH \<le> limit"
  obtains page where "vector_backfill_in t d a b version limit = Inr page"
    "sv_has_more page \<Longrightarrow> \<exists>position. sv_last_examined_sequence page = Some position \<and> position < b"
proof -
  obtain f where f: "pinned t d b f" using assms(1) by (auto simp add: captured_def)
  obtain k page where p: "vector_backfill_in t d a b version limit = Inr page"
    "sv_last_examined_sequence page = Some (a + word_of_nat k)"
    "sv_has_more page \<longleftrightarrow> k < unat b - unat a" "k \<le> unat b - unat a"
    using pinned_vector_page [OF f assms(2,3)] .
  have "a + word_of_nat k < b" if "sv_has_more page"
    using positions_drop(3) [OF p(4) less_imp_le [OF assms(2)]] assms(2) that p(3) by (simp add: word_less_nat_alt)
  with p(1,2) show thesis by (intro that [of page]) simp_all
qed

text \<open>What an advanced pass becomes.\<close>

lemma vector_pass_advanced:
  assumes "vector_passes_ok (ds_tables s) (ds_vector_passes s)" "i < length (ds_vector_passes s)"
    and "token \<in> set (vector_tokens (ds_vector_passes s ! i))"
    and "\<And>c. next = Some c \<Longrightarrow> vpp_position c < vp_terminal_sequence (ds_vector_passes s ! i)
      \<and> (\<forall>p \<in> set (ds_vector_passes s). vpp_token c \<notin> set (vector_tokens p))"
    and "q = (ds_vector_passes s ! i)\<lparr> vp_current := next,
      vp_retry := Some \<lparr> vpr_response = response, vpr_token = token \<rparr>, vp_expires_at := expires \<rparr>"
  shows "vector_effect s d c (Inr outcome) (s\<lparr> ds_vector_passes := (ds_vector_passes s)[i := q] \<rparr>)"
proof -
  let ?ps = "ds_vector_passes s"
  note ok = assms(1) [unfolded vector_passes_ok_def]
  have "vector_bounded (?ps[i := q])" using ok assms(2,5) by (intro bounded_update) simp_all
  moreover have "tokens_distinct vector_tokens (?ps[i := q])"
  proof (rule tokens_update)
    show "tokens_distinct vector_tokens ?ps" "i < length ?ps" using ok assms(2) by blast+
    have "vpp_token c \<noteq> token" if "next = Some c" for c
      using assms(4) [OF that] assms(2,3) nth_mem by blast
    then show "distinct (vector_tokens q)"
      by (auto simp add: vector_tokens_def assms(5) split: option.split)
    show "x \<in> set (vector_tokens (?ps ! i)) \<or> (\<forall>p \<in> set ?ps. x \<notin> set (vector_tokens p))"
      if mem: "x \<in> set (vector_tokens q)" for x
    proof (cases "x = token")
      case False
      then obtain c where "next = Some c" "vpp_token c = x"
        using mem by (auto simp add: vector_tokens_def assms(5) split: option.splits)
      then show ?thesis using assms(4) by blast
    qed (use assms(3) in blast)
  qed
  moreover have "vector_window_ok (ds_tables s) (?ps ! i)" using ok assms(2) by (simp add: list_all_length)
  then have "vector_window_ok (ds_tables s) q" using assms(4) by (simp add: vector_window_ok_def assms(5))
  then have "list_all (vector_window_ok (ds_tables s)) (?ps[i := q])"
    using ok by (auto simp add: list_all_iff dest!: set_update_other)
  ultimately have "vector_passes_ok (ds_tables s) (?ps[i := q])" by (simp add: vector_passes_ok_def)
  moreover have "vp_document_id q = vp_document_id (?ps ! i)" "vp_capability_id q = vp_capability_id (?ps ! i)"
    by (simp_all add: assms(5))
  moreover have "p = q \<or> p \<in> set ?ps" if "p \<in> set (?ps[i := q])" for p
    using that set_update_subset_insert [of ?ps i q] by blast
  ultimately show ?thesis
    unfolding vector_effect_def using nth_mem [OF assms(2)] by (intro exI [of _ "?ps[i := q]"]) fastforce
qed

lemma vector_advance_effect:
  assumes "vector_passes_ok (ds_tables s) (ds_vector_passes s)" "i < length (ds_vector_passes s)"
    and "vp_current (ds_vector_passes s ! i) = Some current" "vpp_token current = token"
    and "MAX_ENUMERABLE_METADATA_LENGTH \<le> limit"
    and "vector_advance s i token current limit later rnd = (res, s')"
  shows "vector_effect s d c res s'"
proof -
  let ?ps = "ds_vector_passes s"
  let ?p = "?ps ! i"
  note advance = vector_advance_def [of s i token current limit later rnd, unfolded Let_def]
  have win: "vector_window_ok (ds_tables s) ?p"
    using assms(1,2) by (simp add: vector_passes_ok_def list_all_length)
  then have "captured (ds_tables s) (vp_document_id ?p) (vp_terminal_sequence ?p)"
    "vpp_position current < vp_terminal_sequence ?p"
    using assms(3) by (auto simp add: vector_window_ok_def)
  from captured_vector_page [OF this assms(5)] obtain page where page:
    "vector_backfill_in (ds_tables s) (vp_document_id ?p) (vpp_position current)
        (vp_terminal_sequence ?p) (vp_oplog_version ?p) limit = Inr page"
    "sv_has_more page \<Longrightarrow> \<exists>position. sv_last_examined_sequence page = Some position
        \<and> position < vp_terminal_sequence ?p" by blast
  have old: "token \<in> set (vector_tokens ?p)" using assms(3,4) by (simp add: vector_tokens_def)
  note advanced = vector_pass_advanced [OF assms(1,2) old _ refl]
  show ?thesis
  proof (cases "sv_has_more page")
    case False
    have "(res, s') = vector_advance s i token current limit later rnd" using assms(6) by simp
    also have "\<dots> = (Inr (VbAuthorized \<lparr> av_page = page, av_next_cursor = None \<rparr>),
        s\<lparr> ds_vector_passes := ?ps[i := ?p\<lparr> vp_current := None, vp_retry := Some
          \<lparr> vpr_response = \<lparr> av_page = page, av_next_cursor = None \<rparr>, vpr_token = token \<rparr>,
          vp_expires_at := later + VECTOR_PASS_IDLE_TTL \<rparr>] \<rparr>)"
      by (simp add: advance page False)
    finally have "res = Inr (VbAuthorized \<lparr> av_page = page, av_next_cursor = None \<rparr>)"
      "s' = s\<lparr> ds_vector_passes := ?ps[i := ?p\<lparr> vp_current := None, vp_retry := Some
          \<lparr> vpr_response = \<lparr> av_page = page, av_next_cursor = None \<rparr>, vpr_token = token \<rparr>,
          vp_expires_at := later + VECTOR_PASS_IDLE_TTL \<rparr>] \<rparr>" by blast+
    then show ?thesis by (simp only:) (rule advanced, simp)
  next
    case True
    then obtain position where pos: "sv_last_examined_sequence page = Some position"
      "position < vp_terminal_sequence ?p" using page(2) by blast
    show ?thesis
    proof (cases "mint_vector_token rnd ?ps")
      case (Inl err)
      then have "s' = s" "res = Inl err" using assms(6) True pos page by (simp_all add: advance)
      then show ?thesis
        using minted_vector_token(2) [OF Inl refl] by (auto intro!: vector_effect_unchanged assms(1))
    next
      case (Inr minted)
      show ?thesis
      proof (cases minted)
        case None
        then have "s' = s" "res = Inr VbBackpressure" using assms(6) True pos page Inr by (simp_all add: advance)
        then show ?thesis by (auto intro!: vector_effect_unchanged assms(1))
      next
        case (Some fresh)
        define following where "following = \<lparr> vpp_position = position, vpp_token = fresh \<rparr>"
        have "(res, s') = vector_advance s i token current limit later rnd" using assms(6) by simp
        also have "\<dots> = (Inr (VbAuthorized \<lparr> av_page = page, av_next_cursor = Some (be_encode fresh) \<rparr>),
            s\<lparr> ds_vector_passes := ?ps[i := ?p\<lparr> vp_current := Some following, vp_retry := Some
              \<lparr> vpr_response = \<lparr> av_page = page, av_next_cursor = Some (be_encode fresh) \<rparr>, vpr_token = token \<rparr>,
              vp_expires_at := later + VECTOR_PASS_IDLE_TTL \<rparr>] \<rparr>)"
          by (simp add: advance page True pos Inr Some following_def)
        finally have "res = Inr (VbAuthorized \<lparr> av_page = page, av_next_cursor = Some (be_encode fresh) \<rparr>)"
          "s' = s\<lparr> ds_vector_passes := ?ps[i := ?p\<lparr> vp_current := Some following, vp_retry := Some
              \<lparr> vpr_response = \<lparr> av_page = page, av_next_cursor = Some (be_encode fresh) \<rparr>, vpr_token = token \<rparr>,
              vp_expires_at := later + VECTOR_PASS_IDLE_TTL \<rparr>] \<rparr>" by blast+
        then show ?thesis
          using pos(2) minted_vector_token(1) [OF Inr] Some
          by (simp only:) (rule advanced, auto simp add: following_def)
      qed
    qed
  qed
qed

lemma vector_continuation_effect:
  assumes "vector_passes_ok (ds_tables s) (ds_vector_passes s)" "MAX_ENUMERABLE_METADATA_LENGTH \<le> limit"
    and "vector_continuation s ch d c version encoded limit now later rnd = (res, s')"
  shows "vector_effect s d c res s'"
proof (cases "token_from encoded")
  case None
  then have "s' = s" "res = Inr VbInvalidContinuation" using assms(3) by (simp_all add: vector_continuation_def)
  then show ?thesis by (intro vector_effect_unchanged assms(1)) simp_all
next
  case (Some token)
  note token = this
  let ?ps = "ds_vector_passes s"
  show ?thesis
  proof (cases "find_position (\<lambda>p. vector_pass_contains_token p token) ?ps")
    case None
    then have "s' = s" "res = Inr VbInvalidContinuation"
      using assms(3) token by (simp_all add: vector_continuation_def)
    then show ?thesis by (intro vector_effect_unchanged assms(1)) simp_all
  next
    case (Some i)
    let ?p = "?ps ! i"
    have i: "i < length ?ps" using find_position_Some [OF Some] by simp
    have step: "(res, s') = (if vp_document_id ?p \<noteq> d \<or> vp_capability_id ?p \<noteq> c
          \<or> vp_channel_id ?p \<noteq> ch \<or> vp_oplog_version ?p \<noteq> version \<or> vp_expires_at ?p \<le> now
        then (Inr VbInvalidContinuation, s)
        else case (case vp_retry ?p of
            Some retry \<Rightarrow> if vpr_token retry = token then Some (vpr_response retry) else None
          | None \<Rightarrow> None) of
            Some response \<Rightarrow> (Inr (VbAuthorized response), s)
          | None \<Rightarrow> (case vp_current ?p of
              None \<Rightarrow> (Inr VbInvalidContinuation, s)
            | Some current \<Rightarrow>
              if vpp_token current \<noteq> token then (Inr VbInvalidContinuation, s)
              else vector_advance s i token current limit later rnd))"
      using assms(3) [symmetric] by (simp add: vector_continuation_def token Some Let_def)
    have "s' = s \<and> (\<exists>outcome. res = Inr outcome)
      \<or> (\<exists>current. vp_current ?p = Some current \<and> vpp_token current = token
        \<and> vector_advance s i token current limit later rnd = (res, s'))"
      using step by (cases "vp_current ?p") (auto split: if_splits option.splits)
    then consider outcome where "s' = s" "res = Inr outcome"
      | current where "vp_current ?p = Some current" "vpp_token current = token"
        "vector_advance s i token current limit later rnd = (res, s')" by blast
    then show ?thesis
    proof cases
      case 1
      then show ?thesis by (intro vector_effect_unchanged assms(1)) simp_all
    next
      case 2
      show ?thesis by (rule vector_advance_effect [OF assms(1) i 2(1,2) assms(2) 2(3)])
    qed
  qed
qed

lemma vector_origin_effect:
  assumes "store_history sha empty_tables (ds_tables s)" "vector_passes_ok (ds_tables s) (ds_vector_passes s)"
    and "MAX_ENUMERABLE_METADATA_LENGTH \<le> limit"
    and "vector_origin s ch d c version limit now rnd = (res, s')"
  shows "vector_effect s d c res s'"
proof (cases "high_water_sequence_in (ds_tables s) d")
  case None
  then have "s' = s" "\<exists>outcome. res = Inr outcome" using assms(4) by (auto simp add: vector_origin_def)
  then show ?thesis by (intro vector_effect_unchanged assms(2)) auto
next
  case (Some b)
  let ?t = "ds_tables s"
  define ps where "ps = filter (\<lambda>p. vp_channel_id p \<noteq> ch \<or> vp_document_id p \<noteq> d \<or> vp_capability_id p \<noteq> c
      \<or> vp_oplog_version p \<noteq> version) (ds_vector_passes s)"
  let ?s = "s\<lparr> ds_vector_passes := ps \<rparr>"
  note start = vector_origin_def [of s ch d c version limit now rnd, folded ps_def, unfolded Let_def]
  have ps: "vector_passes_ok ?t ps" unfolding ps_def by (rule vector_passes_filter [OF assms(2)])
  have sub: "set ps \<subseteq> set (ds_vector_passes s)" by (auto simp add: ps_def)
  have same: "vector_effect s d c r ?s" if "\<And>err. r = Inl err \<Longrightarrow> err = EntropyUnavailable"
    for r :: "store_error + authorized_vector_backfill_page store_vector_backfill_outcome"
    using ps sub that by (intro vector_effectI) auto
  note b = history_captured [OF assms(1) Some]
  have "ORIGIN < b" using b(2) by (simp add: ORIGIN_def)
  from captured_vector_page [OF b(1) this assms(3)] obtain page where page:
    "vector_backfill_in ?t d ORIGIN b version limit = Inr page"
    "sv_has_more page \<Longrightarrow> \<exists>position. sv_last_examined_sequence page = Some position \<and> position < b" by blast
  show ?thesis
  proof (cases "sv_has_more page")
    case False
    then have "s' = s" "\<exists>outcome. res = Inr outcome" using assms(4) Some page(1) by (auto simp add: start)
    then show ?thesis by (intro vector_effect_unchanged assms(2)) auto
  next
    case True
    then obtain position where pos: "sv_last_examined_sequence page = Some position" "position < b"
      using page(2) by blast
    note known = Some page(1) True pos(1)
    show ?thesis
    proof (cases "can_admit_vector_pass ps ch d c")
      case False
      then have "s' = ?s" "res = Inr VbBackpressure" using assms(4) known by (simp_all add: start)
      then show ?thesis using same by auto
    next
      case admitted: True
      show ?thesis
      proof (cases "mint_vector_token rnd ps")
        case (Inl err)
        then have "s' = ?s" "res = Inl err" using assms(4) known admitted by (simp_all add: start)
        then show ?thesis using same [of res] minted_vector_token(2) [OF Inl refl] by simp
      next
        case (Inr minted)
        show ?thesis
        proof (cases minted)
          case None
          then have "s' = ?s" "res = Inr VbBackpressure" using assms(4) known admitted Inr by (simp_all add: start)
          then show ?thesis using same by auto
        next
          case minted: (Some token)
          define q where "q = \<lparr> vp_capability_id = c, vp_channel_id = ch,
            vp_current = Some \<lparr> vpp_position = position, vpp_token = token \<rparr>, vp_document_id = d,
            vp_expires_at = now + VECTOR_PASS_IDLE_TTL, vp_oplog_version = version, vp_retry = None,
            vp_terminal_sequence = b \<rparr>"
          have s': "s' = s\<lparr> ds_vector_passes := ps @ [q] \<rparr>" "\<exists>outcome. res = Inr outcome"
            using assms(4) known admitted Inr minted by (auto simp add: start q_def)
          have "vector_window_ok ?t q" using b pos(2) by (simp add: vector_window_ok_def q_def)
          moreover have "vector_bounded (ps @ [q])"
            using ps admitted
            by (intro bounded_append)
              (simp_all add: vector_passes_ok_def can_admit_vector_pass_def pass_limit_defs q_def)
          moreover have "tokens_distinct vector_tokens (ps @ [q])"
            using ps minted_vector_token(1) [OF Inr] minted
            by (auto simp add: tokens_append vector_passes_ok_def q_def vector_tokens_def)
          ultimately have "vector_passes_ok ?t (ps @ [q])" using ps by (simp add: vector_passes_ok_def)
          then show ?thesis using s' sub unfolding s'(1) by (intro vector_effectI) (auto simp add: q_def)
        qed
      qed
    qed
  qed
qed

lemma vector_backfill_authorized_effect:
  assumes "store_history sha empty_tables (ds_tables s)" "vector_passes_ok (ds_tables s) (ds_vector_passes s)"
    and "MAX_ENUMERABLE_METADATA_LENGTH \<le> limit"
    and "vector_backfill_authorized sha s channel d c a version start limit now later rnd = (res, s')"
  shows "s' = s \<and> (\<exists>outcome. res = Inr outcome)
    \<or> authorize_document sha (ds_tables s) d c a Read = document_authorization.Authorized
      \<and> vector_effect s d c res s'"
proof (cases "recognizes (ds_subscriptions s) channel
    \<and> authorize_document sha (ds_tables s) d c a Read = document_authorization.Authorized")
  case False
  then show ?thesis
    using assms(4) by (auto simp add: vector_backfill_authorized_def split: document_authorization.splits if_splits)
next
  case True
  let ?s = "s\<lparr> ds_vector_passes := filter (\<lambda>p. now < vp_expires_at p) (ds_vector_passes s) \<rparr>"
  have ok: "store_history sha empty_tables (ds_tables ?s)"
    "vector_passes_ok (ds_tables ?s) (ds_vector_passes ?s)"
    using assms(1) vector_passes_filter [OF assms(2)] by simp_all
  have "vector_effect ?s d c res s'"
    using assms(4) True vector_origin_effect [OF ok assms(3)] vector_continuation_effect [OF ok(2) assms(3)]
    by (cases start) (simp_all add: vector_backfill_authorized_def Let_def)
  then show ?thesis using True vector_effect_filtered by blast
qed

end
