(* ===== verification/Broker_Safety.thy ===== *)
theory Broker_Safety
  imports Pass_Requests
begin

text \<open>
  The broker as a whole: the tables, the passes and the subscriptions, driven by the requests of
  any number of channels.  Its invariant ties them together: whatever a session holds, a live
  subscription or a stable pass, belongs to a capability that is still active.
\<close>

section \<open>Live subscriptions\<close>

definition live :: "registry \<Rightarrow> subscription_entry set" where
  "live w = {e \<in> set (rg_subscriptions w). cell_active (rg_cells w (sid e)) \<and> channel_upgrades w (se_channel e)}"

lemma contexts_live: "(c, i) \<in> set (contexts d w) \<longleftrightarrow>
    (\<exists>e \<in> live w. se_document_id e = d \<and> se_capability_id e = c \<and> sid e = i)"
  by (auto simp add: contexts_def live_def)

lemma live_same:
  assumes "rg_subscriptions w' = rg_subscriptions w" "set (rg_leases w') \<subseteq> set (rg_leases w)"
    and "\<And>i. \<not> cell_active (rg_cells w i) \<Longrightarrow> sc_state (rg_cells w' i) = sc_state (rg_cells w i)"
  shows "live w' \<subseteq> live w"
  using assms unfolding live_def channel_upgrades_def by auto metis

lemma live_touches: "touches i w w' \<Longrightarrow> live w' \<subseteq> live w"
  by (intro live_same) (auto simp add: touchesD)

lemma live_retain:
  assumes "registry_ok w" "walks_locally (rg_leases w) f k g" "walk_ok k g"
  shows "live (retain f w) \<subseteq> live w"
    "e \<in> live (retain f w) \<Longrightarrow> k e (rg_cells w (sid e))"
proof -
  note frame = retain_frame [OF assms(1,2)] and kept = retain_active [OF assms]
  show "live (retain f w) \<subseteq> live w"
    using frame(1,5) kept(2) unfolding live_def channel_upgrades_def by auto
  show "k e (rg_cells w (sid e))" if "e \<in> live (retain f w)"
    using that frame(5) kept(3) unfolding live_def by blast
qed

lemma live_open_channel:
  assumes "registry_ok w"
  shows "live (snd (open_channel w)) \<subseteq> live w"
proof (cases "checked_add (rg_next_channel_id w) 1")
  case (Some following)
  have "se_channel e \<noteq> rg_next_channel_id w" if "e \<in> set (rg_subscriptions w)" for e
    using registry_okD(6) [OF assms that] registry_okD(8) [OF assms, unfolded channels_known_def]
    by (metis less_irrefl)
  then show ?thesis
    by (auto simp add: live_def open_channel_def Some Let_def channel_upgrades_def)
qed (simp add: open_channel_def)

lemma live_drop_channel: "live (drop_channel channel w) \<subseteq> live w"
  by (intro live_same) (auto simp add: drop_channel_def)

lemma live_drop_subscription: "live (drop_subscription i w) \<subseteq> live w"
  using live_touches [OF touches_cancel, of i w]
  by (simp add: drop_subscription_def drop_gate_def Let_def live_def channel_upgrades_def)

lemma live_register:
  assumes "registry_ok w" "e \<in> live (snd (register channel d c w))"
  shows "e \<in> live w \<or> se_document_id e = d \<and> se_capability_id e = c
    \<and> fst (register channel d c w) = Inr (sid e)"
proof -
  have pruned: "live (prune w) \<subseteq> live w"
    unfolding prune_def by (rule live_retain(1) [OF assms(1) prune_retain])
  show ?thesis
  proof (cases rule: register_cases [of channel d c w])
    case (refused err)
    then show ?thesis using assms(2) pruned by auto
  next
    case (added following gate gs es n)
    show ?thesis
    proof (cases "e = registered_entry channel d c (rg_next_subscription_id (prune w))")
      case True
      then show ?thesis by (simp add: added(2) registered_entry_def)
    next
      case False
      have old: "e \<in> set (rg_subscriptions (prune w))"
        using assms(2) False by (simp add: added(2) live_def)
      then have "sid e \<noteq> rg_next_subscription_id (prune w)"
        using registry_okD(5) [OF prune_ok [OF assms(1)] old] by auto
      with assms(2) old have "e \<in> live (prune w)"
        by (simp add: added(2) live_def channel_upgrades_def)
      then show ?thesis using pruned by blast
    qed
  qed
qed

text \<open>No operation of the registry but \<open>register\<close> makes a subscription live.\<close>

lemma registry_step_live:
  assumes "registry_ok w" "\<And>channel d c. ev \<noteq> Register channel d c"
  shows "live (registry_step ev w) \<subseteq> live w"
proof (cases ev)
  case (CloseChannel channel)
  have "live (close_channel channel w) \<subseteq> live w"
    using live_drop_channel live_retain(1) [OF assms(1) end_where_leases_local end_where_walk_ok]
    unfolding close_channel_def by auto blast
  then show ?thesis by (simp add: CloseChannel)
next
  case (Register channel d c)
  then show ?thesis using assms(2) by blast
qed (use live_open_channel [OF assms(1)] live_drop_channel live_drop_subscription
    live_retain(1) [OF assms(1) notify_retain] live_retain(1) [OF assms(1) end_where_local end_where_walk_ok]
    live_retain(1) [OF assms(1) end_all_local end_all_walk_ok] live_touches [OF touches_next]
    live_touches [OF touches_select] live_touches [OF touches_try_next] live_touches [OF touches_cancel]
  in \<open>simp_all add: notify_def invalidate_subscriptions_def invalidate_document_def shutdown_def\<close>)

lemma live_invalidated:
  assumes "registry_ok w" "e \<in> live (invalidate_subscriptions ids r w)"
  shows "e \<in> live w" "sid e \<notin> set ids"
proof -
  note m = assms(2) [unfolded invalidate_subscriptions_def]
  show "e \<in> live w"
    by (rule subsetD [OF live_retain(1) [OF assms(1) end_where_local end_where_walk_ok] m])
  show "sid e \<notin> set ids"
    by (rule live_retain(2) [OF assms(1) end_where_local end_where_walk_ok m])
qed


section \<open>Active capabilities\<close>

lemma added_active:
  assumes "adds_capability t t' d c row s" "active t x y"
  shows "active t' x y"
proof -
  have "(x, y) \<noteq> (d, c)" using assms by (auto simp add: adds_capability_def active_def)
  then show ?thesis using assms(2) adds_capability_get [OF assms(1), of x y] by (auto simp add: active_def)
qed

lemma create_active:
  assumes "control_ok t" "store_create_document sha t a auth req d root ra = Inr (outcome, t')" "active t x y"
  shows "active t' x y"
proof (cases "create_checks sha t a auth req d")
  case True
  then show ?thesis using create_passes [OF assms(1) True, of root ra] assms(2,3) added_active [OF create_effectD(1)] by auto
next
  case False
  then show ?thesis using create_fails [OF False, of root ra] assms(2,3) by auto
qed

lemma grant_active:
  assumes "control_ok t" "canonical_ops s"
    and "store_grant_capability sha t d issuer ia req c ca s = Inr (outcome, t')" "active t x y"
  shows "active t' x y"
proof (cases "\<exists>revision. grant_checks sha t d issuer ia req c ca s revision")
  case True
  then obtain revision where "grant_checks sha t d issuer ia req c ca s revision" ..
  from grant_passes [OF assms(1,2) this] obtain doc where
    "grant_effect t t' d doc issuer req c (derive sha d c ca) s revision" using assms(3) by auto
  then show ?thesis using added_active [OF grant_effectD(1)] assms(4) by blast
next
  case False
  then show ?thesis using grant_fails [OF assms(1,2)] assms(3,4) by fastforce
qed

lemma revoke_active:
  assumes "control_ok t" "store_revoke_capability sha t d issuer ia req target = Inr (StInserted, t')"
  shows "active t' x y \<longleftrightarrow> active t x y \<and> \<not> (x = d \<and> descends (par_of t d) target y)"
proof -
  obtain doc revision where "revoke_effect t t' d doc issuer req target revision"
    using revoke_inserted [OF assms] by blast
  from revoke_effectD(1) [OF this, of x y] show ?thesis
    by (cases "x = d \<and> descends (par_of t d) target y") (auto simp add: active_def)
qed

lemma revoke_unchanged:
  assumes "control_ok t" "store_revoke_capability sha t d issuer ia req target = Inr (outcome, t')"
    and "outcome \<noteq> StInserted"
  shows "t' = t"
proof -
  have "\<nexists>revision. revoke_checks sha t d issuer ia req target revision"
    using revoke_passes [OF assms(1)] assms(2,3) by fastforce
  then show ?thesis using revoke_fails [OF assms(1)] assms(2) by fastforce
qed

lemma accept_active:
  assumes "store_history sha empty_tables t" "decode_update_record record = Inr update"
  shows "\<exists>outcome t'. store_accept sha t c a update record = Inr (outcome, t')
    \<and> (\<forall>x y. active t' x y = active t x y) \<and> (outcome \<noteq> StAcceptInserted \<longrightarrow> t' = t)"
proof (cases "authorize sha t (iu_document_id update) c a Update")
  case False
  then show ?thesis by (simp add: store_accept_denied)
next
  case True
  obtain us where us: "list_all canonical_update us" "update_refines t (model_after us)"
    using store_history_good(2) [OF assms(1)] by blast
  let ?out = "fst (model_accept (model_after us) update)"
  obtain t' where t': "store_accept sha t c a update record = Inr (store_accept_of ?out, t')"
    "same_control t t'" "?out \<noteq> Inserted \<longrightarrow> t' = t"
    using store_accept_simulated [OF store_history_good(1) [OF assms(1)] us(2) model_after_ok [OF us(1)]
      assms(2) True] by blast
  have "store_accept_of ?out \<noteq> StAcceptInserted \<Longrightarrow> ?out \<noteq> Inserted" by auto
  with t' show ?thesis by (auto simp add: active_def same_control_def)
qed


section \<open>The broker\<close>

text \<open>A store just opened: no pass, no subscription, a fresh generation.\<close>

definition opened :: "tables \<Rightarrow> id16 \<Rightarrow> nat \<Rightarrow> durable_update_store" where
  "opened t generation broker = \<lparr> ds_tables = t, ds_enumeration_passes = [], ds_generation = generation,
    ds_subscriptions = registry_new broker, ds_vector_passes = [] \<rparr>"

text \<open>
  What the connections of the broker do with the store, one request or one poll at a time.  A
  connection that names a channel of this broker holds its lease.  Records and operation sets
  come from their decoders; every page limit leaves room for one record.
\<close>

inductive broker_step :: "(bytes \<Rightarrow> key32) \<Rightarrow> durable_update_store \<Rightarrow> durable_update_store \<Rightarrow> bool" for sha where
  br_open: "broker_step sha s (snd (open_broker_channel s))"
| br_drop: "broker_step sha s (s\<lparr> ds_subscriptions := drop_channel channel (ds_subscriptions s) \<rparr>)"
| br_close: "broker_step sha s (close_broker_channel channel s)"
| br_gate: "broker_step sha s (snd (document_emission_gate d s))"
| br_retired: "broker_step sha s (publish_committed_retirement d s)"
| br_subscribe: "recognizes (ds_subscriptions s) channel \<longrightarrow> bc_lease channel \<in> set (rg_leases (ds_subscriptions s)) \<Longrightarrow>
    broker_step sha s (snd (subscribe_updates sha s channel d c a))"
| br_receive: "ev \<in> {Next i, Select i, TryNext i, Cancel i, DropSubscription i} \<Longrightarrow>
    broker_step sha s (s\<lparr> ds_subscriptions := registry_step ev (ds_subscriptions s) \<rparr>)"
| br_create: "broker_step sha s (snd (durable_create_document sha s authority ca req d c a))"
| br_grant: "canonical_ops ops \<Longrightarrow> broker_step sha s (snd (durable_grant_capability sha s d issuer ia req c ca ops))"
| br_revoke: "broker_step sha s (snd (durable_revoke_capability sha s d issuer ia req target))"
| br_accept: "decode_update_record record = Inr update \<Longrightarrow>
    broker_step sha s (snd (durable_accept sha s c a update record))"
| br_enumerate: "MAX_ENUMERABLE_METADATA_LENGTH \<le> limit \<Longrightarrow>
    broker_step sha s (snd (enumerate_authorized sha s channel d c a start limit now later rnd))"
| br_vector: "MAX_ENUMERABLE_METADATA_LENGTH \<le> limit \<Longrightarrow> broker_step sha s
    (snd (vector_backfill_authorized sha s channel d c a version vstart limit now later rnd))"

inductive_cases broker_stepE: "broker_step sha s s'"

inductive broker_run :: "(bytes \<Rightarrow> key32) \<Rightarrow> durable_update_store \<Rightarrow> durable_update_store \<Rightarrow> bool" for sha where
  broker_start: "broker_run sha s s"
| broker_next: "broker_run sha s s' \<Longrightarrow> broker_step sha s' s'' \<Longrightarrow> broker_run sha s s''"

section \<open>The invariant\<close>

definition passes_active :: "durable_update_store \<Rightarrow> bool" where
  "passes_active s \<longleftrightarrow>
    (\<forall>p \<in> set (ds_enumeration_passes s). active (ds_tables s) (ep_document_id p) (ep_capability_id p))
    \<and> (\<forall>p \<in> set (ds_vector_passes s). active (ds_tables s) (vp_document_id p) (vp_capability_id p))"

definition live_active :: "durable_update_store \<Rightarrow> bool" where
  "live_active s \<longleftrightarrow> (\<forall>e \<in> live (ds_subscriptions s).
    active (ds_tables s) (se_document_id e) (se_capability_id e))"

definition broker_ok :: "(bytes \<Rightarrow> key32) \<Rightarrow> durable_update_store \<Rightarrow> bool" where
  "broker_ok sha s \<longleftrightarrow> store_history sha empty_tables (ds_tables s) \<and> registry_ok (ds_subscriptions s)
    \<and> enumeration_passes_ok (ds_tables s) (ds_enumeration_passes s)
    \<and> vector_passes_ok (ds_tables s) (ds_vector_passes s) \<and> passes_active s \<and> live_active s"

lemma broker_okD:
  assumes "broker_ok sha s"
  shows "store_history sha empty_tables (ds_tables s)" "registry_ok (ds_subscriptions s)"
    "enumeration_passes_ok (ds_tables s) (ds_enumeration_passes s)"
    "vector_passes_ok (ds_tables s) (ds_vector_passes s)" "passes_active s" "live_active s"
    "control_ok (ds_tables s)"
  using assms store_history_good(1) unfolding broker_ok_def by blast+

lemma opened_ok: "store_history sha empty_tables t \<Longrightarrow> broker_ok sha (opened t generation broker)"
  using registry_new_ok [of broker]
  by (simp add: broker_ok_def opened_def enumeration_passes_ok_def vector_passes_ok_def
      passes_bounded_def tokens_distinct_def passes_active_def live_active_def live_def)
    (simp add: registry_new_def)

text \<open>Windows stay captured while the tables move on.\<close>

lemma captured_later:
  "store_history sha empty_tables t \<Longrightarrow> store_history sha t t' \<Longrightarrow> captured t d b \<Longrightarrow> captured t' d b"
  unfolding captured_def using pinned_later(2) by blast

lemma passes_later:
  assumes "store_history sha empty_tables t" "store_history sha t t'"
  shows "enumeration_passes_ok t eps \<Longrightarrow> enumeration_passes_ok t' eps"
    "vector_passes_ok t vps \<Longrightarrow> vector_passes_ok t' vps"
  using captured_later [OF assms]
  by (auto simp add: enumeration_passes_ok_def vector_passes_ok_def enumeration_window_ok_def
      vector_window_ok_def list_all_iff)

lemma step_history: "store_step sha t t' \<Longrightarrow> store_history sha t t'"
  using store_history_step [OF store_history_start] by blast

text \<open>
  A request that changes the tables by one transaction and drops the passes and subscriptions
  that lose their authority.
\<close>

lemma tables_step_ok:
  assumes "broker_ok sha s" "store_step sha (ds_tables s) t'"
    and "eps = filter P (ds_enumeration_passes s)" "vps = filter Q (ds_vector_passes s)"
    and "registry_ok w" "live w \<subseteq> live (ds_subscriptions s)"
    and "\<And>p. p \<in> set eps \<Longrightarrow> active (ds_tables s) (ep_document_id p) (ep_capability_id p) \<Longrightarrow>
      active t' (ep_document_id p) (ep_capability_id p)"
    and "\<And>p. p \<in> set vps \<Longrightarrow> active (ds_tables s) (vp_document_id p) (vp_capability_id p) \<Longrightarrow>
      active t' (vp_document_id p) (vp_capability_id p)"
    and "\<And>e. e \<in> live w \<Longrightarrow> active (ds_tables s) (se_document_id e) (se_capability_id e) \<Longrightarrow>
      active t' (se_document_id e) (se_capability_id e)"
  shows "broker_ok sha (s\<lparr> ds_tables := t', ds_enumeration_passes := eps, ds_vector_passes := vps,
    ds_subscriptions := w \<rparr>)"
proof -
  note ok = broker_okD [OF assms(1)]
  note hist = step_history [OF assms(2)]
  have "enumeration_passes_ok t' eps" "vector_passes_ok t' vps"
    using passes_later [OF ok(1) hist] enumeration_passes_filter [OF ok(3)] vector_passes_filter [OF ok(4)]
    by (simp_all add: assms(3,4))
  moreover have "passes_active (s\<lparr> ds_tables := t', ds_enumeration_passes := eps, ds_vector_passes := vps,
      ds_subscriptions := w \<rparr>)"
    using ok(5) assms(3,4,7,8) by (auto simp add: passes_active_def)
  moreover have "live_active (s\<lparr> ds_tables := t', ds_enumeration_passes := eps, ds_vector_passes := vps,
      ds_subscriptions := w \<rparr>)"
    using ok(6) assms(6,9) by (auto simp add: live_active_def)
  ultimately show ?thesis
    using pinned_later(1) store_history_step [OF ok(1) assms(2)] assms(5) by (simp add: broker_ok_def)
qed

text \<open>A request that leaves the tables alone and adds nothing.\<close>

lemma no_new_ok:
  assumes "broker_ok sha s" "eps = filter P (ds_enumeration_passes s)" "vps = filter Q (ds_vector_passes s)"
    and "registry_ok w" "live w \<subseteq> live (ds_subscriptions s)"
  shows "broker_ok sha (s\<lparr> ds_enumeration_passes := eps, ds_vector_passes := vps, ds_subscriptions := w \<rparr>)"
  using assms(4,5) broker_okD [OF assms(1)] enumeration_passes_filter vector_passes_filter
  by (auto simp add: broker_ok_def passes_active_def live_active_def assms(2,3))

lemma registry_only_ok:
  assumes "broker_ok sha s" "registry_ok w" "live w \<subseteq> live (ds_subscriptions s)"
  shows "broker_ok sha (s\<lparr> ds_subscriptions := w \<rparr>)"
  using no_new_ok [OF assms(1) filter_True [symmetric] filter_True [symmetric] assms(2,3), of "\<lambda>_. True" "\<lambda>_. True"]
  by simp

section \<open>Every step keeps it\<close>

lemma subscribe_keeps_ok:
  assumes "broker_ok sha s"
    and "recognizes (ds_subscriptions s) channel \<longrightarrow> bc_lease channel \<in> set (rg_leases (ds_subscriptions s))"
  shows "broker_ok sha (snd (subscribe_updates sha s channel d c a))"
proof (cases "recognizes (ds_subscriptions s) channel \<and> authorize sha (ds_tables s) d c a Read")
  case False
  then show ?thesis using assms(1) by (auto simp add: subscribe_updates_def)
next
  case True
  note ok = broker_okD [OF assms(1)]
  let ?w = "snd (register channel d c (ds_subscriptions s))"
  have eq: "snd (subscribe_updates sha s channel d c a) = s\<lparr> ds_subscriptions := ?w \<rparr>"
    using True by (auto simp add: subscribe_updates_def Let_def split: prod.split sum.split register_error.split)
  have "active (ds_tables s) d c" using authorize_active(1) [OF ok(7)] True by blast
  then have "live_active (s\<lparr> ds_subscriptions := ?w \<rparr>)"
    using live_register [OF ok(2)] ok(6) unfolding live_active_def by fastforce
  then show ?thesis
    unfolding eq using ok register_ok [OF ok(2) assms(2)] by (simp add: broker_ok_def passes_active_def)
qed

lemma accept_keeps_ok:
  assumes "broker_ok sha s" "decode_update_record record = Inr update"
  shows "broker_ok sha (snd (durable_accept sha s c a update record))"
proof -
  note ok = broker_okD [OF assms(1)]
  obtain outcome t' where t': "store_accept sha (ds_tables s) c a update record = Inr (outcome, t')"
    "\<forall>x y. active t' x y = active (ds_tables s) x y"
    using accept_active [OF ok(1) assms(2)] by blast
  let ?w = "notify (iu_document_id update) (iu_update_id update) (ds_subscriptions s)"
  have "live ?w \<subseteq> live (ds_subscriptions s)"
    unfolding notify_def by (rule live_retain(1) [OF ok(2) notify_retain])
  from tables_step_ok [OF assms(1) step_accept [OF assms(2) t'(1)] filter_True [symmetric] filter_True [symmetric]
      notify_ok [OF ok(2)] this, of "\<lambda>_. True" "\<lambda>_. True"]
  have "broker_ok sha (s\<lparr> ds_tables := t', ds_subscriptions := ?w \<rparr>)" using t'(2) by simp
  then show ?thesis using t'(1) assms(1) by (cases outcome) (simp_all add: durable_accept_def)
qed

lemma control_keeps_ok:
  assumes "broker_ok sha s" "control_step sha (ds_tables s) t'"
    and "\<And>x y. active (ds_tables s) x y \<Longrightarrow> active t' x y"
  shows "broker_ok sha (s\<lparr> ds_tables := t' \<rparr>)"
  using tables_step_ok [OF assms(1) step_control [OF assms(2)] filter_True [symmetric] filter_True [symmetric]
      broker_okD(2) [OF assms(1)] subset_refl, of "\<lambda>_. True" "\<lambda>_. True"] assms(3) by simp

lemma create_keeps_broker_ok:
  assumes "broker_ok sha s"
  shows "broker_ok sha (snd (durable_create_document sha s authority ca req d c a))"
proof (cases "store_create_document sha (ds_tables s) authority ca req d c a")
  case (Inr r)
  obtain outcome t' where r: "r = (outcome, t')" by (cases r)
  note step = Inr [unfolded r]
  show ?thesis
    using control_keeps_ok [OF assms step_create [OF step]] create_active [OF broker_okD(7) [OF assms] step]
    by (simp add: durable_create_document_def step)
qed (use assms in \<open>simp add: durable_create_document_def\<close>)

lemma grant_keeps_broker_ok:
  assumes "broker_ok sha s" "canonical_ops ops"
  shows "broker_ok sha (snd (durable_grant_capability sha s d issuer ia req c ca ops))"
proof (cases "store_grant_capability sha (ds_tables s) d issuer ia req c ca ops")
  case (Inr r)
  obtain outcome t' where r: "r = (outcome, t')" by (cases r)
  note step = Inr [unfolded r]
  show ?thesis
    using control_keeps_ok [OF assms(1) step_grant [OF assms(2) step]]
      grant_active [OF broker_okD(7) [OF assms(1)] assms(2) step]
    by (simp add: durable_grant_capability_def step)
qed (use assms in \<open>simp add: durable_grant_capability_def\<close>)

text \<open>The passes and subscriptions that a revoke drops are exactly those below its target.\<close>

lemma revoked_passes:
  assumes "broker_ok sha s"
  shows "p \<in> set (ds_enumeration_passes s) \<Longrightarrow> ep_document_id p = d \<Longrightarrow>
      ep_capability_id p \<in> set (revoked_pass_capabilities s d target)
        \<longleftrightarrow> descends (par_of (ds_tables s) d) target (ep_capability_id p)"
    "q \<in> set (ds_vector_passes s) \<Longrightarrow> vp_document_id q = d \<Longrightarrow>
      vp_capability_id q \<in> set (revoked_pass_capabilities s d target)
        \<longleftrightarrow> descends (par_of (ds_tables s) d) target (vp_capability_id q)"
proof -
  note ok = broker_okD [OF assms]
  have spec: "is_descendant_or_self (ds_tables s) d target c \<longleftrightarrow> descends (par_of (ds_tables s) d) target c"
    if "active (ds_tables s) d c" for c
    by (rule is_descendant_or_self_spec [OF ok(7) active_known [OF that]])
  show "p \<in> set (ds_enumeration_passes s) \<Longrightarrow> ep_document_id p = d \<Longrightarrow>
      ep_capability_id p \<in> set (revoked_pass_capabilities s d target)
        \<longleftrightarrow> descends (par_of (ds_tables s) d) target (ep_capability_id p)"
    using ok(5) spec [of "ep_capability_id p"] by (auto simp add: revoked_pass_capabilities_def passes_active_def)
  show "q \<in> set (ds_vector_passes s) \<Longrightarrow> vp_document_id q = d \<Longrightarrow>
      vp_capability_id q \<in> set (revoked_pass_capabilities s d target)
        \<longleftrightarrow> descends (par_of (ds_tables s) d) target (vp_capability_id q)"
    using ok(5) spec [of "vp_capability_id q"] by (auto simp add: revoked_pass_capabilities_def passes_active_def)
qed

lemma revoked_subscriptions:
  assumes "broker_ok sha s" "e \<in> live (ds_subscriptions s)" "se_document_id e = d"
    and "descends (par_of (ds_tables s) d) target (se_capability_id e)"
  shows "sid e \<in> set (revoked_subscription_ids s d target)"
proof -
  note ok = broker_okD [OF assms(1)]
  have "active (ds_tables s) d (se_capability_id e)" using ok(6) assms(2,3) by (auto simp add: live_active_def)
  then have "is_descendant_or_self (ds_tables s) d target (se_capability_id e)"
    using is_descendant_or_self_spec [OF ok(7) active_known] assms(4) by blast
  moreover have "(se_capability_id e, sid e) \<in> set (contexts d (ds_subscriptions s))"
    using assms(2,3) contexts_live by blast
  ultimately show ?thesis unfolding revoked_subscription_ids_def by force
qed

lemma revoke_keeps_broker_ok:
  assumes "broker_ok sha s"
  shows "broker_ok sha (snd (durable_revoke_capability sha s d issuer ia req target))"
proof (cases "store_revoke_capability sha (ds_tables s) d issuer ia req target")
  case (Inr r)
  note ok = broker_okD [OF assms]
  obtain outcome t' where r: "r = (outcome, t')" by (cases r)
  note step = Inr [unfolded r]
  show ?thesis
  proof (cases "outcome = StInserted")
    case False
    then show ?thesis using assms step by (cases outcome) (simp_all add: durable_revoke_capability_def)
  next
    case True
    note act = revoke_active [OF ok(7) step [unfolded True]]
    let ?ids = "revoked_subscription_ids s d target"
    let ?w = "invalidate_subscriptions ?ids update_subscription_end.Revoked (ds_subscriptions s)"
    note gone = live_invalidated [OF ok(2), of _ ?ids update_subscription_end.Revoked]
    have kept: "active t' (se_document_id e) (se_capability_id e)"
      if "e \<in> live ?w" "active (ds_tables s) (se_document_id e) (se_capability_id e)" for e
      using revoked_subscriptions [OF assms gone(1) [OF that(1)]] gone(2) [OF that(1)] that(2) act by blast
    have less: "live ?w \<subseteq> live (ds_subscriptions s)" using gone(1) by blast
    let ?keep = "\<lambda>x c. x \<noteq> d \<or> c \<notin> set (revoked_pass_capabilities s d target)"
    have "snd (durable_revoke_capability sha s d issuer ia req target) = s\<lparr> ds_tables := t',
        ds_enumeration_passes := filter (\<lambda>p. ?keep (ep_document_id p) (ep_capability_id p)) (ds_enumeration_passes s),
        ds_vector_passes := filter (\<lambda>p. ?keep (vp_document_id p) (vp_capability_id p)) (ds_vector_passes s),
        ds_subscriptions := ?w \<rparr>"
      by (simp add: durable_revoke_capability_def step True Let_def)
    then show ?thesis
      using less revoked_passes [OF assms] act kept
      by (auto intro!: tables_step_ok [OF assms step_control [OF step_revoke [OF step]] refl refl
        invalidate_subscriptions_ok [OF ok(2)]])
  qed
qed (use assms in \<open>simp add: durable_revoke_capability_def\<close>)

lemma authorized_active:
  "control_ok t \<Longrightarrow> authorize_document sha t d c a op = document_authorization.Authorized \<Longrightarrow> active t d c"
  using authorize_active(1) by (simp add: authorize_def)

text \<open>What a request leaves behind belongs to the capability it was made with.\<close>

lemma enumeration_effect_ok:
  assumes "broker_ok sha s" "active (ds_tables s) d c" "enumeration_effect s d c res s'"
  shows "broker_ok sha s'" "res = Inl err \<Longrightarrow> err = EntropyUnavailable"
proof -
  note ok = broker_okD [OF assms(1)]
  obtain ps where ps: "s' = s\<lparr> ds_enumeration_passes := ps \<rparr>" "enumeration_passes_ok (ds_tables s) ps"
    "\<And>p. p \<in> set ps \<Longrightarrow> ep_document_id p = d \<and> ep_capability_id p = c
        \<or> (\<exists>q \<in> set (ds_enumeration_passes s). ep_document_id p = ep_document_id q
            \<and> ep_capability_id p = ep_capability_id q)"
    "\<And>err. res = Inl err \<Longrightarrow> err = EntropyUnavailable"
    using assms(3) unfolding enumeration_effect_def by blast
  have "active (ds_tables s) (ep_document_id p) (ep_capability_id p)" if "p \<in> set ps" for p
    using ps(3) [OF that] assms(2) ok(5) unfolding passes_active_def by metis
  then show "broker_ok sha s'" using ok ps(2) by (simp add: ps(1) broker_ok_def passes_active_def live_active_def)
  show "res = Inl err \<Longrightarrow> err = EntropyUnavailable" by (rule ps(4))
qed

lemma vector_effect_ok:
  assumes "broker_ok sha s" "active (ds_tables s) d c" "vector_effect s d c res s'"
  shows "broker_ok sha s'" "res = Inl err \<Longrightarrow> err = EntropyUnavailable"
proof -
  note ok = broker_okD [OF assms(1)]
  obtain ps where ps: "s' = s\<lparr> ds_vector_passes := ps \<rparr>" "vector_passes_ok (ds_tables s) ps"
    "\<And>p. p \<in> set ps \<Longrightarrow> vp_document_id p = d \<and> vp_capability_id p = c
        \<or> (\<exists>q \<in> set (ds_vector_passes s). vp_document_id p = vp_document_id q
            \<and> vp_capability_id p = vp_capability_id q)"
    "\<And>err. res = Inl err \<Longrightarrow> err = EntropyUnavailable"
    using assms(3) unfolding vector_effect_def by blast
  have "active (ds_tables s) (vp_document_id p) (vp_capability_id p)" if "p \<in> set ps" for p
    using ps(3) [OF that] assms(2) ok(5) unfolding passes_active_def by metis
  then show "broker_ok sha s'" using ok ps(2) by (simp add: ps(1) broker_ok_def passes_active_def live_active_def)
  show "res = Inl err \<Longrightarrow> err = EntropyUnavailable" by (rule ps(4))
qed

lemma enumerate_keeps_ok:
  assumes "broker_ok sha s" "MAX_ENUMERABLE_METADATA_LENGTH \<le> limit"
  shows "broker_ok sha (snd (enumerate_authorized sha s channel d c a start limit now later rnd))"
    "fst (enumerate_authorized sha s channel d c a start limit now later rnd) = Inl err \<Longrightarrow>
      err = EntropyUnavailable"
proof -
  note ok = broker_okD [OF assms(1)]
  obtain res s' where eq: "enumerate_authorized sha s channel d c a start limit now later rnd = (res, s')"
    by (cases "enumerate_authorized sha s channel d c a start limit now later rnd")
  have "broker_ok sha s' \<and> (\<forall>err. res = Inl err \<longrightarrow> err = EntropyUnavailable)"
    using enumerate_authorized_effect [OF ok(1,3) assms(2) eq]
  proof
    assume "authorize_document sha (ds_tables s) d c a Read = document_authorization.Authorized
      \<and> enumeration_effect s d c res s'"
    with enumeration_effect_ok [OF assms(1) authorized_active [OF ok(7)]] show ?thesis by blast
  qed (use assms(1) in auto)
  then show "broker_ok sha (snd (enumerate_authorized sha s channel d c a start limit now later rnd))"
    "fst (enumerate_authorized sha s channel d c a start limit now later rnd) = Inl err \<Longrightarrow>
      err = EntropyUnavailable" by (simp_all add: eq)
qed

lemma vector_keeps_ok:
  assumes "broker_ok sha s" "MAX_ENUMERABLE_METADATA_LENGTH \<le> limit"
  shows "broker_ok sha (snd (vector_backfill_authorized sha s channel d c a version start limit now later rnd))"
    "fst (vector_backfill_authorized sha s channel d c a version start limit now later rnd) = Inl err \<Longrightarrow>
      err = EntropyUnavailable"
proof -
  note ok = broker_okD [OF assms(1)]
  obtain res s' where eq: "vector_backfill_authorized sha s channel d c a version start limit now later rnd = (res, s')"
    by (cases "vector_backfill_authorized sha s channel d c a version start limit now later rnd")
  have "broker_ok sha s' \<and> (\<forall>err. res = Inl err \<longrightarrow> err = EntropyUnavailable)"
    using vector_backfill_authorized_effect [OF ok(1,4) assms(2) eq]
  proof
    assume "authorize_document sha (ds_tables s) d c a Read = document_authorization.Authorized
      \<and> vector_effect s d c res s'"
    with vector_effect_ok [OF assms(1) authorized_active [OF ok(7)]] show ?thesis by blast
  qed (use assms(1) in auto)
  then show "broker_ok sha (snd (vector_backfill_authorized sha s channel d c a version start limit now later rnd))"
    "fst (vector_backfill_authorized sha s channel d c a version start limit now later rnd) = Inl err \<Longrightarrow>
      err = EntropyUnavailable" by (simp_all add: eq)
qed

lemma registry_step_keeps_ok:
  assumes "broker_ok sha s" "\<And>channel d c. ev \<noteq> Register channel d c"
  shows "broker_ok sha (s\<lparr> ds_subscriptions := registry_step ev (ds_subscriptions s) \<rparr>)"
proof -
  have "possible ev (ds_subscriptions s)" using assms(2) by (cases ev) auto
  then show ?thesis
    using registry_step_ok registry_step_live broker_okD(2) [OF assms(1)] assms(2)
    by (intro registry_only_ok assms(1)) blast+
qed

lemma close_keeps_ok:
  assumes "broker_ok sha s"
  shows "broker_ok sha (close_broker_channel channel s)"
  using assms no_new_ok [OF assms refl refl close_channel_ok [OF broker_okD(2) [OF assms]]]
    registry_step_live [OF broker_okD(2) [OF assms], of "CloseChannel channel"]
  by (simp add: close_broker_channel_def)

lemma retirement_keeps_ok:
  assumes "broker_ok sha s"
  shows "broker_ok sha (publish_committed_retirement d s)"
  using assms no_new_ok [OF assms refl refl invalidate_document_ok [OF broker_okD(2) [OF assms]]]
    registry_step_live [OF broker_okD(2) [OF assms], of "InvalidateDocument d update_subscription_end.Retired"]
  by (simp add: publish_committed_retirement_def)

lemma gate_keeps_ok:
  assumes "broker_ok sha s"
  shows "broker_ok sha (snd (document_emission_gate d s))"
proof -
  let ?w = "ds_subscriptions s" and ?w' = "snd (emission_gate_of d (ds_subscriptions s))"
  have w': "?w' = ?w\<lparr> rg_gates := rg_gates ?w', rg_emission_gates := rg_emission_gates ?w',
      rg_next_gate := rg_next_gate ?w' \<rparr>"
    using emission_gate_frame [of ?w d] by (simp add: gates_only_def)
  have "registry_ok ?w'" by (subst w') (use broker_okD(2) [OF assms] in simp)
  moreover have "live ?w' \<subseteq> live ?w" by (subst w') (simp add: live_def channel_upgrades_def)
  ultimately have "broker_ok sha (s\<lparr> ds_subscriptions := ?w' \<rparr>)" by (rule registry_only_ok [OF assms])
  then show ?thesis by (simp add: document_emission_gate_def case_prod_beta)
qed

lemma broker_step_ok: "broker_step sha s s' \<Longrightarrow> broker_ok sha s \<Longrightarrow> broker_ok sha s'"
proof (induction rule: broker_step.induct)
  case (br_open s)
  then show ?case
    using registry_step_keeps_ok [OF br_open, of OpenChannel]
    by (simp add: open_broker_channel_def case_prod_beta)
next
  case (br_drop s channel)
  then show ?case using registry_step_keeps_ok [OF br_drop, of "DropChannel channel"] by simp
next
  case (br_receive ev i s)
  then show ?case by (intro registry_step_keeps_ok) auto
qed (simp_all add: close_keeps_ok gate_keeps_ok retirement_keeps_ok subscribe_keeps_ok
    create_keeps_broker_ok grant_keeps_broker_ok revoke_keeps_broker_ok accept_keeps_ok enumerate_keeps_ok(1)
    vector_keeps_ok(1))

lemma broker_run_ok: "broker_run sha s s' \<Longrightarrow> broker_ok sha s \<Longrightarrow> broker_ok sha s'"
  by (induction rule: broker_run.induct) (auto intro: broker_step_ok)


section \<open>What requests return\<close>

lemma create_returns: "control_ok t \<Longrightarrow> \<exists>outcome t'. store_create_document sha t a auth req d c ca = Inr (outcome, t')"
  using create_passes create_fails by blast

lemma grant_returns:
  assumes "control_ok t" "canonical_ops ops"
  shows "\<exists>outcome t'. store_grant_capability sha t d issuer ia req c ca ops = Inr (outcome, t')"
  by (cases "\<exists>revision. grant_checks sha t d issuer ia req c ca ops revision")
    (use grant_passes [OF assms] grant_fails [OF assms] in fastforce)+

lemma revoke_returns:
  assumes "control_ok t"
  shows "\<exists>outcome t'. store_revoke_capability sha t d issuer ia req target = Inr (outcome, t')"
  by (cases "\<exists>revision. revoke_checks sha t d issuer ia req target revision")
    (use revoke_passes [OF assms] revoke_fails [OF assms] in fastforce)+

lemma durable_returns:
  assumes "broker_ok sha s"
  shows "\<exists>outcome s'. durable_create_document sha s authority ca req d c a = (Inr outcome, s')"
    "canonical_ops ops \<Longrightarrow> \<exists>outcome s'. durable_grant_capability sha s d issuer ia req c a ops = (Inr outcome, s')"
    "\<exists>outcome s'. durable_revoke_capability sha s d issuer ia req target = (Inr outcome, s')"
    "decode_update_record rec = Inr update \<Longrightarrow> \<exists>outcome s'. durable_accept sha s c a update rec = (Inr outcome, s')"
proof -
  note ok = broker_okD [OF assms]
  show "\<exists>outcome s'. durable_create_document sha s authority ca req d c a = (Inr outcome, s')"
    using create_returns [OF ok(7), of sha authority ca req d c a] by (auto simp add: durable_create_document_def)
  show "canonical_ops ops \<Longrightarrow> \<exists>outcome s'. durable_grant_capability sha s d issuer ia req c a ops = (Inr outcome, s')"
    using grant_returns [OF ok(7), of ops sha d issuer ia req c a] by (auto simp add: durable_grant_capability_def)
  show "\<exists>outcome s'. durable_revoke_capability sha s d issuer ia req target = (Inr outcome, s')"
    using revoke_returns [OF ok(7), of sha d issuer ia req target]
    by (auto simp add: durable_revoke_capability_def Let_def split: store_control_outcome.split)
  show "\<exists>outcome s'. durable_accept sha s c a update rec = (Inr outcome, s')" if "decode_update_record rec = Inr update"
    using accept_active [OF ok(1) that, of c a]
    by (auto simp add: durable_accept_def split: store_accept_outcome.split)
qed

end
