(* ===== verification/Broker_Properties.thy ===== *)
theory Broker_Properties
  imports Broker_Safety
begin

text \<open>The properties of the broker over all runs from an opened store.\<close>

lemma opened_run_ok:
  "store_history sha empty_tables t \<Longrightarrow> broker_run sha (opened t generation broker) s \<Longrightarrow> broker_ok sha s"
  using broker_run_ok opened_ok by blast

text \<open>A broker with one channel and one subscription, under the granted capability of the demo.\<close>

lemma demo_granted_history: "store_history demo_sha empty_tables demo_granted"
  using demo_granted_ok(1) by (rule control_store_history)

lemma demo_child_holds: "holds demo_sha demo_granted 4 8 a Read"
proof -
  have "Read \<in> ops_in demo_granted 4 8" by (simp add: ops_in_def demo_simps)
  then show ?thesis by (simp add: holds_def demo_root grant_row_def demo_derive)
qed

lemma demo_child_reads: "authorize demo_sha demo_granted 4 8 9 Read"
  using authorize_spec [OF demo_granted_ok(3)] demo_child_holds demo_active(2) by blast

definition demo_registry :: registry where
  "demo_registry = registry_run [OpenChannel, Register demo_channel 4 8] (registry_new 0)"

definition demo_broker :: durable_update_store where
  "demo_broker = (opened demo_granted 0 0)\<lparr> ds_subscriptions := demo_registry \<rparr>"

lemma demo_registry_contexts:
  "contexts 4 demo_registry = [(8, 1)]" "rg_broker demo_registry = 0" "rg_leases demo_registry = [1]"
  using arg_cong [OF demo_open, of snd]
  by (simp_all add: demo_registry_def register_def recognizes_def demo_channel_def registry_new_def
      prune_def retain_def subscription_limit_defs checked_add_def emission_gate_of_def Let_def
      contexts_def channel_upgrades_def)

lemma demo_broker_subscribed:
  "snd (subscribe_updates demo_sha (snd (open_broker_channel (opened demo_granted 0 0))) demo_channel 4 8 9) = demo_broker"
  "bc_lease demo_channel \<in> set (rg_leases (ds_subscriptions (snd (open_broker_channel (opened demo_granted 0 0)))))"
proof -
  let ?s = "opened demo_granted 0 0"
  let ?w = "snd (open_channel (registry_new 0))"
  have w: "ds_subscriptions ?s = registry_new 0" "ds_tables ?s = demo_granted" by (simp_all add: opened_def)
  have s': "snd (open_broker_channel ?s) = ?s\<lparr> ds_subscriptions := ?w \<rparr>"
    by (simp add: open_broker_channel_def w case_prod_beta)
  have known: "recognizes ?w demo_channel" "bc_lease demo_channel \<in> set (rg_leases ?w)"
    by (simp_all add: demo_open recognizes_def) (simp_all add: demo_channel_def registry_new_def)
  show "snd (subscribe_updates demo_sha (snd (open_broker_channel ?s)) demo_channel 4 8 9) = demo_broker"
    using known(1) demo_child_reads
    by (auto simp add: s' subscribe_updates_def w Let_def demo_broker_def demo_registry_def
        split: prod.split sum.split register_error.split)
  show "bc_lease demo_channel \<in> set (rg_leases (ds_subscriptions (snd (open_broker_channel ?s))))"
    using known(2) by (simp add: s')
qed

lemma demo_broker_run: "broker_run demo_sha (opened demo_granted 0 0) demo_broker"
  using broker_next [OF broker_next [OF broker_start br_open] br_subscribe] demo_broker_subscribed by metis


section \<open>Authority of what sessions hold\<close>

definition authority_active :: "tables \<Rightarrow> document_id \<Rightarrow> capability_id \<Rightarrow> bool" where
  "authority_active t d c \<longleftrightarrow> par_of t d c \<noteq> None \<and> (\<forall>a. descends (par_of t d) a c \<longrightarrow> active t d a)"

lemma active_authority: "control_ok t \<Longrightarrow> active t d c \<Longrightarrow> authority_active t d c"
proof -
  assume ok: "control_ok t" and act: "active t d c"
  then obtain row where "om_get (capabilities t) (d, c) = Some row" by (auto simp add: active_def)
  then obtain cs where cs: "chain (par_of t d) c cs" using obtain_cap_chain [OF ok] by blast
  show ?thesis
    using active_chain [OF ok cs act] descends_iff [OF cs] active_known [OF act]
    by (simp add: authority_active_def)
qed

text \<open>
  C14: sessions hold nothing without authority.  In every state of a broker, each live
  subscription and each stable pass belongs to a capability that is active together with all of
  its ancestors; and the passes stay within their limits - 1024 of each kind, 32 for a channel
  or a document, 8 for a capability - with pairwise distinct tokens.
\<close>

theorem sessions_hold_only_active_authority:
  assumes "store_history sha empty_tables t" "broker_run sha (opened t generation broker) s"
  shows "list_all (\<lambda>(c, i). authority_active (ds_tables s) d c) (contexts d (ds_subscriptions s))
    \<and> list_all (\<lambda>p. authority_active (ds_tables s) (ep_document_id p) (ep_capability_id p)) (ds_enumeration_passes s)
    \<and> list_all (\<lambda>p. authority_active (ds_tables s) (vp_document_id p) (vp_capability_id p)) (ds_vector_passes s)
    \<and> enumeration_bounded (ds_enumeration_passes s) \<and> vector_bounded (ds_vector_passes s)
    \<and> tokens_distinct enumeration_tokens (ds_enumeration_passes s)
    \<and> tokens_distinct vector_tokens (ds_vector_passes s)"
proof -
  note ok = broker_okD [OF opened_run_ok [OF assms]]
  have "authority_active (ds_tables s) d c" if "(c, i) \<in> set (contexts d (ds_subscriptions s))" for c i
    using that ok(6) active_authority [OF ok(7)] by (auto simp add: contexts_live live_active_def)
  then show ?thesis
    using ok(3-5) active_authority [OF ok(7)]
    by (auto simp add: list_all_iff passes_active_def enumeration_passes_ok_def vector_passes_ok_def)
qed

theorem sessions_hold_only_active_authority_witness:
  "list_all (\<lambda>(c, i). authority_active demo_granted 4 c) (contexts 4 demo_registry)
    \<and> contexts 4 demo_registry = [(8, 1)]"
  using sessions_hold_only_active_authority [OF demo_granted_history demo_broker_run, of 4]
    demo_registry_contexts(1)
  by (simp add: demo_broker_def opened_def)


section \<open>Revocation reaches every session\<close>

lemma contexts_invalidated:
  assumes "registry_ok w"
  shows "contexts d (invalidate_subscriptions ids r w) = filter (\<lambda>(c, i). i \<notin> set ids) (contexts d w)"
proof -
  let ?k = "\<lambda>e (c :: subscription_cell). sid e \<notin> set ids"
  let ?g = "end_where (\<lambda>e. sid e \<in> set ids) r"
  have eq: "invalidate_subscriptions ids r w = w\<lparr>
      rg_subscriptions := filter (\<lambda>e. ?k e (rg_cells w (sid e))) (rg_subscriptions w),
      rg_cells := settle ?k ?g (rg_subscriptions w) (rg_cells w) \<rparr>"
    unfolding invalidate_subscriptions_def
    by (rule retain_local [OF registry_okD(2) [OF assms] end_where_local])
  have "settle ?k ?g (rg_subscriptions w) (rg_cells w) (sid e) = rg_cells w (sid e)"
    if "sid e \<notin> set ids" for e
    using that
    by (cases rule: settle_cases [of "sid e" "rg_subscriptions w" ?k ?g "rg_cells w"])
      (auto simp add: settle_cell_def end_where_def)
  then show ?thesis
    unfolding contexts_def eq
    by (simp add: filter_map o_def channel_upgrades_def) (intro arg_cong [of _ _ "map _"] filter_cong; auto)
qed

text \<open>
  C15: an inserted revoke ends exactly what the revoked authority held.  The passes and the live
  subscriptions of the document whose capability is the target or below it are gone when the
  request returns, all others are still there, and nothing at or below the target is active.
\<close>

theorem revocation_ends_exactly_its_sessions:
  assumes "store_history sha empty_tables t" "broker_run sha (opened t generation broker) s"
    and "durable_revoke_capability sha s d issuer ia req target = (Inr StInserted, s')"
  shows "(let gone = (\<lambda>x c. x = d \<and> descends (par_of (ds_tables s) d) target c) in
    ds_enumeration_passes s' = filter (\<lambda>p. \<not> gone (ep_document_id p) (ep_capability_id p)) (ds_enumeration_passes s)
    \<and> ds_vector_passes s' = filter (\<lambda>p. \<not> gone (vp_document_id p) (vp_capability_id p)) (ds_vector_passes s)
    \<and> contexts x (ds_subscriptions s') = filter (\<lambda>(c, i). \<not> gone x c) (contexts x (ds_subscriptions s))
    \<and> active (ds_tables s') x y = (active (ds_tables s) x y \<and> \<not> gone x y))"
proof -
  have broker: "broker_ok sha s" by (rule opened_run_ok [OF assms(1,2)])
  note ok = broker_okD [OF broker]
  let ?gone = "\<lambda>x c. x = d \<and> descends (par_of (ds_tables s) d) target c"
  let ?ids = "revoked_subscription_ids s d target" and ?caps = "revoked_pass_capabilities s d target"
  obtain t' where step: "store_revoke_capability sha (ds_tables s) d issuer ia req target = Inr (StInserted, t')"
    using assms(3) by (auto simp add: durable_revoke_capability_def split: sum.splits prod.splits
        store_control_outcome.splits)
  then have s': "s' = s\<lparr> ds_tables := t',
      ds_enumeration_passes := filter (\<lambda>p. ep_document_id p \<noteq> d \<or> ep_capability_id p \<notin> set ?caps) (ds_enumeration_passes s),
      ds_vector_passes := filter (\<lambda>p. vp_document_id p \<noteq> d \<or> vp_capability_id p \<notin> set ?caps) (ds_vector_passes s),
      ds_subscriptions := invalidate_subscriptions ?ids update_subscription_end.Revoked (ds_subscriptions s) \<rparr>"
    using assms(3) by (simp add: durable_revoke_capability_def Let_def)
  have ids: "i \<in> set ?ids \<longleftrightarrow> ?gone x c" if m: "(c, i) \<in> set (contexts x (ds_subscriptions s))" for c i
  proof
    obtain e where e: "e \<in> live (ds_subscriptions s)" "se_document_id e = x" "se_capability_id e = c" "sid e = i"
      using m contexts_live by blast
    show "i \<in> set ?ids" if "?gone x c" using revoked_subscriptions [OF broker e(1)] e that by simp
    assume "i \<in> set ?ids"
    then obtain c' where c': "(c', i) \<in> set (contexts d (ds_subscriptions s))"
      "is_descendant_or_self (ds_tables s) d target c'"
      by (auto simp add: revoked_subscription_ids_def)
    then obtain e' where e': "e' \<in> live (ds_subscriptions s)" "se_document_id e' = d" "se_capability_id e' = c'" "sid e' = i"
      using contexts_live by blast
    then have "e' = e"
      using distinct_map_eq [OF registry_okD(2) [OF ok(2)]] e by (auto simp add: live_def)
    moreover have "active (ds_tables s) d c'" using ok(6) e' by (auto simp add: live_active_def)
    ultimately show "?gone x c"
      using c'(2) e e' is_descendant_or_self_spec [OF ok(7) active_known] by simp
  qed
  have "contexts x (ds_subscriptions s') = filter (\<lambda>(c, i). \<not> ?gone x c) (contexts x (ds_subscriptions s))"
    unfolding s' using ids by (simp add: contexts_invalidated [OF ok(2)]) (intro filter_cong; auto)
  moreover have "ds_enumeration_passes s'
      = filter (\<lambda>p. \<not> ?gone (ep_document_id p) (ep_capability_id p)) (ds_enumeration_passes s)"
    "ds_vector_passes s' = filter (\<lambda>p. \<not> ?gone (vp_document_id p) (vp_capability_id p)) (ds_vector_passes s)"
    unfolding s' using revoked_passes [OF broker] by (simp_all cong: filter_cong)
  moreover have "active (ds_tables s') x y = (active (ds_tables s) x y \<and> \<not> ?gone x y)"
    unfolding s' using revoke_active [OF ok(7) step] by simp
  ultimately show ?thesis by (simp add: Let_def)
qed

theorem revocation_ends_exactly_its_sessions_witness:
  "\<exists>s'. durable_revoke_capability demo_sha demo_broker 4 5 6 9 8 = (Inr StInserted, s')
    \<and> contexts 4 (ds_subscriptions demo_broker) = [(8, 1)] \<and> contexts 4 (ds_subscriptions s') = []"
proof -
  obtain t' where t': "store_revoke_capability demo_sha demo_granted 4 5 6 9 8 = Inr (StInserted, t')"
    using revoke_passes [OF demo_granted_ok(3) demo_revoke_checks] by blast
  have subs: "ds_subscriptions demo_broker = demo_registry" "ds_tables demo_broker = demo_granted"
    by (simp_all add: demo_broker_def opened_def)
  obtain s' where s': "durable_revoke_capability demo_sha demo_broker 4 5 6 9 8 = (Inr StInserted, s')"
    using t' by (simp add: durable_revoke_capability_def subs Let_def)
  have "descends (par_of demo_granted 4) 8 8" by (simp add: descends_iff [OF demo_granted_chain])
  with revocation_ends_exactly_its_sessions [OF demo_granted_history demo_broker_run s', of 4]
  have "contexts 4 (ds_subscriptions s') = []"
    by (simp add: Let_def subs demo_registry_contexts(1))
  with s' show ?thesis by (simp add: subs demo_registry_contexts(1))
qed


section \<open>Requests do not fail\<close>

text \<open>
  C25: no request fails.  In every state of a broker, creating, granting and revoking, accepting a
  decodable record, enumerating and vector backfill from any start, token or page limit that
  leaves room for one record, all return an outcome; the only storage error left is a failing
  source of randomness, and only when a token has to be minted.
\<close>

theorem requests_fail_only_without_entropy:
  assumes "store_history sha empty_tables t" "broker_run sha (opened t generation broker) s"
    and "canonical_ops ops" "decode_update_record record = Inr update"
    and "MAX_ENUMERABLE_METADATA_LENGTH \<le> limit"
  shows "(\<exists>outcome s'. durable_create_document sha s authority ca req d c a = (Inr outcome, s'))
    \<and> (\<exists>outcome s'. durable_grant_capability sha s d issuer ia req c a ops = (Inr outcome, s'))
    \<and> (\<exists>outcome s'. durable_revoke_capability sha s d issuer ia req target = (Inr outcome, s'))
    \<and> (\<exists>outcome s'. durable_accept sha s c a update record = (Inr outcome, s'))
    \<and> fst (enumerate_authorized sha s channel d c a start limit now later rnd)
      \<in> insert (Inl EntropyUnavailable) (range Inr)
    \<and> fst (vector_backfill_authorized sha s channel d c a version vstart limit now later rnd)
      \<in> insert (Inl EntropyUnavailable) (range Inr)"
proof -
  have broker: "broker_ok sha s" by (rule opened_run_ok [OF assms(1,2)])
  note ok = broker_okD [OF broker]
  have entropy: "r \<in> insert (Inl EntropyUnavailable) (range Inr)"
    if "\<And>err. r = Inl err \<Longrightarrow> err = EntropyUnavailable" for r :: "store_error + 'x"
    using that by (cases r) auto
  have enumerated: "fst (enumerate_authorized sha s channel d c a start limit now later rnd)
      \<in> insert (Inl EntropyUnavailable) (range Inr)"
    by (rule entropy) (rule enumerate_keeps_ok(2) [OF broker assms(5)])
  have backfilled: "fst (vector_backfill_authorized sha s channel d c a version vstart limit now later rnd)
      \<in> insert (Inl EntropyUnavailable) (range Inr)"
    by (rule entropy) (rule vector_keeps_ok(2) [OF broker assms(5)])
  show ?thesis by (intro conjI durable_returns [OF broker] assms(3,4) enumerated backfilled)
qed

theorem requests_fail_only_without_entropy_witness:
  "fst (enumerate_authorized demo_sha demo_broker demo_channel 4 8 9 (EnumContinue []) 4035 0 0 (\<lambda>_. None))
    \<in> insert (Inl EntropyUnavailable) (range Inr)"
  using requests_fail_only_without_entropy [OF demo_granted_history demo_broker_run canonical_one [of Read]
      demo_update_decodes, of 4035]
  by (simp add: update_length_defs)


section \<open>Retried continuations\<close>

text \<open>The continuation that a pass remembers is answered from the pass.\<close>

lemma remembered_continuation:
  assumes "tokens_distinct enumeration_tokens (ds_enumeration_passes s)"
    and "i < length (ds_enumeration_passes s)" "p = ds_enumeration_passes s ! i"
    and "token_from encoded = Some token"
    and "ep_retry p = Some \<lparr> epr_mode = mode, epr_response = r, epr_token = token \<rparr>"
    and "ep_document_id p = d" "ep_capability_id p = c" "ep_channel_id p = ch"
    and "ep_generation p = ds_generation s" "now < ep_expires_at p"
  shows "enumerate_continuation s ch d c encoded mode limit now later rnd = (Inr (EnAuthorized r), s)"
proof -
  let ?ps = "ds_enumeration_passes s"
  have mem: "token \<in> set (enumeration_tokens (?ps ! i))" using assms(3,5) by (simp add: enumeration_tokens_def)
  have "find_position (\<lambda>p. enumeration_pass_contains_token p token mode) ?ps = Some i"
  proof (rule find_position_unique)
    show "j = i" if "j < length ?ps" "enumeration_pass_contains_token (?ps ! j) token mode" for j
    proof (rule tokens_distinctD [OF assms(1) that(1) assms(2) _ mem])
      show "token \<in> set (enumeration_tokens (?ps ! j))"
        using that(2) by (auto simp add: enumeration_pass_contains_token_def enumeration_tokens_def
            split: option.splits)
    qed
  qed (use assms(2,3,5) in \<open>simp_all add: enumeration_pass_contains_token_def\<close>)
  then show ?thesis
    using assms(3-10) by (simp add: enumerate_continuation_def Let_def)
qed

lemma answered_continuation:
  assumes "enumerate_continuation s ch d c encoded mode limit now later rnd = (Inr (EnAuthorized r), s')"
    and "ap_next_cursor r \<noteq> None"
  obtains i token p where "token_from encoded = Some token" "i < length (ds_enumeration_passes s')"
    "p = ds_enumeration_passes s' ! i"
    "ep_retry p = Some \<lparr> epr_mode = mode, epr_response = r, epr_token = token \<rparr>"
    "ep_document_id p = d" "ep_capability_id p = c" "ep_channel_id p = ch"
    "ep_generation p = ds_generation s'"
proof -
  let ?ps = "ds_enumeration_passes s"
  obtain token where token: "token_from encoded = Some token"
    using assms(1) by (cases "token_from encoded") (simp_all add: enumerate_continuation_def)
  obtain i where i: "find_position (\<lambda>p. enumeration_pass_contains_token p token mode) ?ps = Some i"
    using assms(1) token
    by (cases "find_position (\<lambda>p. enumeration_pass_contains_token p token mode) ?ps")
      (simp_all add: enumerate_continuation_def)
  let ?p = "?ps ! i"
  have len: "i < length ?ps" using find_position_Some [OF i] by simp
  have step: "(if ep_document_id ?p \<noteq> d \<or> ep_capability_id ?p \<noteq> c \<or> ep_channel_id ?p \<noteq> ch
        \<or> ep_generation ?p \<noteq> ds_generation s \<or> ep_expires_at ?p \<le> now
      then (Inr EnInvalidContinuation, s)
      else case (case ep_retry ?p of
          Some retry \<Rightarrow> if epr_token retry = token \<and> epr_mode retry = mode
            then Some (epr_response retry) else None
        | None \<Rightarrow> None) of
          Some response \<Rightarrow> (Inr (EnAuthorized response), s)
        | None \<Rightarrow>
          if epp_token (ep_current ?p) \<noteq> token \<or> epp_mode (ep_current ?p) \<noteq> mode
          then (Inr EnInvalidContinuation, s)
          else (case continuation_window (ds_tables s) ?p mode of
              Inl () \<Rightarrow> (Inr EnInvalidContinuation, s)
            | Inr None \<Rightarrow> (Inr (EnAuthorized \<lparr> ap_page = empty_stored_update_page, ap_next_cursor = None \<rparr>), s)
            | Inr (Some window) \<Rightarrow> enumerate_advance s i token mode window limit later rnd))
    = (Inr (EnAuthorized r), s')"
    using assms(1) by (simp add: enumerate_continuation_def token i Let_def)
  let ?again = "case ep_retry ?p of
      Some retry \<Rightarrow> if epr_token retry = token \<and> epr_mode retry = mode then Some (epr_response retry) else None
    | None \<Rightarrow> None"
  from step have ctx: "ep_document_id ?p = d" "ep_capability_id ?p = c" "ep_channel_id ?p = ch"
    "ep_generation ?p = ds_generation s" by (simp_all split: if_splits)
  consider (retry) retry where "ep_retry ?p = Some retry" "epr_token retry = token" "epr_mode retry = mode"
      "epr_response retry = r" "s' = s"
    | (advance) window where "continuation_window (ds_tables s) ?p mode = Inr (Some window)"
      "enumerate_advance s i token mode window limit later rnd = (Inr (EnAuthorized r), s')"
  proof (cases ?again)
    case (Some response)
    then obtain retry where "ep_retry ?p = Some retry" "epr_token retry = token" "epr_mode retry = mode"
      "epr_response retry = response" by (auto split: option.splits if_splits)
    with step Some show thesis by (intro retry) (simp_all split: if_splits)
  next
    case None
    show thesis
    proof (cases "continuation_window (ds_tables s) ?p mode")
      case (Inl u)
      with step None show thesis by (simp split: if_splits unit.splits)
    next
      case (Inr w)
      show thesis
      proof (cases w)
        case None
        with step Inr \<open>?again = None\<close> have "r = \<lparr> ap_page = empty_stored_update_page, ap_next_cursor = None \<rparr>"
          by (simp split: if_splits)
        then show thesis using assms(2) by simp
      next
        case (Some window)
        with step Inr \<open>?again = None\<close> show thesis by (intro advance) (simp_all split: if_splits)
      qed
    qed
  qed
  then show thesis
  proof cases
    case retry
    then have "ep_retry ?p = Some \<lparr> epr_mode = mode, epr_response = r, epr_token = token \<rparr>" by (cases retry) simp
    with token len ctx retry(5) show thesis by (intro that [of token i ?p]) simp_all
  next
    case advance
    obtain a b ordinal where w: "window = (a, b, ordinal)" by (cases window)
    have "\<exists>q. s' = s\<lparr> ds_enumeration_passes := ?ps[i := q] \<rparr>
      \<and> ep_retry q = Some \<lparr> epr_mode = mode, epr_response = r, epr_token = token \<rparr>
      \<and> ep_document_id q = ep_document_id ?p \<and> ep_capability_id q = ep_capability_id ?p
      \<and> ep_channel_id q = ep_channel_id ?p \<and> ep_generation q = ep_generation ?p"
    proof (cases "enumerate_in (ds_tables s) (ep_document_id ?p) a b ordinal limit")
      case (Inl err)
      then show ?thesis using advance(2) by (cases err) (simp_all add: enumerate_advance_def w)
    next
      case (Inr page)
      note page = this
      show ?thesis
      proof (cases "mint_enumeration_token rnd ?ps")
        case (Inr minted)
        then show ?thesis
          using advance(2) page by (cases minted) (simp_all add: enumerate_advance_def w Let_def split: if_splits, force)
      qed (use advance(2) page in \<open>simp add: enumerate_advance_def w split: if_splits\<close>)
    qed
    then obtain ps where ps: "s' = s\<lparr> ds_enumeration_passes := ps \<rparr>" "length ps = length ?ps"
      "ep_retry (ps ! i) = Some \<lparr> epr_mode = mode, epr_response = r, epr_token = token \<rparr>"
      "ep_document_id (ps ! i) = ep_document_id ?p" "ep_capability_id (ps ! i) = ep_capability_id ?p"
      "ep_channel_id (ps ! i) = ep_channel_id ?p" "ep_generation (ps ! i) = ep_generation ?p"
      using len by auto
    with token len ctx show thesis by (intro that [of token i "ps ! i"]) simp_all
  qed
qed

text \<open>
  A continuation can be retried.  When a continuation was answered with a page and a cursor,
  the same request repeated before a pass expires is answered with the same page and the same
  cursor, whatever the page limit and the randomness are by then, and changes nothing: a client
  that lost the response loses no update.
\<close>

theorem retried_continuation_is_idempotent:
  assumes "store_history sha empty_tables t" "broker_run sha (opened t generation broker) s"
    and "MAX_ENUMERABLE_METADATA_LENGTH \<le> limit" "start = EnumContinue encoded \<or> start = EnumAfterTail encoded"
    and "enumerate_authorized sha s channel d c a start limit now later rnd = (Inr (EnAuthorized r), s')"
    and "ap_next_cursor r \<noteq> None" "\<forall>p \<in> set (ds_enumeration_passes s'). now' < ep_expires_at p"
  shows "enumerate_authorized sha s' channel d c a start limit' now' later' rnd' = (Inr (EnAuthorized r), s')"
proof -
  have broker: "broker_ok sha s" by (rule opened_run_ok [OF assms(1,2)])
  let ?s = "s\<lparr> ds_enumeration_passes := filter (\<lambda>p. now < ep_expires_at p) (ds_enumeration_passes s) \<rparr>"
  define mode where "mode = (case start of EnumAfterTail _ \<Rightarrow> TokenAfterTail | _ \<Rightarrow> TokenContinue)"
  have rec: "recognizes (ds_subscriptions s) channel"
    "authorize_document sha (ds_tables s) d c a Read = document_authorization.Authorized"
    using assms(5) unfolding enumerate_authorized_def
    by (cases "recognizes (ds_subscriptions s) channel"; simp split: document_authorization.splits)+
  have "enumerate_continuation ?s (bc_lease channel) d c encoded mode limit now later rnd = (Inr (EnAuthorized r), s')"
    using assms(4,5) rec unfolding enumerate_authorized_def Let_def by (elim disjE) (simp_all add: mode_def)
  from answered_continuation [OF this assms(6)] obtain i token p where p:
    "token_from encoded = Some token" "i < length (ds_enumeration_passes s')"
    "p = ds_enumeration_passes s' ! i"
    "ep_retry p = Some \<lparr> epr_mode = mode, epr_response = r, epr_token = token \<rparr>"
    "ep_document_id p = d" "ep_capability_id p = c" "ep_channel_id p = bc_lease channel"
    "ep_generation p = ds_generation s'" .
  have "broker_ok sha s'"
    using enumerate_keeps_ok(1) [OF broker assms(3), of channel d c a start now later rnd] by (simp add: assms(5))
  then have distinct: "tokens_distinct enumeration_tokens (ds_enumeration_passes s')"
    using broker_okD(3) by (auto simp add: enumeration_passes_ok_def)
  have "now' < ep_expires_at p" using assms(7) p(2,3) by simp
  note again = remembered_continuation [OF distinct p(2,3,1,4-8) this]
  have frame: "ds_subscriptions s' = ds_subscriptions s" "ds_tables s' = ds_tables s"
    using enumerate_authorized_effect [OF broker_okD(1,3) [OF broker] assms(3,5)]
    by (auto simp add: enumeration_effect_def)
  have "filter (\<lambda>p. now' < ep_expires_at p) (ds_enumeration_passes s') = ds_enumeration_passes s'"
    using assms(7) by simp
  then have same: "s'\<lparr> ds_enumeration_passes := filter (\<lambda>p. now' < ep_expires_at p) (ds_enumeration_passes s') \<rparr> = s'"
    by simp
  from assms(4) show ?thesis
  proof
    assume "start = EnumContinue encoded"
    then show ?thesis using rec again same unfolding enumerate_authorized_def frame by (simp add: mode_def)
  next
    assume "start = EnumAfterTail encoded"
    then show ?thesis using rec again same unfolding enumerate_authorized_def frame by (simp add: mode_def)
  qed
qed

text \<open>A second update, accepted after the origin page was read.\<close>

definition demo_later_update :: immutable_update where
  "demo_later_update = demo_update\<lparr> iu_update_id := 9 \<rparr>"

lemma demo_later_decodes: "decode_update_record (record_bytes demo_later_update) = Inr demo_later_update"
  by (simp add: decode_update_record_iff encode_update_record_iff record_length_def demo_later_update_def
      demo_update_def example_update_def update_length_defs update_ok_def public_ranges_ok_def
      loro_range_ok_def MAX_LORO_PEERS_def MAX_LORO_COUNTER_def operation_count_def
      MAX_UPDATE_OPERATIONS_def total_operations_def)

lemma demo_later_inserted:
  "fst (model_accept (model_after [demo_update]) demo_later_update) = Inserted"
  by (simp add: model_after_def model_accept_def empty_update_model_def demo_update_def demo_later_update_def
      example_update_def checked_next_def checked_add_def FIRST_def MAX_LORO_PEERS_def peers_extend_def insort_insert_key_def Let_def)

lemma demo_later_sequence: "next_sequence (model_after [demo_update, demo_later_update]) 4 = 3"
  by (simp add: model_after_def model_accept_def empty_update_model_def demo_update_def demo_later_update_def
      example_update_def checked_next_def checked_add_def FIRST_def MAX_LORO_PEERS_def peers_extend_def insort_insert_key_def next_sequence_def Let_def)

lemma same_control_authorize:
  assumes "control_ok t" "same_control t t'"
  shows "authorize_document sha t' d c a op = authorize_document sha t d c a op"
    "authorize sha t' d c a op = authorize sha t d c a op"
proof -
  have "holds sha t' d c a op = holds sha t d c a op" "doc_authorization t' d = doc_authorization t d"
    using assms(2) by (simp_all add: holds_def doc_authorization_def ops_in_def same_control_def)
  then show "authorize_document sha t' d c a op = authorize_document sha t d c a op"
    by (simp add: authorize_document_spec assms(1) same_control_ok [OF assms])
  then show "authorize sha t' d c a op = authorize sha t d c a op" by (simp add: authorize_def)
qed

lemma same_control_trans: "same_control t t' \<Longrightarrow> same_control t' t'' \<Longrightarrow> same_control t t''"
  by (simp add: same_control_def)

text \<open>Document 4 after the first and after the second update.\<close>

lemma demo_two_updates:
  obtains t1 t2 where "store_history demo_sha empty_tables t1" "same_control demo_document t1"
    "high_water_sequence_in t1 4 = Some 1"
    "store_accept demo_sha t1 5 6 demo_later_update (record_bytes demo_later_update) = Inr (StAcceptInserted, t2)"
    "same_control demo_document t2" "high_water_sequence_in t2 4 = Some 2"
proof -
  have may: "authorize demo_sha demo_document (iu_document_id demo_update) 5 6 Update"
    using demo_may_update by simp
  obtain t1 where t1: "store_accept demo_sha demo_document 5 6 demo_update (record_bytes demo_update)
      = Inr (StAcceptInserted, t1)"
    "update_refines t1 (snd (model_accept (model_after []) demo_update))" "same_control demo_document t1"
    using store_accept_simulated [OF demo_document_ok(2) demo_document_refines
        model_after_ok demo_update_decodes may] demo_model_inserts by auto
  have h1: "store_history demo_sha empty_tables t1"
    by (rule store_history_step [OF demo_document_history step_accept [OF demo_update_decodes t1(1)]])
  have r1: "update_refines t1 (model_after [demo_update])" using t1(2) by (simp add: model_after_def)
  have m1: "model_ok (model_after [demo_update])"
    using model_after_ok [of "[demo_update]"] decoded_canonical [OF demo_update_decodes] by simp
  have m2: "model_ok (model_after [demo_update, demo_later_update])"
    using model_after_ok [of "[demo_update, demo_later_update]"] decoded_canonical [OF demo_update_decodes]
      decoded_canonical [OF demo_later_decodes] by simp
  have "authorize demo_sha t1 (iu_document_id demo_later_update) 5 6 Update"
    using demo_may_update same_control_authorize(2) [OF demo_document_ok(2) t1(3)]
    by (simp add: demo_later_update_def)
  from store_accept_simulated [OF same_control_ok [OF demo_document_ok(2) t1(3)] r1 m1 demo_later_decodes this]
  obtain t2 where t2: "store_accept demo_sha t1 5 6 demo_later_update (record_bytes demo_later_update)
      = Inr (StAcceptInserted, t2)"
    "update_refines t2 (model_after [demo_update, demo_later_update])" "same_control t1 t2"
    using demo_later_inserted model_after_snoc [of "[demo_update]" demo_later_update] by auto
  show thesis
    using that [OF h1 t1(3) demo_high_water [OF r1] t2(1) same_control_trans [OF t1(3) t2(3)]]
      high_water_ok [OF t2(2) m2, of 4] demo_later_sequence by simp
qed

text \<open>A client that lost the second page and asks for it again.\<close>

theorem retried_continuation_is_idempotent_witness:
  "\<exists>s s' r. enumerate_authorized demo_sha s demo_channel 4 5 6 (EnumAfterTail (be_encode (7 :: key32))) 4035 0 0
      (\<lambda>_. Some 8) = (Inr (EnAuthorized r), s') \<and> ap_next_cursor r = Some (be_encode (8 :: key32))
    \<and> enumerate_authorized demo_sha s' demo_channel 4 5 6 (EnumAfterTail (be_encode (7 :: key32))) 4035 1 1
      (\<lambda>_. None) = (Inr (EnAuthorized r), s')"
proof -
  obtain t1 t2 where t: "store_history demo_sha empty_tables t1" "same_control demo_document t1"
    "high_water_sequence_in t1 4 = Some 1"
    "store_accept demo_sha t1 5 6 demo_later_update (record_bytes demo_later_update) = Inr (StAcceptInserted, t2)"
    "same_control demo_document t2" "high_water_sequence_in t2 4 = Some 2"
    by (rule demo_two_updates)
  have limit: "MAX_ENUMERABLE_METADATA_LENGTH \<le> 4035" by (simp add: update_length_defs)
  have "authorize_document demo_sha demo_document 4 5 6 Read = document_authorization.Authorized"
    using authorize_document_spec [OF demo_document_ok(2)] demo_root_holds(1) demo_active(1) by simp
  then have may: "authorize_document demo_sha t1 4 5 6 Read = document_authorization.Authorized"
    "authorize_document demo_sha t2 4 5 6 Read = document_authorization.Authorized"
    using same_control_authorize(1) [OF demo_document_ok(2)] t(2,5) by simp_all
  define s0 where "s0 = snd (open_broker_channel (opened t1 0 0))"
  have s0: "s0 = (opened t1 0 0)\<lparr> ds_subscriptions := (registry_new 0)\<lparr> rg_next_channel_id := 2, rg_leases := [1] \<rparr> \<rparr>"
    by (simp add: s0_def open_broker_channel_def opened_def demo_open)
  have known: "recognizes (ds_subscriptions s0) demo_channel"
    by (simp add: s0 recognizes_def demo_channel_def registry_new_def)
  obtain f where f: "pinned t1 4 1 f" using history_captured(1) [OF t(1,3)] by (auto simp add: captured_def)
  obtain k page where page: "enumerate_in t1 4 0 1 0 4035 = Inr page" "page_bounded 4035 page"
    "unat (sp_next_ordinal page) = k" "0 < k" "sp_has_more page \<longleftrightarrow> k < 1" "k \<le> 1"
    by (rule pinned_page [OF f _ _ limit, of 0 0]) (simp_all del: One_nat_def)
  define q where "q = \<lparr> ep_capability_id = 5, ep_channel_id = 1,
    ep_current = \<lparr> epp_mode = TokenAfterTail, epp_next_ordinal = sp_next_ordinal page, epp_token = 7 \<rparr>,
    ep_document_id = 4, ep_expires_at = ENUMERATION_PASS_IDLE_TTL, ep_generation = 0,
    ep_lower_sequence_exclusive = 0, ep_retry = None, ep_terminal_sequence = 1 \<rparr>"
  define s1 where "s1 = snd (enumerate_authorized demo_sha s0 demo_channel 4 5 6 EnumOrigin 4035 0 0 (\<lambda>_. Some 7))"
  have s1: "s1 = s0\<lparr> ds_enumeration_passes := [q] \<rparr>"
    using known may(1) t(3) page
    by (simp add: s1_def enumerate_authorized_def enumerate_origin_def s0 opened_def ORIGIN_def page_bounded_def
        can_admit_enumeration_pass_def pass_limit_defs mint_enumeration_token_def eval_nat_numeral
        mode_after_def q_def demo_channel_def)
  define s where "s = snd (durable_accept demo_sha s1 5 6 demo_later_update (record_bytes demo_later_update))"
  have s: "s = s1\<lparr> ds_tables := t2, ds_subscriptions := notify 4 9 (ds_subscriptions s1) \<rparr>"
    using t(4) by (simp add: s_def durable_accept_def s1 s0 opened_def demo_later_update_def)
  have fields: "ds_enumeration_passes s = [q]" "ds_tables s = t2" "ds_generation s = 0"
    "recognizes (ds_subscriptions s) demo_channel"
    by (simp_all add: s s1 s0 opened_def notify_def retain_def registry_new_def recognizes_def demo_channel_def)
  have run: "broker_run demo_sha (opened t1 0 0) s"
    unfolding s_def s1_def s0_def
    by (intro broker_next [OF broker_next [OF broker_next [OF broker_start br_open] br_enumerate] br_accept]
        limit demo_later_decodes)
  have h2: "store_history demo_sha empty_tables t2"
    by (rule store_history_step [OF t(1) step_accept [OF demo_later_decodes t(4)]])
  obtain page' where page': "enumerate_in t2 4 1 2 0 4035 = Inr page'" "sp_updates page' \<noteq> []"
    by (rule captured_page [OF history_captured(1) [OF h2 t(6)] _ _ limit, of 1 0]) simp_all
  define r where "r = \<lparr> ap_page = page', ap_next_cursor = Some (be_encode (8 :: key32)) \<rparr>"
  define q' where "q' = q\<lparr> ep_current := \<lparr> epp_mode = mode_after page', epp_next_ordinal = sp_next_ordinal page',
      epp_token = 8 \<rparr>, ep_expires_at := ENUMERATION_PASS_IDLE_TTL, ep_lower_sequence_exclusive := 1,
    ep_retry := Some \<lparr> epr_mode = TokenAfterTail, epr_response = r, epr_token = 7 \<rparr>, ep_terminal_sequence := 2 \<rparr>"
  define s' where "s' = s\<lparr> ds_enumeration_passes := [q'] \<rparr>"
  have q: "ep_document_id q = 4" "ep_capability_id q = 5" "ep_channel_id q = 1" "ep_generation q = 0"
    "ep_expires_at q = ENUMERATION_PASS_IDLE_TTL" "ep_retry q = None" "epp_token (ep_current q) = 7"
    "epp_mode (ep_current q) = TokenAfterTail" "ep_terminal_sequence q = 1" by (simp_all add: q_def)
  have unexpired: "0 < ENUMERATION_PASS_IDLE_TTL" "1 < ENUMERATION_PASS_IDLE_TTL"
    by (simp_all add: ENUMERATION_PASS_IDLE_TTL_def)
  have "continuation_window t2 q TokenAfterTail = Inr (Some (1, 2, 0))"
    using t(6) by (simp add: continuation_window_def q)
  moreover have "mint_enumeration_token (\<lambda>_. Some 8) [q] = Inr (Some 8)"
    by (simp add: mint_enumeration_token_def eval_nat_numeral enumeration_pass_uses_token_def q)
  then have "enumerate_advance s 0 7 TokenAfterTail (1, 2, 0) 4035 0 (\<lambda>_. Some 8) = (Inr (EnAuthorized r), s')"
    using page' by (simp add: enumerate_advance_def fields q s'_def q'_def r_def Let_def)
  moreover have "enumeration_pass_contains_token q 7 TokenAfterTail"
    by (simp add: enumeration_pass_contains_token_def q)
  moreover have "token_from (be_encode (7 :: key32)) = Some 7" by (simp add: token_from_def be_decode_encode)
  ultimately have "enumerate_continuation s 1 4 5 (be_encode (7 :: key32)) TokenAfterTail 4035 0 0 (\<lambda>_. Some 8)
      = (Inr (EnAuthorized r), s')"
    using unexpired by (simp add: enumerate_continuation_def fields q)
  moreover have "s\<lparr> ds_enumeration_passes := filter (\<lambda>p. 0 < ep_expires_at p) (ds_enumeration_passes s) \<rparr> = s"
    using unexpired by (simp add: fields q)
  ultimately have first: "enumerate_authorized demo_sha s demo_channel 4 5 6 (EnumAfterTail (be_encode (7 :: key32)))
      4035 0 0 (\<lambda>_. Some 8) = (Inr (EnAuthorized r), s')"
    using may(2) fields(2,4) by (simp add: enumerate_authorized_def demo_channel_def)
  have live: "\<forall>p \<in> set (ds_enumeration_passes s'). 1 < ep_expires_at p"
    using unexpired by (simp add: s'_def q'_def)
  have cursor: "ap_next_cursor r \<noteq> None" by (simp add: r_def)
  from retried_continuation_is_idempotent [OF t(1) run limit disjI2 [OF refl] first cursor live] first
  show ?thesis by (intro exI [of _ s] exI [of _ s'] exI [of _ r]) (simp add: r_def)
qed

end
