(* ===== verification/Request_Handling.thy ===== *)
theory Request_Handling
  imports Broker_Properties
begin

text \<open>
  The request dispatch of the store process, \<open>handle_request\<close> of \<open>renee-stored/src/main.rs\<close>: one
  envelope from a session in, one envelope back, with the store changed in between.  The only
  arm that waits with the store unlocked is the revoke: it is split where it waits for the
  document's emission gate.  The clock and the randomness of a request are given with it.
\<close>

record request_context =
  rq_now :: instant
  rq_later :: instant
  rq_random :: "nat \<Rightarrow> continuation_token option"

text \<open>The \<open>io::Error\<close>s that end a connection.\<close>

datatype handler_error =
    HandlerIo io_error | HandlerStore store_error | HandlerCodec update_codec_error
  | HandlerWouldBlock | HandlerOverhead

type_synonym handler_result = "handler_error + bytes"

definition response :: "envelope \<Rightarrow> u16 \<Rightarrow> bytes \<Rightarrow> handler_result" where
  "response request message_type payload = map_err HandlerIo (encode_body
    \<lparr> ev_correlation_id = ev_correlation_id request, ev_message_type = message_type,
      ev_payload = payload, ev_version = VERSION \<rparr>)"

definition update_error_response :: "envelope \<Rightarrow> update_error_code \<Rightarrow> handler_result" where
  "update_error_response request code = response request UPDATE_ERROR (encode_update_error code)"

definition capability_error_response :: "envelope \<Rightarrow> capability_error_code \<Rightarrow> handler_result" where
  "capability_error_response request code = response request CAPABILITY_ERROR (encode_capability_error code)"

fun control_response :: "envelope \<Rightarrow> u16 \<Rightarrow> store_control_outcome \<Rightarrow> handler_result" where
  "control_response request success StInserted =
    response request success (encode_control_mutation_response ControlInserted)"
| "control_response request success StAlreadyPresent =
    response request success (encode_control_mutation_response ControlAlreadyPresent)"
| "control_response request success StAuthorizationDenied = capability_error_response request CapAuthorizationDenied"
| "control_response request success StIdentifierConflict = capability_error_response request CapIdentifierConflict"
| "control_response request success StRequestConflict = capability_error_response request CapRequestConflict"
| "control_response request success StCounterExhausted = capability_error_response request CapCounterExhausted"
| "control_response request success StLimitExceeded = capability_error_response request CapLimitExceeded"

fun create_response :: "envelope \<Rightarrow> store_create_outcome \<Rightarrow> handler_result" where
  "create_response request StCreateInserted =
    response request CREATE_DOCUMENT_RESPONSE (encode_create_document_response CreateInserted)"
| "create_response request StCreateAlreadyPresent =
    response request CREATE_DOCUMENT_RESPONSE (encode_create_document_response CreateAlreadyPresent)"
| "create_response request StCreateIdentifierConflict = capability_error_response request CapIdentifierConflict"
| "create_response request StCreateAuthorizationDenied = capability_error_response request CapAuthorizationDenied"
| "create_response request StCreateRequestConflict = capability_error_response request CapRequestConflict"
| "create_response request StCreateLimitExceeded = capability_error_response request CapLimitExceeded"

fun accept_response :: "envelope \<Rightarrow> store_accept_outcome \<Rightarrow> handler_result" where
  "accept_response request StAcceptInserted =
    response request ACCEPT_UPDATE_RESPONSE (encode_accept_response AcceptInserted)"
| "accept_response request StAcceptAlreadyPresent =
    response request ACCEPT_UPDATE_RESPONSE (encode_accept_response AcceptAlreadyPresent)"
| "accept_response request StAcceptIdentifierConflict = update_error_response request UpIdentifierConflict"
| "accept_response request StAcceptCounterExhausted = update_error_response request UpCounterExhausted"
| "accept_response request StAcceptLimitExceeded = update_error_response request UpLimitExceeded"
| "accept_response request StAcceptAuthorizationDenied = update_error_response request UpAuthorizationDenied"

section \<open>The arms\<close>

definition handle_create :: "(bytes \<Rightarrow> key32) \<Rightarrow> envelope \<Rightarrow> durable_update_store
    \<Rightarrow> handler_result \<times> durable_update_store" where
  "handle_create sha request s =
    (case decode_create_document_request (ev_payload request) of
       Inl _ \<Rightarrow> (capability_error_response request CapMalformed, s)
     | Inr create \<Rightarrow>
       (case durable_create_document sha s (cr_create_authority_id (cd_create_authority create))
           (cr_authenticator (cd_create_authority create)) (cd_request_id create) (cd_document_id create)
           (ca_capability_id (cd_root create)) (ca_authenticator (cd_root create)) of
          (Inl err, s) \<Rightarrow> (Inl (HandlerStore err), s)
        | (Inr outcome, s) \<Rightarrow> (create_response request outcome, s)))"

definition handle_grant :: "(bytes \<Rightarrow> key32) \<Rightarrow> envelope \<Rightarrow> durable_update_store
    \<Rightarrow> handler_result \<times> durable_update_store" where
  "handle_grant sha request s =
    (case decode_grant_capability_request (ev_payload request) of
       Inl _ \<Rightarrow> (capability_error_response request CapMalformed, s)
     | Inr granting \<Rightarrow>
       (case durable_grant_capability sha s (gc_document_id granting) (ca_capability_id (gc_issuer granting))
           (ca_authenticator (gc_issuer granting)) (gc_request_id granting) (ca_capability_id (gc_descendant granting))
           (ca_authenticator (gc_descendant granting)) (gc_operations granting) of
          (Inl err, s) \<Rightarrow> (Inl (HandlerStore err), s)
        | (Inr outcome, s) \<Rightarrow> (control_response request GRANT_CAPABILITY_RESPONSE outcome, s)))"

text \<open>
  A request is done, or waits for the lock of a gate, with its admission permit, to mutate.
\<close>

datatype handler_step = HandlerDone handler_result | HandlerExcluding nat revoke_capability_request

definition handle_revoke :: "(bytes \<Rightarrow> key32) \<Rightarrow> envelope \<Rightarrow> durable_update_store
    \<Rightarrow> handler_step \<times> durable_update_store" where
  "handle_revoke sha request s =
    (case decode_revoke_capability_request (ev_payload request) of
       Inl _ \<Rightarrow> (HandlerDone (capability_error_response request CapMalformed), s)
     | Inr revoking \<Rightarrow>
       (case preflight_revoke_capability sha (ds_tables s) (rc_document_id revoking)
           (ca_capability_id (rc_issuer revoking)) (ca_authenticator (rc_issuer revoking)) (rc_request_id revoking)
           (rc_target_capability_id revoking) of
          Resolved outcome \<Rightarrow>
            (HandlerDone (control_response request REVOKE_CAPABILITY_RESPONSE outcome), s)
        | RequiresMutation \<Rightarrow>
            let (gate, s) = document_emission_gate (rc_document_id revoking) s in
            (case exclude_admission gate (ds_subscriptions s) of
               Inl _ \<Rightarrow> (HandlerDone (Inl HandlerWouldBlock),
                 s\<lparr> ds_subscriptions := drop_gate gate (ds_subscriptions s) \<rparr>)
             | Inr w \<Rightarrow> (HandlerExcluding gate revoking, s\<lparr> ds_subscriptions := w \<rparr>))))"

text \<open>The rest of the revoke, once the lock of the gate is free: None until then.\<close>

definition excluded_revoke :: "(bytes \<Rightarrow> key32) \<Rightarrow> envelope \<Rightarrow> nat \<Rightarrow> revoke_capability_request
    \<Rightarrow> durable_update_store \<Rightarrow> (handler_result \<times> durable_update_store) option" where
  "excluded_revoke sha request gate revoking s =
    (case exclude_write gate (ds_subscriptions s) of
       None \<Rightarrow> None
     | Some w \<Rightarrow>
       let (revoked, s) = durable_revoke_capability sha (s\<lparr> ds_subscriptions := w \<rparr>) (rc_document_id revoking)
             (ca_capability_id (rc_issuer revoking)) (ca_authenticator (rc_issuer revoking)) (rc_request_id revoking)
             (rc_target_capability_id revoking);
           s = s\<lparr> ds_subscriptions := drop_gate gate (drop_exclusion gate (ds_subscriptions s)) \<rparr> in
       Some (case revoked of Inl err \<Rightarrow> Inl (HandlerStore err)
         | Inr outcome \<Rightarrow> control_response request REVOKE_CAPABILITY_RESPONSE outcome, s))"

definition handle_accept :: "(bytes \<Rightarrow> key32) \<Rightarrow> envelope \<Rightarrow> durable_update_store
    \<Rightarrow> handler_result \<times> durable_update_store" where
  "handle_accept sha request s =
    (case decode_authorized_update_request (ev_payload request) of
       Inl _ \<Rightarrow> (update_error_response request UpMalformed, s)
     | Inr authorized \<Rightarrow>
       (case decode_update_record (au_encoded_record authorized) of
          Inl _ \<Rightarrow> (update_error_response request UpMalformed, s)
        | Inr update \<Rightarrow>
          (case durable_accept sha s (ca_capability_id (au_authority authorized))
              (ca_authenticator (au_authority authorized)) update (au_encoded_record authorized) of
             (Inl err, s) \<Rightarrow> (Inl (HandlerStore err), s)
           | (Inr outcome, s) \<Rightarrow> (accept_response request outcome, s))))"

text \<open>The page limit keeps room for the response prefix with a cursor.\<close>

definition checked_page_limit :: "update_codec_error + nat \<Rightarrow> handler_error + nat" where
  "checked_page_limit overhead = ok_then (map_err HandlerCodec overhead) (\<lambda>overhead.
    if overhead \<le> MAX_APPLICATION_PAYLOAD_LENGTH then Inr (MAX_APPLICATION_PAYLOAD_LENGTH - overhead)
    else Inl HandlerOverhead)"

fun enumerate_start_of :: "enumerate_start \<Rightarrow> store_enumerate_start" where
  "enumerate_start_of enumerate_start.EnumOrigin = store_enumerate_start.EnumOrigin"
| "enumerate_start_of (enumerate_start.EnumContinue encoded) = store_enumerate_start.EnumContinue encoded"
| "enumerate_start_of (enumerate_start.EnumAfterTail encoded) = store_enumerate_start.EnumAfterTail encoded"

definition handle_enumerate :: "(bytes \<Rightarrow> key32) \<Rightarrow> request_context \<Rightarrow> envelope \<Rightarrow> broker_channel
    \<Rightarrow> durable_update_store \<Rightarrow> handler_result \<times> durable_update_store" where
  "handle_enumerate sha c request channel s =
    (case decode_enumerate_request (ev_payload request) of
       Inl _ \<Rightarrow> (update_error_response request UpMalformed, s)
     | Inr enumeration \<Rightarrow>
       (case checked_page_limit (enumerate_response_base_length
           (Some (replicate Wire_Update.ENUMERATION_CONTINUATION_LENGTH 0))) of
          Inl err \<Rightarrow> (Inl err, s)
        | Inr metadata_byte_limit \<Rightarrow>
          (case enumerate_authorized sha s channel (er_document_id enumeration)
              (ca_capability_id (er_authority enumeration)) (ca_authenticator (er_authority enumeration))
              (enumerate_start_of (er_start enumeration)) metadata_byte_limit (rq_now c) (rq_later c) (rq_random c) of
             (Inl err, s) \<Rightarrow> (Inl (HandlerStore err), s)
           | (Inr EnAuthorizationDenied, s) \<Rightarrow> (update_error_response request UpAuthorizationDenied, s)
           | (Inr EnRetiredDocument, s) \<Rightarrow> (update_error_response request UpRetiredDocument, s)
           | (Inr EnInvalidContinuation, s) \<Rightarrow> (update_error_response request UpInvalidOrExpiredContinuation, s)
           | (Inr EnBackpressure, s) \<Rightarrow> (update_error_response request UpBackpressure, s)
           | (Inr (EnAuthorized authorized), s) \<Rightarrow>
             (ok_then (map_err HandlerCodec (encode_enumerate_response
                 \<lparr> pr_has_more = sp_has_more (ap_page authorized), pr_next_cursor = ap_next_cursor authorized,
                   pr_updates = sp_updates (ap_page authorized) \<rparr>))
               (response request ENUMERATE_UPDATES_RESPONSE), s))))"

fun vector_start_of :: "vector_backfill_start \<Rightarrow> store_vector_backfill_start" where
  "vector_start_of VecOrigin = VectorOrigin"
| "vector_start_of (VecContinue cursor) = VectorContinue cursor"

definition handle_vector_backfill :: "(bytes \<Rightarrow> key32) \<Rightarrow> request_context \<Rightarrow> envelope \<Rightarrow> broker_channel
    \<Rightarrow> durable_update_store \<Rightarrow> handler_result \<times> durable_update_store" where
  "handle_vector_backfill sha c request channel s =
    (case decode_vector_backfill_request (ev_payload request) of
       Inl UcInvalidLoroMetadata \<Rightarrow> (update_error_response request UpInvalidLoroMetadata, s)
     | Inl _ \<Rightarrow> (update_error_response request UpMalformed, s)
     | Inr backfill \<Rightarrow>
       (case checked_page_limit (vector_backfill_response_base_length (Some (replicate 32 0))) of
          Inl err \<Rightarrow> (Inl err, s)
        | Inr metadata_byte_limit \<Rightarrow>
          (case vector_backfill_authorized sha s channel (vr_document_id backfill)
              (ca_capability_id (vr_authority backfill)) (ca_authenticator (vr_authority backfill))
              (vr_oplog_version backfill) (vector_start_of (vr_start backfill)) metadata_byte_limit
              (rq_now c) (rq_later c) (rq_random c) of
             (Inl err, s) \<Rightarrow> (Inl (HandlerStore err), s)
           | (Inr VbAuthorizationDenied, s) \<Rightarrow> (update_error_response request UpAuthorizationDenied, s)
           | (Inr VbRetiredDocument, s) \<Rightarrow> (update_error_response request UpRetiredDocument, s)
           | (Inr VbInvalidContinuation, s) \<Rightarrow> (update_error_response request UpInvalidOrExpiredContinuation, s)
           | (Inr VbBackpressure, s) \<Rightarrow> (update_error_response request UpBackpressure, s)
           | (Inr (VbAuthorized authorized), s) \<Rightarrow>
             (ok_then (map_err HandlerCodec (encode_vector_backfill_response
                 \<lparr> pr_has_more = sv_has_more (av_page authorized), pr_next_cursor = av_next_cursor authorized,
                   pr_updates = sv_updates (av_page authorized) \<rparr>))
               (response request VECTOR_BACKFILL_RESPONSE), s))))"

definition handle_fetch :: "(bytes \<Rightarrow> key32) \<Rightarrow> envelope \<Rightarrow> durable_update_store \<Rightarrow> handler_result" where
  "handle_fetch sha request s =
    (case decode_fetch_request (ev_payload request) of
       Inl _ \<Rightarrow> update_error_response request UpMalformed
     | Inr fetch \<Rightarrow>
       (case fetch_authorized sha (ds_tables s) (fr_document_id fetch) (fr_update_id fetch)
           (ca_capability_id (fr_authority fetch)) (ca_authenticator (fr_authority fetch)) of
          Inl err \<Rightarrow> Inl (HandlerStore err)
        | Inr (RdAuthorized (Some payload)) \<Rightarrow>
            ok_then (map_err HandlerCodec (encode_fetch_response payload)) (response request FETCH_UPDATE_RESPONSE)
        | Inr (RdAuthorized None) \<Rightarrow> update_error_response request UpNotFound
        | Inr RdAuthorizationDenied \<Rightarrow> update_error_response request UpAuthorizationDenied))"

section \<open>Dispatch\<close>

definition handler_done :: "handler_result \<times> durable_update_store \<Rightarrow> handler_step \<times> durable_update_store" where
  "handler_done = (\<lambda>(result, s). (HandlerDone result, s))"

definition handle_request :: "(bytes \<Rightarrow> key32) \<Rightarrow> request_context \<Rightarrow> envelope \<Rightarrow> broker_channel
    \<Rightarrow> durable_update_store \<Rightarrow> handler_step \<times> durable_update_store" where
  "handle_request sha c request channel s =
    (if ev_version request \<noteq> VERSION then (HandlerDone (update_error_response request UpMalformed), s)
     else if ev_message_type request = CREATE_DOCUMENT then handler_done (handle_create sha request s)
     else if ev_message_type request = GRANT_CAPABILITY then handler_done (handle_grant sha request s)
     else if ev_message_type request = REVOKE_CAPABILITY then handle_revoke sha request s
     else if ev_message_type request = ACCEPT_UPDATE then handler_done (handle_accept sha request s)
     else if ev_message_type request = ENUMERATE_UPDATES
       then handler_done (handle_enumerate sha c request channel s)
     else if ev_message_type request = VECTOR_BACKFILL
       then handler_done (handle_vector_backfill sha c request channel s)
     else if ev_message_type request = FETCH_UPDATE then (HandlerDone (handle_fetch sha request s), s)
     else (HandlerDone (update_error_response request UpMalformed), s))"

end
