(* ===== verification/Request_Safety.thy ===== *)
theory Request_Safety
  imports Request_Handling
begin

text \<open>
  Every reply of the store process is well typed: the pages of an enumeration or a backfill
  always fit into one envelope, also when they are repeated from a retry, and each request is
  answered by its own response or by its own error message, in a form the client's decoder takes.
\<close>

section \<open>Pages fit\<close>

definition page_within :: "nat \<Rightarrow> update_metadata list \<Rightarrow> bool" where
  "page_within limit ms \<longleftrightarrow> list_all metadata_ok ms \<and> Store_Selection.page_bytes ms \<le> limit"

lemma page_within_add:
  "page_within limit ms \<Longrightarrow> metadata_ok m \<Longrightarrow> Store_Selection.page_bytes ms + metadata_encoded_length m \<le> limit \<Longrightarrow>
    page_within limit (ms @ [m])"
  by (simp add: page_within_def Store_Selection.page_bytes_def)

lemma stored_metadata_ok:
  assumes "decode_stored_record rec = Inr update" "store_metadata update = Inr m"
  shows "metadata_ok m"
  using assms decode_update_record_iff [of rec update]
  by (auto simp add: decode_stored_record_def store_metadata_def metadata_ok_def update_ok_def
      map_err_def split: if_splits sum.splits)

lemma enumerate_loop_within:
  assumes "enumerate_loop n t d lower limit ordinal (Store_Selection.page_bytes acc) acc = Inr (k, ms)"
    and "page_within limit acc"
  shows "page_within limit ms \<and> length ms \<le> length acc + n"
  using assms
proof (induction n arbitrary: ordinal acc)
  case (Suc n)
  obtain q u rec update m where step:
    "Option.bind (checked_add lower ordinal) (\<lambda>s. checked_add s 1) = Some q"
    "select_update_at t d q = Some (u, rec)" "decode_stored_record rec = Inr update"
    "iu_document_id update = d" "iu_update_id update = u" "store_metadata update = Inr m"
    using Suc.prems(1)
    by (auto simp add: ok_then_Inr_iff ok_or_def simp del: bind_split split: option.splits if_splits)
  have m: "metadata_ok m" by (rule stored_metadata_ok [OF step(3,6)])
  let ?used = "Store_Selection.page_bytes acc + metadata_encoded_length m"
  have used: "?used = Store_Selection.page_bytes (acc @ [m])"
    by (simp add: Store_Selection.page_bytes_def)
  show ?case
  proof (cases "limit < ?used")
    case True
    then show ?thesis using Suc.prems step by (simp add: ok_or_def)
  next
    case False
    then obtain j where j: "checked_add ordinal 1 = Some j"
      "enumerate_loop n t d lower limit j ?used (acc @ [m]) = Inr (k, ms)"
      using Suc.prems(1) step by (auto simp add: ok_or_def ok_then_Inr_iff split: option.splits)
    then show ?thesis
      using Suc.IH [of j "acc @ [m]"] page_within_add [OF Suc.prems(2) m] False unfolding used by auto
  qed
qed simp

lemma enumerate_in_within:
  assumes "enumerate_in t d lower terminal ordinal limit = Inr page"
  shows "page_within limit (sp_updates page)" "length (sp_updates page) \<le> 64"
proof -
  let ?w = "terminal - lower"
  let ?stop = "min (saturating_add ordinal MAX_ENUMERATION_SCAN_RECORDS) ?w"
  obtain k ms where loop: "enumerate_loop (unat ?stop - unat ordinal) t d lower limit ordinal 0 [] = Inr (k, ms)"
    "sp_updates page = ms"
    using assms by (auto simp add: enumerate_in_def Let_def ok_then_Inr_iff split: if_splits)
  have "unat (saturating_add ordinal MAX_ENUMERATION_SCAN_RECORDS) \<le> unat ordinal + 64"
  proof (cases "checked_add ordinal MAX_ENUMERATION_SCAN_RECORDS")
    case None
    have "unat (- 1 :: u64) < 2 ^ 64" using unsigned_less [of "- 1 :: u64", where 'a = nat] by simp
    moreover have "2 ^ 64 \<le> unat ordinal + 64"
      using None checked_add_Some_unat [of ordinal MAX_ENUMERATION_SCAN_RECORDS "ordinal + 64"]
      by (simp add: MAX_ENUMERATION_SCAN_RECORDS_def)
    ultimately show ?thesis by (simp only: saturating_add_def None option.case)
  next
    case (Some c)
    then show ?thesis
      using checked_add_unat [OF Some] by (simp add: saturating_add_def MAX_ENUMERATION_SCAN_RECORDS_def)
  qed
  then have "unat ?stop - unat ordinal \<le> 64" by (auto simp add: min_def word_le_nat_alt)
  moreover have "page_within limit ms \<and> length ms \<le> unat ?stop - unat ordinal"
    using enumerate_loop_within [of "unat ?stop - unat ordinal" t d lower limit ordinal "[]" k ms] loop(1)
    by (simp add: page_within_def Store_Selection.page_bytes_def)
  ultimately show "page_within limit (sp_updates page)" "length (sp_updates page) \<le> 64"
    using loop(2) by simp_all
qed

lemma vector_loop_within:
  assumes "vector_loop d version limit rows (Store_Selection.page_bytes acc) acc seen n = Inr page"
    and "page_within limit acc"
  shows "page_within limit (sv_updates page) \<and> length (sv_updates page) \<le> length acc + length rows"
  using assms
proof (induction rows arbitrary: acc seen n)
  case (Cons row rows)
  obtain q u rec where row: "row = (q, u, rec)" by (cases row)
  show ?case
  proof (cases "n = MAX_VECTOR_SCAN_RECORDS")
    case True
    then show ?thesis using Cons.prems by (auto simp add: row)
  next
    case False
    obtain update where update: "decode_stored_record rec = Inr update" "iu_document_id update = d"
      using Cons.prems(1) False by (auto simp add: row ok_then_Inr_iff split: if_splits)
    show ?thesis
    proof (cases "beyond_version version (iu_public_loro_ranges update)")
      case skip: False
      then show ?thesis
        using Cons.prems False update Cons.IH [of acc "Some q" "n + 1"] by (simp add: row)
    next
      case True
      then obtain m where m: "store_metadata update = Inr m"
        using Cons.prems(1) False update by (auto simp add: row ok_then_Inr_iff)
      have ok: "metadata_ok m" by (rule stored_metadata_ok [OF update(1) m])
      let ?used = "Store_Selection.page_bytes acc + metadata_encoded_length m"
      have used: "?used = Store_Selection.page_bytes (acc @ [m])"
        by (simp add: Store_Selection.page_bytes_def)
      show ?thesis
      proof (cases "limit < ?used")
        case fits: False
        then have "vector_loop d version limit rows ?used (acc @ [m]) (Some q) (n + 1) = Inr page"
          using Cons.prems(1) False True update m by (simp add: row)
        then show ?thesis
          using Cons.IH [of "acc @ [m]" "Some q" "n + 1"] page_within_add [OF Cons.prems(2) ok] fits
          unfolding used by auto
      qed (use Cons.prems False True update m in \<open>auto simp add: row\<close>)
    qed
  qed
qed auto

lemma vector_backfill_in_within:
  assumes "vector_backfill_in t d position terminal version limit = Inr page"
  shows "page_within limit (sv_updates page)" "length (sv_updates page) \<le> 65"
proof -
  obtain rows where rows: "vector_loop d version limit rows 0 [] None 0 = Inr page" "length rows \<le> 65"
    using assms by (auto simp add: vector_backfill_in_def MAX_VECTOR_SCAN_RECORDS_def split: if_splits)
  then show "page_within limit (sv_updates page)" "length (sv_updates page) \<le> 65"
    using vector_loop_within [of d version limit rows "[]" None 0 page]
    by (simp_all add: page_within_def Store_Selection.page_bytes_def)
qed

section \<open>Pages of a broker\<close>

definition enumeration_reply :: "authorized_stored_update_page \<Rightarrow> enumerate_response" where
  "enumeration_reply r = \<lparr> pr_has_more = sp_has_more (ap_page r), pr_next_cursor = ap_next_cursor r,
    pr_updates = sp_updates (ap_page r) \<rparr>"

definition vector_reply :: "authorized_vector_backfill_page \<Rightarrow> vector_backfill_response" where
  "vector_reply r = \<lparr> pr_has_more = sv_has_more (av_page r), pr_next_cursor = av_next_cursor r,
    pr_updates = sv_updates (av_page r) \<rparr>"

definition enumeration_fits :: "authorized_stored_update_page \<Rightarrow> bool" where
  "enumeration_fits r \<longleftrightarrow> page_ok (enumeration_reply r) \<and> enumerate_shape (enumeration_reply r)
    \<and> page_cursor_ok (enumeration_reply r) \<and> page_fits (enumeration_reply r)"

definition vector_fits :: "authorized_vector_backfill_page \<Rightarrow> bool" where
  "vector_fits r \<longleftrightarrow> page_ok (vector_reply r) \<and> vector_shape (vector_reply r)
    \<and> page_cursor_ok (vector_reply r) \<and> page_fits (vector_reply r)"

text \<open>The limit that the requests pass on, and the room that it leaves.\<close>

definition REPLY_PAGE_LIMIT :: nat where "REPLY_PAGE_LIMIT = 4035"

lemma checked_page_limits:
  "checked_page_limit (enumerate_response_base_length
    (Some (replicate Wire_Update.ENUMERATION_CONTINUATION_LENGTH 0))) = Inr REPLY_PAGE_LIMIT"
  "checked_page_limit (vector_backfill_response_base_length (Some (replicate 32 0))) = Inr REPLY_PAGE_LIMIT"
  "MAX_ENUMERABLE_METADATA_LENGTH \<le> REPLY_PAGE_LIMIT"
  by (simp_all add: checked_page_limit_def enumerate_response_base_length_def
      vector_backfill_response_base_length_def cursor_length_def vector_cursor_length_def
      update_length_defs REPLY_PAGE_LIMIT_def)

lemma page_within_fits:
  assumes "page_within REPLY_PAGE_LIMIT (pr_updates r)" "length (pr_updates r) \<le> 65" "page_cursor_ok r"
  shows "page_ok r" "page_fits r"
proof -
  show "page_ok r" using assms(1) by (simp add: page_within_def page_ok_def)
  then show "page_fits r"
    using assms page_ok_few
    by (auto simp add: page_fits_def length_page_bytes page_within_def Store_Selection.page_bytes_def
        REPLY_PAGE_LIMIT_def update_length_defs page_cursor_ok_def cursor_bytes_def split: option.splits)
qed

lemma enumeration_page_fits:
  assumes "enumerate_in t d lower terminal ordinal REPLY_PAGE_LIMIT = Inr page" "sp_updates page \<noteq> []"
  shows "enumeration_fits \<lparr> ap_page = page, ap_next_cursor = Some (be_encode (token :: key32)) \<rparr>"
  using enumerate_in_within [OF assms(1)] assms(2) page_within_fits
  by (simp add: enumeration_fits_def enumeration_reply_def enumerate_shape_def page_cursor_ok_def)

lemma empty_page_fits: "enumeration_fits \<lparr> ap_page = empty_stored_update_page, ap_next_cursor = None \<rparr>"
  by (simp add: enumeration_fits_def enumeration_reply_def enumerate_shape_def page_cursor_ok_def
      empty_stored_update_page_def page_ok_def page_fits_def length_page_bytes cursor_bytes_def
      update_length_defs)

lemma vector_page_fits:
  assumes "vector_backfill_in t d position terminal version REPLY_PAGE_LIMIT = Inr page"
    and "next = (if sv_has_more page then Some (be_encode (token :: key32)) else None)"
  shows "vector_fits \<lparr> av_page = page, av_next_cursor = next \<rparr>"
  using vector_backfill_in_within [OF assms(1)] assms(2) page_within_fits
  by (simp add: vector_fits_def vector_reply_def vector_shape_def page_cursor_ok_def)

lemma enumeration_fits_encodes:
  "enumeration_fits r \<Longrightarrow> \<exists>payload. encode_enumerate_response (enumeration_reply r) = Inr payload
    \<and> length payload \<le> MAX_APPLICATION_PAYLOAD_LENGTH
    \<and> decode_enumerate_response payload = Inr (enumeration_reply r)"
  unfolding enumeration_fits_def by (auto simp add: decode_enumerate_response_iff
      encode_enumerate_response_iff page_fits_def)

lemma vector_fits_encodes:
  "vector_fits r \<Longrightarrow> \<exists>payload. encode_vector_backfill_response (vector_reply r) = Inr payload
    \<and> length payload \<le> MAX_APPLICATION_PAYLOAD_LENGTH
    \<and> decode_vector_backfill_response payload = Inr (vector_reply r)"
  unfolding vector_fits_def by (auto simp add: decode_vector_backfill_response_iff
      encode_vector_backfill_response_iff page_fits_def)

section \<open>Replies\<close>

text \<open>What the client of a request of type \<open>asked\<close> accepts as its answer.\<close>

definition answers :: "u16 \<Rightarrow> u16 \<Rightarrow> bytes \<Rightarrow> bool" where
  "answers asked kind payload \<longleftrightarrow>
    (if asked = CREATE_DOCUMENT then
       kind = CREATE_DOCUMENT_RESPONSE \<and> \<not> isl (decode_create_document_response payload)
       \<or> kind = CAPABILITY_ERROR \<and> \<not> isl (decode_capability_error payload)
     else if asked \<in> {GRANT_CAPABILITY, REVOKE_CAPABILITY} then
       kind = asked + 1 \<and> \<not> isl (decode_control_mutation_response payload)
       \<or> kind = CAPABILITY_ERROR \<and> \<not> isl (decode_capability_error payload)
     else kind = UPDATE_ERROR \<and> \<not> isl (decode_update_error payload)
       \<or> asked = ACCEPT_UPDATE \<and> kind = ACCEPT_UPDATE_RESPONSE \<and> \<not> isl (decode_accept_response payload)
       \<or> asked = ENUMERATE_UPDATES \<and> kind = ENUMERATE_UPDATES_RESPONSE
         \<and> \<not> isl (decode_enumerate_response payload)
       \<or> asked = VECTOR_BACKFILL \<and> kind = VECTOR_BACKFILL_RESPONSE
         \<and> \<not> isl (decode_vector_backfill_response payload)
       \<or> asked = FETCH_UPDATE \<and> kind = FETCH_UPDATE_RESPONSE \<and> \<not> isl (decode_fetch_response payload))"

text \<open>A request of another version is only ever told that it is malformed.\<close>

definition typed_reply :: "envelope \<Rightarrow> bytes \<Rightarrow> bool" where
  "typed_reply request body \<longleftrightarrow> (case decode_body body of
      Inl _ \<Rightarrow> False
    | Inr reply \<Rightarrow> ev_correlation_id reply = ev_correlation_id request \<and> ev_version reply = VERSION
        \<and> (if ev_version request = VERSION
           then answers (ev_message_type request) (ev_message_type reply) (ev_payload reply)
           else ev_message_type reply = UPDATE_ERROR \<and> decode_update_error (ev_payload reply) = Inr UpMalformed))"

lemma typed_response:
  assumes "length payload \<le> MAX_APPLICATION_PAYLOAD_LENGTH"
    and "ev_version request = VERSION \<Longrightarrow> answers (ev_message_type request) kind payload"
    and "ev_version request \<noteq> VERSION \<Longrightarrow> kind = UPDATE_ERROR \<and> decode_update_error payload = Inr UpMalformed"
  obtains body where "response request kind payload = Inr body" "typed_reply request body"
proof -
  let ?e = "\<lparr> ev_correlation_id = ev_correlation_id request, ev_message_type = kind,
    ev_payload = payload, ev_version = VERSION \<rparr>"
  obtain body where body: "encode_body ?e = Inr body" using assms(1) by (auto simp add: encode_body_Inr_iff)
  then have "decode_body body = Inr ?e" by (simp add: decode_body_iff)
  then have "typed_reply request body" using assms(2,3) by (simp add: typed_reply_def)
  then show thesis using that body by (simp add: response_def map_err_def)
qed

lemmas one_byte_codes = decode_create_document_response_def decode_control_mutation_response_def
  decode_capability_error_def decode_update_error_def decode_accept_response_def
  encode_create_document_response_def encode_control_mutation_response_def
  encode_capability_error_def encode_update_error_def encode_accept_response_def

lemma one_byte_replies [simp]:
  "decode_create_document_response (encode_create_document_response created) = Inr created"
  "decode_control_mutation_response (encode_control_mutation_response mutated) = Inr mutated"
  "decode_capability_error (encode_capability_error refused) = Inr refused"
  "decode_update_error (encode_update_error failed) = Inr failed"
  "decode_accept_response (encode_accept_response accepted) = Inr accepted"
  using create_outcome.payload.dec_iff [of _ created] control_outcome.payload.dec_iff [of _ mutated]
    capability_error.payload.dec_iff [of _ refused] update_error.payload.dec_iff [of _ failed]
    accept_outcome.payload.dec_iff [of _ accepted]
  by (simp_all add: one_byte_codes)

section \<open>Passes keep pages that fit\<close>

definition retries_ok :: "durable_update_store \<Rightarrow> bool" where
  "retries_ok s \<longleftrightarrow>
    list_all (\<lambda>p. pred_option (\<lambda>r. enumeration_fits (epr_response r)) (ep_retry p)) (ds_enumeration_passes s)
    \<and> list_all (\<lambda>p. pred_option (\<lambda>r. vector_fits (vpr_response r)) (vp_retry p)) (ds_vector_passes s)"

lemma retries_subset:
  assumes "retries_ok s" "set (ds_enumeration_passes s') \<subseteq> set (ds_enumeration_passes s)"
    "set (ds_vector_passes s') \<subseteq> set (ds_vector_passes s)"
  shows "retries_ok s'"
  using assms by (auto simp add: retries_ok_def list_all_iff)

lemma set_swap_remove: "set (swap_remove i xs) \<subseteq> set xs"
proof (cases "xs = []")
  case False
  have "set (swap_remove i xs) \<subseteq> set (xs[i := List.last xs])"
    unfolding swap_remove_def by (auto dest: in_set_butlastD)
  also have "\<dots> \<subseteq> set xs" using False set_update_subset_insert by fastforce
  finally show ?thesis .
qed (simp add: swap_remove_def)

lemma enumeration_retry_fits:
  "retries_ok s \<Longrightarrow> p \<in> set (ds_enumeration_passes s) \<Longrightarrow> ep_retry p = Some r \<Longrightarrow> enumeration_fits (epr_response r)"
  by (auto simp add: retries_ok_def list_all_iff)

lemma vector_retry_fits:
  "retries_ok s \<Longrightarrow> p \<in> set (ds_vector_passes s) \<Longrightarrow> vp_retry p = Some r \<Longrightarrow> vector_fits (vpr_response r)"
  by (auto simp add: retries_ok_def list_all_iff)

text \<open>The result of an enumeration or a backfill, with the passes it leaves.\<close>

definition enumeration_good :: "authorized_stored_update_page store_enumerate_outcome store_result \<Rightarrow> bool" where
  "enumeration_good result \<longleftrightarrow> retries_ok (snd result)
    \<and> (\<forall>r. fst result = Inr (EnAuthorized r) \<longrightarrow> enumeration_fits r)"

definition vector_good :: "authorized_vector_backfill_page store_vector_backfill_outcome store_result \<Rightarrow> bool" where
  "vector_good result \<longleftrightarrow> retries_ok (snd result)
    \<and> (\<forall>r. fst result = Inr (VbAuthorized r) \<longrightarrow> vector_fits r)"

lemma retries_enumeration_passes:
  "retries_ok s \<Longrightarrow> (\<And>p. p \<in> set ps \<Longrightarrow> p \<in> set (ds_enumeration_passes s)
      \<or> pred_option (\<lambda>r. enumeration_fits (epr_response r)) (ep_retry p)) \<Longrightarrow>
    retries_ok (s\<lparr> ds_enumeration_passes := ps \<rparr>)"
  by (auto simp add: retries_ok_def list_all_iff)

lemma retries_vector_passes:
  "retries_ok s \<Longrightarrow> (\<And>p. p \<in> set ps \<Longrightarrow> p \<in> set (ds_vector_passes s)
      \<or> pred_option (\<lambda>r. vector_fits (vpr_response r)) (vp_retry p)) \<Longrightarrow>
    retries_ok (s\<lparr> ds_vector_passes := ps \<rparr>)"
  by (auto simp add: retries_ok_def list_all_iff)

lemma set_updateD: "x \<in> set (xs[i := y]) \<Longrightarrow> x \<in> set xs \<or> x = y"
  using set_update_subset_insert by fastforce

lemma swap_remove_enumeration:
  "retries_ok s \<Longrightarrow> retries_ok (s\<lparr> ds_enumeration_passes := swap_remove i (ds_enumeration_passes s) \<rparr>)"
  by (erule retries_subset) (simp_all add: set_swap_remove)

lemma swap_remove_vector:
  "retries_ok s \<Longrightarrow> retries_ok (s\<lparr> ds_vector_passes := swap_remove i (ds_vector_passes s) \<rparr>)"
  by (erule retries_subset) (simp_all add: set_swap_remove)

lemma enumerate_advance_good:
  assumes "retries_ok s"
  shows "enumeration_good (enumerate_advance s i token mode window REPLY_PAGE_LIMIT later rnd)"
proof -
  obtain lower terminal ordinal where window: "window = (lower, terminal, ordinal)" by (cases window)
  let ?pass = "ds_enumeration_passes s ! i"
  show ?thesis
  proof (cases "enumerate_in (ds_tables s) (ep_document_id ?pass) lower terminal ordinal REPLY_PAGE_LIMIT")
    case (Inl err)
    then show ?thesis
      using assms swap_remove_enumeration [OF assms]
      by (cases err) (simp_all add: enumerate_advance_def window enumeration_good_def)
  next
    case (Inr page)
    show ?thesis
    proof (cases "sp_updates page \<noteq> [] \<and> (\<exists>token. mint_enumeration_token rnd (ds_enumeration_passes s) = Inr (Some token))")
      case False
      then show ?thesis
        using Inr assms
        by (auto simp add: enumerate_advance_def window enumeration_good_def split: sum.split option.split)
    next
      case True
      then obtain new where new: "mint_enumeration_token rnd (ds_enumeration_passes s) = Inr (Some new)" by blast
      note fits = enumeration_page_fits [OF Inr, of new]
      show ?thesis
        using True fits new Inr assms
        by (auto simp add: enumerate_advance_def window enumeration_good_def Let_def
            intro!: retries_enumeration_passes dest!: set_updateD)
    qed
  qed
qed

lemma enumerate_continuation_good:
  assumes "retries_ok s"
  shows "enumeration_good (enumerate_continuation s channel_id d c encoded mode REPLY_PAGE_LIMIT now later rnd)"
proof -
  have retry: "enumeration_fits (epr_response r)"
    if "find_position P (ds_enumeration_passes s) = Some i" "ep_retry (ds_enumeration_passes s ! i) = Some r" for P i r
    using enumeration_retry_fits [OF assms nth_mem] find_position_Some that by blast
  have other: "enumeration_good (Inr EnInvalidContinuation, s)"
    "enumeration_good (Inr (EnAuthorized \<lparr> ap_page = empty_stored_update_page, ap_next_cursor = None \<rparr>), s)"
    using assms by (simp_all add: enumeration_good_def empty_page_fits)
  show ?thesis
  proof (cases "token_from encoded")
    case (Some token)
    show ?thesis
    proof (cases "find_position (\<lambda>p. enumeration_pass_contains_token p token mode) (ds_enumeration_passes s)")
      case found: (Some i)
      have again: "enumeration_good (Inr (EnAuthorized (epr_response r)), s)"
        if "ep_retry (ds_enumeration_passes s ! i) = Some r" for r
        using retry [OF found that] assms by (simp add: enumeration_good_def)
      show ?thesis
        using other again enumerate_advance_good [OF assms, of i token mode _ later rnd]
        by (simp add: enumerate_continuation_def Some found Let_def split: option.split sum.split unit.split)
    qed (simp add: enumerate_continuation_def Some other)
  qed (simp add: enumerate_continuation_def other)
qed

lemma retries_fresh:
  "retries_ok (s\<lparr> ds_enumeration_passes := eps \<rparr>) \<Longrightarrow> ep_retry p = None \<Longrightarrow>
    retries_ok (s\<lparr> ds_enumeration_passes := eps @ [p] \<rparr>)"
  "retries_ok (s\<lparr> ds_vector_passes := vps \<rparr>) \<Longrightarrow> vp_retry q = None \<Longrightarrow>
    retries_ok (s\<lparr> ds_vector_passes := vps @ [q] \<rparr>)"
  by (simp_all add: retries_ok_def)

lemma enumerate_origin_good:
  assumes "retries_ok s"
  shows "enumeration_good (enumerate_origin s channel_id d c REPLY_PAGE_LIMIT now rnd)"
proof -
  let ?s = "s\<lparr> ds_enumeration_passes := filter (\<lambda>p. ep_channel_id p \<noteq> channel_id
      \<or> ep_document_id p \<noteq> d \<or> ep_capability_id p \<noteq> c) (ds_enumeration_passes s) \<rparr>"
  have s: "retries_ok ?s" by (rule retries_subset [OF assms]) auto
  show ?thesis
  proof (cases "high_water_sequence_in (ds_tables s) d")
    case None
    then show ?thesis using s by (simp add: enumerate_origin_def enumeration_good_def empty_page_fits Let_def)
  next
    case (Some terminal)
    show ?thesis
    proof (cases "enumerate_in (ds_tables s) d ORIGIN terminal 0 REPLY_PAGE_LIMIT")
      case (Inl err)
      then show ?thesis using s Some by (simp add: enumerate_origin_def enumeration_good_def Let_def)
    next
      case (Inr page)
      note fits = enumeration_page_fits [OF Inr]
      show ?thesis
        using s Some Inr fits
        by (simp add: enumerate_origin_def enumeration_good_def retries_fresh Let_def split: sum.split option.split)
    qed
  qed
qed

lemma enumerate_authorized_good:
  assumes "retries_ok s"
  shows "enumeration_good (enumerate_authorized sha s channel d c a start REPLY_PAGE_LIMIT now later rnd)"
proof -
  have "retries_ok (s\<lparr> ds_enumeration_passes := filter (\<lambda>p. ep_expires_at p > now) (ds_enumeration_passes s) \<rparr>)"
    by (rule retries_subset [OF assms]) auto
  then show ?thesis
    using assms
    by (cases start)
      (auto simp add: enumerate_authorized_def Let_def enumerate_origin_good enumerate_continuation_good
        split: document_authorization.split simp: enumeration_good_def [of "(Inr _, s)"])
qed

lemma vector_advance_good:
  assumes "retries_ok s"
  shows "vector_good (vector_advance s i token current REPLY_PAGE_LIMIT later rnd)"
proof -
  let ?pass = "ds_vector_passes s ! i"
  show ?thesis
  proof (cases "vector_backfill_in (ds_tables s) (vp_document_id ?pass) (vpp_position current)
      (vp_terminal_sequence ?pass) (vp_oplog_version ?pass) REPLY_PAGE_LIMIT")
    case (Inl err)
    then show ?thesis
      using assms swap_remove_vector [OF assms]
      by (cases err) (simp_all add: vector_advance_def vector_good_def)
  next
    case (Inr page)
    note fits = vector_page_fits [OF Inr refl]
    show ?thesis
      using Inr fits assms
      by (auto simp add: vector_advance_def vector_good_def Let_def split: sum.split option.split
          intro!: retries_vector_passes dest!: set_updateD)
  qed
qed

lemma vector_continuation_good:
  assumes "retries_ok s"
  shows "vector_good (vector_continuation s channel_id d c version encoded REPLY_PAGE_LIMIT now later rnd)"
proof -
  have other: "vector_good (Inr VbInvalidContinuation, s)" using assms by (simp add: vector_good_def)
  show ?thesis
  proof (cases "token_from encoded")
    case (Some token)
    show ?thesis
    proof (cases "find_position (\<lambda>p. vector_pass_contains_token p token) (ds_vector_passes s)")
      case found: (Some i)
      have again: "vector_good (Inr (VbAuthorized (vpr_response r)), s)"
        if "vp_retry (ds_vector_passes s ! i) = Some r" for r
        using vector_retry_fits [OF assms nth_mem that] find_position_Some [OF found] assms
        by (simp add: vector_good_def)
      show ?thesis
        using other again vector_advance_good [OF assms, of i token _ later rnd]
        by (simp add: vector_continuation_def Some found Let_def split: option.split)
    qed (simp add: vector_continuation_def Some other)
  qed (simp add: vector_continuation_def other)
qed

lemma vector_origin_good:
  assumes "retries_ok s"
  shows "vector_good (vector_origin s channel_id d c version REPLY_PAGE_LIMIT now rnd)"
proof (cases "high_water_sequence_in (ds_tables s) d")
  case None
  have "vector_fits \<lparr> av_page = \<lparr> sv_has_more = False, sv_last_examined_sequence = None, sv_updates = [] \<rparr>,
      av_next_cursor = None \<rparr>"
    by (simp add: vector_fits_def vector_reply_def vector_shape_def page_cursor_ok_def page_ok_def
        page_fits_def length_page_bytes cursor_bytes_def update_length_defs)
  then show ?thesis using assms None by (simp add: vector_origin_def vector_good_def)
next
  case (Some terminal)
  let ?s = "s\<lparr> ds_vector_passes := filter (\<lambda>p. vp_channel_id p \<noteq> channel_id \<or> vp_document_id p \<noteq> d
      \<or> vp_capability_id p \<noteq> c \<or> vp_oplog_version p \<noteq> version) (ds_vector_passes s) \<rparr>"
  have s: "retries_ok ?s" by (rule retries_subset [OF assms]) auto
  show ?thesis
  proof (cases "vector_backfill_in (ds_tables s) d ORIGIN terminal version REPLY_PAGE_LIMIT")
    case (Inl err)
    then show ?thesis using assms Some by (simp add: vector_origin_def vector_good_def)
  next
    case (Inr page)
    note fits = vector_page_fits [OF Inr refl]
    show ?thesis
      using s assms Some Inr fits
      by (cases "sv_has_more page")
        (simp_all add: vector_origin_def vector_good_def retries_fresh Let_def split: sum.split option.split)
  qed
qed

lemma vector_backfill_authorized_good:
  assumes "retries_ok s"
  shows "vector_good (vector_backfill_authorized sha s channel d c a version start REPLY_PAGE_LIMIT now later rnd)"
proof -
  have "retries_ok (s\<lparr> ds_vector_passes := filter (\<lambda>p. vp_expires_at p > now) (ds_vector_passes s) \<rparr>)"
    by (rule retries_subset [OF assms]) auto
  then show ?thesis
    using assms
    by (cases start)
      (auto simp add: vector_backfill_authorized_def Let_def vector_origin_good vector_continuation_good
        split: document_authorization.split simp: vector_good_def [of "(Inr _, s)"])
qed


section \<open>Requests of a server\<close>

text \<open>
  The server invariant: the broker's, with retries that fit.  Requests at the limit that the
  handlers pass on keep it.
\<close>

definition server_ok :: "(bytes \<Rightarrow> key32) \<Rightarrow> durable_update_store \<Rightarrow> bool" where
  "server_ok sha s \<longleftrightarrow> broker_ok sha s \<and> retries_ok s"

lemma retries_frame:
  "retries_ok s \<Longrightarrow> ds_enumeration_passes s' = ds_enumeration_passes s \<Longrightarrow>
    ds_vector_passes s' = ds_vector_passes s \<Longrightarrow> retries_ok s'"
  by (simp add: retries_ok_def)

lemma gates_only_ok:
  assumes "server_ok sha s" "w = (ds_subscriptions s)\<lparr> rg_gates := gates \<rparr>"
  shows "server_ok sha (s\<lparr> ds_subscriptions := w \<rparr>)"
proof -
  have "broker_ok sha (s\<lparr> ds_subscriptions := w \<rparr>)"
  proof (rule registry_only_ok)
    show "broker_ok sha s" using assms(1) by (simp add: server_ok_def)
    then show "registry_ok w" using broker_okD(2) by (simp add: assms(2))
    show "live w \<subseteq> live (ds_subscriptions s)" by (simp add: assms(2) live_def channel_upgrades_def)
  qed
  then show ?thesis using assms(1) retries_frame by (auto simp add: server_ok_def)
qed

lemma drop_gate_ok: "server_ok sha s \<Longrightarrow> server_ok sha (s\<lparr> ds_subscriptions := drop_gate g (ds_subscriptions s) \<rparr>)"
  by (rule gates_only_ok) (auto simp add: drop_gate_def)

lemma drop_exclusion_ok:
  "server_ok sha s \<Longrightarrow> server_ok sha (s\<lparr> ds_subscriptions := drop_exclusion g (ds_subscriptions s) \<rparr>)"
  by (rule gates_only_ok) (auto simp add: drop_exclusion_def set_gate_def Let_def)

lemma exclude_admission_ok:
  "server_ok sha s \<Longrightarrow> exclude_admission g (ds_subscriptions s) = Inr w \<Longrightarrow>
    server_ok sha (s\<lparr> ds_subscriptions := w \<rparr>)"
  by (rule gates_only_ok) (auto simp add: exclude_admission_def set_gate_def Let_def split: if_splits)

lemma exclude_write_ok:
  "server_ok sha s \<Longrightarrow> exclude_write g (ds_subscriptions s) = Some w \<Longrightarrow>
    server_ok sha (s\<lparr> ds_subscriptions := w \<rparr>)"
  by (rule gates_only_ok) (auto simp add: exclude_write_def set_gate_def Let_def split: if_splits)

text \<open>Everything but a page request only drops passes.\<close>

lemma durable_passes:
  "set (ds_enumeration_passes (snd (durable_create_document sha s authority ca req d c a))) \<subseteq> set (ds_enumeration_passes s)"
  "set (ds_vector_passes (snd (durable_create_document sha s authority ca req d c a))) \<subseteq> set (ds_vector_passes s)"
  "set (ds_enumeration_passes (snd (durable_grant_capability sha s d issuer ia req c a ops))) \<subseteq> set (ds_enumeration_passes s)"
  "set (ds_vector_passes (snd (durable_grant_capability sha s d issuer ia req c a ops))) \<subseteq> set (ds_vector_passes s)"
  "set (ds_enumeration_passes (snd (durable_revoke_capability sha s d issuer ia req target))) \<subseteq> set (ds_enumeration_passes s)"
  "set (ds_vector_passes (snd (durable_revoke_capability sha s d issuer ia req target))) \<subseteq> set (ds_vector_passes s)"
  "set (ds_enumeration_passes (snd (durable_accept sha s c a update rec))) \<subseteq> set (ds_enumeration_passes s)"
  "set (ds_vector_passes (snd (durable_accept sha s c a update rec))) \<subseteq> set (ds_vector_passes s)"
  by (auto simp add: durable_create_document_def durable_grant_capability_def durable_revoke_capability_def
      durable_accept_def Let_def split: sum.splits store_control_outcome.splits store_accept_outcome.splits)

lemma server_create_ok: "server_ok sha s \<Longrightarrow> server_ok sha (snd (durable_create_document sha s authority ca req d c a))"
  unfolding server_ok_def
  by (simp add: create_keeps_broker_ok retries_subset [OF _ durable_passes(1) durable_passes(2)])

lemma server_grant_ok:
  "server_ok sha s \<Longrightarrow> canonical_ops ops \<Longrightarrow>
    server_ok sha (snd (durable_grant_capability sha s d issuer ia req c a ops))"
  unfolding server_ok_def
  by (simp add: grant_keeps_broker_ok retries_subset [OF _ durable_passes(3) durable_passes(4)])

lemma server_revoke_ok: "server_ok sha s \<Longrightarrow> server_ok sha (snd (durable_revoke_capability sha s d issuer ia req target))"
  unfolding server_ok_def
  by (simp add: revoke_keeps_broker_ok retries_subset [OF _ durable_passes(5) durable_passes(6)])

lemma server_accept_ok:
  "server_ok sha s \<Longrightarrow> decode_update_record rec = Inr update \<Longrightarrow>
    server_ok sha (snd (durable_accept sha s c a update rec))"
  unfolding server_ok_def
  by (simp add: accept_keeps_ok retries_subset [OF _ durable_passes(7) durable_passes(8)])

lemma server_enumerate_ok:
  assumes "server_ok sha s"
  shows "server_ok sha (snd (enumerate_authorized sha s channel d c a start REPLY_PAGE_LIMIT now later rnd))"
    "fst (enumerate_authorized sha s channel d c a start REPLY_PAGE_LIMIT now later rnd) = Inr (EnAuthorized r) \<Longrightarrow>
      enumeration_fits r"
    "fst (enumerate_authorized sha s channel d c a start REPLY_PAGE_LIMIT now later rnd) = Inl err \<Longrightarrow>
      err = EntropyUnavailable"
  using assms enumerate_keeps_ok [of sha s, OF _ checked_page_limits(3)]
    enumerate_authorized_good [of s sha channel d c a start now later rnd]
  by (simp_all add: server_ok_def enumeration_good_def)

lemma server_vector_ok:
  assumes "server_ok sha s"
  shows "server_ok sha (snd (vector_backfill_authorized sha s channel d c a version start REPLY_PAGE_LIMIT now later rnd))"
    "fst (vector_backfill_authorized sha s channel d c a version start REPLY_PAGE_LIMIT now later rnd) = Inr (VbAuthorized v) \<Longrightarrow>
      vector_fits v"
    "fst (vector_backfill_authorized sha s channel d c a version start REPLY_PAGE_LIMIT now later rnd) = Inl err \<Longrightarrow>
      err = EntropyUnavailable"
  using assms vector_keeps_ok [of sha s, OF _ checked_page_limits(3)]
    vector_backfill_authorized_good [of s sha channel d c a version start now later rnd]
  by (simp_all add: server_ok_def vector_good_def)

lemma fetch_returns:
  assumes "server_ok sha s"
  shows "\<exists>payload. fetch_in (ds_tables s) d u = Inr payload
    \<and> (\<forall>p. payload = Some p \<longrightarrow> p \<noteq> [] \<and> length p \<le> MAX_APPLICATION_PAYLOAD_LENGTH)"
proof (cases "om_get (updates (ds_tables s)) (d, u)")
  case (Some row)
  have "store_history sha empty_tables (ds_tables s)" using assms by (simp add: server_ok_def broker_ok_def)
  from store_history_good(2) [OF this] obtain us where us: "list_all canonical_update us"
    "update_refines (ds_tables s) (model_after us)" by blast
  obtain acc where acc: "om_get (model_updates (model_after us)) (d, u) = Some acc" "row_rel row acc"
    by (rule update_refines_row [OF us(2) Some])
  have ids: "iu_document_id (acc_update acc) = d" "iu_update_id (acc_update acc) = u"
    using model_okD(2) [OF model_after_ok [OF us(1)]] acc(1) by (simp_all add: updates_indexed_def)
  have rec: "decode_update_record (ur_encoded_record row) = Inr (acc_update acc)"
    using acc(2) by (simp add: row_rel_def)
  then have "encode_update_record (acc_update acc) = Inr (ur_encoded_record row)"
    by (simp add: decode_update_record_iff)
  then have "iu_encrypted_payload (acc_update acc) \<noteq> []" "record_length (acc_update acc) \<le> MAX_UPDATE_RECORD_LENGTH"
    by (simp_all add: encode_update_record_iff)
  then show ?thesis
    using Some rec ids
    by (simp add: fetch_in_def decode_stored_record_def map_err_def record_length_def update_length_defs)
qed (simp add: fetch_in_def)


section \<open>Handlers\<close>

text \<open>A request that ends here, with the store it leaves.\<close>

definition replied :: "(bytes \<Rightarrow> key32) \<Rightarrow> envelope \<Rightarrow> handler_error set \<Rightarrow> handler_result \<times> durable_update_store \<Rightarrow> bool" where
  "replied sha request errs outcome \<longleftrightarrow> server_ok sha (snd outcome)
    \<and> (case fst outcome of Inl err \<Rightarrow> err \<in> errs | Inr body \<Rightarrow> typed_reply request body)"

lemma replied_response:
  assumes "server_ok sha s" "ev_version request = VERSION" "answers (ev_message_type request) kind payload"
    and "length payload \<le> MAX_APPLICATION_PAYLOAD_LENGTH"
  shows "replied sha request errs (response request kind payload, s)"
proof -
  obtain body where "response request kind payload = Inr body" "typed_reply request body"
    using typed_response [OF assms(4), of request kind] assms(2,3) by blast
  then show ?thesis using assms(1) by (simp add: replied_def)
qed

lemma one_byte_lengths [simp]:
  "length (encode_create_document_response created) \<le> MAX_APPLICATION_PAYLOAD_LENGTH"
  "length (encode_control_mutation_response mutated) \<le> MAX_APPLICATION_PAYLOAD_LENGTH"
  "length (encode_capability_error refused) \<le> MAX_APPLICATION_PAYLOAD_LENGTH"
  "length (encode_update_error failed) \<le> MAX_APPLICATION_PAYLOAD_LENGTH"
  "length (encode_accept_response accepted) \<le> MAX_APPLICATION_PAYLOAD_LENGTH"
  by (simp_all add: one_byte_codes update_length_defs)

lemmas kind_defs = CREATE_DOCUMENT_def CREATE_DOCUMENT_RESPONSE_def CAPABILITY_ERROR_def GRANT_CAPABILITY_def
  GRANT_CAPABILITY_RESPONSE_def REVOKE_CAPABILITY_def REVOKE_CAPABILITY_RESPONSE_def ACCEPT_UPDATE_def
  ACCEPT_UPDATE_RESPONSE_def ENUMERATE_UPDATES_def ENUMERATE_UPDATES_RESPONSE_def FETCH_UPDATE_def
  FETCH_UPDATE_RESPONSE_def UPDATE_ERROR_def VECTOR_BACKFILL_def VECTOR_BACKFILL_RESPONSE_def

lemma replied_update_error:
  assumes "server_ok sha s" "ev_version request = VERSION"
    "ev_message_type request \<notin> {CREATE_DOCUMENT, GRANT_CAPABILITY, REVOKE_CAPABILITY}"
  shows "replied sha request errs (update_error_response request code, s)"
  unfolding update_error_response_def
  using assms by (intro replied_response) (simp_all add: answers_def)

lemma replied_capability_error:
  assumes "server_ok sha s" "ev_version request = VERSION"
    "ev_message_type request \<in> {CREATE_DOCUMENT, GRANT_CAPABILITY, REVOKE_CAPABILITY}"
  shows "replied sha request errs (capability_error_response request code, s)"
  unfolding capability_error_response_def
  using assms by (intro replied_response) (auto simp add: answers_def)

lemma replied_control:
  assumes "server_ok sha s" "ev_version request = VERSION"
    "ev_message_type request \<in> {GRANT_CAPABILITY, REVOKE_CAPABILITY}" "kind = ev_message_type request + 1"
  shows "replied sha request errs (control_response request kind outcome, s)"
proof -
  have "replied sha request errs (response request kind (encode_control_mutation_response m), s)" for m
    using assms by (intro replied_response) (auto simp add: answers_def kind_defs)
  then show ?thesis
    using replied_capability_error [OF assms(1,2)] assms(3) by (cases outcome) simp_all
qed

lemma replied_create:
  assumes "server_ok sha s" "ev_version request = VERSION" "ev_message_type request = CREATE_DOCUMENT"
  shows "replied sha request errs (create_response request outcome, s)"
proof -
  have "replied sha request errs (response request CREATE_DOCUMENT_RESPONSE (encode_create_document_response m), s)" for m
    using assms by (intro replied_response) (auto simp add: answers_def)
  then show ?thesis
    using replied_capability_error [OF assms(1,2)] assms(3) by (cases outcome) simp_all
qed

lemma replied_accept:
  assumes "server_ok sha s" "ev_version request = VERSION" "ev_message_type request = ACCEPT_UPDATE"
  shows "replied sha request errs (accept_response request outcome, s)"
proof -
  have kind: "ACCEPT_UPDATE \<notin> {CREATE_DOCUMENT, GRANT_CAPABILITY, REVOKE_CAPABILITY}" by (simp add: kind_defs)
  have "replied sha request errs (response request ACCEPT_UPDATE_RESPONSE (encode_accept_response m), s)" for m
    using assms kind by (intro replied_response) (simp_all add: answers_def)
  then show ?thesis
    using replied_update_error [OF assms(1,2)] assms(3) kind by (cases outcome) simp_all
qed

lemma handle_create_replies:
  assumes "server_ok sha s" "ev_version request = VERSION" "ev_message_type request = CREATE_DOCUMENT"
  shows "replied sha request errs (handle_create sha request s)"
proof (cases "decode_create_document_request (ev_payload request)")
  case (Inl e)
  then show ?thesis using replied_capability_error [OF assms(1,2)] assms(3) by (simp add: handle_create_def)
next
  case (Inr create)
  let ?r = "durable_create_document sha s (cr_create_authority_id (cd_create_authority create))
    (cr_authenticator (cd_create_authority create)) (cd_request_id create) (cd_document_id create)
    (ca_capability_id (cd_root create)) (ca_authenticator (cd_root create))"
  obtain outcome s' where r: "?r = (Inr outcome, s')"
    using durable_returns(1) assms(1) unfolding server_ok_def by blast
  have "server_ok sha s'" using server_create_ok [OF assms(1)] r by (metis snd_conv)
  then show ?thesis using replied_create assms(2,3) by (simp add: handle_create_def Inr r)
qed

lemma handle_grant_replies:
  assumes "server_ok sha s" "ev_version request = VERSION" "ev_message_type request = GRANT_CAPABILITY"
  shows "replied sha request errs (handle_grant sha request s)"
proof (cases "decode_grant_capability_request (ev_payload request)")
  case (Inl e)
  then show ?thesis using replied_capability_error [OF assms(1,2)] assms(3) by (simp add: handle_grant_def)
next
  case (Inr granting)
  have ops: "canonical_ops (gc_operations granting)" using Inr grant_codec.dec_iff by blast
  let ?r = "durable_grant_capability sha s (gc_document_id granting) (ca_capability_id (gc_issuer granting))
    (ca_authenticator (gc_issuer granting)) (gc_request_id granting) (ca_capability_id (gc_descendant granting))
    (ca_authenticator (gc_descendant granting)) (gc_operations granting)"
  obtain outcome s' where r: "?r = (Inr outcome, s')"
    using durable_returns(2) [OF _ ops] assms(1) unfolding server_ok_def by blast
  have "server_ok sha s'" using server_grant_ok [OF assms(1) ops] r by (metis snd_conv)
  then show ?thesis
    using replied_control [OF _ assms(2)] assms(3) by (simp add: handle_grant_def Inr r kind_defs)
qed

lemma handle_accept_replies:
  assumes "server_ok sha s" "ev_version request = VERSION" "ev_message_type request = ACCEPT_UPDATE"
  shows "replied sha request errs (handle_accept sha request s)"
proof -
  have kind: "ACCEPT_UPDATE \<notin> {CREATE_DOCUMENT, GRANT_CAPABILITY, REVOKE_CAPABILITY}" by (simp add: kind_defs)
  have malformed: "replied sha request errs (update_error_response request UpMalformed, s)"
    using replied_update_error [OF assms(1,2)] assms(3) kind by simp
  show ?thesis
  proof (cases "decode_authorized_update_request (ev_payload request)")
    case (Inl e)
    then show ?thesis using malformed by (simp add: handle_accept_def)
  next
    case authorized: (Inr authorized)
    show ?thesis
    proof (cases "decode_update_record (au_encoded_record authorized)")
      case (Inl e)
      then show ?thesis using malformed authorized by (simp add: handle_accept_def)
    next
      case (Inr update)
      let ?r = "durable_accept sha s (ca_capability_id (au_authority authorized))
        (ca_authenticator (au_authority authorized)) update (au_encoded_record authorized)"
      obtain outcome s' where r: "?r = (Inr outcome, s')"
        using durable_returns(4) [OF _ Inr] assms(1) unfolding server_ok_def by blast
      have "server_ok sha s'" using server_accept_ok [OF assms(1) Inr] r by (metis snd_conv)
      then show ?thesis using replied_accept assms(2,3) by (simp add: handle_accept_def authorized Inr r)
    qed
  qed
qed


lemma handle_enumerate_replies:
  assumes "server_ok sha s" "ev_version request = VERSION" "ev_message_type request = ENUMERATE_UPDATES"
  shows "replied sha request {HandlerStore EntropyUnavailable} (handle_enumerate sha c request channel s)"
    (is "replied sha request ?errs _")
proof -
  have kind: "ENUMERATE_UPDATES \<notin> {CREATE_DOCUMENT, GRANT_CAPABILITY, REVOKE_CAPABILITY}" by (simp add: kind_defs)
  have refused: "server_ok sha s' \<Longrightarrow> replied sha request ?errs (update_error_response request code, s')" for s' code
    using replied_update_error assms(2,3) kind by simp
  show ?thesis
  proof (cases "decode_enumerate_request (ev_payload request)")
    case (Inl e)
    then show ?thesis using refused assms(1) by (simp add: handle_enumerate_def)
  next
    case (Inr enumeration)
    let ?r = "enumerate_authorized sha s channel (er_document_id enumeration)
      (ca_capability_id (er_authority enumeration)) (ca_authenticator (er_authority enumeration))
      (enumerate_start_of (er_start enumeration)) REPLY_PAGE_LIMIT (rq_now c) (rq_later c) (rq_random c)"
    obtain res s' where r: "?r = (res, s')" by (cases ?r)
    have ok: "server_ok sha s'" "\<And>p. res = Inr (EnAuthorized p) \<Longrightarrow> enumeration_fits p"
      "\<And>err. res = Inl err \<Longrightarrow> err = EntropyUnavailable"
      using server_enumerate_ok [OF assms(1), of channel "er_document_id enumeration"
        "ca_capability_id (er_authority enumeration)" "ca_authenticator (er_authority enumeration)"
        "enumerate_start_of (er_start enumeration)" "rq_now c" "rq_later c" "rq_random c"]
      by (simp_all add: r)
    have eq: "handle_enumerate sha c request channel s = (case (res, s') of
        (Inl err, s) \<Rightarrow> (Inl (HandlerStore err), s)
      | (Inr EnAuthorizationDenied, s) \<Rightarrow> (update_error_response request UpAuthorizationDenied, s)
      | (Inr EnRetiredDocument, s) \<Rightarrow> (update_error_response request UpRetiredDocument, s)
      | (Inr EnInvalidContinuation, s) \<Rightarrow> (update_error_response request UpInvalidOrExpiredContinuation, s)
      | (Inr EnBackpressure, s) \<Rightarrow> (update_error_response request UpBackpressure, s)
      | (Inr (EnAuthorized authorized), s) \<Rightarrow>
          (ok_then (map_err HandlerCodec (encode_enumerate_response (enumeration_reply authorized)))
            (response request ENUMERATE_UPDATES_RESPONSE), s))"
      by (simp add: handle_enumerate_def Inr checked_page_limits r enumeration_reply_def
        split: sum.split store_enumerate_outcome.split)
    have answer: "replied sha request ?errs (ok_then (map_err HandlerCodec
        (encode_enumerate_response (enumeration_reply p))) (response request ENUMERATE_UPDATES_RESPONSE), s')"
      if "res = Inr (EnAuthorized p)" for p
    proof -
      note fits = ok(2) [OF that]
      obtain payload where payload: "encode_enumerate_response (enumeration_reply p) = Inr payload"
        "length payload \<le> MAX_APPLICATION_PAYLOAD_LENGTH"
        "decode_enumerate_response payload = Inr (enumeration_reply p)"
        using enumeration_fits_encodes [OF fits] by blast
      have "replied sha request ?errs (response request ENUMERATE_UPDATES_RESPONSE payload, s')"
        using ok(1) assms(2,3) payload(2,3) kind by (intro replied_response) (simp_all add: answers_def)
      then show ?thesis by (simp add: payload(1))
    qed
    show ?thesis
    proof (cases res)
      case (Inl err)
      then show ?thesis using ok(1,3) by (simp add: eq replied_def)
    next
      case (Inr outcome)
      then show ?thesis using answer refused ok(1) by (cases outcome) (simp_all add: eq)
    qed
  qed
qed

lemma handle_vector_replies:
  assumes "server_ok sha s" "ev_version request = VERSION" "ev_message_type request = VECTOR_BACKFILL"
  shows "replied sha request {HandlerStore EntropyUnavailable} (handle_vector_backfill sha c request channel s)"
    (is "replied sha request ?errs _")
proof -
  have kind: "VECTOR_BACKFILL \<notin> {CREATE_DOCUMENT, GRANT_CAPABILITY, REVOKE_CAPABILITY}" by (simp add: kind_defs)
  have refused: "server_ok sha s' \<Longrightarrow> replied sha request ?errs (update_error_response request code, s')" for s' code
    using replied_update_error assms(2,3) kind by simp
  show ?thesis
  proof (cases "decode_vector_backfill_request (ev_payload request)")
    case (Inl e)
    then show ?thesis using refused assms(1) by (cases e) (simp_all add: handle_vector_backfill_def)
  next
    case (Inr backfill)
    let ?r = "vector_backfill_authorized sha s channel (vr_document_id backfill)
      (ca_capability_id (vr_authority backfill)) (ca_authenticator (vr_authority backfill))
      (vr_oplog_version backfill) (vector_start_of (vr_start backfill)) REPLY_PAGE_LIMIT
      (rq_now c) (rq_later c) (rq_random c)"
    obtain res s' where r: "?r = (res, s')" by (cases ?r)
    have ok: "server_ok sha s'" "\<And>p. res = Inr (VbAuthorized p) \<Longrightarrow> vector_fits p"
      "\<And>err. res = Inl err \<Longrightarrow> err = EntropyUnavailable"
      using server_vector_ok [OF assms(1), of channel "vr_document_id backfill"
        "ca_capability_id (vr_authority backfill)" "ca_authenticator (vr_authority backfill)"
        "vr_oplog_version backfill" "vector_start_of (vr_start backfill)" "rq_now c" "rq_later c" "rq_random c"]
      by (simp_all add: r)
    have eq: "handle_vector_backfill sha c request channel s = (case (res, s') of
        (Inl err, s) \<Rightarrow> (Inl (HandlerStore err), s)
      | (Inr VbAuthorizationDenied, s) \<Rightarrow> (update_error_response request UpAuthorizationDenied, s)
      | (Inr VbRetiredDocument, s) \<Rightarrow> (update_error_response request UpRetiredDocument, s)
      | (Inr VbInvalidContinuation, s) \<Rightarrow> (update_error_response request UpInvalidOrExpiredContinuation, s)
      | (Inr VbBackpressure, s) \<Rightarrow> (update_error_response request UpBackpressure, s)
      | (Inr (VbAuthorized authorized), s) \<Rightarrow>
          (ok_then (map_err HandlerCodec (encode_vector_backfill_response (vector_reply authorized)))
            (response request VECTOR_BACKFILL_RESPONSE), s))"
      by (simp add: handle_vector_backfill_def Inr checked_page_limits r vector_reply_def
        split: sum.split store_vector_backfill_outcome.split)
    have answer: "replied sha request ?errs (ok_then (map_err HandlerCodec
        (encode_vector_backfill_response (vector_reply p))) (response request VECTOR_BACKFILL_RESPONSE), s')"
      if "res = Inr (VbAuthorized p)" for p
    proof -
      note fits = ok(2) [OF that]
      obtain payload where payload: "encode_vector_backfill_response (vector_reply p) = Inr payload"
        "length payload \<le> MAX_APPLICATION_PAYLOAD_LENGTH"
        "decode_vector_backfill_response payload = Inr (vector_reply p)"
        using vector_fits_encodes [OF fits] by blast
      have "replied sha request ?errs (response request VECTOR_BACKFILL_RESPONSE payload, s')"
        using ok(1) assms(2,3) payload(2,3) kind by (intro replied_response) (simp_all add: answers_def)
      then show ?thesis by (simp add: payload(1))
    qed
    show ?thesis
    proof (cases res)
      case (Inl err)
      then show ?thesis using ok(1,3) by (simp add: eq replied_def)
    next
      case (Inr outcome)
      then show ?thesis using answer refused ok(1) by (cases outcome) (simp_all add: eq)
    qed
  qed
qed

lemma handle_fetch_replies:
  assumes "server_ok sha s" "ev_version request = VERSION" "ev_message_type request = FETCH_UPDATE"
  shows "replied sha request errs (handle_fetch sha request s, s)"
proof -
  have kind: "FETCH_UPDATE \<notin> {CREATE_DOCUMENT, GRANT_CAPABILITY, REVOKE_CAPABILITY}" by (simp add: kind_defs)
  have refused: "replied sha request errs (update_error_response request code, s)" for code
    using replied_update_error assms kind by simp
  show ?thesis
  proof (cases "decode_fetch_request (ev_payload request)")
    case (Inl e)
    then show ?thesis using refused by (simp add: handle_fetch_def)
  next
    case (Inr fetch)
    obtain found where found: "fetch_in (ds_tables s) (fr_document_id fetch) (fr_update_id fetch) = Inr found"
      "\<And>p. found = Some p \<Longrightarrow> p \<noteq> [] \<and> length p \<le> MAX_APPLICATION_PAYLOAD_LENGTH"
      using fetch_returns [OF assms(1)] by blast
    have "replied sha request errs (response request FETCH_UPDATE_RESPONSE p, s)" if "found = Some p" for p
      using found(2) [OF that] assms kind
      by (intro replied_response) (simp_all add: answers_def decode_fetch_response_def)
    then show ?thesis
      using refused found
      by (cases found) (auto simp add: handle_fetch_def Inr fetch_authorized_def encode_fetch_response_def)
  qed
qed

lemma handle_revoke_replies:
  assumes "server_ok sha s" "ev_version request = VERSION" "ev_message_type request = REVOKE_CAPABILITY"
  shows "case handle_revoke sha request s of
      (HandlerDone res, s') \<Rightarrow> replied sha request {HandlerWouldBlock} (res, s')
    | (HandlerExcluding gate revoking, s') \<Rightarrow> server_ok sha s'"
proof (cases "decode_revoke_capability_request (ev_payload request)")
  case (Inl e)
  then show ?thesis using replied_capability_error [OF assms(1,2)] assms(3) by (simp add: handle_revoke_def)
next
  case (Inr revoking)
  let ?p = "preflight_revoke_capability sha (ds_tables s) (rc_document_id revoking)
    (ca_capability_id (rc_issuer revoking)) (ca_authenticator (rc_issuer revoking)) (rc_request_id revoking)
    (rc_target_capability_id revoking)"
  show ?thesis
  proof (cases ?p)
    case (Resolved outcome)
    then show ?thesis
      using replied_control [OF assms(1,2)] assms(3) by (simp add: handle_revoke_def Inr kind_defs)
  next
    case RequiresMutation
    obtain gate s1 where g: "document_emission_gate (rc_document_id revoking) s = (gate, s1)"
      by (cases "document_emission_gate (rc_document_id revoking) s")
    have "broker_ok sha s1" using gate_keeps_ok [of sha s "rc_document_id revoking"] assms(1) g
      by (simp add: server_ok_def)
    moreover have "retries_ok s1"
      using assms(1) g by (auto simp add: server_ok_def document_emission_gate_def case_prod_beta elim!: retries_frame)
    ultimately have s1: "server_ok sha s1" by (simp add: server_ok_def)
    show ?thesis
      using drop_gate_ok [OF s1] exclude_admission_ok [OF s1]
      by (cases "exclude_admission gate (ds_subscriptions s1)")
        (simp_all add: handle_revoke_def Inr RequiresMutation g replied_def)
  qed
qed

lemma excluded_revoke_replies:
  assumes "server_ok sha s" "ev_version request = VERSION" "ev_message_type request = REVOKE_CAPABILITY"
    and "excluded_revoke sha request gate revoking s = Some outcome"
  shows "replied sha request {} outcome"
proof -
  obtain w where w: "exclude_write gate (ds_subscriptions s) = Some w"
    using assms(4) by (auto simp add: excluded_revoke_def split: option.splits)
  let ?s = "s\<lparr> ds_subscriptions := w \<rparr>"
  have s: "server_ok sha ?s" by (rule exclude_write_ok [OF assms(1) w])
  let ?r = "durable_revoke_capability sha ?s (rc_document_id revoking)
    (ca_capability_id (rc_issuer revoking)) (ca_authenticator (rc_issuer revoking)) (rc_request_id revoking)
    (rc_target_capability_id revoking)"
  obtain revoked s' where r: "?r = (Inr revoked, s')"
    using durable_returns(3) s unfolding server_ok_def by blast
  have "server_ok sha s'" using server_revoke_ok [OF s] r by (metis snd_conv)
  then have "server_ok sha (s'\<lparr> ds_subscriptions := drop_gate gate (drop_exclusion gate (ds_subscriptions s')) \<rparr>)"
    using drop_gate_ok [OF drop_exclusion_ok] by simp
  then show ?thesis
    using assms(4) replied_control [OF _ assms(2)] assms(3)
    by (auto simp add: excluded_revoke_def w r Let_def kind_defs)
qed


section \<open>Dispatch\<close>

definition request_errors :: "u16 \<Rightarrow> handler_error set" where
  "request_errors asked = (if asked = REVOKE_CAPABILITY then {HandlerWouldBlock}
    else if asked \<in> {ENUMERATE_UPDATES, VECTOR_BACKFILL} then {HandlerStore EntropyUnavailable} else {})"

lemma handle_request_replies:
  assumes "server_ok sha s"
  shows "case handle_request sha c request channel s of
      (HandlerDone res, s') \<Rightarrow> replied sha request (request_errors (ev_message_type request)) (res, s')
    | (HandlerExcluding gate revoking, s') \<Rightarrow> server_ok sha s' \<and> ev_version request = VERSION
        \<and> ev_message_type request = REVOKE_CAPABILITY"
proof (cases "ev_version request = VERSION")
  case False
  obtain body where "response request UPDATE_ERROR (encode_update_error UpMalformed) = Inr body"
    "typed_reply request body"
    using typed_response [of "encode_update_error UpMalformed" request UPDATE_ERROR] False by auto
  then show ?thesis
    using assms False by (simp add: handle_request_def update_error_response_def replied_def)
next
  case True
  note version = True
  have finished: "case handler_done r of (HandlerDone res, s') \<Rightarrow> replied sha request errs (res, s')
      | (HandlerExcluding gate revoking, s') \<Rightarrow> P gate revoking s'" if "replied sha request errs r" for r errs P
    using that by (cases r) (simp add: handler_done_def)
  let ?asked = "ev_message_type request"
  consider "?asked = CREATE_DOCUMENT" | "?asked = GRANT_CAPABILITY" | "?asked = REVOKE_CAPABILITY"
    | "?asked = ACCEPT_UPDATE" | "?asked = ENUMERATE_UPDATES" | "?asked = VECTOR_BACKFILL" | "?asked = FETCH_UPDATE"
    | "?asked \<notin> {CREATE_DOCUMENT, GRANT_CAPABILITY, REVOKE_CAPABILITY, ACCEPT_UPDATE, ENUMERATE_UPDATES,
        VECTOR_BACKFILL, FETCH_UPDATE}" by blast
  then show ?thesis
  proof cases
    case 1
    show ?thesis
      using finished [OF handle_create_replies [OF assms version 1]] version 1
      by (simp add: handle_request_def request_errors_def kind_defs)
  next
    case 2
    show ?thesis
      using finished [OF handle_grant_replies [OF assms version 2]] version 2
      by (simp add: handle_request_def request_errors_def kind_defs)
  next
    case 3
    have eq: "handle_request sha c request channel s = handle_revoke sha request s"
      using version 3 by (simp add: handle_request_def kind_defs)
    show ?thesis
      unfolding eq using handle_revoke_replies [OF assms version 3] version 3
      by (simp add: request_errors_def split: prod.splits handler_step.splits)
  next
    case 4
    show ?thesis
      using finished [OF handle_accept_replies [OF assms version 4]] version 4
      by (simp add: handle_request_def request_errors_def kind_defs)
  next
    case 5
    have eq: "handle_request sha c request channel s = handler_done (handle_enumerate sha c request channel s)"
      using version 5 by (simp add: handle_request_def kind_defs)
    have errs: "request_errors (ev_message_type request) = {HandlerStore EntropyUnavailable}"
      using 5 by (simp add: request_errors_def kind_defs)
    show ?thesis unfolding eq errs by (rule finished [OF handle_enumerate_replies [OF assms version 5]])
  next
    case 6
    have eq: "handle_request sha c request channel s = handler_done (handle_vector_backfill sha c request channel s)"
      using version 6 by (simp add: handle_request_def kind_defs)
    have errs: "request_errors (ev_message_type request) = {HandlerStore EntropyUnavailable}"
      using 6 by (simp add: request_errors_def kind_defs)
    show ?thesis unfolding eq errs by (rule finished [OF handle_vector_replies [OF assms version 6]])
  next
    case 7
    show ?thesis
      using handle_fetch_replies [OF assms version 7] version 7
      by (simp add: handle_request_def request_errors_def kind_defs)
  next
    case 8
    show ?thesis
      using replied_update_error [OF assms version] version 8 by (simp add: handle_request_def)
  qed
qed

text \<open>
  The server: its connections open and close channels, subscribe and receive, and send requests;
  a revoke that waits for its gate resumes between the steps of the others.
\<close>

inductive server_step :: "(bytes \<Rightarrow> key32) \<Rightarrow> durable_update_store \<Rightarrow> durable_update_store \<Rightarrow> bool" for sha where
  sv_open: "server_step sha s (snd (open_broker_channel s))"
| sv_close: "server_step sha s (close_broker_channel channel s)"
| sv_subscribe: "recognizes (ds_subscriptions s) channel \<longrightarrow> bc_lease channel \<in> set (rg_leases (ds_subscriptions s)) \<Longrightarrow>
    server_step sha s (snd (subscribe_updates sha s channel d c a))"
| sv_receive: "ev \<in> {Next i, Select i, TryNext i, Cancel i, DropSubscription i} \<Longrightarrow>
    server_step sha s (s\<lparr> ds_subscriptions := registry_step ev (ds_subscriptions s) \<rparr>)"
| sv_request: "server_step sha s (snd (handle_request sha c request channel s))"
| sv_excluded: "ev_version request = VERSION \<Longrightarrow> ev_message_type request = REVOKE_CAPABILITY \<Longrightarrow>
    excluded_revoke sha request gate revoking s = Some (result, s') \<Longrightarrow> server_step sha s s'"

inductive server_run :: "(bytes \<Rightarrow> key32) \<Rightarrow> durable_update_store \<Rightarrow> durable_update_store \<Rightarrow> bool" for sha where
  server_start: "server_run sha s s"
| server_next: "server_run sha s s' \<Longrightarrow> server_step sha s' s'' \<Longrightarrow> server_run sha s s''"

lemma registry_request_ok:
  "server_ok sha s \<Longrightarrow> broker_step sha s s' \<Longrightarrow> set (ds_enumeration_passes s') \<subseteq> set (ds_enumeration_passes s) \<Longrightarrow>
    set (ds_vector_passes s') \<subseteq> set (ds_vector_passes s) \<Longrightarrow> server_ok sha s'"
  using broker_step_ok retries_subset unfolding server_ok_def by blast

lemma server_step_ok: "server_step sha s s' \<Longrightarrow> server_ok sha s \<Longrightarrow> server_ok sha s'"
proof (induction rule: server_step.induct)
  case (sv_open s)
  then show ?case
    by (rule registry_request_ok [OF _ br_open]) (simp_all add: open_broker_channel_def case_prod_beta)
next
  case (sv_close s channel)
  then show ?case by (rule registry_request_ok [OF _ br_close]) (auto simp add: close_broker_channel_def)
next
  case (sv_subscribe s channel d c a)
  show ?case
    by (rule registry_request_ok [OF sv_subscribe(2) br_subscribe [OF sv_subscribe(1)]])
      (auto simp add: subscribe_updates_def Let_def split: prod.split sum.split register_error.split)
next
  case (sv_receive ev i s)
  then show ?case by (intro registry_request_ok [OF sv_receive(2) br_receive]) auto
next
  case (sv_request s c request channel)
  then show ?case
    using handle_request_replies [OF sv_request, where c = c and request = request and channel = channel]
    by (auto simp add: replied_def split: prod.splits handler_step.splits)
next
  case (sv_excluded request gate revoking s result s')
  then show ?case using excluded_revoke_replies [of sha s request gate revoking] by (auto simp add: replied_def)
qed

lemma server_run_ok: "server_run sha s s' \<Longrightarrow> server_ok sha s \<Longrightarrow> server_ok sha s'"
  by (induction rule: server_run.induct) (auto intro: server_step_ok)

lemma opened_server_ok:
  "store_history sha empty_tables t \<Longrightarrow> server_run sha (opened t generation broker) s \<Longrightarrow> server_ok sha s"
proof (rule server_run_ok, assumption)
  assume "store_history sha empty_tables t"
  then show "server_ok sha (opened t generation broker)"
    using opened_ok by (simp add: server_ok_def retries_ok_def opened_def)
qed

text \<open>
  Every reply is typed.  In every state that the connections of a store process reach, a
  request gets back an envelope with its own correlation number and the protocol's version, whose
  message type and payload are what the client of that request decodes: its response, or the
  error message of its family; a request of another version is told that it is malformed.  Pages
  always fit into one envelope.  The only requests that end the connection instead are a revoke
  at a saturated gate and a page request without randomness.
\<close>

theorem every_reply_is_typed:
  assumes "store_history sha empty_tables t" "server_run sha (opened t generation broker) s"
  shows "(case fst (handle_request sha c request channel s) of
      HandlerDone (Inr body) \<Rightarrow> typed_reply request body
    | HandlerDone (Inl err) \<Rightarrow> err \<in> request_errors (ev_message_type request)
    | HandlerExcluding gate revoking \<Rightarrow> ev_version request = VERSION
        \<and> ev_message_type request = REVOKE_CAPABILITY)
    \<and> (case excluded_revoke sha request gate revoking s of
      Some (result, s') \<Rightarrow> ev_version request = VERSION \<and> ev_message_type request = REVOKE_CAPABILITY
        \<longrightarrow> (\<exists>body. result = Inr body \<and> typed_reply request body)
    | None \<Rightarrow> True)"
proof -
  have ok: "server_ok sha s" by (rule opened_server_ok [OF assms])
  have "case excluded_revoke sha request gate revoking s of
      Some (result, s') \<Rightarrow> ev_version request = VERSION \<and> ev_message_type request = REVOKE_CAPABILITY
        \<longrightarrow> (\<exists>body. result = Inr body \<and> typed_reply request body)
    | None \<Rightarrow> True"
    using excluded_revoke_replies [OF ok, of request gate revoking]
    by (auto simp add: replied_def split: option.split sum.splits)
  then show ?thesis
    using handle_request_replies [OF ok, where c = c and request = request and channel = channel]
    by (auto simp add: replied_def split: prod.splits handler_step.splits sum.splits)
qed


text \<open>The subscribed session of the demo enumerates its document, which has no update yet.\<close>

lemma demo_server_run: "server_run demo_sha (opened demo_granted 0 0) demo_broker"
  using server_next [OF server_next [OF server_start sv_open] sv_subscribe] demo_broker_subscribed by metis

definition demo_request :: envelope where
  "demo_request = \<lparr> ev_correlation_id = 77, ev_message_type = ENUMERATE_UPDATES,
    ev_payload = enumerate_request_bytes \<lparr> er_authority = \<lparr> ca_capability_id = 8, ca_authenticator = 9 \<rparr>,
      er_document_id = 4, er_start = enumerate_start.EnumOrigin \<rparr>, ev_version = VERSION \<rparr>"

theorem every_reply_is_typed_witness:
  "\<exists>body. fst (handle_request demo_sha \<lparr> rq_now = 0, rq_later = 0, rq_random = \<lambda>_. None \<rparr> demo_request demo_channel
      demo_broker) = HandlerDone (Inr body) \<and> typed_reply demo_request body"
proof -
  let ?c = "\<lparr> rq_now = 0, rq_later = 0, rq_random = \<lambda>_. None \<rparr>"
  let ?r = "\<lparr> er_authority = \<lparr> ca_capability_id = 8, ca_authenticator = 9 \<rparr>,
      er_document_id = 4, er_start = enumerate_start.EnumOrigin \<rparr>"
  have decoded: "decode_enumerate_request (ev_payload demo_request) = Inr ?r"
    unfolding decode_enumerate_request_iff
    by (simp add: demo_request_def enumerate_request_ok_def enum_mode_def cursor_bytes_def)
  have reads: "authorize_document demo_sha demo_granted 4 8 9 Read = document_authorization.Authorized"
    using demo_child_reads by (simp add: authorize_def split: document_authorization.splits)
  have fields: "ds_tables demo_broker = demo_granted" "ds_subscriptions demo_broker = demo_registry"
    by (simp_all add: demo_broker_def opened_def)
  have known: "recognizes demo_registry demo_channel"
    by (simp add: recognizes_def demo_registry_contexts(2) demo_channel_def)
  have "high_water_sequence_in demo_granted 4 = None"
    by (simp add: high_water_sequence_in_def document_updates_def demo_simps om_range_def)
  then have page: "fst (enumerate_authorized demo_sha demo_broker demo_channel 4 8 9 EnumOrigin REPLY_PAGE_LIMIT
      0 0 (\<lambda>_. None)) = Inr (EnAuthorized \<lparr> ap_page = empty_stored_update_page, ap_next_cursor = None \<rparr>)"
    using reads known by (simp add: enumerate_authorized_def enumerate_origin_def fields Let_def)
  obtain payload where payload: "encode_enumerate_response (enumeration_reply
      \<lparr> ap_page = empty_stored_update_page, ap_next_cursor = None \<rparr>) = Inr payload"
    "length payload \<le> MAX_APPLICATION_PAYLOAD_LENGTH"
    using enumeration_fits_encodes [OF empty_page_fits] by blast
  obtain body where body: "encode_body \<lparr> ev_correlation_id = 77, ev_message_type = ENUMERATE_UPDATES_RESPONSE,
      ev_payload = payload, ev_version = VERSION \<rparr> = Inr body"
    using payload(2) by (auto simp add: encode_body_Inr_iff)
  have "handle_request demo_sha ?c demo_request demo_channel demo_broker
      = handler_done (handle_enumerate demo_sha ?c demo_request demo_channel demo_broker)"
    by (simp add: handle_request_def demo_request_def kind_defs)
  moreover have "fst (handle_enumerate demo_sha ?c demo_request demo_channel demo_broker) = Inr body"
    using decoded page payload(1) body
    by (simp add: handle_enumerate_def checked_page_limits case_prod_beta enumeration_reply_def response_def map_err_def)
      (simp add: demo_request_def)
  ultimately have answered: "fst (handle_request demo_sha ?c demo_request demo_channel demo_broker) = HandlerDone (Inr body)"
    by (simp add: handler_done_def case_prod_beta)
  with every_reply_is_typed [OF demo_granted_history demo_server_run,
      where c = ?c and request = demo_request and channel = demo_channel]
  show ?thesis by simp
qed

end
