(* ===== verification/Arguments.thy ===== *)
theory Arguments
  imports Model Store_Tables
begin

text \<open>
  The command lines of the daemons: \<open>Configuration::from_args\<close> of \<open>renee-stored\<close> and
  \<open>renee-gatewayd\<close>, \<open>store_address_from_args\<close> of \<open>renee-sessiond\<close>.  An \<open>OsString\<close> or a path is its
  bytes, and \<open>into_string\<close> succeeds on valid UTF-8.  Parsing a socket address and asking the file
  system are parameters.
\<close>

section \<open>Literals\<close>

lemma ascii_eq_iff [simp]: "ascii s = ascii t \<longleftrightarrow> s = t"
proof -
  have "inj (\<lambda>c. word_of_nat (of_char c) :: byte)"
  proof (rule injI)
    fix a b :: char
    assume "(word_of_nat (of_char a) :: byte) = word_of_nat (of_char b)"
    from arg_cong [OF this, of unat] show "a = b" by (simp add: unat_of_nat)
  qed
  then show ?thesis by (simp add: ascii_def)
qed

lemma ascii_append: "ascii (s @ t) = ascii s @ ascii t"
  by (simp add: ascii_def)

lemma ascii_Nil [simp]: "ascii [] = []" "ascii s = [] \<longleftrightarrow> s = []"
  by (simp_all add: ascii_def)

lemma utf8_ascii [simp]: "list_all (\<lambda>c. of_char c < (128 :: nat)) s \<Longrightarrow> utf8_valid (ascii s)"
proof (induction s)
  case (Cons c s)
  have "(word_of_nat (of_char c) :: byte) \<le> 0x7F"
    using Cons.prems by (simp add: word_le_nat_alt unat_of_nat)
  then show ?case using Cons by (simp add: ascii_def utf8_valid.simps)
qed (simp add: ascii_def utf8_valid.simps)

section \<open>Arguments\<close>

datatype argument_error =
    NameNotUtf8 | RequiresValue bytes | DuplicateArgument bytes | UnknownArgument bytes
  | ValueNotUtf8 bytes | InvalidAddress bytes | WrongHexLength bytes | NotHexadecimal bytes
  | InconsistentIdentity | NonLoopback | Unavailable bytes | NotAFile bytes | UnsupportedIdentity
  | MissingIdentity | NoExecutableDirectory

definition into_string :: "argument_error \<Rightarrow> bytes \<Rightarrow> argument_error + bytes" where
  "into_string err value = (if utf8_valid value then Inr value else Inl err)"

text \<open>
  The loop that every daemon runs over its arguments: a name, then its value, given to
  \<open>assign\<close>.
\<close>

fun argument_pairs ::
  "(bytes \<Rightarrow> bytes \<Rightarrow> 'c \<Rightarrow> argument_error + 'c) \<Rightarrow> bytes list \<Rightarrow> 'c \<Rightarrow> argument_error + 'c" where
  "argument_pairs assign [] c = Inr c"
| "argument_pairs assign [argument] c =
    ok_then (into_string NameNotUtf8 argument) (\<lambda>argument. Inl (RequiresValue argument))"
| "argument_pairs assign (argument # value # rest) c =
    ok_then (into_string NameNotUtf8 argument) (\<lambda>argument.
    ok_then (assign argument value c) (\<lambda>c. argument_pairs assign rest c))"

definition parse_address ::
  "(bytes \<Rightarrow> 'addr option) \<Rightarrow> bytes \<Rightarrow> bytes \<Rightarrow> argument_error + 'addr" where
  "parse_address parse name value =
    ok_then (into_string (ValueNotUtf8 name) value) (\<lambda>value. ok_or (InvalidAddress name) (parse value))"

section \<open>renee-stored\<close>

record stored_arguments =
  sa_bind_address :: bytes
  sa_database_path :: "bytes option"
  sa_create_authority_id :: "bytes option"
  sa_create_live_verifier :: "bytes option"
  sa_create_receipt_verifier :: "bytes option"

record 'addr stored_configuration =
  stc_bind_address :: 'addr
  stc_create_authority :: create_authority_provision
  stc_database_path :: bytes

definition set_once :: "bytes option \<Rightarrow> bytes \<Rightarrow> bytes \<Rightarrow> argument_error + bytes option" where
  "set_once target value name = (if target \<noteq> None then Inl (DuplicateArgument name) else Inr (Some value))"

definition decode_hex_nibble :: "byte \<Rightarrow> byte option" where
  "decode_hex_nibble value =
    (if 0x30 \<le> value \<and> value \<le> 0x39 then Some (value - 0x30)
     else if 0x61 \<le> value \<and> value \<le> 0x66 then Some (value - 0x61 + 10)
     else if 0x41 \<le> value \<and> value \<le> 0x46 then Some (value - 0x41 + 10)
     else None)"

text \<open>\<open>chunks_exact(2)\<close> of an even number of bytes.\<close>

fun decode_hex_pairs :: "bytes \<Rightarrow> bytes option" where
  "decode_hex_pairs (high # low # rest) =
    (case (decode_hex_nibble high, decode_hex_nibble low) of
       (Some high, Some low) \<Rightarrow> map_option ((#) (push_bit 4 high OR low)) (decode_hex_pairs rest)
     | _ \<Rightarrow> None)"
| "decode_hex_pairs _ = Some []"

definition parse_hex_argument :: "nat \<Rightarrow> bytes option \<Rightarrow> bytes \<Rightarrow> argument_error + bytes" where
  "parse_hex_argument len value name =
    ok_then (ok_or (RequiresValue name) value) (\<lambda>value.
    ok_then (into_string (ValueNotUtf8 name) value) (\<lambda>value.
    if length value \<noteq> len * 2 then Inl (WrongHexLength name)
    else ok_or (NotHexadecimal name) (decode_hex_pairs value)))"

definition stored_assign :: "bytes \<Rightarrow> bytes \<Rightarrow> stored_arguments \<Rightarrow> argument_error + stored_arguments" where
  "stored_assign argument value c =
    (if argument = ascii ''--bind'' then Inr (c\<lparr> sa_bind_address := value \<rparr>)
     else if argument = ascii ''--database'' then
       (if sa_database_path c \<noteq> None then Inl (DuplicateArgument (ascii ''--database''))
        else Inr (c\<lparr> sa_database_path := Some value \<rparr>))
     else if argument = ascii ''--create-authority-id'' then
       ok_then (set_once (sa_create_authority_id c) value (ascii ''--create-authority-id''))
         (\<lambda>v. Inr (c\<lparr> sa_create_authority_id := v \<rparr>))
     else if argument = ascii ''--create-live-verifier'' then
       ok_then (set_once (sa_create_live_verifier c) value (ascii ''--create-live-verifier''))
         (\<lambda>v. Inr (c\<lparr> sa_create_live_verifier := v \<rparr>))
     else if argument = ascii ''--create-receipt-verifier'' then
       ok_then (set_once (sa_create_receipt_verifier c) value (ascii ''--create-receipt-verifier''))
         (\<lambda>v. Inr (c\<lparr> sa_create_receipt_verifier := v \<rparr>))
     else Inl (UnknownArgument argument))"

definition stored_from_args ::
  "(bytes \<Rightarrow> 'addr option) \<Rightarrow> bytes list \<Rightarrow> argument_error + 'addr stored_configuration" where
  "stored_from_args parse arguments =
    ok_then (argument_pairs stored_assign arguments \<lparr> sa_bind_address = ascii ''127.0.0.1:4434'',
      sa_database_path = None, sa_create_authority_id = None, sa_create_live_verifier = None,
      sa_create_receipt_verifier = None \<rparr>) (\<lambda>c.
    ok_then (parse_address parse (ascii ''--bind'') (sa_bind_address c)) (\<lambda>bind_address.
    ok_then (ok_or (RequiresValue (ascii ''--database'')) (sa_database_path c)) (\<lambda>database_path.
    ok_then (parse_hex_argument 16 (sa_create_authority_id c) (ascii ''--create-authority-id'')) (\<lambda>authority.
    ok_then (parse_hex_argument 32 (sa_create_live_verifier c) (ascii ''--create-live-verifier'')) (\<lambda>live.
    ok_then (parse_hex_argument 32 (sa_create_receipt_verifier c) (ascii ''--create-receipt-verifier''))
      (\<lambda>receipt.
    Inr \<lparr> stc_bind_address = bind_address, stc_create_authority = \<lparr> cp_create_authority_id = be_decode authority,
      cp_live_verifier = be_decode live, cp_receipt_verifier = be_decode receipt \<rparr>,
      stc_database_path = database_path \<rparr>))))))"

section \<open>renee-sessiond\<close>

definition session_assign :: "bytes \<Rightarrow> bytes \<Rightarrow> bytes option \<Rightarrow> argument_error + bytes option" where
  "session_assign argument value store =
    (if argument = ascii ''--store'' then Inr (Some value) else Inl (UnknownArgument argument))"

definition store_address_from_args :: "(bytes \<Rightarrow> 'addr option) \<Rightarrow> bytes list \<Rightarrow> argument_error + 'addr" where
  "store_address_from_args parse arguments =
    ok_then (argument_pairs session_assign arguments None) (\<lambda>store.
    ok_then (ok_or (RequiresValue (ascii ''--store'')) store) (\<lambda>store.
    parse_address parse (ascii ''--store'') store))"

section \<open>renee-gatewayd\<close>

record gateway_arguments =
  ga_bind_address :: bytes
  ga_certificate :: "bytes option"
  ga_local_identity :: "bytes option"
  ga_private_key :: "bytes option"
  ga_sessiond :: "bytes option"
  ga_store_address :: bytes

record 'addr gateway_configuration =
  gtc_bind_address :: 'addr
  gtc_certificate :: "bytes option"
  gtc_local_identity :: "bytes option"
  gtc_private_key :: "bytes option"
  gtc_sessiond :: bytes
  gtc_store_address :: 'addr

definition gateway_assign :: "bytes \<Rightarrow> bytes \<Rightarrow> gateway_arguments \<Rightarrow> argument_error + gateway_arguments" where
  "gateway_assign argument value c =
    (if argument = ascii ''--bind'' then Inr (c\<lparr> ga_bind_address := value \<rparr>)
     else if argument = ascii ''--certificate'' then Inr (c\<lparr> ga_certificate := Some value \<rparr>)
     else if argument = ascii ''--local-identity'' then Inr (c\<lparr> ga_local_identity := Some value \<rparr>)
     else if argument = ascii ''--private-key'' then Inr (c\<lparr> ga_private_key := Some value \<rparr>)
     else if argument = ascii ''--sessiond'' then Inr (c\<lparr> ga_sessiond := Some value \<rparr>)
     else if argument = ascii ''--store'' then Inr (c\<lparr> ga_store_address := value \<rparr>)
     else Inl (UnknownArgument argument))"

text \<open>\<open>Path::join\<close> with a relative name.\<close>

definition path_join :: "bytes \<Rightarrow> bytes \<Rightarrow> bytes" where
  "path_join directory name =
    (if directory = [] \<or> last directory = 0x2F then directory @ name else directory @ [0x2F] @ name)"

text \<open>\<open>directory\<close> is the directory of the running executable, if the system tells it.\<close>

definition gateway_from_args ::
  "(bytes \<Rightarrow> 'addr option) \<Rightarrow> bytes option \<Rightarrow> bytes list \<Rightarrow> argument_error + 'addr gateway_configuration" where
  "gateway_from_args parse directory arguments =
    ok_then (argument_pairs gateway_assign arguments \<lparr> ga_bind_address = ascii ''127.0.0.1:4433'',
      ga_certificate = None, ga_local_identity = None, ga_private_key = None, ga_sessiond = None,
      ga_store_address = ascii ''127.0.0.1:4434'' \<rparr>) (\<lambda>c.
    ok_then (parse_address parse (ascii ''--bind'') (ga_bind_address c)) (\<lambda>bind_address.
    ok_then (case (ga_certificate c, ga_private_key c, ga_local_identity c) of
        (Some _, Some _, None) \<Rightarrow> Inr () | (None, None, _) \<Rightarrow> Inr () | _ \<Rightarrow> Inl InconsistentIdentity) (\<lambda>_.
    let sessiond = (case ga_sessiond c of Some path \<Rightarrow> path
        | None \<Rightarrow> (case directory of Some d \<Rightarrow> path_join d (ascii ''renee-sessiond'')
          | None \<Rightarrow> ascii ''renee-sessiond'')) in
    ok_then (parse_address parse (ascii ''--store'') (ga_store_address c)) (\<lambda>store_address.
    Inr \<lparr> gtc_bind_address = bind_address, gtc_certificate = ga_certificate c,
      gtc_local_identity = ga_local_identity c, gtc_private_key = ga_private_key c,
      gtc_sessiond = sessiond, gtc_store_address = store_address \<rparr>))))"

text \<open>\<open>is_file\<close> is what the file system says of a path: nothing, or whether it is a file.\<close>

definition validate_file :: "(bytes \<Rightarrow> bool option) \<Rightarrow> bytes \<Rightarrow> argument_error + unit" where
  "validate_file is_file path = (case is_file path of
      None \<Rightarrow> Inl (Unavailable path)
    | Some file \<Rightarrow> if file then Inr () else Inl (NotAFile path))"

definition gateway_validate ::
  "('addr \<Rightarrow> bool) \<Rightarrow> (bytes \<Rightarrow> bool option) \<Rightarrow> 'addr gateway_configuration \<Rightarrow> argument_error + unit" where
  "gateway_validate is_loopback is_file c =
    (if \<not> is_loopback (gtc_bind_address c) then Inl NonLoopback
     else validate_file is_file (gtc_sessiond c))"

text \<open>Which identity the gateway prepares; \<open>debug\<close> tells how it was built.\<close>

datatype gateway_identity_source = PemFiles bytes bytes | LocalIdentity bytes

definition gateway_identity :: "bool \<Rightarrow> 'addr gateway_configuration \<Rightarrow> argument_error + gateway_identity_source" where
  "gateway_identity debug c = (case (gtc_certificate c, gtc_private_key c, gtc_local_identity c) of
      (Some certificate, Some private_key, None) \<Rightarrow>
        if debug then Inl UnsupportedIdentity else Inr (PemFiles certificate private_key)
    | (None, None, Some local_identity) \<Rightarrow>
        if debug then Inr (LocalIdentity local_identity) else Inl UnsupportedIdentity
    | (None, None, None) \<Rightarrow> Inl MissingIdentity
    | _ \<Rightarrow> Inl InconsistentIdentity)"

end
