(* ===== verification/Supervisor_Config.thy ===== *)
theory Supervisor_Config
  imports Arguments "HOL-Library.List_Lexorder" "HOL-Library.Char_ord"
begin

text \<open>
  The configuration of \<open>renee-supervisord\<close> and the command lines it starts its children with:
  \<open>from_args\<close>, \<open>child_specs\<close>, \<open>validate\<close> and the functions that carry a child's address from
  its readiness record into the arguments.
\<close>

record child_spec =
  cs_arguments :: "bytes list"
  cs_executable :: bytes
  cs_role :: string

record supervisor_configuration =
  svc_bind_address :: bytes
  svc_certificate :: "bytes option"
  svc_create_authority_id :: bytes
  svc_create_live_verifier :: bytes
  svc_create_receipt_verifier :: bytes
  svc_gatewayd :: bytes
  svc_local_identity :: bytes
  svc_private_key :: "bytes option"
  svc_sessiond :: bytes
  svc_shutdown_on_stdin_eof :: bool
  svc_store_database :: bytes
  svc_stored :: bytes

section \<open>Arguments\<close>

fun supervisor_arguments ::
  "bytes list \<Rightarrow> (bytes, bytes) omap \<Rightarrow> bool \<Rightarrow> argument_error + (bytes, bytes) omap \<times> bool" where
  "supervisor_arguments [] values eof = Inr (values, eof)"
| "supervisor_arguments (argument # rest) values eof =
    ok_then (into_string NameNotUtf8 argument) (\<lambda>argument.
    if argument = ascii ''--shutdown-on-stdin-eof'' then
      (if eof then Inl (DuplicateArgument argument) else supervisor_arguments rest values True)
    else (case rest of
        [] \<Rightarrow> Inl (RequiresValue argument)
      | value # rest' \<Rightarrow>
          if om_contains values argument then Inl (DuplicateArgument argument)
          else supervisor_arguments rest' (om_insert argument value values) eof))"

definition take_path_or_sibling ::
  "bytes \<Rightarrow> bytes \<Rightarrow> bytes \<Rightarrow> (bytes, bytes) omap \<Rightarrow> bytes \<times> (bytes, bytes) omap" where
  "take_path_or_sibling name sibling_directory sibling_name values =
    (case om_get values name of None \<Rightarrow> path_join sibling_directory sibling_name | Some value \<Rightarrow> value,
     om_delete name values)"

definition take_optional_path ::
  "bytes \<Rightarrow> (bytes, bytes) omap \<Rightarrow> bytes option \<times> (bytes, bytes) omap" where
  "take_optional_path name values = (om_get values name, om_delete name values)"

definition take_required_value ::
  "bytes \<Rightarrow> (bytes, bytes) omap \<Rightarrow> argument_error + bytes \<times> (bytes, bytes) omap" where
  "take_required_value name values = ok_then (ok_or (RequiresValue name) (om_get values name))
    (\<lambda>value. Inr (value, om_delete name values))"

text \<open>\<open>take_required_path\<close> is the same on the bytes of the path.\<close>

definition take_required_path ::
  "bytes \<Rightarrow> (bytes, bytes) omap \<Rightarrow> argument_error + bytes \<times> (bytes, bytes) omap" where
  "take_required_path name values = ok_then (ok_or (RequiresValue name) (om_get values name))
    (\<lambda>value. Inr (value, om_delete name values))"

definition take_required_utf8_or_default ::
  "bytes \<Rightarrow> bytes \<Rightarrow> (bytes, bytes) omap \<Rightarrow> argument_error + bytes \<times> (bytes, bytes) omap" where
  "take_required_utf8_or_default name otherwise values =
    ok_then (case om_get values name of None \<Rightarrow> Inr otherwise
      | Some value \<Rightarrow> into_string (ValueNotUtf8 name) value) (\<lambda>value. Inr (value, om_delete name values))"

definition supervisor_from_args ::
  "bytes option \<Rightarrow> bytes list \<Rightarrow> argument_error + supervisor_configuration" where
  "supervisor_from_args executable_directory arguments =
    ok_then (supervisor_arguments arguments om_empty False) (\<lambda>(values, eof).
    ok_then (ok_or NoExecutableDirectory executable_directory) (\<lambda>directory.
    let (gatewayd, values) = take_path_or_sibling (ascii ''--gatewayd'') directory (ascii ''renee-gatewayd'') values;
        (stored, values) = take_path_or_sibling (ascii ''--stored'') directory (ascii ''renee-stored'') values;
        (sessiond, values) = take_path_or_sibling (ascii ''--sessiond'') directory (ascii ''renee-sessiond'') values in
    ok_then (take_required_utf8_or_default (ascii ''--bind'') (ascii ''127.0.0.1:4433'') values)
      (\<lambda>(bind_address, values).
    let (certificate, values) = take_optional_path (ascii ''--certificate'') values;
        (private_key, values) = take_optional_path (ascii ''--private-key'') values in
    ok_then (take_required_value (ascii ''--create-authority-id'') values) (\<lambda>(authority, values).
    ok_then (take_required_value (ascii ''--create-live-verifier'') values) (\<lambda>(live, values).
    ok_then (take_required_value (ascii ''--create-receipt-verifier'') values) (\<lambda>(receipt, values).
    ok_then (take_required_path (ascii ''--store-database'') values) (\<lambda>(database, values).
    let local_identity = database @ ascii ''.gateway-local-identity'' in
    (case values of
      (unknown, _) # _ \<Rightarrow> Inl (UnknownArgument unknown)
    | [] \<Rightarrow> Inr \<lparr> svc_bind_address = bind_address, svc_certificate = certificate,
        svc_create_authority_id = authority, svc_create_live_verifier = live,
        svc_create_receipt_verifier = receipt, svc_gatewayd = gatewayd,
        svc_local_identity = local_identity, svc_private_key = private_key, svc_sessiond = sessiond,
        svc_shutdown_on_stdin_eof = eof, svc_store_database = database, svc_stored = stored \<rparr>))))))))"

section \<open>Validation\<close>

definition is_ascii_hexdigit :: "byte \<Rightarrow> bool" where
  "is_ascii_hexdigit b \<longleftrightarrow> 0x30 \<le> b \<and> b \<le> 0x39 \<or> 0x61 \<le> b \<and> b \<le> 0x66 \<or> 0x41 \<le> b \<and> b \<le> 0x46"

text \<open>The doubled length is 32 or 64: the overflow check of the source never fails.\<close>

definition validate_hex_argument :: "bytes \<Rightarrow> bytes \<Rightarrow> nat \<Rightarrow> argument_error + unit" where
  "validate_hex_argument name value byte_length =
    ok_then (into_string (ValueNotUtf8 name) value) (\<lambda>value.
    if length value \<noteq> byte_length * 2 \<or> \<not> list_all is_ascii_hexdigit value
    then Inl (WrongHexLength name) else Inr ())"

definition supervisor_validate ::
  "bool \<Rightarrow> (bytes \<Rightarrow> 'addr option) \<Rightarrow> ('addr \<Rightarrow> bool) \<Rightarrow> (bytes \<Rightarrow> bool option)
    \<Rightarrow> supervisor_configuration \<Rightarrow> argument_error + unit" where
  "supervisor_validate debug parse is_loopback is_file c =
    ok_then (ok_or (InvalidAddress (svc_bind_address c)) (parse (svc_bind_address c))) (\<lambda>bind_address.
    if \<not> is_loopback bind_address then Inl NonLoopback else
    ok_then (validate_file is_file (svc_gatewayd c)) (\<lambda>_.
    ok_then (validate_file is_file (svc_sessiond c)) (\<lambda>_.
    ok_then (validate_file is_file (svc_stored c)) (\<lambda>_.
    ok_then (validate_hex_argument (ascii ''--create-authority-id'') (svc_create_authority_id c) 16) (\<lambda>_.
    ok_then (validate_hex_argument (ascii ''--create-live-verifier'') (svc_create_live_verifier c) 32) (\<lambda>_.
    ok_then (validate_hex_argument (ascii ''--create-receipt-verifier'') (svc_create_receipt_verifier c) 32) (\<lambda>_.
    (case (svc_certificate c, svc_private_key c) of
      (Some certificate, Some private_key) \<Rightarrow>
        ok_then (validate_file is_file certificate) (\<lambda>_.
        ok_then (validate_file is_file private_key) (\<lambda>_.
        if debug then Inl UnsupportedIdentity else Inr ()))
    | (None, None) \<Rightarrow> if debug then Inr () else Inl MissingIdentity
    | _ \<Rightarrow> Inl InconsistentIdentity))))))))"

section \<open>Children\<close>

definition child_specs :: "supervisor_configuration \<Rightarrow> child_spec list" where
  "child_specs c =
    (let identity_arguments = (case (svc_certificate c, svc_private_key c) of
           (Some certificate, Some private_key) \<Rightarrow>
             [ascii ''--certificate'', certificate, ascii ''--private-key'', private_key]
         | _ \<Rightarrow> [ascii ''--local-identity'', svc_local_identity c]);
         gateway_arguments = [ascii ''--bind'', svc_bind_address c] @ identity_arguments
           @ [ascii ''--sessiond'', svc_sessiond c] in
     [\<lparr> cs_arguments = [ascii ''--bind'', ascii ''127.0.0.1:0'', ascii ''--database'', svc_store_database c,
          ascii ''--create-authority-id'', svc_create_authority_id c,
          ascii ''--create-live-verifier'', svc_create_live_verifier c,
          ascii ''--create-receipt-verifier'', svc_create_receipt_verifier c],
        cs_executable = svc_stored c, cs_role = ''stored'' \<rparr>,
      \<lparr> cs_arguments = gateway_arguments, cs_executable = svc_gatewayd c, cs_role = ''gatewayd'' \<rparr>])"

text \<open>True when a value was replaced; the arguments are changed in place.\<close>

fun replace_argument_value :: "bytes \<Rightarrow> bytes \<Rightarrow> bool \<Rightarrow> bytes list \<Rightarrow> bool \<times> bytes list" where
  "replace_argument_value name replacement replace_next [] = (False, [])"
| "replace_argument_value name replacement replace_next (argument # rest) =
    (if replace_next then (True, replacement # rest)
     else let (replaced, rest) = replace_argument_value name replacement (argument = name) rest in
       (replaced, argument # rest))"

definition is_ascii_whitespace :: "byte \<Rightarrow> bool" where
  "is_ascii_whitespace b \<longleftrightarrow> b \<in> {0x20, 0x09, 0x0A, 0x0C, 0x0D}"

text \<open>The nonempty pieces between separators: \<open>split_ascii_whitespace\<close>.\<close>

fun split_ascii_whitespace :: "bytes \<Rightarrow> bytes \<Rightarrow> bytes list" where
  "split_ascii_whitespace piece [] = (if piece = [] then [] else [piece])"
| "split_ascii_whitespace piece (b # bs) =
    (if is_ascii_whitespace b
     then (if piece = [] then [] else [piece]) @ split_ascii_whitespace [] bs
     else split_ascii_whitespace (piece @ [b]) bs)"

definition split_once :: "byte \<Rightarrow> bytes \<Rightarrow> (bytes \<times> bytes) option" where
  "split_once separator field =
    (if separator \<in> set field
     then Some (takeWhile (\<lambda>b. b \<noteq> separator) field, tl (dropWhile (\<lambda>b. b \<noteq> separator) field))
     else None)"

fun find_map :: "('a \<Rightarrow> 'b option) \<Rightarrow> 'a list \<Rightarrow> 'b option" where
  "find_map f [] = None"
| "find_map f (x # xs) = (case f x of None \<Rightarrow> find_map f xs | Some y \<Rightarrow> Some y)"

definition readiness_field :: "bytes \<Rightarrow> bytes \<Rightarrow> bytes option" where
  "readiness_field name readiness = find_map (\<lambda>field. Option.bind (split_once 0x3D field)
      (\<lambda>(candidate, value). if candidate = name \<and> value \<noteq> [] then Some value else None))
    (split_ascii_whitespace [] readiness)"

datatype stabilize_error = ReadinessOmittedAddress | ChildOmittedBind | GatewayOmittedBind

text \<open>
  The address of the store, if the child is the store, with the active and the original
  specification it leaves; both are changed also when an error follows.
\<close>

definition stabilize_ready_child ::
  "bytes \<Rightarrow> child_spec \<Rightarrow> child_spec
    \<Rightarrow> (stabilize_error + bytes option) \<times> child_spec \<times> child_spec" where
  "stabilize_ready_child readiness active original =
    (case readiness_field (ascii ''address'') readiness of
       None \<Rightarrow> (Inl ReadinessOmittedAddress, active, original)
     | Some address \<Rightarrow>
       let (replaced, arguments) = replace_argument_value (ascii ''--bind'') address False (cs_arguments active);
           active = active\<lparr> cs_arguments := arguments \<rparr> in
       if \<not> replaced then (Inl ChildOmittedBind, active, original)
       else if cs_role active = ''stored'' then (Inr (Some address), active, original)
       else if cs_role active = ''gatewayd'' then
         (let (replaced, arguments) = replace_argument_value (ascii ''--bind'') address False (cs_arguments original);
              original = original\<lparr> cs_arguments := arguments \<rparr> in
          if \<not> replaced then (Inl GatewayOmittedBind, active, original) else (Inr None, active, original))
       else (Inr None, active, original))"

section \<open>Children accept their arguments\<close>

lemma hexdigit_nibble: "is_ascii_hexdigit b \<longleftrightarrow> decode_hex_nibble b \<noteq> None"
  by (auto simp add: is_ascii_hexdigit_def decode_hex_nibble_def)

lemma decode_hex_pairs_length:
  "list_all is_ascii_hexdigit v \<Longrightarrow> length v = n * 2 \<Longrightarrow> \<exists>d. decode_hex_pairs v = Some d \<and> length d = n"
proof (induction n arbitrary: v)
  case (Suc n)
  then obtain high low rest where v: "v = high # low # rest"
    by (cases v rule: decode_hex_pairs.cases) auto
  then obtain d where "decode_hex_pairs rest = Some d" "length d = n" using Suc by auto
  then show ?case using Suc.prems(1) by (auto simp add: v hexdigit_nibble)
qed simp

lemma validated_hex:
  assumes "validate_hex_argument name value n = Inr ()"
  obtains d where "parse_hex_argument n (Some value) name' = Inr d" "length d = n"
    "decode_hex_pairs value = Some d"
proof -
  have v: "utf8_valid value" "length value = n * 2" "list_all is_ascii_hexdigit value"
    using assms by (auto simp add: validate_hex_argument_def into_string_def ok_then_Inr_iff split: if_splits)
  obtain d where "decode_hex_pairs value = Some d" "length d = n"
    using decode_hex_pairs_length [OF v(3,2)] by blast
  then show thesis using that v by (simp add: parse_hex_argument_def into_string_def)
qed

lemma replace_first_bind:
  "replace_argument_value name x False (name # v # rest) = (True, name # x # rest)"
  by simp

lemma utf8_ValueOf: "parse_address parse name v = Inr a \<longleftrightarrow> utf8_valid v \<and> parse v = Some a"
  by (auto simp add: parse_address_def into_string_def ok_then_Inr_iff)

lemma stored_accepts:
  assumes "utf8_valid x" "parse x = Some a" "validate_hex_argument n1 i 16 = Inr ()"
    "validate_hex_argument n2 l 32 = Inr ()" "validate_hex_argument n3 r 32 = Inr ()"
  shows "stored_from_args parse [ascii ''--bind'', x, ascii ''--database'', database,
      ascii ''--create-authority-id'', i, ascii ''--create-live-verifier'', l,
      ascii ''--create-receipt-verifier'', r] = Inr \<lparr> stc_bind_address = a,
    stc_create_authority = \<lparr> cp_create_authority_id = be_decode (the (decode_hex_pairs i)),
      cp_live_verifier = be_decode (the (decode_hex_pairs l)),
      cp_receipt_verifier = be_decode (the (decode_hex_pairs r)) \<rparr>, stc_database_path = database \<rparr>"
proof -
  obtain i' where i: "\<And>n. parse_hex_argument 16 (Some i) n = Inr i'" "decode_hex_pairs i = Some i'"
    using validated_hex [OF assms(3)] by (metis (no_types) option.inject)
  obtain l' where l: "\<And>n. parse_hex_argument 32 (Some l) n = Inr l'" "decode_hex_pairs l = Some l'"
    using validated_hex [OF assms(4)] by (metis (no_types) option.inject)
  obtain r' where r: "\<And>n. parse_hex_argument 32 (Some r) n = Inr r'" "decode_hex_pairs r = Some r'"
    using validated_hex [OF assms(5)] by (metis (no_types) option.inject)
  show ?thesis
    using assms(1,2) i l r
    by (simp add: stored_from_args_def into_string_def stored_assign_def set_once_def parse_address_def)
qed


lemma gateway_accepts:
  assumes "utf8_valid x" "parse x = Some a" "utf8_valid s" "parse s = Some b"
  shows "gateway_from_args parse directory [ascii ''--bind'', x, ascii ''--certificate'', cert,
      ascii ''--private-key'', key, ascii ''--sessiond'', sessiond, ascii ''--store'', s]
    = Inr \<lparr> gtc_bind_address = a, gtc_certificate = Some cert, gtc_local_identity = None,
      gtc_private_key = Some key, gtc_sessiond = sessiond, gtc_store_address = b \<rparr>"
    "gateway_from_args parse directory [ascii ''--bind'', x, ascii ''--local-identity'', identity,
      ascii ''--sessiond'', sessiond, ascii ''--store'', s]
    = Inr \<lparr> gtc_bind_address = a, gtc_certificate = None, gtc_local_identity = Some identity,
      gtc_private_key = None, gtc_sessiond = sessiond, gtc_store_address = b \<rparr>"
  using assms by (simp_all add: gateway_from_args_def into_string_def gateway_assign_def parse_address_def)

lemma from_args_bind_utf8:
  assumes "supervisor_from_args directory arguments = Inr c"
  shows "utf8_valid (svc_bind_address c)"
proof -
  obtain given bind_address left where
    "take_required_utf8_or_default (ascii ''--bind'') (ascii ''127.0.0.1:4433'') given = Inr (bind_address, left)"
    "svc_bind_address c = bind_address"
    using assms
    by (auto simp add: supervisor_from_args_def ok_then_Inr_iff Let_def take_path_or_sibling_def
        take_optional_path_def split: list.splits) (metis neq_Nil_conv surj_pair)
  moreover have "utf8_valid v" if "take_required_utf8_or_default (ascii ''--bind'') (ascii ''127.0.0.1:4433'') given
      = Inr (v, left)" for v
    using that by (auto simp add: take_required_utf8_or_default_def ok_then_Inr_iff into_string_def
        split: option.splits if_splits)
  ultimately show ?thesis by simp
qed

text \<open>
  A validated configuration starts its children.  Whatever the supervisor accepts and
  validates gives command lines that both daemons parse: the store with the addresses, the
  database and the provision of the configuration, the gateway with an identity its build
  supports, and past its own validation.  That holds for the initial bind addresses and for any
  loopback address that a child reports and the supervisor substitutes in restarts.
\<close>

theorem validated_configuration_starts_its_children:
  assumes "supervisor_from_args directory arguments = Inr c"
    and "supervisor_validate debug parse is_loopback is_file c = Inr ()"
    and "utf8_valid x" "parse x = Some a" "is_loopback a" "utf8_valid s" "parse s = Some b"
  shows "(let bound = (\<lambda>x n. replace_argument_value (ascii ''--bind'') x False (cs_arguments (child_specs c ! n)));
      gateway = gateway_from_args parse directory' (snd (bound x 1) @ [ascii ''--store'', s]) in
    bound (ascii ''127.0.0.1:0'') 0 = (True, cs_arguments (child_specs c ! 0))
    \<and> bound (svc_bind_address c) 1 = (True, cs_arguments (child_specs c ! 1))
    \<and> utf8_valid (svc_bind_address c)
    \<and> (case parse (svc_bind_address c) of None \<Rightarrow> False | Some b \<Rightarrow> is_loopback b)
    \<and> stored_from_args parse (snd (bound x 0)) = Inr \<lparr> stc_bind_address = a,
      stc_create_authority = \<lparr>
        cp_create_authority_id = be_decode (the (decode_hex_pairs (svc_create_authority_id c))),
        cp_live_verifier = be_decode (the (decode_hex_pairs (svc_create_live_verifier c))),
        cp_receipt_verifier = be_decode (the (decode_hex_pairs (svc_create_receipt_verifier c))) \<rparr>,
      stc_database_path = svc_store_database c \<rparr>
    \<and> (case gateway of Inl _ \<Rightarrow> False | Inr gc \<Rightarrow> gateway_validate is_loopback is_file gc = Inr ()
      \<and> gtc_bind_address gc = a \<and> gtc_store_address gc = b \<and> gtc_sessiond gc = svc_sessiond c
      \<and> gateway_identity debug gc = Inr (case (svc_certificate c, svc_private_key c) of
          (Some cert, Some key) \<Rightarrow> PemFiles cert key | _ \<Rightarrow> LocalIdentity (svc_local_identity c))))"
proof -
  have valid: "validate_file is_file (svc_sessiond c) = Inr ()"
    "validate_hex_argument (ascii ''--create-authority-id'') (svc_create_authority_id c) 16 = Inr ()"
    "validate_hex_argument (ascii ''--create-live-verifier'') (svc_create_live_verifier c) 32 = Inr ()"
    "validate_hex_argument (ascii ''--create-receipt-verifier'') (svc_create_receipt_verifier c) 32 = Inr ()"
    "case parse (svc_bind_address c) of None \<Rightarrow> False | Some b \<Rightarrow> is_loopback b"
    using assms(2) by (auto simp add: supervisor_validate_def ok_then_Inr_iff split: if_splits)
  have identity: "(\<exists>cert key. svc_certificate c = Some cert \<and> svc_private_key c = Some key \<and> \<not> debug)
      \<or> svc_certificate c = None \<and> svc_private_key c = None \<and> debug"
    using assms(2) by (auto simp add: supervisor_validate_def ok_then_Inr_iff split: if_splits option.splits)
  have stored: "snd (replace_argument_value (ascii ''--bind'') x False (cs_arguments (child_specs c ! 0)))
      = [ascii ''--bind'', x, ascii ''--database'', svc_store_database c,
        ascii ''--create-authority-id'', svc_create_authority_id c,
        ascii ''--create-live-verifier'', svc_create_live_verifier c,
        ascii ''--create-receipt-verifier'', svc_create_receipt_verifier c]"
    by (simp add: child_specs_def Let_def)
  let ?certs = "case (svc_certificate c, svc_private_key c) of
      (Some cert, Some key) \<Rightarrow> (Some cert, Some key, None) | _ \<Rightarrow> (None, None, Some (svc_local_identity c))"
  have gateway: "gateway_from_args parse directory' (snd (replace_argument_value (ascii ''--bind'') x False
      (cs_arguments (child_specs c ! 1))) @ [ascii ''--store'', s]) = Inr \<lparr> gtc_bind_address = a,
        gtc_certificate = fst ?certs, gtc_local_identity = snd (snd ?certs), gtc_private_key = fst (snd ?certs),
        gtc_sessiond = svc_sessiond c, gtc_store_address = b \<rparr>"
    using identity gateway_accepts [where parse = parse, OF assms(3,4,6,7)] by (auto simp add: child_specs_def Let_def)
  show ?thesis
    unfolding Let_def gateway stored
    using stored_accepts [where parse = parse, OF assms(3,4) valid(2-4)] identity valid(1,5) assms(5) from_args_bind_utf8 [OF assms(1)]
    by (auto simp add: gateway_validate_def gateway_identity_def child_specs_def Let_def)
qed

definition demo_supervisor_arguments :: "bytes list" where
  "demo_supervisor_arguments = [ascii ''--store-database'', ascii ''db'',
    ascii ''--create-authority-id'', replicate 32 0x30, ascii ''--shutdown-on-stdin-eof'',
    ascii ''--create-live-verifier'', replicate 64 0x61, ascii ''--create-receipt-verifier'', replicate 64 0x46]"

lemma ascii_less: "ascii s < ascii t \<longleftrightarrow> s < t"
proof (induction s arbitrary: t)
  case Nil
  show ?case by (cases t) (simp_all add: ascii_def)
next
  case (Cons a s)
  show ?case
  proof (cases t)
    case (Cons b t')
    have "(word_of_nat (of_char a) :: byte) < word_of_nat (of_char b) \<longleftrightarrow> a < b"
      by (simp add: word_less_nat_alt unat_of_nat less_char_def)
    moreover have "(word_of_nat (of_char a) :: byte) = word_of_nat (of_char b) \<longleftrightarrow> a = b"
      using ascii_eq_iff [of "[a]" "[b]"] by (simp add: ascii_def)
    ultimately show ?thesis using Cons.IH [of t'] Cons by (simp add: ascii_def)
  qed (simp add: ascii_def)
qed

definition demo_supervisor_configuration :: supervisor_configuration where
  "demo_supervisor_configuration = \<lparr> svc_bind_address = ascii ''127.0.0.1:4433'',
    svc_certificate = None, svc_create_authority_id = replicate 32 0x30, svc_create_live_verifier = replicate 64 0x61,
    svc_create_receipt_verifier = replicate 64 0x46, svc_gatewayd = ascii ''/bin/renee-gatewayd'',
    svc_local_identity = ascii ''db.gateway-local-identity'', svc_private_key = None,
    svc_sessiond = ascii ''/bin/renee-sessiond'', svc_shutdown_on_stdin_eof = True, svc_store_database = ascii ''db'',
    svc_stored = ascii ''/bin/renee-stored'' \<rparr>"

lemma demo_supervisor:
  "supervisor_from_args (Some (ascii ''/bin'')) demo_supervisor_arguments = Inr demo_supervisor_configuration"
  unfolding demo_supervisor_configuration_def
  by (simp add: supervisor_from_args_def demo_supervisor_arguments_def into_string_def ascii_less om_empty_def
      om_contains_def om_get_def om_delete_def take_path_or_sibling_def take_optional_path_def
      take_required_utf8_or_default_def take_required_value_def take_required_path_def path_join_def)
    (simp add: ascii_def)


theorem validated_configuration_starts_its_children_witness:
  "\<exists>c. supervisor_from_args (Some (ascii ''/bin'')) demo_supervisor_arguments = Inr c
    \<and> \<not> isl (stored_from_args (\<lambda>v. Some (length v)) (snd (replace_argument_value (ascii ''--bind'')
        (ascii ''127.0.0.1:9'') False (cs_arguments (child_specs c ! 0)))))"
proof -
  let ?c = demo_supervisor_configuration
  have "utf8_valid (replicate n 0x30)" "utf8_valid (replicate n 0x61)" "utf8_valid (replicate n 0x46)" for n
    by (induction n) (simp_all add: utf8_valid.simps)
  then have "supervisor_validate True (\<lambda>v. Some (length v)) (\<lambda>_. True) (\<lambda>_. Some True) ?c = Inr ()"
    by (simp add: demo_supervisor_configuration_def supervisor_validate_def validate_file_def validate_hex_argument_def into_string_def
        list_all_iff is_ascii_hexdigit_def)
  from validated_configuration_starts_its_children [OF demo_supervisor this, of "ascii ''127.0.0.1:9''"
      "length (ascii ''127.0.0.1:9'')" "ascii ''127.0.0.1:8''" "length (ascii ''127.0.0.1:8'')"]
  have "\<not> isl (stored_from_args (\<lambda>v. Some (length v)) (snd (replace_argument_value (ascii ''--bind'')
        (ascii ''127.0.0.1:9'') False (cs_arguments (child_specs ?c ! 0)))))"
    by (simp only: Let_def) simp
  with demo_supervisor show ?thesis by blast
qed

end
