(* ===== verification/Supervisor.thy ===== *)
theory Supervisor
  imports Supervisor_Config
begin

text \<open>
  The supervisor of \<open>src/crates/renee-supervisord/src/main.rs\<close>: restart budgets, the start of a
  child group, its monitoring with single-child restarts, and its drain.  Time is in
  nanoseconds; processes are numbers.  What the operating system does - a spawn fails or becomes
  ready, a process exits - and when the operator asks for shutdown are the choices of a step
  relation.
\<close>

section \<open>Restart budget\<close>

definition MAX_RESTARTS :: nat where "MAX_RESTARTS = 5"
definition MAX_RESTART_TIME :: nat where "MAX_RESTART_TIME = 30 * 10 ^ 9"
definition CHILD_READINESS_MAX_BYTES :: nat where "CHILD_READINESS_MAX_BYTES = 4096"
definition CHILD_READINESS_LIMIT :: nat where "CHILD_READINESS_LIMIT = 4097"

text \<open>The failure times, oldest first; \<open>duration_since\<close> is zero for a later instant.\<close>

type_synonym restart_budget = "nat list"

definition restart_budget_new :: restart_budget where "restart_budget_new = []"

definition record_failure :: "nat \<Rightarrow> restart_budget \<Rightarrow> bool \<times> restart_budget" where
  "record_failure now failures =
    (let failures = dropWhile (\<lambda>instant. now - instant \<ge> MAX_RESTART_TIME) failures in
     if length failures \<ge> MAX_RESTARTS then (False, failures) else (True, failures @ [now]))"

text \<open>The failures recorded at the given times, with the budget left.\<close>

fun recorded_failures :: "nat list \<Rightarrow> restart_budget \<Rightarrow> nat list \<times> restart_budget" where
  "recorded_failures [] b = ([], b)"
| "recorded_failures (now # ts) b =
    (let (ok, b) = record_failure now b; (rest, b) = recorded_failures ts b in
     (if ok then now # rest else rest, b))"

section \<open>Readiness\<close>

text \<open>
  \<open>trim_end\<close>: the number of bytes of a white-space character at the end of a string, which is at
  the front of the reversed bytes, and their repeated removal.
\<close>

fun white_space_bytes :: "bytes \<Rightarrow> nat" where
  "white_space_bytes [] = 0"
| "white_space_bytes (c # bs) =
    (if c \<in> {0x09, 0x0A, 0x0B, 0x0C, 0x0D, 0x20} then 1
     else case bs of
       b # rest \<Rightarrow>
         if b = 0xC2 \<and> c \<in> {0x85, 0xA0} then 2
         else (case rest of
           a # _ \<Rightarrow>
             if a = 0xE1 \<and> b = 0x9A \<and> c = 0x80 \<or> a = 0xE3 \<and> b = 0x80 \<and> c = 0x80
               \<or> a = 0xE2 \<and> b = 0x80 \<and> (0x80 \<le> c \<and> c \<le> 0x8A \<or> c \<in> {0xA8, 0xA9, 0xAF})
               \<or> a = 0xE2 \<and> b = 0x81 \<and> c = 0x9F then 3 else 0
         | [] \<Rightarrow> 0)
     | [] \<Rightarrow> 0)"

function strip_white_space :: "bytes \<Rightarrow> bytes" where
  "strip_white_space bs = (let n = white_space_bytes bs in
    if n = 0 then bs else strip_white_space (drop n bs))"
  by pat_completeness auto
termination
proof (relation "measure length")
  fix bs :: bytes and n
  assume "n = white_space_bytes bs" "n \<noteq> 0"
  then show "(drop n bs, bs) \<in> measure length" by (cases bs) auto
qed simp

declare strip_white_space.simps [simp del]

definition trim_end :: "bytes \<Rightarrow> bytes" where
  "trim_end output = rev (strip_white_space (rev output))"

datatype readiness_error = ExitedBeforeReadiness | ReadinessTooLong | MalformedReadiness | ReadinessNotUtf8

text \<open>\<open>read_line\<close> on at most 4097 bytes of what the child writes before it closes its output.\<close>

definition read_line :: "bytes \<Rightarrow> bytes" where
  "read_line output = (let output = take CHILD_READINESS_LIMIT output in
     takeWhile (\<lambda>b. b \<noteq> 0x0A) output @ (if 0x0A \<in> set output then [0x0A] else []))"

definition read_readiness :: "string \<Rightarrow> bytes \<Rightarrow> readiness_error + bytes" where
  "read_readiness role output =
    (let line = read_line output in
     if \<not> utf8_valid line then Inl ReadinessNotUtf8
     else if line = [] then Inl ExitedBeforeReadiness
     else if length line > CHILD_READINESS_MAX_BYTES \<or> last line \<noteq> 0x0A then Inl ReadinessTooLong
     else
       let readiness = trim_end line; expected = ascii (''READY '' @ role) in
       if readiness \<noteq> expected \<and> take (length expected + 1) readiness \<noteq> expected @ [0x20]
       then Inl MalformedReadiness
       else Inr readiness)"

section \<open>Children\<close>

record managed_child =
  mc_child :: "nat option"
  mc_restart_budget :: restart_budget
  mc_spec :: child_spec

text \<open>
  What the supervisor is doing.  Starting holds the children already started, the address of the
  store, and while a role is being tried its active specification and budget; Restarting is
  inside \<open>ManagedChild::restart\<close> of one child; Draining walks the children that remain to be
  stopped, last first, and Stopping waits for the one whose input was closed.  A drain ends with
  a new generation, with another try of \<open>start_group\<close>, which shutdown can still cancel, or with
  the return.
\<close>

datatype after_drain = StartAgain | RetryStart | Return

datatype supervisor_phase =
    Starting "managed_child list" "bytes option" "(child_spec \<times> restart_budget) option"
  | Monitoring "managed_child list"
  | Restarting "managed_child list" nat
  | Draining "managed_child list" after_drain
  | Stopping "managed_child list" string nat after_drain
  | Returned

text \<open>How a process ended (a code, or a signal and whether it dumped core), and how a child was stopped.\<close>

datatype exit_status = ExitCode int | ExitSignal nat bool

datatype stop_outcome = AlreadyExited | Graceful exit_status | ForcedAfterObservationError | ForcedAfterDeadline

text \<open>
  What \<open>emit_event\<close> announces.  A ready group comes with whether it is the first, the readiness
  of the gateway and the processes of the children that have one.
\<close>

datatype supervisor_event =
    Exited string exit_status | Restarted string bytes nat | StoppingChild string
  | StoppedChild string stop_outcome | RestartingGroup
  | ReadyGroup bool "bytes option" "(string \<times> nat) list"

text \<open>\<open>ss_readiness\<close> are the readiness records of the group that starts, \<open>ss_first_start\<close> the flag of \<open>run\<close>.\<close>

record supervisor_state =
  ss_alive :: "nat set"
  ss_next_process :: nat
  ss_specs :: "child_spec list"
  ss_readiness :: "string \<rightharpoonup> bytes"
  ss_first_start :: bool
  ss_phase :: supervisor_phase
  ss_log :: "supervisor_event list"

definition supervisor_initial :: "supervisor_configuration \<Rightarrow> supervisor_state" where
  "supervisor_initial c = \<lparr> ss_alive = {}, ss_next_process = 0, ss_specs = child_specs c,
    ss_readiness = (\<lambda>_. None), ss_first_start = True, ss_phase = Starting [] None None, ss_log = [] \<rparr>"

text \<open>The active specification of a role: the gateway is told the address of the store.\<close>

definition active_spec :: "child_spec \<Rightarrow> bytes option \<Rightarrow> child_spec option" where
  "active_spec specification store_address =
    (if cs_role specification = ''gatewayd''
     then map_option (\<lambda>address. specification\<lparr> cs_arguments :=
       cs_arguments specification @ [ascii ''--store'', address] \<rparr>) store_address
     else Some specification)"

definition spawned :: "supervisor_state \<Rightarrow> nat \<times> supervisor_state" where
  "spawned s = (ss_next_process s, s\<lparr> ss_alive := insert (ss_next_process s) (ss_alive s),
    ss_next_process := ss_next_process s + 1 \<rparr>)"

definition killed :: "nat \<Rightarrow> supervisor_state \<Rightarrow> supervisor_state" where
  "killed p s = s\<lparr> ss_alive := ss_alive s - {p} \<rparr>"

text \<open>A failed attempt of a role that starts: try again, or give up the whole group.\<close>

definition start_failed :: "nat \<Rightarrow> managed_child list \<Rightarrow> bytes option \<Rightarrow> child_spec \<Rightarrow> restart_budget
    \<Rightarrow> supervisor_phase" where
  "start_failed now children store_address active budget =
    (let (ok, budget) = record_failure now budget in
     if ok then Starting children store_address (Some (active, budget)) else Draining children RetryStart)"

text \<open>
  One attempt that became ready: \<open>stabilize_ready_child\<close>, then the child joins the group, or it is
  dropped and the attempt counts as failed.
\<close>

definition start_ready :: "nat \<Rightarrow> bytes \<Rightarrow> managed_child list \<Rightarrow> bytes option \<Rightarrow> child_spec \<Rightarrow> restart_budget
    \<Rightarrow> supervisor_state \<Rightarrow> supervisor_state" where
  "start_ready now readiness children store_address active budget s =
    (let (process, s) = spawned s; i = length children;
         (stabilized, active, original) = stabilize_ready_child readiness active (ss_specs s ! i);
         s = s\<lparr> ss_specs := (ss_specs s)[i := original] \<rparr> in
     case stabilized of
       Inl _ \<Rightarrow> (killed process s)\<lparr> ss_phase := start_failed now children store_address active budget \<rparr>
     | Inr address \<Rightarrow> s\<lparr> ss_readiness := (ss_readiness s)(cs_role active \<mapsto> readiness), ss_phase := Starting
         (children @ [\<lparr> mc_child = Some process, mc_restart_budget = budget, mc_spec = active \<rparr>])
         (if address \<noteq> None then address else store_address) None \<rparr>)"

definition logged :: "supervisor_event \<Rightarrow> supervisor_state \<Rightarrow> supervisor_state" where
  "logged e s = s\<lparr> ss_log := ss_log s @ [e] \<rparr>"

text \<open>The children with a process: \<open>filter_map\<close> of \<open>pid_field\<close>.\<close>

definition process_fields :: "managed_child list \<Rightarrow> (string \<times> nat) list" where
  "process_fields children = concat (map (\<lambda>child. case mc_child child of
      None \<Rightarrow> [] | Some p \<Rightarrow> [(cs_role (mc_spec child), p)]) children)"

text \<open>A group is complete: \<open>emit_group_readiness\<close>, then it is monitored.\<close>

definition group_ready :: "managed_child list \<Rightarrow> supervisor_state \<Rightarrow> supervisor_state" where
  "group_ready children s =
    (logged (ReadyGroup (ss_first_start s) (ss_readiness s ''gatewayd'') (process_fields children)) s)
      \<lparr> ss_first_start := False, ss_phase := Monitoring children \<rparr>"

text \<open>\<open>kill_on_drop\<close>: the children that a cancelled start leaves behind.\<close>

definition processes :: "managed_child list \<Rightarrow> nat set" where
  "processes children = {p. \<exists>c \<in> set children. mc_child c = Some p}"

text \<open>One step of \<open>start_group\<close>: the next role and its active specification, a failed or a ready attempt, the complete group.\<close>

inductive start_step :: "supervisor_state \<Rightarrow> supervisor_state \<Rightarrow> bool" where
  ss_role: "ss_phase s = Starting children store_address None \<Longrightarrow> length children < length (ss_specs s) \<Longrightarrow>
    active_spec (ss_specs s ! length children) store_address = Some active \<Longrightarrow>
    start_step s (s\<lparr> ss_phase := Starting children store_address (Some (active, restart_budget_new)) \<rparr>)"
| ss_no_address: "ss_phase s = Starting children store_address None \<Longrightarrow> length children < length (ss_specs s) \<Longrightarrow>
    active_spec (ss_specs s ! length children) store_address = None \<Longrightarrow>
    start_step s (s\<lparr> ss_phase := Draining children RetryStart \<rparr>)"
| ss_start_fails: "ss_phase s = Starting children store_address (Some (active, budget)) \<Longrightarrow>
    start_step s (s\<lparr> ss_phase := start_failed now children store_address active budget \<rparr>)"
| ss_start_ready: "ss_phase s = Starting children store_address (Some (active, budget)) \<Longrightarrow>
    read_readiness (cs_role active) written = Inr readiness \<Longrightarrow>
    start_step s (start_ready now readiness children store_address active budget s)"
| ss_group: "ss_phase s = Starting children store_address None \<Longrightarrow> length children = length (ss_specs s) \<Longrightarrow>
    start_step s (group_ready children s)"

text \<open>One step of \<open>monitor_children\<close>: an exit is observed, or a child cannot be observed.\<close>

inductive monitor_step :: "supervisor_state \<Rightarrow> supervisor_state \<Rightarrow> bool" where
  ss_observed: "ss_phase s = Monitoring children \<Longrightarrow> i < length children \<Longrightarrow>
    mc_child (children ! i) = Some p \<Longrightarrow> p \<notin> ss_alive s \<Longrightarrow>
    monitor_step s (logged (Exited (cs_role (mc_spec (children ! i))) status)
      (s\<lparr> ss_phase := Restarting (children[i := (children ! i)\<lparr> mc_child := None \<rparr>]) i \<rparr>))"
| ss_observation_fails: "ss_phase s = Monitoring children \<Longrightarrow>
    monitor_step s (s\<lparr> ss_phase := Draining children StartAgain \<rparr>)"

text \<open>One step of \<open>ManagedChild::restart\<close>: the budget is exhausted, the replacement fails, or it is ready.\<close>

inductive restart_step :: "supervisor_state \<Rightarrow> supervisor_state \<Rightarrow> bool" where
  ss_exhausted: "ss_phase s = Restarting children i \<Longrightarrow>
    record_failure now (mc_restart_budget (children ! i)) = (False, budget) \<Longrightarrow>
    restart_step s (s\<lparr> ss_phase := Draining (children[i := (children ! i)\<lparr> mc_restart_budget := budget \<rparr>])
      StartAgain \<rparr>)"
| ss_restart_fails: "ss_phase s = Restarting children i \<Longrightarrow>
    record_failure now (mc_restart_budget (children ! i)) = (True, budget) \<Longrightarrow>
    restart_step s (s\<lparr> ss_phase := Restarting (children[i := (children ! i)\<lparr> mc_restart_budget := budget \<rparr>]) i \<rparr>)"
| ss_restarted: "ss_phase s = Restarting children i \<Longrightarrow>
    record_failure now (mc_restart_budget (children ! i)) = (True, budget) \<Longrightarrow>
    read_readiness (cs_role (mc_spec (children ! i))) written = Inr readiness \<Longrightarrow> spawned s = (p, s') \<Longrightarrow>
    restart_step s (logged (Restarted (cs_role (mc_spec (children ! i))) readiness p)
      (s'\<lparr> ss_phase := Monitoring (children[i := (children ! i)\<lparr> mc_child := Some p, mc_restart_budget := budget \<rparr>]) \<rparr>))"

text \<open>One step of \<open>shutdown_children\<close>: the last child was already gone, its input is closed, it leaves by itself, or it is killed.\<close>

inductive drain_step :: "supervisor_state \<Rightarrow> supervisor_state \<Rightarrow> bool" where
  ss_stop_gone: "ss_phase s = Draining children next_phase \<Longrightarrow> children \<noteq> [] \<Longrightarrow> mc_child (last children) = None \<Longrightarrow>
    drain_step s (logged (StoppedChild (cs_role (mc_spec (last children))) AlreadyExited)
      (logged (StoppingChild (cs_role (mc_spec (last children))))
        (s\<lparr> ss_phase := Draining (butlast children) next_phase \<rparr>)))"
| ss_stop: "ss_phase s = Draining children next_phase \<Longrightarrow> children \<noteq> [] \<Longrightarrow> mc_child (last children) = Some p \<Longrightarrow>
    drain_step s (logged (StoppingChild (cs_role (mc_spec (last children))))
      (s\<lparr> ss_phase := Stopping (butlast children) (cs_role (mc_spec (last children))) p next_phase \<rparr>))"
| ss_graceful: "ss_phase s = Stopping children role p next_phase \<Longrightarrow> p \<notin> ss_alive s \<Longrightarrow>
    drain_step s (logged (StoppedChild role (Graceful status)) (s\<lparr> ss_phase := Draining children next_phase \<rparr>))"
| ss_forced: "ss_phase s = Stopping children role p next_phase \<Longrightarrow>
    outcome \<in> {ForcedAfterObservationError, ForcedAfterDeadline} \<Longrightarrow>
    drain_step s (logged (StoppedChild role outcome) (killed p (s\<lparr> ss_phase := Draining children next_phase \<rparr>)))"

text \<open>
  The supervisor: a process exits, one of its parts makes a step, the \<open>select!\<close> of \<open>run\<close> lets
  shutdown cancel the start or the monitoring, or a drain is over.
\<close>

inductive supervisor_step :: "supervisor_state \<Rightarrow> supervisor_state \<Rightarrow> bool" where
  ss_exit: "p \<in> ss_alive s \<Longrightarrow> supervisor_step s (killed p s)"
| ss_start: "start_step s s' \<Longrightarrow> supervisor_step s s'"
| ss_monitor: "monitor_step s s' \<Longrightarrow> supervisor_step s s'"
| ss_restart: "restart_step s s' \<Longrightarrow> supervisor_step s s'"
| ss_drain: "drain_step s s' \<Longrightarrow> supervisor_step s s'"
| ss_cancel_start: "ss_phase s = Starting children store_address role \<Longrightarrow>
    supervisor_step s (s\<lparr> ss_alive := ss_alive s - processes children, ss_phase := Returned \<rparr>)"
| ss_shutdown: "ss_phase s = Monitoring children \<or> ss_phase s = Restarting children i \<Longrightarrow>
    supervisor_step s (s\<lparr> ss_phase := Draining children Return \<rparr>)"
| ss_cancel_drain: "ss_phase s = Draining children RetryStart \<Longrightarrow>
    supervisor_step s (s\<lparr> ss_alive := ss_alive s - processes children, ss_phase := Returned \<rparr>)"
| ss_cancel_stop: "ss_phase s = Stopping children role p RetryStart \<Longrightarrow>
    supervisor_step s (s\<lparr> ss_alive := ss_alive s - processes children - {p}, ss_phase := Returned \<rparr>)"
| ss_again: "ss_phase s = Draining [] next_phase \<Longrightarrow> next_phase \<noteq> Return \<Longrightarrow>
    supervisor_step s (logged RestartingGroup (s\<lparr> ss_readiness := \<lambda>_. None, ss_phase := Starting [] None None \<rparr>))"
| ss_return: "ss_phase s = Draining [] Return \<Longrightarrow> supervisor_step s (s\<lparr> ss_phase := Returned \<rparr>)"

inductive supervisor_run :: "supervisor_configuration \<Rightarrow> supervisor_state \<Rightarrow> bool" for c where
  run_start: "supervisor_run c (supervisor_initial c)"
| run_step: "supervisor_run c s \<Longrightarrow> supervisor_step s s' \<Longrightarrow> supervisor_run c s'"



section \<open>The sliding window\<close>

lemma record_failure_spec:
  assumes "sorted b" "list_all (\<lambda>t. t \<le> now) b"
  shows "record_failure now b = (let recent = filter (\<lambda>t. now - t < MAX_RESTART_TIME) b in
    if length recent < MAX_RESTARTS then (True, recent @ [now]) else (False, recent))"
proof -
  have "dropWhile (\<lambda>t. now - t \<ge> MAX_RESTART_TIME) b = filter (\<lambda>t. now - t < MAX_RESTART_TIME) b"
    using assms
  proof (induction b)
    case (Cons t b)
    have "filter (\<lambda>t. now - t < MAX_RESTART_TIME) b = b" if "now - t < MAX_RESTART_TIME"
    proof -
      have "now - u < MAX_RESTART_TIME" if "u \<in> set b" for u
        using Cons.prems that \<open>now - t < MAX_RESTART_TIME\<close> by fastforce
      then show ?thesis by simp
    qed
    with Cons show ?case by auto
  qed simp
  then show ?thesis by (auto simp add: record_failure_def Let_def not_less)
qed

text \<open>The failures of a list that lie within the window that ends at \<open>now\<close>.\<close>

definition window :: "nat \<Rightarrow> nat list \<Rightarrow> nat list" where
  "window now ts = filter (\<lambda>t. t \<le> now \<and> now - t < MAX_RESTART_TIME) ts"

lemma recorded_snoc:
  "recorded_failures (ts @ [now]) b = (let (r, b) = recorded_failures ts b; (ok, b) = record_failure now b in
    (if ok then r @ [now] else r, b))"
  by (induction ts arbitrary: b) (simp_all add: split_beta Let_def)

text \<open>
  The budget holds the recorded failures that were recent at the last one; a failure is recorded
  exactly when the window before it has room.
\<close>

lemma budget_window:
  assumes "sorted (ts @ [now])"
  shows "set (fst (recorded_failures ts [])) \<subseteq> set ts \<and> sorted (fst (recorded_failures ts []))
    \<and> record_failure now (snd (recorded_failures ts [])) =
      (let recent = window now (fst (recorded_failures ts [])) in
       if length recent < MAX_RESTARTS then (True, recent @ [now]) else (False, recent))"
  using assms
proof (induction ts arbitrary: now rule: rev_induct)
  case Nil
  then show ?case by (simp add: record_failure_def window_def MAX_RESTARTS_def)
next
  case (snoc t ts)
  let ?r = "fst (recorded_failures ts [])" and ?b = "snd (recorded_failures ts [])"
  have s: "sorted (ts @ [t])" "t \<le> now" "\<And>u. u \<in> set ts \<Longrightarrow> u \<le> t"
    using snoc.prems by (auto simp add: sorted_append)
  note IH = snoc.IH [OF s(1)]
  let ?recent = "window t ?r"
  define r where "r = fst (recorded_failures (ts @ [t]) [])"
  define b where "b = snd (recorded_failures (ts @ [t]) [])"
  have step: "r = (if length ?recent < MAX_RESTARTS then ?r @ [t] else ?r)"
    "b = (if length ?recent < MAX_RESTARTS then ?recent @ [t] else ?recent)"
    using IH by (simp_all add: r_def b_def recorded_snoc split_beta Let_def)
  have r: "set r \<subseteq> set (ts @ [t])" "sorted r"
    using IH s(3) by (auto simp add: step sorted_append)
  have "MAX_RESTART_TIME > 0" by (simp add: MAX_RESTART_TIME_def)
  then have b: "b = filter (\<lambda>u. t - u < MAX_RESTART_TIME) r"
    using IH s(3) by (auto simp add: step window_def intro!: filter_cong)
  have later: "now - u < MAX_RESTART_TIME \<Longrightarrow> t - u < MAX_RESTART_TIME" for u using s(2) by linarith
  have "sorted b" "list_all (\<lambda>u. u \<le> now) b"
    using r s(2,3) by (auto simp add: b sorted_wrt_filter list_all_iff intro: le_trans)
  then have "record_failure now b = (let recent = filter (\<lambda>u. now - u < MAX_RESTART_TIME) b in
      if length recent < MAX_RESTARTS then (True, recent @ [now]) else (False, recent))"
    by (rule record_failure_spec)
  moreover have "u \<le> now" if "u \<in> set r" for u
    using r(1) s(2,3) that by (auto intro: le_trans)
  then have "filter (\<lambda>u. now - u < MAX_RESTART_TIME) b = window now r"
    using later by (auto simp add: b window_def intro!: filter_cong)
  ultimately show ?case using r by (simp add: r_def b_def)
qed

lemma windows_bounded:
  assumes "sorted ts"
  shows "length (window now (fst (recorded_failures ts []))) \<le> MAX_RESTARTS"
  using assms
proof (induction ts arbitrary: now rule: rev_induct)
  case Nil
  show ?case by (simp add: window_def)
next
  case (snoc t ts)
  let ?r = "fst (recorded_failures ts [])"
  have s: "sorted ts" using snoc.prems by (simp add: sorted_append)
  note step = budget_window [OF snoc.prems]
  show ?case
  proof (cases "length (window t ?r) < MAX_RESTARTS \<and> t \<le> now \<and> now - t < MAX_RESTART_TIME")
    case True
    have "window now ?r = filter (\<lambda>u. u \<le> now \<and> now - u < MAX_RESTART_TIME) (window t ?r)"
      using True step snoc.prems by (auto simp add: window_def sorted_append intro!: filter_cong)
    then have "length (window now ?r) \<le> length (window t ?r)" by simp
    then show ?thesis using True step by (simp add: recorded_snoc split_beta Let_def window_def)
  next
    case False
    then show ?thesis
      using snoc.IH [OF s, of now] step by (auto simp add: recorded_snoc split_beta Let_def window_def)
  qed
qed


section \<open>Generations\<close>

text \<open>The specification of a child that binds a given address.\<close>

definition bound_spec :: "child_spec \<Rightarrow> bytes \<Rightarrow> child_spec" where
  "bound_spec spec x = spec\<lparr> cs_arguments :=
    snd (replace_argument_value (ascii ''--bind'') x False (cs_arguments spec)) \<rparr>"

definition stored_at :: "supervisor_configuration \<Rightarrow> bytes \<Rightarrow> child_spec" where
  "stored_at c x = bound_spec (child_specs c ! 0) x"

definition gateway_at :: "supervisor_configuration \<Rightarrow> bytes \<Rightarrow> child_spec" where
  "gateway_at c x = bound_spec (child_specs c ! 1) x"

definition gateway_active :: "supervisor_configuration \<Rightarrow> bytes \<Rightarrow> bytes \<Rightarrow> child_spec" where
  "gateway_active c x a = (gateway_at c x)\<lparr> cs_arguments :=
    cs_arguments (gateway_at c x) @ [ascii ''--store'', a] \<rparr>"

lemmas spec_defs = stored_at_def gateway_at_def gateway_active_def bound_spec_def child_specs_def

lemma spec_roles [simp]:
  "cs_role (stored_at c x) = ''stored''" "cs_role (gateway_at c x) = ''gatewayd''"
  "cs_role (gateway_active c x a) = ''gatewayd''"
  by (simp_all add: spec_defs Let_def)

lemma stabilize_stored:
  "stabilize_ready_child readiness (stored_at c x) original =
    (case readiness_field (ascii ''address'') readiness of
      None \<Rightarrow> (Inl ReadinessOmittedAddress, stored_at c x, original)
    | Some a \<Rightarrow> (Inr (Some a), stored_at c a, original))"
  by (simp add: stabilize_ready_child_def spec_defs Let_def split: option.split)

lemma stabilize_gateway:
  "stabilize_ready_child readiness (gateway_active c x s) (gateway_at c y) =
    (case readiness_field (ascii ''address'') readiness of
      None \<Rightarrow> (Inl ReadinessOmittedAddress, gateway_active c x s, gateway_at c y)
    | Some a \<Rightarrow> (Inr None, gateway_active c a s, gateway_at c a))"
  by (simp add: stabilize_ready_child_def spec_defs Let_def split: option.split)

lemma initial_specs:
  "child_specs c = [stored_at c (ascii ''127.0.0.1:0''), gateway_at c (svc_bind_address c)]"
  by (simp add: spec_defs Let_def)

text \<open>
  The invariant: the specifications are the configuration's, the children of a generation are a
  prefix of store and gateway, the gateway is told the address the store is bound to, and
  every process alive is held by some child.
\<close>

definition started :: "supervisor_configuration \<Rightarrow> managed_child list \<Rightarrow> bytes option \<Rightarrow> bool" where
  "started c children address \<longleftrightarrow> (case map mc_spec children of
      [] \<Rightarrow> address = None
    | [stored] \<Rightarrow> (\<exists>a. address = Some a \<and> stored = stored_at c a)
    | [stored, gateway] \<Rightarrow> (\<exists>a x. address = Some a \<and> stored = stored_at c a \<and> gateway = gateway_active c x a)
    | _ \<Rightarrow> False)"

definition trying :: "supervisor_configuration \<Rightarrow> nat \<Rightarrow> bytes option \<Rightarrow> child_spec \<Rightarrow> bool" where
  "trying c n address active \<longleftrightarrow> n = 0 \<and> (\<exists>x. active = stored_at c x)
    \<or> n = 1 \<and> (\<exists>a x. address = Some a \<and> active = gateway_active c x a)"

definition specs_ok :: "supervisor_configuration \<Rightarrow> child_spec list \<Rightarrow> bool" where
  "specs_ok c specs \<longleftrightarrow> (\<exists>x. specs = [stored_at c (ascii ''127.0.0.1:0''), gateway_at c x])"

fun phase_ok :: "supervisor_configuration \<Rightarrow> nat set \<Rightarrow> supervisor_phase \<Rightarrow> bool" where
  "phase_ok c alive (Starting children address role) \<longleftrightarrow> alive \<subseteq> processes children
    \<and> started c children address \<and> (\<forall>child \<in> set children. mc_child child \<noteq> None)
    \<and> (\<forall>active budget. role = Some (active, budget) \<longrightarrow>
      trying c (length children) address active)"
| "phase_ok c alive (Monitoring children) \<longleftrightarrow> alive \<subseteq> processes children \<and> length children = 2
    \<and> (\<exists>address. started c children address) \<and> (\<forall>child \<in> set children. mc_child child \<noteq> None)"
| "phase_ok c alive (Restarting children i) \<longleftrightarrow> alive \<subseteq> processes children \<and> length children = 2 \<and> i < 2
    \<and> (\<exists>address. started c children address)
    \<and> (\<forall>j < 2. mc_child (children ! j) = None \<longleftrightarrow> j = i)"
| "phase_ok c alive (Draining children next_phase) \<longleftrightarrow> alive \<subseteq> processes children
    \<and> (\<exists>address. started c children address)"
| "phase_ok c alive (Stopping children role p next_phase) \<longleftrightarrow> alive \<subseteq> insert p (processes children)
    \<and> (\<exists>address. started c children address) \<and> length children < 2
    \<and> role = [''stored'', ''gatewayd''] ! length children"
| "phase_ok c alive Returned \<longleftrightarrow> alive = {}"

definition supervisor_ok :: "supervisor_configuration \<Rightarrow> supervisor_state \<Rightarrow> bool" where
  "supervisor_ok c s \<longleftrightarrow> specs_ok c (ss_specs s) \<and> phase_ok c (ss_alive s) (ss_phase s)"

lemma processes_simps [simp]:
  "processes [] = {}" "processes (child # children) = set_option (mc_child child) \<union> processes children"
  "processes (children @ children') = processes children \<union> processes children'"
  by (auto simp add: processes_def)

lemma started_cases:
  assumes "started c children address"
  obtains (none) "children = []" "address = None"
  | (stored) child a where "children = [child]" "address = Some a" "mc_spec child = stored_at c a"
  | (both) child child' a x where "children = [child, child']" "address = Some a"
      "mc_spec child = stored_at c a" "mc_spec child' = gateway_active c x a"
proof (cases children)
  case Nil
  then show ?thesis using assms none by (simp add: started_def)
next
  case (Cons child rest)
  note cons = Cons
  show ?thesis
  proof (cases rest)
    case Nil
    then show ?thesis using assms stored cons by (auto simp add: started_def)
  next
    case (Cons child' rest')
    then show ?thesis using assms both cons by (cases rest') (auto simp add: started_def)
  qed
qed

lemma started_simps [simp]:
  "started c [] address \<longleftrightarrow> address = None"
  "started c [child] address \<longleftrightarrow> (\<exists>a. address = Some a \<and> mc_spec child = stored_at c a)"
  "started c [child, child'] address \<longleftrightarrow> (\<exists>a x. address = Some a \<and> mc_spec child = stored_at c a
    \<and> mc_spec child' = gateway_active c x a)"
  by (simp_all add: started_def)

lemma started_length: "started c children address \<Longrightarrow> length children \<le> 2"
  by (erule started_cases) simp_all

text \<open>What a drain takes from the group leaves the first children.\<close>

lemma started_butlast:
  assumes "started c children address" "children \<noteq> []"
  shows "\<exists>address. started c (butlast children) address"
    "cs_role (mc_spec (last children)) = [''stored'', ''gatewayd''] ! length (butlast children)"
    "length (butlast children) < 2"
    "processes children = set_option (mc_child (last children)) \<union> processes (butlast children)"
  using assms(2) by (cases rule: started_cases [OF assms(1)]; auto)+

lemma started_update:
  assumes "started c children address" "mc_spec child = mc_spec (children ! i)"
  shows "started c (children[i := child]) address"
proof (cases "i < length children")
  case True
  then show ?thesis
    using assms(2) by (cases rule: started_cases [OF assms(1)]) (auto simp add: less_Suc_eq numeral_2_eq_2)
next
  case False
  then show ?thesis using assms(1) by (simp add: list_update_beyond)
qed


lemma processes_update:
  assumes "mc_child child = mc_child (children ! i)"
  shows "processes (children[i := child]) = processes children"
proof (cases "i < length children")
  case True
  then have "set (map mc_child (children[i := child])) = set (map mc_child children)"
    using assms by (metis list_update_id map_update nth_map)
  moreover have "processes xs = {p. Some p \<in> set (map mc_child xs)}" for xs
    by (force simp add: processes_def)
  ultimately show ?thesis by simp
qed (simp add: list_update_beyond)

lemma processes_lost:
  assumes "mc_child (children ! i) = Some p" "p \<notin> alive" "alive \<subseteq> processes children"
  shows "alive \<subseteq> processes (children[i := (children ! i)\<lparr> mc_child := None \<rparr>])"
proof
  fix q
  assume "q \<in> alive"
  then have "q \<in> processes children" using assms(3) by blast
  then obtain j where "j < length children" "mc_child (children ! j) = Some q"
    by (auto simp add: processes_def in_set_conv_nth)
  moreover have "j \<noteq> i" using calculation assms(1,2) \<open>q \<in> alive\<close> by auto
  ultimately show "q \<in> processes (children[i := (children ! i)\<lparr> mc_child := None \<rparr>])"
    unfolding processes_def by (force simp add: in_set_conv_nth intro!: exI [of _ j])
qed

lemma started_snoc:
  assumes "started c children address" "trying c (length children) address spec"
    and "length children = 0 \<Longrightarrow> spec = stored_at c a \<and> address' = Some a" "length children \<noteq> 0 \<Longrightarrow> address' = address"
  shows "started c (children @ [\<lparr> mc_child = p, mc_restart_budget = b, mc_spec = spec \<rparr>]) address'"
  using assms(2-4) by (cases rule: started_cases [OF assms(1)]) (auto simp add: trying_def)

lemma start_failed_ok:
  assumes "alive \<subseteq> processes children" "started c children address" "trying c (length children) address active"
    and "\<forall>child \<in> set children. mc_child child \<noteq> None"
  shows "phase_ok c alive (start_failed now children address active budget)"
  using assms by (auto simp add: start_failed_def split_beta Let_def)

lemma start_ready_ok:
  assumes "supervisor_ok c s" "ss_phase s = Starting children address (Some (active, budget))"
  shows "supervisor_ok c (start_ready now readiness children address active budget s)"
proof -
  have s: "specs_ok c (ss_specs s)" "ss_alive s \<subseteq> processes children" "started c children address"
    "trying c (length children) address active" "\<forall>child \<in> set children. mc_child child \<noteq> None"
    using assms by (auto simp add: supervisor_ok_def)
  obtain y where specs: "ss_specs s = [stored_at c (ascii ''127.0.0.1:0''), gateway_at c y]"
    using s(1) by (auto simp add: specs_ok_def)
  from s(4) consider (stored) x where "length children = 0" "active = stored_at c x"
    | (gateway) a x where "length children = 1" "address = Some a" "active = gateway_active c x a"
    unfolding trying_def by blast
  then show ?thesis
  proof cases
    case stored
    then have "children = []" "address = None" using s(3) by auto
    then show ?thesis
      using s specs stored start_failed_ok [of "ss_alive s - {ss_next_process s}" "[]" c None "stored_at c x"]
      by (auto simp add: start_ready_def spawned_def killed_def supervisor_ok_def specs_ok_def stabilize_stored
          Let_def trying_def split: option.split)
  next
    case gateway
    have "started c (children @ [\<lparr> mc_child = Some p, mc_restart_budget = budget, mc_spec = gateway_active c z a \<rparr>]) address" for p z
      by (rule started_snoc [OF s(3)]) (use gateway in \<open>auto simp add: trying_def\<close>)
    moreover have "phase_ok c (ss_alive s - {ss_next_process s})
        (start_failed now children address (gateway_active c x a) budget)"
      by (rule start_failed_ok) (use s gateway in auto)
    ultimately show ?thesis
      using s specs gateway
      by (auto simp add: start_ready_def spawned_def killed_def supervisor_ok_def specs_ok_def stabilize_gateway
          Let_def split: option.split)
  qed
qed

lemma all_less_two: "(\<forall>j < (2 :: nat). P j) \<longleftrightarrow> P 0 \<and> P 1"
  by (auto simp add: less_2_cases_iff)

lemma restarted_ok:
  assumes "supervisor_ok c s" "ss_phase s = Restarting children i" "spawned s = (p, s')"
  shows "phase_ok c (ss_alive s') (Monitoring (children[i := (children ! i)\<lparr> mc_child := Some p, mc_restart_budget := b \<rparr>]))"
proof -
  obtain address where s: "ss_alive s \<subseteq> processes children" "length children = 2" "i < 2"
    "started c children address" "\<forall>j < 2. mc_child (children ! j) = None \<longleftrightarrow> j = i"
    using assms(1,2) by (auto simp add: supervisor_ok_def)
  obtain x y where children: "children = [x, y]"
    using s(2) by (auto simp add: numeral_2_eq_2 length_Suc_conv)
  have "i = 0 \<or> i = 1" using s(3) by linarith
  then show ?thesis
    using assms(3) s started_update [OF s(4), of "(children ! i)\<lparr> mc_child := Some p, mc_restart_budget := b \<rparr>" i]
    by (auto simp add: children spawned_def all_less_two)
qed

lemma logged_ok [simp]: "supervisor_ok c (logged e s) = supervisor_ok c s"
  by (simp add: logged_def supervisor_ok_def)

lemma start_step_ok: "start_step s s' \<Longrightarrow> supervisor_ok c s \<Longrightarrow> supervisor_ok c s'"
proof (induction rule: start_step.induct)
  case (ss_role s children address active)
  then have s: "started c children address" "specs_ok c (ss_specs s)"
    by (auto simp add: supervisor_ok_def)
  obtain y where specs: "ss_specs s = [stored_at c (ascii ''127.0.0.1:0''), gateway_at c y]"
    using s(2) by (auto simp add: specs_ok_def)
  have "trying c (length children) address active"
    using ss_role(2,3) specs
    by (cases rule: started_cases [OF s(1)])
      (auto simp add: trying_def active_spec_def gateway_active_def)
  then show ?case using ss_role by (auto simp add: supervisor_ok_def)
next
  case (ss_start_fails s children address active budget now)
  then show ?case using start_failed_ok by (auto simp add: supervisor_ok_def)
next
  case (ss_start_ready s children address active budget out readiness now)
  then show ?case by (intro start_ready_ok)
qed (auto simp add: supervisor_ok_def specs_ok_def killed_def group_ready_def logged_def)

lemma monitor_step_ok: "monitor_step s s' \<Longrightarrow> supervisor_ok c s \<Longrightarrow> supervisor_ok c s'"
proof (induction rule: monitor_step.induct)
  case (ss_observed s children i p)
  then have s: "ss_alive s \<subseteq> processes children" "length children = 2" "specs_ok c (ss_specs s)"
    "\<forall>child \<in> set children. mc_child child \<noteq> None" "\<exists>address. started c children address"
    by (auto simp add: supervisor_ok_def)
  let ?children = "children[i := (children ! i)\<lparr> mc_child := None \<rparr>]"
  have "ss_alive s \<subseteq> processes ?children"
    by (rule processes_lost [OF ss_observed(3,4) s(1)])
  moreover have "\<exists>address. started c ?children address"
    using s(5) started_update [of c children _ "(children ! i)\<lparr> mc_child := None \<rparr>" i] by auto
  moreover have "mc_child (?children ! j) = None \<longleftrightarrow> j = i" if "j < 2" for j
    using s(2,4) ss_observed(2) that by (auto simp add: nth_list_update)
  ultimately show ?case
    using s ss_observed(2) by (simp add: supervisor_ok_def logged_def)
qed (auto simp add: supervisor_ok_def specs_ok_def killed_def group_ready_def logged_def)

lemma restart_step_ok: "restart_step s s' \<Longrightarrow> supervisor_ok c s \<Longrightarrow> supervisor_ok c s'"
proof (induction rule: restart_step.induct)
  case (ss_exhausted s children i now budget)
  then show ?case
    using started_update [of c children _ "(children ! i)\<lparr> mc_restart_budget := budget \<rparr>" i]
    by (auto simp add: supervisor_ok_def processes_update)
next
  case (ss_restart_fails s children i now budget)
  then show ?case
    using started_update [of c children _ "(children ! i)\<lparr> mc_restart_budget := budget \<rparr>" i]
    by (auto simp add: supervisor_ok_def processes_update nth_list_update)
next
  case (ss_restarted s children i now budget out readiness p s')
  then show ?case
    using restarted_ok [of c s children i p s' budget]
    by (auto simp add: supervisor_ok_def spawned_def logged_def)
qed

lemma drain_step_ok: "drain_step s s' \<Longrightarrow> supervisor_ok c s \<Longrightarrow> supervisor_ok c s'"
proof (induction rule: drain_step.induct)
  case (ss_stop_gone s children next_phase)
  then show ?case using started_butlast [of c children] by (auto simp add: supervisor_ok_def logged_def)
next
  case (ss_stop s children next_phase p)
  then show ?case using started_butlast [of c children] by (auto simp add: supervisor_ok_def logged_def)
qed (auto simp add: supervisor_ok_def specs_ok_def killed_def group_ready_def logged_def)

lemma supervisor_step_ok: "supervisor_step s s' \<Longrightarrow> supervisor_ok c s \<Longrightarrow> supervisor_ok c s'"
proof (induction rule: supervisor_step.induct)
  case (ss_exit p s)
  have "phase_ok c (alive - {p}) phase" if "phase_ok c alive phase" for alive phase
    using that by (cases phase) auto
  then show ?case using ss_exit by (simp add: killed_def supervisor_ok_def)
next
  case (ss_start s s')
  then show ?case by (rule start_step_ok)
next
  case (ss_monitor s s')
  then show ?case by (rule monitor_step_ok)
next
  case (ss_restart s s')
  then show ?case by (rule restart_step_ok)
next
  case (ss_drain s s')
  then show ?case by (rule drain_step_ok)
qed (auto simp add: supervisor_ok_def specs_ok_def killed_def group_ready_def logged_def)

lemma supervisor_run_ok: "supervisor_run c s \<Longrightarrow> supervisor_ok c s"
proof (induction rule: supervisor_run.induct)
  case run_start
  show ?case by (auto simp add: supervisor_ok_def supervisor_initial_def specs_ok_def initial_specs)
next
  case (run_step s s')
  then show ?case by (blast intro: supervisor_step_ok)
qed

lemma processes_card: "finite (processes children) \<and> card (processes children) \<le> length children"
proof (induction children)
  case (Cons child children)
  have "card (set_option (mc_child child)) \<le> 1" by (cases "mc_child child") auto
  moreover note card_Un_le [of "set_option (mc_child child)" "processes children"]
  ultimately show ?case using Cons by auto
qed simp

lemma card_within: "alive \<subseteq> processes children \<Longrightarrow> finite alive \<and> card alive \<le> length children"
  by (meson card_mono finite_subset order_trans processes_card)

lemma card_within_two: "alive \<subseteq> processes children \<Longrightarrow> length children \<le> 2 \<Longrightarrow> finite alive \<and> card alive \<le> 2"
  using card_within le_trans by blast

lemma phase_alive:
  assumes "phase_ok c alive phase"
  shows "finite alive \<and> card alive \<le> 2"
proof (cases phase)
  case (Stopping children role p next_phase)
  then have "alive - {p} \<subseteq> processes children" "length children < 2" using assms by auto
  then have "finite (alive - {p})" "card (alive - {p}) \<le> 1" using card_within [of "alive - {p}" children] by auto
  then show ?thesis by (cases "p \<in> alive") auto
next
  case (Starting children address role)
  then have "alive \<subseteq> processes children" "length children \<le> 2" using assms started_length by auto
  then show ?thesis by (rule card_within_two)
next
  case (Monitoring children)
  then have "alive \<subseteq> processes children" "length children \<le> 2" using assms by auto
  then show ?thesis by (rule card_within_two)
next
  case (Restarting children i)
  then have "alive \<subseteq> processes children" "length children \<le> 2" using assms by auto
  then show ?thesis by (rule card_within_two)
next
  case (Draining children next_phase)
  then have "alive \<subseteq> processes children" "length children \<le> 2" using assms started_length by auto
  then show ?thesis by (rule card_within_two)
next
  case Returned
  then show ?thesis using assms by simp
qed

lemma bound_arguments:
  "cs_arguments (stored_at c a) = [ascii ''--bind'', a] @ drop 2 (cs_arguments (child_specs c ! 0))"
  "cs_arguments (gateway_active c x a) = [ascii ''--bind'', x] @ drop 2 (cs_arguments (child_specs c ! 1))
    @ [ascii ''--store'', a]"
  by (simp_all add: spec_defs Let_def)

text \<open>
  A store and a gateway with the configured arguments, the gateway told the address its store
  is bound to.
\<close>

definition consistent_group :: "supervisor_configuration \<Rightarrow> managed_child list \<Rightarrow> bool" where
  "consistent_group c children \<longleftrightarrow> (\<exists>stored gateway a x. map mc_spec children = [stored, gateway]
    \<and> cs_role stored = ''stored'' \<and> cs_role gateway = ''gatewayd''
    \<and> cs_arguments stored = [ascii ''--bind'', a] @ drop 2 (cs_arguments (child_specs c ! 0))
    \<and> cs_arguments gateway = [ascii ''--bind'', x] @ drop 2 (cs_arguments (child_specs c ! 1))
      @ [ascii ''--store'', a])"

lemma monitored_specs:
  assumes "length children = 2" "started c children address"
  shows "consistent_group c children"
proof -
  obtain a x where "map mc_spec children = [stored_at c a, gateway_active c x a]"
    using assms(1) by (cases rule: started_cases [OF assms(2)]) auto
  then show ?thesis unfolding consistent_group_def by (intro exI conjI) (rule bound_arguments spec_roles | assumption)+
qed

lemma resting_alone: "phase_ok c alive phase \<Longrightarrow> phase = Starting [] address role \<or> phase = Returned \<Longrightarrow> alive = {}"
  by auto

lemma monitored_phase:
  assumes "phase_ok c alive (Monitoring children)"
  shows "\<exists>address. length children = 2 \<and> started c children address"
  using assms by simp

lemma stopping_alone:
  assumes "phase_ok c alive (Stopping children ''stored'' p next_phase)"
  shows "alive \<subseteq> {p}"
proof -
  have "alive \<subseteq> insert p (processes children)" "length children < 2"
    "''stored'' = [''stored'', ''gatewayd''] ! length children"
    using assms by simp_all
  moreover from this(2,3) have "children = []" by (cases children) auto
  ultimately show ?thesis by simp
qed

text \<open>Both children become ready at once: the generation every configuration can reach.\<close>

lemma readiness_lines:
  "read_readiness ''stored'' (ascii ''READY stored address=a'' @ [0x0A]) = Inr (ascii ''READY stored address=a'')"
  "read_readiness ''gatewayd'' (ascii ''READY gatewayd address=b'' @ [0x0A]) = Inr (ascii ''READY gatewayd address=b'')"
  "readiness_field (ascii ''address'') (ascii ''READY stored address=a'') = Some (ascii ''a'')"
  "readiness_field (ascii ''address'') (ascii ''READY gatewayd address=b'') = Some (ascii ''b'')"
  by code_simp+

lemma group_becomes_ready:
  "\<exists>s children. supervisor_run c s \<and> ss_phase s = Monitoring children \<and> ss_alive s = {0, 1}"
proof -
  let ?stored = "\<lambda>x. stored_at c (ascii x)" and ?active = "\<lambda>x. gateway_active c x (ascii ''a'')"
  let ?first = "\<lparr> mc_child = Some 0, mc_restart_budget = [], mc_spec = ?stored ''a'' \<rparr>"
  let ?second = "\<lparr> mc_child = Some 1, mc_restart_budget = [], mc_spec = ?active (ascii ''b'') \<rparr>"
  have init: "supervisor_run c (supervisor_initial c)" by (rule run_start)
  let ?s0 = "supervisor_initial c"
  have phase: "ss_phase ?s0 = Starting [] None None" "ss_specs ?s0 = [?stored ''127.0.0.1:0'', gateway_at c (svc_bind_address c)]"
    by (simp_all add: supervisor_initial_def initial_specs)
  let ?s1 = "?s0\<lparr> ss_phase := Starting [] None (Some (?stored ''127.0.0.1:0'', [])) \<rparr>"
  have run: "supervisor_run c ?s1"
    using run_step [OF init ss_start [OF ss_role [OF phase(1), of "?stored ''127.0.0.1:0''"]]] phase
    by (simp add: active_spec_def restart_budget_new_def)
  let ?s2 = "?s0\<lparr> ss_alive := {0}, ss_next_process := 1, ss_phase := Starting [?first] (Some (ascii ''a'')) None,
    ss_readiness := [''stored'' \<mapsto> ascii ''READY stored address=a''] \<rparr>"
  have "start_ready 0 (ascii ''READY stored address=a'') [] None (?stored ''127.0.0.1:0'') [] ?s1 = ?s2"
    using phase by (simp add: start_ready_def spawned_def stabilize_stored readiness_lines supervisor_initial_def)
  then have run: "supervisor_run c ?s2"
    using run_step [OF run ss_start [OF ss_start_ready [where now = 0 and written = "ascii ''READY stored address=a'' @ [0x0A]"
        and readiness = "ascii ''READY stored address=a''" and children = "[]"]]]
    by (simp add: readiness_lines)
  let ?s3 = "?s2\<lparr> ss_phase := Starting [?first] (Some (ascii ''a'')) (Some (?active (svc_bind_address c), [])) \<rparr>"
  have run: "supervisor_run c ?s3"
    using run_step [OF run ss_start [OF ss_role [where children = "[?first]" and active = "?active (svc_bind_address c)"]]] phase
    by (simp add: active_spec_def restart_budget_new_def gateway_active_def)
  let ?s4 = "?s2\<lparr> ss_alive := {0, 1}, ss_next_process := 2, ss_phase := Starting [?first, ?second] (Some (ascii ''a'')) None,
    ss_specs := [?stored ''127.0.0.1:0'', gateway_at c (ascii ''b'')],
    ss_readiness := [''stored'' \<mapsto> ascii ''READY stored address=a'', ''gatewayd'' \<mapsto> ascii ''READY gatewayd address=b''] \<rparr>"
  have "start_ready 0 (ascii ''READY gatewayd address=b'') [?first] (Some (ascii ''a'')) (?active (svc_bind_address c)) [] ?s3 = ?s4"
    using phase by (auto simp add: start_ready_def spawned_def stabilize_gateway readiness_lines supervisor_initial_def)
  then have run: "supervisor_run c ?s4"
    using run_step [OF run ss_start [OF ss_start_ready [where now = 0 and written = "ascii ''READY gatewayd address=b'' @ [0x0A]"
        and readiness = "ascii ''READY gatewayd address=b''" and children = "[?first]"]]]
    by (simp add: readiness_lines)
  have "supervisor_run c (group_ready [?first, ?second] ?s4)"
    by (rule run_step [OF run ss_start [OF ss_group [where store_address = "Some (ascii ''a'')"]]]) simp_all
  then show ?thesis by (intro exI conjI) (auto simp add: group_ready_def logged_def)
qed

section \<open>Properties\<close>

text \<open>
  C36: a restart budget bounds the restarts of a role: however often it fails, at most five of
  its failures within any thirty seconds are answered with a restart, and a failure is refused,
  which drains the whole group, exactly when five earlier ones of the last thirty seconds were
  answered.
\<close>

theorem restart_budget_bounds_restarts:
  assumes "sorted (ts @ [now])"
  shows "length (filter (\<lambda>t. t \<le> u \<and> u - t < MAX_RESTART_TIME) (fst (recorded_failures ts restart_budget_new))) \<le> 5
    \<and> (fst (record_failure now (snd (recorded_failures ts restart_budget_new))) \<longleftrightarrow>
      length (filter (\<lambda>t. now - t < MAX_RESTART_TIME) (fst (recorded_failures ts restart_budget_new))) < 5)"
proof -
  let ?r = "fst (recorded_failures ts [])"
  have "sorted ts" using assms by (simp add: sorted_append)
  note bounded = windows_bounded [OF this, of u] and step = budget_window [OF assms]
  have "window now ?r = filter (\<lambda>t. now - t < MAX_RESTART_TIME) ?r"
    using step assms by (auto simp add: window_def sorted_append intro!: filter_cong)
  then show ?thesis
    using bounded step by (simp add: restart_budget_new_def window_def MAX_RESTARTS_def Let_def)
qed

theorem restart_budget_bounds_restarts_witness:
  "\<not> fst (record_failure 6 (snd (recorded_failures [1, 2, 3, 4, 5] restart_budget_new)))
    \<and> length (fst (recorded_failures [1, 2, 3, 4, 5] restart_budget_new)) = 5"
proof -
  have five: "recorded_failures [1, 2, 3, 4, 5] restart_budget_new = ([1, 2, 3, 4, 5], [1, 2, 3, 4, 5])"
    by (simp add: record_failure_def restart_budget_new_def MAX_RESTARTS_def MAX_RESTART_TIME_def)
  show ?thesis
    using restart_budget_bounds_restarts [of "[1, 2, 3, 4, 5]" 6 6]
    unfolding five by (simp add: MAX_RESTART_TIME_def)
qed

text \<open>
  C30: whatever its children do and whenever shutdown is requested, the supervisor runs one
  consistent generation.  A generation starts, and the supervisor returns, only when no process
  of an earlier one is alive; never more than two processes live; the gateway of a monitored
  group was told the very address its store is bound to; and the store is stopped only when
  the gateway is gone.
\<close>

theorem supervisor_keeps_one_consistent_generation:
  assumes "supervisor_run c s"
  shows "(ss_phase s = Starting [] address role \<or> ss_phase s = Returned \<longrightarrow> ss_alive s = {})
    \<and> finite (ss_alive s) \<and> card (ss_alive s) \<le> 2
    \<and> (\<forall>children. ss_phase s = Monitoring children \<longrightarrow> consistent_group c children)
    \<and> (\<forall>children p next_phase. ss_phase s = Stopping children ''stored'' p next_phase \<longrightarrow> ss_alive s \<subseteq> {p})"
proof -
  have ok: "phase_ok c (ss_alive s) (ss_phase s)"
    using supervisor_run_ok [OF assms] by (simp add: supervisor_ok_def)
  have "consistent_group c children" if "ss_phase s = Monitoring children" for children
    using monitored_phase monitored_specs ok that by metis
  moreover have "ss_alive s \<subseteq> {p}" if "ss_phase s = Stopping children ''stored'' p next_phase" for children p next_phase
    by (rule stopping_alone) (use ok that in simp)
  ultimately show ?thesis
    using phase_alive [OF ok] resting_alone [OF ok] by blast
qed

theorem supervisor_keeps_one_consistent_generation_witness:
  "\<exists>s children. supervisor_run demo_supervisor_configuration s \<and> ss_phase s = Monitoring children
    \<and> ss_alive s = {0, 1} \<and> consistent_group demo_supervisor_configuration children"
  using group_becomes_ready [of demo_supervisor_configuration] supervisor_keeps_one_consistent_generation by blast

end
