(* ===== verification/Gateway_Identity.thy ===== *)
theory Gateway_Identity
  imports Arguments
begin

text \<open>
  The control identity of the gateway and its rotating leaf certificates:
  \<open>src/crates/renee-gatewayd/src/identity.rs\<close>.  Signatures, certificates and key formats are
  third-party code: they are the fields of a record of functions.  The identity directory is a
  record of its files; every operation returns the files it writes, in order, each replaced
  atomically, so that a crash leaves the directory after a prefix of the writes.  Timestamps
  are seconds.
\<close>

section \<open>Manifests\<close>

definition MANIFEST_MAGIC :: bytes where "MANIFEST_MAGIC = [0x52, 0x4E, 0x45, 0x43, 0x45, 0x52, 0x54, 0]"
definition MANIFEST_VERSION :: u16 where "MANIFEST_VERSION = 1"
definition SIGNATURE_LENGTH :: nat where "SIGNATURE_LENGTH = 64"
definition HASH_LENGTH :: nat where "HASH_LENGTH = 32"
definition CERTIFICATE_FIELD_LENGTH :: nat where "CERTIFICATE_FIELD_LENGTH = 4 + 8 + 8 + HASH_LENGTH"
definition SIGNED_MANIFEST_LENGTH :: nat where "SIGNED_MANIFEST_LENGTH = 8 + 2 + (2 * CERTIFICATE_FIELD_LENGTH)"
definition MANIFEST_LENGTH :: nat where "MANIFEST_LENGTH = SIGNED_MANIFEST_LENGTH + SIGNATURE_LENGTH"
definition CERTIFICATE_LIFETIME :: int where "CERTIFICATE_LIFETIME = 14 * 86400"
definition CERTIFICATE_EPOCH_STEP :: int where "CERTIFICATE_EPOCH_STEP = 7 * 86400"
definition CLOCK_SKEW_ALLOWANCE :: int where "CLOCK_SKEW_ALLOWANCE = 5 * 60"

lemmas manifest_lengths = SIGNATURE_LENGTH_def HASH_LENGTH_def CERTIFICATE_FIELD_LENGTH_def
  SIGNED_MANIFEST_LENGTH_def MANIFEST_LENGTH_def

record certificate_epoch =
  ce_epoch :: u32
  ce_hash :: key32
  ce_not_after :: "64 word"
  ce_not_before :: "64 word"

record certificate_manifest =
  cm_current :: certificate_epoch
  cm_next :: certificate_epoch

datatype identity_error =
    ManifestFraming | ManifestVersion | ManifestTruncated | ManifestSignature | ManifestEpochs
  | TimestampOverflow | MalformedKey | LeafGeneration | LeafMissing | LeafHash | ClockPrecedes
  | OfflineTooLong | LeafExpired | EpochExhausted | RotationUnderflow | NegativeRotation

text \<open>
  The functions of the cryptographic libraries: the key of a stored document, its public key,
  signing, verification, the identity made for an epoch and a validity period, and the hash of
  an identity's certificate.
\<close>

record ('key, 'leaf) identity_services =
  is_from_pkcs8 :: "bytes \<Rightarrow> 'key option"
  is_public_key :: "'key \<Rightarrow> key32"
  is_sign :: "'key \<Rightarrow> bytes \<Rightarrow> bytes"
  is_verify :: "key32 \<Rightarrow> bytes \<Rightarrow> bytes \<Rightarrow> bool"
  is_build :: "u32 \<Rightarrow> int \<Rightarrow> int \<Rightarrow> 'leaf option"
  is_hash :: "'leaf \<Rightarrow> key32"

definition encode_epoch :: "certificate_epoch \<Rightarrow> bytes" where
  "encode_epoch e = be_encode (ce_epoch e) @ be_encode (ce_not_before e) @ be_encode (ce_not_after e)
    @ be_encode (ce_hash e)"

definition signed_part :: "certificate_manifest \<Rightarrow> bytes" where
  "signed_part m = MANIFEST_MAGIC @ be_encode MANIFEST_VERSION @ encode_epoch (cm_current m) @ encode_epoch (cm_next m)"

definition encode_signed_manifest ::
  "('key, 'leaf) identity_services \<Rightarrow> certificate_manifest \<Rightarrow> 'key \<Rightarrow> bytes" where
  "encode_signed_manifest svc m control = signed_part m @ is_sign svc control (signed_part m)"

definition manifest_copy_array :: "nat \<Rightarrow> bytes \<Rightarrow> nat \<Rightarrow> identity_error + bytes" where
  "manifest_copy_array len input offset = ok_or ManifestTruncated (slice_get input offset (offset + len))"

definition decode_epoch :: "bytes \<Rightarrow> nat \<Rightarrow> identity_error + certificate_epoch" where
  "decode_epoch encoded offset =
    ok_then (manifest_copy_array 4 encoded offset) (\<lambda>epoch.
    ok_then (manifest_copy_array 8 encoded (offset + 4)) (\<lambda>not_before.
    ok_then (manifest_copy_array 8 encoded (offset + 12)) (\<lambda>not_after.
    ok_then (manifest_copy_array HASH_LENGTH encoded (offset + 20)) (\<lambda>hash.
    Inr \<lparr> ce_epoch = be_decode epoch, ce_hash = be_decode hash, ce_not_after = be_decode not_after,
      ce_not_before = be_decode not_before \<rparr>))))"

text \<open>The difference of two \<open>i64\<close>, which panics when it does not fit.\<close>

definition in_i64 :: "int \<Rightarrow> bool" where "in_i64 x \<longleftrightarrow> - (2 ^ 63) \<le> x \<and> x < 2 ^ 63"

definition lifetime :: "certificate_epoch \<Rightarrow> identity_error + int" where
  "lifetime e = (let d = sint (ce_not_after e) - sint (ce_not_before e) in
    if in_i64 d then Inr d else Inl TimestampOverflow)"

definition validate_manifest :: "certificate_epoch \<Rightarrow> certificate_epoch \<Rightarrow> identity_error + unit" where
  "validate_manifest current next_epoch =
    (let epochs_are_consecutive = (unat (ce_epoch current) + 1 < 2 ^ 32 \<and> ce_epoch next_epoch = ce_epoch current + 1);
         current_window_is_ordered = sint (ce_not_before current) < sint (ce_not_after current);
         next_window_is_ordered = sint (ce_not_before next_epoch) < sint (ce_not_after next_epoch);
         windows_overlap = sint (ce_not_before next_epoch) < sint (ce_not_after current) in
     ok_then (lifetime current) (\<lambda>current_lifetime.
     ok_then (lifetime next_epoch) (\<lambda>next_lifetime.
     if \<not> epochs_are_consecutive \<or> \<not> current_window_is_ordered \<or> \<not> next_window_is_ordered
       \<or> \<not> windows_overlap \<or> current_lifetime \<noteq> CERTIFICATE_LIFETIME \<or> next_lifetime \<noteq> CERTIFICATE_LIFETIME
     then Inl ManifestEpochs else Inr ())))"

definition decode_and_verify_manifest ::
  "('key, 'leaf) identity_services \<Rightarrow> bytes \<Rightarrow> 'key \<Rightarrow> identity_error + certificate_manifest" where
  "decode_and_verify_manifest svc encoded control =
    (if length encoded \<noteq> MANIFEST_LENGTH \<or> slice_get encoded 0 (length MANIFEST_MAGIC) \<noteq> Some MANIFEST_MAGIC
     then Inl ManifestFraming else
     ok_then (manifest_copy_array 2 encoded 8) (\<lambda>version.
     if be_decode version \<noteq> MANIFEST_VERSION then Inl ManifestVersion else
     ok_then (ok_or ManifestTruncated (slice_get encoded 0 SIGNED_MANIFEST_LENGTH)) (\<lambda>signed.
     ok_then (ok_or ManifestSignature (slice_get encoded SIGNED_MANIFEST_LENGTH (length encoded))) (\<lambda>signature.
     if \<not> is_verify svc (is_public_key svc control) signed signature then Inl ManifestSignature else
     ok_then (decode_epoch encoded 10) (\<lambda>current.
     ok_then (decode_epoch encoded (10 + CERTIFICATE_FIELD_LENGTH)) (\<lambda>next_epoch.
     ok_then (validate_manifest current next_epoch) (\<lambda>_.
     Inr \<lparr> cm_current = current, cm_next = next_epoch \<rparr>)))))))"

section \<open>The identity directory\<close>

record 'leaf identity_directory =
  id_control :: "bytes option"
  id_manifest :: "bytes option"
  id_leaf :: "u32 \<Rightarrow> 'leaf option"

datatype 'leaf identity_write = WriteControl bytes | WriteManifest bytes | WriteLeaf u32 'leaf

text \<open>One \<open>atomic_write\<close> replaces a file.\<close>

fun atomic_write :: "'leaf identity_write \<Rightarrow> 'leaf identity_directory \<Rightarrow> 'leaf identity_directory" where
  "atomic_write (WriteControl contents) d = d\<lparr> id_control := Some contents \<rparr>"
| "atomic_write (WriteManifest contents) d = d\<lparr> id_manifest := Some contents \<rparr>"
| "atomic_write (WriteLeaf epoch leaf) d = d\<lparr> id_leaf := (id_leaf d)(epoch \<mapsto> leaf) \<rparr>"

definition after_writes :: "'leaf identity_write list \<Rightarrow> 'leaf identity_directory \<Rightarrow> 'leaf identity_directory" where
  "after_writes writes d = fold atomic_write writes d"

text \<open>An operation is its result with its writes; the next one runs if it succeeded.\<close>

type_synonym ('a, 'leaf) identity_action = "(identity_error + 'a) \<times> 'leaf identity_write list"

definition act_then ::
  "('a, 'leaf) identity_action \<Rightarrow> ('a \<Rightarrow> ('b, 'leaf) identity_action) \<Rightarrow> ('b, 'leaf) identity_action" where
  "act_then m f = (case m of (Inl e, writes) \<Rightarrow> (Inl e, writes)
    | (Inr x, writes) \<Rightarrow> let (result, later) = f x in (result, writes @ later))"

definition load_or_create_control_key ::
  "('key, 'leaf) identity_services \<Rightarrow> bytes \<Rightarrow> 'leaf identity_directory \<Rightarrow> ('key, 'leaf) identity_action" where
  "load_or_create_control_key svc document d = (case id_control d of
      Some encoded \<Rightarrow> (ok_or MalformedKey (is_from_pkcs8 svc encoded), [])
    | None \<Rightarrow> (ok_or MalformedKey (is_from_pkcs8 svc document), [WriteControl document]))"

definition generate_leaf ::
  "('key, 'leaf) identity_services \<Rightarrow> u32 \<Rightarrow> int \<Rightarrow> (certificate_epoch, 'leaf) identity_action" where
  "generate_leaf svc epoch not_before =
    (let not_after = not_before + CERTIFICATE_LIFETIME in
     case is_build svc epoch not_before not_after of
       None \<Rightarrow> (Inl LeafGeneration, [])
     | Some leaf \<Rightarrow> (Inr \<lparr> ce_epoch = epoch, ce_hash = is_hash svc leaf, ce_not_after = word_of_int not_after,
         ce_not_before = word_of_int not_before \<rparr>, [WriteLeaf epoch leaf]))"

definition persist_manifest ::
  "('key, 'leaf) identity_services \<Rightarrow> certificate_manifest \<Rightarrow> 'key \<Rightarrow> (unit, 'leaf) identity_action" where
  "persist_manifest svc m control = (Inr (), [WriteManifest (encode_signed_manifest svc m control)])"

definition initialize_manifest ::
  "('key, 'leaf) identity_services \<Rightarrow> 'key \<Rightarrow> int \<Rightarrow> (certificate_manifest, 'leaf) identity_action" where
  "initialize_manifest svc control now =
    (let current_start = now - CLOCK_SKEW_ALLOWANCE in
     act_then (generate_leaf svc 1 current_start) (\<lambda>current.
     act_then (generate_leaf svc 2 (now + CERTIFICATE_EPOCH_STEP)) (\<lambda>next_epoch.
     let m = \<lparr> cm_current = current, cm_next = next_epoch \<rparr> in
     act_then (persist_manifest svc m control) (\<lambda>_. (Inr m, [])))))"

definition rotate_manifest ::
  "('key, 'leaf) identity_services \<Rightarrow> 'key \<Rightarrow> certificate_manifest \<Rightarrow> int
    \<Rightarrow> (certificate_manifest, 'leaf) identity_action" where
  "rotate_manifest svc control m now =
    (if unat (ce_epoch (cm_next m)) + 1 \<ge> 2 ^ 32 then (Inl EpochExhausted, []) else
     act_then (generate_leaf svc (ce_epoch (cm_next m) + 1) (now + CERTIFICATE_EPOCH_STEP)) (\<lambda>next_epoch.
     let rotated = \<lparr> cm_current = cm_next m, cm_next = next_epoch \<rparr> in
     act_then (persist_manifest svc rotated control) (\<lambda>_. (Inr rotated, []))))"

definition require_leaf_hash ::
  "('key, 'leaf) identity_services \<Rightarrow> 'leaf \<Rightarrow> key32 \<Rightarrow> identity_error + unit" where
  "require_leaf_hash svc leaf expected = (if is_hash svc leaf \<noteq> expected then Inl LeafHash else Inr ())"

record 'leaf prepared_identity =
  pi_control_public_key :: key32
  pi_manifest :: bytes
  pi_rotation_delay :: nat
  pi_transport :: 'leaf

text \<open>The part of \<open>prepare\<close> after the manifest is loaded or initialized, with the writes so far.\<close>

definition checked_manifest ::
  "('key, 'leaf) identity_services \<Rightarrow> 'key \<Rightarrow> certificate_manifest \<Rightarrow> int
    \<Rightarrow> (certificate_manifest, 'leaf) identity_action" where
  "checked_manifest svc control m now =
    (if now < sint (ce_not_before (cm_current m)) then (Inl ClockPrecedes, [])
     else if now \<ge> sint (ce_not_after (cm_next m)) then (Inl OfflineTooLong, [])
     else act_then (if now \<ge> sint (ce_not_before (cm_next m)) then rotate_manifest svc control m now else (Inr m, []))
       (\<lambda>m. if now \<ge> sint (ce_not_after (cm_current m)) then (Inl LeafExpired, []) else (Inr m, [])))"

definition activated ::
  "('key, 'leaf) identity_services \<Rightarrow> 'key \<Rightarrow> certificate_manifest \<Rightarrow> int \<Rightarrow> 'leaf identity_directory
    \<Rightarrow> identity_error + 'leaf prepared_identity" where
  "activated svc control m now d =
    ok_then (ok_or LeafMissing (id_leaf d (ce_epoch (cm_current m)))) (\<lambda>transport.
    ok_then (require_leaf_hash svc transport (ce_hash (cm_current m))) (\<lambda>_.
    let rotation_seconds = sint (ce_not_before (cm_next m)) - now in
    if \<not> in_i64 rotation_seconds then Inl RotationUnderflow
    else if rotation_seconds < 0 then Inl NegativeRotation
    else Inr \<lparr> pi_control_public_key = is_public_key svc control, pi_manifest = encode_signed_manifest svc m control,
      pi_rotation_delay = nat rotation_seconds, pi_transport = transport \<rparr>))"

definition prepare_identity ::
  "('key, 'leaf) identity_services \<Rightarrow> bytes \<Rightarrow> int \<Rightarrow> 'leaf identity_directory
    \<Rightarrow> ('leaf prepared_identity, 'leaf) identity_action" where
  "prepare_identity svc document now d =
    (let (loaded, writes) =
       act_then (load_or_create_control_key svc document d) (\<lambda>control.
       act_then (case id_manifest d of
           Some encoded \<Rightarrow> (decode_and_verify_manifest svc encoded control, [])
         | None \<Rightarrow> initialize_manifest svc control now) (\<lambda>m.
       act_then (checked_manifest svc control m now) (\<lambda>m. (Inr (control, m), [])))) in
     (ok_then loaded (\<lambda>(control, m). activated svc control m now (after_writes writes d)), writes))"

text \<open>Lowercase hexadecimal digits.\<close>

definition hex_digit :: "byte \<Rightarrow> byte" where
  "hex_digit n = (if n < 10 then 0x30 + n else 0x61 + (n - 10))"

definition encode_hex :: "bytes \<Rightarrow> bytes" where
  "encode_hex bs = concat (map (\<lambda>byte. [hex_digit (drop_bit 4 byte), hex_digit (byte AND 0xF)]) bs)"

section \<open>Manifests round-trip\<close>

definition services_ok :: "('key, 'leaf) identity_services \<Rightarrow> bool" where
  "services_ok svc \<longleftrightarrow> (\<forall>control signed. length (is_sign svc control signed) = SIGNATURE_LENGTH
    \<and> is_verify svc (is_public_key svc control) signed (is_sign svc control signed))"

lemma length_MANIFEST_MAGIC [simp]: "length MANIFEST_MAGIC = 8"
  by (simp add: MANIFEST_MAGIC_def)

lemma length_encode_epoch [simp]: "length (encode_epoch e) = CERTIFICATE_FIELD_LENGTH"
  by (simp add: encode_epoch_def manifest_lengths)

lemma length_signed_part [simp]: "length (signed_part m) = SIGNED_MANIFEST_LENGTH"
  by (simp add: signed_part_def manifest_lengths)

lemma copy_array_Inr_iff:
  "manifest_copy_array n input offset = Inr xs \<longleftrightarrow>
    offset + n \<le> length input \<and> xs = take n (drop offset input)"
  by (auto simp add: manifest_copy_array_def slice_get_def)

lemma decode_epoch_at:
  assumes "drop offset encoded = encode_epoch e @ rest"
  shows "decode_epoch encoded offset = Inr e"
proof -
  have "length (drop offset encoded) = CERTIFICATE_FIELD_LENGTH + length rest" using assms by simp
  then have len: "offset + 52 \<le> length encoded" by (simp add: manifest_lengths)
  have at: "drop (offset + n) encoded = drop n (encode_epoch e @ rest)" for n
    using assms by (metis add.commute drop_drop)
  show ?thesis
    using len at [of 0] at [of 4] at [of 12] at [of 20]
    by (simp add: decode_epoch_def manifest_copy_array_def slice_get_def encode_epoch_def be_decode_encode HASH_LENGTH_def)
qed

lemma be_encode_decode_at:
  "offset + 4 \<le> length encoded \<Longrightarrow> be_encode (be_decode (take 4 (drop offset encoded)) :: u32) = take 4 (drop offset encoded)"
  "offset + 8 \<le> length encoded \<Longrightarrow> be_encode (be_decode (take 8 (drop offset encoded)) :: 64 word) = take 8 (drop offset encoded)"
  "offset + 32 \<le> length encoded \<Longrightarrow> be_encode (be_decode (take 32 (drop offset encoded)) :: key32) = take 32 (drop offset encoded)"
  "offset + 2 \<le> length encoded \<Longrightarrow> be_encode (be_decode (take 2 (drop offset encoded)) :: u16) = take 2 (drop offset encoded)"
  by (rule be_encode_decode; simp)+

lemma epoch_bytes:
  assumes "decode_epoch encoded offset = Inr e"
  shows "take CERTIFICATE_FIELD_LENGTH (drop offset encoded) = encode_epoch e"
proof -
  have len: "offset + 52 \<le> length encoded"
    using assms by (auto simp add: decode_epoch_def ok_then_Inr_iff copy_array_Inr_iff HASH_LENGTH_def)
  have "take 52 xs = take 4 xs @ take 8 (drop 4 xs) @ take 8 (drop 12 xs) @ take 32 (drop 20 xs)" for xs :: bytes
    using take_add [of 4 48 xs] take_add [of 8 40 "drop 4 xs"] take_add [of 8 32 "drop 12 xs"] by simp
  then show ?thesis
    using assms len
    by (auto simp add: decode_epoch_def ok_then_Inr_iff copy_array_Inr_iff encode_epoch_def be_encode_decode_at
        manifest_lengths add.commute)
qed

lemma decode_encoded_manifest:
  assumes "services_ok svc"
  shows "decode_and_verify_manifest svc (encode_signed_manifest svc m control) control =
    ok_then (validate_manifest (cm_current m) (cm_next m)) (\<lambda>_. Inr m)"
proof -
  let ?e = "encode_signed_manifest svc m control"
  have len: "length ?e = MANIFEST_LENGTH"
    using assms by (simp add: encode_signed_manifest_def services_ok_def MANIFEST_LENGTH_def)
  have current: "decode_epoch ?e 10 = Inr (cm_current m)"
    by (rule decode_epoch_at) (simp add: encode_signed_manifest_def signed_part_def)
  have following: "decode_epoch ?e (10 + CERTIFICATE_FIELD_LENGTH) = Inr (cm_next m)"
    by (rule decode_epoch_at) (simp add: encode_signed_manifest_def signed_part_def)
  have "slice_get ?e 0 8 = Some MANIFEST_MAGIC" "manifest_copy_array 2 ?e 8 = Inr (be_encode MANIFEST_VERSION)"
    "slice_get ?e 0 SIGNED_MANIFEST_LENGTH = Some (signed_part m)"
    "slice_get ?e SIGNED_MANIFEST_LENGTH (length ?e) = Some (is_sign svc control (signed_part m))"
    using len by (simp_all add: slice_get_def copy_array_Inr_iff encode_signed_manifest_def)
      (simp_all add: signed_part_def manifest_lengths)
  then show ?thesis
    using assms len current following
    by (cases m) (simp add: decode_and_verify_manifest_def services_ok_def be_decode_encode)
qed

lemma decoded_manifest:
  assumes "decode_and_verify_manifest svc encoded control = Inr m"
  shows "\<exists>signature. encoded = signed_part m @ signature \<and> length signature = SIGNATURE_LENGTH
    \<and> is_verify svc (is_public_key svc control) (signed_part m) signature
    \<and> validate_manifest (cm_current m) (cm_next m) = Inr ()"
proof -
  obtain version signed signature current following where m:
    "length encoded = MANIFEST_LENGTH" "slice_get encoded 0 8 = Some MANIFEST_MAGIC"
    "manifest_copy_array 2 encoded 8 = Inr version" "be_decode version = MANIFEST_VERSION"
    "slice_get encoded 0 SIGNED_MANIFEST_LENGTH = Some signed"
    "slice_get encoded SIGNED_MANIFEST_LENGTH (length encoded) = Some signature"
    "is_verify svc (is_public_key svc control) signed signature"
    "decode_epoch encoded 10 = Inr current" "decode_epoch encoded (10 + CERTIFICATE_FIELD_LENGTH) = Inr following"
    "validate_manifest current following = Inr ()" "m = \<lparr> cm_current = current, cm_next = following \<rparr>"
    using assms by (auto simp add: decode_and_verify_manifest_def ok_then_Inr_iff split: if_splits)
  have len: "length encoded = 178" using m(1) by (simp add: manifest_lengths)
  have pieces: "take 8 encoded = MANIFEST_MAGIC" "signed = take 114 encoded" "signature = drop 114 encoded"
    using m(2,5,6) len by (auto simp add: slice_get_def manifest_lengths)
  have "version = take 2 (drop 8 encoded)" using m(3) by (simp add: copy_array_Inr_iff)
  then have "be_encode MANIFEST_VERSION = take 2 (drop 8 encoded)"
    using be_encode_decode_at(4) [of 8 encoded] m(4) len by simp
  moreover have "take 52 (drop 10 encoded) = encode_epoch current" "take 52 (drop 62 encoded) = encode_epoch following"
    using epoch_bytes [OF m(8)] epoch_bytes [OF m(9)] by (simp_all add: manifest_lengths)
  moreover have "take 114 encoded = take 8 encoded @ take 2 (drop 8 encoded) @ take 52 (drop 10 encoded) @ take 52 (drop 62 encoded)"
    using take_add [of 8 106 encoded] take_add [of 2 104 "drop 8 encoded"] take_add [of 52 52 "drop 10 encoded"] by simp
  ultimately have signed: "signed = signed_part m"
    using pieces by (simp add: signed_part_def m(11))
  have "encoded = signed @ signature" "length signature = SIGNATURE_LENGTH"
    using pieces len by (simp_all add: SIGNATURE_LENGTH_def)
  then show ?thesis
    using m(7,10) signed by (auto simp add: m(11))
qed

section \<open>The directory over many starts\<close>

lemma sint_word_of_int_i64: "in_i64 x \<Longrightarrow> sint (word_of_int x :: 64 word) = x"
  by (simp add: in_i64_def signed_of_int signed_take_bit_int_eq_self)

lemma valid_manifest_iff:
  "validate_manifest current following = Inr () \<longleftrightarrow>
    unat (ce_epoch current) + 1 < 2 ^ 32 \<and> ce_epoch following = ce_epoch current + 1
    \<and> sint (ce_not_after current) - sint (ce_not_before current) = CERTIFICATE_LIFETIME
    \<and> sint (ce_not_after following) - sint (ce_not_before following) = CERTIFICATE_LIFETIME
    \<and> sint (ce_not_before following) < sint (ce_not_after current)"
  by (auto simp add: validate_manifest_def lifetime_def Let_def in_i64_def CERTIFICATE_LIFETIME_def)

text \<open>The clock is far from the ends of \<open>i64\<close>, as \<open>OffsetDateTime\<close> is.\<close>

definition in_clock :: "int \<Rightarrow> bool" where "in_clock now \<longleftrightarrow> 0 \<le> now \<and> now < 2 ^ 62"

definition holds_leaf ::
  "('key, 'leaf) identity_services \<Rightarrow> 'leaf identity_directory \<Rightarrow> certificate_epoch \<Rightarrow> bool" where
  "holds_leaf svc d e \<longleftrightarrow> (\<exists>leaf. id_leaf d (ce_epoch e) = Some leaf \<and> is_hash svc leaf = ce_hash e)"

definition holds_control :: "('key, 'leaf) identity_services \<Rightarrow> 'leaf identity_directory \<Rightarrow> 'key \<Rightarrow> bool" where
  "holds_control svc d control \<longleftrightarrow> (\<exists>encoded. id_control d = Some encoded \<and> is_from_pkcs8 svc encoded = Some control)"

definition holds_manifest ::
  "('key, 'leaf) identity_services \<Rightarrow> 'leaf identity_directory \<Rightarrow> 'key \<Rightarrow> certificate_manifest \<Rightarrow> bool" where
  "holds_manifest svc d control m \<longleftrightarrow> holds_control svc d control
    \<and> id_manifest d = Some (encode_signed_manifest svc m control)
    \<and> validate_manifest (cm_current m) (cm_next m) = Inr ()
    \<and> holds_leaf svc d (cm_current m) \<and> holds_leaf svc d (cm_next m)"

text \<open>A start while the current leaf is valid, or in the first week of the announced one.\<close>

definition in_time :: "certificate_manifest \<Rightarrow> int \<Rightarrow> bool" where
  "in_time m now \<longleftrightarrow> sint (ce_not_before (cm_current m)) \<le> now
    \<and> now < sint (ce_not_before (cm_next m)) + CERTIFICATE_EPOCH_STEP"

lemma after_writes_simps [simp]:
  "after_writes [] d = d" "after_writes (w # writes) d = after_writes writes (atomic_write w d)"
  by (simp_all add: after_writes_def)

lemma prepare_loaded:
  assumes "services_ok svc" "holds_manifest svc d control m"
  shows "prepare_identity svc document now d = (let (checked, writes) = checked_manifest svc control m now in
    (ok_then checked (\<lambda>m. activated svc control m now (after_writes writes d)), writes))"
  using assms
  by (auto simp add: holds_manifest_def holds_control_def prepare_identity_def load_or_create_control_key_def
      act_then_def decode_encoded_manifest Let_def split: prod.splits sum.splits)

text \<open>An announced leaf takes over; a crash in between leaves the old manifest with its leaves.\<close>

lemma rotated_manifest:
  assumes "holds_manifest svc d control m" "in_clock now" "is_build svc (ce_epoch (cm_next m) + 1)
      (now + CERTIFICATE_EPOCH_STEP) (now + CERTIFICATE_EPOCH_STEP + CERTIFICATE_LIFETIME) = Some leaf"
    and "unat (ce_epoch (cm_next m)) + 1 < 2 ^ 32"
  defines "following \<equiv> \<lparr> ce_epoch = ce_epoch (cm_next m) + 1, ce_hash = is_hash svc leaf,
    ce_not_after = word_of_int (now + CERTIFICATE_EPOCH_STEP + CERTIFICATE_LIFETIME),
    ce_not_before = word_of_int (now + CERTIFICATE_EPOCH_STEP) \<rparr>"
  defines "rotated \<equiv> \<lparr> cm_current = cm_next m, cm_next = following \<rparr>"
  defines "writes \<equiv> [WriteLeaf (ce_epoch following) leaf, WriteManifest (encode_signed_manifest svc rotated control)]"
  shows "rotate_manifest svc control m now = (Inr rotated, writes)"
    "sint (ce_not_before following) = now + CERTIFICATE_EPOCH_STEP"
    "validate_manifest (cm_next m) following = (if now < sint (ce_not_before (cm_next m)) + CERTIFICATE_EPOCH_STEP
      then Inr () else Inl ManifestEpochs)"
    "holds_manifest svc (after_writes (take 1 writes) d) control m"
    "holds_control svc (after_writes writes d) control" "holds_leaf svc (after_writes writes d) (cm_next m)"
    "holds_leaf svc (after_writes writes d) following"
    "id_manifest (after_writes writes d) = Some (encode_signed_manifest svc rotated control)"
proof -
  show "rotate_manifest svc control m now = (Inr rotated, writes)"
    using assms(3,4) by (simp add: rotate_manifest_def generate_leaf_def persist_manifest_def act_then_def
        following_def rotated_def writes_def Let_def)
  have clock: "in_i64 (now + CERTIFICATE_EPOCH_STEP)" "in_i64 (now + CERTIFICATE_EPOCH_STEP + CERTIFICATE_LIFETIME)"
    using assms(2) by (simp_all add: in_clock_def in_i64_def CERTIFICATE_EPOCH_STEP_def CERTIFICATE_LIFETIME_def)
  note times = sint_word_of_int_i64 [OF clock(1)] sint_word_of_int_i64 [OF clock(2)]
  show "sint (ce_not_before following) = now + CERTIFICATE_EPOCH_STEP"
    using times by (simp add: following_def)
  have valid: "validate_manifest (cm_current m) (cm_next m) = Inr ()"
    using assms(1) by (simp add: holds_manifest_def)
  show "validate_manifest (cm_next m) following = (if now < sint (ce_not_before (cm_next m)) + CERTIFICATE_EPOCH_STEP
      then Inr () else Inl ManifestEpochs)"
    using times valid assms(4)
    by (auto simp add: valid_manifest_iff following_def CERTIFICATE_LIFETIME_def CERTIFICATE_EPOCH_STEP_def)
      (auto simp add: validate_manifest_def lifetime_def in_i64_def CERTIFICATE_LIFETIME_def Let_def)
  have "ce_epoch (cm_next m) \<noteq> ce_epoch (cm_next m) + 1" by simp
  moreover have "ce_epoch (cm_current m) \<noteq> ce_epoch (cm_next m) + 1"
    using valid by (auto simp add: valid_manifest_iff)
  ultimately show "holds_manifest svc (after_writes (take 1 writes) d) control m"
    "holds_control svc (after_writes writes d) control" "holds_leaf svc (after_writes writes d) (cm_next m)"
    "holds_leaf svc (after_writes writes d) following"
    "id_manifest (after_writes writes d) = Some (encode_signed_manifest svc rotated control)"
    using assms(1) by (simp_all add: writes_def holds_manifest_def holds_control_def holds_leaf_def following_def)
qed


text \<open>The first start: a control key, two leaves and their manifest, the manifest last.\<close>

lemma first_manifest:
  assumes "in_clock now" "is_build svc 1 (now - CLOCK_SKEW_ALLOWANCE) (now - CLOCK_SKEW_ALLOWANCE + CERTIFICATE_LIFETIME) = Some leaf"
    and "is_build svc 2 (now + CERTIFICATE_EPOCH_STEP) (now + CERTIFICATE_EPOCH_STEP + CERTIFICATE_LIFETIME) = Some leaf'"
  obtains m writes where "initialize_manifest svc control now = (Inr m, writes)"
    "writes = [WriteLeaf 1 leaf, WriteLeaf 2 leaf', WriteManifest (encode_signed_manifest svc m control)]"
    "holds_control svc d control \<Longrightarrow> holds_manifest svc (after_writes writes d) control m"
    "sint (ce_not_before (cm_current m)) = now - CLOCK_SKEW_ALLOWANCE"
    "sint (ce_not_before (cm_next m)) = now + CERTIFICATE_EPOCH_STEP" "ce_epoch (cm_next m) = 2"
proof -
  let ?current = "\<lparr> ce_epoch = 1, ce_hash = is_hash svc leaf,
    ce_not_after = word_of_int (now - CLOCK_SKEW_ALLOWANCE + CERTIFICATE_LIFETIME),
    ce_not_before = word_of_int (now - CLOCK_SKEW_ALLOWANCE) \<rparr>"
  let ?next = "\<lparr> ce_epoch = 2, ce_hash = is_hash svc leaf',
    ce_not_after = word_of_int (now + CERTIFICATE_EPOCH_STEP + CERTIFICATE_LIFETIME),
    ce_not_before = word_of_int (now + CERTIFICATE_EPOCH_STEP) \<rparr>"
  have "in_i64 (now - CLOCK_SKEW_ALLOWANCE)" "in_i64 (now - CLOCK_SKEW_ALLOWANCE + CERTIFICATE_LIFETIME)"
    "in_i64 (now + CERTIFICATE_EPOCH_STEP)" "in_i64 (now + CERTIFICATE_EPOCH_STEP + CERTIFICATE_LIFETIME)"
    using assms(1)
    by (simp_all add: in_clock_def in_i64_def CERTIFICATE_EPOCH_STEP_def CERTIFICATE_LIFETIME_def CLOCK_SKEW_ALLOWANCE_def)
  note times = this [THEN sint_word_of_int_i64]
  have "validate_manifest ?current ?next = Inr ()"
    using times by (simp add: valid_manifest_iff CERTIFICATE_EPOCH_STEP_def CERTIFICATE_LIFETIME_def CLOCK_SKEW_ALLOWANCE_def)
  then show ?thesis
    using assms(2,3) times
    by (intro that [of "\<lparr> cm_current = ?current, cm_next = ?next \<rparr>"])
      (auto simp add: initialize_manifest_def generate_leaf_def persist_manifest_def act_then_def Let_def
        holds_manifest_def holds_control_def holds_leaf_def)
qed

text \<open>
  What a start does with a good manifest: the leaf in force is the current one, or the announced
  one takes over.
\<close>

definition succeeds :: "certificate_manifest \<Rightarrow> certificate_manifest \<Rightarrow> int \<Rightarrow> bool" where
  "succeeds m m' now \<longleftrightarrow> (if now < sint (ce_not_before (cm_next m)) then m' = m
    else cm_current m' = cm_next m \<and> sint (ce_not_before (cm_next m')) = now + CERTIFICATE_EPOCH_STEP)"

lemma activated_leaf:
  assumes "holds_leaf svc d (cm_current m)" "now \<le> sint (ce_not_before (cm_next m))" "in_clock now"
  obtains p where "activated svc control m now d = Inr p"
    "pi_manifest p = encode_signed_manifest svc m control" "pi_control_public_key p = is_public_key svc control"
    "is_hash svc (pi_transport p) = ce_hash (cm_current m)"
    "now + int (pi_rotation_delay p) = sint (ce_not_before (cm_next m))"
proof -
  have "in_i64 (sint (ce_not_before (cm_next m)) - now)"
    using assms(2,3) sint_lt [of "ce_not_before (cm_next m)"] by (simp add: in_i64_def in_clock_def)
  then show ?thesis
    using assms that by (auto simp add: activated_def holds_leaf_def require_leaf_hash_def Let_def)
qed

lemma checked_in_time:
  assumes "validate_manifest (cm_current m) (cm_next m) = Inr ()" "sint (ce_not_before (cm_current m)) \<le> now"
    "now < sint (ce_not_before (cm_next m))"
  shows "checked_manifest svc control m now = (Inr m, [])" "now < sint (ce_not_after (cm_current m))"
  using assms by (auto simp add: checked_manifest_def act_then_def valid_manifest_iff CERTIFICATE_LIFETIME_def)

lemma checked_rotates:
  assumes "validate_manifest (cm_current m) (cm_next m) = Inr ()" "sint (ce_not_before (cm_next m)) \<le> now"
    "now < sint (ce_not_after (cm_next m))" "sint (ce_not_before (cm_current m)) \<le> now"
    and "rotate_manifest svc control m now = (Inr rotated, writes)" "cm_current rotated = cm_next m"
  shows "checked_manifest svc control m now = (Inr rotated, writes)"
  using assms by (auto simp add: checked_manifest_def act_then_def)

lemma start_in_time:
  assumes "services_ok svc" "is_build svc (ce_epoch (cm_next m) + 1)
      (now + CERTIFICATE_EPOCH_STEP) (now + CERTIFICATE_EPOCH_STEP + CERTIFICATE_LIFETIME) \<noteq> None" "holds_manifest svc d control m" "in_clock now"
    and "in_time m now" "unat (ce_epoch (cm_next m)) + 1 < 2 ^ 32"
  obtains p m' writes where "prepare_identity svc document now d = (Inr p, writes)"
    "pi_manifest p = encode_signed_manifest svc m' control" "pi_control_public_key p = is_public_key svc control"
    "is_hash svc (pi_transport p) = ce_hash (cm_current m')" "succeeds m m' now"
    "now + int (pi_rotation_delay p) = sint (ce_not_before (cm_next m'))"
    "now < sint (ce_not_after (cm_current m'))"
    "\<forall>n. holds_manifest svc (after_writes (take n writes) d) control (if n < length writes then m else m')"
proof (cases "now < sint (ce_not_before (cm_next m))")
  case True
  have valid: "validate_manifest (cm_current m) (cm_next m) = Inr ()" "holds_leaf svc d (cm_current m)"
    using assms(3) by (simp_all add: holds_manifest_def)
  have checked: "checked_manifest svc control m now = (Inr m, [])" "now < sint (ce_not_after (cm_current m))"
    using checked_in_time [OF valid(1) _ True] assms(5) by (simp_all add: in_time_def)
  obtain p where p: "activated svc control m now d = Inr p"
    "pi_manifest p = encode_signed_manifest svc m control" "pi_control_public_key p = is_public_key svc control"
    "is_hash svc (pi_transport p) = ce_hash (cm_current m)"
    "now + int (pi_rotation_delay p) = sint (ce_not_before (cm_next m))"
    by (rule activated_leaf [OF valid(2) less_imp_le [OF True] assms(4)])
  show ?thesis
    by (rule that [of p "[]" m]) (use p checked assms(3,5) True in
      \<open>simp_all add: prepare_loaded [OF assms(1,3)] in_time_def succeeds_def\<close>)
next
  case False
  obtain leaf where leaf: "is_build svc (ce_epoch (cm_next m) + 1)
      (now + CERTIFICATE_EPOCH_STEP) (now + CERTIFICATE_EPOCH_STEP + CERTIFICATE_LIFETIME) = Some leaf"
    using assms(2) by blast
  have valid: "validate_manifest (cm_current m) (cm_next m) = Inr ()"
    using assms(3) by (simp_all add: holds_manifest_def)
  have now: "sint (ce_not_before (cm_next m)) \<le> now" "now < sint (ce_not_before (cm_next m)) + CERTIFICATE_EPOCH_STEP"
    "now < sint (ce_not_after (cm_next m))" "sint (ce_not_before (cm_current m)) \<le> now"
    using False assms(5) valid
    by (auto simp add: in_time_def valid_manifest_iff CERTIFICATE_LIFETIME_def CERTIFICATE_EPOCH_STEP_def)
  note rotated = rotated_manifest [OF assms(3,4) leaf assms(6)]
  let ?following = "\<lparr> ce_epoch = ce_epoch (cm_next m) + 1, ce_hash = is_hash svc leaf,
    ce_not_after = word_of_int (now + CERTIFICATE_EPOCH_STEP + CERTIFICATE_LIFETIME),
    ce_not_before = word_of_int (now + CERTIFICATE_EPOCH_STEP) \<rparr>"
  let ?m = "\<lparr> cm_current = cm_next m, cm_next = ?following \<rparr>"
  let ?writes = "[WriteLeaf (ce_epoch ?following) leaf, WriteManifest (encode_signed_manifest svc ?m control)]"
  note checked = checked_rotates [OF valid now(1,3,4) rotated(1)]
  obtain p where p: "activated svc control ?m now (after_writes ?writes d) = Inr p"
    "pi_manifest p = encode_signed_manifest svc ?m control" "pi_control_public_key p = is_public_key svc control"
    "is_hash svc (pi_transport p) = ce_hash (cm_current ?m)"
    "now + int (pi_rotation_delay p) = sint (ce_not_before (cm_next ?m))"
    by (rule activated_leaf [of svc "after_writes ?writes d" ?m now control])
      (use rotated assms(4) in \<open>simp_all add: CERTIFICATE_EPOCH_STEP_def\<close>)
  have "holds_manifest svc (after_writes ?writes d) control ?m"
    using rotated now(2) unfolding holds_manifest_def by simp
  then have crash: "holds_manifest svc (after_writes (take n ?writes) d) control (if n < length ?writes then m else ?m)" for n
    using rotated(4) assms(3) by (cases n; cases "n - 1") auto
  show ?thesis
    by (rule that [of p ?writes ?m]) (use p checked crash now False rotated(2) in
      \<open>simp_all add: prepare_loaded [OF assms(1,3)] succeeds_def\<close>)
qed

lemma late_start:
  assumes "services_ok svc" "\<And>e a b. is_build svc e a b \<noteq> None" "holds_manifest svc d control m" "in_clock now"
    and "sint (ce_not_before (cm_next m)) + CERTIFICATE_EPOCH_STEP \<le> now" "now < sint (ce_not_after (cm_next m))"
    and "unat (ce_epoch (cm_next m)) + 1 < 2 ^ 32" "sint (ce_not_before (cm_current m)) \<le> now"
  obtains p m' writes where "prepare_identity svc document now d = (Inr p, writes)"
    "holds_control svc (after_writes writes d) control" "pi_manifest p = encode_signed_manifest svc m' control"
    "id_manifest (after_writes writes d) = Some (encode_signed_manifest svc m' control)"
    "validate_manifest (cm_current m') (cm_next m') = Inl ManifestEpochs"
proof -
  obtain leaf where leaf: "is_build svc (ce_epoch (cm_next m) + 1)
      (now + CERTIFICATE_EPOCH_STEP) (now + CERTIFICATE_EPOCH_STEP + CERTIFICATE_LIFETIME) = Some leaf"
    using assms(2) by blast
  have valid: "validate_manifest (cm_current m) (cm_next m) = Inr ()"
    using assms(3) by (simp_all add: holds_manifest_def)
  have now: "sint (ce_not_before (cm_next m)) \<le> now" "sint (ce_not_before (cm_current m)) \<le> now"
    "\<not> now < sint (ce_not_before (cm_next m)) + CERTIFICATE_EPOCH_STEP"
    using assms(5,8) valid
    by (auto simp add: valid_manifest_iff CERTIFICATE_LIFETIME_def CERTIFICATE_EPOCH_STEP_def)
  note rotated = rotated_manifest [OF assms(3,4) leaf assms(7)]
  let ?following = "\<lparr> ce_epoch = ce_epoch (cm_next m) + 1, ce_hash = is_hash svc leaf,
    ce_not_after = word_of_int (now + CERTIFICATE_EPOCH_STEP + CERTIFICATE_LIFETIME),
    ce_not_before = word_of_int (now + CERTIFICATE_EPOCH_STEP) \<rparr>"
  let ?m = "\<lparr> cm_current = cm_next m, cm_next = ?following \<rparr>"
  let ?writes = "[WriteLeaf (ce_epoch ?following) leaf, WriteManifest (encode_signed_manifest svc ?m control)]"
  note checked = checked_rotates [OF valid now(1) assms(6) now(2) rotated(1)]
  obtain p where p: "activated svc control ?m now (after_writes ?writes d) = Inr p"
    "pi_manifest p = encode_signed_manifest svc ?m control"
    by (rule activated_leaf [of svc "after_writes ?writes d" ?m now control])
      (use rotated assms(4) in \<open>simp_all add: CERTIFICATE_EPOCH_STEP_def\<close>)
  show ?thesis
    by (rule that [of p ?writes ?m]) (use p checked now rotated(3,5,8) in \<open>simp_all add: prepare_loaded [OF assms(1,3)]\<close>)
qed


section \<open>Every sequence of starts\<close>

text \<open>
  Directories that starts leave, each of them possibly crashed after some of its writes: the
  generated key documents parse, and the gateway was not offline for longer than a week after
  an announced leaf was to take over.
\<close>

inductive identity_starts :: "('key, 'leaf) identity_services \<Rightarrow> 'leaf identity_directory \<Rightarrow> bool" for svc where
  no_start: "identity_starts svc \<lparr> id_control = None, id_manifest = None, id_leaf = (\<lambda>_. None) \<rparr>"
| next_start: "identity_starts svc d \<Longrightarrow> is_from_pkcs8 svc document \<noteq> None \<Longrightarrow> in_clock now \<Longrightarrow>
    (\<forall>control m. holds_manifest svc d control m \<longrightarrow> in_time m now \<and> unat (ce_epoch (cm_next m)) + 1 < 2 ^ 32) \<Longrightarrow>
    prepare_identity svc document now d = (result, writes) \<Longrightarrow>
    identity_starts svc (after_writes (take n writes) d)"

text \<open>Either there is no manifest yet, and a control key if any is good, or there is a good one.\<close>

definition directory_ok :: "('key, 'leaf) identity_services \<Rightarrow> 'leaf identity_directory \<Rightarrow> bool" where
  "directory_ok svc d \<longleftrightarrow> id_manifest d = None \<and> (id_control d \<noteq> None \<longrightarrow> (\<exists>control. holds_control svc d control))
    \<or> (\<exists>control m. holds_manifest svc d control m)"

text \<open>The control key comes first and is good from then on.\<close>

lemma control_loaded:
  assumes "is_from_pkcs8 svc document \<noteq> None" "id_control d \<noteq> None \<longrightarrow> (\<exists>control. holds_control svc d control)"
  obtains control writes where "load_or_create_control_key svc document d = (Inr control, writes)"
    "holds_control svc (after_writes writes d) control" "writes = [] \<or> writes = [WriteControl document]"
    "id_manifest (after_writes writes d) = id_manifest d"
  using assms by (cases "id_control d") (auto simp add: load_or_create_control_key_def holds_control_def)

lemma after_writes_append: "after_writes (writes @ later) d = after_writes later (after_writes writes d)"
  by (simp add: after_writes_def)

lemma first_start:
  assumes "is_build svc 1 (now - CLOCK_SKEW_ALLOWANCE) (now - CLOCK_SKEW_ALLOWANCE + CERTIFICATE_LIFETIME) = Some leaf"
    and "is_build svc 2 (now + CERTIFICATE_EPOCH_STEP) (now + CERTIFICATE_EPOCH_STEP + CERTIFICATE_LIFETIME) = Some leaf'"
    and "is_from_pkcs8 svc document \<noteq> None"
    and "id_manifest d = None" "id_control d \<noteq> None \<longrightarrow> (\<exists>control. holds_control svc d control)" "in_clock now"
  obtains control p m writes where "prepare_identity svc document now d = (Inr p, writes)"
    "pi_manifest p = encode_signed_manifest svc m control" "pi_control_public_key p = is_public_key svc control"
    "is_hash svc (pi_transport p) = ce_hash (cm_current m)"
    "now + int (pi_rotation_delay p) = sint (ce_not_before (cm_next m))" "now < sint (ce_not_after (cm_current m))"
    "holds_manifest svc (after_writes writes d) control m"
    "\<exists>early. writes = early @ [WriteLeaf 1 leaf, WriteLeaf 2 leaf', WriteManifest (encode_signed_manifest svc m control)]
      \<and> (early = [] \<or> early = [WriteControl document])"
proof -
  obtain control writes where control: "load_or_create_control_key svc document d = (Inr control, writes)"
    "holds_control svc (after_writes writes d) control" "id_manifest (after_writes writes d) = id_manifest d"
    "writes = [] \<or> writes = [WriteControl document]"
    using control_loaded [OF assms(3,5)] by metis
  obtain m writes' where m: "initialize_manifest svc control now = (Inr m, writes')"
    "holds_control svc (after_writes writes d) control \<Longrightarrow>
      holds_manifest svc (after_writes writes' (after_writes writes d)) control m"
    "sint (ce_not_before (cm_current m)) = now - CLOCK_SKEW_ALLOWANCE"
    "sint (ce_not_before (cm_next m)) = now + CERTIFICATE_EPOCH_STEP"
    "writes' = [WriteLeaf 1 leaf, WriteLeaf 2 leaf', WriteManifest (encode_signed_manifest svc m control)]"
    using first_manifest [OF assms(6,1,2), of control "after_writes writes d"] by metis
  let ?d = "after_writes (writes @ writes') d"
  have held: "holds_manifest svc ?d control m" using m(2) control(2) by (simp add: after_writes_append)
  then have valid: "validate_manifest (cm_current m) (cm_next m) = Inr ()" "holds_leaf svc ?d (cm_current m)"
    by (simp_all add: holds_manifest_def)
  have now: "now < sint (ce_not_before (cm_next m))" "sint (ce_not_before (cm_current m)) \<le> now"
    using m(3,4) by (simp_all add: CERTIFICATE_EPOCH_STEP_def CLOCK_SKEW_ALLOWANCE_def)
  have checked: "checked_manifest svc control m now = (Inr m, [])" "now < sint (ce_not_after (cm_current m))"
    using checked_in_time [OF valid(1) now(2,1)] by simp_all
  obtain p where p: "activated svc control m now ?d = Inr p"
    "pi_manifest p = encode_signed_manifest svc m control" "pi_control_public_key p = is_public_key svc control"
    "is_hash svc (pi_transport p) = ce_hash (cm_current m)"
    "now + int (pi_rotation_delay p) = sint (ce_not_before (cm_next m))"
    by (rule activated_leaf [OF valid(2) less_imp_le [OF now(1)] assms(6)])
  have "prepare_identity svc document now d = (Inr p, writes @ writes')"
    using control(1) assms(4) m(1) checked(1) p(1) by (simp add: prepare_identity_def act_then_def)
  then show ?thesis
    using p checked(2) held control(4) m(5) by (intro that) auto
qed

lemma early_writes_ok:
  assumes "id_manifest d = None" "id_control d \<noteq> None \<longrightarrow> (\<exists>control. holds_control svc d control)"
    "list_all (\<lambda>w. (\<forall>c. w \<noteq> WriteManifest c) \<and> (\<forall>c. w = WriteControl c \<longrightarrow> is_from_pkcs8 svc c \<noteq> None)) writes"
  shows "directory_ok svc (after_writes writes d)"
  using assms
proof (induction writes arbitrary: d)
  case Nil
  then show ?case by (simp add: directory_ok_def)
next
  case (Cons w writes)
  have "id_manifest (atomic_write w d) = None"
    using Cons.prems by (cases w) auto
  moreover have "id_control (atomic_write w d) \<noteq> None \<longrightarrow> (\<exists>control. holds_control svc (atomic_write w d) control)"
    using Cons.prems by (cases w) (auto simp add: holds_control_def)
  ultimately show ?case
    using Cons by simp
qed

lemma take_front: "n \<le> length xs \<Longrightarrow> take n (xs @ ys) = take n xs"
  by simp

lemma list_all_take: "list_all P xs \<Longrightarrow> list_all P (take n xs)"
  by (auto simp add: list_all_iff dest: in_set_takeD)

lemma directory_ok_writes:
  assumes "directory_ok svc d" "is_from_pkcs8 svc document \<noteq> None" "services_ok svc" "in_clock now"
    and "\<forall>control m. holds_manifest svc d control m \<longrightarrow> in_time m now \<and> unat (ce_epoch (cm_next m)) + 1 < 2 ^ 32"
    and "prepare_identity svc document now d = (result, writes)"
  shows "directory_ok svc (after_writes (take n writes) d)"
proof (cases "id_manifest d")
  case None
  then have control: "id_control d \<noteq> None \<longrightarrow> (\<exists>control. holds_control svc d control)"
    using assms(1) by (auto simp add: directory_ok_def holds_manifest_def)
  let ?build1 = "is_build svc 1 (now - CLOCK_SKEW_ALLOWANCE) (now - CLOCK_SKEW_ALLOWANCE + CERTIFICATE_LIFETIME)"
  let ?build2 = "is_build svc 2 (now + CERTIFICATE_EPOCH_STEP) (now + CERTIFICATE_EPOCH_STEP + CERTIFICATE_LIFETIME)"
  show ?thesis
  proof (cases "?build1 \<noteq> None \<and> ?build2 \<noteq> None")
    case True
    then obtain leaf leaf' where builds: "?build1 = Some leaf" "?build2 = Some leaf'" by blast
    obtain p m control writes' where first: "prepare_identity svc document now d = (Inr p, writes')"
      "holds_manifest svc (after_writes writes' d) control m"
      "\<exists>early. writes' = early @ [WriteLeaf 1 leaf, WriteLeaf 2 leaf', WriteManifest (encode_signed_manifest svc m control)]
        \<and> (early = [] \<or> early = [WriteControl document])"
      by (rule first_start [OF builds assms(2) None control assms(4)])
    moreover have "writes' = writes" using first(1) assms(6) by simp
    ultimately obtain early where start: "holds_manifest svc (after_writes writes d) control m"
      "writes = (early @ [WriteLeaf 1 leaf, WriteLeaf 2 leaf']) @ [WriteManifest (encode_signed_manifest svc m control)]"
      "early = [] \<or> early = [WriteControl document]"
      by auto
    show ?thesis
    proof (cases "length writes \<le> n")
      case True
      then show ?thesis using start(1) by (auto simp add: directory_ok_def)
    next
      case False
      then have "take n writes = take n (early @ [WriteLeaf 1 leaf, WriteLeaf 2 leaf'])"
        unfolding start(2) by (intro take_front) simp
      then show ?thesis
        using start(3) assms(2) by (auto intro!: early_writes_ok [OF None control] list_all_take)
    qed
  next
    case False
    obtain control writes' where "load_or_create_control_key svc document d = (Inr control, writes')"
      "writes' = [] \<or> writes' = [WriteControl document]"
      using control_loaded [OF assms(2) control] by metis
    then have "list_all (\<lambda>w. (\<forall>c. w \<noteq> WriteManifest c) \<and> (\<forall>c. w = WriteControl c \<longrightarrow> is_from_pkcs8 svc c \<noteq> None)) writes"
      using False assms(2,6) None
      by (auto simp add: prepare_identity_def act_then_def initialize_manifest_def generate_leaf_def Let_def
          split: option.splits prod.splits)
    then show ?thesis
      by (auto intro!: early_writes_ok [OF None control] list_all_take)
  qed
next
  case (Some encoded)
  then obtain control m where m: "holds_manifest svc d control m"
    using assms(1) by (auto simp add: directory_ok_def)
  show ?thesis
  proof (cases "is_build svc (ce_epoch (cm_next m) + 1)
      (now + CERTIFICATE_EPOCH_STEP) (now + CERTIFICATE_EPOCH_STEP + CERTIFICATE_LIFETIME)")
    case None
    then have "snd (checked_manifest svc control m now) = []"
      by (simp add: checked_manifest_def rotate_manifest_def generate_leaf_def act_then_def)
    then have "writes = []"
      using assms(6) by (simp add: prepare_loaded [OF assms(3) m] split: prod.splits)
    then show ?thesis using assms(1) by simp
  next
    case (Some leaf)
    then show ?thesis
      using start_in_time [OF assms(3) _ m assms(4)] assms(5,6) m
      by (metis Pair_inject directory_ok_def option.distinct(1))
  qed
qed

lemma identity_starts_ok: "identity_starts svc d \<Longrightarrow> services_ok svc \<Longrightarrow> directory_ok svc d"
proof (induction rule: identity_starts.induct)
  case no_start
  show ?case by (simp add: directory_ok_def)
next
  case (next_start d document now result writes n)
  then show ?case by (intro directory_ok_writes [of svc d document now result])
qed

lemma decode_held:
  assumes "services_ok svc" "holds_manifest svc d control m"
  shows "\<exists>encoded. id_manifest d = Some encoded \<and> decode_and_verify_manifest svc encoded control = Inr m"
  using assms by (simp add: holds_manifest_def decode_encoded_manifest)

lemma holds_manifest_unique:
  assumes "services_ok svc" "holds_manifest svc d control m2" "holds_manifest svc d control m"
  shows "m2 = m"
  using decode_held [OF assms(1,2)] decode_held [OF assms(1,3)] by auto

section \<open>Properties\<close>

text \<open>
  C38: certificate manifests round-trip.  A signed manifest decodes to what was encoded exactly
  when its epochs are valid, and whatever decodes is the encoding of its manifest followed by a
  signature that verifies under the control key.
\<close>

theorem signed_manifest_round_trip:
  assumes "services_ok svc"
  shows "(decode_and_verify_manifest svc (encode_signed_manifest svc m control) control = Inr m' \<longleftrightarrow>
      m' = m \<and> validate_manifest (cm_current m) (cm_next m) = Inr ())
    \<and> (decode_and_verify_manifest svc encoded control = Inr m' \<longrightarrow>
      (\<exists>signature. encoded = signed_part m' @ signature \<and> length signature = 64
        \<and> is_verify svc (is_public_key svc control) (signed_part m') signature))"
  using decode_encoded_manifest [OF assms, of m control] decoded_manifest [of svc encoded control m']
  by (auto simp add: ok_then_Inr_iff SIGNATURE_LENGTH_def)

definition demo_services :: "(bytes, int \<times> int) identity_services" where
  "demo_services = \<lparr> is_from_pkcs8 = Some, is_public_key = (\<lambda>_. 0), is_sign = (\<lambda>_ _. replicate 64 1),
    is_verify = (\<lambda>_ _ signature. signature = replicate 64 1), is_build = (\<lambda>_ a b. Some (a, b)),
    is_hash = (\<lambda>(a, b). word_of_int a) \<rparr>"

lemma demo_services_ok: "services_ok demo_services"
  by (simp add: services_ok_def demo_services_def SIGNATURE_LENGTH_def)

theorem signed_manifest_round_trip_witness:
  "\<exists>m. decode_and_verify_manifest demo_services (encode_signed_manifest demo_services m []) [] = Inr m"
proof -
  let ?e = "\<lambda>n a. \<lparr> ce_epoch = n, ce_hash = 0, ce_not_after = a + 1209600, ce_not_before = a \<rparr>"
  have "validate_manifest (?e 1 0) (?e 2 604800) = Inr ()"
    by (simp add: valid_manifest_iff CERTIFICATE_LIFETIME_def)
  then show ?thesis
    using signed_manifest_round_trip [OF demo_services_ok, of "\<lparr> cm_current = ?e 1 0, cm_next = ?e 2 604800 \<rparr>" "[]"] by auto
qed

text \<open>
  C34: every start of the gateway in time succeeds.  After any sequence of starts in time, each
  possibly crashed between two of its writes, a start while the current leaf is valid or in the
  first week of the announced one gives a manifest that verifies under the gateway's key, the
  identity of its current leaf, not yet expired, and the delay until the announced leaf takes
  over; with a manifest on disk, its current leaf stays or its announced one becomes current.
\<close>

theorem every_start_in_time_succeeds:
  assumes "identity_starts svc d" "services_ok svc" "\<And>e a b. is_build svc e a b \<noteq> None"
    and "is_from_pkcs8 svc document \<noteq> None" "in_clock now"
    and "\<And>control m. holds_manifest svc d control m \<Longrightarrow> in_time m now \<and> unat (ce_epoch (cm_next m)) + 1 < 2 ^ 32"
  shows "\<exists>p control m'. fst (prepare_identity svc document now d) = Inr p
    \<and> pi_control_public_key p = is_public_key svc control
    \<and> decode_and_verify_manifest svc (pi_manifest p) control = Inr m'
    \<and> is_hash svc (pi_transport p) = ce_hash (cm_current m') \<and> now < sint (ce_not_after (cm_current m'))
    \<and> now + int (pi_rotation_delay p) = sint (ce_not_before (cm_next m'))
    \<and> (\<forall>m. holds_manifest svc d control m \<longrightarrow>
      (if now < sint (ce_not_before (cm_next m)) then m' = m else cm_current m' = cm_next m))"
proof -
  consider (held) control m where "holds_manifest svc d control m"
    | (fresh) "id_manifest d = None" "id_control d \<noteq> None \<longrightarrow> (\<exists>control. holds_control svc d control)"
    using identity_starts_ok [OF assms(1,2)] unfolding directory_ok_def by auto
  then show ?thesis
  proof cases
    case (held control m)
    note time = assms(6) [OF held]
    obtain p m' writes where start: "prepare_identity svc document now d = (Inr p, writes)"
      "pi_manifest p = encode_signed_manifest svc m' control" "pi_control_public_key p = is_public_key svc control"
      "is_hash svc (pi_transport p) = ce_hash (cm_current m')" "succeeds m m' now"
      "now + int (pi_rotation_delay p) = sint (ce_not_before (cm_next m'))"
      "now < sint (ce_not_after (cm_current m'))"
      "\<forall>n. holds_manifest svc (after_writes (take n writes) d) control (if n < length writes then m else m')"
      by (rule start_in_time [where document = document, OF assms(2,3) held assms(5) conjunct1 [OF time] conjunct2 [OF time]])
    have decoded: "decode_and_verify_manifest svc (pi_manifest p) control = Inr m'"
      using spec [OF start(8), of "length writes"] by (simp add: start(2) decode_encoded_manifest [OF assms(2)] holds_manifest_def)
    have "m2 = m" if "holds_manifest svc d control m2" for m2
      by (rule holds_manifest_unique [OF assms(2) that held])
    then have "\<forall>m. holds_manifest svc d control m \<longrightarrow>
        (if now < sint (ce_not_before (cm_next m)) then m' = m else cm_current m' = cm_next m)"
      using start(5) by (auto simp add: succeeds_def)
    then show ?thesis
      using start(1,3,4,6,7) decoded by (intro exI [of _ p] exI [of _ control] exI [of _ m'] conjI) simp_all
  next
    case fresh
    obtain leaf leaf' where builds:
      "is_build svc 1 (now - CLOCK_SKEW_ALLOWANCE) (now - CLOCK_SKEW_ALLOWANCE + CERTIFICATE_LIFETIME) = Some leaf"
      "is_build svc 2 (now + CERTIFICATE_EPOCH_STEP) (now + CERTIFICATE_EPOCH_STEP + CERTIFICATE_LIFETIME) = Some leaf'"
      using assms(3) by blast
    obtain control p m writes where start: "prepare_identity svc document now d = (Inr p, writes)"
      "pi_manifest p = encode_signed_manifest svc m control" "pi_control_public_key p = is_public_key svc control"
      "is_hash svc (pi_transport p) = ce_hash (cm_current m)"
      "now + int (pi_rotation_delay p) = sint (ce_not_before (cm_next m))" "now < sint (ce_not_after (cm_current m))"
      "holds_manifest svc (after_writes writes d) control m"
      by (rule first_start [OF builds assms(4) fresh assms(5)])
    have "decode_and_verify_manifest svc (pi_manifest p) control = Inr m"
      using start(7) by (simp add: start(2) decode_encoded_manifest [OF assms(2)] holds_manifest_def)
    moreover have "\<not> holds_manifest svc d control m2" for m2
      using fresh(1) by (simp add: holds_manifest_def)
    ultimately show ?thesis
      using start(1,3-6) by (intro exI [of _ p] exI [of _ control] exI [of _ m] conjI) simp_all
  qed
qed

theorem every_start_in_time_succeeds_witness:
  "\<exists>p. fst (prepare_identity demo_services [] 2000000000 \<lparr> id_control = None, id_manifest = None, id_leaf = (\<lambda>_. None) \<rparr>) = Inr p"
proof -
  let ?d = "\<lparr> id_control = None, id_manifest = None, id_leaf = (\<lambda>_. None) \<rparr> :: (int \<times> int) identity_directory"
  have "\<exists>p control m'. fst (prepare_identity demo_services [] 2000000000 ?d) = Inr p
    \<and> pi_control_public_key p = is_public_key demo_services control
    \<and> decode_and_verify_manifest demo_services (pi_manifest p) control = Inr m'
    \<and> is_hash demo_services (pi_transport p) = ce_hash (cm_current m') \<and> 2000000000 < sint (ce_not_after (cm_current m'))
    \<and> 2000000000 + int (pi_rotation_delay p) = sint (ce_not_before (cm_next m'))
    \<and> (\<forall>m. holds_manifest demo_services ?d control m \<longrightarrow>
      (if 2000000000 < sint (ce_not_before (cm_next m)) then m' = m else cm_current m' = cm_next m))"
    by (rule every_start_in_time_succeeds [OF no_start demo_services_ok])
      (simp_all add: demo_services_def in_clock_def holds_manifest_def)
  then show ?thesis by blast
qed

text \<open>
  C35: a late start disables the gateway for good.  When the gateway starts after the first week
  of its announced leaf, \<open>prepare\<close> succeeds, but the manifest it signs and stores has windows that
  do not overlap: nobody can decode it, and every later start fails on it.
\<close>

theorem late_start_disables_gateway:
  assumes "services_ok svc" "\<And>e a b. is_build svc e a b \<noteq> None" "holds_manifest svc d control m" "in_clock now"
    and "sint (ce_not_before (cm_current m)) \<le> now"
    and "sint (ce_not_before (cm_next m)) + CERTIFICATE_EPOCH_STEP \<le> now" "now < sint (ce_not_after (cm_next m))"
    and "unat (ce_epoch (cm_next m)) + 1 < 2 ^ 32"
  shows "\<exists>p writes. prepare_identity svc document now d = (Inr p, writes)
    \<and> decode_and_verify_manifest svc (pi_manifest p) control = Inl ManifestEpochs
    \<and> (\<forall>document' later. prepare_identity svc document' later (after_writes writes d) = (Inl ManifestEpochs, []))"
proof -
  obtain p m' writes where start: "prepare_identity svc document now d = (Inr p, writes)"
    "holds_control svc (after_writes writes d) control" "pi_manifest p = encode_signed_manifest svc m' control"
    "id_manifest (after_writes writes d) = Some (encode_signed_manifest svc m' control)"
    "validate_manifest (cm_current m') (cm_next m') = Inl ManifestEpochs"
    by (rule late_start [OF assms(1-4) assms(6-8) assms(5)])
  have "prepare_identity svc document' later (after_writes writes d) = (Inl ManifestEpochs, [])" for document' later
    using start(2,4,5)
    by (auto simp add: holds_control_def prepare_identity_def load_or_create_control_key_def act_then_def
        decode_encoded_manifest [OF assms(1)])
  then show ?thesis
    using start by (simp add: decode_encoded_manifest [OF assms(1)])
qed


theorem late_start_disables_gateway_witness:
  "\<exists>d p writes. prepare_identity demo_services [] 2001209600 d = (Inr p, writes)
    \<and> (\<forall>document' later. prepare_identity demo_services document' later (after_writes writes d) = (Inl ManifestEpochs, []))"
proof -
  let ?d = "\<lparr> id_control = Some [], id_manifest = None, id_leaf = (\<lambda>_. None) \<rparr> :: (int \<times> int) identity_directory"
  have clock: "in_clock 2000000000" "in_clock 2001209600" by (simp_all add: in_clock_def)
  have control: "holds_control demo_services ?d []" by (simp add: holds_control_def demo_services_def)
  have builds: "is_build demo_services e a b = Some (a, b)" for e a b by (simp add: demo_services_def)
  obtain m writes where m: "holds_manifest demo_services (after_writes writes ?d) [] m"
    "sint (ce_not_before (cm_current m)) = 2000000000 - CLOCK_SKEW_ALLOWANCE"
    "sint (ce_not_before (cm_next m)) = 2000000000 + CERTIFICATE_EPOCH_STEP" "ce_epoch (cm_next m) = 2"
    using first_manifest [OF clock(1) builds builds, of "[]" ?d] control by metis
  moreover have "sint (ce_not_after (cm_next m)) = 2000000000 + CERTIFICATE_EPOCH_STEP + CERTIFICATE_LIFETIME"
    using m(1,3) by (auto simp add: holds_manifest_def valid_manifest_iff)
  ultimately have "\<exists>p writes'. prepare_identity demo_services [] 2001209600 (after_writes writes ?d) = (Inr p, writes')
    \<and> decode_and_verify_manifest demo_services (pi_manifest p) [] = Inl ManifestEpochs
    \<and> (\<forall>document' later. prepare_identity demo_services document' later (after_writes writes' (after_writes writes ?d))
        = (Inl ManifestEpochs, []))"
    using clock(2)
    by (intro late_start_disables_gateway [where m = m, OF demo_services_ok])
      (simp_all add: builds CERTIFICATE_EPOCH_STEP_def CERTIFICATE_LIFETIME_def CLOCK_SKEW_ALLOWANCE_def)
  then show ?thesis by blast
qed

end
