(* ===== verification/Session.thy ===== *)
theory Session
  imports Model Wire_Frame
begin

text \<open>
  The session daemon of \<open>src/crates/renee-sessiond/src/main.rs\<close>: it negotiates on behalf of the
  store and then forwards envelopes unread in both directions.  Two readers turn the gateway's
  pipe and the store's socket into frames; the loop of \<open>main\<close> takes them in the order in which
  they come through one channel.  Its state is the negotiation flag and what it has written.
\<close>

definition ERROR_UNSUPPORTED_VERSION :: bytes where "ERROR_UNSUPPORTED_VERSION = ascii ''unsupported-version''"
definition ERROR_UNSUPPORTED_PROFILE :: bytes where "ERROR_UNSUPPORTED_PROFILE = ascii ''unsupported-profile''"
definition ERROR_EXPECTED_HELLO :: bytes where "ERROR_EXPECTED_HELLO = ascii ''expected-client-hello''"
definition ERROR_ALREADY_NEGOTIATED :: bytes where "ERROR_ALREADY_NEGOTIATED = ascii ''already-negotiated''"
definition ERROR_MALFORMED_HELLO :: bytes where "ERROR_MALFORMED_HELLO = ascii ''malformed-client-hello''"

section \<open>Negotiation\<close>

definition negotiate :: "envelope \<Rightarrow> bool \<Rightarrow> io_error + envelope" where
  "negotiate request negotiated =
    ok_then
      (if negotiated then Inr (PROTOCOL_ERROR, ERROR_ALREADY_NEGOTIATED)
       else if ev_version request \<noteq> VERSION then Inr (PROTOCOL_ERROR, ERROR_UNSUPPORTED_VERSION)
       else if ev_message_type request \<noteq> CLIENT_HELLO then Inr (PROTOCOL_ERROR, ERROR_EXPECTED_HELLO)
       else (case decode_greeting (ev_payload request) of
           Inr greeting \<Rightarrow>
             if gr_profile greeting = PROFILE_ID
             then ok_then (encode_greeting PROFILE_ID RENEE_BANNER) (\<lambda>payload. Inr (SERVER_HELLO, payload))
             else Inr (PROTOCOL_ERROR, ERROR_UNSUPPORTED_PROFILE)
         | Inl _ \<Rightarrow> Inr (PROTOCOL_ERROR, ERROR_MALFORMED_HELLO)))
      (\<lambda>(message_type, payload). Inr \<lparr> ev_correlation_id = ev_correlation_id request,
         ev_message_type = message_type, ev_payload = payload, ev_version = VERSION \<rparr>)"

section \<open>Readers\<close>

text \<open>
  Both readers turn a byte stream into frames until a clean end or an error, which they pass on
  as the last frame.  \<open>read_standard_body\<close> reads the standard input of the process.
\<close>

definition read_standard_body :: "bytes \<Rightarrow> io_error + bytes option \<times> bytes" where
  "read_standard_body reader =
    (case reader of
      [] \<Rightarrow> Inr (None, [])
    | first # rest \<Rightarrow>
        ok_then (read_exact 3 rest) (\<lambda>(prefix, rest').
          let len = unat (be_decode (first # prefix) :: u32) in
          if len > MAX_BODY_LENGTH then Inl InvalidData
          else ok_then (read_exact len rest') (\<lambda>(body, rest''). Inr (Some body, rest''))))"

lemma read_standard_body: "read_standard_body = read_body"
  by (rule ext) (simp add: read_standard_body_def read_body_def)

type_synonym relay_result = "io_error + bytes option"

function read_relay_frames :: "bytes \<Rightarrow> relay_result list" where
  "read_relay_frames input =
    (case read_body input of
      Inl e \<Rightarrow> [Inl e]
    | Inr (None, _) \<Rightarrow> [Inr None]
    | Inr (Some body, rest) \<Rightarrow> Inr (Some body) # (if length rest < length input then read_relay_frames rest else []))"
  by pat_completeness auto
termination
  by (relation "measure length") auto

declare read_relay_frames.simps [simp del]

section \<open>The relay loop\<close>

datatype relay_source = Gateway | Store

type_synonym relay_frame = "relay_source \<times> relay_result"

record session =
  sn_negotiated :: bool
  sn_output :: bytes
  sn_store_output :: bytes

definition session_initial :: session where
  "session_initial = \<lparr> sn_negotiated = False, sn_output = [], sn_store_output = [] \<rparr>"

text \<open>The process goes on, leaves the loop, or returns an error.\<close>

datatype session_result = Continue | Ended | Failed io_error | StoreClosed

definition session_write :: "io_error + bytes \<Rightarrow> (bytes \<Rightarrow> session) \<Rightarrow> session \<Rightarrow> session_result \<times> session" where
  "session_write written update s = (case written of Inl e \<Rightarrow> (Failed e, s) | Inr out \<Rightarrow> (Continue, update out))"

definition session_step :: "relay_frame \<Rightarrow> session \<Rightarrow> session_result \<times> session" where
  "session_step frame s = (case frame of
      (_, Inl e) \<Rightarrow> (Failed e, s)
    | (Gateway, Inr None) \<Rightarrow> (Ended, s)
    | (Gateway, Inr (Some body)) \<Rightarrow>
        (case decode_body body of
          Inl _ \<Rightarrow> (Ended, s)
        | Inr request \<Rightarrow>
            if \<not> sn_negotiated s \<or> ev_message_type request = CLIENT_HELLO then
              (case negotiate request (sn_negotiated s) of
                Inl e \<Rightarrow> (Failed e, s)
              | Inr response \<Rightarrow>
                  let s = (if ev_message_type response = SERVER_HELLO then s\<lparr> sn_negotiated := True \<rparr> else s) in
                  session_write (ok_then (encode_body response) (write_body (sn_output s)))
                    (\<lambda>out. s\<lparr> sn_output := out \<rparr>) s)
            else session_write (write_body (sn_store_output s) body) (\<lambda>out. s\<lparr> sn_store_output := out \<rparr>) s)
    | (Store, Inr None) \<Rightarrow> (StoreClosed, s)
    | (Store, Inr (Some response)) \<Rightarrow>
        session_write (write_body (sn_output s) response) (\<lambda>out. s\<lparr> sn_output := out \<rparr>) s)"

fun session_run :: "relay_frame list \<Rightarrow> session \<Rightarrow> session_result \<times> session" where
  "session_run [] s = (Continue, s)"
| "session_run (frame # frames) s = (case session_step frame s of
      (Continue, s) \<Rightarrow> session_run frames s
    | (stopped, s) \<Rightarrow> (stopped, s))"

section \<open>What negotiation answers\<close>

lemma encoded_greeting: "encode_greeting PROFILE_ID RENEE_BANNER =
    Inr (be_encode (21 :: u16) @ PROFILE_ID @ be_encode (23 :: u16) @ RENEE_BANNER)"
  by (simp add: encode_greeting_def append_greeting_field_def PROFILE_ID_def RENEE_BANNER_def ascii_def length_defs)

lemma negotiate_cases:
  obtains message_type payload where
    "negotiate request negotiated = Inr \<lparr> ev_correlation_id = ev_correlation_id request,
      ev_message_type = message_type, ev_payload = payload, ev_version = VERSION \<rparr>"
    "length payload \<le> 100" "message_type \<in> {SERVER_HELLO, PROTOCOL_ERROR}"
    "message_type = SERVER_HELLO \<longleftrightarrow> \<not> negotiated \<and> ev_version request = VERSION
      \<and> ev_message_type request = CLIENT_HELLO
      \<and> (\<exists>greeting. decode_greeting (ev_payload request) = Inr greeting \<and> gr_profile greeting = PROFILE_ID)"
proof -
  have "length ERROR_ALREADY_NEGOTIATED \<le> 100" "length ERROR_UNSUPPORTED_VERSION \<le> 100"
    "length ERROR_EXPECTED_HELLO \<le> 100" "length ERROR_UNSUPPORTED_PROFILE \<le> 100"
    "length ERROR_MALFORMED_HELLO \<le> 100" "length (PROFILE_ID @ RENEE_BANNER) \<le> 96"
    by (simp_all add: ERROR_ALREADY_NEGOTIATED_def ERROR_UNSUPPORTED_VERSION_def ERROR_EXPECTED_HELLO_def
        ERROR_UNSUPPORTED_PROFILE_def ERROR_MALFORMED_HELLO_def PROFILE_ID_def RENEE_BANNER_def ascii_def)
  then show ?thesis
    by (intro that [of "if \<not> negotiated \<and> ev_version request = VERSION
      \<and> ev_message_type request = CLIENT_HELLO
      \<and> (\<exists>greeting. decode_greeting (ev_payload request) = Inr greeting \<and> gr_profile greeting = PROFILE_ID)
      then SERVER_HELLO else PROTOCOL_ERROR" "if negotiated then ERROR_ALREADY_NEGOTIATED
      else if ev_version request \<noteq> VERSION then ERROR_UNSUPPORTED_VERSION
      else if ev_message_type request \<noteq> CLIENT_HELLO then ERROR_EXPECTED_HELLO
      else case decode_greeting (ev_payload request) of
        Inr greeting \<Rightarrow> if gr_profile greeting = PROFILE_ID
          then be_encode (21 :: u16) @ PROFILE_ID @ be_encode (23 :: u16) @ RENEE_BANNER else ERROR_UNSUPPORTED_PROFILE
      | Inl _ \<Rightarrow> ERROR_MALFORMED_HELLO"])
      (auto simp add: negotiate_def encoded_greeting SERVER_HELLO_def PROTOCOL_ERROR_def split: sum.split)
qed

text \<open>A body with its length in front, as \<open>write_body\<close> puts it on a stream.\<close>

definition framed :: "bytes \<Rightarrow> bytes" where
  "framed body = be_encode (of_nat (length body) :: u32) @ body"

lemma write_body_framed: "write_body written body =
    (if length body \<le> MAX_BODY_LENGTH then Inr (written @ framed body) else Inl InvalidInput)"
  by (simp add: write_body_def framed_def length_defs)

lemma session_answer:
  assumes "decode_body body = Inr request" "\<not> sn_negotiated s \<or> ev_message_type request = CLIENT_HELLO"
  obtains answer response where
    "session_step (Gateway, Inr (Some body)) s = (Continue, s\<lparr> sn_negotiated := sn_negotiated s
      \<or> ev_message_type response = SERVER_HELLO, sn_output := sn_output s @ framed answer \<rparr>)"
    "negotiate request (sn_negotiated s) = Inr response" "decode_body answer = Inr response"
    "length answer \<le> MAX_BODY_LENGTH"
proof -
  obtain message_type payload where response: "negotiate request (sn_negotiated s) = Inr \<lparr> ev_correlation_id = ev_correlation_id request,
      ev_message_type = message_type, ev_payload = payload, ev_version = VERSION \<rparr>" "length payload \<le> 100"
    by (rule negotiate_cases)
  let ?response = "\<lparr> ev_correlation_id = ev_correlation_id request,
      ev_message_type = message_type, ev_payload = payload, ev_version = VERSION \<rparr>"
  obtain answer where answer: "encode_body ?response = Inr answer"
    using response(2) by (simp add: encode_body_def length_defs)
  note len = encode_body_length [OF answer]
  have "s\<lparr> sn_negotiated := False \<rparr> = s" if "\<not> sn_negotiated s" using that by (cases s) simp
  moreover have "s\<lparr> sn_negotiated := True \<rparr> = s" if "sn_negotiated s" using that by (cases s) simp
  moreover have "decode_body answer = Inr ?response" using answer by (simp add: decode_body_iff)
  ultimately show ?thesis
    by (intro that [where answer = answer and response = ?response])
      (use assms response answer len in \<open>auto simp add: session_step_def session_write_def write_body_framed\<close>)
qed

section \<open>The session refines the negotiation model\<close>

text \<open>The model's state and outcome, as the daemon keeps and sends them.\<close>

definition model_state :: "bool \<Rightarrow> negotiation_state" where
  "model_state negotiated = (if negotiated then Ready else AwaitingHello)"

definition outcome_message :: "negotiation_outcome \<Rightarrow> u16 \<times> bytes" where
  "outcome_message outcome = (case outcome of
      Selected banner \<Rightarrow> (SERVER_HELLO, be_encode (21 :: u16) @ PROFILE_ID @ be_encode (of_nat (length banner) :: u16) @ banner)
    | NegUnsupportedVersion \<Rightarrow> (PROTOCOL_ERROR, ERROR_UNSUPPORTED_VERSION)
    | NegUnsupportedProfile \<Rightarrow> (PROTOCOL_ERROR, ERROR_UNSUPPORTED_PROFILE)
    | AlreadyNegotiated \<Rightarrow> (PROTOCOL_ERROR, ERROR_ALREADY_NEGOTIATED))"

lemma profile_is_experimental: "PROFILE_ID = EXPERIMENTAL_PROFILE"
  by (simp add: PROFILE_ID_def EXPERIMENTAL_PROFILE_def ascii_def)

lemma length_banner: "length RENEE_BANNER = 23"
  by (simp add: RENEE_BANNER_def ascii_def)

lemma negotiate_hello:
  assumes "ev_message_type request = CLIENT_HELLO" "decode_greeting (ev_payload request) = Inr greeting"
    and "hello (model_state negotiated) \<lparr> ch_banner = gr_banner greeting, ch_profile = gr_profile greeting,
      ch_version = ev_version request \<rparr> = (outcome, state)"
  shows "negotiate request negotiated = Inr \<lparr> ev_correlation_id = ev_correlation_id request,
      ev_message_type = fst (outcome_message outcome), ev_payload = snd (outcome_message outcome), ev_version = VERSION \<rparr>
    \<and> (state = Ready \<longleftrightarrow> negotiated \<or> fst (outcome_message outcome) = SERVER_HELLO)"
  using assms by (auto simp add: hello_def negotiate_def model_state_def outcome_message_def
      encoded_greeting [unfolded profile_is_experimental]
      profile_is_experimental length_banner VERSION_def SERVER_HELLO_def PROTOCOL_ERROR_def split: if_splits)

text \<open>
  The session daemon implements the negotiation model.  On a hello whose greeting decodes it
  answers, under the correlation number of the request, with the message for the model's
  outcome, and it is negotiated afterwards exactly when the model is ready; nothing of it
  reaches the store.
\<close>

theorem negotiation_refines_model:
  assumes "decode_body body = Inr request" "ev_message_type request = CLIENT_HELLO"
    and "decode_greeting (ev_payload request) = Inr greeting"
    and "hello (model_state (sn_negotiated s)) \<lparr> ch_banner = gr_banner greeting, ch_profile = gr_profile greeting,
      ch_version = ev_version request \<rparr> = (outcome, state)"
  shows "\<exists>answer s'. session_step (Gateway, Inr (Some body)) s = (Continue, s')
    \<and> model_state (sn_negotiated s') = state \<and> sn_store_output s' = sn_store_output s
    \<and> write_body (sn_output s) answer = Inr (sn_output s')
    \<and> decode_body answer = Inr \<lparr> ev_correlation_id = ev_correlation_id request,
        ev_message_type = fst (outcome_message outcome), ev_payload = snd (outcome_message outcome),
        ev_version = VERSION \<rparr>"
proof -
  note step = negotiate_hello [OF assms(2-4)]
  obtain answer response where answer: "session_step (Gateway, Inr (Some body)) s = (Continue, s\<lparr> sn_negotiated := sn_negotiated s
      \<or> ev_message_type response = SERVER_HELLO, sn_output := sn_output s @ framed answer \<rparr>)"
    "negotiate request (sn_negotiated s) = Inr response" "decode_body answer = Inr response"
    "length answer \<le> MAX_BODY_LENGTH"
    using session_answer [OF assms(1)] assms(2) by metis
  show ?thesis
    using answer step by (cases state) (auto simp add: write_body_framed model_state_def)
qed


theorem negotiation_refines_model_witness:
  "\<exists>body s'. session_step (Gateway, Inr (Some body)) session_initial = (Continue, s') \<and> sn_negotiated s'"
proof -
  let ?payload = "be_encode (21 :: u16) @ PROFILE_ID @ be_encode (23 :: u16) @ RENEE_BANNER"
  let ?request = "\<lparr> ev_correlation_id = 7, ev_message_type = CLIENT_HELLO, ev_payload = ?payload, ev_version = VERSION \<rparr>"
  have "length ?payload \<le> 100" by (simp add: PROFILE_ID_def RENEE_BANNER_def ascii_def)
  then obtain body where body: "decode_body body = Inr ?request"
    by (simp add: decode_body_iff encode_body_def length_defs)
  have "utf8_valid PROFILE_ID" "utf8_valid RENEE_BANNER"
    by (simp_all add: PROFILE_ID_def RENEE_BANNER_def ascii_def)
  then have greeting: "decode_greeting (ev_payload ?request) = Inr \<lparr> gr_banner = RENEE_BANNER, gr_profile = PROFILE_ID \<rparr>"
    using encoded_greeting by (simp add: decode_greeting_iff)
  have "hello (model_state (sn_negotiated session_initial)) \<lparr> ch_banner = RENEE_BANNER, ch_profile = PROFILE_ID,
      ch_version = VERSION \<rparr> = (Selected RENEE_BANNER, Ready)"
    by (simp add: hello_def model_state_def session_initial_def VERSION_def profile_is_experimental)
  with negotiation_refines_model [OF body _ greeting, of session_initial "Selected RENEE_BANNER" Ready]
  show ?thesis by (auto simp add: model_state_def split: if_splits)
qed

section \<open>What passes through a session\<close>

definition is_hello :: "bytes \<Rightarrow> bool" where
  "is_hello body = (case decode_body body of Inl _ \<Rightarrow> False | Inr request \<Rightarrow> ev_message_type request = CLIENT_HELLO)"

text \<open>The hello that a session accepts: the version and the profile of this implementation.\<close>

definition selects :: "bytes \<Rightarrow> bool" where
  "selects body = (case decode_body body of Inl _ \<Rightarrow> False
    | Inr request \<Rightarrow> ev_version request = VERSION \<and> ev_message_type request = CLIENT_HELLO
      \<and> (case decode_greeting (ev_payload request) of Inl _ \<Rightarrow> False | Inr greeting \<Rightarrow> gr_profile greeting = PROFILE_ID))"

definition is_server_hello :: "bytes \<Rightarrow> bool" where
  "is_server_hello body = (case decode_body body of Inl _ \<Rightarrow> False | Inr response \<Rightarrow> ev_message_type response = SERVER_HELLO)"

text \<open>An answer of the daemon itself, under the correlation number of the request.\<close>

definition answers_request :: "bytes \<Rightarrow> bytes \<Rightarrow> bool" where
  "answers_request body answer = (case (decode_body body, decode_body answer) of
      (Inr request, Inr response) \<Rightarrow> ev_correlation_id response = ev_correlation_id request
        \<and> ev_message_type response \<in> {SERVER_HELLO, PROTOCOL_ERROR}
    | _ \<Rightarrow> False)"

fun bodies_of :: "relay_source \<Rightarrow> relay_frame list \<Rightarrow> bytes list" where
  "bodies_of source [] = []"
| "bodies_of source ((from_source, Inr (Some body)) # frames) =
    (if from_source = source then body # bodies_of source frames else bodies_of source frames)"
| "bodies_of source (_ # frames) = bodies_of source frames"

text \<open>What is forwarded of the requests: all but hellos, once negotiated.\<close>

definition forwarded :: "bool \<Rightarrow> bytes list \<Rightarrow> bytes list" where
  "forwarded negotiated requests = filter (\<lambda>body. \<not> is_hello body)
    (if negotiated then requests else tl (dropWhile (\<lambda>body. \<not> selects body) requests))"

lemma selects_is_hello: "selects body \<Longrightarrow> is_hello body"
  by (auto simp add: selects_def is_hello_def split: sum.splits)

lemma selects_decoded:
  assumes "decode_body body = Inr request"
  shows "selects body \<longleftrightarrow> ev_version request = VERSION \<and> ev_message_type request = CLIENT_HELLO
    \<and> (\<exists>greeting. decode_greeting (ev_payload request) = Inr greeting \<and> gr_profile greeting = PROFILE_ID)"
  using assms by (auto simp add: selects_def split: sum.splits)

lemma forwarded_simps [simp]:
  "forwarded negotiated [] = []"
  "forwarded True (body # requests) = (if is_hello body then forwarded True requests else body # forwarded True requests)"
  "forwarded False (body # requests) = forwarded (selects body) requests"
  by (simp_all add: forwarded_def)

text \<open>One frame that the session goes on after.\<close>

lemma session_step_cases:
  assumes "session_step frame s = (Continue, s')"
  obtains (answered) body answer where "frame = (Gateway, Inr (Some body))" "\<not> sn_negotiated s \<or> is_hello body"
      "s' = s\<lparr> sn_negotiated := sn_negotiated s \<or> selects body, sn_output := sn_output s @ framed answer \<rparr>"
      "answers_request body answer" "is_server_hello answer \<longleftrightarrow> \<not> sn_negotiated s \<and> selects body"
      "length answer \<le> MAX_BODY_LENGTH"
  | (forwarded) body where "frame = (Gateway, Inr (Some body))" "sn_negotiated s" "\<not> is_hello body"
      "s' = s\<lparr> sn_store_output := sn_store_output s @ framed body \<rparr>" "length body \<le> MAX_BODY_LENGTH"
  | (delivered) body where "frame = (Store, Inr (Some body))"
      "s' = s\<lparr> sn_output := sn_output s @ framed body \<rparr>" "length body \<le> MAX_BODY_LENGTH"
proof -
  consider (gateway) body request where "frame = (Gateway, Inr (Some body))" "decode_body body = Inr request"
    | (store) body where "frame = (Store, Inr (Some body))"
  proof -
    have running: "fst (session_step frame s) = Continue" using assms by simp
    obtain source result where frame: "frame = (source, result)" by fastforce
    obtain received where "result = Inr received" using running by (cases result; cases source) (simp_all add: session_step_def frame)
    moreover obtain body where "received = Some body"
      using running by (cases received; cases source) (simp_all add: session_step_def frame calculation)
    moreover have "source = Gateway \<Longrightarrow> \<exists>request. decode_body body = Inr request"
      using running by (cases "decode_body body") (simp_all add: session_step_def frame calculation)
    ultimately show thesis using that frame by (cases source) auto
  qed
  then show ?thesis
  proof cases
    case (gateway body request)
    show ?thesis
    proof (cases "\<not> sn_negotiated s \<or> ev_message_type request = CLIENT_HELLO")
      case True
      obtain answer response where answer: "session_step frame s = (Continue, s\<lparr> sn_negotiated := sn_negotiated s
          \<or> ev_message_type response = SERVER_HELLO, sn_output := sn_output s @ framed answer \<rparr>)"
        "negotiate request (sn_negotiated s) = Inr response" "decode_body answer = Inr response"
        "length answer \<le> MAX_BODY_LENGTH"
        using session_answer [OF gateway(2) True] gateway(1) by metis
      obtain message_type payload where response: "response = \<lparr> ev_correlation_id = ev_correlation_id request,
          ev_message_type = message_type, ev_payload = payload, ev_version = VERSION \<rparr>"
        "message_type \<in> {SERVER_HELLO, PROTOCOL_ERROR}"
        "message_type = SERVER_HELLO \<longleftrightarrow> \<not> sn_negotiated s \<and> selects body"
        unfolding selects_decoded [OF gateway(2)]
        by (rule negotiate_cases [of request "sn_negotiated s"]) (use answer(2) in auto)
      have "(sn_negotiated s \<or> ev_message_type response = SERVER_HELLO) = (sn_negotiated s \<or> selects body)"
        using response by auto
      then have s': "s' = s\<lparr> sn_negotiated := sn_negotiated s \<or> selects body, sn_output := sn_output s @ framed answer \<rparr>"
        using assms answer(1) by simp
      show ?thesis
        by (rule answered [where answer = answer, OF gateway(1)])
          (use assms True answer(3,4) response gateway s' in \<open>auto simp add: is_hello_def answers_request_def is_server_hello_def\<close>)
    next
      case False
      then show ?thesis
        using assms gateway
        by (intro forwarded [of body])
          (auto simp add: session_step_def session_write_def write_body_framed is_hello_def split: if_splits)
    qed
  next
    case (store body)
    then show ?thesis
      using assms by (intro delivered [of body]) (auto simp add: session_step_def session_write_def write_body_framed split: if_splits)
  qed
qed

lemma session_run_through:
  assumes "session_run frames s = (Continue, s')"
  shows "\<exists>outs answers others.
    sn_negotiated s' = (sn_negotiated s \<or> (\<exists>body \<in> set (bodies_of Gateway frames). selects body))
    \<and> sn_store_output s' = sn_store_output s @ concat (map framed (forwarded (sn_negotiated s) (bodies_of Gateway frames)))
    \<and> list_all (\<lambda>body. length body \<le> MAX_BODY_LENGTH) (forwarded (sn_negotiated s) (bodies_of Gateway frames))
    \<and> sn_output s' = sn_output s @ concat (map framed outs) \<and> list_all (\<lambda>body. length body \<le> MAX_BODY_LENGTH) outs
    \<and> outs \<in> shuffles (bodies_of Store frames) answers
    \<and> bodies_of Gateway frames \<in> shuffles (forwarded (sn_negotiated s) (bodies_of Gateway frames)) others
    \<and> list_all2 answers_request others answers
    \<and> length (filter is_server_hello answers) = of_bool (\<not> sn_negotiated s \<and> sn_negotiated s')"
  using assms
proof (induction frames arbitrary: s)
  case Nil
  then show ?case by (auto intro!: exI [of _ "[]"])
next
  case (Cons frame frames)
  then obtain s1 where s1: "session_step frame s = (Continue, s1)" "session_run frames s1 = (Continue, s')"
    by (auto split: prod.splits session_result.splits)
  obtain outs answers others where IH:
    "sn_negotiated s' = (sn_negotiated s1 \<or> (\<exists>body \<in> set (bodies_of Gateway frames). selects body))"
    "sn_store_output s' = sn_store_output s1 @ concat (map framed (forwarded (sn_negotiated s1) (bodies_of Gateway frames)))"
    "list_all (\<lambda>body. length body \<le> MAX_BODY_LENGTH) (forwarded (sn_negotiated s1) (bodies_of Gateway frames))"
    "sn_output s' = sn_output s1 @ concat (map framed outs)" "list_all (\<lambda>body. length body \<le> MAX_BODY_LENGTH) outs"
    "outs \<in> shuffles (bodies_of Store frames) answers"
    "bodies_of Gateway frames \<in> shuffles (forwarded (sn_negotiated s1) (bodies_of Gateway frames)) others"
    "list_all2 answers_request others answers"
    "length (filter is_server_hello answers) = of_bool (\<not> sn_negotiated s1 \<and> sn_negotiated s')"
    using Cons.IH [OF s1(2)] by blast
  from s1(1) show ?case
  proof (cases rule: session_step_cases)
    case (answered body answer)
    let ?requests = "bodies_of Gateway frames"
    have rest: "forwarded (sn_negotiated s) (body # ?requests) = forwarded (sn_negotiated s1) ?requests"
      "sn_negotiated s1 = (sn_negotiated s \<or> selects body)" "bodies_of Gateway (frame # frames) = body # ?requests"
      "bodies_of Store (frame # frames) = bodies_of Store frames"
      using answered(1-3) by (cases "sn_negotiated s"; simp)+
    have "length (filter is_server_hello (answer # answers)) = of_bool (\<not> sn_negotiated s \<and> sn_negotiated s')"
      using IH(1,9) answered(5) rest(2) by (cases "sn_negotiated s") auto
    then show ?thesis
      unfolding rest(1,3,4)
      using IH(1-8) rest(2) answered(3,4,6)
      by (intro exI [of _ "answer # outs"] exI [of _ "answer # answers"] exI [of _ "body # others"] conjI)
        (simp_all add: Cons_in_shuffles_rightI disj_ac)
  next
    case (forwarded body)
    then show ?thesis
      using IH
      by (intro exI [of _ outs] exI [of _ answers] exI [of _ others])
        (auto simp del: shuffles.simps intro: Cons_in_shuffles_leftI dest: selects_is_hello)
  next
    case (delivered body)
    then show ?thesis
      using IH
      by (intro exI [of _ "body # outs"] exI [of _ answers] exI [of _ others])
        (auto simp del: shuffles.simps intro: Cons_in_shuffles_leftI)
  qed
qed


lemma read_frames_framed:
  "list_all (\<lambda>body. length body \<le> MAX_BODY_LENGTH) bodies \<Longrightarrow> read_frames (concat (map framed bodies)) = Inr bodies"
proof (induction bodies)
  case Nil
  show ?case by (simp add: read_frames.simps read_body_def)
next
  case (Cons body bodies)
  then have "read_body (framed body @ concat (map framed bodies)) = Inr (Some body, concat (map framed bodies))"
    by (simp add: framed_def read_body_append)
  moreover have "read_frames (concat (map framed bodies)) = Inr bodies" using Cons by simp
  moreover have "length (framed body) \<noteq> 0" unfolding framed_def by simp
  ultimately show ?case
    by (subst read_frames.simps) simp
qed

text \<open>
  C31: however the two readers interleave, the session stays transparent and closed until it is
  negotiated.  The store reads exactly the gateway's envelopes that follow the accepted hello,
  verbatim and in order, but for later hellos.  Every other envelope of the gateway is answered
  once, in order and under its own correlation number, with at most one server hello among
  the answers; and the gateway reads these answers merged with everything the store sent,
  verbatim and in order.
\<close>

theorem session_forwards_only_after_negotiation:
  assumes "session_run frames session_initial = (Continue, s)"
  defines "requests \<equiv> bodies_of Gateway frames"
  defines "passed \<equiv> filter (\<lambda>body. \<not> is_hello body) (tl (dropWhile (\<lambda>body. \<not> selects body) requests))"
  shows "read_frames (sn_store_output s) = Inr passed
    \<and> (\<exists>delivered answers others. read_frames (sn_output s) = Inr delivered
      \<and> delivered \<in> shuffles (bodies_of Store frames) answers \<and> requests \<in> shuffles passed others
      \<and> list_all2 answers_request others answers \<and> length (filter is_server_hello answers) \<le> 1)"
proof -
  have passed: "passed = forwarded False requests" by (simp add: passed_def forwarded_def)
  obtain delivered answers others where run:
    "sn_store_output s = concat (map framed passed)" "list_all (\<lambda>body. length body \<le> MAX_BODY_LENGTH) passed"
    "sn_output s = concat (map framed delivered)" "list_all (\<lambda>body. length body \<le> MAX_BODY_LENGTH) delivered"
    "delivered \<in> shuffles (bodies_of Store frames) answers" "requests \<in> shuffles passed others"
    "list_all2 answers_request others answers" "length (filter is_server_hello answers) \<le> 1"
    using session_run_through [OF assms(1)] unfolding passed requests_def by (auto simp add: session_initial_def)
  then show ?thesis
    using read_frames_framed by auto
qed

theorem session_forwards_only_after_negotiation_witness:
  "\<exists>body s. session_run [(Store, Inr (Some [1, 2])), (Gateway, Inr (Some body))] session_initial = (Continue, s)
    \<and> read_frames (sn_store_output s) = Inr []"
proof -
  let ?request = "\<lparr> ev_correlation_id = 7, ev_message_type = SERVER_HELLO, ev_payload = [], ev_version = VERSION \<rparr>"
  obtain body where body: "decode_body body = Inr ?request"
    by (simp add: decode_body_iff encode_body_def length_defs)
  let ?s = "session_initial\<lparr> sn_output := framed [1, 2] \<rparr>"
  have first: "session_step (Store, Inr (Some [1, 2])) session_initial = (Continue, ?s)"
    by (simp add: session_step_def session_write_def write_body_framed length_defs session_initial_def)
  have unnegotiated: "\<not> sn_negotiated ?s" by (simp add: session_initial_def)
  obtain s where "session_step (Gateway, Inr (Some body)) ?s = (Continue, s)"
    using session_answer [OF body] unnegotiated by blast
  then have run: "session_run [(Store, Inr (Some [1, 2])), (Gateway, Inr (Some body))] session_initial = (Continue, s)"
    using first by simp
  have "\<not> selects body" using body by (simp add: selects_def SERVER_HELLO_def CLIENT_HELLO_def)
  with session_forwards_only_after_negotiation [OF run] have "read_frames (sn_store_output s) = Inr []"
    by simp
  with run show ?thesis by blast
qed

end
