(* ===== verification/Gateway_Relay.thy ===== *)
theory Gateway_Relay
  imports Session Ordered_Map Wire_Update
begin

text \<open>
  The relay of one public connection in \<open>src/crates/renee-gatewayd/src/main.rs\<close>.  Every public
  stream is a task that reads one request and waits for its response; the dispatcher
  \<open>relay_session\<close> hands requests to the session process and routes what comes back by
  correlation number, subscription events to streams of their own.  The interleaving of the
  tasks with the dispatcher, what clients send and which I/O fails are the choices of a step
  relation.
\<close>

definition MAX_CONNECTION_REQUESTS :: nat where "MAX_CONNECTION_REQUESTS = 64"

section \<open>A public request\<close>

datatype request_error = RequestIo io_error | RequestTimedOut | TrailingBytes

text \<open>
  \<open>require_request_eof\<close> on the bytes left of a stream, which the client finishes in time or not.
\<close>

definition require_request_eof :: "bool \<Rightarrow> bytes \<Rightarrow> request_error + unit" where
  "require_request_eof finished rest =
    (if rest \<noteq> [] then Inl TrailingBytes else if finished then Inr () else Inl RequestTimedOut)"

text \<open>The body a task hands to the dispatcher, if the stream has one.\<close>

definition public_request :: "bool \<Rightarrow> bytes \<Rightarrow> request_error + bytes option" where
  "public_request finished stream = (case read_body stream of
      Inl e \<Rightarrow> Inl (RequestIo e)
    | Inr (None, _) \<Rightarrow> Inr None
    | Inr (Some body, rest) \<Rightarrow> ok_then (require_request_eof finished rest) (\<lambda>_. Inr (Some body)))"

definition certificate_manifest_response :: "bytes \<Rightarrow> bytes \<Rightarrow> io_error + bytes option" where
  "certificate_manifest_response body manifest = (case decode_body body of
      Inl _ \<Rightarrow> Inr None
    | Inr request \<Rightarrow>
        if ev_version request \<noteq> VERSION \<or> ev_message_type request \<noteq> CERTIFICATE_MANIFEST then Inr None
        else ok_then (encode_body \<lparr> ev_correlation_id = ev_correlation_id request,
          ev_message_type = CERTIFICATE_MANIFEST_RESPONSE, ev_payload = manifest, ev_version = VERSION \<rparr>)
          (\<lambda>response. Inr (Some response)))"

section \<open>State\<close>

text \<open>
  A task reads its stream, has its request in the dispatcher's queue, waits for the response,
  writes it - and then confirms the delivery when asked - or is finished, well or not.
\<close>

datatype request_task =
    Reading
  | Queued bytes
  | Waiting bytes
  | Responding bytes bytes bool
  | Finished bool

datatype session_output = Frame bytes | OutputClosed | OutputError io_error

datatype relay_error =
    RequestLimit | RequestEnvelope | CorrelationLimit | DuplicateCorrelation | SessionClosed
  | SessionError io_error | ResponseEnvelope | ImpossibleCorrelation | AckClosedEarly | TaskFailed
  | RelayIo io_error | ConnectionIo

datatype relay_end = ConnectionClosed | RelayFailed relay_error

text \<open>What clients see: a response on the stream of its request, or an event on its own stream.\<close>

datatype relay_output = Replied bytes bytes | Announced bytes

text \<open>
  Beside the state of the dispatcher: the request bodies forwarded, the frames of the session
  handled, and the outputs, each in order.  While \<open>gr_blocked\<close> names a task the dispatcher waits
  for the delivery of its acknowledgement.
\<close>

record relay_state =
  gr_tasks :: "(nat, request_task) omap"
  gr_next :: nat
  gr_queue :: "nat list"
  gr_pending :: "(id16, nat) omap"
  gr_blocked :: "nat option"
  gr_input :: bytes
  gr_forwarded :: "bytes list"
  gr_frames :: "bytes list"
  gr_log :: "relay_output list"
  gr_end :: "relay_end option"

definition relay_initial :: relay_state where
  "relay_initial = \<lparr> gr_tasks = om_empty, gr_next = 0, gr_queue = [], gr_pending = om_empty, gr_blocked = None,
    gr_input = [], gr_forwarded = [], gr_frames = [], gr_log = [], gr_end = None \<rparr>"

section \<open>The dispatcher\<close>

definition relay_fail :: "relay_error \<Rightarrow> relay_state \<Rightarrow> relay_state" where
  "relay_fail e s = s\<lparr> gr_end := Some (RelayFailed e) \<rparr>"

definition set_task :: "nat \<Rightarrow> request_task \<Rightarrow> relay_state \<Rightarrow> relay_state" where
  "set_task t task s = s\<lparr> gr_tasks := om_insert t task (gr_tasks s) \<rparr>"

text \<open>A connection whose task limit is reached is closed, not queued.\<close>

definition accept_stream :: "relay_state \<Rightarrow> relay_state" where
  "accept_stream s =
    (if length (gr_tasks s) \<ge> MAX_CONNECTION_REQUESTS then relay_fail RequestLimit s
     else (set_task (gr_next s) Reading s)\<lparr> gr_next := gr_next s + 1 \<rparr>)"

text \<open>\<open>manifest\<close> is the manifest of a debug build.\<close>

definition dispatch_request :: "bytes option \<Rightarrow> nat \<Rightarrow> bytes \<Rightarrow> relay_state \<Rightarrow> relay_state" where
  "dispatch_request manifest t body s = (case decode_body body of
      Inl _ \<Rightarrow> relay_fail RequestEnvelope s
    | Inr envelope \<Rightarrow>
        (case (case manifest of None \<Rightarrow> Inr None | Some m \<Rightarrow> certificate_manifest_response body m) of
          Inl e \<Rightarrow> relay_fail (RelayIo e) s
        | Inr (Some response) \<Rightarrow> set_task t (Responding body response False) s
        | Inr None \<Rightarrow>
            if length (gr_pending s) \<ge> MAX_CONNECTION_REQUESTS then relay_fail CorrelationLimit s
            else if om_contains (gr_pending s) (ev_correlation_id envelope) then relay_fail DuplicateCorrelation s
            else
              let s = (set_task t (Waiting body) s)
                \<lparr> gr_pending := om_insert (ev_correlation_id envelope) t (gr_pending s) \<rparr> in
              (case write_body (gr_input s) body of
                Inl e \<Rightarrow> relay_fail (RelayIo e) s
              | Inr input \<Rightarrow> s\<lparr> gr_input := input, gr_forwarded := gr_forwarded s @ [body] \<rparr>)))"

definition route_frame :: "bytes \<Rightarrow> relay_state \<Rightarrow> relay_state" where
  "route_frame response s =
    (let s = s\<lparr> gr_frames := gr_frames s @ [response] \<rparr> in
     case decode_body response of
      Inl _ \<Rightarrow> relay_fail ResponseEnvelope s
    | Inr envelope \<Rightarrow>
        if is_update_subscription_event (ev_message_type envelope)
        then s\<lparr> gr_log := gr_log s @ [Announced response] \<rparr>
        else (case om_get (gr_pending s) (ev_correlation_id envelope) of
            None \<Rightarrow> relay_fail ImpossibleCorrelation s
          | Some t \<Rightarrow>
              let s = s\<lparr> gr_pending := om_delete (ev_correlation_id envelope) (gr_pending s) \<rparr>;
                  ack = (ev_message_type envelope = SUBSCRIBE_UPDATES_ACK) in
              (case om_get (gr_tasks s) t of
                Some (Waiting body) \<Rightarrow>
                  (set_task t (Responding body response ack) s)\<lparr> gr_blocked := if ack then Some t else None \<rparr>
              | _ \<Rightarrow> if ack then relay_fail AckClosedEarly s else s)))"

definition route_output :: "session_output \<Rightarrow> relay_state \<Rightarrow> relay_state" where
  "route_output output s = (case output of
      Frame response \<Rightarrow> route_frame response s
    | OutputClosed \<Rightarrow> relay_fail SessionClosed s
    | OutputError e \<Rightarrow> relay_fail (SessionError e) s)"

section \<open>Tasks\<close>

definition finish_reading :: "nat \<Rightarrow> request_error + bytes option \<Rightarrow> relay_state \<Rightarrow> relay_state" where
  "finish_reading t request s = (case request of
      Inl _ \<Rightarrow> set_task t (Finished False) s
    | Inr None \<Rightarrow> set_task t (Finished True) s
    | Inr (Some body) \<Rightarrow> (set_task t (Queued body) s)\<lparr> gr_queue := gr_queue s @ [t] \<rparr>)"

text \<open>The response is written, or not: the delivery is confirmed, or its channel is dropped.\<close>

definition finish_responding :: "bool \<Rightarrow> nat \<Rightarrow> bytes \<Rightarrow> bytes \<Rightarrow> bool \<Rightarrow> relay_state \<Rightarrow> relay_state" where
  "finish_responding written t request response ack s =
    (let s = (set_task t (Finished written) s)\<lparr> gr_blocked := if ack then None else gr_blocked s \<rparr> in
     if written then s\<lparr> gr_log := gr_log s @ [Replied request response] \<rparr>
     else if ack then relay_fail AckClosedEarly s else s)"

definition join_task :: "nat \<Rightarrow> bool \<Rightarrow> relay_state \<Rightarrow> relay_state" where
  "join_task t ok s = (let s = s\<lparr> gr_tasks := om_delete t (gr_tasks s) \<rparr> in
     if ok then s else relay_fail TaskFailed s)"

section \<open>Interleaving\<close>

inductive relay_step :: "bytes option \<Rightarrow> relay_state \<Rightarrow> relay_state \<Rightarrow> bool" for manifest where
  rs_accept: "gr_end s = None \<Longrightarrow> gr_blocked s = None \<Longrightarrow> relay_step manifest s (accept_stream s)"
| rs_dispatch: "gr_end s = None \<Longrightarrow> gr_blocked s = None \<Longrightarrow> gr_queue s = t # queue \<Longrightarrow>
    om_get (gr_tasks s) t = Some (Queued body) \<Longrightarrow>
    relay_step manifest s (dispatch_request manifest t body (s\<lparr> gr_queue := queue \<rparr>))"
| rs_output: "gr_end s = None \<Longrightarrow> gr_blocked s = None \<Longrightarrow> relay_step manifest s (route_output received s)"
| rs_join: "gr_end s = None \<Longrightarrow> gr_blocked s = None \<Longrightarrow> om_get (gr_tasks s) t = Some (Finished ok) \<Longrightarrow>
    relay_step manifest s (join_task t ok s)"
| rs_closed: "gr_end s = None \<Longrightarrow> gr_blocked s = None \<Longrightarrow>
    relay_step manifest s (s\<lparr> gr_end := Some ConnectionClosed \<rparr>)"
| rs_io_fails: "gr_end s = None \<Longrightarrow> gr_blocked s = None \<Longrightarrow> relay_step manifest s (relay_fail ConnectionIo s)"
| rs_read: "gr_end s = None \<Longrightarrow> om_get (gr_tasks s) t = Some Reading \<Longrightarrow>
    relay_step manifest s (finish_reading t (public_request finished stream) s)"
| rs_reply: "gr_end s = None \<Longrightarrow> om_get (gr_tasks s) t = Some (Responding request response ack) \<Longrightarrow>
    relay_step manifest s (finish_responding written t request response ack s)"

inductive relay_run :: "bytes option \<Rightarrow> relay_state \<Rightarrow> bool" for manifest where
  relay_start: "relay_run manifest relay_initial"
| relay_next: "relay_run manifest s \<Longrightarrow> relay_step manifest s s' \<Longrightarrow> relay_run manifest s'"

section \<open>The invariant of a relay\<close>

lemma length_om: "om_invar m \<Longrightarrow> length m = card (fst ` set m)"
  by (metis distinct_card length_map list.set_map om_invar_def strict_sorted_iff)

lemma length_om_insert_le: "om_invar m \<Longrightarrow> length (om_insert k v m) \<le> Suc (length m)"
  by (simp add: length_om set_fst_om_insert card_insert_if)

lemma length_om_insert_old: "om_invar m \<Longrightarrow> om_get m k \<noteq> None \<Longrightarrow> length (om_insert k v m) = length m"
  using om_contains_iff [of m k] by (simp add: length_om set_fst_om_insert card_insert_if om_contains_def)

definition correlates :: "bytes \<Rightarrow> bytes \<Rightarrow> bool" where
  "correlates request response \<longleftrightarrow> (\<exists>q r. decode_body request = Inr q \<and> decode_body response = Inr r
    \<and> ev_correlation_id r = ev_correlation_id q)"

text \<open>What belongs to a subscription: its acknowledgement and its events.\<close>

definition of_subscription :: "bytes \<Rightarrow> bool" where
  "of_subscription body \<longleftrightarrow> (\<exists>e. decode_body body = Inr e
    \<and> (is_update_subscription_event (ev_message_type e) \<or> ev_message_type e = SUBSCRIBE_UPDATES_ACK))"

definition tasks_ok :: "relay_state \<Rightarrow> bool" where
  "tasks_ok s \<longleftrightarrow> om_invar (gr_tasks s) \<and> length (gr_tasks s) \<le> MAX_CONNECTION_REQUESTS
    \<and> (\<forall>t. om_get (gr_tasks s) t \<noteq> None \<longrightarrow> t < gr_next s)
    \<and> distinct (gr_queue s) \<and> (\<forall>t \<in> set (gr_queue s). \<exists>body. om_get (gr_tasks s) t = Some (Queued body))
    \<and> (\<forall>t q r ack. om_get (gr_tasks s) t = Some (Responding q r ack) \<longrightarrow> correlates q r)"

definition pending_ok :: "relay_state \<Rightarrow> bool" where
  "pending_ok s \<longleftrightarrow> om_invar (gr_pending s)
    \<and> (\<forall>c t. om_get (gr_pending s) c = Some t \<longrightarrow>
      (\<exists>body e. om_get (gr_tasks s) t = Some (Waiting body) \<and> decode_body body = Inr e \<and> ev_correlation_id e = c))
    \<and> (\<forall>t body. om_get (gr_tasks s) t = Some (Waiting body) \<longrightarrow>
      (\<exists>e. decode_body body = Inr e \<and> om_get (gr_pending s) (ev_correlation_id e) = Some t))"

definition outputs_ok :: "relay_state \<Rightarrow> bool" where
  "outputs_ok s \<longleftrightarrow> (\<forall>q r. Replied q r \<in> set (gr_log s) \<longrightarrow> correlates q r)
    \<and> gr_input s = concat (map framed (gr_forwarded s))
    \<and> list_all (\<lambda>body. length body \<le> MAX_BODY_LENGTH) (gr_forwarded s)
    \<and> gr_end s \<noteq> Some (RelayFailed CorrelationLimit)"

definition relay_ok :: "relay_state \<Rightarrow> bool" where
  "relay_ok s \<longleftrightarrow> tasks_ok s \<and> pending_ok s \<and> outputs_ok s"

lemmas relay_ok_defs = relay_ok_def tasks_ok_def pending_ok_def outputs_ok_def

lemma om_get_delete: "om_get (om_delete k m) k' = (if k' = k then None else om_get m k')"
  by (induction m) (auto simp add: om_get_def om_delete_def)

lemma om_invar_delete [simp]: "om_invar m \<Longrightarrow> om_invar (om_delete k m)"
  by (simp add: om_delete_def om_get_filter_values)

lemma pending_injective:
  assumes "pending_ok s" "om_get (gr_pending s) c = Some t" "om_get (gr_pending s) c' = Some t"
  shows "c = c'"
proof -
  obtain body e where "om_get (gr_tasks s) t = Some (Waiting body)" "decode_body body = Inr e" "ev_correlation_id e = c"
    using assms(1,2) unfolding pending_ok_def by blast
  moreover obtain body' e' where "om_get (gr_tasks s) t = Some (Waiting body')" "decode_body body' = Inr e'" "ev_correlation_id e' = c'"
    using assms(1,3) unfolding pending_ok_def by blast
  ultimately show ?thesis by simp
qed

text \<open>Every pending request belongs to a waiting task of its own.\<close>

definition waiting :: "relay_state \<Rightarrow> nat set" where
  "waiting s = {t. \<exists>body. om_get (gr_tasks s) t = Some (Waiting body)}"

lemma task_keys: "om_get (gr_tasks s) t \<noteq> None \<longleftrightarrow> t \<in> fst ` set (gr_tasks s)"
  using om_contains_iff [of "gr_tasks s" t] by (simp add: om_contains_def)

lemma waiting_tasks: "waiting s \<subseteq> fst ` set (gr_tasks s)"
  using task_keys [of s] by (force simp add: waiting_def)

lemma pending_waiting:
  assumes "pending_ok s"
  shows "length (gr_pending s) \<le> card (waiting s)"
proof -
  have pending: "om_get (gr_pending s) c \<noteq> None \<longleftrightarrow> c \<in> fst ` set (gr_pending s)" for c
    using om_contains_iff [of "gr_pending s" c] by (simp add: om_contains_def)
  have "inj_on (\<lambda>c. the (om_get (gr_pending s) c)) (fst ` set (gr_pending s))"
    using pending_injective [OF assms] by (intro inj_onI) (auto simp flip: pending)
  then have "card (fst ` set (gr_pending s)) = card ((\<lambda>c. the (om_get (gr_pending s) c)) ` fst ` set (gr_pending s))"
    by (simp add: card_image)
  also have "\<dots> \<le> card (waiting s)"
  proof (rule card_mono)
    show "finite (waiting s)" using waiting_tasks by (meson finite_imageI finite_set finite_subset)
    show "(\<lambda>c. the (om_get (gr_pending s) c)) ` fst ` set (gr_pending s) \<subseteq> waiting s"
    proof
      fix t
      assume "t \<in> (\<lambda>c. the (om_get (gr_pending s) c)) ` fst ` set (gr_pending s)"
      then obtain c where c: "c \<in> fst ` set (gr_pending s)" "t = the (om_get (gr_pending s) c)" by blast
      then have "om_get (gr_pending s) c = Some t" using pending [of c] by auto
      then show "t \<in> waiting s" using assms unfolding pending_ok_def waiting_def by blast
    qed
  qed
  finally show ?thesis
    using assms by (simp add: pending_ok_def length_om)
qed

lemma pending_tasks: "relay_ok s \<Longrightarrow> length (gr_pending s) \<le> length (gr_tasks s)"
  using pending_waiting [of s] card_mono [OF _ waiting_tasks [of s]]
  by (simp add: relay_ok_def tasks_ok_def length_om)

lemma pending_count:
  assumes "relay_ok s" "om_get (gr_tasks s) t = Some (Queued body)"
  shows "length (gr_pending s) < length (gr_tasks s)"
proof -
  have "t \<in> fst ` set (gr_tasks s)" "t \<notin> waiting s"
    using assms(2) task_keys [of s t] by (simp_all add: waiting_def)
  then have "waiting s \<subset> fst ` set (gr_tasks s)" using waiting_tasks by blast
  then have "card (waiting s) < card (fst ` set (gr_tasks s))" by (intro psubset_card_mono) simp_all
  then show ?thesis
    using pending_waiting [of s] assms(1) by (simp add: relay_ok_def tasks_ok_def length_om)
qed


section \<open>The invariant is kept\<close>

lemma relay_fail_ok: "relay_ok s \<Longrightarrow> e \<noteq> CorrelationLimit \<Longrightarrow> relay_ok (relay_fail e s)"
  by (simp add: relay_ok_defs relay_fail_def)

lemma relay_ok_fields [simp]:
  "relay_ok (s\<lparr> gr_blocked := b \<rparr>) = relay_ok s" "relay_ok (s\<lparr> gr_frames := fs \<rparr>) = relay_ok s"
  "relay_ok (s\<lparr> gr_log := gr_log s @ [Announced e] \<rparr>) = relay_ok s"
  by (simp_all add: relay_ok_defs)

lemma relay_ok_replied: "relay_ok s \<Longrightarrow> correlates q r \<Longrightarrow> relay_ok (s\<lparr> gr_log := gr_log s @ [Replied q r] \<rparr>)"
  by (simp add: relay_ok_defs)

lemma accept_stream_ok:
  assumes "relay_ok s"
  shows "relay_ok (accept_stream s)"
proof (cases "length (gr_tasks s) \<ge> MAX_CONNECTION_REQUESTS")
  case True
  then show ?thesis using relay_fail_ok [OF assms] by (simp add: accept_stream_def)
next
  case False
  have fresh: "om_get (gr_tasks s) (gr_next s) = None"
    using assms by (auto simp add: relay_ok_defs)
  moreover have "length (om_insert (gr_next s) Reading (gr_tasks s)) \<le> MAX_CONNECTION_REQUESTS"
    using False assms length_om_insert_le [of "gr_tasks s" "gr_next s" Reading] by (simp add: relay_ok_defs)
  ultimately show ?thesis
    using False assms
    by (auto simp add: relay_ok_defs accept_stream_def set_task_def om_get_insert less_Suc_eq) (metis option.distinct(1))+
qed

text \<open>A task that is not waiting gets another state in which it does not wait.\<close>

definition calm :: "request_task \<Rightarrow> bool" where
  "calm task \<longleftrightarrow> (\<forall>body. task \<noteq> Waiting body) \<and> (\<forall>q r ack. task = Responding q r ack \<longrightarrow> correlates q r)"

lemma set_task_pending:
  assumes "pending_ok s" "\<And>body. om_get (gr_tasks s) t \<noteq> Some (Waiting body)" "calm new"
  shows "pending_ok (set_task t new s)"
proof -
  have new: "om_get (gr_tasks (set_task t new s)) u = Some (Waiting body) \<longleftrightarrow> om_get (gr_tasks s) u = Some (Waiting body)" for u body
    using assms(2,3) by (auto simp add: set_task_def om_get_insert calm_def)
  have "gr_pending (set_task t new s) = gr_pending s" by (simp add: set_task_def)
  then show ?thesis using assms(1) unfolding pending_ok_def new by simp
qed

lemma set_task_ok:
  assumes "relay_ok s" "om_get (gr_tasks s) t = Some old" "\<And>body. old \<noteq> Waiting body" "calm new" "t \<notin> set (gr_queue s)"
  shows "relay_ok (set_task t new s)"
proof -
  have "tasks_ok (set_task t new s)"
    using assms by (auto simp add: relay_ok_def tasks_ok_def set_task_def om_get_insert length_om_insert_old calm_def)
  moreover have "pending_ok (set_task t new s)"
    using assms(1-4) by (intro set_task_pending) (simp_all add: relay_ok_def)
  moreover have "outputs_ok (set_task t new s)"
    using assms(1) by (simp add: relay_ok_def outputs_ok_def set_task_def)
  ultimately show ?thesis by (simp add: relay_ok_def)
qed

lemma queued_only: "relay_ok s \<Longrightarrow> om_get (gr_tasks s) t = Some task \<Longrightarrow> (\<And>body. task \<noteq> Queued body) \<Longrightarrow> t \<notin> set (gr_queue s)"
  unfolding relay_ok_def tasks_ok_def by fastforce

lemma finish_reading_ok:
  assumes "relay_ok s" "om_get (gr_tasks s) t = Some Reading"
  shows "relay_ok (finish_reading t request s)"
proof -
  have t: "t \<notin> set (gr_queue s)" using assms by (rule queued_only) simp
  have calm: "relay_ok (set_task t new s)" if "calm new" for new
    by (rule set_task_ok [OF assms _ that t]) simp
  have "relay_ok ((set_task t (Queued body) s)\<lparr> gr_queue := gr_queue s @ [t] \<rparr>)" for body
    using calm [of "Queued body"] t
    by (auto simp add: calm_def relay_ok_defs set_task_def om_get_insert)
  then show ?thesis
    using calm by (auto simp add: finish_reading_def calm_def split: sum.split option.split)
qed

lemma finish_responding_ok:
  assumes "relay_ok s" "om_get (gr_tasks s) t = Some (Responding q r ack)"
  shows "relay_ok (finish_responding written t q r ack s)"
proof -
  have t: "t \<notin> set (gr_queue s)" using assms by (rule queued_only) simp
  have "relay_ok (set_task t (Finished written) s)"
    by (rule set_task_ok [OF assms _ _ t]) (simp_all add: calm_def)
  moreover have "correlates q r" using assms unfolding relay_ok_def tasks_ok_def by blast
  ultimately show ?thesis
    using relay_ok_replied [of "(set_task t (Finished written) s)\<lparr> gr_blocked := b \<rparr>" q r for b]
      relay_ok_replied [of "set_task t (Finished written) s" q r]
    by (cases written) (simp_all add: finish_responding_def relay_fail_ok Let_def set_task_def)
qed

lemma join_task_ok:
  assumes "relay_ok s" "om_get (gr_tasks s) t = Some (Finished ok)"
  shows "relay_ok (join_task t ok s)"
proof -
  have t: "t \<notin> set (gr_queue s)" using assms by (rule queued_only) simp
  have "length (om_delete t (gr_tasks s)) \<le> length (gr_tasks s)" by (simp add: om_delete_def)
  moreover have "om_get (gr_pending s) c \<noteq> Some t" for c
    using assms unfolding relay_ok_def pending_ok_def by fastforce
  ultimately have "relay_ok (s\<lparr> gr_tasks := om_delete t (gr_tasks s) \<rparr>)"
    using assms t by (auto simp add: relay_ok_defs om_get_delete)
  then show ?thesis
    by (simp add: join_task_def Let_def relay_fail_ok)
qed


lemma manifest_response_correlates:
  assumes "certificate_manifest_response body m = Inr (Some response)"
  shows "correlates body response" "\<not> of_subscription response"
  using assms
  by (auto simp add: certificate_manifest_response_def correlates_def of_subscription_def ok_then_Inr_iff
      is_update_subscription_event_def decode_body_iff [symmetric] CERTIFICATE_MANIFEST_RESPONSE_def
      UPDATE_NOTIFICATION_def UPDATE_SUBSCRIPTION_OVERFLOW_def UPDATE_SUBSCRIPTION_INVALIDATED_def SUBSCRIBE_UPDATES_ACK_def
      split: sum.splits if_splits)

lemma dispatch_request_ok:
  assumes "relay_ok s" "gr_queue s = t # queue" "om_get (gr_tasks s) t = Some (Queued body)"
  shows "relay_ok (dispatch_request manifest t body (s\<lparr> gr_queue := queue \<rparr>))"
proof -
  let ?s = "s\<lparr> gr_queue := queue \<rparr>"
  have ok: "relay_ok ?s" "t \<notin> set queue" using assms by (auto simp add: relay_ok_defs)
  have room: "\<not> length (gr_pending ?s) \<ge> MAX_CONNECTION_REQUESTS"
    using pending_count [OF assms(1,3)] assms(1) by (simp add: relay_ok_def tasks_ok_def)
  have reply: "relay_ok (set_task t (Responding body response False) ?s)" if "correlates body response" for response
    using assms ok that by (intro set_task_ok [of ?s t "Queued body"]) (simp_all add: calm_def)
  let ?w = "\<lambda>e. (set_task t (Waiting body) ?s)\<lparr> gr_pending := om_insert (ev_correlation_id e) t (gr_pending s) \<rparr>"
  have waits: "relay_ok (?w e)" if "decode_body body = Inr e" "\<not> om_contains (gr_pending s) (ev_correlation_id e)" for e
  proof -
    have "tasks_ok (?w e)"
      using ok assms by (auto simp add: relay_ok_def tasks_ok_def set_task_def om_get_insert length_om_insert_old)
    moreover have "pending_ok (?w e)"
    proof -
      have p: "pending_ok s" and fresh: "om_get (gr_pending s) (ev_correlation_id e) = None"
        using assms(1) that(2) by (simp_all add: relay_ok_def om_contains_def)
      have "om_get (gr_pending s) c \<noteq> Some t" for c
        using p assms(3) unfolding pending_ok_def by fastforce
      moreover have "ev_correlation_id e' \<noteq> ev_correlation_id e"
        if "om_get (gr_tasks s) u = Some (Waiting b)" "decode_body b = Inr e'" for u b e'
        using p that fresh unfolding pending_ok_def by fastforce
      ultimately show ?thesis
        using p that(1) by (auto simp add: pending_ok_def set_task_def om_get_insert) metis
    qed
    moreover have "outputs_ok (?w e)" using ok(1) by (simp add: relay_ok_def outputs_ok_def set_task_def)
    ultimately show ?thesis by (simp add: relay_ok_def)
  qed
  have "relay_ok (?w e\<lparr> gr_input := input, gr_forwarded := gr_forwarded s @ [body] \<rparr>)"
    if "decode_body body = Inr e" "\<not> om_contains (gr_pending s) (ev_correlation_id e)" "write_body (gr_input s) body = Inr input" for e input
    using waits [OF that(1,2)] that(3)
    by (auto simp add: relay_ok_defs set_task_def write_body_framed split: if_splits)
  note written = this
  show ?thesis
  proof (cases "decode_body body")
    case (Inl e)
    then show ?thesis using ok(1) by (simp add: dispatch_request_def relay_fail_ok)
  next
    case (Inr e)
    let ?manifest = "case manifest of None \<Rightarrow> Inr None | Some m \<Rightarrow> certificate_manifest_response body m"
    consider (fails) err where "?manifest = Inl err" | (manifest) response where "?manifest = Inr (Some response)"
      | (forward) "?manifest = Inr None" by (metis not_Some_eq obj_sumE)
    then show ?thesis
    proof cases
      case fails
      then show ?thesis using ok(1) Inr by (simp add: dispatch_request_def relay_fail_ok)
    next
      case (manifest response)
      then have "correlates body response"
        using manifest_response_correlates(1) by (cases manifest) auto
      then show ?thesis using reply Inr manifest by (simp add: dispatch_request_def)
    next
      case forward
      show ?thesis
      proof (cases "om_contains (gr_pending s) (ev_correlation_id e)")
        case True
        then show ?thesis using ok(1) Inr forward room by (simp add: dispatch_request_def relay_fail_ok)
      next
        case False
        then show ?thesis
          using waits [OF Inr False] written [OF Inr False] Inr forward room
          by (cases "write_body (gr_input s) body") (simp_all add: dispatch_request_def relay_fail_ok set_task_def Let_def)
      qed
    qed
  qed
qed

text \<open>The response of a pending request is handed to its task.\<close>

lemma hand_over_ok:
  assumes "relay_ok s" "decode_body response = Inr e" "om_get (gr_pending s) (ev_correlation_id e) = Some t"
    and "om_get (gr_tasks s) t = Some (Waiting body)"
  shows "relay_ok (set_task t (Responding body response ack)
    (s\<lparr> gr_pending := om_delete (ev_correlation_id e) (gr_pending s) \<rparr>))" (is "relay_ok ?w")
proof -
  have p: "pending_ok s" using assms(1) by (simp add: relay_ok_def)
  obtain q where q: "decode_body body = Inr q" "ev_correlation_id q = ev_correlation_id e"
    using p assms(3,4) unfolding pending_ok_def by fastforce
  then have "correlates body response" using assms(2) by (simp add: correlates_def)
  then have "tasks_ok ?w"
    using assms(1,4) by (auto simp add: relay_ok_def tasks_ok_def set_task_def om_get_insert length_om_insert_old)
  moreover have "pending_ok ?w"
    unfolding pending_ok_def
  proof (intro conjI allI impI)
    show "om_invar (gr_pending ?w)" using p by (simp add: pending_ok_def set_task_def)
  next
    fix c u
    assume "om_get (gr_pending ?w) c = Some u"
    then have c: "c \<noteq> ev_correlation_id e" "om_get (gr_pending s) c = Some u"
      by (simp_all add: set_task_def om_get_delete split: if_splits)
    then have "u \<noteq> t" using pending_injective [OF p _ assms(3)] by blast
    then show "\<exists>b e. om_get (gr_tasks ?w) u = Some (Waiting b) \<and> decode_body b = Inr e \<and> ev_correlation_id e = c"
      using p c(2) unfolding pending_ok_def by (simp add: set_task_def om_get_insert)
  next
    fix u b
    assume "om_get (gr_tasks ?w) u = Some (Waiting b)"
    then have u: "u \<noteq> t" "om_get (gr_tasks s) u = Some (Waiting b)"
      by (simp_all add: set_task_def om_get_insert split: if_splits)
    then obtain e' where "decode_body b = Inr e'" "om_get (gr_pending s) (ev_correlation_id e') = Some u"
      using p unfolding pending_ok_def by blast
    then show "\<exists>e. decode_body b = Inr e \<and> om_get (gr_pending ?w) (ev_correlation_id e) = Some u"
      using u(1) assms(3) by (auto simp add: set_task_def om_get_delete)
  qed
  moreover have "outputs_ok ?w" using assms(1) by (simp add: relay_ok_def outputs_ok_def set_task_def)
  ultimately show ?thesis by (simp add: relay_ok_def)
qed

text \<open>The dispatcher's choices for a frame, in a good state.\<close>

lemma route_frame_cases:
  assumes "relay_ok s" "s1 = s\<lparr> gr_frames := gr_frames s @ [response] \<rparr>"
  obtains (malformed) "route_frame response s = relay_fail ResponseEnvelope s1"
  | (event) e where "decode_body response = Inr e" "is_update_subscription_event (ev_message_type e)"
      "route_frame response s = s1\<lparr> gr_log := gr_log s1 @ [Announced response] \<rparr>"
  | (unknown) "route_frame response s = relay_fail ImpossibleCorrelation s1"
  | (reply) e t body where "decode_body response = Inr e" "\<not> is_update_subscription_event (ev_message_type e)"
      "om_get (gr_pending s1) (ev_correlation_id e) = Some t" "om_get (gr_tasks s1) t = Some (Waiting body)"
      "route_frame response s = (set_task t (Responding body response (ev_message_type e = SUBSCRIBE_UPDATES_ACK))
        (s1\<lparr> gr_pending := om_delete (ev_correlation_id e) (gr_pending s1) \<rparr>))
        \<lparr> gr_blocked := if ev_message_type e = SUBSCRIBE_UPDATES_ACK then Some t else None \<rparr>"
proof (cases "decode_body response")
  case (Inl err)
  then show ?thesis using malformed by (simp add: route_frame_def assms(2))
next
  case (Inr e)
  show ?thesis
  proof (cases "is_update_subscription_event (ev_message_type e)")
    case True
    then show ?thesis using event Inr by (simp add: route_frame_def assms(2))
  next
    case no_event: False
    show ?thesis
    proof (cases "om_get (gr_pending s) (ev_correlation_id e)")
      case None
      then show ?thesis using unknown Inr no_event by (simp add: route_frame_def assms(2))
    next
      case (Some t)
      then obtain body where "om_get (gr_tasks s) t = Some (Waiting body)"
        using assms(1) unfolding relay_ok_def pending_ok_def by blast
      then show ?thesis
        using Some Inr no_event by (intro reply [of e t body]) (simp_all add: route_frame_def assms(2) Let_def)
    qed
  qed
qed

lemma route_frame_ok:
  assumes "relay_ok s"
  shows "relay_ok (route_frame response s)"
proof -
  obtain s1 where s1: "s1 = s\<lparr> gr_frames := gr_frames s @ [response] \<rparr>" by blast
  then have ok: "relay_ok s1" using assms by simp
  show ?thesis
    by (rule route_frame_cases [OF assms s1])
      (use ok hand_over_ok [OF ok] in \<open>simp_all add: relay_fail_ok\<close>)
qed

lemma relay_step_ok: "relay_step manifest s s' \<Longrightarrow> relay_ok s \<Longrightarrow> relay_ok s'"
proof (induction rule: relay_step.induct)
  case (rs_output s received)
  then show ?case by (cases received) (simp_all add: route_output_def relay_fail_ok route_frame_ok)
next
  case (rs_closed s)
  then show ?case by (simp add: relay_ok_defs)
qed (simp_all add: accept_stream_ok dispatch_request_ok join_task_ok relay_fail_ok finish_reading_ok finish_responding_ok)

lemma relay_run_ok: "relay_run manifest s \<Longrightarrow> relay_ok s"
proof (induction rule: relay_run.induct)
  case relay_start
  show ?case by (simp add: relay_ok_defs relay_initial_def om_invar_def om_empty_def om_get_def)
next
  case (relay_next s s')
  then show ?case by (blast intro: relay_step_ok)
qed

section \<open>Acknowledgements come before notifications\<close>

fun output_body :: "relay_output \<Rightarrow> bytes" where
  "output_body (Replied request response) = response"
| "output_body (Announced event) = event"

text \<open>The acknowledgement that the dispatcher is waiting to have delivered.\<close>

fun delivery :: "request_task option \<Rightarrow> bytes list" where
  "delivery (Some (Responding request response ack)) = [response]"
| "delivery _ = []"

definition in_delivery :: "relay_state \<Rightarrow> bytes list" where
  "in_delivery s = delivery (Option.bind (gr_blocked s) (om_get (gr_tasks s)))"

definition order_ok :: "relay_state \<Rightarrow> bool" where
  "order_ok s \<longleftrightarrow>
    (\<forall>t. gr_blocked s = Some t \<longrightarrow> (\<exists>q r. om_get (gr_tasks s) t = Some (Responding q r True) \<and> of_subscription r))
    \<and> (\<forall>t q r. om_get (gr_tasks s) t = Some (Responding q r True) \<longrightarrow> gr_blocked s = Some t)
    \<and> (\<forall>t q r. om_get (gr_tasks s) t = Some (Responding q r False) \<longrightarrow> \<not> of_subscription r)
    \<and> (gr_end s = None \<longrightarrow>
      filter of_subscription (gr_frames s) = filter of_subscription (map output_body (gr_log s)) @ in_delivery s)"

lemma order_ok_fail: "order_ok s \<Longrightarrow> order_ok (relay_fail e s)"
  by (simp add: order_ok_def relay_fail_def in_delivery_def)

text \<open>Steps of a task that is not and will not be responding.\<close>

lemma order_ok_task:
  assumes "order_ok s" "\<And>q r ack. om_get (gr_tasks s) t \<noteq> Some (Responding q r ack)"
    and "\<And>q r ack. new = Responding q r ack \<Longrightarrow> ack = False \<and> \<not> of_subscription r"
  shows "order_ok (set_task t new s)"
proof -
  have blocked: "gr_blocked s \<noteq> Some t" using assms(1,2) by (auto simp add: order_ok_def)
  have "in_delivery (set_task t new s) = in_delivery s"
    using blocked by (cases "gr_blocked s") (auto simp add: in_delivery_def set_task_def om_get_insert)
  moreover have "gr_blocked s = Some u \<Longrightarrow> om_get (gr_tasks (set_task t new s)) u = om_get (gr_tasks s) u" for u
    using blocked by (auto simp add: set_task_def om_get_insert)
  moreover have "om_get (gr_tasks (set_task t new s)) u = Some (Responding q r ack) \<Longrightarrow>
      om_get (gr_tasks s) u = Some (Responding q r ack) \<or> ack = False \<and> \<not> of_subscription r" for u q r ack
    using assms(3) by (auto simp add: set_task_def om_get_insert split: if_splits)
  ultimately show ?thesis
    using assms(1) unfolding order_ok_def by (simp add: set_task_def) metis
qed

lemma order_ok_fields [simp]:
  "order_ok (s\<lparr> gr_next := n \<rparr>) = order_ok s" "order_ok (s\<lparr> gr_queue := queue \<rparr>) = order_ok s"
  "order_ok (s\<lparr> gr_pending := pending \<rparr>) = order_ok s"
  "order_ok (s\<lparr> gr_input := input, gr_forwarded := bodies \<rparr>) = order_ok s"
  by (simp_all add: order_ok_def in_delivery_def)

lemma accept_stream_order: "relay_ok s \<Longrightarrow> order_ok s \<Longrightarrow> order_ok (accept_stream s)"
  by (auto simp add: accept_stream_def order_ok_fail intro!: order_ok_task)
    (auto simp add: relay_ok_def tasks_ok_def)

lemma dispatch_request_order:
  assumes "order_ok s" "om_get (gr_tasks s) t = Some (Queued body)"
  shows "order_ok (dispatch_request manifest t body s)"
proof -
  have task: "order_ok (set_task t (Waiting body) s)" by (rule order_ok_task) (use assms in simp_all)
  have reply: "order_ok (set_task t (Responding body response False) s)" if "\<not> of_subscription response" for response
    by (rule order_ok_task) (use assms that in auto)
  let ?manifest = "case manifest of None \<Rightarrow> Inr None | Some m \<Rightarrow> certificate_manifest_response body m"
  consider (malformed) err where "decode_body body = Inl err"
    | (fails) err e where "decode_body body = Inr e" "?manifest = Inl err"
    | (manifest) e response where "decode_body body = Inr e" "?manifest = Inr (Some response)"
    | (forward) e where "decode_body body = Inr e" "?manifest = Inr None"
    by (metis not_Some_eq obj_sumE)
  then show ?thesis
  proof cases
    case (manifest e response)
    then have "\<not> of_subscription response"
      using manifest_response_correlates(2) by (cases manifest) auto
    then show ?thesis using reply manifest by (simp add: dispatch_request_def)
  next
    case (forward e)
    then show ?thesis
      using task assms(1)
      by (cases "write_body (gr_input s) body")
        (auto simp add: dispatch_request_def order_ok_fail set_task_def Let_def)
  qed (use assms(1) in \<open>simp_all add: dispatch_request_def order_ok_fail\<close>)
qed

lemma join_task_order:
  assumes "order_ok s" "om_get (gr_tasks s) t = Some (Finished ok)"
  shows "order_ok (join_task t ok s)"
proof -
  have "gr_blocked s \<noteq> Some t" using assms by (auto simp add: order_ok_def)
  then have "order_ok (s\<lparr> gr_tasks := om_delete t (gr_tasks s) \<rparr>)"
    using assms(1) by (cases "gr_blocked s") (auto simp add: order_ok_def in_delivery_def om_get_delete)
  then show ?thesis by (simp add: join_task_def Let_def order_ok_fail)
qed

lemma finish_reading_order:
  assumes "order_ok s" "om_get (gr_tasks s) t = Some Reading"
  shows "order_ok (finish_reading t request s)"
proof -
  have "order_ok (set_task t new s)" if "\<And>q r ack. new \<noteq> Responding q r ack" for new
    by (rule order_ok_task) (use assms that in auto)
  then show ?thesis by (auto simp add: finish_reading_def split: sum.split option.split)
qed

lemma finish_responding_order:
  assumes "order_ok s" "gr_end s = None" "om_get (gr_tasks s) t = Some (Responding q r ack)"
  shows "order_ok (finish_responding written t q r ack s)"
proof (cases ack)
  case True
  then have "gr_blocked s = Some t" using assms by (auto simp add: order_ok_def)
  then show ?thesis
    using assms True
    by (auto simp add: order_ok_def finish_responding_def set_task_def relay_fail_def om_get_insert in_delivery_def Let_def
        split: if_splits)
next
  case False
  then have "\<not> of_subscription r" "gr_blocked s \<noteq> Some t" using assms by (auto simp add: order_ok_def)
  then show ?thesis
    using assms False
    by (cases "gr_blocked s") (auto simp add: order_ok_def finish_responding_def set_task_def om_get_insert in_delivery_def Let_def
        split: if_splits)
qed

lemma route_frame_order:
  assumes "order_ok s" "relay_ok s" "gr_end s = None" "gr_blocked s = None"
  shows "order_ok (route_frame response s)"
proof -
  obtain s1 where s1: "s1 = s\<lparr> gr_frames := gr_frames s @ [response] \<rparr>" by blast
  from assms(2) s1 show ?thesis
  proof (cases rule: route_frame_cases)
    case malformed
    then show ?thesis using assms by (simp add: s1 order_ok_def relay_fail_def in_delivery_def)
  next
    case (event e)
    then show ?thesis using assms by (auto simp add: s1 order_ok_def in_delivery_def of_subscription_def)
  next
    case unknown
    then show ?thesis using assms by (simp add: s1 order_ok_def relay_fail_def in_delivery_def)
  next
    case (reply e t body)
    have "of_subscription response \<longleftrightarrow> ev_message_type e = SUBSCRIBE_UPDATES_ACK"
      using reply(1,2) by (simp add: of_subscription_def)
    then show ?thesis
      using assms by (auto simp add: reply(5) s1 order_ok_def in_delivery_def set_task_def om_get_insert split: if_splits)
  qed
qed

lemma relay_step_order: "relay_step manifest s s' \<Longrightarrow> relay_ok s \<Longrightarrow> order_ok s \<Longrightarrow> order_ok s'"
proof (induction rule: relay_step.induct)
  case (rs_output s received)
  then show ?case by (cases received) (simp_all add: route_output_def order_ok_fail route_frame_order)
next
  case (rs_closed s)
  then show ?case by (simp add: order_ok_def in_delivery_def)
next
  case (rs_dispatch s t queue body)
  then show ?case by (intro dispatch_request_order) simp_all
qed (simp_all add: accept_stream_order join_task_order order_ok_fail finish_reading_order finish_responding_order)

lemma relay_run_order: "relay_run manifest s \<Longrightarrow> order_ok s"
proof (induction rule: relay_run.induct)
  case relay_start
  show ?case by (simp add: order_ok_def in_delivery_def relay_initial_def om_empty_def om_get_def)
next
  case (relay_next s s')
  then show ?case by (blast intro: relay_step_order relay_run_ok)
qed

text \<open>A subscription request and its acknowledgement pass through a relay.\<close>

lemma subscription_passes:
  obtains body response s s' where "relay_run None s" "relay_run None s'" "gr_end s = None" "in_delivery s = [response]"
    "gr_log s = []" "of_subscription response" "gr_log s' = [Replied body response]" "gr_forwarded s' = [body]"
proof -
  let ?request = "\<lparr> ev_correlation_id = 7, ev_message_type = SUBSCRIBE_UPDATES, ev_payload = [], ev_version = VERSION \<rparr>"
  let ?ack = "\<lparr> ev_correlation_id = 7, ev_message_type = SUBSCRIBE_UPDATES_ACK, ev_payload = [], ev_version = VERSION \<rparr>"
  obtain body response where encoded: "encode_body ?request = Inr body" "encode_body ?ack = Inr response"
    by (simp add: encode_body_def length_defs)
  then have decoded: "decode_body body = Inr ?request" "decode_body response = Inr ?ack"
    by (simp_all add: decode_body_iff)
  have len: "length body \<le> MAX_BODY_LENGTH" using encode_body_length [OF encoded(1)] by simp
  have read: "public_request True (framed body) = Inr (Some body)"
    using read_body_append [OF len, of "[]"] by (simp add: public_request_def framed_def require_request_eof_def)
  have no_event: "\<not> is_update_subscription_event SUBSCRIBE_UPDATES_ACK"
    by (simp add: is_update_subscription_event_def UPDATE_NOTIFICATION_def UPDATE_SUBSCRIPTION_OVERFLOW_def
        UPDATE_SUBSCRIPTION_INVALIDATED_def SUBSCRIBE_UPDATES_ACK_def)
  note simps = accept_stream_def set_task_def finish_reading_def dispatch_request_def route_output_def route_frame_def
    finish_responding_def om_contains_def om_get_def om_delete_def MAX_CONNECTION_REQUESTS_def Let_def
  let ?s0 = "relay_initial\<lparr> gr_tasks := [(0, Reading)], gr_next := 1 \<rparr>"
  have run: "relay_run None ?s0"
    using relay_next [OF relay_start rs_accept] by (simp add: relay_initial_def om_empty_def simps)
  let ?s1 = "?s0\<lparr> gr_tasks := [(0, Queued body)], gr_queue := [0] \<rparr>"
  have run: "relay_run None ?s1"
    using relay_next [OF run rs_read [of _ 0 None True "framed body"]] by (simp add: relay_initial_def read simps)
  let ?s2 = "?s1\<lparr> gr_tasks := [(0, Waiting body)], gr_queue := [], gr_pending := [(7, 0)], gr_input := framed body,
    gr_forwarded := [body] \<rparr>"
  have run: "relay_run None ?s2"
    using relay_next [OF run rs_dispatch [of _ 0 "[]" body]]
    by (simp add: relay_initial_def om_empty_def decoded write_body_framed len simps)
  let ?s3 = "?s2\<lparr> gr_tasks := [(0, Responding body response True)], gr_pending := [], gr_blocked := Some 0,
    gr_frames := [response] \<rparr>"
  have run: "relay_run None ?s3"
    using relay_next [OF run rs_output [of _ None "Frame response"]]
    by (simp add: relay_initial_def decoded no_event simps)
  let ?s4 = "?s3\<lparr> gr_tasks := [(0, Finished True)], gr_blocked := None, gr_log := [Replied body response] \<rparr>"
  have run': "relay_run None ?s4"
    using relay_next [OF run rs_reply [of _ 0 body response True None True]] by (simp add: relay_initial_def simps)
  show ?thesis
    by (rule that [OF run run'])
      (simp_all add: relay_initial_def in_delivery_def om_get_def of_subscription_def decoded)
qed

section \<open>Properties\<close>

text \<open>
  C32: responses reach their requests.  However public streams, the dispatcher and the session
  interleave, every response a client reads answers the request of its own stream, under the same
  correlation number; the session reads exactly the forwarded requests, whole and in
  order; a connection has at most 64 requests and 64 pending correlations, so that the limit of
  correlations never ends it.
\<close>

theorem responses_reach_their_requests:
  assumes "relay_run manifest s"
  shows "(\<forall>request response. Replied request response \<in> set (gr_log s) \<longrightarrow>
      (\<exists>q r. decode_body request = Inr q \<and> decode_body response = Inr r \<and> ev_correlation_id r = ev_correlation_id q))
    \<and> read_frames (gr_input s) = Inr (gr_forwarded s)
    \<and> length (gr_tasks s) \<le> 64 \<and> length (gr_pending s) \<le> length (gr_tasks s)
    \<and> gr_end s \<noteq> Some (RelayFailed CorrelationLimit)"
  using relay_run_ok [OF assms] pending_tasks [of s] read_frames_framed
  by (auto simp add: relay_ok_def tasks_ok_def outputs_ok_def correlates_def MAX_CONNECTION_REQUESTS_def)

theorem responses_reach_their_requests_witness:
  "\<exists>s body response q r. relay_run None s \<and> gr_log s = [Replied body response]
    \<and> decode_body body = Inr q \<and> decode_body response = Inr r \<and> ev_correlation_id r = ev_correlation_id q"
proof -
  obtain body response s' where s: "relay_run None s'" "gr_log s' = [Replied body response]"
    by (rule subscription_passes)
  then show ?thesis using responses_reach_their_requests [OF s(1)] by fastforce
qed

text \<open>
  C33: a client has read the acknowledgement of its subscription before any event of it.  While
  the relay runs, what the session sent for subscriptions - acknowledgements and events - and what
  clients were given of it is the same sequence, but for one acknowledgement on its way, for
  which the dispatcher waits.
\<close>

theorem acknowledgements_precede_events:
  assumes "relay_run manifest s" "gr_end s = None"
  shows "filter of_subscription (gr_frames s) = filter of_subscription (map output_body (gr_log s)) @ in_delivery s
    \<and> length (in_delivery s) \<le> 1 \<and> (gr_blocked s = None \<longrightarrow> in_delivery s = [])"
  using relay_run_order [OF assms(1)] assms(2)
  by (cases "gr_blocked s") (auto simp add: order_ok_def in_delivery_def)

theorem acknowledgements_precede_events_witness:
  "\<exists>s response. relay_run None s \<and> gr_end s = None \<and> filter of_subscription (gr_frames s) = [response]
    \<and> gr_blocked s \<noteq> None"
proof -
  obtain response s where s: "relay_run None s" "gr_end s = None" "in_delivery s = [response]" "gr_log s = []"
    by (rule subscription_passes)
  then show ?thesis using acknowledgements_precede_events [OF s(1,2)] by auto
qed

end
