(* ===== verification/Store_Validate.thy ===== *)
theory Store_Validate
  imports Store_Limits Store_Updates
begin

text \<open>
  The checks \<open>DurableUpdateStore::open\<close> of \<open>src/crates/renee-stored/src/store.rs\<close> runs on the
  tables it finds: creation state, capability state with its ancestry and receipts, and the update
  tables against their indexes.  A \<open>BTreeMap\<close> a check builds is a key-ordered map and a
  \<open>BTreeSet\<close> a key-ordered map to \<open>()\<close>; the rows of a statement are the entries of the table in
  the order the statement asks for.  A column whose CHECK constraint fixes its length is a word,
  so the length checks of the code on such a column hold by its type.
\<close>

section \<open>Constraints of the schema\<close>

text \<open>
  What the \<open>SCHEMA\<close> makes SQLite keep of the tables: the primary keys, the foreign keys, and the
  CHECK and UNIQUE constraints that are not the width of a column.  \<open>PRAGMA foreign_key_check\<close>
  lists the rows that break the second.
\<close>

definition primary_keys_hold :: "tables \<Rightarrow> bool" where
  "primary_keys_hold t \<longleftrightarrow> om_invar (create_authorities t) \<and> om_invar (documents t)
    \<and> om_invar (capabilities t) \<and> om_invar (capability_operations t)
    \<and> om_invar (control_receipts t) \<and> om_invar (create_receipts t)
    \<and> om_invar (document_acceptance_sequences t) \<and> om_invar (updates t)
    \<and> om_invar (update_loro_ranges t) \<and> om_invar (document_loro_peers t)"

definition control_foreign_keys :: "tables \<Rightarrow> bool" where
  "control_foreign_keys t \<longleftrightarrow>
    list_all (\<lambda>((d, _), row). om_contains (documents t) d
      \<and> (case cr_parent row of None \<Rightarrow> True | Some p \<Rightarrow> om_contains (capabilities t) (d, p)))
      (capabilities t)
    \<and> list_all (\<lambda>((d, c, _), _). om_contains (capabilities t) (d, c)) (capability_operations t)
    \<and> list_all (\<lambda>((d, c, _), _). om_contains (capabilities t) (d, c)) (control_receipts t)
    \<and> list_all (\<lambda>((a, _), row). om_contains (create_authorities t) a
      \<and> om_contains (documents t) (cc_document_id row)) (create_receipts t)"

definition update_foreign_keys :: "tables \<Rightarrow> bool" where
  "update_foreign_keys t \<longleftrightarrow>
    list_all (\<lambda>(d, _). om_contains (documents t) d) (document_acceptance_sequences t)
    \<and> list_all (\<lambda>((d, _), _). om_contains (document_acceptance_sequences t) d) (updates t)
    \<and> list_all (\<lambda>((d, u, _), _). om_contains (updates t) (d, u)) (update_loro_ranges t)
    \<and> list_all (\<lambda>((d, _), _). om_contains (documents t) d) (document_loro_peers t)"

definition validate_foreign_keys :: "tables \<Rightarrow> store_error + unit" where
  "validate_foreign_keys t =
    (if control_foreign_keys t \<and> update_foreign_keys t then Inr ()
     else Inl (Corrupt ''SQLite foreign key check failed''))"

definition control_checks :: "tables \<Rightarrow> bool" where
  "control_checks t \<longleftrightarrow>
    list_all (\<lambda>(_, row). car_state row \<in> {0, 1}) (create_authorities t)
    \<and> list_all (\<lambda>(_, row). dr_state row \<in> {0, 1} \<and> dr_control_revision row \<noteq> 0) (documents t)
    \<and> list_all (\<lambda>(_, row). (cr_root row \<longleftrightarrow> cr_parent row = None)
      \<and> cr_state row \<in> {0, 1} \<and> cr_created_revision row \<noteq> 0) (capabilities t)
    \<and> (\<forall>k \<in> set (om_keys (capabilities t)). length (filter (\<lambda>((d, _), row). d = fst k \<and> cr_root row)
      (capabilities t)) \<le> 1)
    \<and> list_all (\<lambda>((_, _, code), _). code \<le> 9) (capability_operations t)
    \<and> list_all (\<lambda>(_, row). rr_operation row \<in> {0, 1} \<and> 0 < length (rr_normalized_input row))
      (control_receipts t)
    \<and> list_all (\<lambda>(_, row). 0 < length (cc_normalized_input row)) (create_receipts t)"

definition update_checks :: "tables \<Rightarrow> bool" where
  "update_checks t \<longleftrightarrow>
    list_all (\<lambda>(_, row). ur_acceptance_sequence row \<noteq> 0
      \<and> 0 < length (ur_encoded_record row) \<and> length (ur_encoded_record row) \<le> 4024) (updates t)
    \<and> distinct (map (\<lambda>((d, _), row). (d, ur_acceptance_sequence row)) (updates t))"

definition constraints_hold :: "tables \<Rightarrow> bool" where
  "constraints_hold t \<longleftrightarrow> primary_keys_hold t \<and> control_foreign_keys t \<and> update_foreign_keys t
    \<and> control_checks t \<and> update_checks t"

section \<open>Counters\<close>

text \<open>\<open>checked_add(1)\<close> on a 64-bit counter; \<open>entry(key).or_default()\<close> and a limit on it.\<close>

definition count_up :: "string \<Rightarrow> nat \<Rightarrow> store_error + nat" where
  "count_up message n = (if n + 1 < 2 ^ 64 then Inr (n + 1) else Inl (Corrupt message))"

definition entry_or_default :: "('k, nat) omap \<Rightarrow> 'k \<Rightarrow> nat" where
  "entry_or_default counts k = (case om_get counts k of None \<Rightarrow> 0 | Some n \<Rightarrow> n)"

definition count_entry ::
  "string \<Rightarrow> string \<Rightarrow> nat \<Rightarrow> 'k::linorder \<Rightarrow> ('k, nat) omap \<Rightarrow> store_error + ('k, nat) omap" where
  "count_entry overflow exceeded limit k counts =
    ok_then (count_up overflow (entry_or_default counts k)) (\<lambda>count.
      if count > limit then Inl (Corrupt exceeded) else Inr (om_insert k count counts))"

section \<open>Creation state\<close>

definition create_receipt_checked :: "tables \<Rightarrow> create_receipt_row \<Rightarrow> store_error + unit" where
  "create_receipt_checked t row =
    (let input = cc_normalized_input row in
     if length input \<noteq> IDENTIFIER_LENGTH * 2 + VERIFIER_LENGTH * 2
     then Inl (Corrupt ''create receipt input has invalid length'')
     else case om_get (capabilities t) (cc_document_id row, cc_root_capability_id row) of
       None \<Rightarrow> Inl (Corrupt ''create receipt root is absent'')
     | Some root \<Rightarrow>
         if \<not> cr_root root then Inl (Corrupt ''create receipt root is absent'')
         else if take IDENTIFIER_LENGTH input \<noteq> be_encode (cc_document_id row)
           \<or> take IDENTIFIER_LENGTH (drop IDENTIFIER_LENGTH input) \<noteq> be_encode (cc_root_capability_id row)
           \<or> take VERIFIER_LENGTH (drop (IDENTIFIER_LENGTH * 2) input) \<noteq> be_encode (cr_live_verifier root)
           \<or> drop (IDENTIFIER_LENGTH * 2 + VERIFIER_LENGTH) input \<noteq> be_encode (cr_receipt_verifier root)
         then Inl (Corrupt ''create receipt disagrees with its root'')
         else Inr ())"

fun create_receipts_loop ::
  "tables \<Rightarrow> (create_authority_id, nat) omap \<Rightarrow> ((create_authority_id \<times> request_id) \<times> create_receipt_row) list
    \<Rightarrow> store_error + unit" where
  "create_receipts_loop t authority_counts [] = Inr ()"
| "create_receipts_loop t authority_counts (((authority, request), row) # rows) =
    ok_then (create_receipt_checked t row) (\<lambda>_.
    ok_then (count_entry ''create authority count cannot advance''
        ''create authority document count exceeds configured limit''
        MAX_DOCUMENTS_PER_CREATE_AUTHORITY authority authority_counts) (\<lambda>counts.
    create_receipts_loop t counts rows))"

definition validate_create_state :: "tables \<Rightarrow> store_error + unit" where
  "validate_create_state t =
    (let document_count = count_where (\<lambda>_ _. True) (documents t);
         receipt_count = count_where (\<lambda>_ _. True) (create_receipts t) in
     if document_count \<noteq> receipt_count
     then Inl (Corrupt ''documents and retained create receipts disagree'')
     else if document_count > MAX_GLOBAL_DOCUMENTS \<or> receipt_count > MAX_GLOBAL_CREATE_RECEIPTS
     then Inl (Corrupt ''global creation state exceeds configured limits'')
     else create_receipts_loop t om_empty (create_receipts t))"

section \<open>Capability state\<close>

record validated_capability =
  vc_capability_id :: capability_id
  vc_created_revision :: u64
  vc_live_verifier :: key32
  vc_operations :: operation_set
  vc_parent_capability_id :: "capability_id option"
  vc_receipt_verifier :: key32
  vc_revoked :: bool
  vc_root :: bool

definition decode_control_revision :: "u64 \<Rightarrow> store_error + u64" where
  "decode_control_revision revision =
    (if revision = 0 then Inl (Corrupt ''control revision is zero'') else Inr revision)"

definition load_capability ::
  "tables \<Rightarrow> document_id \<Rightarrow> capability_id \<Rightarrow> capability_row \<Rightarrow> store_error + validated_capability" where
  "load_capability t document_id capability_id row =
    ok_then (decode_control_revision (cr_created_revision row)) (\<lambda>created_revision.
    ok_then (load_operation_set t document_id capability_id) (\<lambda>operations.
    if ops_is_empty operations then Inl (Corrupt ''capability operation set is empty'')
    else Inr \<lparr> vc_capability_id = capability_id, vc_created_revision = created_revision,
      vc_live_verifier = cr_live_verifier row, vc_operations = operations,
      vc_parent_capability_id = cr_parent row, vc_receipt_verifier = cr_receipt_verifier row,
      vc_revoked = (cr_state row = 1), vc_root = cr_root row \<rparr>))"

fun load_capabilities_loop ::
  "tables \<Rightarrow> document_id \<Rightarrow> (capability_id, validated_capability) omap
    \<Rightarrow> ((document_id \<times> capability_id) \<times> capability_row) list
    \<Rightarrow> store_error + (capability_id, validated_capability) omap" where
  "load_capabilities_loop t document_id caps [] = Inr caps"
| "load_capabilities_loop t document_id caps (((_, capability_id), row) # rows) =
    ok_then (load_capability t document_id capability_id row) (\<lambda>capability.
    if om_contains caps capability_id then Inl (Corrupt ''capability identifier is duplicated'')
    else load_capabilities_loop t document_id (om_insert capability_id capability caps) rows)"

definition load_capabilities ::
  "tables \<Rightarrow> document_id \<Rightarrow> store_error + (capability_id, validated_capability) omap" where
  "load_capabilities t document_id =
    load_capabilities_loop t document_id om_empty (om_range (\<lambda>(d, _). d = document_id) (capabilities t))"

fun direct_children_loop ::
  "(capability_id, nat) omap \<Rightarrow> validated_capability list \<Rightarrow> store_error + unit" where
  "direct_children_loop counts [] = Inr ()"
| "direct_children_loop counts (capability # rest) =
    (case vc_parent_capability_id capability of
       None \<Rightarrow> direct_children_loop counts rest
     | Some parent \<Rightarrow>
         ok_then (count_entry ''capability fan-out cannot advance''
             ''capability fan-out exceeds the configured limit''
             MAX_DIRECT_CAPABILITY_CHILDREN parent counts) (\<lambda>counts'.
         direct_children_loop counts' rest))"

text \<open>The loop of \<open>validate_capability_ancestry\<close>: one turn for each level, \<open>n\<close> turns left.\<close>

fun ancestry_loop ::
  "capability_id \<Rightarrow> (capability_id, validated_capability) omap \<Rightarrow> nat \<Rightarrow> capability_id list
    \<Rightarrow> validated_capability \<Rightarrow> store_error + unit" where
  "ancestry_loop root_id caps 0 seen current =
    Inl (Corrupt ''capability ancestry exceeds the depth limit'')"
| "ancestry_loop root_id caps (Suc n) seen current =
    (if vc_capability_id current \<in> set seen
     then Inl (Corrupt ''capability ancestry contains a cycle'')
     else case vc_parent_capability_id current of
       None \<Rightarrow>
         if \<not> vc_root current \<or> vc_capability_id current \<noteq> root_id
         then Inl (Corrupt ''capability ancestry reaches a non-root'') else Inr ()
     | Some parent_id \<Rightarrow>
         if vc_root current then Inl (Corrupt ''root capability has a parent'')
         else case om_get caps parent_id of
           None \<Rightarrow> Inl (Corrupt ''capability parent is absent'')
         | Some parent \<Rightarrow>
             if vc_created_revision parent \<ge> vc_created_revision current
             then Inl (Corrupt ''capability revisions do not follow ancestry'')
             else if \<not> allows (vc_operations parent) (vc_operations current)
             then Inl (Corrupt ''descendant capability is not attenuated'')
             else if vc_revoked parent \<and> \<not> vc_revoked current
             then Inl (Corrupt ''revoked capability has an active descendant'')
             else ancestry_loop root_id caps n (vc_capability_id current # seen) parent)"

definition validate_capability_ancestry ::
  "validated_capability \<Rightarrow> capability_id \<Rightarrow> u64 \<Rightarrow> (capability_id, validated_capability) omap
    \<Rightarrow> store_error + unit" where
  "validate_capability_ancestry capability root_id control_revision caps =
    (if vc_created_revision capability = 0 \<or> vc_created_revision capability > control_revision
     then Inl (Corrupt ''capability creation revision is invalid'')
     else ancestry_loop root_id caps MAX_CAPABILITY_DEPTH [] capability)"

fun ancestries_loop ::
  "capability_id \<Rightarrow> u64 \<Rightarrow> (capability_id, validated_capability) omap \<Rightarrow> validated_capability list
    \<Rightarrow> store_error + unit" where
  "ancestries_loop root_id control_revision caps [] = Inr ()"
| "ancestries_loop root_id control_revision caps (capability # rest) =
    ok_then (validate_capability_ancestry capability root_id control_revision caps) (\<lambda>_.
    ancestries_loop root_id control_revision caps rest)"

subsection \<open>Receipts\<close>

definition grant_receipt_checked ::
  "(capability_id, validated_capability) omap \<Rightarrow> capability_id \<Rightarrow> bytes \<Rightarrow> store_error + unit" where
  "grant_receipt_checked caps issuer_id input =
    (if length input \<noteq> IDENTIFIER_LENGTH + 32 + 32 + 2
     then Inl (Corrupt ''grant receipt input has invalid length'')
     else case om_get caps (be_decode (take IDENTIFIER_LENGTH input)) of
       None \<Rightarrow> Inl (Corrupt ''grant receipt descendant is absent'')
     | Some descendant \<Rightarrow>
         if vc_parent_capability_id descendant \<noteq> Some issuer_id
           \<or> take 32 (drop IDENTIFIER_LENGTH input) \<noteq> be_encode (vc_live_verifier descendant)
           \<or> take 32 (drop (IDENTIFIER_LENGTH + 32) input) \<noteq> be_encode (vc_receipt_verifier descendant)
         then Inl (Corrupt ''grant receipt disagrees with descendant'')
         else ok_then (ok_or (Corrupt ''grant receipt operation set is invalid'')
             (Option.bind (from_bits (be_decode (drop (IDENTIFIER_LENGTH + 64) input)))
               (\<lambda>operations. if ops_is_empty operations then None else Some operations)))
           (\<lambda>bits. if bits \<noteq> vc_operations descendant
             then Inl (Corrupt ''grant receipt operations disagree'') else Inr ()))"

definition revoke_receipt_checked ::
  "(capability_id, validated_capability) omap \<Rightarrow> bytes \<Rightarrow> store_error + unit" where
  "revoke_receipt_checked caps input =
    (if length input \<noteq> IDENTIFIER_LENGTH
     then Inl (Corrupt ''revoke receipt input has invalid length'')
     else case om_get caps (be_decode input) of
       None \<Rightarrow> Inl (Corrupt ''revoke receipt target is absent'')
     | Some target \<Rightarrow>
         if \<not> vc_revoked target then Inl (Corrupt ''revoke receipt target remains active'')
         else Inr ())"

definition control_receipt_checked ::
  "(capability_id, validated_capability) omap \<Rightarrow> capability_id \<Rightarrow> control_receipt_row
    \<Rightarrow> store_error + unit" where
  "control_receipt_checked caps issuer_id row =
    (if \<not> om_contains caps issuer_id then Inl (Corrupt ''control receipt issuer is absent'')
     else if rr_operation row = 0 then grant_receipt_checked caps issuer_id (rr_normalized_input row)
     else if rr_operation row = 1 then revoke_receipt_checked caps (rr_normalized_input row)
     else Inl (Corrupt ''control receipt operation is invalid''))"

fun control_receipts_loop ::
  "(capability_id, validated_capability) omap \<Rightarrow> nat
    \<Rightarrow> ((document_id \<times> capability_id \<times> request_id) \<times> control_receipt_row) list \<Rightarrow> store_error + nat" where
  "control_receipts_loop caps receipt_count [] = Inr receipt_count"
| "control_receipts_loop caps receipt_count (((_, issuer_id, _), row) # rows) =
    ok_then (count_up ''control receipt count cannot advance'' receipt_count) (\<lambda>count.
    ok_then (control_receipt_checked caps issuer_id row) (\<lambda>_.
    control_receipts_loop caps count rows))"

definition validate_control_receipts ::
  "tables \<Rightarrow> document_id \<Rightarrow> (capability_id, validated_capability) omap \<Rightarrow> store_error + nat" where
  "validate_control_receipts t document_id caps =
    control_receipts_loop caps 0 (om_range (\<lambda>(d, _). d = document_id) (control_receipts t))"

subsection \<open>Documents\<close>

definition root_checked ::
  "(capability_id, validated_capability) omap \<Rightarrow> capability_id \<Rightarrow> u64 \<Rightarrow> store_error + unit" where
  "root_checked caps root_id control_revision =
    (case om_get caps root_id of
       None \<Rightarrow> Inl (Corrupt ''document root capability is absent'')
     | Some root \<Rightarrow>
         if length (filter vc_root (map snd caps)) \<noteq> 1 \<or> \<not> vc_root root
           \<or> vc_parent_capability_id root \<noteq> None
         then Inl (Corrupt ''document root capability is not unique'')
         else if vc_created_revision root \<noteq> 1 \<or> vc_operations root \<noteq> FULL_OPS
         then Inl (Corrupt ''root capability is not canonical'')
         else if control_revision < vc_created_revision root
         then Inl (Corrupt ''document control revision precedes its root'')
         else Inr ())"

definition receipt_count_checked :: "nat \<Rightarrow> u64 \<Rightarrow> store_error + unit" where
  "receipt_count_checked receipt_count control_revision =
    (if receipt_count > MAX_CONTROL_RECEIPTS_PER_DOCUMENT
     then Inl (Corrupt ''document receipt count exceeds the configured limit'')
     else ok_then (count_up ''control receipt count cannot advance'' receipt_count) (\<lambda>expected_revision.
       if unat control_revision \<noteq> expected_revision
       then Inl (Corrupt ''document control revision disagrees with retained receipts'')
       else Inr ()))"

definition document_checked :: "tables \<Rightarrow> document_id \<Rightarrow> document_row \<Rightarrow> store_error + unit" where
  "document_checked t document_id row =
    ok_then (decode_control_revision (dr_control_revision row)) (\<lambda>control_revision.
    if dr_state row > 1 then Inl (Corrupt ''document state is invalid'')
    else ok_then (load_capabilities t document_id) (\<lambda>caps.
    if length caps > MAX_CAPABILITIES_PER_DOCUMENT
    then Inl (Corrupt ''document capability count exceeds the configured limit'')
    else
      ok_then (direct_children_loop om_empty (map snd caps)) (\<lambda>_.
      ok_then (root_checked caps (dr_root_capability_id row) control_revision) (\<lambda>_.
      ok_then (ancestries_loop (dr_root_capability_id row) control_revision caps (map snd caps)) (\<lambda>_.
      ok_then (validate_control_receipts t document_id caps) (\<lambda>receipt_count.
      ok_then (receipt_count_checked receipt_count control_revision) (\<lambda>_.
      if control_logical_bytes t (\<lambda>d. d = document_id) > MAX_DOCUMENT_CONTROL_BYTES
      then Inl (Corrupt ''document control state exceeds the configured logical-byte limit'')
      else Inr ())))))))"

fun documents_loop :: "tables \<Rightarrow> (document_id \<times> document_row) list \<Rightarrow> store_error + unit" where
  "documents_loop t [] = Inr ()"
| "documents_loop t ((document_id, row) # rows) =
    ok_then (document_checked t document_id row) (\<lambda>_. documents_loop t rows)"

definition validate_capability_state :: "tables \<Rightarrow> store_error + unit" where
  "validate_capability_state t =
    ok_then (documents_loop t (documents t)) (\<lambda>_.
    if count_where (\<lambda>_ _. True) (capabilities t) > MAX_GLOBAL_CAPABILITIES
      \<or> count_where (\<lambda>_ _. True) (control_receipts t) > MAX_GLOBAL_CONTROL_RECEIPTS
    then Inl (Corrupt ''global capability state exceeds configured limits'')
    else if control_logical_bytes t (\<lambda>_. True) > MAX_GLOBAL_CONTROL_BYTES
    then Inl (Corrupt ''global control state exceeds the configured logical-byte limit'')
    else Inr ())"

section \<open>Update state\<close>

record update_check =
  uc_next_sequences :: "(document_id, acceptance_sequence) omap"
  uc_expected_peer_counts :: "(document_id, nat) omap"
  uc_expected_peers :: "(document_id \<times> u64, unit) omap"
  uc_expected_range_count :: nat

text \<open>The ranges of one record against the rows of the range index, in peer order.\<close>

definition range_disagrees :: store_error where
  "range_disagrees = Corrupt ''stored Loro range index disagrees with update records''"

definition expect_peer :: "document_id \<Rightarrow> u64 \<Rightarrow> update_check \<Rightarrow> store_error + update_check" where
  "expect_peer document_id peer st =
    (if om_contains (uc_expected_peers st) (document_id, peer) then Inr st
     else ok_then (count_entry ''stored Loro peer count overflowed''
         ''stored document Loro peer union exceeds the configured limit''
         MAX_LORO_PEERS document_id (uc_expected_peer_counts st)) (\<lambda>counts.
       Inr (st\<lparr> uc_expected_peers := om_insert (document_id, peer) () (uc_expected_peers st),
         uc_expected_peer_counts := counts \<rparr>)))"

fun range_rows_loop ::
  "document_id \<Rightarrow> loro_range list \<Rightarrow> (u64 \<times> u32 \<times> u32) list \<Rightarrow> update_check
    \<Rightarrow> store_error + update_check" where
  "range_rows_loop document_id [] range_rows st =
    (if range_rows = [] then Inr st else Inl range_disagrees)"
| "range_rows_loop document_id (expected # rest) range_rows st =
    (case range_rows of
       [] \<Rightarrow> Inl range_disagrees
     | range_row # range_rows' \<Rightarrow>
         if range_row \<noteq> (lr_peer_id expected, lr_start_counter expected, lr_end_counter expected)
         then Inl range_disagrees
         else ok_then (count_up ''stored Loro range count overflowed'' (uc_expected_range_count st)) (\<lambda>count.
           ok_then (expect_peer document_id (lr_peer_id expected)
             (st\<lparr> uc_expected_range_count := count \<rparr>)) (\<lambda>st'.
           range_rows_loop document_id rest range_rows' st')))"

definition range_rows_of :: "tables \<Rightarrow> document_id \<Rightarrow> update_id \<Rightarrow> (u64 \<times> u32 \<times> u32) list" where
  "range_rows_of t document_id update_id =
    map (\<lambda>((_, _, peer), row). (peer, row))
      (om_range (\<lambda>(d, u, _). d = document_id \<and> u = update_id) (update_loro_ranges t))"

definition update_checked ::
  "tables \<Rightarrow> document_id \<Rightarrow> update_id \<Rightarrow> update_row \<Rightarrow> update_check \<Rightarrow> store_error + update_check" where
  "update_checked t document_id update_id row st =
    (let sequence = ur_acceptance_sequence row;
         expected_sequence = (case om_get (uc_next_sequences st) document_id of
           None \<Rightarrow> FIRST | Some s \<Rightarrow> s) in
     if sequence = ORIGIN then Inl (Corrupt ''stored acceptance sequence is zero'')
     else if sequence \<noteq> expected_sequence
     then Inl (Corrupt ''stored acceptance positions are not contiguous'')
     else ok_then (ok_or (Corrupt ''stored acceptance sequence cannot advance'') (checked_next sequence))
       (\<lambda>following.
     ok_then (map_err (\<lambda>_. Corrupt ''stored update record is invalid'')
         (decode_update_record (ur_encoded_record row))) (\<lambda>update.
     if iu_document_id update \<noteq> document_id \<or> iu_update_id update \<noteq> update_id
     then Inl (Corrupt ''stored update identity disagrees with index'')
     else range_rows_loop document_id (iu_public_loro_ranges update) (range_rows_of t document_id update_id)
       (st\<lparr> uc_next_sequences := om_insert document_id following (uc_next_sequences st) \<rparr>))))"

fun updates_loop ::
  "tables \<Rightarrow> ((document_id \<times> update_id) \<times> update_row) list \<Rightarrow> update_check \<Rightarrow> store_error + update_check" where
  "updates_loop t [] st = Inr st"
| "updates_loop t (((document_id, update_id), row) # rows) st =
    ok_then (update_checked t document_id update_id row st) (\<lambda>st'. updates_loop t rows st')"

text \<open>\<open>ORDER BY document_id, acceptance_sequence\<close>.\<close>

definition updates_in_order :: "tables \<Rightarrow> ((document_id \<times> update_id) \<times> update_row) list" where
  "updates_in_order t = sort_key (\<lambda>((d, _), row). (d, ur_acceptance_sequence row)) (updates t)"

definition empty_check :: update_check where
  "empty_check = \<lparr> uc_next_sequences = om_empty, uc_expected_peer_counts = om_empty,
    uc_expected_peers = om_empty, uc_expected_range_count = 0 \<rparr>"

fun peers_loop :: "(document_id \<times> u64) list \<Rightarrow> (document_id \<times> u64) list \<Rightarrow> store_error + unit" where
  "peers_loop expected [] =
    (if expected = [] then Inr ()
     else Inl (Corrupt ''stored document Loro peer union disagrees with update records''))"
| "peers_loop expected (row # rows) =
    (case expected of
       [] \<Rightarrow> Inl (Corrupt ''stored document Loro peer union disagrees with update records'')
     | peer # expected' \<Rightarrow>
         if peer \<noteq> row
         then Inl (Corrupt ''stored document Loro peer union disagrees with update records'')
         else peers_loop expected' rows)"

fun next_sequences_loop ::
  "tables \<Rightarrow> (document_id \<times> acceptance_sequence) list \<Rightarrow> store_error + unit" where
  "next_sequences_loop t [] = Inr ()"
| "next_sequences_loop t ((document_id, expected_next) # rest) =
    (case om_get (document_acceptance_sequences t) document_id of
       None \<Rightarrow> Inl SqliteNoRows
     | Some next_sequence \<Rightarrow>
         if next_sequence \<noteq> expected_next
         then Inl (Corrupt ''document acceptance counter does not exactly follow stored rows'')
         else next_sequences_loop t rest)"

definition validate_updates :: "tables \<Rightarrow> store_error + unit" where
  "validate_updates t =
    ok_then (updates_loop t (updates_in_order t) empty_check) (\<lambda>st.
    if count_where (\<lambda>_ _. True) (update_loro_ranges t) \<noteq> uc_expected_range_count st
    then Inl range_disagrees
    else
      ok_then (peers_loop (map fst (uc_expected_peers st)) (map fst (document_loro_peers t))) (\<lambda>_.
      next_sequences_loop t (uc_next_sequences st)))"

section \<open>All checks\<close>

text \<open>
  \<open>validate\<close> without the two facts it asks SQLite for, the \<open>quick_check\<close> of its file and
  the schema version; \<open>Store_Open\<close> adds them.
\<close>

definition validate_tables :: "tables \<Rightarrow> store_error + unit" where
  "validate_tables t =
    ok_then (validate_create_state t) (\<lambda>_.
    ok_then (validate_capability_state t) (\<lambda>_.
    validate_updates t))"

end
