(* ===== verification/Validate_Control.thy ===== *)
theory Validate_Control
  imports Store_Validate Store_Steps
begin

text \<open>
  What the checks of creation and capability state decide: on tables that keep the constraints
  of the schema they pass exactly when the invariant of the control tables holds.
\<close>

section \<open>Counters\<close>

lemma count_up_Inr_iff: "count_up m n = Inr k \<longleftrightarrow> k = n + 1 \<and> k < 2 ^ 64"
  by (auto simp add: count_up_def)

lemma count_entry_Inr_iff:
  assumes "limit < 2 ^ 64"
  shows "count_entry ov ex limit k counts = Inr counts' \<longleftrightarrow>
    entry_or_default counts k < limit \<and> counts' = om_insert k (entry_or_default counts k + 1) counts"
  using assms by (auto simp add: count_entry_def count_up_def)

lemma entry_insert: "entry_or_default (om_insert k n counts) j = (if j = k then n else entry_or_default counts j)"
  by (simp add: entry_or_default_def)

lemma entry_empty [simp]: "entry_or_default om_empty k = 0"
  by (simp add: entry_or_default_def om_empty_def om_get_def)

text \<open>A list of keys still fits under the limit of every key.\<close>

definition keys_fit :: "nat \<Rightarrow> ('k, nat) omap \<Rightarrow> 'k list \<Rightarrow> bool" where
  "keys_fit limit counts ks \<longleftrightarrow> (\<forall>k \<in> set ks. entry_or_default counts k + count_list ks k \<le> limit)"

lemma keys_fit_Nil [simp]: "keys_fit limit counts []"
  by (simp add: keys_fit_def)

lemma keys_fit_Cons: "keys_fit limit counts (k # ks) \<longleftrightarrow> entry_or_default counts k < limit
    \<and> keys_fit limit (om_insert k (entry_or_default counts k + 1) counts) ks"
proof (cases "k \<in> set ks")
  case True
  then have "0 < count_list ks k" by (metis count_list_0_iff gr0I)
  with True show ?thesis by (auto simp add: keys_fit_def entry_insert)
next
  case False
  then have "count_list ks k = 0" by (simp add: count_list_0_iff)
  with False show ?thesis by (auto simp add: keys_fit_def entry_insert)
qed

lemma keys_fit_empty: "keys_fit limit om_empty ks \<longleftrightarrow> (\<forall>k. count_list ks k \<le> limit)"
  by (auto simp add: keys_fit_def)

section \<open>Creation state\<close>

lemma split_input:
  assumes "length xs = a" "length ys = b" "length zs = c"
  shows "length i = a + b + c + n \<and> take a i = xs \<and> take b (drop a i) = ys
      \<and> take c (drop (a + b) i) = zs \<and> drop (a + b + c) i = ws \<longleftrightarrow>
    i = xs @ ys @ zs @ ws \<and> length ws = n"
proof
  assume l: "length i = a + b + c + n \<and> take a i = xs \<and> take b (drop a i) = ys
      \<and> take c (drop (a + b) i) = zs \<and> drop (a + b + c) i = ws"
  have "take c (drop b (drop a i)) = zs" "drop c (drop b (drop a i)) = ws" "take a i = xs"
    "take b (drop a i) = ys" "length i = a + b + c + n"
    using l by (simp_all add: add.commute add.left_commute)
  then show "i = xs @ ys @ zs @ ws \<and> length ws = n"
    by (metis (no_types, lifting) append_take_drop_id length_drop diff_diff_left diff_add_inverse)
qed (use assms in auto)

definition create_receipt_ok :: "tables \<Rightarrow> create_receipt_row \<Rightarrow> bool" where
  "create_receipt_ok t row \<longleftrightarrow>
    (\<exists>crow. om_get (capabilities t) (cc_document_id row, cc_root_capability_id row) = Some crow
      \<and> cr_root crow
      \<and> cc_normalized_input row = create_normalized_input (cc_document_id row)
          (cc_root_capability_id row)
          \<lparr> vp_live = cr_live_verifier crow, vp_receipt = cr_receipt_verifier crow \<rparr>)"

lemma create_receipt_checked_iff: "create_receipt_checked t row = Inr () \<longleftrightarrow> create_receipt_ok t row"
proof (cases "om_get (capabilities t) (cc_document_id row, cc_root_capability_id row)")
  case None
  then show ?thesis by (simp add: create_receipt_checked_def create_receipt_ok_def Let_def)
next
  case (Some crow)
  have "length (cc_normalized_input row) = 16 + 16 + 32 + 32
      \<and> take 16 (cc_normalized_input row) = be_encode (cc_document_id row)
      \<and> take 16 (drop 16 (cc_normalized_input row)) = be_encode (cc_root_capability_id row)
      \<and> take 32 (drop (16 + 16) (cc_normalized_input row)) = be_encode (cr_live_verifier crow)
      \<and> drop (16 + 16 + 32) (cc_normalized_input row) = be_encode (cr_receipt_verifier crow) \<longleftrightarrow>
    cc_normalized_input row = be_encode (cc_document_id row) @ be_encode (cc_root_capability_id row)
      @ be_encode (cr_live_verifier crow) @ be_encode (cr_receipt_verifier crow)"
    by (subst split_input) simp_all
  with Some show ?thesis
    by (auto simp add: create_receipt_checked_def create_receipt_ok_def Let_def create_normalized_input_def
        IDENTIFIER_LENGTH_def VERIFIER_LENGTH_def)
qed

lemma create_receipts_loop_iff:
  "create_receipts_loop t counts rows = Inr () \<longleftrightarrow> (\<forall>(k, row) \<in> set rows. create_receipt_ok t row)
    \<and> keys_fit MAX_DOCUMENTS_PER_CREATE_AUTHORITY counts (map (fst \<circ> fst) rows)"
proof (induction t counts rows rule: create_receipts_loop.induct)
  case (2 t counts authority request row rows)
  have lim: "MAX_DOCUMENTS_PER_CREATE_AUTHORITY < 2 ^ 64"
    by (simp add: MAX_DOCUMENTS_PER_CREATE_AUTHORITY_def)
  show ?case
    by (auto simp add: ok_then_Inr_iff create_receipt_checked_iff count_entry_Inr_iff [OF lim]
        keys_fit_Cons "2.IH")
qed simp

lemma count_list_filter: "count_list (map f xs) k = length (filter (\<lambda>x. f x = k) xs)"
  by (induction xs) auto

lemma validate_create_state_iff:
  "validate_create_state t = Inr () \<longleftrightarrow>
    (\<forall>(k, row) \<in> set (create_receipts t). create_receipt_ok t row)
    \<and> (\<forall>a. count_where (\<lambda>(a', _) _. a' = a) (create_receipts t) \<le> MAX_DOCUMENTS_PER_CREATE_AUTHORITY)
    \<and> count_where (\<lambda>_ _. True) (documents t) = count_where (\<lambda>_ _. True) (create_receipts t)
    \<and> count_where (\<lambda>_ _. True) (documents t) \<le> MAX_GLOBAL_DOCUMENTS"
proof -
  have "count_list (map (fst \<circ> fst) rows) a = count_where (\<lambda>(a', _) _. a' = a) rows"
    for rows :: "((create_authority_id \<times> request_id) \<times> create_receipt_row) list" and a
    by (simp add: count_list_filter count_where_def split_def)
  then show ?thesis
    unfolding validate_create_state_def Let_def
    by (auto simp add: create_receipts_loop_iff keys_fit_empty MAX_GLOBAL_DOCUMENTS_def
        MAX_GLOBAL_CREATE_RECEIPTS_def)
qed

section \<open>Loading the capabilities of a document\<close>

definition document_rows :: "tables \<Rightarrow> document_id \<Rightarrow> ((document_id \<times> capability_id) \<times> capability_row) list" where
  "document_rows t d = om_range (\<lambda>(d', _). d' = d) (capabilities t)"

definition row_loaded :: "tables \<Rightarrow> document_id \<Rightarrow> (document_id \<times> capability_id) \<times> capability_row
    \<Rightarrow> capability_id \<times> validated_capability \<Rightarrow> bool" where
  "row_loaded t d r v \<longleftrightarrow> fst v = snd (fst r) \<and> load_capability t d (snd (fst r)) (snd r) = Inr (snd v)"

definition loaded :: "tables \<Rightarrow> document_id \<Rightarrow> (capability_id, validated_capability) omap \<Rightarrow> bool" where
  "loaded t d caps \<longleftrightarrow> list_all2 (row_loaded t d) (document_rows t d) caps"

lemma om_insert_last: "\<forall>k' \<in> fst ` set m. k' < k \<Longrightarrow> om_insert k v m = m @ [(k, v)]"
  by (induction m) (auto simp add: not_less_iff_gr_or_eq)

lemma load_capabilities_loop_iff:
  "sorted_wrt (<) (map fst m @ map (snd \<circ> fst) rows) \<Longrightarrow>
    load_capabilities_loop t d m rows = Inr caps \<longleftrightarrow> (\<exists>vs. caps = m @ vs \<and> list_all2 (row_loaded t d) rows vs)"
proof (induction t d m rows rule: load_capabilities_loop.induct)
  case (2 t d m x c row rows)
  have less: "\<forall>k \<in> fst ` set m. k < c"
    using 2(2) by (auto simp add: sorted_wrt_append)
  then have fresh: "\<not> om_contains m c" by (auto simp add: om_contains_iff)
  have ins: "om_insert c v m = m @ [(c, v)]" for v using less by (rule om_insert_last)
  have "sorted_wrt (<) (map fst (om_insert c v m) @ map (snd \<circ> fst) rows)" for v
    using 2(2) by (simp add: ins comp_def)
  note IH = 2(1) [OF _ fresh this]
  show ?case
  proof (cases "load_capability t d c row")
    case (Inl e)
    then show ?thesis by (auto simp add: list_all2_Cons1 row_loaded_def)
  next
    case (Inr v)
    have "load_capabilities_loop t d m (((x, c), row) # rows) = Inr caps \<longleftrightarrow>
        (\<exists>vs. caps = (m @ [(c, v)]) @ vs \<and> list_all2 (row_loaded t d) rows vs)"
      using IH [OF Inr] fresh Inr by (simp add: ins)
    also have "\<dots> \<longleftrightarrow> (\<exists>vs. caps = m @ vs \<and> list_all2 (row_loaded t d) (((x, c), row) # rows) vs)"
      using Inr by (auto simp add: list_all2_Cons1 row_loaded_def)
    finally show ?thesis .
  qed
qed auto

lemma document_rows_sorted:
  assumes "om_invar (capabilities t)"
  shows "sorted_wrt (<) (map (snd \<circ> fst) (document_rows t d))"
proof -
  have "om_invar (document_rows t d)" using assms by (simp add: document_rows_def)
  then have "sorted_wrt (\<lambda>r r'. fst r < fst r') (document_rows t d)"
    by (simp add: om_invar_def sorted_wrt_map)
  then have "sorted_wrt (\<lambda>r r'. snd (fst r) < snd (fst r')) (document_rows t d)"
    by (rule sorted_wrt_mono_rel [rotated]) (auto simp add: document_rows_def)
  then show ?thesis by (simp add: sorted_wrt_map)
qed

lemma load_capabilities_iff:
  assumes "om_invar (capabilities t)"
  shows "load_capabilities t d = Inr caps \<longleftrightarrow> loaded t d caps"
  using load_capabilities_loop_iff [of om_empty "document_rows t d" t d caps]
    document_rows_sorted [OF assms, of d]
  by (simp add: load_capabilities_def loaded_def document_rows_def om_empty_def)

lemma document_rows_get:
  assumes "om_invar (capabilities t)"
  shows "((d', c), row) \<in> set (document_rows t d) \<longleftrightarrow> d' = d \<and> om_get (capabilities t) (d, c) = Some row"
  using om.entries_get [OF assms] by (auto simp add: document_rows_def)

lemma loaded_get:
  assumes "loaded t d caps" "om_invar (capabilities t)"
  shows "rel_option (\<lambda>row v. load_capability t d c row = Inr v) (om_get (capabilities t) (d, c)) (om_get caps c)"
proof -
  have key: "fst (fst r) = d" if "r \<in> set (document_rows t d)" for r
    using that by (auto simp add: document_rows_def om_range_def split_def)
  have "rel_option (\<lambda>row v. load_capability t d c row = Inr v) (map_of rows (d, c)) (map_of vs c)"
    if "list_all2 (row_loaded t d) rows vs" "\<forall>r \<in> set rows. fst (fst r) = d" for rows vs
    using that by (induction rule: list_all2_induct) (auto simp add: row_loaded_def)
  from this [OF assms(1) [unfolded loaded_def]] key
  have "rel_option (\<lambda>row v. load_capability t d c row = Inr v) (om_get (document_rows t d) (d, c)) (om_get caps c)"
    by (simp add: om_get_def)
  then show ?thesis using om_range_get [OF assms(2), of "\<lambda>(d', _). d' = d" "(d, c)"]
    by (simp add: document_rows_def)
qed

text \<open>Counting loaded capabilities is counting rows.\<close>

lemma loaded_count:
  assumes "loaded t d caps" "\<And>c row v. load_capability t d c row = Inr v \<Longrightarrow> P v \<longleftrightarrow> Q row"
  shows "length (filter P (map snd caps)) = count_where (\<lambda>(d', _) row. d' = d \<and> Q row) (capabilities t)"
proof -
  have "length (filter P (map snd vs)) = length (filter (\<lambda>r. Q (snd r)) rows)"
    if "list_all2 (row_loaded t d) rows vs" for rows vs
    using that by (induction rule: list_all2_induct) (use assms(2) in \<open>auto simp add: row_loaded_def\<close>)
  from this [OF assms(1) [unfolded loaded_def]] show ?thesis
    by (simp add: document_rows_def om_range_def count_where_def split_def conj_commute)
qed

lemma loaded_length: "loaded t d caps \<Longrightarrow> length caps = caps_in t d"
  using loaded_count [of t d caps "\<lambda>_. True" "\<lambda>_. True"] by (simp add: caps_in_def)

lemma load_capability_Inr_iff: "load_capability t d c row = Inr v \<longleftrightarrow> cr_created_revision row \<noteq> 0
    \<and> (\<exists>ops. load_operation_set t d c = Inr ops \<and> \<not> ops_is_empty ops
      \<and> v = \<lparr> vc_capability_id = c, vc_created_revision = cr_created_revision row,
        vc_live_verifier = cr_live_verifier row, vc_operations = ops,
        vc_parent_capability_id = cr_parent row, vc_receipt_verifier = cr_receipt_verifier row,
        vc_revoked = (cr_state row = 1), vc_root = cr_root row \<rparr>)"
  by (auto simp add: load_capability_def decode_control_revision_def ok_then_Inr_iff)

lemma direct_children_loop_iff:
  "direct_children_loop counts vs = Inr () \<longleftrightarrow>
    keys_fit MAX_DIRECT_CAPABILITY_CHILDREN counts (List.map_filter vc_parent_capability_id vs)"
proof (induction counts vs rule: direct_children_loop.induct)
  case (2 counts v vs)
  have lim: "MAX_DIRECT_CAPABILITY_CHILDREN < 2 ^ 64"
    by (simp add: MAX_DIRECT_CAPABILITY_CHILDREN_def)
  show ?case
    using 2 by (cases "vc_parent_capability_id v")
      (auto simp add: ok_then_Inr_iff count_entry_Inr_iff [OF lim] keys_fit_Cons map_filter_simps)
qed (simp add: map_filter_simps)

lemma direct_children_checked:
  assumes "loaded t d caps"
  shows "direct_children_loop om_empty (map snd caps) = Inr () \<longleftrightarrow>
    (\<forall>p. direct_children t d p \<le> MAX_DIRECT_CAPABILITY_CHILDREN)"
proof -
  have "count_list (List.map_filter f vs) p = length (filter (\<lambda>v. f v = Some p) vs)"
    for f :: "validated_capability \<Rightarrow> capability_id option" and vs p
    by (induction vs) (auto simp add: map_filter_simps split: option.split)
  moreover have "length (filter (\<lambda>v. vc_parent_capability_id v = Some p) (map snd caps)) = direct_children t d p" for p
    unfolding direct_children_def
    by (rule loaded_count [OF assms]) (auto simp add: load_capability_Inr_iff)
  ultimately show ?thesis by (simp add: direct_children_loop_iff keys_fit_empty)
qed

section \<open>Views of loaded capabilities\<close>

definition cap_view :: "tables \<Rightarrow> document_id \<Rightarrow> capability_id \<Rightarrow> capability_row \<Rightarrow> validated_capability" where
  "cap_view t d c row =
    \<lparr> vc_capability_id = c, vc_created_revision = cr_created_revision row,
      vc_live_verifier = cr_live_verifier row,
      vc_operations = (case load_operation_set t d c of Inr ops \<Rightarrow> ops | Inl _ \<Rightarrow> EMPTY_OPS),
      vc_parent_capability_id = cr_parent row, vc_receipt_verifier = cr_receipt_verifier row,
      vc_revoked = (cr_state row = 1), vc_root = cr_root row \<rparr>"

lemma cap_view_simps [simp]:
  "vc_capability_id (cap_view t d c row) = c"
  "vc_created_revision (cap_view t d c row) = cr_created_revision row"
  "vc_live_verifier (cap_view t d c row) = cr_live_verifier row"
  "vc_parent_capability_id (cap_view t d c row) = cr_parent row"
  "vc_receipt_verifier (cap_view t d c row) = cr_receipt_verifier row"
  "vc_revoked (cap_view t d c row) \<longleftrightarrow> cr_state row = 1"
  "vc_root (cap_view t d c row) = cr_root row"
  by (simp_all add: cap_view_def)

lemma cap_view_operations:
  assumes "op_rows_ok t"
  shows "canonical_ops (vc_operations (cap_view t d c row))"
    "ops_of (vc_operations (cap_view t d c row)) = ops_in t d c"
    "load_operation_set t d c = Inr (vc_operations (cap_view t d c row))"
proof -
  obtain ops where "load_operation_set t d c = Inr ops" "canonical_ops ops" "ops_of ops = ops_in t d c"
    using load_operation_set_ok [OF assms] by blast
  then show "canonical_ops (vc_operations (cap_view t d c row))"
    "ops_of (vc_operations (cap_view t d c row)) = ops_in t d c"
    "load_operation_set t d c = Inr (vc_operations (cap_view t d c row))"
    by (simp_all add: cap_view_def)
qed

lemma load_capability_view:
  assumes "op_rows_ok t"
  shows "load_capability t d c row = Inr v \<longleftrightarrow>
    cr_created_revision row \<noteq> 0 \<and> ops_in t d c \<noteq> {} \<and> v = cap_view t d c row"
proof -
  obtain ops where ops: "load_operation_set t d c = Inr ops" "canonical_ops ops" "ops_of ops = ops_in t d c"
    using load_operation_set_ok [OF assms, of d c] by blast
  then have "ops_is_empty ops \<longleftrightarrow> ops_in t d c = {}"
    using ops_of_empty_iff [OF ops(2)] by (simp add: ops_is_empty_def)
  then show ?thesis by (auto simp add: load_capability_Inr_iff ops(1) cap_view_def)
qed

definition rows_loadable :: "tables \<Rightarrow> document_id \<Rightarrow> bool" where
  "rows_loadable t d \<longleftrightarrow> (\<forall>c row. om_get (capabilities t) (d, c) = Some row \<longrightarrow>
    cr_created_revision row \<noteq> 0 \<and> ops_in t d c \<noteq> {})"

lemma loaded_exists:
  assumes "op_rows_ok t" "om_invar (capabilities t)"
  shows "(\<exists>caps. loaded t d caps) \<longleftrightarrow> rows_loadable t d"
proof
  assume "\<exists>caps. loaded t d caps"
  then obtain caps where caps: "loaded t d caps" by blast
  show "rows_loadable t d"
    unfolding rows_loadable_def
  proof (intro allI impI)
    fix c row
    assume "om_get (capabilities t) (d, c) = Some row"
    with loaded_get [OF caps assms(2), of c] obtain v where "load_capability t d c row = Inr v"
      by (auto simp add: option_rel_Some1)
    then show "cr_created_revision row \<noteq> 0 \<and> ops_in t d c \<noteq> {}"
      using load_capability_view [OF assms(1)] by blast
  qed
next
  assume "rows_loadable t d"
  then have ok: "row_loaded t d r (snd (fst r), cap_view t d (snd (fst r)) (snd r))"
    if "r \<in> set (document_rows t d)" for r
    using that document_rows_get [OF assms(2), of "fst (fst r)" "snd (fst r)" "snd r" d]
    by (auto simp add: row_loaded_def load_capability_view [OF assms(1)] rows_loadable_def)
  have "loaded t d (map (\<lambda>r. (snd (fst r), cap_view t d (snd (fst r)) (snd r))) (document_rows t d))"
    unfolding loaded_def list.rel_map by (rule list.rel_refl_strong) (use ok in blast)
  then show "\<exists>caps. loaded t d caps" by blast
qed

lemma loaded_view:
  assumes "loaded t d caps" "op_rows_ok t" "om_invar (capabilities t)"
  shows "om_get caps c = map_option (cap_view t d c) (om_get (capabilities t) (d, c))"
  using loaded_get [OF assms(1,3), of c]
  by (cases "om_get (capabilities t) (d, c)"; cases "om_get caps c")
    (auto simp add: load_capability_view [OF assms(2)])

section \<open>Ancestry\<close>

definition link_ok :: "tables \<Rightarrow> document_id \<Rightarrow> capability_id \<Rightarrow> capability_id \<Rightarrow> capability_row \<Rightarrow> bool" where
  "link_ok t d root c row \<longleftrightarrow> (cr_parent row = None \<longrightarrow> cr_root row \<and> c = root)
    \<and> (\<forall>p. cr_parent row = Some p \<longrightarrow> \<not> cr_root row \<and> (\<exists>prow. om_get (capabilities t) (d, p) = Some prow
        \<and> cr_created_revision prow < cr_created_revision row \<and> ops_in t d c \<subseteq> ops_in t d p
        \<and> (cr_state prow = 1 \<longrightarrow> cr_state row = 1)))"

definition views :: "tables \<Rightarrow> document_id \<Rightarrow> (capability_id, validated_capability) omap \<Rightarrow> bool" where
  "views t d caps \<longleftrightarrow> loaded t d caps \<and> op_rows_ok t \<and> om_invar (capabilities t)"

lemma views_get:
  "views t d caps \<Longrightarrow> om_get caps c = map_option (cap_view t d c) (om_get (capabilities t) (d, c))"
  using loaded_view unfolding views_def by blast

lemma views_loadable: "views t d caps \<Longrightarrow> om_get (capabilities t) (d, c) = Some row \<Longrightarrow>
    cr_created_revision row \<noteq> 0 \<and> ops_in t d c \<noteq> {}"
  using loaded_exists [of t d] unfolding views_def rows_loadable_def by blast

lemma views_operations:
  assumes "views t d caps"
  shows "canonical_ops (vc_operations (cap_view t d c row))"
    "ops_of (vc_operations (cap_view t d c row)) = ops_in t d c"
  using cap_view_operations assms unfolding views_def by blast+

lemma allows_view:
  assumes "views t d caps" "om_get (capabilities t) (d, c) = Some row"
  shows "allows (vc_operations (cap_view t d p prow)) (vc_operations (cap_view t d c row)) \<longleftrightarrow>
    ops_in t d c \<subseteq> ops_in t d p"
  using allows_iff [OF views_operations(1) [OF assms(1)]] views_loadable [OF assms]
  by (simp add: views_operations(2) [OF assms(1)])

lemma ancestry_step:
  assumes "views t d caps" "om_get (capabilities t) (d, c) = Some row"
  shows "ancestry_loop root caps (Suc n) seen (cap_view t d c row) = Inr () \<longleftrightarrow>
    c \<notin> set seen \<and> link_ok t d root c row
    \<and> (\<forall>p prow. cr_parent row = Some p \<longrightarrow> om_get (capabilities t) (d, p) = Some prow \<longrightarrow>
      ancestry_loop root caps n (c # seen) (cap_view t d p prow) = Inr ())"
proof (cases "cr_parent row")
  case None
  then show ?thesis by (simp add: link_ok_def)
next
  case (Some p)
  then show ?thesis
    by (cases "om_get (capabilities t) (d, p)")
      (auto simp add: link_ok_def views_get [OF assms(1)] allows_view [OF assms] not_le)
qed

lemma ancestry_sound:
  assumes views: "views t d caps"
  shows "om_get (capabilities t) (d, c) = Some row \<Longrightarrow>
    ancestry_loop root caps n seen (cap_view t d c row) = Inr () \<Longrightarrow>
    link_ok t d root c row \<and> (\<exists>cs. chain (par_of t d) c cs \<and> length cs \<le> n)"
proof (induction n arbitrary: c row seen)
  case (Suc n)
  note step = Suc.prems(2) [unfolded ancestry_step [OF views Suc.prems(1)]]
  show ?case
  proof (cases "cr_parent row")
    case None
    then have "chain (par_of t d) c [c]"
      using Suc.prems(1) by (intro chain_root) (simp add: par_of_def)
    then show ?thesis using step by (intro conjI exI [of _ "[c]"]) auto
  next
    case (Some p)
    with step obtain prow where prow: "om_get (capabilities t) (d, p) = Some prow"
      by (auto simp add: link_ok_def)
    with step Some have "ancestry_loop root caps n (c # seen) (cap_view t d p prow) = Inr ()" by blast
    from Suc.IH [OF prow this] obtain cs where "chain (par_of t d) p cs" "length cs \<le> n" by blast
    moreover have "par_of t d c = Some (Some p)" using Suc.prems(1) Some by (simp add: par_of_def)
    ultimately show ?thesis
      using step by (intro conjI exI [of _ "c # cs"]) (auto intro: chain_step)
  qed
qed simp

lemma ancestry_complete:
  assumes views: "views t d caps" and "chain (par_of t d) c cs" "length cs \<le> n" "set cs \<inter> set seen = {}"
    and "om_get (capabilities t) (d, c) = Some row"
    and "\<And>c row. om_get (capabilities t) (d, c) = Some row \<Longrightarrow> link_ok t d root c row"
  shows "ancestry_loop root caps n seen (cap_view t d c row) = Inr ()"
  using assms(2-5)
proof (induction arbitrary: n seen row rule: chain.induct)
  case (chain_root c)
  then obtain m where "n = Suc m" by (cases n) auto
  with chain_root assms(6) show ?case by (simp only: ancestry_step [OF views]) (auto simp add: par_of_def)
next
  case (chain_step c p cs)
  then obtain m where m: "n = Suc m" by (cases n) auto
  have "distinct (c # cs)"
    using chain_distinct [OF chain.chain_step [OF chain_step.hyps]] .
  then have "ancestry_loop root caps m (c # seen) (cap_view t d p prow) = Inr ()"
    if "om_get (capabilities t) (d, p) = Some prow" for prow
    using chain_step.IH [of m "c # seen" prow] chain_step.prems that m by auto
  then show ?case
    using chain_step.hyps(1) chain_step.prems assms(6) unfolding m ancestry_step [OF views chain_step.prems(3)]
    by (auto simp add: par_of_def)
qed

lemma views_invar: "views t d caps \<Longrightarrow> om_invar caps"
proof -
  assume "views t d caps"
  then have l: "list_all2 (row_loaded t d) (document_rows t d) caps" "om_invar (capabilities t)"
    by (simp_all add: views_def loaded_def)
  have "map fst vs = map (snd \<circ> fst) rows" if "list_all2 (row_loaded t d) rows vs" for rows vs
    using that by (induction rule: list_all2_induct) (simp_all add: row_loaded_def)
  with l document_rows_sorted show "om_invar caps" by (simp add: om_invar_def)
qed

lemma views_values:
  assumes "views t d caps"
  shows "v \<in> set (map snd caps) \<longleftrightarrow> (\<exists>c row. om_get (capabilities t) (d, c) = Some row \<and> v = cap_view t d c row)"
proof -
  have "v \<in> set (map snd caps) \<longleftrightarrow> (\<exists>c. (c, v) \<in> set caps)" by force
  also have "\<dots> \<longleftrightarrow> (\<exists>c. om_get caps c = Some v)"
    using om.entries_get [OF views_invar [OF assms]] by simp
  finally show ?thesis by (simp add: views_get [OF assms]) blast
qed

lemma ancestries_loop_iff: "ancestries_loop root control caps vs = Inr () \<longleftrightarrow>
    (\<forall>v \<in> set vs. validate_capability_ancestry v root control caps = Inr ())"
  by (induction root control caps vs rule: ancestries_loop.induct) (auto simp add: ok_then_Inr_iff)

definition lineage_ok :: "tables \<Rightarrow> document_id \<Rightarrow> capability_id \<Rightarrow> u64 \<Rightarrow> bool" where
  "lineage_ok t d root control \<longleftrightarrow> (\<forall>c row. om_get (capabilities t) (d, c) = Some row \<longrightarrow>
    cr_created_revision row \<le> control \<and> link_ok t d root c row
    \<and> (\<exists>cs. chain (par_of t d) c cs \<and> length cs \<le> MAX_CAPABILITY_DEPTH))"

lemma ancestries_checked:
  assumes "views t d caps"
  shows "ancestries_loop root control caps (map snd caps) = Inr () \<longleftrightarrow> lineage_ok t d root control"
proof -
  have each: "validate_capability_ancestry (cap_view t d c row) root control caps = Inr () \<longleftrightarrow>
      cr_created_revision row \<le> control
      \<and> ancestry_loop root caps MAX_CAPABILITY_DEPTH [] (cap_view t d c row) = Inr ()"
    if "om_get (capabilities t) (d, c) = Some row" for c row
    using views_loadable [OF assms that] by (auto simp add: validate_capability_ancestry_def not_less)
  have "ancestries_loop root control caps (map snd caps) = Inr () \<longleftrightarrow>
      (\<forall>c row. om_get (capabilities t) (d, c) = Some row \<longrightarrow>
        validate_capability_ancestry (cap_view t d c row) root control caps = Inr ())"
    unfolding ancestries_loop_iff Ball_def views_values [OF assms] by blast
  also have "\<dots> \<longleftrightarrow> lineage_ok t d root control"
  proof
    assume "\<forall>c row. om_get (capabilities t) (d, c) = Some row \<longrightarrow>
        validate_capability_ancestry (cap_view t d c row) root control caps = Inr ()"
    then show "lineage_ok t d root control"
      unfolding lineage_ok_def using each ancestry_sound [OF assms] by blast
  next
    assume ok: "lineage_ok t d root control"
    show "\<forall>c row. om_get (capabilities t) (d, c) = Some row \<longrightarrow>
        validate_capability_ancestry (cap_view t d c row) root control caps = Inr ()"
    proof (intro allI impI)
      fix c row
      assume row: "om_get (capabilities t) (d, c) = Some row"
      with ok obtain cs where "chain (par_of t d) c cs" "length cs \<le> MAX_CAPABILITY_DEPTH"
        unfolding lineage_ok_def by blast
      then have "ancestry_loop root caps MAX_CAPABILITY_DEPTH [] (cap_view t d c row) = Inr ()"
        using ancestry_complete [OF assms _ _ _ row] ok unfolding lineage_ok_def by simp
      with ok row show "validate_capability_ancestry (cap_view t d c row) root control caps = Inr ()"
        unfolding each [OF row] lineage_ok_def by blast
    qed
  qed
  finally show ?thesis .
qed

section \<open>Receipts\<close>

definition grant_input_of :: "tables \<Rightarrow> document_id \<Rightarrow> capability_id \<Rightarrow> capability_row \<Rightarrow> bytes" where
  "grant_input_of t d c row = grant_normalized_input c
    \<lparr> vp_live = cr_live_verifier row, vp_receipt = cr_receipt_verifier row \<rparr>
    (vc_operations (cap_view t d c row))"

lemma grant_receipt_ok_view:
  assumes "views t d caps"
  shows "grant_receipt_ok t d issuer row \<longleftrightarrow> rr_operation row = 0
    \<and> (\<exists>c crow. om_get (capabilities t) (d, c) = Some crow \<and> cr_parent crow = Some issuer
      \<and> rr_normalized_input row = grant_input_of t d c crow)"
proof -
  have "(\<exists>ops. canonical_ops ops \<and> ops_of ops = ops_in t d c \<and> i = f ops)
      \<longleftrightarrow> i = f (vc_operations (cap_view t d c crow))" for f c crow and i :: bytes
    using views_operations [OF assms, of c crow] ops_of_inj by metis
  then show ?thesis by (simp add: grant_receipt_ok_def grant_input_of_def)
qed

lemma grant_input_parts:
  "i = grant_input_of t d c row \<longleftrightarrow> length i = 82 \<and> take 16 i = be_encode c
    \<and> take 32 (drop 16 i) = be_encode (cr_live_verifier row)
    \<and> take 32 (drop 48 i) = be_encode (cr_receipt_verifier row)
    \<and> drop 80 i = be_encode (vc_operations (cap_view t d c row))"
  using split_input [of "be_encode c" 16 "be_encode (cr_live_verifier row)" 32
      "be_encode (cr_receipt_verifier row)" 32 i 2 "be_encode (vc_operations (cap_view t d c row))"]
  by (auto simp add: grant_input_of_def grant_normalized_input_def ops_bits_def)

lemma from_bits_iff: "from_bits b = Some s \<longleftrightarrow> s = b \<and> canonical_ops b"
  by (auto simp add: canonical_ops_def from_bits_def split: if_splits)

lemma decode_id: "length bs = 16 \<Longrightarrow> bs = be_encode (c :: id16) \<longleftrightarrow> be_decode bs = c"
  using be_encode_decode [where 'a = 128, of bs] be_decode_encode [where 'a = 128, of c] by auto

lemma decode_ops: "length bs = 2 \<Longrightarrow> bs = be_encode (c :: u16) \<longleftrightarrow> be_decode bs = c"
  using be_encode_decode [where 'a = 16, of bs] be_decode_encode [where 'a = 16, of c] by auto

lemma grant_receipt_checked_iff:
  assumes "views t d caps" "rr_operation row = 0"
  shows "grant_receipt_checked caps issuer (rr_normalized_input row) = Inr () \<longleftrightarrow> grant_receipt_ok t d issuer row"
proof (cases "length (rr_normalized_input row) = 82")
  case False
  then show ?thesis
    by (simp add: grant_receipt_checked_def IDENTIFIER_LENGTH_def grant_receipt_ok_view [OF assms(1)]
        grant_input_parts)
next
  case True
  let ?i = "rr_normalized_input row" and ?c = "be_decode (take 16 (rr_normalized_input row)) :: id16"
  have id: "take 16 ?i = be_encode c \<longleftrightarrow> c = ?c" for c using True decode_id [of "take 16 ?i" c] by auto
  have right: "grant_receipt_ok t d issuer row \<longleftrightarrow> (\<exists>crow. om_get (capabilities t) (d, ?c) = Some crow
      \<and> cr_parent crow = Some issuer \<and> ?i = grant_input_of t d ?c crow)"
    unfolding grant_receipt_ok_view [OF assms(1)] grant_input_parts id using assms(2) by blast
  show ?thesis
  proof (cases "om_get (capabilities t) (d, ?c)")
    case None
    then show ?thesis using True
      by (simp add: right grant_receipt_checked_def IDENTIFIER_LENGTH_def views_get [OF assms(1)])
  next
    case (Some crow)
    let ?v = "cap_view t d ?c crow"
    have ops: "canonical_ops (vc_operations ?v)" "vc_operations ?v \<noteq> 0"
      using views_operations [OF assms(1)] views_loadable [OF assms(1) Some] ops_of_empty_iff by metis+
    have "drop 80 ?i = be_encode (vc_operations ?v) \<longleftrightarrow> be_decode (drop 80 ?i) = vc_operations ?v"
      using True by (intro decode_ops) simp
    moreover have "grant_receipt_checked caps issuer ?i = Inr () \<longleftrightarrow> cr_parent crow = Some issuer
        \<and> take 32 (drop 16 ?i) = be_encode (cr_live_verifier crow)
        \<and> take 32 (drop 48 ?i) = be_encode (cr_receipt_verifier crow)
        \<and> be_decode (drop 80 ?i) = vc_operations ?v"
      using True Some ops
      by (auto simp add: grant_receipt_checked_def IDENTIFIER_LENGTH_def views_get [OF assms(1)]
          ok_then_Inr_iff from_bits_iff ops_is_empty_def bind_eq_Some_conv)
    ultimately show ?thesis
      using True Some id [of ?c] unfolding right grant_input_parts by simp
  qed
qed

lemma revoke_receipt_checked_iff:
  assumes "views t d caps" "rr_operation row = 1"
  shows "revoke_receipt_checked caps (rr_normalized_input row) = Inr () \<longleftrightarrow> revoke_receipt_ok t d row"
proof (cases "length (rr_normalized_input row) = 16")
  case False
  then show ?thesis by (auto simp add: revoke_receipt_checked_def revoke_receipt_ok_def IDENTIFIER_LENGTH_def)
next
  case True
  then show ?thesis
    using assms(2) decode_id [OF True]
    by (auto simp add: revoke_receipt_checked_def revoke_receipt_ok_def IDENTIFIER_LENGTH_def
        views_get [OF assms(1)] split: option.split)
qed

lemma control_receipt_checked_iff:
  assumes "views t d caps"
  shows "control_receipt_checked caps issuer row = Inr () \<longleftrightarrow> om_contains (capabilities t) (d, issuer)
    \<and> (grant_receipt_ok t d issuer row \<or> revoke_receipt_ok t d row)"
proof -
  have "om_contains caps issuer \<longleftrightarrow> om_contains (capabilities t) (d, issuer)"
    by (simp add: om_contains_def views_get [OF assms])
  moreover have "grant_receipt_ok t d issuer row \<Longrightarrow> rr_operation row = 0"
    "revoke_receipt_ok t d row \<Longrightarrow> rr_operation row = 1"
    by (simp_all add: grant_receipt_ok_def revoke_receipt_ok_def)
  ultimately show ?thesis
    using grant_receipt_checked_iff [OF assms] revoke_receipt_checked_iff [OF assms]
    by (auto simp add: control_receipt_checked_def)
qed

lemma control_receipts_loop_iff:
  "n < 2 ^ 64 \<Longrightarrow> control_receipts_loop caps n rows = Inr m \<longleftrightarrow> m = n + length rows \<and> m < 2 ^ 64
    \<and> (\<forall>(k, row) \<in> set rows. control_receipt_checked caps (fst (snd k)) row = Inr ())"
proof (induction caps n rows rule: control_receipts_loop.induct)
  case (2 caps n x issuer y row rows)
  show ?case
  proof (cases "n + 1 < 2 ^ 64")
    case True
    then show ?thesis using 2(1) [OF _ _ True]
      by (auto simp add: ok_then_Inr_iff count_up_Inr_iff)
  qed (auto simp add: ok_then_Inr_iff count_up_Inr_iff)
qed auto

definition document_receipts_ok :: "tables \<Rightarrow> document_id \<Rightarrow> bool" where
  "document_receipts_ok t d \<longleftrightarrow> (\<forall>i r row. om_get (control_receipts t) (d, i, r) = Some row \<longrightarrow>
    om_contains (capabilities t) (d, i) \<and> (grant_receipt_ok t d i row \<or> revoke_receipt_ok t d row))"

lemma control_receipts_checked:
  assumes "views t d caps" "om_invar (control_receipts t)"
  shows "validate_control_receipts t d caps = Inr m \<longleftrightarrow>
    m = receipts_in t d \<and> m < 2 ^ 64 \<and> document_receipts_ok t d"
proof -
  let ?rows = "om_range (\<lambda>(d', _). d' = d) (control_receipts t)"
  have "length ?rows = receipts_in t d"
    by (simp add: om_range_def receipts_in_def count_where_def split_def)
  moreover have "(\<forall>(k, row) \<in> set ?rows. control_receipt_checked caps (fst (snd k)) row = Inr ())
      \<longleftrightarrow> document_receipts_ok t d"
    unfolding control_receipt_checked_iff [OF assms(1)] document_receipts_ok_def
    using om.entries_get [OF assms(2)] by (auto simp add: om_range_def)
  ultimately show ?thesis by (simp add: validate_control_receipts_def control_receipts_loop_iff)
qed

section \<open>Documents\<close>

definition root_ok :: "tables \<Rightarrow> document_id \<Rightarrow> capability_id \<Rightarrow> bool" where
  "root_ok t d root \<longleftrightarrow> (\<exists>row. om_get (capabilities t) (d, root) = Some row \<and> cr_root row
    \<and> cr_parent row = None \<and> cr_created_revision row = 1 \<and> ops_in t d root = UNIV)
    \<and> count_where (\<lambda>(d', _) row. d' = d \<and> cr_root row) (capabilities t) = 1"

definition document_ok :: "tables \<Rightarrow> document_id \<Rightarrow> document_row \<Rightarrow> bool" where
  "document_ok t d row \<longleftrightarrow> dr_state row \<le> 1 \<and> rows_loadable t d \<and> caps_in t d \<le> MAX_CAPABILITIES_PER_DOCUMENT
    \<and> (\<forall>p. direct_children t d p \<le> MAX_DIRECT_CAPABILITY_CHILDREN)
    \<and> root_ok t d (dr_root_capability_id row)
    \<and> lineage_ok t d (dr_root_capability_id row) (dr_control_revision row)
    \<and> document_receipts_ok t d \<and> receipts_in t d \<le> MAX_CONTROL_RECEIPTS_PER_DOCUMENT
    \<and> unat (dr_control_revision row) = 1 + receipts_in t d"

lemma root_checked_iff:
  assumes "views t d caps"
  shows "root_checked caps root control = Inr () \<longleftrightarrow> root_ok t d root \<and> control \<noteq> 0"
proof -
  have roots: "length (filter vc_root (map snd caps)) = count_where (\<lambda>(d', _) row. d' = d \<and> cr_root row) (capabilities t)"
    using assms by (intro loaded_count) (auto simp add: views_def load_capability_Inr_iff)
  have "vc_operations (cap_view t d root row) = FULL_OPS \<longleftrightarrow> ops_in t d root = UNIV" for row
    using views_operations [OF assms, of root row] canonical_full ops_of_full ops_of_inj by metis
  then show ?thesis
    by (auto simp add: root_checked_def views_get [OF assms] root_ok_def roots [simplified] not_less word_less_1
        split: option.split)
qed

lemma receipt_count_checked_iff: "receipt_count_checked n control = Inr () \<longleftrightarrow>
    n \<le> MAX_CONTROL_RECEIPTS_PER_DOCUMENT \<and> unat control = 1 + n"
  using unsigned_less [of control, where 'a = nat]
  by (auto simp add: receipt_count_checked_def ok_then_Inr_iff count_up_Inr_iff)

lemma document_checked_iff:
  assumes "sorted_ok t" "op_rows_ok t"
  shows "document_checked t d row = Inr () \<longleftrightarrow> document_ok t d row
    \<and> control_logical_bytes t (\<lambda>x. x = d) \<le> MAX_DOCUMENT_CONTROL_BYTES"
proof (cases "dr_state row \<le> 1 \<and> rows_loadable t d \<and> dr_control_revision row \<noteq> 0")
  case False
  have inv: "om_invar (capabilities t)" using assms(1) by (simp add: sorted_ok_def)
  have "(\<nexists>caps. load_capabilities t d = Inr caps)" if "\<not> rows_loadable t d"
    using that loaded_exists [OF assms(2) inv, of d] load_capabilities_iff [OF inv] by blast
  with False show ?thesis
    by (auto simp add: document_checked_def document_ok_def decode_control_revision_def ok_then_Inr_iff not_less)
next
  case True
  have inv: "om_invar (capabilities t)" "om_invar (control_receipts t)"
    using assms(1) by (simp_all add: sorted_ok_def)
  obtain caps where caps: "loaded t d caps" using True loaded_exists [OF assms(2) inv(1)] by blast
  then have views: "views t d caps" using assms(2) inv by (simp add: views_def)
  have load: "load_capabilities t d = Inr caps" using caps load_capabilities_iff [OF inv(1)] by blast
  have small: "n < 2 ^ 64" if "n \<le> MAX_CONTROL_RECEIPTS_PER_DOCUMENT" for n
    using that by (simp add: MAX_CONTROL_RECEIPTS_PER_DOCUMENT_def)
  show ?thesis
    using True small [of "receipts_in t d"]
    by (auto simp add: document_checked_def document_ok_def decode_control_revision_def load ok_then_Inr_iff
        loaded_length [OF caps] direct_children_checked [OF caps] root_checked_iff [OF views]
        ancestries_checked [OF views] control_receipts_checked [OF views inv(2)] receipt_count_checked_iff
        not_less split: if_splits)
qed

lemma documents_loop_iff: "documents_loop t rows = Inr () \<longleftrightarrow>
    (\<forall>(d, row) \<in> set rows. document_checked t d row = Inr ())"
  by (induction t rows rule: documents_loop.induct) (auto simp add: ok_then_Inr_iff)

section \<open>The invariant is what validation accepts\<close>

lemma code_valid_iff: "operation_from_code code \<noteq> None \<longleftrightarrow> code \<le> 9"
proof
  assume "code \<le> 9"
  then have "unat code \<le> 9" by (simp add: word_le_nat_alt)
  then have "unat code \<in> {0, 1, 2, 3, 4, 5, 6, 7, 8, 9}" by auto
  then have "code \<in> {0, 1, 2, 3, 4, 5, 6, 7, 8, 9}"
    by (auto simp add: word_unat_eq_iff)
  then show "operation_from_code code \<noteq> None" by (auto simp add: operation_from_code_def)
qed (auto simp add: operation_from_code_def split: if_splits)

lemma checks_op_rows:
  assumes "constraints_hold t"
  shows "op_rows_ok t"
proof -
  have "om_invar (capability_operations t)"
    "list_all (\<lambda>((d, c, _), _). om_contains (capabilities t) (d, c)) (capability_operations t)"
    "list_all (\<lambda>((_, _, code), _). code \<le> 9) (capability_operations t)"
    using assms by (simp_all add: constraints_hold_def primary_keys_hold_def control_foreign_keys_def control_checks_def)
  then show ?thesis
    unfolding op_rows_ok_def code_valid_iff om_contains_iff by (fastforce simp add: list_all_iff)
qed

lemma accepted_caps:
  assumes "constraints_hold t" "om_get (documents t) d = Some doc" "document_ok t d doc"
    and row: "om_get (capabilities t) (d, c) = Some row"
  shows "cap_row_ok t d c row"
proof -
  have checks: "(cr_root row \<longleftrightarrow> cr_parent row = None)" "cr_state row = 0 \<or> cr_state row = 1"
    using assms(1) om_get_in [OF row]
    by (auto simp add: constraints_hold_def control_checks_def list_all_iff)
  have l: "cr_created_revision row \<le> dr_control_revision doc"
    "link_ok t d (dr_root_capability_id doc) c row"
    "cr_created_revision row \<noteq> 0" "ops_in t d c \<noteq> {}"
    using assms(3) row by (auto simp add: document_ok_def lineage_ok_def rows_loadable_def)
  obtain rrow where r: "om_get (capabilities t) (d, dr_root_capability_id doc) = Some rrow" "cr_root rrow"
    "cr_created_revision rrow = 1" "ops_in t d (dr_root_capability_id doc) = UNIV"
    using assms(3) by (auto simp add: document_ok_def root_ok_def)
  have root: "cr_root row \<longleftrightarrow> c = dr_root_capability_id doc"
    using l(2) checks(1) r(1,2) row by (auto simp add: link_ok_def)
  have "row_doc_ok doc c (ops_in t d c) row"
    using root checks l(1,3,4) r row by (auto simp add: row_doc_ok_def word_less_1 simp flip: not_less)
  moreover have "cr_state prow = 0" if "om_get (capabilities t) (d, p) = Some prow"
    "cr_state prow = 1 \<longrightarrow> cr_state row = 1" "cr_state row = 0" for p prow
    using assms(1) om_get_in [OF that(1)] that(2,3)
    by (auto simp add: constraints_hold_def control_checks_def list_all_iff)
  ultimately show ?thesis
    using assms(2) l(2) unfolding cap_row_ok_def link_ok_def by blast
qed

lemma empty_document_counts:
  assumes "control_foreign_keys t" "\<not> om_contains (documents t) d"
  shows "caps_in t d = 0" "receipts_in t d = 0" "direct_children t d p = 0"
proof -
  have cap: "d' \<noteq> d" if "((d', c), row) \<in> set (capabilities t)" for d' c row
    using that assms by (force simp add: control_foreign_keys_def list_all_iff)
  then have cap': "\<not> om_contains (capabilities t) (d, c)" for c
    by (force simp add: om_contains_iff)
  have rec: "d' \<noteq> d" if "((d', c, r), row) \<in> set (control_receipts t)" for d' c r row
    using that assms(1) cap' by (fastforce simp add: control_foreign_keys_def list_all_iff)
  show "caps_in t d = 0" "direct_children t d p = 0"
    using cap by (auto simp add: caps_in_def direct_children_def count_where_def filter_empty_conv)
  show "receipts_in t d = 0"
    using rec by (auto simp add: receipts_in_def count_where_def filter_empty_conv)
qed

lemma accepted_control_ok:
  assumes "constraints_hold t"
    and docs: "\<And>d doc. om_get (documents t) d = Some doc \<Longrightarrow> document_ok t d doc"
    and globals: "count_where (\<lambda>_ _. True) (capabilities t) \<le> MAX_GLOBAL_CAPABILITIES"
      "count_where (\<lambda>_ _. True) (control_receipts t) \<le> MAX_GLOBAL_CONTROL_RECEIPTS"
    and creates: "validate_create_state t = Inr ()"
  shows "control_ok t"
proof -
  have keys: "primary_keys_hold t" and fks: "control_foreign_keys t" and checks: "control_checks t"
    using assms(1) by (simp_all add: constraints_hold_def)
  have inv: "om_invar (capabilities t)" "om_invar (control_receipts t)" "om_invar (create_receipts t)"
    "om_invar (documents t)"
    using keys by (simp_all add: primary_keys_hold_def)
  have doc_of: "\<exists>doc. om_get (documents t) d = Some doc" if "om_contains (capabilities t) (d, c)" for d c
    using that fks by (fastforce simp add: control_foreign_keys_def list_all_iff om_contains_iff [of "capabilities t"] om_contains_def [of "documents t"])
  have "caps_ok t"
    unfolding caps_ok_def
  proof (intro allI impI)
    fix d c row
    assume row: "om_get (capabilities t) (d, c) = Some row"
    then obtain doc where "om_get (documents t) d = Some doc" using doc_of by (auto simp add: om_contains_def)
    then show "cap_row_ok t d c row" using accepted_caps [OF assms(1) _ docs row] by blast
  qed
  moreover have "depth_ok t"
    unfolding depth_ok_def
  proof (intro allI impI)
    fix d c
    assume "par_of t d c \<noteq> None"
    then obtain row where row: "om_get (capabilities t) (d, c) = Some row" by (auto simp add: par_of_def)
    then obtain doc where "om_get (documents t) d = Some doc" using doc_of by (auto simp add: om_contains_def)
    from docs [OF this] row show "\<exists>cs. chain (par_of t d) c cs \<and> length cs \<le> MAX_CAPABILITY_DEPTH"
      unfolding document_ok_def lineage_ok_def by blast
  qed
  moreover have "docs_ok t"
    using docs checks om_get_in
    unfolding docs_ok_def document_ok_def root_ok_def om_contains_def control_checks_def list_all_iff
    by fastforce
  moreover have "receipts_ok t"
    unfolding receipts_ok_def
  proof (intro allI impI)
    fix d i r row
    assume row: "om_get (control_receipts t) (d, i, r) = Some row"
    then have "om_contains (capabilities t) (d, i)"
      using fks om_get_in [OF row] by (fastforce simp add: control_foreign_keys_def list_all_iff)
    with doc_of obtain doc where doc: "om_get (documents t) d = Some doc" by blast
    from docs [OF this] row doc show "om_contains (documents t) d \<and> om_contains (capabilities t) (d, i)
        \<and> (grant_receipt_ok t d i row \<or> revoke_receipt_ok t d row)"
      unfolding document_ok_def document_receipts_ok_def om_contains_def by blast
  qed
  moreover have "counts_ok t"
  proof -
    have "caps_in t d \<le> MAX_CAPABILITIES_PER_DOCUMENT \<and> receipts_in t d \<le> MAX_CONTROL_RECEIPTS_PER_DOCUMENT
        \<and> direct_children t d p \<le> MAX_DIRECT_CAPABILITY_CHILDREN" for d p
    proof (cases "om_get (documents t) d")
      case None
      then show ?thesis using empty_document_counts [OF fks, of d] by (simp add: om_contains_def)
    next
      case (Some doc)
      then show ?thesis using docs [OF Some] by (simp add: document_ok_def)
    qed
    with globals show ?thesis by (simp add: counts_ok_def)
  qed
  moreover have "create_rows_ok t"
    using creates [unfolded validate_create_state_iff] fks om.entries_get [OF inv(3)]
    unfolding create_rows_ok_def create_receipt_ok_def control_foreign_keys_def list_all_iff
    by fastforce
  moreover have "sorted_ok t" using keys by (simp add: sorted_ok_def primary_keys_hold_def)
  ultimately show ?thesis using checks_op_rows [OF assms(1)] by (simp add: control_ok_def)
qed

lemma control_ok_root:
  assumes "control_ok t" "om_get (documents t) d = Some doc"
  shows "root_ok t d (dr_root_capability_id doc)"
proof -
  let ?root = "dr_root_capability_id doc"
  have inv: "om_invar (capabilities t)" using control_okD(1) [OF assms(1)] by (simp add: sorted_ok_def)
  have row_doc: "row_doc_ok doc c (ops_in t d c) row" if "om_get (capabilities t) (d, c) = Some row" for c row
    using caps_okD [OF assms(1) that] assms(2) by (auto simp add: cap_row_ok_def)
  have has: "om_contains (capabilities t) (d, ?root)"
    using control_okD(4) [OF assms(1)] assms(2) by (simp add: docs_ok_def)
  then obtain row where row: "om_get (capabilities t) (d, ?root) = Some row" by (auto simp add: om_contains_def)
  have "filter (\<lambda>((d', c), row). d' = d \<and> cr_root row) (capabilities t)
      = filter (\<lambda>(k, row). k = (d, ?root)) (capabilities t)"
    using row_doc om.entries_get [OF inv] by (intro filter_cong) (auto simp add: row_doc_ok_def)
  then have "count_where (\<lambda>(d', _) row. d' = d \<and> cr_root row) (capabilities t)
      = count_where (\<lambda>k _. k = (d, ?root)) (capabilities t)"
    by (simp add: count_where_def split_def)
  also have "\<dots> = card {(d, ?root)}"
    unfolding count_where_card [OF inv] by (rule arg_cong [where f = card]) (use has in auto)
  finally show ?thesis using row row_doc [OF row] by (simp add: root_ok_def row_doc_ok_def)
qed

lemma control_ok_document:
  assumes "control_ok t" "om_get (documents t) d = Some doc"
  shows "document_ok t d doc"
proof -
  have doc: "dr_state doc = 0 \<or> dr_state doc = 1" "unat (dr_control_revision doc) = 1 + receipts_in t d"
    using control_okD(4) [OF assms(1)] assms(2) unfolding docs_ok_def by blast+
  have row_ok: "row_doc_ok doc c (ops_in t d c) row \<and> link_ok t d (dr_root_capability_id doc) c row"
    if row: "om_get (capabilities t) (d, c) = Some row" for c row
  proof -
    have state: "cr_state prow = 0 \<or> cr_state prow = 1" if "om_get (capabilities t) (d, p) = Some prow" for p prow
      using caps_okD [OF assms(1) that] by (auto simp add: cap_row_ok_def row_doc_ok_def)
    have "cap_row_ok t d c row" using caps_okD [OF assms(1) row] .
    with assms(2) state show ?thesis
      unfolding cap_row_ok_def link_ok_def row_doc_ok_def by fastforce
  qed
  have chains: "\<exists>cs. chain (par_of t d) c cs \<and> length cs \<le> MAX_CAPABILITY_DEPTH"
    if row: "om_get (capabilities t) (d, c) = Some row" for c row
    using obtain_cap_chain [OF assms(1) row] by blast
  have "lineage_ok t d (dr_root_capability_id doc) (dr_control_revision doc)"
    unfolding lineage_ok_def using row_ok chains by (auto simp add: row_doc_ok_def)
  moreover have "rows_loadable t d"
    unfolding rows_loadable_def
  proof (intro allI impI)
    fix c row
    assume "om_get (capabilities t) (d, c) = Some row"
    then have "1 \<le> cr_created_revision row" "ops_in t d c \<noteq> {}" using row_ok by (simp_all add: row_doc_ok_def)
    then show "cr_created_revision row \<noteq> 0 \<and> ops_in t d c \<noteq> {}" by auto
  qed
  moreover have "document_receipts_ok t d"
    using control_okD(6) [OF assms(1)] unfolding receipts_ok_def document_receipts_ok_def by blast
  ultimately show ?thesis
    using doc control_ok_root [OF assms] counts_okD [OF assms(1)] by (auto simp add: document_ok_def)
qed

lemma control_bytes_within:
  assumes "control_ok t"
  shows "control_logical_bytes t (\<lambda>x. x = d) \<le> MAX_DOCUMENT_CONTROL_BYTES"
    "control_logical_bytes t (\<lambda>_. True) \<le> MAX_GLOBAL_CONTROL_BYTES"
proof -
  note counts = counts_okD [OF assms]
  show "control_logical_bytes t (\<lambda>x. x = d) \<le> MAX_DOCUMENT_CONTROL_BYTES"
    using control_logical_bytes_bound [OF assms, of "\<lambda>x. x = d"] counts(1,2) [of d]
    by (simp add: store_limit_defs caps_in_def receipts_in_def)
  show "control_logical_bytes t (\<lambda>_. True) \<le> MAX_GLOBAL_CONTROL_BYTES"
    using control_logical_bytes_bound [OF assms, of "\<lambda>_. True"] counts(4,5)
    by (simp add: store_limit_defs split_def)
qed

lemma control_ok_creates: "control_ok t \<Longrightarrow> validate_create_state t = Inr ()"
  using control_okD(1,8) [of t] om.entries_get [of "create_receipts t"]
  unfolding validate_create_state_iff create_rows_ok_def create_receipt_ok_def sorted_ok_def by fastforce

lemma validate_capability_state_iff:
  assumes "sorted_ok t" "op_rows_ok t"
  shows "validate_capability_state t = Inr () \<longleftrightarrow>
    (\<forall>d doc. om_get (documents t) d = Some doc \<longrightarrow> document_ok t d doc
      \<and> control_logical_bytes t (\<lambda>x. x = d) \<le> MAX_DOCUMENT_CONTROL_BYTES)
    \<and> count_where (\<lambda>_ _. True) (capabilities t) \<le> MAX_GLOBAL_CAPABILITIES
    \<and> count_where (\<lambda>_ _. True) (control_receipts t) \<le> MAX_GLOBAL_CONTROL_RECEIPTS
    \<and> control_logical_bytes t (\<lambda>_. True) \<le> MAX_GLOBAL_CONTROL_BYTES"
proof -
  have "om_invar (documents t)" using assms(1) by (simp add: sorted_ok_def)
  then have "documents_loop t (documents t) = Inr () \<longleftrightarrow> (\<forall>d doc. om_get (documents t) d = Some doc \<longrightarrow>
      document_checked t d doc = Inr ())"
    by (simp add: documents_loop_iff Ball_def split_paired_All om.entries_get)
  then show ?thesis
    by (auto simp add: validate_capability_state_def ok_then_Inr_iff document_checked_iff [OF assms] not_less)
qed

lemma control_validation_iff:
  assumes "constraints_hold t"
  shows "validate_create_state t = Inr () \<and> validate_capability_state t = Inr () \<longleftrightarrow> control_ok t"
proof
  have sorted: "sorted_ok t" using assms by (simp add: constraints_hold_def primary_keys_hold_def sorted_ok_def)
  assume v: "validate_create_state t = Inr () \<and> validate_capability_state t = Inr ()"
  then show "control_ok t"
    using accepted_control_ok [OF assms]
    unfolding validate_capability_state_iff [OF sorted checks_op_rows [OF assms]] by blast
qed (use control_ok_creates control_ok_document control_bytes_within control_okD counts_okD
  in \<open>auto simp add: validate_capability_state_iff\<close>)

end
