(* ===== verification/Validate_Updates.thy ===== *)
theory Validate_Updates
  imports Validate_Control Store_History
begin

text \<open>
  What the check of the update tables decides.  The loop over the records in acceptance order
  succeeds exactly when its prefix condition holds of all of them, and leaves the positions,
  the peers and the number of ranges it has seen.
\<close>

section \<open>The loop over the ranges of one record\<close>

type_synonym stored_row = "(document_id \<times> update_id) \<times> update_row"

definition range_triple :: "loro_range \<Rightarrow> u64 \<times> u32 \<times> u32" where
  "range_triple r = (lr_peer_id r, lr_start_counter r, lr_end_counter r)"

definition peers_seen :: "(document_id \<times> u64) set \<Rightarrow> nat \<Rightarrow> update_check \<Rightarrow> bool" where
  "peers_seen P n st \<longleftrightarrow> om_invar (uc_expected_peers st) \<and> finite P
    \<and> (\<forall>k. om_contains (uc_expected_peers st) k \<longleftrightarrow> k \<in> P)
    \<and> (\<forall>d. entry_or_default (uc_expected_peer_counts st) d = card {p. (d, p) \<in> P})
    \<and> uc_expected_range_count st = n"

definition within_peers :: "(document_id \<times> u64) set \<Rightarrow> bool" where
  "within_peers P \<longleftrightarrow> (\<forall>d. card {p. (d, p) \<in> P} \<le> MAX_LORO_PEERS)"

lemma finite_document_peers: "finite P \<Longrightarrow> finite {p. (d, p) \<in> P}"
  by (rule finite_subset [of _ "snd ` P"]) force+

lemma within_mono: "within_peers Q \<Longrightarrow> finite Q \<Longrightarrow> P \<subseteq> Q \<Longrightarrow> within_peers P"
proof -
  assume w: "within_peers Q" "finite Q" "P \<subseteq> Q"
  then have "card {p. (d, p) \<in> P} \<le> card {p. (d, p) \<in> Q}" for d
    by (intro card_mono finite_document_peers) auto
  with w(1) show "within_peers P" unfolding within_peers_def using order_trans by blast
qed

lemma insert_peer_card:
  assumes "finite P" "(d, p) \<notin> P"
  shows "card {q. (x, q) \<in> insert (d, p) P} = (if x = d then Suc (card {q. (x, q) \<in> P}) else card {q. (x, q) \<in> P})"
proof (cases "x = d")
  case True
  then have "{q. (x, q) \<in> insert (d, p) P} = insert p {q. (x, q) \<in> P}" by auto
  moreover have "card (insert p {q. (x, q) \<in> P}) = Suc (card {q. (x, q) \<in> P})"
    using assms True by (intro card_insert_disjoint finite_document_peers) auto
  ultimately show ?thesis using True by simp
qed auto

lemma expect_peer_ok:
  assumes "peers_seen P n st" "within_peers P"
  shows "(\<exists>st'. expect_peer d p st = Inr st') \<longleftrightarrow> within_peers (insert (d, p) P)"
    "expect_peer d p st = Inr st' \<Longrightarrow> peers_seen (insert (d, p) P) n st' \<and> within_peers (insert (d, p) P)
      \<and> uc_next_sequences st' = uc_next_sequences st"
proof -
  note seen = assms(1) [unfolded peers_seen_def]
  have lim: "MAX_LORO_PEERS < 2 ^ 64" by (simp add: MAX_LORO_PEERS_def)
  have known: "expect_peer d p st = Inr st" "insert (d, p) P = P" if "(d, p) \<in> P"
    using that seen by (auto simp add: expect_peer_def)
  have fresh: "expect_peer d p st = Inr st' \<longleftrightarrow> card {q. (d, q) \<in> P} < MAX_LORO_PEERS
      \<and> st' = st\<lparr> uc_expected_peers := om_insert (d, p) () (uc_expected_peers st),
        uc_expected_peer_counts := om_insert d (card {q. (d, q) \<in> P} + 1) (uc_expected_peer_counts st) \<rparr>"
    if "(d, p) \<notin> P" for st'
    using that seen by (auto simp add: expect_peer_def ok_then_Inr_iff count_entry_Inr_iff [OF lim])
  have room: "card {q. (d, q) \<in> P} < MAX_LORO_PEERS \<longleftrightarrow> within_peers (insert (d, p) P)" if "(d, p) \<notin> P"
  proof -
    have "finite P" using seen by blast
    from insert_peer_card [OF this that] have "within_peers (insert (d, p) P) \<longleftrightarrow>
        (\<forall>x. (if x = d then Suc (card {q. (x, q) \<in> P}) else card {q. (x, q) \<in> P}) \<le> MAX_LORO_PEERS)"
      unfolding within_peers_def by simp
    then show ?thesis using assms(2) by (auto simp add: within_peers_def)
  qed
  show "(\<exists>st'. expect_peer d p st = Inr st') \<longleftrightarrow> within_peers (insert (d, p) P)"
  proof (cases "(d, p) \<in> P")
    case True
    then show ?thesis using known assms(2) by auto
  next
    case False
    then show ?thesis using fresh room by auto
  qed
  show "peers_seen (insert (d, p) P) n st' \<and> within_peers (insert (d, p) P)
      \<and> uc_next_sequences st' = uc_next_sequences st" if e: "expect_peer d p st = Inr st'"
  proof (cases "(d, p) \<in> P")
    case True
    then show ?thesis using known e assms by auto
  next
    case False
    then have st': "st' = st\<lparr> uc_expected_peers := om_insert (d, p) () (uc_expected_peers st),
        uc_expected_peer_counts := om_insert d (card {q. (d, q) \<in> P} + 1) (uc_expected_peer_counts st) \<rparr>"
      "within_peers (insert (d, p) P)"
      using fresh e room by auto
    have "peers_seen (insert (d, p) P) n st'"
      unfolding peers_seen_def st'(1)
      using seen insert_peer_card [OF _ False] by (auto simp add: om_contains_def entry_insert)
    with st' show ?thesis by simp
  qed
qed

definition peers_in :: "document_id \<Rightarrow> loro_range list \<Rightarrow> (document_id \<times> u64) set" where
  "peers_in d rs = (\<lambda>r. (d, lr_peer_id r)) ` set rs"

lemma peers_in_Cons: "P \<union> peers_in d (r # rs) = insert (d, lr_peer_id r) P \<union> peers_in d rs"
  by (auto simp add: peers_in_def)

lemma peers_in_Nil [simp]: "peers_in d [] = {}"
  by (simp add: peers_in_def)

lemma peers_seen_count: "peers_seen P n st \<Longrightarrow> peers_seen P m (st\<lparr> uc_expected_range_count := m \<rparr>)"
  by (simp add: peers_seen_def)

lemma range_rows_loop_ok:
  assumes "peers_seen P n st" "within_peers P" "n < 2 ^ 64"
  shows "(\<exists>st'. range_rows_loop d rs rows st = Inr st') \<longleftrightarrow> rows = map range_triple rs
      \<and> within_peers (P \<union> peers_in d rs) \<and> n + length rs < 2 ^ 64"
    and "range_rows_loop d rs rows st = Inr st' \<Longrightarrow> peers_seen (P \<union> peers_in d rs) (n + length rs) st'
      \<and> uc_next_sequences st' = uc_next_sequences st"
  using assms
proof (induction rs arbitrary: P n st rows)
  case Nil
  {
    case 1
    then show ?case by auto
  next
    case 2
    then show ?case by (auto split: if_splits)
  }
next
  case (Cons r rs)
  have count: "uc_expected_range_count st = n" if "peers_seen P n st" for P n st
    using that by (simp add: peers_seen_def)
  have unfold: "range_rows_loop d (r # rs) rows st = Inr st' \<longleftrightarrow> (\<exists>rows' st1. rows = range_triple r # rows'
      \<and> n + 1 < 2 ^ 64 \<and> expect_peer d (lr_peer_id r) (st\<lparr> uc_expected_range_count := n + 1 \<rparr>) = Inr st1
      \<and> range_rows_loop d rs rows' st1 = Inr st')"
    if "peers_seen P n st" for P n st rows st'
    using count [OF that]
    by (cases rows) (auto simp add: range_triple_def ok_then_Inr_iff count_up_Inr_iff range_disagrees_def)
  {
    case 1
    let ?st = "st\<lparr> uc_expected_range_count := n + 1 \<rparr>"
    have seen: "peers_seen P (n + 1) ?st" using peers_seen_count [OF 1(1)] .
    note step = expect_peer_ok [OF seen 1(2), of d "lr_peer_id r"]
    have sub: "within_peers (P \<union> peers_in d (r # rs)) \<Longrightarrow> within_peers (insert (d, lr_peer_id r) P)"
      using within_mono [of "P \<union> peers_in d (r # rs)" "insert (d, lr_peer_id r) P"] 1(1)
      by (auto simp add: peers_in_def peers_seen_def)
    show ?case
    proof
      assume "\<exists>st'. range_rows_loop d (r # rs) rows st = Inr st'"
      then obtain rows' st1 st' where st1: "rows = range_triple r # rows'" "n + 1 < 2 ^ 64"
        "expect_peer d (lr_peer_id r) ?st = Inr st1" "range_rows_loop d rs rows' st1 = Inr st'"
        unfolding unfold [OF 1(1)] by blast
      have s1: "peers_seen (insert (d, lr_peer_id r) P) (n + 1) st1" "within_peers (insert (d, lr_peer_id r) P)"
        using step(2) [OF st1(3)] by blast+
      from Cons.IH(1) [OF s1 st1(2), of rows'] st1(4) show "rows = map range_triple (r # rs)
          \<and> within_peers (P \<union> peers_in d (r # rs)) \<and> n + length (r # rs) < 2 ^ 64"
        unfolding peers_in_Cons using st1(1) by auto
    next
      assume r: "rows = map range_triple (r # rs) \<and> within_peers (P \<union> peers_in d (r # rs))
        \<and> n + length (r # rs) < 2 ^ 64"
      then obtain st1 where st1: "expect_peer d (lr_peer_id r) ?st = Inr st1" using step(1) sub by blast
      have n1: "n + 1 < 2 ^ 64" using r by simp
      have s1: "peers_seen (insert (d, lr_peer_id r) P) (n + 1) st1" "within_peers (insert (d, lr_peer_id r) P)"
        using step(2) [OF st1] by blast+
      from Cons.IH(1) [OF s1 n1, of "map range_triple rs"] r
      obtain st' where "range_rows_loop d rs (map range_triple rs) st1 = Inr st'"
        unfolding peers_in_Cons by auto
      with st1 n1 r show "\<exists>st'. range_rows_loop d (r # rs) rows st = Inr st'" unfolding unfold [OF 1(1)] by auto
    qed
  next
    case 2
    let ?st = "st\<lparr> uc_expected_range_count := n + 1 \<rparr>"
    have seen: "peers_seen P (n + 1) ?st" using peers_seen_count [OF 2(2)] .
    obtain rows' st1 where st1: "n + 1 < 2 ^ 64"
      "expect_peer d (lr_peer_id r) ?st = Inr st1" "range_rows_loop d rs rows' st1 = Inr st'"
      using 2(1) unfolding unfold [OF 2(2)] by blast
    have s1: "peers_seen (insert (d, lr_peer_id r) P) (n + 1) st1" "within_peers (insert (d, lr_peer_id r) P)"
      "uc_next_sequences st1 = uc_next_sequences ?st"
      using expect_peer_ok(2) [OF seen 2(3) st1(2)] by blast+
    from Cons.IH(2) [OF st1(3) s1(1,2) st1(1)] s1(3) show ?case unfolding peers_in_Cons by simp
  }
qed

section \<open>The loop over the records\<close>

definition row_ranges :: "stored_row \<Rightarrow> loro_range list" where
  "row_ranges r = (case decode_update_record (ur_encoded_record (snd r)) of
     Inr update \<Rightarrow> iu_public_loro_ranges update | Inl _ \<Rightarrow> [])"

definition row_good :: "tables \<Rightarrow> stored_row \<Rightarrow> bool" where
  "row_good t r \<longleftrightarrow> (\<exists>update. decode_update_record (ur_encoded_record (snd r)) = Inr update
    \<and> iu_document_id update = fst (fst r) \<and> iu_update_id update = snd (fst r))
    \<and> range_rows_of t (fst (fst r)) (snd (fst r)) = map range_triple (row_ranges r)"

definition rows_peers :: "stored_row list \<Rightarrow> (document_id \<times> u64) set" where
  "rows_peers rs = (\<Union>r \<in> set rs. peers_in (fst (fst r)) (row_ranges r))"

definition range_total :: "stored_row list \<Rightarrow> nat" where
  "range_total rs = sum_list (map (length \<circ> row_ranges) rs)"

definition of_document :: "document_id \<Rightarrow> stored_row list \<Rightarrow> stored_row list" where
  "of_document d rs = filter (\<lambda>r. fst (fst r) = d) rs"

definition positions_of :: "document_id \<Rightarrow> stored_row list \<Rightarrow> nat list" where
  "positions_of d rs = map (\<lambda>r. unat (ur_acceptance_sequence (snd r))) (of_document d rs)"

definition contiguous :: "stored_row list \<Rightarrow> bool" where
  "contiguous rs \<longleftrightarrow> (\<forall>d. positions_of d rs = [1..<Suc (length (of_document d rs))]
    \<and> Suc (length (of_document d rs)) < 2 ^ 64)"

definition rows_ok :: "tables \<Rightarrow> stored_row list \<Rightarrow> bool" where
  "rows_ok t rs \<longleftrightarrow> (\<forall>r \<in> set rs. row_good t r) \<and> contiguous rs \<and> within_peers (rows_peers rs)
    \<and> range_total rs < 2 ^ 64"

definition rows_seen :: "stored_row list \<Rightarrow> update_check \<Rightarrow> bool" where
  "rows_seen rs st \<longleftrightarrow> peers_seen (rows_peers rs) (range_total rs) st \<and> om_invar (uc_next_sequences st)
    \<and> (\<forall>d. om_get (uc_next_sequences st) d = (if of_document d rs = [] then None
        else Some (word_of_nat (Suc (length (of_document d rs))))))"

lemma rows_snoc:
  "rows_peers (rs @ [r]) = rows_peers rs \<union> peers_in (fst (fst r)) (row_ranges r)"
  "range_total (rs @ [r]) = range_total rs + length (row_ranges r)"
  "of_document d (rs @ [r]) = of_document d rs @ (if fst (fst r) = d then [r] else [])"
  "positions_of d (rs @ [r]) = positions_of d rs @
    (if fst (fst r) = d then [unat (ur_acceptance_sequence (snd r))] else [])"
  by (auto simp add: rows_peers_def range_total_def of_document_def positions_of_def)

lemma contiguous_snoc:
  "contiguous (rs @ [r]) \<longleftrightarrow> contiguous rs
    \<and> unat (ur_acceptance_sequence (snd r)) = Suc (length (of_document (fst (fst r)) rs))
    \<and> Suc (Suc (length (of_document (fst (fst r)) rs))) < 2 ^ 64"
proof -
  let ?n = "\<lambda>d. length (of_document d rs)"
  have up: "[Suc 0..<Suc (Suc n)] = [Suc 0..<Suc n] @ [Suc n]" for n by (rule upt_Suc_append) simp
  have each: "positions_of d (rs @ [r]) = [1..<Suc (length (of_document d (rs @ [r])))]
        \<and> Suc (length (of_document d (rs @ [r]))) < 2 ^ 64 \<longleftrightarrow>
      (positions_of d rs = [1..<Suc (?n d)] \<and> Suc (?n d) < 2 ^ 64)
      \<and> (fst (fst r) = d \<longrightarrow> unat (ur_acceptance_sequence (snd r)) = Suc (?n d) \<and> Suc (Suc (?n d)) < 2 ^ 64)" for d
    by (cases "fst (fst r) = d") (auto simp add: rows_snoc up simp del: upt_Suc)
  show ?thesis unfolding contiguous_def each by blast
qed

lemma contiguous_prefix: "contiguous (rs @ ss) \<Longrightarrow> contiguous rs"
proof (induction ss rule: rev_induct)
  case (snoc s ss)
  then show ?case using contiguous_snoc [of "rs @ ss" s] by simp
qed simp

lemma finite_rows_peers: "finite (rows_peers rs)"
  by (simp add: rows_peers_def peers_in_def)

lemma rows_ok_prefix:
  assumes "rows_ok t (rs @ ss)"
  shows "rows_ok t rs"
proof -
  have "within_peers (rows_peers rs)"
    using within_mono [of "rows_peers (rs @ ss)" "rows_peers rs"] assms finite_rows_peers
    by (auto simp add: rows_ok_def rows_peers_def)
  moreover have "range_total rs \<le> range_total (rs @ ss)" by (simp add: range_total_def)
  ultimately show ?thesis using assms contiguous_prefix unfolding rows_ok_def by auto
qed

lemma rows_ok_snoc:
  assumes "rows_ok t rs"
  shows "rows_ok t (rs @ [r]) \<longleftrightarrow> row_good t r
    \<and> unat (ur_acceptance_sequence (snd r)) = Suc (length (of_document (fst (fst r)) rs))
    \<and> Suc (Suc (length (of_document (fst (fst r)) rs))) < 2 ^ 64
    \<and> within_peers (rows_peers rs \<union> peers_in (fst (fst r)) (row_ranges r))
    \<and> range_total rs + length (row_ranges r) < 2 ^ 64"
  using assms unfolding rows_ok_def contiguous_snoc rows_snoc by auto

lemma checked_next_of: "checked_next s = (if Suc (unat s) < 2 ^ 64 then Some (word_of_nat (Suc (unat s))) else None)"
proof (cases "checked_next s")
  case None
  then have "s = - 1" by (simp add: checked_next_None_iff)
  then have "unat s = 2 ^ 64 - 1" by (simp add: unsigned_minus_1_eq_mask mask_eq_exp_minus_1)
  then show ?thesis using None by simp
next
  case (Some f)
  then have "unat f = Suc (unat s)" by (rule checked_next_unat)
  moreover have "f = word_of_nat (unat f)" by simp
  ultimately have "Suc (unat s) < 2 ^ 64" "f = word_of_nat (Suc (unat s))"
    using unsigned_less [of f, where 'a = nat] by simp_all
  then show ?thesis using Some by simp
qed

lemma update_checked_unfold:
  "update_checked t d u row st = Inr st' \<longleftrightarrow>
    ur_acceptance_sequence row \<noteq> ORIGIN
    \<and> ur_acceptance_sequence row = (case om_get (uc_next_sequences st) d of None \<Rightarrow> FIRST | Some s \<Rightarrow> s)
    \<and> (\<exists>f update. checked_next (ur_acceptance_sequence row) = Some f
      \<and> decode_update_record (ur_encoded_record row) = Inr update
      \<and> iu_document_id update = d \<and> iu_update_id update = u
      \<and> range_rows_loop d (iu_public_loro_ranges update) (range_rows_of t d u)
        (st\<lparr> uc_next_sequences := om_insert d f (uc_next_sequences st) \<rparr>) = Inr st')"
  by (auto simp add: update_checked_def Let_def ok_then_Inr_iff)

lemma rows_seen_expected:
  assumes "rows_seen rs st" "contiguous rs"
  shows "s \<noteq> ORIGIN \<and> s = (case om_get (uc_next_sequences st) d of None \<Rightarrow> FIRST | Some s \<Rightarrow> s)
    \<longleftrightarrow> unat s = Suc (length (of_document d rs))"
proof -
  let ?n = "length (of_document d rs)"
  have small: "Suc ?n < 2 ^ 64" using assms(2) by (simp add: contiguous_def)
  then have u: "unat (word_of_nat (Suc ?n) :: u64) = Suc ?n"
    by (simp add: unat_of_nat del: of_nat_Suc)
  have "(case om_get (uc_next_sequences st) d of None \<Rightarrow> FIRST | Some s \<Rightarrow> s) = word_of_nat (Suc ?n)"
    using assms(1) by (simp add: rows_seen_def FIRST_def)
  then show ?thesis using u by (auto simp add: ORIGIN_def word_unat_eq_iff simp del: of_nat_Suc)
qed

lemma update_checked_ok:
  assumes seen: "rows_seen rs st" and ok: "rows_ok t rs"
  shows "(\<exists>st'. update_checked t d u row st = Inr st') \<longleftrightarrow> rows_ok t (rs @ [((d, u), row)])"
    and "update_checked t d u row st = Inr st' \<Longrightarrow> rows_seen (rs @ [((d, u), row)]) st'"
proof -
  let ?r = "((d, u), row)" and ?s = "ur_acceptance_sequence row" and ?n = "length (of_document d rs)"
  let ?st = "\<lambda>f. st\<lparr> uc_next_sequences := om_insert d f (uc_next_sequences st) \<rparr>"
  have con: "contiguous rs" and within: "within_peers (rows_peers rs)" and total: "range_total rs < 2 ^ 64"
    using ok by (simp_all add: rows_ok_def)
  have ps: "peers_seen (rows_peers rs) (range_total rs) (?st f)" for f
    using seen by (simp add: rows_seen_def peers_seen_def)
  note loop = range_rows_loop_ok [OF ps within total]
  have run: "update_checked t d u row st = Inr st' \<longleftrightarrow> unat ?s = Suc ?n \<and> Suc (Suc ?n) < 2 ^ 64
      \<and> (\<exists>update. decode_update_record (ur_encoded_record row) = Inr update
        \<and> iu_document_id update = d \<and> iu_update_id update = u)
      \<and> range_rows_loop d (row_ranges ?r) (range_rows_of t d u) (?st (word_of_nat (Suc (Suc ?n)))) = Inr st'" for st'
    using rows_seen_expected [OF seen con, of ?s d]
    unfolding update_checked_unfold checked_next_of
    by (auto simp add: row_ranges_def simp del: of_nat_Suc)
  show "(\<exists>st'. update_checked t d u row st = Inr st') \<longleftrightarrow> rows_ok t (rs @ [?r])"
    unfolding run rows_ok_snoc [OF ok] row_good_def
    using loop(1) [of d "row_ranges ?r" "range_rows_of t d u"] by auto
  show "rows_seen (rs @ [?r]) st'" if u: "update_checked t d u row st = Inr st'"
  proof -
    have "peers_seen (rows_peers rs \<union> peers_in d (row_ranges ?r)) (range_total rs + length (row_ranges ?r)) st'"
      "uc_next_sequences st' = om_insert d (word_of_nat (Suc (Suc ?n))) (uc_next_sequences st)"
      using u loop(2) unfolding run by force+
    then show ?thesis
      using seen unfolding rows_seen_def rows_snoc by (simp del: of_nat_Suc)
  qed
qed

lemma updates_loop_ok:
  assumes "rows_seen rs st" "rows_ok t rs"
  shows "(\<exists>st'. updates_loop t rows st = Inr st') \<longleftrightarrow> rows_ok t (rs @ rows)"
    and "updates_loop t rows st = Inr st' \<Longrightarrow> rows_seen (rs @ rows) st'"
  using assms
proof (induction rows arbitrary: rs st)
  case Nil
  {
    case 1
    then show ?case by simp
  next
    case 2
    then show ?case by simp
  }
next
  case (Cons r rows)
  obtain d u row where r: "r = ((d, u), row)" by (metis surj_pair)
  {
    case 1
    note step = update_checked_ok [OF 1]
    show ?case
    proof (cases "update_checked t d u row st")
      case (Inl e)
      then have "\<not> rows_ok t (rs @ [r])" using step(1) [of d u row] r by simp
      then have "\<not> rows_ok t ((rs @ [r]) @ rows)" using rows_ok_prefix by blast
      with Inl show ?thesis by (simp add: r)
    next
      case (Inr st1)
      then have "rows_seen (rs @ [r]) st1" "rows_ok t (rs @ [r])"
        using step(1) [of d u row] step(2) [OF Inr] r by auto
      from Cons.IH(1) [OF this] Inr show ?thesis by (simp add: r)
    qed
  next
    case 2
    note step = update_checked_ok [OF 2(2,3)]
    from 2(1) obtain st1 where st1: "update_checked t d u row st = Inr st1" "updates_loop t rows st1 = Inr st'"
      by (auto simp add: r ok_then_Inr_iff)
    then have "rows_seen (rs @ [r]) st1" "rows_ok t (rs @ [r])"
      using step(1) [of d u row] step(2) [OF st1(1)] r by auto
    from Cons.IH(2) [OF st1(2) this] show ?case by simp
  }
qed

lemma empty_seen: "rows_seen [] empty_check" "rows_ok t []"
  by (simp_all add: rows_seen_def peers_seen_def empty_check_def rows_peers_def range_total_def
      of_document_def om_contains_def rows_ok_def contiguous_def positions_of_def within_peers_def)

section \<open>The whole check\<close>

lemma peers_loop_iff: "peers_loop expected rows = Inr () \<longleftrightarrow> expected = rows"
  by (induction expected rows rule: peers_loop.induct) (auto split: list.split)

lemma next_sequences_loop_iff: "next_sequences_loop t xs = Inr () \<longleftrightarrow>
    (\<forall>(d, n) \<in> set xs. om_get (document_acceptance_sequences t) d = Some n)"
  by (induction t xs rule: next_sequences_loop.induct) (auto split: option.split)

lemma om_keys_eq_iff:
  assumes "om_invar m" "om_invar m'"
  shows "map fst m = map fst m' \<longleftrightarrow> (\<forall>k. om_contains m k \<longleftrightarrow> om_contains m' k)"
proof
  assume "map fst m = map fst m'"
  then show "\<forall>k. om_contains m k \<longleftrightarrow> om_contains m' k"
    unfolding om_contains_iff by (metis set_map)
next
  assume "\<forall>k. om_contains m k \<longleftrightarrow> om_contains m' k"
  then have "set (map fst m) = set (map fst m')" by (auto simp add: om_contains_iff)
  moreover have "sorted_wrt (<) (map fst m)" "sorted_wrt (<) (map fst m')"
    using assms by (simp_all add: om_invar_def)
  ultimately show "map fst m = map fst m'" by (metis strict_sorted_equal)
qed

definition counters_follow :: "tables \<Rightarrow> bool" where
  "counters_follow t \<longleftrightarrow> (\<forall>d. of_document d (updates_in_order t) \<noteq> [] \<longrightarrow>
    om_get (document_acceptance_sequences t) d
      = Some (word_of_nat (Suc (length (of_document d (updates_in_order t))))))"

lemma validate_updates_iff:
  assumes "om_invar (document_loro_peers t)"
  shows "validate_updates t = Inr () \<longleftrightarrow> rows_ok t (updates_in_order t)
    \<and> length (update_loro_ranges t) = range_total (updates_in_order t)
    \<and> (\<forall>k. om_contains (document_loro_peers t) k \<longleftrightarrow> k \<in> rows_peers (updates_in_order t))
    \<and> counters_follow t"
proof -
  note loop = updates_loop_ok [OF empty_seen, simplified]
  have rest: "(if count_where (\<lambda>_ _. True) (update_loro_ranges t) \<noteq> uc_expected_range_count st
      then Inl range_disagrees
      else ok_then (peers_loop (map fst (uc_expected_peers st)) (map fst (document_loro_peers t)))
        (\<lambda>_. next_sequences_loop t (uc_next_sequences st))) = Inr () \<longleftrightarrow>
      length (update_loro_ranges t) = range_total (updates_in_order t)
      \<and> (\<forall>k. om_contains (document_loro_peers t) k \<longleftrightarrow> k \<in> rows_peers (updates_in_order t))
      \<and> counters_follow t"
    if st: "updates_loop t (updates_in_order t) empty_check = Inr st" for st
  proof -
    note seen = loop(2) [OF st, unfolded rows_seen_def peers_seen_def]
    have "uc_expected_range_count st = range_total (updates_in_order t)" using seen by blast
    moreover have "map fst (uc_expected_peers st) = map fst (document_loro_peers t) \<longleftrightarrow>
        (\<forall>k. om_contains (document_loro_peers t) k \<longleftrightarrow> k \<in> rows_peers (updates_in_order t))"
      using seen om_keys_eq_iff [OF _ assms] by metis
    moreover have "next_sequences_loop t (uc_next_sequences st) = Inr () \<longleftrightarrow> counters_follow t"
    proof -
      have "next_sequences_loop t (uc_next_sequences st) = Inr () \<longleftrightarrow>
          (\<forall>d n. om_get (uc_next_sequences st) d = Some n \<longrightarrow> om_get (document_acceptance_sequences t) d = Some n)"
        using seen by (simp add: next_sequences_loop_iff Ball_def split_paired_All om.entries_get)
      moreover have "om_get (uc_next_sequences st) d = (if of_document d (updates_in_order t) = [] then None
          else Some (word_of_nat (Suc (length (of_document d (updates_in_order t))))))" for d
        using seen by blast
      ultimately show ?thesis by (simp add: counters_follow_def del: of_nat_Suc)
    qed
    ultimately show ?thesis
      by (auto simp add: ok_then_Inr_iff peers_loop_iff count_where_def)
  qed
  show ?thesis
    unfolding validate_updates_def ok_then_Inr_iff using loop(1) [of t "updates_in_order t"] rest by blast
qed

section \<open>What the accepted update tables say\<close>

definition row_consistent :: "tables \<Rightarrow> document_id \<Rightarrow> update_id \<Rightarrow> update_row \<Rightarrow> bool" where
  "row_consistent t d u row \<longleftrightarrow> (\<exists>update. decode_update_record (ur_encoded_record row) = Inr update
    \<and> iu_document_id update = d \<and> iu_update_id update = u
    \<and> (\<forall>p. om_get (update_loro_ranges t) (d, u, p) = range_of update p))"

definition sequences_in :: "tables \<Rightarrow> document_id \<Rightarrow> acceptance_sequence set" where
  "sequences_in t d = {q. \<exists>u row. om_get (updates t) (d, u) = Some row \<and> ur_acceptance_sequence row = q}"

definition peers_named :: "tables \<Rightarrow> document_id \<Rightarrow> u64 set" where
  "peers_named t d = {p. \<exists>u row. om_get (updates t) (d, u) = Some row
    \<and> p \<in> lr_peer_id ` set (row_ranges ((d, u), row))}"

definition update_state_ok :: "tables \<Rightarrow> bool" where
  "update_state_ok t \<longleftrightarrow>
    (\<forall>d u row. om_get (updates t) (d, u) = Some row \<longrightarrow> row_consistent t d u row)
    \<and> (\<forall>d. sequences_in t d \<noteq> {} \<longrightarrow> (\<exists>n. om_get (document_acceptance_sequences t) d = Some n
        \<and> sequences_in t d = {q. 1 \<le> q \<and> q < n}))
    \<and> (\<forall>d. {p. om_contains (document_loro_peers t) (d, p)} = peers_named t d
        \<and> card (peers_named t d) \<le> MAX_LORO_PEERS)"

text \<open>The rows of the range index and the ranges of a record are both maps in peer order.\<close>

lemma range_rows_omap:
  assumes "om_invar (update_loro_ranges t)"
  shows "om_invar (range_rows_of t d u)"
    and "om_get (range_rows_of t d u) p = om_get (update_loro_ranges t) (d, u, p)"
proof -
  let ?m = "om_range (\<lambda>(d', u', _). d' = d \<and> u' = u) (update_loro_ranges t)"
  have inv: "om_invar ?m" using assms by simp
  then have "sorted_wrt (\<lambda>r r'. fst r < fst r') ?m" by (simp add: om_invar_def sorted_wrt_map)
  then have "sorted_wrt (\<lambda>r r'. snd (snd (fst r)) < snd (snd (fst r'))) ?m"
    by (rule sorted_wrt_mono_rel [rotated]) auto
  then show i: "om_invar (range_rows_of t d u)"
    by (simp add: om_invar_def range_rows_of_def sorted_wrt_map split_def comp_def)
  have mem: "(p, v) \<in> set (range_rows_of t d u) \<longleftrightarrow> ((d, u, p), v) \<in> set (update_loro_ranges t)" for v
    unfolding range_rows_of_def
    by (auto simp add: image_iff intro!: bexI [of _ "((d, u, p), v)"])
  then show "om_get (range_rows_of t d u) p = om_get (update_loro_ranges t) (d, u, p)"
    unfolding om.entries_get [OF i] om.entries_get [OF assms]
    by (metis not_None_eq)
qed

lemma triples_omap:
  assumes "public_ranges_ok rs"
  shows "om_invar (map range_triple rs)"
    and "om_get (map range_triple rs) p = map_option (\<lambda>r. (lr_start_counter r, lr_end_counter r))
      (List.find (\<lambda>r. lr_peer_id r = p) rs)"
proof -
  show "om_invar (map range_triple rs)"
    using assms by (simp add: om_invar_def public_ranges_ok_def range_triple_def comp_def)
  show "om_get (map range_triple rs) p = map_option (\<lambda>r. (lr_start_counter r, lr_end_counter r))
      (List.find (\<lambda>r. lr_peer_id r = p) rs)"
    by (induction rs) (auto simp add: om_get_def range_triple_def)
qed

lemma row_good_iff:
  assumes "om_invar (update_loro_ranges t)"
  shows "row_good t ((d, u), row) \<longleftrightarrow> row_consistent t d u row"
proof (cases "decode_update_record (ur_encoded_record row)")
  case (Inl e)
  then show ?thesis by (simp add: row_good_def row_consistent_def)
next
  case (Inr update)
  then have ok: "public_ranges_ok (iu_public_loro_ranges update)"
    using decoded_canonical by (simp add: canonical_update_def)
  have "range_rows_of t d u = map range_triple (iu_public_loro_ranges update) \<longleftrightarrow>
      (\<forall>p. om_get (range_rows_of t d u) p = om_get (map range_triple (iu_public_loro_ranges update)) p)"
    using om.entries_ext [OF range_rows_omap(1) [OF assms] triples_omap(1) [OF ok]] by metis
  then show ?thesis
    using Inr by (auto simp add: row_good_def row_consistent_def row_ranges_def range_rows_omap(2) [OF assms]
        triples_omap(2) [OF ok] range_of_def)
qed

section \<open>Positions\<close>

lemma in_order_set: "set (updates_in_order t) = set (updates t)"
  by (simp add: updates_in_order_def)

lemma positions_strict:
  assumes "update_checks t"
  shows "sorted_wrt (<) (positions_of d (updates_in_order t))"
proof -
  let ?key = "\<lambda>r :: stored_row. (fst (fst r), ur_acceptance_sequence (snd r))"
  have key: "(\<lambda>((d, _), row). (d, ur_acceptance_sequence row)) = ?key" by (auto simp add: fun_eq_iff)
  have "distinct (map ?key (updates_in_order t))"
    using assms unfolding update_checks_def updates_in_order_def key distinct_map
    by (simp add: distinct_sort)
  moreover have "sorted (map ?key (updates_in_order t))"
    unfolding updates_in_order_def key by (rule sorted_sort_key)
  ultimately have "sorted_wrt (<) (map ?key (updates_in_order t))" by (simp add: strict_sorted_iff)
  then have "sorted_wrt (\<lambda>r r'. ?key r < ?key r') (of_document d (updates_in_order t))"
    unfolding of_document_def sorted_wrt_map by (rule sorted_wrt_filter)
  then have "sorted_wrt (\<lambda>r r'. unat (ur_acceptance_sequence (snd r)) < unat (ur_acceptance_sequence (snd r')))
      (of_document d (updates_in_order t))"
    by (rule sorted_wrt_mono_rel [rotated]) (auto simp add: of_document_def word_less_nat_alt)
  then show ?thesis by (simp add: positions_of_def sorted_wrt_map)
qed

lemma positions_set:
  assumes "om_invar (updates t)"
  shows "set (positions_of d (updates_in_order t)) = unat ` sequences_in t d"
proof -
  have "set (positions_of d (updates_in_order t)) = unat ` {q. \<exists>u row. ((d, u), row) \<in> set (updates t)
      \<and> ur_acceptance_sequence row = q}"
    unfolding positions_of_def of_document_def set_map set_filter in_order_set by force
  then show ?thesis by (simp add: sequences_in_def om.entries_get [OF assms])
qed

lemma unat_below: "unat ` {q :: u64. 1 \<le> q \<and> q < n} = {1..<unat n}"
proof (intro subset_antisym subsetI)
  fix k
  assume k: "k \<in> {1..<unat n}"
  then have "unat (word_of_nat k :: u64) = k"
    using unat_of_nat_u64 [of k n] by simp
  with k show "k \<in> unat ` {q :: u64. 1 \<le> q \<and> q < n}"
    by (intro image_eqI [of _ _ "word_of_nat k"]) (auto simp add: word_less_nat_alt word_le_nat_alt)
qed (auto simp add: word_less_nat_alt word_le_nat_alt)

lemma contiguous_iff:
  assumes "update_checks t" "om_invar (updates t)"
  shows "contiguous (updates_in_order t) \<and> counters_follow t \<longleftrightarrow>
    (\<forall>d. sequences_in t d \<noteq> {} \<longrightarrow> (\<exists>n. om_get (document_acceptance_sequences t) d = Some n
      \<and> sequences_in t d = {q. 1 \<le> q \<and> q < n}))"
proof -
  let ?rs = "\<lambda>d. of_document d (updates_in_order t)" and ?P = "\<lambda>d. positions_of d (updates_in_order t)"
  have len: "length (?P d) = length (?rs d)" for d by (simp add: positions_of_def)
  have empty: "?rs d = [] \<longleftrightarrow> sequences_in t d = {}" for d
    using positions_set [OF assms(2), of d] len [of d] by (metis image_is_empty length_0_conv set_empty)
  have each: "?P d = [1..<Suc (length (?rs d))] \<and> Suc (length (?rs d)) < 2 ^ 64
      \<and> (?rs d \<noteq> [] \<longrightarrow> om_get (document_acceptance_sequences t) d = Some (word_of_nat (Suc (length (?rs d)))))
    \<longleftrightarrow> (sequences_in t d \<noteq> {} \<longrightarrow> (\<exists>n. om_get (document_acceptance_sequences t) d = Some n
      \<and> sequences_in t d = {q. 1 \<le> q \<and> q < n}))" for d
  proof (cases "?rs d = []")
    case True
    then show ?thesis using empty [of d] len [of d] by simp
  next
    case False
    let ?n = "word_of_nat (Suc (length (?rs d))) :: u64"
    have inj: "sequences_in t d = Q \<longleftrightarrow> set (?P d) = unat ` Q" for Q
      unfolding positions_set [OF assms(2)] by (metis inj_image_eq_iff inj_on_def word_unat_eq_iff)
    show ?thesis
    proof
      assume l: "?P d = [1..<Suc (length (?rs d))] \<and> Suc (length (?rs d)) < 2 ^ 64
        \<and> (?rs d \<noteq> [] \<longrightarrow> om_get (document_acceptance_sequences t) d = Some ?n)"
      then have "unat ?n = Suc (length (?rs d))" by (simp add: unat_of_nat del: of_nat_Suc)
      then have "sequences_in t d = {q. 1 \<le> q \<and> q < ?n}"
        unfolding inj unat_below using l by (simp del: of_nat_Suc upt_Suc)
      then show "sequences_in t d \<noteq> {} \<longrightarrow> (\<exists>n. om_get (document_acceptance_sequences t) d = Some n
          \<and> sequences_in t d = {q. 1 \<le> q \<and> q < n})"
        using l False by blast
    next
      assume "sequences_in t d \<noteq> {} \<longrightarrow> (\<exists>n. om_get (document_acceptance_sequences t) d = Some n
          \<and> sequences_in t d = {q. 1 \<le> q \<and> q < n})"
      then obtain n where n: "om_get (document_acceptance_sequences t) d = Some n"
        "sequences_in t d = {q. 1 \<le> q \<and> q < n}"
        using False empty by blast
      have "set (?P d) = {1..<unat n}" using n(2) unfolding inj unat_below .
      then have P: "?P d = [1..<unat n]"
        using positions_strict [OF assms(1), of d] by (intro strict_sorted_equal) (auto simp add: strict_sorted_iff)
      then have "length (?rs d) = unat n - 1" using len [of d] by simp
      moreover have "0 < length (?rs d)" using False by simp
      ultimately have u: "unat n = Suc (length (?rs d))" by simp
      moreover have "n = word_of_nat (unat n)" by simp
      moreover have "unat n < 2 ^ 64" using unsigned_less [of n, where 'a = nat] by simp
      ultimately show "?P d = [1..<Suc (length (?rs d))] \<and> Suc (length (?rs d)) < 2 ^ 64
        \<and> (?rs d \<noteq> [] \<longrightarrow> om_get (document_acceptance_sequences t) d = Some ?n)"
        using n(1) P by (metis)
    qed
  qed
  show ?thesis unfolding contiguous_def counters_follow_def using each by blast
qed

section \<open>The range index and the peers\<close>

lemma sum_over_keys:
  assumes "distinct ks" "\<forall>x \<in> set xs. f x \<in> set ks"
  shows "sum_list (map (\<lambda>k. length (filter (\<lambda>x. f x = k) xs)) ks) = length xs"
  using assms(2)
proof (induction xs)
  case (Cons x xs)
  have "sum_list (map (\<lambda>k. length (filter (\<lambda>x. f x = k) (x # xs))) ks)
      = (\<Sum>k \<in> set ks. (if k = f x then 1 else 0) + length (filter (\<lambda>x. f x = k) xs))"
    unfolding sum_list_distinct_conv_sum_set [OF assms(1)] by (intro sum.cong) auto
  also have "\<dots> = (\<Sum>k \<in> set ks. if k = f x then 1 else 0)
      + sum_list (map (\<lambda>k. length (filter (\<lambda>x. f x = k) xs)) ks)"
    unfolding sum_list_distinct_conv_sum_set [OF assms(1)] by (rule sum.distrib)
  finally show ?case using Cons by simp
qed (induction ks; simp)

lemma range_total_all:
  assumes "constraints_hold t" "\<forall>r \<in> set (updates_in_order t). row_good t r"
  shows "range_total (updates_in_order t) = length (update_loro_ranges t)"
proof -
  let ?f = "\<lambda>x :: (document_id \<times> update_id \<times> u64) \<times> (u32 \<times> u32). (fst (fst x), fst (snd (fst x)))"
  let ?ks = "map fst (updates_in_order t)"
  have inv: "om_invar (updates t)" and fk: "update_foreign_keys t"
    using assms(1) by (simp_all add: constraints_hold_def primary_keys_hold_def)
  have each: "length (row_ranges r) = length (filter (\<lambda>x. ?f x = fst r) (update_loro_ranges t))"
    if "r \<in> set (updates_in_order t)" for r
  proof -
    have "length (row_ranges r) = length (range_rows_of t (fst (fst r)) (snd (fst r)))"
      using assms(2) that by (simp add: row_good_def)
    then show ?thesis by (simp add: range_rows_of_def om_range_def split_def prod_eq_iff)
  qed
  have "range_total (updates_in_order t)
      = sum_list (map (\<lambda>k. length (filter (\<lambda>x. ?f x = k) (update_loro_ranges t))) ?ks)"
    unfolding range_total_def map_map by (intro arg_cong [where f = sum_list] map_cong) (simp_all add: each)
  also have "\<dots> = length (update_loro_ranges t)"
  proof (rule sum_over_keys)
    have "distinct (map fst (updates t))" using inv by (rule om.entries_distinct)
    then show "distinct ?ks" by (simp add: distinct_map updates_in_order_def distinct_sort)
    show "\<forall>x \<in> set (update_loro_ranges t). ?f x \<in> set ?ks"
    proof
      fix x
      assume "x \<in> set (update_loro_ranges t)"
      then have "om_contains (updates t) (?f x)"
        using fk by (auto simp add: update_foreign_keys_def list_all_iff)
      then show "?f x \<in> set ?ks" by (simp add: om_contains_iff in_order_set)
    qed
  qed
  finally show ?thesis .
qed

lemma rows_peers_named:
  assumes "om_invar (updates t)"
  shows "(d, p) \<in> rows_peers (updates_in_order t) \<longleftrightarrow> p \<in> peers_named t d"
proof -
  have "(d, p) \<in> rows_peers (updates_in_order t) \<longleftrightarrow> (\<exists>u row. ((d, u), row) \<in> set (updates t)
      \<and> p \<in> lr_peer_id ` set (row_ranges ((d, u), row)))"
    unfolding rows_peers_def in_order_set peers_in_def by force
  then show ?thesis by (simp add: peers_named_def om.entries_get [OF assms])
qed

lemma update_validation_iff:
  assumes "constraints_hold t" "length (update_loro_ranges t) < 2 ^ 64"
  shows "validate_updates t = Inr () \<longleftrightarrow> update_state_ok t"
proof -
  have inv: "om_invar (updates t)" "om_invar (update_loro_ranges t)" "om_invar (document_loro_peers t)"
    and checks: "update_checks t"
    using assms(1) by (simp_all add: constraints_hold_def primary_keys_hold_def)
  have good: "(\<forall>r \<in> set (updates_in_order t). row_good t r) \<longleftrightarrow>
      (\<forall>d u row. om_get (updates t) (d, u) = Some row \<longrightarrow> row_consistent t d u row)"
    unfolding in_order_set Ball_def split_paired_All om.entries_get [OF inv(1)] row_good_iff [OF inv(2)] ..
  have peers: "within_peers (rows_peers (updates_in_order t))
      \<and> (\<forall>k. om_contains (document_loro_peers t) k \<longleftrightarrow> k \<in> rows_peers (updates_in_order t)) \<longleftrightarrow>
    (\<forall>d. {p. om_contains (document_loro_peers t) (d, p)} = peers_named t d
      \<and> card (peers_named t d) \<le> MAX_LORO_PEERS)"
    unfolding within_peers_def split_paired_All rows_peers_named [OF inv(1)] by auto
  have "validate_updates t = Inr () \<longleftrightarrow> (\<forall>r \<in> set (updates_in_order t). row_good t r)
      \<and> (contiguous (updates_in_order t) \<and> counters_follow t)
      \<and> (within_peers (rows_peers (updates_in_order t))
        \<and> (\<forall>k. om_contains (document_loro_peers t) k \<longleftrightarrow> k \<in> rows_peers (updates_in_order t)))"
    unfolding validate_updates_iff [OF inv(3)] rows_ok_def
    using range_total_all [OF assms(1)] assms(2) by auto
  then show ?thesis
    unfolding good peers contiguous_iff [OF checks inv(1)] update_state_ok_def .
qed

end
