(* ===== verification/Validate_Reachable.thy ===== *)
theory Validate_Reachable
  imports Validate_Updates
begin

text \<open>
  Every state the store reaches from empty tables keeps all constraints of the schema and passes
  all checks.  The CHECK constraints are not part of the model's INSERT statements; that they
  hold of every reachable state says that none of them is ever violated.
\<close>

section \<open>Acceptance counters\<close>

lemma insert_peers_loop_rest:
  "insert_peers_loop d c rs t = Inr (b, t') \<Longrightarrow> \<exists>ps. t' = t\<lparr> document_loro_peers := ps \<rparr>"
proof (induction d c rs t rule: insert_peers_loop.induct)
  case (1 d c t)
  then have "t' = t\<lparr> document_loro_peers := document_loro_peers t \<rparr>" by simp
  then show ?case by blast
next
  case (2 d c r rs t)
  from 2(2) obtain i ps where i: "sql_insert_or_ignore (om_contains (documents t) d) (d, lr_peer_id r) ()
      (document_loro_peers t) = Inr (i, ps)" by (auto simp add: ok_then_Inr_iff)
  show ?case
  proof (cases "c + i > MAX_LORO_PEERS")
    case True
    with 2(2) i show ?thesis by auto
  next
    case False
    with 2(2) i have "insert_peers_loop d (c + i) rs (t\<lparr> document_loro_peers := ps \<rparr>) = Inr (b, t')" by simp
    from 2(1) [OF i refl refl False this] show ?thesis by auto
  qed
qed

lemma insert_ranges_loop_rest:
  "insert_ranges_loop d u rs t = Inr t' \<Longrightarrow> \<exists>rt. t' = t\<lparr> update_loro_ranges := rt \<rparr>"
proof (induction d u rs t rule: insert_ranges_loop.induct)
  case (1 d u t)
  then have "t' = t\<lparr> update_loro_ranges := update_loro_ranges t \<rparr>" by simp
  then show ?case by blast
next
  case (2 d u r rs t)
  then show ?case by (fastforce simp add: ok_then_Inr_iff)
qed

definition counters_ok :: "tables \<Rightarrow> bool" where
  "counters_ok t \<longleftrightarrow> om_invar (document_acceptance_sequences t)
    \<and> (\<forall>d. om_contains (document_acceptance_sequences t) d \<longrightarrow> om_contains (documents t) d)
    \<and> (\<forall>a row. om_get (create_authorities t) a = Some row \<longrightarrow> car_state row = 0)"

lemma store_accept_counters:
  assumes "store_accept sha t c a update record = Inr (outcome, t')" "counters_ok t"
  shows "counters_ok t'"
proof -
  let ?d = "iu_document_id update"
  have "t' = t \<or> (\<exists>f. om_contains (documents t) ?d
      \<and> document_acceptance_sequences t' = om_insert ?d f (document_acceptance_sequences t)
      \<and> documents t' = documents t \<and> create_authorities t' = create_authorities t)"
    using assms(1)
    by (auto simp add: store_accept_def insert_update_def insert_update_ranges_def insert_document_loro_peers_def
        Let_def ok_then_Inr_iff split: if_splits option.splits
        dest!: insert_peers_loop_rest insert_ranges_loop_rest)
  then show ?thesis using assms(2) by (auto simp add: counters_ok_def om_contains_def split: if_splits)
qed

lemma effect_documents:
  assumes "has_effect t e t'" "om_contains (documents t) d"
  shows "om_contains (documents t') d"
  using assms by (cases e) (auto simp add: create_effect_def grant_effect_def revoke_effect_def om_contains_def)

lemma effect_authorities:
  assumes "has_effect t e t'" "\<forall>a row. om_get (create_authorities t) a = Some row \<longrightarrow> car_state row = 0"
  shows "\<forall>a row. om_get (create_authorities t') a = Some row \<longrightarrow> car_state row = 0"
  using assms
  by (cases e) (auto simp add: create_effect_def grant_effect_def revoke_effect_def split: if_splits)

lemma store_step_counters:
  assumes "store_step sha t t'" "control_ok t" "counters_ok t"
  shows "counters_ok t'"
  using assms(1)
proof (cases rule: store_step.cases)
  case step_control
  then obtain e where e: "has_effect t e t'" using control_step_effect [OF assms(2)] by blast
  then have "document_acceptance_sequences t' = document_acceptance_sequences t"
    using effect_same_updates by (auto simp add: same_updates_def)
  then show ?thesis
    using assms(3) effect_documents [OF e] effect_authorities [OF e] unfolding counters_ok_def by metis
next
  case (step_accept rec update c a outcome)
  then show ?thesis using store_accept_counters assms(3) by blast
qed

lemma history_counters:
  assumes "store_history sha empty_tables t"
  shows "counters_ok t"
proof -
  have "store_history sha t0 t \<Longrightarrow> t0 = empty_tables \<Longrightarrow> counters_ok t" for t0
  proof (induction rule: store_history.induct)
    case (store_history_start t)
    then show ?case by (simp add: counters_ok_def empty_tables_def om_contains_def)
  next
    case (store_history_step t t' t'')
    then show ?case using store_step_counters store_history_good(1) by blast
  qed
  with assms show ?thesis by blast
qed

section \<open>Update tables\<close>

lemma refined_sequences:
  assumes "update_refines t m" "model_ok m"
  shows "sequences_in t d = {q. 1 \<le> q \<and> q < next_sequence m d}"
proof -
  have order: "om_get (acceptance_order m) (d, q) \<noteq> None \<longleftrightarrow> 1 \<le> q \<and> q < next_sequence m d" for q
    using model_okD(4) [OF assms(2)] unfolding positions_contiguous_def by blast
  have "(\<exists>u row. om_get (updates t) (d, u) = Some row \<and> ur_acceptance_sequence row = q) \<longleftrightarrow>
      om_get (acceptance_order m) (d, q) \<noteq> None" for q
  proof
    assume "\<exists>u row. om_get (updates t) (d, u) = Some row \<and> ur_acceptance_sequence row = q"
    then obtain u row where u: "om_get (updates t) (d, u) = Some row" "ur_acceptance_sequence row = q" by blast
    obtain acc where acc: "om_get (model_updates m) (d, u) = Some acc" "row_rel row acc"
      using update_refines_row [OF assms(1) u(1)] .
    then have "om_get (acceptance_order m) (d, acc_sequence acc) = Some u"
      using model_okD(2) [OF assms(2)] unfolding updates_indexed_def by blast
    with acc(2) u(2) show "om_get (acceptance_order m) (d, q) \<noteq> None" by (simp add: row_rel_def)
  next
    assume "om_get (acceptance_order m) (d, q) \<noteq> None"
    then obtain u acc where acc: "om_get (model_updates m) (d, u) = Some acc" "acc_sequence acc = q"
      using model_okD(3) [OF assms(2)] unfolding order_indexed_def by blast
    then obtain row where "om_get (updates t) (d, u) = Some row" "row_rel row acc"
      using update_refinesD(4) [OF assms(1), of d u] by (auto simp add: option_rel_Some2)
    with acc(2) show "\<exists>u row. om_get (updates t) (d, u) = Some row \<and> ur_acceptance_sequence row = q"
      by (auto simp add: row_rel_def)
  qed
  then show ?thesis unfolding sequences_in_def order by simp
qed

lemma refined_counter:
  assumes "update_refines t m" "sequences_in t d \<noteq> {}" "model_ok m"
  shows "om_get (document_acceptance_sequences t) d = Some (next_sequence m d)"
proof -
  have "next_sequence m d \<noteq> FIRST"
    using assms(2) unfolding refined_sequences [OF assms(1,3)] FIRST_def by auto
  then show ?thesis
    using update_refinesD(5) [OF assms(1), of d] by (auto simp add: next_sequence_def split: option.splits)
qed

lemma refined_peers:
  assumes "update_refines t m" "model_ok m"
  shows "set (peers_of m d) = peers_named t d"
proof -
  have ranges: "row_ranges ((d, u), row) = iu_public_loro_ranges (acc_update acc)"
    if "row_rel row acc" for d u row acc
    using that by (simp add: row_rel_def row_ranges_def)
  have named: "(\<exists>acc. om_get (model_updates m) (d, u) = Some acc
        \<and> p \<in> lr_peer_id ` set (iu_public_loro_ranges (acc_update acc))) \<longleftrightarrow>
      (\<exists>row. om_get (updates t) (d, u) = Some row \<and> p \<in> lr_peer_id ` set (row_ranges ((d, u), row)))" for u p
  proof (cases "om_get (updates t) (d, u)")
    case None
    then show ?thesis using update_refines_None [OF assms(1), of d u] by simp
  next
    case (Some row)
    obtain acc where "om_get (model_updates m) (d, u) = Some acc" "row_rel row acc"
      using update_refines_row [OF assms(1) Some] .
    with Some ranges show ?thesis by simp
  qed
  have "set (peers_of m d) = {p. \<exists>u acc. om_get (model_updates m) (d, u) = Some acc
      \<and> p \<in> lr_peer_id ` set (iu_public_loro_ranges (acc_update acc))}"
    using model_okD(5) [OF assms(2)] by (simp add: peers_exact_def)
  then show ?thesis by (simp only: named peers_named_def)
qed

lemma refined_update_state:
  assumes "update_refines t m" "model_ok m"
  shows "update_state_ok t"
proof -
  have "row_consistent t d u row" if row: "om_get (updates t) (d, u) = Some row" for d u row
  proof -
    obtain acc where acc: "om_get (model_updates m) (d, u) = Some acc" "row_rel row acc"
      using update_refines_row [OF assms(1) row] .
    then have "iu_document_id (acc_update acc) = d" "iu_update_id (acc_update acc) = u"
      using model_okD(2) [OF assms(2)] unfolding updates_indexed_def by blast+
    then show ?thesis
      using acc update_refinesD(7) [OF assms(1), of d u] by (simp add: row_consistent_def row_rel_def)
  qed
  moreover have "card (peers_named t d) \<le> MAX_LORO_PEERS" for d
    using model_okD(5) [OF assms(2)] card_length [of "peers_of m d"]
    unfolding refined_peers [OF assms, symmetric] peers_exact_def by (meson order_trans)
  moreover have "{p. om_contains (document_loro_peers t) (d, p)} = peers_named t d" for d
    using update_refinesD(6) [OF assms(1)] refined_peers [OF assms] by auto
  ultimately show ?thesis
    unfolding update_state_ok_def
    using refined_counter [OF assms(1) _ assms(2)] refined_sequences [OF assms] by blast
qed

section \<open>Constraints\<close>

lemma refined_sequence_unique:
  assumes "update_refines t m" "model_ok m" "om_get (updates t) (d, u) = Some row"
    and "om_get (updates t) (d, u') = Some row'" "ur_acceptance_sequence row = ur_acceptance_sequence row'"
  shows "u = u'"
proof -
  obtain acc where acc: "om_get (model_updates m) (d, u) = Some acc" "row_rel row acc"
    using update_refines_row [OF assms(1,3)] .
  obtain acc' where acc': "om_get (model_updates m) (d, u') = Some acc'" "row_rel row' acc'"
    using update_refines_row [OF assms(1,4)] .
  have "om_get (acceptance_order m) (d, acc_sequence acc) = Some u"
    "om_get (acceptance_order m) (d, acc_sequence acc') = Some u'"
    using acc(1) acc'(1) model_okD(2) [OF assms(2)] unfolding updates_indexed_def by blast+
  with acc(2) acc'(2) assms(5) show "u = u'" by (simp add: row_rel_def)
qed

lemma refined_update_checks:
  assumes "update_refines t m" "model_ok m"
  shows "update_checks t"
proof -
  have inv: "om_invar (updates t)" using update_refinesD(1) [OF assms(1)] .
  have "ur_acceptance_sequence row \<noteq> 0 \<and> 0 < length (ur_encoded_record row) \<and> length (ur_encoded_record row) \<le> 4024"
    if "((d, u), row) \<in> set (updates t)" for d u row
  proof -
    have row: "om_get (updates t) (d, u) = Some row" using that om.entries_get [OF inv] by blast
    then have "ur_acceptance_sequence row \<in> sequences_in t d" by (auto simp add: sequences_in_def)
    then have "ur_acceptance_sequence row \<noteq> 0" unfolding refined_sequences [OF assms] by auto
    moreover obtain acc where "row_rel row acc" using update_refines_row [OF assms(1) row] by blast
    ultimately show ?thesis using decoded_distinct(2,3) by (auto simp add: row_rel_def)
  qed
  moreover have "distinct (map (\<lambda>((d, _), row). (d, ur_acceptance_sequence row)) (updates t))"
    unfolding distinct_map
  proof
    show "distinct (updates t)" using om.entries_distinct [OF inv] by (simp add: distinct_map)
    show "inj_on (\<lambda>((d, _), row). (d, ur_acceptance_sequence row)) (set (updates t))"
      using refined_sequence_unique [OF assms] om.entries_get [OF inv] by (fastforce simp add: inj_on_def)
  qed
  ultimately show ?thesis by (simp add: update_checks_def list_all_iff Ball_def split_paired_All)
qed

lemma refined_foreign_keys:
  assumes "update_refines t m" "model_ok m" "counters_ok t"
  shows "update_foreign_keys t"
proof -
  have counter: "om_contains (document_acceptance_sequences t) d" if "om_get (updates t) (d, u) = Some row" for d u row
  proof -
    have "sequences_in t d \<noteq> {}" using that by (auto simp add: sequences_in_def)
    then show ?thesis using refined_counter [OF assms(1) _ assms(2)] by (simp add: om_contains_def)
  qed
  have ranges: "om_contains (updates t) (d, u)" if "om_get (update_loro_ranges t) (d, u, p) = Some v" for d u p v
    using that update_refinesD(7) [OF assms(1), of d u p] update_refines_None [OF assms(1), of d u]
    by (auto simp add: om_contains_def bind_eq_Some_conv)
  have peers: "om_contains (documents t) d" if "om_contains (document_loro_peers t) (d, p)" for d p
  proof -
    have "p \<in> peers_named t d"
      using that update_refinesD(6) [OF assms(1)] refined_peers [OF assms(1,2)] by blast
    then show ?thesis using counter assms(3) by (auto simp add: peers_named_def counters_ok_def)
  qed
  have inv: "om_invar (document_acceptance_sequences t)" "om_invar (updates t)"
    "om_invar (update_loro_ranges t)" "om_invar (document_loro_peers t)"
    using update_refinesD(1-3) [OF assms(1)] assms(3) by (simp_all add: counters_ok_def)
  show ?thesis
    unfolding update_foreign_keys_def list_all_iff Ball_def split_paired_All prod.case
      om.entries_get [OF inv(1)] om.entries_get [OF inv(2)] om.entries_get [OF inv(3)] om.entries_get [OF inv(4)]
    using counter ranges peers assms(3) by (auto simp add: counters_ok_def om_contains_def)
qed

lemma control_ok_foreign_keys:
  assumes "control_ok t"
  shows "control_foreign_keys t"
proof -
  have inv: "om_invar (capabilities t)" "om_invar (capability_operations t)"
    "om_invar (control_receipts t)" "om_invar (create_receipts t)"
    using control_okD(1) [OF assms] by (simp_all add: sorted_ok_def)
  have cap: "om_contains (documents t) d \<and> (case cr_parent row of None \<Rightarrow> True
      | Some p \<Rightarrow> om_contains (capabilities t) (d, p))"
    if "om_get (capabilities t) (d, c) = Some row" for d c row
    using caps_okD [OF assms that] by (auto simp add: cap_row_ok_def om_contains_def split: option.split)
  have ops: "om_contains (capabilities t) (d, c)" if "om_get (capability_operations t) (d, c, code) = Some v" for d c code v
    using control_okD(5) [OF assms] that unfolding op_rows_ok_def om_contains_def by blast
  have rec: "om_contains (capabilities t) (d, i)" if "om_get (control_receipts t) (d, i, r) = Some row" for d i r row
    using control_okD(6) [OF assms] that unfolding receipts_ok_def by blast
  have cre: "om_contains (create_authorities t) a \<and> om_contains (documents t) (cc_document_id row)"
    if "om_get (create_receipts t) (a, r) = Some row" for a r row
    using control_okD(8) [OF assms] that cap unfolding create_rows_ok_def by blast
  show ?thesis
    unfolding control_foreign_keys_def list_all_iff Ball_def split_paired_All prod.case
      om.entries_get [OF inv(1)] om.entries_get [OF inv(2)] om.entries_get [OF inv(3)] om.entries_get [OF inv(4)]
    using cap ops rec cre by blast
qed

lemma control_ok_checks:
  assumes "control_ok t" "counters_ok t"
  shows "control_checks t"
proof -
  have inv: "om_invar (create_authorities t)" "om_invar (documents t)" "om_invar (capabilities t)"
    "om_invar (capability_operations t)" "om_invar (control_receipts t)" "om_invar (create_receipts t)"
    using control_okD(1) [OF assms(1)] by (simp_all add: sorted_ok_def)
  have doc: "dr_state doc \<in> {0, 1} \<and> dr_control_revision doc \<noteq> 0" if "om_get (documents t) d = Some doc" for d doc
  proof -
    have "dr_state doc = 0 \<or> dr_state doc = 1" "unat (dr_control_revision doc) = 1 + receipts_in t d"
      using control_okD(4) [OF assms(1)] that unfolding docs_ok_def by blast+
    then show ?thesis by auto
  qed
  have cap: "(cr_root row \<longleftrightarrow> cr_parent row = None) \<and> cr_state row \<in> {0, 1} \<and> cr_created_revision row \<noteq> 0"
    if "om_get (capabilities t) (d, c) = Some row" for d c row
    using caps_okD [OF assms(1) that] by (auto simp add: cap_row_ok_def row_doc_ok_def)
  have one_root: "length (filter (\<lambda>((d', _), row). d' = d \<and> cr_root row) (capabilities t)) \<le> 1"
    if "om_contains (capabilities t) (d, c)" for d c
  proof -
    from that obtain row where "om_get (capabilities t) (d, c) = Some row" by (auto simp add: om_contains_def)
    from caps_okD [OF assms(1) this] obtain doc where "om_get (documents t) d = Some doc"
      by (auto simp add: cap_row_ok_def)
    from control_ok_root [OF assms(1) this] show ?thesis
      by (simp add: root_ok_def count_where_def split_def)
  qed
  have op: "code \<le> 9" if "om_get (capability_operations t) (d, c, code) = Some v" for d c code v
    using control_okD(5) [OF assms(1)] that unfolding op_rows_ok_def code_valid_iff om_contains_def by blast
  have rec: "rr_operation row \<in> {0, 1} \<and> 0 < length (rr_normalized_input row)"
    if "om_get (control_receipts t) (d, i, r) = Some row" for d i r row
  proof -
    have "grant_receipt_ok t d i row \<or> revoke_receipt_ok t d row"
      using control_okD(6) [OF assms(1)] that unfolding receipts_ok_def by blast
    then have "rr_operation row \<in> {0, 1} \<and> (length (rr_normalized_input row) = 82
        \<or> length (rr_normalized_input row) = 16)"
      unfolding grant_receipt_ok_def revoke_receipt_ok_def using input_lengths by auto
    then show ?thesis by auto
  qed
  have cre: "0 < length (cc_normalized_input row)" if row: "om_get (create_receipts t) (a, r) = Some row" for a r row
  proof -
    have "create_receipt_ok t row"
      using control_ok_creates [OF assms(1)] om_get_in [OF row] unfolding validate_create_state_iff by fast
    moreover have "be_encode (cc_document_id row) \<noteq> []"
      by (simp flip: length_greater_0_conv)
    ultimately show ?thesis by (auto simp add: create_receipt_ok_def create_normalized_input_def)
  qed
  show ?thesis
    unfolding control_checks_def list_all_iff Ball_def split_paired_All prod.case om_keys_def set_map
      om_contains_iff [symmetric] om.entries_get [OF inv(1)] om.entries_get [OF inv(2)]
      om.entries_get [OF inv(3)] om.entries_get [OF inv(4)] om.entries_get [OF inv(5)] om.entries_get [OF inv(6)]
      fst_conv
    using assms(2) doc cap one_root op rec cre unfolding counters_ok_def by blast
qed

lemma reachable_valid:
  assumes "store_history sha empty_tables t"
  shows "constraints_hold t" "control_ok t" "update_state_ok t"
proof -
  show ok: "control_ok t" using store_history_good(1) [OF assms] .
  have counters: "counters_ok t" using history_counters [OF assms] .
  obtain us where us: "list_all canonical_update us" "update_refines t (model_after us)"
    using store_history_good(2) [OF assms] by blast
  note m = us(2) model_after_ok [OF us(1)]
  show "update_state_ok t" using refined_update_state [OF m] .
  have "primary_keys_hold t"
    using control_okD(1) [OF ok] counters update_refinesD(1-3) [OF us(2)]
    by (simp add: primary_keys_hold_def sorted_ok_def counters_ok_def)
  then show "constraints_hold t"
    using control_ok_foreign_keys [OF ok] control_ok_checks [OF ok counters]
      refined_foreign_keys [OF m counters] refined_update_checks [OF m] by (simp add: constraints_hold_def)
qed

end
