(* ===== verification/Store_Open.thy ===== *)
theory Store_Open
  imports Validate_Reachable Broker_Properties
begin

text \<open>
  Opening the store (\<open>DurableUpdateStore::open\<close>, \<open>initialize_or_check_schema\<close> and
  \<open>validate\<close> of \<open>src/crates/renee-stored/src/store.rs\<close>) and the life of its database over
  restarts.  A database is what SQLite answers about the file: its schema objects in the order
  \<open>schema_objects\<close> asks for, the row of \<open>schema_meta\<close>, \<open>user_version\<close>, \<open>quick_check\<close> and
  the tables.  The objects SQLite lists after it has executed \<open>SCHEMA\<close> are a parameter; file
  creation, the pragmas and the synchronization of the directory are not modelled.
\<close>

section \<open>Databases\<close>

type_synonym schema_object = "string \<times> string \<times> string \<times> string option"

record database =
  db_objects :: "schema_object list"
  db_schema_version :: "u32 option"
  db_user_version :: u32
  db_quick_check :: string
  db_tables :: tables

definition SCHEMA_VERSION :: u32 where "SCHEMA_VERSION = 4"

definition validate_canonical_schema :: "schema_object list \<Rightarrow> database \<Rightarrow> store_error + unit" where
  "validate_canonical_schema reference db =
    (if db_objects db \<noteq> reference
     then Inl (Corrupt ''durable schema objects disagree with the current canonical schema'')
     else Inr ())"

definition has_schema_meta :: "schema_object list \<Rightarrow> bool" where
  "has_schema_meta objects \<longleftrightarrow> list_ex (\<lambda>(kind, name, _, _). kind = ''table'' \<and> name = ''schema_meta'') objects"

text \<open>The first part of \<open>initialize_or_check_schema\<close>, up to its commit.\<close>

definition initialize_schema :: "schema_object list \<Rightarrow> database \<Rightarrow> store_error + database" where
  "initialize_schema reference db =
    (if has_schema_meta (db_objects db)
     then (case db_schema_version db of
         None \<Rightarrow> Inl SqliteNoRows
       | Some schema_version \<Rightarrow>
           if schema_version \<noteq> SCHEMA_VERSION then Inl (UnsupportedSchema schema_version)
           else if db_user_version db \<noteq> SCHEMA_VERSION then Inl (UnsupportedSchema (db_user_version db))
           else Inr db)
     else if db_objects db \<noteq> []
     then Inl (Corrupt ''database does not contain a recognized schema'')
     else Inr (db\<lparr> db_objects := reference, db_schema_version := Some SCHEMA_VERSION,
       db_user_version := SCHEMA_VERSION, db_tables := empty_tables \<rparr>))"

definition initialize_or_check_schema ::
  "schema_object list \<Rightarrow> database \<Rightarrow> (store_error + unit) \<times> database" where
  "initialize_or_check_schema reference db =
    (case initialize_schema reference db of
       Inl e \<Rightarrow> (Inl e, db)
     | Inr db' \<Rightarrow> (ok_then (validate_canonical_schema reference db') (\<lambda>_.
         validate_foreign_keys (db_tables db')), db'))"

definition validate :: "database \<Rightarrow> store_error + unit" where
  "validate db =
    (if db_quick_check db \<noteq> ''ok'' then Inl (Corrupt ''SQLite quick_check failed'')
     else case db_schema_version db of
       None \<Rightarrow> Inl SqliteNoRows
     | Some schema_version \<Rightarrow>
         if schema_version \<noteq> SCHEMA_VERSION then Inl (UnsupportedSchema schema_version)
         else validate_tables (db_tables db))"

text \<open>
  \<open>open\<close>: \<open>generation\<close> is what the random generator fills in, \<open>None\<close> when it fails, and
  \<open>broker\<close> the number the new subscription registry draws.
\<close>

definition durable_open ::
  "schema_object list \<Rightarrow> bool \<Rightarrow> id16 option \<Rightarrow> nat \<Rightarrow> create_authority_provision \<Rightarrow> database
    \<Rightarrow> (store_error + durable_update_store) \<times> database" where
  "durable_open reference has_parent generation broker create_authority db =
    (if \<not> has_parent then (Inl InvalidDatabasePath, db)
     else case initialize_or_check_schema reference db of
       (Inl e, db') \<Rightarrow> (Inl e, db')
     | (Inr _, db') \<Rightarrow>
         (case generation of
            None \<Rightarrow> (Inl EntropyUnavailable, db')
          | Some g \<Rightarrow>
              (case ok_then (validate db') (\<lambda>_.
                 provision_create_authority create_authority (db_tables db')) of
                 Inl e \<Rightarrow> (Inl e, db')
               | Inr t \<Rightarrow> (Inr \<lparr> ds_tables = t, ds_enumeration_passes = [], ds_generation = g,
                   ds_subscriptions = registry_new broker, ds_vector_passes = [] \<rparr>,
                   db'\<lparr> db_tables := t \<rparr>))))"

section \<open>The life of a database\<close>

text \<open>
  An empty file, opened any number of times by the broker; each time it opens, the broker runs
  for a while on the open store and stops at any point between two transactions.  A crash is
  such a stop: SQLite keeps committed transactions and nothing else.
\<close>

definition fresh_database :: database where
  "fresh_database = \<lparr> db_objects = [], db_schema_version = None, db_user_version = 0,
    db_quick_check = ''ok'', db_tables = empty_tables \<rparr>"

inductive lifetime :: "(bytes \<Rightarrow> key32) \<Rightarrow> schema_object list \<Rightarrow> database \<Rightarrow> bool" for sha reference where
  lifetime_new: "lifetime sha reference fresh_database"
| lifetime_refused: "lifetime sha reference db \<Longrightarrow>
    durable_open reference has_parent generation broker p db = (Inl e, db') \<Longrightarrow> lifetime sha reference db'"
| lifetime_run: "lifetime sha reference db \<Longrightarrow>
    durable_open reference has_parent generation broker p db = (Inr s, db') \<Longrightarrow>
    broker_run sha s s' \<Longrightarrow> lifetime sha reference (db'\<lparr> db_tables := ds_tables s' \<rparr>)"

definition database_ok :: "(bytes \<Rightarrow> key32) \<Rightarrow> schema_object list \<Rightarrow> database \<Rightarrow> bool" where
  "database_ok sha reference db \<longleftrightarrow> db_quick_check db = ''ok'' \<and>
    (db_objects db = [] \<and> db_tables db = empty_tables \<or> db_objects db = reference \<and> db_schema_version db = Some SCHEMA_VERSION
    \<and> db_user_version db = SCHEMA_VERSION \<and> store_history sha empty_tables (db_tables db))"

lemma initialized_ok:
  assumes "database_ok sha reference db" "has_schema_meta reference"
  obtains db' where "initialize_or_check_schema reference db = (Inr (), db')" "database_ok sha reference db'"
    "store_history sha empty_tables (db_tables db')" "db_schema_version db' = Some SCHEMA_VERSION"
    "db_tables db' = db_tables db"
proof -
  define db' where "db' = (if db_objects db = [] then db\<lparr> db_objects := reference,
    db_schema_version := Some SCHEMA_VERSION, db_user_version := SCHEMA_VERSION, db_tables := empty_tables \<rparr> else db)"
  have ne: "reference \<noteq> []" using assms(2) by (auto simp add: has_schema_meta_def)
  have init: "initialize_schema reference db = Inr db'"
    using assms by (auto simp add: initialize_schema_def db'_def database_ok_def has_schema_meta_def)
  have ok: "database_ok sha reference db'" "store_history sha empty_tables (db_tables db')"
    "db_schema_version db' = Some SCHEMA_VERSION" "db_objects db' = reference"
    using assms(1) by (auto simp add: db'_def database_ok_def intro: store_history.intros)
  then have "validate_foreign_keys (db_tables db') = Inr ()"
    using reachable_valid(1) by (simp add: validate_foreign_keys_def constraints_hold_def)
  then have "initialize_or_check_schema reference db = (Inr (), db')"
    using init ok(4) by (simp add: initialize_or_check_schema_def validate_canonical_schema_def)
  moreover have "db_tables db' = db_tables db"
    using assms(1) ne by (auto simp add: db'_def database_ok_def)
  ultimately show thesis using that ok by blast
qed

lemma validate_tables_iff:
  assumes "constraints_hold t" "length (update_loro_ranges t) < 2 ^ 64"
  shows "validate_tables t = Inr () \<longleftrightarrow> control_ok t \<and> update_state_ok t"
  unfolding validate_tables_def ok_then_Inr_iff
  using control_validation_iff [OF assms(1)] update_validation_iff [OF assms] by auto

lemma opens:
  assumes "database_ok sha reference db" "has_schema_meta reference"
  shows "durable_open reference has_parent generation broker p db = (Inr s, db') \<Longrightarrow>
      database_ok sha reference db' \<and> broker_ok sha s \<and> db_objects db' = reference \<and> db_tables db' = ds_tables s"
    and "durable_open reference has_parent generation broker p db = (Inl e, db') \<Longrightarrow> database_ok sha reference db'"
proof -
  obtain db1 where db1: "initialize_or_check_schema reference db = (Inr (), db1)" "database_ok sha reference db1"
    "store_history sha empty_tables (db_tables db1)" "db_schema_version db1 = Some SCHEMA_VERSION"
    using initialized_ok [OF assms] by blast
  show "database_ok sha reference db'"
    if "durable_open reference has_parent generation broker p db = (Inl e, db')"
    using that db1(1,2) assms(1) by (auto simp add: durable_open_def split: if_splits option.splits sum.splits)
  show "database_ok sha reference db' \<and> broker_ok sha s \<and> db_objects db' = reference \<and> db_tables db' = ds_tables s"
    if o: "durable_open reference has_parent generation broker p db = (Inr s, db')"
  proof -
    obtain g t where g: "generation = Some g" "provision_create_authority p (db_tables db1) = Inr t"
      "s = opened t g broker" "db' = db1\<lparr> db_tables := t \<rparr>"
      using o db1(1) by (auto simp add: durable_open_def opened_def ok_then_Inr_iff
          split: if_splits option.splits sum.splits)
    have h: "store_history sha empty_tables t"
      using store_history.store_history_step [OF db1(3) store_step.step_control [OF control_step.step_provision [OF g(2)]]] .
    have "db_objects db1 = reference"
      using db1(1) assms(1) by (auto simp add: initialize_or_check_schema_def validate_canonical_schema_def
          ok_then_Inr_iff split: sum.splits if_splits)
    moreover have "reference \<noteq> []" using assms(2) by (auto simp add: has_schema_meta_def)
    ultimately show ?thesis
      using h g(3,4) db1(2,4) opened_ok [OF h, of g broker] by (auto simp add: database_ok_def opened_def)
  qed
qed

lemma lifetime_ok: "lifetime sha reference db \<Longrightarrow> has_schema_meta reference \<Longrightarrow> database_ok sha reference db"
proof (induction rule: lifetime.induct)
  case lifetime_new
  then show ?case by (simp add: database_ok_def fresh_database_def)
next
  case (lifetime_refused db has_parent generation broker p e db')
  then show ?case using opens(2) by blast
next
  case (lifetime_run db has_parent generation broker p s db' s')
  then have "database_ok sha reference db'" "broker_ok sha s" "db_objects db' = reference"
    using opens(1) by blast+
  moreover have "store_history sha empty_tables (ds_tables s')"
    using broker_okD(1) [OF broker_run_ok [OF lifetime_run.hyps(3)]] \<open>broker_ok sha s\<close> by blast
  ultimately show ?case using lifetime_run.prems by (auto simp add: database_ok_def has_schema_meta_def)
qed

lemma reopens:
  assumes "database_ok sha reference db" "has_schema_meta reference"
    and "length (update_loro_ranges (db_tables db)) < 2 ^ 64"
    and "provision_create_authority p (db_tables db) = Inr t"
  shows "\<exists>s db'. durable_open reference True (Some g) broker p db = (Inr s, db') \<and> ds_tables s = t"
proof -
  obtain db1 where db1: "initialize_or_check_schema reference db = (Inr (), db1)" "database_ok sha reference db1"
    "store_history sha empty_tables (db_tables db1)" "db_schema_version db1 = Some SCHEMA_VERSION"
    "db_tables db1 = db_tables db"
    using initialized_ok [OF assms(1,2)] by blast
  have "validate_tables (db_tables db1) = Inr ()"
    using validate_tables_iff reachable_valid [OF db1(3)] assms(3) db1(5) by simp
  then have "validate db1 = Inr ()"
    using db1(2,4) by (simp add: validate_def database_ok_def)
  with db1(1,5) assms(4) show ?thesis by (simp add: durable_open_def)
qed

section \<open>Properties\<close>

text \<open>
  C12: On tables that keep the constraints of the schema, the three checks of \<open>validate\<close> pass
  exactly when the invariants of the control tables and of the update tables hold.  A store
  that opens therefore has rooted capability forests of depth at most 64 with attenuation and
  downward-closed revocation, receipts that agree with their effects, contiguous acceptance
  positions and exact range and peer indexes; and no store that has them is refused.
\<close>

theorem validation_accepts_exactly_the_invariants:
  assumes "constraints_hold t" "length (update_loro_ranges t) < 2 ^ 64"
  shows "validate_tables t = Inr () \<longleftrightarrow> control_ok t \<and> update_state_ok t"
  using validate_tables_iff [OF assms] .

theorem validation_accepts_exactly_the_invariants_witness:
  "validate_tables demo_granted = Inr ()"
proof -
  note demo = reachable_valid [OF demo_granted_history]
  have "length (update_loro_ranges demo_granted) < 2 ^ 64"
    by (simp add: demo_granted_def demo_document_def demo_authority_def empty_tables_def om_empty_def)
  from validation_accepts_exactly_the_invariants [OF demo(1) this] demo(2,3) show ?thesis by blast
qed

text \<open>
  C13: Every state reached from empty tables keeps every primary key, foreign key, CHECK and
  UNIQUE constraint of the schema, also those the program never tests itself, so that
  \<open>PRAGMA foreign_key_check\<close> finds nothing.
\<close>

theorem reachable_states_keep_the_schema:
  assumes "store_history sha empty_tables t"
  shows "constraints_hold t \<and> validate_foreign_keys t = Inr ()"
  using reachable_valid(1) [OF assms] by (simp add: validate_foreign_keys_def constraints_hold_def)

theorem reachable_states_keep_the_schema_witness:
  "constraints_hold demo_granted \<and> validate_foreign_keys demo_granted = Inr ()"
  using reachable_states_keep_the_schema [OF demo_granted_history] .

text \<open>
  C11: A database that only this program has written always opens again.  However often the
  broker was started, refused, stopped or killed between two transactions, the next start
  initializes or accepts the schema, passes every check and yields a store in the broker's
  invariant that holds all tables as they were, with the configured create authority
  provisioned, unless that authority is already provisioned with other verifiers.
\<close>

theorem database_always_opens_again:
  assumes "lifetime sha reference db" "has_schema_meta reference"
    and "length (update_loro_ranges (db_tables db)) < 2 ^ 64"
    and "provision_create_authority p (db_tables db) = Inr t"
  shows "\<exists>s db'. durable_open reference True (Some g) broker p db = (Inr s, db')
    \<and> ds_tables s = t \<and> db_tables db' = t \<and> broker_ok sha s"
proof -
  note ok = lifetime_ok [OF assms(1,2)]
  obtain s db' where s: "durable_open reference True (Some g) broker p db = (Inr s, db')" "ds_tables s = t"
    using reopens [OF ok assms(2-4)] by blast
  with opens(1) [OF ok assms(2) s(1)] show ?thesis by auto
qed

definition demo_schema :: "schema_object list" where
  "demo_schema = [(''table'', ''documents'', ''documents'', None), (''table'', ''schema_meta'', ''schema_meta'', None)]"

definition demo_provision_1 :: create_authority_provision where
  "demo_provision_1 = \<lparr> cp_create_authority_id = 1, cp_live_verifier = 0, cp_receipt_verifier = 0 \<rparr>"

lemma demo_schema_meta: "has_schema_meta demo_schema"
  by (simp add: has_schema_meta_def demo_schema_def)

text \<open>The first start of a broker that creates a document and stops.\<close>

definition demo_database :: database where
  "demo_database = \<lparr> db_objects = demo_schema, db_schema_version = Some 4, db_user_version = 4,
    db_quick_check = ''ok'', db_tables = demo_document \<rparr>"

lemma demo_lifetime: "lifetime demo_sha demo_schema demo_database"
proof -
  let ?db = "\<lparr> db_objects = demo_schema, db_schema_version = Some 4, db_user_version = 4,
    db_quick_check = ''ok'', db_tables = demo_authority \<rparr>"
  have "provision_create_authority demo_provision_1 empty_tables = Inr demo_authority"
    unfolding demo_provision_1_def by (rule demo_provision)
  moreover have "validate_tables empty_tables = Inr ()" "validate_foreign_keys empty_tables = Inr ()"
    using validate_tables_iff reachable_valid [OF store_history_start] 
    by (simp_all add: empty_tables_def validate_foreign_keys_def constraints_hold_def om_empty_def)
  ultimately have o: "durable_open demo_schema True (Some 7) 0 demo_provision_1 fresh_database
      = (Inr (opened demo_authority 7 0), ?db)"
    by (simp add: durable_open_def initialize_or_check_schema_def initialize_schema_def fresh_database_def
        has_schema_meta_def validate_canonical_schema_def validate_def SCHEMA_VERSION_def opened_def)
  have "broker_run demo_sha (opened demo_authority 7 0)
      (snd (durable_create_document demo_sha (opened demo_authority 7 0) 1 2 3 4 5 6))"
    by (rule broker_next [OF broker_start br_create])
  then have "lifetime demo_sha demo_schema (?db\<lparr> db_tables :=
      ds_tables (snd (durable_create_document demo_sha (opened demo_authority 7 0) 1 2 3 4 5 6)) \<rparr>)"
    by (rule lifetime_run [OF lifetime_new o])
  moreover have "ds_tables (snd (durable_create_document demo_sha (opened demo_authority 7 0) 1 2 3 4 5 6))
      = demo_document"
    by (simp add: durable_create_document_def opened_def demo_create)
  ultimately show ?thesis by (simp add: demo_database_def)
qed

theorem database_always_opens_again_witness:
  "\<exists>s db'. durable_open demo_schema True (Some 8) 0 demo_provision_1 demo_database = (Inr s, db')
    \<and> ds_tables s = demo_document \<and> db_tables db' = demo_document \<and> broker_ok demo_sha s"
proof (rule database_always_opens_again [OF demo_lifetime demo_schema_meta])
  show "length (update_loro_ranges (db_tables demo_database)) < 2 ^ 64"
    by (simp add: demo_database_def demo_document_def demo_authority_def empty_tables_def om_empty_def)
  show "provision_create_authority demo_provision_1 (db_tables demo_database) = Inr demo_document"
    by (simp add: provision_create_authority_def demo_database_def demo_provision_1_def demo_simps)
qed

end
