(* ===== verification/Connection.thy ===== *)
theory Connection
  imports Request_Safety Emission Session
begin

text \<open>
  One connection of the store process: \<open>serve_connection\<close>, \<open>serve_connection_with_channel\<close>,
  \<open>forward_subscription\<close> and \<open>write_connection_event\<close> of \<open>renee-stored/src/main.rs\<close>.  The state
  holds the queues and tasks the Rust functions share; a step is what one task does between two of
  its await points, and the tasks, the reader and the rest of the process interleave freely.
\<close>

definition CONNECTION_EVENT_QUEUE_CAPACITY :: nat where "CONNECTION_EVENT_QUEUE_CAPACITY = 64"

section \<open>Events and forwarding tasks\<close>

text \<open>
  The emission of an event names the subscription whose channel, state and gate it shares.  The
  queue keeps beside an event the identity its task forwards for.
\<close>

record connection_event =
  ce_body :: bytes
  ce_emission :: "u64 option"

type_synonym routed_event = "update_subscription_id \<times> connection_event"

text \<open>
  Where a forwarding task is: not yet polled, about to call \<open>next\<close>, waiting in \<open>next\<close>, waiting for
  room to send its overflow event, or returned with its completion signalled.
\<close>

datatype forward_phase =
  ForwardStarting | ForwardCalling | ForwardWaiting | ForwardOverflowing bytes | ForwardDone

record forward_task =
  ft_subscription :: u64
  ft_id :: update_subscription_id
  ft_correlation_id :: id16
  ft_cancelled :: bool
  ft_phase :: forward_phase

definition terminal_subscription_event ::
  "update_subscription_end \<Rightarrow> update_subscription_id \<Rightarrow> (u16 \<times> bytes) option" where
  "terminal_subscription_event ended subscription_id = (case ended of
      Overflowed \<Rightarrow> Some (UPDATE_SUBSCRIPTION_OVERFLOW, encode_update_subscription_overflow subscription_id)
    | update_subscription_end.Revoked \<Rightarrow>
        Some (UPDATE_SUBSCRIPTION_INVALIDATED, encode_update_subscription_invalidated subscription_id)
    | update_subscription_end.Retired \<Rightarrow>
        Some (UPDATE_SUBSCRIPTION_INVALIDATED, encode_update_subscription_invalidated subscription_id)
    | _ \<Rightarrow> None)"

text \<open>An emission handle keeps the gate of its document alive, beside the subscription's own handle.\<close>

definition hold_gate :: "nat \<Rightarrow> registry \<Rightarrow> registry" where
  "hold_gate g w = w\<lparr> rg_gates := (rg_gates w)(g :=
    (rg_gates w g)\<lparr> eg_strong_count := eg_strong_count (rg_gates w g) + 1 \<rparr>) \<rparr>"

definition emission_hold :: "u64 \<Rightarrow> registry \<Rightarrow> registry" where
  "emission_hold i w = hold_gate (sc_gate (rg_cells w i)) w"

definition emission_drop :: "u64 \<Rightarrow> registry \<Rightarrow> registry" where
  "emission_drop i w = drop_gate (sc_gate (rg_cells w i)) w"

text \<open>
  \<open>try_send\<close> on the event queue.  A permit that is freed goes to a waiting \<open>send\<close> first, so up to
  \<open>held\<close> places may be taken although their events are not yet in the queue.
\<close>

definition event_try_send :: "bool \<Rightarrow> nat \<Rightarrow> routed_event \<Rightarrow> routed_event list \<Rightarrow> try_send \<times> routed_event list" where
  "event_try_send open held event queue =
    (if \<not> open then (SendClosed, queue)
     else if length queue + held \<ge> CONNECTION_EVENT_QUEUE_CAPACITY then (SendFull, queue)
     else (SendOk, queue @ [event]))"

text \<open>The task returns: its emission handle and its subscription are dropped, then it signals.\<close>

definition finish_forward :: "forward_task \<Rightarrow> registry \<Rightarrow> forward_task \<times> registry" where
  "finish_forward t w = (t\<lparr> ft_phase := ForwardDone \<rparr>,
    drop_subscription (ft_subscription t)
      (if ft_phase t = ForwardStarting then w else emission_drop (ft_subscription t) w))"

definition forward_body :: "forward_task \<Rightarrow> u16 \<times> bytes \<Rightarrow> io_error + bytes" where
  "forward_body t event = encode_body \<lparr> ev_correlation_id = ft_correlation_id t,
    ev_message_type = fst event, ev_payload = snd event, ev_version = VERSION \<rparr>"

text \<open>The task, the registry and the event queue after a step.\<close>

type_synonym forwarded_state = "forward_task \<times> registry \<times> routed_event list"

definition finished :: "forward_task \<Rightarrow> registry \<Rightarrow> routed_event list \<Rightarrow> forwarded_state" where
  "finished t w queue = (let (t, w) = finish_forward t w in (t, w, queue))"

text \<open>An event that is not sent is dropped with its emission handle.\<close>

definition forward_send :: "bool \<Rightarrow> nat \<Rightarrow> forward_task \<Rightarrow> u16 \<times> bytes \<Rightarrow> registry \<Rightarrow> routed_event list \<Rightarrow> forwarded_state" where
  "forward_send open held t event w queue =
    (case forward_body t event of
       Inl _ \<Rightarrow> finished t w queue
     | Inr body \<Rightarrow>
       let i = ft_subscription t;
           notification = (fst event = UPDATE_NOTIFICATION);
           routed = (ft_id t, \<lparr> ce_body = body, ce_emission = if notification then Some i else None \<rparr>) in
       (case event_try_send open held routed queue of
          (SendOk, queue) \<Rightarrow>
            if notification then (t\<lparr> ft_phase := ForwardCalling \<rparr>, emission_hold i w, queue)
            else finished t w queue
        | (SendClosed, queue) \<Rightarrow> finished t w queue
        | (SendFull, queue) \<Rightarrow>
            let w = subscription_cancel i w in
            (case forward_body t (UPDATE_SUBSCRIPTION_OVERFLOW, encode_update_subscription_overflow (ft_id t)) of
               Inl _ \<Rightarrow> finished t w queue
             | Inr overflow \<Rightarrow> (t\<lparr> ft_phase := ForwardOverflowing overflow \<rparr>, w, queue))))"

definition forward_observe :: "bool \<Rightarrow> nat \<Rightarrow> forward_task \<Rightarrow> update_subscription_poll \<times> registry
    \<Rightarrow> routed_event list \<Rightarrow> forwarded_state" where
  "forward_observe open held t polled queue =
    (case polled of
       (PollPending, w) \<Rightarrow> (t\<lparr> ft_phase := ForwardWaiting \<rparr>, w, queue)
     | (PollNotification update_id, w) \<Rightarrow> forward_send open held t (UPDATE_NOTIFICATION,
         encode_update_notification \<lparr> un_subscription_id = ft_id t, un_update_id = update_id \<rparr>) w queue
     | (PollInvalidated ended, w) \<Rightarrow>
         (case terminal_subscription_event ended (ft_id t) of
            None \<Rightarrow> finished t w queue
          | Some event \<Rightarrow> forward_send open held t event w queue))"

text \<open>One poll of \<open>forward_subscription\<close>; both its \<open>select!\<close>s look at the cancellation first.\<close>

definition forward_poll :: "bool \<Rightarrow> nat \<Rightarrow> forward_task \<Rightarrow> registry \<Rightarrow> routed_event list \<Rightarrow> forwarded_state" where
  "forward_poll open held t w queue =
    (let i = ft_subscription t;
         observing = (\<lambda>polled. if ft_cancelled t then finished t (subscription_cancel i w) queue
           else forward_observe open held t polled queue) in
     case ft_phase t of
       ForwardStarting \<Rightarrow> (t\<lparr> ft_phase := ForwardCalling \<rparr>, emission_hold i w, queue)
     | ForwardCalling \<Rightarrow> observing (subscription_next i w)
     | ForwardWaiting \<Rightarrow> observing (next_select i w)
     | ForwardOverflowing overflow \<Rightarrow>
         if ft_cancelled t \<or> \<not> open then finished t w queue
         else if length queue \<ge> CONNECTION_EVENT_QUEUE_CAPACITY then (t, w, queue)
         else finished t w (queue @ [(ft_id t, \<lparr> ce_body = overflow, ce_emission = None \<rparr>)])
     | ForwardDone \<Rightarrow> (t, w, queue))"

section \<open>The connection\<close>

text \<open>What a body written to the connection is, recorded with it: the reply to a request or an event.\<close>

datatype output_tag =
    Replied envelope
  | Acked update_subscription_id u64 envelope
  | CancelReplied update_subscription_id envelope
  | Notified update_subscription_id
  | Terminated update_subscription_id

datatype connection_error =
  ConnectionHandler handler_error | ConnectionRead io_error | ConnectionOutput | ConnectionQueueClosed

text \<open>
  Where the serving loop is: at the top of an iteration, at the first, second or third branch of
  its biased \<open>select!\<close>, at an await point inside a branch, or past the loop, before or after the
  channel is closed.
\<close>

datatype connection_mode =
    LoopStart | SelectTasks | SelectEvents | SelectRequests
  | EmissionEntering routed_event | EmissionEntered routed_event | EmissionWriting routed_event
  | RevokeExcluding envelope nat revoke_capability_request
  | CancelFinishing envelope update_subscription_id
  | Returned "connection_error + unit"
  | ChannelClosed "connection_error + unit"

text \<open>
  \<open>cn_input\<close> is what the reader has not read yet, None once it has returned.  \<open>cn_active\<close> lists the
  keys of \<open>active_subscriptions\<close>; the value of a key is the two ends of channels to its task.
\<close>

record connection =
  cn_store :: durable_update_store
  cn_channel :: broker_channel
  cn_input :: "bytes option"
  cn_requests :: "relay_result list"
  cn_events :: "routed_event list"
  cn_active :: "update_subscription_id list"
  cn_tasks :: "forward_task list"
  cn_next_subscription_id :: id16
  cn_mode :: connection_mode
  cn_output :: "(output_tag \<times> bytes) list"

definition on_registry :: "(registry \<Rightarrow> registry) \<Rightarrow> connection \<Rightarrow> connection" where
  "on_registry f c = c\<lparr> cn_store := (cn_store c)\<lparr> ds_subscriptions := f (ds_subscriptions (cn_store c)) \<rparr> \<rparr>"

abbreviation cn_registry :: "connection \<Rightarrow> registry" where
  "cn_registry c \<equiv> ds_subscriptions (cn_store c)"

definition task_done :: "forward_task \<Rightarrow> bool" where
  "task_done t \<longleftrightarrow> ft_phase t = ForwardDone"

text \<open>
  \<open>serve_connection\<close> opens the channel; None when the channel identities are exhausted, and then
  nothing is served.
\<close>

definition serve_connection :: "durable_update_store \<Rightarrow> bytes \<Rightarrow> connection option \<times> durable_update_store" where
  "serve_connection s input =
    (case open_broker_channel s of
       (None, s) \<Rightarrow> (None, s)
     | (Some channel, s) \<Rightarrow> (Some \<lparr> cn_store = s, cn_channel = channel, cn_input = Some input,
         cn_requests = [], cn_events = [], cn_active = [], cn_tasks = [], cn_next_subscription_id = 1,
         cn_mode = LoopStart, cn_output = [] \<rparr>, s))"

text \<open>One turn of the reader task, when the queue has room for what it reads.\<close>

definition read_request :: "connection \<Rightarrow> connection" where
  "read_request c =
    (case cn_input c of
       None \<Rightarrow> c
     | Some input \<Rightarrow>
       if length (cn_requests c) \<ge> CONNECTION_EVENT_QUEUE_CAPACITY then c
       else case read_body input of
           Inl err \<Rightarrow> c\<lparr> cn_requests := cn_requests c @ [Inl err], cn_input := None \<rparr>
         | Inr (None, rest) \<Rightarrow> c\<lparr> cn_requests := cn_requests c @ [Inr None], cn_input := None \<rparr>
         | Inr (Some body, rest) \<Rightarrow> c\<lparr> cn_requests := cn_requests c @ [Inr (Some body)], cn_input := Some rest \<rparr>)"

text \<open>
  The function returns: the queued events go with the receiver, every cancellation sender goes
  with \<open>active_subscriptions\<close>; the tasks are aborted at their next await point.
\<close>

definition drop_events :: "routed_event list \<Rightarrow> registry \<Rightarrow> registry" where
  "drop_events events w = foldl (\<lambda>w (_, event). case ce_emission event of
      None \<Rightarrow> w | Some i \<Rightarrow> emission_drop i w) w events"

definition return_with :: "connection_error + unit \<Rightarrow> connection \<Rightarrow> connection" where
  "return_with result c = (on_registry (drop_events (cn_events c)) c)\<lparr> cn_mode := Returned result,
    cn_events := [], cn_active := [], cn_tasks := map (\<lambda>t. t\<lparr> ft_cancelled := True \<rparr>) (cn_tasks c) \<rparr>"

text \<open>\<open>write_body\<close> either puts the whole body on the stream or ends the connection.\<close>

definition conn_write :: "bool \<Rightarrow> output_tag \<Rightarrow> bytes \<Rightarrow> connection \<Rightarrow> connection" where
  "conn_write written tag body c =
    (if written then c\<lparr> cn_output := cn_output c @ [(tag, body)], cn_mode := LoopStart \<rparr>
     else return_with (Inl ConnectionOutput) c)"

definition conn_reply :: "bool \<Rightarrow> output_tag \<Rightarrow> handler_result \<Rightarrow> connection \<Rightarrow> connection" where
  "conn_reply written tag result c =
    (case result of
       Inl err \<Rightarrow> return_with (Inl (ConnectionHandler err)) c
     | Inr body \<Rightarrow> conn_write written tag body c)"

definition conn_error :: "bool \<Rightarrow> envelope \<Rightarrow> update_error_code \<Rightarrow> connection \<Rightarrow> connection" where
  "conn_error written request code = conn_reply written (Replied request) (update_error_response request code)"

section \<open>Requests\<close>

text \<open>
  The acknowledgement is written before the task exists; a subscription that is not acknowledged
  is dropped with the function.
\<close>

definition serve_subscribe :: "(bytes \<Rightarrow> key32) \<Rightarrow> bool \<Rightarrow> envelope \<Rightarrow> subscribe_updates_request
    \<Rightarrow> connection \<Rightarrow> connection" where
  "serve_subscribe sha written request subscribe c =
    (if length (cn_tasks c) \<ge> MAX_UPDATE_SUBSCRIPTIONS_PER_CHANNEL then conn_error written request UpBackpressure c
     else
       let subscription_id = cn_next_subscription_id c in
       case checked_add (cn_next_subscription_id c) 1 of
         None \<Rightarrow> conn_error written request UpBackpressure c
       | Some following \<Rightarrow>
         (case subscribe_updates sha (cn_store c) (cn_channel c) (su_document_id subscribe)
             (ca_capability_id (su_authority subscribe)) (ca_authenticator (su_authority subscribe)) of
            (SubAuthorizationDenied, s) \<Rightarrow> conn_error written request UpAuthorizationDenied (c\<lparr> cn_store := s \<rparr>)
          | (SubBackpressure, s) \<Rightarrow> conn_error written request UpBackpressure (c\<lparr> cn_store := s \<rparr>)
          | (SubAcknowledged i, s) \<Rightarrow>
            let c = c\<lparr> cn_store := s, cn_next_subscription_id := following \<rparr>;
                abandoned = on_registry (drop_subscription i) c in
            (case response request SUBSCRIBE_UPDATES_ACK (encode_subscribe_updates_ack subscription_id) of
               Inl err \<Rightarrow> return_with (Inl (ConnectionHandler err)) abandoned
             | Inr body \<Rightarrow>
               if written
               then (conn_write True (Acked subscription_id i request) body c)\<lparr>
                 cn_active := subscription_id # removeAll subscription_id (cn_active c),
                 cn_tasks := cn_tasks c @ [\<lparr> ft_subscription = i, ft_id = subscription_id,
                   ft_correlation_id = ev_correlation_id request, ft_cancelled = False,
                   ft_phase = ForwardStarting \<rparr>] \<rparr>
               else return_with (Inl ConnectionOutput) abandoned)))"

definition cancel_reply :: "bool \<Rightarrow> envelope \<Rightarrow> update_subscription_id \<Rightarrow> connection \<Rightarrow> connection" where
  "cancel_reply written request subscription_id = conn_reply written (CancelReplied subscription_id request)
    (response request CANCEL_UPDATE_SUBSCRIPTION_RESPONSE (encode_cancel_update_subscription subscription_id))"

definition serve_cancel :: "bool \<Rightarrow> envelope \<Rightarrow> update_subscription_id \<Rightarrow> connection \<Rightarrow> connection" where
  "serve_cancel written request subscription_id c =
    (if subscription_id \<in> set (cn_active c)
     then c\<lparr> cn_active := removeAll subscription_id (cn_active c),
       cn_tasks := map (\<lambda>t. if ft_id t = subscription_id then t\<lparr> ft_cancelled := True \<rparr> else t) (cn_tasks c),
       cn_mode := CancelFinishing request subscription_id \<rparr>
     else cancel_reply written request subscription_id c)"

definition serve_other :: "(bytes \<Rightarrow> key32) \<Rightarrow> request_context \<Rightarrow> bool \<Rightarrow> envelope \<Rightarrow> connection \<Rightarrow> connection" where
  "serve_other sha ctx written request c =
    (case handle_request sha ctx request (cn_channel c) (cn_store c) of
       (HandlerDone result, s) \<Rightarrow> conn_reply written (Replied request) result (c\<lparr> cn_store := s \<rparr>)
     | (HandlerExcluding gate revoking, s) \<Rightarrow>
         c\<lparr> cn_store := s, cn_mode := RevokeExcluding request gate revoking \<rparr>)"

definition serve_envelope :: "(bytes \<Rightarrow> key32) \<Rightarrow> request_context \<Rightarrow> bool \<Rightarrow> envelope \<Rightarrow> connection \<Rightarrow> connection" where
  "serve_envelope sha ctx written request c =
    (if ev_message_type request = SUBSCRIBE_UPDATES \<and> ev_version request = VERSION then
       (case decode_subscribe_updates_request (ev_payload request) of
          Inl _ \<Rightarrow> conn_error written request UpMalformed c
        | Inr subscribe \<Rightarrow> serve_subscribe sha written request subscribe c)
     else if ev_message_type request = CANCEL_UPDATE_SUBSCRIPTION \<and> ev_version request = VERSION then
       (case decode_cancel_update_subscription (ev_payload request) of
          Inl _ \<Rightarrow> conn_error written request UpMalformed c
        | Inr subscription_id \<Rightarrow> serve_cancel written request subscription_id c)
     else serve_other sha ctx written request c)"

definition serve_body :: "(bytes \<Rightarrow> key32) \<Rightarrow> request_context \<Rightarrow> bool \<Rightarrow> relay_result \<Rightarrow> connection \<Rightarrow> connection" where
  "serve_body sha ctx written body c =
    (case body of
       Inl err \<Rightarrow> return_with (Inl (ConnectionRead err)) c
     | Inr None \<Rightarrow> return_with (Inr ()) c
     | Inr (Some body) \<Rightarrow>
         (case decode_body body of
            Inl _ \<Rightarrow> return_with (Inr ()) c
          | Inr request \<Rightarrow> serve_envelope sha ctx written request c))"

section \<open>Events out\<close>

text \<open>\<open>write_connection_event\<close>: an event without an emission is written as it is.\<close>

definition write_event :: "bool \<Rightarrow> routed_event \<Rightarrow> connection \<Rightarrow> connection" where
  "write_event written event c =
    (case ce_emission (snd event) of
       None \<Rightarrow> conn_write written (Terminated (fst event)) (ce_body (snd event)) c
     | Some i \<Rightarrow> c\<lparr> cn_mode := EmissionEntering event \<rparr>)"

definition emission_gate_id :: "routed_event \<Rightarrow> registry \<Rightarrow> u64 \<times> nat" where
  "emission_gate_id event w = (let i = the (ce_emission (snd event)) in (i, sc_gate (rg_cells w i)))"

definition enter_emission :: "routed_event \<Rightarrow> connection \<Rightarrow> connection" where
  "enter_emission event c =
    (case gate_read (snd (emission_gate_id event (cn_registry c))) (cn_registry c) of
       None \<Rightarrow> c
     | Some w \<Rightarrow> (on_registry (\<lambda>_. w) c)\<lparr> cn_mode := EmissionEntered event \<rparr>)"

text \<open>The guard and the emission handle go when the write is over, or at once without authority.\<close>

definition leave_emission :: "routed_event \<Rightarrow> connection \<Rightarrow> connection" where
  "leave_emission event = on_registry (\<lambda>w. let (i, g) = emission_gate_id event w in
    emission_drop i (drop_read_guard g w))"

definition check_emission :: "routed_event \<Rightarrow> connection \<Rightarrow> connection" where
  "check_emission event c =
    (if is_authorized (fst (emission_gate_id event (cn_registry c))) (cn_registry c)
     then c\<lparr> cn_mode := EmissionWriting event \<rparr>
     else (leave_emission event c)\<lparr> cn_mode := LoopStart \<rparr>)"

section \<open>The loop\<close>

fun join_next :: "forward_task list \<Rightarrow> forward_task list option" where
  "join_next [] = None"
| "join_next (t # ts) = (if task_done t then Some ts else map_option ((#) t) (join_next ts))"

definition retain_open :: "connection \<Rightarrow> connection" where
  "retain_open c = c\<lparr> cn_active := filter (\<lambda>subscription_id.
    \<exists>t \<in> set (cn_tasks c). ft_id t = subscription_id \<and> \<not> task_done t) (cn_active c) \<rparr>"

definition serve_poll :: "(bytes \<Rightarrow> key32) \<Rightarrow> request_context \<Rightarrow> bool \<Rightarrow> connection \<Rightarrow> connection" where
  "serve_poll sha ctx written c =
    (case cn_mode c of
       LoopStart \<Rightarrow> (retain_open c)\<lparr> cn_mode := SelectTasks \<rparr>
     | SelectTasks \<Rightarrow> (case join_next (cn_tasks c) of
         None \<Rightarrow> c\<lparr> cn_mode := SelectEvents \<rparr>
       | Some tasks \<Rightarrow> c\<lparr> cn_tasks := tasks, cn_mode := LoopStart \<rparr>)
     | SelectEvents \<Rightarrow> (case cn_events c of
         [] \<Rightarrow> c\<lparr> cn_mode := SelectRequests \<rparr>
       | event # events \<Rightarrow> write_event written event (c\<lparr> cn_events := events \<rparr>))
     | SelectRequests \<Rightarrow> (case cn_requests c of
         [] \<Rightarrow> if cn_input c = None then return_with (Inl ConnectionQueueClosed) c
           else c\<lparr> cn_mode := SelectTasks \<rparr>
       | body # requests \<Rightarrow> serve_body sha ctx written body (c\<lparr> cn_requests := requests \<rparr>))
     | EmissionEntering event \<Rightarrow> enter_emission event c
     | EmissionEntered event \<Rightarrow> check_emission event c
     | EmissionWriting event \<Rightarrow>
         conn_write written (Notified (fst event)) (ce_body (snd event)) (leave_emission event c)
     | RevokeExcluding request gate revoking \<Rightarrow>
         (case excluded_revoke sha request gate revoking (cn_store c) of
            None \<Rightarrow> c
          | Some (result, s) \<Rightarrow> conn_reply written (Replied request) result (c\<lparr> cn_store := s \<rparr>))
     | CancelFinishing request subscription_id \<Rightarrow>
         if \<exists>t \<in> set (cn_tasks c). ft_id t = subscription_id \<and> \<not> task_done t then c
         else cancel_reply written request subscription_id c
     | Returned result \<Rightarrow> c\<lparr> cn_store := close_broker_channel (cn_channel c) (cn_store c),
         cn_mode := ChannelClosed result \<rparr>
     | ChannelClosed result \<Rightarrow> c)"

fun conn_over :: "connection_mode \<Rightarrow> bool" where
  "conn_over (Returned result) = True"
| "conn_over (ChannelClosed result) = True"
| "conn_over _ = False"

definition forward_at :: "nat \<Rightarrow> nat \<Rightarrow> connection \<Rightarrow> connection" where
  "forward_at k held c =
    (let (t, w, events) = forward_poll (\<not> conn_over (cn_mode c)) held (cn_tasks c ! k) (cn_registry c) (cn_events c) in
     (on_registry (\<lambda>_. w) c)\<lparr> cn_tasks := (cn_tasks c)[k := t], cn_events := events \<rparr>)"

text \<open>An aborted task is dropped where it waits.\<close>

definition abort_at :: "nat \<Rightarrow> connection \<Rightarrow> connection" where
  "abort_at k c = (let (t, w) = finish_forward (cn_tasks c ! k) (cn_registry c) in
    (on_registry (\<lambda>_. w) c)\<lparr> cn_tasks := (cn_tasks c)[k := t] \<rparr>)"

definition overflowing :: "forward_task \<Rightarrow> bool" where
  "overflowing t \<longleftrightarrow> (\<exists>body. ft_phase t = ForwardOverflowing body)"

text \<open>
  The steps.  The other connections change the store as \<open>server_step\<close> says, and take and give back
  gates; none of them holds this connection's channel.
\<close>

inductive connection_step :: "(bytes \<Rightarrow> key32) \<Rightarrow> connection \<Rightarrow> connection \<Rightarrow> bool" for sha where
  cs_read: "connection_step sha c (read_request c)"
| cs_serve: "connection_step sha c (serve_poll sha ctx written c)"
| cs_forward: "k < length (cn_tasks c) \<Longrightarrow> held \<le> length (filter overflowing (cn_tasks c)) \<Longrightarrow>
    connection_step sha c (forward_at k held c)"
| cs_abort: "conn_over (cn_mode c) \<Longrightarrow> k < length (cn_tasks c) \<Longrightarrow> \<not> task_done (cn_tasks c ! k) \<Longrightarrow>
    connection_step sha c (abort_at k c)"
| cs_others: "server_step sha (cn_store c) s \<Longrightarrow>
    bc_lease (cn_channel c) \<in> set (rg_leases (cn_registry c)) \<longrightarrow> bc_lease (cn_channel c) \<in> set (rg_leases (ds_subscriptions s)) \<Longrightarrow>
    rg_broker (ds_subscriptions s) = rg_broker (cn_registry c) \<Longrightarrow>
    connection_step sha c (c\<lparr> cn_store := s \<rparr>)"
| cs_gates: "connection_step sha c (on_registry (\<lambda>w. w\<lparr> rg_gates := gates \<rparr>) c)"

inductive connection_run :: "(bytes \<Rightarrow> key32) \<Rightarrow> connection \<Rightarrow> connection \<Rightarrow> bool" for sha where
  connection_start: "connection_run sha c c"
| connection_next: "connection_run sha c c' \<Longrightarrow> connection_step sha c' c'' \<Longrightarrow> connection_run sha c c''"

section \<open>The accept loop\<close>

text \<open>
  The loop of \<open>main\<close>: a connection is served as long as it has one of the slots, and dropped
  unserved without one; a byte or the end of the standard input, a signal or an error ends the
  loop.
\<close>

definition MAX_CONNECTIONS :: nat where "MAX_CONNECTIONS = 1024"

record accept_loop =
  al_slots :: nat
  al_serving :: nat
  al_dropped :: nat
  al_result :: "(io_error + unit) option"

definition accept_initial :: accept_loop where
  "accept_initial = \<lparr> al_slots = MAX_CONNECTIONS, al_serving = 0, al_dropped = 0, al_result = None \<rparr>"

datatype accept_event =
  Accepted | AcceptFailed io_error | ConnectionOver | ParentRead "io_error + nat" | Interrupted "io_error + unit"

fun accept_step :: "accept_event \<Rightarrow> accept_loop \<Rightarrow> accept_loop" where
  "accept_step Accepted a =
    (if al_slots a = 0 then a\<lparr> al_dropped := al_dropped a + 1 \<rparr>
     else a\<lparr> al_slots := al_slots a - 1, al_serving := al_serving a + 1 \<rparr>)"
| "accept_step (AcceptFailed err) a = a\<lparr> al_result := Some (Inl err) \<rparr>"
| "accept_step ConnectionOver a =
    (if al_serving a = 0 then a else a\<lparr> al_slots := al_slots a + 1, al_serving := al_serving a - 1 \<rparr>)"
| "accept_step (ParentRead result) a =
    a\<lparr> al_result := Some (case result of Inl err \<Rightarrow> Inl err | Inr count \<Rightarrow> Inr ()) \<rparr>"
| "accept_step (Interrupted result) a = a\<lparr> al_result := Some result \<rparr>"

text \<open>The loop takes events until it has a result.\<close>

fun accept_run :: "accept_event list \<Rightarrow> accept_loop \<Rightarrow> accept_loop" where
  "accept_run [] a = a"
| "accept_run (event # events) a = (if al_result a \<noteq> None then a else accept_run events (accept_step event a))"

lemma accept_slots:
  assumes "al_slots a + al_serving a = MAX_CONNECTIONS"
  shows "al_slots (accept_run events a) + al_serving (accept_run events a) = MAX_CONNECTIONS"
  using assms
proof (induction events arbitrary: a)
  case (Cons event events)
  have "al_slots (accept_step event a) + al_serving (accept_step event a) = MAX_CONNECTIONS"
    using Cons.prems by (cases event) auto
  then show ?case using Cons by simp
qed simp

lemma accept_bounded: "al_serving (accept_run events accept_initial) \<le> 1024"
  using accept_slots [of accept_initial events] by (simp add: accept_initial_def MAX_CONNECTIONS_def)

end
