(* ===== verification/Connection_Frames.thy ===== *)
theory Connection_Frames
  imports Connection
begin

text \<open>
  What a step of the store process does to the registry as one connection sees it: the
  subscriptions that have ended stay ended, and the channels stay as they are unless one is opened
  or closed.
\<close>

definition settles :: "registry \<Rightarrow> registry \<Rightarrow> bool" where
  "settles w w' \<longleftrightarrow> rg_next_subscription_id w \<le> rg_next_subscription_id w'
    \<and> (\<forall>i < rg_next_subscription_id w. \<not> cell_active (rg_cells w i) \<longrightarrow> \<not> cell_active (rg_cells w' i))"

definition steady :: "registry \<Rightarrow> registry \<Rightarrow> bool" where
  "steady w w' \<longleftrightarrow> settles w w' \<and> rg_leases w' = rg_leases w \<and> rg_broker w' = rg_broker w"

lemma settles_refl [simp]: "settles w w"
  by (simp add: settles_def)

lemma settles_trans: "settles w w' \<Longrightarrow> settles w' w'' \<Longrightarrow> settles w w''"
  unfolding settles_def by (meson order_trans less_le_trans)

lemma steady_refl [simp]: "steady w w"
  by (simp add: steady_def)

lemma steady_trans: "steady w w' \<Longrightarrow> steady w' w'' \<Longrightarrow> steady w w''"
  unfolding steady_def using settles_trans by auto

lemma steady_settles: "steady w w' \<Longrightarrow> settles w w'"
  by (simp add: steady_def)

lemma settlesD:
  "settles w w' \<Longrightarrow> i < rg_next_subscription_id w \<Longrightarrow> i < rg_next_subscription_id w'"
  "settles w w' \<Longrightarrow> i < rg_next_subscription_id w \<Longrightarrow> \<not> cell_active (rg_cells w i) \<Longrightarrow> \<not> cell_active (rg_cells w' i)"
  unfolding settles_def by (auto intro: less_le_trans)

lemma registry_step_settles: "registry_ok w \<Longrightarrow> settles w (registry_step e w)"
  unfolding settles_def using registry_step_next [of w _ e] registry_step_terminal [of w _ e]
  by (metis linorder_not_le order_less_irrefl)

lemma gates_only_steady: "gates_only w w' \<Longrightarrow> steady w w'"
  unfolding gates_only_def by (erule ssubst) (simp add: steady_def settles_def)

lemma gates_steady [simp]: "steady w (w\<lparr> rg_gates := gates \<rparr>)"
  by (simp add: steady_def settles_def)

lemma gate_steps_steady [simp]:
  "steady w (drop_gate g w)" "steady w (hold_gate g w)" "steady w (emission_hold i w)"
  "steady w (emission_drop i w)" "steady w (drop_exclusion g w)" "steady w (drop_read_guard g w)"
  "exclude_admission g w = Inr v \<Longrightarrow> steady w v" "exclude_write g w = Some v \<Longrightarrow> steady w v"
  "gate_read g w = Some v \<Longrightarrow> steady w v"
  by (auto simp add: drop_gate_def hold_gate_def emission_hold_def emission_drop_def gate_op_defs split: if_splits)

lemma walk_steady:
  assumes "registry_ok w" "walks_locally (rg_leases w) f k g" "retain f w = registry_step e w"
  shows "steady w (retain f w)"
  using registry_step_settles [OF assms(1), of e] retain_frame(1,2) [OF assms(1,2)]
  by (simp add: steady_def assms(3))

lemma notify_steady: "registry_ok w \<Longrightarrow> steady w (notify d u w)"
  using walk_steady [OF _ notify_local, where e = "Notify d u"] by (simp add: notify_def)

lemma invalidate_subscriptions_steady: "registry_ok w \<Longrightarrow> steady w (invalidate_subscriptions ids r w)"
  using walk_steady [OF _ end_where_local, where e = "InvalidateSubscriptions ids r"]
  by (simp add: invalidate_subscriptions_def)

lemma emission_gate_steady [simp]: "steady w (snd (emission_gate_of d w))"
  by (rule gates_only_steady [OF emission_gate_frame])

lemma register_steady: "registry_ok w \<Longrightarrow> steady w (snd (register channel d c w))"
proof -
  assume ok: "registry_ok w"
  have "rg_leases (prune w) = rg_leases w" "rg_broker (prune w) = rg_broker w"
    using retain_frame(1,2) [OF ok prune_local] by (simp_all add: prune_def)
  then have "rg_leases (snd (register channel d c w)) = rg_leases w
      \<and> rg_broker (snd (register channel d c w)) = rg_broker w"
    by (cases rule: register_cases [of channel d c w]) auto
  then show ?thesis using registry_step_settles [OF ok, of "Register channel d c"] by (simp add: steady_def)
qed

lemma touches_broker: "touches i w w' \<Longrightarrow> rg_broker w' = rg_broker w"
  by (auto simp add: touches_def)

lemma touches_steady: "touches i w w' \<Longrightarrow> steady w w'"
  using touchesD(2,3,5) [of i w w'] touches_broker [of i w w'] by (simp add: steady_def settles_def)

lemma receive_steady [simp]:
  "steady w (snd (subscription_next i w))" "steady w (snd (next_select i w))" "steady w (subscription_cancel i w)"
  by (rule touches_steady, rule touches_next touches_select touches_cancel)+

lemma drop_subscription_steady [simp]: "steady w (drop_subscription i w)"
  unfolding drop_subscription_def Let_def
  by (rule steady_trans [OF receive_steady(3) gate_steps_steady(1)])

section \<open>Requests\<close>

abbreviation kept :: "durable_update_store \<Rightarrow> durable_update_store \<Rightarrow> bool" where
  "kept s s' \<equiv> steady (ds_subscriptions s) (ds_subscriptions s')"

lemma server_registry_ok: "server_ok sha s \<Longrightarrow> registry_ok (ds_subscriptions s)"
  using broker_okD(2) by (auto simp add: server_ok_def)

lemma durable_steady:
  "kept s (snd (durable_create_document sha s authority ca req d c a))"
  "kept s (snd (durable_grant_capability sha s d issuer ia req c a ops))"
  "registry_ok (ds_subscriptions s) \<Longrightarrow> kept s (snd (durable_revoke_capability sha s d issuer ia req target))"
  "registry_ok (ds_subscriptions s) \<Longrightarrow> kept s (snd (durable_accept sha s c a update rec))"
  by (auto simp add: durable_create_document_def durable_grant_capability_def durable_revoke_capability_def
      durable_accept_def Let_def invalidate_subscriptions_steady notify_steady
      split: sum.split store_control_outcome.split store_accept_outcome.split)

lemma enumerate_steady:
  "server_ok sha s \<Longrightarrow> kept s (snd (enumerate_authorized sha s channel d c a start REPLY_PAGE_LIMIT now later rnd))"
  using enumerate_authorized_effect [OF broker_okD(1,3) checked_page_limits(3) prod.collapse [symmetric],
      of sha s sha channel d c a start now later rnd]
  by (auto simp add: server_ok_def enumeration_effect_def)

lemma vector_steady:
  "server_ok sha s \<Longrightarrow>
    kept s (snd (vector_backfill_authorized sha s channel d c a version start REPLY_PAGE_LIMIT now later rnd))"
  using vector_backfill_authorized_effect [OF broker_okD(1,4) checked_page_limits(3) prod.collapse [symmetric],
      of sha s sha channel d c a version start now later rnd]
  by (auto simp add: server_ok_def vector_effect_def)

lemma handlers_steady:
  assumes "server_ok sha s"
  shows "kept s (snd (handle_create sha request s))" "kept s (snd (handle_grant sha request s))"
    "kept s (snd (handle_accept sha request s))" "kept s (snd (handle_revoke sha request s))"
    "kept s (snd (handle_enumerate sha c request channel s))"
    "kept s (snd (handle_vector_backfill sha c request channel s))"
proof -
  note ok = server_registry_ok [OF assms]
  show "kept s (snd (handle_create sha request s))"
    using durable_steady(1) [of s sha]
    by (auto simp add: handle_create_def split: sum.split prod.split) (metis snd_conv)+
  show "kept s (snd (handle_grant sha request s))"
    using durable_steady(2) [of s sha]
    by (auto simp add: handle_grant_def split: sum.split prod.split) (metis snd_conv)+
  show "kept s (snd (handle_accept sha request s))"
    using durable_steady(4) [OF ok, of sha]
    by (auto simp add: handle_accept_def split: sum.split prod.split) (metis snd_conv)+
  show "kept s (snd (handle_enumerate sha c request channel s))"
    using enumerate_steady [OF assms]
    by (auto simp add: handle_enumerate_def checked_page_limits split: sum.split prod.split store_enumerate_outcome.split)
      (metis snd_conv)+
  show "kept s (snd (handle_vector_backfill sha c request channel s))"
    using vector_steady [OF assms]
    by (auto simp add: handle_vector_backfill_def checked_page_limits
        split: sum.split prod.split store_vector_backfill_outcome.split update_codec_error.split)
      (metis snd_conv)+
  show "kept s (snd (handle_revoke sha request s))"
  proof (cases "decode_revoke_capability_request (ev_payload request)")
    case (Inr revoking)
    let ?g = "emission_gate_of (rc_document_id revoking) (ds_subscriptions s)"
    have "steady (ds_subscriptions s) (drop_gate (fst ?g) (snd ?g))"
      by (rule steady_trans [OF emission_gate_steady gate_steps_steady(1)])
    moreover have "steady (ds_subscriptions s) w" if "exclude_admission (fst ?g) (snd ?g) = Inr w" for w
      by (rule steady_trans [OF emission_gate_steady gate_steps_steady(7) [OF that]])
    ultimately show ?thesis
      by (simp add: handle_revoke_def Inr document_emission_gate_def case_prod_beta Let_def
          split: sum.split store_revoke_preflight.split)
  qed (simp add: handle_revoke_def)
qed

lemma handle_request_steady: "server_ok sha s \<Longrightarrow> kept s (snd (handle_request sha c request channel s))"
  using handlers_steady [of sha s]
  by (auto simp add: handle_request_def handler_done_def case_prod_beta)

lemma excluded_revoke_steady:
  assumes "server_ok sha s" "excluded_revoke sha request gate revoking s = Some (result, s')"
  shows "kept s s'"
proof -
  obtain w where w: "exclude_write gate (ds_subscriptions s) = Some w"
    using assms(2) by (auto simp add: excluded_revoke_def split: option.splits)
  let ?s = "s\<lparr> ds_subscriptions := w \<rparr>"
  have ok: "registry_ok (ds_subscriptions ?s)"
    by (rule server_registry_ok [OF exclude_write_ok [OF assms(1) w]])
  obtain r s1 where r: "durable_revoke_capability sha ?s (rc_document_id revoking)
    (ca_capability_id (rc_issuer revoking)) (ca_authenticator (rc_issuer revoking)) (rc_request_id revoking)
    (rc_target_capability_id revoking) = (r, s1)" by fastforce
  have "steady (ds_subscriptions s) w" by (rule gate_steps_steady(8) [OF w])
  moreover have "steady w (ds_subscriptions s1)"
    using durable_steady(3) [OF ok, of sha "rc_document_id revoking" "ca_capability_id (rc_issuer revoking)"
      "ca_authenticator (rc_issuer revoking)" "rc_request_id revoking" "rc_target_capability_id revoking"]
    by (simp add: r)
  moreover have "ds_subscriptions s' = drop_gate gate (drop_exclusion gate (ds_subscriptions s1))"
    using assms(2) by (auto simp add: excluded_revoke_def w r Let_def)
  moreover have "steady (ds_subscriptions s1) (drop_gate gate (drop_exclusion gate (ds_subscriptions s1)))"
    by (rule steady_trans [OF gate_steps_steady(5) gate_steps_steady(1)])
  ultimately show ?thesis by (metis steady_trans)
qed

lemma subscribe_steady:
  "registry_ok (ds_subscriptions s) \<Longrightarrow> kept s (snd (subscribe_updates sha s channel d c a))"
  using register_steady [of "ds_subscriptions s" channel d c]
  by (auto simp add: subscribe_updates_def Let_def split: prod.split sum.split register_error.split)

lemma server_step_settles:
  assumes "server_step sha s s'" "server_ok sha s"
  shows "settles (ds_subscriptions s) (ds_subscriptions s')"
  using assms
proof (induction rule: server_step.induct)
  case (sv_open s)
  then show ?case
    using registry_step_settles [OF server_registry_ok, where e = OpenChannel]
    by (simp add: open_broker_channel_def case_prod_beta)
next
  case (sv_close s channel)
  then show ?case
    using registry_step_settles [OF server_registry_ok, where e = "CloseChannel channel"]
    by (simp add: close_broker_channel_def)
qed (auto simp add: registry_step_settles server_registry_ok intro!: steady_settles handle_request_steady
    excluded_revoke_steady subscribe_steady)

end
