(* ===== verification/Connection_Safety.thy ===== *)
theory Connection_Safety
  imports Connection_Frames
begin

text \<open>
  The protocol of one connection: what the client may see of a subscription, as a reference
  automaton over the bodies written, and the invariant that ties the automaton to the tasks, the
  queues and the registry.
\<close>

section \<open>The protocol\<close>

datatype subscription_phase = SubUnknown | SubOpen | SubCancelled | SubOver

text \<open>
  For the identity \<open>n\<close>: one acknowledgement comes first; wakeups until the reply to a cancellation
  or the terminal event; at most one terminal event, the last event of all.
\<close>

fun protocol_step :: "update_subscription_id \<Rightarrow> output_tag \<Rightarrow> subscription_phase \<Rightarrow> subscription_phase option" where
  "protocol_step n (Replied request) phase = Some phase"
| "protocol_step n (Acked m i request) phase =
    (if m \<noteq> n then Some phase else if phase = SubUnknown then Some SubOpen else None)"
| "protocol_step n (CancelReplied m request) phase =
    Some (if m = n \<and> phase = SubOpen then SubCancelled else phase)"
| "protocol_step n (Notified m) phase =
    (if m \<noteq> n then Some phase else if phase = SubOpen then Some SubOpen else None)"
| "protocol_step n (Terminated m) phase =
    (if m \<noteq> n then Some phase else if phase \<in> {SubOpen, SubCancelled} then Some SubOver else None)"

definition protocol :: "update_subscription_id \<Rightarrow> output_tag list \<Rightarrow> subscription_phase option" where
  "protocol n tags = foldl (\<lambda>phase tag. Option.bind phase (protocol_step n tag)) (Some SubUnknown) tags"

lemma protocol_simps [simp]:
  "protocol n [] = Some SubUnknown"
  "protocol n (tags @ [tag]) = Option.bind (protocol n tags) (protocol_step n tag)"
  by (simp_all add: protocol_def)

section \<open>The bodies\<close>

definition acked :: "output_tag list \<Rightarrow> update_subscription_id \<Rightarrow> u64 \<Rightarrow> bool" where
  "acked tags n i \<longleftrightarrow> (\<exists>request. Acked n i request \<in> set tags)"

text \<open>
  What a body is: the typed reply to a request, with its correlation number, or an event under the
  correlation number of the request that opened its subscription.
\<close>

definition carries :: "bytes \<Rightarrow> id16 \<Rightarrow> u16 \<Rightarrow> bytes \<Rightarrow> bool" where
  "carries body correlation kind payload \<longleftrightarrow> decode_body body = Inr \<lparr> ev_correlation_id = correlation,
    ev_message_type = kind, ev_payload = payload, ev_version = VERSION \<rparr>"

fun entry_ok :: "output_tag list \<Rightarrow> output_tag \<Rightarrow> bytes \<Rightarrow> bool" where
  "entry_ok tags (Replied request) body = typed_reply request body"
| "entry_ok tags (Acked n i request) body =
    carries body (ev_correlation_id request) SUBSCRIBE_UPDATES_ACK (encode_subscribe_updates_ack n)"
| "entry_ok tags (CancelReplied n request) body = (carries body (ev_correlation_id request)
    CANCEL_UPDATE_SUBSCRIPTION_RESPONSE (encode_cancel_update_subscription n)
    \<and> decode_cancel_update_subscription (ev_payload request) = Inr n)"
| "entry_ok tags (Notified n) body = (\<exists>i request update_id. Acked n i request \<in> set tags
    \<and> carries body (ev_correlation_id request) UPDATE_NOTIFICATION
      (encode_update_notification \<lparr> un_subscription_id = n, un_update_id = update_id \<rparr>))"
| "entry_ok tags (Terminated n) body = (\<exists>i request. Acked n i request \<in> set tags
    \<and> (carries body (ev_correlation_id request) UPDATE_SUBSCRIPTION_OVERFLOW (encode_update_subscription_overflow n)
      \<or> carries body (ev_correlation_id request) UPDATE_SUBSCRIPTION_INVALIDATED
        (encode_update_subscription_invalidated n)))"

lemma entry_ok_mono: "entry_ok tags tag body \<Longrightarrow> set tags \<subseteq> set tags' \<Longrightarrow> entry_ok tags' tag body"
  by (cases tag) auto

declare entry_ok.simps [simp del]

lemma acked_mono: "acked tags n i \<Longrightarrow> set tags \<subseteq> set tags' \<Longrightarrow> acked tags' n i"
  by (auto simp add: acked_def)

lemma identity_lengths [simp]:
  "length (encode_subscription_identity n) = 18" "length (encode_update_notification u) = 34"
  "length (encode_subscribe_updates_ack n) = 18" "length (encode_update_subscription_overflow n) = 18"
  "length (encode_update_subscription_invalidated n) = 18" "length (encode_cancel_update_subscription n) = 18"
  by (simp_all add: encode_subscription_identity_def encode_update_notification_def
      encode_subscribe_updates_ack_def encode_update_subscription_overflow_def
      encode_update_subscription_invalidated_def encode_cancel_update_subscription_def)

lemma short_carries:
  assumes "length payload \<le> 34"
  obtains body where "encode_body \<lparr> ev_correlation_id = correlation, ev_message_type = kind,
      ev_payload = payload, ev_version = VERSION \<rparr> = Inr body" "carries body correlation kind payload"
proof -
  let ?e = "\<lparr> ev_correlation_id = correlation, ev_message_type = kind, ev_payload = payload, ev_version = VERSION \<rparr>"
  have "length payload \<le> MAX_APPLICATION_PAYLOAD_LENGTH" using assms by (simp add: update_length_defs)
  then obtain body where body: "encode_body ?e = Inr body" by (auto simp add: encode_body_Inr_iff)
  then have "carries body correlation kind payload" by (simp add: decode_body_iff carries_def)
  with body show thesis by (rule that)
qed

section \<open>The forwarding task\<close>

text \<open>A change of the registry that keeps the store's invariant and every channel.\<close>

definition harmless :: "registry \<Rightarrow> registry \<Rightarrow> bool" where
  "harmless w w' \<longleftrightarrow> steady w w' \<and> (\<forall>sha s. ds_subscriptions s = w \<longrightarrow> server_ok sha s \<longrightarrow>
    server_ok sha (s\<lparr> ds_subscriptions := w' \<rparr>))"

lemma harmless_refl [simp]: "harmless w w"
  by (auto simp add: harmless_def)

lemma harmless_trans: "harmless w w' \<Longrightarrow> harmless w' w'' \<Longrightarrow> harmless w w''"
proof -
  assume h: "harmless w w'" "harmless w' w''"
  have "server_ok sha (s\<lparr> ds_subscriptions := w'' \<rparr>)" if "ds_subscriptions s = w" "server_ok sha s" for sha s
  proof -
    have "server_ok sha (s\<lparr> ds_subscriptions := w' \<rparr>)" using h(1) that by (simp add: harmless_def)
    then have "server_ok sha (s\<lparr> ds_subscriptions := w' \<rparr>\<lparr> ds_subscriptions := w'' \<rparr>)"
      using h(2) unfolding harmless_def by (metis durable_update_store.select_convs(4) durable_update_store.update_convs(4)
        durable_update_store.surjective)
    then show ?thesis by simp
  qed
  moreover have "steady w w''" using h steady_trans by (auto simp add: harmless_def)
  ultimately show ?thesis by (simp add: harmless_def)
qed

lemma harmless_gates: "w' = w\<lparr> rg_gates := gates \<rparr> \<Longrightarrow> harmless w w'"
  unfolding harmless_def using gates_only_ok by auto

lemma harmless_emission [simp]: "harmless w (emission_hold i w)" "harmless w (emission_drop i w)"
  by (rule harmless_gates, simp add: emission_hold_def hold_gate_def emission_drop_def drop_gate_def)+

lemma harmless_guard [simp]: "harmless w (drop_read_guard g w)" "gate_read g w = Some v \<Longrightarrow> harmless w v"
  by (auto intro!: harmless_gates simp add: gate_op_defs split: if_splits)

lemma harmless_receive:
  assumes "ev \<in> {Next i, Select i, TryNext i, Cancel i, DropSubscription i}" "steady w (registry_step ev w)"
  shows "harmless w (registry_step ev w)"
  unfolding harmless_def using assms server_step_ok [OF sv_receive [OF assms(1)]] by blast

lemma harmless_receives [simp]:
  "harmless w (snd (subscription_next i w))" "harmless w (snd (next_select i w))"
  "harmless w (subscription_cancel i w)" "harmless w (drop_subscription i w)"
  using harmless_receive [of "Next i" i w] harmless_receive [of "Select i" i w]
    harmless_receive [of "Cancel i" i w] harmless_receive [of "DropSubscription i" i w] by simp_all

lemma finish_forward_effect:
  assumes "finish_forward t w = (t', w')"
  shows "t' = t\<lparr> ft_phase := ForwardDone \<rparr>" "harmless w w'" "\<not> cell_active (rg_cells w' (ft_subscription t))"
  using assms harmless_trans [OF harmless_emission(2) harmless_receives(4)]
  by (auto simp add: finish_forward_def drop_subscription_inactive)

text \<open>
  One poll: the task goes on, perhaps with one more wakeup in the queue, or it returns with its
  subscription over, perhaps with the terminal event as its last.
\<close>

definition event_of :: "routed_event \<Rightarrow> output_tag" where
  "event_of event = (if ce_emission (snd event) = None then Terminated (fst event) else Notified (fst event))"

definition overflow_kept :: "output_tag list \<Rightarrow> forward_task \<Rightarrow> bool" where
  "overflow_kept tags t \<longleftrightarrow> (\<forall>body. ft_phase t = ForwardOverflowing body \<longrightarrow> entry_ok tags (Terminated (ft_id t)) body)"

definition forwards :: "output_tag list \<Rightarrow> forward_task \<Rightarrow> routed_event list \<Rightarrow> registry \<Rightarrow> forwarded_state \<Rightarrow> bool" where
  "forwards tags t queue w outcome \<longleftrightarrow> (\<exists>t' w' sent. outcome = (t', w', queue @ sent)
    \<and> (\<exists>phase. t' = t\<lparr> ft_phase := phase \<rparr>) \<and> harmless w w' \<and> overflow_kept tags t'
    \<and> length (queue @ sent) \<le> max (length queue) CONNECTION_EVENT_QUEUE_CAPACITY
    \<and> length sent \<le> 1
    \<and> (\<forall>event \<in> set sent. fst event = ft_id t \<and> entry_ok tags (event_of event) (ce_body (snd event))
        \<and> (ce_emission (snd event) = Some (ft_subscription t) \<and> \<not> task_done t'
          \<or> ce_emission (snd event) = None \<and> task_done t'))
    \<and> (task_done t' \<longrightarrow> \<not> cell_active (rg_cells w' (ft_subscription t))))"

lemma forwards_finished:
  assumes "harmless w w'"
    and "sent = [] \<or> sent = [(ft_id t, \<lparr> ce_body = body, ce_emission = None \<rparr>)]
      \<and> entry_ok tags (Terminated (ft_id t)) body \<and> length queue < CONNECTION_EVENT_QUEUE_CAPACITY"
  shows "forwards tags t queue w (finished t w' (queue @ sent))"
proof -
  obtain t' w'' where f: "finish_forward t w' = (t', w'')" by fastforce
  have t': "t' = t\<lparr> ft_phase := ForwardDone \<rparr>" by (rule finish_forward_effect(1) [OF f])
  have "overflow_kept tags t'" "task_done t'" by (simp_all add: t' overflow_kept_def task_done_def)
  then show ?thesis
    unfolding forwards_def finished_def f
    using finish_forward_effect [OF f] harmless_trans [OF assms(1)] assms(2)
    by (intro exI [of _ t'] exI [of _ w''] exI [of _ sent]) (auto simp add: event_of_def)
qed

lemmas forwards_over = forwards_finished [where sent = "[]", simplified]

lemma forwards_on:
  assumes "harmless w w'" "t' = t\<lparr> ft_phase := phase \<rparr>" "phase \<noteq> ForwardDone" "overflow_kept tags t'"
  shows "forwards tags t queue w (t', w', queue)"
  unfolding forwards_def using assms
  by (intro exI [of _ t'] exI [of _ w'] exI [of _ "[]"]) (auto simp add: task_done_def)

lemma forward_bodies:
  assumes "Acked (ft_id t) i request \<in> set tags" "ft_correlation_id t = ev_correlation_id request"
  shows "\<exists>body. forward_body t (UPDATE_SUBSCRIPTION_OVERFLOW, encode_update_subscription_overflow (ft_id t)) = Inr body
      \<and> entry_ok tags (Terminated (ft_id t)) body"
    "\<exists>body. forward_body t (UPDATE_SUBSCRIPTION_INVALIDATED, encode_update_subscription_invalidated (ft_id t)) = Inr body
      \<and> entry_ok tags (Terminated (ft_id t)) body"
    "\<exists>body. forward_body t (UPDATE_NOTIFICATION,
        encode_update_notification \<lparr> un_subscription_id = ft_id t, un_update_id = u \<rparr>) = Inr body
      \<and> entry_ok tags (Notified (ft_id t)) body"
proof -
  have body: "\<exists>body. forward_body t (kind, payload) = Inr body \<and> carries body (ev_correlation_id request) kind payload"
    if "length payload \<le> 34" for kind payload
    using short_carries [OF that, where correlation = "ev_correlation_id request" and kind = kind]
    by (metis assms(2) forward_body_def fst_conv snd_conv)
  show "\<exists>body. forward_body t (UPDATE_SUBSCRIPTION_OVERFLOW, encode_update_subscription_overflow (ft_id t)) = Inr body
      \<and> entry_ok tags (Terminated (ft_id t)) body"
    "\<exists>body. forward_body t (UPDATE_SUBSCRIPTION_INVALIDATED, encode_update_subscription_invalidated (ft_id t)) = Inr body
      \<and> entry_ok tags (Terminated (ft_id t)) body"
    "\<exists>body. forward_body t (UPDATE_NOTIFICATION,
        encode_update_notification \<lparr> un_subscription_id = ft_id t, un_update_id = u \<rparr>) = Inr body
      \<and> entry_ok tags (Notified (ft_id t)) body"
    using body [of "encode_update_subscription_overflow (ft_id t)" UPDATE_SUBSCRIPTION_OVERFLOW]
      body [of "encode_update_subscription_invalidated (ft_id t)" UPDATE_SUBSCRIPTION_INVALIDATED]
      body [of "encode_update_notification \<lparr> un_subscription_id = ft_id t, un_update_id = u \<rparr>" UPDATE_NOTIFICATION]
      assms(1) by (simp_all add: entry_ok.simps) blast+
qed

lemma forward_send_forwards:
  assumes "Acked (ft_id t) i request \<in> set tags" "ft_correlation_id t = ev_correlation_id request"
    and "harmless v w"
    and "kind = UPDATE_NOTIFICATION \<Longrightarrow>
      payload = encode_update_notification \<lparr> un_subscription_id = ft_id t, un_update_id = u \<rparr>"
    and "kind \<noteq> UPDATE_NOTIFICATION \<Longrightarrow>
      kind = UPDATE_SUBSCRIPTION_OVERFLOW \<and> payload = encode_update_subscription_overflow (ft_id t)
      \<or> kind = UPDATE_SUBSCRIPTION_INVALIDATED \<and> payload = encode_update_subscription_invalidated (ft_id t)"
  shows "forwards tags t queue v (forward_send open held t (kind, payload) w queue)"
proof -
  note bodies = forward_bodies [OF assms(1,2)]
  define notification where "notification \<longleftrightarrow> kind = UPDATE_NOTIFICATION"
  let ?routed = "\<lambda>body. (ft_id t, \<lparr> ce_body = body, ce_emission = if notification then Some (ft_subscription t) else None \<rparr>)"
  obtain body where body: "forward_body t (kind, payload) = Inr body"
    "entry_ok tags (event_of (?routed body)) body"
    using bodies(1,2) bodies(3) [of u] assms(4,5)
    by (cases notification) (auto simp add: notification_def event_of_def)
  obtain overflow where overflow:
    "forward_body t (UPDATE_SUBSCRIPTION_OVERFLOW, encode_update_subscription_overflow (ft_id t)) = Inr overflow"
    "entry_ok tags (Terminated (ft_id t)) overflow" using bodies(1) by blast
  have cancelled: "harmless v (subscription_cancel (ft_subscription t) w)"
    by (rule harmless_trans [OF assms(3) harmless_receives(3)])
  consider (shut) "\<not> open" | (full) "open" "length queue + held \<ge> CONNECTION_EVENT_QUEUE_CAPACITY"
    | (room) "open" "length queue + held < CONNECTION_EVENT_QUEUE_CAPACITY" by linarith
  then show ?thesis
  proof cases
    case shut
    then have "forward_send open held t (kind, payload) w queue = finished t w queue"
      by (simp add: forward_send_def body(1) event_try_send_def)
    then show ?thesis using forwards_over [OF assms(3)] by simp
  next
    case full
    then have "forward_send open held t (kind, payload) w queue =
        (t\<lparr> ft_phase := ForwardOverflowing overflow \<rparr>, subscription_cancel (ft_subscription t) w, queue)"
      by (simp add: forward_send_def body(1) event_try_send_def overflow(1) Let_def)
    then show ?thesis
      using forwards_on [OF cancelled refl, of "ForwardOverflowing overflow" tags t] overflow(2)
      by (simp add: overflow_kept_def)
  next
    case room
    then have fits: "length queue < CONNECTION_EVENT_QUEUE_CAPACITY" by simp
    show ?thesis
    proof (cases notification)
      case True
      then have "forward_send open held t (kind, payload) w queue = (t\<lparr> ft_phase := ForwardCalling \<rparr>,
          emission_hold (ft_subscription t) w, queue @ [?routed body])"
        using room body(1) by (simp add: forward_send_def event_try_send_def notification_def Let_def)
      moreover have "harmless v (emission_hold (ft_subscription t) w)"
        by (rule harmless_trans [OF assms(3) harmless_emission(1)])
      ultimately show ?thesis
        unfolding forwards_def using True body(2) fits
        by (intro exI [of _ "t\<lparr> ft_phase := ForwardCalling \<rparr>"] exI [of _ "emission_hold (ft_subscription t) w"]
            exI [of _ "[?routed body]"]) (auto simp add: overflow_kept_def task_done_def)
    next
      case False
      then have "forward_send open held t (kind, payload) w queue = finished t w (queue @ [?routed body])"
        using room body(1) by (simp add: forward_send_def event_try_send_def notification_def)
      then show ?thesis
        using False body(2) fits
        by (simp add: forwards_finished [OF assms(3)] event_of_def)
    qed
  qed
qed

lemma forward_poll_forwards:
  assumes "Acked (ft_id t) i request \<in> set tags" "ft_correlation_id t = ev_correlation_id request"
    and "overflow_kept tags t" "task_done t \<Longrightarrow> \<not> cell_active (rg_cells w (ft_subscription t))"
  shows "forwards tags t queue w (forward_poll open held t w queue)"
proof -
  let ?i = "ft_subscription t"
  have observing: "forwards tags t queue w (if ft_cancelled t then finished t (subscription_cancel ?i w) queue
      else forward_observe open held t (poll, w') queue)" if harmless: "harmless w w'" for poll w'
  proof -
    have send: "forwards tags t queue w (forward_send open held t (kind, payload) w' queue)"
      if "kind = UPDATE_NOTIFICATION \<Longrightarrow>
          payload = encode_update_notification \<lparr> un_subscription_id = ft_id t, un_update_id = u \<rparr>"
        "kind \<noteq> UPDATE_NOTIFICATION \<Longrightarrow>
          kind = UPDATE_SUBSCRIPTION_OVERFLOW \<and> payload = encode_update_subscription_overflow (ft_id t)
          \<or> kind = UPDATE_SUBSCRIPTION_INVALIDATED \<and> payload = encode_update_subscription_invalidated (ft_id t)"
      for kind payload u
      using forward_send_forwards [OF assms(1,2) harmless that] by blast
    have kinds: "UPDATE_NOTIFICATION \<noteq> UPDATE_SUBSCRIPTION_OVERFLOW" "UPDATE_NOTIFICATION \<noteq> UPDATE_SUBSCRIPTION_INVALIDATED"
      by (simp_all add: UPDATE_NOTIFICATION_def UPDATE_SUBSCRIPTION_OVERFLOW_def UPDATE_SUBSCRIPTION_INVALIDATED_def)
    have "forwards tags t queue w (forward_observe open held t (poll, w') queue)"
    proof (cases poll)
      case (PollNotification u)
      then show ?thesis using send [of UPDATE_NOTIFICATION _ u] by (simp add: forward_observe_def)
    next
      case PollPending
      then show ?thesis
        using forwards_on [OF harmless refl, of ForwardWaiting tags t] by (simp add: forward_observe_def overflow_kept_def)
    next
      case (PollInvalidated ended)
      then show ?thesis
        using send [of UPDATE_SUBSCRIPTION_OVERFLOW] send [of UPDATE_SUBSCRIPTION_INVALIDATED] kinds
          forwards_over [OF harmless, of tags t queue]
        by (cases ended) (simp_all add: forward_observe_def terminal_subscription_event_def)
    qed
    then show ?thesis using forwards_over [OF harmless_receives(3)] by simp
  qed
  show ?thesis
  proof (cases "ft_phase t")
    case ForwardStarting
    then show ?thesis
      using forwards_on [OF harmless_emission(1) refl, of ForwardCalling tags t]
      by (simp add: forward_poll_def overflow_kept_def)
  next
    case ForwardCalling
    then show ?thesis
      using observing [of "snd (subscription_next ?i w)" "fst (subscription_next ?i w)"]
      by (cases "ft_cancelled t") (simp_all add: forward_poll_def)
  next
    case ForwardWaiting
    then show ?thesis
      using observing [of "snd (next_select ?i w)" "fst (next_select ?i w)"] by (cases "ft_cancelled t") (simp_all add: forward_poll_def)
  next
    case (ForwardOverflowing overflow)
    have same: "t\<lparr> ft_phase := ForwardOverflowing overflow \<rparr> = t" using ForwardOverflowing by simp
    have "forwards tags t queue w (t, w, queue)"
      using forwards_on [OF harmless_refl, of t "ForwardOverflowing overflow" t tags queue] same assms(3) by simp
    moreover have "entry_ok tags (Terminated (ft_id t)) overflow"
      using assms(3) ForwardOverflowing by (simp add: overflow_kept_def)
    ultimately show ?thesis
      using forwards_over [OF harmless_refl, of tags t queue]
        forwards_finished [OF harmless_refl, of "[(ft_id t, \<lparr> ce_body = overflow, ce_emission = None \<rparr>)]" t overflow tags queue]
      by (simp add: forward_poll_def ForwardOverflowing)
  next
    case ForwardDone
    have "t\<lparr> ft_phase := ForwardDone \<rparr> = t" using ForwardDone by simp
    then show ?thesis
      unfolding forwards_def using assms(3,4) ForwardDone
      by (intro exI [of _ t] exI [of _ w] exI [of _ "[]"])
        (auto simp add: forward_poll_def task_done_def intro: exI [of _ ForwardDone])
  qed
qed

end
