(* ===== verification/Connection_Invariant.thy ===== *)
theory Connection_Invariant
  imports Connection_Safety
begin

text \<open>
  The invariant of a connection that is being served, and the lemmas that each of its steps keeps
  it: where every subscription stands in the protocol, given its task, its events on the way out
  and its state in the registry.
\<close>

section \<open>The invariant\<close>

definition running :: "update_subscription_id \<Rightarrow> forward_task list \<Rightarrow> bool" where
  "running n tasks \<longleftrightarrow> (\<exists>t \<in> set tasks. ft_id t = n \<and> \<not> task_done t)"

definition runs_for :: "forward_task list \<Rightarrow> update_subscription_id \<Rightarrow> u64 \<Rightarrow> bool" where
  "runs_for tasks n i \<longleftrightarrow> (\<exists>t \<in> set tasks. ft_id t = n \<and> ft_subscription t = i \<and> \<not> task_done t)"

lemma running_iff: "running n tasks \<longleftrightarrow> (\<exists>i. runs_for tasks n i)"
  by (auto simp add: running_def runs_for_def)

text \<open>The events of one identity on their way out: which of them are terminal.\<close>

definition pending_of :: "update_subscription_id \<Rightarrow> routed_event list \<Rightarrow> bool list" where
  "pending_of n events = map (\<lambda>event. ce_emission (snd event) = None) (filter (\<lambda>event. fst event = n) events)"

definition terminal_last :: "bool list \<Rightarrow> bool" where
  "terminal_last bs \<longleftrightarrow> True \<notin> set (butlast bs)"

fun in_flight :: "connection_mode \<Rightarrow> routed_event list" where
  "in_flight (EmissionEntering event) = [event]"
| "in_flight (EmissionEntered event) = [event]"
| "in_flight (EmissionWriting event) = [event]"
| "in_flight _ = []"

fun cancelling :: "connection_mode \<Rightarrow> update_subscription_id set" where
  "cancelling (CancelFinishing request n) = {n}"
| "cancelling _ = {}"

definition phase_ok :: "output_tag list \<Rightarrow> registry \<Rightarrow> bool \<Rightarrow> bool list \<Rightarrow> update_subscription_id \<Rightarrow> bool" where
  "phase_ok tags w runs bs n \<longleftrightarrow> (\<exists>phase. protocol n tags = Some phase
    \<and> (phase = SubUnknown \<longleftrightarrow> (\<forall>i. \<not> acked tags n i))
    \<and> (phase = SubOver \<longrightarrow> bs = [] \<and> \<not> runs)
    \<and> (phase = SubCancelled \<longrightarrow> (\<forall>i. acked tags n i \<longrightarrow> \<not> cell_active (rg_cells w i)))
    \<and> terminal_last bs \<and> (runs \<longrightarrow> True \<notin> set bs) \<and> (bs \<noteq> [] \<longrightarrow> phase \<noteq> SubUnknown))"

definition tasks_ok :: "output_tag list \<Rightarrow> forward_task list \<Rightarrow> bool" where
  "tasks_ok tags tasks \<longleftrightarrow> distinct (map ft_id tasks) \<and> length tasks \<le> MAX_UPDATE_SUBSCRIPTIONS_PER_CHANNEL
    \<and> (\<forall>t \<in> set tasks. overflow_kept tags t \<and> (\<exists>request. Acked (ft_id t) (ft_subscription t) request \<in> set tags
        \<and> ft_correlation_id t = ev_correlation_id request))"

definition subscriptions_ok :: "output_tag list \<Rightarrow> registry \<Rightarrow> forward_task list
    \<Rightarrow> update_subscription_id set \<Rightarrow> id16 \<Rightarrow> bool" where
  "subscriptions_ok tags w tasks owned following \<longleftrightarrow> (\<forall>n i. acked tags n i \<longrightarrow>
    n < following \<and> i < rg_next_subscription_id w
    \<and> (\<not> cell_active (rg_cells w i) \<or> n \<in> owned \<and> runs_for tasks n i))"

definition events_ok :: "output_tag list \<Rightarrow> routed_event list \<Rightarrow> bool" where
  "events_ok tags events \<longleftrightarrow> (\<forall>event \<in> set events. entry_ok tags (event_of event) (ce_body (snd event))
    \<and> (\<forall>i. ce_emission (snd event) = Some i \<longrightarrow> acked tags (fst event) i))"

fun mode_ok :: "output_tag list \<Rightarrow> forward_task list \<Rightarrow> connection_mode \<Rightarrow> bool" where
  "mode_ok tags tasks (EmissionEntering event) = (ce_emission (snd event) \<noteq> None)"
| "mode_ok tags tasks (EmissionEntered event) = (ce_emission (snd event) \<noteq> None)"
| "mode_ok tags tasks (EmissionWriting event) =
    (ce_emission (snd event) \<noteq> None \<and> protocol (fst event) tags = Some SubOpen)"
| "mode_ok tags tasks (RevokeExcluding request gate revoking) =
    (ev_version request = VERSION \<and> ev_message_type request = REVOKE_CAPABILITY)"
| "mode_ok tags tasks (CancelFinishing request n) =
    (decode_cancel_update_subscription (ev_payload request) = Inr n
    \<and> (\<forall>t \<in> set tasks. ft_id t = n \<longrightarrow> ft_cancelled t))"
| "mode_ok tags tasks _ = True"

definition channel_held :: "broker_channel \<Rightarrow> registry \<Rightarrow> bool" where
  "channel_held channel w \<longleftrightarrow> (recognizes w channel \<longrightarrow> bc_lease channel \<in> set (rg_leases w))"

text \<open>The parts over what they depend on; the record only joins them.\<close>

definition serving_ok :: "output_tag list \<Rightarrow> registry \<Rightarrow> forward_task list \<Rightarrow> routed_event list
    \<Rightarrow> update_subscription_id set \<Rightarrow> id16 \<Rightarrow> bool" where
  "serving_ok tags w tasks events owned following \<longleftrightarrow> tasks_ok tags tasks
    \<and> subscriptions_ok tags w tasks owned following \<and> events_ok tags events
    \<and> (\<forall>n. phase_ok tags w (running n tasks) (pending_of n events) n)"

abbreviation cn_tags :: "connection \<Rightarrow> output_tag list" where
  "cn_tags c \<equiv> map fst (cn_output c)"

definition live_ok :: "(bytes \<Rightarrow> key32) \<Rightarrow> connection \<Rightarrow> bool" where
  "live_ok sha c \<longleftrightarrow> server_ok sha (cn_store c) \<and> channel_held (cn_channel c) (cn_registry c)
    \<and> length (cn_events c) \<le> CONNECTION_EVENT_QUEUE_CAPACITY
    \<and> length (cn_requests c) \<le> CONNECTION_EVENT_QUEUE_CAPACITY
    \<and> mode_ok (cn_tags c) (cn_tasks c) (cn_mode c)
    \<and> serving_ok (cn_tags c) (cn_registry c) (cn_tasks c) (in_flight (cn_mode c) @ cn_events c)
      (set (cn_active c) \<union> cancelling (cn_mode c)) (cn_next_subscription_id c)"

definition output_ok :: "connection \<Rightarrow> bool" where
  "output_ok c \<longleftrightarrow> (\<forall>n. protocol n (cn_tags c) \<noteq> None)
    \<and> (\<forall>(tag, body) \<in> set (cn_output c). entry_ok (cn_tags c) tag body)"

section \<open>The protocol, entry by entry\<close>

lemma pending_of_simps [simp]:
  "pending_of n [] = []"
  "pending_of n (event # events) = (if fst event = n then [ce_emission (snd event) = None] else []) @ pending_of n events"
  "pending_of n (events @ events') = pending_of n events @ pending_of n events'"
  by (simp_all add: pending_of_def)

lemma terminal_last_simps [simp]:
  "terminal_last []" "terminal_last (b # bs) \<longleftrightarrow> (b \<longrightarrow> bs = []) \<and> terminal_last bs"
  "terminal_last (bs @ [b]) \<longleftrightarrow> True \<notin> set bs"
  by (auto simp add: terminal_last_def)

lemma acked_simps [simp]:
  "\<not> acked [] n i"
  "acked (tags @ [Replied request]) n i = acked tags n i"
  "acked (tags @ [CancelReplied m request]) n i = acked tags n i"
  "acked (tags @ [Notified m]) n i = acked tags n i"
  "acked (tags @ [Terminated m]) n i = acked tags n i"
  "acked (tags @ [Acked m j request]) n i \<longleftrightarrow> acked tags n i \<or> n = m \<and> i = j"
  by (auto simp add: acked_def)

lemma phase_ok_replied: "phase_ok tags w runs bs n \<Longrightarrow> phase_ok (tags @ [Replied request]) w runs bs n"
  by (auto simp add: phase_ok_def)

lemma phase_ok_cancel:
  assumes "phase_ok tags w runs bs n" "\<And>i. acked tags m i \<Longrightarrow> \<not> cell_active (rg_cells w i)"
  shows "phase_ok (tags @ [CancelReplied m request]) w runs bs n"
proof -
  obtain phase where "protocol n tags = Some phase" using assms(1) by (auto simp add: phase_ok_def)
  with assms show ?thesis by (cases phase) (auto simp add: phase_ok_def)
qed

lemma phase_ok_terminated:
  assumes "phase_ok tags w runs (pending_of n (event # events)) n" "ce_emission (snd event) = None"
  shows "phase_ok (tags @ [Terminated (fst event)]) w runs (pending_of n events) n"
proof -
  obtain phase where "protocol n tags = Some phase" using assms(1) by (auto simp add: phase_ok_def)
  with assms show ?thesis by (cases phase) (auto simp add: phase_ok_def split: if_splits)
qed

lemma phase_ok_notified:
  assumes "phase_ok tags w runs (pending_of n (event # events)) n" "ce_emission (snd event) \<noteq> None"
    and "protocol (fst event) tags = Some SubOpen"
  shows "phase_ok (tags @ [Notified (fst event)]) w runs (pending_of n events) n"
  using assms by (auto simp add: phase_ok_def split: if_splits)

lemma phase_ok_suppressed:
  "phase_ok tags w runs (pending_of n (event # events)) n \<Longrightarrow> phase_ok tags w runs (pending_of n events) n"
  by (auto simp add: phase_ok_def split: if_splits)

lemma phase_ok_weaker:
  assumes "phase_ok tags w runs bs n" "runs' \<Longrightarrow> runs"
    and "\<And>i. acked tags n i \<Longrightarrow> \<not> cell_active (rg_cells w i) \<Longrightarrow> \<not> cell_active (rg_cells w' i)"
  shows "phase_ok tags w' runs' bs n"
  using assms unfolding phase_ok_def by auto

lemma phase_ok_acked:
  assumes "phase_ok tags w runs bs n" "\<And>j. \<not> acked tags m j"
    and "\<And>j. acked tags n j \<Longrightarrow> \<not> cell_active (rg_cells w j) \<Longrightarrow> \<not> cell_active (rg_cells w' j)"
    and "runs' \<Longrightarrow> runs \<or> n = m"
  shows "phase_ok (tags @ [Acked m i request]) w' runs' bs n"
proof -
  obtain phase where phase: "protocol n tags = Some phase" "n = m \<longleftrightarrow> phase = SubUnknown \<and> n = m"
    using assms(1,2) by (auto simp add: phase_ok_def)
  show ?thesis
  proof (cases "n = m")
    case True
    then have "bs = []" "phase = SubUnknown" using assms(1) phase by (auto simp add: phase_ok_def)
    then show ?thesis using phase(1) True by (auto simp add: phase_ok_def)
  next
    case False
    then show ?thesis using assms by (auto simp add: phase_ok_def)
  qed
qed

section \<open>The parts, step by step\<close>

lemma tasks_ok_mono:
  "tasks_ok tags tasks \<Longrightarrow> set tags \<subseteq> set tags' \<Longrightarrow> tasks_ok tags' tasks"
  unfolding tasks_ok_def overflow_kept_def using entry_ok_mono by blast

lemma events_ok_mono: "events_ok tags events \<Longrightarrow> set tags \<subseteq> set tags' \<Longrightarrow> events_ok tags' events"
  unfolding events_ok_def using entry_ok_mono acked_mono by blast

lemma subscriptions_ok_registry:
  assumes "subscriptions_ok tags w tasks owned following" "settles w w'"
  shows "subscriptions_ok tags w' tasks owned following"
  using assms(1) settlesD [OF assms(2)] unfolding subscriptions_ok_def by meson

lemma serving_registry:
  assumes "serving_ok tags w tasks events owned following" "settles w w'"
  shows "serving_ok tags w' tasks events owned following"
proof -
  have "phase_ok tags w (running n tasks) (pending_of n events) n" for n
    using assms(1) unfolding serving_ok_def by blast
  moreover have "i < rg_next_subscription_id w" if "acked tags n i" for n i
    using assms(1) that unfolding serving_ok_def subscriptions_ok_def by blast
  ultimately have "phase_ok tags w' (running n tasks) (pending_of n events) n" for n
    using phase_ok_weaker [of tags w] settlesD(2) [OF assms(2)] by blast
  then show ?thesis using assms(1) subscriptions_ok_registry [OF _ assms(2)] by (simp add: serving_ok_def)
qed

text \<open>Entries that acknowledge nothing.\<close>

lemma serving_appended:
  assumes "serving_ok tags w tasks events owned following"
    and "\<And>n i. acked (tags @ [tag]) n i = acked tags n i"
    and "set events' \<subseteq> set events" "owned' = owned"
    and "\<And>n. phase_ok tags w (running n tasks) (pending_of n events) n \<Longrightarrow>
      phase_ok (tags @ [tag]) w (running n tasks) (pending_of n events') n"
  shows "serving_ok (tags @ [tag]) w tasks events' owned' following"
proof -
  have "tasks_ok (tags @ [tag]) tasks" using assms(1) tasks_ok_mono [of tags tasks "tags @ [tag]"] by (auto simp add: serving_ok_def)
  moreover have "events_ok (tags @ [tag]) events"
    using assms(1) events_ok_mono [of tags events "tags @ [tag]"] by (auto simp add: serving_ok_def)
  ultimately show ?thesis
    using assms by (auto simp add: serving_ok_def subscriptions_ok_def events_ok_def)
qed

lemma serving_replied:
  "serving_ok tags w tasks events owned following \<Longrightarrow> serving_ok (tags @ [Replied request]) w tasks events owned following"
  by (rule serving_appended) (auto intro: phase_ok_replied)

lemma serving_inactive:
  assumes "serving_ok tags w tasks events owned following" "n \<notin> owned \<or> \<not> running n tasks" "acked tags n i"
  shows "\<not> cell_active (rg_cells w i)"
  using assms by (auto simp add: serving_ok_def subscriptions_ok_def running_iff)

lemma serving_cancelled:
  assumes "serving_ok tags w tasks events owned following" "n \<notin> owned \<or> \<not> running n tasks"
  shows "serving_ok (tags @ [CancelReplied n request]) w tasks events owned following"
proof (rule serving_appended [OF assms(1)])
  show "phase_ok (tags @ [CancelReplied n request]) w (running m tasks) (pending_of m events) m"
    if "phase_ok tags w (running m tasks) (pending_of m events) m" for m
    by (rule phase_ok_cancel [OF that serving_inactive [OF assms]])
qed auto

lemma serving_terminated:
  assumes "serving_ok tags w tasks (event # events) owned following" "ce_emission (snd event) = None"
  shows "serving_ok (tags @ [Terminated (fst event)]) w tasks events owned following"
  by (rule serving_appended [OF assms(1)]) (auto intro: phase_ok_terminated [OF _ assms(2)] simp del: pending_of_simps)

lemma serving_notified:
  assumes "serving_ok tags w tasks (event # events) owned following" "ce_emission (snd event) \<noteq> None"
    and "protocol (fst event) tags = Some SubOpen"
  shows "serving_ok (tags @ [Notified (fst event)]) w tasks events owned following"
  by (rule serving_appended [OF assms(1)]) (auto intro: phase_ok_notified [OF _ assms(2,3)] simp del: pending_of_simps)

lemma serving_suppressed:
  assumes "serving_ok tags w tasks (event # events) owned following"
  shows "serving_ok tags w tasks events owned following"
  using assms by (auto simp add: serving_ok_def events_ok_def intro: phase_ok_suppressed simp del: pending_of_simps)

text \<open>An identity may leave the owned ones once its task is over.\<close>

lemma serving_owned:
  assumes "serving_ok tags w tasks events owned following"
    and "\<And>n. n \<in> owned \<Longrightarrow> n \<notin> owned' \<Longrightarrow> \<not> running n tasks"
  shows "serving_ok tags w tasks events owned' following"
proof -
  have "n \<in> owned'" if "n \<in> owned" "runs_for tasks n i" for n i
    using assms(2) [OF that(1)] that(2) running_iff by blast
  then show ?thesis using assms(1) unfolding serving_ok_def subscriptions_ok_def by blast
qed

lemma serving_tasks:
  assumes "serving_ok tags w tasks events owned following" "tasks_ok tags tasks'" "runs_for tasks' = runs_for tasks"
  shows "serving_ok tags w tasks' events owned following"
proof -
  have "running n tasks' = running n tasks" for n by (simp add: running_iff assms(3))
  then show ?thesis using assms(1,2) by (simp add: serving_ok_def subscriptions_ok_def assms(3))
qed

section \<open>A step of a task\<close>

lemma task_by_id:
  "distinct (map ft_id tasks) \<Longrightarrow> t \<in> set tasks \<Longrightarrow> t' \<in> set tasks \<Longrightarrow> ft_id t = ft_id t' \<Longrightarrow> t = t'"
  by (rule distinct_map_eq)

lemma updated_tasks:
  assumes "distinct (map ft_id tasks)" "k < length tasks" "ft_id t' = ft_id (tasks ! k)"
    "ft_subscription t' = ft_subscription (tasks ! k)"
  shows "runs_for (tasks[k := t']) n i \<longleftrightarrow> (if n = ft_id t' then i = ft_subscription t' \<and> \<not> task_done t' else runs_for tasks n i)"
    "map ft_id (tasks[k := t']) = map ft_id tasks"
proof -
  show ids: "map ft_id (tasks[k := t']) = map ft_id tasks"
    using assms(2,3) by (simp add: map_update list_update_same_conv)
  have in': "t' \<in> set (tasks[k := t'])" using assms(2) by (simp add: set_update_memI)
  have mine: "t = t'" if "t \<in> set (tasks[k := t'])" "ft_id t = ft_id t'" for t
    using task_by_id [OF _ that(1) in' that(2)] assms(1) ids by simp
  have other: "t \<in> set (tasks[k := t']) \<longleftrightarrow> t \<in> set tasks" if "ft_id t \<noteq> ft_id t'" for t
  proof
    show "t \<in> set tasks" if "t \<in> set (tasks[k := t'])"
      using set_update_other [OF that] \<open>ft_id t \<noteq> ft_id t'\<close> by blast
    assume "t \<in> set tasks"
    then obtain j where j: "j < length tasks" "tasks ! j = t" by (auto simp add: in_set_conv_nth)
    then have "j \<noteq> k" using that assms(3) by auto
    then have "tasks[k := t'] ! j = t" using j by simp
    then show "t \<in> set (tasks[k := t'])" using j(1) by (metis length_list_update nth_mem)
  qed
  show "runs_for (tasks[k := t']) n i \<longleftrightarrow> (if n = ft_id t' then i = ft_subscription t' \<and> \<not> task_done t' else runs_for tasks n i)"
    unfolding runs_for_def using mine other in' by (cases "n = ft_id t'") (metis, metis)
qed

lemma serving_task:
  assumes "serving_ok tags w tasks events owned following" "k < length tasks" "\<not> task_done (tasks ! k)"
    and "t' = (tasks ! k)\<lparr> ft_phase := phase \<rparr>" "overflow_kept tags t'" "length sent \<le> 1"
    and "\<forall>event \<in> set sent. fst event = ft_id t' \<and> entry_ok tags (event_of event) (ce_body (snd event))
        \<and> (ce_emission (snd event) = Some (ft_subscription t') \<and> \<not> task_done t'
          \<or> ce_emission (snd event) = None \<and> task_done t')"
    and "task_done t' \<Longrightarrow> \<not> cell_active (rg_cells w (ft_subscription t'))"
  shows "serving_ok tags w (tasks[k := t']) (events @ sent) owned following"
proof -
  let ?t = "tasks ! k" and ?n = "ft_id t'" and ?i = "ft_subscription t'"
  have parts: "tasks_ok tags tasks" "subscriptions_ok tags w tasks owned following" "events_ok tags events"
    "\<And>n. phase_ok tags w (running n tasks) (pending_of n events) n"
    using assms(1) by (auto simp add: serving_ok_def)
  have ids: "distinct (map ft_id tasks)" "ft_id t' = ft_id ?t" "ft_subscription t' = ft_subscription ?t"
    "ft_correlation_id t' = ft_correlation_id ?t"
    using parts(1) by (simp_all add: tasks_ok_def assms(4))
  note updated = updated_tasks [OF ids(1) assms(2) ids(2,3)]
  have mem: "?t \<in> set tasks" using assms(2) by simp
  then obtain request where request: "Acked ?n ?i request \<in> set tags" "ft_correlation_id t' = ev_correlation_id request"
    using parts(1) ids by (auto simp add: tasks_ok_def)
  then have known: "acked tags ?n ?i" by (auto simp add: acked_def)
  have runs: "running ?n tasks" using mem assms(3) ids(2) by (auto simp add: running_def)
  have only: "runs_for tasks ?n i \<longleftrightarrow> i = ?i" for i
    using task_by_id [OF ids(1) _ mem] mem assms(3) ids(2,3) by (auto simp add: runs_for_def)
  have "tasks_ok tags (tasks[k := t'])"
  proof -
    have "overflow_kept tags t \<and> (\<exists>request. Acked (ft_id t) (ft_subscription t) request \<in> set tags
        \<and> ft_correlation_id t = ev_correlation_id request)" if "t \<in> set (tasks[k := t'])" for t
      using set_update_other [OF that] parts(1) assms(5) request by (auto simp add: tasks_ok_def)
    then show ?thesis using parts(1) updated(2) by (simp add: tasks_ok_def)
  qed
  moreover have "subscriptions_ok tags w (tasks[k := t']) owned following"
  proof -
    have "n \<in> owned \<and> runs_for (tasks[k := t']) n i" if "acked tags n i" "cell_active (rg_cells w i)" for n i
    proof -
      have "n \<in> owned" "runs_for tasks n i" using parts(2) that unfolding subscriptions_ok_def by blast+
      then show ?thesis using only [of i] assms(8) that(2) by (auto simp add: updated(1))
    qed
    then show ?thesis using parts(2) unfolding subscriptions_ok_def by blast
  qed
  moreover have "events_ok tags (events @ sent)"
    using parts(3) assms(7) known by (auto simp add: events_ok_def)
  moreover have "phase_ok tags w (running n (tasks[k := t'])) (pending_of n (events @ sent)) n" for n
  proof (cases "n = ?n")
    case False
    then have "running n (tasks[k := t']) = running n tasks" by (simp add: running_iff updated(1))
    moreover have "pending_of n sent = []" using False assms(7) by (auto simp add: pending_of_def)
    ultimately show ?thesis using parts(4) by simp
  next
    case True
    have now: "running n (tasks[k := t']) \<longleftrightarrow> \<not> task_done t'" by (simp add: running_iff updated(1) True)
    consider "sent = []" | event where "sent = [event]" using assms(6) by (cases sent) auto
    then show ?thesis
    proof cases
      case 1
      then show ?thesis using parts(4) [of n] runs True phase_ok_weaker [of tags w] by auto
    next
      case 2
      then have "pending_of n sent = [task_done t']" using assms(7) True by auto
      moreover obtain phase where "protocol n tags = Some phase" using parts(4) [of n] by (auto simp add: phase_ok_def)
      ultimately show ?thesis
        using parts(4) [of n] runs known True unfolding now phase_ok_def by auto
    qed
  qed
  ultimately show ?thesis by (simp add: serving_ok_def)
qed

end
