(* ===== verification/Connection_Steps.thy ===== *)
theory Connection_Steps
  imports Connection_Invariant
begin

text \<open>Every step of a connection keeps its invariant.\<close>

definition conn_ok :: "(bytes \<Rightarrow> key32) \<Rightarrow> connection \<Rightarrow> bool" where
  "conn_ok sha c \<longleftrightarrow> output_ok c \<and> (conn_over (cn_mode c) \<or> live_ok sha c)"

lemma on_registry_simps [simp]:
  "cn_channel (on_registry f c) = cn_channel c" "cn_input (on_registry f c) = cn_input c"
  "cn_requests (on_registry f c) = cn_requests c" "cn_events (on_registry f c) = cn_events c"
  "cn_active (on_registry f c) = cn_active c" "cn_tasks (on_registry f c) = cn_tasks c"
  "cn_next_subscription_id (on_registry f c) = cn_next_subscription_id c"
  "cn_mode (on_registry f c) = cn_mode c" "cn_output (on_registry f c) = cn_output c"
  "cn_store (on_registry f c) = (cn_store c)\<lparr> ds_subscriptions := f (ds_subscriptions (cn_store c)) \<rparr>"
  by (simp_all add: on_registry_def)

lemma return_ok: "output_ok c \<Longrightarrow> conn_ok sha (return_with result c)"
  by (simp add: conn_ok_def output_ok_def return_with_def)

lemma live_okD:
  assumes "live_ok sha c"
  shows "server_ok sha (cn_store c)" "channel_held (cn_channel c) (cn_registry c)"
    "registry_ok (cn_registry c)"
    "mode_ok (cn_tags c) (cn_tasks c) (cn_mode c)"
    "serving_ok (cn_tags c) (cn_registry c) (cn_tasks c) (in_flight (cn_mode c) @ cn_events c)
      (set (cn_active c) \<union> cancelling (cn_mode c)) (cn_next_subscription_id c)"
    "length (cn_events c) \<le> CONNECTION_EVENT_QUEUE_CAPACITY"
    "length (cn_requests c) \<le> CONNECTION_EVENT_QUEUE_CAPACITY"
  using assms server_registry_ok by (auto simp add: live_ok_def)

lemma live_store:
  assumes "live_ok sha c" "server_ok sha s" "settles (cn_registry c) (ds_subscriptions s)"
    and "channel_held (cn_channel c) (ds_subscriptions s)"
  shows "live_ok sha (c\<lparr> cn_store := s \<rparr>)"
  using assms serving_registry [OF live_okD(5) [OF assms(1)] assms(3)] by (simp add: live_ok_def)

lemma held_steady: "channel_held channel w \<Longrightarrow> steady w w' \<Longrightarrow> channel_held channel w'"
  by (simp add: channel_held_def steady_def recognizes_def)

lemma live_kept:
  "live_ok sha c \<Longrightarrow> server_ok sha s \<Longrightarrow> kept (cn_store c) s \<Longrightarrow> live_ok sha (c\<lparr> cn_store := s \<rparr>)"
  by (intro live_store) (auto simp add: steady_settles intro: held_steady dest: live_okD(2))

lemma live_harmless: "live_ok sha c \<Longrightarrow> harmless (cn_registry c) (f (cn_registry c)) \<Longrightarrow> live_ok sha (on_registry f c)"
  unfolding on_registry_def
  by (rule live_kept) (auto simp add: harmless_def dest: live_okD(1))

text \<open>A body that is written, in a state in which the next iteration is in order.\<close>

definition wrote :: "output_tag \<Rightarrow> bytes \<Rightarrow> connection \<Rightarrow> connection" where
  "wrote tag body c = c\<lparr> cn_output := cn_output c @ [(tag, body)], cn_mode := LoopStart \<rparr>"

lemma live_output:
  assumes "output_ok c" "entry_ok (cn_tags c @ [tag]) tag body" "live_ok sha (wrote tag body c)"
  shows "conn_ok sha (wrote tag body c)"
proof -
  let ?tags = "cn_tags c @ [tag]"
  have tags: "cn_tags (wrote tag body c) = ?tags" by (simp add: wrote_def)
  have "protocol n ?tags \<noteq> None" for n
    using live_okD(5) [OF assms(3), unfolded tags] unfolding serving_ok_def phase_ok_def by (metis option.distinct(1))
  moreover have "entry_ok ?tags old oldbody" if "(old, oldbody) \<in> set (cn_output c)" for old oldbody
    using assms(1) that entry_ok_mono [of "cn_tags c" old oldbody ?tags] by (auto simp add: output_ok_def)
  ultimately have "output_ok (wrote tag body c)"
    using assms(2) unfolding output_ok_def tags by (auto simp add: wrote_def)
  then show ?thesis using assms(3) by (simp add: conn_ok_def)
qed

lemma conn_write_eq: "conn_write True tag body c = wrote tag body c"
    "conn_write False tag body c = return_with (Inl ConnectionOutput) c"
  by (simp_all add: conn_write_def wrote_def)

lemma conn_write_ok:
  "output_ok c \<Longrightarrow> entry_ok (cn_tags c @ [tag]) tag body \<Longrightarrow> live_ok sha (wrote tag body c) \<Longrightarrow>
    conn_ok sha (conn_write written tag body c)"
  by (cases written) (simp_all add: conn_write_eq live_output return_ok)

lemma live_replied:
  assumes "live_ok sha c" "in_flight (cn_mode c) = []" "cancelling (cn_mode c) = {}"
  shows "live_ok sha (wrote (Replied request) body c)"
  using assms serving_replied [OF live_okD(5) [OF assms(1)], of request] by (simp add: live_ok_def wrote_def)

lemma conn_reply_ok:
  assumes "output_ok c" "live_ok sha c" "in_flight (cn_mode c) = []" "cancelling (cn_mode c) = {}"
    and "\<And>body. result = Inr body \<Longrightarrow> typed_reply request body"
  shows "conn_ok sha (conn_reply written (Replied request) result c)"
  using assms by (auto simp add: conn_reply_def entry_ok.simps split: sum.split
      intro!: return_ok conn_write_ok live_replied)

lemma conn_error_ok:
  assumes "output_ok c" "live_ok sha c" "in_flight (cn_mode c) = []" "cancelling (cn_mode c) = {}"
    and "ev_version request = VERSION"
    "ev_message_type request \<notin> {CREATE_DOCUMENT, GRANT_CAPABILITY, REVOKE_CAPABILITY}"
  shows "conn_ok sha (conn_error written request code c)"
  unfolding conn_error_def
  using replied_update_error [OF live_okD(1) [OF assms(2)] assms(5,6), of "{}" code]
  by (intro conn_reply_ok assms(1-4)) (auto simp add: replied_def)

section \<open>Subscribing\<close>

lemma checked_add_less: "checked_add n 1 = Some m \<Longrightarrow> (k :: 'a::len word) < m \<longleftrightarrow> k < n \<or> k = n"
  using checked_add_unat [of n 1 m] by (auto simp add: word_less_nat_alt word_unat_eq_iff)

lemma subscribed:
  assumes "subscribe_updates sha s channel d c a = (SubAcknowledged i, s')"
  shows "i < rg_next_subscription_id (ds_subscriptions s')"
proof -
  obtain w where reg: "register channel d c (ds_subscriptions s) = (Inr i, w)" "ds_subscriptions s' = w"
    using assms by (auto simp add: subscribe_updates_def Let_def split: if_splits prod.splits sum.splits register_error.splits)
  then show ?thesis
  proof (cases rule: register_cases [of channel d c "ds_subscriptions s"])
    case (added following gate gs es n)
    have "i = rg_next_subscription_id (prune (ds_subscriptions s))" "rg_next_subscription_id w = following"
      using reg(1) unfolding added(2) by auto
    then show ?thesis using checked_add_less [OF added(3)] reg(2) by simp
  qed auto
qed

lemma subscribe_ok:
  assumes "server_ok sha s" "channel_held channel (ds_subscriptions s)"
    and "subscribe_updates sha s channel d c a = (outcome, s')"
  shows "server_ok sha s'" "kept s s'"
  using server_step_ok [OF sv_subscribe assms(1), of channel d c a] subscribe_steady [of s sha channel d c a]
    server_registry_ok [OF assms(1)] assms(2,3) by (simp_all add: channel_held_def)

lemma serving_acked:
  assumes "serving_ok tags w tasks events owned n" "settles w w'" "checked_add n 1 = Some following"
    and "i < rg_next_subscription_id w'" "length tasks < MAX_UPDATE_SUBSCRIPTIONS_PER_CHANNEL"
    and "ft_id t = n" "ft_subscription t = i" "ft_correlation_id t = ev_correlation_id request"
    "ft_phase t = ForwardStarting"
  shows "serving_ok (tags @ [Acked n i request]) w' (tasks @ [t]) events (insert n owned) following"
proof -
  let ?tags = "tags @ [Acked n i request]"
  have parts: "tasks_ok tags tasks" "subscriptions_ok tags w tasks owned n" "events_ok tags events"
    "\<And>m. phase_ok tags w (running m tasks) (pending_of m events) m"
    using assms(1) by (auto simp add: serving_ok_def)
  have old: "m < n" "j < rg_next_subscription_id w" if "acked tags m j" for m j
    using parts(2) that unfolding subscriptions_ok_def by blast+
  then have new: "\<not> acked tags n j" for j by (metis less_irrefl)
  have starting: "\<not> task_done t" "overflow_kept ?tags t"
    using assms(9) by (simp_all add: task_done_def overflow_kept_def)
  have runs: "runs_for (tasks @ [t]) m j \<longleftrightarrow> runs_for tasks m j \<or> m = n \<and> j = i" for m j
    using starting(1) assms(6,7) by (auto simp add: runs_for_def)
  have "n \<notin> ft_id ` set tasks" using parts(1) new by (auto simp add: tasks_ok_def acked_def)
  then have "tasks_ok ?tags (tasks @ [t])"
    using tasks_ok_mono [OF parts(1), of ?tags] assms(5-8) starting(2) by (auto simp add: tasks_ok_def)
  moreover have "subscriptions_ok ?tags w' (tasks @ [t]) (insert n owned) following"
  proof -
    have "m < following \<and> j < rg_next_subscription_id w'
        \<and> (\<not> cell_active (rg_cells w' j) \<or> m \<in> insert n owned \<and> runs_for (tasks @ [t]) m j)"
      if "acked ?tags m j" for m j
    proof (cases "m = n \<and> j = i")
      case True
      then show ?thesis using assms(4) checked_add_less [OF assms(3)] runs by simp
    next
      case False
      then have "acked tags m j" using that by auto
      then show ?thesis
        using parts(2) old settlesD [OF assms(2)] checked_add_less [OF assms(3)] runs
        unfolding subscriptions_ok_def by (metis insert_iff)
    qed
    then show ?thesis by (simp add: subscriptions_ok_def)
  qed
  moreover have "events_ok ?tags events" using events_ok_mono [OF parts(3), of ?tags] by auto
  moreover have "phase_ok ?tags w' (running m (tasks @ [t])) (pending_of m events) m" for m
  proof (rule phase_ok_acked [OF parts(4) new])
    show "\<not> cell_active (rg_cells w' j)" if "acked tags m j" "\<not> cell_active (rg_cells w j)" for j
      using settlesD(2) [OF assms(2) old(2) [OF that(1)] that(2)] .
    show "running m tasks \<or> m = n" if "running m (tasks @ [t])"
      using that by (auto simp add: running_iff runs)
  qed
  ultimately show ?thesis by (simp add: serving_ok_def)
qed

definition spawn :: "u64 \<Rightarrow> envelope \<Rightarrow> id16 \<Rightarrow> connection \<Rightarrow> connection" where
  "spawn i request following c = (let n = cn_next_subscription_id c in c\<lparr> cn_next_subscription_id := following,
    cn_active := n # removeAll n (cn_active c), cn_tasks := cn_tasks c @ [\<lparr> ft_subscription = i, ft_id = n,
      ft_correlation_id = ev_correlation_id request, ft_cancelled = False, ft_phase = ForwardStarting \<rparr>] \<rparr>)"

lemma spawn_simps [simp]:
  "cn_store (spawn i request following c) = cn_store c" "cn_channel (spawn i request following c) = cn_channel c"
  "cn_events (spawn i request following c) = cn_events c" "cn_requests (spawn i request following c) = cn_requests c"
  "cn_output (spawn i request following c) = cn_output c" "cn_input (spawn i request following c) = cn_input c"
  "cn_mode (spawn i request following c) = cn_mode c"
  "cn_next_subscription_id (spawn i request following c) = following"
  by (simp_all add: spawn_def Let_def)

lemma wrote_simps [simp]:
  "cn_store (wrote tag body c) = cn_store c" "cn_channel (wrote tag body c) = cn_channel c"
  "cn_events (wrote tag body c) = cn_events c" "cn_requests (wrote tag body c) = cn_requests c"
  "cn_output (wrote tag body c) = cn_output c @ [(tag, body)]" "cn_input (wrote tag body c) = cn_input c"
  "cn_mode (wrote tag body c) = LoopStart" "cn_tasks (wrote tag body c) = cn_tasks c"
  "cn_active (wrote tag body c) = cn_active c"
  "cn_next_subscription_id (wrote tag body c) = cn_next_subscription_id c"
  by (simp_all add: wrote_def)

lemma live_acked:
  assumes "live_ok sha c" "in_flight (cn_mode c) = []" "cancelling (cn_mode c) = {}"
    and "length (cn_tasks c) < MAX_UPDATE_SUBSCRIPTIONS_PER_CHANNEL"
    and "checked_add (cn_next_subscription_id c) 1 = Some following" "i < rg_next_subscription_id (cn_registry c)"
  shows "live_ok sha (wrote (Acked (cn_next_subscription_id c) i request) body (spawn i request following c))"
proof -
  let ?n = "cn_next_subscription_id c"
  have "set (cn_active (spawn i request following c)) = insert ?n (set (cn_active c))"
    by (auto simp add: spawn_def Let_def)
  moreover have "serving_ok (cn_tags c @ [Acked ?n i request]) (cn_registry c) (cn_tasks (spawn i request following c))
      (cn_events c) (insert ?n (set (cn_active c))) following"
    using serving_acked [OF live_okD(5) [OF assms(1)] settles_refl assms(5,6,4)] assms(2,3)
    by (simp add: spawn_def Let_def)
  ultimately show ?thesis using assms(1) by (simp add: live_ok_def)
qed

lemma acked_body:
  obtains body where "response request SUBSCRIBE_UPDATES_ACK (encode_subscribe_updates_ack n) = Inr body"
    "carries body (ev_correlation_id request) SUBSCRIBE_UPDATES_ACK (encode_subscribe_updates_ack n)"
proof -
  obtain body where "encode_body \<lparr> ev_correlation_id = ev_correlation_id request, ev_message_type = SUBSCRIBE_UPDATES_ACK,
      ev_payload = encode_subscribe_updates_ack n, ev_version = VERSION \<rparr> = Inr body"
    "carries body (ev_correlation_id request) SUBSCRIBE_UPDATES_ACK (encode_subscribe_updates_ack n)"
    by (rule short_carries [of "encode_subscribe_updates_ack n"]) simp
  then show thesis using that by (simp add: response_def map_err_def)
qed

lemma output_ok_store [simp]:
  "output_ok (c\<lparr> cn_store := s \<rparr>) = output_ok c" "output_ok (on_registry f c) = output_ok c"
  "output_ok (spawn i request following c) = output_ok c"
  by (simp_all add: output_ok_def)

lemma serve_subscribe_eq:
  assumes "subscribe_updates sha (cn_store c) (cn_channel c) (su_document_id subscribe)
      (ca_capability_id (su_authority subscribe)) (ca_authenticator (su_authority subscribe)) = (SubAcknowledged i, s)"
    and "length (cn_tasks c) < MAX_UPDATE_SUBSCRIPTIONS_PER_CHANNEL"
    and "checked_add (cn_next_subscription_id c) 1 = Some following"
    and "response request SUBSCRIBE_UPDATES_ACK (encode_subscribe_updates_ack (cn_next_subscription_id c)) = Inr body"
  shows "serve_subscribe sha True request subscribe c =
      wrote (Acked (cn_next_subscription_id c) i request) body (spawn i request following (c\<lparr> cn_store := s \<rparr>))"
    "serve_subscribe sha False request subscribe c = return_with (Inl ConnectionOutput)
      (on_registry (drop_subscription i) (c\<lparr> cn_store := s, cn_next_subscription_id := following \<rparr>))"
  using assms by (simp_all add: serve_subscribe_def Let_def conn_write_eq wrote_def spawn_def)

lemma serve_subscribe_ok:
  assumes "output_ok c" "live_ok sha c" "in_flight (cn_mode c) = []" "cancelling (cn_mode c) = {}"
    and "ev_version request = VERSION" "ev_message_type request = SUBSCRIBE_UPDATES"
  shows "conn_ok sha (serve_subscribe sha written request subscribe c)"
proof -
  have other: "ev_message_type request \<notin> {CREATE_DOCUMENT, GRANT_CAPABILITY, REVOKE_CAPABILITY}"
    by (simp add: assms(6) SUBSCRIBE_UPDATES_def kind_defs)
  have refused: "conn_ok sha (conn_error written request code (c\<lparr> cn_store := s \<rparr>))"
    if "live_ok sha (c\<lparr> cn_store := s \<rparr>)" for code s
    using assms(1,3-5) other that by (intro conn_error_ok) auto
  have full: "conn_ok sha (conn_error written request UpBackpressure c)"
    using refused [of "cn_store c"] assms(2) by simp
  obtain outcome s where out: "subscribe_updates sha (cn_store c) (cn_channel c) (su_document_id subscribe)
      (ca_capability_id (su_authority subscribe)) (ca_authenticator (su_authority subscribe)) = (outcome, s)"
    by fastforce
  have live: "live_ok sha (c\<lparr> cn_store := s \<rparr>)"
    by (rule live_kept [OF assms(2) subscribe_ok [OF live_okD(1,2) [OF assms(2)] out]])
  show ?thesis
  proof (cases "length (cn_tasks c) < MAX_UPDATE_SUBSCRIPTIONS_PER_CHANNEL
      \<and> checked_add (cn_next_subscription_id c) 1 \<noteq> None")
    case False
    then show ?thesis using full by (auto simp add: serve_subscribe_def)
  next
    case True
    then obtain following where room: "length (cn_tasks c) < MAX_UPDATE_SUBSCRIPTIONS_PER_CHANNEL"
      "checked_add (cn_next_subscription_id c) 1 = Some following" by blast
    show ?thesis
    proof (cases outcome)
      case (SubAcknowledged i)
      obtain body where body:
        "response request SUBSCRIBE_UPDATES_ACK (encode_subscribe_updates_ack (cn_next_subscription_id c)) = Inr body"
        "carries body (ev_correlation_id request) SUBSCRIBE_UPDATES_ACK
          (encode_subscribe_updates_ack (cn_next_subscription_id c))" by (rule acked_body)
      note eq = serve_subscribe_eq [OF out [unfolded SubAcknowledged] room body(1)]
      have i: "i < rg_next_subscription_id (ds_subscriptions s)" by (rule subscribed [OF out [unfolded SubAcknowledged]])
      have "conn_ok sha (wrote (Acked (cn_next_subscription_id c) i request) body
          (spawn i request following (c\<lparr> cn_store := s \<rparr>)))"
        using live_acked [OF live, of following i request body] assms(1,3,4) room i body(2)
        by (intro live_output) (simp_all add: entry_ok.simps)
      moreover have "conn_ok sha (return_with (Inl ConnectionOutput)
          (on_registry (drop_subscription i) (c\<lparr> cn_store := s, cn_next_subscription_id := following \<rparr>)))"
        using assms(1) by (intro return_ok) (simp add: output_ok_def)
      ultimately show ?thesis by (cases written) (simp_all add: eq)
    qed (use refused [OF live] room out in \<open>simp_all add: serve_subscribe_def\<close>)
  qed
qed

section \<open>Cancelling and everything else\<close>

lemma cancel_reply_ok:
  assumes "output_ok c" "live_ok sha c" "in_flight (cn_mode c) = []"
    and "cancelling (cn_mode c) = {} \<and> n \<notin> set (cn_active c) \<or> cancelling (cn_mode c) = {n} \<and> \<not> running n (cn_tasks c)"
    and "decode_cancel_update_subscription (ev_payload request) = Inr n"
  shows "conn_ok sha (cancel_reply written request n c)"
proof -
  obtain body where body: "encode_body \<lparr> ev_correlation_id = ev_correlation_id request,
      ev_message_type = CANCEL_UPDATE_SUBSCRIPTION_RESPONSE, ev_payload = encode_cancel_update_subscription n,
      ev_version = VERSION \<rparr> = Inr body"
    "carries body (ev_correlation_id request) CANCEL_UPDATE_SUBSCRIPTION_RESPONSE (encode_cancel_update_subscription n)"
    by (rule short_carries [of "encode_cancel_update_subscription n"]) simp
  then have reply: "cancel_reply written request n c = conn_write written (CancelReplied n request) body c"
    by (simp add: cancel_reply_def conn_reply_def response_def map_err_def)
  note serving = live_okD(5) [OF assms(2)]
  have "serving_ok (cn_tags c) (cn_registry c) (cn_tasks c) (cn_events c)
      (set (cn_active c)) (cn_next_subscription_id c)"
    using assms(3,4) serving_owned [OF serving, of "set (cn_active c)"] by auto
  moreover have "n \<notin> set (cn_active c) \<or> \<not> running n (cn_tasks c)" using assms(4) by blast
  ultimately have "live_ok sha (wrote (CancelReplied n request) body c)"
    using assms(2) serving_cancelled by (simp add: live_ok_def)
  then show ?thesis
    unfolding reply using assms(1,5) body(2) by (intro conn_write_ok) (simp_all add: entry_ok.simps)
qed

lemma mapped_tasks:
  assumes "\<And>t. ft_id (f t) = ft_id t" "\<And>t. ft_subscription (f t) = ft_subscription t"
    "\<And>t. ft_correlation_id (f t) = ft_correlation_id t" "\<And>t. ft_phase (f t) = ft_phase t"
  shows "tasks_ok tags (map f tasks) = tasks_ok tags tasks" "runs_for (map f tasks) = runs_for tasks"
proof -
  have "task_done (f t) = task_done t" "overflow_kept tags (f t) = overflow_kept tags t" for t tags
    by (simp_all add: task_done_def overflow_kept_def assms)
  then show "tasks_ok tags (map f tasks) = tasks_ok tags tasks" "runs_for (map f tasks) = runs_for tasks"
    by (simp_all add: tasks_ok_def runs_for_def fun_eq_iff comp_def assms)
qed

definition mark_cancelled :: "update_subscription_id \<Rightarrow> forward_task list \<Rightarrow> forward_task list" where
  "mark_cancelled n = map (\<lambda>t. if ft_id t = n then t\<lparr> ft_cancelled := True \<rparr> else t)"

lemma mark_cancelled:
  "tasks_ok tags (mark_cancelled n tasks) = tasks_ok tags tasks" "runs_for (mark_cancelled n tasks) = runs_for tasks"
  "\<forall>t \<in> set (mark_cancelled n tasks). ft_id t = n \<longrightarrow> ft_cancelled t"
proof -
  show "tasks_ok tags (mark_cancelled n tasks) = tasks_ok tags tasks"
    unfolding mark_cancelled_def by (rule mapped_tasks(1)) simp_all
  show "runs_for (mark_cancelled n tasks) = runs_for tasks"
    unfolding mark_cancelled_def by (rule mapped_tasks(2)) simp_all
  show "\<forall>t \<in> set (mark_cancelled n tasks). ft_id t = n \<longrightarrow> ft_cancelled t"
  proof
    fix t
    assume "t \<in> set (mark_cancelled n tasks)"
    then obtain u where "t = (if ft_id u = n then u\<lparr> ft_cancelled := True \<rparr> else u)"
      unfolding mark_cancelled_def set_map by (rule imageE)
    then show "ft_id t = n \<longrightarrow> ft_cancelled t" by (cases "ft_id u = n") simp_all
  qed
qed

lemma serve_cancel_ok:
  assumes "output_ok c" "live_ok sha c" "in_flight (cn_mode c) = []" "cancelling (cn_mode c) = {}"
    and "decode_cancel_update_subscription (ev_payload request) = Inr n"
  shows "conn_ok sha (serve_cancel written request n c)"
proof (cases "n \<in> set (cn_active c)")
  case False
  then have "conn_ok sha (cancel_reply written request n c)" using cancel_reply_ok [OF assms(1-3) _ assms(5)] assms(4) by blast
  then show ?thesis using False by (simp add: serve_cancel_def)
next
  case True
  let ?tasks = "mark_cancelled n (cn_tasks c)"
  have serving: "serving_ok (cn_tags c) (cn_registry c) (cn_tasks c) (cn_events c) (set (cn_active c)) (cn_next_subscription_id c)"
    using live_okD(5) [OF assms(2)] assms(3,4) by simp
  have "tasks_ok (cn_tags c) ?tasks" using serving by (simp add: serving_ok_def mark_cancelled(1))
  then have moved:
    "serving_ok (cn_tags c) (cn_registry c) ?tasks (cn_events c) (set (cn_active c)) (cn_next_subscription_id c)"
    by (rule serving_tasks [OF serving _ mark_cancelled(2)])
  have owned: "set (removeAll n (cn_active c)) \<union> {n} = set (cn_active c)" using True by auto
  have eq: "serve_cancel written request n c = c\<lparr> cn_active := removeAll n (cn_active c), cn_tasks := ?tasks,
      cn_mode := CancelFinishing request n \<rparr>" using True by (simp only: serve_cancel_def mark_cancelled_def if_True)
  have "live_ok sha (serve_cancel written request n c)"
    unfolding eq using assms(2,5) moved owned mark_cancelled(3) by (simp add: live_ok_def)
  moreover have "output_ok (serve_cancel written request n c)" unfolding eq using assms(1) by (simp add: output_ok_def)
  ultimately show ?thesis by (simp add: conn_ok_def)
qed

lemma serve_other_ok:
  assumes "output_ok c" "live_ok sha c" "in_flight (cn_mode c) = []" "cancelling (cn_mode c) = {}"
  shows "conn_ok sha (serve_other sha ctx written request c)"
proof -
  obtain handled s where h: "handle_request sha ctx request (cn_channel c) (cn_store c) = (handled, s)" by fastforce
  note replies = handle_request_replies [OF live_okD(1) [OF assms(2)], where c = ctx and request = request
      and channel = "cn_channel c", unfolded h]
  have kept: "kept (cn_store c) s" using handle_request_steady [OF live_okD(1) [OF assms(2)], of ctx request "cn_channel c"] h by simp
  show ?thesis
  proof (cases handled)
    case (HandlerDone result)
    then have done': "server_ok sha s" "\<And>body. result = Inr body \<Longrightarrow> typed_reply request body"
      using replies by (auto simp add: replied_def)
    have "live_ok sha (c\<lparr> cn_store := s \<rparr>)" by (rule live_kept [OF assms(2) done'(1) kept])
    then show ?thesis
      using assms(1,3,4) done'(2) by (auto simp add: serve_other_def h HandlerDone intro!: conn_reply_ok)
  next
    case (HandlerExcluding gate revoking)
    then have waits: "server_ok sha s" "ev_version request = VERSION" "ev_message_type request = REVOKE_CAPABILITY"
      using replies by simp_all
    have "live_ok sha (c\<lparr> cn_store := s \<rparr>)" by (rule live_kept [OF assms(2) waits(1) kept])
    then show ?thesis
      using assms(1,3,4) waits by (simp add: serve_other_def h HandlerExcluding conn_ok_def live_ok_def output_ok_def)
  qed
qed

lemma serve_envelope_ok:
  assumes "output_ok c" "live_ok sha c" "in_flight (cn_mode c) = []" "cancelling (cn_mode c) = {}"
  shows "conn_ok sha (serve_envelope sha ctx written request c)"
proof -
  have types: "SUBSCRIBE_UPDATES \<notin> {CREATE_DOCUMENT, GRANT_CAPABILITY, REVOKE_CAPABILITY}"
    "CANCEL_UPDATE_SUBSCRIPTION \<notin> {CREATE_DOCUMENT, GRANT_CAPABILITY, REVOKE_CAPABILITY}"
    by (simp_all add: SUBSCRIBE_UPDATES_def CANCEL_UPDATE_SUBSCRIPTION_def kind_defs)
  show ?thesis
    using conn_error_ok [OF assms, of request] serve_subscribe_ok [OF assms, of request]
      serve_cancel_ok [OF assms, of request] serve_other_ok [OF assms] types
    by (auto simp add: serve_envelope_def split: sum.split)
qed

section \<open>The loop\<close>

lemma plain_mode:
  assumes "conn_ok sha c" "in_flight (cn_mode c) = []" "cancelling (cn_mode c) = {}" "\<not> conn_over (cn_mode c)"
    and "mode \<in> {LoopStart, SelectTasks, SelectEvents, SelectRequests}"
  shows "conn_ok sha (c\<lparr> cn_mode := mode \<rparr>)"
  using assms by (auto simp add: conn_ok_def output_ok_def live_ok_def)

lemma retain_ok_open:
  assumes "live_ok sha c" "in_flight (cn_mode c) = []" "cancelling (cn_mode c) = {}"
  shows "live_ok sha ((retain_open c)\<lparr> cn_mode := SelectTasks \<rparr>)"
proof -
  have "serving_ok (cn_tags c) (cn_registry c) (cn_tasks c) (cn_events c)
      (set (filter (\<lambda>n. running n (cn_tasks c)) (cn_active c))) (cn_next_subscription_id c)"
    by (rule serving_owned [OF live_okD(5) [OF assms(1), unfolded assms(2,3), simplified]]) auto
  then show ?thesis
    using assms(1) by (simp add: live_ok_def retain_open_def running_def)
qed

lemma join_next_split:
  "join_next tasks = Some rest \<Longrightarrow> \<exists>xs t ys. tasks = xs @ t # ys \<and> rest = xs @ ys \<and> task_done t"
proof (induction tasks arbitrary: rest)
  case (Cons t ts)
  show ?case
  proof (cases "task_done t")
    case True
    then show ?thesis using Cons.prems by (intro exI [of _ "[]"]) simp
  next
    case False
    then obtain rest' where rest': "join_next ts = Some rest'" "rest = t # rest'" using Cons.prems by auto
    from Cons.IH [OF rest'(1)] obtain xs u ys where "ts = xs @ u # ys" "rest' = xs @ ys" "task_done u" by blast
    then show ?thesis using rest'(2) by (intro exI [of _ "t # xs"]) auto
  qed
qed simp

lemma joined_ok:
  assumes "live_ok sha c" "in_flight (cn_mode c) = []" "cancelling (cn_mode c) = {}"
    and "join_next (cn_tasks c) = Some rest"
  shows "live_ok sha (c\<lparr> cn_tasks := rest, cn_mode := LoopStart \<rparr>)"
proof -
  obtain xs t ys where split: "cn_tasks c = xs @ t # ys" "rest = xs @ ys" "task_done t"
    using join_next_split [OF assms(4)] by blast
  note serving = live_okD(5) [OF assms(1), unfolded assms(2,3)]
  have "tasks_ok (cn_tags c) rest" using serving by (simp add: serving_ok_def tasks_ok_def split(1,2))
  moreover have "runs_for rest = runs_for (cn_tasks c)" by (auto simp add: runs_for_def fun_eq_iff split)
  ultimately have "serving_ok (cn_tags c) (cn_registry c) rest (cn_events c) (set (cn_active c)) (cn_next_subscription_id c)"
    using serving_tasks [OF serving] by simp
  then show ?thesis using assms(1) by (simp add: live_ok_def)
qed

lemma write_event_ok:
  assumes "conn_ok sha c" "cn_mode c = SelectEvents" "cn_events c = event # events"
  shows "conn_ok sha (write_event written event (c\<lparr> cn_events := events \<rparr>))"
proof -
  have live: "output_ok c" "live_ok sha c" using assms(1,2) by (simp_all add: conn_ok_def)
  have serving: "serving_ok (cn_tags c) (cn_registry c) (cn_tasks c) (event # events) (set (cn_active c))
      (cn_next_subscription_id c)"
    using live_okD(5) [OF live(2)] assms(2,3) by simp
  then have entry: "entry_ok (cn_tags c) (event_of event) (ce_body (snd event))"
    by (simp add: serving_ok_def events_ok_def)
  show ?thesis
  proof (cases "ce_emission (snd event)")
    case None
    have "live_ok sha (wrote (Terminated (fst event)) (ce_body (snd event)) (c\<lparr> cn_events := events \<rparr>))"
      using live(2) assms(2,3) serving_terminated [OF serving None] by (simp add: live_ok_def)
    moreover have "entry_ok (cn_tags c @ [Terminated (fst event)]) (Terminated (fst event)) (ce_body (snd event))"
      using entry_ok_mono [OF entry, of "cn_tags c @ [Terminated (fst event)]"] None by (auto simp add: event_of_def)
    ultimately show ?thesis
      unfolding write_event_def using live(1) None by (auto simp add: output_ok_def intro!: conn_write_ok)
  next
    case (Some i)
    then show ?thesis
      using live assms(2,3) serving by (simp add: write_event_def conn_ok_def output_ok_def live_ok_def)
  qed
qed

lemma leave_emission_harmless: "harmless (cn_registry c) (cn_registry (leave_emission event c))"
  unfolding leave_emission_def
  using harmless_trans [OF harmless_guard(1) harmless_emission(2)]
  by (simp add: emission_gate_id_def Let_def)

lemma leave_emission_simps [simp]:
  "cn_channel (leave_emission event c) = cn_channel c" "cn_events (leave_emission event c) = cn_events c"
  "cn_requests (leave_emission event c) = cn_requests c" "cn_active (leave_emission event c) = cn_active c"
  "cn_tasks (leave_emission event c) = cn_tasks c" "cn_output (leave_emission event c) = cn_output c"
  "cn_mode (leave_emission event c) = cn_mode c" "cn_input (leave_emission event c) = cn_input c"
  "cn_next_subscription_id (leave_emission event c) = cn_next_subscription_id c"
  by (simp_all add: leave_emission_def)

lemma live_left: "live_ok sha c \<Longrightarrow> live_ok sha (leave_emission event c)"
  using live_harmless [of sha c] leave_emission_harmless [of c event]
  unfolding leave_emission_def by simp

lemma enter_emission_ok:
  assumes "conn_ok sha c" "cn_mode c = EmissionEntering event"
  shows "conn_ok sha (enter_emission event c)"
proof (cases "gate_read (snd (emission_gate_id event (cn_registry c))) (cn_registry c)")
  case (Some w)
  have live: "output_ok c" "live_ok sha c" using assms by (simp_all add: conn_ok_def)
  have "live_ok sha (on_registry (\<lambda>_. w) c)" by (rule live_harmless [OF live(2) harmless_guard(2) [OF Some]])
  then show ?thesis
    using live(1) assms(2) by (simp add: enter_emission_def Some conn_ok_def live_ok_def output_ok_def)
qed (use assms in \<open>simp add: enter_emission_def\<close>)

lemma emission_active:
  assumes "is_authorized i w"
  shows "cell_active (rg_cells w i)"
  using assms by (simp add: is_authorized_def)

lemma check_emission_ok:
  assumes "conn_ok sha c" "cn_mode c = EmissionEntered event"
  shows "conn_ok sha (check_emission event c)"
proof -
  have live: "output_ok c" "live_ok sha c" using assms by (simp_all add: conn_ok_def)
  have serving: "serving_ok (cn_tags c) (cn_registry c) (cn_tasks c) (event # cn_events c) (set (cn_active c))
      (cn_next_subscription_id c)"
    using live_okD(5) [OF live(2)] assms(2) by simp
  obtain i where i: "ce_emission (snd event) = Some i" using live_okD(4) [OF live(2)] assms(2) by auto
  then have known: "acked (cn_tags c) (fst event) i" using serving by (simp add: serving_ok_def events_ok_def)
  show ?thesis
  proof (cases "is_authorized i (cn_registry c)")
    case True
    have "phase_ok (cn_tags c) (cn_registry c) (running (fst event) (cn_tasks c))
        (pending_of (fst event) (event # cn_events c)) (fst event)"
      using serving unfolding serving_ok_def by blast
    then obtain phase where "protocol (fst event) (cn_tags c) = Some phase"
      "phase \<noteq> SubUnknown" "phase \<noteq> SubOver" "phase \<noteq> SubCancelled"
      using known emission_active [OF True] unfolding phase_ok_def by auto
    then have "protocol (fst event) (cn_tags c) = Some SubOpen" by (cases phase) auto
    then show ?thesis
      using True live assms(2) i
      by (simp add: check_emission_def emission_gate_id_def conn_ok_def live_ok_def output_ok_def)
  next
    case False
    have "serving_ok (cn_tags c) (cn_registry (leave_emission event c)) (cn_tasks c) (cn_events c) (set (cn_active c))
        (cn_next_subscription_id c)"
      using live_okD(5) [OF live_left [OF live(2)], of event] assms(2) serving_suppressed by simp
    then show ?thesis
      using False live live_left [OF live(2), of event] i assms(2)
      by (simp add: check_emission_def emission_gate_id_def conn_ok_def live_ok_def output_ok_def)
  qed
qed

lemma emission_written_ok:
  assumes "conn_ok sha c" "cn_mode c = EmissionWriting event"
  shows "conn_ok sha (conn_write written (Notified (fst event)) (ce_body (snd event)) (leave_emission event c))"
proof -
  have live: "output_ok c" "live_ok sha c" using assms by (simp_all add: conn_ok_def)
  note left = live_left [OF live(2), of event]
  have serving: "serving_ok (cn_tags c) (cn_registry (leave_emission event c)) (cn_tasks c) (event # cn_events c)
      (set (cn_active c)) (cn_next_subscription_id c)"
    using live_okD(5) [OF left] assms(2) by simp
  have mode: "ce_emission (snd event) \<noteq> None" "protocol (fst event) (cn_tags c) = Some SubOpen"
    using live_okD(4) [OF live(2)] assms(2) by simp_all
  have "entry_ok (cn_tags c) (Notified (fst event)) (ce_body (snd event))"
    using serving mode(1) by (simp add: serving_ok_def events_ok_def event_of_def)
  then have "entry_ok (cn_tags c @ [Notified (fst event)]) (Notified (fst event)) (ce_body (snd event))"
    by (rule entry_ok_mono) auto
  moreover have "live_ok sha (wrote (Notified (fst event)) (ce_body (snd event)) (leave_emission event c))"
    using left serving_notified [OF serving mode] by (simp add: live_ok_def)
  moreover have "output_ok (leave_emission event c)" using live(1) by (simp add: output_ok_def)
  ultimately show ?thesis by (intro conn_write_ok) simp_all
qed

section \<open>Every step\<close>

lemma excluded_ok:
  assumes "conn_ok sha c" "cn_mode c = RevokeExcluding request gate revoking"
    and "excluded_revoke sha request gate revoking (cn_store c) = Some (result, s)"
  shows "conn_ok sha (conn_reply written (Replied request) result (c\<lparr> cn_store := s \<rparr>))"
proof -
  have live: "output_ok c" "live_ok sha c" using assms(1,2) by (simp_all add: conn_ok_def)
  have asked: "ev_version request = VERSION" "ev_message_type request = REVOKE_CAPABILITY"
    using live_okD(4) [OF live(2)] assms(2) by simp_all
  have "replied sha request {} (result, s)" by (rule excluded_revoke_replies [OF live_okD(1) [OF live(2)] asked assms(3)])
  then have done': "server_ok sha s" "\<And>body. result = Inr body \<Longrightarrow> typed_reply request body"
    by (auto simp add: replied_def)
  have "live_ok sha (c\<lparr> cn_store := s \<rparr>)"
    by (rule live_kept [OF live(2) done'(1) excluded_revoke_steady [OF live_okD(1) [OF live(2)] assms(3)]])
  then show ?thesis using live(1) assms(2) done'(2) by (intro conn_reply_ok) simp_all
qed

lemma serve_body_ok:
  assumes "conn_ok sha c" "cn_mode c = SelectRequests" "cn_requests c = body # requests"
  shows "conn_ok sha (serve_body sha ctx written body (c\<lparr> cn_requests := requests \<rparr>))"
proof -
  have live: "output_ok (c\<lparr> cn_requests := requests \<rparr>)" "live_ok sha (c\<lparr> cn_requests := requests \<rparr>)"
    using assms by (simp_all add: conn_ok_def output_ok_def live_ok_def)
  have modes: "in_flight (cn_mode (c\<lparr> cn_requests := requests \<rparr>)) = []"
    "cancelling (cn_mode (c\<lparr> cn_requests := requests \<rparr>)) = {}" using assms(2) by simp_all
  show ?thesis
    using return_ok [OF live(1)] serve_envelope_ok [OF live modes]
    by (simp add: serve_body_def split: sum.split option.split)
qed

lemma serve_poll_ok:
  assumes "conn_ok sha c"
  shows "conn_ok sha (serve_poll sha ctx written c)"
proof (cases "cn_mode c")
  case LoopStart
  then have "live_ok sha c" "output_ok c" using assms by (simp_all add: conn_ok_def)
  then show ?thesis
    using retain_ok_open [of sha c] LoopStart
    by (simp add: serve_poll_def conn_ok_def output_ok_def) (simp add: retain_open_def)
next
  case SelectTasks
  then have live: "live_ok sha c" "output_ok c" using assms by (simp_all add: conn_ok_def)
  show ?thesis
  proof (cases "join_next (cn_tasks c)")
    case None
    then show ?thesis using plain_mode [OF assms, of SelectEvents] SelectTasks by (simp add: serve_poll_def)
  next
    case (Some rest)
    then show ?thesis
      using joined_ok [OF live(1) _ _ Some] live(2) SelectTasks by (simp add: serve_poll_def conn_ok_def output_ok_def)
  qed
next
  case SelectEvents
  then show ?thesis
    using plain_mode [OF assms, of SelectRequests] write_event_ok [OF assms SelectEvents]
    by (simp add: serve_poll_def split: list.split)
next
  case SelectRequests
  have "output_ok c" using assms by (simp add: conn_ok_def)
  then show ?thesis
    using plain_mode [OF assms, of SelectTasks] serve_body_ok [OF assms SelectRequests] return_ok SelectRequests
    by (simp add: serve_poll_def split: list.split)
next
  case (EmissionEntering event)
  then show ?thesis using enter_emission_ok [OF assms] by (simp add: serve_poll_def)
next
  case (EmissionEntered event)
  then show ?thesis using check_emission_ok [OF assms] by (simp add: serve_poll_def)
next
  case (EmissionWriting event)
  then show ?thesis using emission_written_ok [OF assms] by (simp add: serve_poll_def)
next
  case (RevokeExcluding request gate revoking)
  then show ?thesis
    using excluded_ok [OF assms RevokeExcluding] assms by (simp add: serve_poll_def split: option.split prod.split)
next
  case (CancelFinishing request n)
  then have live: "live_ok sha c" "output_ok c" using assms by (simp_all add: conn_ok_def)
  have "decode_cancel_update_subscription (ev_payload request) = Inr n"
    using live_okD(4) [OF live(1)] CancelFinishing by simp
  then show ?thesis
    using cancel_reply_ok [OF live(2,1), of n request written] CancelFinishing assms
    by (auto simp add: serve_poll_def running_def)
next
  case (Returned result)
  then show ?thesis using assms by (simp add: serve_poll_def conn_ok_def output_ok_def)
next
  case (ChannelClosed result)
  then show ?thesis using assms by (simp add: serve_poll_def)
qed

lemma forward_at_ok:
  assumes "conn_ok sha c" "k < length (cn_tasks c)"
  shows "conn_ok sha (forward_at k held c)"
proof (cases "conn_over (cn_mode c)")
  case True
  then show ?thesis
    using assms(1) by (simp add: forward_at_def case_prod_beta conn_ok_def output_ok_def)
next
  case False
  then have live: "live_ok sha c" "output_ok c" using assms(1) by (simp_all add: conn_ok_def)
  let ?t = "cn_tasks c ! k"
  note serving = live_okD(5) [OF live(1)]
  show ?thesis
  proof (cases "task_done ?t")
    case True
    then have "forward_at k held c = c"
      by (simp add: forward_at_def forward_poll_def task_done_def Let_def on_registry_def)
    then show ?thesis using assms(1) by simp
  next
    case running: False
    have "?t \<in> set (cn_tasks c)" using assms(2) by simp
    then obtain request where request: "Acked (ft_id ?t) (ft_subscription ?t) request \<in> set (cn_tags c)"
      "ft_correlation_id ?t = ev_correlation_id request" "overflow_kept (cn_tags c) ?t"
      using serving unfolding serving_ok_def tasks_ok_def by blast
    have "forwards (cn_tags c) ?t (cn_events c) (cn_registry c)
        (forward_poll (\<not> conn_over (cn_mode c)) held ?t (cn_registry c) (cn_events c))"
      using forward_poll_forwards [OF request] running by blast
    then obtain t' w' sent phase where step:
      "forward_poll (\<not> conn_over (cn_mode c)) held ?t (cn_registry c) (cn_events c) = (t', w', cn_events c @ sent)"
      "t' = ?t\<lparr> ft_phase := phase \<rparr>" "harmless (cn_registry c) w'" "overflow_kept (cn_tags c) t'"
      "length (cn_events c @ sent) \<le> max (length (cn_events c)) CONNECTION_EVENT_QUEUE_CAPACITY"
      "length sent \<le> 1"
      "\<forall>event \<in> set sent. fst event = ft_id t' \<and> entry_ok (cn_tags c) (event_of event) (ce_body (snd event))
        \<and> (ce_emission (snd event) = Some (ft_subscription t') \<and> \<not> task_done t'
          \<or> ce_emission (snd event) = None \<and> task_done t')"
      "task_done t' \<longrightarrow> \<not> cell_active (rg_cells w' (ft_subscription t'))"
      unfolding forwards_def by auto
    have eq: "forward_at k held c = (on_registry (\<lambda>_. w') c)\<lparr> cn_tasks := (cn_tasks c)[k := t'],
        cn_events := cn_events c @ sent \<rparr>" by (simp add: forward_at_def step(1))
    have moved: "live_ok sha (on_registry (\<lambda>_. w') c)" by (rule live_harmless [OF live(1) step(3)])
    have "serving_ok (cn_tags c) w' (cn_tasks c) (in_flight (cn_mode c) @ cn_events c)
        (set (cn_active c) \<union> cancelling (cn_mode c)) (cn_next_subscription_id c)"
      using live_okD(5) [OF moved] by simp
    from serving_task [OF this assms(2) running step(2,4,6,7)] step(8)
    have serves: "serving_ok (cn_tags c) w' ((cn_tasks c)[k := t']) (in_flight (cn_mode c) @ cn_events c @ sent)
        (set (cn_active c) \<union> cancelling (cn_mode c)) (cn_next_subscription_id c)" by simp
    have marked: "mode_ok (cn_tags c) ((cn_tasks c)[k := t']) (cn_mode c)"
    proof (cases "cn_mode c")
      case (CancelFinishing request n)
      have "ft_cancelled t" if "t \<in> set ((cn_tasks c)[k := t'])" "ft_id t = n" for t
        using set_update_other [OF that(1)] that(2) live_okD(4) [OF live(1)] CancelFinishing step(2)
          \<open>?t \<in> set (cn_tasks c)\<close> by (cases "t = t'") auto
      then show ?thesis using live_okD(4) [OF live(1)] CancelFinishing by auto
    qed (use live_okD(4) [OF live(1)] in auto)
    have "length (cn_events c @ sent) \<le> CONNECTION_EVENT_QUEUE_CAPACITY"
      using step(5) live_okD(6) [OF live(1)] by linarith
    then have "live_ok sha (forward_at k held c)"
      unfolding eq using moved serves marked by (simp add: live_ok_def)
    then show ?thesis unfolding eq using live(2) by (simp add: conn_ok_def output_ok_def)
  qed
qed

lemma connection_step_ok: "connection_step sha c c' \<Longrightarrow> conn_ok sha c \<Longrightarrow> conn_ok sha c'"
proof (induction rule: connection_step.induct)
  case (cs_read c)
  then show ?case
    by (auto simp add: read_request_def conn_ok_def output_ok_def live_ok_def split: option.split sum.split)
next
  case (cs_serve c ctx written)
  then show ?case by (rule serve_poll_ok)
next
  case (cs_forward k c held)
  then show ?case by (simp add: forward_at_ok)
next
  case (cs_abort c k)
  then show ?case by (simp add: abort_at_def case_prod_beta conn_ok_def output_ok_def)
next
  case (cs_others c s)
  show ?case
  proof (cases "conn_over (cn_mode c)")
    case True
    then show ?thesis using cs_others.prems by (simp add: conn_ok_def output_ok_def)
  next
    case False
    then have live: "live_ok sha c" using cs_others.prems by (simp add: conn_ok_def)
    have "channel_held (cn_channel c) (ds_subscriptions s)"
      using live_okD(2) [OF live] cs_others.hyps(2,3) by (simp add: channel_held_def recognizes_def)
    then have "live_ok sha (c\<lparr> cn_store := s \<rparr>)"
      using live_store [OF live] server_step_ok [OF cs_others.hyps(1)] server_step_settles [OF cs_others.hyps(1)]
        live_okD(1) [OF live] by blast
    then show ?thesis using cs_others.prems by (simp add: conn_ok_def)
  qed
next
  case (cs_gates c gates)
  have "harmless (cn_registry c) ((cn_registry c)\<lparr> rg_gates := gates \<rparr>)" by (rule harmless_gates) simp
  then show ?case using cs_gates live_harmless [of sha c "\<lambda>w. w\<lparr> rg_gates := gates \<rparr>"] by (auto simp add: conn_ok_def)
qed

lemma connection_run_ok: "connection_run sha c c' \<Longrightarrow> conn_ok sha c \<Longrightarrow> conn_ok sha c'"
  by (induction rule: connection_run.induct) (auto intro: connection_step_ok)

lemma served_ok:
  assumes "server_ok sha s" "serve_connection s input = (Some c, s')"
  shows "conn_ok sha c"
proof -
  obtain channel where opened: "open_broker_channel s = (Some channel, s')"
    "c = \<lparr> cn_store = s', cn_channel = channel, cn_input = Some input, cn_requests = [], cn_events = [],
      cn_active = [], cn_tasks = [], cn_next_subscription_id = 1, cn_mode = LoopStart, cn_output = [] \<rparr>"
    using assms(2) by (auto simp add: serve_connection_def split: prod.splits option.splits)
  have "server_ok sha s'" using server_step_ok [OF sv_open assms(1)] opened(1) by simp
  moreover have "channel_held channel (ds_subscriptions s')"
    using opened(1) by (auto simp add: channel_held_def open_broker_channel_def open_channel_def Let_def split: option.splits)
  ultimately show ?thesis
    by (simp add: opened(2) conn_ok_def output_ok_def live_ok_def serving_ok_def tasks_ok_def subscriptions_ok_def
        events_ok_def phase_ok_def running_def)
qed

end
