(* ===== verification/Connection_Properties.thy ===== *)
theory Connection_Properties
  imports Connection_Steps
begin

text \<open>
  The properties of a connection of the store process: the order of its replies, the protocol of
  its subscriptions, its bounds, and the end of a cancellation.
\<close>

section \<open>The order of the replies\<close>

fun request_of :: "output_tag \<Rightarrow> envelope option" where
  "request_of (Replied request) = Some request"
| "request_of (Acked n i request) = Some request"
| "request_of (CancelReplied n request) = Some request"
| "request_of _ = None"

definition requests_of :: "output_tag list \<Rightarrow> envelope list" where
  "requests_of tags = List.map_filter request_of tags"

lemma requests_of_simps [simp]:
  "requests_of [] = []"
  "requests_of (tags @ [tag]) = requests_of tags @ (case request_of tag of None \<Rightarrow> [] | Some request \<Rightarrow> [request])"
  by (simp_all add: requests_of_def map_filter_def split: option.split)

fun unanswered :: "connection_mode \<Rightarrow> envelope list" where
  "unanswered (RevokeExcluding request gate revoking) = [request]"
| "unanswered (CancelFinishing request n) = [request]"
| "unanswered _ = []"

definition unread :: "connection \<Rightarrow> relay_result list" where
  "unread c = cn_requests c @ (case cn_input c of None \<Rightarrow> [] | Some input \<Rightarrow> read_relay_frames input)"

text \<open>The requests that were answered are the first ones of the stream, in its order.\<close>

definition answered :: "relay_result list \<Rightarrow> envelope list \<Rightarrow> relay_result list \<Rightarrow> bool" where
  "answered stream requests rest \<longleftrightarrow> (\<exists>bodies. stream = map (\<lambda>body. Inr (Some body)) bodies @ rest
    \<and> map decode_body bodies = map Inr requests)"

definition in_order :: "relay_result list \<Rightarrow> connection \<Rightarrow> bool" where
  "in_order stream c \<longleftrightarrow> (if conn_over (cn_mode c) then \<exists>rest. answered stream (requests_of (cn_tags c)) rest
    else answered stream (requests_of (cn_tags c) @ unanswered (cn_mode c)) (unread c))"

lemma answered_fewer: "answered stream (requests @ later) rest \<Longrightarrow> \<exists>rest. answered stream requests rest"
proof -
  assume "answered stream (requests @ later) rest"
  then obtain bodies where b: "stream = map (\<lambda>body. Inr (Some body)) bodies @ rest"
    "map decode_body bodies = map Inr requests @ map Inr later" by (auto simp add: answered_def)
  from b(2) obtain xs ys where "bodies = xs @ ys" "map decode_body xs = map Inr requests"
    by (auto simp add: map_eq_append_conv)
  then have "answered stream requests (map (\<lambda>body. Inr (Some body)) ys @ rest)" using b(1) by (auto simp add: answered_def)
  then show ?thesis by blast
qed

lemma answered_next:
  "answered stream requests (Inr (Some body) # rest) \<Longrightarrow> decode_body body = Inr request \<Longrightarrow>
    answered stream (requests @ [request]) rest"
  unfolding answered_def by (elim exE) (rule_tac x = "bodies @ [body]" in exI, simp)

text \<open>What serving a request does: it answers it, waits to, or ends the connection.\<close>

definition settled :: "envelope \<Rightarrow> connection \<Rightarrow> connection \<Rightarrow> bool" where
  "settled request c c' \<longleftrightarrow> cn_requests c' = cn_requests c \<and> cn_input c' = cn_input c
    \<and> (if conn_over (cn_mode c') then cn_output c' = cn_output c
       else requests_of (cn_tags c') @ unanswered (cn_mode c') = requests_of (cn_tags c) @ [request])"

lemma return_with_simps [simp]:
  "cn_mode (return_with result c) = Returned result" "cn_output (return_with result c) = cn_output c"
  "cn_requests (return_with result c) = cn_requests c" "cn_input (return_with result c) = cn_input c"
  by (simp_all add: return_with_def)

lemma return_settled: "cn_requests c' = cn_requests c \<Longrightarrow> cn_input c' = cn_input c \<Longrightarrow> cn_output c' = cn_output c \<Longrightarrow>
    settled request c (return_with result c')"
  by (simp add: settled_def return_with_def)

lemma write_settled:
  "request_of tag = Some request \<Longrightarrow> cn_requests c' = cn_requests c \<Longrightarrow> cn_input c' = cn_input c \<Longrightarrow>
    cn_output c' = cn_output c \<Longrightarrow> settled request c (conn_write written tag body c')"
  by (cases written) (simp_all add: conn_write_eq return_settled settled_def)

lemma reply_settled:
  "request_of tag = Some request \<Longrightarrow> cn_requests c' = cn_requests c \<Longrightarrow> cn_input c' = cn_input c \<Longrightarrow>
    cn_output c' = cn_output c \<Longrightarrow> settled request c (conn_reply written tag result c')"
  by (simp add: conn_reply_def return_settled write_settled split: sum.split)

lemma error_settled:
  "cn_requests c' = cn_requests c \<Longrightarrow> cn_input c' = cn_input c \<Longrightarrow>
    cn_output c' = cn_output c \<Longrightarrow> settled request c (conn_error written request code c')"
  by (simp add: conn_error_def reply_settled)

lemma spawn_settled:
  "settled request c (wrote (Acked n i request) body (spawn i request following (c\<lparr> cn_store := s \<rparr>)))"
  by (simp add: settled_def)

lemma subscribe_settled: "settled request c (serve_subscribe sha written request subscribe c)"
proof (cases "length (cn_tasks c) < MAX_UPDATE_SUBSCRIPTIONS_PER_CHANNEL
    \<and> checked_add (cn_next_subscription_id c) 1 \<noteq> None")
  case False
  then show ?thesis by (auto simp add: serve_subscribe_def error_settled)
next
  case True
  then obtain following where room: "length (cn_tasks c) < MAX_UPDATE_SUBSCRIPTIONS_PER_CHANNEL"
    "checked_add (cn_next_subscription_id c) 1 = Some following" by blast
  obtain outcome s where out: "subscribe_updates sha (cn_store c) (cn_channel c) (su_document_id subscribe)
      (ca_capability_id (su_authority subscribe)) (ca_authenticator (su_authority subscribe)) = (outcome, s)"
    by fastforce
  show ?thesis
  proof (cases outcome)
    case (SubAcknowledged i)
    obtain body where body:
      "response request SUBSCRIBE_UPDATES_ACK (encode_subscribe_updates_ack (cn_next_subscription_id c)) = Inr body"
      by (rule acked_body)
    note eq = serve_subscribe_eq [OF out [unfolded SubAcknowledged] room body]
    show ?thesis by (cases written) (simp_all add: eq spawn_settled return_settled)
  qed (use room out in \<open>simp_all add: serve_subscribe_def error_settled\<close>)
qed

lemma cancel_settled: "settled request c (serve_cancel written request n c)" if "\<not> conn_over (cn_mode c)"
  by (simp add: serve_cancel_def cancel_reply_def reply_settled) (simp add: settled_def)

lemma other_settled: "settled request c (serve_other sha ctx written request c)"
  by (auto simp add: serve_other_def reply_settled split: prod.split handler_step.split) (simp add: settled_def)

lemma envelope_settled: "\<not> conn_over (cn_mode c) \<Longrightarrow> settled request c (serve_envelope sha ctx written request c)"
  by (simp add: serve_envelope_def error_settled subscribe_settled cancel_settled other_settled split: sum.split)

lemma settled_in_order:
  assumes "settled request c c'" "answered stream (requests_of (cn_tags c) @ [request]) (unread c)"
  shows "in_order stream c'"
proof (cases "conn_over (cn_mode c')")
  case True
  then show ?thesis
    using assms(1) answered_fewer [OF assms(2)] by (simp add: settled_def in_order_def)
next
  case False
  then show ?thesis using assms by (simp add: settled_def in_order_def unread_def)
qed

lemma read_request_unread [simp]: "unread (read_request c) = unread c"
proof (cases "cn_input c")
  case (Some input)
  have frames: "read_relay_frames input = (case read_body input of Inl e \<Rightarrow> [Inl e] | Inr (None, rest) \<Rightarrow> [Inr None]
      | Inr (Some body, rest) \<Rightarrow> Inr (Some body) # read_relay_frames rest)"
    by (subst read_relay_frames.simps) (auto dest: read_body_shorter split: sum.split option.split)
  show ?thesis
    by (simp add: read_request_def unread_def Some frames split: sum.split option.split prod.split)
qed (simp add: read_request_def)

lemma read_request_simps [simp]:
  "cn_mode (read_request c) = cn_mode c" "cn_output (read_request c) = cn_output c"
  by (simp_all add: read_request_def split: option.split sum.split)

lemma in_order_same:
  "in_order stream c \<Longrightarrow> cn_mode c' = cn_mode c \<Longrightarrow> cn_tags c' = cn_tags c \<Longrightarrow> unread c' = unread c \<Longrightarrow> in_order stream c'"
  by (simp add: in_order_def)

lemma returned_in_order:
  assumes "in_order stream c" "cn_output c' = cn_output c"
  shows "in_order stream (return_with result c')"
proof -
  have "\<exists>rest. answered stream (requests_of (cn_tags c)) rest"
    using assms(1) answered_fewer unfolding in_order_def by (metis (full_types))
  then show ?thesis using assms(2) by (simp add: in_order_def return_with_def)
qed

lemma event_in_order:
  assumes "in_order stream c" "unanswered (cn_mode c) = []" "\<not> conn_over (cn_mode c)" "request_of tag = None"
    and "cn_output c' = cn_output c" "unread c' = unread c"
  shows "in_order stream (conn_write written tag body c')"
proof (cases written)
  case True
  then show ?thesis using assms by (simp add: conn_write_eq in_order_def unread_def)
next
  case False
  then show ?thesis using returned_in_order [OF assms(1,5)] by (simp add: conn_write_eq)
qed

lemma serve_body_in_order:
  assumes "in_order stream c" "cn_mode c = SelectRequests" "cn_requests c = body # requests"
  shows "in_order stream (serve_body sha ctx written body (c\<lparr> cn_requests := requests \<rparr>))"
proof -
  let ?c = "c\<lparr> cn_requests := requests \<rparr>"
  have stream: "answered stream (requests_of (cn_tags c)) (body # unread ?c)"
    using assms by (simp add: in_order_def unread_def)
  have "in_order stream (serve_envelope sha ctx written request ?c)" if "body = Inr (Some b)" "decode_body b = Inr request" for b request
  proof (rule settled_in_order)
    show "settled request ?c (serve_envelope sha ctx written request ?c)" by (rule envelope_settled) (simp add: assms(2))
    show "answered stream (requests_of (cn_tags ?c) @ [request]) (unread ?c)"
      using answered_next [OF stream [unfolded that(1)] that(2)] by simp
  qed
  then show ?thesis
    using returned_in_order [OF assms(1), of ?c] by (simp add: serve_body_def split: sum.split option.split)
qed

lemma serve_poll_in_order:
  assumes "in_order stream c"
  shows "in_order stream (serve_poll sha ctx written c)"
proof -
  have plain: "in_order stream c'" if "unanswered (cn_mode c) = []" "\<not> conn_over (cn_mode c)" "unanswered (cn_mode c') = []"
    "\<not> conn_over (cn_mode c')" "cn_tags c' = cn_tags c" "unread c' = unread c" for c'
    using assms that by (simp add: in_order_def)
  note plain_defs = unread_def retain_open_def
  show ?thesis
  proof (cases "cn_mode c")
    case LoopStart
    then show ?thesis by (simp add: serve_poll_def plain plain_defs)
  next
    case SelectTasks
    then show ?thesis by (simp add: serve_poll_def plain plain_defs split: option.split)
  next
    case SelectEvents
    then show ?thesis
      by (auto simp add: serve_poll_def plain plain_defs write_event_def split: list.split option.split
          intro!: event_in_order [OF assms])
  next
    case SelectRequests
    then show ?thesis
      using serve_body_in_order [OF assms SelectRequests] returned_in_order [OF assms]
      by (simp add: serve_poll_def plain plain_defs split: list.split)
  next
    case (EmissionEntering event)
    then show ?thesis using assms by (simp add: serve_poll_def enter_emission_def plain plain_defs split: option.split)
  next
    case (EmissionEntered event)
    then show ?thesis by (simp add: serve_poll_def check_emission_def plain plain_defs)
  next
    case (EmissionWriting event)
    then show ?thesis
      by (auto simp add: serve_poll_def plain_defs intro!: event_in_order [OF assms])
  next
    case (RevokeExcluding request gate revoking)
    then have waits: "answered stream (requests_of (cn_tags c) @ [request]) (unread c)" using assms by (simp add: in_order_def)
    have "in_order stream (conn_reply written (Replied request) result (c\<lparr> cn_store := s \<rparr>))" for result s
      by (rule settled_in_order [OF reply_settled waits]) simp_all
    then show ?thesis
      using assms by (simp add: serve_poll_def RevokeExcluding split: option.split prod.split)
  next
    case (CancelFinishing request n)
    then have "answered stream (requests_of (cn_tags c) @ [request]) (unread c)" using assms by (simp add: in_order_def)
    moreover have "settled request c (cancel_reply written request n c)"
      unfolding cancel_reply_def by (rule reply_settled) simp_all
    ultimately show ?thesis
      using assms settled_in_order by (simp add: serve_poll_def CancelFinishing)
  next
    case (Returned result)
    then show ?thesis using assms by (simp add: serve_poll_def in_order_def)
  next
    case (ChannelClosed result)
    then show ?thesis using assms by (simp add: serve_poll_def)
  qed
qed

lemma connection_step_in_order: "connection_step sha c c' \<Longrightarrow> in_order stream c \<Longrightarrow> in_order stream c'"
proof (induction rule: connection_step.induct)
  case (cs_read c)
  then show ?case by (auto intro: in_order_same)
next
  case (cs_serve c ctx written)
  then show ?case by (rule serve_poll_in_order)
qed (auto simp add: forward_at_def abort_at_def case_prod_beta unread_def intro: in_order_same)

lemma connection_run_in_order: "connection_run sha c c' \<Longrightarrow> in_order stream c \<Longrightarrow> in_order stream c'"
  by (induction rule: connection_run.induct) (auto intro: connection_step_in_order)

lemma served_in_order: "serve_connection s input = (Some c, s') \<Longrightarrow> in_order (read_relay_frames input) c"
  by (auto simp add: serve_connection_def in_order_def unread_def answered_def split: prod.splits option.splits)

text \<open>
  C17: the replies of a connection.  Whatever the other connections do, however the tasks of this
  one interleave and wherever it stops: the requests that were answered are the first ones that
  the client sent, one reply each, in the order of the stream.  Every reply is the typed one under
  the correlation number of its request - an acknowledgement carries the identity it opens, the
  reply to a cancellation the identity it names - and every event carries the correlation number
  of the request that opened its subscription, and its identity.
\<close>

theorem connection_answers_in_order:
  assumes "store_history sha empty_tables t" "server_run sha (opened t generation broker) s"
    and "serve_connection s input = (Some c0, s0)" "connection_run sha c0 c"
  shows "(\<exists>bodies rest. read_relay_frames input = map (\<lambda>body. Inr (Some body)) bodies @ rest
      \<and> map decode_body bodies = map Inr (requests_of (map fst (cn_output c))))
    \<and> list_all (\<lambda>(tag, body). entry_ok (map fst (cn_output c)) tag body) (cn_output c)"
proof -
  have "conn_ok sha c" by (rule connection_run_ok [OF assms(4) served_ok [OF opened_server_ok [OF assms(1,2)] assms(3)]])
  then have entries: "output_ok c" by (simp add: conn_ok_def)
  have "in_order (read_relay_frames input) c" by (rule connection_run_in_order [OF assms(4) served_in_order [OF assms(3)]])
  then have "\<exists>rest. answered (read_relay_frames input) (requests_of (cn_tags c)) rest"
    using answered_fewer unfolding in_order_def by (metis (full_types))
  then show ?thesis using entries unfolding answered_def output_ok_def by (auto simp add: list_all_iff)
qed

text \<open>
  C16: the subscriptions of a connection follow their protocol.  For every identity the bodies
  written are accepted by the reference automaton: one acknowledgement comes before everything
  else of the identity; wakeups follow until a cancellation of it is answered or a terminal event
  is written, and never after; there is at most one terminal event, and no event comes after it.
\<close>

theorem subscriptions_follow_the_protocol:
  assumes "store_history sha empty_tables t" "server_run sha (opened t generation broker) s"
    and "serve_connection s input = (Some c0, s0)" "connection_run sha c0 c"
  shows "protocol n (map fst (cn_output c)) \<noteq> None"
proof -
  have "conn_ok sha c" by (rule connection_run_ok [OF assms(4) served_ok [OF opened_server_ok [OF assms(1,2)] assms(3)]])
  then show ?thesis by (simp add: conn_ok_def output_ok_def)
qed

text \<open>
  C19: a connection that is served is bounded, whatever its client asks and however slowly it
  reads: at most 32 forwarding tasks, each for an identity of its own that was acknowledged, and
  at most 64 queued events and 64 queued requests.
\<close>

theorem served_connection_is_bounded:
  assumes "store_history sha empty_tables t" "server_run sha (opened t generation broker) s"
    and "serve_connection s input = (Some c0, s0)" "connection_run sha c0 c" "\<not> conn_over (cn_mode c)"
  shows "length (cn_tasks c) \<le> 32 \<and> distinct (map ft_id (cn_tasks c))
    \<and> length (cn_events c) \<le> 64 \<and> length (cn_requests c) \<le> 64
    \<and> (\<forall>t \<in> set (cn_tasks c). acked (map fst (cn_output c)) (ft_id t) (ft_subscription t))"
proof -
  have "conn_ok sha c" by (rule connection_run_ok [OF assms(4) served_ok [OF opened_server_ok [OF assms(1,2)] assms(3)]])
  then have live: "live_ok sha c" using assms(5) by (simp add: conn_ok_def)
  then have tasks: "tasks_ok (cn_tags c) (cn_tasks c)" using live_okD(5) by (auto simp add: serving_ok_def)
  have "acked (cn_tags c) (ft_id t) (ft_subscription t)" if "t \<in> set (cn_tasks c)" for t
    using tasks that unfolding tasks_ok_def acked_def by blast
  then show ?thesis
    using live_okD(6,7) [OF live] tasks
    by (simp add: tasks_ok_def subscription_limit_defs CONNECTION_EVENT_QUEUE_CAPACITY_def)
qed

text \<open>
  C18: a cancellation that waits is answered.  While the reply to a cancellation waits for the
  task of the identity, that task is told: two polls end it wherever it stands - even with its
  overflow event held back by a full queue, which nothing drains meanwhile - and once it has ended the
  next step of the connection is the reply, under the correlation number of the cancellation.
\<close>

theorem cancellation_is_answered:
  assumes "store_history sha empty_tables t" "server_run sha (opened t generation broker) s"
    and "serve_connection s input = (Some c0, s0)" "connection_run sha c0 c"
    and "cn_mode c = CancelFinishing request n"
  shows "(k < length (cn_tasks c) \<and> ft_id (cn_tasks c ! k) = n \<longrightarrow>
      task_done (cn_tasks (forward_at k held (forward_at k held' c)) ! k))
    \<and> ((\<forall>t \<in> set (cn_tasks c). ft_id t = n \<longrightarrow> task_done t) \<longrightarrow>
      (\<exists>body. cn_output (serve_poll sha ctx True c) = cn_output c @ [(CancelReplied n request, body)]
        \<and> carries body (ev_correlation_id request) CANCEL_UPDATE_SUBSCRIPTION_RESPONSE
          (encode_cancel_update_subscription n)))"
proof -
  have "conn_ok sha c" by (rule connection_run_ok [OF assms(4) served_ok [OF opened_server_ok [OF assms(1,2)] assms(3)]])
  then have live: "live_ok sha c" using assms(5) by (simp add: conn_ok_def)
  have told: "ft_cancelled t" if "t \<in> set (cn_tasks c)" "ft_id t = n" for t
    using live_okD(4) [OF live] assms(5) that by simp
  have polled: "ft_cancelled t' \<and> (task_done t' \<or> ft_phase t' \<noteq> ForwardStarting)
      \<and> (ft_phase t \<noteq> ForwardStarting \<longrightarrow> task_done t')"
    if "ft_cancelled t" "forward_poll open h t w queue = (t', w', queue')" for t open' h w queue t' w' queue' "open"
    using that by (cases "ft_phase t")
      (auto simp add: forward_poll_def finished_def finish_forward_def task_done_def Let_def)
  have "task_done (cn_tasks (forward_at k held (forward_at k held' c)) ! k)"
    if k: "k < length (cn_tasks c)" "ft_id (cn_tasks c ! k) = n"
  proof -
    obtain t1 w1 q1 where one: "forward_poll (\<not> conn_over (cn_mode c)) held' (cn_tasks c ! k) (cn_registry c) (cn_events c)
      = (t1, w1, q1)" by (cases "forward_poll (\<not> conn_over (cn_mode c)) held' (cn_tasks c ! k) (cn_registry c) (cn_events c)")
    have task1: "cn_tasks (forward_at k held' c) ! k = t1" using k(1) by (simp add: forward_at_def one)
    have t1: "ft_cancelled t1" "task_done t1 \<or> ft_phase t1 \<noteq> ForwardStarting"
      using polled [OF told [OF nth_mem [OF k(1)] k(2)] one] by blast+
    obtain t2 w2 q2 where two: "forward_poll (\<not> conn_over (cn_mode (forward_at k held' c))) held t1
        (cn_registry (forward_at k held' c)) (cn_events (forward_at k held' c)) = (t2, w2, q2)"
      by (cases "forward_poll (\<not> conn_over (cn_mode (forward_at k held' c))) held t1
        (cn_registry (forward_at k held' c)) (cn_events (forward_at k held' c))")
    have "task_done t2" using polled [OF t1(1) two] t1(2) by (auto simp add: task_done_def)
    moreover have "length (cn_tasks (forward_at k held' c)) = length (cn_tasks c)"
      by (simp add: forward_at_def case_prod_beta)
    ultimately show ?thesis
      using k(1) two task1 unfolding forward_at_def [of k held "forward_at k held' c"] by simp
  qed
  moreover have "\<exists>body. cn_output (serve_poll sha ctx True c) = cn_output c @ [(CancelReplied n request, body)]
        \<and> carries body (ev_correlation_id request) CANCEL_UPDATE_SUBSCRIPTION_RESPONSE
          (encode_cancel_update_subscription n)"
    if "\<forall>t \<in> set (cn_tasks c). ft_id t = n \<longrightarrow> task_done t"
  proof -
    obtain body where body: "encode_body \<lparr> ev_correlation_id = ev_correlation_id request,
      ev_message_type = CANCEL_UPDATE_SUBSCRIPTION_RESPONSE, ev_payload = encode_cancel_update_subscription n,
      ev_version = VERSION \<rparr> = Inr body"
      "carries body (ev_correlation_id request) CANCEL_UPDATE_SUBSCRIPTION_RESPONSE (encode_cancel_update_subscription n)"
      by (rule short_carries [of "encode_cancel_update_subscription n"]) simp
    have "serve_poll sha ctx True c = cancel_reply True request n c"
      using that assms(5) by (auto simp add: serve_poll_def)
    then show ?thesis
      using body by (simp add: cancel_reply_def conn_reply_def response_def map_err_def conn_write_def)
  qed
  ultimately show ?thesis by blast
qed

section \<open>A connection that subscribes and cancels\<close>

definition demo_subscribe :: envelope where
  "demo_subscribe = \<lparr> ev_correlation_id = 11, ev_message_type = SUBSCRIBE_UPDATES,
    ev_payload = encode_subscribe_updates_request \<lparr> su_authority = \<lparr> ca_capability_id = 8, ca_authenticator = 9 \<rparr>,
      su_document_id = 4 \<rparr>, ev_version = VERSION \<rparr>"

definition demo_cancel :: envelope where
  "demo_cancel = \<lparr> ev_correlation_id = 12, ev_message_type = CANCEL_UPDATE_SUBSCRIPTION,
    ev_payload = encode_cancel_update_subscription 1, ev_version = VERSION \<rparr>"

definition demo_body :: "envelope \<Rightarrow> bytes" where
  "demo_body e = projr (encode_body e)"

definition demo_client :: bytes where
  "demo_client = framed (demo_body demo_subscribe) @ framed (demo_body demo_cancel)"

lemma demo_bodies:
  "decode_body (demo_body demo_subscribe) = Inr demo_subscribe" "length (demo_body demo_subscribe) \<le> MAX_BODY_LENGTH"
  "decode_body (demo_body demo_cancel) = Inr demo_cancel" "length (demo_body demo_cancel) \<le> MAX_BODY_LENGTH"
proof -
  have "length (ev_payload demo_subscribe) = 66" "length (ev_payload demo_cancel) = 18"
    by (simp_all add: demo_subscribe_def demo_cancel_def encode_subscribe_updates_request_def encode_authority_def)
  then have fits: "length (ev_payload e) \<le> MAX_APPLICATION_PAYLOAD_LENGTH" if "e = demo_subscribe \<or> e = demo_cancel" for e
    using that by (auto simp add: update_length_defs)
  have "decode_body (demo_body e) = Inr e \<and> length (demo_body e) \<le> MAX_BODY_LENGTH"
    if e: "e = demo_subscribe \<or> e = demo_cancel" for e
  proof -
    obtain body where "encode_body e = Inr body" using fits [OF e] by (auto simp add: encode_body_Inr_iff)
    then show ?thesis using encode_body_length [of e body] by (simp add: demo_body_def decode_body_iff)
  qed
  then show "decode_body (demo_body demo_subscribe) = Inr demo_subscribe" "length (demo_body demo_subscribe) \<le> MAX_BODY_LENGTH"
    "decode_body (demo_body demo_cancel) = Inr demo_cancel" "length (demo_body demo_cancel) \<le> MAX_BODY_LENGTH" by blast+
qed

lemma demo_reads:
  "read_body demo_client = Inr (Some (demo_body demo_subscribe), framed (demo_body demo_cancel))"
  "read_body (framed (demo_body demo_cancel)) = Inr (Some (demo_body demo_cancel), [])"
  using read_body_append [OF demo_bodies(2)] read_body_append [OF demo_bodies(4), of "[]"]
  by (simp_all add: demo_client_def framed_def)

lemma demo_decoded:
  "decode_subscribe_updates_request (ev_payload demo_subscribe) = Inr
    \<lparr> su_authority = \<lparr> ca_capability_id = 8, ca_authenticator = 9 \<rparr>, su_document_id = 4 \<rparr>"
  "decode_cancel_update_subscription (ev_payload demo_cancel) = Inr 1"
  using subscribe_codec.dec_iff subscription_identity_codec.dec_iff
  by (simp_all add: demo_subscribe_def demo_cancel_def decode_cancel_update_subscription_def
      encode_cancel_update_subscription_def)

definition demo_ctx :: request_context where
  "demo_ctx = \<lparr> rq_now = 0, rq_later = 0, rq_random = \<lambda>_. None \<rparr>"

abbreviation demo_poll :: "connection \<Rightarrow> connection" where
  "demo_poll \<equiv> serve_poll demo_sha demo_ctx True"

definition demo_open_store :: durable_update_store where
  "demo_open_store = snd (open_broker_channel (opened demo_granted 0 0))"

definition demo_connection :: connection where
  "demo_connection = \<lparr> cn_store = demo_open_store, cn_channel = demo_channel, cn_input = Some demo_client,
    cn_requests = [], cn_events = [], cn_active = [], cn_tasks = [], cn_next_subscription_id = 1,
    cn_mode = LoopStart, cn_output = [] \<rparr>"

definition demo_task :: forward_task where
  "demo_task = \<lparr> ft_subscription = 1, ft_id = 1, ft_correlation_id = 11, ft_cancelled = False, ft_phase = ForwardStarting \<rparr>"

definition demo_ack :: bytes where
  "demo_ack = projr (response demo_subscribe SUBSCRIBE_UPDATES_ACK (encode_subscribe_updates_ack 1))"

definition demo_acked :: connection where
  "demo_acked = \<lparr> cn_store = demo_broker, cn_channel = demo_channel, cn_input = Some (framed (demo_body demo_cancel)),
    cn_requests = [], cn_events = [], cn_active = [1], cn_tasks = [demo_task], cn_next_subscription_id = 2,
    cn_mode = LoopStart, cn_output = [(Acked 1 1 demo_subscribe, demo_ack)] \<rparr>"

definition demo_waiting :: connection where
  "demo_waiting = demo_acked\<lparr> cn_input := Some [], cn_active := [],
    cn_tasks := [demo_task\<lparr> ft_cancelled := True \<rparr>], cn_mode := CancelFinishing demo_cancel 1 \<rparr>"

lemma demo_served: "serve_connection (opened demo_granted 0 0) demo_client = (Some demo_connection, demo_open_store)"
proof -
  have "fst (open_broker_channel (opened demo_granted 0 0)) = Some demo_channel"
    by (simp add: open_broker_channel_def opened_def demo_open)
  then have "open_broker_channel (opened demo_granted 0 0) = (Some demo_channel, demo_open_store)"
    by (simp add: demo_open_store_def prod_eq_iff)
  then show ?thesis by (simp add: serve_connection_def demo_connection_def)
qed

lemma demo_subscribes: "subscribe_updates demo_sha demo_open_store demo_channel 4 8 9 = (SubAcknowledged 1, demo_broker)"
proof -
  let ?w = "ds_subscriptions demo_open_store"
  have w: "?w = snd (open_channel (registry_new 0))" "ds_tables demo_open_store = demo_granted"
    by (simp_all add: demo_open_store_def open_broker_channel_def opened_def case_prod_beta)
  have known: "recognizes ?w demo_channel"
    by (simp add: w(1) demo_open recognizes_def) (simp add: demo_channel_def registry_new_def)
  have "fst (register demo_channel 4 8 ?w) = Inr 1"
    unfolding w demo_open
    by (simp add: register_def recognizes_def demo_channel_def registry_new_def
        prune_def retain_def subscription_limit_defs checked_add_def emission_gate_of_def Let_def)
  then have "fst (subscribe_updates demo_sha demo_open_store demo_channel 4 8 9) = SubAcknowledged 1"
    using demo_child_reads
    by (simp add: subscribe_updates_def w(2) case_prod_beta known)
  then show ?thesis using demo_broker_subscribed(1) by (simp add: demo_open_store_def prod_eq_iff)
qed

lemma demo_subscribed:
  "demo_poll (demo_poll (demo_poll (demo_poll (read_request demo_connection)))) = demo_acked"
proof -
  obtain body where "response demo_subscribe SUBSCRIBE_UPDATES_ACK (encode_subscribe_updates_ack 1) = Inr body"
    by (rule acked_body)
  then have ack: "response demo_subscribe SUBSCRIBE_UPDATES_ACK (encode_subscribe_updates_ack 1) = Inr demo_ack"
    by (simp add: demo_ack_def)
  let ?c = "demo_connection\<lparr> cn_input := Some (framed (demo_body demo_cancel)), cn_mode := SelectRequests \<rparr>"
  have "demo_poll (demo_poll (demo_poll (read_request demo_connection)))
      = ?c\<lparr> cn_requests := [Inr (Some (demo_body demo_subscribe))] \<rparr>"
    by (simp add: read_request_def demo_connection_def demo_reads serve_poll_def retain_open_def
        CONNECTION_EVENT_QUEUE_CAPACITY_def)
  moreover have "serve_body demo_sha demo_ctx True (Inr (Some (demo_body demo_subscribe))) ?c
      = serve_subscribe demo_sha True demo_subscribe
        \<lparr> su_authority = \<lparr> ca_capability_id = 8, ca_authenticator = 9 \<rparr>, su_document_id = 4 \<rparr> ?c"
    by (simp add: serve_body_def demo_bodies(1) serve_envelope_def demo_decoded(1)) (simp add: demo_subscribe_def)
  moreover have "\<dots> = wrote (Acked 1 1 demo_subscribe) demo_ack (spawn 1 demo_subscribe 2 (?c\<lparr> cn_store := demo_broker \<rparr>))"
    using serve_subscribe_eq(1) [of demo_sha ?c "\<lparr> su_authority = \<lparr> ca_capability_id = 8, ca_authenticator = 9 \<rparr>, su_document_id = 4 \<rparr>"
        1 demo_broker 2 demo_subscribe demo_ack] demo_subscribes ack
    by (simp add: demo_connection_def subscription_limit_defs checked_add_def)
  moreover have "\<dots> = demo_acked"
    by (simp add: wrote_def spawn_def demo_acked_def demo_connection_def demo_task_def demo_subscribe_def)
  ultimately show ?thesis by (simp add: serve_poll_def demo_connection_def)
qed

lemma demo_cancels:
  "demo_poll (demo_poll (demo_poll (demo_poll (read_request demo_acked)))) = demo_waiting"
proof -
  have running: "\<not> task_done demo_task" "ft_id demo_task = 1" by (simp_all add: demo_task_def task_done_def)
  have "demo_poll (demo_poll (demo_poll (read_request demo_acked)))
      = demo_acked\<lparr> cn_input := Some [], cn_mode := SelectRequests, cn_requests := [Inr (Some (demo_body demo_cancel))] \<rparr>"
    by (simp add: read_request_def demo_acked_def demo_reads serve_poll_def retain_open_def running
        CONNECTION_EVENT_QUEUE_CAPACITY_def)
  then show ?thesis
    by (simp add: serve_poll_def demo_acked_def serve_body_def demo_bodies(3) serve_envelope_def demo_decoded(2)
        serve_cancel_def running demo_waiting_def)
      (simp add: demo_cancel_def CANCEL_UPDATE_SUBSCRIPTION_def SUBSCRIBE_UPDATES_def)
qed

lemma demo_polls: "connection_run demo_sha c c' \<Longrightarrow> connection_run demo_sha c (demo_poll (demo_poll (demo_poll (demo_poll (read_request c')))))"
  by (intro connection_next [OF _ cs_serve] connection_next [OF _ cs_read])

lemma demo_run: "connection_run demo_sha demo_connection demo_waiting"
  using demo_polls [OF demo_polls [OF connection_start]] demo_subscribed demo_cancels by metis

definition demo_finished :: connection where
  "demo_finished = demo_poll (forward_at 0 0 (forward_at 0 0 demo_waiting))"

lemma demo_finished_run: "connection_run demo_sha demo_connection demo_finished"
proof -
  have tasks: "0 < length (cn_tasks (forward_at 0 held demo_waiting))" "0 < length (cn_tasks demo_waiting)" for held
    by (simp_all add: forward_at_def case_prod_beta demo_waiting_def)
  show ?thesis
    unfolding demo_finished_def
    by (rule connection_next [OF connection_next [OF connection_next [OF demo_run cs_forward [OF tasks(2)]]
          cs_forward [OF tasks(1)]] cs_serve]) simp_all
qed

lemma demo_finished_output:
  "map fst (cn_output demo_finished) = [Acked 1 1 demo_subscribe, CancelReplied 1 demo_cancel]"
proof -
  obtain body where "encode_body \<lparr> ev_correlation_id = ev_correlation_id demo_cancel,
      ev_message_type = CANCEL_UPDATE_SUBSCRIPTION_RESPONSE, ev_payload = encode_cancel_update_subscription 1,
      ev_version = VERSION \<rparr> = Inr body"
    by (rule short_carries [of "encode_cancel_update_subscription 1"]) simp
  then show ?thesis
    by (simp add: demo_finished_def serve_poll_def forward_at_def forward_poll_def demo_waiting_def demo_acked_def
        demo_task_def finished_def finish_forward_def task_done_def cancel_reply_def conn_reply_def response_def
        map_err_def conn_write_def Let_def)
qed

lemmas demo_connected = demo_granted_history server_start demo_served

theorem connection_answers_in_order_witness:
  "\<exists>bodies rest. read_relay_frames demo_client = map (\<lambda>body. Inr (Some body)) bodies @ rest
    \<and> map decode_body bodies = [Inr demo_subscribe, Inr demo_cancel]"
  using connection_answers_in_order [OF demo_connected demo_finished_run]
  by (simp add: demo_finished_output requests_of_def map_filter_def)

theorem subscriptions_follow_the_protocol_witness:
  "protocol 1 [Acked 1 1 demo_subscribe, CancelReplied 1 demo_cancel] \<noteq> None
    \<and> protocol 1 [Acked 1 1 demo_subscribe, CancelReplied 1 demo_cancel, Notified 1] = None"
  using subscriptions_follow_the_protocol [OF demo_connected demo_finished_run, of 1]
  by (simp add: demo_finished_output protocol_def)

theorem served_connection_is_bounded_witness:
  "length (cn_tasks demo_waiting) \<le> 32 \<and> acked (map fst (cn_output demo_waiting)) 1 1"
  using served_connection_is_bounded [OF demo_connected demo_run]
  by (simp add: demo_waiting_def demo_task_def)

theorem cancellation_is_answered_witness:
  "task_done (cn_tasks (forward_at 0 0 (forward_at 0 0 demo_waiting)) ! 0)"
  using cancellation_is_answered [OF demo_connected demo_run, of demo_cancel 1 0]
  by (simp add: demo_waiting_def demo_acked_def demo_task_def)

end
