(* ===== verification/Subject_Client.thy ===== *)
theory Subject_Client
  imports Connection_Properties
begin

text \<open>
  The client of \<open>renee-subject/src/lib.rs\<close>: what \<open>WebTransportConnection\<close> writes on a stream and
  what it makes of the bytes that come back.  The transport is a parameter: the bytes that the
  stream of a request brings for the bytes written on it, or the failure of the stream.
\<close>

datatype client_error =
    ClientTransport | ClientIo io_error | ClientDecode decode_error | ClientGreeting greeting_decode_error
  | ClientCapability capability_codec_error | ClientUpdate update_codec_error | ClientOther string

type_synonym transport = "bytes \<Rightarrow> client_error + bytes"
type_synonym 'a client_result = "client_error + 'a"

definition CARBON_BANNER :: bytes where "CARBON_BANNER = ascii ''I couldn'' @ [39] @ ascii ''t stay away''"

section \<open>Observations\<close>

datatype negotiation_observation =
  ObsSelected bytes | ObsUnsupportedVersion | ObsUnsupportedProfile | ObsExpectedHello | ObsAlreadyNegotiated

datatype accept_observation =
    ObsAcceptInserted | ObsAcceptAlreadyPresent | ObsAcceptIdentifierConflict | ObsAcceptMalformed
  | ObsAcceptLimitExceeded | ObsAcceptAuthorizationDenied

datatype create_document_observation =
    ObsCreateInserted | ObsCreateAlreadyPresent | ObsCreateIdentifierConflict | ObsCreateAuthorizationDenied
  | ObsCreateRequestConflict | ObsCreateLimitExceeded | ObsCreateMalformed

datatype control_mutation_observation =
    ObsInserted | ObsAlreadyPresent | ObsAuthorizationDenied | ObsIdentifierConflict | ObsRequestConflict
  | ObsCounterExhausted | ObsLimitExceeded | ObsMalformed

datatype fetch_observation = ObsFound bytes | ObsNotFound | ObsFetchAuthorizationDenied

datatype enumerate_observation =
  ObsPage enumerate_response | ObsInvalidContinuation | ObsEnumerateAuthorizationDenied | ObsRetiredDocument

datatype vector_backfill_observation =
    ObsVectorPage vector_backfill_response | ObsVectorInvalidContinuation | ObsInvalidLoroMetadata
  | ObsVectorAuthorizationDenied | ObsBackpressure | ObsVectorRetiredDocument

record update_subscription_handle =
  sh_correlation_id :: id16
  sh_subscription_id :: update_subscription_id

datatype update_subscription_event =
    SubscriptionNotification id16 update_subscription_id update_id
  | SubscriptionOverflow id16 update_subscription_id
  | SubscriptionInvalidated id16 update_subscription_id

section \<open>One request, one reply\<close>

text \<open>\<open>[b; 16]\<close> as an identifier.\<close>

definition repeated :: "byte \<Rightarrow> id16" where
  "repeated b = be_decode (replicate 16 b)"

text \<open>A request is written whole; its reply is the first body of the stream.\<close>

definition round_trip :: "transport \<Rightarrow> envelope \<Rightarrow> string \<Rightarrow> envelope client_result" where
  "round_trip transport request closed =
    ok_then (map_err ClientIo (encode_body request)) (\<lambda>body.
    ok_then (map_err ClientIo (write_body [] body)) (\<lambda>written.
    ok_then (transport written) (\<lambda>input.
    ok_then (map_err ClientIo (read_body input)) (\<lambda>(response_body, _).
    ok_then (ok_or (ClientOther closed) response_body) (\<lambda>response_body.
    map_err ClientDecode (decode_body response_body))))))"

definition exchange_with_correlation :: "transport \<Rightarrow> id16 \<Rightarrow> u16 \<Rightarrow> bytes \<Rightarrow> envelope client_result" where
  "exchange_with_correlation transport correlation_id message_type payload =
    ok_then (round_trip transport \<lparr> ev_correlation_id = correlation_id, ev_message_type = message_type,
        ev_payload = payload, ev_version = VERSION \<rparr> ''gateway closed before application response'')
      (\<lambda>response.
        if ev_correlation_id response \<noteq> correlation_id \<or> ev_version response \<noteq> VERSION
        then Inl (ClientOther ''application response envelope changed'') else Inr response)"

definition exchange :: "transport \<Rightarrow> u16 \<Rightarrow> bytes \<Rightarrow> envelope client_result" where
  "exchange transport = exchange_with_correlation transport (repeated 34)"

section \<open>Negotiation\<close>

definition client_sends_hello :: "transport \<Rightarrow> u16 \<Rightarrow> bytes \<Rightarrow> bytes \<Rightarrow> negotiation_observation client_result" where
  "client_sends_hello transport version profile banner =
    ok_then (map_err ClientIo (encode_greeting profile banner)) (\<lambda>payload.
    ok_then (round_trip transport \<lparr> ev_correlation_id = repeated 17, ev_message_type = CLIENT_HELLO,
        ev_payload = payload, ev_version = version \<rparr> ''gateway closed before negotiation response'') (\<lambda>response.
      if ev_correlation_id response \<noteq> repeated 17 then Inl (ClientOther ''negotiation correlation ID changed'')
      else if ev_message_type response = SERVER_HELLO \<and> ev_version response = VERSION then
        ok_then (map_err ClientGreeting (decode_greeting (ev_payload response))) (\<lambda>greeting.
          if gr_profile greeting \<noteq> PROFILE_ID then Inl (ClientOther ''server selected an unexpected profile'')
          else Inr (ObsSelected (gr_banner greeting)))
      else if ev_message_type response = PROTOCOL_ERROR then
        (if ev_payload response = ERROR_UNSUPPORTED_VERSION then Inr ObsUnsupportedVersion
         else if ev_payload response = ERROR_UNSUPPORTED_PROFILE then Inr ObsUnsupportedProfile
         else if ev_payload response = ERROR_EXPECTED_HELLO then Inr ObsExpectedHello
         else if ev_payload response = ERROR_ALREADY_NEGOTIATED then Inr ObsAlreadyNegotiated
         else Inl (ClientOther ''unknown negotiation rejection''))
      else Inl (ClientOther ''unexpected negotiation response'')))"

definition client_negotiate :: "transport \<Rightarrow> negotiation_observation client_result" where
  "client_negotiate transport = client_sends_hello transport VERSION PROFILE_ID CARBON_BANNER"

text \<open>\<open>reject_malformed_envelope\<close>: the stream must end without a reply; None is the elapsed timeout.\<close>

definition reject_malformed_envelope :: "(bytes \<Rightarrow> (client_error + bytes) option) \<Rightarrow> unit client_result" where
  "reject_malformed_envelope transport =
    ok_then (map_err ClientIo (write_body [] (ascii ''not-an-envelope''))) (\<lambda>written.
      case transport written of
        None \<Rightarrow> Inl (ClientOther ''malformed envelope left client stream hanging'')
      | Some (Inl _) \<Rightarrow> Inr ()
      | Some (Inr input) \<Rightarrow> (case read_body input of
            Inr (Some _, _) \<Rightarrow> Inl (ClientOther ''malformed envelope received an unexpected response'')
          | _ \<Rightarrow> Inr ()))"

section \<open>Control requests\<close>

definition client_create_document ::
  "transport \<Rightarrow> create_document_request \<Rightarrow> create_document_observation client_result" where
  "client_create_document transport request =
    ok_then (exchange transport CREATE_DOCUMENT (encode_create_document_request request)) (\<lambda>response.
      if ev_message_type response = CREATE_DOCUMENT_RESPONSE then
        ok_then (map_err ClientCapability (decode_create_document_response (ev_payload response))) (\<lambda>outcome.
          case outcome of CreateInserted \<Rightarrow> Inr ObsCreateInserted | CreateAlreadyPresent \<Rightarrow> Inr ObsCreateAlreadyPresent)
      else if ev_message_type response = CAPABILITY_ERROR then
        ok_then (map_err ClientCapability (decode_capability_error (ev_payload response))) (\<lambda>error.
          case error of
            CapIdentifierConflict \<Rightarrow> Inr ObsCreateIdentifierConflict
          | CapMalformed \<Rightarrow> Inr ObsCreateMalformed
          | CapAuthorizationDenied \<Rightarrow> Inr ObsCreateAuthorizationDenied
          | CapRequestConflict \<Rightarrow> Inr ObsCreateRequestConflict
          | CapLimitExceeded \<Rightarrow> Inr ObsCreateLimitExceeded
          | CapCounterExhausted \<Rightarrow> Inl (ClientOther ''unexpected create counter exhaustion''))
      else Inl (ClientOther ''unexpected create response''))"

definition control_observation :: "envelope \<Rightarrow> u16 \<Rightarrow> control_mutation_observation client_result" where
  "control_observation reply success_message_type =
    (if ev_message_type reply = success_message_type then
       ok_then (map_err ClientCapability (decode_control_mutation_response (ev_payload reply))) (\<lambda>outcome.
         case outcome of ControlInserted \<Rightarrow> Inr ObsInserted | ControlAlreadyPresent \<Rightarrow> Inr ObsAlreadyPresent)
     else if ev_message_type reply = CAPABILITY_ERROR then
       ok_then (map_err ClientCapability (decode_capability_error (ev_payload reply))) (\<lambda>error.
         Inr (case error of
             CapMalformed \<Rightarrow> ObsMalformed
           | CapAuthorizationDenied \<Rightarrow> ObsAuthorizationDenied
           | CapIdentifierConflict \<Rightarrow> ObsIdentifierConflict
           | CapRequestConflict \<Rightarrow> ObsRequestConflict
           | CapCounterExhausted \<Rightarrow> ObsCounterExhausted
           | CapLimitExceeded \<Rightarrow> ObsLimitExceeded))
     else Inl (ClientOther ''unexpected control mutation response''))"

definition client_grant_capability ::
  "transport \<Rightarrow> grant_capability_request \<Rightarrow> control_mutation_observation client_result" where
  "client_grant_capability transport request =
    ok_then (exchange transport GRANT_CAPABILITY (encode_grant_capability_request request))
      (\<lambda>response. control_observation response GRANT_CAPABILITY_RESPONSE)"

definition client_revoke_capability ::
  "transport \<Rightarrow> revoke_capability_request \<Rightarrow> control_mutation_observation client_result" where
  "client_revoke_capability transport request =
    ok_then (exchange transport REVOKE_CAPABILITY (encode_revoke_capability_request request))
      (\<lambda>response. control_observation response REVOKE_CAPABILITY_RESPONSE)"

section \<open>Updates\<close>

definition client_accept_update ::
  "transport \<Rightarrow> capability_authority \<Rightarrow> bytes \<Rightarrow> accept_observation client_result" where
  "client_accept_update transport authority encoded_record =
    ok_then (map_err ClientCapability (encode_authorized_update_request
        \<lparr> au_authority = authority, au_encoded_record = encoded_record \<rparr>)) (\<lambda>payload.
    ok_then (exchange transport ACCEPT_UPDATE payload) (\<lambda>response.
      if ev_message_type response = ACCEPT_UPDATE_RESPONSE then
        ok_then (map_err ClientUpdate (decode_accept_response (ev_payload response))) (\<lambda>outcome.
          case outcome of AcceptInserted \<Rightarrow> Inr ObsAcceptInserted | AcceptAlreadyPresent \<Rightarrow> Inr ObsAcceptAlreadyPresent)
      else if ev_message_type response = UPDATE_ERROR then
        ok_then (map_err ClientUpdate (decode_update_error (ev_payload response))) (\<lambda>error.
          case error of
            UpIdentifierConflict \<Rightarrow> Inr ObsAcceptIdentifierConflict
          | UpMalformed \<Rightarrow> Inr ObsAcceptMalformed
          | UpLimitExceeded \<Rightarrow> Inr ObsAcceptLimitExceeded
          | UpAuthorizationDenied \<Rightarrow> Inr ObsAcceptAuthorizationDenied
          | _ \<Rightarrow> Inl (ClientOther ''unexpected accept rejection''))
      else Inl (ClientOther ''unexpected accept response type'')))"

definition enumerate_updates_start_observation ::
  "transport \<Rightarrow> capability_authority \<Rightarrow> document_id \<Rightarrow> enumerate_start \<Rightarrow> enumerate_observation client_result" where
  "enumerate_updates_start_observation transport authority document_id start =
    ok_then (map_err (\<lambda>_. ClientOther ''could not encode enumeration request'') (encode_enumerate_request
        \<lparr> er_authority = authority, er_document_id = document_id, er_start = start \<rparr>)) (\<lambda>request.
    ok_then (exchange transport ENUMERATE_UPDATES request) (\<lambda>response.
      if ev_message_type response = ENUMERATE_UPDATES_RESPONSE then
        ok_then (map_err (\<lambda>_. ClientOther ''could not decode enumeration response'')
            (decode_enumerate_response (ev_payload response))) (\<lambda>page. Inr (ObsPage page))
      else if ev_message_type response = UPDATE_ERROR then
        ok_then (map_err ClientUpdate (decode_update_error (ev_payload response))) (\<lambda>error.
          if error = UpInvalidOrExpiredContinuation then Inr ObsInvalidContinuation
          else if error = UpAuthorizationDenied then Inr ObsEnumerateAuthorizationDenied
          else if error = UpRetiredDocument then Inr ObsRetiredDocument
          else Inl (ClientOther ''unexpected enumerate response''))
      else Inl (ClientOther ''unexpected enumerate response'')))"

definition enumerate_updates_observation ::
  "transport \<Rightarrow> capability_authority \<Rightarrow> document_id \<Rightarrow> bytes option \<Rightarrow> enumerate_observation client_result" where
  "enumerate_updates_observation transport authority document_id cursor =
    enumerate_updates_start_observation transport authority document_id
      (case cursor of None \<Rightarrow> enumerate_start.EnumOrigin | Some cursor \<Rightarrow> enumerate_start.EnumContinue cursor)"

definition client_enumerate_updates ::
  "transport \<Rightarrow> capability_authority \<Rightarrow> document_id \<Rightarrow> bytes option \<Rightarrow> enumerate_response client_result" where
  "client_enumerate_updates transport authority document_id cursor =
    ok_then (enumerate_updates_observation transport authority document_id cursor) (\<lambda>observation.
      case observation of
        ObsPage page \<Rightarrow> Inr page
      | ObsInvalidContinuation \<Rightarrow> Inl (ClientOther ''valid enumerate request received invalid continuation'')
      | ObsEnumerateAuthorizationDenied \<Rightarrow> Inl (ClientOther ''valid enumerate request was denied'')
      | ObsRetiredDocument \<Rightarrow> Inl (ClientOther ''valid enumerate request named a retired document''))"

definition enumerate_updates_after_tail ::
  "transport \<Rightarrow> capability_authority \<Rightarrow> document_id \<Rightarrow> bytes \<Rightarrow> enumerate_response client_result" where
  "enumerate_updates_after_tail transport authority document_id cursor =
    ok_then (enumerate_updates_start_observation transport authority document_id (enumerate_start.EnumAfterTail cursor)) (\<lambda>observation.
      case observation of
        ObsPage page \<Rightarrow> Inr page
      | ObsInvalidContinuation \<Rightarrow> Inl (ClientOther ''valid tail token received invalid continuation'')
      | ObsEnumerateAuthorizationDenied \<Rightarrow> Inl (ClientOther ''valid tail request was denied'')
      | ObsRetiredDocument \<Rightarrow> Inl (ClientOther ''valid tail request named a retired document''))"

definition client_vector_backfill :: "transport \<Rightarrow> capability_authority \<Rightarrow> document_id \<Rightarrow> oplog_version
    \<Rightarrow> bytes option \<Rightarrow> vector_backfill_observation client_result" where
  "client_vector_backfill transport authority document_id oplog_version cursor =
    ok_then (map_err ClientUpdate (encode_vector_backfill_request
        \<lparr> vr_authority = authority, vr_document_id = document_id, vr_oplog_version = oplog_version,
          vr_start = (case cursor of None \<Rightarrow> VecOrigin | Some cursor \<Rightarrow> VecContinue cursor) \<rparr>)) (\<lambda>request.
    ok_then (exchange transport VECTOR_BACKFILL request) (\<lambda>response.
      if ev_message_type response = VECTOR_BACKFILL_RESPONSE then
        ok_then (map_err ClientUpdate (decode_vector_backfill_response (ev_payload response)))
          (\<lambda>page. Inr (ObsVectorPage page))
      else if ev_message_type response = UPDATE_ERROR then
        ok_then (map_err ClientUpdate (decode_update_error (ev_payload response))) (\<lambda>error.
          case error of
            UpInvalidOrExpiredContinuation \<Rightarrow> Inr ObsVectorInvalidContinuation
          | UpInvalidLoroMetadata \<Rightarrow> Inr ObsInvalidLoroMetadata
          | UpAuthorizationDenied \<Rightarrow> Inr ObsVectorAuthorizationDenied
          | UpBackpressure \<Rightarrow> Inr ObsBackpressure
          | UpRetiredDocument \<Rightarrow> Inr ObsVectorRetiredDocument
          | _ \<Rightarrow> Inl (ClientOther ''unexpected vector-backfill error''))
      else Inl (ClientOther ''unexpected vector-backfill response'')))"

definition malformed_vector_backfill :: "transport \<Rightarrow> bytes \<Rightarrow> update_error_code client_result" where
  "malformed_vector_backfill transport payload =
    ok_then (exchange transport VECTOR_BACKFILL payload) (\<lambda>response.
      if ev_message_type response \<noteq> UPDATE_ERROR
      then Inl (ClientOther ''malformed vector backfill received a success response'')
      else map_err ClientUpdate (decode_update_error (ev_payload response)))"

definition client_fetch_update ::
  "transport \<Rightarrow> capability_authority \<Rightarrow> document_id \<Rightarrow> update_id \<Rightarrow> fetch_observation client_result" where
  "client_fetch_update transport authority document_id update_id =
    ok_then (exchange transport FETCH_UPDATE (encode_fetch_request
        \<lparr> fr_authority = authority, fr_document_id = document_id, fr_update_id = update_id \<rparr>)) (\<lambda>response.
      if ev_message_type response = FETCH_UPDATE_RESPONSE then
        ok_then (map_err ClientUpdate (decode_fetch_response (ev_payload response))) (\<lambda>payload. Inr (ObsFound payload))
      else if ev_message_type response = UPDATE_ERROR then
        ok_then (map_err ClientUpdate (decode_update_error (ev_payload response))) (\<lambda>error.
          if error = UpNotFound then Inr ObsNotFound
          else if error = UpAuthorizationDenied then Inr ObsFetchAuthorizationDenied
          else Inl (ClientOther ''unexpected fetch response''))
      else Inl (ClientOther ''unexpected fetch response''))"

section \<open>Subscriptions\<close>

definition client_subscribe_updates ::
  "transport \<Rightarrow> capability_authority \<Rightarrow> document_id \<Rightarrow> update_subscription_handle client_result" where
  "client_subscribe_updates transport authority document_id =
    ok_then (exchange_with_correlation transport (repeated 68) SUBSCRIBE_UPDATES (encode_subscribe_updates_request
        \<lparr> su_authority = authority, su_document_id = document_id \<rparr>)) (\<lambda>response.
      if ev_message_type response \<noteq> SUBSCRIBE_UPDATES_ACK
      then Inl (ClientOther ''update subscription was not acknowledged'')
      else ok_then (map_err ClientUpdate (decode_subscribe_updates_ack (ev_payload response))) (\<lambda>subscription_id.
        Inr \<lparr> sh_correlation_id = repeated 68, sh_subscription_id = subscription_id \<rparr>))"

definition malformed_subscribe_updates :: "transport \<Rightarrow> bytes \<Rightarrow> update_error_code client_result" where
  "malformed_subscribe_updates transport payload =
    ok_then (exchange_with_correlation transport (repeated 70) SUBSCRIBE_UPDATES payload) (\<lambda>response.
      if ev_message_type response \<noteq> UPDATE_ERROR
      then Inl (ClientOther ''malformed subscription received a success response'')
      else map_err ClientUpdate (decode_update_error (ev_payload response)))"

text \<open>\<open>next_update_subscription_event\<close> reads one stream that the server has opened.\<close>

definition next_update_subscription_event :: "bytes \<Rightarrow> update_subscription_event client_result" where
  "next_update_subscription_event input =
    ok_then (map_err ClientIo (read_body input)) (\<lambda>(body, _).
    ok_then (ok_or (ClientOther ''subscription event stream was empty'') body) (\<lambda>body.
    ok_then (map_err ClientDecode (decode_body body)) (\<lambda>event.
      if ev_version event \<noteq> VERSION then Inl (ClientOther ''subscription event changed envelope version'')
      else if ev_message_type event = UPDATE_NOTIFICATION then
        ok_then (map_err ClientUpdate (decode_update_notification (ev_payload event))) (\<lambda>notification.
          Inr (SubscriptionNotification (ev_correlation_id event) (un_subscription_id notification)
            (un_update_id notification)))
      else if ev_message_type event = UPDATE_SUBSCRIPTION_OVERFLOW then
        ok_then (map_err ClientUpdate (decode_update_subscription_overflow (ev_payload event))) (\<lambda>subscription_id.
          Inr (SubscriptionOverflow (ev_correlation_id event) subscription_id))
      else if ev_message_type event = UPDATE_SUBSCRIPTION_INVALIDATED then
        ok_then (map_err ClientUpdate (decode_update_subscription_invalidated (ev_payload event))) (\<lambda>subscription_id.
          Inr (SubscriptionInvalidated (ev_correlation_id event) subscription_id))
      else Inl (ClientOther ''unexpected subscription event type''))))"

definition client_cancel_update_subscription :: "transport \<Rightarrow> update_subscription_id \<Rightarrow> unit client_result" where
  "client_cancel_update_subscription transport subscription_id =
    ok_then (exchange_with_correlation transport (repeated 69) CANCEL_UPDATE_SUBSCRIPTION
        (encode_cancel_update_subscription subscription_id)) (\<lambda>response.
      if ev_message_type response \<noteq> CANCEL_UPDATE_SUBSCRIPTION_RESPONSE
      then Inl (ClientOther ''cancellation response changed subscription identity'')
      else ok_then (map_err ClientUpdate (decode_cancel_update_subscription (ev_payload response))) (\<lambda>cancelled.
        if cancelled \<noteq> subscription_id
        then Inl (ClientOther ''cancellation response changed subscription identity'') else Inr ()))"

end
