(* ===== verification/Subject_Safety.thy ===== *)
theory Subject_Safety
  imports Subject_Client
begin

text \<open>
  What the client makes of the store's replies.  A transport that delivers the reply to a request
  is an interface; the relay of one request body and one reply body, which the gateway and the
  session perform unchanged, provides it, and behind it the client observes the outcome of the
  store's transaction and nothing else.
\<close>

section \<open>A transport that delivers\<close>

locale request_transport =
  fixes transport :: transport
    and reply :: "envelope \<Rightarrow> bytes option"
  assumes delivers: "encode_body request = Inr body \<Longrightarrow> reply request = Some out \<Longrightarrow>
    length out \<le> MAX_BODY_LENGTH \<Longrightarrow> \<exists>rest. transport (framed body) = Inr (framed out @ rest)"
begin

lemma round_trip_delivers:
  assumes "length (ev_payload request) \<le> MAX_APPLICATION_PAYLOAD_LENGTH" "reply request = Some out"
    and "length out \<le> MAX_BODY_LENGTH"
  shows "round_trip transport request closed = map_err ClientDecode (decode_body out)"
proof -
  obtain body where body: "encode_body request = Inr body" using assms(1) by (auto simp add: encode_body_Inr_iff)
  have len: "length body \<le> MAX_BODY_LENGTH" using encode_body_length [OF body] by simp
  obtain rest where "transport (framed body) = Inr (framed out @ rest)" using delivers [OF body assms(2,3)] by blast
  then show ?thesis
    using len read_body_append [OF assms(3), of rest]
    by (simp add: round_trip_def body write_body_framed framed_def)
qed

lemma exchange_delivers:
  assumes "length payload \<le> MAX_APPLICATION_PAYLOAD_LENGTH"
    and "reply \<lparr> ev_correlation_id = c, ev_message_type = kind, ev_payload = payload, ev_version = VERSION \<rparr> = Some out"
    and "decode_body out = Inr \<lparr> ev_correlation_id = c, ev_message_type = kind', ev_payload = payload', ev_version = VERSION \<rparr>"
  shows "exchange_with_correlation transport c kind payload = Inr \<lparr> ev_correlation_id = c,
    ev_message_type = kind', ev_payload = payload', ev_version = VERSION \<rparr>"
  using round_trip_delivers [OF _ assms(2)] assms(1,3) decode_body_parts [OF assms(3)]
  by (simp add: exchange_with_correlation_def)

end

text \<open>One request body in, one reply body out, through the gateway and the session.\<close>

definition relay_transport :: "(envelope \<Rightarrow> bytes option) \<Rightarrow> transport" where
  "relay_transport reply written = (case read_body written of
      Inr (Some body, _) \<Rightarrow> (case decode_body body of
          Inl _ \<Rightarrow> Inr []
        | Inr request \<Rightarrow> (case reply request of None \<Rightarrow> Inr [] | Some out \<Rightarrow> Inr (framed out)))
    | _ \<Rightarrow> Inr [])"

interpretation relayed: request_transport "relay_transport reply" reply for reply
proof unfold_locales
  fix request body out
  assume body: "encode_body request = Inr body" "reply request = Some out"
  have "read_body (framed body) = Inr (Some body, [])"
    using read_body_append [of body "[]"] encode_body_length [OF body(1)] by (simp add: framed_def)
  moreover have "decode_body body = Inr request" using body(1) by (simp add: decode_body_iff)
  ultimately have "relay_transport reply (framed body) = Inr (framed out @ [])"
    using body(2) by (simp add: relay_transport_def)
  then show "\<exists>rest. relay_transport reply (framed body) = Inr (framed out @ rest)" ..
qed

text \<open>What the store process writes for a request: a revoke first waits for the gate it locks.\<close>

definition store_reply :: "(bytes \<Rightarrow> key32) \<Rightarrow> request_context \<Rightarrow> broker_channel \<Rightarrow> durable_update_store
    \<Rightarrow> envelope \<Rightarrow> bytes option" where
  "store_reply sha c channel s request = (case handle_request sha c request channel s of
      (HandlerDone (Inr out), _) \<Rightarrow> Some out
    | (HandlerDone (Inl _), _) \<Rightarrow> None
    | (HandlerExcluding gate revoking, s) \<Rightarrow>
        (case excluded_revoke sha request gate revoking s of Some (Inr out, _) \<Rightarrow> Some out | _ \<Rightarrow> None))"

text \<open>A client behind the store: its exchange ends with the envelope that the handler encodes.\<close>

definition client_request :: "u16 \<Rightarrow> bytes \<Rightarrow> envelope" where
  "client_request kind payload = \<lparr> ev_correlation_id = repeated 34, ev_message_type = kind,
    ev_payload = payload, ev_version = VERSION \<rparr>"

lemma client_request_simps [simp]:
  "ev_correlation_id (client_request kind payload) = repeated 34"
  "ev_message_type (client_request kind payload) = kind"
  "ev_payload (client_request kind payload) = payload"
  "ev_version (client_request kind payload) = VERSION"
  by (simp_all add: client_request_def)

lemma response_decodes:
  assumes "length payload \<le> MAX_APPLICATION_PAYLOAD_LENGTH"
  obtains out where "response (client_request kind asked) k payload = Inr out"
    "decode_body out = Inr (client_request k payload)"
proof -
  obtain out where "encode_body (client_request k payload) = Inr out"
    using assms by (auto simp add: encode_body_Inr_iff)
  then show thesis
    using that by (simp add: response_def map_err_def decode_body_iff client_request_def)
qed

lemma stored_exchange:
  assumes "length asked \<le> MAX_APPLICATION_PAYLOAD_LENGTH" "length payload \<le> MAX_APPLICATION_PAYLOAD_LENGTH"
    and "store_reply sha c channel s (client_request kind asked) = Some out"
    and "response (client_request kind asked) k payload = Inr out"
  shows "exchange (relay_transport (store_reply sha c channel s)) kind asked = Inr (client_request k payload)"
proof -
  have "decode_body out = Inr (client_request k payload)"
    using response_decodes [OF assms(2), of kind asked k] assms(4) by auto
  then show ?thesis
    using relayed.exchange_delivers [OF assms(1), of "store_reply sha c channel s" "repeated 34" kind out k payload] assms(3)
    by (simp add: exchange_def client_request_def)
qed

section \<open>Control requests\<close>

fun create_observed :: "store_create_outcome \<Rightarrow> create_document_observation" where
  "create_observed StCreateInserted = ObsCreateInserted"
| "create_observed StCreateAlreadyPresent = ObsCreateAlreadyPresent"
| "create_observed StCreateAuthorizationDenied = ObsCreateAuthorizationDenied"
| "create_observed StCreateIdentifierConflict = ObsCreateIdentifierConflict"
| "create_observed StCreateRequestConflict = ObsCreateRequestConflict"
| "create_observed StCreateLimitExceeded = ObsCreateLimitExceeded"

fun control_observed :: "store_control_outcome \<Rightarrow> control_mutation_observation" where
  "control_observed StInserted = ObsInserted"
| "control_observed StAlreadyPresent = ObsAlreadyPresent"
| "control_observed StAuthorizationDenied = ObsAuthorizationDenied"
| "control_observed StIdentifierConflict = ObsIdentifierConflict"
| "control_observed StRequestConflict = ObsRequestConflict"
| "control_observed StCounterExhausted = ObsCounterExhausted"
| "control_observed StLimitExceeded = ObsLimitExceeded"

lemma control_request_lengths [simp]:
  "length (encode_create_document_request create) \<le> MAX_APPLICATION_PAYLOAD_LENGTH"
  "length (encode_grant_capability_request granting) \<le> MAX_APPLICATION_PAYLOAD_LENGTH"
  "length (encode_revoke_capability_request revoking) \<le> MAX_APPLICATION_PAYLOAD_LENGTH"
  by (simp_all add: encode_create_document_request_def encode_grant_capability_request_def
      encode_revoke_capability_request_def encode_authority_def encode_create_authority_def update_length_defs)

text \<open>A reply that the store process completes is what it writes.\<close>

lemma store_reply_done:
  "fst (handle_request sha c request channel s) = HandlerDone (Inr out) \<Longrightarrow>
    store_reply sha c channel s request = Some out"
  by (cases "handle_request sha c request channel s") (simp add: store_reply_def)

lemma stored_done:
  assumes "fst (handle_request sha c (client_request kind asked) channel s)
      = HandlerDone (response (client_request kind asked) k payload)"
    and "length asked \<le> MAX_APPLICATION_PAYLOAD_LENGTH" "length payload \<le> MAX_APPLICATION_PAYLOAD_LENGTH"
  shows "exchange (relay_transport (store_reply sha c channel s)) kind asked = Inr (client_request k payload)"
proof -
  obtain out where out: "response (client_request kind asked) k payload = Inr out"
    using response_decodes [OF assms(3)] by blast
  show ?thesis using stored_exchange [OF assms(2,3) store_reply_done out] assms(1) out by simp
qed

lemma control_exchange:
  assumes "length asked \<le> MAX_APPLICATION_PAYLOAD_LENGTH"
    and "store_reply sha c channel s (client_request kind asked) = Some out"
    and "control_response (client_request kind asked) success outcome = Inr out" "success \<noteq> CAPABILITY_ERROR"
  shows "ok_then (exchange (relay_transport (store_reply sha c channel s)) kind asked)
    (\<lambda>reply. control_observation reply success) = Inr (control_observed outcome)"
proof -
  have e: "exchange (relay_transport (store_reply sha c channel s)) kind asked = Inr (client_request k payload)"
    if "response (client_request kind asked) k payload = Inr out" "length payload \<le> MAX_APPLICATION_PAYLOAD_LENGTH" for k payload
    using stored_exchange [OF assms(1) that(2) assms(2) that(1)] .
  show ?thesis
    using assms(3,4)
    by (cases outcome) (auto simp add: control_observation_def capability_error_response_def map_err_def dest!: e)
qed

lemma control_response_total: "\<exists>out. control_response (client_request kind asked) success outcome = Inr out"
proof -
  have "\<exists>out. response (client_request kind asked) k payload = Inr out"
    if "length payload \<le> MAX_APPLICATION_PAYLOAD_LENGTH" for k payload
    using response_decodes [OF that] by blast
  then show ?thesis by (cases outcome) (simp_all add: capability_error_response_def)
qed

lemma control_done:
  assumes "length asked \<le> MAX_APPLICATION_PAYLOAD_LENGTH"
    and "fst (handle_request sha c (client_request kind asked) channel s)
      = HandlerDone (control_response (client_request kind asked) success outcome)" "success \<noteq> CAPABILITY_ERROR"
  shows "ok_then (exchange (relay_transport (store_reply sha c channel s)) kind asked)
    (\<lambda>reply. control_observation reply success) = Inr (control_observed outcome)"
proof -
  obtain out where "control_response (client_request kind asked) success outcome = Inr out"
    using control_response_total by blast
  then show ?thesis using control_exchange [OF assms(1) store_reply_done _ assms(3)] assms(2) by simp
qed

lemma create_observes:
  assumes "server_ok sha s"
  shows "\<exists>outcome. fst (durable_create_document sha s (cr_create_authority_id (cd_create_authority create))
      (cr_authenticator (cd_create_authority create)) (cd_request_id create) (cd_document_id create)
      (ca_capability_id (cd_root create)) (ca_authenticator (cd_root create))) = Inr outcome
    \<and> client_create_document (relay_transport (store_reply sha c channel s)) create = Inr (create_observed outcome)"
proof -
  let ?r = "durable_create_document sha s (cr_create_authority_id (cd_create_authority create))
      (cr_authenticator (cd_create_authority create)) (cd_request_id create) (cd_document_id create)
      (ca_capability_id (cd_root create)) (ca_authenticator (cd_root create))"
  let ?q = "client_request CREATE_DOCUMENT (encode_create_document_request create)"
  obtain outcome s' where r: "?r = (Inr outcome, s')"
    using durable_returns(1) assms unfolding server_ok_def by blast
  have "fst (handle_request sha c ?q channel s) = HandlerDone (create_response ?q outcome)"
    using create_codec.dec_enc [of create] r
    by (simp add: handle_request_def handler_done_def handle_create_def)
  then have "client_create_document (relay_transport (store_reply sha c channel s)) create = Inr (create_observed outcome)"
    by (cases outcome) (auto simp add: client_create_document_def capability_error_response_def map_err_def
        CREATE_DOCUMENT_RESPONSE_def CAPABILITY_ERROR_def dest!: stored_done)
  then show ?thesis using r by simp
qed

lemma grant_observes:
  assumes "server_ok sha s" "canonical_ops (gc_operations granting)" "\<not> ops_is_empty (gc_operations granting)"
  shows "\<exists>outcome. fst (durable_grant_capability sha s (gc_document_id granting)
      (ca_capability_id (gc_issuer granting)) (ca_authenticator (gc_issuer granting)) (gc_request_id granting)
      (ca_capability_id (gc_descendant granting)) (ca_authenticator (gc_descendant granting))
      (gc_operations granting)) = Inr outcome
    \<and> client_grant_capability (relay_transport (store_reply sha c channel s)) granting = Inr (control_observed outcome)"
proof -
  let ?r = "durable_grant_capability sha s (gc_document_id granting)
      (ca_capability_id (gc_issuer granting)) (ca_authenticator (gc_issuer granting)) (gc_request_id granting)
      (ca_capability_id (gc_descendant granting)) (ca_authenticator (gc_descendant granting))
      (gc_operations granting)"
  let ?q = "client_request GRANT_CAPABILITY (encode_grant_capability_request granting)"
  obtain outcome s' where r: "?r = (Inr outcome, s')"
    using durable_returns(2) [OF _ assms(2)] assms(1) unfolding server_ok_def by blast
  have "fst (handle_request sha c ?q channel s) = HandlerDone (control_response ?q GRANT_CAPABILITY_RESPONSE outcome)"
    using grant_codec.dec_enc [of granting] assms(2,3) r
    by (simp add: handle_request_def handler_done_def handle_grant_def kind_defs)
  then show ?thesis
    using control_done [of "encode_grant_capability_request granting"] r
    by (simp add: client_grant_capability_def kind_defs)
qed

text \<open>
  A revoke with something to change locks the document's gate first; when nobody else has the
  gates, it gets it at once.
\<close>

definition gates_free :: "registry \<Rightarrow> bool" where
  "gates_free w \<longleftrightarrow> (\<forall>g. eg_permits (rg_gates w g) \<noteq> 0 \<and> \<not> eg_writer (rg_gates w g) \<and> eg_readers (rg_gates w g) = 0)"

lemma gates_free_emission_gate: "gates_free w \<Longrightarrow> gates_free (snd (emission_gate_of d w))"
  by (auto simp add: gates_free_def emission_gate_of_def Let_def fresh_gate_def
      MAX_CONTROL_WAITERS_PER_DOCUMENT_def split: option.split)

lemma gates_free_excludes:
  assumes "gates_free w"
  obtains w' w'' where "exclude_admission g w = Inr w'" "exclude_write g w' = Some w''"
  using assms by (auto simp add: gates_free_def exclude_admission_def exclude_write_def set_gate_def Let_def)

lemma revoke_outcome_tables:
  "ds_tables s' = ds_tables s \<Longrightarrow> fst (durable_revoke_capability sha s' d issuer a req target)
    = fst (durable_revoke_capability sha s d issuer a req target)"
  by (simp add: durable_revoke_capability_def Let_def split: sum.split store_control_outcome.split)

lemma revoke_resolved:
  "preflight_revoke_capability sha (ds_tables s) d issuer a req target = Resolved outcome \<Longrightarrow>
    fst (durable_revoke_capability sha s d issuer a req target) = Inr outcome"
  using preflight_resolved [of sha "ds_tables s" d issuer a req target outcome]
  by (cases outcome) (simp_all add: durable_revoke_capability_def Let_def)

lemma excluded_revoke_outcome:
  assumes "ds_tables s' = ds_tables s" "fst (durable_revoke_capability sha s (rc_document_id revoking)
      (ca_capability_id (rc_issuer revoking)) (ca_authenticator (rc_issuer revoking)) (rc_request_id revoking)
      (rc_target_capability_id revoking)) = Inr outcome"
  shows "map_option fst (excluded_revoke sha request gate revoking s')
    = map_option (\<lambda>_. control_response request REVOKE_CAPABILITY_RESPONSE outcome) (exclude_write gate (ds_subscriptions s'))"
proof -
  have "fst (durable_revoke_capability sha (s'\<lparr> ds_subscriptions := w \<rparr>) (rc_document_id revoking)
      (ca_capability_id (rc_issuer revoking)) (ca_authenticator (rc_issuer revoking)) (rc_request_id revoking)
      (rc_target_capability_id revoking)) = Inr outcome" for w
    using revoke_outcome_tables [of "s'\<lparr> ds_subscriptions := w \<rparr>" s] assms by simp
  then show ?thesis
    by (auto simp add: excluded_revoke_def Let_def case_prod_beta split: option.split)
qed

lemma revoke_replies:
  fixes revoking
  defines "q \<equiv> client_request REVOKE_CAPABILITY (encode_revoke_capability_request revoking)"
  assumes outcome: "fst (durable_revoke_capability sha s (rc_document_id revoking)
      (ca_capability_id (rc_issuer revoking)) (ca_authenticator (rc_issuer revoking)) (rc_request_id revoking)
      (rc_target_capability_id revoking)) = Inr outcome"
  shows "store_reply sha c channel s q = Some out \<Longrightarrow> control_response q REVOKE_CAPABILITY_RESPONSE outcome = Inr out"
    "gates_free (ds_subscriptions s) \<Longrightarrow> control_response q REVOKE_CAPABILITY_RESPONSE outcome = Inr out \<Longrightarrow>
      store_reply sha c channel s q = Some out"
proof -
  have handled: "handle_request sha c q channel s = handle_revoke sha q s"
    by (simp add: handle_request_def kind_defs q_def)
  have decoded: "decode_revoke_capability_request (ev_payload q) = Inr revoking"
    using revoke_codec.dec_enc [of revoking] by (simp add: q_def)
  let ?p = "preflight_revoke_capability sha (ds_tables s) (rc_document_id revoking)
    (ca_capability_id (rc_issuer revoking)) (ca_authenticator (rc_issuer revoking)) (rc_request_id revoking)
    (rc_target_capability_id revoking)"
  have "(store_reply sha c channel s q = Some out \<longrightarrow> control_response q REVOKE_CAPABILITY_RESPONSE outcome = Inr out)
    \<and> (gates_free (ds_subscriptions s) \<longrightarrow> control_response q REVOKE_CAPABILITY_RESPONSE outcome = Inr out \<longrightarrow>
      store_reply sha c channel s q = Some out)"
  proof (cases ?p)
    case (Resolved o')
    then have "o' = outcome" using revoke_resolved [of sha s] outcome by simp
    then show ?thesis
      by (auto simp add: store_reply_def handled handle_revoke_def decoded Resolved split: sum.split)
  next
    case RequiresMutation
    obtain gate w where g: "emission_gate_of (rc_document_id revoking) (ds_subscriptions s) = (gate, w)"
      by (cases "emission_gate_of (rc_document_id revoking) (ds_subscriptions s)")
    have free: "gates_free (ds_subscriptions s) \<Longrightarrow> gates_free w"
      using gates_free_emission_gate [of "ds_subscriptions s" "rc_document_id revoking"] g by simp
    show ?thesis
    proof (cases "exclude_admission gate w")
      case (Inl e)
      then have "\<not> gates_free w" using gates_free_excludes [of w gate] by force
      then show ?thesis
        using free Inl
        by (auto simp add: store_reply_def handled handle_revoke_def decoded RequiresMutation document_emission_gate_def g)
    next
      case (Inr w')
      let ?s = "s\<lparr> ds_subscriptions := w' \<rparr>"
      have step: "handle_revoke sha q s = (HandlerExcluding gate revoking, ?s)"
        by (simp add: handle_revoke_def decoded RequiresMutation document_emission_gate_def g Inr)
      have excluded: "map_option fst (excluded_revoke sha q gate revoking ?s)
          = map_option (\<lambda>_. control_response q REVOKE_CAPABILITY_RESPONSE outcome) (exclude_write gate w')"
        using excluded_revoke_outcome [OF _ outcome, of ?s q gate] by simp
      have "gates_free (ds_subscriptions s) \<Longrightarrow> exclude_write gate w' \<noteq> None"
        using gates_free_excludes [OF free, of gate] Inr by fastforce
      then show ?thesis
        using excluded
        by (cases "excluded_revoke sha q gate revoking ?s"; cases "exclude_write gate w'")
          (auto simp add: store_reply_def handled step split: sum.splits)
    qed
  qed
  then show "store_reply sha c channel s q = Some out \<Longrightarrow> control_response q REVOKE_CAPABILITY_RESPONSE outcome = Inr out"
    "gates_free (ds_subscriptions s) \<Longrightarrow> control_response q REVOKE_CAPABILITY_RESPONSE outcome = Inr out \<Longrightarrow>
      store_reply sha c channel s q = Some out" by blast+
qed

text \<open>Without a reply the stream of the request ends.\<close>

lemma stored_silence:
  assumes "length asked \<le> MAX_APPLICATION_PAYLOAD_LENGTH" "store_reply sha c channel s (client_request kind asked) = None"
  shows "exchange (relay_transport (store_reply sha c channel s)) kind asked
    = Inl (ClientOther ''gateway closed before application response'')"
proof -
  obtain body where body: "encode_body (client_request kind asked) = Inr body"
    using assms(1) by (auto simp add: encode_body_Inr_iff)
  have len: "length body \<le> MAX_BODY_LENGTH" using encode_body_length [OF body] by simp
  have "read_body (framed body) = Inr (Some body, [])"
    using read_body_append [OF len, of "[]"] by (simp add: framed_def)
  moreover have "decode_body body = Inr (client_request kind asked)" using body by (simp add: decode_body_iff)
  ultimately have "relay_transport (store_reply sha c channel s) (framed body) = Inr []"
    using assms(2) by (simp add: relay_transport_def)
  then show ?thesis
    using body len
    by (simp add: exchange_def exchange_with_correlation_def round_trip_def client_request_def map_err_def
        write_body_framed read_body_def ok_or_def)
qed

lemma revoke_observes:
  assumes "server_ok sha s"
  shows "\<exists>outcome. fst (durable_revoke_capability sha s (rc_document_id revoking)
      (ca_capability_id (rc_issuer revoking)) (ca_authenticator (rc_issuer revoking)) (rc_request_id revoking)
      (rc_target_capability_id revoking)) = Inr outcome
    \<and> client_revoke_capability (relay_transport (store_reply sha c channel s)) revoking
        \<in> {Inr (control_observed outcome), Inl (ClientOther ''gateway closed before application response'')}
    \<and> (gates_free (ds_subscriptions s) \<longrightarrow>
        client_revoke_capability (relay_transport (store_reply sha c channel s)) revoking = Inr (control_observed outcome))"
proof -
  let ?asked = "encode_revoke_capability_request revoking"
  let ?q = "client_request REVOKE_CAPABILITY ?asked"
  let ?t = "relay_transport (store_reply sha c channel s)"
  obtain outcome where outcome: "fst (durable_revoke_capability sha s (rc_document_id revoking)
      (ca_capability_id (rc_issuer revoking)) (ca_authenticator (rc_issuer revoking)) (rc_request_id revoking)
      (rc_target_capability_id revoking)) = Inr outcome"
    using durable_returns(3) assms unfolding server_ok_def by (metis fst_conv)
  note replies = revoke_replies [OF outcome, where c = c and channel = channel]
  have told: "client_revoke_capability ?t revoking = Inr (control_observed outcome)"
    if "store_reply sha c channel s ?q = Some out" for out
    using control_exchange [OF _ that replies(1) [OF that]] by (simp add: client_revoke_capability_def kind_defs)
  have "client_revoke_capability ?t revoking = Inl (ClientOther ''gateway closed before application response'')"
    if "store_reply sha c channel s ?q = None"
    using stored_silence [OF _ that] by (simp add: client_revoke_capability_def)
  moreover have "store_reply sha c channel s ?q \<noteq> None" if "gates_free (ds_subscriptions s)"
    using replies(2) [OF that] control_response_total [of REVOKE_CAPABILITY ?asked REVOKE_CAPABILITY_RESPONSE outcome] by auto
  ultimately show ?thesis using outcome told by (cases "store_reply sha c channel s ?q") auto
qed

end
