(* ===== verification/Subject_Updates.thy ===== *)
theory Subject_Updates
  imports Subject_Safety
begin

text \<open>
  What the client observes of update requests, and of the streams of its subscriptions.
\<close>

section \<open>Acceptance\<close>

text \<open>An exhausted sequence is the one outcome for which the client has no observation.\<close>

fun accept_observed :: "store_accept_outcome \<Rightarrow> accept_observation client_result" where
  "accept_observed StAcceptInserted = Inr ObsAcceptInserted"
| "accept_observed StAcceptAlreadyPresent = Inr ObsAcceptAlreadyPresent"
| "accept_observed StAcceptIdentifierConflict = Inr ObsAcceptIdentifierConflict"
| "accept_observed StAcceptCounterExhausted = Inl (ClientOther ''unexpected accept rejection'')"
| "accept_observed StAcceptLimitExceeded = Inr ObsAcceptLimitExceeded"
| "accept_observed StAcceptAuthorizationDenied = Inr ObsAcceptAuthorizationDenied"

lemma authorized_update_encodes:
  assumes "rec \<noteq> []" "length rec \<le> MAX_UPDATE_RECORD_LENGTH"
  obtains payload where "encode_authorized_update_request \<lparr> au_authority = authority, au_encoded_record = rec \<rparr> = Inr payload"
    "length payload \<le> MAX_APPLICATION_PAYLOAD_LENGTH"
    "decode_authorized_update_request payload = Inr \<lparr> au_authority = authority, au_encoded_record = rec \<rparr>"
proof -
  let ?r = "\<lparr> au_authority = authority, au_encoded_record = rec \<rparr>"
  let ?p = "encode_authority authority @ rec"
  have "encode_authorized_update_request ?r = Inr ?p" "length ?p \<le> MAX_APPLICATION_PAYLOAD_LENGTH"
    using assms(2) by (simp_all add: encode_authorized_update_request_def encode_authority_def length_defs)
  then show thesis using that authorized_update_codec.dec_enc [of ?r ?p] assms(1) by simp
qed

lemma accept_observes:
  assumes "server_ok sha s" "decode_update_record rec = Inr update"
  shows "\<exists>outcome. fst (durable_accept sha s (ca_capability_id authority) (ca_authenticator authority) update rec)
      = Inr outcome
    \<and> client_accept_update (relay_transport (store_reply sha c channel s)) authority rec = accept_observed outcome"
proof -
  let ?d = "durable_accept sha s (ca_capability_id authority) (ca_authenticator authority) update rec"
  obtain outcome s' where r: "?d = (Inr outcome, s')"
    using durable_returns(4) [OF _ assms(2)] assms(1) unfolding server_ok_def by blast
  have "rec \<noteq> []" "length rec \<le> MAX_UPDATE_RECORD_LENGTH"
    using assms(2) length_record_bytes [of update]
    by (auto simp add: decode_update_record_iff encode_update_record_iff record_length_def update_length_defs)
  then obtain payload where p:
    "encode_authorized_update_request \<lparr> au_authority = authority, au_encoded_record = rec \<rparr> = Inr payload"
    "length payload \<le> MAX_APPLICATION_PAYLOAD_LENGTH"
    "decode_authorized_update_request payload = Inr \<lparr> au_authority = authority, au_encoded_record = rec \<rparr>"
    by (rule authorized_update_encodes)
  let ?q = "client_request ACCEPT_UPDATE payload"
  have "fst (handle_request sha c ?q channel s) = HandlerDone (accept_response ?q outcome)"
    using p(3) assms(2) r by (simp add: handle_request_def handler_done_def handle_accept_def kind_defs)
  then have "client_accept_update (relay_transport (store_reply sha c channel s)) authority rec = accept_observed outcome"
    using p(1,2)
    by (cases outcome) (auto simp add: client_accept_update_def update_error_response_def map_err_def
        ACCEPT_UPDATE_RESPONSE_def UPDATE_ERROR_def dest!: stored_done)
  then show ?thesis using r by simp
qed

lemma malformed_accept_observes:
  assumes "decode_update_record rec = Inl err" "rec \<noteq> []" "length rec \<le> MAX_UPDATE_RECORD_LENGTH"
  shows "client_accept_update (relay_transport (store_reply sha c channel s)) authority rec = Inr ObsAcceptMalformed"
proof -
  obtain payload where p:
    "encode_authorized_update_request \<lparr> au_authority = authority, au_encoded_record = rec \<rparr> = Inr payload"
    "length payload \<le> MAX_APPLICATION_PAYLOAD_LENGTH"
    "decode_authorized_update_request payload = Inr \<lparr> au_authority = authority, au_encoded_record = rec \<rparr>"
    by (rule authorized_update_encodes [OF assms(2,3)])
  let ?q = "client_request ACCEPT_UPDATE payload"
  have "fst (handle_request sha c ?q channel s) = HandlerDone (update_error_response ?q UpMalformed)"
    using p(3) assms(1) by (simp add: handle_request_def handler_done_def handle_accept_def kind_defs)
  then show ?thesis
    using p(1,2) by (auto simp add: client_accept_update_def update_error_response_def map_err_def
        ACCEPT_UPDATE_RESPONSE_def UPDATE_ERROR_def dest!: stored_done)
qed

section \<open>Fetch\<close>

fun fetch_observed :: "bytes option store_read_outcome \<Rightarrow> fetch_observation" where
  "fetch_observed (RdAuthorized (Some payload)) = ObsFound payload"
| "fetch_observed (RdAuthorized None) = ObsNotFound"
| "fetch_observed RdAuthorizationDenied = ObsFetchAuthorizationDenied"

lemma fetch_observes:
  assumes "server_ok sha s"
  shows "\<exists>outcome. fetch_authorized sha (ds_tables s) d u (ca_capability_id authority) (ca_authenticator authority) = Inr outcome
    \<and> client_fetch_update (relay_transport (store_reply sha c channel s)) authority d u = Inr (fetch_observed outcome)"
proof -
  let ?r = "\<lparr> fr_authority = authority, fr_document_id = d, fr_update_id = u \<rparr>"
  let ?p = "encode_fetch_request ?r"
  let ?q = "client_request FETCH_UPDATE ?p"
  have len: "length ?p \<le> MAX_APPLICATION_PAYLOAD_LENGTH"
    by (simp add: encode_fetch_request_def encode_authority_def update_length_defs)
  have dec: "decode_fetch_request ?p = Inr ?r" using fetch_request_codec.dec_enc [of ?r] by simp
  obtain found where found: "fetch_in (ds_tables s) d u = Inr found"
    "\<And>p. found = Some p \<Longrightarrow> p \<noteq> [] \<and> length p \<le> MAX_APPLICATION_PAYLOAD_LENGTH"
    using fetch_returns [OF assms] by blast
  obtain outcome where outcome: "fetch_authorized sha (ds_tables s) d u (ca_capability_id authority)
      (ca_authenticator authority) = Inr outcome" "\<And>p. outcome = RdAuthorized (Some p) \<Longrightarrow> found = Some p"
    using found(1)
    by (cases "authorize sha (ds_tables s) d (ca_capability_id authority) (ca_authenticator authority) Read")
      (simp_all add: fetch_authorized_def)
  have handled: "fst (handle_request sha c ?q channel s) = HandlerDone (handle_fetch sha ?q s)"
    by (simp add: handle_request_def kind_defs)
  have "client_fetch_update (relay_transport (store_reply sha c channel s)) authority d u = Inr (fetch_observed outcome)"
  proof (cases outcome rule: fetch_observed.cases)
    case (1 payload)
    then have "handle_fetch sha ?q s = response ?q FETCH_UPDATE_RESPONSE payload"
      using found(2) outcome by (simp add: handle_fetch_def dec encode_fetch_response_def)
    then show ?thesis
      using stored_done [of sha c FETCH_UPDATE ?p channel s FETCH_UPDATE_RESPONSE payload] handled len found(2) outcome(2) 1
      by (simp add: client_fetch_update_def decode_fetch_response_def map_err_def)
  qed (use handled outcome len in \<open>auto simp add: handle_fetch_def dec client_fetch_update_def
      update_error_response_def map_err_def FETCH_UPDATE_RESPONSE_def UPDATE_ERROR_def dest!: stored_done\<close>)
  then show ?thesis using outcome(1) by blast
qed

section \<open>Pages\<close>

text \<open>The client has no observation for a refused enumeration, as it has for a refused backfill.\<close>

fun enumerate_observed :: "authorized_stored_update_page store_enumerate_outcome \<Rightarrow> enumerate_observation client_result" where
  "enumerate_observed (EnAuthorized r) = Inr (ObsPage (enumeration_reply r))"
| "enumerate_observed EnAuthorizationDenied = Inr ObsEnumerateAuthorizationDenied"
| "enumerate_observed EnRetiredDocument = Inr ObsRetiredDocument"
| "enumerate_observed EnInvalidContinuation = Inr ObsInvalidContinuation"
| "enumerate_observed EnBackpressure = Inl (ClientOther ''unexpected enumerate response'')"

fun vector_observed :: "authorized_vector_backfill_page store_vector_backfill_outcome \<Rightarrow> vector_backfill_observation" where
  "vector_observed (VbAuthorized r) = ObsVectorPage (vector_reply r)"
| "vector_observed VbAuthorizationDenied = ObsVectorAuthorizationDenied"
| "vector_observed VbRetiredDocument = ObsVectorRetiredDocument"
| "vector_observed VbInvalidContinuation = ObsVectorInvalidContinuation"
| "vector_observed VbBackpressure = ObsBackpressure"

text \<open>A start whose cursor, if it has one, is a continuation of 32 bytes.\<close>

definition whole_cursor :: "bytes option \<Rightarrow> bool" where
  "whole_cursor cursor \<longleftrightarrow> pred_option (\<lambda>c. length c = 32) cursor"

lemma enumerate_request_encodes:
  fixes authority d start
  defines "r \<equiv> \<lparr> er_authority = authority, er_document_id = d, er_start = start \<rparr>"
  assumes "whole_cursor (snd (enum_mode start))"
  shows "encode_enumerate_request r = Inr (enumerate_request_bytes r)"
    "length (enumerate_request_bytes r) \<le> MAX_APPLICATION_PAYLOAD_LENGTH"
    "decode_enumerate_request (enumerate_request_bytes r) = Inr r"
proof -
  show "encode_enumerate_request r = Inr (enumerate_request_bytes r)"
    using assms(2) by (auto simp add: encode_enumerate_request_iff whole_cursor_def r_def split: option.split)
  show "length (enumerate_request_bytes r) \<le> MAX_APPLICATION_PAYLOAD_LENGTH"
    using assms(2) by (cases start) (simp_all add: enumerate_request_bytes_def r_def enum_mode_def
        page_cursor_field_def cursor_bytes_def encode_authority_def whole_cursor_def update_length_defs)
  show "decode_enumerate_request (enumerate_request_bytes r) = Inr r"
    using assms(2) by (cases start) (simp_all add: decode_enumerate_request_iff enumerate_request_ok_def r_def
        enum_mode_def cursor_bytes_def whole_cursor_def)
qed

lemma enumerate_observes:
  assumes "server_ok sha s" "whole_cursor (snd (enum_mode start))"
  shows "enumerate_updates_start_observation (relay_transport (store_reply sha c channel s)) authority d start
    = (case fst (enumerate_authorized sha s channel d (ca_capability_id authority) (ca_authenticator authority)
          (enumerate_start_of start) REPLY_PAGE_LIMIT (rq_now c) (rq_later c) (rq_random c)) of
        Inl _ \<Rightarrow> Inl (ClientOther ''gateway closed before application response'')
      | Inr outcome \<Rightarrow> enumerate_observed outcome)"
proof -
  let ?r = "\<lparr> er_authority = authority, er_document_id = d, er_start = start \<rparr>"
  let ?p = "enumerate_request_bytes ?r"
  let ?q = "client_request ENUMERATE_UPDATES ?p"
  let ?t = "relay_transport (store_reply sha c channel s)"
  note enc = enumerate_request_encodes [OF assms(2), of authority d]
  obtain res s' where r: "enumerate_authorized sha s channel d (ca_capability_id authority) (ca_authenticator authority)
          (enumerate_start_of start) REPLY_PAGE_LIMIT (rq_now c) (rq_later c) (rq_random c) = (res, s')"
    by (meson surj_pair)
  have fits: "res = Inr (EnAuthorized p) \<Longrightarrow> enumeration_fits p" for p
    using server_enumerate_ok(2) [OF assms(1), of channel d "ca_capability_id authority" "ca_authenticator authority"
        "enumerate_start_of start" "rq_now c" "rq_later c" "rq_random c" p] r by simp
  have handled: "handle_request sha c ?q channel s = handler_done (handle_enumerate sha c ?q channel s)"
    by (simp add: handle_request_def kind_defs)
  note run = handle_enumerate_def enc(3) checked_page_limits r
  show ?thesis
  proof (cases res)
    case (Inl err)
    have "store_reply sha c channel s ?q = None"
      using Inl by (simp add: store_reply_def handled handler_done_def run)
    then show ?thesis
      using stored_silence [OF enc(2)] Inl r
      by (simp add: enumerate_updates_start_observation_def enc(1) map_err_def)
  next
    case (Inr outcome)
    show ?thesis
    proof (cases "\<exists>p. outcome = EnAuthorized p")
      case True
      then obtain p where p: "outcome = EnAuthorized p" by blast
      obtain payload where payload: "encode_enumerate_response (enumeration_reply p) = Inr payload"
        "length payload \<le> MAX_APPLICATION_PAYLOAD_LENGTH"
        "decode_enumerate_response payload = Inr (enumeration_reply p)"
        using enumeration_fits_encodes fits Inr p by blast
      have "fst (handle_request sha c ?q channel s) = HandlerDone (response ?q ENUMERATE_UPDATES_RESPONSE payload)"
        using Inr p payload(1) by (simp add: handled handler_done_def run enumeration_reply_def)
      from stored_done [OF this enc(2) payload(2)] show ?thesis
        using Inr r p payload(3) by (simp add: enumerate_updates_start_observation_def enc(1) map_err_def)
    next
      case False
      then have "\<exists>code. fst (handle_request sha c ?q channel s) = HandlerDone (update_error_response ?q code)
          \<and> enumerate_observed outcome = (if code = UpInvalidOrExpiredContinuation then Inr ObsInvalidContinuation
            else if code = UpAuthorizationDenied then Inr ObsEnumerateAuthorizationDenied
            else if code = UpRetiredDocument then Inr ObsRetiredDocument
            else Inl (ClientOther ''unexpected enumerate response''))"
        using Inr by (cases outcome) (auto simp add: handled handler_done_def run)
      then show ?thesis
        using Inr r enc(2)
        by (auto simp add: enumerate_updates_start_observation_def enc(1) update_error_response_def map_err_def
            ENUMERATE_UPDATES_RESPONSE_def UPDATE_ERROR_def dest!: stored_done)
    qed
  qed
qed

lemma vector_request_encodes:
  fixes authority d version start
  defines "r \<equiv> \<lparr> vr_authority = authority, vr_document_id = d, vr_oplog_version = version, vr_start = start \<rparr>"
  assumes "whole_cursor (snd (vec_mode start))" "oplog_version_ok version"
  shows "encode_vector_backfill_request r = Inr (vector_request_bytes r)"
    "length (vector_request_bytes r) \<le> MAX_APPLICATION_PAYLOAD_LENGTH"
    "decode_vector_backfill_request (vector_request_bytes r) = Inr r"
proof -
  show "encode_vector_backfill_request r = Inr (vector_request_bytes r)"
    using assms(2,3) by (auto simp add: encode_vector_backfill_request_iff whole_cursor_def r_def split: option.split)
  show len: "length (vector_request_bytes r) \<le> MAX_APPLICATION_PAYLOAD_LENGTH"
    using assms(2) version_length_bound [OF assms(3)]
    by (cases start) (simp_all add: vector_request_bytes_def r_def vec_mode_def
        page_cursor_field_def cursor_bytes_def encode_authority_def whole_cursor_def update_length_defs)
  have "length (cursor_bytes (snd (vec_mode start))) < 65536"
    using assms(2) by (cases start) (simp_all add: vec_mode_def cursor_bytes_def whole_cursor_def)
  then show "decode_vector_backfill_request (vector_request_bytes r) = Inr r"
    using len assms(3) by (simp add: decode_vector_backfill_request_iff vector_request_ok_def r_def)
qed

definition vector_start_from :: "bytes option \<Rightarrow> vector_backfill_start" where
  "vector_start_from cursor = (case cursor of None \<Rightarrow> VecOrigin | Some cursor \<Rightarrow> VecContinue cursor)"

lemma vector_start_from_mode [simp]: "snd (vec_mode (vector_start_from cursor)) = cursor"
  by (cases cursor) (simp_all add: vector_start_from_def vec_mode_def)

lemma vector_observes:
  assumes "server_ok sha s" "whole_cursor cursor" "oplog_version_ok version"
  shows "client_vector_backfill (relay_transport (store_reply sha c channel s)) authority d version cursor
    = (case fst (vector_backfill_authorized sha s channel d (ca_capability_id authority) (ca_authenticator authority)
          version (vector_start_of (vector_start_from cursor)) REPLY_PAGE_LIMIT (rq_now c) (rq_later c) (rq_random c)) of
        Inl _ \<Rightarrow> Inl (ClientOther ''gateway closed before application response'')
      | Inr outcome \<Rightarrow> Inr (vector_observed outcome))"
proof -
  let ?start = "vector_start_from cursor"
  let ?r = "\<lparr> vr_authority = authority, vr_document_id = d, vr_oplog_version = version, vr_start = ?start \<rparr>"
  let ?p = "vector_request_bytes ?r"
  let ?q = "client_request VECTOR_BACKFILL ?p"
  let ?t = "relay_transport (store_reply sha c channel s)"
  note enc = vector_request_encodes [of ?start, OF _ assms(3), of authority d, simplified, OF assms(2)]
  note asks = client_vector_backfill_def [of ?t, folded vector_start_from_def] enc(1)
  obtain res s' where r: "vector_backfill_authorized sha s channel d (ca_capability_id authority)
          (ca_authenticator authority) version (vector_start_of ?start) REPLY_PAGE_LIMIT (rq_now c) (rq_later c)
          (rq_random c) = (res, s')"
    by (meson surj_pair)
  have fits: "res = Inr (VbAuthorized p) \<Longrightarrow> vector_fits p" for p
    using server_vector_ok(2) [OF assms(1), of channel d "ca_capability_id authority" "ca_authenticator authority"
        version "vector_start_of ?start" "rq_now c" "rq_later c" "rq_random c" p] r by simp
  have handled: "handle_request sha c ?q channel s = handler_done (handle_vector_backfill sha c ?q channel s)"
    by (simp add: handle_request_def kind_defs)
  note run = handle_vector_backfill_def enc(3) checked_page_limits r
  show ?thesis
  proof (cases res)
    case (Inl err)
    have "store_reply sha c channel s ?q = None"
      using Inl by (simp add: store_reply_def handled handler_done_def run)
    then show ?thesis using stored_silence [OF enc(2)] Inl r by (simp add: asks map_err_def)
  next
    case (Inr outcome)
    show ?thesis
    proof (cases "\<exists>p. outcome = VbAuthorized p")
      case True
      then obtain p where p: "outcome = VbAuthorized p" by blast
      obtain payload where payload: "encode_vector_backfill_response (vector_reply p) = Inr payload"
        "length payload \<le> MAX_APPLICATION_PAYLOAD_LENGTH"
        "decode_vector_backfill_response payload = Inr (vector_reply p)"
        using vector_fits_encodes fits Inr p by blast
      have "fst (handle_request sha c ?q channel s) = HandlerDone (response ?q VECTOR_BACKFILL_RESPONSE payload)"
        using Inr p payload(1) by (simp add: handled handler_done_def run vector_reply_def)
      from stored_done [OF this enc(2) payload(2)] show ?thesis
        using Inr r p payload(3) by (simp add: asks map_err_def)
    next
      case False
      then have "\<exists>code. fst (handle_request sha c ?q channel s) = HandlerDone (update_error_response ?q code)
          \<and> (code = UpInvalidOrExpiredContinuation \<and> outcome = VbInvalidContinuation
            \<or> code = UpAuthorizationDenied \<and> outcome = VbAuthorizationDenied
            \<or> code = UpBackpressure \<and> outcome = VbBackpressure
            \<or> code = UpRetiredDocument \<and> outcome = VbRetiredDocument)"
        using Inr by (cases outcome) (auto simp add: handled handler_done_def run)
      then show ?thesis
        using Inr r enc(2)
        by (auto simp add: asks update_error_response_def map_err_def
            VECTOR_BACKFILL_RESPONSE_def UPDATE_ERROR_def dest!: stored_done)
    qed
  qed
qed

lemma malformed_vector_observes:
  assumes "decode_vector_backfill_request payload = Inl err" "length payload \<le> MAX_APPLICATION_PAYLOAD_LENGTH"
  shows "malformed_vector_backfill (relay_transport (store_reply sha c channel s)) payload
    = Inr (if err = UcInvalidLoroMetadata then UpInvalidLoroMetadata else UpMalformed)"
proof -
  let ?q = "client_request VECTOR_BACKFILL payload"
  let ?code = "if err = UcInvalidLoroMetadata then UpInvalidLoroMetadata else UpMalformed"
  have "fst (handle_request sha c ?q channel s) = HandlerDone (update_error_response ?q ?code)"
    using assms(1) by (cases err) (simp_all add: handle_request_def handler_done_def handle_vector_backfill_def kind_defs)
  from this [unfolded update_error_response_def] have
    "exchange (relay_transport (store_reply sha c channel s)) VECTOR_BACKFILL payload
      = Inr (client_request UPDATE_ERROR (encode_update_error ?code))"
    by (rule stored_done) (simp_all add: assms(2))
  then show ?thesis by (simp add: malformed_vector_backfill_def map_err_def)
qed

section \<open>Subscription streams\<close>

text \<open>What the client makes of a body that a connection writes, by what it was written for.\<close>

fun client_reads :: "output_tag list \<Rightarrow> output_tag \<Rightarrow> bytes \<Rightarrow> bool" where
  "client_reads tags (Replied request) body \<longleftrightarrow> (ev_version request = VERSION
      \<and> length (ev_payload request) \<le> MAX_APPLICATION_PAYLOAD_LENGTH \<longrightarrow>
    (\<exists>reply. exchange_with_correlation (relay_transport (\<lambda>_. Some body)) (ev_correlation_id request)
        (ev_message_type request) (ev_payload request) = Inr reply
      \<and> answers (ev_message_type request) (ev_message_type reply) (ev_payload reply)))"
| "client_reads tags (Acked n i request) body \<longleftrightarrow>
    (length (ev_payload request) \<le> MAX_APPLICATION_PAYLOAD_LENGTH \<longrightarrow>
      (\<exists>reply. round_trip (relay_transport (\<lambda>_. Some body)) request [] = Inr reply
      \<and> ev_correlation_id reply = ev_correlation_id request \<and> ev_message_type reply = SUBSCRIBE_UPDATES_ACK
      \<and> decode_subscribe_updates_ack (ev_payload reply) = Inr n))
    \<and> (ev_correlation_id request = repeated 68 \<longrightarrow>
      (\<forall>authority d. client_subscribe_updates (relay_transport (\<lambda>_. Some body)) authority d
        = Inr \<lparr> sh_correlation_id = ev_correlation_id request, sh_subscription_id = n \<rparr>))"
| "client_reads tags (CancelReplied n request) body \<longleftrightarrow>
    (length (ev_payload request) \<le> MAX_APPLICATION_PAYLOAD_LENGTH \<longrightarrow>
      (\<exists>reply. round_trip (relay_transport (\<lambda>_. Some body)) request [] = Inr reply
      \<and> ev_correlation_id reply = ev_correlation_id request
      \<and> ev_message_type reply = CANCEL_UPDATE_SUBSCRIPTION_RESPONSE
      \<and> decode_cancel_update_subscription (ev_payload reply) = Inr n))
    \<and> (ev_correlation_id request = repeated 69 \<longrightarrow>
      client_cancel_update_subscription (relay_transport (\<lambda>_. Some body)) n = Inr ())"
| "client_reads tags (Notified n) body \<longleftrightarrow> (\<exists>i request u. Acked n i request \<in> set tags
    \<and> next_update_subscription_event (framed body) = Inr (SubscriptionNotification (ev_correlation_id request) n u))"
| "client_reads tags (Terminated n) body \<longleftrightarrow> (\<exists>i request. Acked n i request \<in> set tags
    \<and> next_update_subscription_event (framed body) \<in> {Inr (SubscriptionOverflow (ev_correlation_id request) n),
        Inr (SubscriptionInvalidated (ev_correlation_id request) n)})"

lemma event_reads:
  assumes "carries body correlation kind payload"
  shows "next_update_subscription_event (framed body) = (
      if kind = UPDATE_NOTIFICATION then
        ok_then (map_err ClientUpdate (decode_update_notification payload)) (\<lambda>notification.
          Inr (SubscriptionNotification correlation (un_subscription_id notification) (un_update_id notification)))
      else if kind = UPDATE_SUBSCRIPTION_OVERFLOW then
        ok_then (map_err ClientUpdate (decode_update_subscription_overflow payload)) (\<lambda>subscription_id.
          Inr (SubscriptionOverflow correlation subscription_id))
      else if kind = UPDATE_SUBSCRIPTION_INVALIDATED then
        ok_then (map_err ClientUpdate (decode_update_subscription_invalidated payload)) (\<lambda>subscription_id.
          Inr (SubscriptionInvalidated correlation subscription_id))
      else Inl (ClientOther ''unexpected subscription event type''))"
proof -
  have decoded: "decode_body body = Inr \<lparr> ev_correlation_id = correlation, ev_message_type = kind,
      ev_payload = payload, ev_version = VERSION \<rparr>"
    using assms by (simp add: carries_def)
  have "read_body (framed body) = Inr (Some body, [])"
    using read_body_append [of body "[]"] decode_body_parts [OF decoded] by (simp add: framed_def)
  then show ?thesis by (simp add: next_update_subscription_event_def decoded map_err_def ok_or_def)
qed

lemmas subscription_kinds = UPDATE_NOTIFICATION_def UPDATE_SUBSCRIPTION_OVERFLOW_def UPDATE_SUBSCRIPTION_INVALIDATED_def

lemma identity_payloads [simp]:
  "decode_update_notification (encode_update_notification notification) = Inr notification"
  "decode_subscribe_updates_ack (encode_subscribe_updates_ack n) = Inr n"
  "decode_update_subscription_overflow (encode_update_subscription_overflow n) = Inr n"
  "decode_update_subscription_invalidated (encode_update_subscription_invalidated n) = Inr n"
  "decode_cancel_update_subscription (encode_cancel_update_subscription n) = Inr n"
  using notification_codec.dec_iff [of _ notification] subscription_identity_codec.dec_iff [of _ n]
  by (simp_all add: decode_subscribe_updates_ack_def encode_subscribe_updates_ack_def
      decode_update_subscription_overflow_def encode_update_subscription_overflow_def
      decode_update_subscription_invalidated_def encode_update_subscription_invalidated_def
      decode_cancel_update_subscription_def encode_cancel_update_subscription_def)

lemma carried_exchange:
  assumes "carries body correlation kind payload" "length asked \<le> MAX_APPLICATION_PAYLOAD_LENGTH"
  shows "exchange_with_correlation (relay_transport (\<lambda>_. Some body)) correlation asked_kind asked
    = Inr \<lparr> ev_correlation_id = correlation, ev_message_type = kind, ev_payload = payload, ev_version = VERSION \<rparr>"
  using relayed.exchange_delivers [OF assms(2), of "\<lambda>_. Some body" correlation asked_kind body kind payload] assms(1)
  by (simp add: carries_def)

lemma carried_reply:
  assumes "carries body (ev_correlation_id request) kind payload"
    and "length (ev_payload request) \<le> MAX_APPLICATION_PAYLOAD_LENGTH"
  shows "round_trip (relay_transport (\<lambda>_. Some body)) request closed = Inr \<lparr> ev_correlation_id =
    ev_correlation_id request, ev_message_type = kind, ev_payload = payload, ev_version = VERSION \<rparr>"
  using relayed.round_trip_delivers [OF assms(2), of "\<lambda>_. Some body" body] assms(1) decode_body_parts
  by (simp add: carries_def map_err_def)

lemma entry_reads:
  assumes "entry_ok tags tag body"
  shows "client_reads tags tag body"
proof (cases tag)
  case (Replied request)
  obtain reply where reply: "decode_body body = Inr reply" "ev_correlation_id reply = ev_correlation_id request"
    "ev_version reply = VERSION"
    "ev_version request = VERSION \<Longrightarrow> answers (ev_message_type request) (ev_message_type reply) (ev_payload reply)"
    using assms Replied by (auto simp add: entry_ok.simps typed_reply_def split: sum.splits if_splits)
  then have "carries body (ev_correlation_id request) (ev_message_type reply) (ev_payload reply)"
    by (cases reply) (simp add: carries_def)
  from carried_exchange [OF this, of "ev_payload request"] show ?thesis using reply(4) by (simp add: Replied)
next
  case (Acked n i request)
  have "length (encode_subscribe_updates_request r) \<le> MAX_APPLICATION_PAYLOAD_LENGTH" for r
    by (simp add: encode_subscribe_updates_request_def encode_authority_def update_length_defs)
  moreover have body: "carries body (ev_correlation_id request) SUBSCRIBE_UPDATES_ACK (encode_subscribe_updates_ack n)"
    using assms by (simp add: Acked entry_ok.simps)
  ultimately show ?thesis
    using carried_exchange [OF body] carried_reply [OF body, of "[]"]
    by (auto simp add: Acked client_subscribe_updates_def map_err_def)
next
  case (CancelReplied n request)
  have "length (encode_cancel_update_subscription n) \<le> MAX_APPLICATION_PAYLOAD_LENGTH"
    by (simp add: update_length_defs)
  moreover have body: "carries body (ev_correlation_id request) CANCEL_UPDATE_SUBSCRIPTION_RESPONSE
      (encode_cancel_update_subscription n)"
    using assms by (simp add: CancelReplied entry_ok.simps)
  ultimately show ?thesis
    using carried_exchange [OF body] carried_reply [OF body, of "[]"]
    by (auto simp add: CancelReplied client_cancel_update_subscription_def map_err_def)
next
  case (Notified n)
  then show ?thesis using assms by (fastforce simp add: entry_ok.simps event_reads map_err_def)
next
  case (Terminated n)
  then show ?thesis
    using assms by (fastforce simp add: entry_ok.simps event_reads map_err_def subscription_kinds)
qed

end
