(* ===== verification/Subject_Properties.thy ===== *)
theory Subject_Properties
  imports Subject_Updates
begin

text \<open>The properties of the client against the session and the store.\<close>

section \<open>Negotiation\<close>

text \<open>What the session writes for one request body.\<close>

definition session_reply :: "session \<Rightarrow> envelope \<Rightarrow> bytes option" where
  "session_reply s request = (case encode_body request of
      Inl _ \<Rightarrow> None
    | Inr body \<Rightarrow> (case session_step (Gateway, Inr (Some body)) (s\<lparr> sn_output := [] \<rparr>) of
        (Continue, s') \<Rightarrow> (case read_body (sn_output s') of Inr (answer, _) \<Rightarrow> answer | Inl _ \<Rightarrow> None)
      | _ \<Rightarrow> None))"

fun negotiation_observed :: "negotiation_outcome \<Rightarrow> negotiation_observation" where
  "negotiation_observed (Selected banner) = ObsSelected banner"
| "negotiation_observed NegUnsupportedVersion = ObsUnsupportedVersion"
| "negotiation_observed NegUnsupportedProfile = ObsUnsupportedProfile"
| "negotiation_observed AlreadyNegotiated = ObsAlreadyNegotiated"

definition hello_request :: "u16 \<Rightarrow> bytes \<Rightarrow> envelope" where
  "hello_request version payload = \<lparr> ev_correlation_id = repeated 17, ev_message_type = CLIENT_HELLO,
    ev_payload = payload, ev_version = version \<rparr>"

lemma session_replies:
  assumes "length payload \<le> MAX_APPLICATION_PAYLOAD_LENGTH"
    and "negotiate (hello_request version payload) (sn_negotiated s) = Inr message"
  obtains answer where "session_reply s (hello_request version payload) = Some answer"
    "decode_body answer = Inr message" "length answer \<le> MAX_BODY_LENGTH"
proof -
  let ?q = "hello_request version payload"
  obtain body where body: "encode_body ?q = Inr body"
    using assms(1) by (auto simp add: encode_body_Inr_iff hello_request_def)
  then have "decode_body body = Inr ?q" by (simp add: decode_body_iff)
  then obtain answer message' where step:
    "session_step (Gateway, Inr (Some body)) (s\<lparr> sn_output := [] \<rparr>) = (Continue, (s\<lparr> sn_output := [] \<rparr>)\<lparr>
      sn_negotiated := sn_negotiated (s\<lparr> sn_output := [] \<rparr>) \<or> ev_message_type message' = SERVER_HELLO,
      sn_output := sn_output (s\<lparr> sn_output := [] \<rparr>) @ framed answer \<rparr>)"
    "negotiate ?q (sn_negotiated (s\<lparr> sn_output := [] \<rparr>)) = Inr message'" "decode_body answer = Inr message'"
    "length answer \<le> MAX_BODY_LENGTH"
    by (rule session_answer [where s = "s\<lparr> sn_output := [] \<rparr>"]) (simp add: hello_request_def)
  have "read_body (framed answer) = Inr (Some answer, [])"
    using read_body_append [OF step(4), of "[]"] by (simp add: framed_def)
  then have "session_reply s ?q = Some answer" using step(1) by (simp add: session_reply_def body)
  then show thesis using that step(2-4) assms(2) by simp
qed

text \<open>The server's greeting, as the client takes it.\<close>

lemma server_greeting:
  "decode_greeting (be_encode (21 :: u16) @ PROFILE_ID @ be_encode (23 :: u16) @ RENEE_BANNER)
    = Inr \<lparr> gr_banner = RENEE_BANNER, gr_profile = PROFILE_ID \<rparr>"
proof -
  have "utf8_valid PROFILE_ID" "utf8_valid RENEE_BANNER"
    by (simp_all add: PROFILE_ID_def RENEE_BANNER_def ascii_def)
  then show ?thesis using encoded_greeting by (simp add: decode_greeting_iff)
qed

lemma error_payloads_differ:
  "ERROR_UNSUPPORTED_PROFILE \<noteq> ERROR_UNSUPPORTED_VERSION" "ERROR_ALREADY_NEGOTIATED \<noteq> ERROR_UNSUPPORTED_VERSION"
  "ERROR_ALREADY_NEGOTIATED \<noteq> ERROR_UNSUPPORTED_PROFILE" "ERROR_ALREADY_NEGOTIATED \<noteq> ERROR_EXPECTED_HELLO"
  by (simp_all add: ERROR_ALREADY_NEGOTIATED_def ERROR_UNSUPPORTED_VERSION_def ERROR_EXPECTED_HELLO_def
      ERROR_UNSUPPORTED_PROFILE_def ascii_def)

lemma greeting_fits:
  "encode_greeting profile banner = Inr payload \<Longrightarrow> length payload \<le> MAX_APPLICATION_PAYLOAD_LENGTH"
  by (auto simp add: encode_greeting_def append_greeting_field_iff ok_then_Inr_iff length_defs)

text \<open>
  C24: the negotiation as the client sees it is the one of the model.  Whatever version, profile
  and banner a client says hello with, and whether or not the session has negotiated before, the
  client observes the outcome of the model's hello: the session's banner, or the reason of the
  refusal.
\<close>

theorem client_negotiates:
  assumes "utf8_valid profile" "utf8_valid banner" "encode_greeting profile banner = Inr payload"
    and "hello (model_state (sn_negotiated s)) \<lparr> ch_banner = banner, ch_profile = profile, ch_version = version \<rparr>
      = (outcome, state)"
  shows "client_sends_hello (relay_transport (session_reply s)) version profile banner = Inr (negotiation_observed outcome)"
proof -
  let ?q = "hello_request version payload"
  let ?r = "\<lparr> ev_correlation_id = repeated 17, ev_message_type = fst (outcome_message outcome),
    ev_payload = snd (outcome_message outcome), ev_version = VERSION \<rparr>"
  note len = greeting_fits [OF assms(3)]
  have "decode_greeting payload = Inr \<lparr> gr_banner = banner, gr_profile = profile \<rparr>"
    using assms(1-3) by (simp add: decode_greeting_iff)
  then have "negotiate ?q (sn_negotiated s) = Inr ?r"
    using negotiate_hello [of ?q _ "sn_negotiated s" outcome state] assms(4) by (simp add: hello_request_def)
  then obtain answer where answer: "session_reply s ?q = Some answer" "decode_body answer = Inr ?r"
    "length answer \<le> MAX_BODY_LENGTH"
    by (rule session_replies [OF len])
  have trip: "round_trip (relay_transport (session_reply s)) ?q ''gateway closed before negotiation response'' = Inr ?r"
    using relayed.round_trip_delivers [of ?q "session_reply s" answer] answer(1,3) len answer(2) by (simp add: hello_request_def map_err_def)
  have banner: "outcome = Selected banner' \<Longrightarrow> banner' = RENEE_BANNER" for banner'
    using assms(4) by (auto simp add: hello_def split: if_splits)
  show ?thesis
    using trip banner server_greeting error_payloads_differ
    by (cases outcome) (auto simp add: client_sends_hello_def assms(3) hello_request_def outcome_message_def map_err_def
        length_banner SERVER_HELLO_def PROTOCOL_ERROR_def)
qed

theorem client_negotiates_witness:
  "client_negotiate (relay_transport (session_reply session_initial)) = Inr (ObsSelected RENEE_BANNER)"
proof -
  have "utf8_valid PROFILE_ID" "utf8_valid CARBON_BANNER" "length PROFILE_ID \<le> 30" "length CARBON_BANNER \<le> 30"
    by (simp_all add: PROFILE_ID_def CARBON_BANNER_def ascii_def)
  moreover from this obtain payload where "encode_greeting PROFILE_ID CARBON_BANNER = Inr payload"
    by (simp add: encode_greeting_def append_greeting_field_def length_defs)
  moreover have "hello (model_state (sn_negotiated session_initial)) \<lparr> ch_banner = CARBON_BANNER, ch_profile = PROFILE_ID,
      ch_version = VERSION \<rparr> = (Selected RENEE_BANNER, Ready)"
    by (simp add: hello_def model_state_def session_initial_def VERSION_def profile_is_experimental)
  ultimately show ?thesis
    using client_negotiates [of PROFILE_ID CARBON_BANNER payload session_initial VERSION] by (simp add: client_negotiate_def)
qed

section \<open>Requests\<close>

lemma stored_server_ok:
  "store_history sha empty_tables t \<Longrightarrow> server_run sha (opened t generation broker) s \<Longrightarrow> server_ok sha s"
  by (rule opened_server_ok)

text \<open>
  C20: a client observes the outcome of its transaction.  In every state of the store process, a
  create or a grant ends for the client as the transaction of the store does, on every branch,
  and so does a revoke that gets a reply; without one the client sees the stream closed, which
  cannot happen while nobody holds a gate.
\<close>

theorem client_observes_control_outcomes:
  assumes "store_history sha empty_tables t" "server_run sha (opened t generation broker) s"
  shows "(\<exists>outcome. fst (durable_create_document sha s (cr_create_authority_id (cd_create_authority create))
        (cr_authenticator (cd_create_authority create)) (cd_request_id create) (cd_document_id create)
        (ca_capability_id (cd_root create)) (ca_authenticator (cd_root create))) = Inr outcome
      \<and> client_create_document (relay_transport (store_reply sha c channel s)) create = Inr (create_observed outcome))
    \<and> (canonical_ops (gc_operations granting) \<and> \<not> ops_is_empty (gc_operations granting) \<longrightarrow>
      (\<exists>outcome. fst (durable_grant_capability sha s (gc_document_id granting)
        (ca_capability_id (gc_issuer granting)) (ca_authenticator (gc_issuer granting)) (gc_request_id granting)
        (ca_capability_id (gc_descendant granting)) (ca_authenticator (gc_descendant granting))
        (gc_operations granting)) = Inr outcome
      \<and> client_grant_capability (relay_transport (store_reply sha c channel s)) granting = Inr (control_observed outcome)))
    \<and> (\<exists>outcome. fst (durable_revoke_capability sha s (rc_document_id revoking)
        (ca_capability_id (rc_issuer revoking)) (ca_authenticator (rc_issuer revoking)) (rc_request_id revoking)
        (rc_target_capability_id revoking)) = Inr outcome
      \<and> client_revoke_capability (relay_transport (store_reply sha c channel s)) revoking
          \<in> {Inr (control_observed outcome), Inl (ClientOther ''gateway closed before application response'')}
      \<and> (gates_free (ds_subscriptions s) \<longrightarrow>
          client_revoke_capability (relay_transport (store_reply sha c channel s)) revoking = Inr (control_observed outcome)))"
proof -
  note ok = stored_server_ok [OF assms]
  show ?thesis
    using create_observes [OF ok, of create c channel] grant_observes [OF ok, of granting c channel]
      revoke_observes [OF ok, of revoking c channel]
    by simp
qed

text \<open>
  C21: a client observes what becomes of its updates.  In every state of the store process: the
  acceptance of a record that decodes ends for the client as the transaction does - save an
  exhausted sequence, for which it has no observation - and one that does not decode is observed
  as malformed without reaching the store; a fetch brings the stored payload, its absence or the
  denial.
\<close>

theorem client_observes_update_outcomes:
  assumes "store_history sha empty_tables t" "server_run sha (opened t generation broker) s"
    and "rec \<noteq> []" "length rec \<le> MAX_UPDATE_RECORD_LENGTH"
  shows "(case decode_update_record rec of
        Inl _ \<Rightarrow> client_accept_update (relay_transport (store_reply sha c channel s)) authority rec = Inr ObsAcceptMalformed
      | Inr update \<Rightarrow> \<exists>outcome. fst (durable_accept sha s (ca_capability_id authority) (ca_authenticator authority)
            update rec) = Inr outcome
          \<and> client_accept_update (relay_transport (store_reply sha c channel s)) authority rec = accept_observed outcome)
    \<and> (\<exists>outcome. fetch_authorized sha (ds_tables s) d u (ca_capability_id authority) (ca_authenticator authority)
          = Inr outcome
        \<and> client_fetch_update (relay_transport (store_reply sha c channel s)) authority d u = Inr (fetch_observed outcome))"
proof -
  note ok = stored_server_ok [OF assms(1,2)]
  show ?thesis
    using accept_observes [OF ok, of rec _ authority c channel] malformed_accept_observes [OF _ assms(3,4)]
      fetch_observes [OF ok, of d u authority c channel]
    by (simp split: sum.split)
qed

text \<open>
  C22: a client observes the pages of the store as they are.  In every state of the store
  process, with a whole cursor or none, an enumeration and a backfill bring the page of the store
  or its refusal; when the store fails for lack of randomness the stream closes.  A refusal for
  backpressure, for which the client of an enumeration has no observation, is an error there.
\<close>

theorem client_observes_pages:
  assumes "store_history sha empty_tables t" "server_run sha (opened t generation broker) s"
    and "whole_cursor (snd (enum_mode start))" "whole_cursor cursor" "oplog_version_ok version"
  shows "enumerate_updates_start_observation (relay_transport (store_reply sha c channel s)) authority d start
      = (case fst (enumerate_authorized sha s channel d (ca_capability_id authority) (ca_authenticator authority)
            (enumerate_start_of start) REPLY_PAGE_LIMIT (rq_now c) (rq_later c) (rq_random c)) of
          Inl _ \<Rightarrow> Inl (ClientOther ''gateway closed before application response'')
        | Inr outcome \<Rightarrow> enumerate_observed outcome)
    \<and> client_vector_backfill (relay_transport (store_reply sha c channel s)) authority d version cursor
      = (case fst (vector_backfill_authorized sha s channel d (ca_capability_id authority) (ca_authenticator authority)
            version (vector_start_of (vector_start_from cursor)) REPLY_PAGE_LIMIT (rq_now c) (rq_later c) (rq_random c)) of
          Inl _ \<Rightarrow> Inl (ClientOther ''gateway closed before application response'')
        | Inr outcome \<Rightarrow> Inr (vector_observed outcome))"
  using enumerate_observes [OF stored_server_ok [OF assms(1,2)] assms(3)]
    vector_observes [OF stored_server_ok [OF assms(1,2)] assms(4,5)]
  by blast

text \<open>
  C23: a client can read everything a connection of the store process writes.  Each reply is the
  answer to the exchange of its request; an acknowledgement gives the client of
  \<open>subscribe_updates\<close> the identity that the store has opened, the reply to a cancellation
  completes \<open>cancel_update_subscription\<close>; and every event stream reads as a notification, an
  overflow or an invalidation under the correlation number and the identity of a subscription
  that was acknowledged.
\<close>

theorem client_follows_its_subscriptions:
  assumes "store_history sha empty_tables t" "server_run sha (opened t generation broker) s"
    and "serve_connection s input = (Some c0, s0)" "connection_run sha c0 c"
    and "(tag, body) \<in> set (cn_output c)"
  shows "client_reads (map fst (cn_output c)) tag body"
proof -
  have "conn_ok sha c" by (rule connection_run_ok [OF assms(4) served_ok [OF stored_server_ok [OF assms(1,2)] assms(3)]])
  then have "entry_ok (map fst (cn_output c)) tag body"
    using assms(5) by (auto simp add: conn_ok_def output_ok_def list_all_iff)
  then show ?thesis by (rule entry_reads)
qed

section \<open>Instances\<close>

definition demo_grant_request :: grant_capability_request where
  "demo_grant_request = \<lparr> gc_document_id = 4, gc_issuer = \<lparr> ca_capability_id = 5, ca_authenticator = 6 \<rparr>,
    gc_request_id = 7, gc_descendant = \<lparr> ca_capability_id = 8, ca_authenticator = 9 \<rparr>, gc_operations = one Read \<rparr>"

theorem client_observes_control_outcomes_witness:
  "client_grant_capability (relay_transport (store_reply demo_sha demo_ctx demo_channel (opened demo_document 0 0)))
    demo_grant_request = Inr ObsInserted"
proof -
  have "fst (durable_grant_capability demo_sha (opened demo_document 0 0) 4 5 6 7 8 9 (one Read)) = Inr StInserted"
    by (simp add: durable_grant_capability_def opened_def demo_grant)
  moreover have "\<not> ops_is_empty (one Read)"
    using ops_of_empty_iff [OF canonical_one, of Read] by (simp add: ops_is_empty_def ops_of_one)
  ultimately show ?thesis
    using client_observes_control_outcomes [OF demo_document_history server_start, where c = demo_ctx and
        channel = demo_channel and granting = demo_grant_request and generation = 0 and broker = 0] canonical_one [of Read]
    by (auto simp add: demo_grant_request_def)
qed

theorem client_observes_update_outcomes_witness:
  "client_accept_update (relay_transport (store_reply demo_sha demo_ctx demo_channel (opened demo_document 0 0)))
    \<lparr> ca_capability_id = 5, ca_authenticator = 6 \<rparr> (record_bytes demo_update) = Inr ObsAcceptInserted"
proof -
  obtain t where "store_accept demo_sha demo_document 5 6 demo_update (record_bytes demo_update) = Inr (StAcceptInserted, t)"
    by (rule demo_accepts)
  then have "fst (durable_accept demo_sha (opened demo_document 0 0) 5 6 demo_update (record_bytes demo_update))
      = Inr StAcceptInserted"
    by (simp add: durable_accept_def opened_def)
  moreover have "record_bytes demo_update \<noteq> []" "length (record_bytes demo_update) \<le> MAX_UPDATE_RECORD_LENGTH"
    using demo_update_decodes length_record_bytes [of demo_update]
    by (auto simp add: decode_update_record_iff encode_update_record_iff record_length_def update_length_defs)
  ultimately show ?thesis
    using client_observes_update_outcomes [OF demo_document_history server_start, where c = demo_ctx and
        channel = demo_channel and rec = "record_bytes demo_update" and generation = 0 and broker = 0 and
        authority = "\<lparr> ca_capability_id = 5, ca_authenticator = 6 \<rparr>"] demo_update_decodes
    by auto
qed

theorem client_observes_pages_witness:
  "enumerate_updates_start_observation (relay_transport (store_reply demo_sha demo_ctx demo_channel demo_broker))
      \<lparr> ca_capability_id = 8, ca_authenticator = 9 \<rparr> 4 enumerate_start.EnumOrigin
    = Inr (ObsPage \<lparr> pr_has_more = False, pr_next_cursor = None, pr_updates = [] \<rparr>)
  \<and> client_vector_backfill (relay_transport (store_reply demo_sha demo_ctx demo_channel demo_broker))
      \<lparr> ca_capability_id = 8, ca_authenticator = 9 \<rparr> 4 [] None
    = Inr (ObsVectorPage \<lparr> pr_has_more = False, pr_next_cursor = None, pr_updates = [] \<rparr>)"
proof -
  have reads: "authorize_document demo_sha demo_granted 4 8 9 Read = document_authorization.Authorized"
    using demo_child_reads by (simp add: authorize_def split: document_authorization.splits)
  have fields: "ds_tables demo_broker = demo_granted" "ds_subscriptions demo_broker = demo_registry"
    by (simp_all add: demo_broker_def opened_def)
  have known: "recognizes demo_registry demo_channel"
    by (simp add: recognizes_def demo_registry_contexts(2) demo_channel_def)
  have high: "high_water_sequence_in demo_granted 4 = None"
    by (simp add: high_water_sequence_in_def document_updates_def demo_simps om_range_def)
  then have "fst (enumerate_authorized demo_sha demo_broker demo_channel 4 8 9 store_enumerate_start.EnumOrigin
      REPLY_PAGE_LIMIT 0 0 (\<lambda>_. None)) = Inr (EnAuthorized \<lparr> ap_page = empty_stored_update_page, ap_next_cursor = None \<rparr>)"
    "fst (vector_backfill_authorized demo_sha demo_broker demo_channel 4 8 9 [] VectorOrigin REPLY_PAGE_LIMIT 0 0 (\<lambda>_. None))
      = Inr (VbAuthorized \<lparr> av_page = \<lparr> sv_has_more = False, sv_last_examined_sequence = None, sv_updates = [] \<rparr>,
          av_next_cursor = None \<rparr>)"
    using reads known by (simp_all add: enumerate_authorized_def enumerate_origin_def vector_backfill_authorized_def
        vector_origin_def fields Let_def)
  moreover have "whole_cursor (snd (enum_mode enumerate_start.EnumOrigin))" "whole_cursor None" "oplog_version_ok []"
    by (simp_all add: whole_cursor_def enum_mode_def oplog_version_ok_def)
  ultimately show ?thesis
    using client_observes_pages [OF demo_granted_history demo_server_run, where start = enumerate_start.EnumOrigin
        and cursor = None and version = "[]" and authority = "\<lparr> ca_capability_id = 8, ca_authenticator = 9 \<rparr>"
        and d = 4 and c = demo_ctx and channel = demo_channel]
    by (simp add: demo_ctx_def vector_start_from_def enumeration_reply_def vector_reply_def empty_stored_update_page_def)
qed

theorem client_follows_its_subscriptions_witness:
  "\<exists>body reply. (CancelReplied 1 demo_cancel, body) \<in> set (cn_output demo_finished)
    \<and> round_trip (relay_transport (\<lambda>_. Some body)) demo_cancel [] = Inr reply
    \<and> decode_cancel_update_subscription (ev_payload reply) = Inr 1"
proof -
  have "CancelReplied 1 demo_cancel \<in> set (map fst (cn_output demo_finished))" by (simp add: demo_finished_output)
  then obtain body where body: "(CancelReplied 1 demo_cancel, body) \<in> set (cn_output demo_finished)" by auto
  have "length (ev_payload demo_cancel) \<le> MAX_APPLICATION_PAYLOAD_LENGTH"
    by (simp add: demo_cancel_def update_length_defs)
  then show ?thesis
    using client_follows_its_subscriptions [OF demo_connected demo_finished_run body] body by auto
qed

end
