(* ===== verification/Wire_Vectors.thy ===== *)
theory Wire_Vectors
  imports Subject_Client Gateway_Identity Gateway_Relay
begin

text \<open>
  The generator of the golden wire vectors, \<open>renee-wire-vectors/src/lib.rs\<close>: the corpus of valid
  frames, invalid payloads and invalid frames that clients test against, and its JSON text.  The
  key that signs the certificate manifest belongs to third-party code: it is a parameter, the
  public key with the signatures of a seed.
\<close>

section \<open>Names of the corpus\<close>

definition SCHEMA :: string where "SCHEMA = ''renee-wire-golden-v1''"

definition CARBON_UPDATE_V0_PROFILE :: "string list" where
  "CARBON_UPDATE_V0_PROFILE = [
    ''hello.client'',
    ''hello.server'',
    ''certificate-manifest.request'',
    ''certificate-manifest.response'',
    ''document.create.request'',
    ''document.create.response.inserted'',
    ''document.create.response.already-present'',
    ''capability.grant.request'',
    ''capability.grant.response.inserted'',
    ''capability.grant.response.already-present'',
    ''capability.revoke.request'',
    ''capability.revoke.response.inserted'',
    ''capability.revoke.response.already-present'',
    ''accept.request.authorized'',
    ''accept.response.inserted'',
    ''accept.response.already-present'',
    ''enumerate.request.origin'',
    ''enumerate.request.continue'',
    ''enumerate.request.after-tail'',
    ''enumerate.response.page'',
    ''enumerate.response.empty'',
    ''fetch.request'',
    ''fetch.response'',
    ''subscription.request'',
    ''subscription.acknowledgement'',
    ''subscription.notification'',
    ''subscription.overflow'',
    ''subscription.invalidated'',
    ''subscription.cancel.request'',
    ''subscription.cancel.response'',
    ''error.protocol.unsupported-version'',
    ''error.protocol.unsupported-profile'',
    ''error.protocol.expected-hello'',
    ''error.protocol.already-negotiated'',
    ''error.protocol.malformed-hello'',
    ''error.update.malformed'',
    ''error.update.identifier-conflict'',
    ''error.update.not-found'',
    ''error.update.not-negotiated'',
    ''error.update.invalid-cursor'',
    ''error.update.counter-exhausted'',
    ''error.update.authorization-denied'',
    ''error.update.backpressure'',
    ''error.update.invalid-loro-metadata'',
    ''error.update.invalid-or-expired-continuation'',
    ''error.update.limit-exceeded'',
    ''error.update.retired-document'',
    ''error.capability.malformed'',
    ''error.capability.authorization-denied'',
    ''error.capability.identifier-conflict'',
    ''error.capability.request-conflict'',
    ''error.capability.counter-exhausted'',
    ''error.capability.limit-exceeded'',
    ''limit.maximum-greeting-fields'',
    ''limit.maximum-application-payload'']"

definition CARBON_UPDATE_V0_INVALID_PAYLOADS :: "string list" where
  "CARBON_UPDATE_V0_INVALID_PAYLOADS = [
    ''limit.oversized-greeting-field'',
    ''subscription.request.truncated'',
    ''subscription.cancel.wrong-version'']"

definition CARBON_UPDATE_V0_INVALID_FRAMES :: "string list" where
  "CARBON_UPDATE_V0_INVALID_FRAMES = [
    ''malformed.empty-stream'',
    ''malformed.partial-prefix-1'',
    ''malformed.partial-prefix-2'',
    ''malformed.partial-prefix-3'',
    ''malformed.zero-length-body'',
    ''malformed.short-envelope'',
    ''malformed.truncated-body'',
    ''malformed.oversized-length'',
    ''malformed.invalid-magic'',
    ''malformed.trailing-byte'']"

section \<open>Vectors\<close>

record frame_vector =
  fv_category :: string
  fv_correlation_id :: id16
  fv_frame :: bytes
  fv_message_type :: u16
  fv_name :: string
  fv_payload :: bytes

record invalid_frame_vector =
  iv_expected_error :: string
  iv_frame :: bytes
  iv_name :: string

record invalid_payload_vector =
  ip_expected_error :: string
  ip_frame :: frame_vector

text \<open>\<open>GenerateError\<close>: a message, or the error of an encoder that it displays.\<close>

datatype generate_error =
    GenerateMessage string | GenerateIo io_error | GenerateLoro loro_metadata_error
  | GenerateCapability capability_codec_error | GenerateUpdate update_codec_error

type_synonym 'a generated = "generate_error + 'a"

definition frame :: "string \<Rightarrow> string \<Rightarrow> u16 \<Rightarrow> byte \<Rightarrow> bytes \<Rightarrow> frame_vector generated" where
  "frame name category message_type correlation_byte payload =
    (let correlation_id = repeated correlation_byte;
         envelope = \<lparr> ev_correlation_id = correlation_id, ev_message_type = message_type, ev_payload = payload,
           ev_version = VERSION \<rparr> in
     ok_then (map_err GenerateIo (encode_frame envelope)) (\<lambda>encoded.
     Inr \<lparr> fv_category = category, fv_correlation_id = correlation_id, fv_frame = encoded,
       fv_message_type = message_type, fv_name = name, fv_payload = payload \<rparr>))"

text \<open>A frame whose payload may fail to encode, and a list of frames: the first failure ends it.\<close>

definition frame_of :: "string \<Rightarrow> string \<Rightarrow> u16 \<Rightarrow> byte \<Rightarrow> bytes generated \<Rightarrow> frame_vector generated" where
  "frame_of name category message_type correlation_byte payload =
    ok_then payload (frame name category message_type correlation_byte)"

fun collect :: "'a generated list \<Rightarrow> 'a list generated" where
  "collect [] = Inr []"
| "collect (x # xs) = ok_then x (\<lambda>y. ok_then (collect xs) (\<lambda>ys. Inr (y # ys)))"

definition invalid :: "string \<Rightarrow> string \<Rightarrow> bytes \<Rightarrow> invalid_frame_vector" where
  "invalid name expected_error bs = \<lparr> iv_expected_error = expected_error, iv_frame = bs, iv_name = name \<rparr>"

section \<open>Fixtures\<close>

text \<open>\<open>[b; 32]\<close> as a key.\<close>

definition repeated_key :: "byte \<Rightarrow> key32" where
  "repeated_key b = be_decode (replicate 32 b)"

text \<open>Epochs last 1,209,600 seconds; the sum of two \<open>i64\<close> does not overflow on the fixtures.\<close>

definition encode_certificate_epoch :: "bytes \<Rightarrow> u32 \<Rightarrow> 64 word \<Rightarrow> byte \<Rightarrow> bytes" where
  "encode_certificate_epoch encoded epoch not_before hash_byte =
    encoded @ be_encode epoch @ be_encode not_before @ be_encode (not_before + 1209600) @ replicate 32 hash_byte"

text \<open>The key pair of a seed: its public key, and what it signs.\<close>

type_synonym key_of_seed = "bytes \<Rightarrow> (bytes \<times> (bytes \<Rightarrow> bytes)) option"

definition certificate_manifest_fixture :: "key_of_seed \<Rightarrow> (bytes \<times> bytes) generated" where
  "certificate_manifest_fixture from_seed =
    ok_then (ok_or (GenerateMessage ''fixed Ed25519 control key is invalid'') (from_seed (replicate 32 0x7a)))
      (\<lambda>(public_key, sign).
    if length public_key \<noteq> 32 then Inl (GenerateMessage ''fixed Ed25519 public key has an invalid length'')
    else
      let manifest = MANIFEST_MAGIC @ be_encode (1 :: u16);
          manifest = encode_certificate_epoch manifest 1 2000000000 0x11;
          manifest = encode_certificate_epoch manifest 2 2000604800 0x22 in
      Inr (manifest @ sign manifest, public_key))"

definition fixture_update :: "document_id \<Rightarrow> update_id \<Rightarrow> immutable_update generated" where
  "fixture_update document_id update_id =
    ok_then (map_err GenerateLoro (loro_range_new 0x0102030405060708 0 3)) (\<lambda>first.
    ok_then (map_err GenerateLoro (loro_range_new 0x1112131415161718 4 9)) (\<lambda>second.
    ok_then (map_err GenerateLoro (public_ranges_new [first, second])) (\<lambda>public_ranges.
    Inr (immutable_update_new document_id update_id public_ranges (ascii ''opaque-ciphertext-v1'')))))"

definition maximum_update_record :: "document_id \<Rightarrow> update_id \<Rightarrow> bytes generated" where
  "maximum_update_record document_id update_id =
    ok_then (map_err GenerateLoro (loro_range_new 0x7172737475767778 0 1)) (\<lambda>only.
    ok_then (map_err GenerateLoro (public_ranges_new [only])) (\<lambda>public_ranges.
    ok_then (map_err GenerateUpdate (encode_update_record
      (immutable_update_new document_id update_id public_ranges [0xa5]))) (\<lambda>minimum.
    if length minimum < 1 then Inl (GenerateMessage ''minimum update record has no payload byte'')
    else
      let overhead = length minimum - 1 in
      if MAX_APPLICATION_PAYLOAD_LENGTH < 16 + 32
      then Inl (GenerateMessage ''authority overhead exceeds application limit'')
      else if MAX_APPLICATION_PAYLOAD_LENGTH - (16 + 32) < overhead
      then Inl (GenerateMessage ''update record overhead exceeds application limit'')
      else
        let payload_length = MAX_APPLICATION_PAYLOAD_LENGTH - (16 + 32) - overhead in
        ok_then (map_err GenerateUpdate (encode_update_record
          (immutable_update_new document_id update_id public_ranges (replicate payload_length 0xa5)))) (\<lambda>encoded.
        if length encoded + 16 + 32 \<noteq> MAX_APPLICATION_PAYLOAD_LENGTH
        then Inl (GenerateMessage ''maximum authorized update does not fill one application payload'')
        else Inr encoded))))"

definition oversized_greeting_payload :: bytes where
  "oversized_greeting_payload = be_encode (257 :: u16) @ replicate 257 0x70 @ be_encode (0 :: u16)"

text \<open>The values that the frames share.\<close>

record fixtures =
  fx_document_id :: document_id
  fx_update_id :: update_id
  fx_update :: immutable_update
  fx_record :: bytes
  fx_root :: capability_authority
  fx_editor :: capability_authority
  fx_create_authority :: create_authority
  fx_cursor :: bytes
  fx_metadata :: update_metadata
  fx_certificate_manifest :: bytes
  fx_control_public_key :: bytes
  fx_subscription_id :: update_subscription_id
  fx_oplog_version :: oplog_version
  fx_vector_cursor :: bytes

text \<open>\<open>windows\<close>: all sublists of a length.\<close>

definition windows :: "nat \<Rightarrow> bytes \<Rightarrow> bytes list" where
  "windows n bs = map (\<lambda>i. take n (drop i bs)) [0..<length bs + 1 - n]"

definition generate_fixtures :: "key_of_seed \<Rightarrow> fixtures generated" where
  "generate_fixtures from_seed =
    (let document_id = repeated 0x33; update_id = repeated 0x44 in
     ok_then (fixture_update document_id update_id) (\<lambda>update.
     ok_then (map_err GenerateUpdate (encode_update_record update)) (\<lambda>rec.
     let root = \<lparr> ca_capability_id = repeated 0x55, ca_authenticator = repeated_key 0x56 \<rparr>;
         editor = \<lparr> ca_capability_id = repeated 0x57, ca_authenticator = repeated_key 0x58 \<rparr>;
         create_authority = \<lparr> cr_create_authority_id = repeated 0x53, cr_authenticator = repeated_key 0x54 \<rparr>;
         cursor = replicate 32 0x69 in
     if be_encode document_id \<in> set (windows IDENTIFIER_LENGTH cursor) \<or> [0, 0, 0, 0, 0, 0, 0, 3] \<in> set (windows 8 cursor)
     then Inl (GenerateMessage ''opaque golden cursor embeds a document or acceptance position'')
     else
     ok_then (u32_of_nat (GenerateMessage ''out of range integral type conversion attempted'')
       (length (iu_encrypted_payload update))) (\<lambda>encrypted_payload_length.
     let metadata = \<lparr> um_encrypted_payload_length = encrypted_payload_length,
           um_public_loro_ranges = iu_public_loro_ranges update, um_update_id = update_id \<rparr> in
     ok_then (certificate_manifest_fixture from_seed) (\<lambda>(certificate_manifest, control_public_key).
     let subscription_id = repeated 0x60 in
     ok_then (map_err GenerateLoro (version_entry_new 0x0102030405060708 3)) (\<lambda>entry.
     ok_then (map_err GenerateLoro (oplog_version_new [entry])) (\<lambda>oplog_version.
     let vector_cursor = replicate 32 0x6a in
     Inr \<lparr> fx_document_id = document_id, fx_update_id = update_id, fx_update = update, fx_record = rec, fx_root = root,
       fx_editor = editor, fx_create_authority = create_authority, fx_cursor = cursor, fx_metadata = metadata,
       fx_certificate_manifest = certificate_manifest, fx_control_public_key = control_public_key,
       fx_subscription_id = subscription_id, fx_oplog_version = oplog_version, fx_vector_cursor = vector_cursor \<rparr>)))))))"

section \<open>The valid frames\<close>

definition hello_frames :: "fixtures \<Rightarrow> frame_vector generated list" where
  "hello_frames fx = [
    frame_of ''hello.client'' ''hello'' CLIENT_HELLO 0x11
      (map_err GenerateIo (encode_greeting PROFILE_ID CARBON_BANNER)),
    frame_of ''hello.server'' ''hello'' SERVER_HELLO 0x11
      (map_err GenerateIo (encode_greeting PROFILE_ID RENEE_BANNER)),
    frame ''certificate-manifest.request'' ''credentials'' CERTIFICATE_MANIFEST 0x18 [],
    frame ''certificate-manifest.response'' ''credentials'' CERTIFICATE_MANIFEST_RESPONSE 0x18
      (fx_certificate_manifest fx)]"

definition control_frames :: "fixtures \<Rightarrow> frame_vector generated list" where
  "control_frames fx = [
    frame ''document.create.request'' ''capability'' CREATE_DOCUMENT 0x20 (encode_create_document_request
      \<lparr> cd_create_authority = fx_create_authority fx, cd_request_id = repeated 0x52,
        cd_document_id = fx_document_id fx, cd_root = fx_root fx \<rparr>),
    frame ''document.create.response.inserted'' ''capability'' CREATE_DOCUMENT_RESPONSE 0x20
      (encode_create_document_response CreateInserted),
    frame ''document.create.response.already-present'' ''capability'' CREATE_DOCUMENT_RESPONSE 0x20
      (encode_create_document_response CreateAlreadyPresent),
    frame ''capability.grant.request'' ''capability'' GRANT_CAPABILITY 0x21 (encode_grant_capability_request
      \<lparr> gc_document_id = fx_document_id fx, gc_issuer = fx_root fx, gc_request_id = repeated 0x59,
        gc_descendant = fx_editor fx, gc_operations = one Update \<rparr>),
    frame ''capability.grant.response.inserted'' ''capability'' GRANT_CAPABILITY_RESPONSE 0x21
      (encode_control_mutation_response ControlInserted),
    frame ''capability.grant.response.already-present'' ''capability'' GRANT_CAPABILITY_RESPONSE 0x21
      (encode_control_mutation_response ControlAlreadyPresent),
    frame ''capability.revoke.request'' ''capability'' REVOKE_CAPABILITY 0x23 (encode_revoke_capability_request
      \<lparr> rc_document_id = fx_document_id fx, rc_issuer = fx_root fx, rc_request_id = repeated 0x5a,
        rc_target_capability_id = ca_capability_id (fx_editor fx) \<rparr>),
    frame ''capability.revoke.response.inserted'' ''capability'' REVOKE_CAPABILITY_RESPONSE 0x23
      (encode_control_mutation_response ControlInserted),
    frame ''capability.revoke.response.already-present'' ''capability'' REVOKE_CAPABILITY_RESPONSE 0x23
      (encode_control_mutation_response ControlAlreadyPresent)]"

definition accept_frames :: "fixtures \<Rightarrow> frame_vector generated list" where
  "accept_frames fx = [
    frame_of ''accept.request.authorized'' ''accept'' ACCEPT_UPDATE 0x22 (map_err GenerateCapability
      (encode_authorized_update_request \<lparr> au_authority = fx_root fx, au_encoded_record = fx_record fx \<rparr>)),
    frame ''accept.response.inserted'' ''accept'' ACCEPT_UPDATE_RESPONSE 0x22 (encode_accept_response AcceptInserted),
    frame ''accept.response.already-present'' ''accept'' ACCEPT_UPDATE_RESPONSE 0x22
      (encode_accept_response AcceptAlreadyPresent)]"

definition enumerate_frames :: "fixtures \<Rightarrow> frame_vector generated list" where
  "enumerate_frames fx = [
    frame_of ''enumerate.request.origin'' ''enumerate'' ENUMERATE_UPDATES 0x31 (map_err GenerateUpdate
      (encode_enumerate_request \<lparr> er_authority = fx_root fx, er_document_id = fx_document_id fx,
        er_start = enumerate_start.EnumOrigin \<rparr>)),
    frame_of ''enumerate.request.continue'' ''enumerate'' ENUMERATE_UPDATES 0x32 (map_err GenerateUpdate
      (encode_enumerate_request \<lparr> er_authority = fx_root fx, er_document_id = fx_document_id fx,
        er_start = enumerate_start.EnumContinue (fx_cursor fx) \<rparr>)),
    frame_of ''enumerate.request.after-tail'' ''enumerate'' ENUMERATE_UPDATES 0x33 (map_err GenerateUpdate
      (encode_enumerate_request \<lparr> er_authority = fx_root fx, er_document_id = fx_document_id fx,
        er_start = enumerate_start.EnumAfterTail (fx_cursor fx) \<rparr>)),
    frame_of ''enumerate.response.page'' ''enumerate'' ENUMERATE_UPDATES_RESPONSE 0x31 (map_err GenerateUpdate
      (encode_enumerate_response \<lparr> pr_has_more = True, pr_next_cursor = Some (fx_cursor fx),
        pr_updates = [fx_metadata fx] \<rparr>)),
    frame_of ''enumerate.response.empty'' ''enumerate'' ENUMERATE_UPDATES_RESPONSE 0x34 (map_err GenerateUpdate
      (encode_enumerate_response \<lparr> pr_has_more = False, pr_next_cursor = None, pr_updates = [] \<rparr>))]"

definition vector_frames :: "fixtures \<Rightarrow> frame_vector generated list" where
  "vector_frames fx = [
    frame_of ''vector-backfill.request.origin'' ''vector-backfill'' VECTOR_BACKFILL 0x35 (map_err GenerateUpdate
      (encode_vector_backfill_request \<lparr> vr_authority = fx_root fx, vr_document_id = fx_document_id fx,
        vr_oplog_version = fx_oplog_version fx, vr_start = VecOrigin \<rparr>)),
    frame_of ''vector-backfill.request.continue'' ''vector-backfill'' VECTOR_BACKFILL 0x36 (map_err GenerateUpdate
      (encode_vector_backfill_request \<lparr> vr_authority = fx_root fx, vr_document_id = fx_document_id fx,
        vr_oplog_version = fx_oplog_version fx, vr_start = VecContinue (fx_vector_cursor fx) \<rparr>)),
    frame_of ''vector-backfill.response.page'' ''vector-backfill'' VECTOR_BACKFILL_RESPONSE 0x35 (map_err GenerateUpdate
      (encode_vector_backfill_response \<lparr> pr_has_more = True, pr_next_cursor = Some (fx_vector_cursor fx),
        pr_updates = [fx_metadata fx] \<rparr>)),
    frame ''fetch.request'' ''fetch'' FETCH_UPDATE 0x41 (encode_fetch_request \<lparr> fr_authority = fx_root fx,
      fr_document_id = fx_document_id fx, fr_update_id = fx_update_id fx \<rparr>),
    frame_of ''fetch.response'' ''fetch'' FETCH_UPDATE_RESPONSE 0x41 (map_err GenerateUpdate
      (encode_fetch_response (iu_encrypted_payload (fx_update fx))))]"

definition subscription_frames :: "fixtures \<Rightarrow> frame_vector generated list" where
  "subscription_frames fx = [
    frame ''subscription.request'' ''subscription'' SUBSCRIBE_UPDATES 0x42 (encode_subscribe_updates_request
      \<lparr> su_authority = fx_root fx, su_document_id = fx_document_id fx \<rparr>),
    frame ''subscription.acknowledgement'' ''subscription'' SUBSCRIBE_UPDATES_ACK 0x42
      (encode_subscribe_updates_ack (fx_subscription_id fx)),
    frame ''subscription.notification'' ''subscription'' UPDATE_NOTIFICATION 0x42 (encode_update_notification
      \<lparr> un_subscription_id = fx_subscription_id fx, un_update_id = fx_update_id fx \<rparr>),
    frame ''subscription.overflow'' ''subscription'' UPDATE_SUBSCRIPTION_OVERFLOW 0x42
      (encode_update_subscription_overflow (fx_subscription_id fx)),
    frame ''subscription.invalidated'' ''subscription'' UPDATE_SUBSCRIPTION_INVALIDATED 0x42
      (encode_update_subscription_invalidated (fx_subscription_id fx)),
    frame ''subscription.cancel.request'' ''subscription'' CANCEL_UPDATE_SUBSCRIPTION 0x43
      (encode_cancel_update_subscription (fx_subscription_id fx)),
    frame ''subscription.cancel.response'' ''subscription'' CANCEL_UPDATE_SUBSCRIPTION_RESPONSE 0x43
      (encode_cancel_update_subscription (fx_subscription_id fx))]"

definition protocol_error_frames :: "frame_vector generated list" where
  "protocol_error_frames = map (\<lambda>(name, payload). frame name ''errors'' PROTOCOL_ERROR 0x50 payload)
    [(''error.protocol.unsupported-version'', ERROR_UNSUPPORTED_VERSION),
     (''error.protocol.unsupported-profile'', ERROR_UNSUPPORTED_PROFILE),
     (''error.protocol.expected-hello'', ERROR_EXPECTED_HELLO),
     (''error.protocol.already-negotiated'', ERROR_ALREADY_NEGOTIATED),
     (''error.protocol.malformed-hello'', ERROR_MALFORMED_HELLO)]"

definition update_error_frames :: "frame_vector generated list" where
  "update_error_frames = map (\<lambda>(name, error). frame name ''errors'' UPDATE_ERROR 0x51 (encode_update_error error))
    [(''error.update.malformed'', UpMalformed),
     (''error.update.identifier-conflict'', UpIdentifierConflict),
     (''error.update.not-found'', UpNotFound),
     (''error.update.not-negotiated'', UpNotNegotiated),
     (''error.update.invalid-cursor'', UpInvalidCursor),
     (''error.update.counter-exhausted'', UpCounterExhausted),
     (''error.update.authorization-denied'', UpAuthorizationDenied),
     (''error.update.backpressure'', UpBackpressure),
     (''error.update.invalid-loro-metadata'', UpInvalidLoroMetadata),
     (''error.update.invalid-or-expired-continuation'', UpInvalidOrExpiredContinuation),
     (''error.update.limit-exceeded'', UpLimitExceeded),
     (''error.update.retired-document'', UpRetiredDocument)]"

definition capability_error_frames :: "frame_vector generated list" where
  "capability_error_frames = map (\<lambda>(name, error). frame name ''errors'' CAPABILITY_ERROR 0x52 (encode_capability_error error))
    [(''error.capability.malformed'', CapMalformed),
     (''error.capability.authorization-denied'', CapAuthorizationDenied),
     (''error.capability.identifier-conflict'', CapIdentifierConflict),
     (''error.capability.request-conflict'', CapRequestConflict),
     (''error.capability.counter-exhausted'', CapCounterExhausted),
     (''error.capability.limit-exceeded'', CapLimitExceeded)]"

definition limit_frames :: "fixtures \<Rightarrow> frame_vector generated list" where
  "limit_frames fx = [
    frame_of ''limit.maximum-greeting-fields'' ''limits'' CLIENT_HELLO 0x61
      (map_err GenerateIo (encode_greeting (replicate 256 0x70) (replicate 256 0x62))),
    frame_of ''limit.maximum-application-payload'' ''limits'' ACCEPT_UPDATE 0x62
      (ok_then (maximum_update_record (fx_document_id fx) (repeated 0x66)) (\<lambda>maximum_record.
        map_err GenerateCapability (encode_authorized_update_request
          \<lparr> au_authority = fx_root fx, au_encoded_record = maximum_record \<rparr>)))]"

definition golden_frames :: "fixtures \<Rightarrow> frame_vector list generated" where
  "golden_frames fx = collect (hello_frames fx @ control_frames fx @ accept_frames fx @ enumerate_frames fx
    @ vector_frames fx @ subscription_frames fx @ protocol_error_frames @ update_error_frames
    @ capability_error_frames @ limit_frames fx)"

section \<open>The invalid ones\<close>

definition invalid_payload :: "string \<Rightarrow> frame_vector generated \<Rightarrow> invalid_payload_vector generated" where
  "invalid_payload expected_error v =
    ok_then v (\<lambda>v. Inr \<lparr> ip_expected_error = expected_error, ip_frame = v \<rparr>)"

definition invalid_requests :: "fixtures \<Rightarrow> invalid_payload_vector generated list" where
  "invalid_requests fx =
    (let wrong_subscription_version = encode_cancel_update_subscription (fx_subscription_id fx) in [
    invalid_payload ''greeting-field-too-long''
      (frame ''limit.oversized-greeting-field'' ''limits'' CLIENT_HELLO 0x63 oversized_greeting_payload),
    invalid_payload ''subscription-payload-truncated''
      (frame ''subscription.request.truncated'' ''subscription'' SUBSCRIBE_UPDATES 0x64 [0, 1, 0]),
    invalid_payload ''unsupported-subscription-payload-version''
      (frame ''subscription.cancel.wrong-version'' ''subscription'' CANCEL_UPDATE_SUBSCRIPTION 0x65
        (wrong_subscription_version[1 := wrong_subscription_version ! 1 XOR 1]))])"

definition invalid_pages :: "fixtures \<Rightarrow> invalid_payload_vector generated list" where
  "invalid_pages fx = [
    invalid_payload ''enumeration-pagination-state''
      (frame ''enumerate.response.more-without-cursor'' ''enumerate'' ENUMERATE_UPDATES_RESPONSE 0x66 [1, 0, 0, 0, 0]),
    ok_then (map_err GenerateUpdate (encode_enumerate_response \<lparr> pr_has_more = False,
        pr_next_cursor = Some (replicate 32 0x69), pr_updates = [fx_metadata fx] \<rparr>)) (\<lambda>valid_terminal.
      invalid_payload ''enumeration-pagination-state''
        (frame ''enumerate.response.nonempty-terminal-without-cursor'' ''enumerate'' ENUMERATE_UPDATES_RESPONSE 0x67
          ([0, 0, 0] @ drop 35 valid_terminal))),
    invalid_payload ''vector-pagination-state''
      (frame ''vector-backfill.response.more-without-cursor'' ''vector-backfill'' VECTOR_BACKFILL_RESPONSE 0x68
        [1, 0, 0, 0, 0]),
    invalid_payload ''vector-pagination-state''
      (frame ''vector-backfill.response.terminal-with-cursor'' ''vector-backfill'' VECTOR_BACKFILL_RESPONSE 0x69
        ([0, 0, 32] @ replicate 32 0x6a @ be_encode (0 :: u16)))]"

definition invalid_payload_vectors :: "fixtures \<Rightarrow> invalid_payload_vector list generated" where
  "invalid_payload_vectors fx = collect (invalid_requests fx @ invalid_pages fx)"

definition invalid_frame_vectors :: "frame_vector \<Rightarrow> invalid_frame_vector list generated" where
  "invalid_frame_vectors first =
    (if length (fv_frame first) \<le> 4 then Inl (GenerateMessage ''hello frame has no magic byte'')
     else
       let invalid_magic = (fv_frame first)[4 := fv_frame first ! 4 XOR 0xff] in
       if fv_frame first = [] then Inl (GenerateMessage ''hello frame cannot be truncated'')
       else
         let truncated_body = butlast (fv_frame first);
             trailing = fv_frame first @ [0xff];
             short_envelope = be_encode (23 :: u32) @ replicate 23 0 in
         ok_then (u32_of_nat (GenerateMessage ''out of range integral type conversion attempted'') MAX_BODY_LENGTH)
           (\<lambda>max_body_length.
         ok_then (ok_or (GenerateMessage ''maximum body length cannot advance'') (checked_add max_body_length 1))
           (\<lambda>oversized_length.
         Inr [
           invalid ''malformed.empty-stream'' ''truncated-frame'' [],
           invalid ''malformed.partial-prefix-1'' ''truncated-frame'' [0],
           invalid ''malformed.partial-prefix-2'' ''truncated-frame'' [0, 0],
           invalid ''malformed.partial-prefix-3'' ''truncated-frame'' [0, 0, 0],
           invalid ''malformed.zero-length-body'' ''malformed-envelope'' (be_encode (0 :: u32)),
           invalid ''malformed.short-envelope'' ''malformed-envelope'' short_envelope,
           invalid ''malformed.truncated-body'' ''truncated-frame'' truncated_body,
           invalid ''malformed.oversized-length'' ''frame-too-long'' (be_encode oversized_length),
           invalid ''malformed.invalid-magic'' ''malformed-envelope'' invalid_magic,
           invalid ''malformed.trailing-byte'' ''trailing-bytes'' trailing])))"

section \<open>The text\<close>

text \<open>\<open>from_digit\<close> in base 16, for a nibble always a digit.\<close>

definition vector_hex_digit :: "byte \<Rightarrow> char" where
  "vector_hex_digit nibble = (if unat nibble < 10 then char_of (48 + unat nibble)
    else if unat nibble < 16 then char_of (87 + unat nibble) else CHR ''?'')"

definition vector_hex :: "bytes \<Rightarrow> string" where
  "vector_hex bs = concat (map (\<lambda>b. [vector_hex_digit (drop_bit 4 b), vector_hex_digit (b AND 0x0f)]) bs)"

definition quoted :: "string \<Rightarrow> string" where
  "quoted text = [CHR 0x22] @ text @ [CHR 0x22]"

definition newline :: string where "newline = [CHR 0x0A]"

text \<open>The separator after an element: a comma but for the last.\<close>

definition separated :: "string list \<Rightarrow> string" where
  "separated elements = concat (map (\<lambda>i. elements ! i
    @ (if i = length elements - 1 then newline else '','' @ newline)) [0..<length elements])"

definition render_name_list :: "string list \<Rightarrow> string \<Rightarrow> string" where
  "render_name_list names indent = separated (map (\<lambda>name. indent @ quoted name) names)"

definition render_frame :: "frame_vector \<Rightarrow> string \<Rightarrow> string" where
  "render_frame v indent = indent @ ''{'' @ quoted ''name'' @ '':'' @ quoted (fv_name v)
    @ '','' @ quoted ''category'' @ '':'' @ quoted (fv_category v)
    @ '','' @ quoted ''message_type'' @ '':'' @ decimal (unat (fv_message_type v))
    @ '','' @ quoted ''correlation_id_hex'' @ '':'' @ quoted (vector_hex (be_encode (fv_correlation_id v)))
    @ '','' @ quoted ''payload_hex'' @ '':'' @ quoted (vector_hex (fv_payload v))
    @ '','' @ quoted ''frame_hex'' @ '':'' @ quoted (vector_hex (fv_frame v)) @ ''}''"

definition render_invalid_payload :: "invalid_payload_vector \<Rightarrow> string" where
  "render_invalid_payload v = ''    {'' @ quoted ''expected_error'' @ '':'' @ quoted (ip_expected_error v)
    @ '','' @ quoted ''vector'' @ '':'' @ render_frame (ip_frame v) [] @ ''}''"

definition render_invalid_frame :: "invalid_frame_vector \<Rightarrow> string" where
  "render_invalid_frame v = ''    {'' @ quoted ''name'' @ '':'' @ quoted (iv_name v)
    @ '','' @ quoted ''expected_error'' @ '':'' @ quoted (iv_expected_error v)
    @ '','' @ quoted ''frame_hex'' @ '':'' @ quoted (vector_hex (iv_frame v)) @ ''}''"

definition render :: "frame_vector list \<Rightarrow> invalid_payload_vector list \<Rightarrow> invalid_frame_vector list
    \<Rightarrow> bytes \<Rightarrow> bytes \<Rightarrow> string" where
  "render frames invalid_payloads invalid_frames control_public_key certificate_manifest =
    ''{'' @ newline @ ''  '' @ quoted ''schema'' @ '': '' @ quoted SCHEMA @ '','' @ newline
    @ ''  '' @ quoted ''max_body_length'' @ '': 4096,'' @ newline
    @ ''  '' @ quoted ''max_application_payload_length'' @ '': 4072,'' @ newline
    @ ''  '' @ quoted ''max_update_record_length'' @ '': 4024,'' @ newline
    @ ''  '' @ quoted ''certificate_control_public_key_hex'' @ '': '' @ quoted (vector_hex control_public_key) @ '','' @ newline
    @ ''  '' @ quoted ''certificate_manifest_hex'' @ '': '' @ quoted (vector_hex certificate_manifest) @ '','' @ newline
    @ ''  '' @ quoted ''profiles'' @ '': {'' @ newline
    @ ''    '' @ quoted ''carbon-update-v0'' @ '': {'' @ newline
    @ ''      '' @ quoted ''frames'' @ '': ['' @ newline
    @ render_name_list CARBON_UPDATE_V0_PROFILE ''        ''
    @ ''      ],'' @ newline @ ''      '' @ quoted ''invalid_payloads'' @ '': ['' @ newline
    @ render_name_list CARBON_UPDATE_V0_INVALID_PAYLOADS ''        ''
    @ ''      ],'' @ newline @ ''      '' @ quoted ''invalid_frames'' @ '': ['' @ newline
    @ render_name_list CARBON_UPDATE_V0_INVALID_FRAMES ''        ''
    @ ''      ]'' @ newline @ ''    }'' @ newline @ ''  },'' @ newline
    @ ''  '' @ quoted ''frames'' @ '': ['' @ newline
    @ separated (map (\<lambda>v. render_frame v ''    '') frames)
    @ ''  ],'' @ newline @ ''  '' @ quoted ''invalid_payloads'' @ '': ['' @ newline
    @ separated (map render_invalid_payload invalid_payloads)
    @ ''  ],'' @ newline @ ''  '' @ quoted ''invalid_frames'' @ '': ['' @ newline
    @ separated (map render_invalid_frame invalid_frames)
    @ ''  ]'' @ newline @ ''}'' @ newline"

section \<open>Generation\<close>

text \<open>Every name of a profile is that of a vector.\<close>

definition profile_covered :: "string \<Rightarrow> string list \<Rightarrow> string list \<Rightarrow> unit generated" where
  "profile_covered complaint profile names = (case find (\<lambda>name. name \<notin> set names) profile of
      None \<Rightarrow> Inr () | Some name \<Rightarrow> Inl (GenerateMessage (complaint @ name)))"

definition generate :: "key_of_seed \<Rightarrow> string generated" where
  "generate from_seed =
    ok_then (generate_fixtures from_seed) (\<lambda>fx.
    ok_then (golden_frames fx) (\<lambda>frames.
    ok_then (invalid_payload_vectors fx) (\<lambda>invalid_payloads.
    ok_then (case frames of [] \<Rightarrow> Inl (GenerateMessage ''golden frame corpus unexpectedly has no first vector'')
      | first # _ \<Rightarrow> invalid_frame_vectors first) (\<lambda>invalid_frames.
    ok_then (profile_covered ''Carbon golden profile names absent frame '' CARBON_UPDATE_V0_PROFILE
      (map fv_name frames)) (\<lambda>_.
    ok_then (profile_covered ''Carbon golden profile names absent invalid payload '' CARBON_UPDATE_V0_INVALID_PAYLOADS
      (map (\<lambda>v. fv_name (ip_frame v)) invalid_payloads)) (\<lambda>_.
    ok_then (profile_covered ''Carbon golden profile names absent invalid frame '' CARBON_UPDATE_V0_INVALID_FRAMES
      (map iv_name invalid_frames)) (\<lambda>_.
    Inr (render frames invalid_payloads invalid_frames (fx_control_public_key fx) (fx_certificate_manifest fx)))))))))"

section \<open>The maintenance command\<close>

text \<open>\<open>src/tools/renee-wire-vectors/src/main.rs\<close>: the file of the corpus is checked, or written.\<close>

datatype vectors_mode = Check | Write

datatype vectors_error =
    UnexpectedMode | MoreThanOneMode | GenerateFailed generate_error | UnreadableVectors | VectorsDiffer

definition parse_mode :: "bytes list \<Rightarrow> vectors_error + vectors_mode" where
  "parse_mode arguments =
    (let (first, rest) = (case drop 1 arguments of [] \<Rightarrow> (None, []) | value # rest \<Rightarrow> (Some value, rest)) in
     ok_then (case first of
         None \<Rightarrow> Inr Check
       | Some value \<Rightarrow> if value = ascii ''--check'' then Inr Check
           else if value = ascii ''--write'' then Inr Write else Inl UnexpectedMode) (\<lambda>mode.
     if rest \<noteq> [] then Inl MoreThanOneMode else Inr mode))"

text \<open>The text of the file, if it can be read, before and after the command.\<close>

definition vectors_main :: "key_of_seed \<Rightarrow> bytes list \<Rightarrow> string option \<Rightarrow> vectors_error + string option" where
  "vectors_main from_seed arguments checked_in =
    ok_then (parse_mode arguments) (\<lambda>mode.
    ok_then (map_err GenerateFailed (generate from_seed)) (\<lambda>generated.
    case mode of
      Check \<Rightarrow> ok_then (ok_or UnreadableVectors checked_in) (\<lambda>text.
        if text \<noteq> generated then Inl VectorsDiffer else Inr checked_in)
    | Write \<Rightarrow> Inr (Some generated)))"

text \<open>A corpus that was written is found unchanged.\<close>

lemma written_corpus_checks:
  assumes "vectors_main from_seed [program, ascii ''--write''] before = Inr written"
  shows "vectors_main from_seed [program] written = Inr written"
    and "vectors_main from_seed [program, ascii ''--check''] written = Inr written"
  using assms
  by (auto simp add: vectors_main_def parse_mode_def ok_then_Inr_iff map_err_Inr_iff ok_or_def ascii_def)

end
