(* ===== verification/Vector_Conformance.thy ===== *)
theory Vector_Conformance
  imports Wire_Vectors Subject_Updates
begin

text \<open>
  The golden corpus against the services: the generator succeeds, the readers of this repository
  accept every valid vector, and refuse every invalid one for the reason it is named after.
\<close>

section \<open>Verdicts\<close>

text \<open>
  What the reader of a public request stream and the envelope decoder make of a stream that the
  client has finished; a stream that ends before its first byte carries no frame and is no error.
\<close>

definition frame_verdict :: "bytes \<Rightarrow> string" where
  "frame_verdict stream = (case public_request True stream of
      Inl (RequestIo UnexpectedEof) \<Rightarrow> ''truncated-frame''
    | Inl (RequestIo InvalidData) \<Rightarrow> ''frame-too-long''
    | Inl (RequestIo InvalidInput) \<Rightarrow> ''other-io-error''
    | Inl TrailingBytes \<Rightarrow> ''trailing-bytes''
    | Inl RequestTimedOut \<Rightarrow> ''timed-out''
    | Inr None \<Rightarrow> ''no-frame''
    | Inr (Some body) \<Rightarrow> (case decode_body body of Inl _ \<Rightarrow> ''malformed-envelope'' | Inr _ \<Rightarrow> ''accepted''))"

definition verdict :: "('e \<Rightarrow> string) \<Rightarrow> 'e + 'a \<Rightarrow> string" where
  "verdict reason decoded = (case decoded of Inl e \<Rightarrow> reason e | Inr _ \<Rightarrow> ''accepted'')"

definition greeting_reason :: "greeting_decode_error \<Rightarrow> string" where
  "greeting_reason e = (if e = FieldTooLong then ''greeting-field-too-long'' else ''other-greeting-error'')"

definition subscription_reason :: "update_codec_error \<Rightarrow> string" where
  "subscription_reason e = (if e = UcTruncated then ''subscription-payload-truncated''
    else if e = UcUnsupportedSubscriptionVersion then ''unsupported-subscription-payload-version''
    else ''other-subscription-error'')"

definition page_reason :: "string \<Rightarrow> update_codec_error \<Rightarrow> string" where
  "page_reason pagination e = (if e = UcInvalidCursor then pagination else ''other-page-error'')"

text \<open>
  The decoder of a payload, by the type of its message; the numbers that capability messages
  share with subscriptions are told apart by the category.
\<close>

definition subscription_verdict :: "u16 \<Rightarrow> bytes \<Rightarrow> string" where
  "subscription_verdict kind payload =
    (if kind = SUBSCRIBE_UPDATES then verdict subscription_reason (decode_subscribe_updates_request payload)
     else if kind = UPDATE_NOTIFICATION then verdict subscription_reason (decode_update_notification payload)
     else verdict subscription_reason (decode_subscription_identity payload))"

definition control_verdict :: "u16 \<Rightarrow> bytes \<Rightarrow> string" where
  "control_verdict kind payload = verdict (\<lambda>_. ''other-control-error'') (
     if kind = CREATE_DOCUMENT then map_sum id (\<lambda>_. ()) (decode_create_document_request payload)
     else if kind = CREATE_DOCUMENT_RESPONSE then map_sum id (\<lambda>_. ()) (decode_create_document_response payload)
     else if kind = GRANT_CAPABILITY then map_sum id (\<lambda>_. ()) (decode_grant_capability_request payload)
     else if kind = REVOKE_CAPABILITY then map_sum id (\<lambda>_. ()) (decode_revoke_capability_request payload)
     else map_sum id (\<lambda>_. ()) (decode_control_mutation_response payload))"

definition page_verdict :: "u16 \<Rightarrow> bytes \<Rightarrow> string" where
  "page_verdict kind payload =
    (if kind = ENUMERATE_UPDATES then verdict (\<lambda>_. ''other-page-error'') (decode_enumerate_request payload)
     else if kind = ENUMERATE_UPDATES_RESPONSE
       then verdict (page_reason ''enumeration-pagination-state'') (decode_enumerate_response payload)
     else if kind = VECTOR_BACKFILL then verdict (\<lambda>_. ''other-page-error'') (decode_vector_backfill_request payload)
     else verdict (page_reason ''vector-pagination-state'') (decode_vector_backfill_response payload))"

text \<open>A protocol error is read by the client that waits for the answer to its hello.\<close>

definition protocol_verdict :: "bytes \<Rightarrow> string" where
  "protocol_verdict payload = verdict (\<lambda>_. ''unknown-negotiation-rejection'') (
    ok_then (map_err ClientIo (encode_frame \<lparr> ev_correlation_id = repeated 17, ev_message_type = PROTOCOL_ERROR,
      ev_payload = payload, ev_version = VERSION \<rparr>)) (\<lambda>reply. client_negotiate (\<lambda>_. Inr reply)))"

definition error_verdict :: "u16 \<Rightarrow> bytes \<Rightarrow> string" where
  "error_verdict kind payload =
    (if kind = PROTOCOL_ERROR then protocol_verdict payload
     else if kind = UPDATE_ERROR then verdict (\<lambda>_. ''unknown-error'') (decode_update_error payload)
     else verdict (\<lambda>_. ''unknown-error'') (decode_capability_error payload))"

definition update_verdict :: "u16 \<Rightarrow> bytes \<Rightarrow> string" where
  "update_verdict kind payload = verdict (\<lambda>_. ''other-update-error'') (
     if kind = ACCEPT_UPDATE_RESPONSE then map_sum id (\<lambda>_. ()) (decode_accept_response payload)
     else if kind = FETCH_UPDATE then map_sum id (\<lambda>_. ()) (decode_fetch_request payload)
     else map_sum id (\<lambda>_. ()) (decode_fetch_response payload))"

text \<open>An accept request is the one the store would go on with: its record decodes, too.\<close>

definition accept_verdict :: "bytes \<Rightarrow> string" where
  "accept_verdict payload = verdict (\<lambda>_. ''other-update-error'') (
    ok_then (map_err (\<lambda>_. ()) (decode_authorized_update_request payload)) (\<lambda>authorized.
      map_err (\<lambda>_. ()) (decode_update_record (au_encoded_record authorized))))"

text \<open>
  The request for the manifest is recognized by the gateway, which answers it; the manifest is
  read by the holder of the control key, as at a start of the gateway.
\<close>

definition credentials_verdict :: "('key, 'leaf) identity_services \<Rightarrow> 'key \<Rightarrow> u16 \<Rightarrow> bytes \<Rightarrow> string" where
  "credentials_verdict svc control kind payload =
    (if kind = CERTIFICATE_MANIFEST_RESPONSE
     then verdict (\<lambda>_. ''other-credentials-error'') (decode_and_verify_manifest svc payload control)
     else verdict (\<lambda>_. ''other-credentials-error'') (
       ok_then (encode_body \<lparr> ev_correlation_id = 0, ev_message_type = kind, ev_payload = payload,
         ev_version = VERSION \<rparr>) (\<lambda>body.
       ok_then (certificate_manifest_response body []) (\<lambda>answer. ok_or InvalidData answer))))"

definition payload_verdict :: "('key, 'leaf) identity_services \<Rightarrow> 'key \<Rightarrow> string \<Rightarrow> u16 \<Rightarrow> bytes \<Rightarrow> string" where
  "payload_verdict svc control category kind payload =
    (if kind \<in> {CLIENT_HELLO, SERVER_HELLO} then verdict greeting_reason (decode_greeting payload)
     else if kind = ACCEPT_UPDATE then accept_verdict payload
     else if category = ''credentials'' then credentials_verdict svc control kind payload
     else if category = ''subscription'' then subscription_verdict kind payload
     else if category = ''capability'' then control_verdict kind payload
     else if category = ''errors'' then error_verdict kind payload
     else if kind \<in> {ACCEPT_UPDATE_RESPONSE, FETCH_UPDATE, FETCH_UPDATE_RESPONSE} then update_verdict kind payload
     else page_verdict kind payload)"

text \<open>
  Every payload of the corpus is to be accepted but one: the client knows no rejection of a
  malformed hello, which it never sends.
\<close>

definition expected_verdict :: "string \<Rightarrow> string" where
  "expected_verdict name =
    (if name = ''error.protocol.malformed-hello'' then ''unknown-negotiation-rejection'' else ''accepted'')"

lemma expected_verdict_other [simp]: "name \<noteq> ''error.protocol.malformed-hello'' \<Longrightarrow> expected_verdict name = ''accepted''"
  by (simp add: expected_verdict_def)

definition conforms :: "('key, 'leaf) identity_services \<Rightarrow> 'key \<Rightarrow> frame_vector generated \<Rightarrow> bool" where
  "conforms svc control r = (case r of Inl _ \<Rightarrow> False | Inr v \<Rightarrow> frame_verdict (fv_frame v) = ''accepted''
    \<and> payload_verdict svc control (fv_category v) (fv_message_type v) (fv_payload v) = expected_verdict (fv_name v))"

section \<open>Frames\<close>

lemma framed_read: "length body \<le> MAX_BODY_LENGTH \<Longrightarrow> public_request True (framed body) = Inr (Some body)"
  using read_body_append [of body "[]"] by (simp add: public_request_def framed_def require_request_eof_def)

lemma frame_made:
  assumes "length payload \<le> MAX_APPLICATION_PAYLOAD_LENGTH"
  obtains v body where "frame name category kind b payload = Inr v" "fv_category v = category" "fv_message_type v = kind"
    "fv_payload v = payload" "fv_name v = name" "fv_frame v = framed body" "length body = length payload + 24"
    "decode_body body = Inr \<lparr> ev_correlation_id = repeated b, ev_message_type = kind, ev_payload = payload,
      ev_version = VERSION \<rparr>"
proof -
  let ?e = "\<lparr> ev_correlation_id = repeated b, ev_message_type = kind, ev_payload = payload, ev_version = VERSION \<rparr>"
  obtain body where body: "encode_body ?e = Inr body" using assms by (auto simp add: encode_body_Inr_iff)
  have "encode_frame ?e = Inr (framed body)" using body by (simp add: encode_frame_iff framed_def)
  then show thesis
    using body encode_body_length [OF body]
    by (intro that [of "\<lparr> fv_category = category, fv_correlation_id = repeated b, fv_frame = framed body,
        fv_message_type = kind, fv_name = name, fv_payload = payload \<rparr>" body])
      (simp_all add: frame_def map_err_def decode_body_iff ENVELOPE_HEADER_LENGTH_def)
qed

lemma frame_conforms:
  assumes "length payload \<le> MAX_APPLICATION_PAYLOAD_LENGTH"
  shows "conforms svc control (frame name category kind b payload) \<longleftrightarrow> payload_verdict svc control category kind payload = expected_verdict name"
proof -
  obtain v body where v: "frame name category kind b payload = Inr v" "fv_category v = category" "fv_name v = name"
    "fv_message_type v = kind" "fv_payload v = payload" "fv_frame v = framed body" "length body = length payload + 24"
    "decode_body body = Inr \<lparr> ev_correlation_id = repeated b, ev_message_type = kind, ev_payload = payload,
      ev_version = VERSION \<rparr>"
    using frame_made [OF assms, of name category kind b] by metis
  have "length body \<le> MAX_BODY_LENGTH" using assms v(7) by (simp add: length_defs)
  then show ?thesis using v by (simp add: conforms_def frame_verdict_def framed_read)
qed

lemma frame_of_conforms [simp]:
  "frame_of name category kind b (Inr payload) = frame name category kind b payload"
  by (simp add: frame_of_def)

lemma frame_name: "frame name category kind b payload = Inr v \<Longrightarrow> fv_name v = name"
  by (auto simp add: frame_def Let_def ok_then_Inr_iff)

lemma frame_of_name: "frame_of name category kind b payload = Inr v \<Longrightarrow> fv_name v = name"
  by (auto simp add: frame_of_def ok_then_Inr_iff dest: frame_name)

lemma collect_Inr: "collect rs = Inr vs \<longleftrightarrow> map Inr vs = rs"
  by (induction rs arbitrary: vs) (auto simp add: ok_then_Inr_iff)

section \<open>Fixtures\<close>

lemma fixture_range:
  "loro_range_new p s e = Inr \<lparr> lr_end_counter = e, lr_peer_id = p, lr_start_counter = s \<rparr>"
  if "(p, s, e) \<in> {(0x0102030405060708, 0, 3), (0x1112131415161718, 4, 9), (0x7172737475767778, 0, 1)}"
  using that by (auto simp add: loro_range_new_iff loro_range_ok_def operation_count_def MAX_LORO_COUNTER_def
      MAX_UPDATE_OPERATIONS_def)

definition fixture_ranges :: public_loro_ranges where
  "fixture_ranges = [\<lparr> lr_end_counter = 3, lr_peer_id = 0x0102030405060708, lr_start_counter = 0 \<rparr>,
    \<lparr> lr_end_counter = 9, lr_peer_id = 0x1112131415161718, lr_start_counter = 4 \<rparr>]"

definition maximum_ranges :: public_loro_ranges where
  "maximum_ranges = [\<lparr> lr_end_counter = 1, lr_peer_id = 0x7172737475767778, lr_start_counter = 0 \<rparr>]"

lemma fixture_ranges_ok: "public_ranges_ok fixture_ranges" "public_ranges_ok maximum_ranges"
  by (simp_all add: fixture_ranges_def maximum_ranges_def public_ranges_ok_def loro_range_ok_def operation_count_def
      MAX_LORO_COUNTER_def MAX_UPDATE_OPERATIONS_def MAX_LORO_PEERS_def total_operations_def)

lemma fixture_ranges_new:
  "public_ranges_new fixture_ranges = Inr fixture_ranges" "public_ranges_new maximum_ranges = Inr maximum_ranges"
  using fixture_ranges_ok by (simp_all add: public_ranges_new_iff public_ranges_ok_def)

definition golden_update :: immutable_update where
  "golden_update = immutable_update_new (repeated 0x33) (repeated 0x44) fixture_ranges (ascii ''opaque-ciphertext-v1'')"

lemma fixture_update_made: "fixture_update (repeated 0x33) (repeated 0x44) = Inr golden_update"
  using fixture_ranges_new(1)
  by (simp add: fixture_update_def fixture_range map_err_def golden_update_def fixture_ranges_def)

lemma golden_update_simps [simp]:
  "iu_document_id golden_update = repeated 0x33" "iu_update_id golden_update = repeated 0x44"
  "iu_public_loro_ranges golden_update = fixture_ranges" "length (iu_encrypted_payload golden_update) = 20"
  by (simp_all add: golden_update_def immutable_update_new_def ascii_def)

lemma golden_record: "encode_update_record golden_update = Inr (record_bytes golden_update)"
  "decode_update_record (record_bytes golden_update) = Inr golden_update"
  "length (record_bytes golden_update) = 102"
proof -
  have len: "record_length golden_update = 102"
    by (simp add: record_length_def fixture_ranges_def ascii_def update_length_defs)
  then show enc: "encode_update_record golden_update = Inr (record_bytes golden_update)"
    by (simp add: encode_update_record_iff update_length_defs)
      (simp add: golden_update_def immutable_update_new_def ascii_def)
  show "decode_update_record (record_bytes golden_update) = Inr golden_update"
    using enc fixture_ranges_ok(1) by (simp add: decode_update_record_iff update_ok_def)
  show "length (record_bytes golden_update) = 102" by (simp add: length_record_bytes len)
qed

definition golden_metadata :: update_metadata where
  "golden_metadata = \<lparr> um_encrypted_payload_length = 20, um_public_loro_ranges = fixture_ranges, um_update_id = repeated 0x44 \<rparr>"

definition golden_version :: oplog_version where
  "golden_version = [\<lparr> ve_end_counter = 3, ve_peer_id = 0x0102030405060708 \<rparr>]"

lemma golden_version_made:
  "version_entry_new 0x0102030405060708 3 = Inr (hd golden_version)"
  "oplog_version_new [hd golden_version] = Inr golden_version" "oplog_version_ok golden_version"
  by (simp_all add: version_entry_new_iff oplog_version_new_iff golden_version_def version_entry_ok_def
      oplog_version_ok_def MAX_LORO_PEERS_def MAX_LORO_COUNTER_def)

lemma windows_replicate: "x \<in> set (windows n (replicate m b)) \<Longrightarrow> set x \<subseteq> {b}"
  by (auto simp add: windows_def dest!: in_set_takeD)

lemma opaque_cursor:
  "be_encode (repeated 0x33 :: id16) \<notin> set (windows n (replicate m 0x69))"
  "[0, 0, 0, 0, 0, 0, 0, 3] \<notin> set (windows n (replicate m 0x69))"
proof -
  have "be_encode (repeated 0x33) = replicate 16 0x33" by (simp add: repeated_def be_encode_decode)
  then show "be_encode (repeated 0x33 :: id16) \<notin> set (windows n (replicate m 0x69))"
    using windows_replicate [of "replicate 16 0x33" n m "0x69"] by auto
  show "[0, 0, 0, 0, 0, 0, 0, 3] \<notin> set (windows n (replicate m 0x69))"
    using windows_replicate [of "[0, 0, 0, 0, 0, 0, 0, 3]" n m "0x69"] by auto
qed

text \<open>A key pair: a public key of 32 bytes and signatures of 64.\<close>

definition signs_with :: "key_of_seed \<Rightarrow> bytes \<Rightarrow> (bytes \<Rightarrow> bytes) \<Rightarrow> bool" where
  "signs_with from_seed public_key sign \<longleftrightarrow> from_seed (replicate 32 0x7a) = Some (public_key, sign)
    \<and> length public_key = 32 \<and> (\<forall>m. length (sign m) = 64)"

definition golden_manifest :: "(bytes \<Rightarrow> bytes) \<Rightarrow> bytes" where
  "golden_manifest sign = (let manifest = encode_certificate_epoch (encode_certificate_epoch
      (MANIFEST_MAGIC @ be_encode (1 :: u16)) 1 2000000000 0x11) 2 2000604800 0x22 in manifest @ sign manifest)"

definition golden_fixtures :: "bytes \<Rightarrow> (bytes \<Rightarrow> bytes) \<Rightarrow> fixtures" where
  "golden_fixtures public_key sign = \<lparr> fx_document_id = repeated 0x33, fx_update_id = repeated 0x44,
    fx_update = golden_update, fx_record = record_bytes golden_update,
    fx_root = \<lparr> ca_capability_id = repeated 0x55, ca_authenticator = repeated_key 0x56 \<rparr>,
    fx_editor = \<lparr> ca_capability_id = repeated 0x57, ca_authenticator = repeated_key 0x58 \<rparr>,
    fx_create_authority = \<lparr> cr_create_authority_id = repeated 0x53, cr_authenticator = repeated_key 0x54 \<rparr>,
    fx_cursor = replicate 32 0x69, fx_metadata = golden_metadata,
    fx_certificate_manifest = golden_manifest sign, fx_control_public_key = public_key,
    fx_subscription_id = repeated 0x60, fx_oplog_version = golden_version, fx_vector_cursor = replicate 32 0x6a \<rparr>"

lemma fixtures_made:
  "signs_with from_seed public_key sign \<Longrightarrow> generate_fixtures from_seed = Inr (golden_fixtures public_key sign)"
  using opaque_cursor [of IDENTIFIER_LENGTH 32] opaque_cursor [of 8 32]
  by (simp add: generate_fixtures_def fixture_update_made golden_record golden_version_made map_err_def
      certificate_manifest_fixture_def signs_with_def ok_or_def u32_of_nat_def golden_fixtures_def golden_manifest_def
      golden_metadata_def Let_def)

lemma golden_manifest_length: "signs_with from_seed public_key sign \<Longrightarrow> length (golden_manifest sign) = 178"
  by (simp add: golden_manifest_def signs_with_def encode_certificate_epoch_def MANIFEST_MAGIC_def Let_def)

lemma record_bytes_nonempty [simp]: "record_bytes u \<noteq> []"
  by (simp add: record_bytes_def RECORD_MAGIC_def)

lemma maximum_record_made:
  obtains u where "maximum_update_record d (repeated 0x66) = Inr (record_bytes u)"
    "decode_update_record (record_bytes u) = Inr u" "length (record_bytes u) = 4024"
proof -
  let ?u = "\<lambda>payload. immutable_update_new d (repeated 0x66) maximum_ranges payload"
  have len: "record_length (?u payload) = 66 + length payload" for payload
    by (simp add: record_length_def immutable_update_new_def maximum_ranges_def update_length_defs)
  have enc: "encode_update_record (?u payload) = Inr (record_bytes (?u payload))"
    if "payload \<noteq> []" "length payload \<le> 3958" for payload
    using that len [of payload] by (simp add: encode_update_record_iff update_length_defs) (simp add: immutable_update_new_def)
  let ?m = "?u (replicate 3958 0xa5)"
  have "maximum_update_record d (repeated 0x66) = Inr (record_bytes ?m)"
    using fixture_ranges_new(2) enc [of "[0xa5]"] enc [of "replicate 3958 0xa5"]
    by (simp add: maximum_update_record_def fixture_range map_err_def maximum_ranges_def length_record_bytes len [unfolded maximum_ranges_def]
        Let_def update_length_defs)
  moreover have "decode_update_record (record_bytes ?m) = Inr ?m"
    using enc [of "replicate 3958 0xa5"] fixture_ranges_ok(2)
    by (simp add: decode_update_record_iff update_ok_def immutable_update_new_def)
  moreover have "length (record_bytes ?m) = 4024" by (simp add: length_record_bytes len)
  ultimately show thesis by (rule that)
qed

section \<open>Every valid frame conforms\<close>

lemma verdict_simps [simp]: "verdict reason (Inr x) = ''accepted''" "verdict reason (Inl e) = reason e"
  by (simp_all add: verdict_def)

lemma fixtures_simps [simp]:
  "fx_document_id (golden_fixtures k s) = repeated 0x33" "fx_update_id (golden_fixtures k s) = repeated 0x44"
  "fx_update (golden_fixtures k s) = golden_update" "fx_record (golden_fixtures k s) = record_bytes golden_update"
  "fx_cursor (golden_fixtures k s) = replicate 32 0x69" "fx_metadata (golden_fixtures k s) = golden_metadata"
  "fx_certificate_manifest (golden_fixtures k s) = golden_manifest s"
  "fx_oplog_version (golden_fixtures k s) = golden_version" "fx_vector_cursor (golden_fixtures k s) = replicate 32 0x6a"
  by (simp_all add: golden_fixtures_def)

lemmas capability_kinds = CREATE_DOCUMENT_def CREATE_DOCUMENT_RESPONSE_def CAPABILITY_ERROR_def GRANT_CAPABILITY_def
  GRANT_CAPABILITY_RESPONSE_def REVOKE_CAPABILITY_def REVOKE_CAPABILITY_RESPONSE_def

lemmas update_kinds = ACCEPT_UPDATE_def ACCEPT_UPDATE_RESPONSE_def ENUMERATE_UPDATES_def ENUMERATE_UPDATES_RESPONSE_def
  FETCH_UPDATE_def FETCH_UPDATE_RESPONSE_def UPDATE_ERROR_def VECTOR_BACKFILL_def VECTOR_BACKFILL_RESPONSE_def
  SUBSCRIBE_UPDATES_def SUBSCRIBE_UPDATES_ACK_def UPDATE_NOTIFICATION_def UPDATE_SUBSCRIPTION_OVERFLOW_def
  UPDATE_SUBSCRIPTION_INVALIDATED_def CANCEL_UPDATE_SUBSCRIPTION_def CANCEL_UPDATE_SUBSCRIPTION_RESPONSE_def

lemmas protocol_kinds = CLIENT_HELLO_def SERVER_HELLO_def PROTOCOL_ERROR_def CERTIFICATE_MANIFEST_def
  CERTIFICATE_MANIFEST_RESPONSE_def

lemma greeting_made:
  assumes "utf8_valid profile" "utf8_valid banner" "length profile \<le> 256" "length banner \<le> 256"
  obtains payload where "encode_greeting profile banner = Inr payload" "length payload \<le> MAX_APPLICATION_PAYLOAD_LENGTH"
    "verdict greeting_reason (decode_greeting payload) = ''accepted''"
proof -
  obtain payload where p: "encode_greeting profile banner = Inr payload"
    using assms(3,4) by (simp add: encode_greeting_def append_greeting_field_def length_defs)
  then have "length payload \<le> MAX_APPLICATION_PAYLOAD_LENGTH"
    by (auto simp add: encode_greeting_def append_greeting_field_iff ok_then_Inr_iff length_defs)
  moreover have "decode_greeting payload = Inr \<lparr> gr_banner = banner, gr_profile = profile \<rparr>"
    using assms(1,2) p by (simp add: decode_greeting_iff)
  ultimately show thesis using that p by simp
qed

lemma conforms_frame_of:
  "payload = Inr p \<Longrightarrow> length p \<le> MAX_APPLICATION_PAYLOAD_LENGTH \<Longrightarrow> payload_verdict svc control category kind p = expected_verdict name \<Longrightarrow>
    conforms svc control (frame_of name category kind b payload)"
  by (simp add: frame_conforms)

lemma greeting_conforms:
  assumes "utf8_valid profile" "utf8_valid banner" "length profile \<le> 256" "length banner \<le> 256"
    and "kind = CLIENT_HELLO \<or> kind = SERVER_HELLO" "expected_verdict name = ''accepted''"
  shows "conforms svc control (frame_of name category kind b (map_err GenerateIo (encode_greeting profile banner)))"
proof -
  obtain payload where "encode_greeting profile banner = Inr payload" "length payload \<le> MAX_APPLICATION_PAYLOAD_LENGTH"
    "verdict greeting_reason (decode_greeting payload) = ''accepted''"
    by (rule greeting_made [OF assms(1-4)])
  then show ?thesis using assms(5,6)
    by (intro conforms_frame_of) (auto simp add: map_err_def payload_verdict_def)
qed

lemma utf8_replicate: "b \<le> 0x7F \<Longrightarrow> utf8_valid (replicate n b)"
  by (induction n) simp_all

text \<open>The manifest of the corpus is one that the identity of the gateway could have signed.\<close>

definition corpus_manifest :: certificate_manifest where
  "corpus_manifest = \<lparr> cm_current = \<lparr> ce_epoch = 1, ce_hash = repeated_key 0x11, ce_not_after = 2001209600,
      ce_not_before = 2000000000 \<rparr>,
    cm_next = \<lparr> ce_epoch = 2, ce_hash = repeated_key 0x22, ce_not_after = 2001814400, ce_not_before = 2000604800 \<rparr> \<rparr>"

lemma corpus_manifest_signed: "golden_manifest (is_sign svc control) = encode_signed_manifest svc corpus_manifest control"
proof -
  have "be_encode (repeated_key b) = replicate 32 b" for b by (simp add: repeated_key_def be_encode_decode)
  then show ?thesis
    by (simp add: golden_manifest_def encode_signed_manifest_def signed_part_def encode_epoch_def corpus_manifest_def
        encode_certificate_epoch_def MANIFEST_VERSION_def Let_def)
qed

lemma corpus_manifest_decodes:
  assumes "services_ok svc"
  shows "decode_and_verify_manifest svc (golden_manifest (is_sign svc control)) control = Inr corpus_manifest"
proof -
  have "validate_manifest (cm_current corpus_manifest) (cm_next corpus_manifest) = Inr ()"
    by (simp add: valid_manifest_iff CERTIFICATE_LIFETIME_def corpus_manifest_def)
  then show ?thesis by (simp add: corpus_manifest_signed decode_encoded_manifest [OF assms])
qed

lemma manifest_answered:
  assumes "decode_body body = Inr q" "ev_version q = VERSION" "ev_message_type q = CERTIFICATE_MANIFEST"
    and "encode_body \<lparr> ev_correlation_id = ev_correlation_id q, ev_message_type = CERTIFICATE_MANIFEST_RESPONSE,
      ev_payload = manifest, ev_version = VERSION \<rparr> = Inr answer"
  shows "certificate_manifest_response body manifest = Inr (Some answer)"
  using assms by (simp add: certificate_manifest_response_def)

lemma manifest_requested: "credentials_verdict svc control CERTIFICATE_MANIFEST [] = ''accepted''"
proof -
  let ?e = "\<lambda>kind. \<lparr> ev_correlation_id = 0, ev_message_type = kind, ev_payload = [], ev_version = VERSION \<rparr>"
  have "\<exists>body. encode_body (?e kind) = Inr body" for kind by (simp add: encode_body_Inr_iff)
  then obtain body answer where b: "encode_body (?e CERTIFICATE_MANIFEST) = Inr body"
    "encode_body (?e CERTIFICATE_MANIFEST_RESPONSE) = Inr answer" by metis
  then have "decode_body body = Inr (?e CERTIFICATE_MANIFEST)" by (simp add: decode_body_iff)
  then have "certificate_manifest_response body [] = Inr (Some answer)"
    by (rule manifest_answered) (simp_all add: b)
  then show ?thesis
    using b by (simp add: credentials_verdict_def ok_or_def) (simp add: protocol_kinds)
qed

lemma hello_conforms:
  assumes "services_ok svc"
  shows "list_all (conforms svc control) (hello_frames (golden_fixtures k (is_sign svc control)))"
proof -
  let ?s = "is_sign svc control"
  have banners: "utf8_valid PROFILE_ID" "utf8_valid RENEE_BANNER" "utf8_valid CARBON_BANNER"
    "length PROFILE_ID \<le> 256" "length RENEE_BANNER \<le> 256" "length CARBON_BANNER \<le> 256"
    by (simp_all add: PROFILE_ID_def RENEE_BANNER_def CARBON_BANNER_def ascii_def)
  have "length (golden_manifest ?s) = 178"
    using assms by (simp add: golden_manifest_def services_ok_def SIGNATURE_LENGTH_def encode_certificate_epoch_def
        MANIFEST_MAGIC_def Let_def)
  then have "length (golden_manifest ?s) \<le> MAX_APPLICATION_PAYLOAD_LENGTH" by (simp add: update_length_defs)
  moreover have "credentials_verdict svc control CERTIFICATE_MANIFEST_RESPONSE (golden_manifest ?s) = ''accepted''"
    by (simp add: credentials_verdict_def corpus_manifest_decodes [OF assms])
  moreover note manifest_requested [of svc control]
  ultimately have manifest: "conforms svc control (frame ''certificate-manifest.request'' ''credentials'' CERTIFICATE_MANIFEST 0x18 [])"
    "conforms svc control (frame ''certificate-manifest.response'' ''credentials'' CERTIFICATE_MANIFEST_RESPONSE 0x18 (golden_manifest ?s))"
    by (simp_all add: frame_conforms payload_verdict_def protocol_kinds ACCEPT_UPDATE_def)
  show ?thesis
    using banners manifest by (simp add: hello_frames_def greeting_conforms)
qed

lemma control_conforms: "list_all (conforms svc control) (control_frames (golden_fixtures k s))"
proof -
  have ops: "canonical_ops (one Update)" "\<not> ops_is_empty (one Update)"
    using canonical_one [of Update] ops_of_empty_iff [OF canonical_one, of Update]
    by (simp_all add: ops_is_empty_def ops_of_one)
  have decodes: "decode_create_document_request (encode_create_document_request create) = Inr create"
    "decode_revoke_capability_request (encode_revoke_capability_request revoking) = Inr revoking" for create revoking
    using create_codec.dec_enc [of create] revoke_codec.dec_enc [of revoking] by simp_all
  have "decode_grant_capability_request (encode_grant_capability_request granting) = Inr granting"
    if "gc_operations granting = one Update" for granting
    using grant_codec.dec_enc [of granting] that ops by simp
  then show ?thesis
    using decodes
    by (simp add: control_frames_def frame_conforms payload_verdict_def control_verdict_def capability_kinds
        protocol_kinds ACCEPT_UPDATE_def)
qed

lemma authorized_record_conforms:
  assumes "decode_update_record rec = Inr u" "expected_verdict name = ''accepted''"
  shows "conforms svc control (frame_of name category ACCEPT_UPDATE b (map_err GenerateCapability
    (encode_authorized_update_request \<lparr> au_authority = authority, au_encoded_record = rec \<rparr>)))"
proof -
  have "rec \<noteq> []" "length rec \<le> MAX_UPDATE_RECORD_LENGTH"
    using assms(1) length_record_bytes [of u]
    by (auto simp add: decode_update_record_iff encode_update_record_iff)
  then obtain payload where p:
    "encode_authorized_update_request \<lparr> au_authority = authority, au_encoded_record = rec \<rparr> = Inr payload"
    "length payload \<le> MAX_APPLICATION_PAYLOAD_LENGTH"
    "decode_authorized_update_request payload = Inr \<lparr> au_authority = authority, au_encoded_record = rec \<rparr>"
    by (rule authorized_update_encodes)
  then show ?thesis
    using assms by (intro conforms_frame_of [of _ payload])
      (simp_all add: map_err_def payload_verdict_def accept_verdict_def protocol_kinds ACCEPT_UPDATE_def)
qed

lemma accept_conforms: "list_all (conforms svc control) (accept_frames (golden_fixtures k s))"
  by (simp add: accept_frames_def authorized_record_conforms [OF golden_record(2)])
    (simp add: frame_conforms payload_verdict_def update_verdict_def protocol_kinds update_kinds)

lemma enumerate_request_conforms:
  assumes "whole_cursor (snd (enum_mode start))" "expected_verdict name = ''accepted''"
  shows "conforms svc control (frame_of name ''enumerate'' ENUMERATE_UPDATES b (map_err GenerateUpdate (encode_enumerate_request
    \<lparr> er_authority = authority, er_document_id = d, er_start = start \<rparr>)))"
  using enumerate_request_encodes [OF assms(1), of authority d] assms(2)
  by (simp add: map_err_def frame_conforms) (simp add: payload_verdict_def page_verdict_def protocol_kinds update_kinds)

lemma vector_request_conforms:
  assumes "whole_cursor (snd (vec_mode start))" "expected_verdict name = ''accepted''"
  shows "conforms svc control (frame_of name ''vector-backfill'' VECTOR_BACKFILL b (map_err GenerateUpdate
    (encode_vector_backfill_request \<lparr> vr_authority = authority, vr_document_id = d, vr_oplog_version = golden_version,
      vr_start = start \<rparr>)))"
  using vector_request_encodes [OF assms(1) golden_version_made(3), of authority d] assms(2)
  by (simp add: map_err_def frame_conforms) (simp add: payload_verdict_def page_verdict_def protocol_kinds update_kinds)

text \<open>The pages of the corpus: one entry with a cursor, or none.\<close>

lemma golden_metadata_ok: "metadata_ok golden_metadata" "metadata_encoded_length golden_metadata = 54"
  using fixture_ranges_ok(1)
  by (simp_all add: golden_metadata_def metadata_ok_def metadata_encoded_length_def fixture_ranges_def update_length_defs)

lemma golden_page_fits:
  assumes "pr_updates r = [golden_metadata] \<or> pr_updates r = []" "page_cursor_ok r"
  shows "page_fits r" "page_ok r"
  using assms golden_metadata_ok
  by (auto simp add: page_fits_def page_ok_def length_page_bytes page_cursor_ok_def cursor_bytes_def update_length_defs
      golden_metadata_def fixture_ranges_def split: option.splits)

lemma enumerate_response_conforms:
  assumes "pr_updates r = [golden_metadata] \<or> pr_updates r = []" "page_cursor_ok r" "enumerate_shape r"
    and "expected_verdict name = ''accepted''"
  shows "conforms svc control (frame_of name ''enumerate'' ENUMERATE_UPDATES_RESPONSE b (map_err GenerateUpdate (encode_enumerate_response r)))"
proof -
  have "encode_enumerate_response r = Inr (Wire_Codecs.page_bytes r)" "length (Wire_Codecs.page_bytes r) \<le> MAX_APPLICATION_PAYLOAD_LENGTH"
    "decode_enumerate_response (Wire_Codecs.page_bytes r) = Inr r"
    using assms golden_page_fits [OF assms(1,2)]
    by (simp_all add: encode_enumerate_response_iff decode_enumerate_response_iff page_fits_def)
  then show ?thesis using assms(4)
    by (simp add: map_err_def frame_conforms) (simp add: payload_verdict_def page_verdict_def protocol_kinds update_kinds)
qed

lemma vector_response_conforms:
  assumes "pr_updates r = [golden_metadata] \<or> pr_updates r = []" "page_cursor_ok r" "vector_shape r"
    and "expected_verdict name = ''accepted''"
  shows "conforms svc control (frame_of name ''vector-backfill'' VECTOR_BACKFILL_RESPONSE b
    (map_err GenerateUpdate (encode_vector_backfill_response r)))"
proof -
  have "encode_vector_backfill_response r = Inr (Wire_Codecs.page_bytes r)" "length (Wire_Codecs.page_bytes r) \<le> MAX_APPLICATION_PAYLOAD_LENGTH"
    "decode_vector_backfill_response (Wire_Codecs.page_bytes r) = Inr r"
    using assms golden_page_fits [OF assms(1,2)]
    by (simp_all add: encode_vector_backfill_response_iff decode_vector_backfill_response_iff page_fits_def)
  then show ?thesis using assms(4)
    by (simp add: map_err_def frame_conforms) (simp add: payload_verdict_def page_verdict_def protocol_kinds update_kinds)
qed

lemma enumerate_conforms: "list_all (conforms svc control) (enumerate_frames (golden_fixtures k s))"
  by (simp add: enumerate_frames_def enumerate_request_conforms enumerate_response_conforms whole_cursor_def enum_mode_def
      page_cursor_ok_def enumerate_shape_def)

lemma fetch_conforms:
  assumes "expected_verdict name = ''accepted''"
  shows "conforms svc control (frame name ''fetch'' FETCH_UPDATE b (encode_fetch_request r))"
    and "conforms svc control (frame_of name ''fetch'' FETCH_UPDATE_RESPONSE b
    (map_err GenerateUpdate (encode_fetch_response (iu_encrypted_payload golden_update))))"
proof -
  have "length (encode_fetch_request r) \<le> MAX_APPLICATION_PAYLOAD_LENGTH" "decode_fetch_request (encode_fetch_request r) = Inr r"
    using fetch_request_codec.dec_enc [of r]
    by (simp_all add: encode_fetch_request_def encode_authority_def update_length_defs)
  then show "conforms svc control (frame name ''fetch'' FETCH_UPDATE b (encode_fetch_request r))"
    using assms by (simp add: frame_conforms) (simp add: payload_verdict_def update_verdict_def protocol_kinds update_kinds)
  let ?p = "iu_encrypted_payload golden_update"
  have p: "?p \<noteq> []" "length ?p \<le> MAX_APPLICATION_PAYLOAD_LENGTH"
    by (simp_all add: update_length_defs) (simp add: golden_update_def immutable_update_new_def ascii_def)
  then have "encode_fetch_response ?p = Inr ?p" "decode_fetch_response ?p = Inr ?p"
    by (simp_all add: encode_fetch_response_def decode_fetch_response_def)
  then show "conforms svc control (frame_of name ''fetch'' FETCH_UPDATE_RESPONSE b (map_err GenerateUpdate (encode_fetch_response ?p)))"
    using p(2) assms by (simp add: map_err_def frame_conforms)
      (simp add: payload_verdict_def update_verdict_def protocol_kinds update_kinds)
qed

lemma vector_conforms: "list_all (conforms svc control) (vector_frames (golden_fixtures k s))"
  by (simp add: vector_frames_def vector_request_conforms vector_response_conforms fetch_conforms whole_cursor_def vec_mode_def
      page_cursor_ok_def vector_shape_def)

lemma subscription_conforms: "list_all (conforms svc control) (subscription_frames (golden_fixtures k s))"
proof -
  have "length (encode_subscribe_updates_request r) = 66" for r
    by (simp add: encode_subscribe_updates_request_def encode_authority_def)
  then have lens: "length (encode_subscribe_updates_request r) \<le> MAX_APPLICATION_PAYLOAD_LENGTH"
    "18 \<le> MAX_APPLICATION_PAYLOAD_LENGTH" "34 \<le> MAX_APPLICATION_PAYLOAD_LENGTH" for r
    by (simp_all add: update_length_defs)
  have "decode_subscribe_updates_request (encode_subscribe_updates_request r) = Inr r"
    "decode_subscription_identity (encode_subscribe_updates_ack n) = Inr n"
    "decode_subscription_identity (encode_update_subscription_overflow n) = Inr n"
    "decode_subscription_identity (encode_update_subscription_invalidated n) = Inr n"
    "decode_subscription_identity (encode_cancel_update_subscription n) = Inr n" for r n
    using subscribe_codec.dec_enc [of r] subscription_identity_codec.dec_enc [of n]
    by (simp_all add: encode_subscribe_updates_ack_def encode_update_subscription_overflow_def
        encode_update_subscription_invalidated_def encode_cancel_update_subscription_def)
  then show ?thesis
    using lens
    by (simp add: subscription_frames_def frame_conforms payload_verdict_def subscription_verdict_def
        protocol_kinds update_kinds)
qed

text \<open>The client that waits for the answer to its hello, given a protocol error.\<close>

lemma round_trip_constant:
  assumes "encode_body request = Inr written" "decode_body body = Inr r" "length body \<le> MAX_BODY_LENGTH"
  shows "round_trip (\<lambda>_. Inr (framed body)) request closed = Inr r"
  using assms read_body_append [of body "[]"] encode_body_length [OF assms(1)]
  by (simp add: round_trip_def write_body_framed framed_def map_err_def ok_or_def)

lemma protocol_verdict:
  assumes "length payload \<le> 100"
  shows "protocol_verdict payload = (if payload \<in> {ERROR_UNSUPPORTED_VERSION, ERROR_UNSUPPORTED_PROFILE,
      ERROR_EXPECTED_HELLO, ERROR_ALREADY_NEGOTIATED} then ''accepted'' else ''unknown-negotiation-rejection'')"
proof -
  let ?e = "\<lparr> ev_correlation_id = repeated 17, ev_message_type = PROTOCOL_ERROR, ev_payload = payload, ev_version = VERSION \<rparr>"
  obtain body where body: "encode_body ?e = Inr body" using assms by (auto simp add: encode_body_Inr_iff update_length_defs)
  then have reply: "encode_frame ?e = Inr (framed body)" "decode_body body = Inr ?e" "length body \<le> MAX_BODY_LENGTH"
    using encode_body_length [OF body] by (simp_all add: encode_frame_iff framed_def decode_body_iff)
  obtain hello where hello: "encode_greeting PROFILE_ID CARBON_BANNER = Inr hello" "length hello \<le> MAX_APPLICATION_PAYLOAD_LENGTH"
    by (rule greeting_made [of PROFILE_ID CARBON_BANNER]) (simp_all add: PROFILE_ID_def CARBON_BANNER_def ascii_def)
  let ?q = "\<lparr> ev_correlation_id = repeated 17, ev_message_type = CLIENT_HELLO, ev_payload = hello, ev_version = VERSION \<rparr>"
  obtain written where "encode_body ?q = Inr written" using hello(2) by (auto simp add: encode_body_Inr_iff)
  then have "round_trip (\<lambda>_. Inr (framed body)) ?q closed = Inr ?e" for closed
    by (rule round_trip_constant [OF _ reply(2,3)])
  then show ?thesis
    by (simp add: protocol_verdict_def reply(1) map_err_def client_negotiate_def client_sends_hello_def hello(1))
      (simp add: protocol_kinds)
qed

lemma errors_conform:
  "list_all (conforms svc control) protocol_error_frames" "list_all (conforms svc control) update_error_frames" "list_all (conforms svc control) capability_error_frames"
proof -
  have short: "length p \<le> 100" if "p \<in> {ERROR_UNSUPPORTED_VERSION, ERROR_UNSUPPORTED_PROFILE, ERROR_EXPECTED_HELLO,
      ERROR_ALREADY_NEGOTIATED, ERROR_MALFORMED_HELLO}" for p
    using that by (auto simp add: ERROR_UNSUPPORTED_VERSION_def ERROR_UNSUPPORTED_PROFILE_def ERROR_EXPECTED_HELLO_def
        ERROR_ALREADY_NEGOTIATED_def ERROR_MALFORMED_HELLO_def ascii_def)
  have malformed_unknown: "ERROR_MALFORMED_HELLO \<notin> {ERROR_UNSUPPORTED_VERSION, ERROR_UNSUPPORTED_PROFILE,
      ERROR_EXPECTED_HELLO, ERROR_ALREADY_NEGOTIATED}"
    by (simp add: ERROR_UNSUPPORTED_VERSION_def ERROR_UNSUPPORTED_PROFILE_def ERROR_EXPECTED_HELLO_def
        ERROR_ALREADY_NEGOTIATED_def ERROR_MALFORMED_HELLO_def)
  from short have lens: "length p \<le> MAX_APPLICATION_PAYLOAD_LENGTH" if "p \<in> {ERROR_UNSUPPORTED_VERSION,
      ERROR_UNSUPPORTED_PROFILE, ERROR_EXPECTED_HELLO, ERROR_ALREADY_NEGOTIATED, ERROR_MALFORMED_HELLO}" for p
    using that by (fastforce simp add: update_length_defs)
  show "list_all (conforms svc control) protocol_error_frames"
    using lens short by (simp add: protocol_error_frames_def frame_conforms)
      (simp add: payload_verdict_def error_verdict_def protocol_kinds update_kinds protocol_verdict expected_verdict_def
        malformed_unknown [simplified])
  have "conforms svc control (frame name ''errors'' UPDATE_ERROR 0x51 (encode_update_error e))"
    if "expected_verdict name = ''accepted''" for name e
    using that by (simp add: frame_conforms) (simp add: payload_verdict_def error_verdict_def protocol_kinds update_kinds)
  then show "list_all (conforms svc control) update_error_frames" by (simp add: update_error_frames_def)
  have "conforms svc control (frame name ''errors'' CAPABILITY_ERROR 0x52 (encode_capability_error e))"
    if "expected_verdict name = ''accepted''" for name e
    using that by (simp add: frame_conforms)
      (simp add: payload_verdict_def error_verdict_def protocol_kinds update_kinds CAPABILITY_ERROR_def)
  then show "list_all (conforms svc control) capability_error_frames" by (simp add: capability_error_frames_def)
qed

lemma limit_conforms: "list_all (conforms svc control) (limit_frames (golden_fixtures k s))"
proof -
  obtain u where u: "maximum_update_record (repeated 0x33) (repeated 0x66) = Inr (record_bytes u)"
    "decode_update_record (record_bytes u) = Inr u" by (rule maximum_record_made)
  have "utf8_valid (replicate 256 0x70)" "utf8_valid (replicate 256 0x62)" by (rule utf8_replicate; simp)+
  then show ?thesis
    by (simp add: limit_frames_def authorized_record_conforms [OF u(2)] greeting_conforms u(1))
qed

section \<open>Every invalid vector is refused as named\<close>

definition refused_as_named :: "('key, 'leaf) identity_services \<Rightarrow> 'key \<Rightarrow> invalid_payload_vector generated \<Rightarrow> bool" where
  "refused_as_named svc control r = (case r of Inl _ \<Rightarrow> False | Inr v \<Rightarrow> frame_verdict (fv_frame (ip_frame v)) = ''accepted''
    \<and> payload_verdict svc control (fv_category (ip_frame v)) (fv_message_type (ip_frame v)) (fv_payload (ip_frame v)) = ip_expected_error v)"

lemma invalid_payload_refused:
  assumes "length payload \<le> MAX_APPLICATION_PAYLOAD_LENGTH"
  shows "refused_as_named svc control (invalid_payload expected (frame name category kind b payload))
    \<longleftrightarrow> payload_verdict svc control category kind payload = expected"
proof -
  obtain v body where v: "frame name category kind b payload = Inr v" "fv_category v = category"
    "fv_message_type v = kind" "fv_payload v = payload" "fv_frame v = framed body" "length body = length payload + 24"
    "decode_body body = Inr \<lparr> ev_correlation_id = repeated b, ev_message_type = kind, ev_payload = payload,
      ev_version = VERSION \<rparr>"
    using frame_made [OF assms, of name category kind b] by metis
  have "length body \<le> MAX_BODY_LENGTH" using assms v(6) by (simp add: length_defs)
  then show ?thesis using v by (simp add: refused_as_named_def invalid_payload_def frame_verdict_def framed_read)
qed

lemma short_fits: "length payload \<le> 600 \<Longrightarrow> length payload \<le> MAX_APPLICATION_PAYLOAD_LENGTH"
  by (simp add: update_length_defs)

lemma oversized_greeting_refused: "decode_greeting oversized_greeting_payload = Inl FieldTooLong"
proof -
  have "slice_get oversized_greeting_payload 0 (Suc (Suc 0)) = Some (be_encode (257 :: u16))"
    using slice_get_at [of "[]" "be_encode (257 :: u16)" "replicate 257 0x70 @ be_encode (0 :: u16)"]
    by (simp add: oversized_greeting_payload_def numeral_2_eq_2)
  then show ?thesis
    by (simp add: decode_greeting_def decode_greeting_field_def Let_def ok_or_def be_decode_encode length_defs)
qed

lemmas take_words = dec_word_def dec_take_def be_decode_def int_of_be_def

lemma one_encoded: "be_encode (1 :: u16) = [0, 1]" "be_encode (0 :: u16) = [0, 0]"
  by (simp_all add: be_encode_def numeral_2_eq_2)

lemma subscription_refused:
  "decode_subscribe_updates_request [0, 1, 0] = Inl UcTruncated"
  "decode_subscription_identity ((encode_cancel_update_subscription n)
    [Suc 0 := encode_cancel_update_subscription n ! 1 XOR 1]) = Inl UcUnsupportedSubscriptionVersion"
  by (simp_all add: decode_subscribe_updates_request_def take_subscription_version_def SUBSCRIPTION_PAYLOAD_VERSION_def
      take_authority_def take_words decode_subscription_identity_def encode_cancel_update_subscription_def
      encode_subscription_identity_def one_encoded)

lemma pages_refused:
  "decode_enumerate_response [1, 0, 0, 0, 0] = Inl UcInvalidCursor"
  "decode_vector_backfill_response [1, 0, 0, 0, 0] = Inl UcInvalidCursor"
  "decode_vector_backfill_response ([0, 0, 32] @ replicate 32 0x6a @ be_encode (0 :: u16)) = Inl UcInvalidCursor"
  "length rest \<le> 600 \<Longrightarrow> decode_enumerate_response ([0, 0, 0] @ be_encode (1 :: u16) @ rest) = Inl UcInvalidCursor"
  by (simp_all add: decode_enumerate_response_def decode_vector_backfill_response_def take_bool_def take_byte_def
      take_words one_encoded update_length_defs Let_def)

lemma invalid_requests_refused: "list_all (refused_as_named svc control) (invalid_requests (golden_fixtures k s))"
proof -
  have lens: "length oversized_greeting_payload \<le> MAX_APPLICATION_PAYLOAD_LENGTH" "3 \<le> MAX_APPLICATION_PAYLOAD_LENGTH"
    "18 \<le> MAX_APPLICATION_PAYLOAD_LENGTH"
    by (simp_all add: oversized_greeting_payload_def update_length_defs)
  then show ?thesis
    by (simp add: invalid_requests_def invalid_payload_refused Let_def)
      (simp add: payload_verdict_def subscription_verdict_def protocol_kinds update_kinds oversized_greeting_refused
        greeting_reason_def subscription_refused [unfolded One_nat_def] subscription_reason_def)
qed

text \<open>The page whose terminal entry has lost its cursor.\<close>

lemma terminal_page:
  obtains page rest where "encode_enumerate_response \<lparr> pr_has_more = False, pr_next_cursor = Some (replicate 32 0x69),
    pr_updates = [golden_metadata] \<rparr> = Inr page" "drop 35 page = be_encode (1 :: u16) @ rest" "length rest = 54"
proof -
  let ?r = "\<lparr> pr_has_more = False, pr_next_cursor = Some (replicate 32 (0x69 :: byte)), pr_updates = [golden_metadata] \<rparr>"
  have cursor: "page_cursor_ok ?r" "enumerate_shape ?r" by (simp_all add: page_cursor_ok_def enumerate_shape_def)
  then have "encode_enumerate_response ?r = Inr (Wire_Codecs.page_bytes ?r)"
    using golden_page_fits(1) [of ?r] by (simp add: encode_enumerate_response_iff)
  moreover have "drop 35 (Wire_Codecs.page_bytes ?r) = be_encode (1 :: u16) @ metadata_bytes golden_metadata"
    by (simp add: Wire_Codecs.page_bytes_def cursor_bytes_def)
  ultimately show thesis
    using that length_metadata_bytes [of golden_metadata] golden_metadata_ok(2) by simp
qed

lemma invalid_pages_refused: "list_all (refused_as_named svc control) (invalid_pages (golden_fixtures k s))"
proof -
  obtain page rest where page: "encode_enumerate_response \<lparr> pr_has_more = False, pr_next_cursor = Some (replicate 32 0x69),
    pr_updates = [golden_metadata] \<rparr> = Inr page" "drop 35 page = be_encode (1 :: u16) @ rest" "length rest = 54"
    by (rule terminal_page)
  have lens: "5 \<le> MAX_APPLICATION_PAYLOAD_LENGTH" "37 \<le> MAX_APPLICATION_PAYLOAD_LENGTH"
    "59 \<le> MAX_APPLICATION_PAYLOAD_LENGTH" by (simp_all add: update_length_defs)
  have terminal: "decode_enumerate_response (0 # 0 # 0 # be_encode (1 :: u16) @ rest) = Inl UcInvalidCursor"
    "decode_vector_backfill_response (0 # 0 # 32 # replicate 32 0x6a @ be_encode (0 :: u16)) = Inl UcInvalidCursor"
    using pages_refused(3) pages_refused(4) [of rest] page(3) by simp_all
  show ?thesis
    using lens page
    by (simp add: invalid_pages_def map_err_def invalid_payload_refused)
      (simp add: payload_verdict_def page_verdict_def protocol_kinds update_kinds page_reason_def pages_refused terminal)
qed

text \<open>A frame, and what is wrong with each of its variations.\<close>

lemma read_body_prefix:
  assumes "n \<le> MAX_BODY_LENGTH"
  shows "read_body (be_encode (of_nat n :: u32) @ rest) = (if n \<le> length rest
    then Inr (Some (take n rest), drop n rest) else Inl UnexpectedEof)"
proof -
  obtain b0 bs where b: "be_encode (of_nat n :: u32) = b0 # bs" "length bs = 3"
    using length_be_encode [of "of_nat n :: u32"] by (cases "be_encode (of_nat n :: u32)") simp_all
  have "unat (of_nat n :: u32) = n" using assms by (simp add: unat_of_nat length_defs)
  moreover have "(be_decode (b0 # bs) :: u32) = of_nat n" by (simp add: be_decode_encode flip: b(1))
  ultimately show ?thesis
    using assms b by (simp add: read_body_def read_exact_def dec_take_def)
qed

lemma read_body_too_long:
  assumes "MAX_BODY_LENGTH < unat (w :: u32)"
  shows "read_body (be_encode w @ rest) = Inl InvalidData"
proof -
  obtain b0 bs where b: "be_encode w = b0 # bs" "length bs = 3"
    using length_be_encode [of w] by (cases "be_encode w") simp_all
  moreover have "(be_decode (b0 # bs) :: u32) = w" by (simp add: be_decode_encode flip: b(1))
  ultimately show ?thesis using assms by (simp add: read_body_def read_exact_def dec_take_def)
qed

lemma too_long_prefix: "frame_verdict (be_encode (4097 :: u32)) = ''frame-too-long''"
  using read_body_too_long [of 4097 "[]"] by (simp add: frame_verdict_def public_request_def MAX_BODY_LENGTH_def)

lemma frame_variations:
  assumes "length body \<le> MAX_BODY_LENGTH" "decode_body body = Inr e"
  shows "frame_verdict (butlast (framed body)) = ''truncated-frame''"
    "frame_verdict (framed body @ [0xff]) = ''trailing-bytes''"
    "frame_verdict ((framed body)[4 := framed body ! 4 XOR 0xff]) = ''malformed-envelope''"
proof -
  have start: "body \<noteq> []" "hd body = 0x52" using decode_body_parts [OF assms(2)] by (auto simp add: MAGIC_def)
  let ?p = "be_encode (of_nat (length body) :: u32)"
  have framed: "framed body = ?p @ body" "length ?p = 4" by (simp_all add: framed_def)
  have "butlast (framed body) = ?p @ butlast body" using start(1) by (simp add: framed(1) butlast_append)
  moreover have "length (butlast body) < length body" using start(1) by (cases body) simp_all
  then have "read_body (?p @ butlast body) = Inl UnexpectedEof"
    by (simp add: read_body_prefix [OF assms(1)] del: length_butlast)
  ultimately show "frame_verdict (butlast (framed body)) = ''truncated-frame''"
    by (simp add: frame_verdict_def public_request_def)
  show "frame_verdict (framed body @ [0xff]) = ''trailing-bytes''"
    using read_body_append [OF assms(1), of "[0xff]"]
    by (simp add: frame_verdict_def public_request_def require_request_eof_def framed_def)
  let ?b = "body[0 := body ! 0 XOR 0xff]"
  have "(framed body)[4 := framed body ! 4 XOR 0xff] = framed ?b"
    using framed(2) by (simp add: framed_def list_update_append nth_append)
  moreover have "public_request True (framed ?b) = Inr (Some ?b)" using assms(1) by (intro framed_read) simp
  moreover have "\<exists>err. decode_body ?b = Inl err"
  proof (cases "decode_body ?b")
    case (Inr e')
    then have "hd ?b = 0x52" using decode_body_parts [OF Inr] by (auto simp add: MAGIC_def)
    moreover have "hd ?b = 0x52 XOR 0xff" using start by (cases body) simp_all
    ultimately show ?thesis by simp
  qed blast
  ultimately show "frame_verdict ((framed body)[4 := framed body ! 4 XOR 0xff]) = ''malformed-envelope''"
    by (auto simp add: frame_verdict_def)
qed

lemma invalid_frames_refused:
  assumes "fv_frame v = framed body" "length body \<le> MAX_BODY_LENGTH" "decode_body body = Inr e"
  obtains ivs where "invalid_frame_vectors v = Inr ivs"
    "list_all (\<lambda>iv. frame_verdict (iv_frame iv) =
      (if iv_name iv = ''malformed.empty-stream'' then ''no-frame'' else iv_expected_error iv)) ivs"
    "map iv_name ivs = CARBON_UPDATE_V0_INVALID_FRAMES"
proof -
  have body: "body \<noteq> []" using decode_body_parts [OF assms(3)] by (auto simp add: MAGIC_def)
  have len: "4 < length (framed body)" using body by (simp add: framed_def)
  have short: "frame_verdict [] = ''no-frame''" "frame_verdict [0] = ''truncated-frame''"
    "frame_verdict [0, 0] = ''truncated-frame''" "frame_verdict [0, 0, 0] = ''truncated-frame''"
    by (simp_all add: frame_verdict_def public_request_def read_body_def read_exact_def dec_take_def)
  have "frame_verdict (be_encode (of_nat n :: u32) @ replicate n 0) = ''malformed-envelope''" if "n \<le> 23" for n
  proof -
    have "public_request True (framed (replicate n 0)) = Inr (Some (replicate n 0))"
      using that by (intro framed_read) (simp add: length_defs)
    moreover have "\<exists>err. decode_body (replicate n 0) = Inl err"
      using that by (simp add: decode_body_def length_defs)
    ultimately show ?thesis by (auto simp add: frame_verdict_def framed_def)
  qed
  from this [of 0] this [of 23] have malformed: "frame_verdict (be_encode (0 :: u32)) = ''malformed-envelope''"
    "frame_verdict (be_encode (23 :: u32) @ replicate 23 0) = ''malformed-envelope''" by simp_all
  have max: "u32_of_nat err MAX_BODY_LENGTH = Inr 4096" "checked_add (4096 :: u32) 1 = Some 4097" for err :: generate_error
    by (simp_all add: u32_of_nat_def length_defs checked_add_def)
  have "framed body \<noteq> []" "\<not> length (framed body) \<le> 4" using len by auto
  then have made: "invalid_frame_vectors v = Inr [
      invalid ''malformed.empty-stream'' ''truncated-frame'' [],
      invalid ''malformed.partial-prefix-1'' ''truncated-frame'' [0],
      invalid ''malformed.partial-prefix-2'' ''truncated-frame'' [0, 0],
      invalid ''malformed.partial-prefix-3'' ''truncated-frame'' [0, 0, 0],
      invalid ''malformed.zero-length-body'' ''malformed-envelope'' (be_encode (0 :: u32)),
      invalid ''malformed.short-envelope'' ''malformed-envelope'' (be_encode (23 :: u32) @ replicate 23 0),
      invalid ''malformed.truncated-body'' ''truncated-frame'' (butlast (framed body)),
      invalid ''malformed.oversized-length'' ''frame-too-long'' (be_encode (4097 :: u32)),
      invalid ''malformed.invalid-magic'' ''malformed-envelope'' ((framed body)[4 := framed body ! 4 XOR 0xff]),
      invalid ''malformed.trailing-byte'' ''trailing-bytes'' (framed body @ [0xff])]"
    by (simp only: invalid_frame_vectors_def Let_def assms(1) max ok_or_def ok_then_simps option.case if_False)
  show thesis
    by (rule that [OF made]) (simp_all add: short malformed too_long_prefix frame_variations [OF assms(2,3)] invalid_def
      CARBON_UPDATE_V0_INVALID_FRAMES_def)
qed

section \<open>The generator\<close>

definition vector_results :: "fixtures \<Rightarrow> frame_vector generated list" where
  "vector_results fx = hello_frames fx @ control_frames fx @ accept_frames fx @ enumerate_frames fx
    @ vector_frames fx @ subscription_frames fx @ protocol_error_frames @ update_error_frames
    @ capability_error_frames @ limit_frames fx"

lemma golden_frames_collects: "golden_frames fx = collect (vector_results fx)"
  by (simp add: golden_frames_def vector_results_def)

lemma every_frame_conforms:
  "services_ok svc \<Longrightarrow> list_all (conforms svc control) (vector_results (golden_fixtures k (is_sign svc control)))"
  by (simp add: vector_results_def hello_conforms control_conforms accept_conforms enumerate_conforms vector_conforms
      subscription_conforms errors_conform limit_conforms)

lemma collects:
  assumes "list_all (\<lambda>r. case r of Inl _ \<Rightarrow> False | Inr v \<Rightarrow> P v) rs"
  obtains vs where "collect rs = Inr vs" "map Inr vs = rs" "list_all P vs"
proof -
  have "map Inr (map projr rs) = rs"
    using assms by (induction rs) (auto split: sum.splits)
  moreover have "list_all P (map projr rs)"
    using assms by (induction rs) (auto split: sum.splits)
  ultimately show thesis using that collect_Inr by metis
qed

definition result_name :: "frame_vector generated \<Rightarrow> string" where
  "result_name r = (case r of Inl _ \<Rightarrow> [] | Inr v \<Rightarrow> fv_name v)"

lemma result_names:
  "conforms svc control (frame name category kind b payload) \<Longrightarrow> result_name (frame name category kind b payload) = name"
  "conforms svc control (frame_of name category kind b made) \<Longrightarrow> result_name (frame_of name category kind b made) = name"
  by (auto simp add: result_name_def conforms_def frame_name frame_of_name split: sum.splits)

lemma golden_names:
  assumes "services_ok svc"
  shows "map result_name (vector_results (golden_fixtures k (is_sign svc control))) = take 21 CARBON_UPDATE_V0_PROFILE
    @ [''vector-backfill.request.origin'', ''vector-backfill.request.continue'', ''vector-backfill.response.page'']
    @ drop 21 CARBON_UPDATE_V0_PROFILE"
proof -
  let ?fx = "golden_fixtures k (is_sign svc control)"
  note names = result_names [where svc = svc and control = control]
  have "map result_name (hello_frames ?fx) = [''hello.client'', ''hello.server'', ''certificate-manifest.request'',
      ''certificate-manifest.response'']"
    using hello_conforms [OF assms, of control k] by (simp add: hello_frames_def names)
  moreover have "map result_name (control_frames ?fx) = [''document.create.request'',
      ''document.create.response.inserted'', ''document.create.response.already-present'',
      ''capability.grant.request'', ''capability.grant.response.inserted'',
      ''capability.grant.response.already-present'', ''capability.revoke.request'',
      ''capability.revoke.response.inserted'', ''capability.revoke.response.already-present'']"
    using control_conforms [of svc control k "is_sign svc control"] by (simp add: control_frames_def names)
  moreover have "map result_name (accept_frames ?fx) = [''accept.request.authorized'', ''accept.response.inserted'',
      ''accept.response.already-present'']"
    using accept_conforms [of svc control k "is_sign svc control"] by (simp add: accept_frames_def names)
  moreover have "map result_name (enumerate_frames ?fx) = [''enumerate.request.origin'', ''enumerate.request.continue'',
      ''enumerate.request.after-tail'', ''enumerate.response.page'', ''enumerate.response.empty'']"
    using enumerate_conforms [of svc control k "is_sign svc control"] by (simp add: enumerate_frames_def names)
  moreover have "map result_name (vector_frames ?fx) = [''vector-backfill.request.origin'',
      ''vector-backfill.request.continue'', ''vector-backfill.response.page'', ''fetch.request'', ''fetch.response'']"
    using vector_conforms [of svc control k "is_sign svc control"] by (simp add: vector_frames_def names)
  moreover have "map result_name (subscription_frames ?fx) = [''subscription.request'', ''subscription.acknowledgement'',
      ''subscription.notification'', ''subscription.overflow'', ''subscription.invalidated'',
      ''subscription.cancel.request'', ''subscription.cancel.response'']"
    using subscription_conforms [of svc control k "is_sign svc control"] by (simp add: subscription_frames_def names)
  moreover have "map result_name protocol_error_frames = [''error.protocol.unsupported-version'',
      ''error.protocol.unsupported-profile'', ''error.protocol.expected-hello'',
      ''error.protocol.already-negotiated'', ''error.protocol.malformed-hello'']"
    using errors_conform(1) [of svc control] by (simp add: protocol_error_frames_def names)
  moreover have "map result_name update_error_frames = [''error.update.malformed'', ''error.update.identifier-conflict'',
      ''error.update.not-found'', ''error.update.not-negotiated'', ''error.update.invalid-cursor'',
      ''error.update.counter-exhausted'', ''error.update.authorization-denied'', ''error.update.backpressure'',
      ''error.update.invalid-loro-metadata'', ''error.update.invalid-or-expired-continuation'',
      ''error.update.limit-exceeded'', ''error.update.retired-document'']"
    using errors_conform(2) [of svc control] by (simp add: update_error_frames_def names)
  moreover have "map result_name capability_error_frames = [''error.capability.malformed'',
      ''error.capability.authorization-denied'', ''error.capability.identifier-conflict'',
      ''error.capability.request-conflict'', ''error.capability.counter-exhausted'', ''error.capability.limit-exceeded'']"
    using errors_conform(3) [of svc control] by (simp add: capability_error_frames_def names)
  moreover have "map result_name (limit_frames ?fx) = [''limit.maximum-greeting-fields'',
      ''limit.maximum-application-payload'']"
    using limit_conforms [of svc control k "is_sign svc control"] by (simp add: limit_frames_def names)
  ultimately show ?thesis by (simp add: vector_results_def CARBON_UPDATE_V0_PROFILE_def)
qed

lemma every_payload_refused:
  "list_all (refused_as_named svc control) (invalid_requests (golden_fixtures k s) @ invalid_pages (golden_fixtures k s))"
  by (simp add: invalid_requests_refused invalid_pages_refused)

definition refused_name :: "invalid_payload_vector generated \<Rightarrow> string" where
  "refused_name r = (case r of Inl _ \<Rightarrow> [] | Inr v \<Rightarrow> fv_name (ip_frame v))"

lemma refused_names:
  "refused_as_named svc control (invalid_payload expected (frame name category kind b payload)) \<Longrightarrow>
    refused_name (invalid_payload expected (frame name category kind b payload)) = name"
  by (auto simp add: refused_name_def refused_as_named_def invalid_payload_def ok_then_Inr_iff frame_name split: sum.splits)

lemma invalid_request_names:
  "map refused_name (invalid_requests (golden_fixtures k s)) = CARBON_UPDATE_V0_INVALID_PAYLOADS"
  using invalid_requests_refused [of demo_services "[]" k s]
  by (simp add: invalid_requests_def Let_def refused_names [of demo_services "[]"] CARBON_UPDATE_V0_INVALID_PAYLOADS_def)

lemma map_results: "map Inr vs = rs \<Longrightarrow> map f rs = map (\<lambda>v. f (Inr v)) vs"
  by auto

lemma covered: "set profile \<subseteq> set names \<Longrightarrow> profile_covered complaint profile names = Inr ()"
proof -
  assume "set profile \<subseteq> set names"
  then have "find (\<lambda>name. name \<notin> set names) profile = None" by (auto simp add: find_None_iff)
  then show "profile_covered complaint profile names = Inr ()" by (simp add: profile_covered_def)
qed

lemma frame_of_shape:
  assumes "frame_of name category kind b payload = Inr v"
  obtains body e where "fv_frame v = framed body" "length body \<le> MAX_BODY_LENGTH" "decode_body body = Inr e"
proof -
  obtain p where "frame name category kind b p = Inr v"
    using assms by (auto simp add: frame_of_def ok_then_Inr_iff)
  then obtain e where e: "encode_frame e = Inr (fv_frame v)"
    by (auto simp add: frame_def Let_def ok_then_Inr_iff)
  then obtain body where "encode_body e = Inr body" "fv_frame v = framed body"
    by (auto simp add: encode_frame_iff framed_def)
  then show thesis using that [of body e] encode_body_length [of e body] by (simp add: decode_body_iff)
qed

lemma payloads_collected:
  obtains payloads where "invalid_payload_vectors (golden_fixtures k s) = Inr payloads"
    "map Inr payloads = invalid_requests (golden_fixtures k s) @ invalid_pages (golden_fixtures k s)"
    "list_all (\<lambda>v. frame_verdict (fv_frame (ip_frame v)) = ''accepted'' \<and> payload_verdict svc control (fv_category (ip_frame v))
        (fv_message_type (ip_frame v)) (fv_payload (ip_frame v)) = ip_expected_error v) payloads"
proof -
  from collects [OF every_payload_refused [of svc control k s, unfolded refused_as_named_def]] obtain payloads where
    "collect (invalid_requests (golden_fixtures k s) @ invalid_pages (golden_fixtures k s)) = Inr payloads"
    "map Inr payloads = invalid_requests (golden_fixtures k s) @ invalid_pages (golden_fixtures k s)"
    "list_all (\<lambda>v. frame_verdict (fv_frame (ip_frame v)) = ''accepted'' \<and> payload_verdict svc control (fv_category (ip_frame v))
        (fv_message_type (ip_frame v)) (fv_payload (ip_frame v)) = ip_expected_error v) payloads"
    by blast
  then show thesis using that by (simp only: invalid_payload_vectors_def)
qed

lemma frames_collected:
  assumes "services_ok svc"
  obtains frames where "golden_frames (golden_fixtures k (is_sign svc control)) = Inr frames"
    "map Inr frames = vector_results (golden_fixtures k (is_sign svc control))"
    "list_all (\<lambda>v. frame_verdict (fv_frame v) = ''accepted''
        \<and> payload_verdict svc control (fv_category v) (fv_message_type v) (fv_payload v) = expected_verdict (fv_name v)) frames"
proof -
  let ?fx = "golden_fixtures k (is_sign svc control)"
  from collects [OF every_frame_conforms [OF assms, of control k, unfolded conforms_def]] obtain frames where
    "collect (vector_results ?fx) = Inr frames" "map Inr frames = vector_results ?fx"
    "list_all (\<lambda>v. frame_verdict (fv_frame v) = ''accepted''
        \<and> payload_verdict svc control (fv_category v) (fv_message_type v) (fv_payload v) = expected_verdict (fv_name v)) frames"
    by blast
  then show thesis using that by (simp only: golden_frames_collects)
qed

lemma first_vector:
  assumes "map Inr frames = vector_results fx"
  obtains first others body e where "frames = first # others" "fv_frame first = framed body"
    "length body \<le> MAX_BODY_LENGTH" "decode_body body = Inr e"
proof -
  have "\<exists>tail. vector_results fx = frame_of ''hello.client'' ''hello'' CLIENT_HELLO 0x11
      (map_err GenerateIo (encode_greeting PROFILE_ID CARBON_BANNER)) # tail"
    unfolding vector_results_def hello_frames_def append_Cons by (rule exI) (rule refl)
  then obtain tail where results: "vector_results fx = frame_of ''hello.client'' ''hello'' CLIENT_HELLO 0x11
      (map_err GenerateIo (encode_greeting PROFILE_ID CARBON_BANNER)) # tail" ..
  obtain first others where first: "frames = first # others"
    using assms unfolding results by (cases frames) simp_all
  have "frame_of ''hello.client'' ''hello'' CLIENT_HELLO 0x11
      (map_err GenerateIo (encode_greeting PROFILE_ID CARBON_BANNER)) = Inr first"
    using assms unfolding results first list.map list.inject by simp
  then show thesis by (rule frame_of_shape) (rule that [OF first])
qed

lemma profile_named: "set CARBON_UPDATE_V0_PROFILE \<subseteq> set (take 21 CARBON_UPDATE_V0_PROFILE @ extra @ drop 21 CARBON_UPDATE_V0_PROFILE)"
  by (metis Un_iff append_take_drop_id set_append subsetI)

lemma generate_renders:
  assumes "generate_fixtures from_seed = Inr fx" "golden_frames fx = Inr frames" "invalid_payload_vectors fx = Inr payloads"
    "frames = first # others" "invalid_frame_vectors first = Inr refused"
    "set CARBON_UPDATE_V0_PROFILE \<subseteq> set (map fv_name frames)"
    "set CARBON_UPDATE_V0_INVALID_PAYLOADS \<subseteq> set (map (\<lambda>v. fv_name (ip_frame v)) payloads)"
    "set CARBON_UPDATE_V0_INVALID_FRAMES \<subseteq> set (map iv_name refused)"
  shows "generate from_seed = Inr (render frames payloads refused (fx_control_public_key fx) (fx_certificate_manifest fx))"
  using assms(5)
  by (simp add: generate_def assms(1-3) assms(4) covered [OF assms(6), unfolded assms(4)] covered [OF assms(7)]
      covered [OF assms(8)] del: list.map)

lemma map_Inr_third: "map Inr xs = x # y # z # w # tail \<Longrightarrow> z = Inr (xs ! 2)"
  by (auto simp add: map_eq_Cons_conv)

lemma map_Inr_fourth: "map Inr xs = x # y # z # w # tail \<Longrightarrow> w = Inr (xs ! 3)"
  by (auto simp add: map_eq_Cons_conv)

text \<open>The gateway that holds the manifest of the corpus answers the request for it with the response.\<close>

lemma manifest_vectors:
  assumes "map Inr frames = vector_results fx" "length (fx_certificate_manifest fx) \<le> MAX_APPLICATION_PAYLOAD_LENGTH"
  shows "\<exists>body answer. fv_frame (frames ! 2) = framed body \<and> fv_frame (frames ! 3) = framed answer
    \<and> certificate_manifest_response body (fx_certificate_manifest fx) = Inr (Some answer)"
proof -
  let ?e = "\<lambda>kind payload. \<lparr> ev_correlation_id = repeated 0x18, ev_message_type = kind, ev_payload = payload, ev_version = VERSION \<rparr>"
  let ?request = "frame ''certificate-manifest.request'' ''credentials'' CERTIFICATE_MANIFEST 0x18 []"
    and ?response = "frame ''certificate-manifest.response'' ''credentials'' CERTIFICATE_MANIFEST_RESPONSE 0x18
      (fx_certificate_manifest fx)"
  have "\<exists>x y tail. vector_results fx = x # y # ?request # ?response # tail"
    unfolding vector_results_def hello_frames_def append_Cons by (intro exI) (rule refl)
  then obtain x y tail where "map Inr frames = x # y # ?request # ?response # tail" using assms(1) by metis
  then have made: "?request = Inr (frames ! 2)" "?response = Inr (frames ! 3)" by (rule map_Inr_third, rule map_Inr_fourth)
  have framed: "\<exists>body. encode_body (?e kind payload) = Inr body \<and> fv_frame v = framed body"
    if "frame name category kind 0x18 payload = Inr v" for v name category kind payload
  proof -
    have "encode_frame (?e kind payload) = Inr (fv_frame v)"
      using that by (auto simp add: frame_def Let_def ok_then_Inr_iff)
    then show ?thesis by (auto simp add: encode_frame_iff framed_def)
  qed
  obtain body answer where b: "encode_body (?e CERTIFICATE_MANIFEST []) = Inr body" "fv_frame (frames ! 2) = framed body"
    "encode_body (?e CERTIFICATE_MANIFEST_RESPONSE (fx_certificate_manifest fx)) = Inr answer"
    "fv_frame (frames ! 3) = framed answer"
    using framed [OF made(1)] framed [OF made(2)] by blast
  then have "decode_body body = Inr (?e CERTIFICATE_MANIFEST [])" by (simp add: decode_body_iff)
  then have "certificate_manifest_response body (fx_certificate_manifest fx) = Inr (Some answer)"
    by (rule manifest_answered) (simp_all add: b(3))
  then show ?thesis using b(2,4) by blast
qed

text \<open>
  C37: the golden corpus conforms to the services.  With the control key of a gateway, the
  generator succeeds: every encoder accepts its fixture and every name of the profile is that of
  a vector.  The gateway's request reader accepts each frame of the corpus and the reader of its
  message its payload (the decoders; the gateway and the holder of the key for the credentials;
  the waiting client for protocol errors, of which it knows all but the rejection of a malformed
  hello), and the gateway answers the request for the manifest with the very response.  Each
  invalid payload comes in a frame that is accepted, and its decoder refuses it for the reason
  the vector names; each invalid frame is refused by the reader or the envelope decoder for the
  reason it names, except the empty stream, which the reader takes as one without a request and
  not as a truncated frame.
\<close>

theorem golden_corpus_conforms:
  assumes "services_ok svc"
    and "from_seed (replicate 32 0x7a) = Some (be_encode (is_public_key svc control), is_sign svc control)"
  shows "\<exists>fx frames payloads refused. generate_fixtures from_seed = Inr fx \<and> golden_frames fx = Inr frames
    \<and> invalid_payload_vectors fx = Inr payloads \<and> invalid_frame_vectors (hd frames) = Inr refused
    \<and> generate from_seed = Inr (render frames payloads refused (be_encode (is_public_key svc control)) (fx_certificate_manifest fx))
    \<and> list_all (\<lambda>v. frame_verdict (fv_frame v) = ''accepted''
        \<and> payload_verdict svc control (fv_category v) (fv_message_type v) (fv_payload v) =
          (if fv_name v = ''error.protocol.malformed-hello'' then ''unknown-negotiation-rejection'' else ''accepted'')) frames
    \<and> (\<exists>body answer. fv_frame (frames ! 2) = framed body \<and> fv_frame (frames ! 3) = framed answer
        \<and> certificate_manifest_response body (fx_certificate_manifest fx) = Inr (Some answer))
    \<and> list_all (\<lambda>v. frame_verdict (fv_frame (ip_frame v)) = ''accepted'' \<and> payload_verdict svc control
        (fv_category (ip_frame v)) (fv_message_type (ip_frame v)) (fv_payload (ip_frame v)) = ip_expected_error v) payloads
    \<and> list_all (\<lambda>v. frame_verdict (iv_frame v) =
        (if iv_name v = ''malformed.empty-stream'' then ''no-frame'' else iv_expected_error v)) refused"
proof -
  let ?fx = "golden_fixtures (be_encode (is_public_key svc control)) (is_sign svc control)"
  have signs: "signs_with from_seed (be_encode (is_public_key svc control)) (is_sign svc control)"
    using assms by (simp add: signs_with_def services_ok_def SIGNATURE_LENGTH_def)
  obtain frames where frames: "golden_frames ?fx = Inr frames" "map Inr frames = vector_results ?fx"
    "list_all (\<lambda>v. frame_verdict (fv_frame v) = ''accepted''
        \<and> payload_verdict svc control (fv_category v) (fv_message_type v) (fv_payload v) = expected_verdict (fv_name v)) frames"
    by (rule frames_collected [OF assms(1)])
  have names: "map fv_name frames = map result_name (vector_results ?fx)"
    using map_results [OF frames(2), of result_name] by (simp add: result_name_def)
  have "length (golden_manifest (is_sign svc control)) \<le> MAX_APPLICATION_PAYLOAD_LENGTH"
    using golden_manifest_length [OF signs] by (simp add: update_length_defs)
  then have answered: "\<exists>body answer. fv_frame (frames ! 2) = framed body \<and> fv_frame (frames ! 3) = framed answer
      \<and> certificate_manifest_response body (fx_certificate_manifest ?fx) = Inr (Some answer)"
    by (intro manifest_vectors [OF frames(2)]) simp
  obtain payloads where payloads: "invalid_payload_vectors ?fx = Inr payloads"
    "map Inr payloads = invalid_requests ?fx @ invalid_pages ?fx"
    "list_all (\<lambda>v. frame_verdict (fv_frame (ip_frame v)) = ''accepted'' \<and> payload_verdict svc control
        (fv_category (ip_frame v)) (fv_message_type (ip_frame v)) (fv_payload (ip_frame v)) = ip_expected_error v) payloads"
    by (rule payloads_collected)
  have refused_names: "map (\<lambda>v. fv_name (ip_frame v)) payloads = CARBON_UPDATE_V0_INVALID_PAYLOADS
      @ map refused_name (invalid_pages ?fx)"
    using map_results [OF payloads(2), of refused_name] invalid_request_names by (simp add: refused_name_def)
  obtain first others body e where first: "frames = first # others" and shape: "fv_frame first = framed body"
      "length body \<le> MAX_BODY_LENGTH" "decode_body body = Inr e"
    using frames(2) by (rule first_vector)
  from shape obtain refused where refused: "invalid_frame_vectors first = Inr refused"
    "list_all (\<lambda>v. frame_verdict (iv_frame v) =
      (if iv_name v = ''malformed.empty-stream'' then ''no-frame'' else iv_expected_error v)) refused"
    "map iv_name refused = CARBON_UPDATE_V0_INVALID_FRAMES"
    by (rule invalid_frames_refused)
  have "set CARBON_UPDATE_V0_PROFILE \<subseteq> set (map fv_name frames)"
    unfolding names golden_names [OF assms(1)] by (rule profile_named)
  moreover have "fx_control_public_key ?fx = be_encode (is_public_key svc control)" by (simp add: golden_fixtures_def)
  ultimately have "generate from_seed = Inr (render frames payloads refused (be_encode (is_public_key svc control))
      (fx_certificate_manifest ?fx))"
    using generate_renders [OF fixtures_made [OF signs] frames(1) payloads(1) first refused(1)] refused_names refused(3) by simp
  moreover have "invalid_frame_vectors (hd frames) = Inr refused" using refused(1) by (simp only: first list.sel)
  moreover note fixtures_made [OF signs] frames(1) frames(3) [unfolded expected_verdict_def] answered payloads(1,3) refused(2)
  ultimately show ?thesis
    by (intro exI [of _ ?fx] exI [of _ frames] exI [of _ payloads] exI [of _ refused]) (simp only: simp_thms)
qed

text \<open>A key that signs with a fixed signature, the only one that verifies.\<close>

lemma golden_corpus_conforms_witness:
  "\<exists>fx frames payloads refused. generate_fixtures (\<lambda>_. Some (be_encode (0 :: key32), \<lambda>_. replicate 64 1)) = Inr fx \<and> golden_frames fx = Inr frames
    \<and> invalid_payload_vectors fx = Inr payloads \<and> invalid_frame_vectors (hd frames) = Inr refused
    \<and> generate (\<lambda>_. Some (be_encode (0 :: key32), \<lambda>_. replicate 64 1)) = Inr (render frames payloads refused (be_encode (is_public_key demo_services [])) (fx_certificate_manifest fx))
    \<and> list_all (\<lambda>v. frame_verdict (fv_frame v) = ''accepted''
        \<and> payload_verdict demo_services [] (fv_category v) (fv_message_type v) (fv_payload v) =
          (if fv_name v = ''error.protocol.malformed-hello'' then ''unknown-negotiation-rejection'' else ''accepted'')) frames
    \<and> (\<exists>body answer. fv_frame (frames ! 2) = framed body \<and> fv_frame (frames ! 3) = framed answer
        \<and> certificate_manifest_response body (fx_certificate_manifest fx) = Inr (Some answer))
    \<and> list_all (\<lambda>v. frame_verdict (fv_frame (ip_frame v)) = ''accepted'' \<and> payload_verdict demo_services []
        (fv_category (ip_frame v)) (fv_message_type (ip_frame v)) (fv_payload (ip_frame v)) = ip_expected_error v) payloads
    \<and> list_all (\<lambda>v. frame_verdict (iv_frame v) =
        (if iv_name v = ''malformed.empty-stream'' then ''no-frame'' else iv_expected_error v)) refused"
  by (rule golden_corpus_conforms [OF demo_services_ok]) (simp add: demo_services_def)

end
