(* ===== verification/Spec2Isabelle.thy ===== *)
theory Spec2Isabelle
  imports Wire_Codecs Store_Oracle Request_Safety Supervisor Gateway_Identity Gateway_Relay Store_Open Connection_Properties
    Subject_Properties Vector_Conformance
begin

text \<open>
  A verification library for Renee, a local-first document service.  Four processes exchange
  length-prefixed frames over Unix sockets: the gateway accepts clients, a session process
  negotiates and relays, the store process (renee-stored) keeps documents in SQLite and
  enforces capabilities, and a supervisor starts and restarts them.  A deterministic reference
  model (renee-model) is the oracle of the conformance tests.  All paths below are under
  \<open>src/crates\<close>.

  THEORIES, in the order of their imports.

  Prelude.  The result monad of fallible code (\<open>Inl\<close> is the error), big-endian integers, the
  decoder that takes fields from the front of a slice, slices, and the codec interfaces:
  \<open>field_codec\<close> (a decoder that accepts exactly the encodings and leaves the rest),
  \<open>message_codec\<close> (a decoder of a whole payload), \<open>closed_codec\<close> and \<open>code_payload\<close>.

  Types.  \<open>renee-types/src/lib.rs\<close>: identifiers as 128-bit words, secrets as 256-bit words,
  acceptance sequences with checked successor, canonical Loro ranges and oplog versions,
  immutable updates and operation sets on \<open>u16\<close> bits.

  Wire_Frame, Wire_Capability, Wire_Update, Wire_Codecs.  \<open>renee-wire/src/\<close> \<open>lib.rs\<close>,
  \<open>capability.rs\<close> and \<open>update.rs\<close>: framing and greeting, control messages, update messages.
  Each codec is an interpretation of an interface of the prelude: its decoder accepts exactly
  the encodings of the valid values.

  Ordered_Map.  Key-ordered maps behind the interface \<open>ordered_map\<close>: the \<open>BTreeMap\<close>s of the
  model and the tables of the store.

  Model.  \<open>renee-model/src/lib.rs\<close>: negotiation, the capability model and the update model.

  Verifier.  \<open>renee-stored/src/verifier.rs\<close> over a parameter \<open>sha\<close> for SHA-256.

  Store_Tables, Store_Control.  \<open>renee-stored/src/store.rs\<close>: the schema as a record of typed
  tables, and the control transactions (create, grant, revoke with its preflight,
  authorization, receipts, revisions, limits), each a function from the tables to a storage
  error or to an outcome with the tables it leaves.

  Ancestry.  Parent chains and the interface \<open>rooted_forest\<close>: the specification of every bounded
  ancestry loop.

  Store_Invariant, Store_Safety, Store_Limits, Store_Steps.  The invariant \<open>control_ok\<close> of the
  control tables (foreign keys, parents created earlier and with more authority, depth at most
  64, contiguous control revisions, receipts that describe what they did, counts within their
  limits), what the loops mean under it, its preservation by each transaction, the size of the
  tables under the count limits, and the step relation with its histories.

  Store_Demo, Store_Properties.  Concrete states for the witnesses, and the properties of the
  control transactions over all histories.

  Store_Updates, Store_Acceptance, Store_Selection, Store_History.  The update transactions of
  \<open>store.rs\<close> (acceptance with its peer and range indexes, enumeration, vector backfill, fetch),
  the invariant of the update tables, and histories that mix all transactions.

  Model_Updates, Store_Refinement, Store_Update_Properties, Store_Oracle.  What the model's update
  operations compute; the refinement of the update model by the store; the refinement of the
  capability model by the control tables: given the requests that the store inserts, the model
  inserts them all and authorizes the same, but at the one depth at which the two disagree.

  Store_Drain.  Reading a captured window page after page while the store changes: it ends and it
  yields exactly the captured updates.

  Subscriptions, Subscription_Safety, Subscription_Runs, Subscription_Properties, Emission.
  \<open>renee-stored/src/subscription.rs\<close> and the writer and control tasks of \<open>main.rs\<close> around its
  emission gate: what Rust shares behind an \<open>Arc\<close> is a cell of an explicit heap, tasks interleave
  at every await point.

  Store_Passes, Store_Broker, Pass_Safety, Pass_Requests, Broker_Safety, Broker_Properties.  The
  stable passes behind continuation tokens, the operations of \<open>DurableUpdateStore\<close> that join
  tables, passes and subscriptions, the invariant of the whole broker under any sequence of
  requests, and its properties: what sessions hold, what a revoke ends, which errors are left,
  retries.

  Store_Validate, Validate_Control, Validate_Updates, Validate_Reachable, Store_Open.  The
  constraints of the schema, \<open>validate\<close> with all its loops, and \<open>open\<close>.  The checks accept exactly
  the invariants above, every reachable state passes them, and a database that only this program
  wrote opens again after any number of starts, stops and crashes between transactions.

  Request_Handling, Request_Safety.  \<open>handle_request\<close> of \<open>renee-stored/src/main.rs\<close>: the
  dispatch of one envelope to the operations above and the reply it gets; every reply has the
  type its request expects.

  Connection, Connection_Frames, Connection_Safety, Connection_Invariant, Connection_Steps,
  Connection_Properties.  The rest of \<open>renee-stored/src/main.rs\<close>: one connection with its reader,
  its serving loop and its forwarding tasks as a step relation that interleaves with everything
  else the process does, and the accept loop.  What each step does to the registry; the protocol of
  a subscription as a reference automaton over the bodies written; the invariant that ties the
  automaton to tasks, queues and registry; replies in order, the protocol, bounds and the end of a
  cancellation.

  Session.  \<open>renee-sessiond/src/main.rs\<close>: negotiation, the two readers and the relay loop, a
  function of the frames in the order in which they arrive.

  Arguments, Supervisor_Config, Supervisor.  The command lines of the daemons (\<open>from_args\<close> of
  \<open>renee-stored\<close>, \<open>renee-sessiond\<close> and \<open>renee-gatewayd\<close>); \<open>renee-supervisord/src/main.rs\<close>: its
  configuration with the command lines it gives its children, and restart budgets, start,
  monitoring, restarts and drain as step relations over the processes that are alive.

  Gateway_Identity.  \<open>renee-gatewayd/src/identity.rs\<close>: signed certificate manifests, the identity
  directory as a record of files, and \<open>prepare\<close> with the writes it makes, over records of
  functions for signatures and certificates.

  Gateway_Relay.  \<open>renee-gatewayd/src/main.rs\<close>: the tasks of public streams and the dispatcher
  that routes responses and events of the session, as a step relation.

  Subject_Client, Subject_Safety, Subject_Updates, Subject_Properties.  The client of
  \<open>renee-subject/src/lib.rs\<close>: one request and one reply per stream under a correlation number,
  and what the client makes of the reply.  The interface \<open>request_transport\<close> states what the way
  through gateway and session promises; its interpretation \<open>relayed\<close> is the relay in front of
  the store's request handling.  The properties compose client, codecs, handling and
  transactions: what a client observes is what the store did.

  Wire_Vectors, Vector_Conformance.  \<open>renee-wire-vectors/src/lib.rs\<close> (under \<open>src/tools\<close>): the
  generator of the golden corpus with its text; and what the readers of this repository make of
  every vector of it: the request reader of the gateway, the codecs, the waiting client for
  protocol errors, the gateway and the holder of its key for the credentials.  The two vectors
  on which the corpus and the readers differ are stated as such.

  FUEL.  The loops of the source that stop after \<open>MAX_CAPABILITY_DEPTH\<close> = 64 steps are recursive
  functions on that number, exactly as in the code.  The recursive SQL query of the revoke has
  64 generations of fuel; \<open>subtree_complete\<close> shows that they reach every descendant in a good
  state.

  ASSUMPTIONS.  SHA-256 is an arbitrary function; \<open>ct_eq\<close> is equality.  SQLite is the
  primary-key, foreign-key and CHECK constraints of the schema, with atomic transactions; BLOB
  columns of fixed length are words, which SQLite orders as their big-endian bytes.  I/O
  failures of SQLite and of sockets, the conformance-only barriers and the pragmas are left out.
  The address parser, the file system and the build mode are parameters of the configurations.
  What a process does, when it exits and when shutdown is requested are choices of the
  supervisor's steps.  Ed25519 is a signing function for a seed in the corpus and a record of
  functions in the gateway.

  NOT MODELLED.  TLS, WebTransport and the other endpoints of the network; the conformance
  tests and the barriers that only they use; writing diagnostics; reading and writing the
  file of the corpus.
\<close>

end
